(* ===== verification/Prelude.thy ===== *)
theory Prelude
  imports Main "HOL-Library.Word"
begin

text \<open>
  Prelude of the development: the types the components share (bytes, pointers into a buffer),
  the reading of C character literals, and generic facts on lists and words that the component
  proofs use.

  A C pointer into a buffer is the offset of the byte it points to; \<open>NULL\<close> is \<open>None\<close>
  (type \<open>ptr\<close>). A \<open>u_char\<close> is an \<open>8 word\<close>: comparisons are unsigned, as in C.
\<close>

unbundle bit_operations_syntax

named_theorems byte_simps \<open>evaluation and classification of bytes\<close>
named_theorems byte_range_simps \<open>sub-ranges of byte lists\<close>

type_synonym byte = "8 word"
type_synonym ptr = "nat option"

section \<open>Characters\<close>

text \<open>The value of a C character literal: \<open>c8 CHR ''/''\<close> is \<open>'/'\<close>.\<close>

definition c8 :: "char \<Rightarrow> byte" where
  [simp]: "c8 c = word_of_nat (of_char c)"

abbreviation (input) CR :: byte where "CR \<equiv> 13"
abbreviation (input) LF :: byte where "LF \<equiv> 10"

definition str8 :: "string \<Rightarrow> byte list" where
  [simp]: "str8 s = map c8 s"

text \<open>\<open>ch >= '0' && ch <= '9'\<close>, and \<open>c = ch | 0x20; c >= 'a' && c <= 'z'\<close>.\<close>

definition is_digit :: "byte \<Rightarrow> bool" where
  "is_digit ch \<longleftrightarrow> c8 CHR ''0'' \<le> ch \<and> ch \<le> c8 CHR ''9''"

definition lower :: "byte \<Rightarrow> byte" where
  "lower ch = ch OR 0x20"

definition is_alpha :: "byte \<Rightarrow> bool" where
  "is_alpha ch \<longleftrightarrow> c8 CHR ''a'' \<le> lower ch \<and> lower ch \<le> c8 CHR ''z''"

definition is_hex_alpha :: "byte \<Rightarrow> bool" where
  "is_hex_alpha ch \<longleftrightarrow> c8 CHR ''a'' \<le> lower ch \<and> lower ch \<le> c8 CHR ''f''"

text \<open>\<open>ch - '0'\<close> and \<open>c - 'a' + 10\<close>, in the ranges where the code computes them.\<close>

definition digit_val :: "byte \<Rightarrow> nat" where
  "digit_val ch = unat ch - 48"

definition hex_alpha_val :: "byte \<Rightarrow> nat" where
  "hex_alpha_val ch = unat (lower ch) - 97 + 10"

lemma digit_val_le: "is_digit ch \<Longrightarrow> digit_val ch \<le> 9"
  by (auto simp: is_digit_def digit_val_def word_le_nat_alt)

lemma hex_alpha_val_le: "is_hex_alpha ch \<Longrightarrow> hex_alpha_val ch \<le> 15"
  by (auto simp: is_hex_alpha_def hex_alpha_val_def word_le_nat_alt)

section \<open>Lists and sub-ranges\<close>

text \<open>The bytes \<open>[i, j)\<close> of a buffer.\<close>

definition byte_range :: "nat \<Rightarrow> nat \<Rightarrow> 'a list \<Rightarrow> 'a list" where
  "byte_range i j xs = take (j - i) (drop i xs)"

lemma length_byte_range [simp]: "j \<le> length xs \<Longrightarrow> length (byte_range i j xs) = j - i"
  by (simp add: byte_range_def)

lemma byte_range_same [simp]: "byte_range i i xs = []"
  by (simp add: byte_range_def)

lemma byte_range_snoc:
  assumes "i \<le> j" "j < length xs"
  shows "byte_range i (Suc j) xs = byte_range i j xs @ [xs ! j]"
  using assms by (simp add: byte_range_def Suc_diff_le take_Suc_conv_app_nth)

lemma byte_range_Cons:
  assumes "i < j" "j \<le> length xs"
  shows "byte_range i j xs = xs ! i # byte_range (Suc i) j xs"
proof -
  have "drop i xs = xs ! i # drop (Suc i) xs"
    using assms by (simp add: Cons_nth_drop_Suc)
  moreover have "j - i = Suc (j - Suc i)" using assms by simp
  ultimately show ?thesis by (simp add: byte_range_def)
qed

lemma byte_range_append:
  assumes "i \<le> j" "j \<le> k"
  shows "byte_range i k xs = byte_range i j xs @ byte_range j k xs"
proof -
  have k: "k - i = (j - i) + (k - j)" using assms by simp
  have "drop (j - i) (drop i xs) = drop j xs" using assms by simp
  then show ?thesis by (simp add: byte_range_def k take_add)
qed

lemma nth_byte_range [simp]: "i + n < j \<Longrightarrow> j \<le> length xs \<Longrightarrow> byte_range i j xs ! n = xs ! (i + n)"
  by (simp add: byte_range_def)

lemma nth_take_eq:
  assumes "take n xs = take n ys" "i < n"
  shows "xs ! i = ys ! i"
proof -
  have "take n xs ! i = take n ys ! i" using assms(1) by simp
  with assms(2) show ?thesis by simp
qed

lemma take_eq_mono:
  assumes "take n xs = take n ys" "m \<le> n"
  shows "take m xs = take m ys"
proof -
  have "take m (take n xs) = take m (take n ys)" using assms(1) by simp
  with assms(2) show ?thesis by (simp add: min_absorb1)
qed

lemma byte_range_take_eq:
  assumes "take n xs = take n ys" "j \<le> n"
  shows "byte_range i j xs = byte_range i j ys"
proof -
  have "byte_range i j zs = drop i (take j zs)" for zs :: "'a list"
    by (simp add: byte_range_def drop_take)
  then show ?thesis using take_eq_mono [OF assms] by simp
qed

text \<open>All bytes of a range satisfy a predicate.\<close>

definition bytes_all :: "('a \<Rightarrow> bool) \<Rightarrow> nat \<Rightarrow> nat \<Rightarrow> 'a list \<Rightarrow> bool" where
  "bytes_all P i j xs \<longleftrightarrow> (\<forall>k\<in>{i..<j}. P (xs ! k))"

lemma bytes_all_same [simp]: "j \<le> i \<Longrightarrow> bytes_all P i j xs"
  by (simp add: bytes_all_def)

lemma bytes_all_Suc: "i \<le> j \<Longrightarrow> bytes_all P i (Suc j) xs \<longleftrightarrow> bytes_all P i j xs \<and> P (xs ! j)"
  by (auto simp: bytes_all_def less_Suc_eq)

lemma bytes_all_prefix:
  assumes "take n xs = take n ys" "j \<le> n"
  shows "bytes_all P i j xs = bytes_all P i j ys"
  using nth_take_eq [OF assms(1)] assms(2) by (auto simp: bytes_all_def)

lemma bytes_all_byte_range:
  "j \<le> length xs \<Longrightarrow> bytes_all P i j xs \<longleftrightarrow> (\<forall>c\<in>set (byte_range i j xs). P c)"
proof (rule iffI)
  assume "j \<le> length xs" "\<forall>c\<in>set (byte_range i j xs). P c"
  moreover have "xs ! k \<in> set (byte_range i j xs)" if "i \<le> k" "k < j" "j \<le> length xs" for k
    using that nth_mem [of "k - i" "byte_range i j xs"] by simp
  ultimately show "bytes_all P i j xs" by (auto simp: bytes_all_def)
qed (auto simp: bytes_all_def in_set_conv_nth)

section \<open>32-bit arithmetic and assertions\<close>

text \<open>The value of an expression of type \<open>uint32_t\<close>, or of \<open>size_t\<close> on this target.\<close>

definition uint32 :: "nat \<Rightarrow> nat" where
  "uint32 n = n mod 2 ^ 32"

text \<open>A failing assertion ends the process.\<close>

definition assert_that :: "bool \<Rightarrow> unit option" where
  "assert_that b = (if b then Some () else None)"

lemma uint32_small [simp]: "n < 2 ^ 32 \<Longrightarrow> uint32 n = n"
  by (simp add: uint32_def)

end
