(* ===== verification/Byte_Scanner.thy ===== *)
theory Byte_Scanner
  imports Prelude
begin

text \<open>
  The common shape of nginx's line parsers: a loop
  \<open>for (p = b->pos; p < b->last; p++) { ch = *p; switch (state) { ... } }\<close> whose local
  variables survive between calls in the request, so that a parse interrupted by the end of the
  received data (\<open>NGX_AGAIN\<close>) goes on when more bytes arrive.

  One turn of the loop is a function from the memory, the position and the local state to
  \<open>Go\<close> (the next turn's state) or \<open>Stop\<close> (a \<open>return\<close> or a \<open>goto\<close> out of the loop).
  The locale \<open>byte_scanner\<close> states what such a turn promises: it keeps an invariant, its exits
  satisfy a postcondition, and it reads no byte behind the one it is at. From these laws follow,
  once for all parsers, the invariant and postcondition of whole scans and the resumption law:
  stopping at any byte and going on later gives the result of the uninterrupted scan.
\<close>

datatype ('s, 'o) flow = Go 's | Stop 'o

function scan_bytes ::
  "(byte list \<Rightarrow> nat \<Rightarrow> 's \<Rightarrow> ('s, 'o) flow) \<Rightarrow> byte list \<Rightarrow> nat \<Rightarrow> nat \<Rightarrow> 's \<Rightarrow> ('s, 'o) flow"
where
  "scan_bytes step mem p e s =
     (if p < e then
        (case step mem p s of
           Go s' \<Rightarrow> scan_bytes step mem (Suc p) e s'
         | Stop v \<Rightarrow> Stop v)
      else Go s)"
  by pat_completeness auto
termination
  by (relation "measure (\<lambda>(step, mem, p, e, s). e - p)") auto

declare scan_bytes.simps [simp del]

lemma scan_bytes_end [simp]: "e \<le> p \<Longrightarrow> scan_bytes step mem p e s = Go s"
  by (subst scan_bytes.simps) simp

lemma scan_bytes_step:
  "p < e \<Longrightarrow> scan_bytes step mem p e s =
     (case step mem p s of Go s' \<Rightarrow> scan_bytes step mem (Suc p) e s' | Stop v \<Rightarrow> Stop v)"
  by (subst scan_bytes.simps) simp

text \<open>A scan up to \<open>e\<close> is a scan up to any earlier point followed by the rest.\<close>

lemma scan_bytes_split:
  "p \<le> m \<Longrightarrow> m \<le> e \<Longrightarrow>
   scan_bytes step mem p e s =
     (case scan_bytes step mem p m s of Go s' \<Rightarrow> scan_bytes step mem m e s' | Stop v \<Rightarrow> Stop v)"
proof (induction "m - p" arbitrary: p s)
  case 0
  then show ?case by simp
next
  case (Suc n)
  then have lt: "p < m" "p < e" by auto
  show ?case
  proof (cases "step mem p s")
    case (Go s')
    have "scan_bytes step mem (Suc p) e s' =
        (case scan_bytes step mem (Suc p) m s' of
           Go s'' \<Rightarrow> scan_bytes step mem m e s'' | Stop v \<Rightarrow> Stop v)"
      by (rule Suc.hyps(1)) (use Suc.hyps(2) Suc.prems lt in auto)
    with lt Go show ?thesis by (simp add: scan_bytes_step)
  next
    case (Stop v)
    with lt show ?thesis by (simp add: scan_bytes_step)
  qed
qed

text \<open>A renaming of the local state that every turn commutes with.\<close>

lemma scan_bytes_map:
  assumes "\<And>p s. step mem p (h s) = map_flow h g (step mem p s)"
  shows "scan_bytes step mem p e (h s) = map_flow h g (scan_bytes step mem p e s)"
proof (induction "e - p" arbitrary: p s)
  case 0
  then show ?case by simp
next
  case (Suc n)
  then show ?case by (cases "step mem p s") (auto simp: scan_bytes_step assms)
qed

locale byte_scanner =
  fixes step :: "byte list \<Rightarrow> nat \<Rightarrow> 's \<Rightarrow> ('s, 'o) flow"
    and inv :: "byte list \<Rightarrow> nat \<Rightarrow> 's \<Rightarrow> bool"
    and post :: "byte list \<Rightarrow> nat \<Rightarrow> 'o \<Rightarrow> bool"
  assumes step_inv:
      "p < length mem \<Longrightarrow> inv mem p s \<Longrightarrow> step mem p s = Go s' \<Longrightarrow> inv mem (Suc p) s'"
    and step_post:
      "p < length mem \<Longrightarrow> inv mem p s \<Longrightarrow> step mem p s = Stop v \<Longrightarrow> post mem p v"
    and step_prefix:
      "p < length mem \<Longrightarrow> p < length mem' \<Longrightarrow> take (Suc p) mem = take (Suc p) mem' \<Longrightarrow>
       inv mem p s \<Longrightarrow> step mem p s = step mem' p s"
    and inv_prefix:
      "p \<le> length mem \<Longrightarrow> p \<le> length mem' \<Longrightarrow> take p mem = take p mem' \<Longrightarrow>
       inv mem p s \<Longrightarrow> inv mem' p s"
begin

lemma scan_inv:
  assumes "p \<le> e" "e \<le> length mem" "inv mem p s" "scan_bytes step mem p e s = Go s'"
  shows "inv mem e s'"
  using assms
proof (induction "e - p" arbitrary: p s)
  case 0
  then show ?case by simp
next
  case (Suc n)
  then have lt: "p < e" by simp
  with Suc.prems obtain t where t: "step mem p s = Go t" "scan_bytes step mem (Suc p) e t = Go s'"
    by (auto simp: scan_bytes_step split: flow.splits)
  have i: "inv mem (Suc p) t" using lt Suc.prems t(1) by (auto intro: step_inv)
  show ?case
    by (rule Suc.hyps(1) [of "Suc p" t]) (use Suc.hyps(2) lt Suc.prems i t(2) in auto)
qed

lemma scan_post:
  assumes "e \<le> length mem" "inv mem p s" "scan_bytes step mem p e s = Stop v"
  shows "\<exists>q. p \<le> q \<and> q < e \<and> post mem q v"
  using assms
proof (induction "e - p" arbitrary: p s)
  case 0
  then show ?case by simp
next
  case (Suc n)
  then have lt: "p < e" by simp
  show ?case
  proof (cases "step mem p s")
    case (Go t)
    then have "inv mem (Suc p) t" "scan_bytes step mem (Suc p) e t = Stop v"
      using lt Suc.prems by (auto intro: step_inv simp: scan_bytes_step)
    then have "\<exists>q. Suc p \<le> q \<and> q < e \<and> post mem q v"
      using Suc.hyps lt Suc.prems by auto
    then show ?thesis by (meson Suc_leD)
  next
    case (Stop w)
    with lt Suc.prems have "post mem p v" by (auto simp: scan_bytes_step intro: step_post)
    with lt show ?thesis by auto
  qed
qed

lemma scan_prefix:
  assumes "e \<le> length mem" "e \<le> length mem'" "take e mem = take e mem'" "inv mem p s"
  shows "scan_bytes step mem p e s = scan_bytes step mem' p e s"
  using assms
proof (induction "e - p" arbitrary: p s)
  case 0
  then show ?case by simp
next
  case (Suc n)
  then have lt: "p < e" by simp
  have "take (Suc p) mem = take (Suc p) mem'"
    using Suc.prems(3) lt by (auto intro: take_eq_mono)
  then have same: "step mem p s = step mem' p s"
    using lt Suc.prems by (intro step_prefix) auto
  show ?case
  proof (cases "step mem p s")
    case (Go t)
    then have "inv mem (Suc p) t" using lt Suc.prems by (auto intro: step_inv)
    then have "scan_bytes step mem (Suc p) e t = scan_bytes step mem' (Suc p) e t"
      using Suc.hyps lt Suc.prems by auto
    moreover from Go same have "step mem' p s = Go t" by simp
    ultimately show ?thesis using Go lt by (simp add: scan_bytes_step)
  next
    case (Stop v)
    with same have "step mem' p s = Stop v" by simp
    with Stop lt show ?thesis by (simp add: scan_bytes_step)
  qed
qed

text \<open>
  Resumption: the bytes up to \<open>m\<close> arrive first and leave the scan in state \<open>s'\<close>; the
  buffer then grows to \<open>mem'\<close>. Going on from \<open>m\<close> is the scan of the whole of \<open>mem'\<close>.
\<close>

lemma scan_resume:
  assumes "p \<le> m" "m \<le> e" "m \<le> length mem" "e \<le> length mem'" "take m mem = take m mem'"
    and "inv mem p s" "scan_bytes step mem p m s = Go s'"
  shows "scan_bytes step mem' p e s = scan_bytes step mem' m e s'"
proof -
  have "scan_bytes step mem' p m s = Go s'"
    using scan_prefix [of m mem mem' p s] assms by simp
  then show ?thesis
    using scan_bytes_split [OF assms(1,2), of step mem' s] by simp
qed

lemma scan_resume_stop:
  assumes "p \<le> m" "m \<le> e" "m \<le> length mem" "e \<le> length mem'" "take m mem = take m mem'"
    and "inv mem p s" "scan_bytes step mem p m s = Stop v"
  shows "scan_bytes step mem' p e s = Stop v"
proof -
  have "scan_bytes step mem' p m s = Stop v"
    using scan_prefix [of m mem mem' p s] assms by simp
  then show ?thesis
    using scan_bytes_split [OF assms(1,2), of step mem' s] by simp
qed

end

end
