(* ===== verification/Ngx_Http_Types.thy ===== *)
theory Ngx_Http_Types
  imports Byte_Scanner
begin

text \<open>
  Data shared by nginx's HTTP parsers (\<open>ngx_http_request.h\<close>, \<open>ngx_buf.h\<close>, \<open>ngx_core.h\<close>):
  the return codes, the input buffer, and the fields of \<open>ngx_http_request_t\<close> that the parsers
  read and write. Pointers are offsets into the buffer's memory. The bit fields \<open>http_major:16\<close>
  and \<open>http_minor:16\<close> are naturals with the truncation to 16 bits written out where they are
  assigned. \<open>ngx_uint_t\<close> is 32 bits wide on wasm32.
\<close>

datatype ngx_rc =
    NGX_OK | NGX_ERROR | NGX_AGAIN | NGX_DONE | NGX_DECLINED
  | NGX_HTTP_PARSE_HEADER_DONE
  | NGX_HTTP_PARSE_INVALID_METHOD | NGX_HTTP_PARSE_INVALID_REQUEST
  | NGX_HTTP_PARSE_INVALID_VERSION | NGX_HTTP_PARSE_INVALID_09_METHOD
  | NGX_HTTP_PARSE_INVALID_HEADER
  | NGX_HTTP_BAD_REQUEST | NGX_HTTP_INTERNAL_SERVER_ERROR

record ngx_buf =
  buf_mem :: "byte list"
  buf_pos :: nat
  buf_last :: nat

abbreviation (input) NGX_HTTP_UNKNOWN :: nat where "NGX_HTTP_UNKNOWN \<equiv> 0x00001"
abbreviation (input) NGX_HTTP_GET :: nat where "NGX_HTTP_GET \<equiv> 0x00002"
abbreviation (input) NGX_HTTP_HEAD :: nat where "NGX_HTTP_HEAD \<equiv> 0x00004"
abbreviation (input) NGX_HTTP_POST :: nat where "NGX_HTTP_POST \<equiv> 0x00008"
abbreviation (input) NGX_HTTP_PUT :: nat where "NGX_HTTP_PUT \<equiv> 0x00010"
abbreviation (input) NGX_HTTP_DELETE :: nat where "NGX_HTTP_DELETE \<equiv> 0x00020"
abbreviation (input) NGX_HTTP_MKCOL :: nat where "NGX_HTTP_MKCOL \<equiv> 0x00040"
abbreviation (input) NGX_HTTP_COPY :: nat where "NGX_HTTP_COPY \<equiv> 0x00080"
abbreviation (input) NGX_HTTP_MOVE :: nat where "NGX_HTTP_MOVE \<equiv> 0x00100"
abbreviation (input) NGX_HTTP_OPTIONS :: nat where "NGX_HTTP_OPTIONS \<equiv> 0x00200"
abbreviation (input) NGX_HTTP_PROPFIND :: nat where "NGX_HTTP_PROPFIND \<equiv> 0x00400"
abbreviation (input) NGX_HTTP_PROPPATCH :: nat where "NGX_HTTP_PROPPATCH \<equiv> 0x00800"
abbreviation (input) NGX_HTTP_LOCK :: nat where "NGX_HTTP_LOCK \<equiv> 0x01000"
abbreviation (input) NGX_HTTP_UNLOCK :: nat where "NGX_HTTP_UNLOCK \<equiv> 0x02000"
abbreviation (input) NGX_HTTP_PATCH :: nat where "NGX_HTTP_PATCH \<equiv> 0x04000"
abbreviation (input) NGX_HTTP_TRACE :: nat where "NGX_HTTP_TRACE \<equiv> 0x08000"
abbreviation (input) NGX_HTTP_CONNECT :: nat where "NGX_HTTP_CONNECT \<equiv> 0x10000"

record ngx_http_request =
  upstream :: bool  \<comment> \<open>\<open>r->upstream != NULL\<close>\<close>
  "method" :: nat
  http_version :: nat
  uri :: "byte list"  \<comment> \<open>an \<open>ngx_str_t\<close> is the list of the bytes it designates\<close>
  args :: "byte list"
  exten :: "byte list"
  unparsed_uri :: "byte list"
  http_protocol_data :: ptr
  complex_uri :: bool
  quoted_uri :: bool
  plus_in_uri :: bool
  empty_path_in_uri :: bool
  invalid_header :: bool
  valid_unparsed_uri :: bool
  state :: nat
  header_hash :: "32 word"
  lowcase_index :: nat
  lowcase_header :: "byte list"
  header_name_start :: ptr
  header_name_end :: ptr
  header_start :: ptr
  header_end :: ptr
  uri_start :: ptr
  uri_end :: ptr
  uri_ext :: ptr
  args_start :: ptr
  request_start :: ptr
  request_end :: ptr
  method_end :: ptr
  schema_start :: ptr
  schema_end :: ptr
  host_start :: ptr
  host_end :: ptr
  http_minor :: nat
  http_major :: nat

text \<open>
  A fresh request: \<open>ngx_http_alloc_request\<close> clears the structure with \<open>ngx_pcalloc\<close> and sets
  \<open>r->method = NGX_HTTP_UNKNOWN\<close> and \<open>r->http_version = NGX_HTTP_VERSION_10\<close>.
\<close>

definition fresh_request :: ngx_http_request where
  "fresh_request = \<lparr>
     upstream = False, method = NGX_HTTP_UNKNOWN, http_version = 1000,
     uri = [], args = [], exten = [], unparsed_uri = [], http_protocol_data = None,
     complex_uri = False, quoted_uri = False, plus_in_uri = False, empty_path_in_uri = False,
     invalid_header = False, valid_unparsed_uri = False,
     state = 0, header_hash = 0, lowcase_index = 0, lowcase_header = replicate 32 0,
     header_name_start = None, header_name_end = None, header_start = None, header_end = None,
     uri_start = None, uri_end = None, uri_ext = None, args_start = None,
     request_start = None, request_end = None, method_end = None,
     schema_start = None, schema_end = None, host_start = None, host_end = None,
     http_minor = 0, http_major = 0\<rparr>"

text \<open>How a line parser leaves its loop: a \<open>return\<close>, or a \<open>goto done\<close>.\<close>

datatype exit = Return ngx_rc | Goto_done

text \<open>
  The table of characters that need no attention inside a URI:
  \<open>usual[ch >> 5] & (1U << (ch & 0x1f))\<close> (the variant of Unix systems).
\<close>

definition usual_table :: "32 word list" where
  "usual_table =
     [0x00000000, 0x7fff37d6, 0xffffffff, 0x7fffffff,
      0xffffffff, 0xffffffff, 0xffffffff, 0xffffffff]"

definition usual :: "byte \<Rightarrow> bool" where
  "usual ch \<longleftrightarrow> (usual_table ! unat (drop_bit 5 ch)) AND push_bit (unat (ch AND 0x1f)) 1 \<noteq> 0"

text \<open>
  The multi-byte comparisons \<open>ngx_str3_cmp\<close>, \<open>ngx_str3Ocmp\<close>, \<open>ngx_str4cmp\<close> ... of the
  method names: the bytes at \<open>m\<close> are those of the literal.
\<close>

definition bytes_at :: "byte list \<Rightarrow> nat \<Rightarrow> string \<Rightarrow> bool" where
  "bytes_at mem m s \<longleftrightarrow> take (length s) (drop m mem) = map c8 s"

lemma bytes_at_byte_range:
  "m + length s \<le> length mem \<Longrightarrow> bytes_at mem m s \<longleftrightarrow> byte_range m (m + length s) mem = map c8 s"
  by (simp add: bytes_at_def byte_range_def)

lemma bytes_at_prefix:
  assumes "take n mem = take n mem'" "m + length s \<le> n"
  shows "bytes_at mem m s = bytes_at mem' m s"
proof -
  have "byte_range m (m + length s) mem = byte_range m (m + length s) mem'"
    using assms by (rule byte_range_take_eq)
  then show ?thesis by (simp add: bytes_at_def byte_range_def)
qed

text \<open>The characters the parsers treat apart are not \<open>usual\<close>.\<close>

lemma usual_not_special [byte_simps]:
  "\<not> usual 0x2f" "\<not> usual 0x2e" "\<not> usual 0x25" "\<not> usual 0x23" "\<not> usual 0x3f" "\<not> usual 0x2b"
  "\<not> usual 0x20" "\<not> usual 13" "\<not> usual 10" "\<not> usual 0" "\<not> usual 0x7f"
  by (simp_all add: usual_def usual_table_def)

lemma usual_neq [byte_simps]:
  assumes "usual ch"
  shows "ch \<noteq> 0x2f" "ch \<noteq> 0x2e" "ch \<noteq> 0x25" "ch \<noteq> 0x23" "ch \<noteq> 0x3f" "ch \<noteq> 0x2b"
    "ch \<noteq> 0x20" "ch \<noteq> 13" "ch \<noteq> 10" "ch \<noteq> 0" "ch \<noteq> 0x7f"
  using assms usual_not_special by auto

text \<open>No control character, blank or DEL is \<open>usual\<close>.\<close>

lemma usual_printable:
  assumes "usual ch"
  shows "0x20 < ch" "ch \<noteq> 0x7f"
proof -
  have "\<not> usual ch" if le: "ch \<le> 0x20"
  proof (cases "ch = 0x20")
    case True
    then show ?thesis by (simp add: byte_simps)
  next
    case False
    with le have lt: "unat ch < 32"
      by (simp add: word_le_nat_alt word_unat_eq_iff)
    have "drop_bit 5 ch = 0"
      by (rule word_unat_eq_iff [THEN iffD2]) (use lt in \<open>simp add: unat_drop_bit_eq drop_bit_eq_div unat_div\<close>)
    then show ?thesis by (simp add: usual_def usual_table_def)
  qed
  with assms show "0x20 < ch" using not_less by blast
  show "ch \<noteq> 0x7f" using assms by (auto simp: byte_simps)
qed

end
