(* ===== verification/Ngx_Http_Request_Line.thy ===== *)
theory Ngx_Http_Request_Line
  imports Ngx_Http_Types
begin

text \<open>
  \<open>ngx_http_parse_request_line\<close> of \<open>src/http/ngx_http_parse.c\<close>: one definition per state of
  its \<open>switch\<close>, in the order of the source, a fall-through being a call of the next state's
  definition. \<open>Go (st, r)\<close> is a \<open>break\<close> with the next state \<open>st\<close>, \<open>Stop\<close> a \<open>return\<close>
  or a \<open>goto done\<close>. Under \<open>NGX_WIN32\<close> guarded code is not part of the program.
\<close>

section \<open>States\<close>

datatype rl_state =
    RL_start | RL_method | RL_spaces_before_uri | RL_schema | RL_schema_slash
  | RL_schema_slash_slash | RL_spaces_before_host | RL_host_start | RL_host | RL_host_end
  | RL_host_ip_literal | RL_port_start | RL_port | RL_after_slash_in_uri | RL_check_uri
  | RL_uri | RL_http_09 | RL_http_H | RL_http_HT | RL_http_HTT | RL_http_HTTP
  | RL_first_major_digit | RL_major_digit | RL_first_minor_digit | RL_minor_digit
  | RL_spaces_after_digit | RL_almost_done

text \<open>
  The request keeps the state as an unsigned integer, \<open>sw_start = 0\<close> and so on; an integer
  outside the enumeration matches no \<open>case\<close>.
\<close>

definition rl_states :: "rl_state list" where
  "rl_states =
     [RL_start, RL_method, RL_spaces_before_uri, RL_schema, RL_schema_slash,
      RL_schema_slash_slash, RL_spaces_before_host, RL_host_start, RL_host, RL_host_end,
      RL_host_ip_literal, RL_port_start, RL_port, RL_after_slash_in_uri, RL_check_uri,
      RL_uri, RL_http_09, RL_http_H, RL_http_HT, RL_http_HTT, RL_http_HTTP,
      RL_first_major_digit, RL_major_digit, RL_first_minor_digit, RL_minor_digit,
      RL_spaces_after_digit, RL_almost_done]"

definition rl_decode :: "nat \<Rightarrow> rl_state option" where
  "rl_decode n = (if n < length rl_states then Some (rl_states ! n) else None)"

primrec rl_encode :: "rl_state \<Rightarrow> nat" where
  "rl_encode RL_start = 0"
| "rl_encode RL_method = 1"
| "rl_encode RL_spaces_before_uri = 2"
| "rl_encode RL_schema = 3"
| "rl_encode RL_schema_slash = 4"
| "rl_encode RL_schema_slash_slash = 5"
| "rl_encode RL_spaces_before_host = 6"
| "rl_encode RL_host_start = 7"
| "rl_encode RL_host = 8"
| "rl_encode RL_host_end = 9"
| "rl_encode RL_host_ip_literal = 10"
| "rl_encode RL_port_start = 11"
| "rl_encode RL_port = 12"
| "rl_encode RL_after_slash_in_uri = 13"
| "rl_encode RL_check_uri = 14"
| "rl_encode RL_uri = 15"
| "rl_encode RL_http_09 = 16"
| "rl_encode RL_http_H = 17"
| "rl_encode RL_http_HT = 18"
| "rl_encode RL_http_HTT = 19"
| "rl_encode RL_http_HTTP = 20"
| "rl_encode RL_first_major_digit = 21"
| "rl_encode RL_major_digit = 22"
| "rl_encode RL_first_minor_digit = 23"
| "rl_encode RL_minor_digit = 24"
| "rl_encode RL_spaces_after_digit = 25"
| "rl_encode RL_almost_done = 26"

lemma rl_decode_encode [simp]: "rl_decode (rl_encode st) = Some st"
  by (cases st) (simp_all add: rl_decode_def rl_states_def)

type_synonym rl_flow =
  "(rl_state \<times> ngx_http_request, exit \<times> ngx_http_request \<times> nat) flow"

section \<open>The states' code\<close>

definition rl_sw_start :: "byte list \<Rightarrow> nat \<Rightarrow> ngx_http_request \<Rightarrow> rl_flow" where
  "rl_sw_start mem p r =
     (let ch = mem ! p; r = r\<lparr>request_start := Some p\<rparr> in
      if ch = CR \<or> ch = LF then Go (RL_start, r)
      else if (ch < c8 CHR ''A'' \<or> c8 CHR ''Z'' < ch) \<and> ch \<noteq> c8 CHR ''_'' \<and> ch \<noteq> c8 CHR ''-''
      then Stop (Return NGX_HTTP_PARSE_INVALID_METHOD, r, p)
      else Go (RL_method, r))"

text \<open>
  The \<open>switch (p - m)\<close> on the method's length: the method (unchanged where no name matches)
  and the next state.
\<close>

definition rl_method_name :: "byte list \<Rightarrow> nat \<Rightarrow> nat \<Rightarrow> nat \<Rightarrow> nat \<times> rl_state" where
  "rl_method_name mem m p old =
     (if p - m = 3 then
        (if bytes_at mem m ''GET '' then (NGX_HTTP_GET, RL_spaces_before_uri)
         else if bytes_at mem m ''PUT '' then (NGX_HTTP_PUT, RL_spaces_before_uri)
         else (old, RL_spaces_before_uri))
      else if p - m = 4 then
        (if mem ! (m + 1) = c8 CHR ''O'' then
           (if bytes_at mem m ''POST'' then (NGX_HTTP_POST, RL_spaces_before_uri)
            else if bytes_at mem m ''COPY'' then (NGX_HTTP_COPY, RL_spaces_before_uri)
            else if bytes_at mem m ''MOVE'' then (NGX_HTTP_MOVE, RL_spaces_before_uri)
            else if bytes_at mem m ''LOCK'' then (NGX_HTTP_LOCK, RL_spaces_before_uri)
            else (old, RL_spaces_before_uri))
         else if bytes_at mem m ''HEAD'' then (NGX_HTTP_HEAD, RL_spaces_before_uri)
         else (old, RL_spaces_before_uri))
      else if p - m = 5 then
        (if bytes_at mem m ''MKCOL'' then (NGX_HTTP_MKCOL, RL_spaces_before_uri)
         else if bytes_at mem m ''PATCH'' then (NGX_HTTP_PATCH, RL_spaces_before_uri)
         else if bytes_at mem m ''TRACE'' then (NGX_HTTP_TRACE, RL_spaces_before_uri)
         else (old, RL_spaces_before_uri))
      else if p - m = 6 then
        (if bytes_at mem m ''DELETE'' then (NGX_HTTP_DELETE, RL_spaces_before_uri)
         else if bytes_at mem m ''UNLOCK'' then (NGX_HTTP_UNLOCK, RL_spaces_before_uri)
         else (old, RL_spaces_before_uri))
      else if p - m = 7 then
        (if bytes_at mem m ''OPTIONS '' then (NGX_HTTP_OPTIONS, RL_spaces_before_uri)
         else if bytes_at mem m ''CONNECT '' then (NGX_HTTP_CONNECT, RL_spaces_before_host)
         else (old, RL_spaces_before_uri))
      else if p - m = 8 then
        (if bytes_at mem m ''PROPFIND'' then (NGX_HTTP_PROPFIND, RL_spaces_before_uri)
         else (old, RL_spaces_before_uri))
      else if p - m = 9 then
        (if bytes_at mem m ''PROPPATCH'' then (NGX_HTTP_PROPPATCH, RL_spaces_before_uri)
         else (old, RL_spaces_before_uri))
      else (old, RL_spaces_before_uri))"

definition rl_sw_method :: "byte list \<Rightarrow> nat \<Rightarrow> ngx_http_request \<Rightarrow> rl_flow" where
  "rl_sw_method mem p r =
     (let ch = mem ! p in
      if ch = c8 CHR '' '' then
        (let r = r\<lparr>method_end := Some (p - 1)\<rparr>;
             (mt, st) = rl_method_name mem (the (request_start r)) p (method r)
         in Go (st, r\<lparr>method := mt\<rparr>))
      else if (ch < c8 CHR ''A'' \<or> c8 CHR ''Z'' < ch) \<and> ch \<noteq> c8 CHR ''_'' \<and> ch \<noteq> c8 CHR ''-''
      then Stop (Return NGX_HTTP_PARSE_INVALID_METHOD, r, p)
      else Go (RL_method, r))"

definition rl_sw_spaces_before_uri :: "byte list \<Rightarrow> nat \<Rightarrow> ngx_http_request \<Rightarrow> rl_flow" where
  "rl_sw_spaces_before_uri mem p r =
     (let ch = mem ! p in
      if ch = c8 CHR ''/'' then Go (RL_after_slash_in_uri, r\<lparr>uri_start := Some p\<rparr>)
      else if is_alpha ch then Go (RL_schema, r\<lparr>schema_start := Some p\<rparr>)
      else if ch = c8 CHR '' '' then Go (RL_spaces_before_uri, r)
      else Stop (Return NGX_HTTP_PARSE_INVALID_REQUEST, r, p))"

definition rl_sw_schema :: "byte list \<Rightarrow> nat \<Rightarrow> ngx_http_request \<Rightarrow> rl_flow" where
  "rl_sw_schema mem p r =
     (let ch = mem ! p in
      if is_alpha ch then Go (RL_schema, r)
      else if is_digit ch \<or> ch = c8 CHR ''+'' \<or> ch = c8 CHR ''-'' \<or> ch = c8 CHR ''.''
      then Go (RL_schema, r)
      else if ch = c8 CHR '':'' then Go (RL_schema_slash, r\<lparr>schema_end := Some p\<rparr>)
      else Stop (Return NGX_HTTP_PARSE_INVALID_REQUEST, r, p))"

definition rl_sw_schema_slash :: "byte list \<Rightarrow> nat \<Rightarrow> ngx_http_request \<Rightarrow> rl_flow" where
  "rl_sw_schema_slash mem p r =
     (if mem ! p = c8 CHR ''/'' then Go (RL_schema_slash_slash, r)
      else Stop (Return NGX_HTTP_PARSE_INVALID_REQUEST, r, p))"

definition rl_sw_schema_slash_slash :: "byte list \<Rightarrow> nat \<Rightarrow> ngx_http_request \<Rightarrow> rl_flow" where
  "rl_sw_schema_slash_slash mem p r =
     (if mem ! p = c8 CHR ''/'' then Go (RL_host_start, r)
      else Stop (Return NGX_HTTP_PARSE_INVALID_REQUEST, r, p))"

text \<open>
  The end of the authority, \<open>switch (ch)\<close> of \<open>sw_host_end\<close> and of \<open>sw_port\<close> (the same code
  twice in the source): a path, an empty path with arguments, or no path at all.
\<close>

definition rl_after_host :: "byte list \<Rightarrow> nat \<Rightarrow> ngx_http_request \<Rightarrow> rl_flow" where
  "rl_after_host mem p r =
     (let ch = mem ! p in
      if ch = c8 CHR ''/'' then Go (RL_after_slash_in_uri, r\<lparr>uri_start := Some p\<rparr>)
      else if ch = c8 CHR ''?'' then
        Go (RL_uri, r\<lparr>uri_start := Some p, args_start := Some (p + 1), empty_path_in_uri := True\<rparr>)
      else if ch = c8 CHR '' '' then
        Go (RL_http_09, r\<lparr>uri_start := map_option (\<lambda>q. q + 1) (schema_end r),
                            uri_end := map_option (\<lambda>q. q + 2) (schema_end r)\<rparr>)
      else Stop (Return NGX_HTTP_PARSE_INVALID_REQUEST, r, p))"

definition rl_sw_host_end :: "byte list \<Rightarrow> nat \<Rightarrow> ngx_http_request \<Rightarrow> rl_flow" where
  "rl_sw_host_end mem p r =
     (if mem ! p = c8 CHR '':'' then Go (RL_port_start, r)
      else
        (let r = r\<lparr>host_end := Some p\<rparr> in
         if method r = NGX_HTTP_CONNECT then Stop (Return NGX_HTTP_PARSE_INVALID_REQUEST, r, p)
         else rl_after_host mem p r))"

definition rl_sw_host :: "byte list \<Rightarrow> nat \<Rightarrow> ngx_http_request \<Rightarrow> rl_flow" where
  "rl_sw_host mem p r =
     (let ch = mem ! p in
      if is_alpha ch then Go (RL_host, r)
      else if is_digit ch \<or> ch = c8 CHR ''.'' \<or> ch = c8 CHR ''-'' then Go (RL_host, r)
      else rl_sw_host_end mem p r)"

definition rl_sw_host_start :: "byte list \<Rightarrow> nat \<Rightarrow> ngx_http_request \<Rightarrow> rl_flow" where
  "rl_sw_host_start mem p r =
     (let r = r\<lparr>host_start := Some p\<rparr> in
      if mem ! p = c8 CHR ''['' then Go (RL_host_ip_literal, r) else rl_sw_host mem p r)"

definition rl_sw_spaces_before_host :: "byte list \<Rightarrow> nat \<Rightarrow> ngx_http_request \<Rightarrow> rl_flow" where
  "rl_sw_spaces_before_host mem p r =
     (if mem ! p = c8 CHR '' '' then Go (RL_spaces_before_host, r) else rl_sw_host_start mem p r)"

definition rl_sw_host_ip_literal :: "byte list \<Rightarrow> nat \<Rightarrow> ngx_http_request \<Rightarrow> rl_flow" where
  "rl_sw_host_ip_literal mem p r =
     (let ch = mem ! p in
      if is_digit ch then Go (RL_host_ip_literal, r)
      else if is_alpha ch then Go (RL_host_ip_literal, r)
      else if ch = c8 CHR '':'' then Go (RL_host_ip_literal, r)
      else if ch = c8 CHR '']'' then Go (RL_host_end, r)
      else if ch \<in> set (str8 ''-._~'') then Go (RL_host_ip_literal, r)
      else if ch \<in> set (str8 ''!$&()*+,;='') \<or> ch = 0x27 then Go (RL_host_ip_literal, r)
      else Stop (Return NGX_HTTP_PARSE_INVALID_REQUEST, r, p))"

definition rl_sw_port :: "byte list \<Rightarrow> nat \<Rightarrow> ngx_http_request \<Rightarrow> rl_flow" where
  "rl_sw_port mem p r =
     (let ch = mem ! p in
      if is_digit ch then Go (RL_port, r)
      else
        (let r = r\<lparr>host_end := Some p\<rparr> in
         if method r = NGX_HTTP_CONNECT then
           (if ch = c8 CHR '' '' then Go (RL_http_09, r)
            else Stop (Return NGX_HTTP_PARSE_INVALID_REQUEST, r, p))
         else rl_after_host mem p r))"

definition rl_sw_port_start :: "byte list \<Rightarrow> nat \<Rightarrow> ngx_http_request \<Rightarrow> rl_flow" where
  "rl_sw_port_start mem p r =
     (if is_digit (mem ! p) then Go (RL_port, r)
      else if method r = NGX_HTTP_CONNECT then Stop (Return NGX_HTTP_PARSE_INVALID_REQUEST, r, p)
      else rl_sw_port mem p r)"

text \<open>The URI ends at a blank, a CR or a LF: the same three cases in every URI state.\<close>

definition rl_sw_after_slash_in_uri :: "byte list \<Rightarrow> nat \<Rightarrow> ngx_http_request \<Rightarrow> rl_flow" where
  "rl_sw_after_slash_in_uri mem p r =
     (let ch = mem ! p in
      if usual ch then Go (RL_check_uri, r)
      else if ch = c8 CHR '' '' then Go (RL_http_09, r\<lparr>uri_end := Some p\<rparr>)
      else if ch = CR then Go (RL_almost_done, r\<lparr>uri_end := Some p, http_minor := 9\<rparr>)
      else if ch = LF then Stop (Goto_done, r\<lparr>uri_end := Some p, http_minor := 9\<rparr>, p)
      else if ch = c8 CHR ''.'' then Go (RL_uri, r\<lparr>complex_uri := True\<rparr>)
      else if ch = c8 CHR ''%'' then Go (RL_uri, r\<lparr>quoted_uri := True\<rparr>)
      else if ch = c8 CHR ''/'' then Go (RL_uri, r\<lparr>complex_uri := True\<rparr>)
      else if ch = c8 CHR ''?'' then Go (RL_uri, r\<lparr>args_start := Some (p + 1)\<rparr>)
      else if ch = c8 CHR ''#'' then Go (RL_uri, r\<lparr>complex_uri := True\<rparr>)
      else if ch = c8 CHR ''+'' then Go (RL_after_slash_in_uri, r\<lparr>plus_in_uri := True\<rparr>)
      else if ch < 0x20 \<or> ch = 0x7f then Stop (Return NGX_HTTP_PARSE_INVALID_REQUEST, r, p)
      else Go (RL_check_uri, r))"

definition rl_sw_check_uri :: "byte list \<Rightarrow> nat \<Rightarrow> ngx_http_request \<Rightarrow> rl_flow" where
  "rl_sw_check_uri mem p r =
     (let ch = mem ! p in
      if usual ch then Go (RL_check_uri, r)
      else if ch = c8 CHR ''/'' then Go (RL_after_slash_in_uri, r\<lparr>uri_ext := None\<rparr>)
      else if ch = c8 CHR ''.'' then Go (RL_check_uri, r\<lparr>uri_ext := Some (p + 1)\<rparr>)
      else if ch = c8 CHR '' '' then Go (RL_http_09, r\<lparr>uri_end := Some p\<rparr>)
      else if ch = CR then Go (RL_almost_done, r\<lparr>uri_end := Some p, http_minor := 9\<rparr>)
      else if ch = LF then Stop (Goto_done, r\<lparr>uri_end := Some p, http_minor := 9\<rparr>, p)
      else if ch = c8 CHR ''%'' then Go (RL_uri, r\<lparr>quoted_uri := True\<rparr>)
      else if ch = c8 CHR ''?'' then Go (RL_uri, r\<lparr>args_start := Some (p + 1)\<rparr>)
      else if ch = c8 CHR ''#'' then Go (RL_uri, r\<lparr>complex_uri := True\<rparr>)
      else if ch = c8 CHR ''+'' then Go (RL_check_uri, r\<lparr>plus_in_uri := True\<rparr>)
      else if ch < 0x20 \<or> ch = 0x7f then Stop (Return NGX_HTTP_PARSE_INVALID_REQUEST, r, p)
      else Go (RL_check_uri, r))"

definition rl_sw_uri :: "byte list \<Rightarrow> nat \<Rightarrow> ngx_http_request \<Rightarrow> rl_flow" where
  "rl_sw_uri mem p r =
     (let ch = mem ! p in
      if usual ch then Go (RL_uri, r)
      else if ch = c8 CHR '' '' then Go (RL_http_09, r\<lparr>uri_end := Some p\<rparr>)
      else if ch = CR then Go (RL_almost_done, r\<lparr>uri_end := Some p, http_minor := 9\<rparr>)
      else if ch = LF then Stop (Goto_done, r\<lparr>uri_end := Some p, http_minor := 9\<rparr>, p)
      else if ch = c8 CHR ''#'' then Go (RL_uri, r\<lparr>complex_uri := True\<rparr>)
      else if ch < 0x20 \<or> ch = 0x7f then Stop (Return NGX_HTTP_PARSE_INVALID_REQUEST, r, p)
      else Go (RL_uri, r))"

definition rl_sw_http_09 :: "byte list \<Rightarrow> nat \<Rightarrow> ngx_http_request \<Rightarrow> rl_flow" where
  "rl_sw_http_09 mem p r =
     (let ch = mem ! p in
      if ch = c8 CHR '' '' then Go (RL_http_09, r)
      else if ch = CR then Go (RL_almost_done, r\<lparr>http_minor := 9\<rparr>)
      else if ch = LF then Stop (Goto_done, r\<lparr>http_minor := 9\<rparr>, p)
      else if ch = c8 CHR ''H'' then Go (RL_http_H, r\<lparr>http_protocol_data := Some p\<rparr>)
      else Stop (Return NGX_HTTP_PARSE_INVALID_REQUEST, r, p))"

text \<open>\<open>sw_http_H\<close>, \<open>sw_http_HT\<close> and \<open>sw_http_HTT\<close>: one letter each.\<close>

definition rl_sw_http_H :: "byte list \<Rightarrow> nat \<Rightarrow> ngx_http_request \<Rightarrow> rl_flow" where
  "rl_sw_http_H mem p r =
     (if mem ! p = c8 CHR ''T'' then Go (RL_http_HT, r)
      else Stop (Return NGX_HTTP_PARSE_INVALID_REQUEST, r, p))"

definition rl_sw_http_HT :: "byte list \<Rightarrow> nat \<Rightarrow> ngx_http_request \<Rightarrow> rl_flow" where
  "rl_sw_http_HT mem p r =
     (if mem ! p = c8 CHR ''T'' then Go (RL_http_HTT, r)
      else Stop (Return NGX_HTTP_PARSE_INVALID_REQUEST, r, p))"

definition rl_sw_http_HTT :: "byte list \<Rightarrow> nat \<Rightarrow> ngx_http_request \<Rightarrow> rl_flow" where
  "rl_sw_http_HTT mem p r =
     (if mem ! p = c8 CHR ''P'' then Go (RL_http_HTTP, r)
      else Stop (Return NGX_HTTP_PARSE_INVALID_REQUEST, r, p))"

definition rl_sw_http_HTTP :: "byte list \<Rightarrow> nat \<Rightarrow> ngx_http_request \<Rightarrow> rl_flow" where
  "rl_sw_http_HTTP mem p r =
     (if mem ! p = c8 CHR ''/'' then
        Go (RL_first_major_digit,
            (if method r = NGX_HTTP_CONNECT then r\<lparr>uri_start := Some p, uri_end := Some (p + 1)\<rparr>
             else r))
      else Stop (Return NGX_HTTP_PARSE_INVALID_REQUEST, r, p))"

definition rl_sw_first_major_digit :: "byte list \<Rightarrow> nat \<Rightarrow> ngx_http_request \<Rightarrow> rl_flow" where
  "rl_sw_first_major_digit mem p r =
     (let ch = mem ! p in
      if ch < c8 CHR ''1'' \<or> c8 CHR ''9'' < ch then Stop (Return NGX_HTTP_PARSE_INVALID_REQUEST, r, p)
      else
        (let r = r\<lparr>http_major := digit_val ch mod 2 ^ 16\<rparr> in
         if http_major r > 1 then Stop (Return NGX_HTTP_PARSE_INVALID_VERSION, r, p)
         else Go (RL_major_digit, r)))"

definition rl_sw_major_digit :: "byte list \<Rightarrow> nat \<Rightarrow> ngx_http_request \<Rightarrow> rl_flow" where
  "rl_sw_major_digit mem p r =
     (let ch = mem ! p in
      if ch = c8 CHR ''.'' then Go (RL_first_minor_digit, r)
      else if \<not> is_digit ch then Stop (Return NGX_HTTP_PARSE_INVALID_REQUEST, r, p)
      else
        (let r = r\<lparr>http_major := (http_major r * 10 + digit_val ch) mod 2 ^ 16\<rparr> in
         if http_major r > 1 then Stop (Return NGX_HTTP_PARSE_INVALID_VERSION, r, p)
         else Go (RL_major_digit, r)))"

definition rl_sw_first_minor_digit :: "byte list \<Rightarrow> nat \<Rightarrow> ngx_http_request \<Rightarrow> rl_flow" where
  "rl_sw_first_minor_digit mem p r =
     (let ch = mem ! p in
      if \<not> is_digit ch then Stop (Return NGX_HTTP_PARSE_INVALID_REQUEST, r, p)
      else Go (RL_minor_digit, r\<lparr>http_minor := digit_val ch mod 2 ^ 16\<rparr>))"

definition rl_sw_minor_digit :: "byte list \<Rightarrow> nat \<Rightarrow> ngx_http_request \<Rightarrow> rl_flow" where
  "rl_sw_minor_digit mem p r =
     (let ch = mem ! p in
      if ch = CR then Go (RL_almost_done, r)
      else if ch = LF then Stop (Goto_done, r, p)
      else if ch = c8 CHR '' '' then Go (RL_spaces_after_digit, r)
      else if \<not> is_digit ch then Stop (Return NGX_HTTP_PARSE_INVALID_REQUEST, r, p)
      else if http_minor r > 99 then Stop (Return NGX_HTTP_PARSE_INVALID_REQUEST, r, p)
      else Go (RL_minor_digit,
               r\<lparr>http_minor := (http_minor r * 10 + digit_val ch) mod 2 ^ 16\<rparr>))"

definition rl_sw_spaces_after_digit :: "byte list \<Rightarrow> nat \<Rightarrow> ngx_http_request \<Rightarrow> rl_flow" where
  "rl_sw_spaces_after_digit mem p r =
     (let ch = mem ! p in
      if ch = c8 CHR '' '' then Go (RL_spaces_after_digit, r)
      else if ch = CR then Go (RL_almost_done, r)
      else if ch = LF then Stop (Goto_done, r, p)
      else Stop (Return NGX_HTTP_PARSE_INVALID_REQUEST, r, p))"

definition rl_sw_almost_done :: "byte list \<Rightarrow> nat \<Rightarrow> ngx_http_request \<Rightarrow> rl_flow" where
  "rl_sw_almost_done mem p r =
     (let r = r\<lparr>request_end := Some (p - 1)\<rparr> in
      if mem ! p = LF then Stop (Goto_done, r, p)
      else Stop (Return NGX_HTTP_PARSE_INVALID_REQUEST, r, p))"

section \<open>The loop and the function\<close>

fun rl_step :: "byte list \<Rightarrow> nat \<Rightarrow> rl_state \<times> ngx_http_request \<Rightarrow> rl_flow" where
  "rl_step mem p (st, r) =
     (case st of
        RL_start \<Rightarrow> rl_sw_start mem p r
      | RL_method \<Rightarrow> rl_sw_method mem p r
      | RL_spaces_before_uri \<Rightarrow> rl_sw_spaces_before_uri mem p r
      | RL_schema \<Rightarrow> rl_sw_schema mem p r
      | RL_schema_slash \<Rightarrow> rl_sw_schema_slash mem p r
      | RL_schema_slash_slash \<Rightarrow> rl_sw_schema_slash_slash mem p r
      | RL_spaces_before_host \<Rightarrow> rl_sw_spaces_before_host mem p r
      | RL_host_start \<Rightarrow> rl_sw_host_start mem p r
      | RL_host \<Rightarrow> rl_sw_host mem p r
      | RL_host_end \<Rightarrow> rl_sw_host_end mem p r
      | RL_host_ip_literal \<Rightarrow> rl_sw_host_ip_literal mem p r
      | RL_port_start \<Rightarrow> rl_sw_port_start mem p r
      | RL_port \<Rightarrow> rl_sw_port mem p r
      | RL_after_slash_in_uri \<Rightarrow> rl_sw_after_slash_in_uri mem p r
      | RL_check_uri \<Rightarrow> rl_sw_check_uri mem p r
      | RL_uri \<Rightarrow> rl_sw_uri mem p r
      | RL_http_09 \<Rightarrow> rl_sw_http_09 mem p r
      | RL_http_H \<Rightarrow> rl_sw_http_H mem p r
      | RL_http_HT \<Rightarrow> rl_sw_http_HT mem p r
      | RL_http_HTT \<Rightarrow> rl_sw_http_HTT mem p r
      | RL_http_HTTP \<Rightarrow> rl_sw_http_HTTP mem p r
      | RL_first_major_digit \<Rightarrow> rl_sw_first_major_digit mem p r
      | RL_major_digit \<Rightarrow> rl_sw_major_digit mem p r
      | RL_first_minor_digit \<Rightarrow> rl_sw_first_minor_digit mem p r
      | RL_minor_digit \<Rightarrow> rl_sw_minor_digit mem p r
      | RL_spaces_after_digit \<Rightarrow> rl_sw_spaces_after_digit mem p r
      | RL_almost_done \<Rightarrow> rl_sw_almost_done mem p r)"

declare rl_step.simps [simp del]

text \<open>The code behind the label \<open>done\<close>.\<close>

definition rl_done :: "nat \<Rightarrow> ngx_http_request \<Rightarrow> ngx_buf \<Rightarrow> ngx_rc \<times> ngx_http_request \<times> ngx_buf" where
  "rl_done p r b =
     (let b = b\<lparr>buf_pos := p + 1\<rparr>;
          r = (if request_end r = None then r\<lparr>request_end := Some p\<rparr> else r);
          r = r\<lparr>http_version := http_major r * 1000 + http_minor r, state := rl_encode RL_start\<rparr>
      in if http_version r = 9 \<and> method r \<noteq> NGX_HTTP_GET
         then (NGX_HTTP_PARSE_INVALID_09_METHOD, r, b)
         else (NGX_OK, r, b))"

definition ngx_http_parse_request_line ::
  "ngx_http_request \<Rightarrow> ngx_buf \<Rightarrow> ngx_rc \<times> ngx_http_request \<times> ngx_buf" where
  "ngx_http_parse_request_line r b =
     (case rl_decode (state r) of
        None \<Rightarrow> (NGX_AGAIN, r, b\<lparr>buf_pos := max (buf_pos b) (buf_last b)\<rparr>)
      | Some st \<Rightarrow>
          (case scan_bytes rl_step (buf_mem b) (buf_pos b) (buf_last b) (st, r) of
             Go (st', r') \<Rightarrow>
               (NGX_AGAIN, r'\<lparr>state := rl_encode st'\<rparr>,
                b\<lparr>buf_pos := max (buf_pos b) (buf_last b)\<rparr>)
           | Stop (Goto_done, r', p) \<Rightarrow> rl_done p r' b
           | Stop (Return rc, r', p) \<Rightarrow> (rc, r', b)))"

end
