(* ===== verification/Ngx_Http_Request_Line_Proofs.thy ===== *)
theory Ngx_Http_Request_Line_Proofs
  imports Ngx_Http_Request_Line
begin

text \<open>
  Correctness of the request-line parser. The invariant of its loop (\<open>rl_inv\<close>) says for every
  state what the fields of the request mean for the bytes read so far; every state's code keeps it
  (\<open>rl_..._keeps\<close>), no state reads ahead (\<open>rl_step_prefix\<close>), so the loop is an instance of
  the locale \<open>byte_scanner\<close>. From its facts: resumption after \<open>NGX_AGAIN\<close>, and what a
  successful parse guarantees of the method, the URI, its flags and the version.
\<close>

section \<open>What the scanned part of a URI is known to satisfy\<close>

definition uri_byte :: "byte \<Rightarrow> bool" where
  "uri_byte ch \<longleftrightarrow> 0x20 < ch \<and> ch \<noteq> 0x7f"

text \<open>
  A path that needs no normalisation: no \<open>%\<close>, \<open>#\<close> or \<open>?\<close>, and no \<open>//\<close> or \<open>/.\<close>.
\<close>

fun plain_path :: "byte list \<Rightarrow> bool" where
  "plain_path [] = True"
| "plain_path [c] = (c \<noteq> c8 CHR ''%'' \<and> c \<noteq> c8 CHR ''#'' \<and> c \<noteq> c8 CHR ''?'')"
| "plain_path (c # d # cs) =
     (c \<noteq> c8 CHR ''%'' \<and> c \<noteq> c8 CHR ''#'' \<and> c \<noteq> c8 CHR ''?'' \<and>
      (c = c8 CHR ''/'' \<longrightarrow> d \<noteq> c8 CHR ''/'' \<and> d \<noteq> c8 CHR ''.'') \<and> plain_path (d # cs))"

lemma plain_path_snoc:
  "plain_path (cs @ [c]) \<longleftrightarrow>
     plain_path cs \<and> c \<noteq> 0x25 \<and> c \<noteq> 0x23 \<and> c \<noteq> 0x3f \<and>
     (cs \<noteq> [] \<and> last cs = 0x2f \<longrightarrow> c \<noteq> 0x2f \<and> c \<noteq> 0x2e)"
  by (induction cs rule: plain_path.induct) auto

text \<open>
  The position behind the last dot of the last segment: where the file name's extension starts.
\<close>

fun ext_pos_from :: "nat \<Rightarrow> nat option \<Rightarrow> byte list \<Rightarrow> nat option" where
  "ext_pos_from n e [] = e"
| "ext_pos_from n e (c # cs) =
     ext_pos_from (Suc n)
       (if c = c8 CHR ''/'' then None else if c = c8 CHR ''.'' then Some (Suc n) else e) cs"

abbreviation ext_pos :: "byte list \<Rightarrow> nat option" where
  "ext_pos \<equiv> ext_pos_from 0 None"

lemma ext_pos_from_snoc:
  "ext_pos_from n e (cs @ [c]) =
     (if c = 0x2f then None else if c = 0x2e then Some (Suc (n + length cs))
      else ext_pos_from n e cs)"
  by (induction cs arbitrary: n e) auto

definition uri_bytes :: "byte list \<Rightarrow> nat \<Rightarrow> nat \<Rightarrow> bool" where
  "uri_bytes mem u e \<longleftrightarrow> (\<forall>c\<in>set (byte_range u e mem). uri_byte c)"

text \<open>
  What the flags of the request say about the URI \<open>[u, e)\<close>: it starts with a slash (or is
  the bare query of an absolute URI with an empty path), and unless a flag asks for the complex
  parser the path is plain, \<open>uri_ext\<close> is its extension and the arguments have no fragment.
\<close>

definition uri_shape :: "byte list \<Rightarrow> nat \<Rightarrow> nat \<Rightarrow> ngx_http_request \<Rightarrow> bool" where
  "uri_shape mem u e r \<longleftrightarrow>
     (mem ! u = 0x2f \<and> \<not> empty_path_in_uri r \<or>
      empty_path_in_uri r \<and> mem ! u = 0x3f \<and> args_start r = Some (u + 1)) \<and>
     (\<forall>a. args_start r = Some a \<longrightarrow>
        u < a \<and> a \<le> e \<and> mem ! (a - 1) = 0x3f \<and> plain_path (byte_range u (a - 1) mem)) \<and>
     (complex_uri r \<or> quoted_uri r \<or> empty_path_in_uri r \<or>
      (case args_start r of
         None \<Rightarrow> plain_path (byte_range u e mem) \<and>
                 uri_ext r = map_option (\<lambda>x. u + x) (ext_pos (byte_range u e mem))
       | Some a \<Rightarrow> u + 1 < a \<and> a \<le> e \<and> mem ! (a - 1) = 0x3f \<and> 0x23 \<notin> set (byte_range a e mem) \<and>
                   plain_path (byte_range u (a - 1) mem) \<and>
                   uri_ext r = map_option (\<lambda>x. u + x) (ext_pos (byte_range u (a - 1) mem))))"

text \<open>Inside a path that is plain so far; inside the rest of a URI; behind a URI.\<close>

definition uri_in :: "byte list \<Rightarrow> nat \<Rightarrow> ngx_http_request \<Rightarrow> bool" where
  "uri_in mem p r \<longleftrightarrow>
     (\<exists>u. uri_start r = Some u \<and> u < p \<and> mem ! u = 0x2f \<and> uri_bytes mem u p \<and>
       \<not> complex_uri r \<and> \<not> quoted_uri r \<and> \<not> empty_path_in_uri r \<and> args_start r = None \<and>
       plain_path (byte_range u p mem) \<and>
       uri_ext r = map_option (\<lambda>x. u + x) (ext_pos (byte_range u p mem)))"

definition uri_mid :: "byte list \<Rightarrow> nat \<Rightarrow> ngx_http_request \<Rightarrow> bool" where
  "uri_mid mem p r \<longleftrightarrow>
     (\<exists>u. uri_start r = Some u \<and> u < p \<and> uri_bytes mem u p \<and> uri_shape mem u p r \<and>
       (complex_uri r \<or> quoted_uri r \<or> empty_path_in_uri r \<or> args_start r \<noteq> None))"

definition uri_closed :: "byte list \<Rightarrow> nat \<Rightarrow> ngx_http_request \<Rightarrow> bool" where
  "uri_closed mem p r \<longleftrightarrow>
     (\<exists>u e. uri_start r = Some u \<and> uri_end r = Some e \<and> u < e \<and> e \<le> p \<and>
       uri_bytes mem u e \<and> uri_shape mem u e r)"

definition no_flags :: "ngx_http_request \<Rightarrow> bool" where
  "no_flags r \<longleftrightarrow> \<not> complex_uri r \<and> \<not> quoted_uri r \<and> \<not> empty_path_in_uri r \<and>
     args_start r = None \<and> uri_ext r = None"

lemma uri_bytes_Suc:
  "u \<le> p \<Longrightarrow> p < length mem \<Longrightarrow> uri_bytes mem u (Suc p) \<longleftrightarrow> uri_bytes mem u p \<and> uri_byte (mem ! p)"
  by (auto simp: uri_bytes_def byte_range_snoc)

lemma byte_range_one: "p < length mem \<Longrightarrow> byte_range p (Suc p) mem = [mem ! p]"
  by (simp add: byte_range_snoc)

lemma last_byte_range: "u < p \<Longrightarrow> p \<le> length mem \<Longrightarrow> last (byte_range u p mem) = mem ! (p - 1)"
proof -
  assume a: "u < p" "p \<le> length mem"
  then have "byte_range u p mem = byte_range u (p - 1) mem @ [mem ! (p - 1)]"
    using byte_range_snoc [of u "p - 1" mem] by simp
  then show ?thesis by simp
qed

lemma uri_in_start:
  "p < length mem \<Longrightarrow> mem ! p = 0x2f \<Longrightarrow> no_flags r \<Longrightarrow> uri_in mem (Suc p) (r\<lparr>uri_start := Some p\<rparr>)"
  by (simp add: uri_in_def no_flags_def byte_range_one uri_bytes_def uri_byte_def)

lemma uri_in_char:
  assumes "uri_in mem p r" "p < length mem" "uri_byte (mem ! p)"
    and "mem ! p \<noteq> 0x25" "mem ! p \<noteq> 0x23" "mem ! p \<noteq> 0x3f" "mem ! p \<noteq> 0x2f" "mem ! p \<noteq> 0x2e"
  shows "uri_in mem (Suc p) r"
  using assms
  by (fastforce simp: uri_in_def uri_bytes_Suc byte_range_snoc plain_path_snoc ext_pos_from_snoc)

lemma uri_in_slash:
  assumes "uri_in mem p r" "p < length mem" "mem ! (p - 1) \<noteq> 0x2f" "mem ! p = 0x2f"
  shows "uri_in mem (Suc p) (r\<lparr>uri_ext := None\<rparr>)"
  using assms
  by (fastforce simp: uri_in_def uri_bytes_Suc byte_range_snoc plain_path_snoc ext_pos_from_snoc
      last_byte_range uri_byte_def)

lemma uri_in_dot:
  assumes "uri_in mem p r" "p < length mem" "mem ! (p - 1) \<noteq> 0x2f" "mem ! p = 0x2e"
  shows "uri_in mem (Suc p) (r\<lparr>uri_ext := Some (p + 1)\<rparr>)"
  using assms
  by (fastforce simp: uri_in_def uri_bytes_Suc byte_range_snoc plain_path_snoc ext_pos_from_snoc
      last_byte_range uri_byte_def)

lemma uri_mid_of_in:
  assumes "uri_in mem p r" "p < length mem" "uri_byte (mem ! p)"
    and "uri_start r' = uri_start r" "complex_uri r' \<or> quoted_uri r'"
    and "empty_path_in_uri r' = empty_path_in_uri r" "args_start r' = args_start r"
  shows "uri_mid mem (Suc p) r'"
  using assms by (auto simp: uri_in_def uri_mid_def uri_bytes_Suc uri_shape_def)

lemma uri_mid_args:
  assumes "uri_in mem p r" "p < length mem" "mem ! p = 0x3f"
  shows "uri_mid mem (Suc p) (r\<lparr>args_start := Some (p + 1)\<rparr>)"
  using assms by (auto simp: uri_in_def uri_mid_def uri_bytes_Suc uri_shape_def uri_byte_def)

lemma uri_mid_empty_path:
  assumes "p < length mem" "mem ! p = 0x3f" "no_flags r"
  shows "uri_mid mem (Suc p)
    (r\<lparr>uri_start := Some p, args_start := Some (p + 1), empty_path_in_uri := True\<rparr>)"
  using assms by (auto simp: uri_mid_def uri_bytes_def byte_range_one uri_shape_def uri_byte_def)

lemma uri_shape_Suc:
  assumes "uri_shape mem u p r" "u < p" "p < length mem" "mem ! p \<noteq> 0x23"
    and "complex_uri r \<or> quoted_uri r \<or> empty_path_in_uri r \<or> args_start r \<noteq> None"
  shows "uri_shape mem u (Suc p) r"
  using assms by (auto simp: uri_shape_def byte_range_snoc)

lemma uri_mid_char:
  assumes "uri_mid mem p r" "p < length mem" "uri_byte (mem ! p)" "mem ! p \<noteq> 0x23"
  shows "uri_mid mem (Suc p) r"
proof -
  from assms(1) obtain u where u: "uri_start r = Some u" "u < p" "uri_bytes mem u p"
      "uri_shape mem u p r"
      "complex_uri r \<or> quoted_uri r \<or> empty_path_in_uri r \<or> args_start r \<noteq> None"
    by (auto simp: uri_mid_def)
  have "uri_shape mem u (Suc p) r" using u assms by (intro uri_shape_Suc) auto
  with u assms show ?thesis by (auto simp: uri_mid_def uri_bytes_Suc)
qed

lemma uri_mid_hash:
  assumes "uri_mid mem p r" "p < length mem" "mem ! p = 0x23"
  shows "uri_mid mem (Suc p) (r\<lparr>complex_uri := True\<rparr>)"
  using assms by (auto simp: uri_mid_def uri_bytes_Suc uri_shape_def uri_byte_def)

lemma uri_closed_of_in: "uri_in mem p r \<Longrightarrow> uri_closed mem p (r\<lparr>uri_end := Some p\<rparr>)"
  by (auto simp: uri_in_def uri_closed_def uri_shape_def)

lemma uri_closed_of_mid: "uri_mid mem p r \<Longrightarrow> uri_closed mem p (r\<lparr>uri_end := Some p\<rparr>)"
  by (auto simp: uri_mid_def uri_closed_def uri_shape_def)

lemma uri_closed_Suc: "uri_closed mem p r \<Longrightarrow> uri_closed mem (Suc p) r"
  by (auto simp: uri_closed_def intro: le_SucI)

text \<open>The URI of an absolute form with no path, and of \<open>CONNECT\<close>: a single slash.\<close>

lemma uri_closed_slash:
  assumes "mem ! q = 0x2f" "q < length mem" "q + 1 \<le> p" "no_flags r"
  shows "uri_closed mem p (r\<lparr>uri_start := Some q, uri_end := Some (Suc q)\<rparr>)"
  using assms by (auto simp: uri_closed_def no_flags_def uri_shape_def uri_bytes_def byte_range_one
      uri_byte_def)

lemma uri_closed_frame [simp]:
  "uri_closed mem p (r\<lparr>http_version := n\<rparr>) = uri_closed mem p r"
  "uri_closed mem p (r\<lparr>state := n\<rparr>) = uri_closed mem p r"
  "uri_closed mem p (r\<lparr>http_minor := a\<rparr>) = uri_closed mem p r"
  "uri_closed mem p (r\<lparr>http_major := a\<rparr>) = uri_closed mem p r"
  "uri_closed mem p (r\<lparr>http_protocol_data := x\<rparr>) = uri_closed mem p r"
  "uri_closed mem p (r\<lparr>request_end := x\<rparr>) = uri_closed mem p r"
  "uri_closed mem p (r\<lparr>host_end := x\<rparr>) = uri_closed mem p r"
  by (simp_all add: uri_closed_def uri_shape_def cong: option.case_cong)

lemma no_flags_frame [simp]:
  "no_flags (r\<lparr>http_version := n\<rparr>) = no_flags r"
  "no_flags (r\<lparr>state := n\<rparr>) = no_flags r"
  "no_flags (r\<lparr>http_minor := a\<rparr>) = no_flags r"
  "no_flags (r\<lparr>http_major := a\<rparr>) = no_flags r"
  "no_flags (r\<lparr>http_protocol_data := x\<rparr>) = no_flags r"
  "no_flags (r\<lparr>request_start := x\<rparr>) = no_flags r"
  "no_flags (r\<lparr>request_end := x\<rparr>) = no_flags r"
  "no_flags (r\<lparr>method_end := x\<rparr>) = no_flags r"
  "no_flags (r\<lparr>method := a\<rparr>) = no_flags r"
  "no_flags (r\<lparr>schema_start := x\<rparr>) = no_flags r"
  "no_flags (r\<lparr>schema_end := x\<rparr>) = no_flags r"
  "no_flags (r\<lparr>host_start := x\<rparr>) = no_flags r"
  "no_flags (r\<lparr>host_end := x\<rparr>) = no_flags r"
  by (simp_all add: no_flags_def)

section \<open>The method\<close>

definition method_char :: "byte \<Rightarrow> bool" where
  "method_char ch \<longleftrightarrow> c8 CHR ''A'' \<le> ch \<and> ch \<le> c8 CHR ''Z'' \<or> ch = c8 CHR ''_'' \<or> ch = c8 CHR ''-''"

text \<open>The code of a method name, as a table.\<close>

definition method_table :: "(byte list \<times> nat) list" where
  "method_table =
     [(str8 ''GET'', NGX_HTTP_GET), (str8 ''PUT'', NGX_HTTP_PUT), (str8 ''POST'', NGX_HTTP_POST),
      (str8 ''COPY'', NGX_HTTP_COPY), (str8 ''MOVE'', NGX_HTTP_MOVE), (str8 ''LOCK'', NGX_HTTP_LOCK),
      (str8 ''HEAD'', NGX_HTTP_HEAD), (str8 ''MKCOL'', NGX_HTTP_MKCOL),
      (str8 ''PATCH'', NGX_HTTP_PATCH), (str8 ''TRACE'', NGX_HTTP_TRACE),
      (str8 ''DELETE'', NGX_HTTP_DELETE), (str8 ''UNLOCK'', NGX_HTTP_UNLOCK),
      (str8 ''OPTIONS'', NGX_HTTP_OPTIONS), (str8 ''CONNECT'', NGX_HTTP_CONNECT),
      (str8 ''PROPFIND'', NGX_HTTP_PROPFIND), (str8 ''PROPPATCH'', NGX_HTTP_PROPPATCH)]"

definition method_code :: "byte list \<Rightarrow> nat" where
  "method_code name =
     (case map_of method_table name of Some m \<Rightarrow> m | None \<Rightarrow> NGX_HTTP_UNKNOWN)"

lemma method_code_other_length:
  assumes "length name < 3 \<or> 9 < length name"
  shows "method_code name = NGX_HTTP_UNKNOWN"
proof -
  have "\<forall>k\<in>fst ` set method_table. 3 \<le> length k \<and> length k \<le> 9"
    by (simp add: method_table_def)
  then have "name \<notin> fst ` set method_table" using assms by fastforce
  then show ?thesis by (simp add: method_code_def map_of_eq_None_iff [THEN iffD2])
qed

definition method_ok :: "byte list \<Rightarrow> nat \<Rightarrow> ngx_http_request \<Rightarrow> bool" where
  "method_ok mem p r \<longleftrightarrow>
     (\<exists>s e. request_start r = Some s \<and> method_end r = Some e \<and> s \<le> e \<and> Suc e < p \<and>
       list_all method_char (byte_range s (Suc e) mem) \<and> method r = method_code (byte_range s (Suc e) mem))"

lemma bytes_at_word:
  assumes "p < length mem" "p = m + length s"
  shows "bytes_at mem m s \<longleftrightarrow> byte_range m p mem = map c8 s"
  using assms by (simp add: bytes_at_byte_range)

lemma bytes_at_blank:
  assumes "p < length mem" "mem ! p = 0x20" "p = m + length s"
  shows "bytes_at mem m (s @ '' '') \<longleftrightarrow> byte_range m p mem = map c8 s"
  using assms by (simp add: bytes_at_byte_range byte_range_snoc)

text \<open>The \<open>switch\<close> on the length computes the table.\<close>

lemma rl_method_name_eq:
  assumes "p < length mem" "mem ! p = 0x20" "m \<le> p"
  shows "rl_method_name mem m p NGX_HTTP_UNKNOWN =
    (method_code (byte_range m p mem),
     if method_code (byte_range m p mem) = NGX_HTTP_CONNECT then RL_spaces_before_host
     else RL_spaces_before_uri)"
proof -
  define w where "w = byte_range m p mem"
  have len: "length w = p - m" using assms by (simp add: w_def)
  have plain: "bytes_at mem m s \<longleftrightarrow> w = map c8 s" if "p - m = length s" for s
    unfolding w_def using that assms(3) by (intro bytes_at_word assms(1)) simp
  have blank: "bytes_at mem m (s @ '' '') \<longleftrightarrow> w = map c8 s" if "p - m = length s" for s
    unfolding w_def using that assms(3) by (intro bytes_at_blank assms(1,2)) simp
  have second: "mem ! (m + 1) = w ! 1" if "p - m = 4"
    using that assms by (simp add: w_def)
  note blanks = blank [of "''GET''"] blank [of "''PUT''"] blank [of "''OPTIONS''"]
    blank [of "''CONNECT''"]
  note eval = rl_method_name_def method_code_def method_table_def
  consider "p - m = 3" | "p - m = 4" | "p - m = 5" | "p - m = 6" | "p - m = 7" | "p - m = 8"
    | "p - m = 9" | "p - m < 3" | "9 < p - m"
    by linarith
  then have "rl_method_name mem m p NGX_HTTP_UNKNOWN =
    (method_code w,
     if method_code w = NGX_HTTP_CONNECT then RL_spaces_before_host else RL_spaces_before_uri)"
  proof cases
    case 1
    then obtain a b c where "w = [a, b, c]" using len by (auto simp: length_Suc_conv numeral_eq_Suc)
    then show ?thesis using 1 blanks by (simp add: eval)
  next
    case 2
    then obtain a b c d where "w = [a, b, c, d]"
      using len by (auto simp: length_Suc_conv numeral_eq_Suc)
    then show ?thesis using 2 second by (simp add: eval plain)
  next
    case 3
    then obtain a b c d e where "w = [a, b, c, d, e]"
      using len by (auto simp: length_Suc_conv numeral_eq_Suc)
    then show ?thesis using 3 by (simp add: eval plain)
  next
    case 4
    then obtain a b c d e f where "w = [a, b, c, d, e, f]"
      using len by (auto simp: length_Suc_conv numeral_eq_Suc)
    then show ?thesis using 4 by (simp add: eval plain)
  next
    case 5
    then obtain a b c d e f g where "w = [a, b, c, d, e, f, g]"
      using len by (auto simp: length_Suc_conv numeral_eq_Suc)
    then show ?thesis using 5 blanks by (simp add: eval)
  next
    case 6
    then obtain a b c d e f g h where "w = [a, b, c, d, e, f, g, h]"
      using len by (auto simp: length_Suc_conv numeral_eq_Suc)
    then show ?thesis using 6 by (simp add: eval plain)
  next
    case 7
    then obtain a b c d e f g h i where "w = [a, b, c, d, e, f, g, h, i]"
      using len by (auto simp: length_Suc_conv numeral_eq_Suc)
    then show ?thesis using 7 by (simp add: eval plain)
  next
    case 8
    then have "method_code w = NGX_HTTP_UNKNOWN" using len by (simp add: method_code_other_length)
    then show ?thesis using 8 by (simp add: rl_method_name_def)
  next
    case 9
    then have "method_code w = NGX_HTTP_UNKNOWN" using len by (simp add: method_code_other_length)
    then show ?thesis using 9 by (simp add: rl_method_name_def)
  qed
  then show ?thesis by (simp add: w_def)
qed

section \<open>The invariant of the scan\<close>

text \<open>The authority part of an absolute URI, with the slash that serves as its empty path.\<close>

definition schema_ok :: "byte list \<Rightarrow> nat \<Rightarrow> ngx_http_request \<Rightarrow> bool" where
  "schema_ok mem p r \<longleftrightarrow> (\<exists>q. schema_end r = Some q \<and> q + 2 \<le> p \<and> mem ! (q + 1) = 0x2f)"

definition before_uri :: "byte list \<Rightarrow> nat \<Rightarrow> ngx_http_request \<Rightarrow> bool" where
  "before_uri mem p r \<longleftrightarrow> no_flags r \<and> http_major r = 0 \<and> request_end r = None \<and> method_ok mem p r"

definition after_uri :: "byte list \<Rightarrow> nat \<Rightarrow> ngx_http_request \<Rightarrow> bool" where
  "after_uri mem p r \<longleftrightarrow> http_major r = 0 \<and> request_end r = None \<and> method_ok mem p r \<and>
     (if method r = NGX_HTTP_CONNECT then no_flags r else uri_closed mem p r)"

definition versioned :: "byte list \<Rightarrow> nat \<Rightarrow> ngx_http_request \<Rightarrow> bool" where
  "versioned mem p r \<longleftrightarrow> http_major r = 1 \<and> http_minor r \<le> 999 \<and> request_end r = None \<and>
     method_ok mem p r \<and> uri_closed mem p r"

text \<open>At the end of the line: a version was read, or there is none (HTTP/0.9).\<close>

definition line_read :: "byte list \<Rightarrow> nat \<Rightarrow> ngx_http_request \<Rightarrow> bool" where
  "line_read mem p r \<longleftrightarrow>
     versioned mem p (r\<lparr>request_end := None\<rparr>) \<or>
     after_uri mem p (r\<lparr>request_end := None\<rparr>) \<and> http_minor r = 9"

fun rl_inv :: "byte list \<Rightarrow> nat \<Rightarrow> rl_state \<times> ngx_http_request \<Rightarrow> bool" where
  "rl_inv mem p (st, r) =
     (case st of
        RL_start \<Rightarrow> no_flags r \<and> http_major r = 0 \<and> request_end r = None \<and> method r = NGX_HTTP_UNKNOWN
      | RL_method \<Rightarrow> no_flags r \<and> http_major r = 0 \<and> request_end r = None \<and>
          method r = NGX_HTTP_UNKNOWN \<and>
          (\<exists>s. request_start r = Some s \<and> s < p \<and> list_all method_char (byte_range s p mem))
      | RL_spaces_before_uri \<Rightarrow> before_uri mem p r \<and> method r \<noteq> NGX_HTTP_CONNECT
      | RL_schema \<Rightarrow> before_uri mem p r \<and> method r \<noteq> NGX_HTTP_CONNECT
      | RL_schema_slash \<Rightarrow> before_uri mem p r \<and> method r \<noteq> NGX_HTTP_CONNECT \<and>
          0 < p \<and> schema_end r = Some (p - 1)
      | RL_schema_slash_slash \<Rightarrow> before_uri mem p r \<and> method r \<noteq> NGX_HTTP_CONNECT \<and>
          schema_ok mem p r
      | RL_spaces_before_host \<Rightarrow> before_uri mem p r \<and> method r = NGX_HTTP_CONNECT
      | RL_host_start \<Rightarrow> before_uri mem p r \<and> (method r = NGX_HTTP_CONNECT \<or> schema_ok mem p r)
      | RL_host \<Rightarrow> before_uri mem p r \<and> (method r = NGX_HTTP_CONNECT \<or> schema_ok mem p r)
      | RL_host_end \<Rightarrow> before_uri mem p r \<and> (method r = NGX_HTTP_CONNECT \<or> schema_ok mem p r)
      | RL_host_ip_literal \<Rightarrow> before_uri mem p r \<and> (method r = NGX_HTTP_CONNECT \<or> schema_ok mem p r)
      | RL_port_start \<Rightarrow> before_uri mem p r \<and> (method r = NGX_HTTP_CONNECT \<or> schema_ok mem p r)
      | RL_port \<Rightarrow> before_uri mem p r \<and> (method r = NGX_HTTP_CONNECT \<or> schema_ok mem p r)
      | RL_after_slash_in_uri \<Rightarrow> uri_in mem p r \<and> method_ok mem p r \<and> http_major r = 0 \<and>
          request_end r = None \<and> method r \<noteq> NGX_HTTP_CONNECT
      | RL_check_uri \<Rightarrow> uri_in mem p r \<and> mem ! (p - 1) \<noteq> 0x2f \<and> method_ok mem p r \<and>
          http_major r = 0 \<and> request_end r = None \<and> method r \<noteq> NGX_HTTP_CONNECT
      | RL_uri \<Rightarrow> uri_mid mem p r \<and> method_ok mem p r \<and> http_major r = 0 \<and>
          request_end r = None \<and> method r \<noteq> NGX_HTTP_CONNECT
      | RL_http_09 \<Rightarrow> after_uri mem p r
      | RL_http_H \<Rightarrow> after_uri mem p r
      | RL_http_HT \<Rightarrow> after_uri mem p r
      | RL_http_HTT \<Rightarrow> after_uri mem p r
      | RL_http_HTTP \<Rightarrow> after_uri mem p r
      | RL_first_major_digit \<Rightarrow> method_ok mem p r \<and> request_end r = None \<and> uri_closed mem p r
      | RL_major_digit \<Rightarrow> http_major r = 1 \<and> method_ok mem p r \<and> request_end r = None \<and>
          uri_closed mem p r
      | RL_first_minor_digit \<Rightarrow> http_major r = 1 \<and> method_ok mem p r \<and> request_end r = None \<and>
          uri_closed mem p r
      | RL_minor_digit \<Rightarrow> versioned mem p r
      | RL_spaces_after_digit \<Rightarrow> versioned mem p r
      | RL_almost_done \<Rightarrow> line_read mem p r \<and> request_end r = None)"

text \<open>What holds when the loop is left at position \<open>p\<close>.\<close>

definition rl_post :: "byte list \<Rightarrow> nat \<Rightarrow> exit \<times> ngx_http_request \<times> nat \<Rightarrow> bool" where
  "rl_post mem p v \<longleftrightarrow>
     (case v of (ex, r, q) \<Rightarrow> q = p \<and>
       (case ex of
          Goto_done \<Rightarrow> line_read mem p r \<and> mem ! p = LF
        | Return rc \<Rightarrow> rc \<in> {NGX_HTTP_PARSE_INVALID_METHOD, NGX_HTTP_PARSE_INVALID_REQUEST,
                              NGX_HTTP_PARSE_INVALID_VERSION}))"

lemma before_uri_Suc: "before_uri mem p r \<Longrightarrow> before_uri mem (Suc p) r"
  by (auto simp: before_uri_def method_ok_def intro: less_SucI)

lemma method_ok_Suc: "method_ok mem p r \<Longrightarrow> method_ok mem (Suc p) r"
  by (auto simp: method_ok_def intro: less_SucI)

lemma schema_ok_Suc: "schema_ok mem p r \<Longrightarrow> schema_ok mem (Suc p) r"
  by (auto simp: schema_ok_def intro: le_SucI)

lemma after_uri_Suc: "after_uri mem p r \<Longrightarrow> after_uri mem (Suc p) r"
  by (auto simp: after_uri_def intro: method_ok_Suc uri_closed_Suc)

lemma versioned_Suc: "versioned mem p r \<Longrightarrow> versioned mem (Suc p) r"
  by (auto simp: versioned_def intro: method_ok_Suc uri_closed_Suc)

lemma line_read_Suc: "line_read mem p r \<Longrightarrow> line_read mem (Suc p) r"
  by (auto simp: line_read_def intro: after_uri_Suc versioned_Suc)

lemmas rl_Suc = before_uri_Suc method_ok_Suc schema_ok_Suc after_uri_Suc versioned_Suc
  line_read_Suc uri_closed_Suc

text \<open>The predicates on fields that a state does not write.\<close>

lemma method_ok_frame [simp]:
  "method_ok mem p (r\<lparr>http_version := n\<rparr>) = method_ok mem p r"
  "method_ok mem p (r\<lparr>state := n\<rparr>) = method_ok mem p r"
  "method_ok mem p (r\<lparr>schema_start := x\<rparr>) = method_ok mem p r"
  "method_ok mem p (r\<lparr>schema_end := x\<rparr>) = method_ok mem p r"
  "method_ok mem p (r\<lparr>host_start := x\<rparr>) = method_ok mem p r"
  "method_ok mem p (r\<lparr>host_end := x\<rparr>) = method_ok mem p r"
  "method_ok mem p (r\<lparr>uri_start := x\<rparr>) = method_ok mem p r"
  "method_ok mem p (r\<lparr>uri_end := x\<rparr>) = method_ok mem p r"
  "method_ok mem p (r\<lparr>uri_ext := x\<rparr>) = method_ok mem p r"
  "method_ok mem p (r\<lparr>args_start := x\<rparr>) = method_ok mem p r"
  "method_ok mem p (r\<lparr>request_end := x\<rparr>) = method_ok mem p r"
  "method_ok mem p (r\<lparr>http_protocol_data := x\<rparr>) = method_ok mem p r"
  "method_ok mem p (r\<lparr>http_minor := n\<rparr>) = method_ok mem p r"
  "method_ok mem p (r\<lparr>http_major := n\<rparr>) = method_ok mem p r"
  "method_ok mem p (r\<lparr>complex_uri := b\<rparr>) = method_ok mem p r"
  "method_ok mem p (r\<lparr>quoted_uri := b\<rparr>) = method_ok mem p r"
  "method_ok mem p (r\<lparr>plus_in_uri := b\<rparr>) = method_ok mem p r"
  "method_ok mem p (r\<lparr>empty_path_in_uri := b\<rparr>) = method_ok mem p r"
  by (simp_all add: method_ok_def)

lemma before_uri_frame [simp]:
  "before_uri mem p (r\<lparr>schema_start := x\<rparr>) = before_uri mem p r"
  "before_uri mem p (r\<lparr>schema_end := x\<rparr>) = before_uri mem p r"
  "before_uri mem p (r\<lparr>host_start := x\<rparr>) = before_uri mem p r"
  "before_uri mem p (r\<lparr>host_end := x\<rparr>) = before_uri mem p r"
  by (simp_all add: before_uri_def)

lemma schema_ok_frame [simp]:
  "schema_ok mem p (r\<lparr>host_start := x\<rparr>) = schema_ok mem p r"
  "schema_ok mem p (r\<lparr>host_end := x\<rparr>) = schema_ok mem p r"
  by (simp_all add: schema_ok_def)

lemma uri_in_frame [simp]:
  "uri_in mem p (r\<lparr>plus_in_uri := b\<rparr>) = uri_in mem p r"
  by (simp add: uri_in_def)

lemma after_uri_frame [simp]:
  "after_uri mem p (r\<lparr>http_protocol_data := x\<rparr>) = after_uri mem p r"
  "after_uri mem p (r\<lparr>http_minor := n\<rparr>) = after_uri mem p r"
  by (simp_all add: after_uri_def)

lemma line_read_no_version:
  "after_uri mem p r \<Longrightarrow> line_read mem p (r\<lparr>http_minor := 9\<rparr>)"
  by (auto simp: line_read_def after_uri_def)

lemma line_read_version: "versioned mem p r \<Longrightarrow> line_read mem p r"
  by (auto simp: line_read_def versioned_def)

lemma line_read_end: "line_read mem p r \<Longrightarrow> line_read mem p (r\<lparr>request_end := x\<rparr>)"
  by (simp add: line_read_def)

section \<open>Every state keeps the invariant\<close>

definition rl_keeps :: "byte list \<Rightarrow> nat \<Rightarrow> rl_flow \<Rightarrow> bool" where
  "rl_keeps mem p f \<longleftrightarrow> (case f of Go s \<Rightarrow> rl_inv mem (Suc p) s | Stop v \<Rightarrow> rl_post mem p v)"

lemma rl_keeps_simps [simp]:
  "rl_keeps mem p (Go s) = rl_inv mem (Suc p) s"
  "rl_keeps mem p (Stop (Return rc, r, q)) \<longleftrightarrow> q = p \<and>
     rc \<in> {NGX_HTTP_PARSE_INVALID_METHOD, NGX_HTTP_PARSE_INVALID_REQUEST, NGX_HTTP_PARSE_INVALID_VERSION}"
  "rl_keeps mem p (Stop (Goto_done, r, q)) \<longleftrightarrow> q = p \<and> line_read mem p r \<and> mem ! p = LF"
  by (auto simp: rl_keeps_def rl_post_def)

lemma rl_keeps_if [simp]:
  "rl_keeps mem p (if b then f else g) \<longleftrightarrow> (b \<longrightarrow> rl_keeps mem p f) \<and> (\<not> b \<longrightarrow> rl_keeps mem p g)"
  by simp

lemma method_char_iff:
  "method_char ch \<longleftrightarrow> \<not> ((ch < 0x41 \<or> 0x5a < ch) \<and> ch \<noteq> 0x5f \<and> ch \<noteq> 0x2d)"
  by (auto simp: method_char_def not_less)

lemma rl_start_keeps:
  "p < length mem \<Longrightarrow> rl_inv mem p (RL_start, r) \<Longrightarrow> rl_keeps mem p (rl_sw_start mem p r)"
  by (auto simp: rl_sw_start_def Let_def byte_range_one method_char_iff)

lemma rl_method_keeps:
  assumes "p < length mem" "rl_inv mem p (RL_method, r)"
  shows "rl_keeps mem p (rl_sw_method mem p r)"
proof -
  from assms(2) obtain s where s: "request_start r = Some s" "s < p"
      "list_all method_char (byte_range s p mem)" and r: "no_flags r" "http_major r = 0"
      "request_end r = None" "method r = NGX_HTTP_UNKNOWN"
    by auto
  show ?thesis
  proof (cases "mem ! p = 0x20")
    case True
    have "method_ok mem (Suc p)
        (r\<lparr>method_end := Some (p - 1), method := method_code (byte_range s p mem)\<rparr>)"
      using s by (auto simp: method_ok_def)
    then show ?thesis
      using True s r rl_method_name_eq [OF assms(1) True, of s]
      by (auto simp: rl_sw_method_def before_uri_def)
  next
    case False
    then show ?thesis using s r assms(1)
      by (auto simp: rl_sw_method_def Let_def byte_range_snoc method_char_iff)
  qed
qed

lemma rl_spaces_before_uri_keeps:
  "p < length mem \<Longrightarrow> rl_inv mem p (RL_spaces_before_uri, r) \<Longrightarrow>
   rl_keeps mem p (rl_sw_spaces_before_uri mem p r)"
  by (auto simp: rl_sw_spaces_before_uri_def Let_def intro: rl_Suc uri_in_start)
    (auto simp: before_uri_def intro: rl_Suc uri_in_start)

lemma rl_schema_keeps:
  "p < length mem \<Longrightarrow> rl_inv mem p (RL_schema, r) \<Longrightarrow> rl_keeps mem p (rl_sw_schema mem p r)"
  by (auto simp: rl_sw_schema_def Let_def intro: rl_Suc)

lemma rl_schema_slash_keeps:
  "p < length mem \<Longrightarrow> rl_inv mem p (RL_schema_slash, r) \<Longrightarrow>
   rl_keeps mem p (rl_sw_schema_slash mem p r)"
  by (auto simp: rl_sw_schema_slash_def schema_ok_def intro: rl_Suc)

lemma rl_schema_slash_slash_keeps:
  "p < length mem \<Longrightarrow> rl_inv mem p (RL_schema_slash_slash, r) \<Longrightarrow>
   rl_keeps mem p (rl_sw_schema_slash_slash mem p r)"
  by (auto simp: rl_sw_schema_slash_slash_def intro: rl_Suc)

text \<open>Behind the authority of a request that is not \<open>CONNECT\<close>.\<close>

lemma rl_after_host_keeps:
  assumes p: "p < length mem" and r: "before_uri mem p r" "method r \<noteq> NGX_HTTP_CONNECT"
    and sch: "schema_ok mem p r"
  shows "rl_keeps mem p (rl_after_host mem p r)"
proof -
  from sch obtain q where q: "schema_end r = Some q" "q + 2 \<le> p" "mem ! (q + 1) = 0x2f"
    by (auto simp: schema_ok_def)
  have "uri_closed mem (Suc p) (r\<lparr>uri_start := Some (q + 1), uri_end := Some (Suc (q + 1))\<rparr>)"
    using q p r by (intro uri_closed_slash) (auto simp: before_uri_def)
  then have "after_uri mem (Suc p) (r\<lparr>uri_start := Some (q + 1), uri_end := Some (q + 2)\<rparr>)"
    using r by (auto simp: after_uri_def before_uri_def intro: rl_Suc)
  moreover have "uri_in mem (Suc p) (r\<lparr>uri_start := Some p\<rparr>)" if "mem ! p = 0x2f"
    using that p r by (intro uri_in_start) (auto simp: before_uri_def)
  moreover have "uri_mid mem (Suc p)
      (r\<lparr>uri_start := Some p, args_start := Some (p + 1), empty_path_in_uri := True\<rparr>)"
    if "mem ! p = 0x3f"
    using that p r by (intro uri_mid_empty_path) (auto simp: before_uri_def)
  ultimately show ?thesis
    using q r by (auto simp: rl_after_host_def Let_def before_uri_def intro: rl_Suc)
qed

lemma rl_host_end_keeps:
  "p < length mem \<Longrightarrow> before_uri mem p r \<Longrightarrow> method r = NGX_HTTP_CONNECT \<or> schema_ok mem p r \<Longrightarrow>
   rl_keeps mem p (rl_sw_host_end mem p r)"
  by (auto simp: rl_sw_host_end_def Let_def intro: rl_Suc rl_after_host_keeps)

lemma rl_host_keeps:
  "p < length mem \<Longrightarrow> before_uri mem p r \<Longrightarrow> method r = NGX_HTTP_CONNECT \<or> schema_ok mem p r \<Longrightarrow>
   rl_keeps mem p (rl_sw_host mem p r)"
  by (auto simp: rl_sw_host_def Let_def intro: rl_Suc rl_host_end_keeps)

lemma rl_host_start_keeps:
  "p < length mem \<Longrightarrow> before_uri mem p r \<Longrightarrow> method r = NGX_HTTP_CONNECT \<or> schema_ok mem p r \<Longrightarrow>
   rl_keeps mem p (rl_sw_host_start mem p r)"
  by (auto simp: rl_sw_host_start_def Let_def intro: rl_Suc rl_host_keeps)

lemma rl_spaces_before_host_keeps:
  "p < length mem \<Longrightarrow> rl_inv mem p (RL_spaces_before_host, r) \<Longrightarrow>
   rl_keeps mem p (rl_sw_spaces_before_host mem p r)"
  by (auto simp: rl_sw_spaces_before_host_def intro: rl_Suc rl_host_start_keeps)

lemma rl_host_ip_literal_keeps:
  "p < length mem \<Longrightarrow> rl_inv mem p (RL_host_ip_literal, r) \<Longrightarrow>
   rl_keeps mem p (rl_sw_host_ip_literal mem p r)"
  by (simp add: rl_sw_host_ip_literal_def Let_def) (auto intro: rl_Suc)

lemma rl_port_keeps:
  "p < length mem \<Longrightarrow> before_uri mem p r \<Longrightarrow> method r = NGX_HTTP_CONNECT \<or> schema_ok mem p r \<Longrightarrow>
   rl_keeps mem p (rl_sw_port mem p r)"
  by (auto simp: rl_sw_port_def Let_def intro: rl_Suc rl_after_host_keeps)
    (auto simp: after_uri_def before_uri_def intro: rl_Suc)

lemma rl_port_start_keeps:
  "p < length mem \<Longrightarrow> before_uri mem p r \<Longrightarrow> method r = NGX_HTTP_CONNECT \<or> schema_ok mem p r \<Longrightarrow>
   rl_keeps mem p (rl_sw_port_start mem p r)"
  by (auto simp: rl_sw_port_start_def intro: rl_Suc rl_port_keeps)

text \<open>The three URI states.\<close>

lemma uri_byte_usual: "usual ch \<Longrightarrow> uri_byte ch"
  using usual_printable by (simp add: uri_byte_def)

lemma uri_byte_other: "\<not> (ch < 0x20 \<or> ch = 0x7f) \<Longrightarrow> ch \<noteq> 0x20 \<Longrightarrow> uri_byte ch"
  by (auto simp: uri_byte_def not_less)

lemma uri_byte_special [simp]:
  "uri_byte 0x2f" "uri_byte 0x2e" "uri_byte 0x25" "uri_byte 0x23" "uri_byte 0x3f" "uri_byte 0x2b"
  by (simp_all add: uri_byte_def)

lemma after_uri_of_in:
  "uri_in mem p r \<Longrightarrow> method_ok mem p r \<Longrightarrow> http_major r = 0 \<Longrightarrow> request_end r = None \<Longrightarrow>
   method r \<noteq> NGX_HTTP_CONNECT \<Longrightarrow> after_uri mem p (r\<lparr>uri_end := Some p\<rparr>)"
  by (simp add: after_uri_def uri_closed_of_in)

lemma after_uri_of_mid:
  "uri_mid mem p r \<Longrightarrow> method_ok mem p r \<Longrightarrow> http_major r = 0 \<Longrightarrow> request_end r = None \<Longrightarrow>
   method r \<noteq> NGX_HTTP_CONNECT \<Longrightarrow> after_uri mem p (r\<lparr>uri_end := Some p\<rparr>)"
  by (simp add: after_uri_def uri_closed_of_mid)

lemma rl_uri_in_keeps:
  assumes "p < length mem" "uri_in mem p r" "method_ok mem p r" "http_major r = 0"
    "request_end r = None" "method r \<noteq> NGX_HTTP_CONNECT"
  shows "mem ! p = 0x20 \<Longrightarrow> rl_inv mem (Suc p) (RL_http_09, r\<lparr>uri_end := Some p\<rparr>)"
    and "mem ! p = CR \<Longrightarrow>
      rl_inv mem (Suc p) (RL_almost_done, r\<lparr>uri_end := Some p, http_minor := 9\<rparr>)"
    and "mem ! p = LF \<Longrightarrow> line_read mem p (r\<lparr>uri_end := Some p, http_minor := 9\<rparr>)"
    and "mem ! p = 0x3f \<Longrightarrow> rl_inv mem (Suc p) (RL_uri, r\<lparr>args_start := Some (Suc p)\<rparr>)"
    and "uri_byte (mem ! p) \<Longrightarrow> rl_inv mem (Suc p) (RL_uri, r\<lparr>complex_uri := True\<rparr>)"
    and "uri_byte (mem ! p) \<Longrightarrow> rl_inv mem (Suc p) (RL_uri, r\<lparr>quoted_uri := True\<rparr>)"
proof -
  note au = after_uri_of_in [OF assms(2-)]
  show "rl_inv mem (Suc p) (RL_http_09, r\<lparr>uri_end := Some p\<rparr>)"
    using au by (auto intro: rl_Suc)
  show "line_read mem p (r\<lparr>uri_end := Some p, http_minor := 9\<rparr>)"
    using au by (rule line_read_no_version)
  then show "rl_inv mem (Suc p) (RL_almost_done, r\<lparr>uri_end := Some p, http_minor := 9\<rparr>)"
    using assms by (auto intro: rl_Suc)
  show "rl_inv mem (Suc p) (RL_uri, r\<lparr>args_start := Some (Suc p)\<rparr>)" if "mem ! p = 0x3f"
    using uri_mid_args [OF assms(2,1) that] assms by (auto intro: rl_Suc)
  show "rl_inv mem (Suc p) (RL_uri, r\<lparr>complex_uri := True\<rparr>)" if "uri_byte (mem ! p)"
    using uri_mid_of_in [OF assms(2,1) that, of "r\<lparr>complex_uri := True\<rparr>"] assms
    by (auto intro: rl_Suc)
  show "rl_inv mem (Suc p) (RL_uri, r\<lparr>quoted_uri := True\<rparr>)" if "uri_byte (mem ! p)"
    using uri_mid_of_in [OF assms(2,1) that, of "r\<lparr>quoted_uri := True\<rparr>"] assms
    by (auto intro: rl_Suc)
qed

lemma rl_check_uri_char:
  assumes "p < length mem" "uri_in mem p r" "method_ok mem p r" "http_major r = 0"
    "request_end r = None" "method r \<noteq> NGX_HTTP_CONNECT"
    and "uri_byte (mem ! p)" "mem ! p \<noteq> 0x25" "mem ! p \<noteq> 0x23" "mem ! p \<noteq> 0x3f"
      "mem ! p \<noteq> 0x2f" "mem ! p \<noteq> 0x2e"
  shows "rl_inv mem (Suc p) (RL_check_uri, r)"
  using uri_in_char [OF assms(2,1,7-12)] assms by (auto intro: rl_Suc)

lemma rl_after_slash_in_uri_keeps:
  assumes "p < length mem" "rl_inv mem p (RL_after_slash_in_uri, r)"
  shows "rl_keeps mem p (rl_sw_after_slash_in_uri mem p r)"
proof -
  have r: "uri_in mem p r" "method_ok mem p r" "http_major r = 0" "request_end r = None"
      "method r \<noteq> NGX_HTTP_CONNECT"
    using assms(2) by auto
  note k = rl_uri_in_keeps [OF assms(1) r] rl_check_uri_char [OF assms(1) r]
  have "rl_inv mem (Suc p) (RL_after_slash_in_uri, r\<lparr>plus_in_uri := True\<rparr>)" if "mem ! p = 0x2b"
    using uri_in_char [OF r(1) assms(1)] that r by (auto intro: rl_Suc)
  then show ?thesis
    unfolding rl_sw_after_slash_in_uri_def Let_def
    by (simp del: rl_inv.simps add: k usual_neq uri_byte_usual uri_byte_other)
qed

lemma rl_check_uri_keeps:
  assumes "p < length mem" "rl_inv mem p (RL_check_uri, r)"
  shows "rl_keeps mem p (rl_sw_check_uri mem p r)"
proof -
  have r: "uri_in mem p r" "method_ok mem p r" "http_major r = 0" "request_end r = None"
      "method r \<noteq> NGX_HTTP_CONNECT" and last: "mem ! (p - 1) \<noteq> 0x2f"
    using assms(2) by auto
  note k = rl_uri_in_keeps [OF assms(1) r] rl_check_uri_char [OF assms(1) r]
  have "rl_inv mem (Suc p) (RL_after_slash_in_uri, r\<lparr>uri_ext := None\<rparr>)" if "mem ! p = 0x2f"
    using uri_in_slash [OF r(1) assms(1) last that] r by (auto intro: rl_Suc)
  moreover have "rl_inv mem (Suc p) (RL_check_uri, r\<lparr>uri_ext := Some (p + 1)\<rparr>)"
    if "mem ! p = 0x2e"
    using uri_in_dot [OF r(1) assms(1) last that] that r by (auto intro: rl_Suc)
  moreover have "rl_inv mem (Suc p) (RL_check_uri, r\<lparr>plus_in_uri := True\<rparr>)" if "mem ! p = 0x2b"
    using uri_in_char [OF r(1) assms(1)] that r by (auto intro: rl_Suc)
  ultimately show ?thesis
    unfolding rl_sw_check_uri_def Let_def
    by (simp del: rl_inv.simps add: k usual_neq uri_byte_usual uri_byte_other)
qed

lemma rl_uri_keeps:
  assumes "p < length mem" "rl_inv mem p (RL_uri, r)"
  shows "rl_keeps mem p (rl_sw_uri mem p r)"
proof -
  have r: "uri_mid mem p r" "method_ok mem p r" "http_major r = 0" "request_end r = None"
      "method r \<noteq> NGX_HTTP_CONNECT"
    using assms(2) by auto
  note au = after_uri_of_mid [OF r]
  have "rl_inv mem (Suc p) (RL_http_09, r\<lparr>uri_end := Some p\<rparr>)"
    using au by (auto intro: rl_Suc)
  moreover have lr: "line_read mem p (r\<lparr>uri_end := Some p, http_minor := 9\<rparr>)"
    using au by (rule line_read_no_version)
  moreover have "rl_inv mem (Suc p) (RL_almost_done, r\<lparr>uri_end := Some p, http_minor := 9\<rparr>)"
    using lr r by (auto intro: rl_Suc)
  moreover have "rl_inv mem (Suc p) (RL_uri, r\<lparr>complex_uri := True\<rparr>)" if "mem ! p = 0x23"
    using uri_mid_hash [OF r(1) assms(1) that] r by (auto intro: rl_Suc)
  moreover have "rl_inv mem (Suc p) (RL_uri, r)" if "uri_byte (mem ! p)" "mem ! p \<noteq> 0x23"
    using uri_mid_char [OF r(1) assms(1) that] r by (auto intro: rl_Suc)
  ultimately show ?thesis
    unfolding rl_sw_uri_def Let_def
    by (simp del: rl_inv.simps add: usual_neq uri_byte_usual uri_byte_other)
qed

text \<open>The version.\<close>

lemma rl_http_09_keeps:
  "p < length mem \<Longrightarrow> rl_inv mem p (RL_http_09, r) \<Longrightarrow> rl_keeps mem p (rl_sw_http_09 mem p r)"
  by (auto simp: rl_sw_http_09_def Let_def after_uri_def
      intro: rl_Suc line_read_no_version [unfolded after_uri_def])

lemma rl_http_letter_keeps:
  assumes "rl_inv mem p (RL_http_H, r)"
  shows "rl_keeps mem p (rl_sw_http_H mem p r)" "rl_keeps mem p (rl_sw_http_HT mem p r)"
    "rl_keeps mem p (rl_sw_http_HTT mem p r)"
  using assms
  by (auto simp: rl_sw_http_H_def rl_sw_http_HT_def rl_sw_http_HTT_def intro: rl_Suc)

lemma rl_http_HTTP_keeps:
  assumes "p < length mem" "rl_inv mem p (RL_http_HTTP, r)"
  shows "rl_keeps mem p (rl_sw_http_HTTP mem p r)"
proof (cases "method r = NGX_HTTP_CONNECT")
  case True
  then have "uri_closed mem (Suc p) (r\<lparr>uri_start := Some p, uri_end := Some (Suc p)\<rparr>)"
    if "mem ! p = 0x2f"
    using that assms by (intro uri_closed_slash) (auto simp: after_uri_def)
  with True assms show ?thesis
    by (auto simp: rl_sw_http_HTTP_def after_uri_def intro: rl_Suc)
next
  case False
  with assms show ?thesis
    by (auto simp: rl_sw_http_HTTP_def after_uri_def intro: rl_Suc)
qed

lemma rl_first_major_digit_keeps:
  assumes "p < length mem" "rl_inv mem p (RL_first_major_digit, r)"
  shows "rl_keeps mem p (rl_sw_first_major_digit mem p r)"
proof -
  have "digit_val (mem ! p) = 1"
    if "\<not> (mem ! p < 0x31 \<or> 0x39 < mem ! p)" "digit_val (mem ! p) mod 2 ^ 16 \<le> 1"
    using that by (auto simp: digit_val_def word_less_nat_alt not_less)
  with assms show ?thesis
    by (auto simp: rl_sw_first_major_digit_def Let_def intro: rl_Suc)
qed

lemma rl_major_digit_keeps:
  "p < length mem \<Longrightarrow> rl_inv mem p (RL_major_digit, r) \<Longrightarrow>
   rl_keeps mem p (rl_sw_major_digit mem p r)"
  by (auto simp: rl_sw_major_digit_def Let_def intro: rl_Suc dest: digit_val_le)

lemma rl_first_minor_digit_keeps:
  "p < length mem \<Longrightarrow> rl_inv mem p (RL_first_minor_digit, r) \<Longrightarrow>
   rl_keeps mem p (rl_sw_first_minor_digit mem p r)"
  by (auto simp: rl_sw_first_minor_digit_def Let_def versioned_def
      intro: rl_Suc dest: digit_val_le)

lemma rl_minor_digit_keeps:
  assumes "p < length mem" "rl_inv mem p (RL_minor_digit, r)"
  shows "rl_keeps mem p (rl_sw_minor_digit mem p r)"
proof -
  have v: "versioned mem p r" using assms by simp
  have "versioned mem (Suc p) (r\<lparr>http_minor := (http_minor r * 10 + digit_val (mem ! p)) mod 2 ^ 16\<rparr>)"
    if "is_digit (mem ! p)" "http_minor r \<le> 99"
    using v that digit_val_le [OF that(1)] by (auto simp: versioned_def intro: rl_Suc)
  with v show ?thesis
    by (auto simp: rl_sw_minor_digit_def Let_def versioned_def
        intro: rl_Suc line_read_version [unfolded versioned_def])
qed

lemma rl_spaces_after_digit_keeps:
  "p < length mem \<Longrightarrow> rl_inv mem p (RL_spaces_after_digit, r) \<Longrightarrow>
   rl_keeps mem p (rl_sw_spaces_after_digit mem p r)"
  by (auto simp: rl_sw_spaces_after_digit_def Let_def versioned_def
      intro: rl_Suc line_read_version [unfolded versioned_def])

lemma rl_almost_done_keeps:
  "p < length mem \<Longrightarrow> rl_inv mem p (RL_almost_done, r) \<Longrightarrow>
   rl_keeps mem p (rl_sw_almost_done mem p r)"
  by (auto simp: rl_sw_almost_done_def Let_def intro: line_read_end)

lemmas rl_states_keep =
  rl_start_keeps rl_method_keeps rl_spaces_before_uri_keeps rl_schema_keeps rl_schema_slash_keeps
  rl_schema_slash_slash_keeps rl_host_end_keeps rl_host_keeps rl_host_start_keeps
  rl_spaces_before_host_keeps rl_host_ip_literal_keeps rl_port_keeps rl_port_start_keeps
  rl_after_slash_in_uri_keeps rl_check_uri_keeps rl_uri_keeps rl_http_09_keeps
  rl_http_letter_keeps rl_http_HTTP_keeps rl_first_major_digit_keeps rl_major_digit_keeps
  rl_first_minor_digit_keeps rl_minor_digit_keeps rl_spaces_after_digit_keeps
  rl_almost_done_keeps

lemma rl_step_keeps:
  assumes "p < length mem" "rl_inv mem p (st, r)"
  shows "rl_keeps mem p (rl_step mem p (st, r))"
  using assms by (cases st) (simp_all add: rl_step.simps rl_states_keep)

section \<open>No state reads ahead\<close>

lemmas rl_defs = rl_step.simps rl_sw_start_def rl_sw_method_def rl_sw_spaces_before_uri_def
  rl_sw_schema_def rl_sw_schema_slash_def rl_sw_schema_slash_slash_def rl_after_host_def
  rl_sw_host_end_def rl_sw_host_def rl_sw_host_start_def rl_sw_spaces_before_host_def
  rl_sw_host_ip_literal_def rl_sw_port_def rl_sw_port_start_def rl_sw_after_slash_in_uri_def
  rl_sw_check_uri_def rl_sw_uri_def rl_sw_http_09_def rl_sw_http_H_def rl_sw_http_HT_def
  rl_sw_http_HTT_def rl_sw_http_HTTP_def rl_sw_first_major_digit_def rl_sw_major_digit_def
  rl_sw_first_minor_digit_def rl_sw_minor_digit_def rl_sw_spaces_after_digit_def
  rl_sw_almost_done_def

lemma rl_method_name_prefix:
  assumes eq: "take (Suc p) mem = take (Suc p) mem'" and m: "m < p"
  shows "rl_method_name mem m p old = rl_method_name mem' m p old"
proof -
  have b: "bytes_at mem m s = bytes_at mem' m s" if "length s \<le> Suc (p - m)" for s
    using bytes_at_prefix [OF eq, of m s] that m by simp
  have "mem ! (m + 1) = mem' ! (m + 1)" using nth_take_eq [OF eq] m by simp
  then show ?thesis by (simp add: rl_method_name_def b)
qed

lemma rl_step_prefix:
  assumes eq: "take (Suc p) mem = take (Suc p) mem'" and inv: "rl_inv mem p (st, r)"
  shows "rl_step mem p (st, r) = rl_step mem' p (st, r)"
proof -
  have ch: "mem ! p = mem' ! p" using nth_take_eq [OF eq] by simp
  have mn: "rl_method_name mem s p old = rl_method_name mem' s p old" if "s < p" for s old
    using rl_method_name_prefix [OF eq that] .
  show ?thesis
  proof (cases "st = RL_method")
    case True
    with inv obtain s where "request_start r = Some s" "s < p" by auto
    with True show ?thesis by (simp add: rl_defs ch mn Let_def)
  next
    case False
    then show ?thesis by (cases st) (simp_all only: rl_defs ch rl_state.case simp_thms)
  qed
qed

lemma uri_bytes_prefix:
  "take p mem = take p mem' \<Longrightarrow> e \<le> p \<Longrightarrow> uri_bytes mem u e = uri_bytes mem' u e"
  unfolding uri_bytes_def using byte_range_take_eq [of p mem mem' e u] by simp

lemma uri_shape_prefix:
  assumes eq: "take p mem = take p mem'" and "u < e" "e \<le> p" and sh: "uri_shape mem u e r"
  shows "uri_shape mem' u e r"
proof -
  have n: "mem ! i = mem' ! i" if "i < p" for i using nth_take_eq [OF eq that] .
  have b: "byte_range i j mem = byte_range i j mem'" if "j \<le> p" for i j
    using byte_range_take_eq [OF eq that] .
  have "mem ! u = mem' ! u" using n assms by simp
  moreover have "mem ! (a - 1) = mem' ! (a - 1)" "byte_range u (a - 1) mem = byte_range u (a - 1) mem'"
    if "u < a" "a \<le> e" for a
    using that assms n [of "a - 1"] b [of "a - 1" u] by auto
  ultimately show ?thesis
    using sh b [of e] assms(3) by (auto simp: uri_shape_def split: option.splits)
qed

lemma uri_in_prefix: "take p mem = take p mem' \<Longrightarrow> uri_in mem p r \<Longrightarrow> uri_in mem' p r"
  using nth_take_eq [of p mem mem'] uri_bytes_prefix [of p mem mem' p]
    byte_range_take_eq [of p mem mem' p]
  by (auto simp: uri_in_def)

lemma uri_mid_prefix: "take p mem = take p mem' \<Longrightarrow> uri_mid mem p r \<Longrightarrow> uri_mid mem' p r"
  using uri_bytes_prefix [of p mem mem' p] uri_shape_prefix [of p mem mem' _ p]
  by (auto simp: uri_mid_def)

lemma uri_closed_prefix: "take p mem = take p mem' \<Longrightarrow> uri_closed mem p r \<Longrightarrow> uri_closed mem' p r"
  using uri_bytes_prefix [of p mem mem'] uri_shape_prefix [of p mem mem']
  by (fastforce simp: uri_closed_def)

lemma method_ok_prefix: "take p mem = take p mem' \<Longrightarrow> method_ok mem p r \<Longrightarrow> method_ok mem' p r"
  using byte_range_take_eq [of p mem mem'] by (fastforce simp: method_ok_def)

lemma schema_ok_prefix: "take p mem = take p mem' \<Longrightarrow> schema_ok mem p r \<Longrightarrow> schema_ok mem' p r"
  using nth_take_eq [of p mem mem'] by (fastforce simp: schema_ok_def)

lemmas rl_prefix = uri_in_prefix uri_mid_prefix uri_closed_prefix method_ok_prefix schema_ok_prefix

lemma before_uri_prefix: "take p mem = take p mem' \<Longrightarrow> before_uri mem p r \<Longrightarrow> before_uri mem' p r"
  by (auto simp: before_uri_def intro: rl_prefix)

lemma after_uri_prefix: "take p mem = take p mem' \<Longrightarrow> after_uri mem p r \<Longrightarrow> after_uri mem' p r"
  by (auto simp: after_uri_def intro: rl_prefix)

lemma versioned_prefix: "take p mem = take p mem' \<Longrightarrow> versioned mem p r \<Longrightarrow> versioned mem' p r"
  by (auto simp: versioned_def intro: rl_prefix)

lemma line_read_prefix: "take p mem = take p mem' \<Longrightarrow> line_read mem p r \<Longrightarrow> line_read mem' p r"
  by (auto simp: line_read_def intro: after_uri_prefix versioned_prefix)

lemma rl_inv_prefix:
  assumes "take p mem = take p mem'" "rl_inv mem p (st, r)"
  shows "rl_inv mem' p (st, r)"
proof -
  have last: "mem ! (p - 1) = mem' ! (p - 1)" if "uri_in mem p r"
    using nth_take_eq [OF assms(1), of "p - 1"] that by (auto simp: uri_in_def)
  have range: "byte_range s p mem = byte_range s p mem'" for s
    using byte_range_take_eq [OF assms(1)] by simp
  note px = rl_prefix before_uri_prefix after_uri_prefix versioned_prefix line_read_prefix
  show ?thesis
    using assms(2) last range by (cases st) (auto dest: px [OF assms(1)])
qed

interpretation rl: byte_scanner rl_step rl_inv rl_post
proof
  fix mem p and s s' :: "rl_state \<times> ngx_http_request"
  assume "p < length mem" "rl_inv mem p s" "rl_step mem p s = Go s'"
  then show "rl_inv mem (Suc p) s'" using rl_step_keeps [of p mem "fst s" "snd s"] by simp
next
  fix mem p and s :: "rl_state \<times> ngx_http_request" and v
  assume "p < length mem" "rl_inv mem p s" "rl_step mem p s = Stop v"
  then show "rl_post mem p v" using rl_step_keeps [of p mem "fst s" "snd s"] by (simp add: rl_keeps_def)
next
  fix mem mem' p and s :: "rl_state \<times> ngx_http_request"
  assume "take (Suc p) mem = take (Suc p) mem'" "rl_inv mem p s"
  then show "rl_step mem p s = rl_step mem' p s"
    using rl_step_prefix [of p mem mem' "fst s" "snd s"] by simp
next
  fix mem mem' p and s :: "rl_state \<times> ngx_http_request"
  assume "take p mem = take p mem'" "rl_inv mem p s"
  then show "rl_inv mem' p s" using rl_inv_prefix [of p mem mem' "fst s" "snd s"] by simp
qed

section \<open>The properties\<close>

text \<open>
  A request whose line is being read: fresh, or interrupted by the end of the data at \<open>p\<close>.
\<close>

definition rl_ready :: "byte list \<Rightarrow> nat \<Rightarrow> ngx_http_request \<Rightarrow> bool" where
  "rl_ready mem p r \<longleftrightarrow> (\<exists>st. rl_decode (state r) = Some st \<and> rl_inv mem p (st, r))"

lemma rl_ready_fresh: "rl_ready mem p fresh_request"
  by (auto simp: rl_ready_def fresh_request_def rl_decode_def rl_states_def no_flags_def)


text \<open>No state reads or writes \<open>r->state\<close>: it is a local variable during the loop.\<close>

lemma rl_step_state:
  "rl_step mem p (st, r\<lparr>state := n\<rparr>) =
     map_flow (apsnd (\<lambda>r. r\<lparr>state := n\<rparr>)) (\<lambda>(ex, r, q). (ex, r\<lparr>state := n\<rparr>, q)) (rl_step mem p (st, r))"
  by (cases st) (simp_all add: rl_defs Let_def split: prod.splits)


lemma rl_scan_state:
  "scan_bytes rl_step mem p e (st, r\<lparr>state := n\<rparr>) =
     map_flow (apsnd (\<lambda>r. r\<lparr>state := n\<rparr>)) (\<lambda>(ex, r, q). (ex, r\<lparr>state := n\<rparr>, q))
       (scan_bytes rl_step mem p e (st, r))"
proof -
  have step: "rl_step mem p (apsnd (\<lambda>r. r\<lparr>state := n\<rparr>) s) =
      map_flow (apsnd (\<lambda>r. r\<lparr>state := n\<rparr>)) (\<lambda>(ex, r, q). (ex, r\<lparr>state := n\<rparr>, q)) (rl_step mem p s)"
    for p s
    by (cases s) (simp add: rl_step_state)
  show ?thesis
    using scan_bytes_map [where step = rl_step and mem = mem and s = "(st, r)" and p = p and e = e,
        OF step] by simp
qed

lemma rl_scan_return:
  assumes "rl_inv mem p s" "e \<le> length mem" "scan_bytes rl_step mem p e s = Stop (Return rc, r, q)"
  shows "rc \<in> {NGX_HTTP_PARSE_INVALID_METHOD, NGX_HTTP_PARSE_INVALID_REQUEST,
    NGX_HTTP_PARSE_INVALID_VERSION}"
  using rl.scan_post [OF assms(2,1,3)] by (auto simp: rl_post_def)

text \<open>A call that returns \<open>NGX_AGAIN\<close> leaves a request that is ready to go on.\<close>

lemma rl_again:
  assumes "rl_ready (buf_mem b) (buf_pos b) r" "buf_pos b \<le> buf_last b"
    "buf_last b \<le> length (buf_mem b)" "ngx_http_parse_request_line r b = (NGX_AGAIN, r1, b1)"
  obtains st st' r' where "rl_decode (state r) = Some st" "rl_inv (buf_mem b) (buf_pos b) (st, r)"
    "scan_bytes rl_step (buf_mem b) (buf_pos b) (buf_last b) (st, r) = Go (st', r')"
    "rl_inv (buf_mem b) (buf_last b) (st', r')"
    "r1 = r'\<lparr>state := rl_encode st'\<rparr>" "b1 = b\<lparr>buf_pos := buf_last b\<rparr>"
proof -
  from assms(1) obtain st where st: "rl_decode (state r) = Some st"
      "rl_inv (buf_mem b) (buf_pos b) (st, r)"
    by (auto simp: rl_ready_def)
  show thesis
  proof (cases "scan_bytes rl_step (buf_mem b) (buf_pos b) (buf_last b) (st, r)")
    case (Go s')
    moreover have "rl_inv (buf_mem b) (buf_last b) s'"
      using rl.scan_inv [OF assms(2,3) st(2) Go] .
    ultimately show thesis
      using that [OF st] assms(2,4) st(1)
      by (cases s') (auto simp: ngx_http_parse_request_line_def max_absorb2)
  next
    case (Stop v)
    then obtain q where "rl_post (buf_mem b) q v"
      using rl.scan_post [OF assms(3) st(2) Stop] by auto
    then show thesis
      using assms(4) st(1) Stop
      by (cases v) (auto simp: ngx_http_parse_request_line_def rl_post_def rl_done_def Let_def
          split: exit.splits if_splits)
  qed
qed

lemma rl_inv_state [simp]: "rl_inv mem p (st, r\<lparr>state := n\<rparr>) = rl_inv mem p (st, r)"
  by (cases st) (simp_all add: no_flags_def before_uri_def after_uri_def versioned_def line_read_def
      method_ok_def schema_ok_def uri_in_def uri_mid_def uri_closed_def uri_shape_def
      cong: option.case_cong)

text \<open>
  C1. Resumption of the request-line parser. A first call sees the bytes up to \<open>buf_last b\<close>
  and returns \<open>NGX_AGAIN\<close>; more bytes arrive behind them. The second call returns the code of
  the uninterrupted parse of all the bytes, and where that parse completes or again needs more
  data, the same request and buffer; where it fails, the same request up to \<open>r->state\<close>.
\<close>

theorem request_line_resume:
  assumes "rl_ready (buf_mem b) (buf_pos b) r" "buf_pos b \<le> buf_last b"
    "buf_last b \<le> length (buf_mem b)"
    and first: "ngx_http_parse_request_line r b = (NGX_AGAIN, r1, b1)"
    and grown: "take (buf_last b) mem2 = take (buf_last b) (buf_mem b)"
      "buf_last b \<le> l2" "l2 \<le> length mem2"
    and second: "ngx_http_parse_request_line r1 (b1\<lparr>buf_mem := mem2, buf_last := l2\<rparr>) = (rc, ra, ba)"
    and full: "ngx_http_parse_request_line r (b\<lparr>buf_mem := mem2, buf_last := l2\<rparr>) = (rc', rb, bb)"
  shows "rc = rc' \<and> ra\<lparr>state := 0\<rparr> = rb\<lparr>state := 0\<rparr> \<and>
    (rc \<in> {NGX_OK, NGX_AGAIN, NGX_HTTP_PARSE_INVALID_09_METHOD} \<longrightarrow> ra = rb \<and> ba = bb)"
proof -
  obtain st st' r' where st: "rl_decode (state r) = Some st"
      and inv: "rl_inv (buf_mem b) (buf_pos b) (st, r)"
      and scan: "scan_bytes rl_step (buf_mem b) (buf_pos b) (buf_last b) (st, r) = Go (st', r')"
      and r1: "r1 = r'\<lparr>state := rl_encode st'\<rparr>" and b1: "b1 = b\<lparr>buf_pos := buf_last b\<rparr>"
    using rl_again [OF assms(1-4)] by metis
  have "scan_bytes rl_step mem2 (buf_pos b) l2 (st, r) = scan_bytes rl_step mem2 (buf_last b) l2 (st', r')"
    using rl.scan_resume [OF assms(2) grown(2) assms(3) grown(3) grown(1) [symmetric] inv scan] .
  moreover have "rl_inv mem2 (buf_pos b) (st, r)"
    using rl_inv_prefix [OF take_eq_mono [OF grown(1) [symmetric] assms(2)] inv] .
  note ret = rl_scan_return [OF this grown(3)]
  ultimately show ?thesis
    using st scan second full assms(2) grown(2)
    by (cases "scan_bytes rl_step mem2 (buf_last b) l2 (st', r')")
      (auto simp: ngx_http_parse_request_line_def r1 b1 rl_scan_state rl_done_def Let_def max_absorb2
        split: exit.splits if_splits dest!: ret)
qed


section \<open>What a successful parse guarantees\<close>

lemma line_read_frame:
  assumes "line_read mem p r"
  shows "line_read mem p (r\<lparr>http_version := v, state := n\<rparr>)"
  using assms by (auto simp: line_read_def versioned_def after_uri_def split: if_splits)

lemma rl_ok:
  assumes "rl_ready (buf_mem b) (buf_pos b) r" "buf_last b \<le> length (buf_mem b)"
    "ngx_http_parse_request_line r b = (NGX_OK, r', b')"
  obtains q where "buf_pos b \<le> q" "q < buf_last b" "buf_mem b ! q = LF" "b' = b\<lparr>buf_pos := q + 1\<rparr>"
    "line_read (buf_mem b) q r'" "state r' = 0" "http_version r' = http_major r' * 1000 + http_minor r'"
    "http_version r' = 9 \<Longrightarrow> method r' = NGX_HTTP_GET"
proof -
  from assms(1) obtain st where st: "rl_decode (state r) = Some st"
      "rl_inv (buf_mem b) (buf_pos b) (st, r)"
    by (auto simp: rl_ready_def)
  from st(1) assms(3) obtain v
    where v: "scan_bytes rl_step (buf_mem b) (buf_pos b) (buf_last b) (st, r) = Stop v"
    by (cases "scan_bytes rl_step (buf_mem b) (buf_pos b) (buf_last b) (st, r)")
      (auto simp: ngx_http_parse_request_line_def)
  from rl.scan_post [OF assms(2) st(2) v] obtain q
    where q: "buf_pos b \<le> q" "q < buf_last b" "rl_post (buf_mem b) q v"
    by auto
  then obtain r2 where r2: "v = (Goto_done, r2, q)" "line_read (buf_mem b) q r2" "buf_mem b ! q = LF"
    using st(1) v assms(3)
    by (cases v) (auto simp: ngx_http_parse_request_line_def rl_post_def split: exit.splits)
  have fin: "rl_done q r2 b = (NGX_OK, r', b')"
    using st(1) v r2(1) assms(3) by (simp add: ngx_http_parse_request_line_def)
  show thesis
  proof (rule that [OF q(1,2) r2(3)])
    show "line_read (buf_mem b) q r'"
      using fin r2(2) line_read_frame line_read_end
      by (auto simp: rl_done_def Let_def split: if_splits)
  qed (use fin in \<open>auto simp: rl_done_def Let_def split: if_splits\<close>)
qed

lemma line_read_method: "line_read mem p r \<Longrightarrow> method_ok mem p r"
  by (auto simp: line_read_def versioned_def after_uri_def)

lemma line_read_uri:
  assumes "line_read mem p r" "http_version r = http_major r * 1000 + http_minor r"
    "http_version r = 9 \<Longrightarrow> method r = NGX_HTTP_GET"
  shows "uri_closed mem p r"
  using assms by (auto simp: line_read_def versioned_def after_uri_def split: if_splits)

text \<open>
  C2. A successful parse consumes the line up to and with its line feed, and designates as the
  URI a non-empty range of the line, in front of the line feed, without blanks, control characters
  or DEL, that starts with a slash, or with the question mark of an absolute URI whose path is empty.
\<close>

theorem request_line_uri:
  assumes "rl_ready (buf_mem b) (buf_pos b) r" "buf_last b \<le> length (buf_mem b)"
    "ngx_http_parse_request_line r b = (NGX_OK, r', b')"
  shows "buf_pos b < buf_pos b' \<and> buf_pos b' \<le> buf_last b \<and> buf_mem b ! (buf_pos b' - 1) = LF \<and>
    (\<exists>u e. uri_start r' = Some u \<and> uri_end r' = Some e \<and> u < e \<and> e < buf_pos b' \<and>
      (\<forall>c\<in>set (byte_range u e (buf_mem b)). 0x20 < c \<and> c \<noteq> 0x7f) \<and>
      (buf_mem b ! u = c8 CHR ''/'' \<or> buf_mem b ! u = c8 CHR ''?'' \<and> empty_path_in_uri r'))"
proof -
  obtain q where q: "buf_pos b \<le> q" "q < buf_last b" "buf_mem b ! q = LF"
      "b' = b\<lparr>buf_pos := q + 1\<rparr>" and lr: "line_read (buf_mem b) q r'"
      "http_version r' = http_major r' * 1000 + http_minor r'"
      "http_version r' = 9 \<Longrightarrow> method r' = NGX_HTTP_GET"
    using rl_ok [OF assms] by metis
  show ?thesis
    using line_read_uri [OF lr] q
    by (fastforce simp: uri_closed_def uri_bytes_def uri_byte_def uri_shape_def)
qed

text \<open>
  C3. The version of an accepted request line is HTTP/0.9, then the method is \<open>GET\<close>, or
  HTTP/1.n with n at most 999: the 16-bit fields never wrap.
\<close>

theorem request_line_version:
  assumes "rl_ready (buf_mem b) (buf_pos b) r" "buf_last b \<le> length (buf_mem b)"
    "ngx_http_parse_request_line r b = (NGX_OK, r', b')"
  shows "http_version r' = 9 \<and> method r' = NGX_HTTP_GET \<or>
    1000 \<le> http_version r' \<and> http_version r' \<le> 1999"
proof -
  obtain q where "line_read (buf_mem b) q r'" "http_version r' = http_major r' * 1000 + http_minor r'"
      "http_version r' = 9 \<Longrightarrow> method r' = NGX_HTTP_GET"
    using rl_ok [OF assms] by metis
  then show ?thesis by (auto simp: line_read_def versioned_def after_uri_def)
qed

text \<open>
  C4. The method code of an accepted request line is the one the table of methods gives for
  the token in front of the first blank (\<open>NGX_HTTP_UNKNOWN\<close> for other names): the nested
  comparisons by length are a correct lookup.
\<close>

theorem request_line_method:
  assumes "rl_ready (buf_mem b) (buf_pos b) r" "buf_last b \<le> length (buf_mem b)"
    "ngx_http_parse_request_line r b = (NGX_OK, r', b')"
  shows "\<exists>s e. request_start r' = Some s \<and> method_end r' = Some e \<and> s \<le> e \<and> e < buf_pos b' \<and>
    list_all method_char (byte_range s (e + 1) (buf_mem b)) \<and>
    method r' = method_code (byte_range s (e + 1) (buf_mem b))"
proof -
  obtain q where "line_read (buf_mem b) q r'" "b' = b\<lparr>buf_pos := q + 1\<rparr>"
    using rl_ok [OF assms] by metis
  then show ?thesis by (auto simp: method_ok_def dest!: line_read_method)
qed

section \<open>The parser on a concrete request line\<close>

definition rl_example :: ngx_buf where
  "rl_example =
     \<lparr>buf_mem = str8 ''GET /a.b HTTP/1.1'' @ [CR, LF], buf_pos = 0, buf_last = 19\<rparr>"

definition rl_example_read :: ngx_http_request where
  "rl_example_read = fresh_request\<lparr>method := NGX_HTTP_GET, http_version := 1001,
     uri_start := Some 4, uri_end := Some 8, uri_ext := Some 7, http_protocol_data := Some 9,
     request_start := Some 0, request_end := Some 17, method_end := Some 2,
     http_minor := 1, http_major := 1\<rparr>"

text \<open>The same line when only its first five bytes have arrived.\<close>

definition rl_example_part :: ngx_buf where
  "rl_example_part = \<lparr>buf_mem = str8 ''GET /'', buf_pos = 0, buf_last = 5\<rparr>"

definition rl_example_part_read :: ngx_http_request where
  "rl_example_part_read = fresh_request\<lparr>method := NGX_HTTP_GET, uri_start := Some 4,
     request_start := Some 0, method_end := Some 2, state := rl_encode RL_after_slash_in_uri\<rparr>"

lemmas rl_eval =
  ngx_http_parse_request_line_def fresh_request_def rl_decode_def rl_states_def scan_bytes.simps
  rl_defs rl_method_name_def bytes_at_def usual_def usual_table_def is_digit_def is_alpha_def
  lower_def digit_val_def rl_done_def

lemma rl_example_ok:
  "ngx_http_parse_request_line fresh_request rl_example =
     (NGX_OK, rl_example_read, rl_example\<lparr>buf_pos := 19\<rparr>)"
  by (simp add: rl_example_def rl_example_read_def rl_eval)

lemma rl_example_again:
  "ngx_http_parse_request_line fresh_request rl_example_part =
     (NGX_AGAIN, rl_example_part_read, rl_example_part\<lparr>buf_pos := 5\<rparr>)"
  by (simp add: rl_example_part_def rl_example_part_read_def rl_eval)

lemma rl_example_rest:
  "ngx_http_parse_request_line rl_example_part_read (rl_example\<lparr>buf_pos := 5\<rparr>) =
     (NGX_OK, rl_example_read, rl_example\<lparr>buf_pos := 19\<rparr>)"
  by (simp add: rl_example_def rl_example_part_read_def rl_example_read_def rl_eval)

lemma rl_example_bounds: "buf_last rl_example \<le> length (buf_mem rl_example)"
  by (simp add: rl_example_def)

theorem request_line_resume_witness:
  "ngx_http_parse_request_line fresh_request rl_example_part =
     (NGX_AGAIN, rl_example_part_read, rl_example_part\<lparr>buf_pos := 5\<rparr>) \<and>
   fst (ngx_http_parse_request_line rl_example_part_read (rl_example\<lparr>buf_pos := 5\<rparr>)) =
     fst (ngx_http_parse_request_line fresh_request rl_example)"
proof -
  have grow: "rl_example_part\<lparr>buf_pos := 5\<rparr>\<lparr>buf_mem := buf_mem rl_example, buf_last := 19\<rparr> =
      rl_example\<lparr>buf_pos := 5\<rparr>"
    "rl_example_part\<lparr>buf_mem := buf_mem rl_example, buf_last := 19\<rparr> = rl_example"
    by (simp_all add: rl_example_def rl_example_part_def)
  have "NGX_OK = NGX_OK \<and> rl_example_read\<lparr>state := 0\<rparr> = rl_example_read\<lparr>state := 0\<rparr> \<and>
      (NGX_OK \<in> {NGX_OK, NGX_AGAIN, NGX_HTTP_PARSE_INVALID_09_METHOD} \<longrightarrow>
       rl_example_read = rl_example_read \<and> rl_example\<lparr>buf_pos := 19\<rparr> = rl_example\<lparr>buf_pos := 19\<rparr>)"
    by (rule request_line_resume [where b = rl_example_part and r = fresh_request
          and ?mem2.0 = "buf_mem rl_example" and ?l2.0 = 19, OF rl_ready_fresh _ _ rl_example_again])
      (simp_all only: grow rl_example_rest rl_example_ok,
       simp_all add: rl_example_def rl_example_part_def)
  then show ?thesis by (simp add: rl_example_again rl_example_rest rl_example_ok)
qed

theorem request_line_uri_witness:
  "\<exists>u e. uri_start rl_example_read = Some u \<and> uri_end rl_example_read = Some e \<and>
     byte_range u e (buf_mem rl_example) = str8 ''/a.b'' \<and>
     (\<forall>c\<in>set (byte_range u e (buf_mem rl_example)). 0x20 < c \<and> c \<noteq> 0x7f)"
  using request_line_uri [OF rl_ready_fresh rl_example_bounds rl_example_ok]
  by (simp add: rl_example_def rl_example_read_def byte_range_def)

theorem request_line_version_witness:
  "http_version rl_example_read = 9 \<and> method rl_example_read = NGX_HTTP_GET \<or>
    1000 \<le> http_version rl_example_read \<and> http_version rl_example_read \<le> 1999"
  using request_line_version [OF rl_ready_fresh rl_example_bounds rl_example_ok] .

theorem request_line_method_witness:
  "method rl_example_read = method_code (str8 ''GET'') \<and>
   list_all method_char (str8 ''GET'')"
  using request_line_method [OF rl_ready_fresh rl_example_bounds rl_example_ok]
  by (simp add: rl_example_def rl_example_read_def byte_range_def)

end
