(* ===== verification/Ngx_String.thy ===== *)
theory Ngx_String
  imports Prelude
begin

text \<open>
  Strings and hash keys of \<open>src/core/ngx_string.c\<close> and \<open>src/core/ngx_hash.c\<close>: lower case, and
  the multiplicative hash of header and variable names. An \<open>ngx_str_t\<close> is the list of the bytes
  it designates; \<open>ngx_uint_t\<close> is \<open>32 word\<close>.
\<close>

definition ngx_tolower :: "byte \<Rightarrow> byte" where
  "ngx_tolower c = (if c8 CHR ''A'' \<le> c \<and> c \<le> c8 CHR ''Z'' then c OR 0x20 else c)"

primrec ngx_strlow :: "byte list \<Rightarrow> byte list" where
  "ngx_strlow [] = []"
| "ngx_strlow (c # src) = ngx_tolower c # ngx_strlow src"

definition ngx_hash :: "32 word \<Rightarrow> byte \<Rightarrow> 32 word" where
  "ngx_hash key c = key * 31 + ucast c"

definition ngx_hash_key :: "byte list \<Rightarrow> 32 word" where
  "ngx_hash_key data = foldl (\<lambda>key c. ngx_hash key c) 0 data"

definition ngx_hash_key_lc :: "byte list \<Rightarrow> 32 word" where
  "ngx_hash_key_lc data = foldl (\<lambda>key c. ngx_hash key (ngx_tolower c)) 0 data"

fun ngx_hash_strlow_loop :: "byte list \<Rightarrow> 32 word \<Rightarrow> byte list \<Rightarrow> byte list \<times> 32 word" where
  "ngx_hash_strlow_loop dst key [] = (dst, key)"
| "ngx_hash_strlow_loop dst key (c # src) =
     (let d = ngx_tolower c in ngx_hash_strlow_loop (dst @ [d]) (ngx_hash key d) src)"

definition ngx_hash_strlow :: "byte list \<Rightarrow> byte list \<times> 32 word" where
  "ngx_hash_strlow src = ngx_hash_strlow_loop [] 0 src"

lemma ngx_strlow_map: "ngx_strlow s = map ngx_tolower s"
  by (induction s) simp_all

lemma ngx_hash_key_strlow: "ngx_hash_key (ngx_strlow s) = ngx_hash_key_lc s"
  by (simp add: ngx_hash_key_def ngx_hash_key_lc_def ngx_strlow_map foldl_map)

lemma ngx_hash_key_snoc: "ngx_hash_key (s @ [c]) = ngx_hash (ngx_hash_key s) c"
  by (simp add: ngx_hash_key_def)

lemma ngx_hash_strlow_loop:
  "ngx_hash_strlow_loop dst key src =
     (dst @ ngx_strlow src, foldl (\<lambda>key c. ngx_hash key (ngx_tolower c)) key src)"
  by (induction src arbitrary: dst key) (simp_all add: Let_def)

lemma ngx_hash_strlow_eq: "ngx_hash_strlow s = (ngx_strlow s, ngx_hash_key_lc s)"
  by (simp add: ngx_hash_strlow_def ngx_hash_strlow_loop ngx_hash_key_lc_def)

end
