(* ===== verification/Ngx_Http_Header_Line.thy ===== *)
theory Ngx_Http_Header_Line
  imports Ngx_Http_Types Ngx_String
begin

text \<open>
  \<open>ngx_http_parse_header_line\<close> of \<open>src/http/ngx_http_parse.c\<close>: one call reads one header
  line, records the ranges of its name and value, and computes on the way the hash of the
  lower-case name and its first 32 bytes (a ring buffer, \<open>r->lowcase_header\<close>).

  The local variables of the loop are the state, the running hash and the ring index;
  \<open>HL_done\<close> and \<open>HL_header_done\<close> are the two labels behind the loop.
\<close>

section \<open>Definitions\<close>

datatype hl_state =
    HL_start | HL_name | HL_space_before_value | HL_value | HL_space_after_value
  | HL_ignore_line | HL_almost_done | HL_header_almost_done

definition hl_states :: "hl_state list" where
  "hl_states = [HL_start, HL_name, HL_space_before_value, HL_value, HL_space_after_value,
     HL_ignore_line, HL_almost_done, HL_header_almost_done]"

definition hl_decode :: "nat \<Rightarrow> hl_state option" where
  "hl_decode n = (if n < length hl_states then Some (hl_states ! n) else None)"

primrec hl_encode :: "hl_state \<Rightarrow> nat" where
  "hl_encode HL_start = 0"
| "hl_encode HL_name = 1"
| "hl_encode HL_space_before_value = 2"
| "hl_encode HL_value = 3"
| "hl_encode HL_space_after_value = 4"
| "hl_encode HL_ignore_line = 5"
| "hl_encode HL_almost_done = 6"
| "hl_encode HL_header_almost_done = 7"

lemma hl_decode_encode [simp]: "hl_decode (hl_encode st) = Some st"
  by (cases st) (simp_all add: hl_decode_def hl_states_def)

datatype hl_exit = HL_return ngx_rc | HL_done | HL_header_done

type_synonym hl_locals = "hl_state \<times> 32 word \<times> nat \<times> ngx_http_request"
type_synonym hl_flow = "(hl_locals, hl_exit \<times> 32 word \<times> nat \<times> ngx_http_request \<times> nat) flow"

definition lowcase_table :: "byte list" where
  "lowcase_table =
     replicate 32 0 @
     replicate 13 0 @ str8 ''-'' @ replicate 2 0 @ str8 ''0123456789'' @ replicate 6 0 @
     [0] @ str8 ''abcdefghijklmnopqrstuvwxyz'' @ replicate 5 0 @
     [0] @ str8 ''abcdefghijklmnopqrstuvwxyz'' @ replicate 5 0 @
     replicate 128 0"

definition lowcase :: "byte \<Rightarrow> byte" where
  "lowcase ch = lowcase_table ! unat ch"

abbreviation (input) NGX_HTTP_LC_HEADER_LEN :: nat where "NGX_HTTP_LC_HEADER_LEN \<equiv> 32"

definition hl_sw_start :: "bool \<Rightarrow> byte list \<Rightarrow> nat \<Rightarrow> 32 word \<Rightarrow> nat \<Rightarrow> ngx_http_request \<Rightarrow> hl_flow" where
  "hl_sw_start allow_underscores mem p hash i r =
     (let ch = mem ! p; r = r\<lparr>header_name_start := Some p, invalid_header := False\<rparr> in
      if ch = CR then Go (HL_header_almost_done, hash, i, r\<lparr>header_end := Some p\<rparr>)
      else if ch = LF then Stop (HL_header_done, hash, i, r\<lparr>header_end := Some p\<rparr>, p)
      else
        (let c = lowcase ch in
         if c \<noteq> 0 then
           Go (HL_name, ngx_hash 0 c, 1, r\<lparr>lowcase_header := (lowcase_header r)[0 := c]\<rparr>)
         else if ch = c8 CHR ''_'' then
           (if allow_underscores then
              Go (HL_name, ngx_hash 0 ch, 1, r\<lparr>lowcase_header := (lowcase_header r)[0 := ch]\<rparr>)
            else Go (HL_name, 0, 0, r\<lparr>invalid_header := True\<rparr>))
         else if ch \<le> 0x20 \<or> ch = 0x7f \<or> ch = c8 CHR '':'' then
           Stop (HL_return NGX_HTTP_PARSE_INVALID_HEADER, hash, i, r\<lparr>header_end := Some p\<rparr>, p)
         else Go (HL_name, 0, 0, r\<lparr>invalid_header := True\<rparr>)))"

definition hl_sw_name :: "bool \<Rightarrow> byte list \<Rightarrow> nat \<Rightarrow> 32 word \<Rightarrow> nat \<Rightarrow> ngx_http_request \<Rightarrow> hl_flow" where
  "hl_sw_name allow_underscores mem p hash i r =
     (let ch = mem ! p; c = lowcase ch in
      if c \<noteq> 0 then
        Go (HL_name, ngx_hash hash c, (i + 1) AND (NGX_HTTP_LC_HEADER_LEN - 1),
            r\<lparr>lowcase_header := (lowcase_header r)[i := c]\<rparr>)
      else if ch = c8 CHR ''_'' then
        (if allow_underscores then
           Go (HL_name, ngx_hash hash ch, (i + 1) AND (NGX_HTTP_LC_HEADER_LEN - 1),
               r\<lparr>lowcase_header := (lowcase_header r)[i := ch]\<rparr>)
         else Go (HL_name, hash, i, r\<lparr>invalid_header := True\<rparr>))
      else if ch = c8 CHR '':'' then
        Go (HL_space_before_value, hash, i, r\<lparr>header_name_end := Some p\<rparr>)
      else if ch = CR then
        Go (HL_almost_done, hash, i,
            r\<lparr>header_name_end := Some p, header_start := Some p, header_end := Some p\<rparr>)
      else if ch = LF then
        Stop (HL_done, hash, i,
              r\<lparr>header_name_end := Some p, header_start := Some p, header_end := Some p\<rparr>, p)
      else if ch = c8 CHR ''/'' \<and> upstream r \<and> p - the (header_name_start r) = 4 \<and>
        bytes_at mem (the (header_name_start r)) ''HTTP''
      then Go (HL_ignore_line, hash, i, r)
      else if ch \<le> 0x20 \<or> ch = 0x7f then
        Stop (HL_return NGX_HTTP_PARSE_INVALID_HEADER, hash, i, r\<lparr>header_end := Some p\<rparr>, p)
      else Go (HL_name, hash, i, r\<lparr>invalid_header := True\<rparr>))"

definition hl_sw_space_before_value :: "byte list \<Rightarrow> nat \<Rightarrow> 32 word \<Rightarrow> nat \<Rightarrow> ngx_http_request \<Rightarrow> hl_flow" where
  "hl_sw_space_before_value mem p hash i r =
     (let ch = mem ! p in
      if ch = c8 CHR '' '' then Go (HL_space_before_value, hash, i, r)
      else if ch = CR then
        Go (HL_almost_done, hash, i, r\<lparr>header_start := Some p, header_end := Some p\<rparr>)
      else if ch = LF then
        Stop (HL_done, hash, i, r\<lparr>header_start := Some p, header_end := Some p\<rparr>, p)
      else if ch = 0 then
        Stop (HL_return NGX_HTTP_PARSE_INVALID_HEADER, hash, i, r\<lparr>header_end := Some p\<rparr>, p)
      else Go (HL_value, hash, i, r\<lparr>header_start := Some p\<rparr>))"

definition hl_sw_value :: "byte list \<Rightarrow> nat \<Rightarrow> 32 word \<Rightarrow> nat \<Rightarrow> ngx_http_request \<Rightarrow> hl_flow" where
  "hl_sw_value mem p hash i r =
     (let ch = mem ! p in
      if ch = c8 CHR '' '' then Go (HL_space_after_value, hash, i, r\<lparr>header_end := Some p\<rparr>)
      else if ch = CR then Go (HL_almost_done, hash, i, r\<lparr>header_end := Some p\<rparr>)
      else if ch = LF then Stop (HL_done, hash, i, r\<lparr>header_end := Some p\<rparr>, p)
      else if ch = 0 then
        Stop (HL_return NGX_HTTP_PARSE_INVALID_HEADER, hash, i, r\<lparr>header_end := Some p\<rparr>, p)
      else Go (HL_value, hash, i, r))"

definition hl_sw_space_after_value :: "byte list \<Rightarrow> nat \<Rightarrow> 32 word \<Rightarrow> nat \<Rightarrow> ngx_http_request \<Rightarrow> hl_flow" where
  "hl_sw_space_after_value mem p hash i r =
     (let ch = mem ! p in
      if ch = c8 CHR '' '' then Go (HL_space_after_value, hash, i, r)
      else if ch = CR then Go (HL_almost_done, hash, i, r)
      else if ch = LF then Stop (HL_done, hash, i, r, p)
      else if ch = 0 then
        Stop (HL_return NGX_HTTP_PARSE_INVALID_HEADER, hash, i, r\<lparr>header_end := Some p\<rparr>, p)
      else Go (HL_value, hash, i, r))"

definition hl_sw_ignore_line :: "byte list \<Rightarrow> nat \<Rightarrow> 32 word \<Rightarrow> nat \<Rightarrow> ngx_http_request \<Rightarrow> hl_flow" where
  "hl_sw_ignore_line mem p hash i r =
     (if mem ! p = LF then Go (HL_start, hash, i, r) else Go (HL_ignore_line, hash, i, r))"

definition hl_sw_almost_done :: "byte list \<Rightarrow> nat \<Rightarrow> 32 word \<Rightarrow> nat \<Rightarrow> ngx_http_request \<Rightarrow> hl_flow" where
  "hl_sw_almost_done mem p hash i r =
     (if mem ! p = LF then Stop (HL_done, hash, i, r, p)
      else if mem ! p = CR then Go (HL_almost_done, hash, i, r)
      else Stop (HL_return NGX_HTTP_PARSE_INVALID_HEADER, hash, i, r, p))"

definition hl_sw_header_almost_done :: "byte list \<Rightarrow> nat \<Rightarrow> 32 word \<Rightarrow> nat \<Rightarrow> ngx_http_request \<Rightarrow> hl_flow" where
  "hl_sw_header_almost_done mem p hash i r =
     (if mem ! p = LF then Stop (HL_header_done, hash, i, r, p)
      else Stop (HL_return NGX_HTTP_PARSE_INVALID_HEADER, hash, i, r, p))"

fun hl_step :: "bool \<Rightarrow> byte list \<Rightarrow> nat \<Rightarrow> hl_locals \<Rightarrow> hl_flow" where
  "hl_step allow_underscores mem p (st, hash, i, r) =
     (case st of
        HL_start \<Rightarrow> hl_sw_start allow_underscores mem p hash i r
      | HL_name \<Rightarrow> hl_sw_name allow_underscores mem p hash i r
      | HL_space_before_value \<Rightarrow> hl_sw_space_before_value mem p hash i r
      | HL_value \<Rightarrow> hl_sw_value mem p hash i r
      | HL_space_after_value \<Rightarrow> hl_sw_space_after_value mem p hash i r
      | HL_ignore_line \<Rightarrow> hl_sw_ignore_line mem p hash i r
      | HL_almost_done \<Rightarrow> hl_sw_almost_done mem p hash i r
      | HL_header_almost_done \<Rightarrow> hl_sw_header_almost_done mem p hash i r)"

declare hl_step.simps [simp del]

definition ngx_http_parse_header_line ::
  "ngx_http_request \<Rightarrow> ngx_buf \<Rightarrow> bool \<Rightarrow> ngx_rc \<times> ngx_http_request \<times> ngx_buf" where
  "ngx_http_parse_header_line r b allow_underscores =
     (case hl_decode (state r) of
        None \<Rightarrow> (NGX_AGAIN, r, b\<lparr>buf_pos := max (buf_pos b) (buf_last b)\<rparr>)
      | Some st \<Rightarrow>
          (case scan_bytes (hl_step allow_underscores) (buf_mem b) (buf_pos b) (buf_last b)
                  (st, header_hash r, lowcase_index r, r) of
             Go (st', hash, i, r') \<Rightarrow>
               (NGX_AGAIN, r'\<lparr>state := hl_encode st', header_hash := hash, lowcase_index := i\<rparr>,
                b\<lparr>buf_pos := max (buf_pos b) (buf_last b)\<rparr>)
           | Stop (HL_done, hash, i, r', p) \<Rightarrow>
               (NGX_OK, r'\<lparr>state := hl_encode HL_start, header_hash := hash, lowcase_index := i\<rparr>,
                b\<lparr>buf_pos := p + 1\<rparr>)
           | Stop (HL_header_done, hash, i, r', p) \<Rightarrow>
               (NGX_HTTP_PARSE_HEADER_DONE, r'\<lparr>state := hl_encode HL_start\<rparr>, b\<lparr>buf_pos := p + 1\<rparr>)
           | Stop (HL_return rc, hash, i, r', p) \<Rightarrow> (rc, r', b)))"

text \<open>
  What \<open>ngx_http_process_request_headers\<close> makes of an accepted line: the key, the value, the
  hash and the lower-case key, copied from the ring buffer where the lengths agree and computed
  otherwise. (The null bytes it writes behind key and value are not part of them.)
\<close>

record ngx_table_elt =
  elt_hash :: "32 word"
  elt_key :: "byte list"
  elt_value :: "byte list"
  elt_lowcase_key :: "byte list"

definition header_elt :: "byte list \<Rightarrow> ngx_http_request \<Rightarrow> ngx_table_elt" where
  "header_elt mem r =
     (let key = byte_range (the (header_name_start r)) (the (header_name_end r)) mem;
          val = byte_range (the (header_start r)) (the (header_end r)) mem
      in \<lparr>elt_hash = header_hash r, elt_key = key, elt_value = val,
          elt_lowcase_key =
            (if length key = lowcase_index r then take (length key) (lowcase_header r)
             else ngx_strlow key)\<rparr>)"

end
