(* ===== verification/Ngx_Http_Header_Line_Proofs.thy ===== *)
theory Ngx_Http_Header_Line_Proofs
  imports Ngx_Http_Header_Line
begin

text \<open>
  Proofs about \<open>ngx_http_parse_header_line\<close>. The invariant follows the grammar of a header line,
  \<open>name [":" SP* value SP*] CR* LF\<close>, and keeps with the name its hash and the contents of the
  ring buffer. The scanner locale is interpreted on the parser's step, for either value of
  \<open>allow_underscores\<close>.
\<close>

section \<open>The lower-case table and the ring buffer\<close>

definition lowcase_ok :: "nat \<Rightarrow> byte \<Rightarrow> bool" where
  "lowcase_ok n c \<longleftrightarrow>
     (c \<noteq> 0 \<longrightarrow> c = ngx_tolower (word_of_nat n) \<and> n \<notin> {0x7f, 0x3a, 0x2f} \<and> 0x20 < n)"

lemma lowcase_ok_zeros: "list_all (\<lambda>(n, c). lowcase_ok n c) (enumerate m (replicate k 0))"
  by (auto simp: list_all_iff lowcase_ok_def in_set_enumerate_eq)

lemma lowcase_table_ok: "list_all (\<lambda>(n, c). lowcase_ok n c) (enumerate 0 lowcase_table)"
  by (simp add: lowcase_table_def enumerate_append_eq lowcase_ok_zeros)
    (simp add: lowcase_ok_def ngx_tolower_def)

lemma length_lowcase_table: "length lowcase_table = 256"
  by (simp add: lowcase_table_def)

lemma lowcase_nonzero:
  assumes "lowcase ch \<noteq> 0"
  shows "lowcase ch = ngx_tolower ch \<and> 0x20 < ch \<and> ch \<noteq> 0x7f \<and> ch \<noteq> 0x3a \<and> ch \<noteq> 0x2f"
proof -
  have lt: "unat ch < 256" using unsigned_less [of ch, where 'a = nat] by simp
  then have "(unat ch, lowcase ch) \<in> set (enumerate 0 lowcase_table)"
    by (simp add: in_set_enumerate_eq lowcase_def length_lowcase_table)
  then have "lowcase_ok (unat ch) (lowcase ch)"
    using lowcase_table_ok by (auto simp: list_all_iff)
  then show ?thesis
    using assms by (auto simp: lowcase_ok_def word_less_nat_alt)
qed

text \<open>The ring buffer holds the bytes pushed so far, as long as they fit.\<close>

definition hl_ring :: "byte list \<Rightarrow> nat \<Rightarrow> byte list \<Rightarrow> bool" where
  "hl_ring kept i lc \<longleftrightarrow> length lc = NGX_HTTP_LC_HEADER_LEN \<and> i = length kept mod NGX_HTTP_LC_HEADER_LEN \<and>
     (length kept \<le> NGX_HTTP_LC_HEADER_LEN \<longrightarrow> take (length kept) lc = kept)"

lemma and_31: "(n::nat) AND 31 = n mod 32"
proof -
  have "n AND mask 5 = n mod 2 ^ 5" by (simp only: take_bit_eq_mask [symmetric] take_bit_eq_mod)
  then show ?thesis by (simp add: mask_eq_exp_minus_1)
qed

lemma hl_ring_empty: "length lc = 32 \<Longrightarrow> hl_ring [] 0 lc"
  by (simp add: hl_ring_def)

lemma hl_ring_first: "length lc = 32 \<Longrightarrow> hl_ring [c] 1 (lc[0 := c])"
  by (cases lc) (simp_all add: hl_ring_def)

lemma hl_ring_push:
  assumes "hl_ring kept i lc"
  shows "hl_ring (kept @ [c]) ((i + 1) AND 31) (lc[i := c])"
proof -
  have len: "length lc = 32" and i: "i = length kept mod 32" using assms by (auto simp: hl_ring_def)
  have "take (Suc (length kept)) (lc[i := c]) = kept @ [c]" if lt: "Suc (length kept) \<le> 32"
  proof -
    have "i = length kept" using lt i by simp
    then show ?thesis using assms lt len by (simp add: hl_ring_def take_Suc_conv_app_nth)
  qed
  then show ?thesis using len i by (auto simp: hl_ring_def and_31 mod_Suc)
qed

lemma hl_ring_index: "hl_ring kept i lc \<Longrightarrow> i < 32 \<and> length lc = 32"
  by (auto simp: hl_ring_def)

section \<open>The invariant\<close>

text \<open>The bytes that enter hash and ring buffer, and those a name may hold.\<close>

definition hl_keep :: "bool \<Rightarrow> byte \<Rightarrow> bool" where
  "hl_keep allow_underscores ch \<longleftrightarrow> lowcase ch \<noteq> 0 \<or> allow_underscores \<and> ch = c8 CHR ''_''"

definition hl_name_byte :: "byte \<Rightarrow> bool" where
  "hl_name_byte ch \<longleftrightarrow> 0x20 < ch \<and> ch \<noteq> 0x7f \<and> ch \<noteq> c8 CHR '':''"

definition hl_value_byte :: "byte \<Rightarrow> bool" where
  "hl_value_byte ch \<longleftrightarrow> ch \<noteq> 0 \<and> ch \<noteq> CR \<and> ch \<noteq> LF"

definition hl_name_read ::
  "bool \<Rightarrow> byte list \<Rightarrow> nat \<Rightarrow> nat \<Rightarrow> 32 word \<Rightarrow> nat \<Rightarrow> ngx_http_request \<Rightarrow> bool" where
  "hl_name_read a mem s e hash i r \<longleftrightarrow>
     (let name = byte_range s e mem; kept = ngx_strlow (filter (hl_keep a) name) in
      s < e \<and> header_name_start r = Some s \<and> list_all hl_name_byte name \<and>
      hash = ngx_hash_key kept \<and> hl_ring kept i (lowcase_header r) \<and>
      invalid_header r = (\<not> list_all (hl_keep a) name))"

definition hl_named ::
  "bool \<Rightarrow> byte list \<Rightarrow> nat \<Rightarrow> 32 word \<Rightarrow> nat \<Rightarrow> ngx_http_request \<Rightarrow> bool" where
  "hl_named a mem p hash i r \<longleftrightarrow>
     (\<exists>s e. header_name_end r = Some e \<and> e \<le> p \<and> hl_name_read a mem s e hash i r)"

definition hl_colon :: "byte list \<Rightarrow> nat \<Rightarrow> nat \<Rightarrow> bool" where
  "hl_colon mem e v \<longleftrightarrow> e < v \<and> mem ! e = c8 CHR '':'' \<and> bytes_all (\<lambda>c. c = c8 CHR '' '') (Suc e) v mem"

definition hl_value_range :: "byte list \<Rightarrow> nat \<Rightarrow> nat \<Rightarrow> bool" where
  "hl_value_range mem v q \<longleftrightarrow> v \<le> q \<and> bytes_all hl_value_byte v q mem \<and>
     (v < q \<longrightarrow> mem ! v \<noteq> c8 CHR '' '' \<and> mem ! (q - 1) \<noteq> c8 CHR '' '')"

definition hl_tail :: "byte list \<Rightarrow> nat \<Rightarrow> nat \<Rightarrow> bool" where
  "hl_tail mem q p \<longleftrightarrow> (\<exists>t. q \<le> t \<and> t \<le> p \<and> bytes_all (\<lambda>c. c = c8 CHR '' '') q t mem \<and>
     bytes_all (\<lambda>c. c = CR) t p mem)"

definition hl_valued :: "byte list \<Rightarrow> nat \<Rightarrow> ngx_http_request \<Rightarrow> bool" where
  "hl_valued mem p r \<longleftrightarrow>
     (\<exists>e v q. header_name_end r = Some e \<and> header_start r = Some v \<and> header_end r = Some q \<and>
        (e = v \<and> v = q \<or> hl_colon mem e v) \<and> hl_value_range mem v q \<and> hl_tail mem q p)"

definition hl_in_value :: "byte list \<Rightarrow> nat \<Rightarrow> ngx_http_request \<Rightarrow> bool" where
  "hl_in_value mem p r \<longleftrightarrow>
     (\<exists>e v. header_name_end r = Some e \<and> header_start r = Some v \<and> hl_colon mem e v \<and> v < p \<and>
        hl_value_range mem v p)"

definition hl_after_value :: "byte list \<Rightarrow> nat \<Rightarrow> ngx_http_request \<Rightarrow> bool" where
  "hl_after_value mem p r \<longleftrightarrow>
     (\<exists>e v q. header_name_end r = Some e \<and> header_start r = Some v \<and> header_end r = Some q \<and>
        hl_colon mem e v \<and> v < q \<and> q < p \<and> hl_value_range mem v q \<and>
        bytes_all (\<lambda>c. c = c8 CHR '' '') q p mem)"

fun hl_inv :: "bool \<Rightarrow> byte list \<Rightarrow> nat \<Rightarrow> hl_locals \<Rightarrow> bool" where
  "hl_inv a mem p (st, hash, i, r) \<longleftrightarrow>
     length (lowcase_header r) = 32 \<and>
     (case st of
        HL_start \<Rightarrow> True
      | HL_name \<Rightarrow> (\<exists>s. hl_name_read a mem s p hash i r)
      | HL_space_before_value \<Rightarrow>
          hl_named a mem p hash i r \<and> (\<exists>e. header_name_end r = Some e \<and> hl_colon mem e p)
      | HL_value \<Rightarrow> hl_named a mem p hash i r \<and> hl_in_value mem p r
      | HL_space_after_value \<Rightarrow> hl_named a mem p hash i r \<and> hl_after_value mem p r
      | HL_ignore_line \<Rightarrow> True
      | HL_almost_done \<Rightarrow> hl_named a mem p hash i r \<and> hl_valued mem p r
      | HL_header_almost_done \<Rightarrow> True)"

fun hl_post :: "bool \<Rightarrow> byte list \<Rightarrow> nat \<Rightarrow> hl_exit \<times> 32 word \<times> nat \<times> ngx_http_request \<times> nat \<Rightarrow> bool" where
  "hl_post a mem p (x, hash, i, r, q) \<longleftrightarrow>
     q = p \<and> length (lowcase_header r) = 32 \<and>
     (case x of
        HL_return rc \<Rightarrow> rc = NGX_HTTP_PARSE_INVALID_HEADER
      | HL_done \<Rightarrow> mem ! p = LF \<and> hl_named a mem p hash i r \<and> hl_valued mem p r
      | HL_header_done \<Rightarrow> mem ! p = LF)"

fun hl_keeps :: "bool \<Rightarrow> byte list \<Rightarrow> nat \<Rightarrow> hl_flow \<Rightarrow> bool" where
  "hl_keeps a mem p (Go s) = hl_inv a mem (Suc p) s"
| "hl_keeps a mem p (Stop v) = hl_post a mem p v"

lemma hl_keeps_if:
  "hl_keeps a mem p (if c then f else g) \<longleftrightarrow> (c \<longrightarrow> hl_keeps a mem p f) \<and> (\<not> c \<longrightarrow> hl_keeps a mem p g)"
  by simp

section \<open>Every state keeps the invariant\<close>

text \<open>One more byte of the name: kept, or not.\<close>

lemma hl_keep_tolower: "hl_keep a ch \<Longrightarrow> hl_name_byte ch"
  using lowcase_nonzero [of ch] by (auto simp: hl_keep_def hl_name_byte_def)

lemma hl_name_push:
  assumes "hl_name_read a mem s p hash i r" "p < length mem" "hl_keep a (mem ! p)"
    "c = ngx_tolower (mem ! p)"
  shows "hl_name_read a mem s (Suc p) (ngx_hash hash c) ((i + 1) AND 31)
    (r\<lparr>lowcase_header := (lowcase_header r)[i := c]\<rparr>)"
  using assms hl_keep_tolower [OF assms(3)]
  by (auto simp: hl_name_read_def Let_def byte_range_snoc ngx_strlow_map ngx_hash_key_snoc
      intro!: hl_ring_push [simplified])

lemma hl_name_skip:
  assumes "hl_name_read a mem s p hash i r" "p < length mem" "\<not> hl_keep a (mem ! p)"
    "hl_name_byte (mem ! p)"
  shows "hl_name_read a mem s (Suc p) hash i (r\<lparr>invalid_header := True\<rparr>)"
  using assms by (auto simp: hl_name_read_def Let_def byte_range_snoc)

lemma hl_name_first:
  assumes "p < length mem" "length (lowcase_header r) = 32" "hl_keep a (mem ! p)"
    "c = ngx_tolower (mem ! p)"
  shows "hl_name_read a mem p (Suc p) (ngx_hash 0 c) 1
    (r\<lparr>header_name_start := Some p, invalid_header := False,
       lowcase_header := (lowcase_header r)[0 := c]\<rparr>)"
  using assms hl_keep_tolower [OF assms(3)]
  by (auto simp: hl_name_read_def Let_def byte_range_snoc ngx_strlow_map ngx_hash_key_def
      intro!: hl_ring_first [simplified])

lemma hl_name_first_skip:
  assumes "p < length mem" "length (lowcase_header r) = 32" "\<not> hl_keep a (mem ! p)"
    "hl_name_byte (mem ! p)"
  shows "hl_name_read a mem p (Suc p) 0 0 (r\<lparr>header_name_start := Some p, invalid_header := True\<rparr>)"
  using assms
  by (auto simp: hl_name_read_def Let_def byte_range_snoc ngx_hash_key_def intro!: hl_ring_empty)

lemma hl_name_read_length: "hl_name_read a mem s e hash i r \<Longrightarrow> length (lowcase_header r) = 32 \<and> i < 32"
  by (auto simp: hl_name_read_def Let_def dest: hl_ring_index)

lemma hl_name_read_frame [simp]:
  "hl_name_read a mem s e hash i (r\<lparr>header_name_end := x\<rparr>) = hl_name_read a mem s e hash i r"
  "hl_name_read a mem s e hash i (r\<lparr>header_start := x\<rparr>) = hl_name_read a mem s e hash i r"
  "hl_name_read a mem s e hash i (r\<lparr>header_end := x\<rparr>) = hl_name_read a mem s e hash i r"
  by (simp_all add: hl_name_read_def)

lemma hl_named_frame [simp]:
  "hl_named a mem p hash i (r\<lparr>header_start := x\<rparr>) = hl_named a mem p hash i r"
  "hl_named a mem p hash i (r\<lparr>header_end := x\<rparr>) = hl_named a mem p hash i r"
  by (simp_all add: hl_named_def)

lemma hl_named_Suc: "hl_named a mem p hash i r \<Longrightarrow> hl_named a mem (Suc p) hash i r"
  by (auto simp: hl_named_def le_Suc_eq)

lemma hl_under [simp]: "lowcase 0x5f = 0"
  by (simp add: lowcase_def lowcase_table_def nth_append)

lemma lowcase_ctl [simp]: "lowcase 13 = 0" "lowcase 10 = 0" "lowcase 0x3a = 0"
  by (simp_all add: lowcase_def lowcase_table_def nth_append)

lemma hl_start_keeps:
  assumes "p < length mem" "length (lowcase_header r) = 32"
  shows "hl_keeps a mem p (hl_sw_start a mem p hash i r)"
proof -
  consider "hl_keep a (mem ! p)" "mem ! p \<noteq> CR" "mem ! p \<noteq> LF"
    | "mem ! p = CR" | "mem ! p = LF"
    | "\<not> hl_keep a (mem ! p)" "hl_name_byte (mem ! p)" "mem ! p \<noteq> CR" "mem ! p \<noteq> LF"
    | "\<not> hl_keep a (mem ! p)" "\<not> hl_name_byte (mem ! p)" "mem ! p \<noteq> CR" "mem ! p \<noteq> LF"
    by blast
  then show ?thesis
  proof cases
    case 1
    have "ngx_tolower 0x5f = 0x5f" by (simp add: ngx_tolower_def)
    then show ?thesis
      using 1 assms hl_name_first [OF assms 1(1) refl] lowcase_nonzero [of "mem ! p"]
      by (auto simp: hl_sw_start_def Let_def hl_keep_def)
  next
    case 4
    then show ?thesis using assms hl_name_first_skip [OF assms 4(1,2)]
      by (auto simp: hl_sw_start_def Let_def hl_keep_def hl_name_byte_def not_less)
  next
    case 5
    then show ?thesis using assms
      by (auto simp: hl_sw_start_def Let_def hl_keep_def hl_name_byte_def not_less)
  qed (use assms in \<open>auto simp: hl_sw_start_def Let_def\<close>)
qed

text \<open>The end of the name.\<close>

lemma hl_named_end:
  "hl_name_read a mem s p hash i r \<Longrightarrow> hl_named a mem (Suc p) hash i (r\<lparr>header_name_end := Some p\<rparr>)"
  by (auto simp: hl_named_def)

lemma hl_valued_no_colon:
  "hl_valued mem p (r\<lparr>header_name_end := Some p, header_start := Some p, header_end := Some p\<rparr>)"
  "mem ! p = CR \<Longrightarrow>
   hl_valued mem (Suc p) (r\<lparr>header_name_end := Some p, header_start := Some p, header_end := Some p\<rparr>)"
  by (auto simp: hl_valued_def hl_value_range_def hl_tail_def bytes_all_Suc intro!: exI [of _ p])

lemma hl_name_keeps:
  assumes "p < length mem" "hl_name_read a mem s p hash i r"
  shows "hl_keeps a mem p (hl_sw_name a mem p hash i r)"
proof -
  note len = hl_name_read_length [OF assms(2)]
  consider "hl_keep a (mem ! p)"
    | "\<not> hl_keep a (mem ! p)" "hl_name_byte (mem ! p)"
    | "\<not> hl_keep a (mem ! p)" "\<not> hl_name_byte (mem ! p)"
    by blast
  then show ?thesis
  proof cases
    case 1
    have "ngx_tolower 0x5f = 0x5f" by (simp add: ngx_tolower_def)
    then show ?thesis
      using 1 len hl_name_push [OF assms(2,1) 1 refl] lowcase_nonzero [of "mem ! p"]
      by (auto simp: hl_sw_name_def Let_def hl_keep_def)
  next
    case 2
    then show ?thesis using len hl_name_skip [OF assms(2,1) 2]
      by (auto simp: hl_sw_name_def Let_def hl_keep_def hl_name_byte_def not_less)
  next
    case 3
    then show ?thesis
      using len assms hl_named_end [OF assms(2)] hl_valued_no_colon
      by (auto simp: hl_sw_name_def Let_def hl_keep_def hl_name_byte_def not_less hl_colon_def
          hl_named_def)
  qed
qed

text \<open>The value and what stands behind it.\<close>

lemma hl_space_before_value_keeps:
  assumes "p < length mem" "hl_inv a mem p (HL_space_before_value, hash, i, r)"
  shows "hl_keeps a mem p (hl_sw_space_before_value mem p hash i r)"
proof -
  from assms obtain e where e: "header_name_end r = Some e" "hl_colon mem e p"
    and named: "hl_named a mem p hash i r" "length (lowcase_header r) = 32"
    by auto
  have "mem ! p = c8 CHR '' '' \<Longrightarrow> hl_colon mem e (Suc p)"
    using e(2) by (simp add: hl_colon_def bytes_all_Suc)
  then show ?thesis
    using e named hl_named_Suc [OF named(1)]
    by (auto simp: hl_sw_space_before_value_def Let_def hl_valued_def hl_value_range_def hl_tail_def
        hl_in_value_def bytes_all_Suc hl_value_byte_def intro!: exI [of _ p])
qed

lemma hl_value_range_Suc:
  assumes "hl_value_range mem v p" "hl_value_byte (mem ! p)" "mem ! p \<noteq> c8 CHR '' ''"
  shows "hl_value_range mem v (Suc p)"
  using assms by (auto simp: hl_value_range_def bytes_all_Suc le_less)

lemma hl_value_keeps:
  assumes "p < length mem" "hl_inv a mem p (HL_value, hash, i, r)"
  shows "hl_keeps a mem p (hl_sw_value mem p hash i r)"
proof -
  from assms obtain e v where e: "header_name_end r = Some e" "header_start r = Some v"
      "hl_colon mem e v" "v < p" "hl_value_range mem v p"
    and named: "hl_named a mem p hash i r" "length (lowcase_header r) = 32"
    by (auto simp: hl_in_value_def)
  have tail: "hl_tail mem p p" "mem ! p = CR \<Longrightarrow> hl_tail mem p (Suc p)"
    by (auto simp: hl_tail_def bytes_all_Suc intro!: exI [of _ p])
  have val: "mem ! p \<noteq> 0 \<Longrightarrow> mem ! p \<noteq> CR \<Longrightarrow> mem ! p \<noteq> LF \<Longrightarrow> mem ! p \<noteq> 32 \<Longrightarrow>
      hl_value_range mem v (Suc p)"
    using hl_value_range_Suc [OF e(5)] by (simp add: hl_value_byte_def)
  show ?thesis
    using e named hl_named_Suc [OF named(1)] tail val
    by (auto simp: hl_sw_value_def Let_def hl_in_value_def hl_after_value_def hl_valued_def bytes_all_Suc)
qed

text \<open>A blank inside the value turns out to be part of it.\<close>

lemma hl_value_range_join:
  assumes "hl_value_range mem v q" "bytes_all (\<lambda>c. c = c8 CHR '' '') q p mem" "v < q" "q \<le> p"
    "hl_value_byte (mem ! p)" "mem ! p \<noteq> c8 CHR '' ''"
  shows "hl_value_range mem v (Suc p)"
proof -
  have "hl_value_byte (mem ! k)" if "k \<in> {v..<Suc p}" for k
  proof (cases "k < q")
    case True
    with that assms(1) show ?thesis by (simp add: hl_value_range_def bytes_all_def)
  next
    case False
    with that assms(2,5) show ?thesis
      by (cases "k = p") (auto simp: bytes_all_def hl_value_byte_def)
  qed
  then show ?thesis using assms by (auto simp: hl_value_range_def bytes_all_def)
qed

lemma hl_space_after_value_keeps:
  assumes "p < length mem" "hl_inv a mem p (HL_space_after_value, hash, i, r)"
  shows "hl_keeps a mem p (hl_sw_space_after_value mem p hash i r)"
proof -
  from assms obtain e v q where e: "header_name_end r = Some e" "header_start r = Some v"
      "header_end r = Some q" "hl_colon mem e v" "v < q" "q < p" "hl_value_range mem v q"
      "bytes_all (\<lambda>c. c = c8 CHR '' '') q p mem"
    and named: "hl_named a mem p hash i r" "length (lowcase_header r) = 32"
    by (auto simp: hl_after_value_def)
  have tail: "hl_tail mem q p" "mem ! p = CR \<Longrightarrow> hl_tail mem q (Suc p)"
    using e(6,8) by (auto simp: hl_tail_def bytes_all_Suc intro!: exI [of _ p])
  have val: "mem ! p \<noteq> 0 \<Longrightarrow> mem ! p \<noteq> CR \<Longrightarrow> mem ! p \<noteq> LF \<Longrightarrow> mem ! p \<noteq> 32 \<Longrightarrow>
      hl_value_range mem v (Suc p)"
    using hl_value_range_join [OF e(7,8,5)] e(6) by (simp add: hl_value_byte_def)
  show ?thesis
    using e named hl_named_Suc [OF named(1)] tail val
    by (auto simp: hl_sw_space_after_value_def Let_def hl_in_value_def hl_after_value_def
        hl_valued_def bytes_all_Suc)
qed

lemma hl_almost_done_keeps:
  assumes "p < length mem" "hl_inv a mem p (HL_almost_done, hash, i, r)"
  shows "hl_keeps a mem p (hl_sw_almost_done mem p hash i r)"
proof -
  have "hl_tail mem q (Suc p)" if "hl_tail mem q p" "mem ! p = CR" for q
  proof -
    from that(1) obtain t where "q \<le> t" "t \<le> p" "bytes_all (\<lambda>c. c = c8 CHR '' '') q t mem"
        "bytes_all (\<lambda>c. c = CR) t p mem"
      by (auto simp: hl_tail_def)
    with that(2) show ?thesis by (auto simp: hl_tail_def bytes_all_Suc intro!: exI [of _ t])
  qed
  then have "hl_valued mem p r \<Longrightarrow> mem ! p = CR \<Longrightarrow> hl_valued mem (Suc p) r"
    unfolding hl_valued_def by blast
  then show ?thesis
    using assms hl_named_Suc [of a mem p hash i r] by (auto simp: hl_sw_almost_done_def)
qed

lemma hl_step_keeps:
  assumes "p < length mem" "hl_inv a mem p s"
  shows "hl_keeps a mem p (hl_step a mem p s)"
proof -
  obtain st hash i r where s: "s = (st, hash, i, r)" by (cases s)
  show ?thesis
    using assms hl_start_keeps [OF assms(1), of r a hash i] hl_name_keeps [OF assms(1), of a _ hash i r]
      hl_space_before_value_keeps [OF assms(1), of a hash i r] hl_value_keeps [OF assms(1), of a hash i r]
      hl_space_after_value_keeps [OF assms(1), of a hash i r] hl_almost_done_keeps [OF assms(1), of a hash i r]
    unfolding s
    by (cases st) (auto simp: hl_step.simps hl_sw_ignore_line_def hl_sw_header_almost_done_def)
qed

section \<open>Prefixes\<close>

lemma hl_step_prefix:
  assumes "p < length mem" "p < length mem'" "take (Suc p) mem = take (Suc p) mem'" "hl_inv a mem p s"
  shows "hl_step a mem p s = hl_step a mem' p s"
proof -
  obtain st hash i r where s: "s = (st, hash, i, r)" by (cases s)
  have nth: "mem ! p = mem' ! p" using nth_take_eq [OF assms(3)] by simp
  have "bytes_at mem n ''HTTP'' = bytes_at mem' n ''HTTP''" if "p - n = 4" for n
    using that by (intro bytes_at_prefix [OF assms(3)]) simp
  then have http: "(p - n = 4 \<and> bytes_at mem n ''HTTP'') = (p - n = 4 \<and> bytes_at mem' n ''HTTP'')" for n
    by blast
  have "hl_sw_name a mem p hash i r = hl_sw_name a mem' p hash i r"
    by (simp only: hl_sw_name_def Let_def nth http)
  then show ?thesis
    unfolding s
    by (cases st) (simp_all add: hl_step.simps hl_sw_start_def hl_sw_space_before_value_def hl_sw_value_def
        hl_sw_space_after_value_def hl_sw_ignore_line_def hl_sw_almost_done_def
        hl_sw_header_almost_done_def nth Let_def)
qed

lemma hl_name_read_prefix:
  assumes "take p mem = take p mem'" "e \<le> p"
  shows "hl_name_read a mem s e hash i r = hl_name_read a mem' s e hash i r"
  using byte_range_take_eq [OF assms, of s] by (simp add: hl_name_read_def)

lemma hl_named_prefix:
  assumes "take p mem = take p mem'"
  shows "hl_named a mem p hash i r = hl_named a mem' p hash i r"
  using hl_name_read_prefix [OF assms] by (auto simp: hl_named_def)

lemma hl_colon_prefix:
  assumes "take p mem = take p mem'" "v \<le> p"
  shows "hl_colon mem e v = hl_colon mem' e v"
  using nth_take_eq [OF assms(1)] bytes_all_prefix [OF assms] assms(2) by (auto simp: hl_colon_def)

lemma hl_value_range_prefix:
  assumes "take p mem = take p mem'" "q \<le> p"
  shows "hl_value_range mem v q = hl_value_range mem' v q"
  using nth_take_eq [OF assms(1)] bytes_all_prefix [OF assms] assms(2)
  by (auto simp: hl_value_range_def)

lemma hl_tail_prefix:
  assumes "take p mem = take p mem'"
  shows "hl_tail mem q p = hl_tail mem' q p"
  using bytes_all_prefix [OF assms] by (auto simp: hl_tail_def)

lemma hl_valued_le: "hl_tail mem q p \<Longrightarrow> hl_value_range mem v q \<Longrightarrow> v \<le> p \<and> q \<le> p"
  by (auto simp: hl_tail_def hl_value_range_def)

lemma hl_valued_prefix:
  assumes "take p mem = take p mem'" "hl_valued mem p r"
  shows "hl_valued mem' p r"
proof -
  from assms(2) obtain e v q where r: "header_name_end r = Some e" "header_start r = Some v"
      "header_end r = Some q" and v: "e = v \<and> v = q \<or> hl_colon mem e v" "hl_value_range mem v q"
      "hl_tail mem q p"
    by (auto simp: hl_valued_def)
  have "v \<le> p" "q \<le> p" using hl_valued_le [OF v(3,2)] by auto
  then have "e = v \<and> v = q \<or> hl_colon mem' e v" "hl_value_range mem' v q" "hl_tail mem' q p"
    using v hl_colon_prefix [OF assms(1), of v e] hl_value_range_prefix [OF assms(1), of q v]
      hl_tail_prefix [OF assms(1), of q]
    by blast+
  with r show ?thesis by (simp add: hl_valued_def)
qed

lemma hl_in_value_prefix:
  assumes "take p mem = take p mem'"
  shows "hl_in_value mem p r = hl_in_value mem' p r"
proof -
  have "hl_colon mem e v = hl_colon mem' e v" if "v < p" for e v
    using that by (intro hl_colon_prefix [OF assms]) simp
  moreover have "hl_value_range mem v p = hl_value_range mem' v p" for v
    by (rule hl_value_range_prefix [OF assms order_refl])
  ultimately show ?thesis by (auto simp: hl_in_value_def)
qed

lemma hl_after_value_prefix:
  assumes "take p mem = take p mem'"
  shows "hl_after_value mem p r = hl_after_value mem' p r"
proof -
  have "hl_colon mem e v = hl_colon mem' e v" if "v < q" "q < p" for e v q
    using that by (intro hl_colon_prefix [OF assms]) simp
  moreover have "hl_value_range mem v q = hl_value_range mem' v q" if "q < p" for v q
    using that by (intro hl_value_range_prefix [OF assms]) simp
  moreover have "bytes_all P q p mem = bytes_all P q p mem'" for P q
    by (rule bytes_all_prefix [OF assms order_refl])
  ultimately show ?thesis unfolding hl_after_value_def by blast
qed

lemma hl_inv_prefix:
  assumes "take p mem = take p mem'" "hl_inv a mem p s"
  shows "hl_inv a mem' p s"
proof -
  obtain st hash i r where s: "s = (st, hash, i, r)" by (cases s)
  note prefix = hl_name_read_prefix [OF assms(1) order_refl] hl_named_prefix [OF assms(1)]
    hl_colon_prefix [OF assms(1) order_refl] hl_in_value_prefix [OF assms(1)]
    hl_after_value_prefix [OF assms(1)]
  show ?thesis
    using assms(2) hl_valued_prefix [OF assms(1), of r] unfolding s
    by (cases st) (simp_all add: prefix)
qed

interpretation hl: byte_scanner "hl_step a" "hl_inv a" "hl_post a" for a
proof
  fix mem mem' :: "byte list" and p s s' v
  assume "p < length mem" "hl_inv a mem p s"
  then have k: "hl_keeps a mem p (hl_step a mem p s)" by (rule hl_step_keeps)
  show "hl_step a mem p s = Go s' \<Longrightarrow> hl_inv a mem (Suc p) s'" using k by simp
  show "hl_step a mem p s = Stop v \<Longrightarrow> hl_post a mem p v" using k by simp
qed (auto intro: hl_step_prefix hl_inv_prefix)

section \<open>Calls of the parser\<close>

text \<open>
  The request is ready for a call at position \<open>p\<close>: its saved locals satisfy the invariant. So
  is every request between two lines whose ring buffer has its size.
\<close>

definition hl_ready :: "bool \<Rightarrow> byte list \<Rightarrow> nat \<Rightarrow> ngx_http_request \<Rightarrow> bool" where
  "hl_ready a mem p r \<longleftrightarrow>
     (case hl_decode (state r) of None \<Rightarrow> False
      | Some st \<Rightarrow> hl_inv a mem p (st, header_hash r, lowcase_index r, r))"

lemma hl_ready_start: "state r = 0 \<Longrightarrow> length (lowcase_header r) = 32 \<Longrightarrow> hl_ready a mem p r"
  by (simp add: hl_ready_def hl_decode_def hl_states_def)

text \<open>The write-back of the locals.\<close>

definition hl_save :: "nat \<Rightarrow> 32 word \<Rightarrow> nat \<Rightarrow> ngx_http_request \<Rightarrow> ngx_http_request" where
  "hl_save n x j r = r\<lparr>state := n, header_hash := x, lowcase_index := j\<rparr>"

lemma hl_save_sel [simp]:
  "state (hl_save n x j r) = n" "header_hash (hl_save n x j r) = x" "lowcase_index (hl_save n x j r) = j"
  "lowcase_header (hl_save n x j r) = lowcase_header r" "upstream (hl_save n x j r) = upstream r"
  "header_name_start (hl_save n x j r) = header_name_start r"
  by (simp_all add: hl_save_def)

lemma hl_save_update [simp]:
  "(hl_save n x j r)\<lparr>header_name_start := v\<rparr> = hl_save n x j (r\<lparr>header_name_start := v\<rparr>)"
  "(hl_save n x j r)\<lparr>header_name_end := v\<rparr> = hl_save n x j (r\<lparr>header_name_end := v\<rparr>)"
  "(hl_save n x j r)\<lparr>header_start := v\<rparr> = hl_save n x j (r\<lparr>header_start := v\<rparr>)"
  "(hl_save n x j r)\<lparr>header_end := v\<rparr> = hl_save n x j (r\<lparr>header_end := v\<rparr>)"
  "(hl_save n x j r)\<lparr>invalid_header := f\<rparr> = hl_save n x j (r\<lparr>invalid_header := f\<rparr>)"
  "(hl_save n x j r)\<lparr>lowcase_header := l\<rparr> = hl_save n x j (r\<lparr>lowcase_header := l\<rparr>)"
  by (simp_all add: hl_save_def)

lemma hl_save_fold: "r\<lparr>state := n, header_hash := x, lowcase_index := j\<rparr> = hl_save n x j r"
  by (simp add: hl_save_def)

lemma hl_save_state [simp]: "(hl_save n x j r)\<lparr>state := m\<rparr> = hl_save m x j r"
  "(hl_save n x j r)\<lparr>header_hash := y\<rparr> = hl_save n y j r"
  "(hl_save n x j r)\<lparr>lowcase_index := k\<rparr> = hl_save n x k r"
  "hl_save m x j (r\<lparr>state := n\<rparr>) = hl_save m x j r"
  by (simp_all add: hl_save_def)

lemma hl_save_save [simp]: "hl_save n x j (hl_save n' x' j' r) = hl_save n x j r"
  by (simp add: hl_save_def)

lemma hl_save_frame [simp]:
  "hl_named a mem p hash i (hl_save n x j r) = hl_named a mem p hash i r"
  "hl_valued mem p (hl_save n x j r) = hl_valued mem p r"
  by (simp_all add: hl_save_def hl_named_def hl_name_read_def hl_valued_def)

text \<open>The saved locals are neither read nor written inside the loop.\<close>

lemma hl_step_save:
  "hl_step a mem p (st, hash, i, hl_save n x j r) =
     map_flow (\<lambda>(st, hash, i, r). (st, hash, i, hl_save n x j r))
       (\<lambda>(e, hash, i, r, q). (e, hash, i, hl_save n x j r, q)) (hl_step a mem p (st, hash, i, r))"
  by (cases st) (simp_all add: hl_step.simps hl_sw_start_def hl_sw_name_def hl_sw_space_before_value_def
      hl_sw_value_def hl_sw_space_after_value_def hl_sw_ignore_line_def hl_sw_almost_done_def
      hl_sw_header_almost_done_def Let_def)

lemma hl_scan_save:
  "scan_bytes (hl_step a) mem p e (st, hash, i, hl_save n x j r) =
     map_flow (\<lambda>(st, hash, i, r). (st, hash, i, hl_save n x j r))
       (\<lambda>(e, hash, i, r, q). (e, hash, i, hl_save n x j r, q)) (scan_bytes (hl_step a) mem p e (st, hash, i, r))"
  using scan_bytes_map [where step = "hl_step a" and mem = mem
      and h = "\<lambda>(st, hash, i, r). (st, hash, i, hl_save n x j r)"
      and g = "\<lambda>(e, hash, i, r, q). (e, hash, i, hl_save n x j r, q)" and s = "(st, hash, i, r)"
      and p = p and e = e]
  by (auto simp: hl_step_save)

lemma hl_call:
  assumes "hl_ready a (buf_mem b) (buf_pos b) r"
  obtains st where "hl_inv a (buf_mem b) (buf_pos b) (st, header_hash r, lowcase_index r, r)"
    "hl_decode (state r) = Some st"
  using assms by (auto simp: hl_ready_def split: option.splits)

lemma hl_again:
  assumes "hl_ready a (buf_mem b) (buf_pos b) r" "buf_pos b \<le> buf_last b"
    "buf_last b \<le> length (buf_mem b)" "ngx_http_parse_header_line r b a = (NGX_AGAIN, r1, b1)"
  obtains st st' hash i r' where "hl_decode (state r) = Some st"
    "hl_inv a (buf_mem b) (buf_pos b) (st, header_hash r, lowcase_index r, r)"
    "scan_bytes (hl_step a) (buf_mem b) (buf_pos b) (buf_last b) (st, header_hash r, lowcase_index r, r) =
       Go (st', hash, i, r')"
    "r1 = hl_save (hl_encode st') hash i r'" "b1 = b\<lparr>buf_pos := buf_last b\<rparr>"
proof -
  obtain st where st: "hl_inv a (buf_mem b) (buf_pos b) (st, header_hash r, lowcase_index r, r)"
      "hl_decode (state r) = Some st"
    using hl_call [OF assms(1)] .
  show thesis
  proof (cases "scan_bytes (hl_step a) (buf_mem b) (buf_pos b) (buf_last b)
      (st, header_hash r, lowcase_index r, r)")
    case (Go s')
    then show thesis
      using that [OF st(2,1)] assms(2,4) st(2)
      by (cases s') (auto simp: ngx_http_parse_header_line_def hl_save_fold max_absorb2)
  next
    case (Stop v)
    then obtain q where "hl_post a (buf_mem b) q v"
      using hl.scan_post [OF assms(3) st(1) Stop] by auto
    then show thesis
      using assms(4) st(2) Stop
      by (cases v) (auto simp: ngx_http_parse_header_line_def split: hl_exit.splits)
  qed
qed

lemma hl_ok:
  assumes "hl_ready a (buf_mem b) (buf_pos b) r" "buf_last b \<le> length (buf_mem b)"
    "ngx_http_parse_header_line r b a = (NGX_OK, r', b')"
  obtains q where "buf_pos b \<le> q" "q < buf_last b" "buf_mem b ! q = LF" "b' = b\<lparr>buf_pos := q + 1\<rparr>"
    "hl_named a (buf_mem b) q (header_hash r') (lowcase_index r') r'" "hl_valued (buf_mem b) q r'"
    "state r' = 0" "length (lowcase_header r') = 32"
proof -
  obtain st where st: "hl_inv a (buf_mem b) (buf_pos b) (st, header_hash r, lowcase_index r, r)"
      "hl_decode (state r) = Some st"
    using hl_call [OF assms(1)] .
  from st(2) assms(3) obtain v
    where v: "scan_bytes (hl_step a) (buf_mem b) (buf_pos b) (buf_last b)
        (st, header_hash r, lowcase_index r, r) = Stop v"
    by (cases "scan_bytes (hl_step a) (buf_mem b) (buf_pos b) (buf_last b)
        (st, header_hash r, lowcase_index r, r)") (auto simp: ngx_http_parse_header_line_def)
  obtain q where q: "buf_pos b \<le> q" "q < buf_last b" "hl_post a (buf_mem b) q v"
    using hl.scan_post [OF assms(2) st(1) v] by auto
  obtain x hash i r2 q' where x: "v = (x, hash, i, r2, q')" by (cases v)
  have "x = HL_done"
    using assms(3) st(2) v x q(3) by (auto simp: ngx_http_parse_header_line_def split: hl_exit.splits)
  with q x st(2) v assms(3) have r': "r' = hl_save 0 hash i r2" "b' = b\<lparr>buf_pos := q + 1\<rparr>"
      and post: "buf_mem b ! q = LF" "hl_named a (buf_mem b) q hash i r2" "hl_valued (buf_mem b) q r2"
        "length (lowcase_header r2) = 32"
    by (auto simp: ngx_http_parse_header_line_def hl_save_def)
  show thesis
    by (rule that [of q]) (use q post r' in simp_all)
qed

text \<open>
  C5. Resumption of the header parser. A first call sees the bytes up to \<open>buf_last b\<close> and
  returns \<open>NGX_AGAIN\<close>; more bytes arrive. The second call returns what the uninterrupted parse
  returns, and where that is a header line or again a request for data, with the same request
  (hash and ring buffer included) and position; at the end of the header and on errors, with the
  same position and request up to the saved locals.
\<close>

theorem header_line_resume:
  assumes "hl_ready a (buf_mem b) (buf_pos b) r" "buf_pos b \<le> buf_last b"
    "buf_last b \<le> length (buf_mem b)"
    and first: "ngx_http_parse_header_line r b a = (NGX_AGAIN, r1, b1)"
    and grown: "take (buf_last b) mem2 = take (buf_last b) (buf_mem b)"
      "buf_last b \<le> l2" "l2 \<le> length mem2"
    and second: "ngx_http_parse_header_line r1 (b1\<lparr>buf_mem := mem2, buf_last := l2\<rparr>) a = (rc, ra, ba)"
    and full: "ngx_http_parse_header_line r (b\<lparr>buf_mem := mem2, buf_last := l2\<rparr>) a = (rc', rb, bb)"
  shows "rc = rc' \<and> hl_save 0 0 0 ra = hl_save 0 0 0 rb \<and>
    (rc \<in> {NGX_OK, NGX_AGAIN} \<longrightarrow> ra = rb) \<and>
    (rc \<in> {NGX_OK, NGX_AGAIN, NGX_HTTP_PARSE_HEADER_DONE} \<longrightarrow> ba = bb)"
proof -
  obtain st st' hash i r' where st: "hl_decode (state r) = Some st"
      and inv: "hl_inv a (buf_mem b) (buf_pos b) (st, header_hash r, lowcase_index r, r)"
      and scan: "scan_bytes (hl_step a) (buf_mem b) (buf_pos b) (buf_last b)
        (st, header_hash r, lowcase_index r, r) = Go (st', hash, i, r')"
      and r1: "r1 = hl_save (hl_encode st') hash i r'" and b1: "b1 = b\<lparr>buf_pos := buf_last b\<rparr>"
    using hl_again [OF assms(1-4)] by metis
  have same: "scan_bytes (hl_step a) mem2 (buf_pos b) l2 (st, header_hash r, lowcase_index r, r) =
      scan_bytes (hl_step a) mem2 (buf_last b) l2 (st', hash, i, r')"
    using hl.scan_resume [OF assms(2) grown(2) assms(3) grown(3) grown(1) [symmetric] inv scan] .
  have inv2: "hl_inv a mem2 (buf_pos b) (st, header_hash r, lowcase_index r, r)"
    using hl_inv_prefix [OF take_eq_mono [OF grown(1) [symmetric] assms(2)] inv] .
  have ret: "x = NGX_HTTP_PARSE_INVALID_HEADER"
    if "scan_bytes (hl_step a) mem2 (buf_last b) l2 (st', hash, i, r') = Stop (HL_return x, y)" for x y
    using hl.scan_post [OF grown(3) inv2] that same by (cases y) fastforce
  show ?thesis
    using st second full assms(2) grown(2) same
    by (cases "scan_bytes (hl_step a) mem2 (buf_last b) l2 (st', hash, i, r')")
      (auto simp: ngx_http_parse_header_line_def hl_save_fold r1 b1 hl_scan_save max_absorb2
        split: hl_exit.splits dest!: ret)
qed


lemma hl_ring_copy:
  assumes "hl_ring (ngx_strlow (filter P name)) i lc" "length name = i"
  shows "take (length name) lc = ngx_strlow name"
proof -
  have "length (filter P name) \<le> length name" by (rule length_filter_le)
  moreover have i: "i = length (filter P name) mod 32" "i < 32"
    using assms(1) hl_ring_index [OF assms(1)] by (auto simp: hl_ring_def ngx_strlow_map)
  moreover have "length (filter P name) mod 32 \<le> length (filter P name)" by (rule mod_less_eq_dividend)
  ultimately have len: "length (filter P name) = length name" using assms(2) by linarith
  have "P x" if "x \<in> set name" for x
    by (rule ccontr) (use length_filter_less [OF that, of P] len in simp)
  then have "hl_ring (ngx_strlow name) i lc" using assms(1) by simp
  moreover have "length name \<le> 32" using assms(2) i(2) by simp
  ultimately show ?thesis by (simp add: hl_ring_def ngx_strlow_map)
qed

text \<open>
  C7. The lower-case key and the hash of an accepted header are right on both paths: whether the
  key is copied from the 32-byte ring buffer (equal lengths) or computed, it is the lower-case
  name; and a header not marked invalid carries the hash \<open>ngx_hash_key_lc\<close> of its name, the key
  under which the headers hash is built.
\<close>

theorem header_line_lowcase:
  assumes "hl_ready a (buf_mem b) (buf_pos b) r" "buf_last b \<le> length (buf_mem b)"
    "ngx_http_parse_header_line r b a = (NGX_OK, r', b')"
  shows "elt_lowcase_key (header_elt (buf_mem b) r') = ngx_strlow (elt_key (header_elt (buf_mem b) r')) \<and>
    (\<not> invalid_header r' \<longrightarrow>
       elt_hash (header_elt (buf_mem b) r') = ngx_hash_key_lc (elt_key (header_elt (buf_mem b) r'))) \<and>
    lowcase_index r' < NGX_HTTP_LC_HEADER_LEN"
proof -
  obtain l where "hl_named a (buf_mem b) l (header_hash r') (lowcase_index r') r'"
    using hl_ok [OF assms] by metis
  then obtain s e where e: "header_name_end r' = Some e"
      "hl_name_read a (buf_mem b) s e (header_hash r') (lowcase_index r') r'"
    by (auto simp: hl_named_def)
  let ?name = "byte_range s e (buf_mem b)"
  have ring: "hl_ring (ngx_strlow (filter (hl_keep a) ?name)) (lowcase_index r') (lowcase_header r')"
    and s: "header_name_start r' = Some s"
    and hash: "header_hash r' = ngx_hash_key (ngx_strlow (filter (hl_keep a) ?name))"
    and inv: "invalid_header r' = (\<not> list_all (hl_keep a) ?name)"
    using e(2) by (auto simp: hl_name_read_def Let_def)
  have "\<not> invalid_header r' \<Longrightarrow> header_hash r' = ngx_hash_key_lc ?name"
    using hash inv by (simp add: list_all_iff ngx_hash_key_strlow)
  then show ?thesis
    using s e(1) hl_ring_copy [OF ring] hl_ring_index [OF ring]
    by (auto simp: header_elt_def Let_def)
qed

section \<open>The parser on a concrete header line\<close>

definition hl_example :: ngx_buf where
  "hl_example = \<lparr>buf_mem = str8 ''Host: a'' @ [CR, LF], buf_pos = 0, buf_last = 9\<rparr>"

definition hl_example_read :: ngx_http_request where
  "hl_example_read = fresh_request\<lparr>header_hash := ngx_hash_key (str8 ''host''), lowcase_index := 4,
     lowcase_header := str8 ''host'' @ replicate 28 0, header_name_start := Some 0,
     header_name_end := Some 4, header_start := Some 6, header_end := Some 7\<rparr>"

definition hl_example_part :: ngx_buf where
  "hl_example_part = \<lparr>buf_mem = str8 ''Ho'', buf_pos = 0, buf_last = 2\<rparr>"

definition hl_example_part_read :: ngx_http_request where
  "hl_example_part_read = fresh_request\<lparr>state := hl_encode HL_name, header_hash := ngx_hash_key (str8 ''ho''),
     lowcase_index := 2, lowcase_header := str8 ''ho'' @ replicate 30 0, header_name_start := Some 0\<rparr>"

lemma lowcase_examples:
  "lowcase 0x48 = 0x68" "lowcase 0x6f = 0x6f" "lowcase 0x73 = 0x73" "lowcase 0x74 = 0x74"
  by (simp_all add: lowcase_def lowcase_table_def nth_append)

lemma replicate_examples:
  "replicate 32 (0 :: byte) = 0 # 0 # 0 # 0 # replicate 28 0"
  "replicate 30 (0 :: byte) = 0 # 0 # replicate 28 0"
  by (simp_all add: numeral_eq_Suc)

lemmas hl_eval =
  ngx_http_parse_header_line_def fresh_request_def hl_decode_def hl_states_def scan_bytes.simps
  hl_step.simps hl_sw_start_def hl_sw_name_def hl_sw_space_before_value_def hl_sw_value_def
  hl_sw_almost_done_def lowcase_examples ngx_hash_key_def and_31 replicate_examples Let_def

lemma hl_example_ok:
  "ngx_http_parse_header_line fresh_request hl_example False =
     (NGX_OK, hl_example_read, hl_example\<lparr>buf_pos := 9\<rparr>)"
  by (simp add: hl_example_def hl_example_read_def hl_eval)

lemma hl_example_again:
  "ngx_http_parse_header_line fresh_request hl_example_part False =
     (NGX_AGAIN, hl_example_part_read, hl_example_part\<lparr>buf_pos := 2\<rparr>)"
  by (simp add: hl_example_part_def hl_example_part_read_def hl_eval)

lemma hl_example_rest:
  "ngx_http_parse_header_line hl_example_part_read (hl_example\<lparr>buf_pos := 2\<rparr>) False =
     (NGX_OK, hl_example_read, hl_example\<lparr>buf_pos := 9\<rparr>)"
  by (simp add: hl_example_def hl_example_part_read_def hl_example_read_def hl_eval)


lemma hl_example_bounds: "buf_last hl_example \<le> length (buf_mem hl_example)"
  by (simp add: hl_example_def)

lemma hl_example_ready: "hl_ready False mem 0 fresh_request"
  by (rule hl_ready_start) (simp_all add: fresh_request_def)

lemma hl_example_ready_at: "hl_ready False (buf_mem hl_example) (buf_pos hl_example) fresh_request"
  by (simp add: hl_example_ready hl_example_def)

theorem header_line_resume_witness:
  "ngx_http_parse_header_line fresh_request hl_example_part False =
     (NGX_AGAIN, hl_example_part_read, hl_example_part\<lparr>buf_pos := 2\<rparr>) \<and>
   fst (ngx_http_parse_header_line hl_example_part_read (hl_example\<lparr>buf_pos := 2\<rparr>) False) =
     fst (ngx_http_parse_header_line fresh_request hl_example False)"
proof -
  have grow: "hl_example_part\<lparr>buf_pos := 2\<rparr>\<lparr>buf_mem := buf_mem hl_example, buf_last := 9\<rparr> =
      hl_example\<lparr>buf_pos := 2\<rparr>"
    "hl_example_part\<lparr>buf_mem := buf_mem hl_example, buf_last := 9\<rparr> = hl_example"
    by (simp_all add: hl_example_def hl_example_part_def)
  have "NGX_OK = NGX_OK \<and> hl_save 0 0 0 hl_example_read = hl_save 0 0 0 hl_example_read \<and>
      (NGX_OK \<in> {NGX_OK, NGX_AGAIN} \<longrightarrow> hl_example_read = hl_example_read) \<and>
      (NGX_OK \<in> {NGX_OK, NGX_AGAIN, NGX_HTTP_PARSE_HEADER_DONE} \<longrightarrow>
        hl_example\<lparr>buf_pos := 9\<rparr> = hl_example\<lparr>buf_pos := 9\<rparr>)"
    by (rule header_line_resume [where b = hl_example_part and r = fresh_request and a = False
          and ?mem2.0 = "buf_mem hl_example" and ?l2.0 = 9, OF _ _ _ hl_example_again])
      (simp_all only: grow hl_example_rest hl_example_ok,
       simp_all add: hl_example_def hl_example_part_def hl_example_ready)
  then show ?thesis by (simp add: hl_example_again hl_example_rest hl_example_ok)
qed


theorem header_line_lowcase_witness:
  "elt_lowcase_key (header_elt (buf_mem hl_example) hl_example_read) = str8 ''host'' \<and>
   elt_hash (header_elt (buf_mem hl_example) hl_example_read) = ngx_hash_key_lc (str8 ''Host'')"
proof -
  have key: "elt_key (header_elt (buf_mem hl_example) hl_example_read) = str8 ''Host''"
    by (simp add: header_elt_def hl_example_def hl_example_read_def byte_range_def)
  have "\<not> invalid_header hl_example_read" by (simp add: hl_example_read_def fresh_request_def)
  then show ?thesis
    using header_line_lowcase [OF hl_example_ready_at hl_example_bounds hl_example_ok]
    by (simp add: key) (simp add: ngx_tolower_def)
qed

end
