(* ===== verification/Ngx_Http_Uri.thy ===== *)
theory Ngx_Http_Uri
  imports Ngx_Http_Types
begin

text \<open>
  The URI of a request, \<open>src/http/ngx_http_parse.c\<close> and \<open>src/http/ngx_http_request.c\<close>:
  \<open>ngx_http_parse_uri\<close> checks a URI and sets the flags that ask for normalisation,
  \<open>ngx_http_parse_complex_uri\<close> decodes and normalises the path into a separate buffer, and
  \<open>ngx_http_process_request_uri\<close> allocates that buffer where a flag is set and uses the raw
  bytes otherwise.

  The write pointer \<open>u\<close> of the complex parser is the length of the list of bytes written so
  far, and while that parser runs \<open>r->uri_ext\<close> is an offset into this list, as in the source it
  points into the output buffer. A write behind the \<open>r->uri.len\<close> allocated bytes is undefined
  behaviour in C; the model's result is then \<open>None\<close>.
\<close>

section \<open>Checking a URI\<close>

datatype pu_state = PU_start | PU_after_slash_in_uri | PU_check_uri | PU_uri

type_synonym pu_flow = "(pu_state \<times> ngx_http_request, ngx_rc \<times> ngx_http_request) flow"

definition pu_sw_start :: "byte list \<Rightarrow> nat \<Rightarrow> ngx_http_request \<Rightarrow> pu_flow" where
  "pu_sw_start mem p r =
     (if mem ! p \<noteq> c8 CHR ''/'' then Stop (NGX_ERROR, r) else Go (PU_after_slash_in_uri, r))"

definition pu_sw_after_slash_in_uri :: "byte list \<Rightarrow> nat \<Rightarrow> ngx_http_request \<Rightarrow> pu_flow" where
  "pu_sw_after_slash_in_uri mem p r =
     (let ch = mem ! p in
      if usual ch then Go (PU_check_uri, r)
      else if ch = c8 CHR ''.'' then Go (PU_uri, r\<lparr>complex_uri := True\<rparr>)
      else if ch = c8 CHR ''%'' then Go (PU_uri, r\<lparr>quoted_uri := True\<rparr>)
      else if ch = c8 CHR ''/'' then Go (PU_uri, r\<lparr>complex_uri := True\<rparr>)
      else if ch = c8 CHR ''?'' then Go (PU_uri, r\<lparr>args_start := Some (p + 1)\<rparr>)
      else if ch = c8 CHR ''#'' then Go (PU_uri, r\<lparr>complex_uri := True\<rparr>)
      else if ch = c8 CHR ''+'' then Go (PU_after_slash_in_uri, r\<lparr>plus_in_uri := True\<rparr>)
      else if ch \<le> 0x20 \<or> ch = 0x7f then Stop (NGX_ERROR, r)
      else Go (PU_check_uri, r))"

definition pu_sw_check_uri :: "byte list \<Rightarrow> nat \<Rightarrow> ngx_http_request \<Rightarrow> pu_flow" where
  "pu_sw_check_uri mem p r =
     (let ch = mem ! p in
      if usual ch then Go (PU_check_uri, r)
      else if ch = c8 CHR ''/'' then Go (PU_after_slash_in_uri, r\<lparr>uri_ext := None\<rparr>)
      else if ch = c8 CHR ''.'' then Go (PU_check_uri, r\<lparr>uri_ext := Some (p + 1)\<rparr>)
      else if ch = c8 CHR ''%'' then Go (PU_uri, r\<lparr>quoted_uri := True\<rparr>)
      else if ch = c8 CHR ''?'' then Go (PU_uri, r\<lparr>args_start := Some (p + 1)\<rparr>)
      else if ch = c8 CHR ''#'' then Go (PU_uri, r\<lparr>complex_uri := True\<rparr>)
      else if ch = c8 CHR ''+'' then Go (PU_check_uri, r\<lparr>plus_in_uri := True\<rparr>)
      else if ch \<le> 0x20 \<or> ch = 0x7f then Stop (NGX_ERROR, r)
      else Go (PU_check_uri, r))"

definition pu_sw_uri :: "byte list \<Rightarrow> nat \<Rightarrow> ngx_http_request \<Rightarrow> pu_flow" where
  "pu_sw_uri mem p r =
     (let ch = mem ! p in
      if usual ch then Go (PU_uri, r)
      else if ch = c8 CHR ''#'' then Go (PU_uri, r\<lparr>complex_uri := True\<rparr>)
      else if ch \<le> 0x20 \<or> ch = 0x7f then Stop (NGX_ERROR, r)
      else Go (PU_uri, r))"

fun pu_step :: "byte list \<Rightarrow> nat \<Rightarrow> pu_state \<times> ngx_http_request \<Rightarrow> pu_flow" where
  "pu_step mem p (st, r) =
     (case st of
        PU_start \<Rightarrow> pu_sw_start mem p r
      | PU_after_slash_in_uri \<Rightarrow> pu_sw_after_slash_in_uri mem p r
      | PU_check_uri \<Rightarrow> pu_sw_check_uri mem p r
      | PU_uri \<Rightarrow> pu_sw_uri mem p r)"

declare pu_step.simps [simp del]

definition ngx_http_parse_uri :: "byte list \<Rightarrow> ngx_http_request \<Rightarrow> ngx_rc \<times> ngx_http_request" where
  "ngx_http_parse_uri mem r =
     (case scan_bytes pu_step mem (the (uri_start r)) (the (uri_end r)) (PU_start, r) of
        Go (st, r') \<Rightarrow> (NGX_OK, r')
      | Stop (rc, r') \<Rightarrow> (rc, r'))"

section \<open>Normalising a URI\<close>

datatype cu_state = CU_usual | CU_slash | CU_dot | CU_dot_dot | CU_quoted | CU_quoted_second

record cu_locals =
  cu_state :: cu_state
  cu_quoted_state :: cu_state
  cu_ch :: byte
  cu_decoded :: byte
  cu_out :: "byte list"  \<comment> \<open>the bytes from \<open>r->uri.data\<close> to \<open>u\<close>\<close>
  cu_req :: ngx_http_request

text \<open>How the loop is left: the labels \<open>args\<close> and \<open>done\<close>, and the return of an error.\<close>

datatype cu_exit = CU_args | CU_done | CU_invalid

type_synonym cu_flow = "(nat \<times> cu_locals, cu_exit \<times> nat \<times> cu_locals) flow"

text \<open>\<open>ch = *p++\<close> at the end of a turn, and \<open>*u++ = c\<close>.\<close>

definition cu_next :: "byte list \<Rightarrow> nat \<Rightarrow> cu_locals \<Rightarrow> cu_flow" where
  "cu_next mem p s = Go (p + 1, s\<lparr>cu_ch := mem ! p\<rparr>)"

definition cu_put :: "byte \<Rightarrow> cu_locals \<Rightarrow> cu_locals" where
  "cu_put c s = s\<lparr>cu_out := cu_out s @ [c]\<rparr>"

definition cu_sw_usual :: "byte list \<Rightarrow> nat \<Rightarrow> cu_locals \<Rightarrow> cu_flow" where
  "cu_sw_usual mem p s =
     (let ch = cu_ch s; r = cu_req s in
      if usual ch then cu_next mem p (cu_put ch s)
      else if ch = c8 CHR ''/'' then
        cu_next mem p (cu_put ch (s\<lparr>cu_state := CU_slash, cu_req := r\<lparr>uri_ext := None\<rparr>\<rparr>))
      else if ch = c8 CHR ''%'' then
        cu_next mem p (s\<lparr>cu_quoted_state := cu_state s, cu_state := CU_quoted\<rparr>)
      else if ch = c8 CHR ''?'' then
        Stop (CU_args, p, s\<lparr>cu_req := r\<lparr>args_start := Some p\<rparr>\<rparr>)
      else if ch = c8 CHR ''#'' then Stop (CU_done, p, s)
      else if ch = c8 CHR ''.'' then
        cu_next mem p
          (cu_put ch (s\<lparr>cu_req := r\<lparr>uri_ext := Some (length (cu_out s) + 1)\<rparr>\<rparr>))
      else if ch = c8 CHR ''+'' then
        cu_next mem p (cu_put ch (s\<lparr>cu_req := r\<lparr>plus_in_uri := True\<rparr>\<rparr>))
      else cu_next mem p (cu_put ch s))"

definition cu_sw_slash :: "bool \<Rightarrow> byte list \<Rightarrow> nat \<Rightarrow> cu_locals \<Rightarrow> cu_flow" where
  "cu_sw_slash merge_slashes mem p s =
     (let ch = cu_ch s; r = cu_req s in
      if usual ch then cu_next mem p (cu_put ch (s\<lparr>cu_state := CU_usual\<rparr>))
      else if ch = c8 CHR ''/'' then
        (if \<not> merge_slashes then cu_next mem p (cu_put ch s) else cu_next mem p s)
      else if ch = c8 CHR ''.'' then cu_next mem p (cu_put ch (s\<lparr>cu_state := CU_dot\<rparr>))
      else if ch = c8 CHR ''%'' then
        cu_next mem p (s\<lparr>cu_quoted_state := cu_state s, cu_state := CU_quoted\<rparr>)
      else if ch = c8 CHR ''?'' then
        Stop (CU_args, p, s\<lparr>cu_req := r\<lparr>args_start := Some p\<rparr>\<rparr>)
      else if ch = c8 CHR ''#'' then Stop (CU_done, p, s)
      else if ch = c8 CHR ''+'' then
        cu_next mem p (cu_put ch (s\<lparr>cu_state := CU_usual, cu_req := r\<lparr>plus_in_uri := True\<rparr>\<rparr>))
      else cu_next mem p (cu_put ch (s\<lparr>cu_state := CU_usual\<rparr>)))"

definition cu_sw_dot :: "byte list \<Rightarrow> nat \<Rightarrow> cu_locals \<Rightarrow> cu_flow" where
  "cu_sw_dot mem p s =
     (let ch = cu_ch s; r = cu_req s; back = s\<lparr>cu_out := butlast (cu_out s)\<rparr> in
      if usual ch then cu_next mem p (cu_put ch (s\<lparr>cu_state := CU_usual\<rparr>))
      else if ch = c8 CHR ''/'' then cu_next mem p (back\<lparr>cu_state := CU_slash\<rparr>)
      else if ch = c8 CHR ''.'' then cu_next mem p (cu_put ch (s\<lparr>cu_state := CU_dot_dot\<rparr>))
      else if ch = c8 CHR ''%'' then
        cu_next mem p (s\<lparr>cu_quoted_state := cu_state s, cu_state := CU_quoted\<rparr>)
      else if ch = c8 CHR ''?'' then
        Stop (CU_args, p, back\<lparr>cu_req := r\<lparr>args_start := Some p\<rparr>\<rparr>)
      else if ch = c8 CHR ''#'' then Stop (CU_done, p, back)
      else if ch = c8 CHR ''+'' then
        cu_next mem p (cu_put ch (s\<lparr>cu_state := CU_usual, cu_req := r\<lparr>plus_in_uri := True\<rparr>\<rparr>))
      else cu_next mem p (cu_put ch (s\<lparr>cu_state := CU_usual\<rparr>)))"

text \<open>
  \<open>for ( ;; ) { if (u < data) return; if (*u == '/') { u++; break; } u--; }\<close>: the argument is
  the offset behind \<open>u\<close>, so 0 stands for a pointer in front of the buffer. The loop starts at
  \<open>u - 4\<close>, in front of the slash of \<open>/..\<close>.
\<close>

primrec cu_rewind :: "byte list \<Rightarrow> nat \<Rightarrow> nat option" where
  "cu_rewind out 0 = None"
| "cu_rewind out (Suc k) = (if out ! k = c8 CHR ''/'' then Some (k + 1) else cu_rewind out k)"

definition cu_up :: "byte list \<Rightarrow> byte list option" where
  "cu_up out = map_option (\<lambda>u. take u out) (cu_rewind out (length out - 3))"

definition cu_sw_dot_dot :: "byte list \<Rightarrow> nat \<Rightarrow> cu_locals \<Rightarrow> cu_flow" where
  "cu_sw_dot_dot mem p s =
     (let ch = cu_ch s; r = cu_req s in
      if usual ch then cu_next mem p (cu_put ch (s\<lparr>cu_state := CU_usual\<rparr>))
      else if ch = c8 CHR ''/'' \<or> ch = c8 CHR ''?'' \<or> ch = c8 CHR ''#'' then
        (case cu_up (cu_out s) of
           None \<Rightarrow> Stop (CU_invalid, p, s)
         | Some out \<Rightarrow>
             (if ch = c8 CHR ''?'' then
                Stop (CU_args, p, s\<lparr>cu_out := out, cu_req := r\<lparr>args_start := Some p\<rparr>\<rparr>)
              else if ch = c8 CHR ''#'' then Stop (CU_done, p, s\<lparr>cu_out := out\<rparr>)
              else cu_next mem p (s\<lparr>cu_out := out, cu_state := CU_slash\<rparr>)))
      else if ch = c8 CHR ''%'' then
        cu_next mem p (s\<lparr>cu_quoted_state := cu_state s, cu_state := CU_quoted\<rparr>)
      else if ch = c8 CHR ''+'' then
        cu_next mem p (cu_put ch (s\<lparr>cu_state := CU_usual, cu_req := r\<lparr>plus_in_uri := True\<rparr>\<rparr>))
      else cu_next mem p (cu_put ch (s\<lparr>cu_state := CU_usual\<rparr>)))"

definition cu_sw_quoted :: "byte list \<Rightarrow> nat \<Rightarrow> cu_locals \<Rightarrow> cu_flow" where
  "cu_sw_quoted mem p s =
     (let ch = cu_ch s; s = s\<lparr>cu_req := (cu_req s)\<lparr>quoted_uri := True\<rparr>\<rparr> in
      if is_digit ch then
        cu_next mem p (s\<lparr>cu_decoded := ch - c8 CHR ''0'', cu_state := CU_quoted_second\<rparr>)
      else if is_hex_alpha ch then
        cu_next mem p (s\<lparr>cu_decoded := lower ch - c8 CHR ''a'' + 10, cu_state := CU_quoted_second\<rparr>)
      else Stop (CU_invalid, p, s))"

definition cu_sw_quoted_second :: "byte list \<Rightarrow> nat \<Rightarrow> cu_locals \<Rightarrow> cu_flow" where
  "cu_sw_quoted_second mem p s =
     (let ch = cu_ch s; r = cu_req s in
      if is_digit ch then
        (let ch = push_bit 4 (cu_decoded s) + (ch - c8 CHR ''0'') in
         if ch = c8 CHR ''%'' \<or> ch = c8 CHR ''#'' then
           cu_next mem p (cu_put ch (s\<lparr>cu_state := CU_usual\<rparr>))
         else if ch = 0 then Stop (CU_invalid, p, s)
         else Go (p, s\<lparr>cu_ch := ch, cu_state := cu_quoted_state s\<rparr>))
      else if is_hex_alpha ch then
        (let ch = push_bit 4 (cu_decoded s) + (lower ch - c8 CHR ''a'') + 10 in
         if ch = c8 CHR ''?'' then cu_next mem p (cu_put ch (s\<lparr>cu_state := CU_usual\<rparr>))
         else if ch = c8 CHR ''+'' then
           Go (p, s\<lparr>cu_ch := ch, cu_req := r\<lparr>plus_in_uri := True\<rparr>, cu_state := cu_quoted_state s\<rparr>)
         else Go (p, s\<lparr>cu_ch := ch, cu_state := cu_quoted_state s\<rparr>))
      else Stop (CU_invalid, p, s))"

definition cu_step :: "bool \<Rightarrow> byte list \<Rightarrow> nat \<Rightarrow> cu_locals \<Rightarrow> cu_flow" where
  "cu_step merge_slashes mem p s =
     (case cu_state s of
        CU_usual \<Rightarrow> cu_sw_usual mem p s
      | CU_slash \<Rightarrow> cu_sw_slash merge_slashes mem p s
      | CU_dot \<Rightarrow> cu_sw_dot mem p s
      | CU_dot_dot \<Rightarrow> cu_sw_dot_dot mem p s
      | CU_quoted \<Rightarrow> cu_sw_quoted mem p s
      | CU_quoted_second \<Rightarrow> cu_sw_quoted_second mem p s)"

text \<open>
  \<open>while (p <= r->uri_end)\<close>. A turn that has decoded a \<open>%xx\<close> does not read a byte, so that the
  loop ends only because the state it goes back to is not a quoted one; the loop is a partial
  function whose value \<open>None\<close> is both the loop that never ends and the write behind the
  \<open>cap\<close> allocated bytes (a turn writes at most one byte). Neither happens:
  \<open>process_request_uri_spec\<close>.
\<close>

partial_function (option) cu_loop ::
  "bool \<Rightarrow> byte list \<Rightarrow> nat \<Rightarrow> nat \<Rightarrow> nat \<Rightarrow> cu_locals \<Rightarrow> cu_flow option" where
  "cu_loop merge_slashes mem uri_end_p cap p s =
     (if p \<le> uri_end_p then
        (case cu_step merge_slashes mem p s of
           Go (p', s') \<Rightarrow>
             (if length (cu_out s') \<le> cap then cu_loop merge_slashes mem uri_end_p cap p' s' else None)
         | Stop v \<Rightarrow> Some (Stop v))
      else Some (Go (p, s)))"

text \<open>The code behind the loop and the labels \<open>done\<close> and \<open>args\<close>.\<close>

definition cu_done :: "cu_locals \<Rightarrow> ngx_http_request" where
  "cu_done s =
     (let r = (cu_req s)\<lparr>uri := cu_out s\<rparr>;
          r = (case uri_ext r of None \<Rightarrow> r | Some x \<Rightarrow> r\<lparr>exten := drop x (cu_out s)\<rparr>)
      in r\<lparr>uri_ext := None\<rparr>)"

function cu_find_hash :: "byte list \<Rightarrow> nat \<Rightarrow> nat \<Rightarrow> nat option" where
  "cu_find_hash mem p e =
     (if p < e then (if mem ! p \<noteq> c8 CHR ''#'' then cu_find_hash mem (p + 1) e else Some p) else None)"
  by pat_completeness auto
termination
  by (relation "measure (\<lambda>(mem, p, e). e - p)") auto

declare cu_find_hash.simps [simp del]

definition cu_args :: "byte list \<Rightarrow> nat \<Rightarrow> nat \<Rightarrow> cu_locals \<Rightarrow> ngx_http_request" where
  "cu_args mem uri_end_p p s =
     (let r = cu_req s;
          r = (case cu_find_hash mem p uri_end_p of
                 None \<Rightarrow> r
               | Some h \<Rightarrow> r\<lparr>args := byte_range (the (args_start r)) h mem, args_start := None\<rparr>)
      in cu_done (s\<lparr>cu_req := r\<rparr>))"

definition cu_end :: "cu_locals \<Rightarrow> ngx_rc \<times> ngx_http_request" where
  "cu_end s =
     (if cu_state s = CU_quoted \<or> cu_state s = CU_quoted_second
      then (NGX_HTTP_PARSE_INVALID_REQUEST, cu_req s)
      else if cu_state s = CU_dot then (NGX_OK, cu_done (s\<lparr>cu_out := butlast (cu_out s)\<rparr>))
      else if cu_state s = CU_dot_dot then
        (case cu_up (cu_out s) of
           None \<Rightarrow> (NGX_HTTP_PARSE_INVALID_REQUEST, cu_req s)
         | Some out \<Rightarrow> (NGX_OK, cu_done (s\<lparr>cu_out := out\<rparr>)))
      else (NGX_OK, cu_done s))"

definition cu_init :: "byte list \<Rightarrow> ngx_http_request \<Rightarrow> cu_locals" where
  "cu_init mem r =
     (let s = \<lparr>cu_state = CU_usual, cu_quoted_state = CU_usual, cu_ch = mem ! the (uri_start r),
               cu_decoded = 0, cu_out = [], cu_req = r\<lparr>uri_ext := None, args_start := None\<rparr>\<rparr>
      in if empty_path_in_uri r then cu_put (c8 CHR ''/'') s else s)"

definition ngx_http_parse_complex_uri ::
  "byte list \<Rightarrow> ngx_http_request \<Rightarrow> nat \<Rightarrow> bool \<Rightarrow> (ngx_rc \<times> ngx_http_request) option" where
  "ngx_http_parse_complex_uri mem r cap merge_slashes =
     (let s = cu_init mem r; e = the (uri_end r) in
      if length (cu_out s) \<le> cap then
        (case cu_loop merge_slashes mem e cap (the (uri_start r) + 1) s of
           None \<Rightarrow> None
         | Some (Go (p, s')) \<Rightarrow> Some (cu_end s')
         | Some (Stop (CU_invalid, p, s')) \<Rightarrow> Some (NGX_HTTP_PARSE_INVALID_REQUEST, cu_req s')
         | Some (Stop (CU_done, p, s')) \<Rightarrow> Some (NGX_OK, cu_done s')
         | Some (Stop (CU_args, p, s')) \<Rightarrow> Some (NGX_OK, cu_args mem e p s'))
      else None)"

section \<open>The URI of a request\<close>

text \<open>
  \<open>alloc\<close> tells whether \<open>ngx_pnalloc\<close> gives the memory. Closing and finalising the request
  on errors is not part of the model.
\<close>

definition ngx_http_process_request_uri ::
  "bool \<Rightarrow> byte list \<Rightarrow> ngx_http_request \<Rightarrow> bool \<Rightarrow> (ngx_rc \<times> ngx_http_request) option" where
  "ngx_http_process_request_uri alloc mem r merge_slashes =
     (let u = the (uri_start r); e = the (uri_end r);
          len = (case args_start r of Some a \<Rightarrow> a - 1 - u | None \<Rightarrow> e - u);
          result =
            (if complex_uri r \<or> quoted_uri r \<or> empty_path_in_uri r then
               (let len = (if empty_path_in_uri r then len + 1 else len) in
                if \<not> alloc then Some (NGX_ERROR, r)
                else
                  (case ngx_http_parse_complex_uri mem r len merge_slashes of
                     None \<Rightarrow> None
                   | Some (rc, r) \<Rightarrow>
                       if rc \<noteq> NGX_OK then Some (NGX_ERROR, r\<lparr>uri := []\<rparr>) else Some (NGX_OK, r)))
             else Some (NGX_OK, r\<lparr>uri := byte_range u (u + len) mem\<rparr>))
      in case result of
           None \<Rightarrow> None
         | Some (rc, r) \<Rightarrow>
             if rc \<noteq> NGX_OK then Some (rc, r)
             else
               (let r = r\<lparr>unparsed_uri := byte_range u e mem,
                          valid_unparsed_uri := \<not> empty_path_in_uri r\<rparr>;
                    r = (case uri_ext r of
                           None \<Rightarrow> r
                         | Some x \<Rightarrow>
                             (case args_start r of
                                Some a \<Rightarrow> r\<lparr>exten := byte_range x (a - 1) mem\<rparr>
                              | None \<Rightarrow> r\<lparr>exten := byte_range x e mem\<rparr>));
                    r = (case args_start r of
                           None \<Rightarrow> r
                         | Some a \<Rightarrow> if e > a then r\<lparr>args := byte_range a e mem\<rparr> else r)
                in Some (NGX_OK, r)))"

end
