(* ===== verification/Ngx_Http_Uri_Proofs.thy ===== *)
theory Ngx_Http_Uri_Proofs
  imports Ngx_Http_Uri Ngx_Http_Request_Line_Proofs
begin

text \<open>
  The specification of URI processing and its proof. The specification decodes the raw bytes
  (\<open>uri_decode\<close>), then reads the path segment by segment with a stack of closed segments
  (\<open>path_push\<close>): a segment \<open>.\<close> vanishes, \<open>..\<close> removes the segment in front of it, empty
  segments vanish where slashes are merged. nginx's parser does both in one pass over a single
  output buffer with six states; \<open>cu_rel\<close> relates the two.
\<close>

section \<open>Specification\<close>

definition hex_digit :: "byte \<Rightarrow> bool" where
  "hex_digit c \<longleftrightarrow> is_digit c \<or> is_hex_alpha c"

definition hex_val :: "byte \<Rightarrow> byte" where
  "hex_val c = (if is_digit c then c - c8 CHR ''0'' else lower c - c8 CHR ''a'' + 10)"

definition hex_pair :: "byte \<Rightarrow> byte \<Rightarrow> byte" where
  "hex_pair h l = push_bit 4 (hex_val h) + hex_val l"

text \<open>The decoded path, and the raw bytes behind the question mark, if there is one.\<close>

fun uri_decode :: "byte list \<Rightarrow> (byte list \<times> byte list option) option" where
  "uri_decode [] = Some ([], None)"
| "uri_decode (c # cs) =
     (if c = c8 CHR ''?'' then Some ([], Some cs)
      else if c = c8 CHR ''#'' then Some ([], None)
      else if c = c8 CHR ''%'' then
        (case cs of
           h # l # cs' \<Rightarrow>
             (if hex_digit h \<and> hex_digit l \<and> hex_pair h l \<noteq> 0
              then map_option (apfst ((#) (hex_pair h l))) (uri_decode cs') else None)
         | _ \<Rightarrow> None)
      else map_option (apfst ((#) c)) (uri_decode cs))"

text \<open>The closed segments, the segment being read, and its extension.\<close>

type_synonym path = "byte list list \<times> byte list \<times> byte list option"

abbreviation (input) dot :: "byte list" where "dot \<equiv> [c8 CHR ''.'']"
abbreviation (input) dot_dot :: "byte list" where "dot_dot \<equiv> [c8 CHR ''.'', c8 CHR ''.'']"

definition path_close :: "bool \<Rightarrow> byte list list \<Rightarrow> byte list \<Rightarrow> byte list list option" where
  "path_close merge ss l =
     (if l = dot then Some ss
      else if l = dot_dot then (if length ss \<le> 1 then None else Some (butlast ss))
      else if l = [] \<and> ss \<noteq> [] \<and> merge then Some ss
      else Some (ss @ [l]))"

fun path_push :: "bool \<Rightarrow> path \<Rightarrow> byte \<Rightarrow> path option" where
  "path_push merge (ss, l, x) c =
     (if c = c8 CHR ''/'' then map_option (\<lambda>ss'. (ss', [], None)) (path_close merge ss l)
      else Some (ss, l @ [c],
        if c = c8 CHR ''.'' \<and> l \<noteq> [] \<and> l \<noteq> dot \<and> l \<noteq> dot_dot then Some []
        else map_option (\<lambda>e. e @ [c]) x))"

primrec path_run :: "bool \<Rightarrow> path \<Rightarrow> byte list \<Rightarrow> path option" where
  "path_run merge s [] = Some s"
| "path_run merge s (c # cs) =
     (case path_push merge s c of None \<Rightarrow> None | Some s' \<Rightarrow> path_run merge s' cs)"

definition path_dir :: "byte list list \<Rightarrow> byte list" where
  "path_dir ss = concat (map (\<lambda>s. s @ [c8 CHR ''/'']) ss)"

text \<open>The last segment is closed like the others, but stays where it is a name.\<close>

fun path_finish :: "path \<Rightarrow> (byte list list \<times> byte list \<times> byte list option) option" where
  "path_finish (ss, l, x) =
     (if l = dot then Some (ss, [], None)
      else if l = dot_dot then (if length ss \<le> 1 then None else Some (butlast ss, [], None))
      else Some (ss, l, x))"

text \<open>The normalised path, the extension and the arguments of a raw URI.\<close>

definition path_spec ::
  "bool \<Rightarrow> path \<Rightarrow> byte list \<Rightarrow> (byte list \<times> byte list option \<times> byte list option) option" where
  "path_spec merge s raw =
     (case uri_decode raw of
        None \<Rightarrow> None
      | Some (bs, tail) \<Rightarrow>
          (case path_run merge s bs of
             None \<Rightarrow> None
           | Some s' \<Rightarrow>
               (case path_finish s' of
                  None \<Rightarrow> None
                | Some (ss, l, x) \<Rightarrow>
                    Some (path_dir ss @ l, x, map_option (takeWhile (\<lambda>c. c \<noteq> c8 CHR ''#'')) tail))))"

section \<open>The output buffer as a stack of segments\<close>

lemma path_dir_snoc [simp]: "path_dir (ss @ [s]) = path_dir ss @ s @ [0x2f]"
  by (simp add: path_dir_def)

lemma path_dir_Nil [simp]: "path_dir [] = []"
  by (simp add: path_dir_def)

lemma cu_rewind_skip:
  "0x2f \<notin> set ys \<Longrightarrow> cu_rewind (xs @ ys @ zs) (length xs + length ys) = cu_rewind (xs @ ys @ zs) (length xs)"
proof (induction ys arbitrary: zs rule: rev_induct)
  case Nil
  then show ?case by simp
next
  case (snoc y ys)
  have "(xs @ (ys @ [y]) @ zs) ! (length xs + length ys) = y"
    by (simp add: nth_append)
  then have "cu_rewind (xs @ (ys @ [y]) @ zs) (Suc (length xs + length ys)) =
      cu_rewind (xs @ ys @ [y] @ zs) (length xs + length ys)"
    using snoc.prems by simp
  also have "\<dots> = cu_rewind (xs @ ys @ [y] @ zs) (length xs)"
    by (rule snoc.IH) (use snoc.prems in simp)
  finally show ?case by simp
qed

lemma cu_rewind_at: "cu_rewind (xs @ [0x2f] @ zs) (Suc (length xs)) = Some (Suc (length xs))"
  by (simp add: nth_append)

text \<open>\<open>u -= 4\<close> and the search: the last closed segment goes, or there is none to go.\<close>

lemma cu_up_dot_dot:
  assumes "\<forall>s\<in>set ss. 0x2f \<notin> set s" "ss \<noteq> []"
  shows "cu_up (path_dir ss @ [0x2e, 0x2e]) =
    (if length ss \<le> 1 then None else Some (path_dir (butlast ss)))"
proof -
  obtain ts b where ss: "ss = ts @ [b]" using assms(2) by (metis rev_exhaust)
  let ?zs = "[0x2f, 0x2e, 0x2e] :: byte list"
  have out: "path_dir ss @ [0x2e, 0x2e] = path_dir ts @ b @ ?zs" by (simp add: ss)
  have b: "0x2f \<notin> set b" using assms(1) ss by simp
  have up: "cu_up (path_dir ss @ [0x2e, 0x2e]) =
      map_option (\<lambda>u. take u (path_dir ts @ b @ ?zs)) (cu_rewind (path_dir ts @ b @ ?zs) (length (path_dir ts)))"
    unfolding out cu_up_def using cu_rewind_skip [OF b, of "path_dir ts" ?zs] by simp
  show ?thesis
  proof (cases ts rule: rev_cases)
    case Nil
    then show ?thesis using up by (simp add: ss)
  next
    case (snoc us a)
    have "cu_rewind ((path_dir us @ a) @ [0x2f] @ b @ ?zs) (Suc (length (path_dir us @ a))) =
        Some (Suc (length (path_dir us @ a)))"
      by (rule cu_rewind_at)
    then show ?thesis using up by (simp add: ss snoc butlast_append)
  qed
qed

section \<open>The relation\<close>

definition seg_state :: "byte list \<Rightarrow> cu_state" where
  "seg_state l = (if l = [] then CU_slash else if l = dot then CU_dot
     else if l = dot_dot then CU_dot_dot else CU_usual)"

fun cu_rel :: "path \<Rightarrow> cu_locals \<Rightarrow> bool" where
  "cu_rel (ss, l, x) s \<longleftrightarrow>
     ss \<noteq> [] \<and> (\<forall>t\<in>set ss. 0x2f \<notin> set t) \<and> 0x2f \<notin> set l \<and> cu_state s = seg_state l \<and>
     cu_out s = path_dir ss @ l \<and>
     (case uri_ext (cu_req s) of None \<Rightarrow> x = None
      | Some k \<Rightarrow> k \<le> length (cu_out s) \<and> x = Some (drop k (cu_out s)) \<and> cu_state s = CU_usual)"

text \<open>The fields of the request that the path does not change.\<close>

definition cu_frame :: "cu_locals \<Rightarrow> cu_locals \<Rightarrow> bool" where
  "cu_frame s s' \<longleftrightarrow>
     args (cu_req s') = args (cu_req s) \<and> args_start (cu_req s') = args_start (cu_req s) \<and>
     exten (cu_req s') = exten (cu_req s) \<and>
     empty_path_in_uri (cu_req s') = empty_path_in_uri (cu_req s)"

definition cu_turn :: "bool \<Rightarrow> byte list \<Rightarrow> nat \<Rightarrow> path option \<Rightarrow> cu_locals \<Rightarrow> bool" where
  "cu_turn m mem p a s \<longleftrightarrow>
     (case a of
        None \<Rightarrow> \<exists>q s'. cu_step m mem p s = Stop (CU_invalid, q, s')
      | Some a' \<Rightarrow> \<exists>s'. cu_step m mem p s = Go (Suc p, s') \<and> cu_rel a' s' \<and> cu_ch s' = mem ! p \<and>
          length (cu_out s') \<le> Suc (length (cu_out s)) \<and> cu_frame s s')"

definition path_char :: "byte \<Rightarrow> bool" where
  "path_char c \<longleftrightarrow> c \<noteq> c8 CHR ''%'' \<and> c \<noteq> c8 CHR ''?'' \<and> c \<noteq> c8 CHR ''#''"

lemmas cu_step_defs = cu_step_def cu_sw_usual_def cu_sw_slash_def cu_sw_dot_def cu_sw_dot_dot_def
  cu_next_def cu_put_def Let_def

lemma cu_turn_usual:
  assumes "cu_rel (ss, l, x) s" "cu_state s = CU_usual" "path_char (cu_ch s)"
  shows "cu_turn m mem p (path_push m (ss, l, x) (cu_ch s)) s"
proof -
  have l: "l \<noteq> []" "l \<noteq> dot" "l \<noteq> dot_dot"
    using assms(1,2) by (auto simp: seg_state_def split: if_splits)
  have n: "seg_state (l @ [c]) = CU_usual" for c
    using l by (cases l) (auto simp: seg_state_def append_eq_Cons_conv)
  show ?thesis
    using assms l n
    by (cases "usual (cu_ch s)")
      (auto simp: cu_turn_def cu_step_defs path_char_def path_close_def cu_frame_def byte_simps
        seg_state_def [of "[]"] split: option.splits)
qed

lemma cu_turn_slash:
  assumes "cu_rel (ss, l, x) s" "cu_state s = CU_slash" "path_char (cu_ch s)"
  shows "cu_turn m mem p (path_push m (ss, l, x) (cu_ch s)) s"
proof -
  have l: "l = []" "uri_ext (cu_req s) = None" "x = None"
    using assms(1,2) by (auto simp: seg_state_def split: if_splits option.splits)
  show ?thesis
    using assms l
    by (cases "usual (cu_ch s)")
      (auto simp: cu_turn_def cu_step_defs path_char_def path_close_def cu_frame_def byte_simps
        seg_state_def split: option.splits)
qed

lemma cu_turn_dot:
  assumes "cu_rel (ss, l, x) s" "cu_state s = CU_dot" "path_char (cu_ch s)"
  shows "cu_turn m mem p (path_push m (ss, l, x) (cu_ch s)) s"
proof -
  have l: "l = dot" "uri_ext (cu_req s) = None" "x = None"
    using assms(1,2) by (auto simp: seg_state_def split: if_splits option.splits)
  show ?thesis
    using assms l
    by (cases "usual (cu_ch s)")
      (auto simp: cu_turn_def cu_step_defs path_char_def path_close_def cu_frame_def byte_simps
        seg_state_def butlast_append split: option.splits)
qed

lemma cu_turn_dot_dot:
  assumes "cu_rel (ss, l, x) s" "cu_state s = CU_dot_dot" "path_char (cu_ch s)"
  shows "cu_turn m mem p (path_push m (ss, l, x) (cu_ch s)) s"
proof -
  have l: "l = dot_dot" "uri_ext (cu_req s) = None" "x = None" "ss \<noteq> []" "\<forall>t\<in>set ss. 0x2f \<notin> set t"
      "cu_out s = path_dir ss @ [0x2e, 0x2e]"
    using assms(1,2) by (auto simp: seg_state_def split: if_splits option.splits)
  have len: "length ss \<noteq> Suc 0 \<Longrightarrow> length (path_dir (butlast ss)) \<le> Suc (length (cu_out s))"
    using l(4,6) by (cases ss rule: rev_cases) auto
  have ne: "\<not> length ss \<le> Suc 0 \<Longrightarrow> butlast ss \<noteq> [] \<and> (\<forall>t\<in>set (butlast ss). 0x2f \<notin> set t)"
    using l(5) by (cases ss rule: rev_cases) auto
  show ?thesis
    using assms l(1-3) cu_up_dot_dot [OF l(5,4)] l(6) len ne
    by (cases "usual (cu_ch s)")
      (auto simp: cu_turn_def cu_step_defs path_char_def path_close_def cu_frame_def byte_simps
        seg_state_def split: option.splits)
qed

lemma seg_state_cases: "seg_state l \<in> {CU_usual, CU_slash, CU_dot, CU_dot_dot}"
  by (simp add: seg_state_def)

lemma cu_turn:
  assumes "cu_rel a s" "path_char (cu_ch s)"
  shows "cu_turn m mem p (path_push m a (cu_ch s)) s"
proof -
  obtain ss l x where a: "a = (ss, l, x)" by (cases a)
  have "cu_state s \<in> {CU_usual, CU_slash, CU_dot, CU_dot_dot}"
    using assms(1) seg_state_cases [of l] by (simp add: a)
  then consider "cu_state s = CU_usual" | "cu_state s = CU_slash" | "cu_state s = CU_dot"
    | "cu_state s = CU_dot_dot"
    by auto
  then show ?thesis
    using assms cu_turn_usual cu_turn_slash cu_turn_dot cu_turn_dot_dot unfolding a by cases metis+
qed

section \<open>The end of the path\<close>

text \<open>What remains of the output where the path ends in the current state.\<close>

definition cu_final :: "cu_locals \<Rightarrow> cu_locals option" where
  "cu_final s =
     (case cu_state s of
        CU_dot \<Rightarrow> Some (s\<lparr>cu_out := butlast (cu_out s)\<rparr>)
      | CU_dot_dot \<Rightarrow> map_option (\<lambda>out. s\<lparr>cu_out := out\<rparr>) (cu_up (cu_out s))
      | _ \<Rightarrow> Some s)"

lemma cu_final_rel:
  assumes "cu_rel a s"
  shows "case path_finish a of
      None \<Rightarrow> cu_final s = None
    | Some (ss, l, x) \<Rightarrow>
        \<exists>s'. cu_final s = Some s' \<and> cu_out s' = path_dir ss @ l \<and> cu_req s' = cu_req s \<and>
          x = map_option (\<lambda>k. drop k (path_dir ss @ l)) (uri_ext (cu_req s))"
proof -
  obtain ss l x where a: "a = (ss, l, x)" by (cases a)
  show ?thesis
    using assms cu_up_dot_dot [of ss]
    by (auto simp: a cu_final_def seg_state_def butlast_append split: option.splits if_splits)
qed

lemma cu_rel_state: "cu_rel a s \<Longrightarrow> cu_state s \<in> {CU_usual, CU_slash, CU_dot, CU_dot_dot}"
  using seg_state_cases by (cases a) auto

lemma cu_end_final:
  assumes "cu_rel a s"
  shows "cu_end s = (case cu_final s of None \<Rightarrow> (NGX_HTTP_PARSE_INVALID_REQUEST, cu_req s)
    | Some s' \<Rightarrow> (NGX_OK, cu_done s'))"
  using cu_rel_state [OF assms] by (auto simp: cu_end_def cu_final_def split: option.splits)

lemma cu_step_hash:
  assumes "cu_rel a s" "cu_ch s = 0x23"
  shows "\<exists>q s1. cu_step m mem p s =
    (case cu_final s of None \<Rightarrow> Stop (CU_invalid, q, s1) | Some s' \<Rightarrow> Stop (CU_done, p, s'))"
  using cu_rel_state [OF assms(1)] assms(2)
  by (auto simp: cu_step_defs cu_final_def byte_simps split: option.splits)

lemma cu_step_question:
  assumes "cu_rel a s" "cu_ch s = 0x3f"
  shows "\<exists>q s1. cu_step m mem p s =
    (case cu_final s of None \<Rightarrow> Stop (CU_invalid, q, s1)
     | Some s' \<Rightarrow> Stop (CU_args, p, s'\<lparr>cu_req := (cu_req s')\<lparr>args_start := Some p\<rparr>\<rparr>))"
  using cu_rel_state [OF assms(1)] assms(2)
  by (auto simp: cu_step_defs cu_final_def byte_simps split: option.splits)

lemma cu_step_percent:
  assumes "cu_rel a s" "cu_ch s = 0x25"
  shows "cu_step m mem p s =
    Go (Suc p, s\<lparr>cu_quoted_state := cu_state s, cu_state := CU_quoted, cu_ch := mem ! p\<rparr>)"
  using cu_rel_state [OF assms(1)] assms(2)
  by (auto simp: cu_step_defs byte_simps)

lemma cu_find_hash_bounds: "cu_find_hash mem p e = Some h \<Longrightarrow> p \<le> h \<and> h < e"
  by (induction mem p e rule: cu_find_hash.induct)
    (subst (asm) (2) cu_find_hash.simps, auto split: if_splits)

lemma cu_find_hash_takeWhile:
  assumes "e \<le> length mem"
  shows "takeWhile (\<lambda>c. c \<noteq> 0x23) (byte_range p e mem) =
    (case cu_find_hash mem p e of None \<Rightarrow> byte_range p e mem | Some h \<Rightarrow> byte_range p h mem)"
  using assms
proof (induction mem p e rule: cu_find_hash.induct)
  case (1 mem p e)
  show ?case
  proof (cases "p < e")
    case True
    have "byte_range p h mem = mem ! p # byte_range (Suc p) h mem"
      if "cu_find_hash mem (Suc p) e = Some h" for h
      using cu_find_hash_bounds [OF that] 1(2) by (simp add: byte_range_Cons)
    then show ?thesis
      using True 1 by (subst cu_find_hash.simps) (auto simp: byte_range_Cons [of p e mem] split: option.splits)
  next
    case False
    then show ?thesis by (subst cu_find_hash.simps) (simp add: byte_range_def)
  qed
qed

section \<open>Meeting the specification\<close>

definition cu_result :: "byte list \<Rightarrow> nat \<Rightarrow> cu_flow \<Rightarrow> ngx_rc \<times> ngx_http_request" where
  "cu_result mem e f =
     (case f of
        Go (p, s) \<Rightarrow> cu_end s
      | Stop (CU_invalid, p, s) \<Rightarrow> (NGX_HTTP_PARSE_INVALID_REQUEST, cu_req s)
      | Stop (CU_done, p, s) \<Rightarrow> (NGX_OK, cu_done s)
      | Stop (CU_args, p, s) \<Rightarrow> (NGX_OK, cu_args mem e p s))"

text \<open>The arguments \<open>ngx_http_process_request_uri\<close> sets in the end.\<close>

definition final_args :: "byte list \<Rightarrow> nat \<Rightarrow> ngx_http_request \<Rightarrow> byte list" where
  "final_args mem e r =
     (case args_start r of Some a \<Rightarrow> if e > a then byte_range a e mem else args r | None \<Rightarrow> args r)"

text \<open>Nothing is known of the arguments and the extension when the complex parser starts.\<close>

definition cu_clear :: "cu_locals \<Rightarrow> bool" where
  "cu_clear s \<longleftrightarrow> args (cu_req s) = [] \<and> args_start (cu_req s) = None \<and> exten (cu_req s) = []"

fun cu_meets ::
  "bool \<Rightarrow> byte list \<Rightarrow> nat \<Rightarrow> (byte list \<times> byte list option \<times> byte list option) option \<Rightarrow>
   ngx_rc \<times> ngx_http_request \<Rightarrow> bool" where
  "cu_meets ep mem e None (rc, r) \<longleftrightarrow> rc = NGX_HTTP_PARSE_INVALID_REQUEST"
| "cu_meets ep mem e (Some (u, x, a)) (rc, r) \<longleftrightarrow>
     rc = NGX_OK \<and> uri r = u \<and> uri_ext r = None \<and> empty_path_in_uri r = ep \<and>
     exten r = (case x of None \<Rightarrow> [] | Some x \<Rightarrow> x) \<and>
     final_args mem e r = (case a of None \<Rightarrow> [] | Some l \<Rightarrow> l)"

lemma cu_done_sel:
  "uri (cu_done s) = cu_out s" "uri_ext (cu_done s) = None"
  "exten (cu_done s) = (case uri_ext (cu_req s) of None \<Rightarrow> exten (cu_req s) | Some x \<Rightarrow> drop x (cu_out s))"
  "args (cu_done s) = args (cu_req s)" "args_start (cu_done s) = args_start (cu_req s)"
  "empty_path_in_uri (cu_done s) = empty_path_in_uri (cu_req s)"
  by (simp_all add: cu_done_def Let_def split: option.splits)

lemma cu_meets_done:
  assumes "cu_clear s" "cu_out s' = path_dir ss @ l" "cu_req s' = cu_req s"
    "x = map_option (\<lambda>k. drop k (path_dir ss @ l)) (uri_ext (cu_req s))"
  shows "cu_meets (empty_path_in_uri (cu_req s)) mem e (Some (path_dir ss @ l, x, None))
    (NGX_OK, cu_done s')"
  using assms by (auto simp: cu_done_sel final_args_def cu_clear_def split: option.splits)

lemma cu_meets_args:
  assumes "cu_clear s" "cu_out s' = path_dir ss @ l" "cu_req s' = cu_req s"
    "x = map_option (\<lambda>k. drop k (path_dir ss @ l)) (uri_ext (cu_req s))" "e \<le> length mem"
  shows "cu_meets (empty_path_in_uri (cu_req s)) mem e
    (Some (path_dir ss @ l, x, Some (takeWhile (\<lambda>c. c \<noteq> 0x23) (byte_range p e mem))))
    (NGX_OK, cu_args mem e p (s'\<lparr>cu_req := (cu_req s')\<lparr>args_start := Some p\<rparr>\<rparr>))"
proof -
  have "byte_range p e mem = []" if "\<not> p < e" using that by (simp add: byte_range_def)
  then show ?thesis
    using assms
    by (auto simp: cu_done_sel final_args_def cu_clear_def cu_args_def Let_def
        cu_find_hash_takeWhile [OF assms(5)] split: option.splits)
qed

text \<open>A path that ends: at the end of the URI, at a fragment, at the arguments.\<close>

lemma path_spec_end: "path_spec m a [] =
  (case path_finish a of None \<Rightarrow> None | Some (ss, l, x) \<Rightarrow> Some (path_dir ss @ l, x, None))"
  by (simp add: path_spec_def split: option.splits)

lemma path_spec_hash: "path_spec m a (0x23 # raw) =
  (case path_finish a of None \<Rightarrow> None | Some (ss, l, x) \<Rightarrow> Some (path_dir ss @ l, x, None))"
  by (simp add: path_spec_def split: option.splits)

lemma path_spec_question: "path_spec m a (0x3f # raw) =
  (case path_finish a of None \<Rightarrow> None
   | Some (ss, l, x) \<Rightarrow> Some (path_dir ss @ l, x, Some (takeWhile (\<lambda>c. c \<noteq> 0x23) raw)))"
  by (simp add: path_spec_def split: option.splits)

lemma path_spec_char:
  assumes "path_char c"
  shows "path_spec m a (c # raw) =
    (case path_push m a c of None \<Rightarrow> None | Some a' \<Rightarrow> path_spec m a' raw)"
  using assms by (cases "uri_decode raw") (auto simp: path_spec_def path_char_def split: option.splits)

lemma path_spec_quoted:
  "path_spec m a (0x25 # h # l # raw) =
    (if hex_digit h \<and> hex_digit l \<and> hex_pair h l \<noteq> 0 then
       (case path_push m a (hex_pair h l) of None \<Rightarrow> None | Some a' \<Rightarrow> path_spec m a' raw)
     else None)"
  by (cases "uri_decode raw") (auto simp: path_spec_def split: option.splits)

lemma path_spec_broken: "path_spec m a [0x25] = None" "path_spec m a [0x25, h] = None"
  by (simp_all add: path_spec_def)

lemma cu_result_end:
  assumes "cu_rel a s" "cu_clear s"
  shows "cu_meets (empty_path_in_uri (cu_req s)) mem e (path_spec m a []) (cu_end s)"
  using cu_final_rel [OF assms(1)] cu_meets_done [OF assms(2)]
  by (auto simp: path_spec_end cu_end_final [OF assms(1)] simp del: path_finish.simps cu_meets.simps(2) split: option.splits)

section \<open>The loop\<close>

lemma cu_loop_end: "e < p \<Longrightarrow> cu_loop m mem e cap p s = Some (Go (p, s))"
  by (subst cu_loop.simps) simp

lemma cu_loop_Go:
  "p \<le> e \<Longrightarrow> cu_step m mem p s = Go (p', s') \<Longrightarrow> length (cu_out s') \<le> cap \<Longrightarrow>
   cu_loop m mem e cap p s = cu_loop m mem e cap p' s'"
  by (subst cu_loop.simps) simp

lemma cu_loop_Stop:
  "p \<le> e \<Longrightarrow> cu_step m mem p s = Stop v \<Longrightarrow> cu_loop m mem e cap p s = Some (Stop v)"
  by (subst cu_loop.simps) simp

text \<open>Hexadecimal digits.\<close>

lemma hex_val_less: "hex_digit c \<Longrightarrow> hex_val c < 16"
  by (auto simp: hex_digit_def hex_val_def is_digit_def is_hex_alpha_def word_le_nat_alt word_less_nat_alt
      unat_sub unat_word_ariths)

lemma hex_val_digit: "is_digit c \<Longrightarrow> hex_val c < 10"
  by (auto simp: hex_val_def is_digit_def word_le_nat_alt word_less_nat_alt unat_sub)

lemma hex_val_alpha: "is_hex_alpha c \<Longrightarrow> \<not> is_digit c \<Longrightarrow> 10 \<le> hex_val c"
  by (auto simp: hex_val_def is_hex_alpha_def word_le_nat_alt unat_word_ariths unat_sub)

lemma hex_pair_low:
  assumes "hex_digit l"
  shows "unat (hex_pair h l) mod 16 = unat (hex_val l)"
proof -
  have "unat (hex_pair h l) = (unat (hex_val h) * 16 + unat (hex_val l)) mod 256"
    by (simp add: hex_pair_def push_bit_eq_mult unat_word_ariths mod_simps)
  then have "unat (hex_pair h l) mod 16 = (unat (hex_val h) * 16 + unat (hex_val l)) mod 16"
    by (simp add: mod_mod_cancel)
  then show ?thesis using hex_val_less [OF assms] by (simp add: word_less_nat_alt)
qed

text \<open>Which of the special values a decoded byte can have depends on its last digit.\<close>

lemma hex_pair_special:
  assumes "hex_digit l"
  shows "is_digit l \<Longrightarrow> hex_pair h l \<noteq> 0x3f \<and> hex_pair h l \<noteq> 0x2b"
    "\<not> is_digit l \<Longrightarrow> hex_pair h l \<noteq> 0x25 \<and> hex_pair h l \<noteq> 0x23 \<and> hex_pair h l \<noteq> 0"
proof -
  show "is_digit l \<Longrightarrow> hex_pair h l \<noteq> 0x3f \<and> hex_pair h l \<noteq> 0x2b"
    using hex_val_digit [of l] hex_pair_low [OF assms, of h] by (auto simp: word_less_nat_alt)
  show "\<not> is_digit l \<Longrightarrow> hex_pair h l \<noteq> 0x25 \<and> hex_pair h l \<noteq> 0x23 \<and> hex_pair h l \<noteq> 0"
    using hex_val_alpha [of l] hex_pair_low [OF assms, of h] assms
    by (auto simp: hex_digit_def word_le_nat_alt)
qed

lemma cu_step_quoted:
  assumes "cu_state s = CU_quoted"
  shows "hex_digit (cu_ch s) \<Longrightarrow> cu_step m mem p s =
      Go (Suc p, s\<lparr>cu_req := (cu_req s)\<lparr>quoted_uri := True\<rparr>, cu_decoded := hex_val (cu_ch s),
            cu_state := CU_quoted_second, cu_ch := mem ! p\<rparr>)"
    and "\<not> hex_digit (cu_ch s) \<Longrightarrow> \<exists>s'. cu_step m mem p s = Stop (CU_invalid, p, s')"
  using assms by (auto simp: cu_step_def cu_sw_quoted_def cu_next_def Let_def hex_digit_def hex_val_def)

text \<open>
  The second digit: an error, a byte written at once, or the decoded byte in the state in front
  of the percent sign.
\<close>

lemma cu_step_quoted_second:
  assumes "cu_state s = CU_quoted_second" "cu_decoded s = hex_val h"
  defines "c \<equiv> hex_pair h (cu_ch s)"
  shows "\<exists>r s1. cu_step m mem p s =
      (if \<not> hex_digit (cu_ch s) \<or> c = 0 then Stop (CU_invalid, p, s1)
       else if path_char c
       then Go (p, s\<lparr>cu_ch := c, cu_state := cu_quoted_state s,
                     cu_req := (cu_req s)\<lparr>plus_in_uri := r\<rparr>\<rparr>)
       else Go (Suc p, s\<lparr>cu_ch := mem ! p, cu_state := CU_usual, cu_out := cu_out s @ [c]\<rparr>))"
proof -
  have val: "push_bit 4 (cu_decoded s) + (cu_ch s - c8 CHR ''0'') = c" if "is_digit (cu_ch s)"
    using that assms(2) by (simp add: c_def hex_pair_def hex_val_def)
  have val': "push_bit 4 (cu_decoded s) + (lower (cu_ch s) - c8 CHR ''a'') + 10 = c"
    if "\<not> is_digit (cu_ch s)"
    using that assms(2) by (simp add: c_def hex_pair_def hex_val_def)
  have special: "is_digit (cu_ch s) \<Longrightarrow> c \<noteq> 0x3f \<and> c \<noteq> 0x2b"
    "\<not> is_digit (cu_ch s) \<Longrightarrow> hex_digit (cu_ch s) \<Longrightarrow> c \<noteq> 0x25 \<and> c \<noteq> 0x23 \<and> c \<noteq> 0"
    using hex_pair_special [of "cu_ch s" h] unfolding c_def by (auto simp: hex_digit_def)
  show ?thesis
  proof (cases "is_digit (cu_ch s)")
    case True
    have "cu_step m mem p s =
        (if c = 0x25 \<or> c = 0x23 then cu_next mem p (cu_put c (s\<lparr>cu_state := CU_usual\<rparr>))
         else if c = 0 then Stop (CU_invalid, p, s)
         else Go (p, s\<lparr>cu_ch := c, cu_state := cu_quoted_state s\<rparr>))"
      unfolding cu_step_def assms(1) cu_sw_quoted_second_def Let_def val [OF True] by (simp add: True)
    then show ?thesis
      using True special by (auto simp: cu_next_def cu_put_def hex_digit_def path_char_def
          intro!: exI [of _ "plus_in_uri (cu_req s)"])
  next
    case False
    have "cu_step m mem p s =
        (if hex_digit (cu_ch s) then
           (if c = 0x3f then cu_next mem p (cu_put c (s\<lparr>cu_state := CU_usual\<rparr>))
            else if c = 0x2b then
              Go (p, s\<lparr>cu_ch := c, cu_req := (cu_req s)\<lparr>plus_in_uri := True\<rparr>, cu_state := cu_quoted_state s\<rparr>)
            else Go (p, s\<lparr>cu_ch := c, cu_state := cu_quoted_state s\<rparr>))
         else Stop (CU_invalid, p, s))"
      unfolding cu_step_def assms(1) cu_sw_quoted_second_def Let_def val' [OF False]
      by (simp add: False hex_digit_def)
    note step = this
    show ?thesis
    proof (cases "c = 0x2b")
      case True
      then show ?thesis using step False special
        by (auto simp: cu_next_def cu_put_def path_char_def intro!: exI [of _ True])
    next
      case neq: False
      then show ?thesis using step False special
        by (auto simp: cu_next_def cu_put_def path_char_def intro!: exI [of _ "plus_in_uri (cu_req s)"])
    qed
  qed
qed

text \<open>A decoded byte goes into the path like any other byte, special ones included.\<close>

lemma cu_rel_put:
  assumes "cu_rel (ss, l, x) (s\<lparr>cu_state := cu_quoted_state s\<rparr>)" "\<not> path_char c"
  shows "cu_rel (ss, l @ [c], map_option (\<lambda>e. e @ [c]) x)
    (s\<lparr>cu_ch := d, cu_state := CU_usual, cu_out := cu_out s @ [c]\<rparr>)"
proof -
  have "seg_state (l @ [c]) = CU_usual"
    using assms(2) by (auto simp: seg_state_def path_char_def append_eq_Cons_conv)
  then show ?thesis
    using assms by (auto simp: path_char_def split: option.splits)
qed

lemma cu_frame_trans: "cu_frame s t \<Longrightarrow> cu_frame t v \<Longrightarrow> cu_frame s v"
  by (simp add: cu_frame_def)

lemma cu_loop_quoted_second:
  assumes "cu_rel a (s\<lparr>cu_state := cu_quoted_state s\<rparr>)" "cu_state s = CU_quoted_second"
    "cu_decoded s = hex_val h" "hex_digit (cu_ch s)" "hex_pair h (cu_ch s) \<noteq> 0" "p \<le> e"
    "Suc (length (cu_out s)) \<le> cap"
  shows "case path_push m a (hex_pair h (cu_ch s)) of
      None \<Rightarrow> \<exists>q s'. cu_loop m mem e cap p s = Some (Stop (CU_invalid, q, s'))
    | Some a' \<Rightarrow> \<exists>s'. cu_loop m mem e cap p s = cu_loop m mem e cap (Suc p) s' \<and> cu_rel a' s' \<and>
        cu_ch s' = mem ! p \<and> length (cu_out s') \<le> Suc (length (cu_out s)) \<and> cu_frame s s'"
proof -
  define c where "c = hex_pair h (cu_ch s)"
  obtain r where step: "cu_step m mem p s =
      (if path_char c
       then Go (p, s\<lparr>cu_ch := c, cu_state := cu_quoted_state s, cu_req := (cu_req s)\<lparr>plus_in_uri := r\<rparr>\<rparr>)
       else Go (Suc p, s\<lparr>cu_ch := mem ! p, cu_state := CU_usual, cu_out := cu_out s @ [c]\<rparr>))"
    using cu_step_quoted_second [OF assms(2,3), of m mem p] assms(4,5) unfolding c_def by auto
  show ?thesis
  proof (cases "path_char c")
    case True
    define s1 where "s1 = s\<lparr>cu_ch := c, cu_state := cu_quoted_state s, cu_req := (cu_req s)\<lparr>plus_in_uri := r\<rparr>\<rparr>"
    have rel: "cu_rel a s1" using assms(1) by (cases a) (auto simp: s1_def split: option.splits)
    have loop: "cu_loop m mem e cap p s = cu_loop m mem e cap p s1"
      by (rule cu_loop_Go) (use step True assms(6,7) in \<open>auto simp: s1_def\<close>)
    have "cu_frame s s1" by (simp add: cu_frame_def s1_def)
    moreover have "cu_turn m mem p (path_push m a c) s1"
      using cu_turn [OF rel, of m mem p] True by (simp add: s1_def)
    ultimately show ?thesis
      using loop assms(6,7) cu_loop_Stop [of p e m mem s1] cu_loop_Go [of p e m mem s1 "Suc p"]
      unfolding c_def [symmetric]
      by (fastforce simp: cu_turn_def s1_def split: option.splits intro: cu_frame_trans)
  next
    case False
    obtain ss l x where a: "a = (ss, l, x)" by (cases a)
    have push: "path_push m a c = Some (ss, l @ [c], map_option (\<lambda>e. e @ [c]) x)"
      using False by (auto simp: a path_char_def)
    have "cu_loop m mem e cap p s =
        cu_loop m mem e cap (Suc p) (s\<lparr>cu_ch := mem ! p, cu_state := CU_usual, cu_out := cu_out s @ [c]\<rparr>)"
      by (rule cu_loop_Go) (use step False assms(6,7) in auto)
    then show ?thesis
      using cu_rel_put [OF assms(1) [unfolded a] False] push
      unfolding c_def [symmetric]
      by (auto simp: cu_frame_def simp del: cu_rel.simps path_push.simps)
  qed
qed

text \<open>
  The path may be written up to \<open>lim\<close>: the end of the URI, or the first question mark where no
  percent sign stands in front of it.
\<close>

definition lim_ok :: "byte list \<Rightarrow> nat \<Rightarrow> nat \<Rightarrow> nat \<Rightarrow> bool" where
  "lim_ok mem u e lim \<longleftrightarrow>
     lim = e \<or> lim < e \<and> mem ! lim = c8 CHR ''?'' \<and> bytes_all (\<lambda>c. c \<noteq> c8 CHR ''%'') u lim mem"

definition cu_at :: "byte list \<Rightarrow> nat \<Rightarrow> nat \<Rightarrow> nat \<Rightarrow> path \<Rightarrow> nat \<Rightarrow> cu_locals \<Rightarrow> bool" where
  "cu_at mem u e lim a q s \<longleftrightarrow>
     cu_rel a s \<and> cu_clear s \<and> cu_ch s = mem ! q \<and> u \<le> q \<and> q \<le> lim \<and> length (cu_out s) \<le> q - u \<and>
     lim_ok mem u e lim \<and> e < length mem"

definition cu_reaches ::
  "bool \<Rightarrow> byte list \<Rightarrow> nat \<Rightarrow> nat \<Rightarrow> path \<Rightarrow> byte list \<Rightarrow> nat \<Rightarrow> cu_locals \<Rightarrow> bool" where
  "cu_reaches m mem e cap a raw p s \<longleftrightarrow>
     (\<exists>f. cu_loop m mem e cap p s = Some f \<and>
        cu_meets (empty_path_in_uri (cu_req s)) mem e (path_spec m a raw) (cu_result mem e f))"

lemma cu_clear_frame: "cu_clear s \<Longrightarrow> cu_frame s s' \<Longrightarrow> cu_clear s'"
  by (simp add: cu_clear_def cu_frame_def)

lemma cu_reaches_char:
  assumes at: "cu_at mem u e lim a q s" and "q < lim" "path_char (mem ! q)"
    and IH: "\<And>a' s'. cu_at mem u e lim a' (Suc q) s' \<Longrightarrow>
      cu_reaches m mem e (lim - u) a' (byte_range (Suc q) e mem) (Suc (Suc q)) s'"
  shows "cu_reaches m mem e (lim - u) a (byte_range q e mem) (Suc q) s"
proof -
  have q: "q < e" "e < length mem" "cu_ch s = mem ! q" "u \<le> q" "length (cu_out s) \<le> q - u"
    using at assms(2) by (auto simp: cu_at_def lim_ok_def)
  have raw: "byte_range q e mem = mem ! q # byte_range (Suc q) e mem"
    using q by (simp add: byte_range_Cons)
  have turn: "cu_turn m mem (Suc q) (path_push m a (mem ! q)) s"
    using cu_turn [of a s m mem "Suc q"] at assms(3) by (simp add: cu_at_def)
  show ?thesis
  proof (cases "path_push m a (mem ! q)")
    case None
    then obtain q' s' where "cu_loop m mem e (lim - u) (Suc q) s = Some (Stop (CU_invalid, q', s'))"
      using turn q(1) cu_loop_Stop [of "Suc q" e m mem s] by (auto simp: cu_turn_def)
    then show ?thesis
      using None by (simp add: cu_reaches_def raw path_spec_char [OF assms(3)] cu_result_def)
  next
    case (Some a')
    then obtain s' where s': "cu_step m mem (Suc q) s = Go (Suc (Suc q), s')" "cu_rel a' s'"
        "cu_ch s' = mem ! Suc q" "length (cu_out s') \<le> Suc (length (cu_out s))" "cu_frame s s'"
      using turn by (auto simp: cu_turn_def)
    have len: "length (cu_out s') \<le> Suc q - u" using s'(4) q(4,5) by simp
    then have "cu_loop m mem e (lim - u) (Suc q) s = cu_loop m mem e (lim - u) (Suc (Suc q)) s'"
      using s'(1) q(1,4) assms(2) by (intro cu_loop_Go) auto
    moreover have "cu_at mem u e lim a' (Suc q) s'"
      using at s' len assms(2) cu_clear_frame by (auto simp: cu_at_def)
    ultimately show ?thesis
      using IH Some s'(5)
      by (fastforce simp: cu_reaches_def raw path_spec_char [OF assms(3)] cu_frame_def)
  qed
qed

lemma cu_reaches_stop:
  assumes at: "cu_at mem u e lim a q s" and "q < e" "mem ! q = 0x23 \<or> mem ! q = 0x3f"
  shows "cu_reaches m mem e cap a (byte_range q e mem) (Suc q) s"
proof -
  have q: "e < length mem" "cu_ch s = mem ! q" "cu_rel a s" "cu_clear s" using at by (auto simp: cu_at_def)
  have raw: "byte_range q e mem = mem ! q # byte_range (Suc q) e mem"
    using q assms(2) by (simp add: byte_range_Cons)
  show ?thesis
  proof (cases "mem ! q = 0x23")
    case True
    obtain q' s1 where "cu_step m mem (Suc q) s =
        (case cu_final s of None \<Rightarrow> Stop (CU_invalid, q', s1) | Some s' \<Rightarrow> Stop (CU_done, Suc q, s'))"
      using cu_step_hash [OF q(3), of m mem "Suc q"] q(2) True by auto
    then show ?thesis
      using cu_final_rel [OF q(3)] cu_loop_Stop [of "Suc q" e m mem s] assms(2) cu_meets_done [OF q(4)]
      by (auto simp: cu_reaches_def raw True path_spec_hash cu_result_def
          simp del: path_finish.simps cu_meets.simps(2) split: option.splits)
  next
    case False
    then have ch: "mem ! q = 0x3f" using assms(3) by simp
    obtain q' s1 where "cu_step m mem (Suc q) s =
        (case cu_final s of None \<Rightarrow> Stop (CU_invalid, q', s1)
         | Some s' \<Rightarrow> Stop (CU_args, Suc q, s'\<lparr>cu_req := (cu_req s')\<lparr>args_start := Some (Suc q)\<rparr>\<rparr>))"
      using cu_step_question [OF q(3), of m mem "Suc q"] q(2) ch by auto
    then show ?thesis
      using cu_final_rel [OF q(3)] cu_loop_Stop [of "Suc q" e m mem s] assms(2) q(1)
        cu_meets_args [OF q(4), of _ _ _ _ e mem "Suc q"]
      by (auto simp: cu_reaches_def raw ch path_spec_question cu_result_def
          simp del: path_finish.simps cu_meets.simps(2) split: option.splits)
  qed
qed

text \<open>A percent sign and what follows it.\<close>

lemma cu_reaches_invalid:
  assumes "path_spec m a raw = None" "cu_loop m mem e cap p s = Some (Stop (CU_invalid, q, s'))"
  shows "cu_reaches m mem e cap a raw p s"
  using assms by (simp add: cu_reaches_def cu_result_def)

lemma cu_reaches_cut:
  assumes "path_spec m a raw = None" "cu_loop m mem e cap p s = Some (Go (q, s'))"
    "cu_state s' = CU_quoted \<or> cu_state s' = CU_quoted_second"
  shows "cu_reaches m mem e cap a raw p s"
  using assms by (auto simp: cu_reaches_def cu_result_def cu_end_def)

lemma cu_reaches_step:
  assumes "p \<le> e" "cu_step m mem p s = Go (p', s')" "length (cu_out s') \<le> cap" "cu_frame s s'"
    "cu_reaches m mem e cap a raw p' s'"
  shows "cu_reaches m mem e cap a raw p s"
  using assms cu_loop_Go [OF assms(1-3)] by (simp add: cu_reaches_def cu_frame_def)

text \<open>Inside a quoted byte: the state in front of the percent sign is kept aside.\<close>

definition cu_mid :: "byte list \<Rightarrow> nat \<Rightarrow> nat \<Rightarrow> nat \<Rightarrow> path \<Rightarrow> nat \<Rightarrow> cu_locals \<Rightarrow> bool" where
  "cu_mid mem u e k a q s \<longleftrightarrow>
     cu_rel a (s\<lparr>cu_state := cu_quoted_state s\<rparr>) \<and> cu_clear s \<and> cu_ch s = mem ! q \<and> q \<le> e \<and>
     length (cu_out s) + k \<le> q - u \<and> e < length mem"

lemma cu_reaches_second:
  assumes mid: "cu_mid mem u e 2 a q s" "cu_state s = CU_quoted_second" "cu_decoded s = hex_val h" "hex_digit h"
    and IH: "\<And>a' s'. cu_at mem u e e a' (Suc q) s' \<Longrightarrow>
      cu_reaches m mem e (e - u) a' (byte_range (Suc q) e mem) (Suc (Suc q)) s'"
  shows "cu_reaches m mem e (e - u) a (0x25 # h # byte_range q e mem) (Suc q) s"
proof (cases "q < e")
  case False
  then have "path_spec m a (0x25 # h # byte_range q e mem) = None"
    using mid(1) by (simp add: cu_mid_def path_spec_broken byte_range_def)
  then show ?thesis
    by (rule cu_reaches_cut) (use mid False in \<open>auto simp: cu_mid_def cu_loop_end\<close>)
next
  case True
  have q: "cu_ch s = mem ! q" "Suc (length (cu_out s)) \<le> e - u" "cu_clear s" "e < length mem"
      "cu_rel a (s\<lparr>cu_state := cu_quoted_state s\<rparr>)" "length (cu_out s) + 2 \<le> q - u"
    using mid(1) True by (auto simp: cu_mid_def)
  have raw: "byte_range q e mem = mem ! q # byte_range (Suc q) e mem"
    using True q(4) by (simp add: byte_range_Cons)
  show ?thesis
  proof (cases "hex_digit (mem ! q) \<and> hex_pair h (mem ! q) \<noteq> 0")
    case False
    obtain sy where "cu_step m mem (Suc q) s = Stop (CU_invalid, Suc q, sy)"
      using cu_step_quoted_second [OF mid(2,3), of m mem "Suc q"] False by (auto simp: q(1))
    moreover have "path_spec m a (0x25 # h # byte_range q e mem) = None"
      using False by (auto simp: raw path_spec_quoted)
    ultimately show ?thesis using True by (auto intro!: cu_reaches_invalid cu_loop_Stop)
  next
    case ok: True
    note second = cu_loop_quoted_second [OF q(5) mid(2,3) _ _ _ q(2), where p = "Suc q" and m = m and mem = mem,
        unfolded q(1)]
    show ?thesis
    proof (cases "path_push m a (hex_pair h (mem ! q))")
      case None
      then obtain q' s' where "cu_loop m mem e (e - u) (Suc q) s = Some (Stop (CU_invalid, q', s'))"
        using second [of e] ok True by auto
      then show ?thesis
        using None by (auto simp: raw path_spec_quoted intro!: cu_reaches_invalid)
    next
      case (Some a')
      then obtain s' where s': "cu_loop m mem e (e - u) (Suc q) s = cu_loop m mem e (e - u) (Suc (Suc q)) s'"
          "cu_rel a' s'" "cu_ch s' = mem ! Suc q" "length (cu_out s') \<le> Suc (length (cu_out s))" "cu_frame s s'"
        using second [of e] ok True by auto
      have "cu_at mem u e e a' (Suc q) s'"
        using s' q True cu_clear_frame by (auto simp: cu_at_def lim_ok_def)
      from IH [OF this] show ?thesis
        using s'(1,5) Some ok mid(4) by (simp add: cu_reaches_def raw path_spec_quoted cu_frame_def)
    qed
  qed
qed

lemma cu_reaches_first:
  assumes mid: "cu_mid mem u e 1 a q s" "cu_state s = CU_quoted"
    and IH: "\<And>a' s'. Suc q < e \<Longrightarrow> cu_at mem u e e a' (Suc (Suc q)) s' \<Longrightarrow>
      cu_reaches m mem e (e - u) a' (byte_range (Suc (Suc q)) e mem) (Suc (Suc (Suc q))) s'"
  shows "cu_reaches m mem e (e - u) a (0x25 # byte_range q e mem) (Suc q) s"
proof (cases "q < e")
  case False
  then have "path_spec m a (0x25 # byte_range q e mem) = None"
    using mid(1) by (simp add: cu_mid_def path_spec_broken byte_range_def)
  then show ?thesis
    by (rule cu_reaches_cut) (use mid False in \<open>auto simp: cu_mid_def cu_loop_end\<close>)
next
  case True
  have q: "cu_ch s = mem ! q" "cu_clear s" "e < length mem" "length (cu_out s) + 1 \<le> q - u"
      "cu_rel a (s\<lparr>cu_state := cu_quoted_state s\<rparr>)"
    using mid(1) True by (auto simp: cu_mid_def)
  have raw: "byte_range q e mem = mem ! q # byte_range (Suc q) e mem"
    using True q(3) by (simp add: byte_range_Cons)
  define s' where "s' = s\<lparr>cu_req := (cu_req s)\<lparr>quoted_uri := True\<rparr>, cu_decoded := hex_val (mem ! q),
    cu_state := CU_quoted_second, cu_ch := mem ! Suc q\<rparr>"
  show ?thesis
  proof (cases "hex_digit (mem ! q)")
    case False
    then have "path_spec m a (0x25 # byte_range q e mem) = None"
      by (cases "byte_range (Suc q) e mem") (simp_all add: raw path_spec_broken path_spec_quoted)
    moreover obtain sx where "cu_step m mem (Suc q) s = Stop (CU_invalid, Suc q, sx)"
      using cu_step_quoted(2) [OF mid(2)] False q(1) by metis
    ultimately show ?thesis
      using True by (auto intro!: cu_reaches_invalid cu_loop_Stop)
  next
    case hex: True
    have step: "cu_step m mem (Suc q) s = Go (Suc (Suc q), s')"
      using cu_step_quoted(1) [OF mid(2), of m mem "Suc q"] hex by (simp only: q(1) s'_def)
    have frame: "cu_frame s s'" by (simp add: s'_def cu_frame_def)
    have rel: "cu_rel a (s'\<lparr>cu_state := cu_quoted_state s'\<rparr>)"
      using q(5) by (cases a) (auto simp: s'_def split: option.splits)
    have "cu_mid mem u e 2 a (Suc q) s'"
      using q True rel cu_clear_frame [OF q(2) frame] by (auto simp: cu_mid_def s'_def)
    then have "cu_reaches m mem e (e - u) a (0x25 # mem ! q # byte_range (Suc q) e mem) (Suc (Suc q)) s'"
    proof (rule cu_reaches_second)
      show "cu_reaches m mem e (e - u) a' (byte_range (Suc (Suc q)) e mem) (Suc (Suc (Suc q))) s''"
        if at: "cu_at mem u e e a' (Suc (Suc q)) s''" for a' s''
        by (rule IH [OF _ at]) (use at in \<open>simp add: cu_at_def\<close>)
    qed (use hex in \<open>simp_all add: s'_def\<close>)
    then show ?thesis
      unfolding raw
      by (rule cu_reaches_step [rotated -1]) (use step hex True frame q(4) in \<open>auto simp: s'_def\<close>)
  qed
qed

lemma cu_reaches_percent:
  assumes at: "cu_at mem u e lim a q s" and "q < e" "mem ! q = 0x25"
    and IH: "\<And>a' s'. Suc (Suc q) < e \<Longrightarrow> cu_at mem u e lim a' (Suc (Suc (Suc q))) s' \<Longrightarrow>
      cu_reaches m mem e (lim - u) a' (byte_range (Suc (Suc (Suc q))) e mem) (Suc (Suc (Suc (Suc q)))) s'"
  shows "cu_reaches m mem e (lim - u) a (byte_range q e mem) (Suc q) s"
proof -
  have q: "e < length mem" "cu_ch s = 0x25" "cu_rel a s" "cu_clear s" "u \<le> q" "length (cu_out s) \<le> q - u"
      and lim: "lim = e"
    using at assms(2,3) by (auto simp: cu_at_def lim_ok_def bytes_all_def le_less)
  define s' where "s' = s\<lparr>cu_quoted_state := cu_state s, cu_state := CU_quoted, cu_ch := mem ! Suc q\<rparr>"
  have rel: "cu_rel a (s'\<lparr>cu_state := cu_quoted_state s'\<rparr>)"
    using q(3) by (cases a) (auto simp: s'_def split: option.splits)
  have frame: "cu_frame s s'" by (simp add: s'_def cu_frame_def)
  have "cu_mid mem u e 1 a (Suc q) s'"
    using q assms(2) rel cu_clear_frame [OF q(4) frame] by (auto simp: cu_mid_def s'_def)
  then have "cu_reaches m mem e (e - u) a (0x25 # byte_range (Suc q) e mem) (Suc (Suc q)) s'"
    by (rule cu_reaches_first) (use IH lim in \<open>simp_all add: s'_def\<close>)
  moreover have "byte_range q e mem = 0x25 # byte_range (Suc q) e mem"
    using assms(2,3) q(1) by (simp add: byte_range_Cons)
  ultimately show ?thesis
    unfolding lim
    by (auto intro!: cu_reaches_step [OF _ cu_step_percent [OF q(3,2)]] simp: s'_def [symmetric])
      (use assms(2) q(5,6) frame in \<open>auto simp: s'_def\<close>)
qed

lemma cu_reaches_spec:
  assumes "cu_at mem u e lim a q s"
  shows "cu_reaches m mem e (lim - u) a (byte_range q e mem) (Suc q) s"
  using assms
proof (induction "e - q" arbitrary: a q s rule: less_induct)
  case less
  have q: "q \<le> e" "e < length mem" "q \<le> lim" "lim_ok mem u e lim" "cu_rel a s" "cu_clear s"
    using less.prems by (auto simp: cu_at_def lim_ok_def)
  consider "q = e" | "q < e" "mem ! q = 0x25" | "q < e" "mem ! q = 0x23 \<or> mem ! q = 0x3f"
    | "q < e" "path_char (mem ! q)"
    using q(1) by (auto simp: path_char_def le_less)
  then show ?case
  proof cases
    case 1
    then show ?thesis
      using cu_result_end [OF q(5,6)] by (simp add: cu_reaches_def cu_loop_end cu_result_def)
  next
    case 2
    then show ?thesis by (intro cu_reaches_percent [OF less.prems]) (auto intro: less.hyps)
  next
    case 3
    then show ?thesis by (intro cu_reaches_stop [OF less.prems])
  next
    case 4
    then have "q < lim" using q(3,4) by (auto simp: lim_ok_def path_char_def le_less)
    then show ?thesis using 4 by (intro cu_reaches_char [OF less.prems]) (auto intro: less.hyps)
  qed
qed

section \<open>Plain paths need no normalisation\<close>

lemma path_run_append:
  "path_run m a (xs @ ys) = (case path_run m a xs of None \<Rightarrow> None | Some a' \<Rightarrow> path_run m a' ys)"
  by (induction xs arbitrary: a) (auto split: option.splits)

lemma plain_path_chars: "plain_path p \<Longrightarrow> c \<in> set p \<Longrightarrow> path_char c"
  by (induction p rule: plain_path.induct) (auto simp: path_char_def)

lemma uri_decode_plain:
  assumes "\<And>c. c \<in> set p \<Longrightarrow> path_char c"
  shows "uri_decode (p @ raw) = map_option (apfst ((@) p)) (uri_decode raw)"
  using assms
proof (induction p)
  case Nil
  then show ?case by (cases "uri_decode raw") auto
next
  case (Cons c p)
  then have "path_char c" by simp
  then show ?case using Cons by (cases "uri_decode raw") (auto simp: path_char_def)
qed

lemma plain_run:
  assumes "plain_path p" "p \<noteq> []" "hd p = 0x2f"
  shows "\<exists>ss l. path_run m ([], [], None) p = Some (ss, l, map_option (\<lambda>k. drop k p) (ext_pos p)) \<and>
    path_dir ss @ l = p \<and> (l = [] \<longleftrightarrow> last p = 0x2f) \<and> (l \<noteq> [] \<longrightarrow> hd l \<noteq> 0x2e) \<and>
    (\<forall>k. ext_pos p = Some k \<longrightarrow> k \<le> length p)"
  using assms
proof (induction p rule: rev_induct)
  case Nil
  then show ?case by simp
next
  case (snoc c p)
  show ?case
  proof (cases "p = []")
    case True
    then show ?thesis using snoc.prems by (simp add: path_close_def path_dir_def)
  next
    case False
    have plain: "plain_path p" "last p = 0x2f \<Longrightarrow> c \<noteq> 0x2f \<and> c \<noteq> 0x2e"
      using snoc.prems(1) False by (simp_all add: plain_path_snoc)
    then obtain ss l where IH: "path_run m ([], [], None) p = Some (ss, l, map_option (\<lambda>k. drop k p) (ext_pos p))"
        "path_dir ss @ l = p" "l = [] \<longleftrightarrow> last p = 0x2f" "l \<noteq> [] \<longrightarrow> hd l \<noteq> 0x2e"
        "\<forall>k. ext_pos p = Some k \<longrightarrow> k \<le> length p"
      using snoc False by (auto simp: hd_append)
    have l: "c = 0x2f \<or> c = 0x2e \<Longrightarrow> l \<noteq> [] \<and> l \<noteq> dot \<and> l \<noteq> dot_dot"
      using plain(2) IH(3,4) by auto
    have x: "map_option (\<lambda>e. e @ [c]) (map_option (\<lambda>k. drop k p) (ext_pos p)) =
        map_option (\<lambda>k. drop k (p @ [c])) (ext_pos p)"
      using IH(5) by (cases "ext_pos p") auto
    consider "c = 0x2f" | "c = 0x2e" | "c \<noteq> 0x2f" "c \<noteq> 0x2e" by blast
    then show ?thesis
    proof cases
      case 1
      then show ?thesis using IH l by (auto simp: path_run_append path_close_def ext_pos_from_snoc)
    next
      case 2
      then show ?thesis using IH l by (auto simp: path_run_append ext_pos_from_snoc hd_append)
    next
      case 3
      then have "path_run m ([], [], None) (p @ [c]) =
          Some (ss, l @ [c], map_option (\<lambda>k. drop k (p @ [c])) (ext_pos p))"
        using IH(1) x by (simp add: path_run_append)
      then show ?thesis using 3 IH by (auto simp: ext_pos_from_snoc hd_append le_Suc_eq)
    qed
  qed
qed

lemma path_spec_plain:
  assumes "plain_path p" "p \<noteq> []" "hd p = 0x2f" "uri_decode raw = Some ([], tail)"
  shows "path_spec m ([], [], None) (p @ raw) =
    Some (p, map_option (\<lambda>k. drop k p) (ext_pos p), map_option (takeWhile (\<lambda>c. c \<noteq> 0x23)) tail)"
proof -
  obtain ss l where run: "path_run m ([], [], None) p = Some (ss, l, map_option (\<lambda>k. drop k p) (ext_pos p))"
      "path_dir ss @ l = p" "l \<noteq> [] \<longrightarrow> hd l \<noteq> 0x2e"
    using plain_run [OF assms(1-3), of m] by blast
  have "uri_decode (p @ raw) = Some (p, tail)"
    using uri_decode_plain [of p raw] plain_path_chars [OF assms(1)] assms(4) by simp
  then show ?thesis using run by (auto simp: path_spec_def)
qed

section \<open>The URI of an accepted request\<close>

text \<open>
  The specification of the whole: an absolute URI without path stands for the path \<open>/\<close>.
\<close>

definition uri_spec ::
  "bool \<Rightarrow> byte list \<Rightarrow> (byte list \<times> byte list option \<times> byte list option) option" where
  "uri_spec merge raw =
     path_spec merge (if raw \<noteq> [] \<and> hd raw = c8 CHR ''?'' then [[]] else [], [], None) raw"

definition uri_result ::
  "(byte list \<times> byte list option \<times> byte list option) option \<Rightarrow> byte list \<Rightarrow>
   (ngx_rc \<times> ngx_http_request) option \<Rightarrow> bool" where
  "uri_result spec raw res \<longleftrightarrow>
     (case spec of
        None \<Rightarrow> \<exists>r. res = Some (NGX_ERROR, r)
      | Some (u, x, a) \<Rightarrow> \<exists>r. res = Some (NGX_OK, r) \<and> uri r = u \<and> exten r = (case x of None \<Rightarrow> [] | Some x \<Rightarrow> x) \<and>
          args r = (case a of None \<Rightarrow> [] | Some a \<Rightarrow> a) \<and> unparsed_uri r = raw)"

lemma process_fast_path:
  assumes "uri_start r = Some u" "uri_end r = Some e" "u < e" "e \<le> length mem" "uri_shape mem u e r"
    "\<not> (complex_uri r \<or> quoted_uri r \<or> empty_path_in_uri r)" "args r = []" "exten r = []"
  shows "uri_result (uri_spec m (byte_range u e mem)) (byte_range u e mem)
    (ngx_http_process_request_uri alloc mem r m)"
proof -
  have slash: "mem ! u = 0x2f" using assms(5,6) by (auto simp: uri_shape_def)
  have hd: "hd (byte_range u k mem) = 0x2f \<and> byte_range u k mem \<noteq> []" if "u < k" "k \<le> e" for k
    using that slash assms(4) by (simp add: byte_range_Cons)
  have ext: "drop k (byte_range u j mem) = byte_range (u + k) j mem" for k j
    by (simp add: byte_range_def drop_take add.commute)
  show ?thesis
  proof (cases "args_start r")
    case None
    then have p: "plain_path (byte_range u e mem)" "uri_ext r = map_option (\<lambda>x. u + x) (ext_pos (byte_range u e mem))"
      using assms(5,6) by (auto simp: uri_shape_def)
    then show ?thesis
      using assms None path_spec_plain [OF p(1), of "[]" None m] hd [OF assms(3)]
      by (cases "ext_pos (byte_range u e mem)")
        (auto simp: uri_result_def uri_spec_def ngx_http_process_request_uri_def Let_def ext)
  next
    case (Some a)
    obtain b where a: "a = Suc b" using Some assms(5,6) by (cases a) (auto simp: uri_shape_def)
    have p: "plain_path (byte_range u b mem)" "u < b" "b < e" "mem ! b = 0x3f"
        "0x23 \<notin> set (byte_range (Suc b) e mem)"
        "uri_ext r = map_option (\<lambda>x. u + x) (ext_pos (byte_range u b mem))"
      using Some assms(5,6) by (auto simp: uri_shape_def a)
    let ?args = "byte_range (Suc b) e mem" and ?path = "byte_range u b mem"
    have raw: "byte_range u e mem = ?path @ 0x3f # ?args"
      using byte_range_append [of u b e mem] byte_range_Cons [of b e mem] p assms(4) by simp
    have tw: "takeWhile (\<lambda>c. c \<noteq> 0x23) ?args = ?args"
      using p(5) by (auto simp: takeWhile_eq_all_conv)
    have "hd (byte_range u e mem) \<noteq> 0x3f" using hd [OF assms(3)] by simp
    moreover have "path_spec m ([], [], None) (?path @ 0x3f # ?args) =
        Some (?path, map_option (\<lambda>k. drop k ?path) (ext_pos ?path), Some ?args)"
      using path_spec_plain [OF p(1), of "0x3f # ?args" "Some ?args" m] hd [OF p(2)] p(3) tw by simp
    ultimately have spec: "uri_spec m (byte_range u e mem) =
        Some (?path, map_option (\<lambda>k. drop k ?path) (ext_pos ?path), Some ?args)"
      unfolding uri_spec_def by (simp add: raw)
    have nil: "\<not> Suc b < e \<Longrightarrow> ?args = []" by (simp add: byte_range_def)
    have "u + (b - u) = b" using p(2) by simp
    then show ?thesis
      using assms(1,2,6,7,8) Some p(6) nil unfolding spec
      by (cases "ext_pos ?path")
        (auto simp: uri_result_def ngx_http_process_request_uri_def Let_def ext a)
  qed
qed

lemma cu_init_sel:
  "cu_state (cu_init mem r) = CU_usual" "cu_ch (cu_init mem r) = mem ! the (uri_start r)"
  "cu_out (cu_init mem r) = (if empty_path_in_uri r then [0x2f] else [])"
  "cu_req (cu_init mem r) = r\<lparr>uri_ext := None, args_start := None\<rparr>"
  by (simp_all add: cu_init_def cu_put_def Let_def)

text \<open>The absolute URI without a path: the slash is written first, then come the arguments.\<close>

lemma complex_empty_path:
  assumes "uri_start r = Some u" "uri_end r = Some e" "u < e" "e < length mem" "mem ! u = 0x3f"
    "empty_path_in_uri r" "args r = []" "exten r = []" "1 \<le> cap"
  shows "\<exists>f. ngx_http_parse_complex_uri mem r cap m = Some f \<and>
    cu_meets True mem e (uri_spec m (byte_range u e mem)) f"
proof -
  let ?s = "cu_init mem r"
  have "cu_step m mem (Suc u) ?s =
      Stop (CU_args, Suc u, ?s\<lparr>cu_req := (cu_req ?s)\<lparr>args_start := Some (Suc u)\<rparr>\<rparr>)"
    using assms(1,5) by (simp add: cu_step_defs cu_init_sel byte_simps)
  then have loop: "cu_loop m mem e cap (Suc u) ?s =
      Some (Stop (CU_args, Suc u, ?s\<lparr>cu_req := (cu_req ?s)\<lparr>args_start := Some (Suc u)\<rparr>\<rparr>))"
    using assms(3) by (intro cu_loop_Stop) auto
  have clear: "cu_clear ?s" using assms(7,8) by (simp add: cu_clear_def cu_init_sel)
  have raw: "byte_range u e mem = 0x3f # byte_range (Suc u) e mem"
    using assms(3,4,5) by (simp add: byte_range_Cons)
  have spec: "uri_spec m (byte_range u e mem) =
      Some (path_dir [[]] @ [], None, Some (takeWhile (\<lambda>c. c \<noteq> 0x23) (byte_range (Suc u) e mem)))"
    by (simp add: uri_spec_def raw path_spec_question)
  have "cu_meets (empty_path_in_uri (cu_req ?s)) mem e (uri_spec m (byte_range u e mem))
      (NGX_OK, cu_args mem e (Suc u) (?s\<lparr>cu_req := (cu_req ?s)\<lparr>args_start := Some (Suc u)\<rparr>\<rparr>))"
    unfolding spec by (rule cu_meets_args [OF clear]) (use assms(4,6) in \<open>simp_all add: cu_init_sel path_dir_def\<close>)
  then show ?thesis
    using loop assms(1,2,6,9)
    by (simp add: ngx_http_parse_complex_uri_def Let_def cu_init_sel del: cu_meets.simps)
qed

lemma complex_with_path:
  assumes "uri_start r = Some u" "uri_end r = Some e" "u < lim" "e < length mem" "mem ! u = 0x2f"
    "\<not> empty_path_in_uri r" "args r = []" "exten r = []" "lim_ok mem u e lim"
  shows "\<exists>f. ngx_http_parse_complex_uri mem r (lim - u) m = Some f \<and>
    cu_meets False mem e (uri_spec m (byte_range u e mem)) f"
proof -
  let ?s = "cu_init mem r"
  have le: "u < e" using assms(3,9) by (auto simp: lim_ok_def)
  define s' where "s' = ?s\<lparr>cu_state := CU_slash, cu_req := (cu_req ?s)\<lparr>uri_ext := None\<rparr>,
    cu_out := [0x2f], cu_ch := mem ! Suc u\<rparr>"
  have "cu_step m mem (Suc u) ?s = Go (Suc (Suc u), s')"
    using assms(1,5,6) by (simp add: cu_step_defs cu_init_sel byte_simps s'_def)
  then have loop: "cu_loop m mem e (lim - u) (Suc u) ?s = cu_loop m mem e (lim - u) (Suc (Suc u)) s'"
    using le assms(3) by (intro cu_loop_Go) (auto simp: s'_def)
  have "cu_at mem u e lim ([[]], [], None) (Suc u) s'"
    using assms by (auto simp: cu_at_def cu_clear_def s'_def cu_init_sel path_dir_def seg_state_def)
  from cu_reaches_spec [OF this, of m] obtain f
    where f: "cu_loop m mem e (lim - u) (Suc (Suc u)) s' = Some f"
      "cu_meets False mem e (path_spec m ([[]], [], None) (byte_range (Suc u) e mem)) (cu_result mem e f)"
    using assms(6) by (auto simp: cu_reaches_def s'_def cu_init_sel)
  have raw: "byte_range u e mem = 0x2f # byte_range (Suc u) e mem"
    using le assms(4,5) by (simp add: byte_range_Cons)
  have "path_char 0x2f" by (simp add: path_char_def)
  then have spec: "uri_spec m (byte_range u e mem) = path_spec m ([[]], [], None) (byte_range (Suc u) e mem)"
    by (simp add: uri_spec_def raw path_spec_char path_close_def)
  have "ngx_http_parse_complex_uri mem r (lim - u) m = Some (cu_result mem e f)"
    using loop f(1) assms(1,2,6)
    by (auto simp: ngx_http_parse_complex_uri_def Let_def cu_init_sel cu_result_def
        split: flow.splits cu_exit.splits prod.splits)
  then show ?thesis using f(2) spec by auto
qed

text \<open>\<open>ngx_http_process_request_uri\<close> passes on what the complex parser found.\<close>

lemma process_complex:
  assumes "uri_start r = Some u" "uri_end r = Some e" "complex_uri r \<or> quoted_uri r \<or> empty_path_in_uri r"
    "ngx_http_parse_complex_uri mem r
       ((case args_start r of Some a \<Rightarrow> a - 1 - u | None \<Rightarrow> e - u) + (if empty_path_in_uri r then 1 else 0)) m = Some f"
    "cu_meets ep mem e spec f"
  shows "uri_result spec (byte_range u e mem) (ngx_http_process_request_uri True mem r m)"
proof -
  obtain rc r' where f: "f = (rc, r')" by (cases f)
  have len: "(if empty_path_in_uri r then n + 1 else n) = n + (if empty_path_in_uri r then 1 else 0)" for n :: nat
    by simp
  show ?thesis
  proof (cases spec)
    case None
    then show ?thesis
      using assms f by (simp add: uri_result_def ngx_http_process_request_uri_def Let_def len)
  next
    case (Some sp)
    then show ?thesis
      using assms f
      by (cases sp) (auto simp: uri_result_def ngx_http_process_request_uri_def Let_def len final_args_def
          split: option.splits)
  qed
qed

lemma process_uri_closed:
  assumes "uri_closed mem p r" "p < length mem" "args r = []" "exten r = []"
  shows "uri_result (uri_spec m (byte_range (the (uri_start r)) (the (uri_end r)) mem))
    (byte_range (the (uri_start r)) (the (uri_end r)) mem) (ngx_http_process_request_uri True mem r m)"
proof -
  obtain u e where ue: "uri_start r = Some u" "uri_end r = Some e" "u < e" "e < length mem"
      and shape: "uri_shape mem u e r"
    using assms(1,2) by (auto simp: uri_closed_def)
  let ?lim = "case args_start r of Some a \<Rightarrow> a - 1 | None \<Rightarrow> e"
  have cap: "(case args_start r of Some a \<Rightarrow> a - 1 - u | None \<Rightarrow> e - u) = ?lim - u"
    by (simp split: option.splits)
  consider "\<not> (complex_uri r \<or> quoted_uri r \<or> empty_path_in_uri r)" | "empty_path_in_uri r"
    | "complex_uri r \<or> quoted_uri r" "\<not> empty_path_in_uri r"
    by blast
  then show ?thesis
  proof cases
    case 1
    then show ?thesis using process_fast_path [OF ue(1-3) _ shape] assms ue by simp
  next
    case 2
    then have "mem ! u = 0x3f" "args_start r = Some (u + 1)" using shape by (auto simp: uri_shape_def)
    then show ?thesis
      using 2 ue assms(3,4) complex_empty_path [OF ue, of "?lim - u + 1" m] process_complex [OF ue(1,2), of mem m]
      by (auto simp: cap simp del: cu_meets.simps)
  next
    case 3
    then have slash: "mem ! u = 0x2f" using shape by (auto simp: uri_shape_def)
    have "lim_ok mem u e ?lim \<and> u < ?lim"
    proof (cases "args_start r")
      case None
      then show ?thesis using ue by (simp add: lim_ok_def)
    next
      case (Some a)
      then have a: "u < a" "a \<le> e" "mem ! (a - 1) = 0x3f" "plain_path (byte_range u (a - 1) mem)"
        using shape by (auto simp: uri_shape_def)
      have "u < a - 1" using a(1,3) slash by (cases "u = a - 1") auto
      moreover have "bytes_all (\<lambda>c. c \<noteq> 0x25) u (a - 1) mem"
        using plain_path_chars [OF a(4)] a(2) ue(4) by (auto simp: bytes_all_byte_range path_char_def)
      ultimately show ?thesis using Some a by (auto simp: lim_ok_def)
    qed
    then show ?thesis
      using 3 slash ue assms(3,4) complex_with_path [OF ue(1,2) _ ue(4), of ?lim m]
        process_complex [OF ue(1,2), of mem m]
      by (auto simp: cap simp del: cu_meets.simps)
  qed
qed

section \<open>Normal paths\<close>

text \<open>The segments of a path: what stands between its slashes.\<close>

fun segments :: "byte list \<Rightarrow> byte list list" where
  "segments [] = [[]]"
| "segments (c # cs) =
     (if c = c8 CHR ''/'' then [] # segments cs
      else (case segments cs of s # ss \<Rightarrow> (c # s) # ss | [] \<Rightarrow> [[c]]))"

definition normal_path :: "bool \<Rightarrow> byte list \<Rightarrow> bool" where
  "normal_path merge p \<longleftrightarrow>
     p \<noteq> [] \<and> hd p = c8 CHR ''/'' \<and>
     (\<forall>s\<in>set (segments p). s \<noteq> dot \<and> s \<noteq> dot_dot) \<and>
     (merge \<longrightarrow> [] \<notin> set (butlast (tl (segments p))))"

lemma segments_cut: "0x2f \<notin> set s \<Longrightarrow> segments (s @ 0x2f # rest) = s # segments rest"
  by (induction s) auto

lemma segments_flat: "0x2f \<notin> set s \<Longrightarrow> segments s = [s]"
  by (induction s) auto

lemma segments_path_dir:
  assumes "\<forall>s\<in>set ss. 0x2f \<notin> set s" "0x2f \<notin> set l"
  shows "segments (path_dir ss @ l) = ss @ [l]"
  using assms by (induction ss) (auto simp: path_dir_def segments_flat segments_cut)

text \<open>The closed segments of a path that starts with a slash.\<close>

fun path_ok :: "bool \<Rightarrow> path \<Rightarrow> bool" where
  "path_ok m (ss, l, x) \<longleftrightarrow>
     ss \<noteq> [] \<and> hd ss = [] \<and>
     (\<forall>s\<in>set (tl ss). s \<noteq> dot \<and> s \<noteq> dot_dot \<and> (m \<longrightarrow> s \<noteq> [])) \<and>
     (\<forall>s\<in>set ss. 0x2f \<notin> set s \<and> 0 \<notin> set s) \<and> 0x2f \<notin> set l \<and> 0 \<notin> set l"

lemma tl_butlast_subset: "set (tl (butlast ss)) \<subseteq> set (tl ss)"
  by (cases ss) (auto dest: in_set_butlastD)

lemma hd_butlast: "Suc 0 < length ss \<Longrightarrow> butlast ss \<noteq> [] \<and> hd (butlast ss) = hd ss"
  by (cases ss rule: rev_cases) auto

lemma path_push_ok:
  assumes "path_ok m a" "c \<noteq> 0" "path_push m a c = Some a'"
  shows "path_ok m a'"
proof -
  obtain ss l x where a: "a = (ss, l, x)" by (cases a)
  have "\<forall>s\<in>set (butlast ss). 0x2f \<notin> set s \<and> 0 \<notin> set s"
    "\<forall>s\<in>set (tl (butlast ss)). s \<noteq> dot \<and> s \<noteq> dot_dot \<and> (m \<longrightarrow> s \<noteq> [])"
    using assms(1) tl_butlast_subset [of ss] by (auto simp: a dest: in_set_butlastD)
  then show ?thesis
    using assms hd_butlast [of ss] by (auto simp: a path_close_def split: if_splits)
qed

lemma path_run_ok:
  "path_ok m a \<Longrightarrow> 0 \<notin> set cs \<Longrightarrow> path_run m a cs = Some a' \<Longrightarrow> path_ok m a'"
proof (induction cs arbitrary: a)
  case (Cons c cs)
  then obtain a1 where a1: "path_push m a c = Some a1" "path_run m a1 cs = Some a'"
    by (cases "path_push m a c") auto
  have "path_ok m a1" using path_push_ok [OF Cons.prems(1) _ a1(1)] Cons.prems(2) by simp
  then show ?case using Cons.IH a1(2) Cons.prems(2) by simp
qed simp

lemma uri_decode_nonzero:
  "uri_decode raw = Some (bs, tail) \<Longrightarrow> 0 \<notin> set raw \<Longrightarrow> 0 \<notin> set bs"
proof (induction raw arbitrary: bs rule: uri_decode.induct)
  case (2 c cs)
  consider "c = 0x3f \<or> c = 0x23" | "path_char c" | "c = 0x25" by (auto simp: path_char_def)
  then show ?case
  proof cases
    case 1
    then show ?thesis using 2 by auto
  next
    case 2
    then show ?thesis using "2.IH"(2) "2.prems" by (cases "uri_decode cs") (auto simp: path_char_def)
  next
    case 3
    then show ?thesis
      using 2 by (cases cs; cases "tl cs") (auto split: if_splits)
  qed
qed simp

lemma path_finish_normal:
  assumes "path_ok m a" "path_finish a = Some (ss, l, x)"
  shows "normal_path m (path_dir ss @ l) \<and> 0 \<notin> set (path_dir ss @ l)"
proof -
  obtain ss' l' x' where a: "a = (ss', l', x')" by (cases a)
  have "path_ok m (ss, l, x) \<and> l \<noteq> dot \<and> l \<noteq> dot_dot"
    using assms hd_butlast [of ss'] tl_butlast_subset [of ss']
    by (auto simp: a split: if_splits dest: in_set_butlastD)
  then have ok: "ss \<noteq> []" "hd ss = []" "\<forall>s\<in>set (tl ss). s \<noteq> dot \<and> s \<noteq> dot_dot \<and> (m \<longrightarrow> s \<noteq> [])"
      "\<forall>s\<in>set ss. 0x2f \<notin> set s \<and> 0 \<notin> set s" "0x2f \<notin> set l" "0 \<notin> set l" "l \<noteq> dot" "l \<noteq> dot_dot"
    by auto
  obtain ts where ss: "ss = [] # ts" using ok(1,2) by (cases ss) auto
  have "segments (path_dir ss @ l) = ss @ [l]" using ok by (intro segments_path_dir) auto
  moreover have "0 \<notin> set (path_dir ss @ l)" using ok by (auto simp: path_dir_def)
  moreover have "hd (path_dir ss @ l) = 0x2f \<and> path_dir ss @ l \<noteq> []" by (simp add: ss path_dir_def)
  ultimately show ?thesis using ok by (auto simp: normal_path_def ss butlast_append)
qed

lemma uri_spec_normal:
  assumes "uri_spec m raw = Some (u, x, a)" "raw \<noteq> []" "hd raw = 0x2f \<or> hd raw = 0x3f" "0 \<notin> set raw"
  shows "normal_path m u \<and> 0 \<notin> set u"
proof -
  obtain c cs where raw: "raw = c # cs" using assms(2) by (cases raw) auto
  let ?start = "([[]], [], None) :: path" and ?rest = "if c = 0x2f then cs else raw"
  have "path_char 0x2f" by (simp add: path_char_def)
  then have "uri_spec m raw = path_spec m ?start ?rest"
    using assms(3) by (auto simp: uri_spec_def raw path_spec_char path_close_def)
  then obtain bs tail st ss l where d: "uri_decode ?rest = Some (bs, tail)" "path_run m ?start bs = Some st"
      "path_finish st = Some (ss, l, x)" "u = path_dir ss @ l"
    using assms(1) by (auto simp: path_spec_def split: option.splits)
  have "0 \<notin> set bs" using uri_decode_nonzero [OF d(1)] assms(4) by (auto simp: raw)
  then have "path_ok m st" using path_run_ok [OF _ _ d(2)] by simp
  then show ?thesis using path_finish_normal d(3,4) by blast
qed

section \<open>Checked URIs\<close>















section \<open>Properties\<close>

text \<open>
  C8. The URI of every accepted request line is processed as specified: decoding, normalisation,
  extension and arguments are those of \<open>uri_spec\<close> on the raw bytes, whether the flags left by
  the request-line parser choose the raw bytes or the complex parser; in the latter case no byte
  is written behind the buffer allocated for it and the loop ends. Where the specification has no
  result (a broken or null \<open>%xx\<close>, or \<open>..\<close> above the root) the request is rejected.
\<close>

theorem process_request_uri_spec:
  assumes "rl_ready (buf_mem b) (buf_pos b) r" "buf_last b \<le> length (buf_mem b)"
    "ngx_http_parse_request_line r b = (NGX_OK, r', b')" "args r' = []" "exten r' = []"
  shows "let raw = byte_range (the (uri_start r')) (the (uri_end r')) (buf_mem b);
             res = ngx_http_process_request_uri True (buf_mem b) r' merge_slashes
         in case uri_spec merge_slashes raw of
              None \<Rightarrow> \<exists>r''. res = Some (NGX_ERROR, r'')
            | Some (u, x, a) \<Rightarrow> \<exists>r''. res = Some (NGX_OK, r'') \<and> uri r'' = u \<and>
                exten r'' = (case x of None \<Rightarrow> [] | Some x \<Rightarrow> x) \<and>
                args r'' = (case a of None \<Rightarrow> [] | Some a \<Rightarrow> a) \<and> unparsed_uri r'' = raw"
proof -
  obtain q where q: "q < buf_last b" and lr: "line_read (buf_mem b) q r'"
      "http_version r' = http_major r' * 1000 + http_minor r'"
      "http_version r' = 9 \<Longrightarrow> method r' = NGX_HTTP_GET"
    using rl_ok [OF assms(1-3)] by metis
  have "q < length (buf_mem b)" using q assms(2) by simp
  from process_uri_closed [OF line_read_uri [OF lr] this assms(4,5), of merge_slashes]
  show ?thesis by (simp add: uri_result_def Let_def)
qed

text \<open>
  C9. No path traversal: the URI under which an accepted request is served starts with a slash,
  has no segment \<open>.\<close> or \<open>..\<close>, no null byte, and with \<open>merge_slashes\<close> no empty segment inside.
\<close>

theorem request_uri_normal:
  assumes "rl_ready (buf_mem b) (buf_pos b) r" "buf_last b \<le> length (buf_mem b)"
    "ngx_http_parse_request_line r b = (NGX_OK, r', b')" "args r' = []" "exten r' = []"
    "ngx_http_process_request_uri True (buf_mem b) r' merge_slashes = Some (NGX_OK, r'')"
  shows "normal_path merge_slashes (uri r'') \<and> 0 \<notin> set (uri r'')"
proof -
  obtain q where q: "q < buf_last b" and lr: "line_read (buf_mem b) q r'"
      "http_version r' = http_major r' * 1000 + http_minor r'"
      "http_version r' = 9 \<Longrightarrow> method r' = NGX_HTTP_GET"
    using rl_ok [OF assms(1-3)] by metis
  have len: "q < length (buf_mem b)" using q assms(2) by simp
  note closed = line_read_uri [OF lr]
  obtain u e where ue: "uri_start r' = Some u" "uri_end r' = Some e" "u < e" "e \<le> length (buf_mem b)"
      "uri_bytes (buf_mem b) u e" "uri_shape (buf_mem b) u e r'"
    using closed len by (auto simp: uri_closed_def)
  let ?raw = "byte_range u e (buf_mem b)"
  obtain x a where spec: "uri_spec merge_slashes ?raw = Some (uri r'', x, a)"
    using process_uri_closed [OF closed len assms(4,5), of merge_slashes] assms(6) ue(1,2)
    by (auto simp: uri_result_def split: option.splits)
  have "?raw \<noteq> []" "hd ?raw = 0x2f \<or> hd ?raw = 0x3f"
    using ue by (auto simp: byte_range_Cons uri_shape_def)
  moreover have "0 \<notin> set ?raw" using ue(5) by (force simp: uri_bytes_def uri_byte_def)
  ultimately show ?thesis by (intro uri_spec_normal [OF spec])
qed


section \<open>A concrete request\<close>

definition uri_example :: ngx_buf where
  "uri_example =
     \<lparr>buf_mem = str8 ''GET /a/../%62 HTTP/1.0'' @ [CR, LF], buf_pos = 0, buf_last = 24\<rparr>"

definition uri_example_read :: ngx_http_request where
  "uri_example_read = fresh_request\<lparr>method := NGX_HTTP_GET, http_version := 1000,
     uri_start := Some 4, uri_end := Some 13, complex_uri := True, http_protocol_data := Some 14,
     request_start := Some 0, request_end := Some 22, method_end := Some 2,
     http_minor := 0, http_major := 1\<rparr>"

lemma uri_example_ok:
  "ngx_http_parse_request_line fresh_request uri_example =
     (NGX_OK, uri_example_read, uri_example\<lparr>buf_pos := 24\<rparr>)"
  by (simp add: uri_example_def uri_example_read_def rl_eval)

lemma uri_example_bounds: "buf_last uri_example \<le> length (buf_mem uri_example)"
  by (simp add: uri_example_def)

lemma uri_example_clear: "args uri_example_read = []" "exten uri_example_read = []"
  by (simp_all add: uri_example_read_def fresh_request_def)

lemma uri_example_raw:
  "byte_range (the (uri_start uri_example_read)) (the (uri_end uri_example_read)) (buf_mem uri_example) =
     str8 ''/a/../%62''"
  by (simp add: uri_example_read_def uri_example_def byte_range_def)

lemma uri_example_spec: "uri_spec True (str8 ''/a/../%62'') = Some (str8 ''/b'', None, None)"
  by (simp add: uri_spec_def path_spec_def hex_digit_def hex_pair_def hex_val_def is_digit_def
      is_hex_alpha_def lower_def path_close_def path_dir_def)

theorem process_request_uri_spec_witness:
  "\<exists>r. ngx_http_process_request_uri True (buf_mem uri_example) uri_example_read True = Some (NGX_OK, r) \<and>
     uri r = str8 ''/b'' \<and> args r = [] \<and> exten r = [] \<and> unparsed_uri r = str8 ''/a/../%62''"
  using process_request_uri_spec [OF rl_ready_fresh uri_example_bounds uri_example_ok uri_example_clear,
      of True]
  unfolding uri_example_raw uri_example_spec Let_def by auto

lemma uri_example_processed:
  "\<exists>r. ngx_http_process_request_uri True (buf_mem uri_example) uri_example_read True = Some (NGX_OK, r) \<and>
     uri r = str8 ''/b''"
proof -
  have "uri_closed (buf_mem uri_example) 23 uri_example_read"
    by (simp add: uri_closed_def uri_example_read_def uri_example_def uri_shape_def uri_bytes_def
        fresh_request_def byte_range_def uri_byte_def)
  from process_uri_closed [OF this _ uri_example_clear, of True] show ?thesis
    unfolding uri_example_raw uri_example_spec by (auto simp: uri_result_def uri_example_def)
qed

theorem request_uri_normal_witness: "normal_path True (str8 ''/b'')"
proof -
  obtain r where r: "ngx_http_process_request_uri True (buf_mem uri_example) uri_example_read True =
      Some (NGX_OK, r)" "uri r = str8 ''/b''"
    using uri_example_processed by blast
  show ?thesis
    using request_uri_normal [OF rl_ready_fresh uri_example_bounds uri_example_ok uri_example_clear r(1)] r(2)
    by simp
qed




end
