(* ===== verification/Ngx_Http_Chunked.thy ===== *)
theory Ngx_Http_Chunked
  imports Ngx_Http_Types
begin

text \<open>
  Chunked request bodies: \<open>ngx_http_parse_chunked\<close> of \<open>src/http/ngx_http_parse.c\<close> and its
  caller \<open>ngx_http_discard_request_body_filter\<close> of \<open>src/http/ngx_http_request_body.c\<close>.

  \<open>off_t\<close> is a signed 64-bit integer; it is an \<open>int\<close> here, and that no value leaves the range is
  part of the invariant (\<open>ck_inv\<close>, in the proofs). The parser stops at the first byte of a chunk's
  data; its caller takes the data and counts \<open>ctx->size\<close> down.
\<close>

datatype ck_state =
    CK_chunk_start | CK_chunk_size | CK_chunk_extension | CK_chunk_extension_almost_done
  | CK_chunk_data | CK_after_data | CK_after_data_almost_done
  | CK_last_chunk_extension | CK_last_chunk_extension_almost_done
  | CK_trailer | CK_trailer_almost_done | CK_trailer_header | CK_trailer_header_almost_done

definition ck_states :: "ck_state list" where
  "ck_states =
     [CK_chunk_start, CK_chunk_size, CK_chunk_extension, CK_chunk_extension_almost_done,
      CK_chunk_data, CK_after_data, CK_after_data_almost_done,
      CK_last_chunk_extension, CK_last_chunk_extension_almost_done,
      CK_trailer, CK_trailer_almost_done, CK_trailer_header, CK_trailer_header_almost_done]"

definition ck_decode :: "nat \<Rightarrow> ck_state option" where
  "ck_decode n = (if n < length ck_states then Some (ck_states ! n) else None)"

primrec ck_encode :: "ck_state \<Rightarrow> nat" where
  "ck_encode CK_chunk_start = 0"
| "ck_encode CK_chunk_size = 1"
| "ck_encode CK_chunk_extension = 2"
| "ck_encode CK_chunk_extension_almost_done = 3"
| "ck_encode CK_chunk_data = 4"
| "ck_encode CK_after_data = 5"
| "ck_encode CK_after_data_almost_done = 6"
| "ck_encode CK_last_chunk_extension = 7"
| "ck_encode CK_last_chunk_extension_almost_done = 8"
| "ck_encode CK_trailer = 9"
| "ck_encode CK_trailer_almost_done = 10"
| "ck_encode CK_trailer_header = 11"
| "ck_encode CK_trailer_header_almost_done = 12"

lemma ck_decode_encode [simp]: "ck_decode (ck_encode st) = Some st"
  by (cases st) (simp_all add: ck_decode_def ck_states_def)

record ngx_http_chunked =
  ck_state :: nat
  ck_size :: int
  ck_length :: int

abbreviation (input) NGX_MAX_OFF_T_VALUE :: int where "NGX_MAX_OFF_T_VALUE \<equiv> 9223372036854775807"

text \<open>How the loop is left: the labels \<open>data\<close> (with \<open>rc = NGX_OK\<close>), \<open>done\<close> and \<open>invalid\<close>.\<close>

datatype ck_exit = CK_goto_data | CK_goto_done | CK_goto_invalid

type_synonym ck_flow = "(ck_state \<times> int, ck_exit \<times> ck_state \<times> int) flow"

definition ck_sw_chunk_start :: "byte \<Rightarrow> int \<Rightarrow> ck_flow" where
  "ck_sw_chunk_start ch sz =
     (if is_digit ch then Go (CK_chunk_size, int (digit_val ch))
      else if is_hex_alpha ch then Go (CK_chunk_size, int (hex_alpha_val ch))
      else Stop (CK_goto_invalid, CK_chunk_start, sz))"

definition ck_sw_chunk_size :: "byte \<Rightarrow> int \<Rightarrow> ck_flow" where
  "ck_sw_chunk_size ch sz =
     (if sz > NGX_MAX_OFF_T_VALUE div 16 then Stop (CK_goto_invalid, CK_chunk_size, sz)
      else if is_digit ch then Go (CK_chunk_size, sz * 16 + int (digit_val ch))
      else if is_hex_alpha ch then Go (CK_chunk_size, sz * 16 + int (hex_alpha_val ch))
      else if sz = 0 then
        (if ch = CR then Go (CK_last_chunk_extension_almost_done, sz)
         else if ch = c8 CHR '';'' \<or> ch = c8 CHR '' '' \<or> ch = 9 then Go (CK_last_chunk_extension, sz)
         else Stop (CK_goto_invalid, CK_chunk_size, sz))
      else if ch = CR then Go (CK_chunk_extension_almost_done, sz)
      else if ch = c8 CHR '';'' \<or> ch = c8 CHR '' '' \<or> ch = 9 then Go (CK_chunk_extension, sz)
      else Stop (CK_goto_invalid, CK_chunk_size, sz))"

definition ck_sw_chunk_extension :: "byte \<Rightarrow> int \<Rightarrow> ck_flow" where
  "ck_sw_chunk_extension ch sz =
     (if ch = CR then Go (CK_chunk_extension_almost_done, sz)
      else if ch = LF then Stop (CK_goto_invalid, CK_chunk_extension, sz)
      else Go (CK_chunk_extension, sz))"

definition ck_sw_last_chunk_extension :: "byte \<Rightarrow> int \<Rightarrow> ck_flow" where
  "ck_sw_last_chunk_extension ch sz =
     (if ch = CR then Go (CK_last_chunk_extension_almost_done, sz)
      else if ch = LF then Stop (CK_goto_invalid, CK_last_chunk_extension, sz)
      else Go (CK_last_chunk_extension, sz))"

definition ck_sw_last_chunk_extension_almost_done :: "bool \<Rightarrow> byte \<Rightarrow> int \<Rightarrow> ck_flow" where
  "ck_sw_last_chunk_extension_almost_done keep_trailers ch sz =
     (if ch = LF then
        (if keep_trailers then Stop (CK_goto_done, CK_last_chunk_extension_almost_done, sz)
         else Go (CK_trailer, sz))
      else Stop (CK_goto_invalid, CK_last_chunk_extension_almost_done, sz))"

definition ck_sw_trailer :: "byte \<Rightarrow> int \<Rightarrow> ck_flow" where
  "ck_sw_trailer ch sz =
     (if ch = CR then Go (CK_trailer_almost_done, sz)
      else if ch = LF then Stop (CK_goto_invalid, CK_trailer, sz)
      else Go (CK_trailer_header, sz))"

definition ck_sw_trailer_header :: "byte \<Rightarrow> int \<Rightarrow> ck_flow" where
  "ck_sw_trailer_header ch sz =
     (if ch = CR then Go (CK_trailer_header_almost_done, sz)
      else if ch = LF then Stop (CK_goto_invalid, CK_trailer_header, sz)
      else Go (CK_trailer_header, sz))"

text \<open>The states that expect one byte: \<open>if (ch == c) { state = st; break; } goto invalid;\<close>.\<close>

definition ck_expect :: "byte \<Rightarrow> byte \<Rightarrow> ck_state \<Rightarrow> ck_state \<Rightarrow> int \<Rightarrow> ck_flow" where
  "ck_expect ch c st st' sz =
     (if ch = c then Go (st', sz) else Stop (CK_goto_invalid, st, sz))"

fun ck_step :: "bool \<Rightarrow> byte \<Rightarrow> ck_state \<times> int \<Rightarrow> ck_flow" where
  "ck_step keep_trailers ch (st, sz) =
     (case st of
        CK_chunk_start \<Rightarrow> ck_sw_chunk_start ch sz
      | CK_chunk_size \<Rightarrow> ck_sw_chunk_size ch sz
      | CK_chunk_extension \<Rightarrow> ck_sw_chunk_extension ch sz
      | CK_chunk_extension_almost_done \<Rightarrow> ck_expect ch LF CK_chunk_extension_almost_done CK_chunk_data sz
      | CK_chunk_data \<Rightarrow> Stop (CK_goto_data, CK_chunk_data, sz)
      | CK_after_data \<Rightarrow> ck_expect ch CR CK_after_data CK_after_data_almost_done sz
      | CK_after_data_almost_done \<Rightarrow> ck_expect ch LF CK_after_data_almost_done CK_chunk_start sz
      | CK_last_chunk_extension \<Rightarrow> ck_sw_last_chunk_extension ch sz
      | CK_last_chunk_extension_almost_done \<Rightarrow>
          ck_sw_last_chunk_extension_almost_done keep_trailers ch sz
      | CK_trailer \<Rightarrow> ck_sw_trailer ch sz
      | CK_trailer_almost_done \<Rightarrow>
          (if ch = LF then Stop (CK_goto_done, CK_trailer_almost_done, sz)
           else Stop (CK_goto_invalid, CK_trailer_almost_done, sz))
      | CK_trailer_header \<Rightarrow> ck_sw_trailer_header ch sz
      | CK_trailer_header_almost_done \<Rightarrow>
          ck_expect ch LF CK_trailer_header_almost_done CK_trailer sz)"

declare ck_step.simps [simp del]

text \<open>The loop: at each \<open>pos\<close> one step; the exits carry the position.\<close>

function ck_scan ::
  "bool \<Rightarrow> byte list \<Rightarrow> nat \<Rightarrow> nat \<Rightarrow> ck_state \<times> int \<Rightarrow> (ck_state \<times> int \<times> nat, ck_exit \<times> ck_state \<times> int \<times> nat) flow"
where
  "ck_scan keep_trailers mem pos e s =
     (if pos < e then
        (case ck_step keep_trailers (mem ! pos) s of
           Go s' \<Rightarrow> ck_scan keep_trailers mem (pos + 1) e s'
         | Stop (x, st, sz) \<Rightarrow> Stop (x, st, sz, pos))
      else Go (fst s, snd s, pos))"
  by pat_completeness auto
termination
  by (relation "measure (\<lambda>(k, mem, pos, e, s). e - pos)") auto

declare ck_scan.simps [simp del]

text \<open>The bytes still missing: \<open>switch (state)\<close> behind the label \<open>data\<close>.\<close>

primrec ck_missing :: "ck_state \<Rightarrow> int \<Rightarrow> int" where
  "ck_missing CK_chunk_start sz = 5"
| "ck_missing CK_chunk_size sz = 2 + (if sz \<noteq> 0 then sz + 7 else 2)"
| "ck_missing CK_chunk_extension sz = 2 + sz + 7"
| "ck_missing CK_chunk_extension_almost_done sz = 1 + sz + 7"
| "ck_missing CK_chunk_data sz = sz + 7"
| "ck_missing CK_after_data sz = 7"
| "ck_missing CK_after_data_almost_done sz = 6"
| "ck_missing CK_last_chunk_extension sz = 4"
| "ck_missing CK_last_chunk_extension_almost_done sz = 3"
| "ck_missing CK_trailer sz = 2"
| "ck_missing CK_trailer_almost_done sz = 1"
| "ck_missing CK_trailer_header sz = 4"
| "ck_missing CK_trailer_header_almost_done sz = 3"

definition ck_data ::
  "ngx_rc \<Rightarrow> ck_state \<Rightarrow> int \<Rightarrow> nat \<Rightarrow> ngx_http_chunked \<Rightarrow> ngx_buf \<Rightarrow> ngx_rc \<times> ngx_http_chunked \<times> ngx_buf" where
  "ck_data rc st sz pos ctx b =
     (let ctx = ctx\<lparr>ck_state := ck_encode st, ck_size := sz\<rparr>; b = b\<lparr>buf_pos := pos\<rparr> in
      if sz > NGX_MAX_OFF_T_VALUE - 9 then (NGX_ERROR, ctx, b)
      else (rc, ctx\<lparr>ck_length := ck_missing st sz\<rparr>, b))"

definition ngx_http_parse_chunked ::
  "ngx_buf \<Rightarrow> ngx_http_chunked \<Rightarrow> bool \<Rightarrow> ngx_rc \<times> ngx_http_chunked \<times> ngx_buf" where
  "ngx_http_parse_chunked b ctx keep_trailers =
     (case ck_decode (ck_state ctx) of
        None \<Rightarrow>
          (let b = b\<lparr>buf_pos := max (buf_pos b) (buf_last b)\<rparr> in
           if ck_size ctx > NGX_MAX_OFF_T_VALUE - 9 then (NGX_ERROR, ctx, b) else (NGX_AGAIN, ctx, b))
      | Some st \<Rightarrow>
          (let st = (if st = CK_chunk_data \<and> ck_size ctx = 0 then CK_after_data else st) in
           case ck_scan keep_trailers (buf_mem b) (buf_pos b) (buf_last b) (st, ck_size ctx) of
             Go (st, sz, pos) \<Rightarrow> ck_data NGX_AGAIN st sz pos ctx b
           | Stop (CK_goto_data, st, sz, pos) \<Rightarrow> ck_data NGX_OK st sz pos ctx b
           | Stop (CK_goto_done, st, sz, pos) \<Rightarrow>
               (NGX_DONE, ctx\<lparr>ck_state := 0, ck_size := sz\<rparr>, b\<lparr>buf_pos := pos + 1\<rparr>)
           | Stop (CK_goto_invalid, st, sz, pos) \<Rightarrow>
               (NGX_ERROR, ctx\<lparr>ck_size := sz\<rparr>, b)))"

section \<open>Discarding a body\<close>

text \<open>
  The loop of the chunked branch; \<open>want\<close> is \<open>large_client_header_buffers.size\<close>. The result holds
  the code, the chunk context, \<open>content_length_n\<close> and the buffer.
\<close>

partial_function (option) discard_chunked ::
  "int \<Rightarrow> ngx_http_chunked \<Rightarrow> int \<Rightarrow> ngx_buf \<Rightarrow> (ngx_rc \<times> ngx_http_chunked \<times> int \<times> ngx_buf) option" where
  "discard_chunked want ctx content_length_n b =
     (case ngx_http_parse_chunked b ctx False of
        (rc, ctx, b) \<Rightarrow>
          if rc = NGX_OK then
            (let sz = buf_last b - buf_pos b in
             if int sz > ck_size ctx
             then discard_chunked want (ctx\<lparr>ck_size := 0\<rparr>) content_length_n
                    (b\<lparr>buf_pos := buf_pos b + nat (ck_size ctx)\<rparr>)
             else discard_chunked want (ctx\<lparr>ck_size := ck_size ctx - int sz\<rparr>) content_length_n
                    (b\<lparr>buf_pos := buf_last b\<rparr>))
          else if rc = NGX_DONE then Some (NGX_OK, ctx, 0, b)
          else if rc = NGX_AGAIN then Some (NGX_OK, ctx, max (ck_length ctx) want, b)
          else Some (NGX_HTTP_BAD_REQUEST, ctx, content_length_n, b))"

text \<open>
  \<open>rb\<close> is \<open>r->request_body\<close> (its member \<open>chunked\<close>), \<open>alloc\<close> the success of the two
  \<open>ngx_pcalloc\<close>.
\<close>

definition ngx_http_discard_request_body_filter ::
  "bool \<Rightarrow> int \<Rightarrow> bool \<Rightarrow> ngx_http_chunked option \<Rightarrow> int \<Rightarrow> ngx_buf \<Rightarrow>
   (ngx_rc \<times> ngx_http_chunked option \<times> int \<times> ngx_buf) option" where
  "ngx_http_discard_request_body_filter alloc want chunked rb content_length_n b =
     (if chunked then
        (if rb = None \<and> \<not> alloc then Some (NGX_HTTP_INTERNAL_SERVER_ERROR, None, content_length_n, b)
         else
           (let ctx = (case rb of None \<Rightarrow> \<lparr>ck_state = 0, ck_size = 0, ck_length = 0\<rparr> | Some ctx \<Rightarrow> ctx) in
            case discard_chunked want ctx content_length_n b of
              None \<Rightarrow> None
            | Some (rc, ctx, n, b) \<Rightarrow> Some (rc, Some ctx, n, b)))
      else
        (let sz = buf_last b - buf_pos b in
         if int sz > content_length_n
         then Some (NGX_OK, rb, 0, b\<lparr>buf_pos := buf_pos b + nat content_length_n\<rparr>)
         else Some (NGX_OK, rb, content_length_n - int sz, b\<lparr>buf_pos := buf_last b\<rparr>)))"

end
