(* ===== verification/Ngx_Http_Chunked_Proofs.thy ===== *)
theory Ngx_Http_Chunked_Proofs
  imports Ngx_Http_Chunked
begin

text \<open>
  Proofs about chunked bodies. \<open>chunk_run\<close> reads a body byte by byte, data included; the parser
  and its caller, which work on whole buffers and keep the state in between, compute it
  (\<open>discard_chunked_run\<close>). The byte-wise form makes resumption, the round trip with an encoder
  and the meaning of \<open>ctx->length\<close> inductions over the bytes.
\<close>

section \<open>Byte by byte\<close>

datatype chunk_result =
    More "ck_state \<times> int" "byte list"  \<comment> \<open>the state, and the data so far\<close>
  | End "byte list" "byte list"  \<comment> \<open>the data, and the bytes behind the body\<close>
  | Bad

fun ck_norm :: "ck_state \<times> int \<Rightarrow> ck_state \<times> int" where
  "ck_norm (st, sz) = (if st = CK_chunk_data \<and> sz = 0 then CK_after_data else st, sz)"

fun chunk_run :: "ck_state \<times> int \<Rightarrow> byte list \<Rightarrow> byte list \<Rightarrow> chunk_result" where
  "chunk_run s body [] = More s body"
| "chunk_run (st, sz) body (c # cs) =
     (if st = CK_chunk_data \<and> 0 < sz then chunk_run (st, sz - 1) (body @ [c]) cs
      else
        (case ck_step False c (ck_norm (st, sz)) of
           Go s \<Rightarrow> chunk_run s body cs
         | Stop (CK_goto_done, _) \<Rightarrow> End body cs
         | Stop _ \<Rightarrow> Bad))"

text \<open>The range of the size, and which states a size can be in.\<close>

fun ck_inv :: "ck_state \<times> int \<Rightarrow> bool" where
  "ck_inv (st, sz) \<longleftrightarrow>
     0 \<le> sz \<and> sz \<le> NGX_MAX_OFF_T_VALUE \<and>
     (st \<noteq> CK_chunk_start \<and> st \<noteq> CK_chunk_size \<longrightarrow> sz \<le> NGX_MAX_OFF_T_VALUE div 16) \<and>
     (st \<in> {CK_chunk_extension, CK_chunk_extension_almost_done} \<longrightarrow> 0 < sz)"

lemmas ck_step_defs = ck_step.simps ck_sw_chunk_start_def ck_sw_chunk_size_def ck_sw_chunk_extension_def
  ck_sw_last_chunk_extension_def ck_sw_last_chunk_extension_almost_done_def ck_sw_trailer_def
  ck_sw_trailer_header_def ck_expect_def

lemma ck_step_inv:
  assumes "ck_inv s" "ck_step k c s = Go s'"
  shows "ck_inv s' \<and> ck_norm s' = s'"
proof -
  obtain st sz where s: "s = (st, sz)" by (cases s)
  have "is_digit c \<Longrightarrow> int (digit_val c) \<le> 9" "is_hex_alpha c \<Longrightarrow> int (hex_alpha_val c) \<le> 15"
    using digit_val_le [of c] hex_alpha_val_le [of c] by auto
  then show ?thesis
    using assms unfolding s by (cases st) (auto simp: ck_step_defs split: if_splits)
qed

text \<open>The parser's loop, from a state that is not a finished chunk.\<close>

lemma ck_scan_run:
  assumes "e \<le> length mem" "pos \<le> e" "ck_inv s" "ck_norm s = s"
  shows "case ck_scan False mem pos e s of
      Go (st, sz, p) \<Rightarrow> p = e \<and> ck_inv (st, sz) \<and> ck_norm (st, sz) = (st, sz) \<and>
        chunk_run s body (byte_range pos e mem) = More (st, sz) body
    | Stop (CK_goto_data, st, sz, p) \<Rightarrow> st = CK_chunk_data \<and> 0 < sz \<and> ck_inv (st, sz) \<and> pos \<le> p \<and> p < e \<and>
        chunk_run s body (byte_range pos e mem) = chunk_run (st, sz) body (byte_range p e mem)
    | Stop (CK_goto_done, st, sz, p) \<Rightarrow> pos \<le> p \<and> p < e \<and>
        chunk_run s body (byte_range pos e mem) = End body (byte_range (p + 1) e mem)
    | Stop (CK_goto_invalid, st, sz, p) \<Rightarrow> chunk_run s body (byte_range pos e mem) = Bad"
  using assms
proof (induction "e - pos" arbitrary: pos s)
  case 0
  then show ?case by (cases s) (simp add: ck_scan.simps)
next
  case (Suc n)
  obtain st sz where s: "s = (st, sz)" by (cases s)
  have pos: "pos < e" using Suc.hyps(2) by simp
  have raw: "byte_range pos e mem = mem ! pos # byte_range (Suc pos) e mem"
    using pos Suc.prems(1) by (simp add: byte_range_Cons)
  show ?case
  proof (cases "st = CK_chunk_data")
    case True
    then have "0 < sz" using Suc.prems(3,4) by (auto simp: s split: if_splits)
    then show ?thesis
      using True pos Suc.prems(3) by (simp add: s ck_scan.simps ck_step.simps)
  next
    case False
    show ?thesis
    proof (cases "ck_step False (mem ! pos) s")
      case (Go s')
      have inv: "ck_inv s'" "ck_norm s' = s'" using ck_step_inv [OF Suc.prems(3) Go] by auto
      have run: "chunk_run s body (byte_range pos e mem) = chunk_run s' body (byte_range (Suc pos) e mem)"
        using False Go Suc.prems(4) by (simp add: raw s)
      have scan: "ck_scan False mem pos e s = ck_scan False mem (Suc pos) e s'"
        using pos Go by (simp add: ck_scan.simps [of _ _ pos])
      have "n = e - Suc pos" "Suc pos \<le> e" using Suc.hyps(2) pos by auto
      from Suc.hyps(1) [OF this(1) Suc.prems(1) this(2) inv] show ?thesis
        unfolding scan run by (auto split: flow.splits ck_exit.splits)
    next
      case (Stop v)
      obtain x st' sz' where v: "v = (x, st', sz')" by (cases v)
      have "x \<noteq> CK_goto_data"
        using Stop False unfolding s v by (cases st) (auto simp: ck_step_defs split: if_splits)
      then show ?thesis
        using Stop False pos Suc.prems(4) by (cases x) (simp_all add: raw s v ck_scan.simps)
    qed
  qed
qed

text \<open>Data bytes.\<close>

lemma chunk_run_data:
  "int (length xs) \<le> sz \<Longrightarrow>
   chunk_run (CK_chunk_data, sz) body (xs @ ys) = chunk_run (CK_chunk_data, sz - int (length xs)) (body @ xs) ys"
  by (induction xs arbitrary: sz body) (simp_all add: algebra_simps)

lemma chunk_run_norm: "ys \<noteq> [] \<Longrightarrow> chunk_run (ck_norm s) body ys = chunk_run s body ys"
  by (cases s; cases ys) (auto simp: ck_step.simps)

section \<open>Discarding a body reads it byte by byte\<close>

fun discard_meets ::
  "int \<Rightarrow> ngx_buf \<Rightarrow> chunk_result \<Rightarrow> ngx_rc \<times> ngx_http_chunked \<times> int \<times> ngx_buf \<Rightarrow> bool" where
  "discard_meets want b Bad (rc, ctx, n, b') \<longleftrightarrow> rc = NGX_HTTP_BAD_REQUEST"
| "discard_meets want b (End body rest) (rc, ctx, n, b') \<longleftrightarrow>
     rc = NGX_OK \<and> n = 0 \<and> ck_state ctx = 0 \<and> buf_pos b < buf_pos b' \<and> buf_pos b' \<le> buf_last b \<and>
     b' = b\<lparr>buf_pos := buf_pos b'\<rparr> \<and> rest = byte_range (buf_pos b') (buf_last b) (buf_mem b)"
| "discard_meets want b (More s body) (rc, ctx, n, b') \<longleftrightarrow>
     (if snd s > NGX_MAX_OFF_T_VALUE - 9 then rc = NGX_HTTP_BAD_REQUEST
      else rc = NGX_OK \<and> b' = b\<lparr>buf_pos := buf_last b\<rparr> \<and>
        ck_decode (ck_state ctx) = Some (fst (ck_norm s)) \<and> ck_size ctx = snd s \<and>
        n = max (ck_missing (fst (ck_norm s)) (snd s)) want)"

definition discard_ok :: "int \<Rightarrow> ngx_http_chunked \<Rightarrow> int \<Rightarrow> ngx_buf \<Rightarrow> chunk_result \<Rightarrow> bool" where
  "discard_ok want ctx cl b res \<longleftrightarrow>
     (\<exists>v. discard_chunked want ctx cl b = Some v \<and> discard_meets want b res v)"

lemma ck_norm_idem [simp]: "ck_norm (ck_norm s) = ck_norm s"
  by (cases s) simp

lemma discard_meets_norm: "discard_meets want b (More (ck_norm s) body) v = discard_meets want b (More s body) v"
  by (cases s; cases v) auto

lemma discard_meets_later:
  assumes "discard_meets want (b\<lparr>buf_pos := p\<rparr>) res v" "buf_pos b \<le> p"
  shows "discard_meets want b res v"
  using assms by (cases res; cases v) auto

lemma chunk_run_norm_meets:
  "discard_meets want b (chunk_run (ck_norm s) body ys) v = discard_meets want b (chunk_run s body ys) v"
  using discard_meets_norm chunk_run_norm by (cases ys) auto

text \<open>The caller's share: the data of a chunk, as far as the buffer has it.\<close>

lemma discard_data:
  assumes parse: "ngx_http_parse_chunked b ctx False = (NGX_OK, ctx', b\<lparr>buf_pos := p\<rparr>)"
    and ctx': "ck_state ctx' = ck_encode CK_chunk_data" "ck_inv (CK_chunk_data, ck_size ctx')" "0 < ck_size ctx'"
    and p: "buf_pos b \<le> p" "p < buf_last b" "buf_last b \<le> length (buf_mem b)"
    and IH: "\<And>ctx2 p2 body2. p < p2 \<Longrightarrow> p2 \<le> buf_last b \<Longrightarrow> ck_state ctx2 = ck_encode CK_chunk_data \<Longrightarrow>
      ck_inv (CK_chunk_data, ck_size ctx2) \<Longrightarrow>
      discard_ok want ctx2 cl (b\<lparr>buf_pos := p2\<rparr>)
        (chunk_run (CK_chunk_data, ck_size ctx2) body2 (byte_range p2 (buf_last b) (buf_mem b)))"
  shows "discard_ok want ctx cl b
    (chunk_run (CK_chunk_data, ck_size ctx') body (byte_range p (buf_last b) (buf_mem b)))"
proof -
  let ?sz = "ck_size ctx'" and ?n = "buf_last b - p"
  define k where "k = (if int ?n > ?sz then nat ?sz else ?n)"
  have k: "0 < k" "k \<le> ?n" "int k \<le> ?sz" using ctx'(3) p(2) by (auto simp: k_def)
  define xs where "xs = byte_range p (p + k) (buf_mem b)"
  have len: "length xs = k" using k(2) p by (simp add: xs_def)
  have split: "byte_range p (buf_last b) (buf_mem b) = xs @ byte_range (p + k) (buf_last b) (buf_mem b)"
    using byte_range_append [of p "p + k" "buf_last b" "buf_mem b"] k(2) p(2) by (simp add: xs_def)
  define ctx2 where "ctx2 = ctx'\<lparr>ck_size := ?sz - int k\<rparr>"
  have "discard_chunked want ctx cl b = discard_chunked want ctx2 cl (b\<lparr>buf_pos := p + k\<rparr>)"
    using parse k p(2) by (subst discard_chunked.simps) (auto simp: ctx2_def k_def)
  moreover have "discard_ok want ctx2 cl (b\<lparr>buf_pos := p + k\<rparr>)
      (chunk_run (CK_chunk_data, ck_size ctx2) (body @ xs) (byte_range (p + k) (buf_last b) (buf_mem b)))"
    using k p ctx' by (intro IH) (auto simp: ctx2_def)
  moreover have "chunk_run (CK_chunk_data, ?sz) body (byte_range p (buf_last b) (buf_mem b)) =
      chunk_run (CK_chunk_data, ck_size ctx2) (body @ xs) (byte_range (p + k) (buf_last b) (buf_mem b))"
    using chunk_run_data [of xs ?sz body] k(3) by (simp add: split len ctx2_def)
  ultimately show ?thesis
    using discard_meets_later [where b = b and p = "p + k"] p(1) by (auto simp: discard_ok_def)
qed

lemma discard_chunked_run:
  assumes "ck_decode (ck_state ctx) = Some st" "ck_inv (st, ck_size ctx)"
    "buf_pos b \<le> buf_last b" "buf_last b \<le> length (buf_mem b)"
  shows "discard_ok want ctx cl b
    (chunk_run (st, ck_size ctx) body (byte_range (buf_pos b) (buf_last b) (buf_mem b)))"
  using assms
proof (induction "buf_last b - buf_pos b" arbitrary: b ctx st body rule: less_induct)
  case less
  let ?raw = "byte_range (buf_pos b) (buf_last b) (buf_mem b)"
  define s where "s = ck_norm (st, ck_size ctx)"
  have inv: "ck_inv s" "ck_norm s = s" using less.prems(2) by (auto simp: s_def)
  note scan = ck_scan_run [OF less.prems(4,3) inv, of body]
  have parse: "ngx_http_parse_chunked b ctx False =
      (case ck_scan False (buf_mem b) (buf_pos b) (buf_last b) s of
         Go (st, sz, pos) \<Rightarrow> ck_data NGX_AGAIN st sz pos ctx b
       | Stop (CK_goto_data, st, sz, pos) \<Rightarrow> ck_data NGX_OK st sz pos ctx b
       | Stop (CK_goto_done, st, sz, pos) \<Rightarrow>
           (NGX_DONE, ctx\<lparr>ck_state := 0, ck_size := sz\<rparr>, b\<lparr>buf_pos := pos + 1\<rparr>)
       | Stop (CK_goto_invalid, st, sz, pos) \<Rightarrow> (NGX_ERROR, ctx\<lparr>ck_size := sz\<rparr>, b))"
    using less.prems(1) by (simp add: ngx_http_parse_chunked_def Let_def s_def)
  have "discard_ok want ctx cl b (chunk_run s body ?raw)"
  proof (cases "ck_scan False (buf_mem b) (buf_pos b) (buf_last b) s")
    case (Go v)
    obtain st' sz' p where v: "v = (st', sz', p)" by (cases v)
    have g: "p = buf_last b" "ck_norm (st', sz') = (st', sz')" "chunk_run s body ?raw = More (st', sz') body"
      using scan by (auto simp: Go v)
    then show ?thesis
      using parse Go v by (subst discard_ok_def, subst discard_chunked.simps)
        (auto simp: ck_data_def Let_def split: if_splits)
  next
    case (Stop v)
    obtain x st' sz' p where v: "v = (x, st', sz', p)" by (cases v)
    show ?thesis
    proof (cases x)
      case CK_goto_data
      have g: "st' = CK_chunk_data" "0 < sz'" "ck_inv (st', sz')" "buf_pos b \<le> p" "p < buf_last b"
          "chunk_run s body ?raw = chunk_run (st', sz') body (byte_range p (buf_last b) (buf_mem b))"
        using scan by (auto simp: Stop v CK_goto_data)
      let ?ctx = "ctx\<lparr>ck_state := ck_encode CK_chunk_data, ck_size := sz', ck_length := ck_missing CK_chunk_data sz'\<rparr>"
      have "ngx_http_parse_chunked b ctx False = (NGX_OK, ?ctx, b\<lparr>buf_pos := p\<rparr>)"
        using parse Stop v CK_goto_data g(1-3) by (auto simp: ck_data_def Let_def)
      then have "discard_ok want ctx cl b
          (chunk_run (CK_chunk_data, ck_size ?ctx) body (byte_range p (buf_last b) (buf_mem b)))"
      proof (rule discard_data [OF _ _ _ _ g(4,5) less.prems(4)])
        fix ctx2 :: ngx_http_chunked and p2 body2
        assume "p < p2" "p2 \<le> buf_last b" "ck_state ctx2 = ck_encode CK_chunk_data"
          "ck_inv (CK_chunk_data, ck_size ctx2)"
        then show "discard_ok want ctx2 cl (b\<lparr>buf_pos := p2\<rparr>)
            (chunk_run (CK_chunk_data, ck_size ctx2) body2 (byte_range p2 (buf_last b) (buf_mem b)))"
          using less.hyps [of "b\<lparr>buf_pos := p2\<rparr>" ctx2 CK_chunk_data body2] g(4) less.prems(4)
          by (simp del: ck_encode.simps ck_inv.simps)
      qed (use g in auto)
      then show ?thesis using g(1,6) by simp
    next
      case CK_goto_done
      then show ?thesis
        using scan parse Stop v by (subst discard_ok_def, subst discard_chunked.simps) auto
    next
      case CK_goto_invalid
      then show ?thesis
        using scan parse Stop v by (subst discard_ok_def, subst discard_chunked.simps) auto
    qed
  qed
  then show ?case by (simp add: discard_ok_def chunk_run_norm_meets s_def del: ck_norm.simps)
qed

section \<open>An encoder and the round trip\<close>

text \<open>The size in hexadecimal, as \<open>ngx_sprintf (..., "%xO" CRLF, size)\<close> writes it.\<close>

definition hex_char :: "nat \<Rightarrow> byte" where
  "hex_char n = (if n < 10 then word_of_nat (48 + n) else word_of_nat (87 + n))"

fun hex_print :: "nat \<Rightarrow> byte list" where
  "hex_print n = (if n < 16 then [hex_char n] else hex_print (n div 16) @ [hex_char (n mod 16)])"

declare hex_print.simps [simp del]

definition chunk_bytes :: "byte list \<Rightarrow> byte list" where
  "chunk_bytes d = hex_print (length d) @ [CR, LF] @ d @ [CR, LF]"

definition chunked_body :: "byte list list \<Rightarrow> byte list" where
  "chunked_body ds = concat (map chunk_bytes ds) @ str8 ''0'' @ [CR, LF, CR, LF]"

lemma hex_char_cases:
  assumes "n < 16"
  shows "is_digit (hex_char n) \<and> digit_val (hex_char n) = n \<or>
    \<not> is_digit (hex_char n) \<and> is_hex_alpha (hex_char n) \<and> hex_alpha_val (hex_char n) = n"
proof -
  have "n = 0 \<or> n = 1 \<or> n = 2 \<or> n = 3 \<or> n = 4 \<or> n = 5 \<or> n = 6 \<or> n = 7 \<or> n = 8 \<or> n = 9 \<or>
      n = 10 \<or> n = 11 \<or> n = 12 \<or> n = 13 \<or> n = 14 \<or> n = 15"
    using assms by presburger
  then show ?thesis
    by (auto simp: hex_char_def is_digit_def digit_val_def is_hex_alpha_def hex_alpha_val_def lower_def)
qed

lemma chunk_run_digit:
  assumes "n < 16" "0 \<le> sz" "sz \<le> NGX_MAX_OFF_T_VALUE div 16"
  shows "chunk_run (CK_chunk_size, sz) body (hex_char n # cs) = chunk_run (CK_chunk_size, sz * 16 + int n) body cs"
    "chunk_run (CK_chunk_start, sz) body (hex_char n # cs) = chunk_run (CK_chunk_size, int n) body cs"
  using hex_char_cases [OF assms(1)] assms(2,3) by (auto simp: ck_step_defs)

lemma chunk_run_hex:
  assumes "n < 2 ^ 59"
  shows "chunk_run (CK_chunk_start, 0) body (hex_print n @ cs) = chunk_run (CK_chunk_size, int n) body cs"
  using assms
proof (induction n arbitrary: cs rule: hex_print.induct)
  case (1 n)
  show ?case
  proof (cases "n < 16")
    case True
    then show ?thesis
      using chunk_run_digit(2) [of n 0 body cs] by (simp add: hex_print.simps del: chunk_run.simps)
  next
    case False
    have "chunk_run (CK_chunk_start, 0) body (hex_print n @ cs) =
        chunk_run (CK_chunk_size, int (n div 16)) body (hex_char (n mod 16) # cs)"
      using False 1 by (simp add: hex_print.simps [of n])
    also have "\<dots> = chunk_run (CK_chunk_size, int (n div 16) * 16 + int (n mod 16)) body cs"
      using 1(2) by (intro chunk_run_digit) auto
    also have "int (n div 16) * 16 + int (n mod 16) = int n"
      by (metis of_nat_add of_nat_mult of_nat_numeral div_mult_mod_eq)
    finally show ?thesis .
  qed
qed

lemma CR_no_digit: "\<not> is_digit 13" "\<not> is_hex_alpha 13"
  by (simp_all add: is_digit_def is_hex_alpha_def lower_def)

lemma chunk_run_chunk:
  assumes "d \<noteq> []" "length d < 2 ^ 59"
  shows "chunk_run (CK_chunk_start, 0) body (chunk_bytes d @ cs) = chunk_run (CK_chunk_start, 0) (body @ d) cs"
proof -
  have "chunk_run (CK_chunk_start, 0) body (chunk_bytes d @ cs) =
      chunk_run (CK_chunk_data, int (length d)) body (d @ CR # LF # cs)"
    using chunk_run_hex [OF assms(2)] assms by (simp add: chunk_bytes_def ck_step_defs CR_no_digit)
  also have "\<dots> = chunk_run (CK_chunk_start, 0) (body @ d) cs"
    using chunk_run_data [of d "int (length d)" body "CR # LF # cs"] by (simp add: ck_step_defs)
  finally show ?thesis .
qed

lemma chunk_run_body:
  assumes "\<forall>d\<in>set ds. d \<noteq> [] \<and> length d < 2 ^ 59"
  shows "chunk_run (CK_chunk_start, 0) body (chunked_body ds @ rest) = End (body @ concat ds) rest"
  using assms
proof (induction ds arbitrary: body)
  case Nil
  have "chunk_run (CK_chunk_start, 0) body (hex_print 0 @ [CR, LF, CR, LF] @ rest) = End body rest"
    using chunk_run_hex [of 0 body] by (simp add: ck_step_defs CR_no_digit)
  then show ?case by (simp add: chunked_body_def hex_print.simps hex_char_def)
next
  case (Cons d ds)
  then show ?case
    using chunk_run_chunk [of d body "chunked_body ds @ rest"] by (simp add: chunked_body_def)
qed

section \<open>The meaning of the missing length\<close>

lemma ck_missing_step:
  assumes "ck_inv s" "ck_norm s = s" "fst s \<noteq> CK_chunk_data" "ck_step False c s = Go s'"
  shows "ck_missing (fst s) (snd s) \<le> ck_missing (fst s') (snd s') + 1"
proof -
  obtain st sz where s: "s = (st, sz)" by (cases s)
  show ?thesis
    using assms unfolding s by (cases st) (auto simp: ck_step_defs split: if_splits)
qed

lemma ck_missing_done:
  assumes "ck_step False c (st, sz) = Stop (CK_goto_done, v)"
  shows "ck_missing st sz = 1"
  using assms by (cases st) (auto simp: ck_step_defs split: if_splits)

lemma chunk_run_missing:
  assumes "ck_inv s" "chunk_run s body cs = End body' rest"
  shows "ck_missing (fst (ck_norm s)) (snd s) \<le> int (length cs) - int (length rest)"
  using assms
proof (induction s body cs rule: chunk_run.induct)
  case (1 s body)
  then show ?case by simp
next
  case (2 st sz body c cs)
  show ?case
  proof (cases "st = CK_chunk_data \<and> 0 < sz")
    case True
    then have "ck_missing (fst (ck_norm (st, sz - 1))) (sz - 1) \<le> int (length cs) - int (length rest)"
      using 2 by auto
    then show ?thesis using True by (auto split: if_splits)
  next
    case False
    define s where "s = ck_norm (st, sz)"
    have s: "ck_inv s" "ck_norm s = s" "fst s \<noteq> CK_chunk_data" "snd s = sz"
      using 2(3) False by (auto simp: s_def split: if_splits)
    show ?thesis
    proof (cases "ck_step False c s")
      case (Go s')
      have inv: "ck_inv s'" "ck_norm s' = s'" using ck_step_inv [OF s(1) Go] by auto
      have "chunk_run s' body cs = End body' rest" using 2(4) False Go by (simp add: s_def)
      then have "ck_missing (fst s') (snd s') \<le> int (length cs) - int (length rest)"
        using 2(2) [OF False Go [unfolded s_def]] inv by simp
      then show ?thesis
        using ck_missing_step [OF s(1-3) Go] s(4) by (simp add: s_def [symmetric] del: ck_norm.simps)
    next
      case (Stop v)
      obtain x st' sz' where v: "v = (x, st', sz')" by (cases v)
      then have "x = CK_goto_done" "rest = cs"
        using 2(4) False Stop by (cases x, simp_all add: s_def)+
      moreover from this have "ck_missing (fst s) sz = 1"
        using Stop v s(4) ck_missing_done [of c "fst s" sz "(st', sz')"] by (cases s) simp
      ultimately show ?thesis by (simp add: s_def [symmetric] del: ck_norm.simps)
    qed
  qed
qed

text \<open>A shortest completion.\<close>

primrec ck_completion :: "ck_state \<Rightarrow> int \<Rightarrow> byte list" where
  "ck_completion CK_chunk_start sz = [0x30, CR, LF, CR, LF]"
| "ck_completion CK_chunk_size sz =
     (if sz = 0 then [CR, LF, CR, LF] else [CR, LF] @ replicate (nat sz) 0 @ [CR, LF, 0x30, CR, LF, CR, LF])"
| "ck_completion CK_chunk_extension sz = [CR, LF] @ replicate (nat sz) 0 @ [CR, LF, 0x30, CR, LF, CR, LF]"
| "ck_completion CK_chunk_extension_almost_done sz = [LF] @ replicate (nat sz) 0 @ [CR, LF, 0x30, CR, LF, CR, LF]"
| "ck_completion CK_chunk_data sz = replicate (nat sz) 0 @ [CR, LF, 0x30, CR, LF, CR, LF]"
| "ck_completion CK_after_data sz = [CR, LF, 0x30, CR, LF, CR, LF]"
| "ck_completion CK_after_data_almost_done sz = [LF, 0x30, CR, LF, CR, LF]"
| "ck_completion CK_last_chunk_extension sz = [CR, LF, CR, LF]"
| "ck_completion CK_last_chunk_extension_almost_done sz = [LF, CR, LF]"
| "ck_completion CK_trailer sz = [CR, LF]"
| "ck_completion CK_trailer_almost_done sz = [LF]"
| "ck_completion CK_trailer_header sz = [CR, LF, CR, LF]"
| "ck_completion CK_trailer_header_almost_done sz = [LF, CR, LF]"

lemma digit_0: "is_digit 0x30" "digit_val 0x30 = 0"
  by (simp_all add: is_digit_def digit_val_def)

lemma ck_completion_data:
  assumes "0 \<le> sz"
  shows "\<exists>body'. chunk_run (CK_chunk_data, sz) body (replicate (nat sz) 0 @ [CR, LF, 0x30, CR, LF, CR, LF]) = End body' []"
  using chunk_run_data [of "replicate (nat sz) 0" sz body] assms
  by (simp add: ck_step_defs CR_no_digit digit_0)

lemma ck_completion_ends:
  assumes "ck_inv (st, sz)" "sz \<le> NGX_MAX_OFF_T_VALUE div 16"
  shows "int (length (ck_completion st sz)) = ck_missing st sz \<and>
    (\<exists>body'. chunk_run (st, sz) body (ck_completion st sz) = End body' [])"
  using assms ck_completion_data [of sz body]
  by (cases st) (auto simp: ck_step_defs CR_no_digit digit_0)

section \<open>Properties\<close>

lemma chunk_run_append:
  "chunk_run s body (xs @ ys) =
     (case chunk_run s body xs of
        More s' body' \<Rightarrow> chunk_run s' body' ys
      | End body' rest \<Rightarrow> End body' (rest @ ys)
      | Bad \<Rightarrow> Bad)"
  by (induction s body xs rule: chunk_run.induct)
    (auto split: flow.splits prod.splits ck_exit.splits)

lemma chunk_run_inv:
  "ck_inv s \<Longrightarrow> chunk_run s body cs = More s' body' \<Longrightarrow> ck_inv s'"
proof (induction s body cs rule: chunk_run.induct)
  case (2 st sz body c cs)
  show ?case
  proof (cases "st = CK_chunk_data \<and> 0 < sz")
    case True
    then show ?thesis using 2 by auto
  next
    case False
    define s where "s = ck_norm (st, sz)"
    have inv: "ck_inv s" using 2(3) by (auto simp: s_def)
    obtain s1 where step: "ck_step False c s = Go s1" "chunk_run s1 body cs = More s' body'"
      using 2(4) False by (auto simp: s_def split: flow.splits ck_exit.splits)
    show ?thesis
      using 2(2) [OF False step(1) [unfolded s_def]] ck_step_inv [OF inv step(1)] step(2) by blast
  qed
qed simp

text \<open>
  C11. A chunked body that arrives in two buffers is read like one that arrives in one: after a
  first call that asks for more, the second call stops at the byte, with the code and the state,
  that the byte-wise reading of all the bytes gives. Both calls end.
\<close>

theorem discard_body_resume:
  assumes "ck_decode (ck_state ctx) = Some st" "ck_inv (st, ck_size ctx)"
    "buf_pos b1 \<le> buf_last b1" "buf_last b1 \<le> length (buf_mem b1)"
    "discard_chunked want ctx cl b1 = Some (NGX_OK, ctx1, n1, b1')" "n1 \<noteq> 0"
    "buf_pos b2 \<le> buf_last b2" "buf_last b2 \<le> length (buf_mem b2)"
  shows "\<exists>v. discard_chunked want ctx1 n1 b2 = Some v \<and>
    discard_meets want b2
      (chunk_run (st, ck_size ctx) []
         (byte_range (buf_pos b1) (buf_last b1) (buf_mem b1) @
          byte_range (buf_pos b2) (buf_last b2) (buf_mem b2))) v"
proof -
  let ?r1 = "byte_range (buf_pos b1) (buf_last b1) (buf_mem b1)"
  let ?r2 = "byte_range (buf_pos b2) (buf_last b2) (buf_mem b2)"
  have "discard_meets want b1 (chunk_run (st, ck_size ctx) [] ?r1) (NGX_OK, ctx1, n1, b1')"
    using discard_chunked_run [OF assms(1-4), of want cl "[]"] assms(5) by (auto simp: discard_ok_def)
  then obtain s' body' where run1: "chunk_run (st, ck_size ctx) [] ?r1 = More s' body'"
      and ctx1: "ck_decode (ck_state ctx1) = Some (fst (ck_norm s'))" "ck_size ctx1 = snd s'"
    using assms(6) by (cases "chunk_run (st, ck_size ctx) [] ?r1") (auto split: if_splits)
  have norm: "(fst (ck_norm s'), ck_size ctx1) = ck_norm s'"
    using ctx1(2) by (cases s') simp
  have "ck_inv s'" using chunk_run_inv [OF assms(2) run1] .
  then have "ck_inv (ck_norm s')" by (cases s') auto
  then have "discard_ok want ctx1 n1 b2 (chunk_run (ck_norm s') body' ?r2)"
    using discard_chunked_run [OF ctx1(1) _ assms(7,8), of want n1 body'] by (simp only: norm)
  then show ?thesis
    by (auto simp: discard_ok_def chunk_run_norm_meets chunk_run_append run1 simp del: ck_norm.simps)
qed

text \<open>
  C12. Round trip: in front of a body encoded in any number of non-empty chunks, a client's body
  is discarded exactly: the filter succeeds, nothing remains to be read, and the buffer stands at
  the first byte behind the body, such as the next pipelined request.
\<close>

theorem discard_body_roundtrip:
  assumes "\<forall>d\<in>set ds. d \<noteq> [] \<and> length d < 2 ^ 59"
    "byte_range (buf_pos b) (buf_last b) (buf_mem b) = chunked_body ds @ rest"
    "buf_pos b \<le> buf_last b" "buf_last b \<le> length (buf_mem b)"
  shows "\<exists>ctx b'. ngx_http_discard_request_body_filter True want True None cl b = Some (NGX_OK, Some ctx, 0, b') \<and>
    b' = b\<lparr>buf_pos := buf_pos b'\<rparr> \<and> byte_range (buf_pos b') (buf_last b) (buf_mem b) = rest"
proof -
  let ?ctx = "\<lparr>ck_state = 0, ck_size = 0, ck_length = 0\<rparr> :: ngx_http_chunked"
  have "ck_decode (ck_state ?ctx) = Some CK_chunk_start" by (simp add: ck_decode_def ck_states_def)
  then have "discard_ok want ?ctx cl b (chunk_run (CK_chunk_start, 0) [] (chunked_body ds @ rest))"
    using discard_chunked_run [of ?ctx CK_chunk_start b want cl "[]"] assms by simp
  then obtain ctx b' where "discard_chunked want ?ctx cl b = Some (NGX_OK, ctx, 0, b')"
      "b' = b\<lparr>buf_pos := buf_pos b'\<rparr>" "byte_range (buf_pos b') (buf_last b) (buf_mem b) = rest"
    using chunk_run_body [OF assms(1), of "[]" rest] by (auto simp: discard_ok_def)
  then show ?thesis by (simp add: ngx_http_discard_request_body_filter_def)
qed

text \<open>
  C13. \<open>ctx->length\<close> after \<open>NGX_AGAIN\<close> is the least number of bytes that can complete the body:
  no shorter input completes it, and (below the bound on chunk sizes) some input of that length
  does. It is positive and its computation does not overflow \<open>off_t\<close>.
\<close>

theorem chunked_length_least:
  assumes "ck_decode (ck_state ctx) = Some st" "ck_inv (st, ck_size ctx)"
    "buf_pos b \<le> buf_last b" "buf_last b \<le> length (buf_mem b)"
    "ngx_http_parse_chunked b ctx False = (NGX_AGAIN, ctx', b')"
  shows "\<exists>st'. ck_decode (ck_state ctx') = Some st' \<and>
    0 < ck_length ctx' \<and> ck_length ctx' \<le> NGX_MAX_OFF_T_VALUE \<and>
    (\<forall>cs body rest. chunk_run (st', ck_size ctx') [] cs = End body rest \<longrightarrow>
       ck_length ctx' \<le> int (length cs) - int (length rest)) \<and>
    (ck_size ctx' \<le> NGX_MAX_OFF_T_VALUE div 16 \<longrightarrow>
       (\<exists>cs body. chunk_run (st', ck_size ctx') [] cs = End body [] \<and> int (length cs) = ck_length ctx'))"
proof -
  define s where "s = ck_norm (st, ck_size ctx)"
  have s: "ck_inv s" "ck_norm s = s" using assms(2) by (auto simp: s_def)
  obtain st' sz' p where scan: "ck_scan False (buf_mem b) (buf_pos b) (buf_last b) s = Go (st', sz', p)"
    using assms(1,5)
    by (auto simp: ngx_http_parse_chunked_def Let_def s_def [simplified] ck_data_def
        split: flow.splits ck_exit.splits if_splits)
  have inv: "ck_inv (st', sz')" "ck_norm (st', sz') = (st', sz')"
    using ck_scan_run [OF assms(4,3) s, of "[]"] by (simp_all add: scan del: ck_norm.simps ck_inv.simps)
  have "ck_data NGX_AGAIN st' sz' p ctx b = (NGX_AGAIN, ctx', b')"
    using assms(1,5) scan by (simp add: ngx_http_parse_chunked_def Let_def s_def [simplified])
  then have ctx': "ck_state ctx' = ck_encode st'" "ck_size ctx' = sz'" "ck_length ctx' = ck_missing st' sz'"
      "sz' \<le> NGX_MAX_OFF_T_VALUE - 9"
    by (auto simp: ck_data_def Let_def split: if_splits)
  have "0 < ck_missing st' sz' \<and> ck_missing st' sz' \<le> NGX_MAX_OFF_T_VALUE"
    using inv(1) ctx'(4) by (cases st') auto
  moreover have "ck_missing st' sz' \<le> int (length cs) - int (length rest)"
    if "chunk_run (st', sz') [] cs = End body rest" for cs body rest
    using chunk_run_missing [OF inv(1) that] by (simp add: inv(2) del: ck_norm.simps)
  moreover have "\<exists>cs body. chunk_run (st', sz') [] cs = End body [] \<and> int (length cs) = ck_missing st' sz'"
    if "sz' \<le> NGX_MAX_OFF_T_VALUE div 16"
    using ck_completion_ends [OF inv(1) that, of "[]"] by blast
  ultimately show ?thesis by (auto simp: ctx')
qed

section \<open>A concrete body\<close>

definition ck_example_ctx :: ngx_http_chunked where
  "ck_example_ctx = \<lparr>ck_state = 0, ck_size = 0, ck_length = 0\<rparr>"

definition ck_example_part :: ngx_buf where
  "ck_example_part = \<lparr>buf_mem = str8 ''1'' @ [CR], buf_pos = 0, buf_last = 2\<rparr>"

definition ck_example_ctx_part :: ngx_http_chunked where
  "ck_example_ctx_part = \<lparr>ck_state = 3, ck_size = 1, ck_length = 9\<rparr>"

definition ck_example_rest :: ngx_buf where
  "ck_example_rest = \<lparr>buf_mem = [LF] @ str8 ''a'' @ [CR, LF] @ str8 ''0'' @ [CR, LF, CR, LF], buf_pos = 0, buf_last = 9\<rparr>"

lemmas ck_eval = ngx_http_parse_chunked_def ck_scan.simps ck_step_defs ck_decode_def ck_states_def ck_data_def
  is_digit_def digit_val_def is_hex_alpha_def lower_def

lemma ck_example_parse:
  "ngx_http_parse_chunked ck_example_part ck_example_ctx False =
     (NGX_AGAIN, ck_example_ctx_part, ck_example_part\<lparr>buf_pos := 2\<rparr>)"
  by (simp add: ck_example_part_def ck_example_ctx_def ck_example_ctx_part_def ck_eval)

lemma ck_example_discard:
  "discard_chunked 0 ck_example_ctx 0 ck_example_part =
     Some (NGX_OK, ck_example_ctx_part, 9, ck_example_part\<lparr>buf_pos := 2\<rparr>)"
  by (subst discard_chunked.simps) (simp add: ck_example_parse, simp add: ck_example_ctx_part_def)

lemma ck_example_fields:
  "ck_decode (ck_state ck_example_ctx) = Some CK_chunk_start" "ck_inv (CK_chunk_start, ck_size ck_example_ctx)"
  "buf_pos ck_example_part \<le> buf_last ck_example_part" "buf_last ck_example_part \<le> length (buf_mem ck_example_part)"
  "(9::int) \<noteq> 0" "buf_pos ck_example_rest \<le> buf_last ck_example_rest"
  "buf_last ck_example_rest \<le> length (buf_mem ck_example_rest)"
  by (simp_all add: ck_example_ctx_def ck_example_part_def ck_example_rest_def ck_decode_def ck_states_def)

lemma ck_example_run:
  "chunk_run (CK_chunk_start, ck_size ck_example_ctx) []
     (byte_range (buf_pos ck_example_part) (buf_last ck_example_part) (buf_mem ck_example_part) @
      byte_range (buf_pos ck_example_rest) (buf_last ck_example_rest) (buf_mem ck_example_rest)) =
   End (str8 ''a'') []"
  using chunk_run_body [of "[str8 ''a'']" "[]" "[]"]
  by (simp add: ck_example_ctx_def ck_example_part_def ck_example_rest_def byte_range_def chunked_body_def
      chunk_bytes_def hex_print.simps hex_char_def del: chunk_run.simps)

theorem discard_body_resume_witness:
  "\<exists>ctx n b. discard_chunked 0 ck_example_ctx_part 9 ck_example_rest = Some (NGX_OK, ctx, n, b) \<and> n = 0"
  using discard_body_resume [OF ck_example_fields(1-4) ck_example_discard ck_example_fields(5-7)]
  unfolding ck_example_run by auto

definition ck_example_full :: ngx_buf where
  "ck_example_full = \<lparr>buf_mem = chunked_body [str8 ''ab''] @ str8 ''GET'', buf_pos = 0, buf_last = 15\<rparr>"

theorem discard_body_roundtrip_witness:
  "\<exists>ctx b. ngx_http_discard_request_body_filter True 0 True None 0 ck_example_full = Some (NGX_OK, Some ctx, 0, b) \<and>
     byte_range (buf_pos b) 15 (buf_mem ck_example_full) = str8 ''GET''"
proof -
  have "byte_range (buf_pos ck_example_full) (buf_last ck_example_full) (buf_mem ck_example_full) =
      chunked_body [str8 ''ab''] @ str8 ''GET''"
    by (simp add: ck_example_full_def byte_range_def chunked_body_def chunk_bytes_def hex_print.simps)
  moreover have "buf_pos ck_example_full \<le> buf_last ck_example_full"
      "buf_last ck_example_full \<le> length (buf_mem ck_example_full)" "buf_last ck_example_full = 15"
    by (simp_all add: ck_example_full_def chunked_body_def chunk_bytes_def hex_print.simps)
  ultimately show ?thesis
    using discard_body_roundtrip [of "[str8 ''ab'']" ck_example_full "str8 ''GET''" 0 0] by auto
qed

theorem chunked_length_least_witness:
  "\<exists>cs body. chunk_run (CK_chunk_extension_almost_done, 1) [] cs = End body [] \<and>
     int (length cs) = ck_length ck_example_ctx_part"
  using chunked_length_least [OF ck_example_fields(1-4) ck_example_parse]
  by (simp add: ck_example_ctx_part_def ck_decode_def ck_states_def)

end
