(* ===== verification/Ngx_Buf.thy ===== *)
theory Ngx_Buf
  imports Prelude
begin

text \<open>
  Buffers and chains: \<open>src/core/ngx_buf.h\<close> and the parts of \<open>src/core/ngx_buf.c\<close> that the I/O of the
  WASI port uses, with \<open>struct iovec\<close> and the error numbers of the system calls.

  Buffers are ranges of one memory, given as offsets; a chain is the list of its buffers.
\<close>

section \<open>System calls\<close>

datatype errno = EAGAIN | EINTR | EOTHER nat

section \<open>Buffers and chains\<close>

record chain_buf =
  cb_pos :: nat
  cb_last :: nat
  cb_file_pos :: nat
  cb_file_last :: nat
  cb_start :: nat
  cb_end :: nat
  cb_temporary :: bool
  cb_memory :: bool
  cb_mmap :: bool
  cb_in_file :: bool
  cb_flush :: bool
  cb_sync :: bool
  cb_last_buf :: bool

type_synonym ngx_chain = "chain_buf list"

definition ngx_buf_in_memory :: "chain_buf \<Rightarrow> bool" where
  "ngx_buf_in_memory b \<longleftrightarrow> cb_temporary b \<or> cb_memory b \<or> cb_mmap b"

definition ngx_buf_special :: "chain_buf \<Rightarrow> bool" where
  "ngx_buf_special b \<longleftrightarrow>
     (cb_flush b \<or> cb_last_buf b \<or> cb_sync b) \<and> \<not> ngx_buf_in_memory b \<and> \<not> cb_in_file b"

definition ngx_buf_size :: "chain_buf \<Rightarrow> nat" where
  "ngx_buf_size b = (if ngx_buf_in_memory b then cb_last b - cb_pos b else cb_file_last b - cb_file_pos b)"

text \<open>
  \<open>ngx_chain_update_sent\<close>: the buffers that are behind, as the loop leaves them, and the chain
  from which sending goes on.
\<close>

fun ngx_chain_update_sent :: "ngx_chain \<Rightarrow> nat \<Rightarrow> ngx_chain \<times> ngx_chain" where
  "ngx_chain_update_sent [] sent = ([], [])"
| "ngx_chain_update_sent (b # bs) sent =
     (if ngx_buf_special b then
        (case ngx_chain_update_sent bs sent of (past, rest) \<Rightarrow> (b # past, rest))
      else if sent = 0 then ([], b # bs)
      else if sent \<ge> ngx_buf_size b then
        (let b' = (if ngx_buf_in_memory b then b\<lparr>cb_pos := cb_last b\<rparr> else b);
             b' = (if cb_in_file b then b'\<lparr>cb_file_pos := cb_file_last b\<rparr> else b')
         in case ngx_chain_update_sent bs (sent - ngx_buf_size b) of (past, rest) \<Rightarrow> (b' # past, rest))
      else
        (let b' = (if ngx_buf_in_memory b then b\<lparr>cb_pos := cb_pos b + sent\<rparr> else b);
             b' = (if cb_in_file b then b'\<lparr>cb_file_pos := cb_file_pos b + sent\<rparr> else b')
         in ([], b' # bs)))"

section \<open>The iovec\<close>

record iovec =
  iov_base :: nat
  iov_len :: nat

record ngx_iovec =
  iovs :: "iovec list"
  vec_size :: nat

definition iov_bytes :: "byte list \<Rightarrow> iovec \<Rightarrow> byte list" where
  "iov_bytes mem v = byte_range (iov_base v) (iov_base v + iov_len v) mem"

section \<open>Bytes of a chain\<close>

text \<open>
  What a chain of memory buffers stands for: the bytes between \<open>pos\<close> and \<open>last\<close> of its buffers. A
  buffer to be sent is a special one, or a non-empty range of the memory.
\<close>

definition buf_bytes :: "byte list \<Rightarrow> chain_buf \<Rightarrow> byte list" where
  "buf_bytes mem b = (if ngx_buf_special b then [] else byte_range (cb_pos b) (cb_last b) mem)"

definition chain_bytes :: "byte list \<Rightarrow> ngx_chain \<Rightarrow> byte list" where
  "chain_bytes mem ch = concat (map (buf_bytes mem) ch)"

definition mem_buf_ok :: "byte list \<Rightarrow> chain_buf \<Rightarrow> bool" where
  "mem_buf_ok mem b \<longleftrightarrow>
     ngx_buf_special b \<or>
     ngx_buf_in_memory b \<and> \<not> cb_in_file b \<and> cb_pos b < cb_last b \<and> cb_last b \<le> length mem"

lemma chain_bytes_simps [simp]:
  "chain_bytes mem [] = []"
  "chain_bytes mem (b # bs) = buf_bytes mem b @ chain_bytes mem bs"
  by (simp_all add: chain_bytes_def)

lemma length_buf_bytes:
  "mem_buf_ok mem b \<Longrightarrow> \<not> ngx_buf_special b \<Longrightarrow> length (buf_bytes mem b) = cb_last b - cb_pos b"
  by (simp add: mem_buf_ok_def buf_bytes_def)

lemma byte_range_drop: "byte_range (i + n) j xs = drop n (byte_range i j xs)"
  by (simp add: byte_range_def drop_take add.commute)

lemma byte_range_take: "n \<le> j - i \<Longrightarrow> byte_range i (i + n) xs = take n (byte_range i j xs)"
  by (simp add: byte_range_def)

lemma ngx_buf_in_memory_pos [simp]: "ngx_buf_in_memory (b\<lparr>cb_pos := p\<rparr>) = ngx_buf_in_memory b"
  by (simp add: ngx_buf_in_memory_def)

lemma ngx_buf_special_pos [simp]: "ngx_buf_special (b\<lparr>cb_pos := p\<rparr>) = ngx_buf_special b"
  by (simp add: ngx_buf_special_def)

text \<open>Advancing a chain drops the bytes that were sent from its front.\<close>

lemma chain_update_sent_bytes:
  assumes "list_all (mem_buf_ok mem) ch" "n \<le> length (chain_bytes mem ch)"
  shows "chain_bytes mem (snd (ngx_chain_update_sent ch n)) = drop n (chain_bytes mem ch)
    \<and> list_all (mem_buf_ok mem) (snd (ngx_chain_update_sent ch n))"
  using assms
proof (induction ch arbitrary: n)
  case (Cons b bs)
  show ?case
  proof (cases "ngx_buf_special b")
    case True
    with Cons show ?thesis by (simp add: buf_bytes_def split: prod.split) force
  next
    case False
    with Cons.prems have mem: "ngx_buf_in_memory b" "\<not> cb_in_file b" "cb_pos b < cb_last b" "cb_last b \<le> length mem"
      by (simp_all add: mem_buf_ok_def)
    have len: "length (buf_bytes mem b) = ngx_buf_size b"
      using False mem by (simp add: buf_bytes_def ngx_buf_size_def)
    show ?thesis
    proof (cases "n \<ge> ngx_buf_size b")
      case True
      have "n - ngx_buf_size b \<le> length (chain_bytes mem bs)"
        using Cons.prems(2) len by simp
      with Cons.IH [of "n - ngx_buf_size b"] Cons.prems True False mem len show ?thesis
        by (auto simp: ngx_buf_size_def split: prod.split)
    next
      case less: False
      then show ?thesis
        using False mem len Cons.prems
        by (auto simp: buf_bytes_def mem_buf_ok_def ngx_buf_size_def byte_range_drop)
    qed
  qed
qed simp

end
