(* ===== verification/Ngx_Writev.thy ===== *)
theory Ngx_Writev
  imports Ngx_Buf
begin

text \<open>
  Sending chains of buffers to a socket: \<open>src/os/unix/ngx_writev_chain.c\<close> with its WASI branch.

  The WASI port replaces \<open>writev\<close>, which sends only the first buffer there, by a copy into one
  buffer of 4096 bytes and a single \<open>write\<close>, or by one \<open>write\<close> per buffer. \<open>write\<close> itself is
  code outside the repository: a parameter that maps the state of the world and the bytes offered
  to an error number or the number of bytes taken, and the next state.
\<close>

type_synonym 'w writer = "'w \<Rightarrow> byte list \<Rightarrow> (errno + nat) \<times> 'w"

section \<open>From the chain to the iovec\<close>

text \<open>
  \<open>ngx_output_chain_to_iovec\<close>: neighbouring buffers are joined, the rest of the chain is returned;
  \<open>None\<close> is \<open>NGX_CHAIN_ERROR\<close>. The loop keeps \<open>prev\<close>, the end of the buffer taken last.
\<close>

fun chain_to_iovec_loop ::
  "nat \<Rightarrow> nat \<Rightarrow> ngx_chain \<Rightarrow> nat option \<Rightarrow> iovec list \<Rightarrow> nat \<Rightarrow> (ngx_iovec \<times> ngx_chain) option" where
  "chain_to_iovec_loop nalloc limit [] prev iov tot = Some (\<lparr>iovs = iov, vec_size = tot\<rparr>, [])"
| "chain_to_iovec_loop nalloc limit (b # bs) prev iov tot =
     (if \<not> tot < limit then Some (\<lparr>iovs = iov, vec_size = tot\<rparr>, b # bs)
      else if ngx_buf_special b then chain_to_iovec_loop nalloc limit bs prev iov tot
      else if cb_in_file b then Some (\<lparr>iovs = iov, vec_size = tot\<rparr>, b # bs)
      else if \<not> ngx_buf_in_memory b then None
      else
        (let sz = cb_last b - cb_pos b; sz = (if sz > limit - tot then limit - tot else sz) in
         if prev = Some (cb_pos b) then
           chain_to_iovec_loop nalloc limit bs (Some (cb_pos b + sz))
             (butlast iov @ [(last iov)\<lparr>iov_len := iov_len (last iov) + sz\<rparr>]) (tot + sz)
         else if length iov = nalloc then Some (\<lparr>iovs = iov, vec_size = tot\<rparr>, b # bs)
         else
           chain_to_iovec_loop nalloc limit bs (Some (cb_pos b + sz))
             (iov @ [\<lparr>iov_base = cb_pos b, iov_len = sz\<rparr>]) (tot + sz)))"

definition ngx_output_chain_to_iovec :: "nat \<Rightarrow> ngx_chain \<Rightarrow> nat \<Rightarrow> (ngx_iovec \<times> ngx_chain) option" where
  "ngx_output_chain_to_iovec nalloc ch limit = chain_to_iovec_loop nalloc limit ch None [] 0"

section \<open>Writing\<close>

text \<open>
  One \<open>write\<close> per buffer, until one is not taken whole. An error behind bytes that were taken is
  not reported: the bytes are.
\<close>

fun write_each :: "'w writer \<Rightarrow> byte list \<Rightarrow> 'w \<Rightarrow> iovec list \<Rightarrow> nat \<Rightarrow> (errno + nat) \<times> 'w" where
  "write_each wr mem w [] tot = (Inr tot, w)"
| "write_each wr mem w (v # vs) tot =
     (case wr w (iov_bytes mem v) of
        (Inl e, w) \<Rightarrow> (if tot \<noteq> 0 then Inr tot else Inl e, w)
      | (Inr rc, w) \<Rightarrow>
          if rc < iov_len v then (Inr (tot + rc), w) else write_each wr mem w vs (tot + rc))"

text \<open>
  The \<open>#ifdef __wasi__\<close> block. Copying more than the 4096 bytes of the buffer on the stack would
  be undefined: \<open>None\<close>.
\<close>

definition wasi_writev :: "'w writer \<Rightarrow> byte list \<Rightarrow> 'w \<Rightarrow> ngx_iovec \<Rightarrow> ((errno + nat) \<times> 'w) option" where
  "wasi_writev wr mem w vec =
     (if length (iovs vec) > 1 \<and> vec_size vec \<le> 4096 then
        (let buffer = concat (map (iov_bytes mem) (iovs vec)) in
         if length buffer \<le> 4096 then Some (wr w (take (vec_size vec) buffer)) else None)
      else Some (write_each wr mem w (iovs vec) 0))"

datatype send_result = Sent nat | Send_again | Send_error

text \<open>
  \<open>ngx_writev\<close> starts again after \<open>EINTR\<close>. \<open>Send_again\<close> is \<open>NGX_AGAIN\<close>; with
  \<open>Send_error\<close> (\<open>NGX_ERROR\<close>) it sets \<open>c->write->error\<close>.
\<close>

partial_function (option) ngx_writev ::
  "'w writer \<Rightarrow> byte list \<Rightarrow> 'w \<Rightarrow> ngx_iovec \<Rightarrow> (send_result \<times> 'w) option" where
  "ngx_writev wr mem w vec =
     (case wasi_writev wr mem w vec of
        None \<Rightarrow> None
      | Some (Inr n, w) \<Rightarrow> Some (Sent n, w)
      | Some (Inl EAGAIN, w) \<Rightarrow> Some (Send_again, w)
      | Some (Inl EINTR, w) \<Rightarrow> ngx_writev wr mem w vec
      | Some (Inl (EOTHER k), w) \<Rightarrow> Some (Send_error, w))"

section \<open>Chains\<close>

record ngx_conn =
  conn_ready :: bool  \<comment> \<open>\<open>c->write->ready\<close>\<close>
  conn_error :: bool  \<comment> \<open>\<open>c->write->error\<close>\<close>
  conn_sent :: nat  \<comment> \<open>\<open>c->sent\<close>\<close>

abbreviation (input) NGX_IOVS_PREALLOCATE :: nat where "NGX_IOVS_PREALLOCATE \<equiv> 64"

text \<open>
  The loop of \<open>ngx_writev_chain\<close>; the result \<open>Some (None, ...)\<close> is \<open>NGX_CHAIN_ERROR\<close>.
\<close>

partial_function (option) writev_chain_loop ::
  "'w writer \<Rightarrow> byte list \<Rightarrow> nat \<Rightarrow> 'w \<Rightarrow> ngx_conn \<Rightarrow> ngx_chain \<Rightarrow> nat \<Rightarrow>
   (ngx_chain option \<times> ngx_conn \<times> 'w) option" where
  "writev_chain_loop wr mem limit w c ch send =
     (case ngx_output_chain_to_iovec NGX_IOVS_PREALLOCATE ch (limit - send) of
        None \<Rightarrow> Some (None, c, w)
      | Some (vec, cl) \<Rightarrow>
          (if cl \<noteq> [] \<and> cb_in_file (hd cl) then Some (None, c, w)
           else
             (case ngx_writev wr mem w vec of
                None \<Rightarrow> None
              | Some (Send_error, w) \<Rightarrow> Some (None, c\<lparr>conn_error := True\<rparr>, w)
              | Some (res, w) \<Rightarrow>
                  (let sent = (case res of Sent n \<Rightarrow> n | _ \<Rightarrow> 0);
                       c = c\<lparr>conn_sent := conn_sent c + sent\<rparr>;
                       rest = snd (ngx_chain_update_sent ch sent);
                       send = send + vec_size vec
                   in
                   if vec_size vec \<noteq> sent then Some (Some rest, c\<lparr>conn_ready := False\<rparr>, w)
                   else if send \<ge> limit \<or> rest = [] then Some (Some rest, c, w)
                   else writev_chain_loop wr mem limit w c rest send))))"

text \<open>The limit in force; \<open>max_limit\<close> is \<open>NGX_MAX_SIZE_T_VALUE - ngx_pagesize\<close>.\<close>

definition send_limit :: "nat \<Rightarrow> nat \<Rightarrow> nat" where
  "send_limit max_limit limit = (if limit = 0 \<or> limit > max_limit then max_limit else limit)"

definition ngx_writev_chain ::
  "'w writer \<Rightarrow> byte list \<Rightarrow> nat \<Rightarrow> 'w \<Rightarrow> ngx_conn \<Rightarrow> ngx_chain \<Rightarrow> nat \<Rightarrow>
   (ngx_chain option \<times> ngx_conn \<times> 'w) option" where
  "ngx_writev_chain wr mem max_limit w c ch limit =
     (if \<not> conn_ready c then Some (Some ch, c, w)
      else writev_chain_loop wr mem (send_limit max_limit limit) w c ch 0)"

end
