(* ===== verification/Ngx_Writev_Proofs.thy ===== *)
theory Ngx_Writev_Proofs
  imports Ngx_Writev
begin

text \<open>
  Proofs about sending chains: nothing is lost, repeated or reordered, whatever prefix \<open>write\<close>
  takes each time.
\<close>

section \<open>What \<open>write\<close> promises\<close>

text \<open>
  The contract of \<open>write\<close> on a stream, stated over a view \<open>sent\<close> of what the peer was given:
  the bytes taken are a prefix of the bytes offered, and an error takes none. Interruptions
  (\<open>EINTR\<close>) do not go on for ever: \<open>pend\<close> bounds those to come.
\<close>

definition sink_ok :: "'w writer \<Rightarrow> ('w \<Rightarrow> byte list) \<Rightarrow> ('w \<Rightarrow> nat) \<Rightarrow> bool" where
  "sink_ok wr sent pend \<longleftrightarrow>
     (\<forall>w bs. case wr w bs of
        (Inr n, w') \<Rightarrow> n \<le> length bs \<and> sent w' = sent w @ take n bs \<and> pend w' \<le> pend w
      | (Inl e, w') \<Rightarrow> sent w' = sent w \<and> pend w' \<le> pend w \<and> (e = EINTR \<longrightarrow> pend w' < pend w))"

lemma sink_ok_Inr:
  "sink_ok wr sent pend \<Longrightarrow> wr w bs = (Inr n, w') \<Longrightarrow>
   n \<le> length bs \<and> sent w' = sent w @ take n bs \<and> pend w' \<le> pend w"
  unfolding sink_ok_def by (drule spec [of _ w], drule spec [of _ bs]) simp

lemma sink_ok_Inl:
  "sink_ok wr sent pend \<Longrightarrow> wr w bs = (Inl e, w') \<Longrightarrow>
   sent w' = sent w \<and> pend w' \<le> pend w \<and> (e = EINTR \<longrightarrow> pend w' < pend w)"
  unfolding sink_ok_def by (drule spec [of _ w], drule spec [of _ bs]) simp

section \<open>The iovec stands for a prefix of the chain\<close>

definition iov_ok :: "byte list \<Rightarrow> iovec \<Rightarrow> bool" where
  "iov_ok mem v \<longleftrightarrow> iov_base v + iov_len v \<le> length mem"

definition iovs_bytes :: "byte list \<Rightarrow> iovec list \<Rightarrow> byte list" where
  "iovs_bytes mem vs = concat (map (iov_bytes mem) vs)"

lemma iovs_bytes_simps [simp]:
  "iovs_bytes mem [] = []"
  "iovs_bytes mem (v # vs) = iov_bytes mem v @ iovs_bytes mem vs"
  "iovs_bytes mem (vs @ vs') = iovs_bytes mem vs @ iovs_bytes mem vs'"
  by (simp_all add: iovs_bytes_def)

lemma length_iov_bytes [simp]: "iov_ok mem v \<Longrightarrow> length (iov_bytes mem v) = iov_len v"
  by (simp add: iov_ok_def iov_bytes_def)

lemma iov_bytes_zero: "iov_len v = 0 \<Longrightarrow> iov_bytes mem v = []"
  by (simp add: iov_bytes_def)

text \<open>The vector built so far, and the end of the buffer taken last.\<close>

definition iov_inv :: "byte list \<Rightarrow> nat option \<Rightarrow> iovec list \<Rightarrow> nat \<Rightarrow> bool" where
  "iov_inv mem prev iov tot \<longleftrightarrow>
     list_all (iov_ok mem) iov \<and> length (iovs_bytes mem iov) = tot \<and>
     (\<forall>q. prev = Some q \<longrightarrow> iov \<noteq> [] \<and> iov_base (last iov) + iov_len (last iov) = q)"

lemma iov_inv_extend:
  assumes "iov_inv mem (Some p) iov tot" "p + sz \<le> length mem"
  defines "iov' \<equiv> butlast iov @ [(last iov)\<lparr>iov_len := iov_len (last iov) + sz\<rparr>]"
  shows "iov_inv mem (Some (p + sz)) iov' (tot + sz)"
    and "iovs_bytes mem iov' = iovs_bytes mem iov @ byte_range p (p + sz) mem"
proof -
  obtain vs v where iov: "iov = vs @ [v]" and v: "iov_base v + iov_len v = p"
    using assms(1) by (cases iov rule: rev_cases) (auto simp: iov_inv_def)
  have ext: "iov_bytes mem (v\<lparr>iov_len := iov_len v + sz\<rparr>) = iov_bytes mem v @ byte_range p (p + sz) mem"
    using byte_range_append [of "iov_base v" p "p + sz" mem] v
    by (simp add: iov_bytes_def) (simp add: add.assoc [symmetric])
  then show "iovs_bytes mem iov' = iovs_bytes mem iov @ byte_range p (p + sz) mem"
    by (simp add: iov'_def iov)
  with assms(1,2) show "iov_inv mem (Some (p + sz)) iov' (tot + sz)"
    using v by (auto simp: iov_inv_def iov'_def iov iov_ok_def)
qed

lemma iov_inv_new:
  assumes "iov_inv mem prev iov tot" "p + sz \<le> length mem"
  shows "iov_inv mem (Some (p + sz)) (iov @ [\<lparr>iov_base = p, iov_len = sz\<rparr>]) (tot + sz)"
  using assms by (auto simp: iov_inv_def iov_ok_def iov_bytes_def)

text \<open>
  The postcondition of the loop: the vector holds what it held before and the first
  \<open>vec_size - tot\<close> bytes of the chain.
\<close>

definition iov_post :: "byte list \<Rightarrow> nat \<Rightarrow> byte list \<Rightarrow> byte list \<Rightarrow> ngx_iovec \<Rightarrow> bool" where
  "iov_post mem limit done0 todo vec \<longleftrightarrow>
     list_all (iov_ok mem) (iovs vec) \<and>
     (\<exists>n \<le> length todo. iovs_bytes mem (iovs vec) = done0 @ take n todo \<and> vec_size vec = length done0 + n \<and>
        vec_size vec \<le> limit)"

lemma iov_post_step:
  assumes "iov_post mem limit (d @ take n bs) rest vec" "n = length bs \<or> length (d @ take n bs) = limit"
    "n \<le> length bs"
  shows "iov_post mem limit d (bs @ rest) vec"
proof -
  obtain k where k: "k \<le> length rest" "iovs_bytes mem (iovs vec) = d @ take n bs @ take k rest"
    "vec_size vec = length d + n + k" "vec_size vec \<le> limit" "list_all (iov_ok mem) (iovs vec)"
    using assms(1,3) by (auto simp: iov_post_def)
  show ?thesis
    unfolding iov_post_def
  proof (intro conjI exI [of _ "n + k"])
    show "iovs_bytes mem (iovs vec) = d @ take (n + k) (bs @ rest)"
      using assms(2,3) k by auto
  qed (use k assms(3) in simp_all)
qed

lemma chain_to_iovec_loop_post:
  assumes "list_all (mem_buf_ok mem) ch" "iov_inv mem prev iov tot" "tot \<le> limit"
  shows "\<exists>vec cl. chain_to_iovec_loop nalloc limit ch prev iov tot = Some (vec, cl)
    \<and> iov_post mem limit (iovs_bytes mem iov) (chain_bytes mem ch) vec
    \<and> (cl \<noteq> [] \<longrightarrow> \<not> cb_in_file (hd cl))"
  using assms
proof (induction ch arbitrary: prev iov tot)
  case Nil
  then show ?case by (auto simp: iov_inv_def iov_post_def)
next
  case (Cons b bs)
  have stop: "iov_post mem limit (iovs_bytes mem iov) todo \<lparr>iovs = iov, vec_size = tot\<rparr>" for todo
    using Cons.prems by (auto simp: iov_inv_def iov_post_def intro!: exI [of _ 0])
  have nofile: "\<not> cb_in_file b"
    using Cons.prems(1) by (auto simp: mem_buf_ok_def ngx_buf_special_def)
  show ?case
  proof (cases "tot < limit \<and> \<not> ngx_buf_special b")
    case False
    then show ?thesis using Cons nofile stop by (auto simp: buf_bytes_def)
  next
    case True
    then have mem: "ngx_buf_in_memory b" "cb_pos b < cb_last b" "cb_last b \<le> length mem"
      using Cons.prems(1) by (auto simp: mem_buf_ok_def)
    define sz where "sz = min (cb_last b - cb_pos b) (limit - tot)"
    have sz: "(if cb_last b - cb_pos b > limit - tot then limit - tot else cb_last b - cb_pos b) = sz"
      by (simp add: sz_def)
    have bytes: "byte_range (cb_pos b) (cb_pos b + sz) mem = take sz (buf_bytes mem b)"
      using True by (simp add: buf_bytes_def byte_range_take sz_def)
    have fits: "cb_pos b + sz \<le> length mem" "tot + sz \<le> limit" using mem True by (auto simp: sz_def)
    have lb: "length (buf_bytes mem b) = cb_last b - cb_pos b"
      using mem True by (simp add: buf_bytes_def)
    have whole: "sz \<le> length (buf_bytes mem b)"
      "sz = length (buf_bytes mem b) \<or> length (iovs_bytes mem iov @ take sz (buf_bytes mem b)) = limit"
      using Cons.prems(2) True lb by (auto simp: sz_def iov_inv_def)
    have step: ?thesis
      if nxt: "iov_inv mem (Some (cb_pos b + sz)) iov' (tot + sz)"
        "iovs_bytes mem iov' = iovs_bytes mem iov @ take sz (buf_bytes mem b)"
        "chain_to_iovec_loop nalloc limit (b # bs) prev iov tot =
         chain_to_iovec_loop nalloc limit bs (Some (cb_pos b + sz)) iov' (tot + sz)" for iov'
    proof -
      obtain vec cl where "chain_to_iovec_loop nalloc limit bs (Some (cb_pos b + sz)) iov' (tot + sz) = Some (vec, cl)"
        "iov_post mem limit (iovs_bytes mem iov') (chain_bytes mem bs) vec" "cl \<noteq> [] \<longrightarrow> \<not> cb_in_file (hd cl)"
        using Cons.IH [OF _ nxt(1) fits(2)] Cons.prems(1) by auto
      with nxt(2,3) show ?thesis using iov_post_step [OF _ whole(2,1)] by simp
    qed
    consider "prev = Some (cb_pos b)" | "prev \<noteq> Some (cb_pos b)" "length iov = nalloc"
      | "prev \<noteq> Some (cb_pos b)" "length iov \<noteq> nalloc" by blast
    then show ?thesis
    proof cases
      case 1
      show ?thesis
        by (rule step [OF iov_inv_extend(1) [OF Cons.prems(2) [unfolded 1] fits(1)]])
          (use True mem nofile 1 bytes iov_inv_extend(2) [OF Cons.prems(2) [unfolded 1] fits(1)] sz in
            \<open>simp_all add: Let_def\<close>)
    next
      case 2
      then show ?thesis using True mem nofile stop by (simp add: Let_def)
    next
      case 3
      show ?thesis
        by (rule step [OF iov_inv_new [OF Cons.prems(2) fits(1)]])
          (use True mem nofile 3 bytes sz in \<open>simp_all add: Let_def iov_bytes_def\<close>)
    qed
  qed
qed

lemma chain_to_iovec_grows:
  "chain_to_iovec_loop nalloc limit ch prev iov tot = Some (vec, cl) \<Longrightarrow> tot \<le> vec_size vec"
  by (induction nalloc limit ch prev iov tot rule: chain_to_iovec_loop.induct)
    (fastforce simp: Let_def split: if_splits)+

text \<open>With room for a byte, a chain with a byte gives a vector with a byte.\<close>

lemma chain_to_iovec_progress:
  assumes "list_all (mem_buf_ok mem) ch" "chain_bytes mem ch \<noteq> []" "0 < limit" "0 < nalloc"
    "chain_to_iovec_loop nalloc limit ch None [] 0 = Some (vec, cl)"
  shows "0 < vec_size vec"
  using assms
proof (induction ch)
  case (Cons b bs)
  show ?case
  proof (cases "ngx_buf_special b")
    case True
    with Cons show ?thesis by (simp add: buf_bytes_def)
  next
    case False
    then have "ngx_buf_in_memory b" "\<not> cb_in_file b" "cb_pos b < cb_last b"
      using Cons.prems(1) by (auto simp: mem_buf_ok_def)
    with False Cons.prems(3-5) show ?thesis
      by (auto simp: Let_def split: if_splits dest!: chain_to_iovec_grows)
  qed
qed simp


section \<open>The WASI replacement of \<open>writev\<close>\<close>

text \<open>What the world looks like after \<open>n\<close> bytes of \<open>bs\<close> were taken.\<close>

definition took :: "('w \<Rightarrow> byte list) \<Rightarrow> ('w \<Rightarrow> nat) \<Rightarrow> 'w \<Rightarrow> byte list \<Rightarrow> nat \<Rightarrow> 'w \<Rightarrow> bool" where
  "took sent pend w bs n w' \<longleftrightarrow> n \<le> length bs \<and> sent w' = sent w @ take n bs \<and> pend w' \<le> pend w"

lemma write_each_took:
  assumes "sink_ok wr sent pend" "list_all (iov_ok mem) vs"
  shows "case write_each wr mem w vs tot of
      (Inr n, w') \<Rightarrow> tot \<le> n \<and> took sent pend w (iovs_bytes mem vs) (n - tot) w'
    | (Inl e, w') \<Rightarrow> tot = 0 \<and> sent w' = sent w \<and> pend w' \<le> pend w \<and> (e = EINTR \<longrightarrow> pend w' < pend w)"
  using assms(2)
proof (induction vs arbitrary: w tot)
  case (Cons v vs)
  obtain res w1 where wr: "wr w (iov_bytes mem v) = (res, w1)" by fastforce
  show ?case
  proof (cases res)
    case (Inl e)
    with sink_ok_Inl [OF assms(1) wr [unfolded Inl]] wr show ?thesis by (auto simp: took_def)
  next
    case (Inr rc)
    have rc: "rc \<le> iov_len v" "sent w1 = sent w @ take rc (iov_bytes mem v)" "pend w1 \<le> pend w"
      using sink_ok_Inr [OF assms(1) wr [unfolded Inr]] Cons.prems by simp_all
    show ?thesis
    proof (cases "rc < iov_len v")
      case True
      with Cons.prems rc wr Inr show ?thesis by (simp add: took_def)
    next
      case False
      with rc have "rc = iov_len v" by simp
      with Cons.IH [where w = w1 and tot = "tot + rc"] Cons.prems rc wr Inr False show ?thesis
        by (auto simp: took_def iov_bytes_zero split: prod.splits sum.splits)
    qed
  qed
qed (simp add: took_def)

text \<open>
  A vector whose recorded size is the sum of its parts: the copy never leaves the buffer of 4096
  bytes.
\<close>

definition vec_ok :: "byte list \<Rightarrow> ngx_iovec \<Rightarrow> bool" where
  "vec_ok mem vec \<longleftrightarrow> list_all (iov_ok mem) (iovs vec) \<and> vec_size vec = length (iovs_bytes mem (iovs vec))"

lemma wasi_writev_took:
  assumes "sink_ok wr sent pend" "vec_ok mem vec"
  shows "\<exists>res w'. wasi_writev wr mem w vec = Some (res, w') \<and>
    (case res of
       Inr n \<Rightarrow> took sent pend w (iovs_bytes mem (iovs vec)) n w'
     | Inl e \<Rightarrow> sent w' = sent w \<and> pend w' \<le> pend w \<and> (e = EINTR \<longrightarrow> pend w' < pend w))"
proof (cases "length (iovs vec) > 1 \<and> vec_size vec \<le> 4096")
  case True
  obtain res w' where wr: "wr w (iovs_bytes mem (iovs vec)) = (res, w')" by fastforce
  have "wasi_writev wr mem w vec = Some (res, w')"
    using True assms(2) wr by (simp add: wasi_writev_def vec_ok_def iovs_bytes_def)
  with wr show ?thesis
    using sink_ok_Inl [OF assms(1)] sink_ok_Inr [OF assms(1)]
    by (cases res) (auto simp: took_def)
next
  case False
  with write_each_took [OF assms(1), where mem = mem and vs = "iovs vec" and w = w and tot = 0] assms(2) show ?thesis
    by (cases "write_each wr mem w (iovs vec) 0") (auto simp: wasi_writev_def vec_ok_def split: sum.splits)
qed

text \<open>What \<open>ngx_writev\<close> reports is what happened.\<close>

definition send_post :: "('w \<Rightarrow> byte list) \<Rightarrow> ('w \<Rightarrow> nat) \<Rightarrow> 'w \<Rightarrow> byte list \<Rightarrow> send_result \<Rightarrow> 'w \<Rightarrow> bool" where
  "send_post sent pend w bs res w' \<longleftrightarrow>
     took sent pend w bs (case res of Sent n \<Rightarrow> n | _ \<Rightarrow> 0) w'"

lemma ngx_writev_took:
  assumes "sink_ok wr sent pend" "vec_ok mem vec"
  shows "\<exists>res w'. ngx_writev wr mem w vec = Some (res, w') \<and> send_post sent pend w (iovs_bytes mem (iovs vec)) res w'"
proof (induction "pend w" arbitrary: w rule: less_induct)
  case less
  obtain res w1 where w1: "wasi_writev wr mem w vec = Some (res, w1)"
    and post: "case res of
       Inr n \<Rightarrow> took sent pend w (iovs_bytes mem (iovs vec)) n w1
     | Inl e \<Rightarrow> sent w1 = sent w \<and> pend w1 \<le> pend w \<and> (e = EINTR \<longrightarrow> pend w1 < pend w)"
    using wasi_writev_took [OF assms] by blast
  show ?case
  proof (cases "res = Inl EINTR")
    case True
    with post have w1': "pend w1 < pend w" "sent w1 = sent w" by simp_all
    obtain r w2 where "ngx_writev wr mem w1 vec = Some (r, w2)"
      "send_post sent pend w1 (iovs_bytes mem (iovs vec)) r w2"
      using less.hyps [OF w1'(1)] by blast
    with w1 w1' True show ?thesis by (subst ngx_writev.simps) (auto simp: send_post_def took_def)
  next
    case False
    with w1 post show ?thesis
      by (subst ngx_writev.simps) (auto simp: send_post_def took_def split: sum.splits errno.splits)
  qed
qed


section \<open>The chain\<close>

text \<open>Only a chain without bytes is used up by sending none.\<close>

lemma update_sent_empty:
  "list_all (mem_buf_ok mem) ch \<Longrightarrow> chain_bytes mem ch = [] \<Longrightarrow> snd (ngx_chain_update_sent ch 0) = []"
proof (induction ch)
  case (Cons b bs)
  have "ngx_buf_special b"
  proof (rule ccontr)
    assume "\<not> ngx_buf_special b"
    with Cons.prems length_buf_bytes [of mem b] show False by (simp add: mem_buf_ok_def)
  qed
  with Cons show ?case by (cases "ngx_chain_update_sent bs 0") simp
qed simp

text \<open>
  The outcome of sending a chain: a number \<open>n\<close> of bytes, at most the limit, was taken from its
  front and counted; the chain that is returned holds the others, and a connection left ready has
  sent all it was allowed to.
\<close>

definition chain_post ::
  "('w \<Rightarrow> byte list) \<Rightarrow> byte list \<Rightarrow> nat \<Rightarrow> 'w \<Rightarrow> ngx_conn \<Rightarrow> byte list \<Rightarrow> ngx_chain option \<Rightarrow> ngx_conn \<Rightarrow> 'w \<Rightarrow> nat \<Rightarrow> bool" where
  "chain_post sent mem limit w c bs rest c' w' n \<longleftrightarrow>
     n \<le> min limit (length bs) \<and> sent w' = sent w @ take n bs \<and> conn_sent c' = conn_sent c + n \<and>
     (case rest of
        None \<Rightarrow> conn_error c'
      | Some r \<Rightarrow> chain_bytes mem r = drop n bs \<and> list_all (mem_buf_ok mem) r \<and>
          (conn_ready c' \<longrightarrow> n = min limit (length bs)))"

lemma chain_post_step:
  assumes "chain_post sent mem (limit - k) w1 (c\<lparr>conn_sent := conn_sent c + k\<rparr>) (drop k bs) rest c' w' n"
    "k \<le> min limit (length bs)" "sent w1 = sent w @ take k bs"
  shows "chain_post sent mem limit w c bs rest c' w' (k + n)"
  using assms min_diff [of limit k "length bs"]
  by (cases rest) (auto simp: chain_post_def take_add add.commute)

lemma writev_chain_loop_post:
  assumes sink: "sink_ok wr sent pend" and "list_all (mem_buf_ok mem) ch" "send < limit"
  shows "\<exists>rest c' w' n. writev_chain_loop wr mem limit w c ch send = Some (rest, c', w')
    \<and> chain_post sent mem (limit - send) w c (chain_bytes mem ch) rest c' w' n"
  using assms(2,3)
proof (induction "length (chain_bytes mem ch)" arbitrary: ch send w c rule: less_induct)
  case less
  define bs where "bs = chain_bytes mem ch"
  have inv: "iov_inv mem None [] 0" by (simp add: iov_inv_def)
  obtain vec cl where iov: "chain_to_iovec_loop NGX_IOVS_PREALLOCATE (limit - send) ch None [] 0 = Some (vec, cl)"
    and cl: "cl \<noteq> [] \<longrightarrow> \<not> cb_in_file (hd cl)" and "iov_post mem (limit - send) [] bs vec"
    using chain_to_iovec_loop_post [OF less.prems(1) inv, where limit = "limit - send" and nalloc = NGX_IOVS_PREALLOCATE]
    by (auto simp: bs_def)
  then have vec: "vec_ok mem vec" "iovs_bytes mem (iovs vec) = take (vec_size vec) bs" "vec_size vec \<le> limit - send"
      "vec_size vec \<le> length bs"
    by (auto simp: iov_post_def vec_ok_def)
  obtain res w1 where wr: "ngx_writev wr mem w vec = Some (res, w1)"
    and post: "send_post sent pend w (take (vec_size vec) bs) res w1"
    using ngx_writev_took [OF sink vec(1), where w = w] vec(2) by auto
  define k where "k = (case res of Sent n \<Rightarrow> n | _ \<Rightarrow> 0)"
  have k: "k \<le> vec_size vec" "sent w1 = sent w @ take k bs"
    using post vec(4) by (simp_all add: send_post_def took_def min_absorb1 flip: k_def)
  define rest where "rest = snd (ngx_chain_update_sent ch k)"
  have rest: "chain_bytes mem rest = drop k bs" "list_all (mem_buf_ok mem) rest"
    using chain_update_sent_bytes [OF less.prems(1), of k] k(1) vec(4) by (simp_all add: rest_def bs_def)
  have loop: "writev_chain_loop wr mem limit w c ch send =
      (if res = Send_error then Some (None, c\<lparr>conn_error := True\<rparr>, w1)
       else if vec_size vec \<noteq> k then Some (Some rest, c\<lparr>conn_sent := conn_sent c + k, conn_ready := False\<rparr>, w1)
       else if send + k \<ge> limit \<or> rest = [] then Some (Some rest, c\<lparr>conn_sent := conn_sent c + k\<rparr>, w1)
       else writev_chain_loop wr mem limit w1 (c\<lparr>conn_sent := conn_sent c + k\<rparr>) rest (send + k))"
    using iov cl wr
    by (subst writev_chain_loop.simps)
      (auto simp: ngx_output_chain_to_iovec_def k_def rest_def Let_def split: send_result.splits)
  consider (err) "res = Send_error" | (short) "res \<noteq> Send_error" "vec_size vec \<noteq> k"
    | (stop) "res \<noteq> Send_error" "vec_size vec = k" "send + k \<ge> limit \<or> rest = []"
    | (more) "res \<noteq> Send_error" "vec_size vec = k" "\<not> (send + k \<ge> limit \<or> rest = [])" by blast
  then show ?case
  proof cases
    case err
    then have "k = 0" by (simp add: k_def)
    with err loop k(2) show ?thesis by (auto simp: chain_post_def)
  next
    case short
    then show ?thesis using loop k rest vec(3,4) by (auto simp: chain_post_def bs_def)
  next
    case stop
    have "k = length bs" if "rest = []" using that rest(1) k(1) vec(4) by simp
    then have "k = min (limit - send) (length bs)" using stop(3) k(1) vec(3,4) by auto
    then show ?thesis using stop loop k rest vec(3,4) by (auto simp: chain_post_def bs_def)
  next
    case more
    have "k > 0"
    proof (rule ccontr)
      assume "\<not> k > 0"
      then have "k = 0" "bs = []"
        using chain_to_iovec_progress [OF less.prems(1) _ _ _ iov] less.prems(2) more(2) by (auto simp: bs_def)
      then have "rest = []" using update_sent_empty [OF less.prems(1)] by (simp add: rest_def bs_def)
      with more(3) show False by simp
    qed
    then have "length (chain_bytes mem rest) < length (chain_bytes mem ch)" "send + k < limit"
      using rest(1) more k(1) vec(3,4) by (auto simp: bs_def)
    from less.hyps [OF this(1) rest(2) this(2), where w = w1 and c = "c\<lparr>conn_sent := conn_sent c + k\<rparr>"]
    obtain r c' w' n where "writev_chain_loop wr mem limit w1 (c\<lparr>conn_sent := conn_sent c + k\<rparr>) rest (send + k) = Some (r, c', w')"
      "chain_post sent mem (limit - send - k) w1 (c\<lparr>conn_sent := conn_sent c + k\<rparr>) (drop k bs) r c' w' n"
      using rest(1) by auto
    with loop more chain_post_step [OF this(2) _ k(2)] k(1) vec(3,4) show ?thesis
      by (auto simp: bs_def)
  qed
qed


section \<open>Properties\<close>

text \<open>
  C14: The WASI replacement of \<open>writev\<close> (the copy into one buffer of 4096 bytes, or one \<open>write\<close>
  per buffer, and again after an interruption) always returns, never copies more than its buffer
  holds, and reports exactly what happened: the number of bytes it returns is the length of the
  prefix of the gathered bytes that was taken, and \<open>NGX_AGAIN\<close> and \<open>NGX_ERROR\<close> mean that none
  was.
\<close>

theorem writev_prefix:
  assumes "sink_ok wr sent pend" "vec_ok mem vec"
  shows "\<exists>res w'. ngx_writev wr mem w vec = Some (res, w') \<and>
    (case res of
       Sent n \<Rightarrow> n \<le> vec_size vec \<and> sent w' = sent w @ take n (iovs_bytes mem (iovs vec))
     | Send_again \<Rightarrow> sent w' = sent w
     | Send_error \<Rightarrow> sent w' = sent w)"
proof -
  obtain res w' where "ngx_writev wr mem w vec = Some (res, w')"
    "send_post sent pend w (iovs_bytes mem (iovs vec)) res w'"
    using ngx_writev_took [OF assms] by blast
  then show ?thesis
    using assms(2) by (cases res) (auto simp: send_post_def took_def vec_ok_def)
qed

text \<open>A stream that takes at most five bytes at a time, after one interruption.\<close>

definition short_write :: "(byte list \<times> nat) writer" where
  "short_write w bs =
     (if snd w > 0 then (Inl EINTR, (fst w, snd w - 1)) else (Inr (min 5 (length bs)), (fst w @ take 5 bs, 0)))"

lemma short_write_ok: "sink_ok short_write fst snd"
  by (simp add: sink_ok_def short_write_def min_def)

theorem writev_prefix_witness:
  "\<exists>res w'. ngx_writev short_write (str8 ''hello, world'') ([], 1)
      \<lparr>iovs = [\<lparr>iov_base = 0, iov_len = 3\<rparr>, \<lparr>iov_base = 7, iov_len = 5\<rparr>], vec_size = 8\<rparr> = Some (res, w') \<and>
    (case res of
       Sent n \<Rightarrow> n \<le> 8 \<and> fst w' = take n (str8 ''helworld'')
     | Send_again \<Rightarrow> fst w' = []
     | Send_error \<Rightarrow> fst w' = [])"
  using writev_prefix [OF short_write_ok, where mem = "str8 ''hello, world''" and w = "([], 1)"
      and vec = "\<lparr>iovs = [\<lparr>iov_base = 0, iov_len = 3\<rparr>, \<lparr>iov_base = 7, iov_len = 5\<rparr>], vec_size = 8\<rparr>"]
  by (simp add: vec_ok_def iov_ok_def iov_bytes_def byte_range_def cong: send_result.case_cong)

text \<open>
  C15: Sending a chain of memory buffers ends, and neither loses, repeats nor reorders a byte,
  however \<open>write\<close> splits the stream: for the number \<open>n\<close> of bytes taken, at most the limit, the peer
  has got the first \<open>n\<close> bytes of the chain, \<open>c->sent\<close> has grown by \<open>n\<close>, and the chain that is returned
  holds exactly the bytes from \<open>n\<close> on, in buffers that are again fit to be sent. When the connection is
  left ready, all bytes within the limit were taken; \<open>NGX_CHAIN_ERROR\<close> is returned only with
  \<open>c->write->error\<close> set.
\<close>

theorem writev_chain_no_loss:
  assumes "sink_ok wr sent pend" "list_all (mem_buf_ok mem) ch" "0 < max_limit"
  shows "\<exists>rest c' w' n. ngx_writev_chain wr mem max_limit w c ch limit = Some (rest, c', w')
    \<and> n \<le> min (send_limit max_limit limit) (length (chain_bytes mem ch)) \<and> sent w' = sent w @ take n (chain_bytes mem ch)
    \<and> conn_sent c' = conn_sent c + n
    \<and> (case rest of
         None \<Rightarrow> conn_error c'
       | Some r \<Rightarrow> chain_bytes mem r = drop n (chain_bytes mem ch) \<and> list_all (mem_buf_ok mem) r \<and>
           (conn_ready c' \<longrightarrow> n = min (send_limit max_limit limit) (length (chain_bytes mem ch))))"
proof (cases "conn_ready c")
  case True
  have "0 < send_limit max_limit limit" using assms(3) by (simp add: send_limit_def)
  with writev_chain_loop_post [OF assms(1,2), of 0 "send_limit max_limit limit" w c] True show ?thesis
    by (auto simp: ngx_writev_chain_def chain_post_def)
next
  case False
  with assms(2) show ?thesis by (auto simp: ngx_writev_chain_def intro!: exI [of _ 0])
qed

definition sample_buf :: "nat \<Rightarrow> nat \<Rightarrow> chain_buf" where
  "sample_buf i j =
     \<lparr>cb_pos = i, cb_last = j, cb_file_pos = 0, cb_file_last = 0, cb_start = i, cb_end = j, cb_temporary = False,
      cb_memory = True, cb_mmap = False, cb_in_file = False, cb_flush = False, cb_sync = False, cb_last_buf = False\<rparr>"

definition sample_flush :: chain_buf where
  "sample_flush = (sample_buf 0 0)\<lparr>cb_memory := False, cb_flush := True, cb_last_buf := True\<rparr>"

theorem writev_chain_no_loss_witness:
  "\<exists>rest c' w' n. ngx_writev_chain short_write (str8 ''hello, world'') 1000 ([], 1)
      \<lparr>conn_ready = True, conn_error = False, conn_sent = 7\<rparr> [sample_buf 0 3, sample_buf 7 12, sample_flush] 0
        = Some (rest, c', w')
    \<and> n \<le> 8 \<and> fst w' = take n (str8 ''helworld'') \<and> conn_sent c' = 7 + n
    \<and> (case rest of
         None \<Rightarrow> conn_error c'
       | Some r \<Rightarrow> chain_bytes (str8 ''hello, world'') r = drop n (str8 ''helworld''))"
proof -
  have "list_all (mem_buf_ok (str8 ''hello, world'')) [sample_buf 0 3, sample_buf 7 12, sample_flush]"
    by (simp add: mem_buf_ok_def ngx_buf_special_def ngx_buf_in_memory_def sample_buf_def sample_flush_def)
  note ok = writev_chain_no_loss [OF short_write_ok this, where max_limit = 1000 and limit = 0 and w = "([], 1)"
      and c = "\<lparr>conn_ready = True, conn_error = False, conn_sent = 7\<rparr>"]
  have bytes: "chain_bytes (str8 ''hello, world'') [sample_buf 0 3, sample_buf 7 12, sample_flush] = str8 ''helworld''"
    by (simp add: buf_bytes_def byte_range_def ngx_buf_special_def ngx_buf_in_memory_def sample_buf_def sample_flush_def)
  obtain rest c' w' n where "ngx_writev_chain short_write (str8 ''hello, world'') 1000 ([], 1)
      \<lparr>conn_ready = True, conn_error = False, conn_sent = 7\<rparr> [sample_buf 0 3, sample_buf 7 12, sample_flush] 0
        = Some (rest, c', w')"
    "n \<le> length (str8 ''helworld'')" "fst w' = take n (str8 ''helworld'')" "conn_sent c' = 7 + n"
    "case rest of None \<Rightarrow> conn_error c' | Some r \<Rightarrow> chain_bytes (str8 ''hello, world'') r = drop n (str8 ''helworld'')"
    using ok unfolding bytes by (auto split: option.splits)
  then show ?thesis
    by (intro exI [of _ rest] exI [of _ c'] exI [of _ w'] exI [of _ n] conjI) simp_all
qed

end
