(* ===== verification/Ngx_Files.thy ===== *)
theory Ngx_Files
  imports Ngx_Buf
begin

text \<open>
  Reading and writing files: \<open>src/os/unix/ngx_files.c\<close> with the branches of the WASI port.

  \<open>pread\<close> and \<open>pwrite\<close> are parameters, from the state of the world to a result and the next state. A result is an
  error number, or what was read, or how much was written. File offsets are mathematical numbers; the code
  keeps them in 64 bits.
\<close>

type_synonym 'w preader = "'w \<Rightarrow> nat \<Rightarrow> nat \<Rightarrow> (errno + byte list) \<times> 'w"
type_synonym 'w pwriter = "'w \<Rightarrow> byte list \<Rightarrow> nat \<Rightarrow> (errno + nat) \<times> 'w"

record ngx_file =
  file_offset :: nat

section \<open>Reading\<close>

text \<open>
  The WASI loop of \<open>ngx_read_file\<close>; \<open>got\<close> is what is in the buffer, \<open>done\<close> its length. A loop that does
  not end is \<open>None\<close>; the result \<open>Some (None, ...)\<close> is \<open>NGX_ERROR\<close>.
\<close>

partial_function (option) read_file_loop ::
  "'w preader \<Rightarrow> 'w \<Rightarrow> nat \<Rightarrow> nat \<Rightarrow> byte list \<Rightarrow> (byte list option \<times> 'w) option" where
  "read_file_loop pread w sz offset got =
     (if \<not> length got < sz then Some (Some got, w)
      else
        (case pread w (sz - length got) (offset + length got) of
           (Inl e, w) \<Rightarrow> if e = EINTR then read_file_loop pread w sz offset got else Some (None, w)
         | (Inr bs, w) \<Rightarrow>
             if bs = [] then Some (Some got, w) else read_file_loop pread w sz offset (got @ bs)))"

definition ngx_read_file ::
  "'w preader \<Rightarrow> 'w \<Rightarrow> ngx_file \<Rightarrow> nat \<Rightarrow> nat \<Rightarrow> (byte list option \<times> ngx_file \<times> 'w) option" where
  "ngx_read_file pread w file sz offset =
     (case read_file_loop pread w sz offset [] of
        None \<Rightarrow> None
      | Some (None, w) \<Rightarrow> Some (None, file, w)
      | Some (Some got, w) \<Rightarrow> Some (Some got, file\<lparr>file_offset := file_offset file + length got\<rparr>, w))"

section \<open>Writing\<close>

text \<open>\<open>ngx_write_file\<close>; \<open>buf\<close> is what is left of the buffer, of length \<open>size\<close>.\<close>

partial_function (option) write_file_loop ::
  "'w pwriter \<Rightarrow> 'w \<Rightarrow> ngx_file \<Rightarrow> byte list \<Rightarrow> nat \<Rightarrow> nat \<Rightarrow> (nat option \<times> ngx_file \<times> 'w) option" where
  "write_file_loop pwrite w file buf offset written =
     (case pwrite w buf offset of
        (Inl e, w) \<Rightarrow> if e = EINTR then write_file_loop pwrite w file buf offset written else Some (None, file, w)
      | (Inr n, w) \<Rightarrow>
          (let file = file\<lparr>file_offset := file_offset file + n\<rparr> in
           if n = length buf then Some (Some (written + n), file, w)
           else write_file_loop pwrite w file (drop n buf) (offset + n) (written + n)))"

definition ngx_write_file ::
  "'w pwriter \<Rightarrow> 'w \<Rightarrow> ngx_file \<Rightarrow> byte list \<Rightarrow> nat \<Rightarrow> (nat option \<times> ngx_file \<times> 'w) option" where
  "ngx_write_file pwrite w file buf offset = write_file_loop pwrite w file buf offset 0"

text \<open>\<open>ngx_chain_to_iovec\<close>: neighbouring buffers are joined; the rest of the chain is returned.\<close>

fun file_iovec_loop ::
  "nat \<Rightarrow> ngx_chain \<Rightarrow> nat option \<Rightarrow> iovec list \<Rightarrow> nat \<Rightarrow> ngx_iovec \<times> ngx_chain" where
  "file_iovec_loop nalloc [] prev iov tot = (\<lparr>iovs = iov, vec_size = tot\<rparr>, [])"
| "file_iovec_loop nalloc (b # bs) prev iov tot =
     (if ngx_buf_special b then file_iovec_loop nalloc bs prev iov tot
      else
        (let sz = cb_last b - cb_pos b in
         if prev = Some (cb_pos b) then
           file_iovec_loop nalloc bs (Some (cb_pos b + sz))
             (butlast iov @ [(last iov)\<lparr>iov_len := iov_len (last iov) + sz\<rparr>]) (tot + sz)
         else if length iov = nalloc then (\<lparr>iovs = iov, vec_size = tot\<rparr>, b # bs)
         else
           file_iovec_loop nalloc bs (Some (cb_pos b + sz)) (iov @ [\<lparr>iov_base = cb_pos b, iov_len = sz\<rparr>]) (tot + sz)))"

definition ngx_chain_to_iovec :: "nat \<Rightarrow> ngx_chain \<Rightarrow> ngx_iovec \<times> ngx_chain" where
  "ngx_chain_to_iovec nalloc cl = file_iovec_loop nalloc cl None [] 0"

text \<open>The WASI branch of \<open>ngx_writev_file\<close>: each buffer is written with \<open>ngx_write_file\<close>.\<close>

fun ngx_writev_file ::
  "'w pwriter \<Rightarrow> byte list \<Rightarrow> 'w \<Rightarrow> ngx_file \<Rightarrow> iovec list \<Rightarrow> nat \<Rightarrow> nat \<Rightarrow> (nat option \<times> ngx_file \<times> 'w) option" where
  "ngx_writev_file pwrite mem w file [] offset written = Some (Some written, file, w)"
| "ngx_writev_file pwrite mem w file (v # vs) offset written =
     (if iov_len v = 0 then ngx_writev_file pwrite mem w file vs offset written
      else
        (case ngx_write_file pwrite w file (iov_bytes mem v) (offset + written) of
           None \<Rightarrow> None
         | Some (None, file, w) \<Rightarrow> Some (None, file, w)
         | Some (Some n, file, w) \<Rightarrow> ngx_writev_file pwrite mem w file vs offset (written + n)))"

text \<open>The loop of \<open>ngx_write_chain_to_file\<close>, at most 64 pieces of memory at a time.\<close>

partial_function (option) write_chain_loop ::
  "'w pwriter \<Rightarrow> byte list \<Rightarrow> 'w \<Rightarrow> ngx_file \<Rightarrow> ngx_chain \<Rightarrow> nat \<Rightarrow> nat \<Rightarrow> (nat option \<times> ngx_file \<times> 'w) option" where
  "write_chain_loop pwrite mem w file cl offset tot =
     (let (vec, cl) = ngx_chain_to_iovec 64 cl in
      if length (iovs vec) = 1 then
        (case ngx_write_file pwrite w file (iov_bytes mem (hd (iovs vec))) offset of
           None \<Rightarrow> None
         | Some (n, file, w) \<Rightarrow> Some (map_option (\<lambda>n. tot + n) n, file, w))
      else
        (case ngx_writev_file pwrite mem w file (iovs vec) offset 0 of
           None \<Rightarrow> None
         | Some (n, file, w) \<Rightarrow>
             if n = None then Some (None, file, w)
             else if cl = [] then Some (Some (tot + the n), file, w)
             else write_chain_loop pwrite mem w file cl (offset + the n) (tot + the n)))"

definition ngx_write_chain_to_file ::
  "'w pwriter \<Rightarrow> byte list \<Rightarrow> 'w \<Rightarrow> ngx_file \<Rightarrow> ngx_chain \<Rightarrow> nat \<Rightarrow> (nat option \<times> ngx_file \<times> 'w) option" where
  "ngx_write_chain_to_file pwrite mem w file cl offset =
     (if tl cl = [] then ngx_write_file pwrite w file (byte_range (cb_pos (hd cl)) (cb_last (hd cl)) mem) offset
      else write_chain_loop pwrite mem w file cl offset 0)"

end
