(* ===== verification/Ngx_Files_Proofs.thy ===== *)
theory Ngx_Files_Proofs
  imports Ngx_Files Ngx_Writev_Proofs
begin

text \<open>
  Proofs about files: a chain is written whole at its offset, or a prefix of it before an error, and is read back
  as it was written, however the system calls cut the work up.
\<close>

section \<open>A file as a list of bytes\<close>

text \<open>What writing \<open>bs\<close> at an offset does to a file; a gap behind the end is filled with zeros.\<close>

definition write_at :: "nat \<Rightarrow> byte list \<Rightarrow> byte list \<Rightarrow> byte list" where
  "write_at off bs file =
     (if bs = [] then file
      else take off file @ replicate (off - length file) 0 @ bs @ drop (off + length bs) file)"

lemma write_at_Nil [simp]: "write_at off [] file = file"
  by (simp add: write_at_def)

lemma write_at_append: "write_at (off + length a) b (write_at off a file) = write_at off (a @ b) file"
proof (cases "a = [] \<or> b = []")
  case True
  then show ?thesis by auto
next
  case False
  let ?head = "take off file @ replicate (off - length file) 0"
  have "length ?head = off" by simp
  with False show ?thesis by (simp add: write_at_def ac_simps)
qed

lemma read_write_at: "take (length bs) (drop off (write_at off bs file)) = bs"
  by (simp add: write_at_def)

section \<open>What \<open>pwrite\<close> and \<open>pread\<close> promise\<close>

text \<open>
  \<open>pwrite\<close> puts a prefix of the bytes offered at the offset, and not none of them; \<open>pread\<close> gives a prefix of what
  the file holds from the offset on, and nothing only at the end of the file. An error changes no file, and
  \<open>pend\<close> bounds the interruptions to come.
\<close>

definition pwriter_ok :: "'w pwriter \<Rightarrow> ('w \<Rightarrow> byte list) \<Rightarrow> ('w \<Rightarrow> nat) \<Rightarrow> bool" where
  "pwriter_ok pw content pend \<longleftrightarrow>
     (\<forall>w bs off. case pw w bs off of
        (Inr n, w') \<Rightarrow> n \<le> length bs \<and> (bs \<noteq> [] \<longrightarrow> 0 < n) \<and>
          content w' = write_at off (take n bs) (content w) \<and> pend w' \<le> pend w
      | (Inl e, w') \<Rightarrow> content w' = content w \<and> pend w' \<le> pend w \<and> (e = EINTR \<longrightarrow> pend w' < pend w))"

definition preader_ok :: "'w preader \<Rightarrow> ('w \<Rightarrow> byte list) \<Rightarrow> ('w \<Rightarrow> nat) \<Rightarrow> bool" where
  "preader_ok pr content pend \<longleftrightarrow>
     (\<forall>w sz off. case pr w sz off of
        (Inr bs, w') \<Rightarrow> length bs \<le> sz \<and> bs = take (length bs) (drop off (content w)) \<and>
          (0 < sz \<and> off < length (content w) \<longrightarrow> bs \<noteq> []) \<and> content w' = content w \<and> pend w' \<le> pend w
      | (Inl e, w') \<Rightarrow> content w' = content w \<and> pend w' \<le> pend w \<and> (e = EINTR \<longrightarrow> pend w' < pend w))"

text \<open>The only error of a call is the interruption.\<close>

definition no_read_error :: "'w preader \<Rightarrow> bool" where
  "no_read_error pr \<longleftrightarrow> (\<forall>w sz off. case fst (pr w sz off) of Inl e \<Rightarrow> e = EINTR | Inr _ \<Rightarrow> True)"

lemma pwriter_ok_Inr:
  "pwriter_ok pw content pend \<Longrightarrow> pw w bs off = (Inr n, w') \<Longrightarrow>
   n \<le> length bs \<and> (bs \<noteq> [] \<longrightarrow> 0 < n) \<and> content w' = write_at off (take n bs) (content w) \<and> pend w' \<le> pend w"
  unfolding pwriter_ok_def by (drule spec [of _ w], drule spec [of _ bs], drule spec [of _ off]) simp

lemma pwriter_ok_Inl:
  "pwriter_ok pw content pend \<Longrightarrow> pw w bs off = (Inl e, w') \<Longrightarrow>
   content w' = content w \<and> pend w' \<le> pend w \<and> (e = EINTR \<longrightarrow> pend w' < pend w)"
  unfolding pwriter_ok_def by (drule spec [of _ w], drule spec [of _ bs], drule spec [of _ off]) simp

lemma preader_ok_Inr:
  "preader_ok pr content pend \<Longrightarrow> pr w sz off = (Inr bs, w') \<Longrightarrow>
   length bs \<le> sz \<and> bs = take (length bs) (drop off (content w)) \<and>
   (0 < sz \<and> off < length (content w) \<longrightarrow> bs \<noteq> []) \<and> content w' = content w \<and> pend w' \<le> pend w"
  unfolding preader_ok_def by (drule spec [of _ w], drule spec [of _ sz], drule spec [of _ off]) simp

lemma preader_ok_Inl:
  "preader_ok pr content pend \<Longrightarrow> pr w sz off = (Inl e, w') \<Longrightarrow>
   content w' = content w \<and> pend w' \<le> pend w \<and> (e = EINTR \<longrightarrow> pend w' < pend w)"
  unfolding preader_ok_def by (drule spec [of _ w], drule spec [of _ sz], drule spec [of _ off]) simp

section \<open>Writing one range\<close>

text \<open>
  What a write of \<open>bs\<close> at \<open>off\<close> leaves: some first part of \<open>bs\<close> is in the file and counted in its offset, and a
  reported count means that all of it is. \<open>tot\<close> is what the caller had written before.
\<close>

definition write_post ::
  "('w \<Rightarrow> byte list) \<Rightarrow> ('w \<Rightarrow> nat) \<Rightarrow> 'w \<Rightarrow> ngx_file \<Rightarrow> byte list \<Rightarrow> nat \<Rightarrow> nat \<Rightarrow> nat option \<Rightarrow> ngx_file \<Rightarrow> 'w \<Rightarrow> bool"
  where
  "write_post content pend w fl bs off tot r fl' w' \<longleftrightarrow>
     (\<exists>n \<le> length bs. content w' = write_at off (take n bs) (content w) \<and> pend w' \<le> pend w \<and>
        file_offset fl' = file_offset fl + n \<and> (\<forall>m. r = Some m \<longrightarrow> n = length bs \<and> m = tot + n))"

lemma write_post_Nil: "write_post content pend w fl [] off tot (Some tot) fl w"
  by (simp add: write_post_def)

lemma write_post_error:
  "write_post content pend w fl a off tot None fl1 w1 \<Longrightarrow> write_post content pend w fl (a @ b) off tot None fl1 w1"
  unfolding write_post_def by (elim exE conjE) (rule exI, intro conjI; force)

lemma write_post_append:
  assumes "write_post content pend w fl a off tot (Some m) fl1 w1"
    and "write_post content pend w1 fl1 b (off + length a) m r fl' w'"
  shows "write_post content pend w fl (a @ b) off tot r fl' w'"
proof -
  have a: "content w1 = write_at off a (content w)" "pend w1 \<le> pend w"
    "file_offset fl1 = file_offset fl + length a" "m = tot + length a"
    using assms(1) by (auto simp: write_post_def)
  obtain n where n: "n \<le> length b" "content w' = write_at (off + length a) (take n b) (content w1)" "pend w' \<le> pend w1"
    "file_offset fl' = file_offset fl1 + n" "\<forall>k. r = Some k \<longrightarrow> n = length b \<and> k = m + n"
    using assms(2) by (auto simp: write_post_def)
  show ?thesis
    unfolding write_post_def
    by (rule exI [of _ "length a + n"], intro conjI) (use a n in \<open>auto simp: write_at_append\<close>)
qed

text \<open>The bytes taken so far move from the call to the caller's count.\<close>

lemma write_post_part:
  assumes "content w1 = write_at off (take n bs) (content w)" "pend w1 \<le> pend w" "n \<le> length bs"
    and "write_post content pend w1 (fl\<lparr>file_offset := file_offset fl + n\<rparr>) (drop n bs) (off + n) (tot + n) r fl' w'"
  shows "write_post content pend w fl bs off tot r fl' w'"
proof -
  have "write_post content pend w fl (take n bs) off tot (Some (tot + n)) (fl\<lparr>file_offset := file_offset fl + n\<rparr>) w1"
    using assms(1-3) by (simp add: write_post_def)
  from write_post_append [OF this, of "drop n bs"] assms(3,4) show ?thesis by (simp add: min_absorb2)
qed

lemma write_file_loop_post:
  assumes "pwriter_ok pw content pend"
  shows "\<exists>r fl' w'. write_file_loop pw w fl buf off tot = Some (r, fl', w')
    \<and> write_post content pend w fl buf off tot r fl' w'"
proof (induction "length buf + pend w" arbitrary: w fl buf off tot rule: less_induct)
  case less
  obtain res w1 where pw: "pw w buf off = (res, w1)" by fastforce
  show ?case
  proof (cases res)
    case (Inl e)
    note w1 = pwriter_ok_Inl [OF assms pw [unfolded Inl]]
    show ?thesis
    proof (cases "e = EINTR")
      case True
      with w1 have "length buf + pend w1 < length buf + pend w" by simp
      from less.hyps [OF this, of fl off tot] w1 pw Inl True show ?thesis
        by (subst write_file_loop.simps) (auto simp: write_post_def)
    next
      case False
      with w1 pw Inl show ?thesis
        by (subst write_file_loop.simps) (auto simp: write_post_def intro!: exI [of _ 0])
    qed
  next
    case (Inr n)
    note w1 = pwriter_ok_Inr [OF assms pw [unfolded Inr]]
    show ?thesis
    proof (cases "n = length buf")
      case True
      with w1 pw Inr show ?thesis
        by (subst write_file_loop.simps) (auto simp: write_post_def Let_def)
    next
      case False
      then have "0 < n" "n < length buf" using w1 by auto
      moreover have "pend w1 \<le> pend w" using w1 by blast
      ultimately have "length (drop n buf) + pend w1 < length buf + pend w" unfolding length_drop by arith
      from less.hyps [OF this, of "fl\<lparr>file_offset := file_offset fl + n\<rparr>" "off + n" "tot + n"]
      obtain r fl' w' where nxt:
        "write_file_loop pw w1 (fl\<lparr>file_offset := file_offset fl + n\<rparr>) (drop n buf) (off + n) (tot + n) = Some (r, fl', w')"
        "write_post content pend w1 (fl\<lparr>file_offset := file_offset fl + n\<rparr>) (drop n buf) (off + n) (tot + n) r fl' w'"
        by blast
      have "write_file_loop pw w fl buf off tot = Some (r, fl', w')"
        using nxt(1) pw Inr False by (subst write_file_loop.simps) (simp add: Let_def)
      with write_post_part [OF _ _ _ nxt(2)] w1 show ?thesis by blast
    qed
  qed
qed

lemmas ngx_write_file_post = write_file_loop_post [where tot = 0, folded ngx_write_file_def]

lemma write_post_shift:
  "write_post content pend w fl bs off 0 r fl' w' \<Longrightarrow>
   write_post content pend w fl bs off tot (map_option (\<lambda>n. tot + n) r) fl' w'"
  unfolding write_post_def by (elim exE conjE) (rule exI, intro conjI; force)

section \<open>Writing a vector\<close>

lemma ngx_writev_file_post:
  assumes "pwriter_ok pw content pend" "list_all (iov_ok mem) vs"
  shows "\<exists>r fl' w'. ngx_writev_file pw mem w fl vs off tot = Some (r, fl', w')
    \<and> write_post content pend w fl (iovs_bytes mem vs) (off + tot) tot r fl' w'"
  using assms(2)
proof (induction vs arbitrary: w fl tot)
  case Nil
  then show ?case by (simp add: write_post_Nil)
next
  case (Cons v vs)
  show ?case
  proof (cases "iov_len v = 0")
    case True
    with Cons show ?thesis by (simp add: iov_bytes_zero)
  next
    case False
    obtain r fl1 w1 where one: "ngx_write_file pw w fl (iov_bytes mem v) (off + tot) = Some (r, fl1, w1)"
      and post: "write_post content pend w fl (iov_bytes mem v) (off + tot) 0 r fl1 w1"
      using ngx_write_file_post [OF assms(1)] by blast
    note post = write_post_shift [OF post, of tot]
    show ?thesis
    proof (cases r)
      case None
      with False one write_post_error post show ?thesis by fastforce
    next
      case (Some n)
      with post Cons.prems have "n = iov_len v" by (auto simp: write_post_def)
      obtain r2 fl' w' where two: "ngx_writev_file pw mem w1 fl1 vs off (tot + n) = Some (r2, fl', w')"
        and post2: "write_post content pend w1 fl1 (iovs_bytes mem vs) (off + (tot + n)) (tot + n) r2 fl' w'"
        using Cons.IH [of w1 fl1 "tot + n"] Cons.prems by auto
      have "write_post content pend w fl (iovs_bytes mem (v # vs)) (off + tot) tot r2 fl' w'"
        using write_post_append [OF post [unfolded Some option.map]] post2 \<open>n = iov_len v\<close> Cons.prems
        by (simp add: add.assoc)
      with two one False Some show ?thesis by simp
    qed
  qed
qed

section \<open>Writing a chain\<close>

text \<open>A buffer that can be written: a special one has no bytes, another is a range of the memory, which may be empty.\<close>

definition file_buf_ok :: "byte list \<Rightarrow> chain_buf \<Rightarrow> bool" where
  "file_buf_ok mem b \<longleftrightarrow>
     (if ngx_buf_special b then cb_pos b = cb_last b else cb_pos b \<le> cb_last b \<and> cb_last b \<le> length mem)"

text \<open>The vector takes a first part of the chain; what it leaves is left because the vector is full.\<close>

definition file_vec_post :: "byte list \<Rightarrow> nat \<Rightarrow> ngx_chain \<Rightarrow> byte list \<Rightarrow> ngx_iovec \<Rightarrow> ngx_chain \<Rightarrow> bool" where
  "file_vec_post mem nalloc ch pre vec rest \<longleftrightarrow>
     list_all (iov_ok mem) (iovs vec) \<and> list_all (file_buf_ok mem) rest \<and>
     pre @ chain_bytes mem ch = iovs_bytes mem (iovs vec) @ chain_bytes mem rest \<and>
     (rest \<noteq> [] \<longrightarrow> length (iovs vec) = nalloc)"

lemma file_iovec_loop_post:
  assumes "list_all (file_buf_ok mem) ch" "iov_inv mem prev iov tot"
  shows "\<exists>vec rest. file_iovec_loop nalloc ch prev iov tot = (vec, rest)
    \<and> file_vec_post mem nalloc ch (iovs_bytes mem iov) vec rest"
  using assms
proof (induction ch arbitrary: prev iov tot)
  case Nil
  then show ?case by (simp add: file_vec_post_def iov_inv_def)
next
  case (Cons b bs)
  have keep: ?case if "ngx_buf_special b"
    using that Cons by (force simp: file_vec_post_def buf_bytes_def)
  define sz where "sz = cb_last b - cb_pos b"
  show ?case
  proof (cases "ngx_buf_special b")
    case False
    then have fits: "cb_pos b + sz \<le> length mem" "cb_last b = cb_pos b + sz"
      using Cons.prems(1) by (auto simp: file_buf_ok_def sz_def)
    then have bytes: "buf_bytes mem b = byte_range (cb_pos b) (cb_pos b + sz) mem"
      using False by (simp add: buf_bytes_def)
    have step: ?thesis
      if "iov_inv mem (Some (cb_pos b + sz)) iov' (tot + sz)"
        "iovs_bytes mem iov' = iovs_bytes mem iov @ buf_bytes mem b"
        "file_iovec_loop nalloc (b # bs) prev iov tot = file_iovec_loop nalloc bs (Some (cb_pos b + sz)) iov' (tot + sz)"
      for iov'
      using Cons.IH [OF _ that(1)] Cons.prems(1) that(2,3) by (force simp: file_vec_post_def)
    consider "prev = Some (cb_pos b)" | "prev \<noteq> Some (cb_pos b)" "length iov = nalloc"
      | "prev \<noteq> Some (cb_pos b)" "length iov \<noteq> nalloc" by blast
    then show ?thesis
    proof cases
      case 1
      show ?thesis
        by (rule step [OF iov_inv_extend(1) [OF Cons.prems(2) [unfolded 1] fits(1)]])
          (use False 1 bytes fits iov_inv_extend(2) [OF Cons.prems(2) [unfolded 1] fits(1)] in
            \<open>simp_all add: Let_def\<close>)
    next
      case 2
      with False Cons.prems show ?thesis by (simp add: Let_def file_vec_post_def iov_inv_def)
    next
      case 3
      show ?thesis
        by (rule step [OF iov_inv_new [OF Cons.prems(2) fits(1)]])
          (use False 3 bytes fits in \<open>simp_all add: Let_def iov_bytes_def\<close>)
    qed
  qed (rule keep)
qed


lemma file_iovec_loop_length:
  "file_iovec_loop nalloc ch prev iov tot = (vec, rest) \<Longrightarrow> length (iovs vec) + length rest \<le> length iov + length ch"
  by (induction nalloc ch prev iov tot rule: file_iovec_loop.induct) (fastforce simp: Let_def split: if_splits)+

lemma write_chain_loop_post:
  assumes "pwriter_ok pw content pend" "list_all (file_buf_ok mem) ch"
  shows "\<exists>r fl' w'. write_chain_loop pw mem w fl ch off tot = Some (r, fl', w')
    \<and> write_post content pend w fl (chain_bytes mem ch) off tot r fl' w'"
  using assms(2)
proof (induction "length ch" arbitrary: ch w fl off tot rule: less_induct)
  case less
  obtain vec rest where vec: "ngx_chain_to_iovec 64 ch = (vec, rest)" and post: "file_vec_post mem 64 ch [] vec rest"
    using file_iovec_loop_post [OF less.prems, of None "[]" 0 64] by (auto simp: ngx_chain_to_iovec_def iov_inv_def)
  have ok: "list_all (iov_ok mem) (iovs vec)" "list_all (file_buf_ok mem) rest" "rest \<noteq> [] \<longrightarrow> length (iovs vec) = 64"
    and bytes: "chain_bytes mem ch = iovs_bytes mem (iovs vec) @ chain_bytes mem rest"
    using post by (auto simp: file_vec_post_def)
  show ?case
  proof (cases "length (iovs vec) = 1")
    case True
    then obtain v where v: "iovs vec = [v]" by (auto simp: length_Suc_conv)
    with ok bytes have ch: "chain_bytes mem ch = iov_bytes mem v" by auto
    obtain r fl' w' where "ngx_write_file pw w fl (iov_bytes mem v) off = Some (r, fl', w')"
      "write_post content pend w fl (iov_bytes mem v) off 0 r fl' w'"
      using ngx_write_file_post [OF assms(1)] by blast
    with vec v show ?thesis
      by (subst write_chain_loop.simps) (simp add: ch write_post_shift)
  next
    case False
    obtain r fl1 w1 where one: "ngx_writev_file pw mem w fl (iovs vec) off 0 = Some (r, fl1, w1)"
      and post1: "write_post content pend w fl (iovs_bytes mem (iovs vec)) off 0 r fl1 w1"
      using ngx_writev_file_post [OF assms(1) ok(1), of w fl off 0] by auto
    note post1 = write_post_shift [OF post1, of tot]
    consider "r = None" | n where "r = Some n" "rest = []" | n where "r = Some n" "rest \<noteq> []" by blast
    then show ?thesis
    proof cases
      case 1
      with False vec one write_post_error [OF post1 [unfolded 1 option.map]] show ?thesis
        by (subst write_chain_loop.simps) (simp add: bytes)
    next
      case 2
      with False vec one post1 show ?thesis
        by (subst write_chain_loop.simps) (simp add: bytes)
    next
      case 3
      have n: "n = length (iovs_bytes mem (iovs vec))" using post1 3 by (auto simp: write_post_def)
      have "length rest < length ch"
        using file_iovec_loop_length [OF vec [unfolded ngx_chain_to_iovec_def]] ok(3) 3 by simp
      from less.hyps [OF this ok(2), of w1 fl1 "off + n" "tot + n"]
      obtain r2 fl' w' where two: "write_chain_loop pw mem w1 fl1 rest (off + n) (tot + n) = Some (r2, fl', w')"
        and post2: "write_post content pend w1 fl1 (chain_bytes mem rest) (off + n) (tot + n) r2 fl' w'" by blast
      have "write_chain_loop pw mem w fl ch off tot = Some (r2, fl', w')"
        using False vec one two 3 by (subst write_chain_loop.simps) simp
      with write_post_append [OF post1 [unfolded 3 option.map]] post2 show ?thesis
        by (simp add: bytes n [symmetric])
    qed
  qed
qed

lemma write_chain_to_file_post:
  assumes "pwriter_ok pw content pend" "ch \<noteq> []" "list_all (file_buf_ok mem) ch"
  shows "\<exists>r fl' w'. ngx_write_chain_to_file pw mem w fl ch off = Some (r, fl', w')
    \<and> write_post content pend w fl (chain_bytes mem ch) off 0 r fl' w'"
proof (cases "tl ch = []")
  case True
  with assms(2) obtain b where b: "ch = [b]" by (cases ch) auto
  then have "chain_bytes mem ch = byte_range (cb_pos b) (cb_last b) mem"
    using assms(3) by (auto simp: buf_bytes_def file_buf_ok_def byte_range_def)
  with ngx_write_file_post [OF assms(1)] b show ?thesis
    by (auto simp: ngx_write_chain_to_file_def)
next
  case False
  with write_chain_loop_post [OF assms(1,3)] show ?thesis
    by (simp add: ngx_write_chain_to_file_def)
qed

section \<open>Reading\<close>

text \<open>What was read so far is what the file holds from the offset on.\<close>

definition read_post ::
  "('w \<Rightarrow> byte list) \<Rightarrow> 'w \<Rightarrow> nat \<Rightarrow> nat \<Rightarrow> byte list option \<Rightarrow> 'w \<Rightarrow> bool" where
  "read_post content w sz off r w' \<longleftrightarrow>
     content w' = content w \<and> (\<forall>bs. r = Some bs \<longrightarrow> bs = take sz (drop off (content w)))"

lemma read_file_loop_post:
  assumes "preader_ok pr content pend" "got = take (length got) (drop off (content w))" "length got \<le> sz"
  shows "\<exists>r w'. read_file_loop pr w sz off got = Some (r, w') \<and> read_post content w sz off r w'
    \<and> (no_read_error pr \<longrightarrow> r \<noteq> None)"
  using assms(2,3)
proof (induction "sz - length got + pend w" arbitrary: w got rule: less_induct)
  case less
  show ?case
  proof (cases "length got < sz")
    case False
    with less.prems have "length got = sz" by simp
    with less.prems show ?thesis by (subst read_file_loop.simps) (simp add: read_post_def)
  next
    case True
    obtain res w1 where pr: "pr w (sz - length got) (off + length got) = (res, w1)" by fastforce
    show ?thesis
    proof (cases res)
      case (Inl e)
      note w1 = preader_ok_Inl [OF assms(1) pr [unfolded Inl]]
      show ?thesis
      proof (cases "e = EINTR")
        case True
        with w1 have "sz - length got + pend w1 < sz - length got + pend w" by simp
        from less.hyps [OF this] less.prems w1 pr Inl True \<open>length got < sz\<close> show ?thesis
          by (subst read_file_loop.simps) (auto simp: read_post_def)
      next
        case False
        then have "\<not> no_read_error pr"
          using pr Inl unfolding no_read_error_def by (metis fst_conv sum.case(1))
        with False w1 pr Inl \<open>length got < sz\<close> show ?thesis
          by (subst read_file_loop.simps) (auto simp: read_post_def)
      qed
    next
      case (Inr bs)
      note w1 = preader_ok_Inr [OF assms(1) pr [unfolded Inr]]
      show ?thesis
      proof (cases "bs = []")
        case True
        with w1 \<open>length got < sz\<close> have "length (content w) \<le> off + length got" by auto
        then have "take sz (drop off (content w)) = take (length got) (drop off (content w))"
          using \<open>length got < sz\<close> by simp
        with True w1 pr Inr \<open>length got < sz\<close> less.prems(1) show ?thesis
          by (subst read_file_loop.simps) (simp add: read_post_def)
      next
        case False
        have got: "got @ bs = take (length (got @ bs)) (drop off (content w1))"
          using less.prems(1) w1 by (simp add: take_add) (simp add: add.commute)
        have "length bs \<le> sz - length got" "pend w1 \<le> pend w" "0 < length bs" using w1 False by auto
        then have "sz - length (got @ bs) + pend w1 < sz - length got + pend w" "length (got @ bs) \<le> sz"
          using \<open>length got < sz\<close> unfolding length_append by arith+
        from less.hyps [OF this(1) got this(2)] w1 pr Inr False \<open>length got < sz\<close> show ?thesis
          by (subst read_file_loop.simps) (auto simp: read_post_def)
      qed
    qed
  qed
qed

lemma ngx_read_file_post:
  assumes "preader_ok pr content pend"
  shows "\<exists>r fl' w'. ngx_read_file pr w fl sz off = Some (r, fl', w') \<and> read_post content w sz off r w'
    \<and> (no_read_error pr \<longrightarrow> r \<noteq> None)"
proof -
  obtain r w' where "read_file_loop pr w sz off [] = Some (r, w')" "read_post content w sz off r w'"
    "no_read_error pr \<longrightarrow> r \<noteq> None"
    using read_file_loop_post [OF assms, of "[]" off w sz] by auto
  then show ?thesis by (cases r) (auto simp: ngx_read_file_def)
qed

section \<open>Properties\<close>

text \<open>
  A file system to try the theorems on: the content of the file and the number of interruptions before the next
  call succeeds; \<open>pwrite\<close> takes two bytes at most, \<open>pread\<close> gives three.
\<close>

fun demo_pwrite :: "(byte list \<times> nat) pwriter" where
  "demo_pwrite (c, Suc k) bs off = (Inl EINTR, (c, k))"
| "demo_pwrite (c, 0) bs off = (Inr (min 2 (length bs)), (write_at off (take 2 bs) c, 0))"

fun demo_pread :: "(byte list \<times> nat) preader" where
  "demo_pread (c, Suc k) sz off = (Inl EINTR, (c, k))"
| "demo_pread (c, 0) sz off = (Inr (take (min 3 sz) (drop off c)), (c, 0))"

lemma demo_pwrite_ok: "pwriter_ok demo_pwrite fst snd"
  unfolding pwriter_ok_def
proof (intro allI)
  fix w :: "byte list \<times> nat" and bs :: "byte list" and off
  have two: "take (min 2 (length bs)) bs = take 2 bs" by (simp add: min_def)
  obtain c k where w: "w = (c, k)" by (cases w)
  show "case demo_pwrite w bs off of
      (Inl e, w') \<Rightarrow> fst w' = fst w \<and> snd w' \<le> snd w \<and> (e = EINTR \<longrightarrow> snd w' < snd w)
    | (Inr n, w') \<Rightarrow> n \<le> length bs \<and> (bs \<noteq> [] \<longrightarrow> 0 < n) \<and>
        fst w' = write_at off (take n bs) (fst w) \<and> snd w' \<le> snd w"
    by (cases k) (auto simp: w two)
qed

lemma demo_pread_ok: "preader_ok demo_pread fst snd"
  unfolding preader_ok_def
proof (intro allI)
  fix w :: "byte list \<times> nat" and sz off :: nat
  obtain c k where w: "w = (c, k)" by (cases w)
  show "case demo_pread w sz off of
      (Inl e, w') \<Rightarrow> fst w' = fst w \<and> snd w' \<le> snd w \<and> (e = EINTR \<longrightarrow> snd w' < snd w)
    | (Inr bs, w') \<Rightarrow> length bs \<le> sz \<and> bs = take (length bs) (drop off (fst w)) \<and>
        (0 < sz \<and> off < length (fst w) \<longrightarrow> bs \<noteq> []) \<and> fst w' = fst w \<and> snd w' \<le> snd w"
    by (cases k) (auto simp: w min_def)
qed

lemma demo_no_read_error: "no_read_error demo_pread"
  unfolding no_read_error_def
proof (intro allI)
  fix w :: "byte list \<times> nat" and sz off :: nat
  obtain c k where w: "w = (c, k)" by (cases w)
  show "case fst (demo_pread w sz off) of Inl e \<Rightarrow> e = EINTR | Inr _ \<Rightarrow> True"
    by (cases k) (simp_all add: w)
qed

abbreviation (input) demo_chain :: ngx_chain where
  "demo_chain \<equiv> [sample_buf 0 3, sample_buf 7 12, sample_flush]"

lemma demo_chain_ok: "list_all (file_buf_ok (str8 ''hello, world'')) demo_chain"
  by (simp add: file_buf_ok_def ngx_buf_special_def ngx_buf_in_memory_def sample_buf_def sample_flush_def)

lemma demo_chain_bytes: "chain_bytes (str8 ''hello, world'') demo_chain = str8 ''helworld''"
  by (simp add: buf_bytes_def byte_range_def ngx_buf_special_def ngx_buf_in_memory_def sample_buf_def sample_flush_def)

lemma demo_chain_length: "length (str8 ''helworld'') = 8"
  by simp

lemma demo_chain_iovec:
  "ngx_chain_to_iovec 64 demo_chain =
   (\<lparr>iovs = [\<lparr>iov_base = 0, iov_len = 3\<rparr>, \<lparr>iov_base = 7, iov_len = 5\<rparr>], vec_size = 8\<rparr>, [])"
  by (simp add: ngx_chain_to_iovec_def ngx_buf_special_def ngx_buf_in_memory_def sample_buf_def sample_flush_def)

lemma demo_chain_written:
  "ngx_write_chain_to_file demo_pwrite (str8 ''hello, world'') (str8 ''abcd'', Suc 0) \<lparr>file_offset = 0\<rparr> demo_chain 2
   = Some (Some 8, \<lparr>file_offset = 8\<rparr>, (str8 ''abhelworld'', 0))"
  by (simp add: ngx_write_chain_to_file_def write_chain_loop.simps demo_chain_iovec ngx_write_file_def
      write_file_loop.simps iov_bytes_def byte_range_def write_at_def)

text \<open>
  C34. Writing a chain to a file ends. When it reports a count, the count is the length of the chain, the file
  is the old one with the bytes of the chain written at the offset, and its offset has grown by the count;
  after an error some first part of the chain has been written there, and nothing else.
\<close>

theorem write_chain_to_file_exact:
  assumes "pwriter_ok pw content pend" "ch \<noteq> []" "list_all (file_buf_ok mem) ch"
  shows "\<exists>r fl' w' n. ngx_write_chain_to_file pw mem w fl ch off = Some (r, fl', w')
    \<and> n \<le> length (chain_bytes mem ch)
    \<and> content w' = write_at off (take n (chain_bytes mem ch)) (content w)
    \<and> file_offset fl' = file_offset fl + n
    \<and> (case r of None \<Rightarrow> True | Some m \<Rightarrow> m = n \<and> n = length (chain_bytes mem ch))"
proof -
  obtain r fl' w' where "ngx_write_chain_to_file pw mem w fl ch off = Some (r, fl', w')"
    and post: "write_post content pend w fl (chain_bytes mem ch) off 0 r fl' w'"
    using write_chain_to_file_post [OF assms] by blast
  moreover obtain n where "n \<le> length (chain_bytes mem ch)"
    "content w' = write_at off (take n (chain_bytes mem ch)) (content w)" "file_offset fl' = file_offset fl + n"
    "case r of None \<Rightarrow> True | Some m \<Rightarrow> m = n \<and> n = length (chain_bytes mem ch)"
    using post by (cases r) (auto simp: write_post_def)
  ultimately show ?thesis by blast
qed

theorem write_chain_to_file_exact_witness:
  "\<exists>r fl' w' n. ngx_write_chain_to_file demo_pwrite (str8 ''hello, world'') (str8 ''abcd'', Suc 0) \<lparr>file_offset = 0\<rparr> demo_chain 2
      = Some (r, fl', w')
    \<and> n \<le> 8 \<and> fst w' = write_at 2 (take n (str8 ''helworld'')) (str8 ''abcd'') \<and> file_offset fl' = n
    \<and> (case r of None \<Rightarrow> True | Some m \<Rightarrow> m = n \<and> n = 8)"
  using write_chain_to_file_exact [OF demo_pwrite_ok _ demo_chain_ok, where off = 2 and w = "(str8 ''abcd'', Suc 0)"
      and fl = "\<lparr>file_offset = 0\<rparr>"]
  unfolding demo_chain_bytes demo_chain_length by simp

text \<open>
  C35. What \<open>ngx_write_chain_to_file\<close> reports as written, \<open>ngx_read_file\<close> reads back: reading as many bytes at the
  same offset ends, and gives the bytes of the chain unless \<open>pread\<close> fails.
\<close>

theorem file_roundtrip:
  assumes "pwriter_ok pw content pend" "preader_ok pr content pend" "ch \<noteq> []" "list_all (file_buf_ok mem) ch"
    and "ngx_write_chain_to_file pw mem w fl ch off = Some (Some m, fl1, w1)"
  shows "\<exists>r fl2 w2. ngx_read_file pr w1 fl1 m off = Some (r, fl2, w2)
    \<and> content w2 = content w1
    \<and> (case r of None \<Rightarrow> \<not> no_read_error pr | Some bs \<Rightarrow> bs = chain_bytes mem ch)"
proof -
  have "write_post content pend w fl (chain_bytes mem ch) off 0 (Some m) fl1 w1"
    using write_chain_to_file_post [OF assms(1,3,4), of w fl off] assms(5) by auto
  then have w1: "content w1 = write_at off (chain_bytes mem ch) (content w)" "m = length (chain_bytes mem ch)"
    by (auto simp: write_post_def)
  obtain r fl2 w2 where "ngx_read_file pr w1 fl1 m off = Some (r, fl2, w2)" "read_post content w1 m off r w2"
    "no_read_error pr \<longrightarrow> r \<noteq> None"
    using ngx_read_file_post [OF assms(2)] by blast
  then show ?thesis
    using w1 by (auto simp: read_post_def read_write_at split: option.splits)
qed

theorem file_roundtrip_witness:
  "\<exists>fl2 w2. ngx_read_file demo_pread (str8 ''abhelworld'', 0) \<lparr>file_offset = 8\<rparr> 8 2 = Some (Some (str8 ''helworld''), fl2, w2)
    \<and> fst w2 = str8 ''abhelworld''"
  using file_roundtrip [OF demo_pwrite_ok demo_pread_ok _ demo_chain_ok demo_chain_written] demo_no_read_error
  unfolding demo_chain_bytes by (auto split: option.splits)

end
