(* ===== verification/Little_Endian.thy ===== *)
theory Little_Endian
  imports Prelude
begin

text \<open>
  Integers in memory: little-endian two's complement, the layout of the integers that the Redis
  containers hold in byte arrays, and writes into a byte array.
\<close>

section \<open>Integers as bytes\<close>

primrec le_nat :: "byte list \<Rightarrow> int" where
  "le_nat [] = 0"
| "le_nat (b # bs) = uint b + 256 * le_nat bs"

primrec le_encode :: "nat \<Rightarrow> int \<Rightarrow> byte list" where
  "le_encode 0 v = []"
| "le_encode (Suc n) v = word_of_int v # le_encode n (v div 256)"

text \<open>The two's complement reading of \<open>n\<close> bytes with the unsigned value \<open>u\<close>.\<close>

definition to_signed :: "nat \<Rightarrow> int \<Rightarrow> int" where
  "to_signed n u = (if 2 * u < 256 ^ n then u else u - 256 ^ n)"

definition le_int :: "byte list \<Rightarrow> int" where
  "le_int bs = to_signed (length bs) (le_nat bs)"

definition fits :: "nat \<Rightarrow> int \<Rightarrow> bool" where
  "fits n v \<longleftrightarrow> - (256 ^ n) \<le> 2 * v \<and> 2 * v < 256 ^ n"

lemma length_le_encode [simp]: "length (le_encode n v) = n"
  by (induction n arbitrary: v) simp_all

lemma le_nat_encode: "le_nat (le_encode n v) = v mod 256 ^ n"
proof (induction n arbitrary: v)
  case (Suc n)
  have "uint (word_of_int v :: byte) = v mod 256"
    by (simp add: uint_word_of_int)
  with Suc show ?case by (simp add: zmod_zmult2_eq)
qed simp

lemma le_nat_bounds: "0 \<le> le_nat bs \<and> le_nat bs < 256 ^ length bs"
proof (induction bs)
  case (Cons b bs)
  have "0 \<le> uint b" "uint b < 256" using uint_bounded [of b] by simp_all
  with Cons show ?case by simp
qed simp

lemma word_of_int_add_256 [simp]: "word_of_int (v + 256 * k) = (word_of_int v :: byte)"
  unfolding word_of_int_eq_iff by (simp add: take_bit_eq_mod)

lemma le_encode_nat: "le_encode (length bs) (le_nat bs) = bs"
proof (induction bs)
  case (Cons b bs)
  have b: "0 \<le> uint b" "uint b < 256" using uint_bounded [of b] by simp_all
  then have "(uint b + 256 * le_nat bs) div 256 = le_nat bs" by simp
  moreover have "word_of_int (uint b + 256 * le_nat bs) = b" by (simp only: word_of_int_add_256) simp
  ultimately show ?case using Cons by simp
qed simp

lemma le_int_encode [simp]: "fits n v \<Longrightarrow> le_int (le_encode n v) = v"
proof (cases "0 \<le> v")
  case True
  assume "fits n v"
  with True show ?thesis by (simp add: le_int_def le_nat_encode to_signed_def fits_def)
next
  case False
  assume "fits n v"
  with False have "0 \<le> v + 256 ^ n" "v + 256 ^ n < 256 ^ n" by (auto simp: fits_def)
  then have "v mod 256 ^ n = v + 256 ^ n"
    using mod_pos_pos_trivial [of "v + 256 ^ n" "256 ^ n"] by simp
  with \<open>fits n v\<close> False show ?thesis by (simp add: le_int_def le_nat_encode to_signed_def fits_def)
qed

lemma le_int_fits: "fits (length bs) (le_int bs)"
  using le_nat_bounds [of bs] by (auto simp: fits_def le_int_def to_signed_def)

lemma le_encode_mod: "le_encode n (v + 256 ^ n * k) = le_encode n v"
proof (induction n arbitrary: v k)
  case (Suc n)
  have "(v + 256 ^ Suc n * k) div 256 = v div 256 + 256 ^ n * k" by (simp add: mult.assoc)
  moreover have "word_of_int (v + 256 ^ Suc n * k) = (word_of_int v :: byte)"
    by (simp only: power_Suc mult.assoc word_of_int_add_256)
  ultimately show ?case using Suc by (simp only: le_encode.simps)
qed simp

lemma le_encode_int: "le_encode (length bs) (le_int bs) = bs"
proof -
  have "le_encode (length bs) (le_nat bs - 256 ^ length bs) = bs"
    using le_encode_mod [of "length bs" "le_nat bs" "-1"] by (simp add: le_encode_nat)
  then show ?thesis by (simp add: le_int_def to_signed_def le_encode_nat)
qed

lemma fits_mono:
  assumes "fits m v" "m \<le> n"
  shows "fits n v"
proof -
  have "(256 :: int) ^ m \<le> 256 ^ n" using assms(2) by (simp add: power_increasing)
  with assms(1) show ?thesis unfolding fits_def by linarith
qed

section \<open>Writing into a byte array\<close>

text \<open>\<open>memcpy\<close> or \<open>memmove\<close> of the bytes \<open>bs\<close> to offset \<open>at\<close>.\<close>

definition mem_write :: "nat \<Rightarrow> 'a list \<Rightarrow> 'a list \<Rightarrow> 'a list" where
  "mem_write at bs xs = take at xs @ bs @ drop (at + length bs) xs"

lemma length_mem_write [simp]: "at + length bs \<le> length xs \<Longrightarrow> length (mem_write at bs xs) = length xs"
  by (simp add: mem_write_def)

lemma mem_write_append: "mem_write (length xs) bs (xs @ ys @ zs) = xs @ bs @ zs" if "length ys = length bs"
  using that by (simp add: mem_write_def)

lemma byte_range_mem_write_before:
  assumes "j \<le> at" "at \<le> length xs"
  shows "byte_range i j (mem_write at bs xs) = byte_range i j xs"
proof -
  have "take j (mem_write at bs xs) = take j xs" using assms by (simp add: mem_write_def min_absorb1)
  then show ?thesis by (rule byte_range_take_eq) simp
qed

end
