(* ===== verification/Redis_Intset.thy ===== *)
theory Redis_Intset
  imports Little_Endian
begin

text \<open>
  Sets of integers in one block of memory: \<open>src/intset.c\<close> of Redis.

  The model is at the level of bytes, as the code: \<open>contents\<close> is the flexible array member, its
  entries are read and written with the current encoding, and insertion moves the tail of the array
  in place. The target is little-endian, so \<open>intrev32ifbe\<close> and \<open>memrev64ifbe\<close> are the identity. The
  fields and indices are mathematical numbers where the code's types cannot overflow, which the
  bound that \<open>intsetResize\<close> asserts ensures; \<open>size_t\<close> has 32 bits on \<open>wasm32\<close>, and where it wraps
  the model does. A failing \<open>assert\<close> ends the process: the result \<open>None\<close>.
\<close>

section \<open>Encodings\<close>

abbreviation (input) INTSET_ENC_INT16 :: nat where "INTSET_ENC_INT16 \<equiv> 2"
abbreviation (input) INTSET_ENC_INT32 :: nat where "INTSET_ENC_INT32 \<equiv> 4"
abbreviation (input) INTSET_ENC_INT64 :: nat where "INTSET_ENC_INT64 \<equiv> 8"

abbreviation (input) SIZE_MAX :: nat where "SIZE_MAX \<equiv> 2 ^ 32 - 1"
abbreviation (input) sizeof_intset :: nat where "sizeof_intset \<equiv> 8"

record intset =
  is_encoding :: nat
  is_length :: nat
  is_contents :: "byte list"

definition intsetValueEncoding :: "int \<Rightarrow> nat" where
  "intsetValueEncoding v =
     (if v < - (2 ^ 31) \<or> v > 2 ^ 31 - 1 then INTSET_ENC_INT64
      else if v < - (2 ^ 15) \<or> v > 2 ^ 15 - 1 then INTSET_ENC_INT32
      else INTSET_ENC_INT16)"

definition intsetGetEncoded :: "intset \<Rightarrow> nat \<Rightarrow> nat \<Rightarrow> int" where
  "intsetGetEncoded is pos enc =
     (if enc = INTSET_ENC_INT64 then le_int (byte_range (pos * 8) (pos * 8 + 8) (is_contents is))
      else if enc = INTSET_ENC_INT32 then le_int (byte_range (pos * 4) (pos * 4 + 4) (is_contents is))
      else le_int (byte_range (pos * 2) (pos * 2 + 2) (is_contents is)))"

definition raw_intsetGet :: "intset \<Rightarrow> nat \<Rightarrow> int" where
  "raw_intsetGet is pos = intsetGetEncoded is pos (is_encoding is)"

definition raw_intsetSet :: "intset \<Rightarrow> nat \<Rightarrow> int \<Rightarrow> intset" where
  "raw_intsetSet is pos val =
     (if is_encoding is = INTSET_ENC_INT64 then
        is\<lparr>is_contents := mem_write (pos * 8) (le_encode 8 val) (is_contents is)\<rparr>
      else if is_encoding is = INTSET_ENC_INT32 then
        is\<lparr>is_contents := mem_write (pos * 4) (le_encode 4 val) (is_contents is)\<rparr>
      else is\<lparr>is_contents := mem_write (pos * 2) (le_encode 2 val) (is_contents is)\<rparr>)"

section \<open>Memory\<close>

definition intsetNew :: intset where
  "intsetNew = \<lparr>is_encoding = INTSET_ENC_INT16, is_length = 0, is_contents = []\<rparr>"

text \<open>
  \<open>intsetResize\<close>; \<open>zrealloc\<close> keeps the bytes that fit and leaves others undefined: \<open>junk\<close> gives
  the bytes it happens to hand out.
\<close>

definition intsetResize :: "(nat \<Rightarrow> byte) \<Rightarrow> intset \<Rightarrow> nat \<Rightarrow> intset option" where
  "intsetResize junk is len =
     (let sz = len * is_encoding is in
      if sz \<le> SIZE_MAX - sizeof_intset then
        Some (is\<lparr>is_contents := take sz (is_contents is) @ map junk [length (is_contents is)..<sz]\<rparr>)
      else None)"

definition intsetMoveTail :: "intset \<Rightarrow> nat \<Rightarrow> nat \<Rightarrow> intset" where
  "intsetMoveTail is from to =
     (let bytes = is_length is - from;
          w = (if is_encoding is = INTSET_ENC_INT64 then 8 else if is_encoding is = INTSET_ENC_INT32 then 4 else 2)
      in is\<lparr>is_contents :=
           mem_write (to * w) (byte_range (from * w) (from * w + bytes * w) (is_contents is)) (is_contents is)\<rparr>)"

section \<open>Search\<close>

text \<open>The binary search; it returns \<open>min\<close>, \<open>mid\<close> and \<open>cur\<close> as the loop leaves them.\<close>

function intset_search_loop :: "intset \<Rightarrow> int \<Rightarrow> int \<Rightarrow> int \<Rightarrow> int \<Rightarrow> int \<Rightarrow> int \<times> int \<times> int" where
  "intset_search_loop is val mn mx mid cur =
     (if mx \<ge> mn then
        (let mid = (mn + mx) div 2; cur = raw_intsetGet is (nat mid) in
         if val > cur then intset_search_loop is val (mid + 1) mx mid cur
         else if val < cur then intset_search_loop is val mn (mid - 1) mid cur
         else (mn, mid, cur))
      else (mn, mid, cur))"
  by pat_completeness auto
termination
  by (relation "measure (\<lambda>(is, val, mn, mx, mid, cur). nat (mx - mn + 1))") auto

declare intset_search_loop.simps [simp del]

definition intsetSearch :: "intset \<Rightarrow> int \<Rightarrow> bool \<times> nat" where
  "intsetSearch is val =
     (if is_length is = 0 then (False, 0)
      else if val > raw_intsetGet is (is_length is - 1) then (False, is_length is)
      else if val < raw_intsetGet is 0 then (False, 0)
      else
        (case intset_search_loop is val 0 (int (is_length is) - 1) (-1) (-1) of
           (mn, mid, cur) \<Rightarrow> if val = cur then (True, nat mid) else (False, nat mn)))"

section \<open>Insertion and removal\<close>

text \<open>\<open>while (length--) _intsetSet(is, length+prepend, _intsetGetEncoded(is, length, curenc))\<close>\<close>

fun intset_upgrade_loop :: "nat \<Rightarrow> nat \<Rightarrow> nat \<Rightarrow> intset \<Rightarrow> intset" where
  "intset_upgrade_loop curenc prepend 0 is = is"
| "intset_upgrade_loop curenc prepend (Suc n) is =
     intset_upgrade_loop curenc prepend n (raw_intsetSet is (n + prepend) (intsetGetEncoded is n curenc))"

definition intsetUpgradeAndAdd :: "(nat \<Rightarrow> byte) \<Rightarrow> intset \<Rightarrow> int \<Rightarrow> intset option" where
  "intsetUpgradeAndAdd junk is val =
     (let curenc = is_encoding is;
          newenc = intsetValueEncoding val;
          len = is_length is;
          prepend = (if val < 0 then 1 else 0)
      in
      case intsetResize junk (is\<lparr>is_encoding := newenc\<rparr>) (is_length is + 1) of
        None \<Rightarrow> None
      | Some is \<Rightarrow>
          (let is = intset_upgrade_loop curenc prepend len is;
               is = (if prepend \<noteq> 0 then raw_intsetSet is 0 val else raw_intsetSet is (is_length is) val)
           in Some (is\<lparr>is_length := is_length is + 1\<rparr>)))"

definition intsetAdd :: "(nat \<Rightarrow> byte) \<Rightarrow> intset \<Rightarrow> int \<Rightarrow> (intset \<times> bool) option" where
  "intsetAdd junk is val =
     (if intsetValueEncoding val > is_encoding is then
        map_option (\<lambda>is. (is, True)) (intsetUpgradeAndAdd junk is val)
      else
        (case intsetSearch is val of
           (True, pos) \<Rightarrow> Some (is, False)
         | (False, pos) \<Rightarrow>
             (case intsetResize junk is (is_length is + 1) of
                None \<Rightarrow> None
              | Some is \<Rightarrow>
                  (let is = (if pos < is_length is then intsetMoveTail is pos (pos + 1) else is);
                       is = raw_intsetSet is pos val
                   in Some (is\<lparr>is_length := is_length is + 1\<rparr>, True)))))"

definition intsetRemove :: "(nat \<Rightarrow> byte) \<Rightarrow> intset \<Rightarrow> int \<Rightarrow> (intset \<times> bool) option" where
  "intsetRemove junk is val =
     (if intsetValueEncoding val \<le> is_encoding is then
        (case intsetSearch is val of
           (True, pos) \<Rightarrow>
             (let len = is_length is;
                  is = (if pos < len - 1 then intsetMoveTail is (pos + 1) pos else is)
              in map_option (\<lambda>is. (is\<lparr>is_length := len - 1\<rparr>, True)) (intsetResize junk is (len - 1)))
         | (False, pos) \<Rightarrow> Some (is, False))
      else Some (is, False))"

section \<open>Queries\<close>

definition intsetFind :: "intset \<Rightarrow> int \<Rightarrow> bool" where
  "intsetFind is val \<longleftrightarrow> intsetValueEncoding val \<le> is_encoding is \<and> fst (intsetSearch is val)"

text \<open>\<open>rnd\<close> is what \<open>rand()\<close> returns.\<close>

definition intsetRandom :: "nat \<Rightarrow> intset \<Rightarrow> int option" where
  "intsetRandom rnd is =
     (let len = is_length is in if len \<noteq> 0 then Some (raw_intsetGet is (rnd mod len)) else None)"

definition intsetMax :: "intset \<Rightarrow> int" where
  "intsetMax is = raw_intsetGet is (is_length is - 1)"

definition intsetMin :: "intset \<Rightarrow> int" where
  "intsetMin is = raw_intsetGet is 0"

definition intsetGet :: "intset \<Rightarrow> nat \<Rightarrow> int option" where
  "intsetGet is pos = (if pos < is_length is then Some (raw_intsetGet is pos) else None)"

definition intsetLen :: "intset \<Rightarrow> nat" where
  "intsetLen is = is_length is"

text \<open>\<open>intsetBlobLen\<close> computes in \<open>size_t\<close>.\<close>

definition intsetBlobLen :: "intset \<Rightarrow> nat" where
  "intsetBlobLen is = (sizeof_intset + is_length is * is_encoding is) mod 2 ^ 32"

section \<open>Integrity of serialised sets\<close>

text \<open>The header of a block of memory read as an \<open>intset\<close>, and its contents.\<close>

definition intset_of_blob :: "byte list \<Rightarrow> intset" where
  "intset_of_blob p =
     \<lparr>is_encoding = nat (le_nat (byte_range 0 4 p)), is_length = nat (le_nat (byte_range 4 8 p)), is_contents = drop 8 p\<rparr>"

fun intset_ordered_loop :: "intset \<Rightarrow> nat \<Rightarrow> nat \<Rightarrow> int \<Rightarrow> bool" where
  "intset_ordered_loop is i 0 prev = True"
| "intset_ordered_loop is i (Suc k) prev =
     (let cur = raw_intsetGet is i in if cur \<le> prev then False else intset_ordered_loop is (i + 1) k cur)"

text \<open>
  \<open>sizeof(*is) + count*record_size != size\<close> is a comparison of \<open>size_t\<close> values: modulo \<open>2 ^ 32\<close>.
\<close>

definition intsetValidateIntegrity :: "byte list \<Rightarrow> bool \<Rightarrow> bool" where
  "intsetValidateIntegrity p deep =
     (let is = intset_of_blob p; encoding = is_encoding is; count = is_length is in
      if length p < sizeof_intset then False
      else if encoding \<noteq> INTSET_ENC_INT64 \<and> encoding \<noteq> INTSET_ENC_INT32 \<and> encoding \<noteq> INTSET_ENC_INT16 then False
      else if (sizeof_intset + count * encoding) mod 2 ^ 32 \<noteq> length p then False
      else if count = 0 then False
      else if \<not> deep then True
      else intset_ordered_loop is 1 (count - 1) (raw_intsetGet is 0))"

end
