(* ===== verification/Redis_Intset_Proofs.thy ===== *)
theory Redis_Intset_Proofs
  imports Redis_Intset
begin

text \<open>
  Proofs about \<open>intset.c\<close>: the byte array always is the packed image of a strictly increasing list,
  and the operations are those of a finite set of 64-bit integers.
\<close>

section \<open>Packed arrays\<close>

definition packed :: "nat \<Rightarrow> int list \<Rightarrow> byte list" where
  "packed e vs = concat (map (le_encode e) vs)"

lemma packed_simps [simp]:
  "packed e [] = []"
  "packed e (v # vs) = le_encode e v @ packed e vs"
  "packed e (vs @ vs') = packed e vs @ packed e vs'"
  by (simp_all add: packed_def)

lemma length_packed [simp]: "length (packed e vs) = length vs * e"
  by (induction vs) (simp_all add: add.commute)

lemma take_packed: "take (n * e) (packed e vs) = packed e (take n vs)"
proof (induction vs arbitrary: n)
  case (Cons v vs)
  then show ?case by (cases n) simp_all
qed simp

lemma drop_packed: "drop (n * e) (packed e vs) = packed e (drop n vs)"
proof (induction vs arbitrary: n)
  case (Cons v vs)
  then show ?case by (cases n) simp_all
qed simp

lemma byte_range_packed:
  "byte_range (i * e) (i * e + k * e) (packed e vs @ ys) = packed e (take k (drop i vs))" if "i + k \<le> length vs"
proof -
  have "(i + k) * e \<le> length vs * e" using that by (rule mult_right_mono) simp
  then have "byte_range (i * e) (i * e + k * e) (packed e vs @ ys) = take (k * e) (drop (i * e) (packed e vs))"
    by (simp add: byte_range_def algebra_simps)
  then show ?thesis by (simp add: drop_packed take_packed)
qed

lemma entry_packed: "byte_range (i * e) (i * e + e) (packed e vs @ ys) = le_encode e (vs ! i)" if "i < length vs"
proof -
  have "take (Suc 0) (drop i vs) = [vs ! i]" using that by (simp add: take_Suc_conv_app_nth)
  then show ?thesis using byte_range_packed [of i 1 vs e ys] that by simp
qed

section \<open>Representation\<close>

definition enc_ok :: "nat \<Rightarrow> bool" where
  "enc_ok e \<longleftrightarrow> e = 2 \<or> e = 4 \<or> e = 8"

lemma get_encoded:
  "enc_ok e \<Longrightarrow> intsetGetEncoded is i e = le_int (byte_range (i * e) (i * e + e) (is_contents is))"
  by (auto simp: enc_ok_def intsetGetEncoded_def)

lemma raw_set:
  "enc_ok (is_encoding is) \<Longrightarrow>
   raw_intsetSet is i v =
   is\<lparr>is_contents := mem_write (i * is_encoding is) (le_encode (is_encoding is) v) (is_contents is)\<rparr>"
  by (auto simp: enc_ok_def raw_intsetSet_def)

lemma move_tail:
  "enc_ok (is_encoding is) \<Longrightarrow>
   intsetMoveTail is i j =
   is\<lparr>is_contents := mem_write (j * is_encoding is)
        (byte_range (i * is_encoding is) (i * is_encoding is + (is_length is - i) * is_encoding is) (is_contents is))
        (is_contents is)\<rparr>"
  by (auto simp: enc_ok_def intsetMoveTail_def Let_def)

lemma intset_fields [simp]:
  "is_length (raw_intsetSet is i v) = is_length is" "is_encoding (raw_intsetSet is i v) = is_encoding is"
  "is_length (intsetMoveTail is i j) = is_length is" "is_encoding (intsetMoveTail is i j) = is_encoding is"
  by (simp_all add: raw_intsetSet_def intsetMoveTail_def Let_def)

text \<open>The set holds the values \<open>vs\<close>, in an array with room behind them.\<close>

definition intset_rep :: "intset \<Rightarrow> int list \<Rightarrow> byte list \<Rightarrow> bool" where
  "intset_rep is vs ys \<longleftrightarrow>
     enc_ok (is_encoding is) \<and> is_length is = length vs \<and> is_contents is = packed (is_encoding is) vs @ ys \<and>
     list_all (fits (is_encoding is)) vs"

definition intset_vals :: "intset \<Rightarrow> int list" where
  "intset_vals is = map (raw_intsetGet is) [0..<is_length is]"

lemma rep_get: "intset_rep is vs ys \<Longrightarrow> i < length vs \<Longrightarrow> raw_intsetGet is i = vs ! i"
  by (auto simp: intset_rep_def raw_intsetGet_def get_encoded entry_packed list_all_length)

lemma rep_vals: "intset_rep is vs ys \<Longrightarrow> intset_vals is = vs"
proof (rule nth_equalityI)
  assume rep: "intset_rep is vs ys"
  then show "length (intset_vals is) = length vs" by (simp add: intset_vals_def intset_rep_def)
  then show "intset_vals is ! i = vs ! i" if "i < length (intset_vals is)" for i
    using that rep_get [OF rep] by (simp add: intset_vals_def)
qed

definition intset_ok :: "intset \<Rightarrow> bool" where
  "intset_ok is \<longleftrightarrow>
     (\<exists>vs. intset_rep is vs [] \<and> sorted_wrt (<) vs \<and> length vs * is_encoding is \<le> SIZE_MAX - sizeof_intset)"

lemma intset_okI:
  "intset_rep is vs [] \<Longrightarrow> sorted_wrt (<) vs \<Longrightarrow> length vs * is_encoding is \<le> SIZE_MAX - sizeof_intset \<Longrightarrow> intset_ok is"
  by (auto simp: intset_ok_def)

lemma intset_okE:
  assumes "intset_ok is"
  obtains "intset_rep is (intset_vals is) []" "sorted_wrt (<) (intset_vals is)"
    "length (intset_vals is) * is_encoding is \<le> SIZE_MAX - sizeof_intset"
proof -
  obtain vs where "intset_rep is vs []" "sorted_wrt (<) vs" "length vs * is_encoding is \<le> SIZE_MAX - sizeof_intset"
    using assms by (auto simp: intset_ok_def)
  with rep_vals [OF this(1)] that show thesis by simp
qed

section \<open>Value encodings\<close>

lemma value_encoding_ok: "enc_ok (intsetValueEncoding v)"
  by (simp add: enc_ok_def intsetValueEncoding_def)

lemma value_encoding_fits: "fits 8 v \<Longrightarrow> fits (intsetValueEncoding v) v"
  by (auto simp: fits_def intsetValueEncoding_def)

lemma value_encoding_least: "enc_ok e \<Longrightarrow> fits e v \<Longrightarrow> intsetValueEncoding v \<le> e"
  by (auto simp: enc_ok_def fits_def intsetValueEncoding_def)

lemma value_encoding_iff: "enc_ok e \<Longrightarrow> fits 8 v \<Longrightarrow> intsetValueEncoding v \<le> e \<longleftrightarrow> fits e v"
  using value_encoding_least value_encoding_fits fits_mono by blast

section \<open>Search\<close>

text \<open>The position \<open>i\<close> separates the smaller from the larger values.\<close>

definition splits_at :: "int list \<Rightarrow> int \<Rightarrow> nat \<Rightarrow> bool" where
  "splits_at vs v i \<longleftrightarrow> i \<le> length vs \<and> (\<forall>x\<in>set (take i vs). x < v) \<and> (\<forall>x\<in>set (drop i vs). v < x)"

lemma splits_atI:
  assumes "i \<le> length vs" "\<And>j. j < i \<Longrightarrow> vs ! j < v" "\<And>j. i \<le> j \<Longrightarrow> j < length vs \<Longrightarrow> v < vs ! j"
  shows "splits_at vs v i"
  unfolding splits_at_def using assms by (auto simp: in_set_conv_nth)

lemma splits_at_not_in: "splits_at vs v i \<Longrightarrow> v \<notin> set vs"
  by (metis append_take_drop_id set_append Un_iff less_irrefl splits_at_def)

lemma splits_at_insert:
  "sorted_wrt (<) vs \<Longrightarrow> splits_at vs v i \<Longrightarrow> sorted_wrt (<) (take i vs @ v # drop i vs)"
  using sorted_wrt_append [of "(<)" "take i vs" "drop i vs"]
  by (auto simp: sorted_wrt_append splits_at_def)

lemma search_loop:
  assumes rep: "intset_rep is vs ys" and sorted: "sorted_wrt (<) vs"
    and "0 \<le> mn" "mx < int (length vs)" "mn \<le> mx + 1" "mx \<ge> mn \<or> cur \<noteq> v"
    and "\<And>j. int j < mn \<Longrightarrow> vs ! j < v" "\<And>j. mx < int j \<Longrightarrow> j < length vs \<Longrightarrow> v < vs ! j"
    and "intset_search_loop is v mn mx mid cur = (mn', mid', cur')"
  shows "(cur' = v \<and> nat mid' < length vs \<and> vs ! nat mid' = v) \<or> (cur' \<noteq> v \<and> splits_at vs v (nat mn'))"
  using assms(3-)
proof (induction "nat (mx - mn + 1)" arbitrary: mn mx mid cur rule: less_induct)
  case less
  note loop = intset_search_loop.simps [of "is" v mn mx mid cur]
  show ?case
  proof (cases "mx \<ge> mn")
    case False
    with less.prems have "mn' = mn" "cur' = cur" "cur \<noteq> v" "mn = mx + 1" by (simp_all add: loop)
    moreover have "splits_at vs v (nat mn)"
      by (rule splits_atI) (use less.prems \<open>mn = mx + 1\<close> in auto)
    ultimately show ?thesis by simp
  next
    case True
    define m where "m = (mn + mx) div 2"
    have m: "mn \<le> m" "m \<le> mx" "nat m < length vs" "0 \<le> m" using True less.prems(1,2) by (auto simp: m_def)
    have cur: "raw_intsetGet is (nat m) = vs ! nat m" using rep_get [OF rep m(3)] .
    have mono: "vs ! i < vs ! j" if "i < j" "j < length vs" for i j
      using sorted that by (simp add: sorted_wrt_iff_nth_less)
    consider "v > vs ! nat m" | "v < vs ! nat m" | "v = vs ! nat m" by linarith
    then show ?thesis
    proof cases
      case 1
      have low: "vs ! j < v" if "int j < m + 1" for j
      proof -
        have "j < nat m \<or> j = nat m" using that m(4) by linarith
        then show ?thesis using 1 mono [of j "nat m"] m(3) by auto
      qed
      have "intset_search_loop is v (m + 1) mx m (vs ! nat m) = (mn', mid', cur')"
        using less.prems(7) 1 True by (simp add: loop Let_def cur flip: m_def)
      with less.hyps [of mx "m + 1" "vs ! nat m" m] less.prems low m 1 show ?thesis by auto
    next
      case 2
      have high: "v < vs ! j" if "m - 1 < int j" "j < length vs" for j
      proof -
        have "nat m < j \<or> j = nat m" using that m(4) by linarith
        then show ?thesis using 2 mono [of "nat m" j] that(2) by auto
      qed
      have "intset_search_loop is v mn (m - 1) m (vs ! nat m) = (mn', mid', cur')"
        using less.prems(7) 2 True by (simp add: loop Let_def cur flip: m_def)
      with less.hyps [of "m - 1" mn "vs ! nat m" m] less.prems high m 2 show ?thesis by auto
    next
      case 3
      have "intset_search_loop is v mn mx mid cur = (mn, m, v)"
        by (subst loop) (simp add: True Let_def cur 3 [symmetric] flip: m_def)
      with less.prems(7) have "mid' = m" "cur' = v" by simp_all
      then show ?thesis using m(3) 3 by blast
    qed
  qed
qed

lemma intset_search:
  assumes rep: "intset_rep is vs ys" and sorted: "sorted_wrt (<) vs"
  shows "case intsetSearch is v of
      (True, i) \<Rightarrow> i < length vs \<and> vs ! i = v
    | (False, i) \<Rightarrow> splits_at vs v i"
proof (cases "vs = []")
  case True
  with rep show ?thesis by (simp add: intsetSearch_def intset_rep_def splits_at_def)
next
  case False
  have len: "is_length is = length vs" using rep by (simp add: intset_rep_def)
  have mono: "vs ! i \<le> vs ! j" if "i \<le> j" "j < length vs" for i j
    using sorted that by (cases "i = j") (auto simp: sorted_wrt_iff_nth_less less_imp_le)
  have hi: "raw_intsetGet is (is_length is - 1) = vs ! (length vs - 1)" and lo: "raw_intsetGet is 0 = vs ! 0"
    using rep_get [OF rep] False len by simp_all
  consider "v > vs ! (length vs - 1)" | "\<not> v > vs ! (length vs - 1)" "v < vs ! 0"
    | "\<not> v > vs ! (length vs - 1)" "\<not> v < vs ! 0" by blast
  then show ?thesis
  proof cases
    case 1
    have "splits_at vs v (length vs)"
    proof (rule splits_atI)
      fix j assume "j < length vs"
      then have "vs ! j \<le> vs ! (length vs - 1)" by (intro mono) auto
      with 1 show "vs ! j < v" by simp
    qed simp_all
    then show ?thesis using 1 hi len False by (simp add: intsetSearch_def)
  next
    case 2
    have "splits_at vs v 0"
    proof (rule splits_atI)
      fix j assume "j < length vs"
      with mono [of 0 j] 2 show "v < vs ! j" by simp
    qed simp_all
    then show ?thesis using 2 hi lo len False by (simp add: intsetSearch_def)
  next
    case 3
    obtain mn mid cur where loop: "intset_search_loop is v 0 (int (length vs) - 1) (-1) (-1) = (mn, mid, cur)"
      by (metis prod_cases3)
    have "(cur = v \<and> nat mid < length vs \<and> vs ! nat mid = v) \<or> (cur \<noteq> v \<and> splits_at vs v (nat mn))"
      by (rule search_loop [OF rep sorted _ _ _ _ _ _ loop]) (use False in auto)
    then show ?thesis using 3 hi lo len False loop by (auto simp: intsetSearch_def)
  qed
qed


section \<open>Insertion\<close>

lemma rep_write:
  "intset_rep is (us @ [u] @ vs) ys \<Longrightarrow> fits (is_encoding is) v \<Longrightarrow>
   intset_rep (raw_intsetSet is (length us) v) (us @ [v] @ vs) ys"
  by (simp add: intset_rep_def raw_set mem_write_def)

lemma resize_grow:
  assumes "intset_rep is vs []" "Suc (length vs) * is_encoding is \<le> SIZE_MAX - sizeof_intset"
  shows "\<exists>ys. length ys = is_encoding is \<and>
    intsetResize junk is (is_length is + 1) = Some (is\<lparr>is_contents := is_contents is @ ys\<rparr>)"
  using assms
  by (intro exI [of _ "map junk [length (is_contents is)..<length vs * is_encoding is + is_encoding is]"])
    (simp add: intset_rep_def intsetResize_def Let_def add.commute)

text \<open>A new value in front of the tail, in an array with room for one entry.\<close>

lemma rep_insert:
  assumes rep: "intset_rep is vs ys" and ys: "length ys = is_encoding is" and i: "i \<le> length vs"
    and v: "fits (is_encoding is) v"
  shows "intset_rep ((raw_intsetSet (if i < is_length is then intsetMoveTail is i (i + 1) else is) i v)
      \<lparr>is_length := is_length is + 1\<rparr>) (take i vs @ v # drop i vs) []"
proof -
  define e where "e = is_encoding is"
  have e: "enc_ok e" and len: "is_length is = length vs" and c: "is_contents is = packed e vs @ ys"
    and vs: "list_all (fits e) vs"
    using rep by (simp_all add: intset_rep_def e_def)
  have fits: "list_all (fits e) (take i vs @ v # drop i vs)"
    using vs v by (auto simp: e_def list_all_iff dest: in_set_takeD in_set_dropD)
  have le: "i * e \<le> length vs * e" using i by (rule mult_right_mono) simp
  have front: "take (i * e) (packed e vs @ ys) = packed e (take i vs)"
    using le by (simp add: take_packed)
  show ?thesis
  proof (cases "i < length vs")
    case True
    have tail: "byte_range (i * e) (i * e + (length vs - i) * e) (packed e vs @ ys) = packed e (drop i vs)"
      using byte_range_packed [of i "length vs - i" vs e ys] i by simp
    have "mem_write ((i + 1) * e) (packed e (drop i vs)) (packed e vs @ ys)
        = take ((i + 1) * e) (packed e vs @ ys) @ packed e (drop i vs)"
      using i ys by (simp add: mem_write_def diff_mult_distrib e_def le_diff_conv algebra_simps)
    moreover have "length (take ((i + 1) * e) (packed e vs @ ys)) = (i + 1) * e"
    proof -
      have "(i + 1) * e \<le> length (packed e vs @ ys)" using le ys by (simp add: e_def)
      then show ?thesis by (simp only: length_take min_absorb2)
    qed
    moreover have "take (i * e) (take ((i + 1) * e) (packed e vs @ ys)) = packed e (take i vs)"
      using front by (simp only: take_take) (simp add: min_def)
    ultimately have "mem_write (i * e) (le_encode e v) (mem_write ((i + 1) * e) (packed e (drop i vs)) (packed e vs @ ys))
        = packed e (take i vs @ v # drop i vs)"
      by (simp add: mem_write_def [of "i * e"] add.commute)
    then show ?thesis
      using True e len c fits tail by (simp add: intset_rep_def move_tail raw_set flip: e_def)
  next
    case False
    with i have "i = length vs" by simp
    then show ?thesis
      using e len c fits ys by (simp add: intset_rep_def raw_set mem_write_def flip: e_def)
  qed
qed

text \<open>The upgrade loop: from the back, each entry is moved to its place in the wider array.\<close>

lemma upgrade_loop:
  assumes "enc_ok ce" "enc_ok (is_encoding is)" "ce \<le> is_encoding is" "list_all (fits ce) (take n vs)" "n \<le> length vs"
    "take (n * ce) (is_contents is) = packed ce (take n vs)"
    "(n + p) * is_encoding is \<le> length (is_contents is)"
  shows "\<exists>c. intset_upgrade_loop ce p n is = is\<lparr>is_contents := c\<rparr> \<and> length c = length (is_contents is) \<and>
    drop (p * is_encoding is) c = packed (is_encoding is) (take n vs) @ drop ((n + p) * is_encoding is) (is_contents is)"
  using assms(2-)
proof (induction n arbitrary: "is")
  case 0
  then show ?case by (intro exI [of _ "is_contents is"]) simp
next
  case (Suc n)
  define e where "e = is_encoding is"
  define c where "c = mem_write ((n + p) * e) (le_encode e (vs ! n)) (is_contents is)"
  have tk: "take (Suc n) vs = take n vs @ [vs ! n]" using Suc.prems(4) by (simp add: take_Suc_conv_app_nth)
  have le: "n * ce \<le> (n + p) * e" using Suc.prems(2) by (simp add: e_def mult_le_mono)
  have c_len: "length c = length (is_contents is)" using Suc.prems(6) by (simp add: c_def e_def)
  have "n * ce \<le> Suc n * ce" by simp
  then have c_old: "take (n * ce) (is_contents is) = packed ce (take n vs)"
    using arg_cong [OF Suc.prems(5), of "take (n * ce)"] by (simp add: take_packed min_def)
  have entry: "byte_range (n * ce) (n * ce + ce) (is_contents is) = le_encode ce (vs ! n)"
  proof -
    have "byte_range (n * ce) (n * ce + ce) (is_contents is) = byte_range (n * ce) (n * ce + ce) (packed ce (take (Suc n) vs))"
      unfolding Suc.prems(5) [symmetric] by (rule byte_range_take_eq [of "Suc n * ce"]) simp_all
    then show ?thesis using entry_packed [of n "take (Suc n) vs" ce "[]"] Suc.prems(4) by simp
  qed
  have get: "intsetGetEncoded is n ce = vs ! n"
    using entry Suc.prems(3) assms(1) tk by (simp add: get_encoded)
  have step: "intset_upgrade_loop ce p (Suc n) is = intset_upgrade_loop ce p n (is\<lparr>is_contents := c\<rparr>)"
    using Suc.prems(1) by (simp add: raw_set get c_def e_def)
  have c_take: "take (n * ce) c = packed ce (take n vs)"
  proof -
    have "(n + p) * e \<le> length (is_contents is)" using Suc.prems(6) by (simp add: e_def)
    with le show ?thesis by (simp add: c_def mem_write_def c_old min_def)
  qed
  have c_drop: "drop ((n + p) * e) c = le_encode e (vs ! n) @ drop ((Suc n + p) * e) (is_contents is)"
    using Suc.prems(6) by (simp add: c_def mem_write_def e_def add.commute)
  obtain c' where "intset_upgrade_loop ce p n (is\<lparr>is_contents := c\<rparr>) = is\<lparr>is_contents := c'\<rparr>" "length c' = length c"
    "drop (p * e) c' = packed e (take n vs) @ drop ((n + p) * e) c"
    using Suc.IH [of "is\<lparr>is_contents := c\<rparr>"] Suc.prems tk c_take c_len by (auto simp: e_def)
  then show ?case
    using step c_len c_drop tk by (intro exI [of _ c']) (simp flip: e_def)
qed


lemma upgrade_and_add:
  assumes rep: "intset_rep is vs []" and v: "fits 8 v" and enc: "intsetValueEncoding v > is_encoding is"
    and room: "Suc (length vs) * intsetValueEncoding v \<le> SIZE_MAX - sizeof_intset"
  shows "\<exists>is'. intsetUpgradeAndAdd junk is v = Some is' \<and> is_encoding is' = intsetValueEncoding v \<and>
    intset_rep is' (if v < 0 then v # vs else vs @ [v]) []"
proof -
  define ce where "ce = is_encoding is"
  define e where "e = intsetValueEncoding v"
  define p :: nat where "p = (if v < 0 then 1 else 0)"
  define c where "c = packed ce vs @ map junk [length vs * ce..<Suc (length vs) * e]"
  have ce: "enc_ok ce" "is_length is = length vs" "is_contents is = packed ce vs" "list_all (fits ce) vs"
    using rep by (simp_all add: intset_rep_def ce_def)
  have e: "enc_ok e" "ce < e" using enc by (simp_all add: e_def ce_def value_encoding_ok)
  have le: "length vs * ce \<le> Suc (length vs) * e"
    using e(2) by (intro mult_le_mono) simp_all
  then have c_len: "length c = Suc (length vs) * e" by (simp add: c_def)
  have resize: "intsetResize junk (is\<lparr>is_encoding := e\<rparr>) (length vs + 1) = Some (is\<lparr>is_encoding := e, is_contents := c\<rparr>)"
    using room le ce by (simp add: intsetResize_def Let_def c_def flip: e_def)
  obtain c' where loop: "intset_upgrade_loop ce p (length vs) (is\<lparr>is_encoding := e, is_contents := c\<rparr>)
      = is\<lparr>is_encoding := e, is_contents := c'\<rparr>"
    and c': "length c' = length c" "drop (p * e) c' = packed e vs @ drop ((length vs + p) * e) c"
  proof -
    have "take (length vs * ce) c = packed ce vs" by (simp add: c_def)
    moreover have "(length vs + p) * e \<le> length c" unfolding c_len by (rule mult_right_mono) (simp_all add: p_def)
    ultimately show thesis
      using upgrade_loop [OF ce(1), where ?is = "is\<lparr>is_encoding := e, is_contents := c\<rparr>" and n = "length vs" and p = p and vs = vs]
        ce e that by auto
  qed
  have fits: "fits e v" "list_all (fits e) vs"
    using value_encoding_fits [OF v] ce(4) fits_mono [of ce _ e] e(2) by (auto simp: e_def list_all_iff)
  show ?thesis
  proof (cases "v < 0")
    case True
    have "mem_write 0 (le_encode e v) c' = packed e (v # vs)"
      using c' c_len True by (simp add: mem_write_def p_def)
    then show ?thesis
      using True resize loop ce e fits
      by (simp add: intsetUpgradeAndAdd_def Let_def raw_set intset_rep_def p_def flip: e_def ce_def)
  next
    case False
    have "take (length vs * e) c' = packed e vs"
      using c' False by (simp add: p_def)
    then have "mem_write (length vs * e) (le_encode e v) c' = packed e (vs @ [v])"
      using c' c_len False by (simp add: mem_write_def add.commute)
    then show ?thesis
      using False resize loop ce e fits
      by (simp add: intsetUpgradeAndAdd_def Let_def raw_set intset_rep_def p_def flip: e_def ce_def)
  qed
qed

text \<open>A value that needs a wider encoding is smaller or larger than all values of the set.\<close>

lemma upgrade_sorted:
  assumes "intset_rep is vs []" "sorted_wrt (<) vs" "fits 8 v" "intsetValueEncoding v > is_encoding is"
  shows "sorted_wrt (<) (if v < 0 then v # vs else vs @ [v])"
proof -
  have "\<not> fits (is_encoding is) v"
    using assms(1,4) value_encoding_least [of "is_encoding is" v] by (auto simp: intset_rep_def)
  moreover have "fits (is_encoding is) x" if "x \<in> set vs" for x
    using assms(1) that by (auto simp: intset_rep_def list_all_iff)
  ultimately show ?thesis
    using assms(2) by (fastforce simp: sorted_wrt_append fits_def)
qed

section \<open>The operations as those of a set\<close>

definition intset_set :: "intset \<Rightarrow> int set" where
  "intset_set is = set (intset_vals is)"

lemma resize_fails:
  "\<not> (is_length is + 1) * is_encoding is \<le> SIZE_MAX - sizeof_intset \<Longrightarrow> intsetResize junk is (is_length is + 1) = None"
  by (simp add: intsetResize_def Let_def)

lemma intset_add_new:
  assumes rep: "intset_rep is vs []" and sorted: "sorted_wrt (<) vs" and v: "fits 8 v" "v \<notin> set vs"
  defines "e \<equiv> max (is_encoding is) (intsetValueEncoding v)"
  shows "if Suc (length vs) * e \<le> SIZE_MAX - sizeof_intset
    then \<exists>is' vs'. intsetAdd junk is v = Some (is', True) \<and> intset_rep is' vs' [] \<and> sorted_wrt (<) vs' \<and>
      set vs' = insert v (set vs) \<and> length vs' = Suc (length vs) \<and> is_encoding is' = e
    else intsetAdd junk is v = None"
proof (cases "intsetValueEncoding v > is_encoding is")
  case True
  then have e: "e = intsetValueEncoding v" by (simp add: e_def)
  show ?thesis
  proof (cases "Suc (length vs) * e \<le> SIZE_MAX - sizeof_intset")
    case room: True
    obtain is' where "intsetUpgradeAndAdd junk is v = Some is'" "is_encoding is' = e"
      "intset_rep is' (if v < 0 then v # vs else vs @ [v]) []"
      using upgrade_and_add [OF rep v(1) True] room unfolding e by blast
    with room True upgrade_sorted [OF rep sorted v(1) True] show ?thesis
      by (auto simp: intsetAdd_def split: if_splits intro!: exI [of _ is'])
  next
    case False
    with rep True show ?thesis
      by (simp add: intsetAdd_def intsetUpgradeAndAdd_def intsetResize_def Let_def e intset_rep_def)
  qed
next
  case False
  then have e: "e = is_encoding is" by (simp add: e_def)
  have fits: "fits (is_encoding is) v"
    using False v(1) rep value_encoding_iff [of "is_encoding is" v] by (simp add: intset_rep_def)
  obtain i where i: "intsetSearch is v = (False, i)" "splits_at vs v i"
    using intset_search [OF rep sorted, of v] v(2) by (cases "intsetSearch is v") (auto split: bool.splits)
  have i_le: "i \<le> length vs" using i(2) by (simp add: splits_at_def)
  show ?thesis
  proof (cases "Suc (length vs) * e \<le> SIZE_MAX - sizeof_intset")
    case True
    obtain ys where ys: "length ys = is_encoding is"
      "intsetResize junk is (is_length is + 1) = Some (is\<lparr>is_contents := is_contents is @ ys\<rparr>)"
      using resize_grow [OF rep] True e by blast
    have rep': "intset_rep (is\<lparr>is_contents := is_contents is @ ys\<rparr>) vs ys"
      using rep by (simp add: intset_rep_def)
    define is1 where "is1 = is\<lparr>is_contents := is_contents is @ ys\<rparr>"
    define is2 where "is2 = (raw_intsetSet (if i < is_length is1 then intsetMoveTail is1 i (i + 1) else is1) i v)
        \<lparr>is_length := is_length is1 + 1\<rparr>"
    have "intset_rep is2 (take i vs @ v # drop i vs) []"
      unfolding is2_def by (rule rep_insert) (use rep' ys i_le fits in \<open>simp_all add: is1_def\<close>)
    moreover have "is_encoding is2 = is_encoding is"
      by (simp add: is2_def is1_def)
    moreover have "intsetAdd junk is v = Some (is2, True)"
      using False i(1) ys(2) by (simp add: intsetAdd_def Let_def is2_def flip: is1_def)
    moreover have "set (take i vs @ v # drop i vs) = insert v (set vs)"
    proof -
      have "set vs = set (take i vs) \<union> set (drop i vs)" by (metis append_take_drop_id set_append)
      then show ?thesis by simp
    qed
    ultimately show ?thesis
      using splits_at_insert [OF sorted i(2)] True e i_le
      unfolding if_P [OF True]
      by (intro exI [of _ is2] exI [of _ "take i vs @ v # drop i vs"] conjI) simp_all
  next
    case nroom: False
    then have "intsetResize junk is (is_length is + 1) = None"
      using rep by (intro resize_fails) (simp add: intset_rep_def e)
    with False i(1) nroom show ?thesis by (simp add: intsetAdd_def)
  qed
qed


lemma intset_add_old:
  assumes rep: "intset_rep is vs []" and sorted: "sorted_wrt (<) vs" and v: "v \<in> set vs"
  shows "intsetAdd junk is v = Some (is, False)"
proof -
  have "\<not> intsetValueEncoding v > is_encoding is"
    using rep v value_encoding_least [of "is_encoding is" v] by (auto simp: intset_rep_def list_all_iff)
  moreover obtain i where "intsetSearch is v = (True, i)"
    using intset_search [OF rep sorted, of v] v splits_at_not_in
    by (cases "intsetSearch is v") (auto split: bool.splits)
  ultimately show ?thesis by (simp add: intsetAdd_def)
qed

section \<open>Removal\<close>

lemma rep_remove:
  assumes rep: "intset_rep is vs []" and i: "i < length vs"
    and room: "length vs * is_encoding is \<le> SIZE_MAX - sizeof_intset"
  shows "\<exists>is'. intsetResize junk (if i < is_length is - 1 then intsetMoveTail is (i + 1) i else is) (is_length is - 1) = Some is'
    \<and> is_encoding is' = is_encoding is \<and> intset_rep (is'\<lparr>is_length := is_length is - 1\<rparr>) (take i vs @ drop (Suc i) vs) []"
proof -
  define e where "e = is_encoding is"
  define n where "n = length vs - 1"
  have vs: "length vs = Suc n" "i \<le> n" using i by (auto simp: n_def)
  have e: "enc_ok e" and len: "is_length is = Suc n" and c: "is_contents is = packed e vs" and fits: "list_all (fits e) vs"
    using rep vs by (simp_all add: intset_rep_def e_def)
  have fits': "list_all (fits e) (take i vs @ drop (Suc i) vs)"
    using fits by (auto simp: list_all_iff dest: in_set_takeD in_set_dropD)
  define is1 where "is1 = (if i < n then intsetMoveTail is (i + 1) i else is)"
  have c1: "length (is_contents is1) = Suc n * e \<and> take (n * e) (is_contents is1) = packed e (take i vs @ drop (Suc i) vs)"
  proof (cases "i < n")
    case True
    have "i * e \<le> n * e" using True by (intro mult_right_mono) simp_all
    moreover have "byte_range ((i + 1) * e) ((i + 1) * e + (Suc n - (i + 1)) * e) (packed e vs) = packed e (drop (Suc i) vs)"
      using byte_range_packed [of "i + 1" "n - i" vs e "[]"] vs by simp
    ultimately have "is_contents is1 = packed e (take i vs) @ packed e (drop (Suc i) vs) @ drop (i * e + (n - i) * e) (packed e vs)"
      using True c len e vs by (simp add: is1_def move_tail mem_write_def take_packed flip: e_def)
    moreover have "i * e + (n - i) * e = n * e" using vs(2) by (simp add: diff_mult_distrib)
    ultimately show ?thesis using vs by (simp add: min_def)
  next
    case False
    then show ?thesis using c vs by (simp add: is1_def take_packed)
  qed
  have enc1: "is_encoding is1 = e" by (simp add: is1_def e_def)
  have "n * e \<le> SIZE_MAX - sizeof_intset" using room vs by (simp add: e_def)
  then have "intsetResize junk is1 n = Some (is1\<lparr>is_contents := packed e (take i vs @ drop (Suc i) vs)\<rparr>)"
    using c1 enc1 by (simp add: intsetResize_def Let_def)
  moreover have "intset_rep (is1\<lparr>is_contents := packed e (take i vs @ drop (Suc i) vs), is_length := n\<rparr>) (take i vs @ drop (Suc i) vs) []"
    using e fits' vs enc1 by (auto simp: intset_rep_def)
  ultimately show ?thesis
    using len by (intro exI [of _ "is1\<lparr>is_contents := packed e (take i vs @ drop (Suc i) vs)\<rparr>"]) (simp add: is1_def)
qed

lemma remove_nth_set:
  assumes "sorted_wrt (<) (vs :: int list)" "i < length vs"
  shows "set (take i vs @ drop (Suc i) vs) = set vs - {vs ! i}" "sorted_wrt (<) (take i vs @ drop (Suc i) vs)"
proof -
  have vs: "vs = take i vs @ vs ! i # drop (Suc i) vs" using assms(2) by (simp add: Cons_nth_drop_Suc)
  have srt: "sorted_wrt (<) (take i vs @ vs ! i # drop (Suc i) vs)" using assms(1) vs by simp
  then show "sorted_wrt (<) (take i vs @ drop (Suc i) vs)" by (auto simp: sorted_wrt_append)
  have "vs ! i \<notin> set (take i vs @ drop (Suc i) vs)" using srt by (auto simp: sorted_wrt_append)
  moreover have "set vs = insert (vs ! i) (set (take i vs @ drop (Suc i) vs))" by (subst vs) simp
  ultimately show "set (take i vs @ drop (Suc i) vs) = set vs - {vs ! i}" by blast
qed

section \<open>Sets of integers\<close>

lemma intset_find:
  assumes rep: "intset_rep is vs []" and sorted: "sorted_wrt (<) vs"
  shows "intsetFind is v \<longleftrightarrow> v \<in> set vs"
proof -
  have "intsetValueEncoding v \<le> is_encoding is" if "v \<in> set vs"
    using that rep value_encoding_least [of "is_encoding is" v] by (auto simp: intset_rep_def list_all_iff)
  moreover have "fst (intsetSearch is v) \<longleftrightarrow> v \<in> set vs"
    using intset_search [OF rep sorted, of v] splits_at_not_in
    by (cases "intsetSearch is v") (auto split: bool.splits)
  ultimately show ?thesis by (auto simp: intsetFind_def)
qed

lemma intset_add_ok:
  assumes ok: "intset_ok is" and v: "fits 8 v"
  shows "case intsetAdd junk is v of
      None \<Rightarrow> v \<notin> intset_set is \<and>
        sizeof_intset + (intsetLen is + 1) * max (is_encoding is) (intsetValueEncoding v) > SIZE_MAX
    | Some (is', added) \<Rightarrow> intset_ok is' \<and> intset_set is' = insert v (intset_set is) \<and> added = (v \<notin> intset_set is)"
proof -
  from ok obtain vs where vs: "intset_rep is vs []" "sorted_wrt (<) vs" "vs = intset_vals is"
    by (auto elim: intset_okE)
  then have set: "intset_set is = set vs" and len: "intsetLen is = length vs"
    by (simp_all add: intset_set_def intsetLen_def intset_rep_def)
  show ?thesis
  proof (cases "v \<in> set vs")
    case True
    with intset_add_old [OF vs(1,2) True, of junk] ok set show ?thesis by auto
  next
    case False
    show ?thesis
    proof (cases "Suc (length vs) * max (is_encoding is) (intsetValueEncoding v) \<le> SIZE_MAX - sizeof_intset")
      case room: True
      then obtain is' vs' where "intsetAdd junk is v = Some (is', True)" and is': "intset_rep is' vs' []" "sorted_wrt (<) vs'"
        "set vs' = insert v (set vs)" "length vs' = Suc (length vs)" "is_encoding is' = max (is_encoding is) (intsetValueEncoding v)"
        using intset_add_new [OF vs(1,2) v False, of junk] by auto
      moreover have "intset_ok is'" using is' room by (intro intset_okI [OF is'(1,2)]) simp
      moreover have "intset_set is' = set vs'" using rep_vals [OF is'(1)] by (simp add: intset_set_def)
      ultimately show ?thesis using False set by simp
    next
      case nroom: False
      then have "intsetAdd junk is v = None" using intset_add_new [OF vs(1,2) v False, of junk] by simp
      with nroom False set len show ?thesis by simp
    qed
  qed
qed

lemma intset_card:
  assumes "intset_ok is"
  shows "card (intset_set is) = intsetLen is"
proof -
  have "distinct (intset_vals is)" using assms by (auto elim!: intset_okE simp: strict_sorted_iff)
  then have "card (intset_set is) = length (intset_vals is)" by (simp add: intset_set_def distinct_card)
  then show ?thesis by (simp add: intset_vals_def intsetLen_def)
qed

lemma intset_add_room:
  assumes "intset_ok is" "fits 8 v" "card (intset_set is) < 536870910"
  shows "intsetAdd junk is v \<noteq> None"
proof
  assume "intsetAdd junk is v = None"
  with intset_add_ok [OF assms(1,2), of junk]
  have "sizeof_intset + (intsetLen is + 1) * max (is_encoding is) (intsetValueEncoding v) > SIZE_MAX" by simp
  moreover have "(intsetLen is + 1) * max (is_encoding is) (intsetValueEncoding v) \<le> 536870910 * 8"
    using assms intset_card value_encoding_ok [of v]
    by (intro mult_le_mono) (auto simp: enc_ok_def intset_rep_def elim!: intset_okE)
  ultimately show False by simp
qed

lemma intset_remove_ok:
  assumes ok: "intset_ok is" and v: "fits 8 v"
  shows "\<exists>is' removed. intsetRemove junk is v = Some (is', removed) \<and> intset_ok is' \<and>
    intset_set is' = intset_set is - {v} \<and> removed = (v \<in> intset_set is)"
proof -
  from ok obtain vs where vs: "intset_rep is vs []" "sorted_wrt (<) vs" "vs = intset_vals is"
      "length vs * is_encoding is \<le> SIZE_MAX - sizeof_intset"
    by (auto elim: intset_okE)
  have find: "intsetFind is v \<longleftrightarrow> v \<in> set vs" using intset_find [OF vs(1,2)] .
  show ?thesis
  proof (cases "v \<in> set vs")
    case True
    obtain i where i: "intsetSearch is v = (True, i)" "i < length vs" "vs ! i = v"
      using intset_search [OF vs(1,2), of v] True splits_at_not_in
      by (cases "intsetSearch is v") (auto split: bool.splits)
    obtain is' where is': "intsetResize junk (if i < is_length is - 1 then intsetMoveTail is (i + 1) i else is) (is_length is - 1) = Some is'"
      "is_encoding is' = is_encoding is" "intset_rep (is'\<lparr>is_length := is_length is - 1\<rparr>) (take i vs @ drop (Suc i) vs) []"
      using rep_remove [OF vs(1) i(2) vs(4)] by blast
    have run: "intsetRemove junk is v = Some (is'\<lparr>is_length := is_length is - 1\<rparr>, True)"
      using True find i(1) is'(1) by (simp add: intsetRemove_def intsetFind_def Let_def)
    have "length (take i vs @ drop (Suc i) vs) * is_encoding is \<le> length vs * is_encoding is"
      using i(2) by (intro mult_right_mono) simp_all
    then have "length (take i vs @ drop (Suc i) vs) * is_encoding is \<le> SIZE_MAX - sizeof_intset"
      using vs(4) by (rule order_trans)
    then have "intset_ok (is'\<lparr>is_length := is_length is - 1\<rparr>)"
      using is'(2) by (intro intset_okI [OF is'(3) remove_nth_set(2) [OF vs(2) i(2)]]) simp
    moreover have "intset_set (is'\<lparr>is_length := is_length is - 1\<rparr>) = intset_set is - {v}"
      using rep_vals [OF is'(3)] remove_nth_set(1) [OF vs(2) i(2)] i(3) vs(3) by (simp add: intset_set_def)
    ultimately show ?thesis using run True vs(3) by (auto simp: intset_set_def)
  next
    case False
    with find ok vs(3) show ?thesis
      by (auto simp: intsetRemove_def intsetFind_def intset_set_def split: prod.splits bool.splits)
  qed
qed


section \<open>The contract\<close>

text \<open>Adding the values of a list one by one, counting the new ones; \<open>None\<close> when one insertion fails.\<close>

primrec add_all :: "('s \<Rightarrow> int \<Rightarrow> ('s \<times> bool) option) \<Rightarrow> 's \<Rightarrow> int list \<Rightarrow> ('s \<times> nat) option" where
  "add_all add s [] = Some (s, 0)"
| "add_all add s (v # vs) =
     (case add s v of
        None \<Rightarrow> None
      | Some (s', b) \<Rightarrow> map_option (\<lambda>(s'', n). (s'', (if b then 1 else 0) + n)) (add_all add s' vs))"

text \<open>
  What the users of a set of integers (\<open>t_set.c\<close>) rely on: a set whose elements are 64-bit integers,
  insertion that may run out of address space, removal that never does.
\<close>

locale bounded_int_set =
  fixes invar :: "'s \<Rightarrow> bool"
    and elems :: "'s \<Rightarrow> int set"
    and member :: "'s \<Rightarrow> int \<Rightarrow> bool"
    and add :: "'s \<Rightarrow> int \<Rightarrow> ('s \<times> bool) option"
    and remove :: "'s \<Rightarrow> int \<Rightarrow> ('s \<times> bool) option"
    and cap :: nat
  assumes elems_finite: "invar s \<Longrightarrow> finite (elems s)"
    and member_iff: "invar s \<Longrightarrow> member s v \<longleftrightarrow> v \<in> elems s"
    and add_old: "invar s \<Longrightarrow> v \<in> elems s \<Longrightarrow> add s v = Some (s, False)"
    and add_room: "invar s \<Longrightarrow> fits 8 v \<Longrightarrow> card (elems s) < cap \<Longrightarrow> add s v \<noteq> None"
    and add_some: "invar s \<Longrightarrow> fits 8 v \<Longrightarrow> add s v = Some (s', b) \<Longrightarrow>
      invar s' \<and> elems s' = insert v (elems s) \<and> b = (v \<notin> elems s)"
    and remove_some: "invar s \<Longrightarrow> fits 8 v \<Longrightarrow>
      \<exists>s' b. remove s v = Some (s', b) \<and> invar s' \<and> elems s' = elems s - {v} \<and> b = (v \<in> elems s)"
begin

lemma add_all_elems:
  assumes "invar s" "list_all (fits 8) vs" "add_all add s vs = Some (s', n)"
  shows "invar s' \<and> elems s' = elems s \<union> set vs \<and> n = card (set vs - elems s)"
  using assms
proof (induction vs arbitrary: s n)
  case (Cons v vs)
  obtain s1 b m where s1: "add s v = Some (s1, b)" "add_all add s1 vs = Some (s', m)" "n = (if b then 1 else 0) + m"
    using Cons.prems(3) by (auto split: option.splits)
  have a: "invar s1" "elems s1 = insert v (elems s)" "b = (v \<notin> elems s)"
    using add_some [OF Cons.prems(1) _ s1(1)] Cons.prems(2) by simp_all
  have "invar s' \<and> elems s' = elems s1 \<union> set vs \<and> m = card (set vs - elems s1)"
    using Cons.IH [OF a(1) _ s1(2)] Cons.prems a(2) by simp
  moreover have "card (set (v # vs) - elems s) = (if b then 1 else 0) + card (set vs - elems s1)"
  proof (cases b)
    case True
    then have "set (v # vs) - elems s = insert v (set vs - elems s1)" "v \<notin> set vs - elems s1" using a by auto
    with True show ?thesis by simp
  next
    case False
    then have "set (v # vs) - elems s = set vs - elems s1" using a by auto
    with False show ?thesis by simp
  qed
  ultimately show ?case using s1(3) a(2) by auto
qed simp

lemma add_all_total:
  assumes "invar s" "list_all (fits 8) vs" "card (elems s) + length vs \<le> cap"
  shows "add_all add s vs \<noteq> None"
  using assms
proof (induction vs arbitrary: s)
  case (Cons v vs)
  obtain s1 b where s1: "add s v = Some (s1, b)"
    using add_room [OF Cons.prems(1), of v] Cons.prems(2,3) by auto
  have "invar s1" "elems s1 = insert v (elems s)" using add_some [OF Cons.prems(1) _ s1] Cons.prems(2) by simp_all
  moreover have "card (insert v (elems s)) \<le> card (elems s) + 1"
    using elems_finite [OF Cons.prems(1)] by (simp add: card_insert_if)
  ultimately show ?case using Cons.IH [of s1] Cons.prems(2,3) s1 by simp
qed simp

lemma remove_add:
  assumes "invar s" "fits 8 v" "v \<notin> elems s" "add s v = Some (s', b)"
  shows "\<exists>s''. remove s' v = Some (s'', True) \<and> invar s'' \<and> elems s'' = elems s"
proof -
  have "invar s'" "elems s' = insert v (elems s)" using add_some [OF assms(1,2,4)] by simp_all
  with remove_some [OF \<open>invar s'\<close> assms(2)] assms(3) show ?thesis by auto
qed

end

interpretation iset: bounded_int_set intset_ok intset_set intsetFind "intsetAdd junk" "intsetRemove junk" 536870910 for junk
proof
  show "finite (intset_set is)" for "is"
    by (simp add: intset_set_def)
  show "intsetAdd junk is v \<noteq> None" if "intset_ok is" "fits 8 v" "card (intset_set is) < 536870910" for "is" v
    using intset_add_room that .
  show "intsetFind is v \<longleftrightarrow> v \<in> intset_set is" if "intset_ok is" for "is" v
    using that by (auto elim!: intset_okE simp: intset_find intset_set_def)
  show "intsetAdd junk is v = Some (is, False)" if "intset_ok is" "v \<in> intset_set is" for "is" v
    using that by (auto elim!: intset_okE simp: intset_add_old intset_set_def)
  show "intset_ok is' \<and> intset_set is' = insert v (intset_set is) \<and> b = (v \<notin> intset_set is)"
    if "intset_ok is" "fits 8 v" "intsetAdd junk is v = Some (is', b)" for "is" v "is'" b
    using intset_add_ok [OF that(1,2), of junk] that(3) by simp
  show "\<exists>is' b. intsetRemove junk is v = Some (is', b) \<and> intset_ok is' \<and> intset_set is' = intset_set is - {v} \<and>
      b = (v \<in> intset_set is)" if "intset_ok is" "fits 8 v" for "is" v
    using intset_remove_ok [OF that] .
qed


section \<open>Integrity\<close>

lemma ordered_loop:
  "intset_ordered_loop is i k prev \<longleftrightarrow> sorted_wrt (<) (prev # map (raw_intsetGet is) [i..<i + k])"
proof (induction "is" i k prev rule: intset_ordered_loop.induct)
  case (2 "is" i k prev)
  have up: "[i..<i + Suc k] = i # [i + 1..<i + 1 + k]" by (simp add: upt_rec)
  show ?case
    using 2 unfolding up by (auto simp: Let_def)
qed simp

lemma blob_header: "is_encoding (intset_of_blob p) < 2 ^ 32 \<and> is_length (intset_of_blob p) < 2 ^ 32"
proof -
  have "nat (le_nat bs) < 2 ^ 32" if "length bs \<le> 4" for bs :: "byte list"
  proof -
    have "(256 :: int) ^ length bs \<le> 256 ^ 4" using that by (intro power_increasing) simp_all
    with le_nat_bounds [of bs] show ?thesis by (simp add: nat_less_iff)
  qed
  then show ?thesis by (simp add: intset_of_blob_def byte_range_def)
qed

text \<open>A list of entries of the right width is the packed image of their values.\<close>

lemma packed_vals:
  assumes "enc_ok e" "length c = n * e"
  shows "c = packed e (map (\<lambda>i. le_int (byte_range (i * e) (i * e + e) c)) [0..<n])"
  using assms(2)
proof (induction n arbitrary: c)
  case (Suc n)
  have c: "c = take (n * e) c @ drop (n * e) c" by simp
  have last: "byte_range (n * e) (n * e + e) c = drop (n * e) c" using Suc.prems by (simp add: byte_range_def)
  have front: "map (\<lambda>i. le_int (byte_range (i * e) (i * e + e) c)) [0..<n]
      = map (\<lambda>i. le_int (byte_range (i * e) (i * e + e) (take (n * e) c))) [0..<n]"
  proof (rule map_cong [OF refl])
    fix i assume "i \<in> set [0..<n]"
    then have "Suc i * e \<le> n * e" by (intro mult_right_mono) auto
    then show "le_int (byte_range (i * e) (i * e + e) c) = le_int (byte_range (i * e) (i * e + e) (take (n * e) c))"
      by (intro arg_cong [where f = le_int] byte_range_take_eq [of "n * e"]) simp_all
  qed
  have "packed e (map (\<lambda>i. le_int (byte_range (i * e) (i * e + e) (take (n * e) c))) [0..<n]) = take (n * e) c"
    using Suc.IH [of "take (n * e) c"] Suc.prems by simp
  moreover have "le_encode e (le_int (drop (n * e) c)) = drop (n * e) c"
    using le_encode_int [of "drop (n * e) c"] Suc.prems by simp
  ultimately show ?case using c by (simp only: upt_Suc_append [OF le0] map_append front last list.map packed_simps append_Nil2)
qed simp

lemma rep_of_contents:
  assumes "enc_ok (is_encoding is)" "length (is_contents is) = is_length is * is_encoding is"
  shows "intset_rep is (intset_vals is) []"
proof -
  have "intset_vals is = map (\<lambda>i. le_int (byte_range (i * is_encoding is) (i * is_encoding is + is_encoding is) (is_contents is))) [0..<is_length is]"
    using assms(1) by (simp add: intset_vals_def raw_intsetGet_def get_encoded)
  moreover have "fits (is_encoding is) (le_int (byte_range (i * is_encoding is) (i * is_encoding is + is_encoding is) (is_contents is)))"
    if "i < is_length is" for i
  proof -
    have "Suc i * is_encoding is \<le> is_length is * is_encoding is" using that by (intro mult_right_mono) simp_all
    then have "length (byte_range (i * is_encoding is) (i * is_encoding is + is_encoding is) (is_contents is)) = is_encoding is"
      using assms(2) by simp
    then show ?thesis using le_int_fits by metis
  qed
  ultimately show ?thesis
    using assms packed_vals [OF assms] by (auto simp: intset_rep_def list_all_iff)
qed


lemma validate_deep:
  assumes nowrap: "sizeof_intset + is_length (intset_of_blob p) * is_encoding (intset_of_blob p) < 2 ^ 32"
  shows "intsetValidateIntegrity p True \<longleftrightarrow>
    sizeof_intset \<le> length p \<and> intset_ok (intset_of_blob p) \<and> intset_set (intset_of_blob p) \<noteq> {}"
proof -
  define s where "s = intset_of_blob p"
  have len: "length (is_contents s) = length p - 8" by (simp add: s_def intset_of_blob_def)
  have order: "intset_ordered_loop s 1 (is_length s - 1) (raw_intsetGet s 0) \<longleftrightarrow> sorted_wrt (<) (intset_vals s)"
    if "is_length s \<noteq> 0"
  proof -
    have "[0..<is_length s] = 0 # [1..<1 + (is_length s - 1)]" using that by (simp add: upt_rec)
    then show ?thesis by (simp add: ordered_loop intset_vals_def)
  qed
  have empty: "intset_set s = {} \<longleftrightarrow> is_length s = 0" by (simp add: intset_set_def intset_vals_def)
  have lenv: "length (intset_vals s) = is_length s" by (simp add: intset_vals_def)
  show ?thesis
  proof (cases "sizeof_intset \<le> length p \<and> enc_ok (is_encoding s) \<and>
      sizeof_intset + is_length s * is_encoding s = length p \<and> is_length s \<noteq> 0")
    case True
    then have "intset_rep s (intset_vals s) []" using len by (intro rep_of_contents) auto
    then have "intset_ok s \<longleftrightarrow> sorted_wrt (<) (intset_vals s)"
      using nowrap lenv by (auto elim: intset_okE intro!: intset_okI simp flip: s_def)
    with True order empty nowrap show ?thesis
      by (auto simp: intsetValidateIntegrity_def Let_def enc_ok_def simp flip: s_def)
  next
    case False
    have "\<not> intsetValidateIntegrity p True"
      using False nowrap by (auto simp: intsetValidateIntegrity_def Let_def enc_ok_def simp flip: s_def)
    moreover have "enc_ok (is_encoding s) \<and> length p - 8 = is_length s * is_encoding s" if "intset_ok s"
      using that len by (auto elim!: intset_okE simp: intset_rep_def)
    ultimately show ?thesis using False empty by (auto simp flip: s_def)
  qed
qed

lemma intset_vals_sorted: "intset_ok is \<Longrightarrow> intset_vals is = sorted_list_of_set (intset_set is)"
  by (auto elim!: intset_okE simp: intset_set_def strict_sorted_iff sorted_list_of_set.idem_if_sorted_distinct)

lemma intset_new_ok: "intset_ok intsetNew \<and> intset_set intsetNew = {}"
proof -
  have rep: "intset_rep intsetNew [] []" by (simp add: intset_rep_def intsetNew_def enc_ok_def)
  then show ?thesis using rep_vals [OF rep] by (auto simp: intset_set_def intro!: intset_okI)
qed

section \<open>Properties\<close>

text \<open>
  C16: \<open>intsetAdd\<close> inserts into a set of 64-bit integers. Whatever the current encoding, the
  upgrade to a wider one and the bytes \<open>zrealloc\<close> hands out, the result again is a packed, strictly increasing
  array whose elements are the old ones and the new value, and \<open>success\<close> says whether the value was
  new. The assertion in \<open>intsetResize\<close> fails only for a new value and a block that would not fit
  into the address space.
\<close>

theorem intset_add_refines:
  assumes "intset_ok is" "fits 8 v"
  shows "case intsetAdd junk is v of
      None \<Rightarrow> v \<notin> intset_set is \<and>
        sizeof_intset + (intsetLen is + 1) * max (is_encoding is) (intsetValueEncoding v) > SIZE_MAX
    | Some (is', added) \<Rightarrow> intset_ok is' \<and> intset_set is' = insert v (intset_set is) \<and> added = (v \<notin> intset_set is)"
  using intset_add_ok [OF assms] .

definition sample_intset :: intset where
  "sample_intset = \<lparr>is_encoding = 2, is_length = 2, is_contents = [0xFF, 0xFF, 7, 0]\<rparr>"

lemma le_encode_2: "le_encode 2 v = [word_of_int v, word_of_int (v div 256)]"
  by (simp add: numeral_2_eq_2)

lemma sample_intset_ok: "intset_ok sample_intset \<and> intset_set sample_intset = {-1, 7}"
proof -
  have "intset_rep sample_intset [-1, 7] []"
    by (simp add: intset_rep_def sample_intset_def enc_ok_def fits_def le_encode_2)
  from this rep_vals [OF this] show ?thesis
    by (auto simp: intset_set_def intro!: intset_okI) (simp add: sample_intset_def)
qed

theorem intset_add_refines_witness:
  "\<exists>is'. intsetAdd (\<lambda>_. 0) sample_intset 70000 = Some (is', True) \<and> intset_set is' = {-1, 7, 70000}"
proof -
  have "fits 8 70000" by (simp add: fits_def)
  moreover have "intsetValueEncoding 70000 = 4" by (simp add: intsetValueEncoding_def)
  ultimately show ?thesis
    using intset_add_refines [of sample_intset 70000 "\<lambda>_. 0"] sample_intset_ok
    by (auto simp: sample_intset_def intsetLen_def insert_commute split: option.splits)
qed

text \<open>
  C17: \<open>intsetRemove\<close> always returns, removes exactly the value, keeps the representation, and reports
  whether the value was there.
\<close>

theorem intset_remove_refines:
  assumes "intset_ok is" "fits 8 v"
  shows "\<exists>is' removed. intsetRemove junk is v = Some (is', removed) \<and> intset_ok is' \<and>
    intset_set is' = intset_set is - {v} \<and> removed = (v \<in> intset_set is)"
  using iset.remove_some [OF assms] .

theorem intset_remove_refines_witness:
  "\<exists>is'. intsetRemove (\<lambda>_. 0) sample_intset (-1) = Some (is', True) \<and> intset_set is' = {7}"
proof -
  have "fits 8 (-1)" by (simp add: fits_def)
  then show ?thesis
    using intset_remove_refines [of sample_intset "-1" "\<lambda>_. 0"] sample_intset_ok by auto
qed

text \<open>
  C18: A set built by inserting any sequence of 64-bit integers into an empty one, of at most
  536870910 values: no assertion fails, the number of successful insertions is the number of
  distinct values, the array lists them in increasing order, and \<open>intsetFind\<close> finds exactly them.
\<close>

theorem intset_build:
  assumes "list_all (fits 8) vs" "length vs \<le> 536870910"
  shows "\<exists>is'. add_all (intsetAdd junk) intsetNew vs = Some (is', card (set vs)) \<and>
    intset_vals is' = sorted_list_of_set (set vs) \<and> (\<forall>v. intsetFind is' v \<longleftrightarrow> v \<in> set vs)"
proof -
  have "add_all (intsetAdd junk) intsetNew vs \<noteq> None"
    by (rule iset.add_all_total) (use assms intset_new_ok in auto)
  then obtain is' n where run: "add_all (intsetAdd junk) intsetNew vs = Some (is', n)" by auto
  have "intset_ok is' \<and> intset_set is' = set vs \<and> n = card (set vs)"
    using iset.add_all_elems [OF _ assms(1) run] intset_new_ok by simp
  with run show ?thesis by (auto simp: intset_vals_sorted iset.member_iff)
qed

theorem intset_build_witness:
  "\<exists>is'. add_all (intsetAdd (\<lambda>_. 0)) intsetNew [5, -70000, 5] = Some (is', 2) \<and> intset_vals is' = [-70000, 5] \<and>
    intsetFind is' 5 \<and> \<not> intsetFind is' 6"
proof -
  have "list_all (fits 8) [5, -70000, 5]" by (simp add: fits_def)
  then obtain is' where "add_all (intsetAdd (\<lambda>_. 0)) intsetNew [5, -70000, 5] = Some (is', card (set [5, -70000, 5 :: int]))"
    "intset_vals is' = sorted_list_of_set (set [5, -70000, 5])" "\<forall>v. intsetFind is' v \<longleftrightarrow> v \<in> set [5, -70000, 5]"
    using intset_build [of "[5, -70000, 5]" "\<lambda>_. 0"] by auto
  moreover have "sorted_list_of_set (set [5, -70000, 5 :: int]) = [-70000, 5]"
    using sorted_list_of_set.idem_if_sorted_distinct [of "[-70000, 5 :: int]"] by (simp add: insert_commute)
  moreover have "card (set [5, -70000, 5 :: int]) = 2" by (simp add: card_insert_if)
  ultimately show ?thesis by (intro exI [of _ is']) auto
qed

text \<open>
  C19: When the size that the header of a serialised set announces does not wrap around in
  \<open>size_t\<close>, the deep integrity check accepts exactly the blocks that hold a well-formed, non-empty
  set.
\<close>

theorem intset_validate_exact:
  assumes "sizeof_intset + is_length (intset_of_blob p) * is_encoding (intset_of_blob p) < 2 ^ 32"
  shows "intsetValidateIntegrity p True \<longleftrightarrow>
    sizeof_intset \<le> length p \<and> intset_ok (intset_of_blob p) \<and> intset_set (intset_of_blob p) \<noteq> {}"
  using validate_deep [OF assms] .

theorem intset_validate_exact_witness:
  "intsetValidateIntegrity [2, 0, 0, 0, 2, 0, 0, 0, 0xFF, 0xFF, 7, 0] True \<longleftrightarrow>
    8 \<le> length [2, 0, 0, 0, 2, 0, 0, 0, 0xFF, 0xFF, 7, 0 :: byte] \<and>
    intset_ok (intset_of_blob [2, 0, 0, 0, 2, 0, 0, 0, 0xFF, 0xFF, 7, 0]) \<and>
    intset_set (intset_of_blob [2, 0, 0, 0, 2, 0, 0, 0, 0xFF, 0xFF, 7, 0]) \<noteq> {}"
  using intset_validate_exact [of "[2, 0, 0, 0, 2, 0, 0, 0, 0xFF, 0xFF, 7, 0]"]
  by (simp add: intset_of_blob_def byte_range_def)


text \<open>
  C21: On a well-formed non-empty set, \<open>intsetMin\<close> and \<open>intsetMax\<close> return the smallest and the
  largest element, \<open>intsetRandom\<close> an element, whatever \<open>rand\<close> returns, \<open>intsetGet\<close> the elements in
  increasing order of position and nothing behind the last, and \<open>intsetBlobLen\<close> does not wrap around.
\<close>

theorem intset_queries:
  assumes "intset_ok is" "intset_set is \<noteq> {}"
  shows "intsetMin is = Min (intset_set is) \<and> intsetMax is = Max (intset_set is) \<and>
    (\<exists>v\<in>intset_set is. intsetRandom rnd is = Some v) \<and>
    intsetGet is i = (if i < card (intset_set is) then Some (sorted_list_of_set (intset_set is) ! i) else None) \<and>
    intsetBlobLen is = sizeof_intset + length (is_contents is)"
proof (intro conjI)
  from assms(1) obtain vs where vs: "intset_rep is vs []" "sorted_wrt (<) vs" "vs = intset_vals is"
      "length vs * is_encoding is \<le> SIZE_MAX - sizeof_intset"
    by (auto elim: intset_okE)
  have len: "is_length is = length vs" "vs \<noteq> []" using vs assms(2) by (auto simp: intset_rep_def intset_set_def)
  have srt: "sorted vs" "distinct vs" using vs(2) by (auto simp: strict_sorted_iff)
  have ivs: "intset_set is = set vs" using vs(3) by (simp add: intset_set_def)
  show "intsetMin is = Min (intset_set is)"
    using rep_get [OF vs(1), of 0] len srt
    by (cases vs) (auto simp: intsetMin_def ivs intro!: Min_eqI [symmetric])
  show "intsetMax is = Max (intset_set is)"
    using rep_get [OF vs(1), of "length vs - 1"] len srt
    by (auto simp: intsetMax_def ivs in_set_conv_nth sorted_nth_mono intro!: Max_eqI [symmetric] exI [of _ "length vs - 1"])
  show "\<exists>v\<in>intset_set is. intsetRandom rnd is = Some v"
    using rep_get [OF vs(1), of "rnd mod length vs"] len by (simp add: intsetRandom_def ivs)
  show "intsetGet is i = (if i < card (intset_set is) then Some (sorted_list_of_set (intset_set is) ! i) else None)"
    using rep_get [OF vs(1), of i] len srt
    by (simp add: intsetGet_def ivs distinct_card sorted_list_of_set.idem_if_sorted_distinct)
  show "intsetBlobLen is = sizeof_intset + length (is_contents is)"
    using vs len by (simp add: intsetBlobLen_def intset_rep_def)
qed

theorem intset_queries_witness:
  "intsetMin sample_intset = Min {-1, 7} \<and> intsetGet sample_intset 1 = Some (sorted_list_of_set {-1, 7} ! 1)"
  using intset_queries [of sample_intset] sample_intset_ok by simp

end
