(* ===== verification/Redis_Util.thy ===== *)
theory Redis_Util
  imports Prelude
begin

text \<open>
  Numbers and their decimal representation: the conversions of \<open>src/util.c\<close> of Redis.

  A \<open>long long\<close> is an \<open>int\<close>, an \<open>unsigned long long\<close> a \<open>nat\<close>; every operation that could leave the
  64 bits is guarded in the code, or reduced modulo \<open>2 ^ 64\<close> in the model. Destination buffers are byte
  lists of the length the caller passes; conversions return the number of characters and the
  buffer as it is left.
\<close>

abbreviation (input) ULLONG_MAX :: nat where "ULLONG_MAX \<equiv> 2 ^ 64 - 1"
abbreviation (input) LLONG_MAX :: int where "LLONG_MAX \<equiv> 2 ^ 63 - 1"
abbreviation (input) LLONG_MIN :: int where "LLONG_MIN \<equiv> - (2 ^ 63)"
abbreviation (input) LONG_STR_SIZE :: nat where "LONG_STR_SIZE \<equiv> 21"

section \<open>Numbers of digits\<close>

function digits10 :: "nat \<Rightarrow> nat" where
  "digits10 v =
     (if v < 10 then 1
      else if v < 100 then 2
      else if v < 1000 then 3
      else if v < 1000000000000 then
        (if v < 100000000 then
           (if v < 1000000 then (if v < 10000 then 4 else 5 + (if v \<ge> 100000 then 1 else 0))
            else 7 + (if v \<ge> 10000000 then 1 else 0))
         else if v < 10000000000 then 9 + (if v \<ge> 1000000000 then 1 else 0)
         else 11 + (if v \<ge> 100000000000 then 1 else 0))
      else 12 + digits10 (v div 1000000000000))"
  by pat_completeness auto
termination by (relation "measure id") auto

declare digits10.simps [simp del]

text \<open>\<open>-v\<close> of \<open>LLONG_MIN\<close> is taken as \<open>LLONG_MAX + 1\<close>.\<close>

definition sdigits10 :: "int \<Rightarrow> nat" where
  "sdigits10 v =
     (if v < 0 then
        (let uv = (if v \<noteq> LLONG_MIN then nat (- v) else nat LLONG_MAX + 1) in digits10 uv + 1)
      else digits10 (nat v))"

section \<open>Printing\<close>

text \<open>The table of the two-digit strings.\<close>

definition digits_table :: "byte list" where
  "digits_table =
     str8 (''0001020304050607080910111213141516171819'' @
           ''2021222324252627282930313233343536373839'' @
           ''4041424344454647484950515253545556575859'' @
           ''6061626364656667686970717273747576777879'' @
           ''8081828384858687888990919293949596979899'')"

text \<open>The loop over pairs of digits, from the last one, and the handling of the last one or two.\<close>

function ull2string_digits :: "byte list \<Rightarrow> nat \<Rightarrow> nat \<Rightarrow> byte list" where
  "ull2string_digits dst nxt val =
     (if val \<ge> 100 then
        (let i = (val mod 100) * 2; val = val div 100;
             dst = dst[nxt := digits_table ! (i + 1)];
             dst = dst[nxt - 1 := digits_table ! i]
         in ull2string_digits dst (nxt - 2) val)
      else if val < 10 then dst[nxt := c8 CHR ''0'' + of_nat val]
      else
        (let i = val * 2; dst = dst[nxt := digits_table ! (i + 1)] in dst[nxt - 1 := digits_table ! i]))"
  by pat_completeness auto
termination by (relation "measure (\<lambda>(dst, nxt, val). val)") auto

declare ull2string_digits.simps [simp del]

definition ull2string :: "byte list \<Rightarrow> nat \<Rightarrow> nat \<times> byte list" where
  "ull2string dst val =
     (let len = digits10 val in
      if len \<ge> length dst then (0, if length dst > 0 then dst[0 := 0] else dst)
      else
        (let nxt = len - 1; dst = dst[nxt + 1 := 0] in (len, ull2string_digits dst nxt val)))"

definition ll2string :: "byte list \<Rightarrow> int \<Rightarrow> nat \<times> byte list" where
  "ll2string dst svalue =
     (if svalue < 0 then
        (let val = (if svalue \<noteq> LLONG_MIN then nat (- svalue) else nat LLONG_MAX + 1) in
         if length dst < 2 then (0, if length dst > 0 then dst[0 := 0] else dst)
         else
           (case ull2string (tl dst) val of
              (len, rest) \<Rightarrow> (if len = 0 then 0 else len + 1, c8 CHR ''-'' # rest)))
      else ull2string dst (nat svalue))"

section \<open>Parsing\<close>

text \<open>
  The loop over the digits, with its two checks for overflow (\<open>None\<close>); it returns the value and what
  is left of the string.
\<close>

fun string2ll_loop :: "byte list \<Rightarrow> nat \<Rightarrow> (nat \<times> byte list) option" where
  "string2ll_loop [] v = Some (v, [])"
| "string2ll_loop (c # p) v =
     (if is_digit c then
        (if v > ULLONG_MAX div 10 then None
         else if v * 10 > ULLONG_MAX - digit_val c then None
         else string2ll_loop p (v * 10 + digit_val c))
      else Some (v, c # p))"

definition string2ll :: "byte list \<Rightarrow> int option" where
  "string2ll s =
     (if length s = 0 \<or> length s \<ge> LONG_STR_SIZE then None
      else if length s = 1 \<and> s ! 0 = c8 CHR ''0'' then Some 0
      else
        (let negative = (s ! 0 = c8 CHR ''-''); p = (if negative then tl s else s) in
         if p = [] then None
         else if c8 CHR ''1'' \<le> p ! 0 \<and> p ! 0 \<le> c8 CHR ''9'' then
           (case string2ll_loop (tl p) (digit_val (p ! 0)) of
              None \<Rightarrow> None
            | Some (v, rest) \<Rightarrow>
                if rest \<noteq> [] then None
                else if negative then
                  (if int v > - (LLONG_MIN + 1) + 1 then None else Some (- int v))
                else if int v > LLONG_MAX then None
                else Some (int v))
         else None))"

text \<open>\<open>long\<close> has 32 bits.\<close>

definition string2l :: "byte list \<Rightarrow> int option" where
  "string2l s =
     (case string2ll s of
        None \<Rightarrow> None
      | Some llval \<Rightarrow> if llval < - (2 ^ 31) \<or> llval > 2 ^ 31 - 1 then None else Some llval)"

text \<open>
  \<open>string2ul_base16_async_signal_safe\<close>: hexadecimal digits, as far as they go and at most
  \<open>slen\<close>; \<open>None\<close> is the return value \<open>-1\<close>. The string ends with a byte that is no digit.
\<close>

datatype base16_class = B16_digit | B16_lower | B16_upper | B16_none

definition base_16_char_type :: "byte \<Rightarrow> base16_class" where
  "base_16_char_type c =
     (if c8 CHR ''0'' \<le> c \<and> c \<le> c8 CHR ''9'' then B16_digit
      else if c8 CHR ''a'' \<le> c \<and> c \<le> c8 CHR ''f'' then B16_lower
      else if c8 CHR ''A'' \<le> c \<and> c \<le> c8 CHR ''F'' then B16_upper
      else B16_none)"

definition base_16_val :: "byte \<Rightarrow> nat" where
  "base_16_val c =
     (case base_16_char_type c of
        B16_digit \<Rightarrow> unat c - 48 | B16_lower \<Rightarrow> unat c - (97 - 10) | B16_upper \<Rightarrow> unat c - (65 - 10) | B16_none \<Rightarrow> 0)"

abbreviation (input) ULONG_MAX :: nat where "ULONG_MAX \<equiv> 2 ^ 32 - 1"

fun base16_loop :: "byte list \<Rightarrow> nat \<Rightarrow> nat \<Rightarrow> nat option" where
  "base16_loop [] slen res = Some res"
| "base16_loop (c # src) slen res =
     (if base_16_char_type c \<noteq> B16_none \<and> slen > 0 then
        (let cur = base_16_val c in
         if res > ULONG_MAX div 16 \<or> res > (ULONG_MAX - cur) div 16 then None
         else base16_loop src (slen - 1) (res * 16 + cur))
      else Some res)"

definition string2ul_base16_async_signal_safe :: "byte list \<Rightarrow> nat \<Rightarrow> nat option" where
  "string2ul_base16_async_signal_safe src slen = base16_loop src slen 0"

section \<open>Bytes\<close>

fun mempbrk :: "byte list \<Rightarrow> byte list \<Rightarrow> nat option" where
  "mempbrk [] chars = None"
| "mempbrk (c # s) chars = (if c \<in> set chars then Some 0 else map_option Suc (mempbrk s chars))"

text \<open>\<open>from\<close> and \<open>to\<close> as the list of their pairs; the first pair that fits is taken.\<close>

definition memmapchars :: "byte list \<Rightarrow> (byte \<times> byte) list \<Rightarrow> byte list" where
  "memmapchars s pairs = map (\<lambda>c. case map_of pairs c of None \<Rightarrow> c | Some d \<Rightarrow> d) s"

end
