(* ===== verification/Redis_Util_Proofs.thy ===== *)
theory Redis_Util_Proofs
  imports Redis_Util
begin

text \<open>
  Proofs about the conversions of \<open>util.c\<close>: printing gives the decimal representation, and parsing
  accepts exactly the decimal representations.
\<close>

section \<open>Decimal representations\<close>

fun decimal :: "nat \<Rightarrow> byte list" where
  "decimal v = (if v < 10 then [48 + of_nat v] else decimal (v div 10) @ [48 + of_nat (v mod 10)])"

declare decimal.simps [simp del]

definition lltext :: "int \<Rightarrow> byte list" where
  "lltext v = (if v < 0 then c8 CHR ''-'' # decimal (nat (- v)) else decimal (nat v))"

lemma decimal_small: "v < 10 \<Longrightarrow> decimal v = [48 + of_nat v]"
  by (simp add: decimal.simps)

lemma decimal_step: "10 \<le> v \<Longrightarrow> decimal v = decimal (v div 10) @ [48 + of_nat (v mod 10)]"
  by (subst decimal.simps) simp

lemma decimal_not_Nil [simp]: "decimal v \<noteq> []"
  by (subst decimal.simps) simp

lemma decimal_div_power:
  "10 ^ k \<le> v \<Longrightarrow> length (decimal v) = k + length (decimal (v div 10 ^ k))"
proof (induction k arbitrary: v)
  case (Suc k)
  then have "(10::nat) ^ k \<le> v div 10" "10 \<le> v"
    by (auto simp: less_eq_div_iff_mult_less_eq mult.commute intro: order_trans [OF _ Suc.prems])
  then show ?case using Suc.IH [of "v div 10"] by (simp add: decimal_step div_mult2_eq)
qed simp

lemma length_decimal: "10 ^ k \<le> v \<Longrightarrow> v < 10 ^ Suc k \<Longrightarrow> length (decimal v) = Suc k"
  by (simp add: decimal_div_power decimal_small less_mult_imp_div_less)

lemma digits10_eq: "digits10 v = length (decimal v)"
proof (induction v rule: digits10.induct)
  case (1 v)
  consider "v < 10" | "10 \<le> v" "v < 1000000000000" | "1000000000000 \<le> v" by linarith
  then show ?case
  proof cases
    case 1
    then show ?thesis by (subst digits10.simps) (simp add: decimal_small)
  next
    case 2
    have *: "length (decimal v) = Suc k" if "10 ^ k \<le> v" "v < 10 ^ Suc k" for k
      using that by (rule length_decimal)
    have two: "length (decimal v) = 2" if "v < 100" using 2 that * [of 1] by simp
    show ?thesis
      using 2 two * [of 2] * [of 3] * [of 4] * [of 5] * [of 6] * [of 7] * [of 8] * [of 9] * [of 10] * [of 11]
      by (subst digits10.simps) simp
  next
    case 3
    then show ?thesis
      using "1.IH" decimal_div_power [of 12 v] by (subst digits10.simps) simp
  qed
qed

lemma sdigits10_eq: "LLONG_MIN \<le> v \<Longrightarrow> sdigits10 v = length (lltext v)"
  by (auto simp: sdigits10_def lltext_def digits10_eq)

section \<open>Printing\<close>

lemma digits_table_pairs:
  "digits_table = concat (map (\<lambda>i. [48 + of_nat (i div 10), 48 + of_nat (i mod 10)]) [0..<100])"
  by (simp add: digits_table_def upt_rec)

lemma nth_concat_pairs:
  "i < length xs \<Longrightarrow> concat (map (\<lambda>x. [f x, g x]) xs) ! (2 * i) = f (xs ! i)"
  "i < length xs \<Longrightarrow> concat (map (\<lambda>x. [f x, g x]) xs) ! (2 * i + 1) = g (xs ! i)"
  by (induction xs arbitrary: i) (auto simp: nth_Cons split: nat.splits)

lemma digits_table_nth:
  assumes "i < 100"
  shows "digits_table ! (2 * i) = 48 + of_nat (i div 10)" "digits_table ! (2 * i + 1) = 48 + of_nat (i mod 10)"
  using assms nth_concat_pairs [of i "[0..<100]"] by (simp_all add: digits_table_pairs)

lemma decimal_pair:
  assumes "100 \<le> v"
  shows "decimal v = decimal (v div 100) @ [48 + of_nat (v mod 100 div 10), 48 + of_nat (v mod 100 mod 10)]"
proof -
  have "v mod 100 div 10 = v div 10 mod 10" "v mod 100 mod 10 = v mod 10" by (simp_all add: mod_mult2_eq [of v 10 10, simplified] mod_mod_cancel)
  moreover have "v div 10 div 10 = v div 100" by (simp flip: div_mult2_eq)
  moreover have "10 \<le> v div 10" using assms by simp
  ultimately show ?thesis using assms decimal_step [of v] decimal_step [of "v div 10"] by simp
qed

lemma take_drop_eq: "take n xs = ys \<Longrightarrow> drop n xs = zs \<Longrightarrow> xs = ys @ zs"
  by (metis append_take_drop_id)

lemma ull2string_digits_eq:
  assumes "length (decimal v) = Suc nxt" "nxt < length dst"
  shows "ull2string_digits dst nxt v = decimal v @ drop (Suc nxt) dst"
  using assms
proof (induction dst nxt v rule: ull2string_digits.induct)
  case (1 dst nxt v)
  consider "v < 10" | "10 \<le> v" "v < 100" | "100 \<le> v" by linarith
  then show ?case
  proof cases
    case 1
    then show ?thesis
      using "1.prems" by (cases dst) (auto simp: ull2string_digits.simps [of _ _ v] decimal_small)
  next
    case 2
    then have "nxt = 1" using "1.prems"(1) by (simp add: decimal_step decimal_small)
    moreover obtain a b rest where "dst = a # b # rest"
      using "1.prems"(2) \<open>nxt = 1\<close> by (cases dst; cases "tl dst") auto
    ultimately show ?thesis
      using 2 digits_table_nth [of v]
      by (simp add: ull2string_digits.simps [of _ _ v] decimal_step decimal_small Let_def mult.commute)
  next
    case 3
    define d where "d = dst[nxt := digits_table ! ((v mod 100) * 2 + 1), nxt - 1 := digits_table ! ((v mod 100) * 2)]"
    have len: "length (decimal (v div 100)) = Suc (nxt - 2)" "2 \<le> nxt"
      using "1.prems"(1) decimal_pair [OF 3] decimal_not_Nil [of "v div 100"] by (cases "decimal (v div 100)"; simp)+
    have "ull2string_digits dst nxt v = ull2string_digits d (nxt - 2) (v div 100)"
      using 3 by (subst ull2string_digits.simps) (simp add: Let_def d_def)
    also have "\<dots> = decimal (v div 100) @ drop (Suc (nxt - 2)) d"
      using "1.IH" [OF _ refl refl refl refl] 3 len "1.prems"(2) by (simp add: d_def)
    also have "drop (Suc (nxt - 2)) d = [digits_table ! ((v mod 100) * 2), digits_table ! ((v mod 100) * 2 + 1)] @ drop (Suc nxt) dst"
    proof -
      obtain m where m: "nxt = Suc (Suc m)" using len(2) by (cases nxt; cases "nxt - 1") auto
      with "1.prems"(2) have "drop (Suc m) dst = dst ! Suc m # dst ! Suc (Suc m) # drop (Suc (Suc (Suc m))) dst"
        by (simp add: Cons_nth_drop_Suc)
      with m show ?thesis by (simp add: d_def drop_update_swap)
    qed
    finally show ?thesis
      using decimal_pair [OF 3] digits_table_nth [of "v mod 100"] by (simp add: mult.commute)
  qed
qed


lemma ull2string_eq:
  "ull2string dst v =
   (if length (decimal v) < length dst
    then (length (decimal v), decimal v @ 0 # drop (Suc (length (decimal v))) dst)
    else (0, if dst = [] then [] else 0 # tl dst))"
proof (cases "length (decimal v) < length dst")
  case True
  obtain n where n: "length (decimal v) = Suc n" by (cases "decimal v") auto
  have "drop (Suc n) (dst[Suc n := 0]) = 0 # drop (Suc (Suc n)) dst"
    using True n by (simp add: drop_update_swap flip: Cons_nth_drop_Suc)
  then show ?thesis
    using True n ull2string_digits_eq [OF n, of "dst[Suc n := 0]"]
    by (simp add: ull2string_def digits10_eq Let_def)
next
  case False
  then show ?thesis by (cases dst) (simp_all add: ull2string_def digits10_eq Let_def)
qed

lemma ll2string_eq:
  assumes "LLONG_MIN \<le> v"
  shows "length (lltext v) < length dst \<Longrightarrow>
      ll2string dst v = (length (lltext v), lltext v @ 0 # drop (Suc (length (lltext v))) dst)"
    and "\<not> length (lltext v) < length dst \<Longrightarrow> fst (ll2string dst v) = 0"
proof -
  have neg: "(if v \<noteq> LLONG_MIN then nat (- v) else nat LLONG_MAX + 1) = nat (- v)" by auto
  show "ll2string dst v = (length (lltext v), lltext v @ 0 # drop (Suc (length (lltext v))) dst)"
    if "length (lltext v) < length dst"
  proof (cases "v < 0")
    case True
    with that show ?thesis
      by (cases dst) (auto simp: ll2string_def neg lltext_def ull2string_eq Let_def simp del: One_nat_def)
  next
    case False
    with that show ?thesis by (simp add: ll2string_def lltext_def ull2string_eq)
  qed
  show "fst (ll2string dst v) = 0" if "\<not> length (lltext v) < length dst"
    using that by (cases "v < 0"; cases dst) (auto simp: ll2string_def neg lltext_def ull2string_eq Let_def)
qed

section \<open>Parsing\<close>

definition dec_val :: "nat \<Rightarrow> byte list \<Rightarrow> nat" where
  "dec_val = foldl (\<lambda>v c. v * 10 + digit_val c)"

lemma dec_val_simps [simp]:
  "dec_val v [] = v"
  "dec_val v (c # cs) = dec_val (v * 10 + digit_val c) cs"
  "dec_val v (cs @ cs') = dec_val (dec_val v cs) cs'"
  by (simp_all add: dec_val_def)

lemma dec_val_ge: "v \<le> dec_val v cs"
proof (induction cs arbitrary: v)
  case (Cons c cs)
  from Cons [of "v * 10 + digit_val c"] show ?case by simp
qed simp

text \<open>The guards of the loop are exact: it fails if and only if the value does not fit.\<close>

lemma string2ll_loop_digits:
  assumes "list_all is_digit cs" "v \<le> ULLONG_MAX"
  shows "string2ll_loop cs v = (if dec_val v cs \<le> ULLONG_MAX then Some (dec_val v cs, []) else None)"
  using assms
proof (induction cs arbitrary: v)
  case (Cons c cs)
  have d: "digit_val c \<le> 9" using Cons.prems(1) by (simp add: digit_val_le)
  show ?case
  proof (cases "v * 10 + digit_val c \<le> ULLONG_MAX")
    case True
    with d Cons show ?thesis by auto
  next
    case False
    with dec_val_ge [of "v * 10 + digit_val c" cs] d Cons.prems show ?thesis by auto
  qed
qed simp

lemma string2ll_loop_rest:
  "string2ll_loop cs v = Some (w, []) \<Longrightarrow> list_all is_digit cs"
  by (induction cs v rule: string2ll_loop.induct) (auto split: if_splits)

lemma digit_byte: "d < 10 \<Longrightarrow> is_digit (48 + of_nat d) \<and> digit_val (48 + of_nat d) = d"
  by (auto simp: is_digit_def digit_val_def word_le_nat_alt unat_word_ariths unat_of_nat)

lemma byte_digit: "is_digit c \<Longrightarrow> 48 + of_nat (digit_val c) = c"
  by (auto simp: is_digit_def digit_val_def word_le_nat_alt of_nat_diff)

lemma decimal_digits: "list_all is_digit (decimal v)"
proof (induction v rule: decimal.induct)
  case (1 v)
  then show ?case by (subst decimal.simps) (simp add: digit_byte)
qed

lemma dec_val_decimal: "dec_val 0 (decimal v) = v"
proof (induction v rule: decimal.induct)
  case (1 v)
  then show ?case by (subst decimal.simps) (simp add: digit_byte)
qed

lemma decimal_hd: "0 < v \<Longrightarrow> hd (decimal v) \<noteq> 48"
proof (induction v rule: decimal.induct)
  case (1 v)
  have "(48 :: byte) + of_nat v \<noteq> 48" if "v < 10"
    using that 1(2) digit_byte [of v] digit_byte [of 0] by (auto simp: digit_val_def)
  with 1 show ?case by (subst decimal.simps) (simp add: hd_append)
qed

text \<open>Digits without a leading zero are the decimal representation of their value.\<close>

lemma decimal_dec_val:
  assumes "list_all is_digit cs" "cs \<noteq> []" "hd cs \<noteq> 48"
  shows "decimal (dec_val 0 cs) = cs \<and> 0 < dec_val 0 cs"
  using assms
proof (induction cs rule: rev_induct)
  case (snoc c cs)
  have c: "is_digit c" "digit_val c < 10" using snoc.prems(1) digit_val_le [of c] by auto
  show ?case
  proof (cases "cs = []")
    case True
    with c snoc.prems(3) byte_digit [of c] show ?thesis by (auto simp: decimal_small intro!: gr0I)
  next
    case False
    with snoc have "decimal (dec_val 0 cs) = cs" "0 < dec_val 0 cs" by auto
    with c byte_digit [of c] show ?thesis by (subst decimal.simps) auto
  qed
qed simp


lemma decimal_length_le:
  assumes "n < 10 ^ 19"
  shows "length (decimal n) \<le> 19"
proof (rule ccontr)
  assume long: "\<not> length (decimal n) \<le> 19"
  show False
  proof (cases "n < 10")
    case True
    with long show False by (simp add: decimal_small)
  next
    case False
    then obtain k where k: "10 ^ k \<le> n" "n < 10 ^ Suc k"
      using ex_power_ivl1 [of 10 n] by auto
    with long have "19 \<le> k" using length_decimal [OF k] by simp
    then have "(10 :: nat) ^ 19 \<le> 10 ^ k" by (intro power_increasing) simp_all
    with k(1) assms show False by simp
  qed
qed

lemma lltext_length: "LLONG_MIN \<le> v \<Longrightarrow> v \<le> LLONG_MAX \<Longrightarrow> length (lltext v) \<le> 20"
  using decimal_length_le [of "nat (- v)"] decimal_length_le [of "nat v"] by (auto simp: lltext_def nat_less_iff)

text \<open>The parser behind the sign.\<close>

definition magnitude :: "byte list \<Rightarrow> nat option" where
  "magnitude p =
     (if p \<noteq> [] \<and> c8 CHR ''1'' \<le> p ! 0 \<and> p ! 0 \<le> c8 CHR ''9'' then
        (case string2ll_loop (tl p) (digit_val (p ! 0)) of
           Some (v, []) \<Rightarrow> Some v | _ \<Rightarrow> None)
      else None)"

lemma digit19: "c8 CHR ''1'' \<le> c \<and> c \<le> c8 CHR ''9'' \<longleftrightarrow> is_digit c \<and> c \<noteq> 48"
proof -
  have "c \<noteq> 48 \<longleftrightarrow> unat c \<noteq> 48" by (simp add: word_unat_eq_iff)
  then show ?thesis by (auto simp: is_digit_def word_le_nat_alt)
qed

lemma magnitude_iff: "magnitude p = Some v \<longleftrightarrow> 0 < v \<and> v \<le> ULLONG_MAX \<and> p = decimal v"
proof
  assume m: "magnitude p = Some v"
  then obtain c cs where p: "p = c # cs" "is_digit c" "c \<noteq> 48" and loop: "string2ll_loop cs (digit_val c) = Some (v, [])"
    by (cases p) (auto simp: magnitude_def digit19 [simplified] split: if_splits option.splits prod.splits list.splits)
  have digits: "list_all is_digit cs" using string2ll_loop_rest [OF loop] .
  have "digit_val c \<le> ULLONG_MAX" using digit_val_le [OF p(2)] by simp
  then have "v = dec_val 0 p" "v \<le> ULLONG_MAX"
    using string2ll_loop_digits [OF digits, of "digit_val c"] loop p(1) by (auto split: if_splits)
  moreover have "decimal (dec_val 0 p) = p \<and> 0 < dec_val 0 p"
    by (rule decimal_dec_val) (use p digits in auto)
  ultimately show "0 < v \<and> v \<le> ULLONG_MAX \<and> p = decimal v" by simp
next
  assume v: "0 < v \<and> v \<le> ULLONG_MAX \<and> p = decimal v"
  obtain c cs where dec: "decimal v = c # cs" using decimal_not_Nil [of v] by (cases "decimal v") auto
  then have p: "p = c # cs" using v by simp
  have digits: "is_digit c" "list_all is_digit cs" "c \<noteq> 48"
    using decimal_digits [of v] decimal_hd [of v] v dec by auto
  have val: "dec_val (digit_val c) cs = v" using dec_val_decimal [of v] dec by simp
  have "digit_val c \<le> ULLONG_MAX" using digit_val_le [OF digits(1)] by simp
  then have "string2ll_loop cs (digit_val c) = Some (v, [])"
    using string2ll_loop_digits [OF digits(2), of "digit_val c"] val v by simp
  then show "magnitude p = Some v"
    using digits digit19 [of c] p by (simp add: magnitude_def)
qed

lemma string2ll_magnitude:
  "string2ll s =
   (if s = [] \<or> length s \<ge> LONG_STR_SIZE then None
    else if s = [48] then Some 0
    else if hd s = 45 then
      (case magnitude (tl s) of Some v \<Rightarrow> if int v \<le> 2 ^ 63 then Some (- int v) else None | None \<Rightarrow> None)
    else (case magnitude s of Some v \<Rightarrow> if int v \<le> LLONG_MAX then Some (int v) else None | None \<Rightarrow> None))"
  by (cases s; cases "tl s")
    (auto simp: string2ll_def magnitude_def Let_def split: option.splits list.splits prod.splits)

lemma string2ll_iff:
  "string2ll s = Some n \<longleftrightarrow> LLONG_MIN \<le> n \<and> n \<le> LLONG_MAX \<and> s = lltext n"
proof
  assume n: "string2ll s = Some n"
  consider "s = [48]" "n = 0" | v where "s \<noteq> []" "hd s = 45" "magnitude (tl s) = Some v" "int v \<le> 2 ^ 63" "n = - int v"
    | v where "magnitude s = Some v" "int v \<le> LLONG_MAX" "n = int v"
    using n by (auto simp: string2ll_magnitude split: if_splits option.splits)
  then show "LLONG_MIN \<le> n \<and> n \<le> LLONG_MAX \<and> s = lltext n"
  proof cases
    case 1
    then show ?thesis by (simp add: lltext_def decimal_small)
  next
    case 2
    then have "tl s = decimal v" "0 < v" by (auto simp: magnitude_iff)
    with 2 show ?thesis by (cases s) (auto simp: lltext_def)
  next
    case 3
    then show ?thesis by (auto simp: magnitude_iff lltext_def)
  qed
next
  assume n: "LLONG_MIN \<le> n \<and> n \<le> LLONG_MAX \<and> s = lltext n"
  then have len: "length s < LONG_STR_SIZE" using lltext_length [of n] by simp
  consider "n = 0" | "n < 0" | "0 < n" by linarith
  then show "string2ll s = Some n"
  proof cases
    case 1
    with n show ?thesis by (simp add: lltext_def decimal_small string2ll_magnitude)
  next
    case 2
    with n have "s = 45 # decimal (nat (- n))" "magnitude (decimal (nat (- n))) = Some (nat (- n))"
      by (auto simp: lltext_def magnitude_iff nat_le_iff)
    moreover have "- n \<le> 2 ^ 63" using n by simp
    ultimately show ?thesis using 2 len by (simp add: string2ll_magnitude)
  next
    case 3
    with n have s: "s = decimal (nat n)" "magnitude s = Some (nat n)"
      by (auto simp: lltext_def magnitude_iff nat_le_iff)
    moreover have "is_digit (hd s)" "hd s \<noteq> 48"
      using decimal_digits [of "nat n"] decimal_hd [of "nat n"] decimal_not_Nil [of "nat n"] 3 unfolding s(1)
      by (cases "decimal (nat n)"; simp)+
    moreover from this have "hd s \<noteq> 45" "s \<noteq> [48]" by (auto simp: is_digit_def)
    moreover have "s \<noteq> []" "n \<le> LLONG_MAX" using s(1) n by simp_all
    ultimately show ?thesis using len 3 by (simp add: string2ll_magnitude)
  qed
qed


section \<open>Properties\<close>

text \<open>
  C22: \<open>string2ll\<close> accepts exactly the canonical decimal representations of the 64-bit integers (no blanks, no
  plus sign, no leading zeros, no \<open>-0\<close>) and returns their value; in particular its checks for
  overflow neither miss one nor reject a number that fits.
\<close>

theorem string2ll_exact:
  "string2ll s = Some n \<longleftrightarrow> LLONG_MIN \<le> n \<and> n \<le> LLONG_MAX \<and> s = lltext n"
  by (rule string2ll_iff)

text \<open>
  C23: \<open>ll2string\<close> on a 64-bit integer and a buffer longer than its representation writes
  exactly this representation and a terminating null, returns its length, which is what \<open>sdigits10\<close>
  predicts, and leaves the rest of the buffer; with a shorter buffer it returns 0. What it wrote,
  \<open>string2ll\<close> reads back.
\<close>

theorem ll2string_roundtrip:
  assumes "LLONG_MIN \<le> v" "v \<le> LLONG_MAX"
  shows "if sdigits10 v < length dst
    then \<exists>n dst'. ll2string dst v = (n, dst') \<and> n = sdigits10 v \<and> take n dst' = lltext v \<and> dst' ! n = 0 \<and>
      drop (Suc n) dst' = drop (Suc n) dst \<and> length dst' = length dst \<and> string2ll (take n dst') = Some v
    else fst (ll2string dst v) = 0"
proof (cases "length (lltext v) < length dst")
  case True
  moreover have "string2ll (lltext v) = Some v" using assms by (simp add: string2ll_iff)
  ultimately show ?thesis
    using ll2string_eq(1) [OF assms(1) True] by (simp add: sdigits10_eq [OF assms(1)] nth_append)
next
  case False
  with ll2string_eq(2) [OF assms(1) False] show ?thesis by (simp add: sdigits10_eq [OF assms(1)])
qed

theorem ll2string_roundtrip_witness:
  "\<exists>n dst'. ll2string (replicate 21 0xAA) (-9223372036854775808) = (n, dst') \<and>
    string2ll (take n dst') = Some (-9223372036854775808)"
proof -
  have "sdigits10 (-9223372036854775808) = 20"
    by (simp add: sdigits10_def digits10.simps)
  then show ?thesis
    using ll2string_roundtrip [of "-9223372036854775808" "replicate 21 0xAA"] by auto
qed

end
