(* ===== verification/Redis_Glob.thy ===== *)
theory Redis_Glob
  imports Prelude
begin

text \<open>
  Glob-style matching: \<open>stringmatchlen\<close> of \<open>src/util.c\<close> of Redis, behind \<open>KEYS\<close>, \<open>SCAN\<close>,
  \<open>PSUBSCRIBE\<close> and the ACL rules.

  Pattern and string are the lists of their remaining bytes. The code reads the byte behind the
  pattern, which is the null that ends every \<open>sds\<close> string: \<open>pat_at\<close>. A \<open>char\<close> is signed on the
  target, so the bounds of a range compare as signed numbers.
\<close>

abbreviation (input) BACKSLASH :: byte where "BACKSLASH \<equiv> 0x5C"

definition pat_at :: "byte list \<Rightarrow> nat \<Rightarrow> byte" where
  "pat_at p i = (if i < length p then p ! i else 0)"

text \<open>\<open>tolower\<close> on an \<open>int\<close>, in the C locale.\<close>

definition c_tolower :: "int \<Rightarrow> int" where
  "c_tolower c = (if 65 \<le> c \<and> c \<le> 90 then c + 32 else c)"

definition char_eq :: "bool \<Rightarrow> byte \<Rightarrow> byte \<Rightarrow> bool" where
  "char_eq nocase a b \<longleftrightarrow> (if \<not> nocase then a = b else c_tolower (sint a) = c_tolower (sint b))"

text \<open>The test of a range \<open>a-b\<close> of a character class.\<close>

definition glob_range :: "bool \<Rightarrow> byte \<Rightarrow> byte \<Rightarrow> byte \<Rightarrow> bool" where
  "glob_range nocase a b ch =
     (let lo = sint a; hi = sint b; c = sint ch;
          (lo, hi) = (if lo > hi then (hi, lo) else (lo, hi));
          (lo, hi, c) = (if nocase then (c_tolower lo, c_tolower hi, c_tolower c) else (lo, hi, c))
      in lo \<le> c \<and> c \<le> hi)"

text \<open>
  The loop over a character class: whether the character was found, and the pattern behind the
  class.
\<close>

function glob_class :: "bool \<Rightarrow> byte \<Rightarrow> byte list \<Rightarrow> bool \<Rightarrow> bool \<times> byte list" where
  "glob_class nocase ch p found =
     (if pat_at p 0 = BACKSLASH \<and> length p \<ge> 2 then
        glob_class nocase ch (drop 2 p) (found \<or> p ! 1 = ch)
      else if pat_at p 0 = c8 CHR '']'' then (found, tl p)
      else if p = [] then (found, [])
      else if length p \<ge> 3 \<and> p ! 1 = c8 CHR ''-'' then
        glob_class nocase ch (drop 3 p) (found \<or> glob_range nocase (p ! 0) (p ! 2) ch)
      else glob_class nocase ch (tl p) (found \<or> char_eq nocase (p ! 0) ch))"
  by pat_completeness auto
termination by (relation "measure (\<lambda>(_, _, p, _). length p)") auto

declare glob_class.simps [simp del]

text \<open>
  The other cases of the switch: whether the front of the pattern accepts the character, and
  the pattern behind it.
\<close>

definition glob_step :: "bool \<Rightarrow> byte list \<Rightarrow> byte \<Rightarrow> byte list option" where
  "glob_step nocase p ch =
     (if p ! 0 = c8 CHR ''?'' then Some (tl p)
      else if p ! 0 = c8 CHR ''['' then
        (let p = tl p; neg = (pat_at p 0 = c8 CHR ''^''); p = (if neg then tl p else p);
             (found, rest) = glob_class nocase ch p False
         in if found \<noteq> neg then Some rest else None)
      else
        (let p = (if p ! 0 = BACKSLASH \<and> length p \<ge> 2 then tl p else p) in
         if char_eq nocase (p ! 0) ch then Some (tl p) else None))"

text \<open>\<open>while (patternLen && pattern[1] == '*') pattern++\<close>\<close>

fun glob_collapse :: "byte list \<Rightarrow> byte list" where
  "glob_collapse [] = []"
| "glob_collapse (c # p) = (if pat_at (c # p) 1 = c8 CHR ''*'' then glob_collapse p else c # p)"

lemma length_glob_class: "length (snd (glob_class nocase ch p found)) \<le> length p"
proof (induction nocase ch p found rule: glob_class.induct)
  case (1 nocase ch p found)
  show ?case
    by (subst glob_class.simps) (use 1 in \<open>auto simp: Let_def intro: le_trans [OF _ diff_le_self]\<close>)
qed

lemma length_glob_step:
  assumes "glob_step nocase p ch = Some rest" "p \<noteq> []"
  shows "length rest < length p"
proof (cases "p ! 0 = c8 CHR ''[''")
  case True
  define q where "q = (if pat_at (tl p) 0 = c8 CHR ''^'' then tl (tl p) else tl p)"
  have "rest = snd (glob_class nocase ch q False)"
    using True assms(1) by (auto simp: glob_step_def q_def Let_def split: if_splits prod.splits)
  then have "length rest \<le> length q" using length_glob_class by simp
  moreover have "length q < length p" using assms(2) by (cases p) (auto simp: q_def)
  ultimately show ?thesis by simp
next
  case False
  then have "rest = tl p \<or> rest = tl (tl p)"
    using assms(1) by (auto simp: glob_step_def Let_def split: if_splits)
  with assms(2) show ?thesis by (cases p) auto
qed

lemma length_glob_collapse: "length (glob_collapse p) \<le> length p"
  by (induction p rule: glob_collapse.induct) auto

text \<open>
  \<open>stringmatchlen_impl\<close>: \<open>glob_loop\<close> is its loop over pattern and string, \<open>glob_star\<close> the loop over the string
  behind a star, with the recursive call. Both return the result and \<open>*skipLongerMatches\<close>.
\<close>

function (sequential) glob_loop :: "bool \<Rightarrow> byte list \<Rightarrow> byte list \<Rightarrow> bool \<Rightarrow> nat \<Rightarrow> bool \<times> bool"
  and glob_star :: "bool \<Rightarrow> byte list \<Rightarrow> byte list \<Rightarrow> bool \<Rightarrow> nat \<Rightarrow> bool \<times> bool" where
  "glob_loop nocase p s skip nesting =
     (if p = [] \<or> s = [] then (p = [] \<and> s = [], skip)
      else if p ! 0 = c8 CHR ''*'' then
        (if length (glob_collapse p) = 1 then (True, skip)
         else glob_star nocase (tl (glob_collapse p)) s skip nesting)
      else
        (case glob_step nocase p (s ! 0) of
           None \<Rightarrow> (False, skip)
         | Some p' \<Rightarrow>
             if tl s = [] then (dropWhile (\<lambda>c. c = c8 CHR ''*'') p' = [], skip)
             else glob_loop nocase p' (tl s) skip nesting))"
| "glob_star nocase p s skip nesting =
     (if s = [] then (False, True)
      else
        (case (if nesting + 1 > 1000 then (False, skip) else glob_loop nocase p s skip (nesting + 1)) of
           (True, skip) \<Rightarrow> (True, skip)
         | (False, skip) \<Rightarrow> if skip then (False, skip) else glob_star nocase p (tl s) skip nesting))"
  by pat_completeness auto
termination
proof (relation "inv_image (less_than <*lex*> less_than <*lex*> less_than)
    (\<lambda>x. case x of Inl (_, p, s, _) \<Rightarrow> (length p, length s, 0 :: nat) | Inr (_, p, s, _) \<Rightarrow> (length p, length s, 1))",
    goal_cases)
  case (2 nocase p s skip nesting)
  then show ?case using length_glob_collapse [of p] by (cases p) (auto simp: less_Suc_eq_le intro: le_trans [OF diff_le_self])
next
  case (3 nocase p s skip nesting p')
  then show ?case using length_glob_step [of nocase p "s ! 0" p'] by auto
qed auto

declare glob_loop.simps [simp del] glob_star.simps [simp del]

definition stringmatchlen_impl :: "bool \<Rightarrow> byte list \<Rightarrow> byte list \<Rightarrow> bool \<Rightarrow> nat \<Rightarrow> bool \<times> bool" where
  "stringmatchlen_impl nocase p s skip nesting =
     (if nesting > 1000 then (False, skip) else glob_loop nocase p s skip nesting)"

definition stringmatchlen :: "byte list \<Rightarrow> byte list \<Rightarrow> bool \<Rightarrow> bool" where
  "stringmatchlen p s nocase = fst (stringmatchlen_impl nocase p s False 0)"

end
