(* ===== verification/Redis_Glob_Proofs.thy ===== *)
theory Redis_Glob_Proofs
  imports Redis_Glob
begin

text \<open>
  Proofs about \<open>stringmatchlen\<close>: the matcher with its shortcut \<open>skipLongerMatches\<close> is equivalent to
  the plain meaning of a pattern.
\<close>

section \<open>The meaning of a pattern\<close>

datatype class_item = Exact byte | Char byte | Range byte byte

datatype glob_token = Star | Any | Lit byte | Class bool "class_item list"

text \<open>A character class up to its closing bracket, or up to the end of the pattern.\<close>

function class_items :: "byte list \<Rightarrow> class_item list \<times> byte list" where
  "class_items p =
     (if p = [] then ([], [])
      else if p ! 0 = BACKSLASH \<and> length p \<ge> 2 then apfst (Cons (Exact (p ! 1))) (class_items (drop 2 p))
      else if p ! 0 = c8 CHR '']'' then ([], tl p)
      else if length p \<ge> 3 \<and> p ! 1 = c8 CHR ''-'' then apfst (Cons (Range (p ! 0) (p ! 2))) (class_items (drop 3 p))
      else apfst (Cons (Char (p ! 0))) (class_items (tl p)))"
  by pat_completeness auto
termination by (relation "measure length") auto

declare class_items.simps [simp del]

fun item_match :: "bool \<Rightarrow> byte \<Rightarrow> class_item \<Rightarrow> bool" where
  "item_match nocase c (Exact a) \<longleftrightarrow> a = c"
| "item_match nocase c (Char a) \<longleftrightarrow> char_eq nocase a c"
| "item_match nocase c (Range a b) \<longleftrightarrow> glob_range nocase a b c"

fun token_match :: "bool \<Rightarrow> glob_token \<Rightarrow> byte \<Rightarrow> bool" where
  "token_match nocase Star c \<longleftrightarrow> False"
| "token_match nocase Any c \<longleftrightarrow> True"
| "token_match nocase (Lit a) c \<longleftrightarrow> char_eq nocase a c"
| "token_match nocase (Class neg items) c \<longleftrightarrow> (\<exists>i\<in>set items. item_match nocase c i) \<noteq> neg"

text \<open>The first token of a pattern that does not start with a star, and the pattern behind it.\<close>

definition first_token :: "byte list \<Rightarrow> glob_token \<times> byte list" where
  "first_token p =
     (if p ! 0 = c8 CHR ''?'' then (Any, tl p)
      else if p ! 0 = c8 CHR ''['' then
        (let neg = (pat_at (tl p) 0 = c8 CHR ''^'')
         in apfst (Class neg) (class_items (if neg then tl (tl p) else tl p)))
      else if p ! 0 = BACKSLASH \<and> length p \<ge> 2 then (Lit (p ! 1), tl (tl p))
      else (Lit (p ! 0), tl p))"

lemma glob_class_items:
  "glob_class nocase ch p found =
   (found \<or> (\<exists>i\<in>set (fst (class_items p)). item_match nocase ch i), snd (class_items p))"
proof (induction nocase ch p found rule: glob_class.induct)
  case (1 nocase ch p found)
  show ?case
    by (subst glob_class.simps, subst (1 2) class_items.simps) (use 1 in \<open>auto simp: pat_at_def\<close>)
qed

lemma glob_step_token:
  "glob_step nocase p ch = (if token_match nocase (fst (first_token p)) ch then Some (snd (first_token p)) else None)"
  if "p \<noteq> []"
  using that by (cases p) (auto simp: glob_step_def first_token_def glob_class_items Let_def)

lemma length_first_token: "p \<noteq> [] \<Longrightarrow> length (snd (first_token p)) < length p"
proof -
  assume p: "p \<noteq> []"
  have "length (snd (class_items q)) \<le> length q" for q
    using length_glob_class [of False 0 q False] by (simp add: glob_class_items)
  from this [of "tl p"] this [of "tl (tl p)"] p show ?thesis
    by (cases p) (auto simp: first_token_def Let_def)
qed

function glob_tokens :: "byte list \<Rightarrow> glob_token list" where
  "glob_tokens p =
     (if p = [] then []
      else if p ! 0 = c8 CHR ''*'' then Star # glob_tokens (tl p)
      else fst (first_token p) # glob_tokens (snd (first_token p)))"
  by pat_completeness auto
termination by (relation "measure length") (use length_first_token in auto)

declare glob_tokens.simps [simp del]

fun glob_matches :: "bool \<Rightarrow> glob_token list \<Rightarrow> byte list \<Rightarrow> bool" where
  "glob_matches nocase [] s \<longleftrightarrow> s = []"
| "glob_matches nocase (Star # ts) [] \<longleftrightarrow> glob_matches nocase ts []"
| "glob_matches nocase (Star # ts) (c # s) \<longleftrightarrow> glob_matches nocase ts (c # s) \<or> glob_matches nocase (Star # ts) s"
| "glob_matches nocase (t # ts) [] \<longleftrightarrow> False"
| "glob_matches nocase (t # ts) (c # s) \<longleftrightarrow> token_match nocase t c \<and> glob_matches nocase ts s"

lemma matches_star: "glob_matches nocase (Star # ts) s \<longleftrightarrow> (\<exists>k. glob_matches nocase ts (drop k s))"
proof (induction s)
  case (Cons c s)
  have "(\<exists>k. glob_matches nocase ts (drop k (c # s))) \<longleftrightarrow>
      glob_matches nocase ts (c # s) \<or> (\<exists>k. glob_matches nocase ts (drop k s))"
    by (metis drop0 drop_Suc_Cons not0_implies_Suc)
  with Cons show ?case by simp
qed simp

lemma matches_step:
  "t \<noteq> Star \<Longrightarrow> glob_matches nocase (t # ts) s \<longleftrightarrow> s \<noteq> [] \<and> token_match nocase t (s ! 0) \<and> glob_matches nocase ts (tl s)"
  by (cases t; cases s) auto

lemma first_token_not_star: "fst (first_token p) \<noteq> Star"
  by (auto simp: first_token_def Let_def)

lemma tokens_star: "glob_tokens (c8 CHR ''*'' # p) = Star # glob_tokens p"
  by (subst glob_tokens.simps) simp

lemma tokens_first:
  "p \<noteq> [] \<Longrightarrow> p ! 0 \<noteq> c8 CHR ''*'' \<Longrightarrow> glob_tokens p = fst (first_token p) # glob_tokens (snd (first_token p))"
  by (subst glob_tokens.simps) simp

lemma tokens_Nil [simp]: "glob_tokens [] = []"
  by (subst glob_tokens.simps) simp

lemma matches_empty: "glob_matches nocase (glob_tokens p) [] \<longleftrightarrow> dropWhile (\<lambda>c. c = c8 CHR ''*'') p = []"
proof (induction p)
  case (Cons c p)
  show ?case
  proof (cases "c = c8 CHR ''*''")
    case True
    with Cons show ?thesis by (simp add: tokens_star [simplified])
  next
    case False
    then show ?thesis by (simp add: tokens_first matches_step first_token_not_star)
  qed
qed simp

section \<open>Runs of stars\<close>

definition stars :: "byte list \<Rightarrow> nat" where
  "stars p = length (filter (\<lambda>t. t = Star) (glob_tokens p))"

text \<open>What is left of a pattern behind a run of stars.\<close>

lemma collapse_star:
  assumes "p \<noteq> []" "p ! 0 = c8 CHR ''*''"
  shows "(\<forall>s. glob_matches nocase (glob_tokens p) s \<longleftrightarrow> glob_matches nocase (Star # glob_tokens (tl (glob_collapse p))) s)
    \<and> glob_collapse p \<noteq> []
    \<and> (tl (glob_collapse p) = [] \<or> tl (glob_collapse p) ! 0 \<noteq> c8 CHR ''*'')
    \<and> stars (tl (glob_collapse p)) < stars p"
  using assms
proof (induction p)
  case (Cons c p)
  have toks: "glob_tokens (c # p) = Star # glob_tokens p" using Cons.prems(2) tokens_star by simp
  show ?case
  proof (cases "p \<noteq> [] \<and> p ! 0 = c8 CHR ''*''")
    case True
    define q where "q = tl (glob_collapse p)"
    have q: "glob_collapse (c # p) = glob_collapse p" using True by (simp add: pat_at_def)
    have IH: "\<And>s. glob_matches nocase (glob_tokens p) s \<longleftrightarrow> glob_matches nocase (Star # glob_tokens q) s"
      "glob_collapse p \<noteq> []" "q = [] \<or> q ! 0 \<noteq> c8 CHR ''*''" "stars q < stars p"
      using Cons.IH True by (auto simp: q_def)
    have "glob_matches nocase (Star # glob_tokens p) s \<longleftrightarrow> glob_matches nocase (Star # glob_tokens q) s" for s
    proof -
      have "(\<exists>k j. glob_matches nocase (glob_tokens q) (drop j (drop k s))) \<longleftrightarrow> (\<exists>k. glob_matches nocase (glob_tokens q) (drop k s))"
        by (metis drop_drop drop0)
      then show ?thesis by (simp only: matches_star IH(1))
    qed
    then show ?thesis using IH q toks by (simp add: stars_def q_def [symmetric])
  next
    case False
    then have "glob_collapse (c # p) = c # p" by (auto simp: pat_at_def)
    with False toks show ?thesis by (auto simp: stars_def)
  qed
qed simp

section \<open>The matcher\<close>

text \<open>
  The invariant behind \<open>skipLongerMatches\<close>: when it is set on failure, no suffix of the string
  matches either.
\<close>

definition glob_post :: "bool \<Rightarrow> glob_token list \<Rightarrow> byte list \<Rightarrow> bool \<times> bool \<Rightarrow> bool" where
  "glob_post nocase ts s res \<longleftrightarrow>
     fst res = glob_matches nocase ts s \<and>
     (\<not> fst res \<and> snd res \<longrightarrow> (\<forall>k. \<not> glob_matches nocase ts (drop k s)))"

lemma glob_post_step:
  assumes "t \<noteq> Star" "token_match nocase t (s ! 0)" "s \<noteq> []" "glob_post nocase ts (tl s) res"
  shows "glob_post nocase (t # ts) s res"
proof -
  have "drop k (tl s) = tl (drop k s)" for k by (simp add: drop_Suc tl_drop)
  with assms show ?thesis by (auto simp: glob_post_def matches_step)
qed

lemma glob_star_post:
  assumes loop: "\<And>s. s \<noteq> [] \<Longrightarrow> glob_post nocase ts s (glob_loop nocase p s False (Suc nesting))"
    and ts: "\<not> glob_matches nocase ts []" and "nesting < 1000"
  shows "glob_post nocase (Star # ts) s (glob_star nocase p s False nesting)"
proof (induction s)
  case Nil
  then show ?case using ts by (simp add: glob_star.simps [of _ _ "[]"] glob_post_def)
next
  case (Cons c s)
  obtain r sk where res: "glob_loop nocase p (c # s) False (Suc nesting) = (r, sk)" by fastforce
  have post: "r = glob_matches nocase ts (c # s)" "\<not> r \<and> sk \<longrightarrow> (\<forall>k. \<not> glob_matches nocase ts (drop k (c # s)))"
    using loop [of "c # s"] res by (auto simp: glob_post_def)
  have star: "glob_star nocase p (c # s) False nesting =
      (if r then (True, sk) else if sk then (False, True) else glob_star nocase p s False nesting)"
    using assms(3) res by (simp add: glob_star.simps [of _ _ "c # s"] split: bool.splits)
  consider r | "\<not> r" sk | "\<not> r" "\<not> sk" by blast
  then show ?case
  proof cases
    case 1
    then show ?thesis using star post(1) by (simp add: glob_post_def)
  next
    case 2
    then show ?thesis using star post(2) by (simp add: glob_post_def matches_star)
  next
    case 3
    then show ?thesis using star post(1) Cons by (auto simp: glob_post_def drop_Cons split: nat.splits)
  qed
qed


lemma glob_loop_post:
  assumes "s \<noteq> []" "stars p + nesting \<le> 1000"
  shows "glob_post nocase (glob_tokens p) s (glob_loop nocase p s False nesting)"
  using assms
proof (induction "length p" arbitrary: p s nesting rule: less_induct)
  case less
  note loop = glob_loop.simps [of nocase p s False nesting]
  consider (empty) "p = []" | (star) "p \<noteq> []" "p ! 0 = c8 CHR ''*''" | (one) "p \<noteq> []" "p ! 0 \<noteq> c8 CHR ''*''" by blast
  then show ?case
  proof cases
    case empty
    then show ?thesis using less.prems(1) by (simp add: glob_loop.simps [of _ "[]"] glob_post_def)
  next
    case star
    define q where "q = tl (glob_collapse p)"
    have q: "\<And>s. glob_matches nocase (glob_tokens p) s \<longleftrightarrow> glob_matches nocase (Star # glob_tokens q) s"
      "q = [] \<or> q ! 0 \<noteq> c8 CHR ''*''" "stars q < stars p" "glob_collapse p \<noteq> []"
      using collapse_star [OF star, of nocase] by (auto simp: q_def)
    have post: "glob_post nocase (glob_tokens p) s res \<longleftrightarrow> glob_post nocase (Star # glob_tokens q) s res" for res
      using q(1) by (simp add: glob_post_def)
    have len: "length q < length p"
      using length_glob_collapse [of p] q(4) by (cases "glob_collapse p") (auto simp: q_def)
    show ?thesis
    proof (cases "q = []")
      case True
      then have "length (glob_collapse p) = 1" using q(4) by (cases "glob_collapse p") (auto simp: q_def)
      moreover have "glob_matches nocase [Star] s" by (simp add: matches_star exI [of _ "length s"])
      ultimately show ?thesis using True star less.prems(1) unfolding post by (simp add: loop glob_post_def)
    next
      case False
      then have "length (glob_collapse p) \<noteq> 1" by (cases "glob_collapse p") (auto simp: q_def)
      then have "glob_loop nocase p s False nesting = glob_star nocase q s False nesting"
        using star less.prems(1) by (simp add: loop q_def)
      moreover have "glob_post nocase (Star # glob_tokens q) s (glob_star nocase q s False nesting)"
      proof (rule glob_star_post)
        show "glob_post nocase (glob_tokens q) s' (glob_loop nocase q s' False (Suc nesting))" if "s' \<noteq> []" for s'
          using less.hyps [OF len that, of "Suc nesting"] q(3) less.prems(2) by simp
        show "\<not> glob_matches nocase (glob_tokens q) []" using False q(2) by (cases q) (auto simp: matches_empty)
        show "nesting < 1000" using q(3) less.prems(2) by simp
      qed
      ultimately show ?thesis unfolding post by simp
    qed
  next
    case one
    define t where "t = fst (first_token p)"
    define r where "r = snd (first_token p)"
    have toks: "glob_tokens p = t # glob_tokens r" "t \<noteq> Star"
      using tokens_first [OF one] first_token_not_star [of p] by (simp_all add: t_def r_def)
    have len: "length r < length p" using length_first_token [OF one(1)] by (simp add: r_def)
    have st: "stars r = stars p" using toks by (simp add: stars_def)
    have step: "glob_loop nocase p s False nesting =
        (if token_match nocase t (s ! 0) then
           (if tl s = [] then (dropWhile (\<lambda>c. c = c8 CHR ''*'') r = [], False) else glob_loop nocase r (tl s) False nesting)
         else (False, False))"
      using one less.prems(1) by (simp add: loop glob_step_token t_def r_def)
    show ?thesis
    proof (cases "token_match nocase t (s ! 0)")
      case True
      have "glob_post nocase (glob_tokens r) (tl s)
          (if tl s = [] then (dropWhile (\<lambda>c. c = c8 CHR ''*'') r = [], False) else glob_loop nocase r (tl s) False nesting)"
        using less.hyps [OF len, of "tl s" nesting] st less.prems(2) by (auto simp: glob_post_def matches_empty)
      then show ?thesis
        using glob_post_step [OF toks(2) True less.prems(1)] True toks(1) by (simp add: step)
    next
      case False
      then show ?thesis using toks by (simp add: step glob_post_def matches_step)
    qed
  qed
qed

section \<open>Properties\<close>

text \<open>
  C24: With at most 1000 stars in the pattern, \<open>stringmatchlen\<close> on a non-empty string decides exactly
  the plain meaning of the pattern (a star stands for any string, a question mark for any
  character, a class for its items, everything else for itself): the shortcut \<open>skipLongerMatches\<close>, the
  collapsing of stars and the early end at the end of the string never change the result. The
  empty string is matched by the empty pattern only.
\<close>

theorem stringmatchlen_exact:
  assumes "stars p \<le> 1000"
  shows "stringmatchlen p s nocase \<longleftrightarrow> (if s = [] then p = [] else glob_matches nocase (glob_tokens p) s)"
proof (cases "s = []")
  case True
  then show ?thesis by (simp add: stringmatchlen_def stringmatchlen_impl_def glob_loop.simps)
next
  case False
  then show ?thesis
    using glob_loop_post [OF False, of p 0 nocase] assms
    by (simp add: stringmatchlen_def stringmatchlen_impl_def glob_post_def)
qed

lemma tokens_sample: "glob_tokens (str8 ''h*l?[a-c]'') = [Lit 104, Star, Lit 108, Any, Class False [Range 97 99]]"
  by (simp add: glob_tokens.simps first_token_def class_items.simps pat_at_def Let_def)

theorem stringmatchlen_exact_witness:
  "stringmatchlen (str8 ''h*l?[a-c]'') (str8 ''hellob'') False \<longleftrightarrow>
   glob_matches False [Lit 104, Star, Lit 108, Any, Class False [Range 97 99]] (str8 ''hellob'')"
proof -
  have "stars (str8 ''h*l?[a-c]'') \<le> 1000" unfolding stars_def tokens_sample by simp
  from stringmatchlen_exact [OF this, of "str8 ''hellob''" False] show ?thesis
    unfolding tokens_sample by simp
qed


end
