(* ===== verification/Redis_Sds.thy ===== *)
theory Redis_Sds
  imports Prelude
begin

text \<open>
  Quoted strings: \<open>sdscatrepr\<close> and \<open>sdssplitargs\<close> of \<open>src/sds.c\<close> of Redis, which print strings in
  logs and configuration files and split the lines of the inline protocol and of configuration files.

  A line is a C string: the list of its bytes, where reading at or behind the end, or at a null in the
  middle, gives 0 (\<open>line_at\<close>). Positions are the suffixes of the line.
\<close>

definition line_at :: "byte list \<Rightarrow> nat \<Rightarrow> byte" where
  "line_at p i = (if i < length p then p ! i else 0)"

text \<open>\<open>isspace\<close> and \<open>isprint\<close> in the C locale.\<close>

definition isspace :: "byte \<Rightarrow> bool" where
  "isspace c \<longleftrightarrow> c = c8 CHR '' '' \<or> 9 \<le> c \<and> c \<le> 13"

definition isprint :: "byte \<Rightarrow> bool" where
  "isprint c \<longleftrightarrow> 32 \<le> c \<and> c \<le> 126"

abbreviation (input) DQUOTE :: byte where "DQUOTE \<equiv> 0x22"
abbreviation (input) SQUOTE :: byte where "SQUOTE \<equiv> 0x27"
abbreviation (input) BSLASH :: byte where "BSLASH \<equiv> 0x5C"

section \<open>Printing\<close>

text \<open>\<open>%02x\<close>\<close>

definition hex_char :: "nat \<Rightarrow> byte" where
  "hex_char n = (if n < 10 then 48 + of_nat n else 87 + of_nat n)"

definition repr_byte :: "byte \<Rightarrow> byte list" where
  "repr_byte c =
     (if c = BSLASH \<or> c = DQUOTE then [BSLASH, c]
      else if c = 10 then [BSLASH, c8 CHR ''n'']
      else if c = 13 then [BSLASH, c8 CHR ''r'']
      else if c = 9 then [BSLASH, c8 CHR ''t'']
      else if c = 7 then [BSLASH, c8 CHR ''a'']
      else if c = 8 then [BSLASH, c8 CHR ''b'']
      else if isprint c then [c]
      else [BSLASH, c8 CHR ''x'', hex_char (unat c div 16), hex_char (unat c mod 16)])"

definition sdscatrepr :: "byte list \<Rightarrow> byte list \<Rightarrow> byte list" where
  "sdscatrepr s p = s @ [DQUOTE] @ concat (map repr_byte p) @ [DQUOTE]"

text \<open>Whether a string has to be quoted.\<close>

definition sdsneedsrepr :: "byte list \<Rightarrow> bool" where
  "sdsneedsrepr s \<longleftrightarrow>
     list_ex (\<lambda>c. c = BSLASH \<or> c = DQUOTE \<or> c = 10 \<or> c = 13 \<or> c = 9 \<or> c = 7 \<or> c = 8 \<or> \<not> isprint c \<or> isspace c) s"

section \<open>Splitting\<close>

definition is_hex_digit :: "byte \<Rightarrow> bool" where
  "is_hex_digit c \<longleftrightarrow>
     c8 CHR ''0'' \<le> c \<and> c \<le> c8 CHR ''9'' \<or> c8 CHR ''a'' \<le> c \<and> c \<le> c8 CHR ''f'' \<or> c8 CHR ''A'' \<le> c \<and> c \<le> c8 CHR ''F''"

definition hex_digit_to_int :: "byte \<Rightarrow> nat" where
  "hex_digit_to_int c =
     (if c8 CHR ''0'' \<le> c \<and> c \<le> c8 CHR ''9'' then unat c - 48
      else if c8 CHR ''a'' \<le> c \<and> c \<le> c8 CHR ''f'' then unat c - 97 + 10
      else if c8 CHR ''A'' \<le> c \<and> c \<le> c8 CHR ''F'' then unat c - 65 + 10
      else 0)"

definition unescape :: "byte \<Rightarrow> byte" where
  "unescape c =
     (if c = c8 CHR ''n'' then 10 else if c = c8 CHR ''r'' then 13 else if c = c8 CHR ''t'' then 9
      else if c = c8 CHR ''b'' then 8 else if c = c8 CHR ''a'' then 7 else c)"

text \<open>\<open>inq\<close> and \<open>insq\<close> are never both set.\<close>

datatype split_mode = Plain | Inq | Insq

text \<open>
  The loop over one token: \<open>None\<close> for \<open>goto err\<close>, otherwise the token and the position behind it,
  after the closing \<open>if (*p) p++\<close>.
\<close>

function split_token :: "split_mode \<Rightarrow> byte list \<Rightarrow> byte list \<Rightarrow> (byte list \<times> byte list) option" where
  "split_token mode p current =
     (case mode of
        Inq \<Rightarrow>
          if line_at p 0 = BSLASH \<and> line_at p 1 = c8 CHR ''x'' \<and> is_hex_digit (line_at p 2) \<and> is_hex_digit (line_at p 3) then
            split_token Inq (drop 4 p)
              (current @ [of_nat (hex_digit_to_int (line_at p 2) * 16 + hex_digit_to_int (line_at p 3))])
          else if line_at p 0 = BSLASH \<and> line_at p 1 \<noteq> 0 then
            split_token Inq (drop 2 p) (current @ [unescape (line_at p 1)])
          else if line_at p 0 = DQUOTE then
            (if line_at p 1 \<noteq> 0 \<and> \<not> isspace (line_at p 1) then None else Some (current, tl p))
          else if line_at p 0 = 0 then None
          else split_token Inq (tl p) (current @ [line_at p 0])
      | Insq \<Rightarrow>
          if line_at p 0 = BSLASH \<and> line_at p 1 = SQUOTE then split_token Insq (drop 2 p) (current @ [SQUOTE])
          else if line_at p 0 = SQUOTE then
            (if line_at p 1 \<noteq> 0 \<and> \<not> isspace (line_at p 1) then None else Some (current, tl p))
          else if line_at p 0 = 0 then None
          else split_token Insq (tl p) (current @ [line_at p 0])
      | Plain \<Rightarrow>
          if line_at p 0 \<in> {c8 CHR '' '', 10, 13, 9} then Some (current, tl p)
          else if line_at p 0 = 0 then Some (current, p)
          else if line_at p 0 = DQUOTE then split_token Inq (tl p) current
          else if line_at p 0 = SQUOTE then split_token Insq (tl p) current
          else split_token Plain (tl p) (current @ [line_at p 0]))"
  by pat_completeness auto
termination by (relation "measure (\<lambda>(_, p, _). length p)") (auto simp: line_at_def split: if_splits)

declare split_token.simps [simp del]

lemma line_at_pos: "line_at p i \<noteq> 0 \<Longrightarrow> i < length p"
  by (auto simp: line_at_def split: if_splits)

lemma split_token_step:
  assumes "split_token mode p current = Some (tok, rest)"
  shows "line_at p 0 = 0 \<and> rest = p \<or>
    line_at p 0 \<noteq> 0 \<and> (rest = tl p \<or> (\<exists>m q cur. q \<in> {tl p, drop 2 p, drop 4 p} \<and> split_token m q cur = Some (tok, rest)))"
proof (cases mode)
  case Inq
  show ?thesis
    using assms by (subst (asm) split_token.simps) (simp add: Inq split: if_splits; blast)
next
  case Insq
  show ?thesis
    using assms by (subst (asm) split_token.simps) (simp add: Insq split: if_splits; blast)
next
  case Plain
  show ?thesis
    using assms by (subst (asm) split_token.simps) (simp add: Plain split: if_splits; auto)
qed

lemma length_split_token:
  "split_token mode p current = Some (tok, rest) \<Longrightarrow>
   length rest \<le> length p \<and> (line_at p 0 \<noteq> 0 \<longrightarrow> length rest < length p)"
proof (induction "length p" arbitrary: mode p current rule: less_induct)
  case less
  consider "rest = p" "line_at p 0 = 0" | "line_at p 0 \<noteq> 0" "rest = tl p"
    | m q cur where "line_at p 0 \<noteq> 0" "q \<in> {tl p, drop 2 p, drop 4 p}" "split_token m q cur = Some (tok, rest)"
    using split_token_step [OF less.prems] by blast
  then show ?case
  proof cases
    case 3
    then have "length q < length p" using line_at_pos [of p 0] by auto
    with less.hyps [OF this 3(3)] show ?thesis by simp
  qed (use line_at_pos [of p 0] in auto)
qed

text \<open>\<open>while (*p && isspace(*p)) p++\<close>, then a token, and again.\<close>

function sdssplitargs :: "byte list \<Rightarrow> byte list list option" where
  "sdssplitargs p =
     (let p = dropWhile isspace p in
      if line_at p 0 \<noteq> 0 then
        (case split_token Plain p [] of
           None \<Rightarrow> None
         | Some (tok, rest) \<Rightarrow> map_option (Cons tok) (sdssplitargs rest))
      else Some [])"
  by pat_completeness auto
termination
proof (relation "measure length", goal_cases)
  case (2 p q tr tok rest)
  then have "length rest < length q" using length_split_token [of Plain q "[]" tok rest] by simp
  with 2(1) length_dropWhile_le [of isspace p] show ?case by simp
qed simp

declare sdssplitargs.simps [simp del]

end
