(* ===== verification/Redis_Sds_Proofs.thy ===== *)
theory Redis_Sds_Proofs
  imports Redis_Sds
begin

text \<open>
  Proofs about quoted strings: splitting a line of quoted strings gives back the strings, whatever
  bytes they hold.
\<close>

lemma line_at_simps [simp]:
  "line_at (c # p) 0 = c" "line_at (c # p) (Suc i) = line_at p i" "line_at [] i = 0"
  by (simp_all add: line_at_def)

lemma line_at_numeral [simp]: "line_at (c # p) (numeral n) = line_at p (pred_numeral n)"
  by (simp add: numeral_eq_Suc)

lemma hex_char_ok:
  assumes "n < 16"
  shows "is_hex_digit (hex_char n)" "hex_digit_to_int (hex_char n) = n"
proof -
  have "n = 0 \<or> n = 1 \<or> n = 2 \<or> n = 3 \<or> n = 4 \<or> n = 5 \<or> n = 6 \<or> n = 7 \<or> n = 8 \<or> n = 9 \<or> n = 10 \<or> n = 11 \<or> n = 12 \<or> n = 13 \<or> n = 14 \<or> n = 15"
    using assms by presburger
  then show "is_hex_digit (hex_char n)" "hex_digit_to_int (hex_char n) = n"
    by (elim disjE; simp add: hex_char_def is_hex_digit_def hex_digit_to_int_def)+
qed

text \<open>One printed byte is read back in one step.\<close>

lemma split_repr_byte:
  "split_token Inq (repr_byte b @ p) current = split_token Inq p (current @ [b])"
proof -
  have b: "of_nat (unat b div 16 * 16 + unat b mod 16) = b" by (simp add: div_mult_mod_eq)
  have lt: "unat b div 16 < 16" "unat b mod 16 < 16" using unsigned_less [of b, where ?'a = nat] by auto
  consider "b = BSLASH \<or> b = DQUOTE \<or> b = 10 \<or> b = 13 \<or> b = 9 \<or> b = 7 \<or> b = 8"
    | "\<not> (b = BSLASH \<or> b = DQUOTE \<or> b = 10 \<or> b = 13 \<or> b = 9 \<or> b = 7 \<or> b = 8)" "isprint b"
    | "\<not> (b = BSLASH \<or> b = DQUOTE \<or> b = 10 \<or> b = 13 \<or> b = 9 \<or> b = 7 \<or> b = 8)" "\<not> isprint b" by blast
  then show ?thesis
  proof cases
    case 1
    then show ?thesis
      by (elim disjE) (simp_all add: repr_byte_def split_token.simps [of Inq "_ # _"] unescape_def)
  next
    case 2
    then have "b \<noteq> 0" "repr_byte b = [b]" by (auto simp: isprint_def repr_byte_def)
    with 2 show ?thesis by (simp add: split_token.simps [of Inq "_ # _"])
  next
    case 3
    then have "repr_byte b = [BSLASH, c8 CHR ''x'', hex_char (unat b div 16), hex_char (unat b mod 16)]"
      by (simp add: repr_byte_def)
    then show ?thesis
      by (subst split_token.simps) (simp add: hex_char_ok lt b)
  qed
qed

lemma split_repr:
  assumes "rest = [] \<or> isspace (hd rest)"
  shows "split_token Inq (concat (map repr_byte s) @ DQUOTE # rest) current = Some (current @ s, rest)"
proof (induction s arbitrary: current)
  case Nil
  then show ?case using assms by (cases rest) (auto simp: split_token.simps [of Inq "_ # _"])
next
  case (Cons b s)
  then show ?case by (simp add: split_repr_byte)
qed

lemma split_quoted:
  assumes "rest = [] \<or> isspace (hd rest)"
  shows "sdssplitargs (sdscatrepr [] s @ rest) = map_option (Cons s) (sdssplitargs rest)"
proof -
  have "split_token Plain (sdscatrepr [] s @ rest) [] = Some (s, rest)"
    using split_repr [OF assms, of s "[]"] by (simp add: sdscatrepr_def split_token.simps [of Plain "_ # _"])
  moreover have "dropWhile isspace (sdscatrepr [] s @ rest) = sdscatrepr [] s @ rest" "line_at (sdscatrepr [] s @ rest) 0 \<noteq> 0"
    by (simp_all add: sdscatrepr_def isspace_def)
  ultimately show ?thesis by (subst sdssplitargs.simps) simp
qed

lemma sdssplitargs_space: "isspace c \<Longrightarrow> sdssplitargs (c # p) = sdssplitargs p"
  by (subst (1 2) sdssplitargs.simps) simp

lemma sdssplitargs_Nil [simp]: "sdssplitargs [] = Some []"
  by (subst sdssplitargs.simps) simp

section \<open>Properties\<close>

text \<open>The line that holds the strings, quoted and separated by single blanks.\<close>

fun repr_line :: "byte list list \<Rightarrow> byte list" where
  "repr_line [] = []"
| "repr_line [s] = sdscatrepr [] s"
| "repr_line (s # t # ss) = sdscatrepr [] s @ c8 CHR '' '' # repr_line (t # ss)"

text \<open>
  C26: Quoting is lossless: \<open>sdssplitargs\<close> applied to strings quoted by \<open>sdscatrepr\<close> and separated
  by blanks returns exactly these strings, for all bytes, nulls, quotes and line ends included.
\<close>

theorem splitargs_repr_roundtrip: "sdssplitargs (repr_line ss) = Some ss"
proof (induction ss rule: repr_line.induct)
  case (2 s)
  then show ?case using split_quoted [of "[]" s] by simp
next
  case (3 s t ss)
  have "isspace (c8 CHR '' '')" by (simp add: isspace_def)
  with 3 show ?case using split_quoted [of "c8 CHR '' '' # repr_line (t # ss)" s] by (simp add: sdssplitargs_space)
qed simp

lemma split_plain:
  "list_all (\<lambda>c. \<not> isspace c \<and> c \<noteq> 0 \<and> c \<noteq> DQUOTE \<and> c \<noteq> SQUOTE) s \<Longrightarrow> split_token Plain s current = Some (current @ s, [])"
proof (induction s arbitrary: current)
  case (Cons c s)
  then show ?case by (subst split_token.simps) (auto simp: isspace_def)
qed (simp add: split_token.simps [of Plain "[]"])

text \<open>
  C29: A non-empty string that \<open>sdsneedsrepr\<close> lets pass and that has no single quote can be written
  without quoting: \<open>sdssplitargs\<close> returns it unchanged.
\<close>

theorem needsrepr_sound:
  assumes "\<not> sdsneedsrepr s" "s \<noteq> []" "SQUOTE \<notin> set s"
  shows "sdssplitargs s = Some [s]"
proof -
  have "isprint c" "\<not> isspace c" "c \<noteq> DQUOTE" if "c \<in> set s" for c
    using assms(1) that by (simp_all add: sdsneedsrepr_def list_ex_iff)
  moreover have "c \<noteq> 0" if "isprint c" for c using that by (auto simp: isprint_def)
  ultimately have plain: "list_all (\<lambda>c. \<not> isspace c \<and> c \<noteq> 0 \<and> c \<noteq> DQUOTE \<and> c \<noteq> SQUOTE) s"
    unfolding list_all_iff using assms(3) by blast
  then have "split_token Plain s [] = Some (s, [])" by (simp add: split_plain)
  moreover have "dropWhile isspace s = s \<and> line_at s 0 \<noteq> 0" using plain assms(2) by (cases s) simp_all
  ultimately show ?thesis by (simp add: sdssplitargs.simps [of s])
qed

theorem needsrepr_sound_witness: "sdssplitargs (str8 ''appendonly.aof'') = Some [str8 ''appendonly.aof'']"
  by (rule needsrepr_sound) (simp_all add: sdsneedsrepr_def isprint_def isspace_def)


end
