(* ===== verification/Redis_Proto.thy ===== *)
theory Redis_Proto
  imports Redis_Util Redis_Sds
begin

text \<open>
  The request parser of Redis: \<open>processInlineBuffer\<close>, \<open>processMultibulkBuffer\<close> and \<open>processInputBuffer\<close> of
  \<open>src/networking.c\<close>.

  The client record has the fields of \<open>struct client\<close> that the parser uses. \<open>querybuf\<close> is the content
  of the \<open>sds\<close> string; the byte behind it is a null. Arguments are the contents of the string objects.
  \<open>long\<close> and \<open>size_t\<close> have 32 bits, so \<open>bulklen\<close> is reduced accordingly. \<open>cl_errors\<close> collects what
  \<open>addReplyError\<close> is given. A failing \<open>serverAssert\<close>, and a write behind \<open>argv_len\<close>, are the result \<open>None\<close>.
\<close>

section \<open>Clients\<close>

datatype proto_error =
    Too_big_inline | Unbalanced_quotes | Too_big_mbulk_count | Invalid_mbulk_length | Unauth_mbulk_length
  | Too_big_bulk_count | Expected_dollar byte | Invalid_bulk_length | Unauth_bulk_length

datatype reqtype = Req_unknown | Req_inline | Req_multibulk

record client =
  querybuf :: "byte list"
  qb_pos :: nat
  querybuf_peak :: nat
  cl_argv :: "byte list list"
  argv_len :: int
  argv_len_sum :: nat
  reqtype :: reqtype
  multibulklen :: int
  bulklen :: int
  cl_master :: bool  \<comment> \<open>\<open>CLIENT_MASTER\<close>\<close>
  cl_blocked :: bool  \<comment> \<open>\<open>CLIENT_BLOCKED\<close>\<close>
  cl_pending :: bool  \<comment> \<open>\<open>CLIENT_PENDING_COMMAND\<close>\<close>
  cl_close :: bool  \<comment> \<open>\<open>CLIENT_CLOSE_AFTER_REPLY\<close> or \<open>CLIENT_CLOSE_ASAP\<close>\<close>
  cl_multi :: bool  \<comment> \<open>\<open>CLIENT_MULTI\<close>\<close>
  cl_slave :: bool  \<comment> \<open>\<open>getClientType(c) == CLIENT_TYPE_SLAVE\<close>\<close>
  repl_ack_time :: int
  reploff :: int
  read_reploff :: int
  repl_applied :: nat
  cl_errors :: "proto_error list"

text \<open>What the parser reads of the server: limits, time, and whether the client must authenticate.\<close>

record proto_conf =
  proto_max_bulk_len :: int
  auth_required :: bool
  yielding_long_command :: bool
  unixtime :: int

abbreviation (input) PROTO_INLINE_MAX_SIZE :: nat where "PROTO_INLINE_MAX_SIZE \<equiv> 65536"
abbreviation (input) PROTO_MBULK_BIG_ARG :: int where "PROTO_MBULK_BIG_ARG \<equiv> 32768"
abbreviation (input) INT_MAX :: int where "INT_MAX \<equiv> 2 ^ 31 - 1"

datatype c_result = C_OK | C_ERR

definition cl_rest :: "client \<Rightarrow> byte list" where
  "cl_rest c = drop (qb_pos c) (querybuf c)"

text \<open>\<open>setProtocolError\<close> after \<open>addReplyError\<close>; the logging is left out.\<close>

definition protocol_error :: "proto_error \<Rightarrow> client \<Rightarrow> client" where
  "protocol_error e c = c\<lparr>cl_errors := cl_errors c @ [e], cl_close := True\<rparr>"

text \<open>\<open>strchr\<close> stops at a null, at the latest behind the string.\<close>

fun strchr :: "byte list \<Rightarrow> byte \<Rightarrow> nat option" where
  "strchr [] ch = None"
| "strchr (x # xs) ch = (if x = ch then Some 0 else if x = 0 then None else map_option Suc (strchr xs ch))"

text \<open>A value stored in a \<open>long\<close> and converted to \<open>size_t\<close>.\<close>

definition to_long :: "int \<Rightarrow> int" where
  "to_long v = (v + 2 ^ 31) mod 2 ^ 32 - 2 ^ 31"

definition to_size :: "int \<Rightarrow> nat" where
  "to_size v = nat (v mod 2 ^ 32)"

section \<open>Inline requests\<close>

definition processInlineBuffer :: "proto_conf \<Rightarrow> client \<Rightarrow> c_result \<times> client" where
  "processInlineBuffer cfg c =
     (case strchr (cl_rest c) LF of
        None \<Rightarrow>
          (C_ERR, if length (querybuf c) - qb_pos c > PROTO_INLINE_MAX_SIZE then protocol_error Too_big_inline c else c)
      | Some nl \<Rightarrow>
          (let crlf = (nl \<noteq> 0 \<and> cl_rest c ! (nl - 1) = CR);
               querylen = (if crlf then nl - 1 else nl);
               linefeed_chars = (if crlf then 2 else 1 :: nat)
           in
           case sdssplitargs (take querylen (cl_rest c)) of
             None \<Rightarrow> (C_ERR, protocol_error Unbalanced_quotes c)
           | Some argv \<Rightarrow>
               (let c = (if querylen = 0 \<and> cl_slave c then c\<lparr>repl_ack_time := unixtime cfg\<rparr> else c) in
                if querylen \<noteq> 0 \<and> cl_master c then (C_ERR, c\<lparr>cl_close := True\<rparr>)
                else
                  (let c = c\<lparr>qb_pos := qb_pos c + querylen + linefeed_chars\<rparr>;
                       c = (if argv \<noteq> [] then c\<lparr>argv_len := int (length argv), argv_len_sum := 0\<rparr> else c)
                   in (C_OK, c\<lparr>cl_argv := argv, argv_len_sum := argv_len_sum c + sum_list (map length argv)\<rparr>)))))"

section \<open>Multibulk requests\<close>

text \<open>
  Whether there is a whole line, and how long it is; \<open>newline - start > (ssize_t)(len - 2)\<close> means that
  the line feed is missing.
\<close>

datatype line_state = No_newline | No_linefeed | Line nat

definition find_line :: "client \<Rightarrow> line_state" where
  "find_line c =
     (case strchr (cl_rest c) CR of
        None \<Rightarrow> No_newline
      | Some nl \<Rightarrow> if int nl > int (length (querybuf c) - qb_pos c) - 2 then No_linefeed else Line nl)"

datatype 'a flow_step = Continue 'a | Break 'a | Fail 'a

text \<open>The length of the request: \<open>Fail\<close> and \<open>Break\<close> return \<open>C_ERR\<close>, with and without an error; \<open>None\<close> is a failing assertion.\<close>

definition mbulk_header :: "proto_conf \<Rightarrow> client \<Rightarrow> (client flow_step) option" where
  "mbulk_header cfg c =
     (if cl_argv c \<noteq> [] then None
      else
        (case find_line c of
           No_newline \<Rightarrow>
             Some (if length (querybuf c) - qb_pos c > PROTO_INLINE_MAX_SIZE
                   then Fail (protocol_error Too_big_mbulk_count c) else Break c)
         | No_linefeed \<Rightarrow> Some (Break c)
         | Line nl \<Rightarrow>
             if cl_rest c ! 0 \<noteq> c8 CHR ''*'' then None
             else
               Some (case string2ll (byte_range 1 nl (cl_rest c)) of
                 None \<Rightarrow> Fail (protocol_error Invalid_mbulk_length c)
               | Some ll \<Rightarrow>
                   if ll > INT_MAX then Fail (protocol_error Invalid_mbulk_length c)
                   else if ll > 10 \<and> auth_required cfg then Fail (protocol_error Unauth_mbulk_length c)
                   else
                     (let c = c\<lparr>qb_pos := qb_pos c + nl + 2\<rparr> in
                      if ll \<le> 0 then Continue c
                      else Continue (c\<lparr>multibulklen := ll, argv_len := min ll 1024, argv_len_sum := 0\<rparr>)))))"

text \<open>The length of an argument; a large argument is moved to the front of the buffer.\<close>

definition trim_for_big_arg :: "int \<Rightarrow> client \<Rightarrow> client" where
  "trim_for_big_arg ll c =
     (if \<not> cl_master c \<and> ll \<ge> PROTO_MBULK_BIG_ARG \<and> length (querybuf c) - qb_pos c \<le> to_size ll + 2 then
        c\<lparr>querybuf := cl_rest c, qb_pos := 0,
          querybuf_peak := (if querybuf_peak c < to_size ll + 2 then to_size (ll + 2) else querybuf_peak c)\<rparr>
      else c)"

definition bulk_header :: "proto_conf \<Rightarrow> client \<Rightarrow> client flow_step" where
  "bulk_header cfg c =
     (case find_line c of
        No_newline \<Rightarrow>
          if length (querybuf c) - qb_pos c > PROTO_INLINE_MAX_SIZE
          then Fail (protocol_error Too_big_bulk_count c) else Break c
      | No_linefeed \<Rightarrow> Break c
      | Line nl \<Rightarrow>
          if cl_rest c ! 0 \<noteq> c8 CHR ''$'' then Fail (protocol_error (Expected_dollar (cl_rest c ! 0)) c)
          else
            (case string2ll (byte_range 1 nl (cl_rest c)) of
               None \<Rightarrow> Fail (protocol_error Invalid_bulk_length c)
             | Some ll \<Rightarrow>
                 if ll < 0 \<or> \<not> cl_master c \<and> ll > proto_max_bulk_len cfg
                 then Fail (protocol_error Invalid_bulk_length c)
                 else if ll > 16384 \<and> auth_required cfg then Fail (protocol_error Unauth_bulk_length c)
                 else
                   Continue ((trim_for_big_arg ll (c\<lparr>qb_pos := qb_pos c + nl + 2\<rparr>))\<lparr>bulklen := to_long ll\<rparr>)))"

text \<open>
  Taking an argument. The array is doubled when it is full; storing behind it is \<open>None\<close>. A buffer
  that holds nothing but a large argument becomes the argument, without the line end.
\<close>

definition grow_argv :: "client \<Rightarrow> client" where
  "grow_argv c =
     (if int (length (cl_argv c)) \<ge> argv_len c
      then c\<lparr>argv_len := min (if argv_len c < INT_MAX div 2 then argv_len c * 2 else INT_MAX)
                           (int (length (cl_argv c)) + multibulklen c)\<rparr>
      else c)"

definition bulk_argument :: "client \<Rightarrow> client option" where
  "bulk_argument c =
     (let c = grow_argv c in
      if int (length (cl_argv c)) \<ge> argv_len c then None
      else if \<not> cl_master c \<and> qb_pos c = 0 \<and> bulklen c \<ge> PROTO_MBULK_BIG_ARG \<and>
              length (querybuf c) = to_size (bulklen c + 2) then
        Some (c\<lparr>cl_argv := cl_argv c @ [take (length (querybuf c) - 2) (querybuf c)],
                argv_len_sum := argv_len_sum c + to_size (bulklen c), querybuf := [],
                bulklen := -1, multibulklen := multibulklen c - 1\<rparr>)
      else
        Some (c\<lparr>cl_argv := cl_argv c @ [take (to_size (bulklen c)) (cl_rest c)],
                argv_len_sum := argv_len_sum c + to_size (bulklen c), qb_pos := qb_pos c + to_size (bulklen c + 2),
                bulklen := -1, multibulklen := multibulklen c - 1\<rparr>))"

text \<open>\<open>while (c->multibulklen)\<close>; each turn that goes on takes one argument, so their number bounds the loop.\<close>

fun multibulk_loop :: "proto_conf \<Rightarrow> nat \<Rightarrow> client \<Rightarrow> (c_result \<times> client) option" where
  "multibulk_loop cfg 0 c = Some (C_OK, c)"
| "multibulk_loop cfg (Suc n) c =
     (case (if bulklen c = -1 then bulk_header cfg c else Continue c) of
        Fail c \<Rightarrow> Some (C_ERR, c)
      | Break c \<Rightarrow> Some (C_ERR, c)
      | Continue c \<Rightarrow>
          if length (querybuf c) - qb_pos c < to_size (bulklen c + 2) then Some (C_ERR, c)
          else
            (case bulk_argument c of
               None \<Rightarrow> None
             | Some c \<Rightarrow> multibulk_loop cfg n c))"

definition processMultibulkBuffer :: "proto_conf \<Rightarrow> client \<Rightarrow> (c_result \<times> client) option" where
  "processMultibulkBuffer cfg c =
     (case (if multibulklen c = 0 then mbulk_header cfg c else Some (Continue c)) of
        None \<Rightarrow> None
      | Some (Fail c) \<Rightarrow> Some (C_ERR, c)
      | Some (Break c) \<Rightarrow> Some (C_ERR, c)
      | Some (Continue c') \<Rightarrow>
          if multibulklen c = 0 \<and> multibulklen c' = 0 then Some (C_OK, c')
          else if multibulklen c' \<le> 0 then None
          else multibulk_loop cfg (nat (multibulklen c')) c')"

section \<open>The input loop\<close>

definition resetClient :: "client \<Rightarrow> client" where
  "resetClient c =
     c\<lparr>cl_argv := [], argv_len := 0, argv_len_sum := 0, reqtype := Req_unknown, multibulklen := 0, bulklen := -1\<rparr>"

text \<open>
  \<open>processCommand\<close> is a parameter: from the state of the server, the client and its arguments to the next state, the
  client, and whether the command was handled (\<open>C_OK\<close>) or the client is gone (\<open>None\<close>).
  \<open>feed\<close> is \<open>replicationFeedStreamFromMasterStream\<close>.
\<close>

type_synonym 'w exec = "'w \<Rightarrow> client \<Rightarrow> ('w \<times> client \<times> c_result) option"

definition commandProcessed :: "('w \<Rightarrow> byte list \<Rightarrow> 'w) \<Rightarrow> 'w \<Rightarrow> client \<Rightarrow> 'w \<times> client" where
  "commandProcessed feed w c =
     (if cl_blocked c then (w, c)
      else
        (let c = resetClient c;
             prev_offset = reploff c;
             c = (if cl_master c \<and> \<not> cl_multi c
                  then c\<lparr>reploff := read_reploff c - int (length (querybuf c)) + int (qb_pos c)\<rparr> else c)
         in
         if cl_master c \<and> reploff c - prev_offset \<noteq> 0 then
           (let applied = reploff c - prev_offset in
            (feed w (take (nat applied) (drop (repl_applied c) (querybuf c))),
             c\<lparr>repl_applied := repl_applied c + nat applied\<rparr>))
         else (w, c)))"

definition processCommandAndResetClient ::
  "'w exec \<Rightarrow> ('w \<Rightarrow> byte list \<Rightarrow> 'w) \<Rightarrow> 'w \<Rightarrow> client \<Rightarrow> ('w \<times> client) option" where
  "processCommandAndResetClient exec feed w c =
     (case exec w c of
        None \<Rightarrow> None
      | Some (w, c, C_OK) \<Rightarrow> Some (commandProcessed feed w c)
      | Some (w, c, C_ERR) \<Rightarrow> Some (w, c))"

text \<open>
  The loop of \<open>processInputBuffer\<close>. Since the port has no threads, \<open>io_threads_op\<close> is always idle.
  The result distinguishes a failed assertion (\<open>None\<close>, as does a loop that does not end) from a client that
  is gone (\<open>Some (w, None)\<close>).
\<close>

partial_function (option) input_loop ::
  "proto_conf \<Rightarrow> 'w exec \<Rightarrow> ('w \<Rightarrow> byte list \<Rightarrow> 'w) \<Rightarrow> 'w \<Rightarrow> client \<Rightarrow> ('w \<times> client option) option" where
  "input_loop cfg exec feed w c =
     (if \<not> qb_pos c < length (querybuf c) then Some (w, Some c)
      else if cl_blocked c \<or> cl_pending c \<or> yielding_long_command cfg \<and> cl_master c \<or> cl_close c then Some (w, Some c)
      else
        (let c = (if reqtype c = Req_unknown
                  then c\<lparr>reqtype := (if cl_rest c ! 0 = c8 CHR ''*'' then Req_multibulk else Req_inline)\<rparr> else c) in
         case (if reqtype c = Req_inline then Some (processInlineBuffer cfg c) else processMultibulkBuffer cfg c) of
           None \<Rightarrow> None
         | Some (C_ERR, c) \<Rightarrow> Some (w, Some c)
         | Some (C_OK, c) \<Rightarrow>
             if cl_argv c = [] then input_loop cfg exec feed w (resetClient c)
             else
               (case processCommandAndResetClient exec feed w c of
                  None \<Rightarrow> Some (w, None)
                | Some (w, c) \<Rightarrow> input_loop cfg exec feed w c)))"

text \<open>What is trimmed from the buffer at the end.\<close>

definition trim_querybuf :: "client \<Rightarrow> client" where
  "trim_querybuf c =
     (if cl_master c then
        (if repl_applied c \<noteq> 0
         then c\<lparr>querybuf := drop (repl_applied c) (querybuf c), qb_pos := qb_pos c - repl_applied c, repl_applied := 0\<rparr>
         else c)
      else if qb_pos c \<noteq> 0 then c\<lparr>querybuf := cl_rest c, qb_pos := 0\<rparr>
      else c)"

definition processInputBuffer ::
  "proto_conf \<Rightarrow> 'w exec \<Rightarrow> ('w \<Rightarrow> byte list \<Rightarrow> 'w) \<Rightarrow> 'w \<Rightarrow> client \<Rightarrow> ('w \<times> client option) option" where
  "processInputBuffer cfg exec feed w c =
     map_option (\<lambda>(w, c). (w, map_option trim_querybuf c)) (input_loop cfg exec feed w c)"

end
