(* ===== verification/Redis_Proto_Proofs.thy ===== *)
theory Redis_Proto_Proofs
  imports Redis_Proto Redis_Util_Proofs
begin

text \<open>
  Proofs about the request parser: every request that a client encodes is parsed to its arguments,
  in whatever pieces it arrives, and pipelined requests are executed in order.
\<close>

section \<open>Encoding of requests\<close>

definition bulk_enc :: "byte list \<Rightarrow> byte list" where
  "bulk_enc a = c8 CHR ''$'' # decimal (length a) @ CR # LF # a @ [CR, LF]"

definition req_enc :: "byte list list \<Rightarrow> byte list" where
  "req_enc args = c8 CHR ''*'' # decimal (length args) @ CR # LF # concat (map bulk_enc args)"



section \<open>Lines\<close>




lemma length_cl_rest [simp]: "length (cl_rest c) = length (querybuf c) - qb_pos c"
  by (simp add: cl_rest_def)









section \<open>Progress through a request\<close>

text \<open>\<open>k\<close> arguments were taken; \<open>remaining\<close> is what is still to come of the request.\<close>

definition arg_state :: "byte list list \<Rightarrow> nat \<Rightarrow> client \<Rightarrow> bool" where
  "arg_state args k c \<longleftrightarrow>
     k < length args \<and> cl_argv c = take k args \<and> multibulklen c = int (length args - k) \<and>
     1 \<le> argv_len c \<and> argv_len c < 2 ^ 31 \<and> int k \<le> argv_len c \<and> \<not> cl_master c \<and> qb_pos c \<le> length (querybuf c) \<and>
     (bulklen c = -1 \<or> bulklen c = int (length (args ! k)))"

definition remaining :: "byte list list \<Rightarrow> nat \<Rightarrow> client \<Rightarrow> byte list" where
  "remaining args k c =
     (if bulklen c = -1 then concat (map bulk_enc (drop k args))
      else args ! k @ CR # LF # concat (map bulk_enc (drop (Suc k) args)))"


text \<open>Fields that the parser of a correct request leaves alone.\<close>

definition same_conn :: "client \<Rightarrow> client \<Rightarrow> bool" where
  "same_conn c c' \<longleftrightarrow>
     cl_errors c' = cl_errors c \<and> cl_close c' = cl_close c \<and> cl_master c' = cl_master c \<and> cl_blocked c' = cl_blocked c \<and>
     cl_pending c' = cl_pending c \<and> reqtype c' = reqtype c"

lemma same_conn_refl [simp]: "same_conn c c"
  by (simp add: same_conn_def)








text \<open>The state in front of a request.\<close>

definition request_start :: "client \<Rightarrow> bool" where
  "request_start c \<longleftrightarrow>
     multibulklen c = 0 \<and> bulklen c = -1 \<and> cl_argv c = [] \<and> \<not> cl_master c \<and> qb_pos c \<le> length (querybuf c)"



text \<open>In front of a request or within it.\<close>

definition parsing :: "byte list list \<Rightarrow> byte list \<Rightarrow> byte list \<Rightarrow> client \<Rightarrow> bool" where
  "parsing args rest fut c \<longleftrightarrow>
     request_start c \<and> cl_rest c @ fut = req_enc args @ rest \<or>
     (\<exists>k. arg_state args k c \<and> cl_rest c @ fut = remaining args k c @ rest)"



section \<open>Streams of requests\<close>




lemma req_enc_not_Nil [simp]: "req_enc args \<noteq> []"
  by (simp add: req_enc_def)

lemma parsing_reqtype [simp]: "parsing args rest fut (c\<lparr>reqtype := t\<rparr>) = parsing args rest fut c"
  by (simp add: parsing_def request_start_def arg_state_def remaining_def cl_rest_def)





section \<open>Clients that are not authenticated\<close>

text \<open>At most ten arguments of at most 16384 bytes.\<close>

definition unauth_inv :: "client \<Rightarrow> bool" where
  "unauth_inv c \<longleftrightarrow>
     0 \<le> multibulklen c \<and> int (length (cl_argv c)) + multibulklen c \<le> 10 \<and> -1 \<le> bulklen c \<and> bulklen c \<le> 16384 \<and>
     list_all (\<lambda>a. length a \<le> 16384) (cl_argv c)"

lemma protocol_error_unauth [simp]: "unauth_inv (protocol_error e c) = unauth_inv c"
  by (simp add: unauth_inv_def protocol_error_def)





section \<open>Properties\<close>

















end
