(* ===== verification/Redis_Dict.thy ===== *)
theory Redis_Dict
  imports Prelude
begin

text \<open>
  The hash tables of Redis: \<open>src/dict.c\<close>, with incremental rehashing between two tables.

  \<open>ht_table[i]\<close>, \<open>ht_used[i]\<close> and \<open>ht_size_exp[i]\<close> are the fields of the record of table \<open>i\<close>; a bucket is
  the list of the entries chained from it and \<open>NULL\<close> as a table is the empty list. An entry is an
  allocated entry, an entry without value or the bare key itself (the pointer bits of \<open>dict.c\<close>); the
  value of an entry that was inserted but not yet set is \<open>None\<close>. \<open>unsigned long\<close> and \<open>size_t\<close> have 32
  bits. Counters of entries cannot overflow, since every entry takes memory; products of counters can, and
  are reduced. A failing \<open>assert\<close> and an access outside a table are the result \<open>None\<close>.

  The callbacks of a \<open>dictType\<close> are parameters, in the record \<open>dictType\<close>; the calls that inform
  the owner of the table or release keys and values are recorded in the field \<open>dict_calls\<close>.
\<close>

section \<open>Types\<close>

datatype ('k, 'v) dict_entry = Entry 'k "'v option" | Entry_no_value 'k | Entry_key 'k

datatype ('k, 'v) dict_call =
    Rehashing_started | Rehashing_completed | Bucket_changed int | Free_key 'k | Free_val "'v option"

datatype dict_resize = DICT_RESIZE_ENABLE | DICT_RESIZE_AVOID | DICT_RESIZE_FORBID

datatype dict_result = DICT_OK | DICT_ERR

text \<open>
  \<open>key_lsb\<close> is the least bit of a key pointer; \<open>resizeAllowed\<close> is given the memory and the two numbers
  whose quotient is its second argument.
\<close>

record ('k, 'v) dictType =
  hashFunction :: "'k \<Rightarrow> 64 word"
  keyDup :: "('k \<Rightarrow> 'k) option"
  valDup :: "('v \<Rightarrow> 'v) option"
  keyCompare :: "('k \<Rightarrow> 'k \<Rightarrow> bool) option"
  keyDestructor :: bool
  valDestructor :: bool
  resizeAllowed :: "(nat \<Rightarrow> nat \<Rightarrow> nat \<Rightarrow> bool) option"
  no_value :: bool
  keys_are_odd :: bool
  storedHashFunction :: "('k \<Rightarrow> 64 word) option"
  storedKeyCompare :: "('k \<Rightarrow> 'k \<Rightarrow> bool) option"
  key_lsb :: "'k \<Rightarrow> bool"

record ('k, 'v) ht =
  ht_table :: "('k, 'v) dict_entry list list"
  ht_used :: nat
  ht_size_exp :: int

record ('k, 'v) dict =
  ht0 :: "('k, 'v) ht"
  ht1 :: "('k, 'v) ht"
  rehashidx :: int
  pauserehash :: nat
  useStoredKeyApi :: bool
  pauseAutoResize :: int
  dict_calls :: "('k, 'v) dict_call list"

abbreviation (input) HASHTABLE_MIN_FILL :: nat where "HASHTABLE_MIN_FILL \<equiv> 8"
abbreviation (input) DICT_HT_INITIAL_EXP :: int where "DICT_HT_INITIAL_EXP \<equiv> 2"
abbreviation (input) DICT_HT_INITIAL_SIZE :: nat where "DICT_HT_INITIAL_SIZE \<equiv> 4"
abbreviation (input) dict_force_resize_ratio :: nat where "dict_force_resize_ratio \<equiv> 4"
abbreviation (input) sizeof_ptr :: nat where "sizeof_ptr \<equiv> 4"

definition ulong :: "nat \<Rightarrow> nat" where
  "ulong n = n mod 2 ^ 32"

definition DICTHT_SIZE :: "int \<Rightarrow> nat" where
  "DICTHT_SIZE e = (if e = -1 then 0 else 2 ^ nat e)"

definition DICTHT_SIZE_MASK :: "int \<Rightarrow> nat" where
  "DICTHT_SIZE_MASK e = (if e = -1 then 0 else DICTHT_SIZE e - 1)"

definition ht_index :: "64 word \<Rightarrow> int \<Rightarrow> nat" where
  "ht_index h e = unat (h AND of_nat (DICTHT_SIZE_MASK e))"

definition dictIsRehashing :: "('k, 'v) dict \<Rightarrow> bool" where
  "dictIsRehashing d \<longleftrightarrow> rehashidx d \<noteq> -1"

definition dictSize :: "('k, 'v) dict \<Rightarrow> nat" where
  "dictSize d = ht_used (ht0 d) + ht_used (ht1 d)"

definition dictBuckets :: "('k, 'v) dict \<Rightarrow> nat" where
  "dictBuckets d = DICTHT_SIZE (ht_size_exp (ht0 d)) + DICTHT_SIZE (ht_size_exp (ht1 d))"

definition dict_call :: "('k, 'v) dict_call \<Rightarrow> ('k, 'v) dict \<Rightarrow> ('k, 'v) dict" where
  "dict_call x d = d\<lparr>dict_calls := dict_calls d @ [x]\<rparr>"

section \<open>Entries\<close>

fun dictGetKey :: "('k, 'v) dict_entry \<Rightarrow> 'k" where
  "dictGetKey (Entry k v) = k"
| "dictGetKey (Entry_no_value k) = k"
| "dictGetKey (Entry_key k) = k"

fun dictGetVal :: "('k, 'v) dict_entry \<Rightarrow> 'v option option" where
  "dictGetVal (Entry k v) = Some v"
| "dictGetVal e = None"

fun entryIsKey :: "('k, 'v) dict_entry \<Rightarrow> bool" where
  "entryIsKey (Entry_key k) = True"
| "entryIsKey e = False"

fun entryIsNoValue :: "('k, 'v) dict_entry \<Rightarrow> bool" where
  "entryIsNoValue (Entry_no_value k) = True"
| "entryIsNoValue e = False"

fun dictSetVal :: "('k, 'v) dictType \<Rightarrow> ('k, 'v) dict_entry \<Rightarrow> 'v \<Rightarrow> ('k, 'v) dict_entry option" where
  "dictSetVal T (Entry k _) val = Some (Entry k (Some (case valDup T of None \<Rightarrow> val | Some f \<Rightarrow> f val)))"
| "dictSetVal T e val = None"

text \<open>\<open>dictSetNext\<close>: an entry in front of a chain; a bare key has no place for the pointer.\<close>

definition dictSetNext :: "('k, 'v) dict_entry \<Rightarrow> ('k, 'v) dict_entry list \<Rightarrow> ('k, 'v) dict_entry list option" where
  "dictSetNext e next_e = (if entryIsKey e then None else Some (e # next_e))"

definition dictHashKey :: "('k, 'v) dictType \<Rightarrow> 'k \<Rightarrow> bool \<Rightarrow> 64 word" where
  "dictHashKey T key isStoredKey =
     (case storedHashFunction T of
        Some f \<Rightarrow> if isStoredKey then f key else hashFunction T key
      | None \<Rightarrow> hashFunction T key)"

text \<open>\<open>dictDefaultCompare\<close> compares the pointers.\<close>

definition dictGetKeyCmpFunc :: "('k, 'v) dictType \<Rightarrow> bool \<Rightarrow> 'k \<Rightarrow> 'k \<Rightarrow> bool" where
  "dictGetKeyCmpFunc T stored =
     (case (if stored then storedKeyCompare T else None) of
        Some f \<Rightarrow> f
      | None \<Rightarrow> (case keyCompare T of Some f \<Rightarrow> f | None \<Rightarrow> (=)))"

text \<open>\<open>key == he_key || cmpFunc(d, key, he_key)\<close>.\<close>

definition key_matches :: "('k, 'v) dictType \<Rightarrow> bool \<Rightarrow> 'k \<Rightarrow> ('k, 'v) dict_entry \<Rightarrow> bool" where
  "key_matches T stored key he \<longleftrightarrow> key = dictGetKey he \<or> dictGetKeyCmpFunc T stored key (dictGetKey he)"

text \<open>\<open>dictFreeKey\<close> and \<open>dictFreeVal\<close>; releasing the value of an entry without value fails an assertion.\<close>

definition free_entry :: "('k, 'v) dictType \<Rightarrow> ('k, 'v) dict_entry \<Rightarrow> ('k, 'v) dict \<Rightarrow> ('k, 'v) dict option" where
  "free_entry T he d =
     (let d = (if keyDestructor T then dict_call (Free_key (dictGetKey he)) d else d) in
      if valDestructor T then map_option (\<lambda>v. dict_call (Free_val v) d) (dictGetVal he) else Some d)"

section \<open>Creation and resizing\<close>

definition dictReset :: "('k, 'v) ht" where
  "dictReset = \<lparr>ht_table = [], ht_used = 0, ht_size_exp = -1\<rparr>"

definition dictCreate :: "('k, 'v) dict" where
  "dictCreate =
     \<lparr>ht0 = dictReset, ht1 = dictReset, rehashidx = -1, pauserehash = 0, useStoredKeyApi = False,
      pauseAutoResize = 0, dict_calls = []\<rparr>"

text \<open>\<open>__builtin_clzl\<close> on 32 bits.\<close>

fun bit_width :: "nat \<Rightarrow> nat" where
  "bit_width n = (if n = 0 then 0 else Suc (bit_width (n div 2)))"

declare bit_width.simps [simp del]

definition builtin_clzl :: "nat \<Rightarrow> nat" where
  "builtin_clzl n = 32 - bit_width n"

definition dictNextExp :: "nat \<Rightarrow> int" where
  "dictNextExp sz =
     (if sz \<le> DICT_HT_INITIAL_SIZE then DICT_HT_INITIAL_EXP
      else if sz \<ge> 2 ^ 31 - 1 then 31
      else 32 - int (builtin_clzl (sz - 1)))"

text \<open>
  \<open>_dictResize\<close>. \<open>alloc\<close> is whether \<open>ztrycalloc\<close> gets the memory, for a caller that passes \<open>malloc_failed\<close>, and
  \<open>True\<close> for others, where \<open>zcalloc\<close> does not return without it. The result has \<open>*malloc_failed\<close>.
\<close>

definition dictResize ::
  "bool \<Rightarrow> ('k, 'v) dict \<Rightarrow> nat \<Rightarrow> (dict_result \<times> bool \<times> ('k, 'v) dict) option" where
  "dictResize alloc d sz =
     (if dictIsRehashing d then None
      else
        (let new_ht_size_exp = dictNextExp sz;
             newsize = DICTHT_SIZE new_ht_size_exp
         in
         if newsize < sz \<or> ulong (newsize * sizeof_ptr) < newsize then Some (DICT_ERR, False, d)
         else if new_ht_size_exp = ht_size_exp (ht0 d) then Some (DICT_ERR, False, d)
         else if \<not> alloc then Some (DICT_ERR, True, d)
         else
           (let new_ht = \<lparr>ht_table = replicate newsize [], ht_used = 0, ht_size_exp = new_ht_size_exp\<rparr>;
                d = d\<lparr>ht1 := new_ht, rehashidx := 0\<rparr>;
                d = dict_call Rehashing_started d;
                d = dict_call (Bucket_changed (int newsize)) d
            in
            if ht_table (ht0 d) = [] \<or> ht_used (ht0 d) = 0 then
              (let d = dict_call Rehashing_completed d;
                   d = dict_call (Bucket_changed (- int (DICTHT_SIZE (ht_size_exp (ht0 d))))) d
               in Some (DICT_OK, False, d\<lparr>ht0 := new_ht, ht1 := dictReset, rehashidx := -1\<rparr>))
            else Some (DICT_OK, False, d))))"

definition dictExpand_gen ::
  "bool \<Rightarrow> ('k, 'v) dict \<Rightarrow> nat \<Rightarrow> (dict_result \<times> bool \<times> ('k, 'v) dict) option" where
  "dictExpand_gen alloc d sz =
     (if dictIsRehashing d \<or> ht_used (ht0 d) > sz \<or> DICTHT_SIZE (ht_size_exp (ht0 d)) \<ge> sz
      then Some (DICT_ERR, False, d)
      else dictResize alloc d sz)"

definition dictExpand :: "('k, 'v) dict \<Rightarrow> nat \<Rightarrow> (dict_result \<times> ('k, 'v) dict) option" where
  "dictExpand d sz = map_option (\<lambda>(r, _, d). (r, d)) (dictExpand_gen True d sz)"

definition dictTryExpand :: "bool \<Rightarrow> ('k, 'v) dict \<Rightarrow> nat \<Rightarrow> (dict_result \<times> ('k, 'v) dict) option" where
  "dictTryExpand alloc d sz =
     map_option (\<lambda>(_, malloc_failed, d). (if malloc_failed then DICT_ERR else DICT_OK, d)) (dictExpand_gen alloc d sz)"

definition dictShrink :: "('k, 'v) dict \<Rightarrow> nat \<Rightarrow> (dict_result \<times> ('k, 'v) dict) option" where
  "dictShrink d sz =
     (if dictIsRehashing d \<or> ht_used (ht0 d) > sz \<or> DICTHT_SIZE (ht_size_exp (ht0 d)) \<le> sz
      then Some (DICT_ERR, d)
      else map_option (\<lambda>(r, _, d). (r, d)) (dictResize True d sz))"

definition dictTypeResizeAllowed :: "('k, 'v) dictType \<Rightarrow> ('k, 'v) dict \<Rightarrow> nat \<Rightarrow> bool" where
  "dictTypeResizeAllowed T d sz =
     (case resizeAllowed T of
        None \<Rightarrow> True
      | Some f \<Rightarrow> f (ulong (DICTHT_SIZE (dictNextExp sz) * sizeof_ptr)) (ht_used (ht0 d)) (DICTHT_SIZE (ht_size_exp (ht0 d))))"

definition dictExpandIfNeeded ::
  "dict_resize \<Rightarrow> ('k, 'v) dictType \<Rightarrow> ('k, 'v) dict \<Rightarrow> (dict_result \<times> ('k, 'v) dict) option" where
  "dictExpandIfNeeded dict_can_resize T d =
     (if dictIsRehashing d then Some (DICT_OK, d)
      else if DICTHT_SIZE (ht_size_exp (ht0 d)) = 0 then
        map_option (\<lambda>(_, d). (DICT_OK, d)) (dictExpand d DICT_HT_INITIAL_SIZE)
      else if dict_can_resize = DICT_RESIZE_ENABLE \<and> ht_used (ht0 d) \<ge> DICTHT_SIZE (ht_size_exp (ht0 d)) \<or>
              dict_can_resize \<noteq> DICT_RESIZE_FORBID \<and>
              ht_used (ht0 d) \<ge> ulong (dict_force_resize_ratio * DICTHT_SIZE (ht_size_exp (ht0 d))) then
        (if dictTypeResizeAllowed T d (ulong (ht_used (ht0 d) + 1))
         then map_option (\<lambda>(_, d). (DICT_OK, d)) (dictExpand d (ulong (ht_used (ht0 d) + 1)))
         else Some (DICT_OK, d))
      else Some (DICT_ERR, d))"

definition auto_dictExpandIfNeeded ::
  "dict_resize \<Rightarrow> ('k, 'v) dictType \<Rightarrow> ('k, 'v) dict \<Rightarrow> ('k, 'v) dict option" where
  "auto_dictExpandIfNeeded dict_can_resize T d =
     (if pauseAutoResize d > 0 then Some d else map_option snd (dictExpandIfNeeded dict_can_resize T d))"

definition dictShrinkIfNeeded ::
  "dict_resize \<Rightarrow> ('k, 'v) dictType \<Rightarrow> ('k, 'v) dict \<Rightarrow> (dict_result \<times> ('k, 'v) dict) option" where
  "dictShrinkIfNeeded dict_can_resize T d =
     (if dictIsRehashing d then Some (DICT_OK, d)
      else if DICTHT_SIZE (ht_size_exp (ht0 d)) \<le> DICT_HT_INITIAL_SIZE then Some (DICT_OK, d)
      else if dict_can_resize = DICT_RESIZE_ENABLE \<and>
              ulong (ht_used (ht0 d) * HASHTABLE_MIN_FILL) \<le> DICTHT_SIZE (ht_size_exp (ht0 d)) \<or>
              dict_can_resize \<noteq> DICT_RESIZE_FORBID \<and>
              ulong (ht_used (ht0 d) * HASHTABLE_MIN_FILL * dict_force_resize_ratio) \<le> DICTHT_SIZE (ht_size_exp (ht0 d)) then
        (if dictTypeResizeAllowed T d (ht_used (ht0 d))
         then map_option (\<lambda>(_, d). (DICT_OK, d)) (dictShrink d (ht_used (ht0 d)))
         else Some (DICT_OK, d))
      else Some (DICT_ERR, d))"

definition auto_dictShrinkIfNeeded ::
  "dict_resize \<Rightarrow> ('k, 'v) dictType \<Rightarrow> ('k, 'v) dict \<Rightarrow> ('k, 'v) dict option" where
  "auto_dictShrinkIfNeeded dict_can_resize T d =
     (if pauseAutoResize d > 0 then Some d else map_option snd (dictShrinkIfNeeded dict_can_resize T d))"

section \<open>Incremental rehashing\<close>

text \<open>The entry as it is put in front of the bucket \<open>dest\<close> of the new table.\<close>

definition rehash_entry ::
  "('k, 'v) dictType \<Rightarrow> ('k, 'v) dict_entry \<Rightarrow> ('k, 'v) dict_entry list \<Rightarrow> ('k, 'v) dict_entry list option" where
  "rehash_entry T de dest =
     (let key = dictGetKey de in
      if no_value T then
        (if keys_are_odd T \<and> dest = [] then (if key_lsb T key then Some [Entry_key key] else None)
         else if entryIsKey de then Some (Entry_no_value key # dest)
         else if entryIsNoValue de then dictSetNext de dest else None)
      else dictSetNext de dest)"

fun rehash_entries ::
  "('k, 'v) dictType \<Rightarrow> nat \<Rightarrow> ('k, 'v) dict_entry list \<Rightarrow> ('k, 'v) dict \<Rightarrow> ('k, 'v) dict option" where
  "rehash_entries T idx [] d = Some d"
| "rehash_entries T idx (de # nextde) d =
     (let h = (if ht_size_exp (ht1 d) > ht_size_exp (ht0 d)
               then ht_index (dictHashKey T (dictGetKey de) True) (ht_size_exp (ht1 d))
               else ht_index (of_nat idx) (ht_size_exp (ht1 d)))
      in
      if h \<ge> length (ht_table (ht1 d)) then None
      else
        (case rehash_entry T de (ht_table (ht1 d) ! h) of
           None \<Rightarrow> None
         | Some dest \<Rightarrow>
             rehash_entries T idx nextde
               (d\<lparr>ht1 := (ht1 d)\<lparr>ht_table := (ht_table (ht1 d))[h := dest], ht_used := ht_used (ht1 d) + 1\<rparr>,
                  ht0 := (ht0 d)\<lparr>ht_used := ht_used (ht0 d) - 1\<rparr>\<rparr>)))"

definition rehashEntriesInBucketAtIndex ::
  "('k, 'v) dictType \<Rightarrow> ('k, 'v) dict \<Rightarrow> nat \<Rightarrow> ('k, 'v) dict option" where
  "rehashEntriesInBucketAtIndex T d idx =
     (if idx \<ge> length (ht_table (ht0 d)) then None
      else map_option (\<lambda>d. d\<lparr>ht0 := (ht0 d)\<lparr>ht_table := (ht_table (ht0 d))[idx := []]\<rparr>\<rparr>)
             (rehash_entries T idx (ht_table (ht0 d) ! idx) d))"

definition dictCheckRehashingCompleted :: "('k, 'v) dict \<Rightarrow> bool \<times> ('k, 'v) dict" where
  "dictCheckRehashingCompleted d =
     (if ht_used (ht0 d) \<noteq> 0 then (False, d)
      else
        (let d = dict_call Rehashing_completed d;
             d = dict_call (Bucket_changed (- int (DICTHT_SIZE (ht_size_exp (ht0 d))))) d
         in (True, d\<lparr>ht0 := ht1 d, ht1 := dictReset, rehashidx := -1\<rparr>)))"

text \<open>What \<open>DICT_RESIZE_FORBID\<close> and \<open>DICT_RESIZE_AVOID\<close> hold back.\<close>

definition rehash_held_back :: "dict_resize \<Rightarrow> ('k, 'v) dict \<Rightarrow> bool" where
  "rehash_held_back dict_can_resize d \<longleftrightarrow>
     (let s0 = DICTHT_SIZE (ht_size_exp (ht0 d)); s1 = DICTHT_SIZE (ht_size_exp (ht1 d)) in
      dict_can_resize = DICT_RESIZE_FORBID \<or> \<not> dictIsRehashing d \<or>
      dict_can_resize = DICT_RESIZE_AVOID \<and>
      (s1 > s0 \<and> s1 < ulong (dict_force_resize_ratio * s0) \<or>
       s1 < s0 \<and> s0 < ulong (HASHTABLE_MIN_FILL * dict_force_resize_ratio * s1)))"

text \<open>
  The inner loop over empty buckets, from \<open>rehashidx\<close> on: whether \<open>empty_visits\<close> is used up, the new
  \<open>rehashidx\<close> and \<open>empty_visits\<close>. Running behind the table is \<open>None\<close>.
\<close>

fun skip_empty :: "('k, 'v) dict_entry list list \<Rightarrow> int \<Rightarrow> int \<Rightarrow> (bool \<times> int \<times> int) option" where
  "skip_empty [] i empty_visits = None"
| "skip_empty (b # bs) i empty_visits =
     (if b \<noteq> [] then Some (False, i, empty_visits)
      else if empty_visits - 1 = 0 then Some (True, i + 1, 0)
      else skip_empty bs (i + 1) (empty_visits - 1))"

text \<open>The outer loop; the result is whether it was left by \<open>return 1\<close>.\<close>

fun rehash_loop :: "('k, 'v) dictType \<Rightarrow> nat \<Rightarrow> int \<Rightarrow> ('k, 'v) dict \<Rightarrow> (bool \<times> ('k, 'v) dict) option" where
  "rehash_loop T 0 empty_visits d = Some (False, d)"
| "rehash_loop T (Suc n) empty_visits d =
     (if ht_used (ht0 d) = 0 then Some (False, d)
      else if \<not> int (DICTHT_SIZE (ht_size_exp (ht0 d))) > rehashidx d then None
      else
        (case skip_empty (drop (nat (rehashidx d)) (ht_table (ht0 d))) (rehashidx d) empty_visits of
           None \<Rightarrow> None
         | Some (True, i, _) \<Rightarrow> Some (True, d\<lparr>rehashidx := i\<rparr>)
         | Some (False, i, empty_visits) \<Rightarrow>
             (case rehashEntriesInBucketAtIndex T (d\<lparr>rehashidx := i\<rparr>) (nat i) of
                None \<Rightarrow> None
              | Some d \<Rightarrow> rehash_loop T n empty_visits (d\<lparr>rehashidx := rehashidx d + 1\<rparr>))))"

definition dictRehash ::
  "dict_resize \<Rightarrow> ('k, 'v) dictType \<Rightarrow> ('k, 'v) dict \<Rightarrow> nat \<Rightarrow> (bool \<times> ('k, 'v) dict) option" where
  "dictRehash dict_can_resize T d n =
     (if rehash_held_back dict_can_resize d then Some (False, d)
      else
        (case rehash_loop T n (int n * 10) d of
           None \<Rightarrow> None
         | Some (True, d) \<Rightarrow> Some (True, d)
         | Some (False, d) \<Rightarrow> (let (completed, d) = dictCheckRehashingCompleted d in Some (\<not> completed, d))))"

text \<open>
  \<open>dictRehashMicroseconds\<close>: \<open>clock i\<close> is what \<open>elapsedUs\<close> returns when it is asked for the \<open>i\<close>-th time. A loop that
  does not end is \<open>None\<close>.
\<close>

partial_function (option) rehash_us_loop ::
  "dict_resize \<Rightarrow> ('k, 'v) dictType \<Rightarrow> (nat \<Rightarrow> nat) \<Rightarrow> nat \<Rightarrow> nat \<Rightarrow> ('k, 'v) dict \<Rightarrow> (nat \<times> ('k, 'v) dict) option" where
  "rehash_us_loop dict_can_resize T clock us i d =
     (case dictRehash dict_can_resize T d 100 of
        None \<Rightarrow> None
      | Some (more_keys, d) \<Rightarrow>
          if \<not> more_keys then Some (100 * i, d)
          else if clock i \<ge> us then Some (100 * (i + 1), d) else rehash_us_loop dict_can_resize T clock us (i + 1) d)"

definition dictRehashMicroseconds ::
  "dict_resize \<Rightarrow> ('k, 'v) dictType \<Rightarrow> (nat \<Rightarrow> nat) \<Rightarrow> ('k, 'v) dict \<Rightarrow> nat \<Rightarrow> (nat \<times> ('k, 'v) dict) option" where
  "dictRehashMicroseconds dict_can_resize T clock d us =
     (if pauserehash d > 0 then Some (0, d) else rehash_us_loop dict_can_resize T clock us 0 d)"

definition dictRehashStep :: "dict_resize \<Rightarrow> ('k, 'v) dictType \<Rightarrow> ('k, 'v) dict \<Rightarrow> ('k, 'v) dict option" where
  "dictRehashStep dict_can_resize T d =
     (if pauserehash d = 0 then map_option snd (dictRehash dict_can_resize T d 1) else Some d)"

definition dictBucketRehash ::
  "dict_resize \<Rightarrow> ('k, 'v) dictType \<Rightarrow> ('k, 'v) dict \<Rightarrow> nat \<Rightarrow> ('k, 'v) dict option" where
  "dictBucketRehash dict_can_resize T d idx =
     (if pauserehash d \<noteq> 0 \<or> rehash_held_back dict_can_resize d then Some d
      else map_option (\<lambda>d. snd (dictCheckRehashingCompleted d)) (rehashEntriesInBucketAtIndex T d idx))"

text \<open>The rehashing that \<open>dictFind\<close>, \<open>dictGenericDelete\<close> and \<open>dictFindPositionForInsert\<close> start with.\<close>

definition rehash_on_access ::
  "dict_resize \<Rightarrow> ('k, 'v) dictType \<Rightarrow> ('k, 'v) dict \<Rightarrow> nat \<Rightarrow> ('k, 'v) dict option" where
  "rehash_on_access dict_can_resize T d idx =
     (if \<not> dictIsRehashing d then Some d
      else if int idx \<ge> rehashidx d \<and> idx \<ge> length (ht_table (ht0 d)) then None
      else if int idx \<ge> rehashidx d \<and> ht_table (ht0 d) ! idx \<noteq> [] then dictBucketRehash dict_can_resize T d idx
      else dictRehashStep dict_can_resize T d)"

section \<open>Lookup\<close>

text \<open>A pointer to an entry: whether it is in the second table, the bucket, and the place in the chain.\<close>

type_synonym entry_ref = "bool \<times> nat \<times> nat"

definition ht_of :: "bool \<Rightarrow> ('k, 'v) dict \<Rightarrow> ('k, 'v) ht" where
  "ht_of second d = (if second then ht1 d else ht0 d)"

definition set_ht :: "bool \<Rightarrow> ('k, 'v) ht \<Rightarrow> ('k, 'v) dict \<Rightarrow> ('k, 'v) dict" where
  "set_ht second t d = (if second then d\<lparr>ht1 := t\<rparr> else d\<lparr>ht0 := t\<rparr>)"

definition entry_at :: "('k, 'v) dict \<Rightarrow> entry_ref \<Rightarrow> ('k, 'v) dict_entry" where
  "entry_at d r = (case r of (second, idx, pos) \<Rightarrow> ht_table (ht_of second d) ! idx ! pos)"

fun find_in_chain :: "('a \<Rightarrow> bool) \<Rightarrow> 'a list \<Rightarrow> nat option" where
  "find_in_chain P [] = None"
| "find_in_chain P (he # rest) = (if P he then Some 0 else map_option Suc (find_in_chain P rest))"

definition search_table ::
  "bool \<Rightarrow> (('k, 'v) dict_entry \<Rightarrow> bool) \<Rightarrow> ('k, 'v) dict \<Rightarrow> nat \<Rightarrow> entry_ref option option" where
  "search_table second P d idx =
     (if idx \<ge> length (ht_table (ht_of second d)) then None
      else Some (map_option (\<lambda>pos. (second, idx, pos)) (find_in_chain P (ht_table (ht_of second d) ! idx))))"

text \<open>
  The loop over the tables. \<open>idx\<close> is the bucket in the first table as it was before the rehashing on access.
\<close>

definition search_tables ::
  "(('k, 'v) dict_entry \<Rightarrow> bool) \<Rightarrow> ('k, 'v) dict \<Rightarrow> 64 word \<Rightarrow> nat \<Rightarrow> entry_ref option option" where
  "search_tables P d h idx =
     (case (if int idx < rehashidx d then Some None
            else search_table False P d (ht_index h (ht_size_exp (ht0 d)))) of
        None \<Rightarrow> None
      | Some (Some r) \<Rightarrow> Some (Some r)
      | Some None \<Rightarrow>
          if \<not> dictIsRehashing d then Some None
          else search_table True P d (ht_index h (ht_size_exp (ht1 d))))"

definition dictFind ::
  "dict_resize \<Rightarrow> ('k, 'v) dictType \<Rightarrow> ('k, 'v) dict \<Rightarrow> 'k \<Rightarrow> (entry_ref option \<times> ('k, 'v) dict) option" where
  "dictFind dict_can_resize T d key =
     (if dictSize d = 0 then Some (None, d)
      else
        (let h = dictHashKey T key (useStoredKeyApi d);
             idx = ht_index h (ht_size_exp (ht0 d))
         in
         case rehash_on_access dict_can_resize T d idx of
           None \<Rightarrow> None
         | Some d \<Rightarrow> map_option (\<lambda>r. (r, d)) (search_tables (key_matches T (useStoredKeyApi d) key) d h idx)))"

text \<open>\<open>dictFetchValue\<close>: the value, \<open>NULL\<close> (\<open>Some None\<close>) when there is no entry.\<close>

definition dictFetchValue ::
  "dict_resize \<Rightarrow> ('k, 'v) dictType \<Rightarrow> ('k, 'v) dict \<Rightarrow> 'k \<Rightarrow> ('v option \<times> ('k, 'v) dict) option" where
  "dictFetchValue dict_can_resize T d key =
     (case dictFind dict_can_resize T d key of
        None \<Rightarrow> None
      | Some (None, d) \<Rightarrow> Some (None, d)
      | Some (Some r, d) \<Rightarrow> map_option (\<lambda>v. (v, d)) (dictGetVal (entry_at d r)))"

section \<open>Insertion\<close>

text \<open>The position is the bucket (\<open>Inl\<close>), or there is an entry with the key (\<open>Inr\<close>).\<close>

definition dictFindPositionForInsert ::
  "dict_resize \<Rightarrow> ('k, 'v) dictType \<Rightarrow> ('k, 'v) dict \<Rightarrow> 'k \<Rightarrow> (((bool \<times> nat) + entry_ref) \<times> ('k, 'v) dict) option" where
  "dictFindPositionForInsert dict_can_resize T d key =
     (let h = dictHashKey T key (useStoredKeyApi d);
          idx = ht_index h (ht_size_exp (ht0 d))
      in
      case rehash_on_access dict_can_resize T d idx of
        None \<Rightarrow> None
      | Some d \<Rightarrow>
          (case auto_dictExpandIfNeeded dict_can_resize T d of
             None \<Rightarrow> None
           | Some d \<Rightarrow>
               (case search_tables (key_matches T (useStoredKeyApi d) key) d h idx of
                  None \<Rightarrow> None
                | Some (Some existing) \<Rightarrow> Some (Inr existing, d)
                | Some None \<Rightarrow>
                    (let second = dictIsRehashing d
                     in Some (Inl (second, ht_index h (ht_size_exp (ht_of second d))), d)))))"

definition dictInsertAtPosition ::
  "('k, 'v) dictType \<Rightarrow> ('k, 'v) dict \<Rightarrow> 'k \<Rightarrow> bool \<times> nat \<Rightarrow> (entry_ref \<times> ('k, 'v) dict) option" where
  "dictInsertAtPosition T d key position =
     (let second = dictIsRehashing d; t = ht_of second d; idx = snd position in
      if fst position \<noteq> second \<or> idx > DICTHT_SIZE_MASK (ht_size_exp t) \<or> idx \<ge> length (ht_table t) then None
      else
        (let bucket = ht_table t ! idx;
             insert_entry = (\<lambda>chain. ((second, idx, 0),
               set_ht second (t\<lparr>ht_table := (ht_table t)[idx := chain], ht_used := ht_used t + 1\<rparr>) d))
         in
         if no_value T then
           (if keys_are_odd T \<and> bucket = [] then
              (if key_lsb T key then Some (insert_entry [Entry_key key]) else None)
            else Some (insert_entry (Entry_no_value key # bucket)))
         else Some (insert_entry (Entry key None # bucket))))"

text \<open>The result of \<open>dictAddRaw\<close> is the new entry (\<open>Inl\<close>) or the existing one (\<open>Inr\<close>).\<close>

definition dictAddRaw ::
  "dict_resize \<Rightarrow> ('k, 'v) dictType \<Rightarrow> ('k, 'v) dict \<Rightarrow> 'k \<Rightarrow> ((entry_ref + entry_ref) \<times> ('k, 'v) dict) option" where
  "dictAddRaw dict_can_resize T d key =
     (case dictFindPositionForInsert dict_can_resize T d key of
        None \<Rightarrow> None
      | Some (Inr existing, d) \<Rightarrow> Some (Inr existing, d)
      | Some (Inl position, d) \<Rightarrow>
          map_option (\<lambda>(r, d). (Inl r, d))
            (dictInsertAtPosition T d (case keyDup T of None \<Rightarrow> key | Some f \<Rightarrow> f key) position))"

definition set_entry :: "entry_ref \<Rightarrow> ('k, 'v) dict_entry \<Rightarrow> ('k, 'v) dict \<Rightarrow> ('k, 'v) dict" where
  "set_entry r e d =
     (case r of (second, idx, pos) \<Rightarrow>
        (let t = ht_of second d in
         set_ht second (t\<lparr>ht_table := (ht_table t)[idx := (ht_table t ! idx)[pos := e]]\<rparr>) d))"

definition set_val_at ::
  "('k, 'v) dictType \<Rightarrow> entry_ref \<Rightarrow> 'v \<Rightarrow> ('k, 'v) dict \<Rightarrow> ('k, 'v) dict option" where
  "set_val_at T r val d = map_option (\<lambda>e. set_entry r e d) (dictSetVal T (entry_at d r) val)"

definition dictAdd ::
  "dict_resize \<Rightarrow> ('k, 'v) dictType \<Rightarrow> ('k, 'v) dict \<Rightarrow> 'k \<Rightarrow> 'v \<Rightarrow> (dict_result \<times> ('k, 'v) dict) option" where
  "dictAdd dict_can_resize T d key val =
     (case dictAddRaw dict_can_resize T d key of
        None \<Rightarrow> None
      | Some (Inr _, d) \<Rightarrow> Some (DICT_ERR, d)
      | Some (Inl r, d) \<Rightarrow>
          map_option (\<lambda>d. (DICT_OK, d)) (if no_value T then Some d else set_val_at T r val d))"

text \<open>\<open>dictReplace\<close> returns 1 when the key is new.\<close>

definition dictReplace ::
  "dict_resize \<Rightarrow> ('k, 'v) dictType \<Rightarrow> ('k, 'v) dict \<Rightarrow> 'k \<Rightarrow> 'v \<Rightarrow> (bool \<times> ('k, 'v) dict) option" where
  "dictReplace dict_can_resize T d key val =
     (case dictAddRaw dict_can_resize T d key of
        None \<Rightarrow> None
      | Some (Inl r, d) \<Rightarrow> map_option (\<lambda>d. (True, d)) (set_val_at T r val d)
      | Some (Inr r, d) \<Rightarrow>
          (case dictGetVal (entry_at d r) of
             None \<Rightarrow> None
           | Some oldval \<Rightarrow>
               map_option (\<lambda>d. (False, if valDestructor T then dict_call (Free_val oldval) d else d))
                 (set_val_at T r val d)))"

definition dictAddOrFind ::
  "dict_resize \<Rightarrow> ('k, 'v) dictType \<Rightarrow> ('k, 'v) dict \<Rightarrow> 'k \<Rightarrow> (entry_ref \<times> ('k, 'v) dict) option" where
  "dictAddOrFind dict_can_resize T d key =
     map_option (\<lambda>(r, d). (case r of Inl r \<Rightarrow> r | Inr r \<Rightarrow> r, d)) (dictAddRaw dict_can_resize T d key)"

section \<open>Removal\<close>

text \<open>Unlinking an entry: the pointer in front of it is set to the next entry.\<close>

definition unlink_entry :: "entry_ref \<Rightarrow> ('k, 'v) dict \<Rightarrow> ('k, 'v) dict" where
  "unlink_entry r d =
     (case r of (second, idx, pos) \<Rightarrow>
        (let t = ht_of second d; chain = ht_table t ! idx in
         set_ht second (t\<lparr>ht_table := (ht_table t)[idx := take pos chain @ drop (Suc pos) chain]\<rparr>) d))"

definition count_down :: "bool \<Rightarrow> ('k, 'v) dict \<Rightarrow> ('k, 'v) dict" where
  "count_down second d = (let t = ht_of second d in set_ht second (t\<lparr>ht_used := ht_used t - 1\<rparr>) d)"

definition dictGenericDelete ::
  "dict_resize \<Rightarrow> ('k, 'v) dictType \<Rightarrow> bool \<Rightarrow> ('k, 'v) dict \<Rightarrow> 'k \<Rightarrow>
     (('k, 'v) dict_entry option \<times> ('k, 'v) dict) option" where
  "dictGenericDelete dict_can_resize T nofree d key =
     (if dictSize d = 0 then Some (None, d)
      else
        (let h = dictHashKey T key (useStoredKeyApi d);
             idx = ht_index h (ht_size_exp (ht0 d))
         in
         case rehash_on_access dict_can_resize T d idx of
           None \<Rightarrow> None
         | Some d \<Rightarrow>
             (case search_tables (key_matches T (useStoredKeyApi d) key) d h idx of
                None \<Rightarrow> None
              | Some None \<Rightarrow> Some (None, d)
              | Some (Some r) \<Rightarrow>
                  (let he = entry_at d r; d = unlink_entry r d in
                   case (if nofree then Some d else free_entry T he d) of
                     None \<Rightarrow> None
                   | Some d \<Rightarrow>
                       map_option (\<lambda>d. (Some he, d)) (auto_dictShrinkIfNeeded dict_can_resize T (count_down (fst r) d))))))"

definition dictDelete ::
  "dict_resize \<Rightarrow> ('k, 'v) dictType \<Rightarrow> ('k, 'v) dict \<Rightarrow> 'k \<Rightarrow> (dict_result \<times> ('k, 'v) dict) option" where
  "dictDelete dict_can_resize T d key =
     map_option (\<lambda>(he, d). (if he = None then DICT_ERR else DICT_OK, d)) (dictGenericDelete dict_can_resize T False d key)"

definition dictUnlink ::
  "dict_resize \<Rightarrow> ('k, 'v) dictType \<Rightarrow> ('k, 'v) dict \<Rightarrow> 'k \<Rightarrow> (('k, 'v) dict_entry option \<times> ('k, 'v) dict) option" where
  "dictUnlink dict_can_resize T d key = dictGenericDelete dict_can_resize T True d key"

definition dictFreeUnlinkedEntry ::
  "('k, 'v) dictType \<Rightarrow> ('k, 'v) dict \<Rightarrow> ('k, 'v) dict_entry option \<Rightarrow> ('k, 'v) dict option" where
  "dictFreeUnlinkedEntry T d he = (case he of None \<Rightarrow> Some d | Some he \<Rightarrow> free_entry T he d)"

text \<open>Removal in two phases, between which rehashing is paused. The reference stands for \<open>plink\<close>.\<close>

definition dictTwoPhaseUnlinkFind ::
  "dict_resize \<Rightarrow> ('k, 'v) dictType \<Rightarrow> ('k, 'v) dict \<Rightarrow> 'k \<Rightarrow> (entry_ref option \<times> ('k, 'v) dict) option" where
  "dictTwoPhaseUnlinkFind dict_can_resize T d key =
     (if dictSize d = 0 then Some (None, d)
      else
        (case (if dictIsRehashing d then dictRehashStep dict_can_resize T d else Some d) of
           None \<Rightarrow> None
         | Some d \<Rightarrow>
             (let h = dictHashKey T key (useStoredKeyApi d) in
              map_option (\<lambda>r. (r, if r = None then d else d\<lparr>pauserehash := pauserehash d + 1\<rparr>))
                (search_tables (key_matches T (useStoredKeyApi d) key) d h (ht_index h (ht_size_exp (ht0 d)))))))"

definition dictTwoPhaseUnlinkFree ::
  "dict_resize \<Rightarrow> ('k, 'v) dictType \<Rightarrow> ('k, 'v) dict \<Rightarrow> entry_ref option \<Rightarrow> ('k, 'v) dict option" where
  "dictTwoPhaseUnlinkFree dict_can_resize T d r =
     (case r of
        None \<Rightarrow> Some d
      | Some r \<Rightarrow>
          (let he = entry_at d r in
           case free_entry T he (unlink_entry r (count_down (fst r) d)) of
             None \<Rightarrow> None
           | Some d \<Rightarrow>
               map_option (\<lambda>d. d\<lparr>pauserehash := pauserehash d - 1\<rparr>) (auto_dictShrinkIfNeeded dict_can_resize T d)))"

text \<open>Releasing all entries of a table; the loop stops when none is left.\<close>

fun free_chain :: "('k, 'v) dictType \<Rightarrow> ('k, 'v) dict_entry list \<Rightarrow> ('k, 'v) dict \<Rightarrow> ('k, 'v) dict option" where
  "free_chain T [] d = Some d"
| "free_chain T (he # nextHe) d = (case free_entry T he d of None \<Rightarrow> None | Some d \<Rightarrow> free_chain T nextHe d)"

fun clear_loop ::
  "('k, 'v) dictType \<Rightarrow> ('k, 'v) dict_entry list list \<Rightarrow> nat \<Rightarrow> ('k, 'v) dict \<Rightarrow> ('k, 'v) dict option" where
  "clear_loop T [] used d = Some d"
| "clear_loop T (b # bs) used d =
     (if used = 0 then Some d
      else (case free_chain T b d of None \<Rightarrow> None | Some d \<Rightarrow> clear_loop T bs (used - length b) d))"

definition dictClear :: "('k, 'v) dictType \<Rightarrow> bool \<Rightarrow> ('k, 'v) dict \<Rightarrow> ('k, 'v) dict option" where
  "dictClear T second d =
     map_option (set_ht second dictReset) (clear_loop T (ht_table (ht_of second d)) (ht_used (ht_of second d)) d)"

definition dictEmpty :: "('k, 'v) dictType \<Rightarrow> ('k, 'v) dict \<Rightarrow> ('k, 'v) dict option" where
  "dictEmpty T d =
     (let d = (if dictIsRehashing d then dict_call Rehashing_completed d else d);
          d = dict_call (Bucket_changed (- int (dictBuckets d))) d
      in
      case dictClear T False d of
        None \<Rightarrow> None
      | Some d \<Rightarrow>
          map_option (\<lambda>d. d\<lparr>rehashidx := -1, pauserehash := 0, pauseAutoResize := 0\<rparr>) (dictClear T True d))"

section \<open>Scanning\<close>

text \<open>\<open>rev\<close> reverses the 32 bits of an \<open>unsigned long\<close>; \<open>s\<close> is halved until it is 0.\<close>

fun rev_loop :: "nat \<Rightarrow> 32 word \<Rightarrow> 32 word \<Rightarrow> 32 word" where
  "rev_loop s m v =
     (if s div 2 = 0 then v
      else
        (let s = s div 2; m = m XOR push_bit s m
         in rev_loop s m ((drop_bit s v AND m) OR (push_bit s v AND NOT m))))"

declare rev_loop.simps [simp del]

definition rev_bits :: "32 word \<Rightarrow> 32 word" where
  "rev_bits v = rev_loop 32 (NOT 0) v"

definition scan_mask :: "int \<Rightarrow> 32 word" where
  "scan_mask e = of_nat (DICTHT_SIZE_MASK e)"

text \<open>\<open>v |= ~m; v = rev(v); v++; v = rev(v)\<close>.\<close>

definition next_cursor :: "32 word \<Rightarrow> 32 word \<Rightarrow> 32 word" where
  "next_cursor m v = rev_bits (rev_bits (v OR NOT m) + 1)"

text \<open>The entries that are handed to the callback are collected in the order of the calls.\<close>

definition scan_bucket :: "('k, 'v) ht \<Rightarrow> 32 word \<Rightarrow> ('k, 'v) dict_entry list option" where
  "scan_bucket t v =
     (let i = unat (v AND scan_mask (ht_size_exp t)) in
      if i < length (ht_table t) then Some (ht_table t ! i) else None)"

partial_function (option) scan_larger ::
  "('k, 'v) ht \<Rightarrow> 32 word \<Rightarrow> 32 word \<Rightarrow> ('k, 'v) dict_entry list \<Rightarrow> (32 word \<times> ('k, 'v) dict_entry list) option" where
  "scan_larger t m0 v emitted =
     (case scan_bucket t v of
        None \<Rightarrow> None
      | Some es \<Rightarrow>
          (let m1 = scan_mask (ht_size_exp t); v = next_cursor m1 v in
           if v AND (m0 XOR m1) = 0 then Some (v, emitted @ es) else scan_larger t m0 v (emitted @ es)))"

text \<open>
  \<open>dictScanDefrag\<close> without reallocation functions, as \<open>dictScan\<close> calls it. Rehashing is paused while the
  callback runs, and resumed at the end.
\<close>

definition dictScan ::
  "('k, 'v) dict \<Rightarrow> 32 word \<Rightarrow> (32 word \<times> ('k, 'v) dict_entry list) option" where
  "dictScan d v =
     (if dictSize d = 0 then Some (0, [])
      else if \<not> dictIsRehashing d then
        map_option (\<lambda>es. (next_cursor (scan_mask (ht_size_exp (ht0 d))) v, es)) (scan_bucket (ht0 d) v)
      else
        (let swapped = DICTHT_SIZE (ht_size_exp (ht0 d)) > DICTHT_SIZE (ht_size_exp (ht1 d));
             small = (if swapped then ht1 d else ht0 d);
             larger = (if swapped then ht0 d else ht1 d)
         in
         case scan_bucket small v of
           None \<Rightarrow> None
         | Some es \<Rightarrow> scan_larger larger (scan_mask (ht_size_exp small)) v es))"

end
