(* ===== verification/Redis_Dict_Inv.thy ===== *)
theory Redis_Dict_Inv
  imports Redis_Dict "HOL-Library.Multiset"
begin

text \<open>
  The invariant of the hash tables of \<open>dict.c\<close>, and that resizing and incremental rehashing keep it and
  the entries. The contract of a \<open>dictType\<close> is the locale \<open>dict_type\<close>. The entries are compared as multisets of keys
  and values, since rehashing changes their order and their representation.
\<close>

section \<open>Sizes and indices\<close>

lemma bit_width_less: "n < 2 ^ bit_width n"
proof (induction n rule: less_induct)
  case (less n)
  show ?case
  proof (cases "n = 0")
    case False
    then have "n div 2 < 2 ^ bit_width (n div 2)" using less by simp
    then show ?thesis using False by (subst bit_width.simps) simp
  qed (simp add: bit_width.simps)
qed

lemma bit_width_bound: "n < 2 ^ m \<Longrightarrow> bit_width n \<le> m"
proof (induction m arbitrary: n)
  case (Suc m)
  show ?case
  proof (cases "n = 0")
    case False
    have "bit_width (n div 2) \<le> m" using Suc by simp
    then show ?thesis using False by (subst bit_width.simps) simp
  qed (simp add: bit_width.simps)
qed (simp add: bit_width.simps)

lemma bit_width_mono2: "4 \<le> n \<Longrightarrow> 2 \<le> bit_width n"
  by (subst bit_width.simps, subst bit_width.simps) simp

lemma dictNextExp_range: "2 \<le> dictNextExp sz" "dictNextExp sz \<le> 31"
proof -
  have "bit_width (sz - 1) \<le> 31" if "sz < 2 ^ 31 - 1"
    using bit_width_bound [of "sz - 1" 31] that by simp
  moreover have "2 \<le> bit_width (sz - 1)" if "4 < sz" using that bit_width_mono2 [of "sz - 1"] by simp
  ultimately show "2 \<le> dictNextExp sz" "dictNextExp sz \<le> 31"
    by (auto simp: dictNextExp_def builtin_clzl_def)
qed

lemma ulong_small: "n < 2 ^ 32 \<Longrightarrow> ulong n = n"
  by (simp add: ulong_def)

lemma DICTHT_SIZE_pow [simp]: "0 \<le> e \<Longrightarrow> DICTHT_SIZE e = 2 ^ nat e"
  by (simp add: DICTHT_SIZE_def)

lemma table_size_small:
  assumes "2 \<le> e" "e \<le> 31" "\<not> ulong (DICTHT_SIZE e * 4) < DICTHT_SIZE e"
  shows "e \<le> 29"
proof (rule ccontr)
  assume "\<not> e \<le> 29"
  then have "e = 30 \<or> e = 31" using assms by auto
  then show False using assms(3) by (auto simp: ulong_def DICTHT_SIZE_def)
qed

lemma ht_index_mod:
  assumes "0 \<le> e" "e \<le> 29"
  shows "ht_index h e = unat h mod 2 ^ nat e"
proof -
  have m: "word_of_nat (2 ^ nat e - 1) = (mask (nat e) :: 64 word)"
    by (simp add: mask_eq_exp_minus_1 of_nat_diff)
  have "ht_index h e = unat (h AND word_of_nat (2 ^ nat e - 1))"
    using assms by (simp add: ht_index_def DICTHT_SIZE_MASK_def)
  also have "\<dots> = unat (h AND mask (nat e))" unfolding m ..
  also have "\<dots> = take_bit (nat e) (unat h)"
    by (simp add: take_bit_eq_mask [symmetric] unsigned_take_bit_eq)
  finally show ?thesis by (simp add: take_bit_eq_mod)
qed

lemma ht_index_less: "0 \<le> e \<Longrightarrow> e \<le> 29 \<Longrightarrow> ht_index h e < 2 ^ nat e"
  by (simp add: ht_index_mod)

text \<open>Shrinking: the bucket in the smaller table is found from the bucket in the larger one.\<close>

lemma ht_index_shrink:
  assumes "0 \<le> e1" "e1 \<le> e0" "e0 \<le> 29"
  shows "ht_index (of_nat (ht_index h e0)) e1 = ht_index h e1"
proof -
  have "ht_index h e0 < 2 ^ nat e0" using ht_index_less assms by simp
  also have "\<dots> \<le> 2 ^ 29" using assms by (intro power_increasing) auto
  finally have "ht_index h e0 < 2 ^ 29" .
  then have "unat (word_of_nat (ht_index h e0) :: 64 word) = ht_index h e0"
    by (simp add: unat_of_nat)
  moreover have "nat e1 \<le> nat e0" using assms by simp
  ultimately show ?thesis
    using assms by (simp add: ht_index_mod mod_mod_cancel le_imp_power_dvd)
qed

section \<open>The contract of a type and the invariant\<close>

text \<open>
  What a \<open>dictType\<close> promises: keys have a content, which the hash and comparison functions of either
  interface see (\<open>form u k\<close>: key \<open>k\<close> may be passed with \<open>useStoredKeyApi = u\<close>; stored keys have \<open>form True\<close>),
  duplicates have the same content, a type without values releases none, and
  \<open>keys_are_odd\<close> is set for odd key pointers only.
\<close>

definition dict_type_ok ::
  "('k, 'v) dictType \<Rightarrow> ('k \<Rightarrow> 'c) \<Rightarrow> ('c \<Rightarrow> 64 word) \<Rightarrow> (bool \<Rightarrow> 'k \<Rightarrow> bool) \<Rightarrow> bool" where
  "dict_type_ok T cont H form \<longleftrightarrow>
     (\<forall>u k. form u k \<longrightarrow> dictHashKey T k u = H (cont k)) \<and>
     (\<forall>u k s. form u k \<longrightarrow> form True s \<longrightarrow> dictGetKeyCmpFunc T u k s = (cont k = cont s)) \<and>
     (case keyDup T of None \<Rightarrow> True | Some f \<Rightarrow> \<forall>u k. form u k \<longrightarrow> form True (f k) \<and> cont (f k) = cont k) \<and>
     (no_value T \<longrightarrow> \<not> valDestructor T) \<and>
     (no_value T \<and> keys_are_odd T \<longrightarrow> (\<forall>k. form True k \<longrightarrow> key_lsb T k))"

fun entry_val :: "('k, 'v) dict_entry \<Rightarrow> 'v option" where
  "entry_val (Entry k v) = v"
| "entry_val e = None"

definition entry_item :: "('k, 'v) dict_entry \<Rightarrow> 'k \<times> 'v option" where
  "entry_item e = (dictGetKey e, entry_val e)"

definition items_of :: "('k, 'v) dict_entry list \<Rightarrow> ('k \<times> 'v option) multiset" where
  "items_of es = mset (map entry_item es)"

definition ht_items :: "('k, 'v) ht \<Rightarrow> ('k \<times> 'v option) multiset" where
  "ht_items t = items_of (concat (ht_table t))"

definition dict_items :: "('k, 'v) dict \<Rightarrow> ('k \<times> 'v option) multiset" where
  "dict_items d = ht_items (ht0 d) + ht_items (ht1 d)"

text \<open>The kinds of entries that a type has; a bare key is the last of its chain.\<close>

fun entry_kind_ok :: "('k, 'v) dictType \<Rightarrow> ('k, 'v) dict_entry \<Rightarrow> bool" where
  "entry_kind_ok T (Entry k v) \<longleftrightarrow> \<not> no_value T"
| "entry_kind_ok T (Entry_no_value k) \<longleftrightarrow> no_value T"
| "entry_kind_ok T (Entry_key k) \<longleftrightarrow> no_value T \<and> keys_are_odd T"

definition chain_ok :: "('k, 'v) dictType \<Rightarrow> (bool \<Rightarrow> 'k \<Rightarrow> bool) \<Rightarrow> ('k, 'v) dict_entry list \<Rightarrow> bool" where
  "chain_ok T form es \<longleftrightarrow>
     list_all (\<lambda>e. entry_kind_ok T e \<and> form True (dictGetKey e)) es \<and> list_all (\<lambda>e. \<not> entryIsKey e) (butlast es)"

definition in_bucket :: "('k \<Rightarrow> 'c) \<Rightarrow> ('c \<Rightarrow> 64 word) \<Rightarrow> int \<Rightarrow> nat \<Rightarrow> ('k, 'v) dict_entry list \<Rightarrow> bool" where
  "in_bucket cont H e i es \<longleftrightarrow> list_all (\<lambda>he. ht_index (H (cont (dictGetKey he))) e = i) es"

definition table_ok ::
  "('k, 'v) dictType \<Rightarrow> ('k \<Rightarrow> 'c) \<Rightarrow> ('c \<Rightarrow> 64 word) \<Rightarrow> (bool \<Rightarrow> 'k \<Rightarrow> bool) \<Rightarrow> ('k, 'v) ht \<Rightarrow> bool" where
  "table_ok T cont H form t \<longleftrightarrow>
     (ht_size_exp t = -1 \<and> ht_table t = [] \<or>
      2 \<le> ht_size_exp t \<and> ht_size_exp t \<le> 29 \<and> length (ht_table t) = 2 ^ nat (ht_size_exp t)) \<and>
     ht_used t = length (concat (ht_table t)) \<and>
     (\<forall>i<length (ht_table t). chain_ok T form (ht_table t ! i) \<and> in_bucket cont H (ht_size_exp t) i (ht_table t ! i))"

text \<open>
  While rehashing, the buckets below \<open>rehashidx\<close> are empty. No two entries have the same content, in both tables
  together. The owner was told the right number of buckets.
\<close>

fun buckets_reported :: "('k, 'v) dict_call list \<Rightarrow> int" where
  "buckets_reported [] = 0"
| "buckets_reported (Bucket_changed n # cs) = n + buckets_reported cs"
| "buckets_reported (_ # cs) = buckets_reported cs"

definition dict_ok ::
  "('k, 'v) dictType \<Rightarrow> ('k \<Rightarrow> 'c) \<Rightarrow> ('c \<Rightarrow> 64 word) \<Rightarrow> (bool \<Rightarrow> 'k \<Rightarrow> bool) \<Rightarrow> ('k, 'v) dict \<Rightarrow> bool" where
  "dict_ok T cont H form d \<longleftrightarrow>
     table_ok T cont H form (ht0 d) \<and> table_ok T cont H form (ht1 d) \<and>
     (if rehashidx d = -1 then ht1 d = dictReset
      else 0 \<le> rehashidx d \<and> rehashidx d \<le> int (length (ht_table (ht0 d))) \<and>
           ht_size_exp (ht0 d) \<noteq> -1 \<and> ht_size_exp (ht1 d) \<noteq> -1 \<and> ht_size_exp (ht0 d) \<noteq> ht_size_exp (ht1 d) \<and>
           (\<forall>i<nat (rehashidx d). ht_table (ht0 d) ! i = [])) \<and>
     (\<forall>c. count (image_mset (cont \<circ> fst) (dict_items d)) c \<le> 1) \<and>
     buckets_reported (dict_calls d) = int (dictBuckets d)"

section \<open>Buckets\<close>

lemma mset_concat_update:
  assumes "i < length xs"
  shows "mset (concat (xs[i := ys])) + mset (xs ! i) = mset (concat xs) + mset ys"
proof -
  have "mset (concat xs) = mset (concat (take i xs)) + mset (xs ! i) + mset (concat (drop (Suc i) xs))"
    using arg_cong [OF id_take_nth_drop [OF assms], of "\<lambda>zs. mset (concat zs)"] by simp
  then show ?thesis using assms by (simp add: upd_conv_take_nth_drop)
qed

lemma items_of_simps [simp]:
  "items_of [] = {#}" "items_of (e # es) = add_mset (entry_item e) (items_of es)"
  "items_of (es @ fs) = items_of es + items_of fs"
  by (simp_all add: items_of_def)

lemma ht_items_update:
  assumes "i < length (ht_table t)"
  shows "items_of (concat ((ht_table t)[i := es])) + items_of (ht_table t ! i) = ht_items t + items_of es"
  using arg_cong [OF mset_concat_update [OF assms, of es], of "image_mset entry_item"]
  by (simp add: items_of_def ht_items_def)

lemma length_concat_update:
  assumes "i < length xs"
  shows "length (concat (xs[i := ys])) + length (xs ! i) = length (concat xs) + length ys"
  using arg_cong [OF mset_concat_update [OF assms, of ys], of "size"] by simp

lemma table_ok_update:
  assumes t: "table_ok T cont H form t" and i: "i < length (ht_table t)"
    and es: "chain_ok T form es" "in_bucket cont H (ht_size_exp t) i es"
    and n: "n + length (ht_table t ! i) = ht_used t + length es"
  shows "table_ok T cont H form (t\<lparr>ht_table := (ht_table t)[i := es], ht_used := n\<rparr>)"
proof -
  have "n = length (concat ((ht_table t)[i := es]))"
    using length_concat_update [OF i, of es] n t by (simp add: table_ok_def)
  then show ?thesis using t i es by (auto simp: table_ok_def nth_list_update)
qed

lemma table_ok_bucket:
  assumes "table_ok T cont H form t" "i < length (ht_table t)"
  shows "chain_ok T form (ht_table t ! i)" "in_bucket cont H (ht_size_exp t) i (ht_table t ! i)"
  using assms by (auto simp: table_ok_def)

lemma table_ok_reset [simp]: "table_ok T cont H form dictReset"
  by (simp add: table_ok_def dictReset_def)

lemma dictReset_simps [simp]:
  "ht_table dictReset = []" "ht_used dictReset = 0" "ht_size_exp dictReset = -1" "DICTHT_SIZE (-1) = 0"
  by (simp_all add: dictReset_def DICTHT_SIZE_def)

lemma ht_items_reset [simp]: "ht_items dictReset = {#}"
  by (simp add: ht_items_def dictReset_def)

lemma concat_replicate_Nil [simp]: "concat (replicate n []) = []"
  by (induction n) auto

lemma table_ok_new:
  assumes "2 \<le> e" "e \<le> 29"
  shows "table_ok T cont H form \<lparr>ht_table = replicate (2 ^ nat e) [], ht_used = 0, ht_size_exp = e\<rparr>"
  using assms by (simp add: table_ok_def chain_ok_def in_bucket_def)

lemma table_ok_used: "table_ok T cont H form t \<Longrightarrow> ht_used t = length (concat (ht_table t))"
  by (simp only: table_ok_def)

lemma table_ok_empty:
  assumes "table_ok T cont H form t" "ht_used t = 0"
  shows "concat (ht_table t) = []" "ht_items t = {#}"
proof -
  have "length (concat (ht_table t)) = 0" using assms by (simp only: table_ok_def)
  then show "concat (ht_table t) = []" by (simp only: length_0_conv)
  then show "ht_items t = {#}" by (simp only: ht_items_def items_of_simps)
qed

lemma table_ok_index:
  assumes "table_ok T cont H form t" "ht_size_exp t \<noteq> -1"
  shows "ht_index h (ht_size_exp t) < length (ht_table t)"
  using assms ht_index_less [of "ht_size_exp t" h] by (auto simp: table_ok_def)

lemma table_ok_size: "table_ok T cont H form t \<Longrightarrow> DICTHT_SIZE (ht_size_exp t) = length (ht_table t)"
  by (auto simp: table_ok_def DICTHT_SIZE_def)

lemma table_ok_null: "table_ok T cont H form t \<Longrightarrow> ht_size_exp t = -1 \<longleftrightarrow> ht_table t = []"
  by (auto simp: table_ok_def)

lemma buckets_reported_append [simp]:
  "buckets_reported (cs @ ds) = buckets_reported cs + buckets_reported ds"
  by (induction cs rule: buckets_reported.induct) auto

lemma dict_call_simps [simp]:
  "ht0 (dict_call x d) = ht0 d" "ht1 (dict_call x d) = ht1 d" "rehashidx (dict_call x d) = rehashidx d"
  "pauserehash (dict_call x d) = pauserehash d" "useStoredKeyApi (dict_call x d) = useStoredKeyApi d"
  "pauseAutoResize (dict_call x d) = pauseAutoResize d" "dict_calls (dict_call x d) = dict_calls d @ [x]"
  by (simp_all add: dict_call_def)

text \<open>What resizing and rehashing keep: the invariant, the entries and the flags.\<close>

definition dict_kept ::
  "('k, 'v) dictType \<Rightarrow> ('k \<Rightarrow> 'c) \<Rightarrow> ('c \<Rightarrow> 64 word) \<Rightarrow> (bool \<Rightarrow> 'k \<Rightarrow> bool) \<Rightarrow> ('k, 'v) dict \<Rightarrow> ('k, 'v) dict \<Rightarrow> bool" where
  "dict_kept T cont H form d d' \<longleftrightarrow>
     dict_ok T cont H form d' \<and> dict_items d' = dict_items d \<and> pauserehash d' = pauserehash d \<and>
     useStoredKeyApi d' = useStoredKeyApi d \<and> pauseAutoResize d' = pauseAutoResize d \<and>
     (ht_size_exp (ht0 d) \<noteq> -1 \<longrightarrow> ht_size_exp (ht0 d') \<noteq> -1)"

lemma dict_kept_refl: "dict_ok T cont H form d \<Longrightarrow> dict_kept T cont H form d d"
  by (simp add: dict_kept_def)

lemma dict_kept_trans:
  "dict_kept T cont H form d d' \<Longrightarrow> dict_kept T cont H form d' d'' \<Longrightarrow> dict_kept T cont H form d d''"
  by (simp add: dict_kept_def)

lemma dict_okD:
  assumes "dict_ok T cont H form d"
  shows "table_ok T cont H form (ht0 d)" "table_ok T cont H form (ht1 d)"
  using assms by (auto simp: dict_ok_def)

section \<open>Resizing\<close>

lemma dictResize_ok:
  assumes d: "dict_ok T cont H form d" and n: "\<not> dictIsRehashing d"
  shows "\<exists>r f d'. dictResize alloc d sz = Some (r, f, d') \<and> dict_kept T cont H form d d' \<and> rehashidx d' \<in> {-1, 0} \<and>
           (sz = 4 \<longrightarrow> alloc \<longrightarrow> ht_size_exp (ht0 d') \<noteq> -1)"
proof -
  let ?e = "dictNextExp sz"
  let ?new = "\<lparr>ht_table = replicate (2 ^ nat ?e) [], ht_used = 0, ht_size_exp = ?e\<rparr>"
  have e: "2 \<le> ?e" "?e \<le> 31" by (rule dictNextExp_range)+
  have r: "rehashidx d = -1" "ht1 d = dictReset" using d n by (auto simp: dict_ok_def dictIsRehashing_def)
  have e4: "sz = 4 \<Longrightarrow> ?e = 2" by (simp add: dictNextExp_def)
  have c: "\<forall>c. count (image_mset (cont \<circ> fst) (dict_items d)) c \<le> 1"
    and b: "buckets_reported (dict_calls d) = int (dictBuckets d)" using d by (auto simp: dict_ok_def)
  show ?thesis
  proof (cases "DICTHT_SIZE ?e < sz \<or> ulong (DICTHT_SIZE ?e * 4) < DICTHT_SIZE ?e \<or> ?e = ht_size_exp (ht0 d) \<or> \<not> alloc")
    case True
    then show ?thesis
      using n r e e4 dict_kept_refl [OF d]
      by (auto simp: dictResize_def Let_def ulong_def simp del: DICTHT_SIZE_pow) (auto simp: DICTHT_SIZE_def)
  next
    case False
    then have e29: "?e \<le> 29" using table_size_small [OF e] by simp
    have new: "table_ok T cont H form ?new" using table_ok_new e(1) e29 .
    have items: "ht_items ?new = {#}" by (simp add: ht_items_def)
    show ?thesis
    proof (cases "ht_table (ht0 d) = [] \<or> ht_used (ht0 d) = 0")
      case True
      then have "ht_items (ht0 d) = {#}"
        using table_ok_empty [OF dict_okD(1) [OF d]] by (auto simp: ht_items_def)
      then show ?thesis
        using False True n r e new items b
        by (auto simp: dictResize_def Let_def dict_kept_def dict_ok_def dict_items_def dictBuckets_def)
    next
      case nonempty: False
      then have "ht_size_exp (ht0 d) \<noteq> -1" using table_ok_null [OF dict_okD(1) [OF d]] by simp
      then show ?thesis
        using False nonempty n r e new items b c dict_okD(1) [OF d]
        by (auto simp: dictResize_def Let_def dict_kept_def dict_ok_def dict_items_def dictBuckets_def)
    qed
  qed
qed

lemma dictExpand_gen_ok:
  assumes d: "dict_ok T cont H form d"
  shows "\<exists>r f d'. dictExpand_gen alloc d sz = Some (r, f, d') \<and> dict_kept T cont H form d d' \<and>
           (d' = d \<or> rehashidx d' \<in> {-1, 0}) \<and>
           (sz = 4 \<longrightarrow> alloc \<longrightarrow> \<not> dictIsRehashing d \<longrightarrow> ht_size_exp (ht0 d) = -1 \<longrightarrow> ht_size_exp (ht0 d') \<noteq> -1)"
proof (cases "dictIsRehashing d \<or> ht_used (ht0 d) > sz \<or> DICTHT_SIZE (ht_size_exp (ht0 d)) \<ge> sz")
  case True
  moreover have "ht_size_exp (ht0 d) = -1 \<Longrightarrow> ht_used (ht0 d) = 0" using dict_okD(1) [OF d] by (auto simp: table_ok_def)
  ultimately show ?thesis using dict_kept_refl [OF d] by (auto simp: dictExpand_gen_def)
next
  case False
  then show ?thesis using dictResize_ok [OF d, of alloc sz] by (auto simp: dictExpand_gen_def)
qed

lemma dictExpand_ok:
  assumes d: "dict_ok T cont H form d"
  shows "\<exists>r d'. dictExpand d sz = Some (r, d') \<and> dict_kept T cont H form d d' \<and> (d' = d \<or> rehashidx d' \<in> {-1, 0}) \<and>
           (sz = 4 \<longrightarrow> \<not> dictIsRehashing d \<longrightarrow> ht_size_exp (ht0 d) = -1 \<longrightarrow> ht_size_exp (ht0 d') \<noteq> -1)"
  using dictExpand_gen_ok [OF d, of True sz] by (auto simp: dictExpand_def)

lemma dictShrink_ok:
  assumes d: "dict_ok T cont H form d"
  shows "\<exists>r d'. dictShrink d sz = Some (r, d') \<and> dict_kept T cont H form d d'"
  using dictResize_ok [OF d, of True sz] dict_kept_refl [OF d] by (auto simp: dictShrink_def)

lemma auto_expand_ok:
  assumes d: "dict_ok T cont H form d"
  shows "\<exists>d'. auto_dictExpandIfNeeded R T d = Some d' \<and> dict_kept T cont H form d d' \<and>
           (d' = d \<or> rehashidx d' \<in> {-1, 0}) \<and> (pauseAutoResize d \<le> 0 \<longrightarrow> ht_size_exp (ht0 d') \<noteq> -1)"
proof (cases "pauseAutoResize d > 0 \<or> dictIsRehashing d")
  case True
  moreover have "ht_size_exp (ht0 d) \<noteq> -1" if "dictIsRehashing d"
    using d that by (auto simp: dict_ok_def dictIsRehashing_def)
  ultimately show ?thesis
    using dict_kept_refl [OF d] by (auto simp: auto_dictExpandIfNeeded_def dictExpandIfNeeded_def)
next
  case False
  have null: "DICTHT_SIZE (ht_size_exp (ht0 d)) = 0 \<longleftrightarrow> ht_size_exp (ht0 d) = -1"
    by (auto simp: DICTHT_SIZE_def)
  obtain r4 d4 r1 d1
    where d4: "dictExpand d 4 = Some (r4, d4)" "dict_kept T cont H form d d4" "d4 = d \<or> rehashidx d4 \<in> {-1, 0}"
        "ht_size_exp (ht0 d) = -1 \<longrightarrow> ht_size_exp (ht0 d4) \<noteq> -1"
      and d1: "dictExpand d (ulong (ht_used (ht0 d) + 1)) = Some (r1, d1)" "dict_kept T cont H form d d1"
        "d1 = d \<or> rehashidx d1 \<in> {-1, 0}"
    using dictExpand_ok [OF d, of 4] dictExpand_ok [OF d, of "ulong (ht_used (ht0 d) + 1)"] False by blast
  show ?thesis
  proof (cases "ht_size_exp (ht0 d) = -1")
    case True
    then show ?thesis
      using False d4 by (simp add: auto_dictExpandIfNeeded_def dictExpandIfNeeded_def)
  next
    case exp: False
    then show ?thesis
      using False d1 null dict_kept_refl [OF d]
      by (simp add: auto_dictExpandIfNeeded_def dictExpandIfNeeded_def) (simp add: dict_kept_def)
  qed
qed

lemma auto_shrink_ok:
  assumes d: "dict_ok T cont H form d"
  shows "\<exists>d'. auto_dictShrinkIfNeeded R T d = Some d' \<and> dict_kept T cont H form d d'"
  using dictShrink_ok [OF d, of "ht_used (ht0 d)"] dict_kept_refl [OF d]
  by (auto simp: auto_dictShrinkIfNeeded_def dictShrinkIfNeeded_def)

section \<open>Rehashing\<close>

lemma chain_ok_Cons:
  "chain_ok T form (e # es) \<longleftrightarrow>
     entry_kind_ok T e \<and> form True (dictGetKey e) \<and> (es \<noteq> [] \<longrightarrow> \<not> entryIsKey e) \<and> chain_ok T form es"
  by (auto simp: chain_ok_def)

lemma in_bucket_Cons [simp]:
  "in_bucket cont H x i (e # es) \<longleftrightarrow> ht_index (H (cont (dictGetKey e))) x = i \<and> in_bucket cont H x i es"
  by (simp add: in_bucket_def)

lemma chain_ok_Nil [simp]: "chain_ok T form []" "in_bucket cont H x i []"
  by (simp_all add: chain_ok_def in_bucket_def)

lemma nth_update_Nil: "xs ! j = [] \<Longrightarrow> xs[i := []] ! j = []"
  by (cases "i = j"; cases "j < length xs") (auto simp: list_update_beyond)

lemma skip_empty_ok:
  assumes "\<exists>b\<in>set bs. b \<noteq> []"
  shows "\<exists>stop k v. skip_empty bs i ev = Some (stop, i + int k, v) \<and> k \<le> length bs \<and> (\<forall>j<k. bs ! j = []) \<and>
           (if stop then 0 < k else k < length bs)"
  using assms
proof (induction bs arbitrary: i ev)
  case (Cons b bs)
  show ?case
  proof (cases "b \<noteq> [] \<or> ev - 1 = 0")
    case True
    show ?thesis
    proof (cases "b = []")
      case True
      then show ?thesis using \<open>b \<noteq> [] \<or> ev - 1 = 0\<close> by (auto intro: exI [of _ 1])
    qed (auto intro: exI [of _ 0])
  next
    case False
    then obtain stop k v where k: "skip_empty bs (i + 1) (ev - 1) = Some (stop, i + 1 + int k, v)" "k \<le> length bs"
        "\<forall>j<k. bs ! j = []" "if stop then 0 < k else k < length bs"
      using Cons by fastforce
    have "skip_empty (b # bs) i ev = Some (stop, i + int (Suc k), v)" using False k(1) by (simp add: algebra_simps)
    moreover have "\<forall>j<Suc k. (b # bs) ! j = []" using False k(3) by (auto simp: nth_Cons split: nat.split)
    ultimately show ?thesis using k(2,4) by (intro exI [of _ stop] exI [of _ "Suc k"] exI [of _ v]) (auto split: if_splits)
  qed
qed simp

text \<open>The contract of the type, as an interface of the table.\<close>

locale dict_type =
  fixes T :: "('k, 'v) dictType" and cont :: "'k \<Rightarrow> 'c" and H :: "'c \<Rightarrow> 64 word" and form :: "bool \<Rightarrow> 'k \<Rightarrow> bool"
  assumes type_ok: "dict_type_ok T cont H form"
begin

lemma hash_key: "form u k \<Longrightarrow> dictHashKey T k u = H (cont k)"
  using type_ok by (simp add: dict_type_ok_def)

lemma matches: "form u k \<Longrightarrow> form True (dictGetKey e) \<Longrightarrow> key_matches T u k e \<longleftrightarrow> cont (dictGetKey e) = cont k"
  using type_ok by (auto simp: dict_type_ok_def key_matches_def)

lemma rehash_entry_ok:
  assumes "entry_kind_ok T e" "form True (dictGetKey e)" "\<not> no_value T \<longrightarrow> \<not> entryIsKey e" "chain_ok T form dest"
  shows "\<exists>e'. rehash_entry T e dest = Some (e' # dest) \<and> entry_item e' = entry_item e \<and> chain_ok T form (e' # dest)"
  using assms type_ok
  by (cases e; cases dest)
     (auto simp: rehash_entry_def dictSetNext_def entry_item_def chain_ok_Cons dict_type_ok_def)

lemma rehash_entries_ok:
  assumes "table_ok T cont H form (ht1 d)" "ht_size_exp (ht1 d) \<noteq> -1" "2 \<le> ht_size_exp (ht0 d)" "ht_size_exp (ht0 d) \<le> 29"
    and "chain_ok T form es" "in_bucket cont H (ht_size_exp (ht0 d)) idx es"
  shows "\<exists>t1. rehash_entries T idx es d = Some (d\<lparr>ht0 := (ht0 d)\<lparr>ht_used := ht_used (ht0 d) - length es\<rparr>, ht1 := t1\<rparr>) \<and>
           table_ok T cont H form t1 \<and> ht_size_exp t1 = ht_size_exp (ht1 d) \<and> ht_items t1 = ht_items (ht1 d) + items_of es"
  using assms
proof (induction es arbitrary: d)
  case Nil
  then show ?case by (intro exI [of _ "ht1 d"]) simp
next
  case (Cons e es)
  let ?e0 = "ht_size_exp (ht0 d)" and ?e1 = "ht_size_exp (ht1 d)" and ?t = "ht_table (ht1 d)"
  let ?h = "ht_index (H (cont (dictGetKey e))) ?e1"
  have e: "entry_kind_ok T e" "form True (dictGetKey e)" "\<not> no_value T \<longrightarrow> \<not> entryIsKey e" "chain_ok T form es"
      "in_bucket cont H ?e0 idx es" "ht_index (H (cont (dictGetKey e))) ?e0 = idx"
    using Cons.prems(5,6) by (cases e; simp add: chain_ok_Cons)+
  have range1: "2 \<le> ?e1" "?e1 \<le> 29" using Cons.prems(1,2) by (auto simp: table_ok_def)
  have h: "(if ?e1 > ?e0 then ht_index (dictHashKey T (dictGetKey e) True) ?e1 else ht_index (of_nat idx) ?e1) = ?h"
    using hash_key [OF e(2)] e(6) ht_index_shrink [of ?e1 ?e0] range1 Cons.prems(3,4) by auto
  have i: "?h < length ?t" using table_ok_index [OF Cons.prems(1,2)] .
  obtain e' where e': "rehash_entry T e (?t ! ?h) = Some (e' # ?t ! ?h)" "entry_item e' = entry_item e"
      "chain_ok T form (e' # ?t ! ?h)"
    using rehash_entry_ok [OF e(1,2,3) table_ok_bucket(1) [OF Cons.prems(1) i]] by blast
  have key: "dictGetKey e' = dictGetKey e" using e'(2) by (simp add: entry_item_def)
  let ?t1 = "(ht1 d)\<lparr>ht_table := ?t[?h := e' # ?t ! ?h], ht_used := ht_used (ht1 d) + 1\<rparr>"
  let ?d1 = "d\<lparr>ht1 := ?t1, ht0 := (ht0 d)\<lparr>ht_used := ht_used (ht0 d) - 1\<rparr>\<rparr>"
  have t1: "table_ok T cont H form ?t1"
    using table_ok_bucket(2) [OF Cons.prems(1) i]
    by (intro table_ok_update [OF Cons.prems(1) i e'(3)]) (simp_all add: key)
  have items: "ht_items ?t1 = add_mset (entry_item e) (ht_items (ht1 d))"
    using ht_items_update [OF i, of "e' # ?t ! ?h"] e'(2) by (simp add: ht_items_def)
  have "rehash_entries T idx (e # es) d = rehash_entries T idx es ?d1"
    using h i e'(1) by (simp add: Let_def)
  then show ?case
    using Cons.IH [of ?d1] t1 items e Cons.prems by auto
qed

lemma rehash_bucket_ok:
  assumes d: "dict_ok T cont H form d" and r: "dictIsRehashing d" and i: "idx < length (ht_table (ht0 d))"
  shows "\<exists>d'. rehashEntriesInBucketAtIndex T d idx = Some d' \<and> dict_kept T cont H form d d' \<and> rehashidx d' = rehashidx d \<and>
           ht_table (ht0 d') = (ht_table (ht0 d))[idx := []] \<and> ht_size_exp (ht0 d') = ht_size_exp (ht0 d) \<and>
           ht_size_exp (ht1 d') = ht_size_exp (ht1 d) \<and> dict_calls d' = dict_calls d"
proof -
  let ?b = "ht_table (ht0 d) ! idx"
  have t: "table_ok T cont H form (ht0 d)" "table_ok T cont H form (ht1 d)" using dict_okD [OF d] .
  have e: "ht_size_exp (ht1 d) \<noteq> -1" "ht_size_exp (ht0 d) \<noteq> -1" "ht_size_exp (ht0 d) \<noteq> ht_size_exp (ht1 d)"
    using d r by (auto simp: dict_ok_def dictIsRehashing_def)
  then have e0: "2 \<le> ht_size_exp (ht0 d)" "ht_size_exp (ht0 d) \<le> 29" using t(1) by (auto simp: table_ok_def)
  obtain t1 where t1: "rehash_entries T idx ?b d = Some (d\<lparr>ht0 := (ht0 d)\<lparr>ht_used := ht_used (ht0 d) - length ?b\<rparr>, ht1 := t1\<rparr>)"
      "table_ok T cont H form t1" "ht_size_exp t1 = ht_size_exp (ht1 d)" "ht_items t1 = ht_items (ht1 d) + items_of ?b"
    using rehash_entries_ok [OF t(2) e(1) e0 table_ok_bucket [OF t(1) i]] by blast
  let ?t0 = "(ht0 d)\<lparr>ht_table := (ht_table (ht0 d))[idx := []], ht_used := ht_used (ht0 d) - length ?b\<rparr>"
  let ?d = "d\<lparr>ht0 := ?t0, ht1 := t1\<rparr>"
  have "length ?b \<le> ht_used (ht0 d)"
    using length_concat_update [OF i, of "[]"] t(1) unfolding table_ok_def by simp
  then have t0: "table_ok T cont H form ?t0" by (intro table_ok_update [OF t(1) i]) simp_all
  have items: "ht_items ?t0 + items_of ?b = ht_items (ht0 d)"
    using ht_items_update [OF i, of "[]"] by (simp add: ht_items_def)
  then have "dict_items ?d = dict_items d" using t1(4) by (simp add: dict_items_def)
  then have "dict_kept T cont H form d ?d"
    using d r t0 t1 e by (auto simp: dict_kept_def dict_ok_def dictIsRehashing_def dictBuckets_def nth_update_Nil)
  moreover have "rehashEntriesInBucketAtIndex T d idx = Some ?d"
    using i t1(1) by (simp add: rehashEntriesInBucketAtIndex_def)
  ultimately show ?thesis using t1(3) by simp
qed

lemma check_completed_ok:
  assumes d: "dict_ok T cont H form d" and r: "dictIsRehashing d"
  shows "dict_kept T cont H form d (snd (dictCheckRehashingCompleted d)) \<and>
         (ht_used (ht0 d) \<noteq> 0 \<longrightarrow> dictCheckRehashingCompleted d = (False, d)) \<and>
         (ht_used (ht0 d) = 0 \<longrightarrow> fst (dictCheckRehashingCompleted d) \<and> rehashidx (snd (dictCheckRehashingCompleted d)) = -1)"
proof (cases "ht_used (ht0 d) = 0")
  case True
  then have "ht_items (ht0 d) = {#}" using table_ok_empty [OF dict_okD(1) [OF d]] by simp
  then show ?thesis
    using True d r
    by (auto simp: dictCheckRehashingCompleted_def Let_def dict_kept_def dict_ok_def dict_items_def dictIsRehashing_def dictBuckets_def)
qed (simp add: dictCheckRehashingCompleted_def dict_kept_refl [OF d])

lemma nonempty_bucket:
  assumes d: "dict_ok T cont H form d" and r: "dictIsRehashing d" and u: "ht_used (ht0 d) \<noteq> 0"
  shows "\<exists>b\<in>set (drop (nat (rehashidx d)) (ht_table (ht0 d))). b \<noteq> []" "rehashidx d < int (length (ht_table (ht0 d)))"
proof -
  have "length (concat (ht_table (ht0 d))) \<noteq> 0" using u table_ok_used [OF dict_okD(1) [OF d]] by metis
  then obtain b where "b \<in> set (ht_table (ht0 d))" "b \<noteq> []" by auto
  then obtain i where i: "i < length (ht_table (ht0 d))" "ht_table (ht0 d) ! i \<noteq> []" by (metis in_set_conv_nth)
  have ge: "nat (rehashidx d) \<le> i"
    using d r i(2) by (auto simp: dict_ok_def dictIsRehashing_def not_less [symmetric])
  then have "drop (nat (rehashidx d)) (ht_table (ht0 d)) ! (i - nat (rehashidx d)) \<in> set (drop (nat (rehashidx d)) (ht_table (ht0 d)))"
    using i(1) by (intro nth_mem) simp
  then show "\<exists>b\<in>set (drop (nat (rehashidx d)) (ht_table (ht0 d))). b \<noteq> []" using i ge by auto
  show "rehashidx d < int (length (ht_table (ht0 d)))" using ge i by linarith
qed

lemma advance_ok:
  assumes d: "dict_ok T cont H form d" and r: "dictIsRehashing d"
    and k: "nat (rehashidx d) + k \<le> length (ht_table (ht0 d))" "\<forall>j<k. drop (nat (rehashidx d)) (ht_table (ht0 d)) ! j = []"
  shows "dict_kept T cont H form d (d\<lparr>rehashidx := rehashidx d + int k\<rparr>)"
proof -
  have "ht_table (ht0 d) ! i = []" if "i < nat (rehashidx d) + k" for i
  proof (cases "i < nat (rehashidx d)")
    case False
    then show ?thesis using k(2) [rule_format, of "i - nat (rehashidx d)"] k(1) that by simp
  qed (use d r in \<open>auto simp: dict_ok_def dictIsRehashing_def\<close>)
  moreover have "nat (rehashidx d + int k) = nat (rehashidx d) + k"
    using d r by (auto simp: dict_ok_def dictIsRehashing_def nat_add_distrib)
  moreover have "rehashidx d + int k \<le> int (length (ht_table (ht0 d)))"
    using k(1) d r by (auto simp: dict_ok_def dictIsRehashing_def)
  ultimately show ?thesis
    using d r by (auto simp: dict_kept_def dict_ok_def dictIsRehashing_def dict_items_def dictBuckets_def)
qed

lemma rehash_loop_ok:
  assumes "dict_ok T cont H form d" "dictIsRehashing d"
  shows "\<exists>b d'. rehash_loop T n ev d = Some (b, d') \<and> dict_kept T cont H form d d' \<and> dictIsRehashing d' \<and>
           ht_size_exp (ht0 d') = ht_size_exp (ht0 d) \<and> rehashidx d \<le> rehashidx d' \<and>
           (0 < n \<longrightarrow> ht_used (ht0 d) \<noteq> 0 \<longrightarrow> rehashidx d < rehashidx d')"
  using assms
proof (induction n arbitrary: d ev)
  case (Suc n)
  show ?case
  proof (cases "ht_used (ht0 d) = 0")
    case False
    let ?bs = "drop (nat (rehashidx d)) (ht_table (ht0 d))"
    have pos: "0 \<le> rehashidx d" "rehashidx d < int (length (ht_table (ht0 d)))"
      using Suc.prems nonempty_bucket(2) [OF Suc.prems False] by (auto simp: dict_ok_def dictIsRehashing_def)
    have sz: "int (DICTHT_SIZE (ht_size_exp (ht0 d))) > rehashidx d"
      using pos table_ok_size [OF dict_okD(1) [OF Suc.prems(1)]] by simp
    obtain stop k v where k: "skip_empty ?bs (rehashidx d) ev = Some (stop, rehashidx d + int k, v)" "k \<le> length ?bs"
        "\<forall>j<k. ?bs ! j = []" "if stop then 0 < k else k < length ?bs"
      using skip_empty_ok [OF nonempty_bucket(1) [OF Suc.prems False]] by blast
    let ?d1 = "d\<lparr>rehashidx := rehashidx d + int k\<rparr>"
    have d1: "dict_kept T cont H form d ?d1" using k pos by (intro advance_ok Suc.prems) auto
    have ok1: "dict_ok T cont H form ?d1" "dictIsRehashing ?d1"
      using d1 pos by (auto simp: dict_kept_def dictIsRehashing_def)
    show ?thesis
    proof (cases stop)
      case True
      then show ?thesis using False sz k d1 ok1 by auto
    next
      case go: False
      have i: "nat (rehashidx d + int k) < length (ht_table (ht0 ?d1))" using k go pos by (simp add: nat_add_distrib)
      obtain d2 where d2: "rehashEntriesInBucketAtIndex T ?d1 (nat (rehashidx d + int k)) = Some d2"
          "dict_kept T cont H form ?d1 d2" "rehashidx d2 = rehashidx d + int k"
          "ht_table (ht0 d2) = (ht_table (ht0 d))[nat (rehashidx d + int k) := []]" "ht_size_exp (ht0 d2) = ht_size_exp (ht0 d)"
        using rehash_bucket_ok [OF ok1 i] by auto
      let ?d3 = "d2\<lparr>rehashidx := rehashidx d2 + 1\<rparr>"
      have ok2: "dict_ok T cont H form d2" "dictIsRehashing d2"
        using d2 pos by (auto simp: dict_kept_def dictIsRehashing_def)
      have d3: "dict_kept T cont H form d2 ?d3"
        using advance_ok [OF ok2, of 1] d2(3,4) i by simp
      have ok3: "dict_ok T cont H form ?d3" "dictIsRehashing ?d3"
        using d3 d2(3) pos by (auto simp: dict_kept_def dictIsRehashing_def)
      have "rehash_loop T (Suc n) ev d = rehash_loop T n v ?d3" using False sz k(1) go d2(1) by simp
      moreover have "dict_kept T cont H form d ?d3" using d1 d2(2) d3 by (blast intro: dict_kept_trans)
      ultimately show ?thesis
        using Suc.IH [OF ok3, of v] d2(3,5) by (auto intro: dict_kept_trans)
    qed
  qed (use Suc.prems in \<open>auto simp: dict_kept_refl\<close>)
qed (auto simp: dict_kept_refl)

lemma dictRehash_ok:
  assumes d: "dict_ok T cont H form d"
  shows "\<exists>b d'. dictRehash R T d n = Some (b, d') \<and> dict_kept T cont H form d d' \<and>
           (rehashidx d' = -1 \<or> ht_size_exp (ht0 d') = ht_size_exp (ht0 d)) \<and>
           (\<not> rehash_held_back R d \<longrightarrow> 0 < n \<longrightarrow> rehashidx d' = -1 \<and> \<not> b \<or> b \<and> rehashidx d < rehashidx d')"
proof (cases "rehash_held_back R d")
  case False
  then have r: "dictIsRehashing d" by (auto simp: rehash_held_back_def Let_def)
  obtain b d1 where d1: "rehash_loop T n (int n * 10) d = Some (b, d1)" "dict_kept T cont H form d d1" "dictIsRehashing d1"
      "ht_size_exp (ht0 d1) = ht_size_exp (ht0 d)" "rehashidx d \<le> rehashidx d1"
      "0 < n \<longrightarrow> ht_used (ht0 d) \<noteq> 0 \<longrightarrow> rehashidx d < rehashidx d1"
    using rehash_loop_ok [OF d r] by blast
  obtain c d2 where d2: "dictCheckRehashingCompleted d1 = (c, d2)" by (cases "dictCheckRehashingCompleted d1")
  have ok1: "dict_ok T cont H form d1" using d1(2) by (simp add: dict_kept_def)
  have k2: "dict_kept T cont H form d1 d2" "ht_used (ht0 d1) \<noteq> 0 \<Longrightarrow> \<not> c \<and> d2 = d1" "ht_used (ht0 d1) = 0 \<Longrightarrow> c \<and> rehashidx d2 = -1"
    using check_completed_ok [OF ok1 d1(3)] d2 by auto
  have zero: "d1 = d \<and> \<not> b" if "ht_used (ht0 d) = 0" using d1(1) that by (cases n) auto
  show ?thesis
  proof (cases b)
    case True
    then show ?thesis using False d1 zero by (auto simp: dictRehash_def)
  next
    case nb: False
    have "dictRehash R T d n = Some (\<not> c, d2)" using False d1(1) nb d2 by (simp add: dictRehash_def)
    moreover have "dict_kept T cont H form d d2" using d1(2) k2(1) by (rule dict_kept_trans)
    moreover have "rehashidx d2 = -1 \<and> c \<or> \<not> c \<and> d2 = d1 \<and> ht_used (ht0 d) \<noteq> 0"
      using k2(2,3) zero by metis
    ultimately show ?thesis using d1(4,6) by (intro exI [of _ "\<not> c"] exI [of _ d2]) fastforce
  qed
qed (auto simp: dictRehash_def dict_kept_refl [OF d])

lemma dictRehashStep_ok:
  assumes d: "dict_ok T cont H form d"
  shows "\<exists>d'. dictRehashStep R T d = Some d' \<and> dict_kept T cont H form d d' \<and>
           (rehashidx d' = -1 \<or> ht_size_exp (ht0 d') = ht_size_exp (ht0 d))"
  using dictRehash_ok [OF d, of R 1] dict_kept_refl [OF d] by (auto simp: dictRehashStep_def)

lemma dictBucketRehash_ok:
  assumes d: "dict_ok T cont H form d" and i: "idx < length (ht_table (ht0 d))"
  shows "\<exists>d'. dictBucketRehash R T d idx = Some d' \<and> dict_kept T cont H form d d' \<and>
           (rehashidx d' = -1 \<or> ht_size_exp (ht0 d') = ht_size_exp (ht0 d))"
proof (cases "pauserehash d \<noteq> 0 \<or> rehash_held_back R d")
  case False
  then have r: "dictIsRehashing d" by (auto simp: rehash_held_back_def Let_def)
  obtain d1 where d1: "rehashEntriesInBucketAtIndex T d idx = Some d1" "dict_kept T cont H form d d1"
      "rehashidx d1 = rehashidx d" "ht_size_exp (ht0 d1) = ht_size_exp (ht0 d)"
    using rehash_bucket_ok [OF d r i] by blast
  have ok1: "dict_ok T cont H form d1" "dictIsRehashing d1"
    using d1 r by (auto simp: dict_kept_def dictIsRehashing_def)
  have "dictBucketRehash R T d idx = Some (snd (dictCheckRehashingCompleted d1))"
    using False d1(1) by (simp add: dictBucketRehash_def)
  then show ?thesis
    using check_completed_ok [OF ok1] d1 by (cases "ht_used (ht0 d1) = 0") (auto intro: dict_kept_trans)
qed (auto simp: dictBucketRehash_def dict_kept_refl [OF d])

text \<open>After the rehashing on access, the bucket that was computed before it is still the one to compare with \<open>rehashidx\<close>.\<close>

lemma rehash_on_access_ok:
  assumes d: "dict_ok T cont H form d"
  shows "\<exists>d'. rehash_on_access R T d (ht_index h (ht_size_exp (ht0 d))) = Some d' \<and> dict_kept T cont H form d d' \<and>
           (rehashidx d' = -1 \<or> ht_size_exp (ht0 d') = ht_size_exp (ht0 d))"
proof (cases "dictIsRehashing d")
  case True
  then have "ht_size_exp (ht0 d) \<noteq> -1" using d by (auto simp: dict_ok_def dictIsRehashing_def)
  then have i: "ht_index h (ht_size_exp (ht0 d)) < length (ht_table (ht0 d))"
    using table_ok_index [OF dict_okD(1) [OF d]] by simp
  then show ?thesis
    using dictBucketRehash_ok [OF d i, of R] dictRehashStep_ok [OF d, of R] True
    by (simp add: rehash_on_access_def)
qed (auto simp: rehash_on_access_def dict_kept_refl [OF d])

end

end
