(* ===== verification/Redis_Dict_Ops.thy ===== *)
theory Redis_Dict_Ops
  imports Redis_Dict_Inv
begin

text \<open>
  The operations of \<open>dict.c\<close> refine those of a finite map from the contents of keys to values: searching,
  inserting, replacing, removing (in one and in two phases) and clearing. The map that a dictionary stands for is
  \<open>dict_abs\<close>.
\<close>

section \<open>Searching\<close>

lemma find_in_chain_None: "find_in_chain P es = None \<longleftrightarrow> (\<forall>e\<in>set es. \<not> P e)"
  by (induction es) auto

lemma find_in_chain_Some: "find_in_chain P es = Some n \<Longrightarrow> n < length es \<and> P (es ! n)"
  by (induction es arbitrary: n) (auto split: if_splits)

definition valid_ref :: "('k, 'v) dict \<Rightarrow> entry_ref \<Rightarrow> bool" where
  "valid_ref d r =
     (case r of (second, idx, pos) \<Rightarrow>
        idx < length (ht_table (ht_of second d)) \<and> pos < length (ht_table (ht_of second d) ! idx))"

text \<open>The keys of a table that have a given content are in one bucket.\<close>

lemma table_ok_content:
  assumes t: "table_ok T cont H form t" and e: "e \<in> set (concat (ht_table t))" and c: "cont (dictGetKey e) = c"
  shows "ht_index (H c) (ht_size_exp t) < length (ht_table t)" "e \<in> set (ht_table t ! ht_index (H c) (ht_size_exp t))"
    "form True (dictGetKey e)"
proof -
  obtain i where i: "i < length (ht_table t)" "e \<in> set (ht_table t ! i)"
    using e by (metis UN_E in_set_conv_nth set_concat)
  have "ht_index (H c) (ht_size_exp t) = i" "form True (dictGetKey e)"
    using table_ok_bucket [OF t i(1)] i(2) c by (auto simp: in_bucket_def chain_ok_def list_all_iff)
  then show "ht_index (H c) (ht_size_exp t) < length (ht_table t)" "e \<in> set (ht_table t ! ht_index (H c) (ht_size_exp t))"
      "form True (dictGetKey e)"
    using i by auto
qed

definition dict_entries :: "('k, 'v) dict \<Rightarrow> ('k, 'v) dict_entry set" where
  "dict_entries d = set (concat (ht_table (ht0 d))) \<union> set (concat (ht_table (ht1 d)))"

definition search_result ::
  "('k \<Rightarrow> 'c) \<Rightarrow> ('k, 'v) dict \<Rightarrow> ('k, 'v) dict_entry set \<Rightarrow> 'c \<Rightarrow> entry_ref option \<Rightarrow> bool" where
  "search_result cont d es c r =
     (case r of
        None \<Rightarrow> \<forall>e\<in>es. cont (dictGetKey e) \<noteq> c
      | Some r \<Rightarrow> valid_ref d r \<and> cont (dictGetKey (entry_at d r)) = c)"

context dict_type
begin

lemma search_table_ok:
  assumes t: "table_ok T cont H form (ht_of second d)" and e: "ht_size_exp (ht_of second d) \<noteq> -1" and k: "form u k"
  shows "\<exists>r. search_table second (key_matches T u k) d (ht_index (H (cont k)) (ht_size_exp (ht_of second d))) = Some r \<and>
           search_result cont d (set (concat (ht_table (ht_of second d)))) (cont k) r"
proof -
  let ?t = "ht_table (ht_of second d)" and ?i = "ht_index (H (cont k)) (ht_size_exp (ht_of second d))"
  have i: "?i < length ?t" using table_ok_index [OF t e] .
  have m: "key_matches T u k e \<longleftrightarrow> cont (dictGetKey e) = cont k" if "e \<in> set (?t ! ?i)" for e
    using matches [OF k, of e] table_ok_bucket(1) [OF t i] that by (auto simp: chain_ok_def list_all_iff)
  show ?thesis
  proof (cases "find_in_chain (key_matches T u k) (?t ! ?i)")
    case None
    then have "cont (dictGetKey e) \<noteq> cont k" if "e \<in> set (concat ?t)" for e
      using table_ok_content(2) [OF t that, of "cont k"] m by (auto simp: find_in_chain_None)
    then show ?thesis using i None by (auto simp: search_table_def search_result_def)
  next
    case (Some p)
    then show ?thesis
      using i m find_in_chain_Some [OF Some] by (auto simp: search_table_def search_result_def valid_ref_def entry_at_def)
  qed
qed

lemma search_tables_ok:
  assumes d: "dict_ok T cont H form d" and e: "ht_size_exp (ht0 d) \<noteq> -1" and k: "form u k"
    and idx: "rehashidx d \<in> {-1, 0} \<or> idx = ht_index (H (cont k)) (ht_size_exp (ht0 d))"
  shows "\<exists>r. search_tables (key_matches T u k) d (H (cont k)) idx = Some r \<and>
           search_result cont d (dict_entries d) (cont k) r"
proof -
  let ?s0 = "search_table False (key_matches T u k) d (ht_index (H (cont k)) (ht_size_exp (ht0 d)))"
  let ?s1 = "search_table True (key_matches T u k) d (ht_index (H (cont k)) (ht_size_exp (ht1 d)))"
  have t: "table_ok T cont H form (ht_of False d)" "table_ok T cont H form (ht_of True d)"
    using dict_okD [OF d] by (simp_all add: ht_of_def)
  obtain r0 where r0: "?s0 = Some r0" "search_result cont d (set (concat (ht_table (ht0 d)))) (cont k) r0"
    using search_table_ok [OF t(1) _ k] e unfolding ht_of_def if_False by blast
  have skip: "r0 = None" if "int idx < rehashidx d"
  proof -
    let ?i = "ht_index (H (cont k)) (ht_size_exp (ht0 d))"
    have "ht_table (ht0 d) ! ?i = []" using that idx d by (auto simp: dict_ok_def split: if_splits)
    then show ?thesis using r0(1) by (auto simp: search_table_def ht_of_def split: if_splits)
  qed
  show ?thesis
  proof (cases "dictIsRehashing d")
    case False
    then have "ht1 d = dictReset" "rehashidx d = -1" using d by (auto simp: dict_ok_def dictIsRehashing_def)
    then show ?thesis
      using r0 False by (cases r0) (auto simp: search_tables_def search_result_def dict_entries_def)
  next
    case True
    then have "ht_size_exp (ht_of True d) \<noteq> -1" using d by (auto simp: dict_ok_def dictIsRehashing_def ht_of_def)
    then obtain r1 where r1: "?s1 = Some r1" "search_result cont d (set (concat (ht_table (ht1 d)))) (cont k) r1"
      using search_table_ok [OF t(2) _ k] unfolding ht_of_def if_True by blast
    show ?thesis
      using r0 r1 True skip
      by (cases r0; cases r1) (auto simp: search_tables_def search_result_def dict_entries_def)
  qed
qed

end

section \<open>Changing a bucket\<close>

definition put_bucket ::
  "bool \<Rightarrow> nat \<Rightarrow> ('k, 'v) dict_entry list \<Rightarrow> nat \<Rightarrow> ('k, 'v) dict \<Rightarrow> ('k, 'v) dict" where
  "put_bucket second i es n d =
     set_ht second ((ht_of second d)\<lparr>ht_table := (ht_table (ht_of second d))[i := es], ht_used := n\<rparr>) d"

definition contents :: "('k \<Rightarrow> 'c) \<Rightarrow> ('k \<times> 'v option) multiset \<Rightarrow> 'c multiset" where
  "contents cont M = image_mset (cont \<circ> fst) M"

definition dup_free :: "'c multiset \<Rightarrow> bool" where
  "dup_free M \<longleftrightarrow> (\<forall>c. count M c \<le> 1)"

lemma put_bucket_simps [simp]:
  "rehashidx (put_bucket s i es n d) = rehashidx d" "pauserehash (put_bucket s i es n d) = pauserehash d"
  "useStoredKeyApi (put_bucket s i es n d) = useStoredKeyApi d" "pauseAutoResize (put_bucket s i es n d) = pauseAutoResize d"
  "dict_calls (put_bucket s i es n d) = dict_calls d"
  "ht_size_exp (ht0 (put_bucket s i es n d)) = ht_size_exp (ht0 d)"
  "ht_size_exp (ht1 (put_bucket s i es n d)) = ht_size_exp (ht1 d)"
  "dictIsRehashing (put_bucket s i es n d) = dictIsRehashing d"
  by (simp_all add: put_bucket_def set_ht_def ht_of_def dictIsRehashing_def)

lemma ht_of_put_bucket [simp]:
  "ht_of s (put_bucket s i es n d) = (ht_of s d)\<lparr>ht_table := (ht_table (ht_of s d))[i := es], ht_used := n\<rparr>"
  by (simp add: put_bucket_def set_ht_def ht_of_def)

lemma put_bucket_items:
  assumes "i < length (ht_table (ht_of s d))"
  shows "dict_items (put_bucket s i es n d) + items_of (ht_table (ht_of s d) ! i) = dict_items d + items_of es"
  using ht_items_update [OF assms, of es]
  by (cases s) (auto simp: dict_items_def put_bucket_def set_ht_def ht_of_def ht_items_def)

lemma second_table_rehashing:
  assumes "dict_ok T cont H form d" "i < length (ht_table (ht_of True d))"
  shows "dictIsRehashing d"
  using assms by (auto simp: dict_ok_def dictIsRehashing_def ht_of_def split: if_splits)

lemma put_bucket_ok:
  assumes d: "dict_ok T cont H form d" and i: "i < length (ht_table (ht_of s d))"
    and es: "chain_ok T form es" "in_bucket cont H (ht_size_exp (ht_of s d)) i es"
    and n: "n + length (ht_table (ht_of s d) ! i) = ht_used (ht_of s d) + length es"
    and old: "s \<or> \<not> dictIsRehashing d \<or> ht_table (ht_of s d) ! i \<noteq> []"
    and dup: "dup_free (contents cont (dict_items (put_bucket s i es n d)))"
  shows "dict_ok T cont H form (put_bucket s i es n d)"
proof -
  have t: "table_ok T cont H form (ht_of s d)" using dict_okD [OF d] by (simp add: ht_of_def)
  have t': "table_ok T cont H form (ht_of s (put_bucket s i es n d))"
    using table_ok_update [OF t i es n] by simp
  have b: "dictBuckets (put_bucket s i es n d) = dictBuckets d" by (simp add: dictBuckets_def)
  show ?thesis
  proof (cases s)
    case True
    then have "dictIsRehashing d" using second_table_rehashing [OF d] i by simp
    then show ?thesis
      using d t' dup b True
      by (auto simp: dict_ok_def dup_free_def contents_def dictIsRehashing_def put_bucket_def set_ht_def ht_of_def)
  next
    case False
    have "(ht_table (ht0 d))[i := es] ! j = []" if "j < nat (rehashidx d)" "rehashidx d \<noteq> -1" for j
    proof -
      have "ht_table (ht0 d) ! j = []" using d that by (auto simp: dict_ok_def)
      moreover from this have "j \<noteq> i" using old False that by (auto simp: ht_of_def dictIsRehashing_def)
      ultimately show ?thesis by simp
    qed
    then show ?thesis
      using d t' dup b False
      by (auto simp: dict_ok_def dup_free_def contents_def dictIsRehashing_def put_bucket_def set_ht_def ht_of_def)
  qed
qed

lemma dict_ok_dup_free: "dict_ok T cont H form d \<Longrightarrow> dup_free (contents cont (dict_items d))"
  by (simp add: dict_ok_def dup_free_def contents_def)

lemma dup_free_mono: "dup_free M \<Longrightarrow> N \<subseteq># M \<Longrightarrow> dup_free N"
  by (meson dup_free_def le_trans mset_subset_eq_count)

lemma dup_free_add: "dup_free M \<Longrightarrow> c \<notin># M \<Longrightarrow> dup_free (add_mset c M)"
  by (auto simp: dup_free_def not_in_iff)

lemma dict_ok_calls:
  "dict_ok T cont H form d \<Longrightarrow> buckets_reported cs = 0 \<Longrightarrow> dict_ok T cont H form (d\<lparr>dict_calls := dict_calls d @ cs\<rparr>)"
  by (simp add: dict_ok_def dict_items_def dictBuckets_def)

section \<open>The map that a dictionary stands for\<close>

definition dict_abs :: "('k \<Rightarrow> 'c) \<Rightarrow> ('k, 'v) dict \<Rightarrow> 'c \<rightharpoonup> 'v option" where
  "dict_abs cont d =
     map_of (map (\<lambda>e. (cont (dictGetKey e), entry_val e)) (concat (ht_table (ht0 d)) @ concat (ht_table (ht1 d))))"

lemma set_dict_items: "set_mset (dict_items d) = entry_item ` dict_entries d"
  by (auto simp: dict_items_def ht_items_def items_of_def dict_entries_def)

lemma dup_free_distinct: "dup_free (mset xs) \<Longrightarrow> distinct xs"
proof (induction xs)
  case (Cons x xs)
  have "dup_free (mset xs)" using Cons.prems by (rule dup_free_mono) simp
  moreover have "count (mset (x # xs)) x \<le> 1" using Cons.prems unfolding dup_free_def by blast
  then have "x \<notin> set xs" by (simp add: count_mset_0_iff)
  ultimately show ?case using Cons.IH by simp
qed simp

lemma dict_abs_iff:
  assumes d: "dict_ok T cont H form d"
  shows "dict_abs cont d c = Some v \<longleftrightarrow> (\<exists>k. (k, v) \<in># dict_items d \<and> cont k = c)"
proof -
  let ?es = "concat (ht_table (ht0 d)) @ concat (ht_table (ht1 d))"
  let ?xs = "map (\<lambda>e. (cont (dictGetKey e), entry_val e)) ?es"
  have "mset (map fst ?xs) = contents cont (dict_items d)"
    by (simp add: contents_def dict_items_def ht_items_def items_of_def entry_item_def image_mset.compositionality comp_def flip: mset_map)
  then have "distinct (map fst ?xs)"
    using dict_ok_dup_free [OF d] dup_free_distinct by metis
  then have "dict_abs cont d c = Some v \<longleftrightarrow> (c, v) \<in> set ?xs"
    unfolding dict_abs_def by (rule map_of_eq_Some_iff)
  then show ?thesis by (auto simp: set_dict_items dict_entries_def entry_item_def image_iff)
qed

lemma dict_abs_None:
  assumes d: "dict_ok T cont H form d"
  shows "dict_abs cont d c = None \<longleftrightarrow> c \<notin># contents cont (dict_items d)"
proof
  assume "dict_abs cont d c = None"
  then have "\<forall>v k. (k, v) \<in># dict_items d \<longrightarrow> cont k \<noteq> c" using dict_abs_iff [OF d, of c] by auto
  then show "c \<notin># contents cont (dict_items d)" unfolding contents_def by fastforce
next
  assume c: "c \<notin># contents cont (dict_items d)"
  show "dict_abs cont d c = None"
  proof (rule ccontr)
    assume "dict_abs cont d c \<noteq> None"
    then obtain v where "dict_abs cont d c = Some v" by blast
    then obtain k where "(k, v) \<in># dict_items d" "cont k = c" using dict_abs_iff [OF d] by blast
    then show False using c by (force simp: contents_def)
  qed
qed

lemma dict_abs_kept: "dict_ok T cont H form d \<Longrightarrow> dict_kept T cont H form d d' \<Longrightarrow> dict_abs cont d' = dict_abs cont d"
proof (rule ext)
  fix c assume "dict_ok T cont H form d" "dict_kept T cont H form d d'"
  then have "dict_abs cont d' c = Some v \<longleftrightarrow> dict_abs cont d c = Some v" for v
    using dict_abs_iff [of T cont H form d' c v] dict_abs_iff [of T cont H form d c v] by (simp add: dict_kept_def)
  then show "dict_abs cont d' c = dict_abs cont d c" by (metis not_Some_eq)
qed

lemma entry_at_items:
  assumes "valid_ref d r"
  shows "entry_at d r \<in> dict_entries d"
proof -
  obtain s i p where r: "r = (s, i, p)" by (cases r)
  have "entry_at d r \<in> set (ht_table (ht_of s d) ! i)" "ht_table (ht_of s d) ! i \<in> set (ht_table (ht_of s d))"
    using assms by (auto simp: r valid_ref_def entry_at_def)
  then show ?thesis by (auto simp: dict_entries_def ht_of_def split: if_splits)
qed

lemma dict_abs_entry:
  assumes d: "dict_ok T cont H form d" and r: "valid_ref d r"
  shows "dict_abs cont d (cont (dictGetKey (entry_at d r))) = Some (entry_val (entry_at d r))"
  using entry_at_items [OF r] unfolding dict_abs_iff [OF d] set_dict_items entry_item_def by blast

lemma search_result_abs:
  assumes d: "dict_ok T cont H form d" and r: "search_result cont d (dict_entries d) c r"
  shows "dict_abs cont d c = map_option (\<lambda>r. entry_val (entry_at d r)) r"
proof (cases r)
  case None
  then have "c \<notin># contents cont (dict_items d)"
    using r by (auto simp: search_result_def contents_def set_dict_items entry_item_def)
  then show ?thesis using None dict_abs_None [OF d] by simp
next
  case (Some x)
  then show ?thesis using r dict_abs_entry [OF d, of x] by (auto simp: search_result_def)
qed

lemma empty_abs:
  assumes d: "dict_ok T cont H form d" and z: "dictSize d = 0"
  shows "dict_items d = {#}" "dict_abs cont d c = None"
proof -
  show "dict_items d = {#}"
    using z table_ok_empty(2) [OF dict_okD(1) [OF d]] table_ok_empty(2) [OF dict_okD(2) [OF d]]
    by (simp add: dictSize_def dict_items_def)
  then show "dict_abs cont d c = None" using dict_abs_None [OF d] by (simp add: contents_def)
qed

lemma nonempty_exp:
  assumes d: "dict_ok T cont H form d" and z: "dictSize d \<noteq> 0"
  shows "ht_size_exp (ht0 d) \<noteq> -1"
proof
  assume e: "ht_size_exp (ht0 d) = -1"
  then have "rehashidx d = -1" "ht1 d = dictReset" using d by (auto simp: dict_ok_def split: if_splits)
  moreover have "ht_used (ht0 d) = 0" using dict_okD(1) [OF d] e by (auto simp: table_ok_def)
  ultimately show False using z by (simp add: dictSize_def)
qed

lemma contents_memI: "(k, x) \<in># M \<Longrightarrow> cont k \<in># contents cont M"
  by (force simp: contents_def)

lemma dup_free_head:
  assumes "dup_free (contents cont (add_mset (k, v) M))"
  shows "cont k \<notin># contents cont M"
proof -
  have "count (contents cont (add_mset (k, v) M)) (cont k) \<le> 1" using assms unfolding dup_free_def by blast
  then have "count (contents cont M) (cont k) = 0" by (simp add: contents_def)
  then show ?thesis by (simp only: not_in_iff)
qed

text \<open>The map after an entry was added, removed or replaced, in terms of the entries.\<close>

lemma dict_abs_add_mset:
  assumes d: "dict_ok T cont H form d" and M: "dict_items d = add_mset (k, v) M"
  shows "dict_abs cont d c = Some w \<longleftrightarrow> (if c = cont k then w = v else \<exists>k'. (k', w) \<in># M \<and> cont k' = c)"
proof -
  have "cont k \<notin># contents cont M" using dict_ok_dup_free [OF d] unfolding M by (rule dup_free_head)
  then have other: "cont k' \<noteq> cont k" if "(k', x) \<in># M" for k' x
    using contents_memI [of k' x M cont] that by auto
  show ?thesis unfolding dict_abs_iff [OF d] M using other by auto
qed

lemma option_eqI: "(\<And>w. x = Some w \<longleftrightarrow> y = Some w) \<Longrightarrow> x = y"
  by (metis not_Some_eq)

lemma dict_abs_insert:
  assumes d: "dict_ok T cont H form d" and d': "dict_ok T cont H form d'" and M: "dict_items d' = add_mset (k, v) (dict_items d)"
  shows "dict_abs cont d' = (dict_abs cont d)(cont k \<mapsto> v)"
  by (rule ext, rule option_eqI) (auto simp: dict_abs_add_mset [OF d' M] dict_abs_iff [OF d])

lemma dict_abs_remove:
  assumes d: "dict_ok T cont H form d" and d': "dict_ok T cont H form d'" and M: "dict_items d = add_mset (k, v) (dict_items d')"
  shows "dict_abs cont d' = (dict_abs cont d)(cont k := None)"
proof (rule ext, rule option_eqI)
  fix c w
  have "cont k \<notin># contents cont (dict_items d')" using dict_ok_dup_free [OF d] unfolding M by (rule dup_free_head)
  then have "dict_abs cont d' (cont k) = None" by (simp add: dict_abs_None [OF d'])
  then show "dict_abs cont d' c = Some w \<longleftrightarrow> ((dict_abs cont d)(cont k := None)) c = Some w"
    by (cases "c = cont k") (simp_all add: dict_abs_add_mset [OF d M] dict_abs_iff [OF d'])
qed

lemma dict_abs_replace:
  assumes d: "dict_ok T cont H form d" and d': "dict_ok T cont H form d'"
    and M: "dict_items d = add_mset (k, v) M" "dict_items d' = add_mset (k, v') M"
  shows "dict_abs cont d' = (dict_abs cont d)(cont k \<mapsto> v')"
  by (rule ext, rule option_eqI) (auto simp: dict_abs_add_mset [OF d' M(2)] dict_abs_add_mset [OF d M(1)])

section \<open>Changing an entry in place\<close>

lemma mset_exchange:
  fixes X D b b' p n :: "'a multiset"
  assumes "X + b = D + b'" "b' + p = b + n"
  shows "X + p = D + n"
proof -
  have "(X + p) + b = (X + b) + p" by (simp add: ac_simps)
  also have "\<dots> = D + (b' + p)" unfolding assms(1) by (simp add: ac_simps)
  also have "\<dots> = (D + n) + b" unfolding assms(2) by (simp add: ac_simps)
  finally show ?thesis by (simp only: add_right_cancel)
qed

lemma set_entry_put:
  "set_entry (s, i, p) e d = put_bucket s i ((ht_table (ht_of s d) ! i)[p := e]) (ht_used (ht_of s d)) d"
  by (cases "ht_of s d") (simp add: set_entry_def put_bucket_def)

lemma items_of_update:
  assumes "p < length es"
  shows "add_mset (entry_item (es ! p)) (items_of (es[p := e])) = add_mset (entry_item e) (items_of es)"
  using assms by (simp add: items_of_def map_update mset_update)

lemma chain_ok_update:
  assumes "chain_ok T form es" "p < length es" "entry_kind_ok T e" "dictGetKey e = dictGetKey (es ! p)" "\<not> entryIsKey e"
  shows "chain_ok T form (es[p := e])"
proof -
  have "form True (dictGetKey e)" using assms by (auto simp: chain_ok_def list_all_length)
  moreover have "list_all (\<lambda>e. \<not> entryIsKey e) (butlast (es[p := e]))"
    using assms(1,5) by (auto simp: chain_ok_def list_all_iff butlast_list_update dest: set_update_subset_insert [THEN subsetD])
  ultimately show ?thesis
    using assms(1,3) by (auto simp: chain_ok_def list_all_iff dest: set_update_subset_insert [THEN subsetD])
qed

lemma set_entry_ok:
  assumes d: "dict_ok T cont H form d" and r: "valid_ref d r"
    and e: "entry_kind_ok T e" "dictGetKey e = dictGetKey (entry_at d r)" "\<not> entryIsKey e"
  shows "dict_ok T cont H form (set_entry r e d)"
    "dict_abs cont (set_entry r e d) = (dict_abs cont d)(cont (dictGetKey e) \<mapsto> entry_val e)"
    "useStoredKeyApi (set_entry r e d) = useStoredKeyApi d" "pauseAutoResize (set_entry r e d) = pauseAutoResize d"
    "ht_size_exp (ht0 (set_entry r e d)) = ht_size_exp (ht0 d)"
proof -
  obtain s i p where [simp]: "r = (s, i, p)" by (cases r)
  let ?b = "ht_table (ht_of s d) ! i"
  have i: "i < length (ht_table (ht_of s d))" and p: "p < length ?b" and at: "entry_at d r = ?b ! p"
    using r by (simp_all add: valid_ref_def entry_at_def)
  have t: "table_ok T cont H form (ht_of s d)" using dict_okD [OF d] by (simp add: ht_of_def)
  let ?d' = "put_bucket s i (?b[p := e]) (ht_used (ht_of s d)) d"
  have "items_of (?b[p := e]) + {#entry_item (?b ! p)#} = items_of ?b + {#entry_item e#}"
    using items_of_update [OF p, of e] by simp
  with put_bucket_items [OF i, of "?b[p := e]" "ht_used (ht_of s d)"]
  have "dict_items ?d' + {#entry_item (?b ! p)#} = dict_items d + {#entry_item e#}"
    by (rule mset_exchange)
  moreover have "entry_item (?b ! p) \<in># dict_items d"
    using entry_at_items [OF r] at by (simp add: set_dict_items)
  then obtain M where M: "dict_items d = add_mset (entry_item (?b ! p)) M" by (metis insert_DiffM)
  ultimately have M': "dict_items ?d' = add_mset (entry_item e) M" by simp
  have ok: "dict_ok T cont H form ?d'"
  proof (rule put_bucket_ok [OF d i])
    show "chain_ok T form (?b[p := e])" using chain_ok_update [OF table_ok_bucket(1) [OF t i] p e(1)] e at by simp
    show "in_bucket cont H (ht_size_exp (ht_of s d)) i (?b[p := e])"
      using table_ok_bucket(2) [OF t i] e(2) p at by (auto simp: in_bucket_def list_all_length nth_list_update)
    show "dup_free (contents cont (dict_items ?d'))"
      using dict_ok_dup_free [OF d] e(2) at by (simp add: M M' contents_def entry_item_def)
  qed (use p in auto)
  then show "dict_ok T cont H form (set_entry r e d)" by (simp add: set_entry_put)
  show "dict_abs cont (set_entry r e d) = (dict_abs cont d)(cont (dictGetKey e) \<mapsto> entry_val e)"
    using dict_abs_replace [OF d ok, of "dictGetKey e" "entry_val (?b ! p)" M "entry_val e"] M M' e(2) at
    by (simp add: set_entry_put entry_item_def)
qed (cases r; simp add: set_entry_put)+

section \<open>Removing an entry\<close>

lemma count_down_unlink:
  "count_down s (unlink_entry (s, i, p) d) =
     put_bucket s i (take p (ht_table (ht_of s d) ! i) @ drop (Suc p) (ht_table (ht_of s d) ! i)) (ht_used (ht_of s d) - 1) d"
  by (simp add: count_down_def unlink_entry_def put_bucket_def set_ht_def ht_of_def Let_def)

lemma unlink_count_down: "unlink_entry (s, i, p) (count_down s d) = count_down s (unlink_entry (s, i, p) d)"
  by (simp add: count_down_def unlink_entry_def set_ht_def ht_of_def Let_def)

lemma chain_ok_drop:
  assumes "chain_ok T form es" "p < length es"
  shows "chain_ok T form (take p es @ drop (Suc p) es)"
  using assms
proof (induction es arbitrary: p)
  case (Cons e es)
  show ?case
  proof (cases p)
    case 0
    then show ?thesis using Cons.prems by (simp add: chain_ok_Cons)
  next
    case (Suc q)
    then have "chain_ok T form (take q es @ drop (Suc q) es)" using Cons by (simp add: chain_ok_Cons)
    moreover have "es \<noteq> []" using Cons.prems(2) Suc by auto
    ultimately show ?thesis using Suc Cons.prems(1) by (simp add: chain_ok_Cons)
  qed
qed simp

lemma remove_ok:
  assumes d: "dict_ok T cont H form d" and r: "valid_ref d r"
  shows "dict_ok T cont H form (count_down (fst r) (unlink_entry r d))"
    "dict_items d = add_mset (entry_item (entry_at d r)) (dict_items (count_down (fst r) (unlink_entry r d)))"
proof -
  obtain s i p where [simp]: "r = (s, i, p)" by (cases r)
  let ?b = "ht_table (ht_of s d) ! i"
  let ?es = "take p ?b @ drop (Suc p) ?b" and ?n = "ht_used (ht_of s d) - 1"
  have i: "i < length (ht_table (ht_of s d))" and p: "p < length ?b" and at: "entry_at d r = ?b ! p"
    using r by (simp_all add: valid_ref_def entry_at_def)
  have t: "table_ok T cont H form (ht_of s d)" using dict_okD [OF d] by (simp add: ht_of_def)
  have "items_of ?b = items_of (take p ?b @ ?b ! p # drop (Suc p) ?b)" using id_take_nth_drop [OF p] by simp
  then have b: "items_of ?b = add_mset (entry_item (?b ! p)) (items_of ?es)" by simp
  have "dict_items (put_bucket s i ?es ?n d) + items_of ?b = dict_items d + items_of ?es"
    by (rule put_bucket_items [OF i])
  then have "add_mset (entry_item (?b ! p)) (dict_items (put_bucket s i ?es ?n d)) + items_of ?es = dict_items d + items_of ?es"
    unfolding b by simp
  then have items: "dict_items d = add_mset (entry_item (?b ! p)) (dict_items (put_bucket s i ?es ?n d))"
    by (simp only: add_right_cancel)
  have used: "0 < ht_used (ht_of s d)"
    using length_concat_update [OF i, of "[]"] p table_ok_used [OF t] unfolding list.size(3) by linarith
  have "dict_ok T cont H form (put_bucket s i ?es ?n d)"
  proof (rule put_bucket_ok [OF d i])
    show "chain_ok T form ?es" using chain_ok_drop [OF table_ok_bucket(1) [OF t i] p] .
    show "in_bucket cont H (ht_size_exp (ht_of s d)) i ?es"
      using table_ok_bucket(2) [OF t i] by (auto simp: in_bucket_def list_all_iff dest: in_set_takeD in_set_dropD)
    show "dup_free (contents cont (dict_items (put_bucket s i ?es ?n d)))"
      using dict_ok_dup_free [OF d] by (rule dup_free_mono) (simp add: items contents_def)
  qed (use p used in auto)
  then show "dict_ok T cont H form (count_down (fst r) (unlink_entry r d))" by (simp add: count_down_unlink)
  show "dict_items d = add_mset (entry_item (entry_at d r)) (dict_items (count_down (fst r) (unlink_entry r d)))"
    using items at by (simp add: count_down_unlink)
qed

lemma remove_flags:
  "useStoredKeyApi (count_down s (unlink_entry r d)) = useStoredKeyApi d"
  "pauseAutoResize (count_down s (unlink_entry r d)) = pauseAutoResize d"
  "pauserehash (count_down s (unlink_entry r d)) = pauserehash d"
  by (cases r; simp add: count_down_def unlink_entry_def set_ht_def Let_def)+

section \<open>The operations\<close>

text \<open>The value as it is stored.\<close>

definition stored_val :: "('k, 'v) dictType \<Rightarrow> 'v \<Rightarrow> 'v" where
  "stored_val T v = (case valDup T of None \<Rightarrow> v | Some f \<Rightarrow> f v)"

context dict_type
begin

lemma dictFind_ok:
  assumes d: "dict_ok T cont H form d" and k: "form (useStoredKeyApi d) k"
  shows "\<exists>r d'. dictFind R T d k = Some (r, d') \<and> dict_kept T cont H form d d' \<and>
           search_result cont d' (dict_entries d') (cont k) r"
proof (cases "dictSize d = 0")
  case True
  have "dict_entries d = {}" using empty_abs(1) [OF d True] set_dict_items [of d] by simp
  then show ?thesis
    using True dict_kept_refl [OF d] by (auto simp: dictFind_def search_result_def)
next
  case False
  let ?idx = "ht_index (H (cont k)) (ht_size_exp (ht0 d))"
  obtain d1 where d1: "rehash_on_access R T d ?idx = Some d1" "dict_kept T cont H form d d1"
      "rehashidx d1 = -1 \<or> ht_size_exp (ht0 d1) = ht_size_exp (ht0 d)"
    using rehash_on_access_ok [OF d] by blast
  have ok: "dict_ok T cont H form d1" "ht_size_exp (ht0 d1) \<noteq> -1" "useStoredKeyApi d1 = useStoredKeyApi d"
    using d1(2) nonempty_exp [OF d False] by (auto simp: dict_kept_def)
  obtain r where r: "search_tables (key_matches T (useStoredKeyApi d) k) d1 (H (cont k)) ?idx = Some r"
      "search_result cont d1 (dict_entries d1) (cont k) r"
    using search_tables_ok [OF ok(1,2) k, of ?idx] d1(3) by fastforce
  show ?thesis
    using False d1 ok r hash_key [OF k] by (simp add: dictFind_def Let_def)
qed

lemma dup_key:
  assumes "form u k" "keyDup T = None \<longrightarrow> form True k"
  shows "form True (case keyDup T of None \<Rightarrow> k | Some f \<Rightarrow> f k)" "cont (case keyDup T of None \<Rightarrow> k | Some f \<Rightarrow> f k) = cont k"
  using type_ok assms by (auto simp: dict_type_ok_def split: option.splits)

lemma insert_ok:
  assumes d: "dict_ok T cont H form d" and e: "ht_size_exp (ht0 d) \<noteq> -1" and k: "form True k"
    and new: "cont k \<notin># contents cont (dict_items d)"
  shows "\<exists>r d'. dictInsertAtPosition T d k (dictIsRehashing d, ht_index (H (cont k)) (ht_size_exp (ht_of (dictIsRehashing d) d)))
             = Some (r, d') \<and> dict_ok T cont H form d' \<and> dict_items d' = add_mset (k, None) (dict_items d) \<and>
           valid_ref d' r \<and> entry_item (entry_at d' r) = (k, None) \<and> entry_kind_ok T (entry_at d' r) \<and>
           useStoredKeyApi d' = useStoredKeyApi d \<and> pauseAutoResize d' = pauseAutoResize d \<and> ht_size_exp (ht0 d') \<noteq> -1"
proof -
  let ?s = "dictIsRehashing d"
  let ?t = "ht_of ?s d" and ?i = "ht_index (H (cont k)) (ht_size_exp (ht_of ?s d))"
  let ?b = "ht_table ?t ! ?i"
  define ne :: "('k, 'v) dict_entry" where "ne = (if no_value T then if keys_are_odd T \<and> ?b = [] then Entry_key k else Entry_no_value k else Entry k None)"
  have t: "table_ok T cont H form ?t" "ht_size_exp ?t \<noteq> -1"
    using dict_okD [OF d] d e by (auto simp: ht_of_def dict_ok_def dictIsRehashing_def split: if_splits)
  have i: "?i < length (ht_table ?t)" using table_ok_index [OF t] .
  then have mask: "\<not> ?i > DICTHT_SIZE_MASK (ht_size_exp ?t)"
    using t table_ok_size [OF t(1)] by (auto simp: DICTHT_SIZE_MASK_def)
  let ?d' = "put_bucket ?s ?i (ne # ?b) (ht_used ?t + 1) d"
  have "key_lsb T k" if "no_value T" "keys_are_odd T" using type_ok k that by (auto simp: dict_type_ok_def)
  then have eq: "dictInsertAtPosition T d k (?s, ?i) = Some ((?s, ?i, 0), ?d')"
    using i mask by (auto simp: dictInsertAtPosition_def Let_def ne_def put_bucket_def)
  have ne: "dictGetKey ne = k" "entry_item ne = (k, None)" "entry_kind_ok T ne" "?b \<noteq> [] \<longrightarrow> \<not> entryIsKey ne"
    by (auto simp: ne_def entry_item_def)
  have items: "dict_items ?d' = add_mset (k, None) (dict_items d)"
    using put_bucket_items [OF i, of "ne # ?b" "ht_used ?t + 1"] ne(2) by simp
  have "dict_ok T cont H form ?d'"
  proof (rule put_bucket_ok [OF d i])
    show "chain_ok T form (ne # ?b)" using ne k table_ok_bucket(1) [OF t(1) i] by (simp add: chain_ok_Cons)
    show "in_bucket cont H (ht_size_exp ?t) ?i (ne # ?b)" using ne table_ok_bucket(2) [OF t(1) i] by simp
    show "dup_free (contents cont (dict_items ?d'))"
      unfolding items using dup_free_add [OF dict_ok_dup_free [OF d] new] by (simp add: contents_def)
  qed auto
  then show ?thesis
    using eq items ne i e by (simp add: valid_ref_def entry_at_def)
qed

lemma dictAddRaw_ok:
  assumes d: "dict_ok T cont H form d" and k: "form (useStoredKeyApi d) k" "keyDup T = None \<longrightarrow> form True k"
    and e: "pauseAutoResize d \<le> 0 \<or> ht_size_exp (ht0 d) \<noteq> -1"
  shows "\<exists>x d'. dictAddRaw R T d k = Some (x, d') \<and> dict_ok T cont H form d' \<and> useStoredKeyApi d' = useStoredKeyApi d \<and>
           pauseAutoResize d' = pauseAutoResize d \<and> ht_size_exp (ht0 d') \<noteq> -1 \<and>
           (case x of
              Inr r \<Rightarrow> dict_abs cont d' = dict_abs cont d \<and> valid_ref d' r \<and> cont (dictGetKey (entry_at d' r)) = cont k
            | Inl r \<Rightarrow> dict_abs cont d (cont k) = None \<and> dict_abs cont d' = (dict_abs cont d)(cont k \<mapsto> None) \<and>
                       valid_ref d' r \<and> cont (dictGetKey (entry_at d' r)) = cont k)"
proof -
  let ?idx = "ht_index (H (cont k)) (ht_size_exp (ht0 d))"
  obtain d1 where d1: "rehash_on_access R T d ?idx = Some d1" "dict_kept T cont H form d d1"
      "rehashidx d1 = -1 \<or> ht_size_exp (ht0 d1) = ht_size_exp (ht0 d)"
    using rehash_on_access_ok [OF d] by blast
  have ok1: "dict_ok T cont H form d1" using d1(2) by (simp add: dict_kept_def)
  obtain d2 where d2: "auto_dictExpandIfNeeded R T d1 = Some d2" "dict_kept T cont H form d1 d2"
      "d2 = d1 \<or> rehashidx d2 \<in> {-1, 0}" "pauseAutoResize d1 \<le> 0 \<longrightarrow> ht_size_exp (ht0 d2) \<noteq> -1"
    using auto_expand_ok [OF ok1] by blast
  have kept: "dict_kept T cont H form d d2" using d1(2) d2(2) by (rule dict_kept_trans)
  have ok2: "dict_ok T cont H form d2" "useStoredKeyApi d2 = useStoredKeyApi d" "ht_size_exp (ht0 d2) \<noteq> -1"
      "pauseAutoResize d2 = pauseAutoResize d"
    using kept e d1(2) d2(4) by (auto simp: dict_kept_def)
  have idx: "rehashidx d2 \<in> {-1, 0} \<or> ?idx = ht_index (H (cont k)) (ht_size_exp (ht0 d2))"
    using d1(3) d2(3) by auto
  obtain r where r: "search_tables (key_matches T (useStoredKeyApi d) k) d2 (H (cont k)) ?idx = Some r"
      "search_result cont d2 (dict_entries d2) (cont k) r"
    using search_tables_ok [OF ok2(1,3) k(1) idx] by blast
  have abs: "dict_abs cont d2 = dict_abs cont d" using dict_abs_kept [OF d kept] .
  show ?thesis
  proof (cases r)
    case (Some x)
    then have "dictAddRaw R T d k = Some (Inr x, d2)"
      using d1(1) d2(1) r(1) ok2 hash_key [OF k(1)] by (simp add: dictAddRaw_def dictFindPositionForInsert_def Let_def)
    then show ?thesis using Some r(2) ok2 abs by (simp add: search_result_def)
  next
    case None
    let ?k = "case keyDup T of None \<Rightarrow> k | Some f \<Rightarrow> f k"
    have k': "form True ?k" "cont ?k = cont k" using dup_key [OF k] .
    have new: "dict_abs cont d2 (cont k) = None" using search_result_abs [OF ok2(1) r(2)] None by simp
    then have "cont ?k \<notin># contents cont (dict_items d2)" using dict_abs_None [OF ok2(1)] k'(2) by simp
    then obtain x d3 where d3: "dictInsertAtPosition T d2 ?k (dictIsRehashing d2, ht_index (H (cont k)) (ht_size_exp (ht_of (dictIsRehashing d2) d2))) = Some (x, d3)"
        "dict_ok T cont H form d3" "dict_items d3 = add_mset (?k, None) (dict_items d2)" "valid_ref d3 x"
        "entry_item (entry_at d3 x) = (?k, None)" "useStoredKeyApi d3 = useStoredKeyApi d2" "pauseAutoResize d3 = pauseAutoResize d2"
        "ht_size_exp (ht0 d3) \<noteq> -1"
      using insert_ok [OF ok2(1,3) k'(1)] unfolding k'(2) by blast
    have "dictAddRaw R T d k = Some (Inl x, d3)"
      using d1(1) d2(1) r(1) None ok2 hash_key [OF k(1)] d3(1)
      by (simp add: dictAddRaw_def dictFindPositionForInsert_def Let_def)
    moreover have "dict_abs cont d3 = (dict_abs cont d2)(cont k \<mapsto> None)"
      using dict_abs_insert [OF ok2(1) d3(2,3)] k'(2) by simp
    moreover have "cont (dictGetKey (entry_at d3 x)) = cont k" using d3(5) k'(2) by (simp add: entry_item_def)
    ultimately show ?thesis using new abs d3 ok2 by simp
  qed
qed

lemma entry_at_kind:
  assumes d: "dict_ok T cont H form d" and r: "valid_ref d r"
  shows "entry_kind_ok T (entry_at d r)"
proof -
  obtain s i p where [simp]: "r = (s, i, p)" by (cases r)
  have t: "table_ok T cont H form (ht_of s d)" using dict_okD [OF d] by (simp add: ht_of_def)
  have "i < length (ht_table (ht_of s d))" "p < length (ht_table (ht_of s d) ! i)" using r by (simp_all add: valid_ref_def)
  then show ?thesis using table_ok_bucket(1) [OF t] by (simp add: chain_ok_def list_all_length entry_at_def)
qed

lemma set_val_ok:
  assumes d: "dict_ok T cont H form d" and r: "valid_ref d r" and n: "\<not> no_value T"
  shows "\<exists>d'. set_val_at T r v d = Some d' \<and> dict_ok T cont H form d' \<and>
           dict_abs cont d' = (dict_abs cont d)(cont (dictGetKey (entry_at d r)) \<mapsto> Some (stored_val T v)) \<and>
           useStoredKeyApi d' = useStoredKeyApi d \<and> pauseAutoResize d' = pauseAutoResize d \<and>
           ht_size_exp (ht0 d') = ht_size_exp (ht0 d)"
proof -
  obtain k w where e: "entry_at d r = Entry k w" using entry_at_kind [OF d r] n by (cases "entry_at d r") auto
  then have "set_val_at T r v d = Some (set_entry r (Entry k (Some (stored_val T v))) d)"
    by (simp add: set_val_at_def stored_val_def)
  then show ?thesis using set_entry_ok [OF d r, of "Entry k (Some (stored_val T v))"] e n by simp
qed

lemma dictAdd_ok:
  assumes d: "dict_ok T cont H form d" and k: "form (useStoredKeyApi d) k" "keyDup T = None \<longrightarrow> form True k"
    and e: "pauseAutoResize d \<le> 0 \<or> ht_size_exp (ht0 d) \<noteq> -1"
  shows "\<exists>x d'. dictAdd R T d k v = Some (x, d') \<and> dict_ok T cont H form d' \<and> useStoredKeyApi d' = useStoredKeyApi d \<and>
           pauseAutoResize d' = pauseAutoResize d \<and> ht_size_exp (ht0 d') \<noteq> -1 \<and>
           (x = DICT_OK \<longleftrightarrow> dict_abs cont d (cont k) = None) \<and>
           dict_abs cont d' = (if x = DICT_OK then (dict_abs cont d)(cont k \<mapsto> (if no_value T then None else Some (stored_val T v)))
                               else dict_abs cont d)"
proof -
  obtain x d1 where d1: "dictAddRaw R T d k = Some (x, d1)" "dict_ok T cont H form d1" "useStoredKeyApi d1 = useStoredKeyApi d"
      "pauseAutoResize d1 = pauseAutoResize d" "ht_size_exp (ht0 d1) \<noteq> -1"
      "case x of
              Inr r \<Rightarrow> dict_abs cont d1 = dict_abs cont d \<and> valid_ref d1 r \<and> cont (dictGetKey (entry_at d1 r)) = cont k
            | Inl r \<Rightarrow> dict_abs cont d (cont k) = None \<and> dict_abs cont d1 = (dict_abs cont d)(cont k \<mapsto> None) \<and>
                       valid_ref d1 r \<and> cont (dictGetKey (entry_at d1 r)) = cont k"
    using dictAddRaw_ok [OF d k e] by blast
  show ?thesis
  proof (cases x)
    case (Inr r)
    then have "dict_abs cont d (cont k) \<noteq> None" using d1(6) dict_abs_entry [OF d1(2), of r] by auto
    then show ?thesis using Inr d1 by (simp add: dictAdd_def)
  next
    case (Inl r)
    show ?thesis
    proof (cases "no_value T")
      case True
      then show ?thesis using Inl d1 by (simp add: dictAdd_def)
    next
      case False
      then show ?thesis using Inl d1 set_val_ok [OF d1(2) _ False, of r v] by (auto simp: dictAdd_def)
    qed
  qed
qed

lemma dictReplace_ok:
  assumes d: "dict_ok T cont H form d" and k: "form (useStoredKeyApi d) k" "keyDup T = None \<longrightarrow> form True k"
    and e: "pauseAutoResize d \<le> 0 \<or> ht_size_exp (ht0 d) \<noteq> -1" and n: "\<not> no_value T"
  shows "\<exists>x d'. dictReplace R T d k v = Some (x, d') \<and> dict_ok T cont H form d' \<and> useStoredKeyApi d' = useStoredKeyApi d \<and>
           pauseAutoResize d' = pauseAutoResize d \<and> ht_size_exp (ht0 d') \<noteq> -1 \<and>
           (x \<longleftrightarrow> dict_abs cont d (cont k) = None) \<and> dict_abs cont d' = (dict_abs cont d)(cont k \<mapsto> Some (stored_val T v))"
proof -
  obtain x d1 where d1: "dictAddRaw R T d k = Some (x, d1)" "dict_ok T cont H form d1" "useStoredKeyApi d1 = useStoredKeyApi d"
      "pauseAutoResize d1 = pauseAutoResize d" "ht_size_exp (ht0 d1) \<noteq> -1"
      "case x of
              Inr r \<Rightarrow> dict_abs cont d1 = dict_abs cont d \<and> valid_ref d1 r \<and> cont (dictGetKey (entry_at d1 r)) = cont k
            | Inl r \<Rightarrow> dict_abs cont d (cont k) = None \<and> dict_abs cont d1 = (dict_abs cont d)(cont k \<mapsto> None) \<and>
                       valid_ref d1 r \<and> cont (dictGetKey (entry_at d1 r)) = cont k"
    using dictAddRaw_ok [OF d k e] by blast
  show ?thesis
  proof (cases x)
    case (Inr r)
    then have r: "valid_ref d1 r" "cont (dictGetKey (entry_at d1 r)) = cont k" "dict_abs cont d1 = dict_abs cont d"
      using d1(6) by auto
    obtain k' w where w: "entry_at d1 r = Entry k' w" using entry_at_kind [OF d1(2) r(1)] n by (cases "entry_at d1 r") auto
    obtain d2 where d2: "set_val_at T r v d1 = Some d2" "dict_ok T cont H form d2"
        "dict_abs cont d2 = (dict_abs cont d)(cont k \<mapsto> Some (stored_val T v))" "useStoredKeyApi d2 = useStoredKeyApi d1"
        "pauseAutoResize d2 = pauseAutoResize d1" "ht_size_exp (ht0 d2) = ht_size_exp (ht0 d1)"
      using set_val_ok [OF d1(2) r(1) n, of v] r(2,3) by auto
    let ?d3 = "if valDestructor T then dict_call (Free_val w) d2 else d2"
    have "dictReplace R T d k v = Some (False, ?d3)" using Inr d1(1) w d2(1) by (simp add: dictReplace_def)
    moreover have "dict_ok T cont H form ?d3" using dict_ok_calls [OF d2(2), of "[Free_val w]"] d2(2) by (simp add: dict_call_def)
    moreover have "dict_abs cont ?d3 = dict_abs cont d2" by (simp add: dict_abs_def)
    moreover have "dict_abs cont d (cont k) \<noteq> None" using r dict_abs_entry [OF d1(2) r(1)] by auto
    ultimately show ?thesis using d2 d1 by simp
  next
    case (Inl r)
    then show ?thesis using d1 set_val_ok [OF d1(2) _ n, of r v] by (auto simp: dictReplace_def)
  qed
qed

lemma free_entry_ok:
  assumes "entry_kind_ok T he"
  shows "\<exists>cs. free_entry T he d = Some (d\<lparr>dict_calls := dict_calls d @ cs\<rparr>) \<and> buckets_reported cs = 0"
proof -
  have "dictGetVal he \<noteq> None" if "valDestructor T" using assms type_ok that by (cases he) (auto simp: dict_type_ok_def)
  then show ?thesis
    by (cases "valDestructor T"; cases "keyDestructor T")
       (auto simp: free_entry_def dict_call_def intro: exI [of _ "[]"] exI [of _ "[Free_key (dictGetKey he)]"]
         exI [of _ "[Free_val v]" for v] exI [of _ "[Free_key (dictGetKey he), Free_val v]" for v])
qed

lemma count_down_calls:
  "count_down s (d\<lparr>dict_calls := cs\<rparr>) = (count_down s d)\<lparr>dict_calls := cs\<rparr>"
  "dict_calls (count_down s d) = dict_calls d" "dict_calls (unlink_entry r d) = dict_calls d"
  by (cases r; simp add: count_down_def unlink_entry_def set_ht_def ht_of_def Let_def)+

lemma shrink_after_remove:
  assumes d: "dict_ok T cont H form d" and r: "valid_ref d r" and cs: "buckets_reported cs = 0"
    and d1: "d1 = (count_down (fst r) (unlink_entry r d))\<lparr>dict_calls := dict_calls d @ cs\<rparr>"
  shows "\<exists>d'. auto_dictShrinkIfNeeded R T d1 = Some d' \<and> dict_ok T cont H form d' \<and>
           dict_abs cont d' = (dict_abs cont d)(cont (dictGetKey (entry_at d r)) := None) \<and>
           useStoredKeyApi d' = useStoredKeyApi d \<and> pauseAutoResize d' = pauseAutoResize d \<and> pauserehash d' = pauserehash d"
proof -
  have ok1: "dict_ok T cont H form d1"
    using dict_ok_calls [OF remove_ok(1) [OF d r] cs] by (simp add: d1 count_down_calls)
  have "dict_items d = add_mset (dictGetKey (entry_at d r), entry_val (entry_at d r)) (dict_items d1)"
    using remove_ok(2) [OF d r] by (simp add: d1 entry_item_def dict_items_def)
  then have abs: "dict_abs cont d1 = (dict_abs cont d)(cont (dictGetKey (entry_at d r)) := None)"
    by (rule dict_abs_remove [OF d ok1])
  obtain d' where d': "auto_dictShrinkIfNeeded R T d1 = Some d'" "dict_kept T cont H form d1 d'"
    using auto_shrink_ok [OF ok1] by blast
  then show ?thesis
    using dict_abs_kept [OF ok1 d'(2)] abs by (auto simp: dict_kept_def d1 remove_flags)
qed

lemma dictGenericDelete_ok:
  assumes d: "dict_ok T cont H form d" and k: "form (useStoredKeyApi d) k"
  shows "\<exists>x d'. dictGenericDelete R T nofree d k = Some (x, d') \<and> dict_ok T cont H form d' \<and>
           dict_abs cont d' = (dict_abs cont d)(cont k := None) \<and> dict_abs cont d (cont k) = map_option entry_val x \<and>
           (x \<noteq> None \<longrightarrow> entry_kind_ok T (the x)) \<and>
           useStoredKeyApi d' = useStoredKeyApi d \<and> pauseAutoResize d' = pauseAutoResize d"
proof (cases "dictSize d = 0")
  case True
  have n: "dict_abs cont d (cont k) = None" by (rule empty_abs(2) [OF d True])
  then have "(dict_abs cont d)(cont k := None) = dict_abs cont d" by auto
  then show ?thesis using True d n by (simp add: dictGenericDelete_def)
next
  case False
  let ?idx = "ht_index (H (cont k)) (ht_size_exp (ht0 d))"
  obtain d1 where d1: "rehash_on_access R T d ?idx = Some d1" "dict_kept T cont H form d d1"
      "rehashidx d1 = -1 \<or> ht_size_exp (ht0 d1) = ht_size_exp (ht0 d)"
    using rehash_on_access_ok [OF d] by blast
  have ok: "dict_ok T cont H form d1" "ht_size_exp (ht0 d1) \<noteq> -1" "useStoredKeyApi d1 = useStoredKeyApi d"
      "pauseAutoResize d1 = pauseAutoResize d"
    using d1(2) nonempty_exp [OF d False] by (auto simp: dict_kept_def)
  have abs: "dict_abs cont d1 = dict_abs cont d" using dict_abs_kept [OF d d1(2)] .
  obtain r where r: "search_tables (key_matches T (useStoredKeyApi d) k) d1 (H (cont k)) ?idx = Some r"
      "search_result cont d1 (dict_entries d1) (cont k) r"
    using search_tables_ok [OF ok(1,2) k, of ?idx] d1(3) by fastforce
  have lookup: "dict_abs cont d (cont k) = map_option (\<lambda>r. entry_val (entry_at d1 r)) r"
    using search_result_abs [OF ok(1) r(2)] abs by simp
  show ?thesis
  proof (cases r)
    case None
    then have "(dict_abs cont d)(cont k := None) = dict_abs cont d" using lookup by auto
    then show ?thesis
      using None False d1 ok r hash_key [OF k] lookup abs by (simp add: dictGenericDelete_def Let_def)
  next
    case (Some x)
    have x: "valid_ref d1 x" "cont (dictGetKey (entry_at d1 x)) = cont k" using r(2) Some by (auto simp: search_result_def)
    let ?he = "entry_at d1 x"
    obtain cs where cs: "(if nofree then Some (unlink_entry x d1) else free_entry T ?he (unlink_entry x d1)) =
          Some ((unlink_entry x d1)\<lparr>dict_calls := dict_calls d1 @ cs\<rparr>)" "buckets_reported cs = 0"
    proof (cases nofree)
      case True
      then show ?thesis using that [of "[]"] by (simp add: count_down_calls(3) [of x d1, symmetric])
    next
      case False
      then show ?thesis
        using that free_entry_ok [OF entry_at_kind [OF ok(1) x(1)], of "unlink_entry x d1"] by (auto simp: count_down_calls)
    qed
    obtain d' where d': "auto_dictShrinkIfNeeded R T ((count_down (fst x) (unlink_entry x d1))\<lparr>dict_calls := dict_calls d1 @ cs\<rparr>) = Some d'"
        "dict_ok T cont H form d'" "dict_abs cont d' = (dict_abs cont d1)(cont (dictGetKey ?he) := None)"
        "useStoredKeyApi d' = useStoredKeyApi d1" "pauseAutoResize d' = pauseAutoResize d1"
      using shrink_after_remove [OF ok(1) x(1) cs(2) refl] by blast
    have "dictGenericDelete R T nofree d k = Some (Some ?he, d')"
      using False d1(1) r(1) Some ok(3) hash_key [OF k] cs(1) d'(1)
      by (simp add: dictGenericDelete_def Let_def count_down_calls)
    then show ?thesis
      using Some lookup d' x abs ok entry_at_kind [OF ok(1) x(1)] by simp
  qed
qed

lemma dict_ok_pause [simp]: "dict_ok T cont H form (d\<lparr>pauserehash := n\<rparr>) = dict_ok T cont H form d"
  by (simp add: dict_ok_def dict_items_def dictBuckets_def)

lemma pause_simps [simp]:
  "dict_abs cont (d\<lparr>pauserehash := n\<rparr>) = dict_abs cont d" "valid_ref (d\<lparr>pauserehash := n\<rparr>) r = valid_ref d r"
  "entry_at (d\<lparr>pauserehash := n\<rparr>) r = entry_at d r"
  by (simp_all add: dict_abs_def valid_ref_def entry_at_def ht_of_def split: prod.split)

lemma two_phase_find_ok:
  assumes d: "dict_ok T cont H form d" and k: "form (useStoredKeyApi d) k"
  shows "\<exists>r d'. dictTwoPhaseUnlinkFind R T d k = Some (r, d') \<and> dict_ok T cont H form d' \<and>
           dict_abs cont d' = dict_abs cont d \<and> search_result cont d' (dict_entries d') (cont k) r \<and>
           useStoredKeyApi d' = useStoredKeyApi d \<and> pauseAutoResize d' = pauseAutoResize d \<and>
           pauserehash d' = (if r = None then pauserehash d else pauserehash d + 1)"
proof (cases "dictSize d = 0")
  case True
  have "dict_entries d = {}" using empty_abs(1) [OF d True] set_dict_items [of d] by simp
  then show ?thesis using True d by (simp add: dictTwoPhaseUnlinkFind_def search_result_def)
next
  case False
  obtain d1 where d1: "(if dictIsRehashing d then dictRehashStep R T d else Some d) = Some d1" "dict_kept T cont H form d d1"
    using dictRehashStep_ok [OF d, of R] dict_kept_refl [OF d] by (cases "dictIsRehashing d") auto
  have ok: "dict_ok T cont H form d1" "ht_size_exp (ht0 d1) \<noteq> -1" "useStoredKeyApi d1 = useStoredKeyApi d"
      "pauseAutoResize d1 = pauseAutoResize d" "pauserehash d1 = pauserehash d"
    using d1(2) nonempty_exp [OF d False] by (auto simp: dict_kept_def)
  let ?idx = "ht_index (H (cont k)) (ht_size_exp (ht0 d1))"
  obtain r where r: "search_tables (key_matches T (useStoredKeyApi d) k) d1 (H (cont k)) ?idx = Some r"
      "search_result cont d1 (dict_entries d1) (cont k) r"
    using search_tables_ok [OF ok(1,2) k, of ?idx] by fastforce
  let ?d2 = "if r = None then d1 else d1\<lparr>pauserehash := pauserehash d1 + 1\<rparr>"
  have "dictTwoPhaseUnlinkFind R T d k = Some (r, ?d2)"
    using False d1(1) r(1) ok(3) hash_key [OF k] by (simp add: dictTwoPhaseUnlinkFind_def Let_def)
  moreover have "search_result cont ?d2 (dict_entries ?d2) (cont k) r"
    using r(2) by (cases r) (simp_all add: search_result_def)
  ultimately show ?thesis using ok dict_abs_kept [OF d d1(2)] by simp
qed

lemma two_phase_free_ok:
  assumes d: "dict_ok T cont H form d" and r: "valid_ref d r"
  shows "\<exists>d'. dictTwoPhaseUnlinkFree R T d (Some r) = Some d' \<and> dict_ok T cont H form d' \<and>
           dict_abs cont d' = (dict_abs cont d)(cont (dictGetKey (entry_at d r)) := None) \<and>
           useStoredKeyApi d' = useStoredKeyApi d \<and> pauseAutoResize d' = pauseAutoResize d \<and> pauserehash d' = pauserehash d - 1"
proof -
  have u: "unlink_entry r (count_down (fst r) d) = count_down (fst r) (unlink_entry r d)"
    by (cases r) (simp add: unlink_count_down)
  obtain cs where cs: "free_entry T (entry_at d r) (count_down (fst r) (unlink_entry r d)) =
        Some ((count_down (fst r) (unlink_entry r d))\<lparr>dict_calls := dict_calls d @ cs\<rparr>)" "buckets_reported cs = 0"
    using free_entry_ok [OF entry_at_kind [OF d r], of "count_down (fst r) (unlink_entry r d)"] by (auto simp: count_down_calls)
  obtain d' where d': "auto_dictShrinkIfNeeded R T ((count_down (fst r) (unlink_entry r d))\<lparr>dict_calls := dict_calls d @ cs\<rparr>) = Some d'"
      "dict_ok T cont H form d'" "dict_abs cont d' = (dict_abs cont d)(cont (dictGetKey (entry_at d r)) := None)"
      "useStoredKeyApi d' = useStoredKeyApi d" "pauseAutoResize d' = pauseAutoResize d" "pauserehash d' = pauserehash d"
    using shrink_after_remove [OF d r cs(2) refl] by blast
  then show ?thesis using cs(1) u by (simp add: dictTwoPhaseUnlinkFree_def Let_def)
qed

lemma free_chain_ok:
  assumes "list_all (entry_kind_ok T) es"
  shows "\<exists>cs. free_chain T es d = Some (d\<lparr>dict_calls := dict_calls d @ cs\<rparr>) \<and> buckets_reported cs = 0"
  using assms
proof (induction es arbitrary: d)
  case Nil
  then show ?case by (intro exI [of _ "[]"]) simp
next
  case (Cons e es)
  obtain cs where cs: "free_entry T e d = Some (d\<lparr>dict_calls := dict_calls d @ cs\<rparr>)" "buckets_reported cs = 0"
    using free_entry_ok [of e d] Cons.prems by auto
  obtain ds where "free_chain T es (d\<lparr>dict_calls := dict_calls d @ cs\<rparr>) = Some (d\<lparr>dict_calls := dict_calls d @ cs @ ds\<rparr>)"
      "buckets_reported ds = 0"
    using Cons.IH [of "d\<lparr>dict_calls := dict_calls d @ cs\<rparr>"] Cons.prems by auto
  then show ?case using cs by (intro exI [of _ "cs @ ds"]) simp
qed

lemma clear_loop_ok:
  assumes "\<forall>b\<in>set bs. list_all (entry_kind_ok T) b"
  shows "\<exists>cs. clear_loop T bs used d = Some (d\<lparr>dict_calls := dict_calls d @ cs\<rparr>) \<and> buckets_reported cs = 0"
  using assms
proof (induction bs arbitrary: d used)
  case Nil
  then show ?case by (intro exI [of _ "[]"]) simp
next
  case (Cons b bs)
  obtain cs where cs: "free_chain T b d = Some (d\<lparr>dict_calls := dict_calls d @ cs\<rparr>)" "buckets_reported cs = 0"
    using free_chain_ok [of b d] Cons.prems by auto
  obtain ds where "clear_loop T bs (used - length b) (d\<lparr>dict_calls := dict_calls d @ cs\<rparr>) =
      Some (d\<lparr>dict_calls := dict_calls d @ cs @ ds\<rparr>)" "buckets_reported ds = 0"
    using Cons.IH [of "used - length b" "d\<lparr>dict_calls := dict_calls d @ cs\<rparr>"] Cons.prems by auto
  then show ?case
    using cs by (cases "used = 0") (auto intro: exI [of _ "[]"] exI [of _ "cs @ ds"])
qed

lemma table_kinds:
  assumes "table_ok T cont H form t" "b \<in> set (ht_table t)"
  shows "list_all (entry_kind_ok T) b"
proof -
  obtain i where "i < length (ht_table t)" "ht_table t ! i = b" using assms(2) by (auto simp: in_set_conv_nth)
  then show ?thesis using table_ok_bucket(1) [OF assms(1)] by (auto simp: chain_ok_def list_all_iff)
qed

lemma dictClear_ok:
  assumes "table_ok T cont H form (ht_of s d)"
  shows "\<exists>cs. dictClear T s d = Some (set_ht s dictReset (d\<lparr>dict_calls := dict_calls d @ cs\<rparr>)) \<and> buckets_reported cs = 0"
  using clear_loop_ok [of "ht_table (ht_of s d)" "ht_used (ht_of s d)" d] table_kinds [OF assms]
  by (auto simp: dictClear_def)

lemma dictEmpty_ok:
  assumes d: "dict_ok T cont H form d"
  shows "\<exists>d'. dictEmpty T d = Some d' \<and> dict_ok T cont H form d' \<and> dict_abs cont d' = Map.empty \<and>
           useStoredKeyApi d' = useStoredKeyApi d \<and> pauseAutoResize d' = 0"
proof -
  define d0 where "d0 = dict_call (Bucket_changed (- int (dictBuckets d)))
    (if dictIsRehashing d then dict_call Rehashing_completed d else d)"
  have fields: "ht_of False d0 = ht0 d" "ht1 d0 = ht1 d" "useStoredKeyApi d0 = useStoredKeyApi d"
      "buckets_reported (dict_calls d0) = 0"
    using d by (auto simp: dict_ok_def d0_def ht_of_def)
  obtain cs where cs: "dictClear T False d0 = Some (set_ht False dictReset (d0\<lparr>dict_calls := dict_calls d0 @ cs\<rparr>))"
      "buckets_reported cs = 0"
    using dictClear_ok [of False d0] dict_okD(1) [OF d] fields(1) by auto
  define d1 where "d1 = set_ht False dictReset (d0\<lparr>dict_calls := dict_calls d0 @ cs\<rparr>)"
  have t1: "ht_of True d1 = ht1 d" using fields(2) by (simp add: d1_def set_ht_def ht_of_def)
  obtain ds where ds: "dictClear T True d1 = Some (set_ht True dictReset (d1\<lparr>dict_calls := dict_calls d1 @ ds\<rparr>))"
      "buckets_reported ds = 0"
    using dictClear_ok [of True d1] dict_okD(2) [OF d] t1 by auto
  define d2 where "d2 = (set_ht True dictReset (d1\<lparr>dict_calls := dict_calls d1 @ ds\<rparr>))
    \<lparr>rehashidx := -1, pauserehash := 0, pauseAutoResize := 0\<rparr>"
  have d2: "ht0 d2 = dictReset" "ht1 d2 = dictReset" "rehashidx d2 = -1" "buckets_reported (dict_calls d2) = 0"
      "useStoredKeyApi d2 = useStoredKeyApi d" "pauseAutoResize d2 = 0"
    using fields cs(2) ds(2) by (simp_all add: d2_def d1_def set_ht_def)
  have "dictBuckets (if dictIsRehashing d then dict_call Rehashing_completed d else d) = dictBuckets d"
    by (simp add: dictBuckets_def)
  then have "dictEmpty T d = (case dictClear T False d0 of None \<Rightarrow> None | Some d \<Rightarrow>
      map_option (\<lambda>d. d\<lparr>rehashidx := -1, pauserehash := 0, pauseAutoResize := 0\<rparr>) (dictClear T True d))"
    unfolding dictEmpty_def Let_def d0_def by (simp only:)
  also have "\<dots> = Some d2" using cs(1) ds(1) by (simp add: d1_def [symmetric] d2_def)
  finally have eq: "dictEmpty T d = Some d2" .
  have "dict_ok T cont H form d2" using d2 by (simp add: dict_ok_def dict_items_def dictBuckets_def)
  moreover have "dict_abs cont d2 = Map.empty" using d2 by (simp add: dict_abs_def)
  ultimately show ?thesis using eq d2(5,6) by simp
qed

end

end
