(* ===== verification/Redis_Siphash.thy ===== *)
theory Redis_Siphash
  imports Prelude
begin

text \<open>
  The hash functions of Redis: \<open>siphash\<close> and \<open>siphash_nocase\<close> of \<open>src/siphash.c\<close>, with one round per word and
  two at the end. The target is not one of those with \<open>UNALIGNED_LE_CPU\<close>: words are put together
  from bytes, and the result is written to memory and read back, which is the identity on a little-endian machine.
\<close>

definition siptlw :: "byte \<Rightarrow> byte" where
  "siptlw c = (if c \<ge> c8 CHR ''A'' \<and> c \<le> c8 CHR ''Z'' then c + (c8 CHR ''a'' - c8 CHR ''A'') else c)"

definition ROTL :: "64 word \<Rightarrow> nat \<Rightarrow> 64 word" where
  "ROTL x b = push_bit b x OR drop_bit (64 - b) x"

definition U8TO64_LE :: "byte list \<Rightarrow> 64 word" where
  "U8TO64_LE p =
     ucast (p ! 0) OR push_bit 8 (ucast (p ! 1)) OR push_bit 16 (ucast (p ! 2)) OR push_bit 24 (ucast (p ! 3)) OR
     push_bit 32 (ucast (p ! 4)) OR push_bit 40 (ucast (p ! 5)) OR push_bit 48 (ucast (p ! 6)) OR push_bit 56 (ucast (p ! 7))"

definition U8TO64_LE_NOCASE :: "byte list \<Rightarrow> 64 word" where
  "U8TO64_LE_NOCASE p =
     ucast (siptlw (p ! 0)) OR push_bit 8 (ucast (siptlw (p ! 1))) OR push_bit 16 (ucast (siptlw (p ! 2))) OR
     push_bit 24 (ucast (siptlw (p ! 3))) OR push_bit 32 (ucast (siptlw (p ! 4))) OR push_bit 40 (ucast (siptlw (p ! 5))) OR
     push_bit 48 (ucast (siptlw (p ! 6))) OR push_bit 56 (ucast (siptlw (p ! 7)))"

type_synonym sip_state = "64 word \<times> 64 word \<times> 64 word \<times> 64 word"

fun SIPROUND :: "sip_state \<Rightarrow> sip_state" where
  "SIPROUND (v0, v1, v2, v3) =
     (let v0 = v0 + v1;
          v1 = ROTL v1 13;
          v1 = v1 XOR v0;
          v0 = ROTL v0 32;
          v2 = v2 + v3;
          v3 = ROTL v3 16;
          v3 = v3 XOR v2;
          v0 = v0 + v3;
          v3 = ROTL v3 21;
          v3 = v3 XOR v0;
          v2 = v2 + v1;
          v1 = ROTL v1 17;
          v1 = v1 XOR v2;
          v2 = ROTL v2 32
      in (v0, v1, v2, v3))"

text \<open>The start from the key, and one word: \<open>v3 ^= m; SIPROUND; v0 ^= m\<close>.\<close>

definition sip_init :: "byte list \<Rightarrow> sip_state" where
  "sip_init k =
     (let k0 = U8TO64_LE k; k1 = U8TO64_LE (drop 8 k) in
      (0x736f6d6570736575 XOR k0, 0x646f72616e646f6d XOR k1, 0x6c7967656e657261 XOR k0, 0x7465646279746573 XOR k1))"

fun sip_word :: "64 word \<Rightarrow> sip_state \<Rightarrow> sip_state" where
  "sip_word m (v0, v1, v2, v3) = (case SIPROUND (v0, v1, v2, v3 XOR m) of (v0, v1, v2, v3) \<Rightarrow> (v0 XOR m, v1, v2, v3))"

fun sip_final :: "64 word \<Rightarrow> sip_state \<Rightarrow> 64 word" where
  "sip_final b s =
     (case sip_word b s of (v0, v1, v2, v3) \<Rightarrow>
        (case SIPROUND (SIPROUND (v0, v1, v2 XOR 0xff, v3)) of (v0, v1, v2, v3) \<Rightarrow> v0 XOR v1 XOR v2 XOR v3))"

text \<open>The switch on the bytes that are left falls through from the last of them to the first.\<close>

fun sip_tail :: "nat \<Rightarrow> byte list \<Rightarrow> 64 word \<Rightarrow> 64 word" where
  "sip_tail 0 xs b = b"
| "sip_tail (Suc n) xs b = sip_tail n xs (b OR push_bit (8 * n) (ucast (xs ! n)))"

fun sip_tail_nocase :: "nat \<Rightarrow> byte list \<Rightarrow> 64 word \<Rightarrow> 64 word" where
  "sip_tail_nocase 0 xs b = b"
| "sip_tail_nocase (Suc n) xs b = sip_tail_nocase n xs (b OR push_bit (8 * n) (ucast (siptlw (xs ! n))))"

text \<open>The loop over whole words, \<open>n\<close> of them.\<close>

fun siphash_loop :: "nat \<Rightarrow> byte list \<Rightarrow> sip_state \<Rightarrow> byte list \<times> sip_state" where
  "siphash_loop 0 xs s = (xs, s)"
| "siphash_loop (Suc n) xs s = siphash_loop n (drop 8 xs) (sip_word (U8TO64_LE xs) s)"

fun siphash_nocase_loop :: "nat \<Rightarrow> byte list \<Rightarrow> sip_state \<Rightarrow> byte list \<times> sip_state" where
  "siphash_nocase_loop 0 xs s = (xs, s)"
| "siphash_nocase_loop (Suc n) xs s = siphash_nocase_loop n (drop 8 xs) (sip_word (U8TO64_LE_NOCASE xs) s)"

definition siphash :: "byte list \<Rightarrow> byte list \<Rightarrow> 64 word" where
  "siphash xs k =
     (let inlen = length xs; (xs, s) = siphash_loop (inlen div 8) xs (sip_init k)
      in sip_final (sip_tail (inlen mod 8) xs (push_bit 56 (of_nat inlen))) s)"

definition siphash_nocase :: "byte list \<Rightarrow> byte list \<Rightarrow> 64 word" where
  "siphash_nocase xs k =
     (let inlen = length xs; (xs, s) = siphash_nocase_loop (inlen div 8) xs (sip_init k)
      in sip_final (sip_tail_nocase (inlen mod 8) xs (push_bit 56 (of_nat inlen))) s)"

section \<open>Hashing without case is hashing in lower case\<close>

lemma U8TO64_LE_NOCASE_map:
  assumes "8 \<le> length xs"
  shows "U8TO64_LE_NOCASE xs = U8TO64_LE (map siptlw xs)"
proof -
  have "map siptlw xs ! 0 = siptlw (xs ! 0)" using assms by (intro nth_map) linarith
  then show ?thesis using assms by (simp add: U8TO64_LE_NOCASE_def U8TO64_LE_def)
qed

lemma sip_tail_nocase_map: "n \<le> length xs \<Longrightarrow> sip_tail_nocase n xs b = sip_tail n (map siptlw xs) b"
  by (induction n arbitrary: b) auto

lemma siphash_nocase_loop_map:
  assumes "8 * n \<le> length xs"
  shows "fst (siphash_nocase_loop n xs s) = drop (8 * n) xs"
    "siphash_loop n (map siptlw xs) s = (map siptlw (drop (8 * n) xs), snd (siphash_nocase_loop n xs s))"
  using assms
proof (induction n arbitrary: xs s)
  case (Suc n)
  { case 1 show ?case using Suc.IH(1) [of "drop 8 xs"] 1 by (simp add: add.commute) }
  { case 2 show ?case
      using Suc.IH(2) [of "drop 8 xs" "sip_word (U8TO64_LE_NOCASE xs) s"] 2
      by (simp add: U8TO64_LE_NOCASE_map drop_map add.commute) }
qed auto

lemma siphash_nocase_map: "siphash_nocase xs k = siphash (map siptlw xs) k"
proof -
  have n: "8 * (length xs div 8) \<le> length xs" by simp
  have left: "length (drop (8 * (length xs div 8)) xs) = length xs mod 8"
    by (simp add: minus_mult_div_eq_mod)
  obtain ys t where loop: "siphash_nocase_loop (length xs div 8) xs (sip_init k) = (ys, t)" by (metis surj_pair)
  then have "ys = drop (8 * (length xs div 8)) xs"
      "siphash_loop (length xs div 8) (map siptlw xs) (sip_init k) = (map siptlw ys, t)"
    using siphash_nocase_loop_map [OF n, of "sip_init k"] by auto
  then show ?thesis
    using loop left by (simp add: siphash_nocase_def siphash_def sip_tail_nocase_map)
qed

end
