(* ===== verification/Redis_Dict_Types.thy ===== *)
theory Redis_Dict_Types
  imports Redis_Dict_Ops Redis_Siphash
begin

text \<open>
  Dictionary types of \<open>src/server.c\<close> whose keys are \<open>sds\<close> strings: the types of databases, of sets and of the
  command table. A key is the content of its string. They meet the contract of \<open>dict_type\<close>, the command table for
  names without null bytes only.
\<close>

section \<open>Hash and comparison functions\<close>

text \<open>\<open>dictGenHashFunction\<close> and \<open>dictGenCaseHashFunction\<close>; \<open>seed\<close> is \<open>dict_hash_function_seed\<close>.\<close>

definition dictGenHashFunction :: "byte list \<Rightarrow> byte list \<Rightarrow> 64 word" where
  "dictGenHashFunction seed key = siphash key seed"

definition dictGenCaseHashFunction :: "byte list \<Rightarrow> byte list \<Rightarrow> 64 word" where
  "dictGenCaseHashFunction seed key = siphash_nocase key seed"

definition dictSdsHash :: "byte list \<Rightarrow> byte list \<Rightarrow> 64 word" where
  "dictSdsHash seed key = dictGenHashFunction seed key"

definition dictSdsCaseHash :: "byte list \<Rightarrow> byte list \<Rightarrow> 64 word" where
  "dictSdsCaseHash seed key = dictGenCaseHashFunction seed key"

definition dictSdsKeyCompare :: "byte list \<Rightarrow> byte list \<Rightarrow> bool" where
  "dictSdsKeyCompare key1 key2 =
     (let l1 = length key1; l2 = length key2 in if l1 \<noteq> l2 then False else take l1 key1 = take l1 key2)"

text \<open>\<open>strcasecmp(a, b) == 0\<close> of the C library; the byte behind the string is a null.\<close>

definition tolower_ascii :: "byte \<Rightarrow> byte" where
  "tolower_ascii c = (if c8 CHR ''A'' \<le> c \<and> c \<le> c8 CHR ''Z'' then c + 32 else c)"

fun strcasecmp_eq :: "byte list \<Rightarrow> byte list \<Rightarrow> bool" where
  "strcasecmp_eq [] [] = True"
| "strcasecmp_eq (a # as) [] = (a = 0)"
| "strcasecmp_eq [] (b # bs) = (b = 0)"
| "strcasecmp_eq (a # as) (b # bs) =
     (if a = 0 \<or> b = 0 \<or> tolower_ascii a \<noteq> tolower_ascii b then tolower_ascii a = tolower_ascii b
      else strcasecmp_eq as bs)"

definition dictSdsKeyCaseCompare :: "byte list \<Rightarrow> byte list \<Rightarrow> bool" where
  "dictSdsKeyCaseCompare key1 key2 = strcasecmp_eq key1 key2"

section \<open>Types\<close>

text \<open>
  \<open>dictResizeAllowed\<close> asks the memory management of the server; what it answers is the parameter \<open>allowed\<close>. The
  pointer of an \<open>sds\<close> string is odd, since its headers have an odd size and allocations are aligned.
\<close>

definition dbDictType ::
  "byte list \<Rightarrow> (nat \<Rightarrow> nat \<Rightarrow> nat \<Rightarrow> bool) \<Rightarrow> (byte list, 'v) dictType" where
  "dbDictType seed allowed =
     \<lparr>hashFunction = dictSdsHash seed, keyDup = None, valDup = None, keyCompare = Some dictSdsKeyCompare,
      keyDestructor = True, valDestructor = True, resizeAllowed = Some allowed, no_value = False, keys_are_odd = False,
      storedHashFunction = None, storedKeyCompare = None, key_lsb = (\<lambda>_. True)\<rparr>"

definition setDictType :: "byte list \<Rightarrow> (byte list, 'v) dictType" where
  "setDictType seed =
     \<lparr>hashFunction = dictSdsHash seed, keyDup = None, valDup = None, keyCompare = Some dictSdsKeyCompare,
      keyDestructor = True, valDestructor = False, resizeAllowed = None, no_value = True, keys_are_odd = True,
      storedHashFunction = None, storedKeyCompare = None, key_lsb = (\<lambda>_. True)\<rparr>"

definition commandTableDictType :: "byte list \<Rightarrow> (byte list, 'v) dictType" where
  "commandTableDictType seed =
     \<lparr>hashFunction = dictSdsCaseHash seed, keyDup = None, valDup = None, keyCompare = Some dictSdsKeyCaseCompare,
      keyDestructor = True, valDestructor = False, resizeAllowed = None, no_value = False, keys_are_odd = False,
      storedHashFunction = None, storedKeyCompare = None, key_lsb = (\<lambda>_. True)\<rparr>"

section \<open>They meet the contract\<close>

lemma dictSdsKeyCompare_eq: "dictSdsKeyCompare a b \<longleftrightarrow> a = b"
  by (auto simp: dictSdsKeyCompare_def Let_def)

lemma db_type_ok: "dict_type_ok (dbDictType seed allowed) (\<lambda>k. k) (dictSdsHash seed) (\<lambda>_ _. True)"
  by (simp add: dict_type_ok_def dbDictType_def dictHashKey_def dictGetKeyCmpFunc_def dictSdsKeyCompare_eq)

lemma set_type_ok: "dict_type_ok (setDictType seed) (\<lambda>k. k) (dictSdsHash seed) (\<lambda>_ _. True)"
  by (simp add: dict_type_ok_def setDictType_def dictHashKey_def dictGetKeyCmpFunc_def dictSdsKeyCompare_eq)

lemma siptlw_tolower: "siptlw c = tolower_ascii c"
  by (simp add: siptlw_def tolower_ascii_def)

lemma strcasecmp_no_null:
  assumes "0 \<notin> set a" "0 \<notin> set b"
  shows "strcasecmp_eq a b \<longleftrightarrow> map siptlw a = map siptlw b"
  using assms by (induction a b rule: strcasecmp_eq.induct) (auto simp: siptlw_tolower)

lemma command_type_ok:
  "dict_type_ok (commandTableDictType seed) (map siptlw) (dictSdsHash seed) (\<lambda>_ k. 0 \<notin> set k)"
  by (simp add: dict_type_ok_def commandTableDictType_def dictHashKey_def dictGetKeyCmpFunc_def dictSdsKeyCaseCompare_def
      strcasecmp_no_null dictSdsCaseHash_def dictGenCaseHashFunction_def siphash_nocase_map dictSdsHash_def dictGenHashFunction_def)

interpretation db_type: dict_type "dbDictType seed allowed" "\<lambda>k. k" "dictSdsHash seed" "\<lambda>_ _. True" for seed allowed
  by unfold_locales (rule db_type_ok)

interpretation set_type: dict_type "setDictType seed" "\<lambda>k. k" "dictSdsHash seed" "\<lambda>_ _. True" for seed
  by unfold_locales (rule set_type_ok)

interpretation command_type: dict_type "commandTableDictType seed" "map siptlw" "dictSdsHash seed" "\<lambda>_ k. 0 \<notin> set k" for seed
  by unfold_locales (rule command_type_ok)

end
