(* ===== verification/Simulation.thy ===== *)
theory Simulation
  imports Main
begin

text \<open>
  Refinement of an abstract machine by a program whose operations may fail (\<open>None\<close>): the locale \<open>simulation\<close>
  states what one operation promises, and its lemma what follows for sequences of operations.
\<close>

fun run_ops :: "('o \<Rightarrow> 's \<Rightarrow> ('r \<times> 's) option) \<Rightarrow> 'o list \<Rightarrow> 's \<Rightarrow> ('r list \<times> 's) option" where
  "run_ops step [] s = Some ([], s)"
| "run_ops step (x # xs) s =
     (case step x s of
        None \<Rightarrow> None
      | Some (r, s) \<Rightarrow> map_option (\<lambda>(rs, s). (r # rs, s)) (run_ops step xs s))"

fun run_spec :: "('o \<Rightarrow> 'a \<Rightarrow> 'r \<times> 'a) \<Rightarrow> 'o list \<Rightarrow> 'a \<Rightarrow> 'r list \<times> 'a" where
  "run_spec spec [] a = ([], a)"
| "run_spec spec (x # xs) a =
     (let (r, a) = spec x a; (rs, a) = run_spec spec xs a in (r # rs, a))"

text \<open>What the callers of the operations of a run ensure, which may depend on the state of the abstract machine.\<close>

fun run_guard :: "('o \<Rightarrow> 'a \<Rightarrow> bool) \<Rightarrow> ('o \<Rightarrow> 'a \<Rightarrow> 'r \<times> 'a) \<Rightarrow> 'o list \<Rightarrow> 'a \<Rightarrow> bool" where
  "run_guard ok spec [] a \<longleftrightarrow> True"
| "run_guard ok spec (x # xs) a \<longleftrightarrow> ok x a \<and> run_guard ok spec xs (snd (spec x a))"

text \<open>
  \<open>ok\<close> is what the caller of an operation has to ensure, \<open>inv\<close> the invariant of the program and \<open>abs\<close> the
  state of the abstract machine that a state of the program stands for.
\<close>

locale guarded_simulation =
  fixes ok :: "'o \<Rightarrow> 'a \<Rightarrow> bool"
    and inv :: "'s \<Rightarrow> bool"
    and abs :: "'s \<Rightarrow> 'a"
    and step :: "'o \<Rightarrow> 's \<Rightarrow> ('r \<times> 's) option"
    and spec :: "'o \<Rightarrow> 'a \<Rightarrow> 'r \<times> 'a"
  assumes guarded_step: "inv s \<Longrightarrow> ok x (abs s) \<Longrightarrow> \<exists>r s'. step x s = Some (r, s') \<and> inv s' \<and> spec x (abs s) = (r, abs s')"
begin

lemma guarded_run:
  assumes "inv s" "run_guard ok spec xs (abs s)"
  shows "\<exists>rs s'. run_ops step xs s = Some (rs, s') \<and> inv s' \<and> run_spec spec xs (abs s) = (rs, abs s')"
  using assms
proof (induction xs arbitrary: s)
  case (Cons x xs)
  obtain r s1 where s1: "step x s = Some (r, s1)" "inv s1" "spec x (abs s) = (r, abs s1)"
    using guarded_step [of s x] Cons.prems by auto
  obtain rs s2 where "run_ops step xs s1 = Some (rs, s2)" "inv s2" "run_spec spec xs (abs s1) = (rs, abs s2)"
    using Cons.IH [OF s1(2)] Cons.prems s1(3) by auto
  with s1 show ?case by simp
qed simp

end

text \<open>The case where it does not depend on the state.\<close>

locale simulation =
  fixes ok :: "'o \<Rightarrow> bool"
    and inv :: "'s \<Rightarrow> bool"
    and abs :: "'s \<Rightarrow> 'a"
    and step :: "'o \<Rightarrow> 's \<Rightarrow> ('r \<times> 's) option"
    and spec :: "'o \<Rightarrow> 'a \<Rightarrow> 'r \<times> 'a"
  assumes step_simulates: "inv s \<Longrightarrow> ok x \<Longrightarrow> \<exists>r s'. step x s = Some (r, s') \<and> inv s' \<and> spec x (abs s) = (r, abs s')"

sublocale simulation \<subseteq> guarded: guarded_simulation "\<lambda>x a. ok x" inv abs step spec
  by unfold_locales (rule step_simulates)

lemma run_guard_all: "run_guard (\<lambda>x a. ok x) spec xs a \<longleftrightarrow> list_all ok xs"
  by (induction xs arbitrary: a) simp_all

context simulation
begin

lemma run_simulates:
  assumes "inv s" "list_all ok xs"
  shows "\<exists>rs s'. run_ops step xs s = Some (rs, s') \<and> inv s' \<and> run_spec spec xs (abs s) = (rs, abs s')"
  using guarded.guarded_run [of s xs] assms by (simp add: run_guard_all)

end

end
