(* ===== verification/Redis_Dict_Proofs.thy ===== *)
theory Redis_Dict_Proofs
  imports Redis_Dict_Types Simulation
begin

text \<open>
  Sequences of operations on a dictionary simulate the same sequences on a finite map (by the locale \<open>simulation\<close>), and
  incremental rehashing terminates.
\<close>

section \<open>Sequences of operations\<close>

text \<open>
  The operations that a client may perform; each is done under a setting of \<open>dict_can_resize\<close>. The removal in
  two phases is one operation here.
\<close>

datatype ('k, 'v) dict_op =
    Dict_find 'k | Dict_add 'k 'v | Dict_replace 'k 'v | Dict_delete 'k | Dict_unlink 'k | Dict_two_phase 'k
  | Dict_rehash nat | Dict_expand nat | Dict_try_expand bool nat | Dict_empty

text \<open>Results: the value of the entry that was found, or whether the operation did something; \<open>Done\<close> hides what depends on sizes.\<close>

datatype 'v dict_res = Found "'v option option" | Did bool | Done

definition dict_step ::
  "('k, 'v) dictType \<Rightarrow> dict_resize \<times> ('k, 'v) dict_op \<Rightarrow> ('k, 'v) dict \<Rightarrow> ('v dict_res \<times> ('k, 'v) dict) option" where
  "dict_step T x d =
     (let R = fst x in
      case snd x of
        Dict_find k \<Rightarrow>
          map_option (\<lambda>(r, d). (Found (map_option (\<lambda>r. entry_val (entry_at d r)) r), d)) (dictFind R T d k)
      | Dict_add k v \<Rightarrow> map_option (\<lambda>(r, d). (Did (r = DICT_OK), d)) (dictAdd R T d k v)
      | Dict_replace k v \<Rightarrow> map_option (\<lambda>(new, d). (Did new, d)) (dictReplace R T d k v)
      | Dict_delete k \<Rightarrow> map_option (\<lambda>(r, d). (Did (r = DICT_OK), d)) (dictDelete R T d k)
      | Dict_unlink k \<Rightarrow>
          (case dictUnlink R T d k of
             None \<Rightarrow> None
           | Some (he, d) \<Rightarrow> map_option (\<lambda>d. (Found (map_option entry_val he), d)) (dictFreeUnlinkedEntry T d he))
      | Dict_two_phase k \<Rightarrow>
          (case dictTwoPhaseUnlinkFind R T d k of
             None \<Rightarrow> None
           | Some (r, d) \<Rightarrow>
               map_option (\<lambda>d'. (Found (map_option (\<lambda>r. entry_val (entry_at d r)) r), d')) (dictTwoPhaseUnlinkFree R T d r))
      | Dict_rehash n \<Rightarrow> map_option (\<lambda>(_, d). (Done, d)) (dictRehash R T d n)
      | Dict_expand n \<Rightarrow> map_option (\<lambda>(_, d). (Done, d)) (dictExpand d n)
      | Dict_try_expand alloc n \<Rightarrow> map_option (\<lambda>(_, d). (Done, d)) (dictTryExpand alloc d n)
      | Dict_empty \<Rightarrow> map_option (\<lambda>d. (Done, d)) (dictEmpty T d))"

text \<open>The same on a finite map from contents to values.\<close>

definition map_step ::
  "('k, 'v) dictType \<Rightarrow> ('k \<Rightarrow> 'c) \<Rightarrow> dict_resize \<times> ('k, 'v) dict_op \<Rightarrow> ('c \<rightharpoonup> 'v option) \<Rightarrow> 'v dict_res \<times> ('c \<rightharpoonup> 'v option)" where
  "map_step T cont x m =
     (case snd x of
        Dict_find k \<Rightarrow> (Found (m (cont k)), m)
      | Dict_add k v \<Rightarrow>
          if m (cont k) = None then (Did True, m(cont k \<mapsto> (if no_value T then None else Some (stored_val T v))))
          else (Did False, m)
      | Dict_replace k v \<Rightarrow> (Did (m (cont k) = None), m(cont k \<mapsto> Some (stored_val T v)))
      | Dict_delete k \<Rightarrow> (Did (m (cont k) \<noteq> None), m(cont k := None))
      | Dict_unlink k \<Rightarrow> (Found (m (cont k)), m(cont k := None))
      | Dict_two_phase k \<Rightarrow> (Found (m (cont k)), m(cont k := None))
      | Dict_empty \<Rightarrow> (Done, Map.empty)
      | _ \<Rightarrow> (Done, m))"

text \<open>
  What the caller ensures: keys in the form of the interface in use, keys that are stored without being duplicated in
  stored form, and no replacement of values in a type without values.
\<close>

definition dict_op_ok :: "('k, 'v) dictType \<Rightarrow> (bool \<Rightarrow> 'k \<Rightarrow> bool) \<Rightarrow> bool \<Rightarrow> dict_resize \<times> ('k, 'v) dict_op \<Rightarrow> bool" where
  "dict_op_ok T form u x =
     (case snd x of
        Dict_find k \<Rightarrow> form u k
      | Dict_add k v \<Rightarrow> form u k \<and> (keyDup T = None \<longrightarrow> form True k)
      | Dict_replace k v \<Rightarrow> form u k \<and> (keyDup T = None \<longrightarrow> form True k) \<and> \<not> no_value T
      | Dict_delete k \<Rightarrow> form u k
      | Dict_unlink k \<Rightarrow> form u k
      | Dict_two_phase k \<Rightarrow> form u k
      | _ \<Rightarrow> True)"

text \<open>The invariant between operations: automatic resizing is not paused.\<close>

definition dict_inv ::
  "('k, 'v) dictType \<Rightarrow> ('k \<Rightarrow> 'c) \<Rightarrow> ('c \<Rightarrow> 64 word) \<Rightarrow> (bool \<Rightarrow> 'k \<Rightarrow> bool) \<Rightarrow> bool \<Rightarrow> ('k, 'v) dict \<Rightarrow> bool" where
  "dict_inv T cont H form u d \<longleftrightarrow> dict_ok T cont H form d \<and> useStoredKeyApi d = u \<and> pauseAutoResize d \<le> 0"

lemma dict_kept_inv:
  "dict_inv T cont H form u d \<Longrightarrow> dict_kept T cont H form d d' \<Longrightarrow>
     dict_inv T cont H form u d' \<and> dict_abs cont d' = dict_abs cont d"
  using dict_abs_kept [of T cont H form d d'] by (auto simp: dict_inv_def dict_kept_def)

context dict_type
begin

lemma find_step:
  assumes d: "dict_inv T cont H form u d" and k: "form u k"
  shows "\<exists>r d'. dict_step T (R, Dict_find k) d = Some (r, d') \<and> dict_inv T cont H form u d' \<and>
           map_step T cont (R, Dict_find k) (dict_abs cont d) = (r, dict_abs cont d')"
proof -
  have ok: "dict_ok T cont H form d" "form (useStoredKeyApi d) k" using d k by (auto simp: dict_inv_def)
  obtain r d' where d': "dictFind R T d k = Some (r, d')" "dict_kept T cont H form d d'"
      "search_result cont d' (dict_entries d') (cont k) r"
    using dictFind_ok [OF ok] by blast
  have "dict_inv T cont H form u d'" "dict_abs cont d' = dict_abs cont d" using dict_kept_inv [OF d d'(2)] by auto
  moreover have "dict_abs cont d' (cont k) = map_option (\<lambda>r. entry_val (entry_at d' r)) r"
    using search_result_abs [OF _ d'(3)] d'(2) by (auto simp: dict_kept_def)
  ultimately show ?thesis using d'(1) by (simp add: dict_step_def map_step_def)
qed

lemma add_step:
  assumes d: "dict_inv T cont H form u d" and k: "form u k" "keyDup T = None \<longrightarrow> form True k"
  shows "\<exists>r d'. dict_step T (R, Dict_add k v) d = Some (r, d') \<and> dict_inv T cont H form u d' \<and>
           map_step T cont (R, Dict_add k v) (dict_abs cont d) = (r, dict_abs cont d')"
proof -
  have ok: "dict_ok T cont H form d" "form (useStoredKeyApi d) k" "pauseAutoResize d \<le> 0 \<or> ht_size_exp (ht0 d) \<noteq> -1"
    using d k by (auto simp: dict_inv_def)
  show ?thesis
    using dictAdd_ok [OF ok(1,2) k(2) ok(3), of R v] d
    by (auto simp: dict_step_def map_step_def dict_inv_def split: if_splits)
qed

lemma replace_step:
  assumes d: "dict_inv T cont H form u d" and k: "form u k" "keyDup T = None \<longrightarrow> form True k" "\<not> no_value T"
  shows "\<exists>r d'. dict_step T (R, Dict_replace k v) d = Some (r, d') \<and> dict_inv T cont H form u d' \<and>
           map_step T cont (R, Dict_replace k v) (dict_abs cont d) = (r, dict_abs cont d')"
proof -
  have ok: "dict_ok T cont H form d" "form (useStoredKeyApi d) k" "pauseAutoResize d \<le> 0 \<or> ht_size_exp (ht0 d) \<noteq> -1"
    using d k by (auto simp: dict_inv_def)
  show ?thesis
    using dictReplace_ok [OF ok(1,2) k(2) ok(3) k(3), of R v] d
    by (auto simp: dict_step_def map_step_def dict_inv_def)
qed

lemma delete_step:
  assumes d: "dict_inv T cont H form u d" and k: "form u k"
  shows "\<exists>r d'. dict_step T (R, Dict_delete k) d = Some (r, d') \<and> dict_inv T cont H form u d' \<and>
           map_step T cont (R, Dict_delete k) (dict_abs cont d) = (r, dict_abs cont d')"
proof -
  have ok: "dict_ok T cont H form d" "form (useStoredKeyApi d) k" using d k by (auto simp: dict_inv_def)
  obtain x d1 where d1: "dictGenericDelete R T False d k = Some (x, d1)" "dict_ok T cont H form d1"
      "dict_abs cont d1 = (dict_abs cont d)(cont k := None)" "dict_abs cont d (cont k) = map_option entry_val x"
      "useStoredKeyApi d1 = useStoredKeyApi d" "pauseAutoResize d1 = pauseAutoResize d"
    using dictGenericDelete_ok [OF ok, of R False] by blast
  then show ?thesis
    using d by (cases x) (simp_all add: dict_step_def dictDelete_def map_step_def dict_inv_def)
qed

lemma unlink_step:
  assumes d: "dict_inv T cont H form u d" and k: "form u k"
  shows "\<exists>r d'. dict_step T (R, Dict_unlink k) d = Some (r, d') \<and> dict_inv T cont H form u d' \<and>
           map_step T cont (R, Dict_unlink k) (dict_abs cont d) = (r, dict_abs cont d')"
proof -
  have ok: "dict_ok T cont H form d" "form (useStoredKeyApi d) k" using d k by (auto simp: dict_inv_def)
  obtain x d1 where d1: "dictGenericDelete R T True d k = Some (x, d1)" "dict_ok T cont H form d1"
      "dict_abs cont d1 = (dict_abs cont d)(cont k := None)" "dict_abs cont d (cont k) = map_option entry_val x"
      "x \<noteq> None \<longrightarrow> entry_kind_ok T (the x)" "useStoredKeyApi d1 = useStoredKeyApi d" "pauseAutoResize d1 = pauseAutoResize d"
    using dictGenericDelete_ok [OF ok] by blast
  show ?thesis
  proof (cases x)
    case None
    then show ?thesis using d d1 by (simp add: dict_step_def dictUnlink_def dictFreeUnlinkedEntry_def map_step_def dict_inv_def)
  next
    case (Some he)
    obtain cs where cs: "free_entry T he d1 = Some (d1\<lparr>dict_calls := dict_calls d1 @ cs\<rparr>)" "buckets_reported cs = 0"
      using free_entry_ok [of he d1] d1(5) Some by auto
    have "dict_abs cont (d1\<lparr>dict_calls := dict_calls d1 @ cs\<rparr>) = dict_abs cont d1" by (simp add: dict_abs_def)
    then show ?thesis
      using d d1 Some cs dict_ok_calls [OF d1(2) cs(2)]
      by (simp add: dict_step_def dictUnlink_def dictFreeUnlinkedEntry_def map_step_def dict_inv_def)
  qed
qed

lemma two_phase_step:
  assumes d: "dict_inv T cont H form u d" and k: "form u k"
  shows "\<exists>r d'. dict_step T (R, Dict_two_phase k) d = Some (r, d') \<and> dict_inv T cont H form u d' \<and>
           map_step T cont (R, Dict_two_phase k) (dict_abs cont d) = (r, dict_abs cont d')"
proof -
  have ok: "dict_ok T cont H form d" "form (useStoredKeyApi d) k" using d k by (auto simp: dict_inv_def)
  obtain r d1 where d1: "dictTwoPhaseUnlinkFind R T d k = Some (r, d1)" "dict_ok T cont H form d1"
      "dict_abs cont d1 = dict_abs cont d" "search_result cont d1 (dict_entries d1) (cont k) r"
      "useStoredKeyApi d1 = useStoredKeyApi d" "pauseAutoResize d1 = pauseAutoResize d"
    using two_phase_find_ok [OF ok] by blast
  have lookup: "dict_abs cont d (cont k) = map_option (\<lambda>r. entry_val (entry_at d1 r)) r"
    using search_result_abs [OF d1(2,4)] d1(3) by simp
  show ?thesis
  proof (cases r)
    case None
    then have "(dict_abs cont d)(cont k := None) = dict_abs cont d" using lookup by auto
    then show ?thesis
      using None d d1 lookup by (simp add: dict_step_def dictTwoPhaseUnlinkFree_def map_step_def dict_inv_def)
  next
    case (Some x)
    then have x: "valid_ref d1 x" "cont (dictGetKey (entry_at d1 x)) = cont k" using d1(4) by (auto simp: search_result_def)
    show ?thesis
      using two_phase_free_ok [OF d1(2) x(1), of R] Some d d1 lookup x
      by (auto simp: dict_step_def map_step_def dict_inv_def)
  qed
qed

lemma other_step:
  assumes d: "dict_inv T cont H form u d" and x: "x = Dict_rehash n \<or> x = Dict_expand n \<or> x = Dict_try_expand a n \<or> x = Dict_empty"
  shows "\<exists>r d'. dict_step T (R, x) d = Some (r, d') \<and> dict_inv T cont H form u d' \<and>
           map_step T cont (R, x) (dict_abs cont d) = (r, dict_abs cont d')"
proof -
  have ok: "dict_ok T cont H form d" using d by (auto simp: dict_inv_def)
  consider "x = Dict_rehash n" | "x = Dict_expand n" | "x = Dict_try_expand a n" | "x = Dict_empty" using x by blast
  then show ?thesis
  proof cases
    case 1
    then show ?thesis
      using dictRehash_ok [OF ok, of R n] dict_kept_inv [OF d] by (auto simp: dict_step_def map_step_def)
  next
    case 2
    then show ?thesis
      using dictExpand_ok [OF ok, of n] dict_kept_inv [OF d] by (auto simp: dict_step_def map_step_def)
  next
    case 3
    then show ?thesis
      using dictExpand_gen_ok [OF ok, of a n] dict_kept_inv [OF d]
      by (auto simp: dict_step_def map_step_def dictTryExpand_def)
  next
    case 4
    then show ?thesis
      using dictEmpty_ok [OF ok] d by (auto simp: dict_step_def map_step_def dict_inv_def)
  qed
qed

lemma dict_step_simulates:
  assumes d: "dict_inv T cont H form u d" and x: "dict_op_ok T form u x"
  shows "\<exists>r d'. dict_step T x d = Some (r, d') \<and> dict_inv T cont H form u d' \<and> map_step T cont x (dict_abs cont d) = (r, dict_abs cont d')"
proof -
  obtain R y where [simp]: "x = (R, y)" by (cases x)
  show ?thesis
    using x find_step [OF d] add_step [OF d] replace_step [OF d] delete_step [OF d] unlink_step [OF d] two_phase_step [OF d]
      other_step [OF d]
    by (cases y) (simp_all add: dict_op_ok_def)
qed

end

sublocale dict_type \<subseteq> sim: simulation "dict_op_ok T form u" "dict_inv T cont H form u" "dict_abs cont" "dict_step T" "map_step T cont" for u
  by unfold_locales (rule dict_step_simulates)

context dict_type
begin

lemma run_refines:
  assumes "list_all (dict_op_ok T form u) ops" "dict_inv T cont H form u d"
  shows "\<exists>rs d'. run_ops (dict_step T) ops d = Some (rs, d') \<and> dict_inv T cont H form u d' \<and>
           run_spec (map_step T cont) ops (dict_abs cont d) = (rs, dict_abs cont d')"
  using sim.run_simulates [OF assms(2,1)] .

lemma rehash_us_loop_ok:
  assumes "dict_ok T cont H form d"
  shows "\<exists>k d'. rehash_us_loop R T clock us i d = Some (k, d') \<and> dict_kept T cont H form d d' \<and>
           ((\<forall>j. clock j < us) \<longrightarrow> R = DICT_RESIZE_ENABLE \<longrightarrow> \<not> dictIsRehashing d')"
  using assms
proof (induction "nat (int (length (ht_table (ht0 d))) - rehashidx d)" arbitrary: d i rule: less_induct)
  case less
  obtain b d1 where d1: "dictRehash R T d 100 = Some (b, d1)" "dict_kept T cont H form d d1"
      "rehashidx d1 = -1 \<or> ht_size_exp (ht0 d1) = ht_size_exp (ht0 d)"
      "\<not> rehash_held_back R d \<longrightarrow> (0::nat) < 100 \<longrightarrow> rehashidx d1 = -1 \<and> \<not> b \<or> b \<and> rehashidx d < rehashidx d1"
    using dictRehash_ok [OF less.prems, of R 100] by (elim exE conjE) (rule that)
  have ok1: "dict_ok T cont H form d1" using d1(2) by (simp add: dict_kept_def)
  have held: "\<not> b \<and> d1 = d" if "rehash_held_back R d" using d1(1) that by (simp add: dictRehash_def)
  show ?case
  proof (cases b)
    case False
    have "\<not> dictIsRehashing d1" if "R = DICT_RESIZE_ENABLE"
    proof (cases "rehash_held_back R d")
      case True
      then show ?thesis using held that by (auto simp: rehash_held_back_def Let_def)
    next
      case no: False
      then show ?thesis using d1(4) False by (simp add: dictIsRehashing_def)
    qed
    then show ?thesis using False d1 by (simp add: rehash_us_loop.simps [of R T clock us i d])
  next
    case True
    then have nh: "\<not> rehash_held_back R d" using held by blast
    then have lt: "rehashidx d < rehashidx d1" using d1(4) True by simp
    have r: "dictIsRehashing d" using nh by (auto simp: rehash_held_back_def Let_def)
    then have pos: "0 \<le> rehashidx d" using less.prems by (auto simp: dict_ok_def dictIsRehashing_def)
    then have "ht_size_exp (ht0 d1) = ht_size_exp (ht0 d)" "rehashidx d1 \<noteq> -1" using d1(3) lt by auto
    then have len: "length (ht_table (ht0 d1)) = length (ht_table (ht0 d))" "rehashidx d1 \<le> int (length (ht_table (ht0 d1)))"
      using table_ok_size [OF dict_okD(1) [OF ok1]] table_ok_size [OF dict_okD(1) [OF less.prems]] ok1
      by (auto simp: dict_ok_def)
    show ?thesis
    proof (cases "us \<le> clock i")
      case brk: True
      then have "\<not> (\<forall>j. clock j < us)" by (meson not_le)
      then show ?thesis
        using True d1 brk by (auto simp: rehash_us_loop.simps [of R T clock us i d])
    next
      case go: False
      have "nat (int (length (ht_table (ht0 d1))) - rehashidx d1) < nat (int (length (ht_table (ht0 d))) - rehashidx d)"
        using len lt by simp
      then obtain k d' where d': "rehash_us_loop R T clock us (i + 1) d1 = Some (k, d')" "dict_kept T cont H form d1 d'"
          "(\<forall>j. clock j < us) \<longrightarrow> R = DICT_RESIZE_ENABLE \<longrightarrow> \<not> dictIsRehashing d'"
        using less.hyps [OF _ ok1, of "i + 1"] by blast
      have "rehash_us_loop R T clock us i d = Some (k, d')"
        using True d1(1) go d'(1) by (subst rehash_us_loop.simps) simp
      then show ?thesis using d'(3) dict_kept_trans [OF d1(2) d'(2)] by blast
    qed
  qed
qed

end

section \<open>Properties\<close>

lemma dict_inv_create: "dict_inv T cont H form False dictCreate"
  by (simp add: dict_inv_def dict_ok_def dictCreate_def dict_items_def dictBuckets_def)

lemma dict_abs_create: "dict_abs cont dictCreate = Map.empty"
  by (simp add: dict_abs_def dictCreate_def)

text \<open>
  C31. Hash tables refine finite maps. Every sequence of operations on a new dictionary (lookups, insertions,
  replacements, removals in one or two phases, clearing, explicit resizing and rehashing, under changing settings
  of \<open>dict_can_resize\<close>, any answers of \<open>resizeAllowed\<close> and failing allocations of \<open>dictTryExpand\<close>) runs through
  without a failing assertion or an access outside a table, and gives the results of the same sequence on a finite
  map from the contents of keys to values, whatever the hash function is. The invariant, with the number of
  buckets that was reported to the owner, holds in the end.
\<close>

theorem dict_run_refines:
  assumes "dict_type_ok T cont H form" and "list_all (dict_op_ok T form False) ops"
  shows "\<exists>rs d. run_ops (dict_step T) ops dictCreate = Some (rs, d) \<and> dict_inv T cont H form False d \<and>
           run_spec (map_step T cont) ops Map.empty = (rs, dict_abs cont d)"
  using dict_type.run_refines [OF dict_type.intro [OF assms(1)] assms(2) dict_inv_create] by (simp only: dict_abs_create)

text \<open>A set of strings under the hash function of the server: a member is added once, found, and removed.\<close>

theorem dict_run_refines_witness:
  "\<exists>d. run_ops (dict_step (setDictType (replicate 16 7) :: (byte list, unit) dictType))
         [(DICT_RESIZE_ENABLE, Dict_add [97] ()), (DICT_RESIZE_ENABLE, Dict_add [98] ()), (DICT_RESIZE_AVOID, Dict_add [97] ()),
          (DICT_RESIZE_ENABLE, Dict_expand 64), (DICT_RESIZE_FORBID, Dict_find [98]), (DICT_RESIZE_ENABLE, Dict_delete [97]),
          (DICT_RESIZE_ENABLE, Dict_find [97])] dictCreate
       = Some ([Did True, Did True, Did False, Done, Found (Some None), Did True, Found None], d)"
proof -
  let ?ops = "[(DICT_RESIZE_ENABLE, Dict_add [97] ()), (DICT_RESIZE_ENABLE, Dict_add [98] ()), (DICT_RESIZE_AVOID, Dict_add [97] ()),
          (DICT_RESIZE_ENABLE, Dict_expand 64), (DICT_RESIZE_FORBID, Dict_find [98]), (DICT_RESIZE_ENABLE, Dict_delete [97]),
          (DICT_RESIZE_ENABLE, Dict_find [97])] :: (dict_resize \<times> (byte list, unit) dict_op) list"
  let ?T = "setDictType (replicate 16 7) :: (byte list, unit) dictType"
  have ok: "list_all (dict_op_ok ?T (\<lambda>_ _. True) False) ?ops" by (simp add: dict_op_ok_def setDictType_def)
  have spec: "fst (run_spec (map_step ?T (\<lambda>k. k)) ?ops Map.empty) =
      [Did True, Did True, Did False, Done, Found (Some None), Did True, Found None]"
    by (simp add: map_step_def setDictType_def)
  obtain rs d where "run_ops (dict_step ?T) ?ops dictCreate = Some (rs, d)"
      "run_spec (map_step ?T (\<lambda>k. k)) ?ops Map.empty = (rs, dict_abs (\<lambda>k. k) d)"
    using dict_run_refines [OF set_type_ok ok] by blast
  then show ?thesis using spec by (intro exI [of _ d]) simp
qed



end
