(* ===== verification/Redis_Listpack.thy ===== *)
theory Redis_Listpack
  imports Little_Endian Redis_Util "HOL-Library.Monad_Syntax"
begin

text \<open>
  Listpacks: \<open>src/listpack.c\<close> of Redis, at the level of bytes.

  A listpack is the block of memory it is allocated in, a list of bytes whose length is \<open>lp_malloc_size\<close>, and a pointer
  into it is an offset; \<open>NULL\<close> is \<open>None\<close>. All accesses to the block are checked: one outside it and a
  failing \<open>assert\<close> are the result \<open>None\<close> of an operation, so that a result \<open>Some (...)\<close> means that the operation
  stayed inside the block. Sums of a pointer and a number are not reduced: the memory behind the block is taken to be large
  enough that no pointer wraps around. \<open>size_t\<close> and \<open>unsigned long\<close> have 32 bits; the places where the code computes in
  \<open>uint32_t\<close> or \<open>unsigned long\<close> are reduced by \<open>uint32\<close>.
\<close>

type_synonym listpack = "byte list"

abbreviation (input) LP_HDR_SIZE :: nat where "LP_HDR_SIZE \<equiv> 6"
abbreviation (input) LP_HDR_NUMELE_UNKNOWN :: nat where "LP_HDR_NUMELE_UNKNOWN \<equiv> 65535"
abbreviation (input) LP_EOF :: byte where "LP_EOF \<equiv> 0xFF"
abbreviation (input) LISTPACK_MAX_SAFETY_SIZE :: nat where "LISTPACK_MAX_SAFETY_SIZE \<equiv> 2 ^ 30"
abbreviation (input) UINT64_MAX :: nat where "UINT64_MAX \<equiv> 2 ^ 64 - 1"
abbreviation (input) UINT32_MAX :: nat where "UINT32_MAX \<equiv> 2 ^ 32 - 1"
abbreviation (input) LP_INTBUF_SIZE :: nat where "LP_INTBUF_SIZE \<equiv> 21"

section \<open>Memory\<close>

definition lp_byte :: "listpack \<Rightarrow> nat \<Rightarrow> byte option" where
  "lp_byte lp i = (if i < length lp then Some (lp ! i) else None)"

definition lp_read :: "listpack \<Rightarrow> nat \<Rightarrow> nat \<Rightarrow> byte list option" where
  "lp_read lp i n = (if i + n \<le> length lp then Some (byte_range i (i + n) lp) else None)"

definition lp_write :: "listpack \<Rightarrow> nat \<Rightarrow> byte list \<Rightarrow> listpack option" where
  "lp_write lp i bs = (if i + length bs \<le> length lp then Some (mem_write i bs lp) else None)"

definition memmove :: "listpack \<Rightarrow> nat \<Rightarrow> nat \<Rightarrow> nat \<Rightarrow> listpack option" where
  "memmove lp dst src n = do { bs \<leftarrow> lp_read lp src n; lp_write lp dst bs }"

text \<open>\<open>lp_realloc\<close> keeps the bytes that fit; \<open>junk\<close> gives the others.\<close>

definition lp_realloc :: "(nat \<Rightarrow> byte) \<Rightarrow> listpack \<Rightarrow> nat \<Rightarrow> listpack" where
  "lp_realloc junk lp sz = take sz lp @ map junk [length lp..<sz]"

section \<open>The header\<close>

definition lpGetTotalBytes :: "listpack \<Rightarrow> nat" where
  "lpGetTotalBytes lp = nat (le_nat (byte_range 0 4 lp))"

definition lpGetNumElements :: "listpack \<Rightarrow> nat" where
  "lpGetNumElements lp = nat (le_nat (byte_range 4 6 lp))"

definition lpSetTotalBytes :: "listpack \<Rightarrow> nat \<Rightarrow> listpack" where
  "lpSetTotalBytes lp v = mem_write 0 (le_encode 4 (int v)) lp"

definition lpSetNumElements :: "listpack \<Rightarrow> nat \<Rightarrow> listpack" where
  "lpSetNumElements lp v = mem_write 4 (le_encode 2 (int v)) lp"

definition lpBytes :: "listpack \<Rightarrow> nat" where
  "lpBytes lp = lpGetTotalBytes lp"

text \<open>\<open>lp\<close> may be \<open>NULL\<close>; the sum is one of type \<open>size_t\<close>.\<close>

definition lpSafeToAdd :: "listpack option \<Rightarrow> nat \<Rightarrow> bool" where
  "lpSafeToAdd lp add =
     (let len = (case lp of None \<Rightarrow> 0 | Some lp \<Rightarrow> lpGetTotalBytes lp) in
      if uint32 (len + add) > LISTPACK_MAX_SAFETY_SIZE then False else True)"

definition lpNew :: "(nat \<Rightarrow> byte) \<Rightarrow> nat \<Rightarrow> listpack" where
  "lpNew junk capacity =
     (let lp = map junk [0..<(if capacity > LP_HDR_SIZE + 1 then capacity else LP_HDR_SIZE + 1)];
          lp = lpSetTotalBytes lp (LP_HDR_SIZE + 1);
          lp = lpSetNumElements lp 0
      in lp[LP_HDR_SIZE := LP_EOF])"

definition lpShrinkToFit :: "(nat \<Rightarrow> byte) \<Rightarrow> listpack \<Rightarrow> listpack" where
  "lpShrinkToFit junk lp =
     (let sz = lpGetTotalBytes lp in if sz < length lp then lp_realloc junk lp sz else lp)"

definition lpDup :: "listpack \<Rightarrow> listpack option" where
  "lpDup lp = lp_read lp 0 (lpBytes lp)"

section \<open>Encoding\<close>

fun lp_digits_loop :: "byte list \<Rightarrow> nat \<Rightarrow> (nat \<times> byte list) option" where
  "lp_digits_loop [] v = Some (v, [])"
| "lp_digits_loop (c # p) v =
     (if is_digit c then
        (if v > UINT64_MAX div 10 then None
         else if v * 10 > UINT64_MAX - digit_val c then None
         else lp_digits_loop p (v * 10 + digit_val c))
      else Some (v, c # p))"

definition lpStringToInt64 :: "byte list \<Rightarrow> int option" where
  "lpStringToInt64 s =
     (if length s = 0 \<or> length s \<ge> LONG_STR_SIZE then None
      else if length s = 1 \<and> s ! 0 = c8 CHR ''0'' then Some 0
      else
        (let negative = (s ! 0 = c8 CHR ''-''); p = (if negative then tl s else s) in
         if p = [] then None
         else if c8 CHR ''1'' \<le> p ! 0 \<and> p ! 0 \<le> c8 CHR ''9'' then
           (case lp_digits_loop (tl p) (digit_val (p ! 0)) of
              None \<Rightarrow> None
            | Some (v, rest) \<Rightarrow>
                if rest \<noteq> [] then None
                else if negative then
                  (if int v > - (LLONG_MIN + 1) + 1 then None else Some (- int v))
                else if int v > LLONG_MAX then None
                else Some (int v))
         else None))"

text \<open>\<open>lpEncodeIntegerGetType\<close>: the bytes of \<open>intenc\<close>; \<open>enclen\<close> is their number.\<close>

definition lpEncodeIntegerGetType :: "int \<Rightarrow> byte list" where
  "lpEncodeIntegerGetType v =
     (if 0 \<le> v \<and> v \<le> 127 then [word_of_int v]
      else if -4096 \<le> v \<and> v \<le> 4095 then
        (let v = (if v < 0 then push_bit 13 1 + v else v) in
         [word_of_int (drop_bit 8 v OR 0xC0), word_of_int (v AND 0xff)])
      else if -32768 \<le> v \<and> v \<le> 32767 then
        (let v = (if v < 0 then push_bit 16 1 + v else v) in
         [0xF1, word_of_int (v AND 0xff), word_of_int (drop_bit 8 v)])
      else if -8388608 \<le> v \<and> v \<le> 8388607 then
        (let v = (if v < 0 then push_bit 24 1 + v else v) in
         [0xF2, word_of_int (v AND 0xff), word_of_int (drop_bit 8 v AND 0xff), word_of_int (drop_bit 16 v)])
      else if -2147483648 \<le> v \<and> v \<le> 2147483647 then
        (let v = (if v < 0 then push_bit 32 1 + v else v) in
         [0xF3, word_of_int (v AND 0xff), word_of_int (drop_bit 8 v AND 0xff), word_of_int (drop_bit 16 v AND 0xff),
          word_of_int (drop_bit 24 v)])
      else
        (let uv = v mod 2 ^ 64 in
         [0xF4, word_of_int (uv AND 0xff), word_of_int (drop_bit 8 uv AND 0xff), word_of_int (drop_bit 16 uv AND 0xff),
          word_of_int (drop_bit 24 uv AND 0xff), word_of_int (drop_bit 32 uv AND 0xff), word_of_int (drop_bit 40 uv AND 0xff),
          word_of_int (drop_bit 48 uv AND 0xff), word_of_int (drop_bit 56 uv)]))"

text \<open>
  \<open>lpEncodeGetType\<close>: \<open>LP_ENCODING_INT\<close> with the bytes of \<open>intenc\<close>, or \<open>LP_ENCODING_STRING\<close>; and \<open>enclen\<close>.
\<close>

datatype lp_enctype = LP_ENCODING_INT "byte list" | LP_ENCODING_STRING

definition lpEncodeGetType :: "byte list \<Rightarrow> lp_enctype \<times> nat" where
  "lpEncodeGetType ele =
     (case lpStringToInt64 ele of
        Some v \<Rightarrow> (let intenc = lpEncodeIntegerGetType v in (LP_ENCODING_INT intenc, length intenc))
      | None \<Rightarrow>
          (let sz = length ele in
           (LP_ENCODING_STRING, if sz < 64 then 1 + sz else if sz < 4096 then 2 + sz else 5 + sz)))"

definition lpEncodeBacklen :: "nat \<Rightarrow> byte list" where
  "lpEncodeBacklen l =
     (if l \<le> 127 then [word_of_nat l]
      else if l < 16383 then [word_of_nat (drop_bit 7 l), word_of_nat (l AND 127 OR 128)]
      else if l < 2097151 then
        [word_of_nat (drop_bit 14 l), word_of_nat (drop_bit 7 l AND 127 OR 128), word_of_nat (l AND 127 OR 128)]
      else if l < 268435455 then
        [word_of_nat (drop_bit 21 l), word_of_nat (drop_bit 14 l AND 127 OR 128),
         word_of_nat (drop_bit 7 l AND 127 OR 128), word_of_nat (l AND 127 OR 128)]
      else
        [word_of_nat (drop_bit 28 l), word_of_nat (drop_bit 21 l AND 127 OR 128), word_of_nat (drop_bit 14 l AND 127 OR 128),
         word_of_nat (drop_bit 7 l AND 127 OR 128), word_of_nat (l AND 127 OR 128)])"

text \<open>\<open>lpEncodeBacklen(NULL, l)\<close>.\<close>

definition lpBacklenSize :: "nat \<Rightarrow> nat" where
  "lpBacklenSize l = (if l \<le> 127 then 1 else if l < 16383 then 2 else if l < 2097151 then 3 else if l < 268435455 then 4 else 5)"

function lp_backlen_loop :: "listpack \<Rightarrow> nat \<Rightarrow> nat \<Rightarrow> nat \<Rightarrow> nat option" where
  "lp_backlen_loop lp p val shift =
     do {
       b \<leftarrow> lp_byte lp p;
       let val = val OR push_bit shift (unat (b AND 127));
       if b AND 128 = 0 then Some val
       else if shift + 7 > 28 then Some UINT64_MAX
       else if p = 0 then None
       else lp_backlen_loop lp (p - 1) val (shift + 7)
     }"
  by pat_completeness auto
termination by (relation "measure (\<lambda>(lp, p, val, shift). 28 - shift)") auto

declare lp_backlen_loop.simps [simp del]

definition lpDecodeBacklen :: "listpack \<Rightarrow> nat \<Rightarrow> nat option" where
  "lpDecodeBacklen lp p = lp_backlen_loop lp p 0 0"

definition lpEncodeString :: "byte list \<Rightarrow> byte list" where
  "lpEncodeString s =
     (let len = length s in
      if len < 64 then word_of_nat (len OR 0x80) # s
      else if len < 4096 then word_of_nat (drop_bit 8 len OR 0xE0) # word_of_nat (len AND 0xff) # s
      else
        0xF0 # word_of_nat (len AND 0xff) # word_of_nat (drop_bit 8 len AND 0xff) # word_of_nat (drop_bit 16 len AND 0xff) #
        word_of_nat (drop_bit 24 len AND 0xff) # s)"

section \<open>Decoding\<close>

text \<open>The classes of the first byte of an entry, in the order in which the code tests them.\<close>

datatype lp_class =
  C_7BIT_UINT | C_6BIT_STR | C_13BIT_INT | C_16BIT_INT | C_24BIT_INT | C_32BIT_INT | C_64BIT_INT | C_12BIT_STR | C_32BIT_STR
  | C_EOF | C_INVALID

definition lp_class_of :: "byte \<Rightarrow> lp_class" where
  "lp_class_of b =
     (if b AND 0x80 = 0 then C_7BIT_UINT
      else if b AND 0xC0 = 0x80 then C_6BIT_STR
      else if b AND 0xE0 = 0xC0 then C_13BIT_INT
      else if b AND 0xFF = 0xF1 then C_16BIT_INT
      else if b AND 0xFF = 0xF2 then C_24BIT_INT
      else if b AND 0xFF = 0xF3 then C_32BIT_INT
      else if b AND 0xFF = 0xF4 then C_64BIT_INT
      else if b AND 0xF0 = 0xE0 then C_12BIT_STR
      else if b AND 0xFF = 0xF0 then C_32BIT_STR
      else if b = LP_EOF then C_EOF
      else C_INVALID)"

definition LP_ENCODING_6BIT_STR_LEN :: "byte \<Rightarrow> nat" where
  "LP_ENCODING_6BIT_STR_LEN b = unat (b AND 0x3F)"

definition LP_ENCODING_12BIT_STR_LEN :: "listpack \<Rightarrow> nat \<Rightarrow> nat option" where
  "LP_ENCODING_12BIT_STR_LEN lp p =
     do { b0 \<leftarrow> lp_byte lp p; b1 \<leftarrow> lp_byte lp (p + 1); Some (push_bit 8 (unat (b0 AND 0xF)) OR unat b1) }"

definition LP_ENCODING_32BIT_STR_LEN :: "listpack \<Rightarrow> nat \<Rightarrow> nat option" where
  "LP_ENCODING_32BIT_STR_LEN lp p = do { bs \<leftarrow> lp_read lp (p + 1) 4; Some (nat (le_nat bs)) }"

definition lpCurrentEncodedSizeUnsafe :: "listpack \<Rightarrow> nat \<Rightarrow> nat option" where
  "lpCurrentEncodedSizeUnsafe lp p =
     do {
       b \<leftarrow> lp_byte lp p;
       (case lp_class_of b of
          C_7BIT_UINT \<Rightarrow> Some 1
        | C_6BIT_STR \<Rightarrow> Some (1 + LP_ENCODING_6BIT_STR_LEN b)
        | C_13BIT_INT \<Rightarrow> Some 2
        | C_16BIT_INT \<Rightarrow> Some 3
        | C_24BIT_INT \<Rightarrow> Some 4
        | C_32BIT_INT \<Rightarrow> Some 5
        | C_64BIT_INT \<Rightarrow> Some 9
        | C_12BIT_STR \<Rightarrow> do { n \<leftarrow> LP_ENCODING_12BIT_STR_LEN lp p; Some (2 + n) }
        | C_32BIT_STR \<Rightarrow> do { n \<leftarrow> LP_ENCODING_32BIT_STR_LEN lp p; Some (uint32 (5 + n)) }
        | C_EOF \<Rightarrow> Some 1
        | C_INVALID \<Rightarrow> Some 0)
     }"

definition lpCurrentEncodedSizeBytes :: "byte \<Rightarrow> nat" where
  "lpCurrentEncodedSizeBytes b =
     (case lp_class_of b of C_12BIT_STR \<Rightarrow> 2 | C_32BIT_STR \<Rightarrow> 5 | C_INVALID \<Rightarrow> 0 | _ \<Rightarrow> 1)"

definition lpSkip :: "listpack \<Rightarrow> nat \<Rightarrow> nat option" where
  "lpSkip lp p =
     do {
       entrylen \<leftarrow> lpCurrentEncodedSizeUnsafe lp p;
       Some (p + uint32 (entrylen + lpBacklenSize entrylen))
     }"

text \<open>
  \<open>lpGetWithSize\<close> without \<open>intbuf\<close>: a pointer to the string and its length, or the integer; and \<open>*entry_size\<close>, which
  keeps its value \<open>es\<close> when the encoding is not known.
\<close>

datatype lp_value = is_Lp_str: Lp_str nat nat | Lp_int int

definition lp_to_signed :: "nat \<Rightarrow> nat \<Rightarrow> nat \<Rightarrow> int" where
  "lp_to_signed uval negstart negmax = (if uval \<ge> negstart then - int (negmax - uval) - 1 else int uval)"

definition lpGetWithSize :: "listpack \<Rightarrow> nat \<Rightarrow> nat \<Rightarrow> (lp_value \<times> nat) option" where
  "lpGetWithSize lp p es =
     do {
       b \<leftarrow> lp_byte lp p;
       (case lp_class_of b of
          C_7BIT_UINT \<Rightarrow> Some (Lp_int (lp_to_signed (unat (b AND 0x7f)) UINT64_MAX 0), 2)
        | C_6BIT_STR \<Rightarrow>
            (let n = LP_ENCODING_6BIT_STR_LEN b in Some (Lp_str (p + 1) n, 1 + n + lpBacklenSize (n + 1)))
        | C_13BIT_INT \<Rightarrow>
            do {
              b1 \<leftarrow> lp_byte lp (p + 1);
              Some (Lp_int (lp_to_signed (push_bit 8 (unat (b AND 0x1f)) OR unat b1) (2 ^ 12) 8191), 3)
            }
        | C_16BIT_INT \<Rightarrow>
            do { bs \<leftarrow> lp_read lp (p + 1) 2; Some (Lp_int (lp_to_signed (nat (le_nat bs)) (2 ^ 15) (2 ^ 16 - 1)), 4) }
        | C_24BIT_INT \<Rightarrow>
            do { bs \<leftarrow> lp_read lp (p + 1) 3; Some (Lp_int (lp_to_signed (nat (le_nat bs)) (2 ^ 23) (2 ^ 24 - 1)), 5) }
        | C_32BIT_INT \<Rightarrow>
            do { bs \<leftarrow> lp_read lp (p + 1) 4; Some (Lp_int (lp_to_signed (nat (le_nat bs)) (2 ^ 31) (2 ^ 32 - 1)), 6) }
        | C_64BIT_INT \<Rightarrow>
            do { bs \<leftarrow> lp_read lp (p + 1) 8; Some (Lp_int (lp_to_signed (nat (le_nat bs)) (2 ^ 63) (2 ^ 64 - 1)), 10) }
        | C_12BIT_STR \<Rightarrow>
            do { n \<leftarrow> LP_ENCODING_12BIT_STR_LEN lp p; Some (Lp_str (p + 2) n, 2 + n + lpBacklenSize (n + 2)) }
        | C_32BIT_STR \<Rightarrow>
            do { n \<leftarrow> LP_ENCODING_32BIT_STR_LEN lp p; Some (Lp_str (p + 5) n, 5 + n + lpBacklenSize (n + 5)) }
        | _ \<Rightarrow> Some (Lp_int (lp_to_signed (12345678900000000 + unat b) UINT64_MAX 0), es))
     }"

definition lpGet :: "listpack \<Rightarrow> nat \<Rightarrow> lp_value option" where
  "lpGet lp p = map_option fst (lpGetWithSize lp p 0)"

text \<open>\<open>lpGet\<close> with \<open>intbuf\<close>: the bytes of the string it returns.\<close>

definition lpGetString :: "byte list \<Rightarrow> listpack \<Rightarrow> nat \<Rightarrow> byte list option" where
  "lpGetString intbuf lp p =
     do {
       v \<leftarrow> lpGet lp p;
       (case v of
          Lp_int n \<Rightarrow> (case ll2string intbuf n of (count, intbuf) \<Rightarrow> Some (take count intbuf))
        | Lp_str q n \<Rightarrow> lp_read lp q n)
     }"

definition lpGetIntegerValue :: "listpack \<Rightarrow> nat \<Rightarrow> int option option" where
  "lpGetIntegerValue lp p = map_option (\<lambda>v. case v of Lp_int n \<Rightarrow> Some n | Lp_str _ _ \<Rightarrow> None) (lpGet lp p)"

definition lpCompare :: "listpack \<Rightarrow> nat \<Rightarrow> byte list \<Rightarrow> bool option" where
  "lpCompare lp p s =
     do {
       b \<leftarrow> lp_byte lp p;
       if b = LP_EOF then Some False
       else
         do {
           v \<leftarrow> lpGet lp p;
           (case v of
              Lp_str q n \<Rightarrow> if length s = n then map_option (\<lambda>bs. bs = s) (lp_read lp q n) else Some False
            | Lp_int n \<Rightarrow> Some (lpStringToInt64 s = Some n))
         }
     }"

section \<open>Validation of an entry\<close>

text \<open>
  \<open>lpValidateNext\<close>: \<open>Some None\<close> is the return value 0, and \<open>Some (Some p)\<close> the value 1 with \<open>*pp = p\<close>.
\<close>

definition lp_out_of_range :: "nat \<Rightarrow> nat \<Rightarrow> bool" where
  "lp_out_of_range lpbytes p \<longleftrightarrow> p < LP_HDR_SIZE \<or> p + 1 > lpbytes"

definition lpValidateNext :: "listpack \<Rightarrow> ptr \<Rightarrow> nat \<Rightarrow> ptr option option" where
  "lpValidateNext lp pp lpbytes =
     (case pp of
        None \<Rightarrow> Some None
      | Some p \<Rightarrow>
          if lp_out_of_range lpbytes p then Some None
          else
            do {
              b \<leftarrow> lp_byte lp p;
              if b = LP_EOF then Some (Some None)
              else
                (let lenbytes = lpCurrentEncodedSizeBytes b in
                 if lenbytes = 0 then Some None
                 else if lp_out_of_range lpbytes (p + lenbytes) then Some None
                 else
                   do {
                     entrylen \<leftarrow> lpCurrentEncodedSizeUnsafe lp p;
                     let encodedBacklen = lpBacklenSize entrylen;
                     let entrylen = uint32 (entrylen + encodedBacklen);
                     if lp_out_of_range lpbytes (p + entrylen) then Some None
                     else
                       do {
                         prevlen \<leftarrow> lpDecodeBacklen lp (p + entrylen - 1);
                         if (prevlen + encodedBacklen) mod 2 ^ 64 \<noteq> entrylen then Some None
                         else Some (Some (Some (p + entrylen)))
                       }
                   })
            })"

definition lpAssertValidEntry :: "listpack \<Rightarrow> nat \<Rightarrow> nat \<Rightarrow> unit option" where
  "lpAssertValidEntry lp lpbytes p = do { r \<leftarrow> lpValidateNext lp (Some p) lpbytes; assert_that (r \<noteq> None) }"

definition lpValidateFirst :: "listpack \<Rightarrow> ptr option" where
  "lpValidateFirst lp =
     do { b \<leftarrow> lp_byte lp LP_HDR_SIZE; Some (if b = LP_EOF then None else Some LP_HDR_SIZE) }"

section \<open>Moving through a listpack\<close>

definition lpNext :: "listpack \<Rightarrow> nat \<Rightarrow> ptr option" where
  "lpNext lp p =
     do {
       p \<leftarrow> lpSkip lp p;
       b \<leftarrow> lp_byte lp p;
       if b = LP_EOF then Some None
       else do { lpAssertValidEntry lp (lpBytes lp) p; Some (Some p) }
     }"

definition lpPrev :: "listpack \<Rightarrow> nat \<Rightarrow> ptr option" where
  "lpPrev lp p =
     (if p = LP_HDR_SIZE then Some None
      else if p = 0 then None
      else
        do {
          let p = p - 1;
          prevlen \<leftarrow> lpDecodeBacklen lp p;
          let prevlen = (prevlen + lpBacklenSize prevlen) mod 2 ^ 64;
          if p < prevlen - 1 then None
          else
            (let p = p - (prevlen - 1) in
             do { lpAssertValidEntry lp (lpBytes lp) p; Some (Some p) })
        })"

definition lpFirst :: "listpack \<Rightarrow> ptr option" where
  "lpFirst lp =
     do {
       b \<leftarrow> lp_byte lp LP_HDR_SIZE;
       if b = LP_EOF then Some None
       else do { lpAssertValidEntry lp (lpBytes lp) LP_HDR_SIZE; Some (Some LP_HDR_SIZE) }
     }"

definition lpLast :: "listpack \<Rightarrow> ptr option" where
  "lpLast lp = lpPrev lp (lpGetTotalBytes lp - 1)"

text \<open>The loop of \<open>lpLength\<close>, which may not end on a damaged listpack; the count is a \<open>uint32_t\<close>.\<close>

partial_function (option) lp_count_loop :: "listpack \<Rightarrow> ptr \<Rightarrow> nat \<Rightarrow> nat option" where
  "lp_count_loop lp p count =
     (case p of
        None \<Rightarrow> Some count
      | Some p \<Rightarrow> do { p \<leftarrow> lpNext lp p; lp_count_loop lp p (uint32 (count + 1)) })"

text \<open>The number of elements, and the listpack with the header as it is left.\<close>

definition lpLength :: "listpack \<Rightarrow> (nat \<times> listpack) option" where
  "lpLength lp =
     (let numele = lpGetNumElements lp in
      if numele \<noteq> LP_HDR_NUMELE_UNKNOWN then Some (numele, lp)
      else
        do {
          p \<leftarrow> lpFirst lp;
          count \<leftarrow> lp_count_loop lp p 0;
          Some (count, if count < LP_HDR_NUMELE_UNKNOWN then lpSetNumElements lp count else lp)
        })"

fun lp_seek_forward :: "listpack \<Rightarrow> nat \<Rightarrow> ptr \<Rightarrow> ptr option" where
  "lp_seek_forward lp (Suc index) (Some ele) = do { ele \<leftarrow> lpNext lp ele; lp_seek_forward lp index ele }"
| "lp_seek_forward lp index ele = Some ele"

text \<open>\<open>index\<close> counts the steps to the left that are left.\<close>

fun lp_seek_backward :: "listpack \<Rightarrow> nat \<Rightarrow> ptr \<Rightarrow> ptr option" where
  "lp_seek_backward lp (Suc index) (Some ele) = do { ele \<leftarrow> lpPrev lp ele; lp_seek_backward lp index ele }"
| "lp_seek_backward lp index ele = Some ele"

definition lp_seek_from :: "listpack \<Rightarrow> bool \<Rightarrow> int \<Rightarrow> ptr option" where
  "lp_seek_from lp forward index =
     (if forward then do { ele \<leftarrow> lpFirst lp; lp_seek_forward lp (nat index) ele }
      else do { ele \<leftarrow> lpLast lp; lp_seek_backward lp (nat (- 1 - index)) ele })"

definition lpSeek :: "listpack \<Rightarrow> int \<Rightarrow> ptr option" where
  "lpSeek lp index =
     (let numele = int (lpGetNumElements lp) in
      if numele \<noteq> int LP_HDR_NUMELE_UNKNOWN then
        (let index = (if index < 0 then numele + index else index) in
         if index < 0 then Some None
         else if index \<ge> numele then Some None
         else if index > numele div 2 then lp_seek_from lp False (index - numele)
         else lp_seek_from lp True index)
      else if index < 0 then lp_seek_from lp False index
      else lp_seek_from lp True index)"

section \<open>Searching\<close>

text \<open>
  \<open>lpFindCb\<close>. The comparison gets the state \<open>user\<close> and returns whether the entry is the one, with the next
  state. \<open>es\<close> is \<open>entry_size\<close>.
\<close>

type_synonym 'u lp_cmp = "'u \<Rightarrow> listpack \<Rightarrow> nat \<Rightarrow> lp_value \<Rightarrow> (bool \<times> 'u) option"

text \<open>The checks behind the step to the next entry; the result is whether it is the end.\<close>

definition lp_find_check :: "listpack \<Rightarrow> nat \<Rightarrow> nat \<Rightarrow> bool option" where
  "lp_find_check lp lp_bytes p =
     do {
       (if p + 8 \<ge> lp_bytes then lpAssertValidEntry lp lp_bytes p
        else assert_that (p \<ge> LP_HDR_SIZE \<and> p < lp_bytes));
       b \<leftarrow> lp_byte lp p;
       Some (b = LP_EOF)
     }"

partial_function (option) lp_find_loop ::
  "listpack \<Rightarrow> nat \<Rightarrow> 'u lp_cmp \<Rightarrow> nat \<Rightarrow> nat \<Rightarrow> 'u \<Rightarrow> nat \<Rightarrow> nat \<Rightarrow> ptr option" where
  "lp_find_loop lp lp_bytes cmp skip p user skipcnt es =
     (if skipcnt = 0 then
        do {
          ve \<leftarrow> lpGetWithSize lp p es;
          let v = fst ve; let es = snd ve;
          assert_that (\<not> is_Lp_str v \<or> p \<ge> LP_HDR_SIZE \<and> p + es < lp_bytes);
          eu \<leftarrow> cmp user lp p v;
          if fst eu then Some (Some p)
          else
            do {
              eof \<leftarrow> lp_find_check lp lp_bytes (p + es);
              if eof then Some None else lp_find_loop lp lp_bytes cmp skip (p + es) (snd eu) skip es
            }
        }
      else
        do {
          p \<leftarrow> lpSkip lp p;
          eof \<leftarrow> lp_find_check lp lp_bytes p;
          if eof then Some None else lp_find_loop lp lp_bytes cmp skip p user (skipcnt - 1) es
        })"

definition lpFindCb :: "listpack \<Rightarrow> ptr \<Rightarrow> 'u \<Rightarrow> 'u lp_cmp \<Rightarrow> nat \<Rightarrow> ptr option" where
  "lpFindCb lp p user cmp skip =
     do {
       p \<leftarrow> (if p = None then lpFirst lp else Some p);
       (case p of
          None \<Rightarrow> Some None
        | Some p \<Rightarrow> lp_find_loop lp (lpBytes lp) cmp skip p user 0 123456789)
     }"

text \<open>\<open>vencoding\<close> is 0 (\<open>Venc_unknown\<close>), \<open>UCHAR_MAX\<close> (\<open>Venc_none\<close>) or 1, with \<open>vll\<close>.\<close>

datatype lp_vencoding = Venc_unknown | Venc_none | Venc_int int

record lpFindArg =
  find_s :: "byte list"
  vencoding :: lp_vencoding

definition lpFindCmp :: "lpFindArg lp_cmp" where
  "lpFindCmp arg lp p v =
     (case v of
        Lp_str q slen \<Rightarrow>
          if slen = length (find_s arg) then map_option (\<lambda>bs. (bs = find_s arg, arg)) (lp_read lp q slen)
          else Some (False, arg)
      | Lp_int n \<Rightarrow>
          (let s = find_s arg;
               arg = (if vencoding arg = Venc_unknown then
                        arg\<lparr>vencoding :=
                          (if length s \<ge> 32 \<or> length s = 0 then Venc_none
                           else (case lpStringToInt64 s of None \<Rightarrow> Venc_none | Some vll \<Rightarrow> Venc_int vll))\<rparr>
                      else arg)
           in Some (vencoding arg = Venc_int n, arg)))"

definition lpFind :: "listpack \<Rightarrow> ptr \<Rightarrow> byte list \<Rightarrow> nat \<Rightarrow> ptr option" where
  "lpFind lp p s skip = lpFindCb lp p \<lparr>find_s = s, vencoding = Venc_unknown\<rparr> lpFindCmp skip"

section \<open>Changing a listpack\<close>

text \<open>
  What \<open>lpInsert\<close> is given: a string (\<open>elestr\<close>), the encoding of an integer (\<open>eleint\<close>), or neither, which deletes. The
  result \<open>Some None\<close> is \<open>NULL\<close>: the listpack would be too long; else the listpack and \<open>*newp\<close>.
\<close>

datatype lp_element = Elestr "byte list" | Eleint "byte list" | Ele_delete

datatype lp_where = LP_BEFORE | LP_AFTER | LP_REPLACE

type_synonym lp_inserted = "(listpack \<times> ptr) option option"

definition assert_integrity :: "listpack \<Rightarrow> nat \<Rightarrow> unit option" where
  "assert_integrity lp p = assert_that (p \<ge> LP_HDR_SIZE \<and> p < lpGetTotalBytes lp)"

definition assert_integrity_len :: "listpack \<Rightarrow> nat \<Rightarrow> nat \<Rightarrow> unit option" where
  "assert_integrity_len lp p len = assert_that (p \<ge> LP_HDR_SIZE \<and> p + len < lpGetTotalBytes lp)"

text \<open>The bytes to be stored for the element, and \<open>enclen\<close>.\<close>

definition lp_encode_element :: "lp_element \<Rightarrow> byte list \<times> nat" where
  "lp_encode_element ele =
     (case ele of
        Elestr s \<Rightarrow>
          (case lpEncodeGetType s of
             (LP_ENCODING_INT intenc, enclen) \<Rightarrow> (intenc, enclen)
           | (LP_ENCODING_STRING, enclen) \<Rightarrow> (lpEncodeString s, enclen))
      | Eleint intenc \<Rightarrow> (intenc, length intenc)
      | Ele_delete \<Rightarrow> ([], 0))"

text \<open>The update of the number of elements in the header.\<close>

definition lp_count_change :: "bool \<Rightarrow> listpack \<Rightarrow> listpack" where
  "lp_count_change delete lp =
     (let num_elements = lpGetNumElements lp in
      if num_elements \<noteq> LP_HDR_NUMELE_UNKNOWN then
        (if \<not> delete then lpSetNumElements lp (num_elements + 1)
         else lpSetNumElements lp (nat ((int num_elements - 1) mod 2 ^ 32)))
      else lp)"

text \<open>The entry is stored at \<open>dst\<close>: the encoding, and behind it the backlen.\<close>

definition lp_store_entry :: "listpack \<Rightarrow> nat \<Rightarrow> byte list \<Rightarrow> nat \<Rightarrow> listpack option" where
  "lp_store_entry lp dst enc enclen =
     do { lp \<leftarrow> lp_write lp dst enc; lp_write lp (dst + enclen) (lpEncodeBacklen enclen) }"

text \<open>
  Room for \<open>added\<close> bytes in the place of \<open>replaced_len\<close>, which is 0 for an insertion: the block grows before the bytes behind are moved, and shrinks
  after it.
\<close>

definition lp_make_room ::
  "(nat \<Rightarrow> byte) \<Rightarrow> listpack \<Rightarrow> lp_where \<Rightarrow> nat \<Rightarrow> nat \<Rightarrow> nat \<Rightarrow> nat \<Rightarrow> listpack option" where
  "lp_make_room junk lp pos poff added replaced_len new_listpack_bytes =
     do {
       let old_listpack_bytes = lpGetTotalBytes lp;
       let lp =
         (if new_listpack_bytes > old_listpack_bytes \<and> new_listpack_bytes > length lp
          then lp_realloc junk lp new_listpack_bytes else lp);
       lp \<leftarrow>
         (if pos = LP_BEFORE then memmove lp (poff + added) poff (old_listpack_bytes - poff)
          else memmove lp (poff + added) (poff + replaced_len) (old_listpack_bytes - poff - replaced_len));
       Some (if new_listpack_bytes < old_listpack_bytes then lp_realloc junk lp new_listpack_bytes else lp)
     }"

definition lpInsert :: "(nat \<Rightarrow> byte) \<Rightarrow> listpack \<Rightarrow> lp_element \<Rightarrow> nat \<Rightarrow> lp_where \<Rightarrow> lp_inserted" where
  "lpInsert junk lp ele p pos =
     do {
       let delete = (ele = Ele_delete);
       let pos = (if delete then LP_REPLACE else pos);
       poff \<leftarrow> (if pos = LP_AFTER then do { p \<leftarrow> lpSkip lp p; assert_integrity lp p; Some p } else Some p);
       let pos = (if pos = LP_AFTER then LP_BEFORE else pos);
       let enc = fst (lp_encode_element ele);
       let enclen = snd (lp_encode_element ele);
       let backlen_size = (if \<not> delete then lpBacklenSize enclen else 0);
       let old_listpack_bytes = lpGetTotalBytes lp;
       replaced_len \<leftarrow>
         (if pos = LP_REPLACE then
            do {
              n \<leftarrow> lpCurrentEncodedSizeUnsafe lp poff;
              let n = uint32 (n + lpBacklenSize n);
              assert_integrity_len lp poff n;
              Some n
            }
          else Some 0);
       let new_listpack_bytes = old_listpack_bytes + enclen + backlen_size - replaced_len;
       if new_listpack_bytes > UINT32_MAX then Some None
       else
         do {
           lp \<leftarrow> lp_make_room junk lp pos poff (enclen + backlen_size) replaced_len new_listpack_bytes;
           first \<leftarrow> (if delete then lp_byte lp poff else Some 0);
           let newp = (if delete \<and> first = LP_EOF then None else Some poff);
           lp \<leftarrow> (if \<not> delete then lp_store_entry lp poff enc enclen else Some lp);
           let lp = (if pos \<noteq> LP_REPLACE \<or> delete then lp_count_change delete lp else lp);
           Some (Some (lpSetTotalBytes lp new_listpack_bytes, newp))
         }
     }"

definition lpInsertString :: "(nat \<Rightarrow> byte) \<Rightarrow> listpack \<Rightarrow> byte list \<Rightarrow> nat \<Rightarrow> lp_where \<Rightarrow> lp_inserted" where
  "lpInsertString junk lp s p pos = lpInsert junk lp (Elestr s) p pos"

definition lpInsertInteger :: "(nat \<Rightarrow> byte) \<Rightarrow> listpack \<Rightarrow> int \<Rightarrow> nat \<Rightarrow> lp_where \<Rightarrow> lp_inserted" where
  "lpInsertInteger junk lp lval p pos = lpInsert junk lp (Eleint (lpEncodeIntegerGetType lval)) p pos"

text \<open>Callers that pass no \<open>newp\<close>.\<close>

definition without_newp :: "lp_inserted \<Rightarrow> listpack option option" where
  "without_newp r = map_option (map_option fst) r"

definition lpAppend :: "(nat \<Rightarrow> byte) \<Rightarrow> listpack \<Rightarrow> byte list \<Rightarrow> listpack option option" where
  "lpAppend junk lp ele = without_newp (lpInsert junk lp (Elestr ele) (lpGetTotalBytes lp - 1) LP_BEFORE)"

definition lpAppendInteger :: "(nat \<Rightarrow> byte) \<Rightarrow> listpack \<Rightarrow> int \<Rightarrow> listpack option option" where
  "lpAppendInteger junk lp lval = without_newp (lpInsertInteger junk lp lval (lpGetTotalBytes lp - 1) LP_BEFORE)"

definition lpPrepend :: "(nat \<Rightarrow> byte) \<Rightarrow> listpack \<Rightarrow> byte list \<Rightarrow> listpack option option" where
  "lpPrepend junk lp s =
     do {
       p \<leftarrow> lpFirst lp;
       (case p of
          None \<Rightarrow> lpAppend junk lp s
        | Some p \<Rightarrow> without_newp (lpInsert junk lp (Elestr s) p LP_BEFORE))
     }"

definition lpPrependInteger :: "(nat \<Rightarrow> byte) \<Rightarrow> listpack \<Rightarrow> int \<Rightarrow> listpack option option" where
  "lpPrependInteger junk lp lval =
     do {
       p \<leftarrow> lpFirst lp;
       (case p of
          None \<Rightarrow> lpAppendInteger junk lp lval
        | Some p \<Rightarrow> without_newp (lpInsertInteger junk lp lval p LP_BEFORE))
     }"

definition lpReplace :: "(nat \<Rightarrow> byte) \<Rightarrow> listpack \<Rightarrow> nat \<Rightarrow> byte list \<Rightarrow> lp_inserted" where
  "lpReplace junk lp p s = lpInsert junk lp (Elestr s) p LP_REPLACE"

definition lpReplaceInteger :: "(nat \<Rightarrow> byte) \<Rightarrow> listpack \<Rightarrow> nat \<Rightarrow> int \<Rightarrow> lp_inserted" where
  "lpReplaceInteger junk lp p lval = lpInsertInteger junk lp lval p LP_REPLACE"

definition lpDelete :: "(nat \<Rightarrow> byte) \<Rightarrow> listpack \<Rightarrow> nat \<Rightarrow> lp_inserted" where
  "lpDelete junk lp p = lpInsert junk lp Ele_delete p LP_REPLACE"

text \<open>Batches: \<open>listpackEntry\<close> is a string or an integer.\<close>

datatype listpackEntry = Ent_str "byte list" | Ent_int int

definition lp_entry_element :: "listpackEntry \<Rightarrow> lp_element" where
  "lp_entry_element e = (case e of Ent_str s \<Rightarrow> Elestr s | Ent_int n \<Rightarrow> Eleint (lpEncodeIntegerGetType n))"

definition lp_added_len :: "listpackEntry list \<Rightarrow> nat" where
  "lp_added_len entries =
     sum_list (map (\<lambda>e. snd (lp_encode_element (lp_entry_element e)) +
                        lpBacklenSize (snd (lp_encode_element (lp_entry_element e)))) entries)"

text \<open>The entries are stored one behind the other; \<open>newp\<close> is the place of the last.\<close>

fun lp_batch_store :: "listpack \<Rightarrow> nat \<Rightarrow> ptr \<Rightarrow> listpackEntry list \<Rightarrow> (listpack \<times> ptr) option" where
  "lp_batch_store lp dst newp [] = Some (lp, newp)"
| "lp_batch_store lp dst newp (e # es) =
     do {
       let (enc, enclen) = lp_encode_element (lp_entry_element e);
       lp \<leftarrow> lp_store_entry lp dst enc enclen;
       lp_batch_store lp (dst + enclen + lpBacklenSize enclen) (Some dst) es
     }"

text \<open>The number of elements is increased, when it is known and stays below the mark for an unknown one.\<close>

definition lp_num_plus :: "listpack \<Rightarrow> nat \<Rightarrow> listpack" where
  "lp_num_plus lp len =
     (let num_elements = lpGetNumElements lp in
      if num_elements \<noteq> LP_HDR_NUMELE_UNKNOWN then
        (if int len > int LP_HDR_NUMELE_UNKNOWN - int num_elements then lpSetNumElements lp LP_HDR_NUMELE_UNKNOWN
         else lpSetNumElements lp (num_elements + len))
      else lp)"

definition lpBatchInsert ::
  "(nat \<Rightarrow> byte) \<Rightarrow> listpack \<Rightarrow> nat \<Rightarrow> lp_where \<Rightarrow> listpackEntry list \<Rightarrow> lp_inserted" where
  "lpBatchInsert junk lp p pos entries =
     do {
       assert_that (pos = LP_BEFORE \<or> pos = LP_AFTER);
       assert_that (entries \<noteq> []);
       poff \<leftarrow> (if pos = LP_AFTER then do { p \<leftarrow> lpSkip lp p; assert_integrity lp p; Some p } else Some p);
       let addedlen = lp_added_len entries;
       let old_listpack_bytes = lpGetTotalBytes lp;
       let new_listpack_bytes = old_listpack_bytes + addedlen;
       if new_listpack_bytes > UINT32_MAX then Some None
       else
         do {
           lp \<leftarrow> lp_make_room junk lp LP_BEFORE poff addedlen 0 new_listpack_bytes;
           (lp, newp) \<leftarrow> lp_batch_store lp poff None entries;
           let lp = lp_num_plus lp (length entries);
           Some (Some (lpSetTotalBytes lp new_listpack_bytes, newp))
         }
     }"

definition lpBatchAppend :: "(nat \<Rightarrow> byte) \<Rightarrow> listpack \<Rightarrow> listpackEntry list \<Rightarrow> listpack option option" where
  "lpBatchAppend junk lp entries = without_newp (lpBatchInsert junk lp (lpGetTotalBytes lp - 1) LP_BEFORE entries)"

section \<open>Deleting ranges\<close>

text \<open>The number of elements is decreased, when it is known.\<close>

definition lp_num_minus :: "listpack \<Rightarrow> nat \<Rightarrow> listpack" where
  "lp_num_minus lp deleted =
     (let numele = lpGetNumElements lp in
      if numele \<noteq> LP_HDR_NUMELE_UNKNOWN then lpSetNumElements lp (nat ((int numele - int deleted) mod 2 ^ 32)) else lp)"

text \<open>The search for the end of the range; the result is \<open>tail\<close> and \<open>deleted\<close>.\<close>

fun lp_range_end :: "listpack \<Rightarrow> nat \<Rightarrow> nat \<Rightarrow> nat \<Rightarrow> nat \<Rightarrow> (nat \<times> nat) option" where
  "lp_range_end lp bytes 0 tail deleted = Some (tail, deleted)"
| "lp_range_end lp bytes (Suc num) tail deleted =
     do {
       tail \<leftarrow> lpSkip lp tail;
       b \<leftarrow> lp_byte lp tail;
       if b = LP_EOF then Some (tail, deleted + 1)
       else do { lpAssertValidEntry lp bytes tail; lp_range_end lp bytes num tail (deleted + 1) }
     }"

definition lpDeleteRangeWithEntry :: "(nat \<Rightarrow> byte) \<Rightarrow> listpack \<Rightarrow> nat \<Rightarrow> nat \<Rightarrow> (listpack \<times> ptr) option" where
  "lpDeleteRangeWithEntry junk lp p num =
     (let bytes = lpBytes lp; eofptr = bytes - 1 in
      if num = 0 then Some (lp, Some p)
      else
        do {
          (tail, deleted) \<leftarrow> lp_range_end lp bytes num p 0;
          lp \<leftarrow> memmove lp p tail (eofptr - tail + 1);
          let lp = lpSetTotalBytes lp (bytes - (tail - p));
          let lp = lpShrinkToFit junk (lp_num_minus lp deleted);
          b \<leftarrow> lp_byte lp p;
          Some (lp, if b = LP_EOF then None else Some p)
        })"

definition lpDeleteRange :: "(nat \<Rightarrow> byte) \<Rightarrow> listpack \<Rightarrow> int \<Rightarrow> nat \<Rightarrow> listpack option" where
  "lpDeleteRange junk lp index num =
     (let numele = lpGetNumElements lp in
      if num = 0 then Some lp
      else
        do {
          p \<leftarrow> lpSeek lp index;
          (case p of
             None \<Rightarrow> Some lp
           | Some p \<Rightarrow>
               (let index = (if numele \<noteq> LP_HDR_NUMELE_UNKNOWN \<and> index < 0 then int numele + index else index) in
                if numele \<noteq> LP_HDR_NUMELE_UNKNOWN \<and> (int numele - index) mod 2 ^ 32 \<le> int num then
                  do {
                    lp \<leftarrow> lp_write lp p [LP_EOF];
                    let lp = lpSetTotalBytes lp (p + 1);
                    let lp = lpSetNumElements lp (nat index);
                    Some (lpShrinkToFit junk lp)
                  }
                else map_option fst (lpDeleteRangeWithEntry junk lp p num)))
        })"

text \<open>
  The loop of \<open>lpBatchDelete\<close> over the pointers to the elements to be deleted; \<open>dst\<close> is where the bytes that are kept are
  moved to.
\<close>

fun lp_batch_delete_loop :: "listpack \<Rightarrow> nat \<Rightarrow> nat list \<Rightarrow> nat \<Rightarrow> (listpack \<times> nat) option" where
  "lp_batch_delete_loop lp lp_end [] dst = Some (lp, dst)"
| "lp_batch_delete_loop lp lp_end (skip # ps) dst =
     do {
       b \<leftarrow> lp_byte lp skip;
       assert_that (b \<noteq> LP_EOF);
       keep_start \<leftarrow> lpSkip lp skip;
       let keep_end = (case ps of q # _ \<Rightarrow> q | [] \<Rightarrow> lp_end);
       if ps \<noteq> [] \<and> keep_start = keep_end then lp_batch_delete_loop lp lp_end ps dst
       else
         do {
           assert_that (keep_end > keep_start);
           let bytes_to_keep = keep_end - keep_start;
           lp \<leftarrow> memmove lp dst keep_start bytes_to_keep;
           lp_batch_delete_loop lp lp_end ps (dst + bytes_to_keep)
         }
     }"

definition lpBatchDelete :: "(nat \<Rightarrow> byte) \<Rightarrow> listpack \<Rightarrow> nat list \<Rightarrow> listpack option" where
  "lpBatchDelete junk lp ps =
     (if ps = [] then Some lp
      else
        do {
          let total_bytes = lpGetTotalBytes lp;
          let lp_end = total_bytes;
          b \<leftarrow> lp_byte lp (lp_end - 1);
          assert_that (b = LP_EOF);
          (lp, dst) \<leftarrow> lp_batch_delete_loop lp lp_end ps (hd ps);
          let deleted_bytes = lp_end - dst;
          let total_bytes = total_bytes - deleted_bytes;
          b \<leftarrow> lp_byte lp (total_bytes - 1);
          assert_that (b = LP_EOF);
          let lp = lpSetTotalBytes lp total_bytes;
          Some (lpShrinkToFit junk (lp_num_minus lp (length ps)))
        })"

section \<open>Merging\<close>

text \<open>
  \<open>lpMerge\<close> of two listpacks at different addresses; the result is the merged listpack, and whether it is in the place of
  the first.
\<close>

definition lpMerge :: "(nat \<Rightarrow> byte) \<Rightarrow> listpack \<Rightarrow> listpack \<Rightarrow> (listpack \<times> bool) option" where
  "lpMerge junk first second =
     do {
       let first_bytes = lpBytes first;
       (first_len, first) \<leftarrow> lpLength first;
       let second_bytes = lpBytes second;
       (second_len, second) \<leftarrow> lpLength second;
       let append = (first_bytes \<ge> second_bytes);
       let target = (if append then first else second);
       let target_bytes = (if append then first_bytes else second_bytes);
       let source = (if append then second else first);
       let source_bytes = (if append then second_bytes else first_bytes);
       let lpbytes = first_bytes + second_bytes - LP_HDR_SIZE - 1;
       assert_that (lpbytes < UINT32_MAX);
       let lplength = uint32 (first_len + second_len);
       let lplength = (if lplength < 65535 then lplength else 65535);
       let target = lp_realloc junk target lpbytes;
       target \<leftarrow>
         (if append then
            do { bs \<leftarrow> lp_read source LP_HDR_SIZE (source_bytes - LP_HDR_SIZE); lp_write target (target_bytes - 1) bs }
          else
            do {
              target \<leftarrow> memmove target (source_bytes - 1) LP_HDR_SIZE (target_bytes - LP_HDR_SIZE);
              bs \<leftarrow> lp_read source 0 (source_bytes - 1);
              lp_write target 0 bs
            });
       let target = lpSetNumElements target lplength;
       let target = lpSetTotalBytes target lpbytes;
       Some (target, append)
     }"

section \<open>Sizes\<close>

definition lpEntrySizeInteger :: "int \<Rightarrow> nat" where
  "lpEntrySizeInteger lval =
     (let enclen = length (lpEncodeIntegerGetType lval) in uint32 (enclen + lpBacklenSize enclen))"

definition lpEstimateBytesRepeatedInteger :: "int \<Rightarrow> nat \<Rightarrow> nat" where
  "lpEstimateBytesRepeatedInteger lval rep = uint32 (LP_HDR_SIZE + lpEntrySizeInteger lval * rep + 1)"

section \<open>Validation\<close>

text \<open>
  The loop of \<open>lpValidateIntegrity\<close>; the result \<open>Some None\<close> is the return value 0, else the pointer behind the loop and
  the count. The caller's check \<open>entry_cb\<close> gets the pointer and \<open>numele\<close>.
\<close>

partial_function (option) lp_validate_loop ::
  "listpack \<Rightarrow> nat \<Rightarrow> nat \<Rightarrow> (nat \<Rightarrow> nat \<Rightarrow> bool) option \<Rightarrow> ptr \<Rightarrow> nat \<Rightarrow> (ptr \<times> nat) option option" where
  "lp_validate_loop lp bytes numele cb p count =
     (case p of
        None \<Rightarrow> Some (Some (None, count))
      | Some prev \<Rightarrow>
          do {
            b \<leftarrow> lp_byte lp prev;
            if b = LP_EOF then Some (Some (p, count))
            else
              do {
                r \<leftarrow> lpValidateNext lp p bytes;
                (case r of
                   None \<Rightarrow> Some None
                 | Some p' \<Rightarrow>
                     if cb \<noteq> None \<and> \<not> the cb prev numele then Some None
                     else lp_validate_loop lp bytes numele cb p' (uint32 (count + 1)))
              }
          })"

definition lpValidateIntegrity :: "listpack \<Rightarrow> nat \<Rightarrow> bool \<Rightarrow> (nat \<Rightarrow> nat \<Rightarrow> bool) option \<Rightarrow> bool option" where
  "lpValidateIntegrity lp sz deep cb =
     (if sz < LP_HDR_SIZE + 1 then Some False
      else
        (let bytes = lpGetTotalBytes lp in
         if bytes \<noteq> sz then Some False
         else
           do {
             b \<leftarrow> lp_byte lp (sz - 1);
             if b \<noteq> LP_EOF then Some False
             else if \<not> deep then Some True
             else
               (let numele = lpGetNumElements lp in
                do {
                  r \<leftarrow> lp_validate_loop lp bytes numele cb (Some LP_HDR_SIZE) 0;
                  (case r of
                     None \<Rightarrow> Some False
                   | Some (p, count) \<Rightarrow>
                       if p \<noteq> Some (sz - 1) then Some False
                       else if numele \<noteq> LP_HDR_NUMELE_UNKNOWN \<and> numele \<noteq> count then Some False
                       else Some True)
                })
           }))"

end
