(* ===== verification/Redis_Listpack_Enc.thy ===== *)
theory Redis_Listpack_Enc
  imports Redis_Listpack Redis_Util_Proofs
begin

text \<open>
  The encoding of the entries of a listpack: what the decoding functions of \<open>listpack.c\<close> read is what the encoding
  functions wrote, for integers, strings and the lengths that are read backwards.
\<close>

section \<open>Bits of bytes\<close>


lemma or_push_bit: "a < 2 ^ n \<Longrightarrow> a OR push_bit n b = a + b * 2 ^ n" for a b :: nat
proof -
  assume "a < 2 ^ n"
  then have "take_bit n a = a" by (simp add: take_bit_nat_eq_self_iff)
  then have "\<not> bit a k \<or> \<not> bit (push_bit n b) k" for k
    by (metis bit_push_bit_iff bit_take_bit_iff leD)
  then have "a + push_bit n b = a OR push_bit n b" by (rule disjunctive_add)
  then show ?thesis by (simp add: push_bit_eq_mult)
qed

lemma and_mask_field: "n AND push_bit k (mask j) = push_bit k (take_bit j (drop_bit k n))" for n :: nat
  by (rule bit_eqI) (auto simp: bit_simps)

lemma and_fields:
  "n AND 0x80 = n div 128 mod 2 * 128" "n AND 0xC0 = n div 64 mod 4 * 64" "n AND 0xE0 = n div 32 mod 8 * 32"
  "n AND 0xF0 = n div 16 mod 16 * 16" "n AND 0xFF = n mod 256" "n AND 0x7F = n mod 128" "n AND 0x3F = n mod 64"
  "n AND 0x1F = n mod 32" "n AND 0xF = n mod 16" for n :: nat
proof -
  have field: "n AND (2 ^ j - 1) * 2 ^ k = n div 2 ^ k mod 2 ^ j * 2 ^ k" for j k
    using and_mask_field [of n k j] by (simp add: mask_eq_exp_minus_1 push_bit_eq_mult take_bit_eq_mod drop_bit_eq_div)
  show "n AND 0x80 = n div 128 mod 2 * 128" using field [of 1 7] by simp
  show "n AND 0xC0 = n div 64 mod 4 * 64" using field [of 2 6] by simp
  show "n AND 0xE0 = n div 32 mod 8 * 32" using field [of 3 5] by simp
  show "n AND 0xF0 = n div 16 mod 16 * 16" using field [of 4 4] by simp
  show "n AND 0xFF = n mod 256" using field [of 8 0] by simp
  show "n AND 0x7F = n mod 128" using field [of 7 0] by simp
  show "n AND 0x3F = n mod 64" using field [of 6 0] by simp
  show "n AND 0x1F = n mod 32" using field [of 5 0] by simp
  show "n AND 0xF = n mod 16" using field [of 4 0] by simp
qed

lemma or_fields:
  "k < 128 \<Longrightarrow> k OR 0x80 = k + 128" "k < 64 \<Longrightarrow> k OR 0xC0 = k + 192" "k < 32 \<Longrightarrow> k OR 0xE0 = k + 224" for k :: nat
  using or_push_bit [of k 7 1] or_push_bit [of k 6 3] or_push_bit [of k 5 7] by simp_all

text \<open>Conditions on a byte, as conditions on its value.\<close>

lemma byte_eq_unat: "b = c \<longleftrightarrow> unat b = unat c" for b c :: byte
  by (simp add: word_unat_eq_iff)

lemma unat_byte: "n < 256 \<Longrightarrow> unat (word_of_nat n :: byte) = n"
  by (simp add: unat_of_nat)

lemma unat_byte_or:
  "k < 128 \<Longrightarrow> unat (word_of_nat (k OR 0x80) :: byte) = k + 128" "k < 64 \<Longrightarrow> unat (word_of_nat (k OR 0xC0) :: byte) = k + 192"
  "k < 32 \<Longrightarrow> unat (word_of_nat (k OR 0xE0) :: byte) = k + 224"
  using unat_byte [of "k + 128"] unat_byte [of "k + 192"] unat_byte [of "k + 224"] by (simp_all add: or_fields)

lemma unat_byte_less: "unat (b :: byte) < 256"
  using unsigned_less [of b] by simp

lemma backlen_byte:
  assumes "k < 128"
  shows "(word_of_nat k :: byte) AND 128 = 0" "unat ((word_of_nat k :: byte) AND 127) = k"
    "(word_of_nat (k OR 128) :: byte) AND 128 \<noteq> 0" "unat ((word_of_nat (k OR 128) :: byte) AND 127) = k"
  using assms by (simp_all add: byte_eq_unat unsigned_and_eq unat_byte unat_byte_or and_fields)

lemma and_low_mask:
  "n AND 127 = n mod 128" "n AND 255 = n mod 256" for n :: nat
  by (simp_all add: and_fields)

lemma and_low_mask_int: "n AND 255 = n mod 256" for n :: int
  using take_bit_eq_mask [of 8 n] by (simp add: take_bit_eq_mod mask_eq_exp_minus_1)

section \<open>The length at the end of an entry\<close>

lemma or_push_digit: "a < 128 ^ j \<Longrightarrow> a OR push_bit (7 * j) b = a + b * 128 ^ j" for a b :: nat
  using or_push_bit [of a "7 * j" b] by (simp add: power_mult)

lemma lpBacklenSize_length: "lpBacklenSize l = length (lpEncodeBacklen l)"
  by (simp add: lpBacklenSize_def lpEncodeBacklen_def)

lemma lpBacklenSize_bounds: "0 < lpBacklenSize l" "lpBacklenSize l \<le> 5"
  by (simp_all add: lpBacklenSize_def)

lemma lpEncodeBacklen_digits:
  assumes "l < 2 ^ 35"
  obtains n where "n \<le> 4" "lpBacklenSize l = Suc n" "l < 128 ^ Suc n"
    "lpEncodeBacklen l = word_of_nat (l div 128 ^ n) # map (\<lambda>i. word_of_nat (l div 128 ^ i mod 128 OR 128)) (rev [0..<n])"
proof -
  note defs = lpBacklenSize_def lpEncodeBacklen_def drop_bit_eq_div and_low_mask upt_rec
  consider "l \<le> 127" | "127 < l" "l < 16383" | "16383 \<le> l" "l < 2097151" | "2097151 \<le> l" "l < 268435455" | "268435455 \<le> l"
    by linarith
  then show thesis
  proof cases
    case 1 then show thesis by (intro that [of 0]) (simp_all add: defs)
  next
    case 2 then show thesis by (intro that [of 1]) (simp_all add: defs)
  next
    case 3 then show thesis by (intro that [of 2]) (simp_all add: defs)
  next
    case 4 then show thesis by (intro that [of 3]) (simp_all add: defs)
  next
    case 5 with assms show thesis by (intro that [of 4]) (simp_all add: defs)
  qed
qed

lemma lp_backlen_loop_more:
  "p < length lp \<Longrightarrow> lp ! p = word_of_nat (d OR 128) \<Longrightarrow> d < 128 \<Longrightarrow> shift + 7 \<le> 28 \<Longrightarrow> p \<noteq> 0 \<Longrightarrow>
   lp_backlen_loop lp p val shift = lp_backlen_loop lp (p - 1) (val OR push_bit shift d) (shift + 7)"
  by (subst lp_backlen_loop.simps) (simp add: lp_byte_def backlen_byte)

lemma lp_backlen_loop_digits:
  assumes "n \<le> 4" "l < 128 ^ Suc n" "q + n < length lp" "lp ! q = word_of_nat (l div 128 ^ n)"
    "\<And>i. i < n \<Longrightarrow> lp ! (q + (n - i)) = word_of_nat (l div 128 ^ i mod 128 OR 128)" "j \<le> n"
  shows "lp_backlen_loop lp (q + (n - j)) (l mod 128 ^ j) (7 * j) = Some l"
  using assms(6)
proof (induction rule: inc_induct)
  case base
  have "l div 128 ^ n < 128" using assms(2) by (simp add: less_mult_imp_div_less)
  moreover have "l mod 128 ^ n + l div 128 ^ n * 128 ^ n = l" by (rule mod_div_mult_eq)
  ultimately show ?case
    using assms(3,4) by (subst lp_backlen_loop.simps) (simp add: lp_byte_def backlen_byte or_push_digit del: mod_div_mult_eq)
next
  case (step j)
  let ?d = "l div 128 ^ j mod 128"
  have "lp ! (q + (n - j)) = word_of_nat (?d OR 128)" "q + (n - j) < length lp" "7 * j + 7 \<le> 28" "q + (n - j) \<noteq> 0"
    "q + (n - j) - 1 = q + (n - Suc j)"
    using step.hyps assms by auto
  moreover have "l mod 128 ^ j OR push_bit (7 * j) ?d = l mod 128 ^ Suc j"
    unfolding power_Suc2 mod_mult2_eq by (subst or_push_digit) simp_all
  moreover have "?d < 128" "7 * Suc j = 7 * j + 7" by simp_all
  ultimately show ?case
    using step.IH lp_backlen_loop_more [of "q + (n - j)" lp ?d "7 * j" "l mod 128 ^ j"] by (simp only: simp_thms)
qed

lemma lpDecodeBacklen_encode:
  assumes "l < 2 ^ 35"
  shows "lpDecodeBacklen (pre @ lpEncodeBacklen l @ post) (length pre + lpBacklenSize l - 1) = Some l"
proof -
  obtain n where n: "n \<le> 4" "lpBacklenSize l = Suc n" "l < 128 ^ Suc n"
    "lpEncodeBacklen l = word_of_nat (l div 128 ^ n) # map (\<lambda>i. word_of_nat (l div 128 ^ i mod 128 OR 128)) (rev [0..<n])"
    using lpEncodeBacklen_digits [OF assms] .
  have "(pre @ lpEncodeBacklen l @ post) ! (length pre + (n - i)) = word_of_nat (l div 128 ^ i mod 128 OR 128)" if "i < n" for i
  proof -
    have "rev [0..<n] ! (n - Suc i) = i" using that by (simp add: rev_nth)
    moreover have "n - i = Suc (n - Suc i)" using that by simp
    ultimately show ?thesis
      unfolding nth_append_length_plus using that by (simp add: n(4) nth_append)
  qed
  then have "lp_backlen_loop (pre @ lpEncodeBacklen l @ post) (length pre + (n - 0)) (l mod 128 ^ 0) (7 * 0) = Some l"
    by (intro lp_backlen_loop_digits n) (simp_all add: n(4) nth_append)
  then show ?thesis by (simp add: lpDecodeBacklen_def n(2))
qed


section \<open>Encodings\<close>

lemma lp_byte_at: "lp = a @ b # c \<Longrightarrow> i = length a \<Longrightarrow> lp_byte lp i = Some b"
  by (simp add: lp_byte_def)

lemma lp_read_at: "lp = a @ bs @ c \<Longrightarrow> i = length a \<Longrightarrow> n = length bs \<Longrightarrow> lp_read lp i n = Some bs"
  by (simp add: lp_read_def byte_range_def)

lemma word_of_int_low: "word_of_int (v AND 255) = (word_of_int v :: byte)"
proof -
  have "word_of_int (v mod 256 + 256 * (v div 256)) = (word_of_int (v mod 256) :: byte)" by (rule word_of_int_add_256)
  then show ?thesis by (simp add: and_low_mask_int)
qed

lemma word_of_nat_low: "word_of_nat (n AND 255) = (word_of_nat n :: byte)"
  by (metis and_low_mask(2) and_low_mask_int of_int_of_nat_eq of_nat_mod of_nat_numeral word_of_int_low)

lemma lpEncodeIntegerGetType_eq:
  "lpEncodeIntegerGetType v =
    (if 0 \<le> v \<and> v \<le> 127 then [word_of_nat (nat v)]
     else if -4096 \<le> v \<and> v \<le> 4095 then [word_of_nat (nat (v mod 8192) div 256 OR 0xC0), word_of_nat (nat (v mod 8192) mod 256)]
     else if fits 2 v then 0xF1 # le_encode 2 v
     else if fits 3 v then 0xF2 # le_encode 3 v
     else if fits 4 v then 0xF3 # le_encode 4 v
     else 0xF4 # le_encode 8 v)"
  (is "_ = ?enc")
proof -
  have div: "v div 256 div 256 = v div 65536" "v div 65536 div 256 = v div 16777216" for v :: int
    by (simp_all add: zdiv_zmult2_eq [symmetric])
  have mod: "le_encode 8 (v mod 2 ^ 64) = le_encode 8 v" for v
    using le_encode_mod [of 8 "v mod 2 ^ 64" "v div 2 ^ 64"] by (simp add: mult.commute)
  have wrap: "le_encode 2 (65536 + v) = le_encode 2 v" "le_encode 3 (16777216 + v) = le_encode 3 v"
    "le_encode 4 (4294967296 + v) = le_encode 4 v" for v
    using le_encode_mod [of 2 v 1] le_encode_mod [of 3 v 1] le_encode_mod [of 4 v 1] by (simp_all add: add.commute)
  have bytes: "le_encode 2 v = [word_of_int v, word_of_int (v div 256)]"
    "le_encode 3 v = [word_of_int v, word_of_int (v div 256), word_of_int (v div 65536)]"
    "le_encode 4 v = [word_of_int v, word_of_int (v div 256), word_of_int (v div 65536), word_of_int (v div 16777216)]"
    "le_encode 8 v = [word_of_int v, word_of_int (v div 2 ^ 8), word_of_int (v div 2 ^ 16), word_of_int (v div 2 ^ 24),
       word_of_int (v div 2 ^ 32), word_of_int (v div 2 ^ 40), word_of_int (v div 2 ^ 48), word_of_int (v div 2 ^ 56)]" for v
    by (simp_all add: eval_nat_numeral div zdiv_zmult2_eq [symmetric])
  note ops = word_of_int_low drop_bit_eq_div push_bit_eq_mult Let_def
  have thirteen: "[word_of_int (drop_bit 8 u OR 0xC0), word_of_int (u AND 0xff)] =
      [word_of_nat (nat u div 256 OR 0xC0), word_of_nat (nat u mod 256) :: byte]" if "0 \<le> u" for u
  proof -
    have "int (nat u div 256 OR 192) = u div 256 OR 192" "int (nat u mod 256) = u AND 255"
      using that by (simp_all add: of_nat_or_eq and_low_mask_int zdiv_int zmod_int)
    then have "(word_of_nat (nat u div 256 OR 192) :: byte) = word_of_int (u div 256 OR 192)"
      "(word_of_nat (nat u mod 256) :: byte) = word_of_int (u AND 255)"
      by (metis of_int_of_nat_eq)+
    then show ?thesis by (simp add: drop_bit_eq_div)
  qed
  consider "0 \<le> v" "v \<le> 127" | "\<not> (0 \<le> v \<and> v \<le> 127)" "-4096 \<le> v" "v \<le> 4095"
    | "\<not> (-4096 \<le> v \<and> v \<le> 4095)" "fits 2 v" | "\<not> fits 2 v" "fits 3 v" | "\<not> fits 3 v" "fits 4 v" | "\<not> fits 4 v"
    by blast
  then show ?thesis
  proof cases
    case 1
    then show ?thesis by (simp add: lpEncodeIntegerGetType_def)
  next
    case 2
    have "v mod 8192 = (if v < 0 then push_bit 13 1 + v else v)"
      using 2 mod_pos_pos_trivial [of "8192 + v" 8192] by (auto simp: push_bit_eq_mult)
    with 2 thirteen [of "v mod 8192"] show ?thesis by (simp add: lpEncodeIntegerGetType_def Let_def)
  next
    case 3
    then show ?thesis
      using wrap(1) [of v] by (auto simp: lpEncodeIntegerGetType_def fits_def ops bytes(1))
  next
    case 4
    then show ?thesis
      using wrap(2) [of v] by (auto simp: lpEncodeIntegerGetType_def fits_def ops bytes(2))
  next
    case 5
    then show ?thesis
      using wrap(3) [of v] by (auto simp: lpEncodeIntegerGetType_def fits_def ops bytes(3))
  next
    case 6
    then show ?thesis
      using mod [of v] by (auto simp: lpEncodeIntegerGetType_def fits_def ops bytes(4))
  qed
qed


text \<open>The first byte of an entry tells its class and the number in its low bits.\<close>

lemma lp_class_of_unat:
  "lp_class_of b =
     (if unat b < 128 then C_7BIT_UINT
      else if unat b div 64 = 2 then C_6BIT_STR
      else if unat b div 32 = 6 then C_13BIT_INT
      else if unat b = 0xF1 then C_16BIT_INT
      else if unat b = 0xF2 then C_24BIT_INT
      else if unat b = 0xF3 then C_32BIT_INT
      else if unat b = 0xF4 then C_64BIT_INT
      else if unat b div 16 = 14 then C_12BIT_STR
      else if unat b = 0xF0 then C_32BIT_STR
      else if unat b = 0xFF then C_EOF
      else C_INVALID)"
proof -
  let ?n = "unat b"
  have n: "?n < 256" by (rule unat_byte_less)
  have "b AND 0x80 = 0 \<longleftrightarrow> ?n < 128" "b AND 0xC0 = 0x80 \<longleftrightarrow> ?n div 64 = 2" "b AND 0xE0 = 0xC0 \<longleftrightarrow> ?n div 32 = 6"
    "b AND 0xF0 = 0xE0 \<longleftrightarrow> ?n div 16 = 14" "b AND 0xFF = c \<longleftrightarrow> ?n = unat c" "b = c \<longleftrightarrow> ?n = unat c" for c
    using n by (auto simp: byte_eq_unat unsigned_and_eq and_fields)
  then show ?thesis by (simp add: lp_class_of_def)
qed

lemma class_7bit: "k < 128 \<Longrightarrow> lp_class_of (word_of_nat k) = C_7BIT_UINT \<and> unat ((word_of_nat k :: byte) AND 0x7f) = k"
  by (simp add: lp_class_of_unat unsigned_and_eq unat_byte and_fields)

lemma field_add: "k < m \<Longrightarrow> (k + q * m) div m = q \<and> (k + q * m) mod m = k" for k :: nat
  by simp

lemma class_6bit:
  "k < 64 \<Longrightarrow> lp_class_of (word_of_nat (k OR 0x80)) = C_6BIT_STR \<and> LP_ENCODING_6BIT_STR_LEN (word_of_nat (k OR 0x80)) = k"
  using field_add [of k 64 2]
  by (simp add: lp_class_of_unat LP_ENCODING_6BIT_STR_LEN_def unsigned_and_eq unat_byte unat_byte_or and_fields)

lemma class_13bit:
  "k < 32 \<Longrightarrow> lp_class_of (word_of_nat (k OR 0xC0)) = C_13BIT_INT \<and> unat ((word_of_nat (k OR 0xC0) :: byte) AND 0x1f) = k"
  using field_add [of k 32 6] field_add [of k 64 3]
  by (simp add: lp_class_of_unat unsigned_and_eq unat_byte unat_byte_or and_fields)

lemma class_12bit:
  "k < 16 \<Longrightarrow> lp_class_of (word_of_nat (k OR 0xE0)) = C_12BIT_STR \<and> unat ((word_of_nat (k OR 0xE0) :: byte) AND 0xF) = k"
  using field_add [of k 16 14] field_add [of k 32 7] field_add [of "k + 32" 64 3]
  by (simp add: lp_class_of_unat unsigned_and_eq unat_byte unat_byte_or and_fields)

lemma class_full:
  "lp_class_of 0xF0 = C_32BIT_STR" "lp_class_of 0xF1 = C_16BIT_INT" "lp_class_of 0xF2 = C_24BIT_INT"
  "lp_class_of 0xF3 = C_32BIT_INT" "lp_class_of 0xF4 = C_64BIT_INT" "lp_class_of 0xFF = C_EOF"
  by (simp_all add: lp_class_of_unat)

lemmas class_simps = class_7bit class_6bit class_13bit class_12bit class_full

text \<open>Neighbouring fields of a number.\<close>

lemma push_or_byte: "push_bit 8 (n div 256) OR n mod 256 = n" for n :: nat
  using or_push_bit [of "n mod 256" 8 "n div 256"] by (simp add: or.commute)

lemma lp_to_signed_mod:
  assumes "fits n v" "0 < n"
  shows "lp_to_signed (nat (v mod 256 ^ n)) (256 ^ n div 2) (256 ^ n - 1) = v"
proof (cases "0 \<le> v")
  case True
  with assms have "v mod 256 ^ n = v" "int (2 * nat v) < int (256 ^ n)"
    by (simp_all add: fits_def)
  moreover from this(2) have "2 * nat v < 256 ^ n" by (simp only: of_nat_less_iff)
  moreover have "2 * (256 ^ n div 2) = (256 ^ n :: nat)" using assms(2) by simp
  ultimately have "\<not> 256 ^ n div 2 \<le> nat v" "v mod 256 ^ n = v" by linarith+
  then show ?thesis using True by (simp add: lp_to_signed_def)
next
  case False
  with assms have *: "v mod 256 ^ n = v + 256 ^ n" "256 ^ n \<le> 2 * (v + 256 ^ n)" "v + 256 ^ n < 256 ^ n"
    using mod_pos_pos_trivial [of "v + 256 ^ n" "256 ^ n"] by (auto simp: fits_def)
  then have "256 ^ n div 2 \<le> nat (v + 256 ^ n)" "int (256 ^ n - 1 - nat (v + 256 ^ n)) = - v - 1"
    by (simp_all add: of_nat_diff le_nat_iff zdiv_int nat_le_iff int_ops)
  with * show ?thesis by (simp add: lp_to_signed_def)
qed


section \<open>Entries\<close>

definition lp_enc :: "listpackEntry \<Rightarrow> byte list" where
  "lp_enc e = (case e of Ent_str s \<Rightarrow> lpEncodeString s | Ent_int v \<Rightarrow> lpEncodeIntegerGetType v)"

definition lp_entry :: "listpackEntry \<Rightarrow> byte list" where
  "lp_entry e = lp_enc e @ lpEncodeBacklen (length (lp_enc e))"

text \<open>An entry of a well-formed listpack.\<close>

definition entry_ok :: "listpackEntry \<Rightarrow> bool" where
  "entry_ok e \<longleftrightarrow> length (lp_enc e) < 2 ^ 32 \<and> (case e of Ent_str s \<Rightarrow> True | Ent_int v \<Rightarrow> fits 8 v)"

text \<open>What \<open>lpGet\<close> returns for an entry at \<open>p\<close>.\<close>

definition lp_decoded :: "nat \<Rightarrow> listpackEntry \<Rightarrow> lp_value" where
  "lp_decoded p e =
     (case e of Ent_int v \<Rightarrow> Lp_int v | Ent_str s \<Rightarrow> Lp_str (p + (length (lp_enc e) - length s)) (length s))"

lemma lpEncodeString_eq:
  "lpEncodeString s =
     (if length s < 64 then word_of_nat (length s OR 0x80) # s
      else if length s < 4096 then word_of_nat (length s div 256 OR 0xE0) # word_of_nat (length s mod 256) # s
      else 0xF0 # le_encode 4 (int (length s)) @ s)"
proof -
  have div: "int m div 256 = int (m div 256)" for m by (simp add: zdiv_int)
  have "4 = Suc (Suc (Suc (Suc 0)))" by simp
  then have "le_encode 4 (int n) = [word_of_nat n, word_of_nat (n div 256), word_of_nat (n div 256 div 256), word_of_nat (n div 256 div 256 div 256)]" for n
    by (simp only: le_encode.simps div of_int_of_nat_eq)
  then have "le_encode 4 (int n) = [word_of_nat n, word_of_nat (n div 256), word_of_nat (n div 65536), word_of_nat (n div 16777216)]" for n
    by (simp add: div_mult2_eq [symmetric])
  then show ?thesis
    using word_of_nat_low [unfolded and_low_mask] by (simp add: lpEncodeString_def Let_def drop_bit_eq_div word_of_nat_low)
qed

lemma lp_enc_cases:
  assumes "entry_ok e"
  obtains (uint7) k where "e = Ent_int (int k)" "k < 128" "lp_enc e = [word_of_nat k]"
  | (str6) s where "e = Ent_str s" "length s < 64" "lp_enc e = word_of_nat (length s OR 0x80) # s"
  | (int13) v where "e = Ent_int v" "-4096 \<le> v" "v \<le> 4095"
      "lp_enc e = [word_of_nat (nat (v mod 8192) div 256 OR 0xC0), word_of_nat (nat (v mod 8192) mod 256)]"
  | (wide) v n b where "e = Ent_int v" "fits n v" "lp_enc e = b # le_encode n v"
      "(n, b) \<in> {(2, 0xF1), (3, 0xF2), (4, 0xF3), (8, 0xF4)}"
  | (str12) s where "e = Ent_str s" "length s < 4096" "lp_enc e = word_of_nat (length s div 256 OR 0xE0) # word_of_nat (length s mod 256) # s"
  | (str32) s where "e = Ent_str s" "5 + length s < 2 ^ 32" "lp_enc e = 0xF0 # le_encode 4 (int (length s)) @ s"
proof (cases e)
  case (Ent_str s)
  consider "length s < 64" | "\<not> length s < 64" "length s < 4096" | "\<not> length s < 4096" by blast
  then show thesis
  proof cases
    case 1 with Ent_str show thesis by (intro str6) (simp_all add: lp_enc_def lpEncodeString_eq)
  next
    case 2 with Ent_str show thesis by (intro str12) (simp_all add: lp_enc_def lpEncodeString_eq)
  next
    case 3 with Ent_str assms show thesis by (intro str32) (simp_all add: lp_enc_def lpEncodeString_eq entry_ok_def)
  qed
next
  case (Ent_int v)
  note enc = lp_enc_def lpEncodeIntegerGetType_eq
  consider "0 \<le> v" "v \<le> 127" | "\<not> (0 \<le> v \<and> v \<le> 127)" "-4096 \<le> v" "v \<le> 4095"
    | "\<not> (-4096 \<le> v \<and> v \<le> 4095)" "fits 2 v" | "\<not> fits 2 v" "fits 3 v" | "\<not> fits 3 v" "fits 4 v" | "\<not> fits 4 v"
    by blast
  then show thesis
  proof cases
    case 1 with Ent_int show thesis by (intro uint7 [of "nat v"]) (simp_all add: enc)
  next
    case 2 with Ent_int show thesis by (intro int13) (auto simp: enc)
  next
    case 3 with Ent_int show thesis by (intro wide [of v 2 "0xF1"]) (auto simp: enc)
  next
    case 4
    then have "\<not> (-4096 \<le> v \<and> v \<le> 4095)" by (auto simp: fits_def)
    with 4 Ent_int show thesis by (intro wide [of v 3 "0xF2"]) (auto simp: enc)
  next
    case 5
    then have "\<not> (-4096 \<le> v \<and> v \<le> 4095)" "\<not> fits 2 v" by (auto simp: fits_def)
    with 5 Ent_int show thesis by (intro wide [of v 4 "0xF3"]) (auto simp: enc)
  next
    case 6
    then have "\<not> (-4096 \<le> v \<and> v \<le> 4095)" "\<not> fits 2 v" "\<not> fits 3 v" by (auto simp: fits_def)
    with 6 Ent_int assms show thesis by (intro wide [of v 8 "0xF4"]) (auto simp: enc entry_ok_def)
  qed
qed


lemma lp_enc_read:
  "lp_byte (pre @ b # post) (length pre) = Some b"
  "lp_byte (pre @ b # c # post) (Suc (length pre)) = Some c"
  "n = length bs \<Longrightarrow> lp_read (pre @ b # bs @ post) (Suc (length pre)) n = Some bs"
  by (simp_all add: lp_byte_def lp_read_def byte_range_def nth_append)

lemma byte_pair: "push_bit 8 (n div 256) OR unat (word_of_nat (n mod 256) :: byte) = n"
  by (simp add: unat_byte push_or_byte)

lemma le_encode_4_nat: "n < 2 ^ 32 \<Longrightarrow> nat (le_nat (le_encode 4 (int n))) = n"
  by (simp add: le_nat_encode)

lemma lpCurrentEncodedSizeUnsafe_entry:
  assumes "entry_ok e"
  shows "lpCurrentEncodedSizeUnsafe (pre @ lp_enc e @ post) (length pre) = Some (length (lp_enc e))"
  using assms
proof (cases rule: lp_enc_cases)
  case (uint7 k)
  then show ?thesis by (simp add: lpCurrentEncodedSizeUnsafe_def class_simps lp_enc_read)
next
  case (str6 s)
  then show ?thesis
    by (simp add: lpCurrentEncodedSizeUnsafe_def class_simps lp_enc_read)
next
  case (int13 v)
  then have "nat (v mod 8192) div 256 < 32" by (simp add: less_mult_imp_div_less nat_less_iff)
  with int13 show ?thesis
    by (simp add: lpCurrentEncodedSizeUnsafe_def class_simps lp_enc_read)
next
  case (wide v n b)
  then show ?thesis
    by (auto simp: lpCurrentEncodedSizeUnsafe_def class_simps lp_enc_read)
next
  case (str12 s)
  then have "length s div 256 < 16" by simp
  with str12 show ?thesis
    by (simp add: lpCurrentEncodedSizeUnsafe_def class_simps lp_enc_read LP_ENCODING_12BIT_STR_LEN_def byte_pair)
next
  case (str32 s)
  then show ?thesis
    by (simp add: lpCurrentEncodedSizeUnsafe_def class_simps lp_enc_read LP_ENCODING_32BIT_STR_LEN_def le_encode_4_nat uint32_def)
qed

lemma lpGetWithSize_entry:
  assumes "entry_ok e"
  shows "lpGetWithSize (pre @ lp_enc e @ post) (length pre) es =
    Some (lp_decoded (length pre) e, length (lp_entry e))"
  using assms
proof (cases rule: lp_enc_cases)
  case (uint7 k)
  then show ?thesis
    by (simp add: lpGetWithSize_def class_simps lp_enc_read lp_to_signed_def lp_decoded_def lp_entry_def lpBacklenSize_length [symmetric] lpBacklenSize_def)
next
  case (str6 s)
  then show ?thesis
    by (simp add: lpGetWithSize_def class_simps lp_enc_read lp_decoded_def lp_entry_def Let_def lpBacklenSize_length [symmetric])
next
  case (int13 v)
  let ?u = "nat (v mod 8192)"
  have "lp_to_signed ?u (2 ^ 12) 8191 = v"
    using int13 mod_pos_pos_trivial [of "v + 8192" 8192] by (cases "0 \<le> v") (auto simp: lp_to_signed_def)
  moreover have "?u div 256 < 32" by (simp add: less_mult_imp_div_less nat_less_iff)
  ultimately show ?thesis
    using int13
    by (simp add: lpGetWithSize_def class_simps lp_enc_read lp_decoded_def byte_pair lp_entry_def lpBacklenSize_length [symmetric] lpBacklenSize_def)
next
  case (wide v n b)
  then show ?thesis
    using lp_to_signed_mod [of n v]
    by (auto simp: lpGetWithSize_def class_simps lp_enc_read lp_decoded_def le_nat_encode lp_entry_def lpBacklenSize_length [symmetric] lpBacklenSize_def)
next
  case (str12 s)
  then have "length s div 256 < 16" by simp
  with str12 show ?thesis
    by (simp add: lpGetWithSize_def class_simps lp_enc_read LP_ENCODING_12BIT_STR_LEN_def byte_pair lp_decoded_def lp_entry_def lpBacklenSize_length [symmetric])
next
  case (str32 s)
  then show ?thesis
    by (simp add: lpGetWithSize_def class_simps lp_enc_read LP_ENCODING_32BIT_STR_LEN_def le_encode_4_nat lp_decoded_def lp_entry_def add.commute
        lpBacklenSize_length [symmetric])
qed


lemma lp_enc_first:
  assumes "entry_ok e"
  obtains b bs where "lp_enc e = b # bs" "b \<noteq> LP_EOF" "lpCurrentEncodedSizeBytes b \<noteq> 0" "lpCurrentEncodedSizeBytes b \<le> length (lp_enc e)"
proof -
  note found = that
  have known: "b \<noteq> LP_EOF \<and> lpCurrentEncodedSizeBytes b \<noteq> 0" if "lp_class_of b \<noteq> C_EOF" "lp_class_of b \<noteq> C_INVALID" for b
    using that class_full(6) by (auto simp: lpCurrentEncodedSizeBytes_def split: lp_class.splits)
  have one: thesis if "lp_enc e = b # bs" "lp_class_of b \<notin> {C_EOF, C_INVALID, C_12BIT_STR, C_32BIT_STR}" for b bs
    by (rule found) (use that known [of b] in \<open>auto simp: lpCurrentEncodedSizeBytes_def split: lp_class.splits\<close>)
  show thesis
    using assms
  proof (cases rule: lp_enc_cases)
    case (uint7 k)
    then show thesis by (intro one) (auto simp: class_simps)
  next
    case (str6 s)
    then show thesis by (intro one) (auto simp: class_simps)
  next
    case (int13 v)
    then have "nat (v mod 8192) div 256 < 32" by (simp add: less_mult_imp_div_less nat_less_iff)
    with int13 show thesis by (intro one) (auto simp: class_simps)
  next
    case (wide v n b)
    then show thesis by (intro one) (auto simp: class_simps)
  next
    case (str12 s)
    then have "length s div 256 < 16" by simp
    with str12 show thesis
      by (intro found) (use known in \<open>auto simp: class_simps lpCurrentEncodedSizeBytes_def\<close>)
  next
    case (str32 s)
    then show thesis
      by (intro found) (auto simp: class_simps lpCurrentEncodedSizeBytes_def)
  qed
qed

text \<open>The string that an entry stands for, and the entry that a string is stored as.\<close>

definition lp_text :: "listpackEntry \<Rightarrow> byte list" where
  "lp_text e = (case e of Ent_str s \<Rightarrow> s | Ent_int v \<Rightarrow> lltext v)"

definition lp_entry_of :: "byte list \<Rightarrow> listpackEntry" where
  "lp_entry_of s = (case lpStringToInt64 s of Some v \<Rightarrow> Ent_int v | None \<Rightarrow> Ent_str s)"

lemma lp_digits_loop_eq: "lp_digits_loop cs v = string2ll_loop cs v"
  by (induction cs v rule: lp_digits_loop.induct) simp_all

lemma lpStringToInt64_eq: "lpStringToInt64 s = string2ll s"
  unfolding lpStringToInt64_def string2ll_def lp_digits_loop_eq ..

lemma fits_8: "fits 8 v \<longleftrightarrow> LLONG_MIN \<le> v \<and> v \<le> LLONG_MAX"
  by (auto simp: fits_def)

lemma lpStringToInt64_iff: "lpStringToInt64 s = Some v \<longleftrightarrow> fits 8 v \<and> s = lltext v"
  by (simp add: lpStringToInt64_eq string2ll_iff fits_8)

lemma lp_text_entry_of [simp]: "lp_text (lp_entry_of s) = s"
  by (auto simp: lp_text_def lp_entry_of_def lpStringToInt64_iff split: option.splits)

lemma lp_encode_element_enc:
  "lp_encode_element (lp_entry_element e) = (lp_enc (case e of Ent_str s \<Rightarrow> lp_entry_of s | Ent_int v \<Rightarrow> e),
     length (lp_enc (case e of Ent_str s \<Rightarrow> lp_entry_of s | Ent_int v \<Rightarrow> e)))"
  by (cases e)
    (auto simp: lp_encode_element_def lp_entry_element_def lp_enc_def lp_entry_of_def lpEncodeGetType_def lpEncodeString_def Let_def split: option.splits)

lemma lp_encode_element_str: "lp_encode_element (Elestr s) = (lp_enc (lp_entry_of s), length (lp_enc (lp_entry_of s)))"
  using lp_encode_element_enc [of "Ent_str s"] by (simp add: lp_entry_element_def)

text \<open>Reading an entry as a string.\<close>

lemma lpGet_entry:
  "entry_ok e \<Longrightarrow> lpGet (pre @ lp_enc e @ post) (length pre) = Some (lp_decoded (length pre) e)"
  by (simp add: lpGet_def lpGetWithSize_entry)

lemma lp_enc_str: "\<exists>h. lp_enc (Ent_str s) = h @ s"
  by (auto simp: lp_enc_def lpEncodeString_eq intro: append_Cons [symmetric])

lemma lpGetString_entry:
  assumes "entry_ok e" "length intbuf = LP_INTBUF_SIZE"
  shows "lpGetString intbuf (pre @ lp_enc e @ post) (length pre) = Some (lp_text e)"
proof (cases e)
  case (Ent_int v)
  then have v: "LLONG_MIN \<le> v" "v \<le> LLONG_MAX" using assms(1) by (simp_all add: entry_ok_def fits_8)
  then have "length (lltext v) < length intbuf" using lltext_length assms(2) by fastforce
  from ll2string_eq(1) [OF v(1) this] show ?thesis
    using assms(1) by (simp add: lpGetString_def lpGet_entry lp_decoded_def lp_text_def Ent_int)
next
  case (Ent_str s)
  obtain h where h: "lp_enc (Ent_str s) = h @ s" using lp_enc_str by blast
  have "lp_read (pre @ lp_enc e @ post) (length pre + (length (lp_enc e) - length s)) (length s) = Some s"
    by (rule lp_read_at [of _ "pre @ h" s post]) (simp_all add: Ent_str h)
  then show ?thesis
    using assms(1) by (simp add: lpGetString_def lpGet_entry lp_decoded_def lp_text_def Ent_str)
qed

end
