(* ===== verification/Redis_Listpack_Nav.thy ===== *)
theory Redis_Listpack_Nav
  imports Redis_Listpack_Enc
begin

text \<open>
  Well-formed listpacks: the list of entries that a block of memory stands for, and what moving, reading and searching
  give on it.
\<close>


section \<open>Well-formed listpacks\<close>

definition lp_header :: "nat \<Rightarrow> nat \<Rightarrow> byte list" where
  "lp_header tot num = le_encode 4 (int tot) @ le_encode 2 (int num)"

definition lp_body :: "listpackEntry list \<Rightarrow> byte list" where
  "lp_body es = concat (map lp_entry es)"

text \<open>
  The block \<open>lp\<close> holds the entries \<open>es\<close>: a header with the number of bytes and the number of entries, or the mark that the
  latter is not known, the entries, the end mark, and memory that is not used.
\<close>

definition lp_rep :: "listpack \<Rightarrow> listpackEntry list \<Rightarrow> bool" where
  "lp_rep lp es \<longleftrightarrow>
     (\<exists>num slack. lp = lp_header (7 + length (lp_body es)) num @ lp_body es @ LP_EOF # slack \<and>
        7 + length (lp_body es) < 2 ^ 32 \<and> num \<le> 65535 \<and> num \<in> {length es, LP_HDR_NUMELE_UNKNOWN} \<and> list_all entry_ok es)"

lemma lp_body_simps [simp]:
  "lp_body [] = []" "lp_body (e # es) = lp_entry e @ lp_body es" "lp_body (xs @ ys) = lp_body xs @ lp_body ys"
  by (simp_all add: lp_body_def)

lemma length_lp_header [simp]: "length (lp_header tot num) = 6"
  by (simp add: lp_header_def)

lemma lp_header_get:
  assumes "tot < 2 ^ 32" "num \<le> 65535"
  shows "lpGetTotalBytes (lp_header tot num @ r) = tot" "lpGetNumElements (lp_header tot num @ r) = num"
  using assms by (simp_all add: lpGetTotalBytes_def lpGetNumElements_def lp_header_def byte_range_def le_nat_encode)

lemma lp_header_set:
  "lpSetTotalBytes (lp_header tot num @ r) tot' = lp_header tot' num @ r"
  "lpSetNumElements (lp_header tot num @ r) num' = lp_header tot num' @ r"
  by (simp_all add: lpSetTotalBytes_def lpSetNumElements_def lp_header_def mem_write_def)

lemma lp_entry_length:
  assumes "entry_ok e"
  shows "2 \<le> length (lp_entry e)"
proof -
  obtain b bs where "lp_enc e = b # bs" using lp_enc_first [OF assms] .
  then show ?thesis
    using lpBacklenSize_bounds(1) [of "length (lp_enc e)"] by (simp add: lp_entry_def lpBacklenSize_length [symmetric])
qed

lemma lp_body_length: "list_all entry_ok es \<Longrightarrow> 2 * length es \<le> length (lp_body es)"
  by (induction es) (auto dest!: lp_entry_length)

text \<open>The place of an entry behind the entries \<open>xs\<close>.\<close>

definition lp_pos :: "listpackEntry list \<Rightarrow> nat" where
  "lp_pos xs = 6 + length (lp_body xs)"

lemma lp_pos_simps [simp]: "lp_pos [] = 6" "lp_pos (xs @ [e]) = lp_pos xs + length (lp_entry e)"
  by (simp_all add: lp_pos_def)

lemma lp_rep_total: "lp_rep lp es \<Longrightarrow> lpGetTotalBytes lp = lp_pos es + 1"
  by (auto simp: lp_rep_def lp_header_get lp_pos_def)

lemma lp_rep_num: "lp_rep lp es \<Longrightarrow> lpGetNumElements lp = length es \<or> lpGetNumElements lp = LP_HDR_NUMELE_UNKNOWN"
  by (auto simp: lp_rep_def lp_header_get)

lemma lp_rep_length: "lp_rep lp es \<Longrightarrow> lp_pos es < length lp \<and> length es < 2 ^ 31 \<and> lp_pos es < 2 ^ 32 - 1"
  using lp_body_length [of es] by (auto simp: lp_rep_def lp_pos_def)

lemma lp_rep_entry:
  assumes "lp_rep lp (xs @ e # ys)"
  obtains pre post where "lp = pre @ lp_enc e @ lpEncodeBacklen (length (lp_enc e)) @ post" "length pre = lp_pos xs" "entry_ok e"
    "lp_pos xs + length (lp_entry e) < lpGetTotalBytes lp" "lpGetTotalBytes lp < 2 ^ 32" "lp_pos xs + length (lp_entry e) < length lp"
proof -
  obtain num slack where lp: "lp = lp_header (7 + length (lp_body (xs @ e # ys))) num @ lp_body (xs @ e # ys) @ LP_EOF # slack"
    and small: "7 + length (lp_body (xs @ e # ys)) < 2 ^ 32" and ok: "list_all entry_ok (xs @ e # ys)"
    using assms by (auto simp: lp_rep_def)
  show thesis
    by (rule that [of "lp_header (7 + length (lp_body (xs @ e # ys))) num @ lp_body xs" "lp_body ys @ LP_EOF # slack"])
      (use lp small ok lp_rep_total [OF assms] in \<open>auto simp: lp_entry_def lp_pos_def\<close>)
qed

lemma lp_rep_end: "lp_rep lp es \<Longrightarrow> lp_byte lp (lp_pos es) = Some LP_EOF"
  by (auto simp: lp_rep_def lp_pos_def lp_byte_def nth_append)

lemma lp_entry_size: "length (lp_enc e) + lpBacklenSize (length (lp_enc e)) = length (lp_entry e)"
  by (simp add: lp_entry_def lpBacklenSize_length)

lemma lpSkip_entry:
  assumes "lp_rep lp (xs @ e # ys)"
  shows "lpSkip lp (lp_pos xs) = Some (lp_pos (xs @ [e]))"
proof -
  obtain pre post where s: "lp = pre @ lp_enc e @ lpEncodeBacklen (length (lp_enc e)) @ post" "length pre = lp_pos xs" "entry_ok e"
    "lp_pos xs + length (lp_entry e) < lpGetTotalBytes lp" "lpGetTotalBytes lp < 2 ^ 32" "lp_pos xs + length (lp_entry e) < length lp"
    using lp_rep_entry [OF assms] .
  have "lpCurrentEncodedSizeUnsafe lp (lp_pos xs) = Some (length (lp_enc e))"
    using lpCurrentEncodedSizeUnsafe_entry [OF s(3), of pre] s(1,2) by simp
  then show ?thesis
    using s by (simp add: lpSkip_def lp_entry_size)
qed

lemma lp_rep_first_byte:
  assumes "lp_rep lp (xs @ e # ys)"
  obtains b where "lp_byte lp (lp_pos xs) = Some b" "b \<noteq> LP_EOF" "lpCurrentEncodedSizeBytes b \<noteq> 0"
    "lpCurrentEncodedSizeBytes b \<le> length (lp_enc e)"
proof -
  obtain pre post where s: "lp = pre @ lp_enc e @ lpEncodeBacklen (length (lp_enc e)) @ post" "length pre = lp_pos xs" "entry_ok e"
    using lp_rep_entry [OF assms] .
  from lp_enc_first [OF s(3)] obtain b bs where "lp_enc e = b # bs" "b \<noteq> LP_EOF" "lpCurrentEncodedSizeBytes b \<noteq> 0"
    "lpCurrentEncodedSizeBytes b \<le> length (lp_enc e)" .
  with s show thesis by (intro that) (auto intro: lp_byte_at)
qed

lemma lpDecodeBacklen_entry:
  assumes "lp_rep lp (xs @ e # ys)"
  shows "lpDecodeBacklen lp (lp_pos (xs @ [e]) - 1) = Some (length (lp_enc e))"
proof -
  obtain pre post where s: "lp = pre @ lp_enc e @ lpEncodeBacklen (length (lp_enc e)) @ post" "length pre = lp_pos xs" "entry_ok e"
    using lp_rep_entry [OF assms] .
  have "length (lp_enc e) < 2 ^ 35" using s(3) by (simp add: entry_ok_def)
  from lpDecodeBacklen_encode [OF this, of "pre @ lp_enc e" post] show ?thesis
    using s(1,2) lp_entry_size [of e] by (simp add: add.assoc)
qed

lemma lpValidateNext_entry:
  assumes "lp_rep lp (xs @ e # ys)"
  shows "lpValidateNext lp (Some (lp_pos xs)) (lpGetTotalBytes lp) = Some (Some (Some (lp_pos (xs @ [e]))))"
proof -
  obtain pre post where s: "lp = pre @ lp_enc e @ lpEncodeBacklen (length (lp_enc e)) @ post" "length pre = lp_pos xs" "entry_ok e"
    "lp_pos xs + length (lp_entry e) < lpGetTotalBytes lp" "lpGetTotalBytes lp < 2 ^ 32" "lp_pos xs + length (lp_entry e) < length lp"
    using lp_rep_entry [OF assms] .
  obtain b where b: "lp_byte lp (lp_pos xs) = Some b" "b \<noteq> LP_EOF" "lpCurrentEncodedSizeBytes b \<noteq> 0"
    "lpCurrentEncodedSizeBytes b \<le> length (lp_enc e)"
    using lp_rep_first_byte [OF assms] .
  have n: "lpCurrentEncodedSizeUnsafe lp (lp_pos xs) = Some (length (lp_enc e))"
    using lpCurrentEncodedSizeUnsafe_entry [OF s(3), of pre] s(1,2) by simp
  have "6 \<le> lp_pos xs" by (simp add: lp_pos_def)
  have len: "uint32 (length (lp_enc e) + lpBacklenSize (length (lp_enc e))) = length (lp_entry e)"
    "length (lp_enc e) \<le> length (lp_entry e)"
    using s(4,5) lp_entry_size [of e] by simp_all
  have "(length (lp_enc e) + lpBacklenSize (length (lp_enc e))) mod 2 ^ 64 = length (lp_entry e)"
    unfolding lp_entry_size using s(4,5) by simp
  then show ?thesis
    using s b n len lpDecodeBacklen_entry [OF assms] \<open>6 \<le> lp_pos xs\<close>
    by (simp add: lpValidateNext_def lp_out_of_range_def Let_def)
qed

lemma lpAssertValidEntry_ok:
  "lp_rep lp (xs @ ys) \<Longrightarrow> lpAssertValidEntry lp (lpGetTotalBytes lp) (lp_pos xs) = Some ()"
proof (cases ys)
  case Nil
  assume "lp_rep lp (xs @ ys)"
  with Nil show ?thesis
    using lp_rep_end [of lp xs] lp_rep_total [of lp xs]
    by (simp add: lpAssertValidEntry_def lpValidateNext_def lp_out_of_range_def assert_that_def lp_pos_def)
qed (simp add: lpAssertValidEntry_def lpValidateNext_entry assert_that_def)


section \<open>Moving\<close>

text \<open>The pointer to the entry with an index, or \<open>NULL\<close> behind the last.\<close>

definition lp_ptr :: "listpackEntry list \<Rightarrow> nat \<Rightarrow> ptr" where
  "lp_ptr es i = (if i < length es then Some (lp_pos (take i es)) else None)"

lemma lpNext_ok:
  assumes "lp_rep lp es" "i < length es"
  shows "lpNext lp (lp_pos (take i es)) = Some (lp_ptr es (Suc i))"
proof -
  let ?xs = "take i es" and ?e = "es ! i" and ?ys = "drop (Suc i) es"
  have es: "es = ?xs @ ?e # ?ys" "take (Suc i) es = ?xs @ [?e]"
    using assms(2) by (simp_all add: id_take_nth_drop take_Suc_conv_app_nth)
  have rep: "lp_rep lp (?xs @ ?e # ?ys)" using assms(1) es(1) by simp
  have skip: "lpSkip lp (lp_pos ?xs) = Some (lp_pos (take (Suc i) es))"
    using lpSkip_entry [OF rep] es(2) by simp
  show ?thesis
  proof (cases "Suc i < length es")
    case True
    define z where "z = es ! Suc i"
    have "lp_rep lp (take (Suc i) es @ z # drop (Suc (Suc i)) es)"
      using assms(1) True by (simp add: z_def id_take_nth_drop [symmetric])
    from lp_rep_first_byte [OF this] obtain b where "lp_byte lp (lp_pos (take (Suc i) es)) = Some b" "b \<noteq> LP_EOF" .
    moreover have "lpAssertValidEntry lp (lpBytes lp) (lp_pos (take (Suc i) es)) = Some ()"
      using lpAssertValidEntry_ok [of lp "take (Suc i) es" "drop (Suc i) es"] assms(1) by (simp add: lpBytes_def)
    ultimately show ?thesis using skip True by (simp add: lpNext_def lp_ptr_def)
  next
    case False
    then have "take (Suc i) es = es" using assms(2) by simp
    with lp_rep_end [OF assms(1)] skip False show ?thesis by (simp add: lpNext_def lp_ptr_def)
  qed
qed

lemma lpFirst_ok:
  assumes "lp_rep lp es"
  shows "lpFirst lp = Some (lp_ptr es 0)"
proof (cases es)
  case Nil
  with lp_rep_end [OF assms] show ?thesis by (simp add: lpFirst_def lp_ptr_def)
next
  case (Cons e ys)
  from lp_rep_first_byte [of lp "[]" e ys] assms Cons obtain b where "lp_byte lp 6 = Some b" "b \<noteq> LP_EOF" by auto
  moreover have "lpAssertValidEntry lp (lpBytes lp) 6 = Some ()"
    using lpAssertValidEntry_ok [of lp "[]" es] assms by (simp add: lpBytes_def)
  ultimately show ?thesis using Cons by (simp add: lpFirst_def lp_ptr_def)
qed

lemma lpPrev_step:
  assumes "lpDecodeBacklen lp (p + n - 1) = Some l" "(l + lpBacklenSize l) mod 2 ^ 64 = n"
    "lpAssertValidEntry lp (lpBytes lp) p = Some ()" "6 \<le> p" "0 < n"
  shows "lpPrev lp (p + n) = Some (Some p)"
proof -
  have "p + n \<noteq> 6" "p + n \<noteq> 0" "\<not> p + n - 1 < n - 1" "p + n - 1 - (n - 1) = p" using assms(4,5) by linarith+
  then show ?thesis using assms(1-3) by (simp add: lpPrev_def Let_def)
qed

lemma lpPrev_ok:
  assumes "lp_rep lp es" "i \<le> length es"
  shows "lpPrev lp (lp_pos (take i es)) = Some (if i = 0 then None else Some (lp_pos (take (i - 1) es)))"
proof (cases i)
  case 0
  then show ?thesis by (simp add: lpPrev_def)
next
  case (Suc j)
  let ?xs = "take j es" and ?e = "es ! j" and ?ys = "drop (Suc j) es"
  have es: "es = ?xs @ ?e # ?ys" "take i es = ?xs @ [?e]"
    using assms(2) Suc by (simp_all add: id_take_nth_drop take_Suc_conv_app_nth)
  have rep: "lp_rep lp (?xs @ ?e # ?ys)" using assms(1) es(1) by simp
  obtain pre post where s: "entry_ok ?e" "lp_pos ?xs + length (lp_entry ?e) < lpGetTotalBytes lp" "lpGetTotalBytes lp < 2 ^ 32"
    using lp_rep_entry [OF rep] .
  have big: "6 \<le> lp_pos ?xs" "0 < length (lp_entry ?e)" using lp_entry_length [OF s(1)] by (auto simp: lp_pos_def)
  have "(length (lp_enc ?e) + lpBacklenSize (length (lp_enc ?e))) mod 2 ^ 64 = length (lp_entry ?e)"
    unfolding lp_entry_size using s(2,3) by simp
  then have "lpPrev lp (lp_pos ?xs + length (lp_entry ?e)) = Some (Some (lp_pos ?xs))"
    using lpDecodeBacklen_entry [OF rep] lpAssertValidEntry_ok [of lp ?xs "?e # ?ys"] rep big
    by (intro lpPrev_step [of lp _ _ "length (lp_enc ?e)"]) (simp_all add: lpBytes_def)
  moreover have "lp_pos (take i es) = lp_pos ?xs + length (lp_entry ?e)" by (simp only: es(2) lp_pos_simps)
  ultimately show ?thesis using Suc by simp
qed

lemma lpLast_ok:
  assumes "lp_rep lp es"
  shows "lpLast lp = Some (if es = [] then None else lp_ptr es (length es - 1))"
  using lpPrev_ok [OF assms, of "length es"] lp_rep_total [OF assms] by (simp add: lpLast_def lp_ptr_def)

lemma lp_seek_forward_ok:
  "lp_rep lp es \<Longrightarrow> lp_seek_forward lp n (lp_ptr es i) = Some (lp_ptr es (i + n))"
proof (induction n arbitrary: i)
  case (Suc n)
  show ?case
  proof (cases "i < length es")
    case True
    with Suc show ?thesis by (simp add: lp_ptr_def [of es i] lpNext_ok)
  qed (simp add: lp_ptr_def)
qed (simp add: lp_ptr_def)

lemma lp_seek_backward_ok:
  "lp_rep lp es \<Longrightarrow> i < length es \<Longrightarrow>
   lp_seek_backward lp n (Some (lp_pos (take i es))) = Some (if n \<le> i then Some (lp_pos (take (i - n) es)) else None)"
proof (induction n arbitrary: i)
  case (Suc n)
  have "lpPrev lp 6 = Some None" by (simp add: lpPrev_def)
  with Suc show ?case by (cases i) (simp_all add: lpPrev_ok)
qed simp

text \<open>The index that a caller means, counted from the start or, when negative, from the end.\<close>

definition lp_index :: "listpackEntry list \<Rightarrow> int \<Rightarrow> nat option" where
  "lp_index es index =
     (let i = (if index < 0 then int (length es) + index else index) in
      if 0 \<le> i \<and> i < int (length es) then Some (nat i) else None)"

lemma lp_seek_from_ok:
  assumes "lp_rep lp es"
  shows "0 \<le> index \<Longrightarrow> lp_seek_from lp True index = Some (lp_ptr es (nat index))"
    and "index < 0 \<Longrightarrow> lp_seek_from lp False index = Some (if - index \<le> int (length es) then lp_ptr es (nat (int (length es) + index)) else None)"
proof -
  show "0 \<le> index \<Longrightarrow> lp_seek_from lp True index = Some (lp_ptr es (nat index))"
    using assms by (simp add: lp_seek_from_def lpFirst_ok lp_seek_forward_ok)
  assume neg: "index < 0"
  show "lp_seek_from lp False index = Some (if - index \<le> int (length es) then lp_ptr es (nat (int (length es) + index)) else None)"
  proof (cases "es = []")
    case True
    with assms neg show ?thesis by (simp add: lp_seek_from_def lpLast_ok)
  next
    case False
    have "nat (- 1 - index) \<le> length es - 1 \<longleftrightarrow> - index \<le> int (length es)" using False neg by (cases es) auto
    moreover have "length es - 1 - nat (- 1 - index) = nat (int (length es) + index)" if "- index \<le> int (length es)"
      using False neg that by (cases es) auto
    moreover have "nat (int (length es) + index) < length es" using False neg by (cases es) auto
    ultimately show ?thesis
      using assms False neg lp_seek_backward_ok [OF assms, of "length es - 1" "nat (- 1 - index)"]
      by (simp add: lp_seek_from_def lpLast_ok lp_ptr_def)
  qed
qed

lemma lpSeek_ok:
  assumes "lp_rep lp es"
  shows "lpSeek lp index = Some (map_option (\<lambda>i. lp_pos (take i es)) (lp_index es index))"
proof (cases "lpGetNumElements lp = LP_HDR_NUMELE_UNKNOWN")
  case True
  then show ?thesis
    using lp_seek_from_ok [OF assms, of index] by (auto simp: lpSeek_def lp_index_def lp_ptr_def)
next
  case False
  then have num: "lpGetNumElements lp = length es" using lp_rep_num [OF assms] by simp
  define i where "i = (if index < 0 then int (length es) + index else index)"
  have "lp_index es index = (if 0 \<le> i \<and> i < int (length es) then Some (nat i) else None)"
    by (simp add: lp_index_def i_def)
  moreover have "lpSeek lp index =
      (if i < 0 then Some None else if i \<ge> int (length es) then Some None
       else if i > int (length es) div 2 then lp_seek_from lp False (i - int (length es)) else lp_seek_from lp True i)"
    using False by (simp add: lpSeek_def num i_def Let_def)
  ultimately show ?thesis
    using lp_seek_from_ok [OF assms, of i] lp_seek_from_ok [OF assms, of "i - int (length es)"]
    by (auto simp: lp_ptr_def)
qed

lemma lp_count_loop_ok:
  assumes "lp_rep lp es" "i \<le> length es"
  shows "lp_count_loop lp (lp_ptr es i) i = Some (length es)"
  using assms(2)
proof (induction rule: inc_induct)
  case base
  then show ?case by (subst lp_count_loop.simps) (simp add: lp_ptr_def)
next
  case (step i)
  have "uint32 (i + 1) = Suc i" using step.hyps lp_rep_length [OF assms(1)] by simp
  with step assms(1) show ?case
    by (subst lp_count_loop.simps) (simp add: lp_ptr_def [of es i] lpNext_ok)
qed

lemma lp_rep_set_num:
  assumes "lp_rep lp es" "n \<le> 65535" "n = length es \<or> n = LP_HDR_NUMELE_UNKNOWN"
  shows "lp_rep (lpSetNumElements lp n) es"
  using assms by (auto simp: lp_rep_def lp_header_set)

lemma lpLength_ok:
  assumes "lp_rep lp es"
  obtains lp' where "lpLength lp = Some (length es, lp')" "lp_rep lp' es"
proof (cases "lpGetNumElements lp = LP_HDR_NUMELE_UNKNOWN")
  case False
  with lp_rep_num [OF assms] assms show thesis by (intro that [of lp]) (auto simp: lpLength_def)
next
  case True
  have "lp_count_loop lp (lp_ptr es 0) 0 = Some (length es)" using lp_count_loop_ok [OF assms, of 0] by simp
  with True assms show thesis
    by (intro that [of "if length es < 65535 then lpSetNumElements lp (length es) else lp"])
      (auto simp: lpLength_def lpFirst_ok intro: lp_rep_set_num)
qed


section \<open>Reading\<close>

lemma lp_rep_nth:
  assumes "lp_rep lp es" "i < length es"
  shows "lp_rep lp (take i es @ es ! i # drop (Suc i) es)"
  using assms by (simp add: id_take_nth_drop [symmetric])

lemma lpGetString_ok:
  assumes "lp_rep lp es" "i < length es" "length intbuf = LP_INTBUF_SIZE"
  shows "lpGetString intbuf lp (lp_pos (take i es)) = Some (lp_text (es ! i))"
proof -
  obtain pre post where s: "lp = pre @ lp_enc (es ! i) @ lpEncodeBacklen (length (lp_enc (es ! i))) @ post"
    "length pre = lp_pos (take i es)" "entry_ok (es ! i)"
    using lp_rep_entry [OF lp_rep_nth [OF assms(1,2)]] .
  then show ?thesis using lpGetString_entry [OF s(3) assms(3), of pre] by simp
qed

lemma lpGetWithSize_ok:
  assumes "lp_rep lp es" "i < length es"
  shows "lpGetWithSize lp (lp_pos (take i es)) n =
    Some (lp_decoded (lp_pos (take i es)) (es ! i), length (lp_entry (es ! i)))"
proof -
  obtain pre post where s: "lp = pre @ lp_enc (es ! i) @ lpEncodeBacklen (length (lp_enc (es ! i))) @ post"
    "length pre = lp_pos (take i es)" "entry_ok (es ! i)"
    using lp_rep_entry [OF lp_rep_nth [OF assms]] .
  then show ?thesis using lpGetWithSize_entry [OF s(3), of pre] by simp
qed

lemma lp_read_decoded:
  assumes "lp_rep lp es" "i < length es" "es ! i = Ent_str s"
  shows "lp_read lp (lp_pos (take i es) + (length (lp_enc (Ent_str s)) - length s)) (length s) = Some s"
proof -
  obtain pre post where pre: "lp = pre @ lp_enc (Ent_str s) @ lpEncodeBacklen (length (lp_enc (Ent_str s))) @ post"
    "length pre = lp_pos (take i es)"
    using lp_rep_entry [OF lp_rep_nth [OF assms(1,2)]] assms(3) by metis
  obtain h where h: "lp_enc (Ent_str s) = h @ s" using lp_enc_str by blast
  show ?thesis
    by (rule lp_read_at [of _ "pre @ h" s "lpEncodeBacklen (length (lp_enc (Ent_str s))) @ post"]) (simp_all add: pre h)
qed

lemma lp_entry_ok_nth: "lp_rep lp es \<Longrightarrow> i < length es \<Longrightarrow> entry_ok (es ! i)"
  by (auto simp: lp_rep_def list_all_length)

lemma lp_pos_take:
  assumes "lp_rep lp es"
  shows "6 \<le> lp_pos (take i es)" "lp_pos (take i es) < lpGetTotalBytes lp"
  using lp_body_simps(3) [of "take i es" "drop i es"] lp_rep_total [OF assms] by (simp_all add: lp_pos_def)

section \<open>Searching\<close>

text \<open>The comparison decides equality with the text of the entry, whatever it has remembered.\<close>

definition find_arg_ok :: "byte list \<Rightarrow> lpFindArg \<Rightarrow> bool" where
  "find_arg_ok s arg \<longleftrightarrow> find_s arg = s \<and>
     (vencoding arg = Venc_unknown \<or>
      vencoding arg = (case lpStringToInt64 s of None \<Rightarrow> Venc_none | Some v \<Rightarrow> Venc_int v))"

lemma lpFindCmp_ok:
  assumes "lp_rep lp es" "i < length es" "find_arg_ok s arg"
  shows "\<exists>arg'. lpFindCmp arg lp (lp_pos (take i es)) (lp_decoded (lp_pos (take i es)) (es ! i)) = Some (lp_text (es ! i) = s, arg')
    \<and> find_arg_ok s arg'"
proof (cases "es ! i")
  case (Ent_str t)
  show ?thesis
    using assms(3) lp_read_decoded [OF assms(1,2) Ent_str]
    by (auto simp: lpFindCmp_def lp_decoded_def Ent_str lp_text_def find_arg_ok_def)
next
  case (Ent_int v)
  have v: "fits 8 v" using lp_entry_ok_nth [OF assms(1,2)] Ent_int by (simp add: entry_ok_def)
  have long: "lpStringToInt64 s = None" if "32 \<le> length s \<or> length s = 0"
    using that by (auto simp: lpStringToInt64_def)
  have eq: "lltext v = s \<longleftrightarrow> lpStringToInt64 s = Some v" using v by (auto simp: lpStringToInt64_iff)
  show ?thesis
    using assms(3) long
    by (auto simp: lpFindCmp_def lp_decoded_def Ent_int lp_text_def eq find_arg_ok_def Let_def split: option.splits)
qed

text \<open>The first entry equal to \<open>s\<close> among those that are compared, \<open>k\<close> entries being left out first.\<close>

fun find_spec :: "'a \<Rightarrow> nat \<Rightarrow> nat \<Rightarrow> 'a list \<Rightarrow> nat option" where
  "find_spec s skip k [] = None"
| "find_spec s skip 0 (x # xs) = (if x = s then Some 0 else map_option Suc (find_spec s skip skip xs))"
| "find_spec s skip (Suc k) (x # xs) = map_option Suc (find_spec s skip k xs)"

lemma lp_find_check_ok:
  assumes "lp_rep lp es" "i \<le> length es"
  shows "lp_find_check lp (lpGetTotalBytes lp) (lp_pos (take i es)) = Some (i = length es)"
proof -
  have rep: "lp_rep lp (take i es @ drop i es)" using assms(1) by simp
  have pos: "6 \<le> lp_pos (take i es)" "lp_pos (take i es) < lpGetTotalBytes lp"
    using lp_pos_take [OF assms(1)] by simp_all
  obtain b where "lp_byte lp (lp_pos (take i es)) = Some b" "b = LP_EOF \<longleftrightarrow> i = length es"
  proof (cases "i < length es")
    case True
    from lp_rep_first_byte [OF lp_rep_nth [OF assms(1) True]] obtain b
      where "lp_byte lp (lp_pos (take i es)) = Some b" "b \<noteq> LP_EOF" .
    with True that show thesis by auto
  next
    case False
    with that lp_rep_end [OF assms(1)] assms(2) show thesis by simp
  qed
  then show ?thesis
    using pos lpAssertValidEntry_ok [OF rep] by (simp add: lp_find_check_def assert_that_def)
qed

lemma lp_find_loop_ok:
  assumes "lp_rep lp es" "i < length es" "find_arg_ok s arg"
  shows "lp_find_loop lp (lpGetTotalBytes lp) lpFindCmp skip (lp_pos (take i es)) arg k n =
    Some (map_option (\<lambda>j. lp_pos (take (i + j) es)) (find_spec s skip k (map lp_text (drop i es))))"
  using assms(2,3)
proof (induction "length es - i" arbitrary: i arg k n rule: less_induct)
  case less
  have suc: "take (Suc i) es = take i es @ [es ! i]" "drop i es = es ! i # drop (Suc i) es"
    using less.prems(1) by (simp_all add: take_Suc_conv_app_nth Cons_nth_drop_Suc)
  have pos: "lp_pos (take (Suc i) es) = lp_pos (take i es) + length (lp_entry (es ! i))" by (simp only: suc lp_pos_simps)
  have inside: "lp_pos (take i es) + length (lp_entry (es ! i)) < lpGetTotalBytes lp" "6 \<le> lp_pos (take i es)"
    using lp_pos_take [OF assms(1), of "Suc i"] lp_pos_take [OF assms(1), of i] pos by simp_all
  have check: "lp_find_check lp (lpGetTotalBytes lp) (lp_pos (take (Suc i) es)) = Some (Suc i = length es)"
    using lp_find_check_ok [OF assms(1), of "Suc i"] less.prems(1) by simp
  have rest: "(if Suc i = length es then Some None else lp_find_loop lp (lpGetTotalBytes lp) lpFindCmp skip (lp_pos (take (Suc i) es)) arg k n) =
      Some (map_option (\<lambda>j. lp_pos (take (Suc i + j) es)) (find_spec s skip k (map lp_text (drop (Suc i) es))))"
    if "find_arg_ok s arg" for arg k n
    using less.hyps [of "Suc i" arg k n] less.prems(1) that by auto
  show ?case
  proof (cases k)
    case (Suc k')
    have "lpSkip lp (lp_pos (take i es)) = Some (lp_pos (take (Suc i) es))"
      using lpSkip_entry [OF lp_rep_nth [OF assms(1) less.prems(1)]] suc(1) by simp
    with rest [OF less.prems(2), of k' n] check show ?thesis
      by (subst lp_find_loop.simps) (simp add: Suc suc(2) option.map_comp comp_def split: if_splits)
  next
    case 0
    obtain arg' where "lpFindCmp arg lp (lp_pos (take i es)) (lp_decoded (lp_pos (take i es)) (es ! i)) = Some (lp_text (es ! i) = s, arg')"
      "find_arg_ok s arg'"
      using lpFindCmp_ok [OF assms(1) less.prems] by blast
    with rest [of arg' skip "length (lp_entry (es ! i))"] check inside show ?thesis
      by (subst lp_find_loop.simps)
        (simp add: 0 suc(2) pos lpGetWithSize_ok [OF assms(1) less.prems(1)] assert_that_def option.map_comp comp_def
          split: if_splits)
  qed
qed

lemma lpFind_ok:
  assumes "lp_rep lp es"
  shows "lpFind lp None s skip = Some (map_option (\<lambda>j. lp_pos (take j es)) (find_spec s skip 0 (map lp_text es)))"
proof (cases "es = []")
  case True
  with assms show ?thesis by (simp add: lpFind_def lpFindCb_def lpFirst_ok lp_ptr_def)
next
  case False
  have "find_arg_ok s \<lparr>find_s = s, vencoding = Venc_unknown\<rparr>" by (simp add: find_arg_ok_def)
  from lp_find_loop_ok [OF assms _ this, of 0] False assms show ?thesis
    by (simp add: lpFind_def lpFindCb_def lpFirst_ok lp_ptr_def lpBytes_def)
qed

end
