(* ===== verification/Redis_Listpack_Ops.thy ===== *)
theory Redis_Listpack_Ops
  imports Redis_Listpack_Nav
begin

text \<open>
  The operations that change a listpack, on well-formed listpacks: they stay inside the block and make the list of
  entries that they should.
\<close>


section \<open>Making room\<close>

lemma lp_realloc_append: "sz \<le> length lp \<Longrightarrow> lp_realloc junk lp sz = take sz lp"
  by (simp add: lp_realloc_def)

lemma lp_realloc_more: "length lp \<le> sz \<Longrightarrow> \<exists>S. lp_realloc junk lp sz = lp @ S \<and> length (lp @ S) = sz"
  by (rule exI [of _ "map junk [length lp..<sz]"]) (simp add: lp_realloc_def)

lemma memmove_gap:
  assumes "n + length B \<le> length (D @ B @ S)"
  shows "memmove (A @ D @ B @ S) (length A + n) (length A + length D) (length B) =
    Some (A @ take n (D @ B @ S) @ B @ drop (n + length B) (D @ B @ S))"
proof -
  have "lp_read (A @ D @ B @ S) (length A + length D) (length B) = Some B"
    by (rule lp_read_at [of _ "A @ D" B S]) simp_all
  with assms show ?thesis
    by (simp add: memmove_def lp_write_def mem_write_def)
qed

text \<open>
  The part \<open>D\<close> in front of \<open>B\<close> is replaced by \<open>n\<close> bytes that are still to be written; the block grows before the
  move and shrinks after it.
\<close>

lemma lp_make_room_ok:
  fixes lp :: listpack and n :: nat and junk :: "nat \<Rightarrow> byte"
  assumes lp: "lp = A @ D @ B @ S" and old: "lpGetTotalBytes lp = length (A @ D @ B)" and pos: "pos = LP_BEFORE \<Longrightarrow> D = []"
  obtains X S' where
    "lp_make_room junk lp pos (length A) n (length D) (lpGetTotalBytes lp + n - length D) = Some (A @ X @ B @ S')" "length X = n"
proof -
  define old where "old = lpGetTotalBytes lp"
  note old = old [folded old_def]
  define new where "new = old + n - length D"
  define lp1 where "lp1 = (if new > old \<and> new > length lp then lp_realloc junk lp new else lp)"
  obtain S1 where lp1: "lp1 = A @ D @ B @ S1" and room: "n + length B \<le> length (D @ B @ S1)"
  proof (cases "new > old \<and> new > length lp")
    case True
    with lp_realloc_more [of lp new junk] obtain S0 where "lp1 = lp @ S0" "length (lp @ S0) = new"
      by (auto simp: lp1_def)
    with lp old that [of "S @ S0"] show thesis by (simp add: new_def)
  next
    case False
    with lp old that [of S] show thesis by (auto simp: lp1_def new_def)
  qed
  define X where "X = take n (D @ B @ S1)"
  define S2 where "S2 = drop (n + length B) (D @ B @ S1)"
  have len: "length X = n" using room by (simp add: X_def)
  have move: "memmove lp1 (length A + n) (length A + length D) (old - length A - length D) = Some (A @ X @ B @ S2)"
    using memmove_gap [OF room, of A] by (simp add: lp1 X_def S2_def old)
  have room: "lp_make_room junk lp pos (length A) n (length D) new =
      Some (if new < old then lp_realloc junk (A @ X @ B @ S2) new else A @ X @ B @ S2)"
    using move pos by (cases "pos = LP_BEFORE") (simp_all add: lp_make_room_def lp1_def old_def Let_def)
  have "new = length (A @ X @ B)" using old by (simp only: length_append len new_def)
  then have "lp_realloc junk (A @ X @ B @ S2) new = A @ X @ B @ []" by (simp add: lp_realloc_append)
  with room len that show thesis
    unfolding new_def old_def by (cases "lpGetTotalBytes lp + n - length D < lpGetTotalBytes lp") simp_all
qed

lemma lp_store_entry_ok:
  assumes "length X = length (lp_entry e)"
  shows "lp_store_entry (A @ X @ R) (length A) (lp_enc e) (length (lp_enc e)) = Some (A @ lp_entry e @ R)"
proof -
  obtain X1 X2 where X: "X = X1 @ X2" "length X1 = length (lp_enc e)" "length X2 = lpBacklenSize (length (lp_enc e))"
    using assms that [of "take (length (lp_enc e)) X" "drop (length (lp_enc e)) X"]
    by (simp add: lp_entry_def lpBacklenSize_length)
  have "lp_write (A @ X @ R) (length A) (lp_enc e) = Some (A @ lp_enc e @ X2 @ R)"
    by (simp add: lp_write_def mem_write_def X)
  moreover have "lp_write (A @ lp_enc e @ X2 @ R) (length A + length (lp_enc e)) (lpEncodeBacklen (length (lp_enc e))) =
      Some (A @ lp_entry e @ R)"
    using X(3) by (simp add: lp_write_def mem_write_def lp_entry_def lpBacklenSize_length)
  ultimately show ?thesis by (simp add: lp_store_entry_def)
qed


section \<open>Inserting, replacing and deleting\<close>

text \<open>An element that can be given to a listpack; an entry of a listpack is also short enough.\<close>

definition entry_range :: "listpackEntry \<Rightarrow> bool" where
  "entry_range e \<longleftrightarrow> (case e of Ent_str s \<Rightarrow> True | Ent_int v \<Rightarrow> fits 8 v)"

lemma entry_ok_iff: "entry_ok e \<longleftrightarrow> length (lp_enc e) < 2 ^ 32 \<and> entry_range e"
  by (simp add: entry_ok_def entry_range_def)

lemma entry_range_of: "entry_range (lp_entry_of s)"
  by (auto simp: entry_range_def lp_entry_of_def lpStringToInt64_iff split: option.splits)

text \<open>The outcome of an insertion that makes the entries \<open>es\<close>: they are there, or they would be too many bytes.\<close>

definition lp_fits :: "listpackEntry list \<Rightarrow> bool" where
  "lp_fits es \<longleftrightarrow> 7 + length (lp_body es) < 2 ^ 32"

definition lp_inserted_ok :: "lp_inserted \<Rightarrow> listpackEntry list \<Rightarrow> ptr \<Rightarrow> bool" where
  "lp_inserted_ok r es p \<longleftrightarrow>
     (if lp_fits es then \<exists>lp'. r = Some (Some (lp', p)) \<and> lp_rep lp' es else r = Some None)"

lemma lp_rep_fits: "lp_rep lp es \<Longrightarrow> lp_fits es"
  by (auto simp: lp_rep_def lp_fits_def)

lemma lp_replaced_len:
  assumes "lp_rep lp (xs @ d # ys)"
  shows "lpCurrentEncodedSizeUnsafe lp (lp_pos xs) = Some (length (lp_enc d))"
    "uint32 (length (lp_enc d) + lpBacklenSize (length (lp_enc d))) = length (lp_entry d)"
    "assert_integrity_len lp (lp_pos xs) (length (lp_entry d)) = Some ()"
proof -
  obtain pre post where s: "lp = pre @ lp_enc d @ lpEncodeBacklen (length (lp_enc d)) @ post" "length pre = lp_pos xs" "entry_ok d"
    "lp_pos xs + length (lp_entry d) < lpGetTotalBytes lp" "lpGetTotalBytes lp < 2 ^ 32" "lp_pos xs + length (lp_entry d) < length lp"
    using lp_rep_entry [OF assms] .
  show "lpCurrentEncodedSizeUnsafe lp (lp_pos xs) = Some (length (lp_enc d))"
    using lpCurrentEncodedSizeUnsafe_entry [OF s(3), of pre] s(1,2) by simp
  show "uint32 (length (lp_enc d) + lpBacklenSize (length (lp_enc d))) = length (lp_entry d)"
    unfolding lp_entry_size using s(4,5) by simp
  show "assert_integrity_len lp (lp_pos xs) (length (lp_entry d)) = Some ()"
    using s(4) by (simp add: assert_integrity_len_def assert_that_def lp_pos_def)
qed

lemma lp_rep_parts:
  assumes "lp_rep lp (xs @ ds @ ys)"
  obtains num S where
    "lp = (lp_header (lpGetTotalBytes lp) num @ lp_body xs) @ lp_body ds @ (lp_body ys @ [LP_EOF]) @ S"
    "lpGetTotalBytes lp = length ((lp_header (lpGetTotalBytes lp) num @ lp_body xs) @ lp_body ds @ (lp_body ys @ [LP_EOF]))"
    "num \<le> 65535" "num = length (xs @ ds @ ys) \<or> num = LP_HDR_NUMELE_UNKNOWN" "list_all entry_ok (xs @ ds @ ys)"
    "lpGetTotalBytes lp < 2 ^ 32"
proof -
  obtain num S where s: "lp = lp_header (7 + length (lp_body (xs @ ds @ ys))) num @ lp_body (xs @ ds @ ys) @ LP_EOF # S"
      "7 + length (lp_body (xs @ ds @ ys)) < 2 ^ 32" "num \<le> 65535" "num \<in> {length (xs @ ds @ ys), LP_HDR_NUMELE_UNKNOWN}"
      "list_all entry_ok (xs @ ds @ ys)"
    using assms unfolding lp_rep_def by (elim exE conjE) (rule that)
  have tot: "lpGetTotalBytes lp = 7 + length (lp_body (xs @ ds @ ys))"
    using lp_rep_total [OF assms] by (simp add: lp_pos_def)
  show thesis
  proof (rule that [of num S])
    show "lp = (lp_header (lpGetTotalBytes lp) num @ lp_body xs) @ lp_body ds @ (lp_body ys @ [LP_EOF]) @ S"
      unfolding tot using s(1) by simp
  qed (use s tot in auto)
qed

lemma lp_count_change_header:
  assumes "tot < 2 ^ 32" "num \<le> 65535"
  shows "lp_count_change delete (lp_header tot num @ R) =
    lp_header tot (if num = 65535 then num else if delete then nat ((int num - 1) mod 2 ^ 32) else num + 1) @ R"
  using assms by (simp add: lp_count_change_def lp_header_get lp_header_set Let_def)

lemma lp_repI:
  assumes "lp = lp_header tot num @ lp_body es @ LP_EOF # S" "tot = 7 + length (lp_body es)" "lp_fits es"
    "num \<le> 65535" "num = length es \<or> num = LP_HDR_NUMELE_UNKNOWN" "list_all entry_ok es"
  shows "lp_rep lp es"
  using assms by (auto simp: lp_rep_def lp_fits_def)

lemma lpInsert_put:
  assumes rep: "lp_rep lp (xs @ ds @ ys)" and pos: "pos = LP_BEFORE \<and> ds = [] \<or> pos = LP_REPLACE \<and> (\<exists>d. ds = [d])"
    and ele: "lp_encode_element ele = (lp_enc e, length (lp_enc e))" "ele \<noteq> Ele_delete" "entry_range e"
  shows "lp_inserted_ok (lpInsert junk lp ele (lp_pos xs) pos) (xs @ e # ys) (Some (lp_pos xs))"
proof -
  define old where "old = lpGetTotalBytes lp"
  obtain num S where parts:
    "lp = (lp_header old num @ lp_body xs) @ lp_body ds @ (lp_body ys @ [LP_EOF]) @ S"
    "old = length ((lp_header old num @ lp_body xs) @ lp_body ds @ (lp_body ys @ [LP_EOF]))"
    "num \<le> 65535" "num = length (xs @ ds @ ys) \<or> num = LP_HDR_NUMELE_UNKNOWN" "list_all entry_ok (xs @ ds @ ys)" "old < 2 ^ 32"
    using lp_rep_parts [OF rep] unfolding old_def .
  define A where "A = lp_header old num @ lp_body xs"
  define B where "B = lp_body ys @ [LP_EOF]"
  define n where "n = length (lp_entry e)"
  define new where "new = old + n - length (lp_body ds)"
  have A: "length A = lp_pos xs" by (simp add: A_def lp_pos_def)
  have lpA: "lp = A @ lp_body ds @ B @ S" "lpGetTotalBytes lp = length (A @ lp_body ds @ B)"
    using parts(1,2) by (simp_all only: A_def B_def old_def)
  have dsN: "pos = LP_BEFORE \<Longrightarrow> lp_body ds = []" using pos by auto
  have replaced: "(if pos = LP_REPLACE then
            do {
              n \<leftarrow> lpCurrentEncodedSizeUnsafe lp (lp_pos xs);
              let n = uint32 (n + lpBacklenSize n);
              assert_integrity_len lp (lp_pos xs) n;
              Some n
            }
          else Some 0) = Some (length (lp_body ds))"
    using pos rep lp_replaced_len [of lp xs _ ys] by auto
  have new: "old + length (lp_enc e) + lpBacklenSize (length (lp_enc e)) - length (lp_body ds) = new"
    by (simp add: new_def n_def lp_entry_def lpBacklenSize_length)
  have new_eq: "new = 7 + length (lp_body (xs @ e # ys))"
    using parts(2) by (simp add: new_def n_def)
  show ?thesis
  proof (cases "lp_fits (xs @ e # ys)")
    case False
    then have "new > 2 ^ 32 - 1" by (simp add: new_eq lp_fits_def)
    with False pos ele new replaced show ?thesis
      by (auto simp: lp_inserted_ok_def lpInsert_def Let_def old_def)
  next
    case True
    then have small: "\<not> new > 2 ^ 32 - 1" "new < 2 ^ 32" by (simp_all add: new_eq lp_fits_def)
    obtain X S' where room: "lp_make_room junk lp pos (lp_pos xs) n (length (lp_body ds)) new = Some (A @ X @ B @ S')" "length X = n"
      using lp_make_room_ok [OF lpA dsN, where junk = junk and n = n] unfolding A new_def old_def .
    have store: "lp_store_entry (A @ X @ B @ S') (lp_pos xs) (lp_enc e) (length (lp_enc e)) = Some (A @ lp_entry e @ B @ S')"
      using lp_store_entry_ok [of X e A "B @ S'"] room(2) by (simp add: A n_def)
    define num' where "num' = (if pos \<noteq> LP_REPLACE \<and> num \<noteq> 65535 then num + 1 else num)"
    define lp3 where "lp3 = lp_header new num' @ lp_body (xs @ e # ys) @ LP_EOF # S'"
    have count: "lpSetTotalBytes (if pos \<noteq> LP_REPLACE \<or> False then lp_count_change False (A @ lp_entry e @ B @ S') else A @ lp_entry e @ B @ S') new = lp3"
      using parts(3,6) by (auto simp: A_def B_def lp3_def num'_def lp_count_change_header lp_header_set)
    have "lp_rep lp3 (xs @ e # ys)"
    proof (rule lp_repI [of _ new num' _ S'])
      show "num' \<le> 65535" "num' = length (xs @ e # ys) \<or> num' = LP_HDR_NUMELE_UNKNOWN"
        using parts(3,4) pos by (auto simp: num'_def)
      show "list_all entry_ok (xs @ e # ys)"
        using parts(5) ele(3) True by (auto simp: entry_ok_iff lp_fits_def lp_entry_def)
    qed (use True new_eq in \<open>simp_all add: lp3_def\<close>)
    moreover have "lpInsert junk lp ele (lp_pos xs) pos = Some (Some (lp3, Some (lp_pos xs)))"
      using pos ele(1,2) replaced small new room(1) store count
      by (auto simp: lpInsert_def Let_def old_def [symmetric] n_def lp_entry_size [symmetric])
    ultimately show ?thesis using True by (auto simp: lp_inserted_ok_def)
  qed
qed


lemma lpDelete_ok:
  assumes rep: "lp_rep lp (xs @ d # ys)"
  shows "\<exists>lp'. lpDelete junk lp (lp_pos xs) = Some (Some (lp', if ys = [] then None else Some (lp_pos xs))) \<and> lp_rep lp' (xs @ ys)"
proof -
  define old where "old = lpGetTotalBytes lp"
  have "lp_rep lp (xs @ [d] @ ys)" using rep by simp
  from lp_rep_parts [OF this] obtain num S where parts:
    "lp = (lp_header old num @ lp_body xs) @ lp_body [d] @ (lp_body ys @ [LP_EOF]) @ S"
    "old = length ((lp_header old num @ lp_body xs) @ lp_body [d] @ (lp_body ys @ [LP_EOF]))"
    "num \<le> 65535" "num = length (xs @ [d] @ ys) \<or> num = LP_HDR_NUMELE_UNKNOWN" "list_all entry_ok (xs @ [d] @ ys)" "old < 2 ^ 32"
    unfolding old_def .
  define A where "A = lp_header old num @ lp_body xs"
  define B where "B = lp_body ys @ [LP_EOF]"
  define new where "new = old - length (lp_entry d)"
  have A: "length A = lp_pos xs" by (simp add: A_def lp_pos_def)
  have lpA: "lp = A @ lp_body [d] @ B @ S" "lpGetTotalBytes lp = length (A @ lp_body [d] @ B)"
    using parts(1,2) by (simp_all only: A_def B_def old_def)
  obtain S' where room: "lp_make_room junk lp LP_REPLACE (lp_pos xs) 0 (length (lp_entry d)) new = Some (A @ B @ S')"
    using lp_make_room_ok [OF lpA, where junk = junk and n = 0 and pos = LP_REPLACE] by (auto simp: A new_def old_def)
  have new_eq: "new = 7 + length (lp_body (xs @ ys))" "new < 2 ^ 32" using parts(2,6) by (simp_all add: new_def)
  define num' where "num' = (if num = 65535 then num else num - 1)"
  define lp3 where "lp3 = lp_header new num' @ lp_body (xs @ ys) @ LP_EOF # S'"
  have num: "num = 65535 \<or> nat ((int num - 1) mod 2 ^ 32) = num - 1 \<and> num = Suc (length (xs @ ys))"
    using parts(3,4) by auto
  then have count: "lpSetTotalBytes (lp_count_change True (A @ B @ S')) new = lp3"
    using parts(3,6) by (auto simp: A_def B_def lp3_def num'_def lp_count_change_header lp_header_set)
  have rep3: "lp_rep lp3 (xs @ ys)"
    by (rule lp_repI [of _ new num' _ S']) (use parts(3,5) num new_eq in \<open>auto simp: lp3_def lp_fits_def num'_def\<close>)
  obtain b where b: "lp_byte (A @ B @ S') (lp_pos xs) = Some b" "b = LP_EOF \<longleftrightarrow> ys = []"
  proof (cases ys)
    case Nil
    then show thesis by (intro that [of LP_EOF]) (simp_all add: B_def A [symmetric] lp_byte_def)
  next
    case (Cons y zs)
    then have "entry_ok y" using parts(5) by simp
    from lp_enc_first [OF this] obtain b bs where "lp_enc y = b # bs" "b \<noteq> LP_EOF" .
    with Cons show thesis by (intro that [of b]) (simp_all add: B_def A [symmetric] lp_byte_def lp_entry_def)
  qed
  note len = lp_replaced_len [OF rep]
  have "lpDelete junk lp (lp_pos xs) = Some (Some (lp3, if ys = [] then None else Some (lp_pos xs)))"
    using len room count b new_eq(2)
    by (simp add: lpDelete_def lpInsert_def lp_encode_element_def Let_def old_def [symmetric] new_def [symmetric])
  with rep3 show ?thesis by blast
qed

lemma lpInsert_after:
  assumes "lp_rep lp (xs @ d # ys)" "ele \<noteq> Ele_delete"
  shows "lpInsert junk lp ele (lp_pos xs) LP_AFTER = lpInsert junk lp ele (lp_pos (xs @ [d])) LP_BEFORE"
proof -
  have "lp_rep lp ((xs @ [d]) @ ys)" using assms(1) by simp
  then have "assert_integrity lp (lp_pos (xs @ [d])) = Some ()"
    using lp_rep_total by (fastforce simp: assert_integrity_def assert_that_def lp_pos_def)
  with lpSkip_entry [OF assms(1)] assms(2) show ?thesis
    by (simp add: lpInsert_def Let_def del: lp_pos_simps)
qed

section \<open>The operations by index\<close>

lemma lp_encode_element_int:
  "lp_encode_element (Eleint (lpEncodeIntegerGetType v)) = (lp_enc (Ent_int v), length (lp_enc (Ent_int v)))"
  by (simp add: lp_encode_element_def lp_enc_def)

definition lp_put_ok :: "listpack option option \<Rightarrow> listpackEntry list \<Rightarrow> bool" where
  "lp_put_ok r es \<longleftrightarrow> (if lp_fits es then \<exists>lp'. r = Some (Some lp') \<and> lp_rep lp' es else r = Some None)"

lemma lp_inserted_without: "lp_inserted_ok r es p \<Longrightarrow> lp_put_ok (without_newp r) es"
  by (auto simp: lp_inserted_ok_def lp_put_ok_def without_newp_def)

lemma lpAppend_ok:
  assumes "lp_rep lp es"
  shows "lp_put_ok (lpAppend junk lp s) (es @ [lp_entry_of s])"
proof -
  have "lp_rep lp (es @ [] @ [])" using assms by simp
  from lpInsert_put [OF this, of LP_BEFORE "Elestr s" "lp_entry_of s" junk] show ?thesis
    unfolding lpAppend_def using lp_rep_total [OF assms]
    by (intro lp_inserted_without) (simp add: lp_encode_element_str entry_range_of)
qed

lemma lpAppendInteger_ok:
  assumes "lp_rep lp es" "fits 8 v"
  shows "lp_put_ok (lpAppendInteger junk lp v) (es @ [Ent_int v])"
proof -
  have "lp_rep lp (es @ [] @ [])" using assms by simp
  from lpInsert_put [OF this, of LP_BEFORE "Eleint (lpEncodeIntegerGetType v)" "Ent_int v" junk] show ?thesis
    unfolding lpAppendInteger_def lpInsertInteger_def using lp_rep_total [OF assms(1)] assms(2)
    by (intro lp_inserted_without) (simp add: lp_encode_element_def lp_enc_def entry_range_def)
qed

lemma lpPrepend_ok:
  assumes "lp_rep lp es"
  shows "lp_put_ok (lpPrepend junk lp s) (lp_entry_of s # es)"
proof (cases es)
  case Nil
  with lpAppend_ok [OF assms, of junk s] assms show ?thesis by (simp add: lpPrepend_def lpFirst_ok lp_ptr_def)
next
  case (Cons e ys)
  have "lp_rep lp ([] @ [] @ es)" using assms by simp
  from lpInsert_put [OF this, of LP_BEFORE "Elestr s" "lp_entry_of s" junk]
  have "lp_inserted_ok (lpInsert junk lp (Elestr s) 6 LP_BEFORE) (lp_entry_of s # es) (Some 6)"
    by (simp add: lp_encode_element_str entry_range_of)
  from lp_inserted_without [OF this] Cons assms show ?thesis by (simp add: lpPrepend_def lpFirst_ok lp_ptr_def)
qed


section \<open>Deleting ranges\<close>

lemma lpShrinkToFit_ok:
  assumes "lp_rep lp es"
  shows "lp_rep (lpShrinkToFit junk lp) es"
proof -
  obtain num S where s: "lp = lp_header (7 + length (lp_body es)) num @ lp_body es @ LP_EOF # S"
      "7 + length (lp_body es) < 2 ^ 32" "num \<le> 65535" "num = length es \<or> num = LP_HDR_NUMELE_UNKNOWN" "list_all entry_ok es"
    using assms unfolding lp_rep_def by (elim exE conjE) (rule that, simp_all)
  have tot: "lpGetTotalBytes lp = 7 + length (lp_body es)"
    using lp_rep_total [OF assms] by (simp add: lp_pos_def)
  show ?thesis
  proof (cases "lpGetTotalBytes lp < length lp")
    case True
    have "lpShrinkToFit junk lp = lp_header (7 + length (lp_body es)) num @ lp_body es @ LP_EOF # []"
    proof -
      have "take (7 + length (lp_body es)) lp = lp_header (7 + length (lp_body es)) num @ lp_body es @ LP_EOF # []"
        using s(1) by simp
      with True show ?thesis unfolding lpShrinkToFit_def Let_def tot by (simp add: lp_realloc_append)
    qed
    then show ?thesis by (rule lp_repI) (use s in \<open>simp_all add: lp_fits_def\<close>)
  next
    case False
    with assms show ?thesis by (simp add: lpShrinkToFit_def)
  qed
qed

lemma lp_range_end_ok:
  assumes "lp_rep lp es" "i < length es" "0 < num"
  shows "lp_range_end lp (lpGetTotalBytes lp) num (lp_pos (take i es)) k =
    Some (lp_pos (take (i + num) es), k + min num (length es - i))"
  using assms(2,3)
proof (induction num arbitrary: i k)
  case (Suc num)
  have take: "take (Suc i) es = take i es @ [es ! i]" using Suc.prems by (simp add: take_Suc_conv_app_nth)
  have skip: "lpSkip lp (lp_pos (take i es)) = Some (lp_pos (take (Suc i) es))"
    using lpSkip_entry [OF lp_rep_nth [OF assms(1) Suc.prems(1)]] take by simp
  have valid: "lpAssertValidEntry lp (lpGetTotalBytes lp) (lp_pos (take (Suc i) es)) = Some ()"
    using lpAssertValidEntry_ok [of lp "take (Suc i) es" "drop (Suc i) es"] assms(1) by simp
  show ?case
  proof (cases "Suc i = length es")
    case True
    then have "lp_byte lp (lp_pos (take (Suc i) es)) = Some LP_EOF" "take (i + Suc num) es = es" "length es - i = 1"
      using lp_rep_end [OF assms(1)] by auto
    with True skip show ?thesis by simp
  next
    case False
    with Suc.prems have i: "Suc i < length es" by simp
    from lp_rep_first_byte [OF lp_rep_nth [OF assms(1) i]] obtain b
      where b: "lp_byte lp (lp_pos (take (Suc i) es)) = Some b" "b \<noteq> LP_EOF" .
    have "lp_range_end lp (lpGetTotalBytes lp) num (lp_pos (take (Suc i) es)) (Suc k) =
        Some (lp_pos (take (i + Suc num) es), k + min (Suc num) (length es - i))"
    proof (cases "num = 0")
      case True
      with i show ?thesis by simp
    next
      case False
      with Suc.IH [OF i, of "Suc k"] i show ?thesis by auto
    qed
    with skip b valid show ?thesis by simp
  qed
qed simp

lemma lpDeleteRangeWithEntry_ok:
  assumes "lp_rep lp es" "i < length es"
  shows "\<exists>lp'. lpDeleteRangeWithEntry junk lp (lp_pos (take i es)) num =
      Some (lp', if num = 0 \<or> i + num < length es then Some (lp_pos (take i es)) else None)
    \<and> lp_rep lp' (take i es @ drop (i + num) es)"
proof (cases "num = 0")
  case True
  with assms show ?thesis by (simp add: lpDeleteRangeWithEntry_def)
next
  case False
  define xs where "xs = take i es"
  define ds where "ds = take num (drop i es)"
  define ys where "ys = drop (i + num) es"
  have es: "es = xs @ ds @ ys" by (simp add: xs_def ds_def ys_def) (metis add.commute append_take_drop_id drop_drop)
  have tail: "take (i + num) es = xs @ ds" by (simp add: xs_def ds_def take_add)
  have nds: "length ds = min num (length es - i)" by (simp add: ds_def)
  have rep: "lp_rep lp (xs @ ds @ ys)" using assms(1) by (simp only: es [symmetric])
  define old where "old = lpGetTotalBytes lp"
  obtain num0 S where parts:
    "lp = (lp_header old num0 @ lp_body xs) @ lp_body ds @ (lp_body ys @ [LP_EOF]) @ S"
    "old = length ((lp_header old num0 @ lp_body xs) @ lp_body ds @ (lp_body ys @ [LP_EOF]))"
    "num0 \<le> 65535" "num0 = length (xs @ ds @ ys) \<or> num0 = LP_HDR_NUMELE_UNKNOWN" "list_all entry_ok (xs @ ds @ ys)" "old < 2 ^ 32"
    using lp_rep_parts [OF rep] unfolding old_def .
  define A where "A = lp_header old num0 @ lp_body xs"
  define B where "B = lp_body ys @ [LP_EOF]"
  have A: "length A = lp_pos xs" by (simp add: A_def lp_pos_def)
  define S' where "S' = drop (length B) (lp_body ds @ B @ S)"
  have pos: "lp_pos (xs @ ds) = lp_pos xs + length (lp_body ds)" by (simp add: lp_pos_def)
  have oldB: "old - 1 - (lp_pos xs + length (lp_body ds)) + 1 = length B" using parts(2) by (simp add: B_def lp_pos_def)
  have move: "memmove lp (lp_pos xs) (lp_pos xs + length (lp_body ds)) (length B) = Some (A @ B @ S')"
    using memmove_gap [of 0 B "lp_body ds" S A] parts(1) by (simp add: A A_def [symmetric] B_def [symmetric] S'_def)
  define new where "new = old - (lp_pos (xs @ ds) - lp_pos xs)"
  have new: "new = 7 + length (lp_body (xs @ ys))" using parts(2) by (simp add: new_def lp_pos_def)
  then have new32: "new < 2 ^ 32" using parts(2,6) by simp
  define num' where "num' = (if num0 = 65535 then num0 else num0 - length ds)"
  have num0: "num0 \<noteq> 65535 \<longrightarrow> nat ((int num0 - int (length ds)) mod 2 ^ 32) = num0 - length ds \<and> num0 = length ds + length (xs @ ys)"
  proof (rule impI)
    assume "num0 \<noteq> 65535"
    with parts(4) have n: "num0 = length ds + length (xs @ ys)" by simp
    define k where "k = length (xs @ ys)"
    have "int num0 - int (length ds) = int k" "k < 2 ^ 32" using parts(3) n by (simp_all add: k_def)
    then have "nat ((int num0 - int (length ds)) mod 2 ^ 32) = k" by simp
    with n k_def show "nat ((int num0 - int (length ds)) mod 2 ^ 32) = num0 - length ds \<and> num0 = length ds + length (xs @ ys)" by simp
  qed
  define lp3 where "lp3 = lp_header new num' @ lp_body (xs @ ys) @ LP_EOF # S'"
  have lp3: "lpSetTotalBytes (A @ B @ S') new = lp_header new num0 @ lp_body (xs @ ys) @ LP_EOF # S'"
    by (simp add: A_def B_def lp_header_set)
  have rep3: "lp_rep lp3 (xs @ ys)"
    by (rule lp_repI [of _ new num' _ S']) (use parts(3,5) num0 new new32 in \<open>auto simp: lp3_def lp_fits_def num'_def\<close>)
  note rep4 = lpShrinkToFit_ok [OF rep3, of junk]
  have byte: "\<exists>b. lp_byte (lpShrinkToFit junk lp3) (lp_pos xs) = Some b \<and> (b = LP_EOF \<longleftrightarrow> ys = [])"
  proof (cases ys)
    case Nil
    with lp_rep_end [OF rep4] show ?thesis by simp
  next
    case (Cons y zs)
    with rep4 have "lp_rep (lpShrinkToFit junk lp3) (xs @ y # zs)" by simp
    from lp_rep_first_byte [OF this] obtain b where "lp_byte (lpShrinkToFit junk lp3) (lp_pos xs) = Some b" "b \<noteq> LP_EOF" .
    with Cons show ?thesis by auto
  qed
  have ys: "ys = [] \<longleftrightarrow> \<not> i + num < length es" by (auto simp: ys_def)
  have "lpDeleteRangeWithEntry junk lp (lp_pos xs) num = Some (lpShrinkToFit junk lp3, if ys = [] then None else Some (lp_pos xs))"
  proof -
    have range: "lp_range_end lp old num (lp_pos xs) 0 = Some (lp_pos (xs @ ds), length ds)"
      using lp_range_end_ok [OF assms, of num 0] False by (simp add: old_def xs_def [symmetric] tail nds)
    have count: "lp_num_minus (lp_header new num0 @ R) (length ds) = lp_header new num' @ R" for R
      using num0 new32 parts(3) by (simp add: lp_num_minus_def Let_def lp_header_get lp_header_set num'_def)
    have eof: "Suc (old - Suc (lp_pos (xs @ ds))) = length B" using oldB by (simp add: pos)
    have move': "memmove lp (lp_pos xs) (lp_pos (xs @ ds)) (length B) = Some (A @ B @ S')"
      using move by (simp only: pos)
    show ?thesis
      using False range move' byte
      unfolding lpDeleteRangeWithEntry_def lpBytes_def Let_def old_def [symmetric]
      by (auto simp: eof new_def [symmetric] lp3 count lp3_def)
  qed
  with rep4 ys False show ?thesis by (auto simp: xs_def ys_def)
qed


lemma lp_index_SomeD: "lp_index es index = Some i \<Longrightarrow> i < length es \<and> (int (length es) + index = int i \<or> index = int i)"
  by (auto simp: lp_index_def Let_def split: if_splits)

lemma lp_rep_num_le: "lp_rep lp es \<Longrightarrow> lpGetNumElements lp \<le> 65535"
  by (auto simp: lp_rep_def lp_header_get)

lemma lp_truncate_ok:
  assumes "lp_rep lp es" "i < length es" "length es \<le> 65535"
  shows "\<exists>lp'. lp_write lp (lp_pos (take i es)) [LP_EOF] = Some lp' \<and>
    lp_rep (lpSetNumElements (lpSetTotalBytes lp' (lp_pos (take i es) + 1)) i) (take i es)"
proof -
  define xs where "xs = take i es"
  have rep: "lp_rep lp (xs @ drop i es @ [])" using assms(1) by (simp add: xs_def)
  define old where "old = lpGetTotalBytes lp"
  obtain num S where parts:
    "lp = (lp_header old num @ lp_body xs) @ lp_body (drop i es) @ (lp_body [] @ [LP_EOF]) @ S"
    "old = length ((lp_header old num @ lp_body xs) @ lp_body (drop i es) @ (lp_body [] @ [LP_EOF]))"
    "num \<le> 65535" "num = length (xs @ drop i es @ []) \<or> num = LP_HDR_NUMELE_UNKNOWN" "list_all entry_ok (xs @ drop i es @ [])" "old < 2 ^ 32"
    using lp_rep_parts [OF rep] unfolding old_def .
  have len: "length xs = i" using assms(2) by (simp add: xs_def)
  define R where "R = drop 1 (lp_body (drop i es) @ LP_EOF # S)"
  have "lp_write lp (lp_pos xs) [LP_EOF] = Some (lp_header old num @ lp_body xs @ LP_EOF # R)"
    using parts(1) by (simp add: lp_write_def mem_write_def lp_pos_def R_def)
  moreover have "lp_rep (lp_header (lp_pos xs + 1) i @ lp_body xs @ LP_EOF # R) xs"
    by (rule lp_repI [OF refl])
      (use parts(2,5,6) assms(2,3) len in \<open>auto simp: lp_pos_def lp_fits_def\<close>)
  ultimately show ?thesis by (simp add: lp_header_set xs_def [symmetric])
qed

lemma lpDeleteRange_ok:
  assumes rep: "lp_rep lp es" and "num < 2 ^ 32"
  shows "\<exists>lp'. lpDeleteRange junk lp index num = Some lp' \<and>
    lp_rep lp' (case lp_index es index of None \<Rightarrow> es | Some i \<Rightarrow> take i es @ drop (i + num) es)"
proof (cases "num = 0 \<or> lp_index es index = None")
  case True
  with rep show ?thesis by (auto simp: lpDeleteRange_def lpSeek_ok Let_def split: option.split)
next
  case False
  then obtain i where i: "lp_index es index = Some i" "num \<noteq> 0" by auto
  note bound = lp_index_SomeD [OF i(1)]
  define numele where "numele = lpGetNumElements lp"
  define ix where "ix = (if numele \<noteq> LP_HDR_NUMELE_UNKNOWN \<and> index < 0 then int numele + index else index)"
  have ix: "ix = int i" "numele = length es" if "numele \<noteq> LP_HDR_NUMELE_UNKNOWN"
    using that lp_rep_num [OF rep] i(1) by (auto simp: numele_def ix_def lp_index_def Let_def split: if_splits)
  have step: "lpDeleteRange junk lp index num =
      (if numele \<noteq> LP_HDR_NUMELE_UNKNOWN \<and> (int numele - ix) mod 2 ^ 32 \<le> int num then
         do {
           lp \<leftarrow> lp_write lp (lp_pos (take i es)) [LP_EOF];
           Some (lpShrinkToFit junk (lpSetNumElements (lpSetTotalBytes lp (lp_pos (take i es) + 1)) (nat ix)))
         }
       else map_option fst (lpDeleteRangeWithEntry junk lp (lp_pos (take i es)) num))"
    unfolding lpDeleteRange_def Let_def numele_def ix_def using i by (simp add: lpSeek_ok [OF rep])
  show ?thesis
  proof (cases "numele \<noteq> LP_HDR_NUMELE_UNKNOWN \<and> (int numele - ix) mod 2 ^ 32 \<le> int num")
    case True
    then have "int (length es) - int i \<le> int num" "length es \<le> 65535"
      using ix bound lp_rep_length [OF rep] lp_rep_num_le [OF rep] unfolding numele_def
      by auto
    then have tail: "drop (i + num) es = []" using bound by simp
    obtain lp' where "lp_write lp (lp_pos (take i es)) [LP_EOF] = Some lp'"
      "lp_rep (lpSetNumElements (lpSetTotalBytes lp' (lp_pos (take i es) + 1)) i) (take i es)"
      using lp_truncate_ok [OF rep _ \<open>length es \<le> 65535\<close>] bound by blast
    moreover have "nat ix = i" using ix True by simp
    ultimately show ?thesis
      using True i tail lpShrinkToFit_ok unfolding step by simp
  next
    case far: False
    obtain lp' q where "lpDeleteRangeWithEntry junk lp (lp_pos (take i es)) num = Some (lp', q)"
      "lp_rep lp' (take i es @ drop (i + num) es)"
      using lpDeleteRangeWithEntry_ok [OF rep, of i junk num] bound by blast
    with far i show ?thesis unfolding step if_not_P [OF far] by simp
  qed
qed

section \<open>Batches\<close>

text \<open>The entry that a batch stores for an element: strings that are numbers become numbers.\<close>

definition lp_stored :: "listpackEntry \<Rightarrow> listpackEntry" where
  "lp_stored e = (case e of Ent_str s \<Rightarrow> lp_entry_of s | Ent_int v \<Rightarrow> e)"

lemma lp_encode_element_stored:
  "lp_encode_element (lp_entry_element e) = (lp_enc (lp_stored e), length (lp_enc (lp_stored e)))"
  using lp_encode_element_enc [of e] by (simp add: lp_stored_def)

lemma lp_stored_range: "entry_range e \<Longrightarrow> entry_range (lp_stored e)"
  by (auto simp: lp_stored_def entry_range_of split: listpackEntry.split)

lemma lp_added_len_eq: "lp_added_len es = length (lp_body (map lp_stored es))"
  by (induction es) (simp_all add: lp_added_len_def lp_encode_element_stored lp_entry_size)

lemma lp_batch_store_ok:
  assumes "length X = length (lp_body (map lp_stored es))"
  shows "\<exists>q. lp_batch_store (A @ X @ R) (length A) p es = Some (A @ lp_body (map lp_stored es) @ R, q)"
  using assms
proof (induction es arbitrary: A X p)
  case Nil
  then show ?case by simp
next
  case (Cons e es)
  obtain X1 X2 where X: "X = X1 @ X2" "length X1 = length (lp_entry (lp_stored e))" "length X2 = length (lp_body (map lp_stored es))"
    using Cons.prems that [of "take (length (lp_entry (lp_stored e))) X" "drop (length (lp_entry (lp_stored e))) X"] by simp
  have "lp_store_entry (A @ X @ R) (length A) (lp_enc (lp_stored e)) (length (lp_enc (lp_stored e))) =
      Some ((A @ lp_entry (lp_stored e)) @ X2 @ R)"
    using lp_store_entry_ok [OF X(2), of A "X2 @ R"] by (simp add: X(1))
  with Cons.IH [OF X(3), of "A @ lp_entry (lp_stored e)" "Some (length A)"] show ?case
    by (simp add: lp_encode_element_stored lp_entry_size add.assoc)
qed

lemma lp_body_mem: "e \<in> set es \<Longrightarrow> length (lp_enc e) \<le> length (lp_body es)"
  by (drule split_list) (auto simp: lp_entry_def)

lemma lpBatchInsert_ok:
  assumes rep: "lp_rep lp (xs @ ys)" and es: "es \<noteq> []" "list_all entry_range es"
  shows "if lp_fits (xs @ map lp_stored es @ ys)
    then \<exists>lp' q. lpBatchInsert junk lp (lp_pos xs) LP_BEFORE es = Some (Some (lp', q)) \<and> lp_rep lp' (xs @ map lp_stored es @ ys)
    else lpBatchInsert junk lp (lp_pos xs) LP_BEFORE es = Some None"
proof -
  define old where "old = lpGetTotalBytes lp"
  define n where "n = length (lp_body (map lp_stored es))"
  have "lp_rep lp (xs @ [] @ ys)" using rep by simp
  from lp_rep_parts [OF this] obtain num S where parts:
    "lp = (lp_header old num @ lp_body xs) @ lp_body [] @ (lp_body ys @ [LP_EOF]) @ S"
    "old = length ((lp_header old num @ lp_body xs) @ lp_body [] @ (lp_body ys @ [LP_EOF]))"
    "num \<le> 65535" "num = length (xs @ [] @ ys) \<or> num = LP_HDR_NUMELE_UNKNOWN" "list_all entry_ok (xs @ [] @ ys)" "old < 2 ^ 32"
    unfolding old_def .
  define A where "A = lp_header old num @ lp_body xs"
  define B where "B = lp_body ys @ [LP_EOF]"
  have A: "length A = lp_pos xs" by (simp add: A_def lp_pos_def)
  have lpA: "lp = A @ [] @ B @ S" "lpGetTotalBytes lp = length (A @ [] @ B)"
    using parts(1,2) by (simp_all add: A_def B_def old_def)
  have new: "old + n = 7 + length (lp_body (xs @ map lp_stored es @ ys))" using parts(2) by (simp add: n_def)
  show ?thesis
  proof (cases "lp_fits (xs @ map lp_stored es @ ys)")
    case False
    with new es(1) show ?thesis
      by (simp add: lp_fits_def lpBatchInsert_def assert_that_def Let_def lp_added_len_eq old_def [symmetric] n_def [symmetric])
  next
    case True
    then have new32: "\<not> old + n > 2 ^ 32 - 1" "old + n < 2 ^ 32" by (simp_all add: lp_fits_def new)
    obtain X S' where room: "lp_make_room junk lp LP_BEFORE (lp_pos xs) n 0 (old + n) = Some (A @ X @ B @ S')" "length X = n"
      using lp_make_room_ok [OF lpA, where junk = junk and n = n and pos = LP_BEFORE] by (auto simp: A old_def)
    obtain q where store: "lp_batch_store (A @ X @ B @ S') (lp_pos xs) None es = Some (A @ lp_body (map lp_stored es) @ B @ S', q)"
      using lp_batch_store_ok [of X es A "B @ S'" None] room(2) by (auto simp: A n_def)
    define num' where "num' = (if num = 65535 then num else if int (length es) > 65535 - int num then 65535 else num + length es)"
    define lp3 where "lp3 = lp_header (old + n) num' @ lp_body (xs @ map lp_stored es @ ys) @ LP_EOF # S'"
    have "list_all entry_ok (map lp_stored es)"
      using es(2) True lp_stored_range lp_body_mem [of _ "map lp_stored es"] unfolding list_all_iff entry_ok_iff lp_fits_def by fastforce
    then have "lp_rep lp3 (xs @ map lp_stored es @ ys)"
      by (intro lp_repI [of _ "old + n" num' _ S']) (use True new parts(3-5) in \<open>auto simp: lp3_def num'_def\<close>)
    moreover have "lpBatchInsert junk lp (lp_pos xs) LP_BEFORE es = Some (Some (lp3, q))"
    proof -
      have count: "lp_num_plus (A @ R) (length es) = lp_header old num' @ lp_body xs @ R" for R
        using parts(3,6) by (simp add: A_def lp_num_plus_def lp_header_get lp_header_set num'_def Let_def)
      have total: "lpSetTotalBytes (lp_header old num' @ lp_body xs @ lp_body (map lp_stored es) @ B @ S') (old + n) = lp3"
        by (simp add: lp_header_set lp3_def B_def)
      show ?thesis
        using es(1) new32(1) room(1) store
        by (simp add: lpBatchInsert_def assert_that_def Let_def lp_added_len_eq old_def [symmetric] n_def [symmetric] count total)
    qed
    ultimately show ?thesis using True by auto
  qed
qed


lemma lpBatchAppend_ok:
  assumes "lp_rep lp xs" "es \<noteq> []" "list_all entry_range es"
  shows "lp_put_ok (lpBatchAppend junk lp es) (xs @ map lp_stored es)"
  using lpBatchInsert_ok [of lp xs "[]" es junk] assms lp_rep_total [OF assms(1)]
  by (auto simp: lpBatchAppend_def without_newp_def lp_put_ok_def split: if_splits)

section \<open>Merging\<close>

lemma lp_realloc_front:
  assumes "lp = F @ R" "length F \<le> sz"
  obtains R' where "lp_realloc junk lp sz = F @ R'" "length (F @ R') = sz"
proof (cases "length lp \<le> sz")
  case True
  with lp_realloc_more [OF this, of junk] assms that show thesis by force
next
  case False
  with assms show thesis
    by (intro that [of "take (sz - length F) R"]) (simp_all add: lp_realloc_append)
qed

lemma lpMerge_ok:
  assumes "lp_rep lp1 es1" "lp_rep lp2 es2" "7 + length (lp_body (es1 @ es2)) < 2 ^ 32 - 1"
  shows "\<exists>lp'. lpMerge junk lp1 lp2 = Some (lp', length (lp_body es2) \<le> length (lp_body es1)) \<and> lp_rep lp' (es1 @ es2)"
proof -
  obtain l1 l2 where len: "lpLength lp1 = Some (length es1, l1)" "lp_rep l1 es1" "lpLength lp2 = Some (length es2, l2)" "lp_rep l2 es2"
    using lpLength_ok [OF assms(1)] lpLength_ok [OF assms(2)] by metis
  obtain n1 S1 where l1: "l1 = lp_header (7 + length (lp_body es1)) n1 @ lp_body es1 @ LP_EOF # S1" and ok1: "list_all entry_ok es1"
    using len(2) unfolding lp_rep_def by blast
  obtain n2 S2 where l2: "l2 = lp_header (7 + length (lp_body es2)) n2 @ lp_body es2 @ LP_EOF # S2" and ok2: "list_all entry_ok es2"
    using len(4) unfolding lp_rep_def by blast
  let ?b1 = "length (lp_body es1)" and ?b2 = "length (lp_body es2)"
  have bytes: "lpBytes lp1 = 7 + ?b1" "lpBytes lp2 = 7 + ?b2"
    using lp_rep_total [OF assms(1)] lp_rep_total [OF assms(2)] by (simp_all add: lpBytes_def lp_pos_def)
  define tot where "tot = 7 + (?b1 + ?b2)"
  have total: "7 + ?b1 + (7 + ?b2) - 6 - 1 = tot" by (simp add: tot_def)
  have tot32: "tot < 2 ^ 32 - 1" using assms(3) by (simp add: tot_def)
  define num where "num = (if length es1 + length es2 < 65535 then length es1 + length es2 else 65535)"
  have "uint32 (length es1 + length es2) = length es1 + length es2"
    using lp_rep_length [OF assms(1)] lp_rep_length [OF assms(2)] by simp
  then have num: "(if uint32 (length es1 + length es2) < 65535 then uint32 (length es1 + length es2) else 65535) = num"
    by (simp add: num_def)
  have rep: "lp_rep (lp_header tot num @ lp_body (es1 @ es2) @ [LP_EOF]) (es1 @ es2)"
    by (rule lp_repI [OF refl]) (use assms(3) ok1 ok2 in \<open>auto simp: tot_def num_def lp_fits_def\<close>)
  have final: "lpSetTotalBytes (lpSetNumElements (lp_header t n @ lp_body es1 @ lp_body es2 @ [LP_EOF]) num) tot =
      lp_header tot num @ lp_body (es1 @ es2) @ [LP_EOF]" for t n
    by (simp add: lp_header_set)
  show ?thesis
  proof (cases "?b1 \<ge> ?b2")
    case True
    obtain R where R: "lp_realloc junk l1 tot = (lp_header (7 + ?b1) n1 @ lp_body es1) @ R" "length ((lp_header (7 + ?b1) n1 @ lp_body es1) @ R) = tot"
      using lp_realloc_front [of l1 "lp_header (7 + ?b1) n1 @ lp_body es1" "LP_EOF # S1" tot junk] l1 by (auto simp: tot_def)
    have "lp_read l2 6 (Suc ?b2) = Some (lp_body es2 @ [LP_EOF])"
      by (rule lp_read_at [of _ "lp_header (7 + ?b2) n2" _ S2]) (simp_all add: l2)
    moreover have "lp_write (lp_realloc junk l1 tot) (6 + ?b1) (lp_body es2 @ [LP_EOF]) =
        Some (lp_header (7 + ?b1) n1 @ lp_body es1 @ lp_body es2 @ [LP_EOF])"
      using R by (simp add: lp_write_def mem_write_def tot_def)
    ultimately show ?thesis
      using True tot32 rep len(1,3) unfolding lpMerge_def bytes Let_def total by (simp add: assert_that_def num final)
  next
    case False
    obtain R where R: "lp_realloc junk l2 tot = (lp_header (7 + ?b2) n2 @ lp_body es2 @ [LP_EOF]) @ R"
        "length ((lp_header (7 + ?b2) n2 @ lp_body es2 @ [LP_EOF]) @ R) = tot"
      using lp_realloc_front [of l2 "lp_header (7 + ?b2) n2 @ lp_body es2 @ [LP_EOF]" S2 tot junk] l2 by (auto simp: tot_def)
    define X where "X = take ?b1 ((lp_body es2 @ [LP_EOF]) @ R)"
    have X: "length X = ?b1" using R(2) by (simp add: X_def tot_def)
    have move: "memmove (lp_realloc junk l2 tot) (6 + ?b1) 6 (Suc ?b2) = Some (lp_header (7 + ?b2) n2 @ X @ lp_body es2 @ [LP_EOF])"
      using memmove_gap [of ?b1 "lp_body es2 @ [LP_EOF]" "[]" R "lp_header (7 + ?b2) n2"] R by (simp add: X_def tot_def)
    have "lp_read l1 0 (6 + ?b1) = Some (lp_header (7 + ?b1) n1 @ lp_body es1)"
      by (rule lp_read_at [of _ "[]" _ "LP_EOF # S1"]) (simp_all add: l1)
    moreover have "lp_write (lp_header (7 + ?b2) n2 @ X @ lp_body es2 @ [LP_EOF]) 0 (lp_header (7 + ?b1) n1 @ lp_body es1) =
        Some (lp_header (7 + ?b1) n1 @ lp_body es1 @ lp_body es2 @ [LP_EOF])"
      using X by (simp add: lp_write_def mem_write_def)
    ultimately show ?thesis
      using False tot32 rep len(1,3) move unfolding lpMerge_def bytes Let_def total by (simp add: assert_that_def num final)
  qed
qed

end
