(* ===== verification/Redis_Listpack_Proofs.thy ===== *)
theory Redis_Listpack_Proofs
  imports Redis_Listpack_Ops Simulation
begin

text \<open>
  Listpacks as lists of strings: the operations as steps on a block of bytes and on a list, the agreement of each step, and
  the simulation of all sequences of steps.
\<close>

section \<open>A listpack as a list of strings\<close>

lemma lpNew_ok: "lp_rep (lpNew junk capacity) []"
proof -
  define n where "n = (if capacity > 7 then capacity else 7)"
  obtain J S where J: "map junk [0..<n] = J @ junk 6 # S" "length J = 6"
  proof
    show "map junk [0..<n] = map junk [0..<6] @ junk 6 # map junk [7..<n]"
      using upt_add_eq_append [of 0 6 "n - 6"] upt_conv_Cons [of 6 n] by (simp add: n_def)
  qed simp
  have "lpNew junk capacity = (lpSetNumElements (lpSetTotalBytes (map junk [0..<n]) 7) 0)[6 := LP_EOF]"
    by (simp add: lpNew_def Let_def n_def)
  also have "\<dots> = lp_header 7 0 @ LP_EOF # S"
    using J(2) unfolding J(1)
    by (simp add: lpSetTotalBytes_def lpSetNumElements_def mem_write_def lp_header_def list_update_append)
  finally have "lpNew junk capacity = lp_header 7 0 @ LP_EOF # S" .
  then show ?thesis by (intro lp_repI [of _ 7 0 _ S]) (simp_all add: lp_fits_def)
qed

text \<open>The strings of a listpack, as a reader finds them; \<open>junk\<close> is also what is in the reader's buffer.\<close>

definition lp_intbuf :: "(nat \<Rightarrow> byte) \<Rightarrow> byte list" where
  "lp_intbuf junk = map junk [0..<LP_INTBUF_SIZE]"

definition lp_contents :: "(nat \<Rightarrow> byte) \<Rightarrow> listpack \<Rightarrow> byte list list" where
  "lp_contents junk lp =
     (case lpLength lp of
        None \<Rightarrow> []
      | Some (n, _) \<Rightarrow>
          map (\<lambda>i. case lpSeek lp (int i) of Some (Some p) \<Rightarrow> the (lpGetString (lp_intbuf junk) lp p) | _ \<Rightarrow> []) [0..<n])"

lemma lp_contents_eq:
  assumes "lp_rep lp es"
  shows "lp_contents junk lp = map lp_text es"
proof -
  obtain lp' where "lpLength lp = Some (length es, lp')" using lpLength_ok [OF assms] .
  moreover have "lpSeek lp (int i) = Some (Some (lp_pos (take i es)))" if "i < length es" for i
    using that by (simp add: lpSeek_ok [OF assms] lp_index_def)
  moreover have "lpGetString (lp_intbuf junk) lp (lp_pos (take i es)) = Some (lp_text (es ! i))" if "i < length es" for i
    using that by (intro lpGetString_ok [OF assms]) (simp_all add: lp_intbuf_def)
  ultimately show ?thesis
    by (intro nth_equalityI) (simp_all add: lp_contents_def)
qed

section \<open>Sequences of operations\<close>

text \<open>
  The operations of a client. Elements are addressed by index with \<open>lpSeek\<close>; \<open>Lp_lookup\<close> is the search for a field of a
  hash and the step to its value, as in \<open>t_hash.c\<close>.
\<close>

datatype lp_op =
    Lp_append "byte list" | Lp_prepend "byte list" | Lp_append_all "byte list list"
  | Lp_insert lp_where int "byte list" | Lp_delete int | Lp_delete_range int nat
  | Lp_get int | Lp_length | Lp_lookup "byte list"

datatype lp_res = Res_done | Res_full | Res_none | Res_str "byte list" | Res_num nat

definition lp_changed :: "listpack \<Rightarrow> listpack option option \<Rightarrow> (lp_res \<times> listpack) option" where
  "lp_changed lp r =
     map_option (\<lambda>r. case r of None \<Rightarrow> (Res_full, lp) | Some lp' \<Rightarrow> (Res_done, lp')) r"

definition lp_at :: "listpack \<Rightarrow> int \<Rightarrow> (nat \<Rightarrow> (lp_res \<times> listpack) option) \<Rightarrow> (lp_res \<times> listpack) option" where
  "lp_at lp index f = do { p \<leftarrow> lpSeek lp index; (case p of None \<Rightarrow> Some (Res_none, lp) | Some p \<Rightarrow> f p) }"

definition lp_step :: "(nat \<Rightarrow> byte) \<Rightarrow> lp_op \<Rightarrow> listpack \<Rightarrow> (lp_res \<times> listpack) option" where
  "lp_step junk x lp =
     (case x of
        Lp_append s \<Rightarrow> lp_changed lp (lpAppend junk lp s)
      | Lp_prepend s \<Rightarrow> lp_changed lp (lpPrepend junk lp s)
      | Lp_append_all ss \<Rightarrow> lp_changed lp (lpBatchAppend junk lp (map Ent_str ss))
      | Lp_insert pos index s \<Rightarrow> lp_at lp index (\<lambda>p. lp_changed lp (without_newp (lpInsertString junk lp s p pos)))
      | Lp_delete index \<Rightarrow> lp_at lp index (\<lambda>p. lp_changed lp (without_newp (lpDelete junk lp p)))
      | Lp_delete_range index num \<Rightarrow> map_option (\<lambda>lp'. (Res_done, lp')) (lpDeleteRange junk lp index num)
      | Lp_get index \<Rightarrow> lp_at lp index (\<lambda>p. map_option (\<lambda>s. (Res_str s, lp)) (lpGetString (lp_intbuf junk) lp p))
      | Lp_length \<Rightarrow> map_option (\<lambda>(n, lp'). (Res_num n, lp')) (lpLength lp)
      | Lp_lookup s \<Rightarrow>
          do {
            p \<leftarrow> lpFind lp None s 1;
            q \<leftarrow> (case p of None \<Rightarrow> Some None | Some p \<Rightarrow> lpNext lp p);
            (case q of
               None \<Rightarrow> Some (Res_none, lp)
             | Some q \<Rightarrow> map_option (\<lambda>s. (Res_str s, lp)) (lpGetString (lp_intbuf junk) lp q))
          })"

text \<open>The same on lists of strings; the only trace of the encoding is the limit on the number of bytes.\<close>

definition lp_index_of :: "'a list \<Rightarrow> int \<Rightarrow> nat option" where
  "lp_index_of xs index =
     (let i = (if index < 0 then int (length xs) + index else index) in
      if 0 \<le> i \<and> i < int (length xs) then Some (nat i) else None)"

definition list_put :: "byte list list \<Rightarrow> byte list list \<Rightarrow> lp_res \<times> byte list list" where
  "list_put xs xs' = (if lp_fits (map lp_entry_of xs') then (Res_done, xs') else (Res_full, xs))"

definition list_at :: "byte list list \<Rightarrow> int \<Rightarrow> (nat \<Rightarrow> lp_res \<times> byte list list) \<Rightarrow> lp_res \<times> byte list list" where
  "list_at xs index f = (case lp_index_of xs index of None \<Rightarrow> (Res_none, xs) | Some i \<Rightarrow> f i)"

definition list_step :: "lp_op \<Rightarrow> byte list list \<Rightarrow> lp_res \<times> byte list list" where
  "list_step x xs =
     (case x of
        Lp_append s \<Rightarrow> list_put xs (xs @ [s])
      | Lp_prepend s \<Rightarrow> list_put xs (s # xs)
      | Lp_append_all ss \<Rightarrow> list_put xs (xs @ ss)
      | Lp_insert LP_BEFORE index s \<Rightarrow> list_at xs index (\<lambda>i. list_put xs (take i xs @ s # drop i xs))
      | Lp_insert LP_AFTER index s \<Rightarrow> list_at xs index (\<lambda>i. list_put xs (take (Suc i) xs @ s # drop (Suc i) xs))
      | Lp_insert LP_REPLACE index s \<Rightarrow> list_at xs index (\<lambda>i. list_put xs (xs[i := s]))
      | Lp_delete index \<Rightarrow> list_at xs index (\<lambda>i. (Res_done, take i xs @ drop (Suc i) xs))
      | Lp_delete_range index num \<Rightarrow>
          (Res_done, case lp_index_of xs index of None \<Rightarrow> xs | Some i \<Rightarrow> take i xs @ drop (i + num) xs)
      | Lp_get index \<Rightarrow> list_at xs index (\<lambda>i. (Res_str (xs ! i), xs))
      | Lp_length \<Rightarrow> (Res_num (length xs), xs)
      | Lp_lookup s \<Rightarrow>
          (case find_spec s 1 0 xs of
             None \<Rightarrow> (Res_none, xs)
           | Some i \<Rightarrow> if Suc i < length xs then (Res_str (xs ! Suc i), xs) else (Res_none, xs)))"

definition lp_op_ok :: "lp_op \<Rightarrow> bool" where
  "lp_op_ok x \<longleftrightarrow>
     (case x of
        Lp_append s \<Rightarrow> length s < 2 ^ 32
      | Lp_prepend s \<Rightarrow> length s < 2 ^ 32
      | Lp_append_all ss \<Rightarrow> ss \<noteq> [] \<and> length ss < 2 ^ 32 \<and> list_all (\<lambda>s. length s < 2 ^ 32) ss
      | Lp_insert pos index s \<Rightarrow> length s < 2 ^ 32 \<and> fits 4 index
      | Lp_delete index \<Rightarrow> fits 4 index
      | Lp_delete_range index num \<Rightarrow> fits 4 index \<and> num < 2 ^ 32
      | Lp_get index \<Rightarrow> fits 4 index
      | Lp_length \<Rightarrow> True
      | Lp_lookup s \<Rightarrow> length s < 2 ^ 32)"

text \<open>The listpacks that arise: every string that is a number is stored as a number.\<close>

definition lp_inv :: "listpack \<Rightarrow> bool" where
  "lp_inv lp \<longleftrightarrow> (\<exists>xs. lp_rep lp (map lp_entry_of xs))"

definition lp_stands :: "listpack \<Rightarrow> byte list list \<Rightarrow> bool" where
  "lp_stands lp xs \<longleftrightarrow> lp_rep lp (map lp_entry_of xs)"

lemma lp_stands_contents: "lp_stands lp xs \<Longrightarrow> lp_contents junk lp = xs"
  by (simp add: lp_stands_def lp_contents_eq comp_def)

lemma lp_inv_stands: "lp_inv lp \<longleftrightarrow> (\<exists>xs. lp_stands lp xs)"
  by (simp add: lp_inv_def lp_stands_def)

text \<open>A result of the listpack and one of the list agree.\<close>

definition lp_agrees :: "(lp_res \<times> listpack) option \<Rightarrow> lp_res \<times> byte list list \<Rightarrow> bool" where
  "lp_agrees r q \<longleftrightarrow> (\<exists>lp'. r = Some (fst q, lp') \<and> lp_stands lp' (snd q))"

lemma lp_changed_agrees:
  assumes "lp_stands lp xs"
    and "lp_put_ok r (map lp_entry_of xs')"
  shows "lp_agrees (lp_changed lp r) (list_put xs xs')"
  using assms by (auto simp: lp_agrees_def lp_changed_def list_put_def lp_stands_def lp_put_ok_def split: if_splits)

lemma lp_at_agrees:
  assumes "lp_stands lp xs" "\<And>i. i < length xs \<Longrightarrow> lp_agrees (f (lp_pos (take i (map lp_entry_of xs)))) (g i)"
  shows "lp_agrees (lp_at lp index f) (list_at xs index g)"
proof -
  have "lp_index (map lp_entry_of xs) index = lp_index_of xs index" by (simp add: lp_index_def lp_index_of_def)
  then have seek: "lpSeek lp index = Some (map_option (\<lambda>i. lp_pos (take i (map lp_entry_of xs))) (lp_index_of xs index))"
    using assms(1) by (simp add: lp_stands_def lpSeek_ok)
  show ?thesis
  proof (cases "lp_index_of xs index")
    case None
    with assms(1) seek show ?thesis by (simp add: lp_at_def list_at_def lp_agrees_def)
  next
    case (Some i)
    then have "i < length xs" by (auto simp: lp_index_of_def Let_def split: if_splits)
    with Some seek assms(2) show ?thesis by (simp add: lp_at_def list_at_def)
  qed
qed


lemma map_take_update:
  "i < length xs \<Longrightarrow> map f (xs[i := s]) = take i (map f xs) @ f s # drop (Suc i) (map f xs)"
  by (simp add: upd_conv_take_nth_drop take_map drop_map)

lemma lp_insert_agrees:
  assumes lp: "lp_stands lp xs" and i: "i < length xs"
  defines "es \<equiv> map lp_entry_of xs"
  shows "lp_agrees (lp_changed lp (without_newp (lpInsertString junk lp s (lp_pos (take i es)) LP_BEFORE)))
      (list_put xs (take i xs @ s # drop i xs))" (is ?before)
    and "lp_agrees (lp_changed lp (without_newp (lpInsertString junk lp s (lp_pos (take i es)) LP_AFTER)))
      (list_put xs (take (Suc i) xs @ s # drop (Suc i) xs))" (is ?after)
    and "lp_agrees (lp_changed lp (without_newp (lpInsertString junk lp s (lp_pos (take i es)) LP_REPLACE)))
      (list_put xs (xs[i := s]))" (is ?replace)
proof -
  have rep: "lp_rep lp es" using lp by (simp add: lp_stands_def es_def)
  have put: "lp_inserted_ok (lpInsert junk lp (Elestr s) (lp_pos ys) pos) (ys @ lp_entry_of s # zs) (Some (lp_pos ys))"
    if "lp_rep lp (ys @ ds @ zs)" "pos = LP_BEFORE \<and> ds = [] \<or> pos = LP_REPLACE \<and> (\<exists>d. ds = [d])" for ys ds zs pos
    by (rule lpInsert_put [OF that]) (simp_all add: lp_encode_element_str entry_range_of)
  have split: "lp_rep lp (take j es @ [] @ drop j es)" for j using rep by simp
  show ?before
    using lp_inserted_without [OF put [OF split, of LP_BEFORE i]] i
    by (intro lp_changed_agrees [OF lp]) (simp add: lpInsertString_def es_def take_map drop_map)
  have nth: "lp_rep lp (take i es @ es ! i # drop (Suc i) es)" using lp_rep_nth [OF rep] i by (simp add: es_def)
  have "take i es @ [es ! i] = take (Suc i) es" using i by (simp add: es_def take_Suc_conv_app_nth)
  then have "lpInsert junk lp (Elestr s) (lp_pos (take i es)) LP_AFTER = lpInsert junk lp (Elestr s) (lp_pos (take (Suc i) es)) LP_BEFORE"
    using lpInsert_after [OF nth, of "Elestr s" junk] by simp
  then show ?after
    using lp_inserted_without [OF put [OF split, of LP_BEFORE "Suc i"]] i
    by (intro lp_changed_agrees [OF lp]) (simp add: lpInsertString_def es_def take_map drop_map)
  have "lp_rep lp (take i es @ [es ! i] @ drop (Suc i) es)" using nth by simp
  from lp_inserted_without [OF put [OF this, of LP_REPLACE]] show ?replace
    using i by (intro lp_changed_agrees [OF lp]) (simp add: lpInsertString_def es_def map_take_update)
qed

lemma lp_get_agrees:
  assumes "lp_stands lp xs" "i < length xs"
  shows "lp_agrees (map_option (\<lambda>s. (Res_str s, lp)) (lpGetString (lp_intbuf junk) lp (lp_pos (take i (map lp_entry_of xs)))))
    (Res_str (xs ! i), xs)"
proof -
  have "lpGetString (lp_intbuf junk) lp (lp_pos (take i (map lp_entry_of xs))) = Some (lp_text (map lp_entry_of xs ! i))"
    using assms by (intro lpGetString_ok) (simp_all add: lp_stands_def lp_intbuf_def)
  with assms show ?thesis by (simp add: lp_agrees_def)
qed

lemma find_spec_less: "find_spec s skip k xs = Some i \<Longrightarrow> i < length xs"
  by (induction s skip k xs arbitrary: i rule: find_spec.induct) (auto split: if_splits)

lemma lp_lookup_agrees:
  assumes "lp_stands lp xs"
  shows "lp_agrees (lp_step junk (Lp_lookup s) lp) (list_step (Lp_lookup s) xs)"
proof -
  let ?es = "map lp_entry_of xs"
  have rep: "lp_rep lp ?es" using assms by (simp add: lp_stands_def)
  have find: "lpFind lp None s 1 = Some (map_option (\<lambda>j. lp_pos (take j ?es)) (find_spec s 1 0 xs))"
    using lpFind_ok [OF rep] by (simp add: comp_def)
  show ?thesis
  proof (cases "find_spec s 1 0 xs")
    case None
    with find assms show ?thesis by (simp add: lp_step_def list_step_def lp_agrees_def)
  next
    case (Some i)
    then have "lpNext lp (lp_pos (take i ?es)) = Some (lp_ptr ?es (Suc i))"
      using lpNext_ok [OF rep, of i] find_spec_less [OF Some] by simp
    with Some find assms lp_get_agrees [OF assms, of "Suc i" junk] show ?thesis
      by (cases "Suc i < length xs") (simp_all add: lp_step_def list_step_def lp_ptr_def lp_agrees_def)
  qed
qed

lemma lp_step_agrees:
  assumes lp: "lp_stands lp xs" and "lp_op_ok x"
  shows "lp_agrees (lp_step junk x lp) (list_step x xs)"
proof (cases x)
  case (Lp_append s)
  show ?thesis
    unfolding Lp_append lp_step_def list_step_def lp_op.case
    using lpAppend_ok lp by (intro lp_changed_agrees [OF lp]) (simp add: lp_stands_def)
next
  case (Lp_prepend s)
  show ?thesis
    unfolding Lp_prepend lp_step_def list_step_def lp_op.case
    using lpPrepend_ok lp by (intro lp_changed_agrees [OF lp]) (simp add: lp_stands_def)
next
  case (Lp_append_all ss)
  have "lp_stored \<circ> Ent_str = lp_entry_of" by (rule ext) (simp add: lp_stored_def)
  moreover have "list_all entry_range (map Ent_str ss)"
    by (simp add: entry_range_def list_all_iff)
  ultimately show ?thesis
    unfolding Lp_append_all lp_step_def list_step_def lp_op.case
    using lp assms(2) lpBatchAppend_ok [of lp "map lp_entry_of xs" "map Ent_str ss" junk]
    by (intro lp_changed_agrees [OF lp]) (simp add: lp_stands_def lp_op_ok_def Lp_append_all)
next
  case (Lp_insert pos index s)
  show ?thesis
    unfolding Lp_insert lp_step_def list_step_def lp_op.case
    by (cases pos) (auto intro: lp_at_agrees [OF lp] lp_insert_agrees [OF lp])
next
  case (Lp_delete index)
  have "lp_agrees (lp_changed lp (without_newp (lpDelete junk lp (lp_pos (take i (map lp_entry_of xs))))))
      (Res_done, take i xs @ drop (Suc i) xs)" if i: "i < length xs" for i
  proof -
    let ?es = "map lp_entry_of xs"
    have "lp_rep lp (take i ?es @ ?es ! i # drop (Suc i) ?es)" using lp i by (intro lp_rep_nth) (simp_all add: lp_stands_def)
    from lpDelete_ok [OF this, of junk] show ?thesis
      by (auto simp: lp_changed_def without_newp_def lp_agrees_def lp_stands_def take_map drop_map)
  qed
  then show ?thesis
    unfolding Lp_delete lp_step_def list_step_def lp_op.case by (intro lp_at_agrees [OF lp])
next
  case (Lp_delete_range index num)
  have "lp_index (map lp_entry_of xs) index = lp_index_of xs index" by (simp add: lp_index_def lp_index_of_def)
  with lpDeleteRange_ok [of lp "map lp_entry_of xs" num junk index] show ?thesis
    using lp assms(2)
    by (auto simp: Lp_delete_range lp_step_def list_step_def lp_agrees_def lp_stands_def lp_op_ok_def take_map drop_map
        split: option.splits)
next
  case (Lp_get index)
  show ?thesis
    unfolding Lp_get lp_step_def list_step_def lp_op.case by (intro lp_at_agrees [OF lp] lp_get_agrees [OF lp])
next
  case Lp_length
  obtain lp' where "lpLength lp = Some (length (map lp_entry_of xs), lp')" "lp_rep lp' (map lp_entry_of xs)"
    using lpLength_ok lp unfolding lp_stands_def by blast
  with Lp_length show ?thesis by (simp add: lp_step_def list_step_def lp_agrees_def lp_stands_def)
next
  case (Lp_lookup s)
  then show ?thesis using lp_lookup_agrees [OF lp] by simp
qed

interpretation lpsim: simulation lp_op_ok lp_inv "lp_contents junk" "lp_step junk" list_step for junk
proof unfold_locales
  fix lp x
  assume "lp_inv lp" "lp_op_ok x"
  then obtain xs where xs: "lp_stands lp xs" by (auto simp: lp_inv_stands)
  from lp_step_agrees [OF this \<open>lp_op_ok x\<close>, of junk] obtain lp' where
    "lp_step junk x lp = Some (fst (list_step x xs), lp')" "lp_stands lp' (snd (list_step x xs))"
    by (auto simp: lp_agrees_def)
  with xs show "\<exists>r lp'. lp_step junk x lp = Some (r, lp') \<and> lp_inv lp' \<and> list_step x (lp_contents junk lp) = (r, lp_contents junk lp')"
    by (auto simp: lp_inv_stands lp_stands_contents)
qed


text \<open>A listpack has room as long as its strings, with at most 14 bytes more for each, are not too long.\<close>

lemma lp_entry_of_length: "length (lp_entry (lp_entry_of s)) \<le> length s + 14"
proof -
  have "length (lp_enc (lp_entry_of s)) \<le> length s + 9"
    by (auto simp: lp_enc_def lp_entry_of_def lpEncodeString_eq lpEncodeIntegerGetType_eq split: option.split)
  with lpBacklenSize_bounds(2) [of "length (lp_enc (lp_entry_of s))"] lp_entry_size [of "lp_entry_of s"] show ?thesis by simp
qed

lemma lp_fits_small:
  assumes "7 + sum_list (map (\<lambda>s. length s + 14) xs) < 2 ^ 32"
  shows "lp_fits (map lp_entry_of xs)"
proof -
  have "length (lp_body (map lp_entry_of xs)) \<le> sum_list (map (\<lambda>s. length s + 14) xs)"
  proof (induction xs)
    case (Cons s xs)
    then show ?case using lp_entry_of_length [of s] by simp
  qed simp
  with assms show ?thesis by (simp add: lp_fits_def)
qed

lemma list_put_small:
  "7 + sum_list (map (\<lambda>s. length s + 14) xs') < 2 ^ 32 \<Longrightarrow> list_put xs xs' = (Res_done, xs')"
  by (simp add: list_put_def lp_fits_small)

section \<open>Properties\<close>

text \<open>
  C36. A listpack is a list of strings: every sequence of appending, prepending, inserting before, behind and in place of
  an element, deleting elements and ranges, reading by index from either end, counting and searching runs without an access
  outside the block and without a failing assertion, and gives the results of the same sequence on a list. An insertion is
  refused when the listpack would have \<open>2^32\<close> bytes or more, and then changes nothing.
\<close>

theorem listpack_run_refines:
  assumes "list_all lp_op_ok ops"
  shows "\<exists>rs lp'. run_ops (lp_step junk) ops (lpNew junk capacity) = Some (rs, lp')
    \<and> run_spec list_step ops [] = (rs, lp_contents junk lp')"
proof -
  have "lp_stands (lpNew junk capacity) []" by (simp add: lp_stands_def lpNew_ok)
  then have "lp_inv (lpNew junk capacity)" "lp_contents junk (lpNew junk capacity) = []"
    by (auto simp: lp_inv_stands lp_stands_contents)
  with lpsim.run_simulates [OF _ assms, of "lpNew junk capacity" junk] show ?thesis by auto
qed

theorem listpack_run_refines_witness:
  "\<exists>lp'. run_ops (lp_step (\<lambda>_. 0xAA))
      [Lp_append (str8 ''name''), Lp_append (str8 ''-42''), Lp_prepend (str8 ''x''), Lp_insert LP_AFTER (-3) (str8 ''y''),
       Lp_lookup (str8 ''name''), Lp_delete 0, Lp_get 1, Lp_length] (lpNew (\<lambda>_. 0xAA) 16) =
      Some ([Res_done, Res_done, Res_done, Res_done, Res_str (str8 ''-42''), Res_done, Res_str (str8 ''name''), Res_num 3], lp')
    \<and> lp_contents (\<lambda>_. 0xAA) lp' = [str8 ''y'', str8 ''name'', str8 ''-42'']"
proof -
  let ?ops = "[Lp_append (str8 ''name''), Lp_append (str8 ''-42''), Lp_prepend (str8 ''x''), Lp_insert LP_AFTER (-3) (str8 ''y''),
       Lp_lookup (str8 ''name''), Lp_delete 0, Lp_get 1, Lp_length]"
  have ok: "list_all lp_op_ok ?ops" by (simp add: lp_op_ok_def fits_def)
  have spec: "run_spec list_step ?ops [] =
      ([Res_done, Res_done, Res_done, Res_done, Res_str (str8 ''-42''), Res_done, Res_str (str8 ''name''), Res_num 3],
       [str8 ''y'', str8 ''name'', str8 ''-42''])"
    by (simp add: list_step_def list_at_def lp_index_of_def list_put_small)
  from listpack_run_refines [OF ok, of "\<lambda>_. 0xAA" 16] show ?thesis unfolding spec by auto
qed

end
