(* ===== verification/Redis_Listpack_Valid.thy ===== *)
theory Redis_Listpack_Valid
  imports Redis_Listpack_Nav
begin

text \<open>
  The validation of listpacks that come from outside: \<open>lpValidateNext\<close> on arbitrary bytes, with the wrap-around of sizes
  in 32 bits, and what the deep check of \<open>lpValidateIntegrity\<close> ensures for the functions that read the listpack.
\<close>

section \<open>Reading a length from behind\<close>



section \<open>The size of an entry\<close>







section \<open>Validation of an entry\<close>










section \<open>Deep validation\<close>











section \<open>Reading an accepted listpack\<close>

















section \<open>Properties\<close>





end
