(* ===== verification/Redis_Dict_Scan.thy ===== *)
theory Redis_Dict_Scan
  imports Redis_Dict_Ops
begin

text \<open>
  The stateless iteration \<open>dictScan\<close> of \<open>dict.c\<close>. The cursor counts with its bits reversed; a position is the cursor with the bits
  reversed back, and every call covers the positions from its cursor to the next one, whatever the sizes of the tables are.
\<close>

section \<open>Reversing bits\<close>

definition rev_stage :: "nat \<Rightarrow> 32 word \<Rightarrow> 32 word \<Rightarrow> 32 word" where
  "rev_stage s m v = (drop_bit s v AND m) OR (push_bit s v AND NOT m)"

lemma rev_loop_stage:
  assumes "s div 2 = t" "t \<noteq> 0" "m XOR push_bit t m = m'"
  shows "rev_loop s m v = rev_loop t m' (rev_stage t m' v)"
  using assms by (subst rev_loop.simps) (simp add: Let_def rev_stage_def)

lemma rev_bits_stages:
  "rev_bits v = rev_stage 1 0x55555555 (rev_stage 2 0x33333333 (rev_stage 4 0xF0F0F0F (rev_stage 8 0xFF00FF (rev_stage 16 0xFFFF v))))"
proof -
  have m: "(NOT 0 :: 32 word) XOR push_bit 16 (NOT 0) = 0xFFFF" "(0xFFFF :: 32 word) XOR push_bit 8 0xFFFF = 0xFF00FF"
      "(0xFF00FF :: 32 word) XOR push_bit 4 0xFF00FF = 0xF0F0F0F" "(0xF0F0F0F :: 32 word) XOR push_bit 2 0xF0F0F0F = 0x33333333"
      "(0x33333333 :: 32 word) XOR push_bit 1 0x33333333 = 0x55555555"
    by code_simp+
  have "rev_loop 1 (0x55555555) w = w" for w by (subst rev_loop.simps) simp
  then show ?thesis
    unfolding rev_bits_def
    by (simp only: rev_loop_stage [OF _ _ m(1), of 32] rev_loop_stage [OF _ _ m(2), of 16] rev_loop_stage [OF _ _ m(3), of 8]
        rev_loop_stage [OF _ _ m(4), of 4] rev_loop_stage [OF _ _ m(5), of 2])
qed

lemma bit_rev_stage: "bit (rev_stage s m v) i \<longleftrightarrow> i < 32 \<and> (if bit m i then bit v (i + s) else s \<le> i \<and> bit v (i - s))"
  by (auto simp: rev_stage_def bit_simps ac_simps dest: bit_imp_le_length)

lemma less_32_cases: "(i::nat) < 32 \<Longrightarrow> i \<in> {0,1,2,3,4,5,6,7,8,9,10,11,12,13,14,15,16,17,18,19,20,21,22,23,24,25,26,27,28,29,30,31}"
  by (simp only: insert_iff empty_iff) presburger

lemma bit_rev_bits: "bit (rev_bits v) i \<longleftrightarrow> i < 32 \<and> bit v (31 - i)"
proof (cases "i < 32")
  case True
  then show ?thesis
    unfolding rev_bits_stages using less_32_cases [OF True]
    by (elim insertE emptyE) (simp_all add: bit_rev_stage)
next
  case False
  then show ?thesis by (auto dest: bit_imp_le_length)
qed

lemma rev_rev_bits [simp]: "rev_bits (rev_bits v) = v"
  by (rule bit_word_eqI) (auto simp: bit_rev_bits)

lemma rev_bits_0 [simp]: "rev_bits 0 = 0"
  by (rule bit_word_eqI) (simp add: bit_rev_bits)

section \<open>Positions\<close>

text \<open>
  The position of a cursor is the number with its bits reversed. A table with \<open>2^e\<close> buckets cuts the positions into blocks of
  \<open>2^(32-e)\<close>; a bucket holds the keys whose hash has its position in one block.
\<close>

definition cursor_pos :: "32 word \<Rightarrow> nat" where
  "cursor_pos v = unat (rev_bits v)"

definition hash_pos :: "64 word \<Rightarrow> nat" where
  "hash_pos h = cursor_pos (ucast h)"

lemma cursor_pos_less: "cursor_pos v < 2 ^ 32"
  unfolding cursor_pos_def using unsigned_less [of "rev_bits v", where ?'a = nat] by simp

lemma cursor_pos_0: "cursor_pos v = 0 \<longleftrightarrow> v = 0"
  by (metis cursor_pos_def rev_bits_0 rev_rev_bits unat_0 unat_eq_zero)

lemma scan_mask_eq: "0 \<le> e \<Longrightarrow> scan_mask e = mask (nat e)"
  by (simp add: scan_mask_def DICTHT_SIZE_MASK_def mask_eq_exp_minus_1 of_nat_diff)

lemma block_eq:
  assumes "n \<le> 32"
  shows "a AND mask n = b AND mask n \<longleftrightarrow> cursor_pos a div 2 ^ (32 - n) = cursor_pos b div 2 ^ (32 - n)"
proof -
  have "cursor_pos a div 2 ^ (32 - n) = unat (drop_bit (32 - n) (rev_bits a))" for a
    unfolding cursor_pos_def unat_drop_bit_eq by (simp add: drop_bit_eq_div)
  moreover have "a AND mask n = b AND mask n \<longleftrightarrow> drop_bit (32 - n) (rev_bits a) = drop_bit (32 - n) (rev_bits b)"
  proof
    assume eq: "a AND mask n = b AND mask n"
    have "bit a k = bit b k" if "k < n" for k
      using arg_cong [OF eq, of "\<lambda>w. bit w k"] that assms by (simp add: bit_simps)
    then show "drop_bit (32 - n) (rev_bits a) = drop_bit (32 - n) (rev_bits b)"
      using assms by (intro bit_word_eqI) (auto simp: bit_simps bit_rev_bits)
  next
    assume eq: "drop_bit (32 - n) (rev_bits a) = drop_bit (32 - n) (rev_bits b)"
    have "bit a k = bit b k" if "k < n" for k
      using arg_cong [OF eq, of "\<lambda>w. bit w (n - 1 - k)"] that assms by (auto simp: bit_simps bit_rev_bits)
    then show "a AND mask n = b AND mask n"
      by (intro bit_word_eqI) (auto simp: bit_simps)
  qed
  ultimately show ?thesis by (simp only: word_unat_eq_iff)
qed

lemma or_mask_nat: "n OR mask k = (n div 2 ^ k) * 2 ^ k + (2 ^ k - 1 :: nat)"
proof -
  have "n OR mask k = push_bit k (drop_bit k n) OR mask k"
    by (rule bit_eqI) (auto simp: bit_simps)
  also have "\<dots> = push_bit k (drop_bit k n) + mask k"
    by (rule disjunctive_add [symmetric]) (auto simp: bit_simps)
  finally show ?thesis by (simp add: push_bit_eq_mult drop_bit_eq_div mask_eq_exp_minus_1)
qed

lemma next_cursor_pos:
  assumes "n \<le> 32"
  shows "cursor_pos (next_cursor (mask n) v) = ((cursor_pos v div 2 ^ (32 - n) + 1) * 2 ^ (32 - n)) mod 2 ^ 32"
proof -
  let ?B = "2 ^ (32 - n) :: nat"
  have "rev_bits (v OR NOT (mask n)) = rev_bits v OR mask (32 - n)"
    using assms by (intro bit_word_eqI) (auto simp: bit_simps bit_rev_bits)
  then have "cursor_pos (next_cursor (mask n) v) = unat ((rev_bits v OR mask (32 - n)) + 1)"
    by (simp add: cursor_pos_def next_cursor_def)
  also have "\<dots> = (unat (rev_bits v OR mask (32 - n)) + 1) mod 2 ^ 32"
    by (simp add: unat_word_ariths)
  also have "unat (rev_bits v OR mask (32 - n)) = cursor_pos v OR mask (32 - n)"
  proof -
    have "unat (mask (32 - n) :: 32 word) = mask (32 - n)"
      by (rule bit_eqI) (auto simp: bit_unsigned_iff bit_simps)
    then show ?thesis by (simp add: cursor_pos_def unsigned_or_eq)
  qed
  also have "(cursor_pos v OR mask (32 - n)) + 1 = (cursor_pos v div ?B + 1) * ?B"
    by (simp add: or_mask_nat algebra_simps)
  finally show ?thesis .
qed

section \<open>One call\<close>

text \<open>The bucket of a table that a cursor selects holds the entries of its block.\<close>

definition block :: "int \<Rightarrow> nat" where
  "block e = 2 ^ (32 - nat e)"

definition entry_pos :: "('c \<Rightarrow> 64 word) \<Rightarrow> ('k \<Rightarrow> 'c) \<Rightarrow> ('k, 'v) dict_entry \<Rightarrow> nat" where
  "entry_pos H cont e = hash_pos (H (cont (dictGetKey e)))"

lemma ht_index_block:
  assumes "0 \<le> e" "e \<le> 29"
  shows "ht_index h e = unat (v AND scan_mask e) \<longleftrightarrow> hash_pos h div block e = cursor_pos v div block e"
proof -
  have "ht_index h e = unat ((ucast h :: 32 word) AND mask (nat e))"
  proof -
    have "unat ((ucast h :: 32 word) AND mask (nat e)) = take_bit (nat e) (take_bit 32 (unat h))"
      by (simp add: take_bit_eq_mask [symmetric] unsigned_take_bit_eq unsigned_ucast_eq)
    also have "\<dots> = take_bit (nat e) (unat h)"
    proof -
      have "min (nat e) 32 = nat e" using assms by simp
      then show ?thesis by (simp only: take_bit_take_bit)
    qed
    also have "\<dots> = unat h mod 2 ^ nat e" by (rule take_bit_eq_mod)
    finally show ?thesis using assms by (simp add: ht_index_mod)
  qed
  moreover have "nat e \<le> 32" using assms by simp
  ultimately show ?thesis
    using block_eq [of "nat e" "ucast h" v] assms(1)
    by (simp only: scan_mask_eq hash_pos_def block_def word_unat_eq_iff)
qed

lemma scan_bucket_ok:
  assumes t: "table_ok T cont H form t" and e: "ht_size_exp t \<noteq> -1"
  shows "\<exists>es. scan_bucket t v = Some es \<and> set es \<subseteq> set (concat (ht_table t)) \<and>
           (\<forall>x\<in>set (concat (ht_table t)). entry_pos H cont x div block (ht_size_exp t) = cursor_pos v div block (ht_size_exp t) \<longrightarrow> x \<in> set es)"
proof -
  let ?e = "ht_size_exp t" and ?i = "unat (v AND scan_mask (ht_size_exp t))"
  have r: "0 \<le> ?e" "?e \<le> 29" "length (ht_table t) = 2 ^ nat ?e" using t e by (auto simp: table_ok_def)
  have i: "?i < length (ht_table t)"
    using r by (simp add: scan_mask_eq take_bit_eq_mask [symmetric] unsigned_take_bit_eq)
  have "x \<in> set (ht_table t ! ?i)" if x: "x \<in> set (concat (ht_table t))" "entry_pos H cont x div block ?e = cursor_pos v div block ?e" for x
    using table_ok_content(2) [OF t x(1) refl] ht_index_block [OF r(1,2), of "H (cont (dictGetKey x))" v] x(2)
    by (simp add: entry_pos_def)
  moreover have "set (ht_table t ! ?i) \<subseteq> set (concat (ht_table t))" using nth_mem [OF i] by auto
  ultimately show ?thesis using i by (auto simp: scan_bucket_def)
qed

lemma next_cursor_block:
  assumes "2 \<le> e" "e \<le> 29"
  shows "cursor_pos (next_cursor (scan_mask e) v) = ((cursor_pos v div block e + 1) * block e) mod 2 ^ 32"
  using next_cursor_pos [of "nat e" v] assms by (simp add: scan_mask_eq block_def)

text \<open>Arithmetic of blocks: the end of the block of a position.\<close>

definition block_end :: "int \<Rightarrow> nat \<Rightarrow> nat" where
  "block_end e p = (p div block e + 1) * block e"

lemma block_pos [simp]: "0 < block e"
  by (simp add: block_def)

lemma block_end_greater: "p < block_end e p"
  by (simp add: block_end_def dividend_less_div_times)

lemma block_end_le:
  assumes "p < 2 ^ 32"
  shows "block_end e p \<le> 2 ^ 32"
proof -
  have "(2::nat) ^ 32 = 2 ^ (32 - (32 - nat e)) * block e"
    by (simp add: block_def flip: power_add)
  then obtain m where m: "(2::nat) ^ 32 = m * block e" by blast
  then have "p div block e < m" using assms by (simp add: less_mult_imp_div_less)
  then have "(p div block e + 1) * block e \<le> m * block e" by (intro mult_le_mono1) simp
  then show ?thesis using m by (simp add: block_end_def)
qed

lemma same_block:
  assumes "p \<le> q" "q < block_end e p"
  shows "q div block e = p div block e"
proof (rule antisym)
  show "q div block e \<le> p div block e"
    using assms(2) less_mult_imp_div_less [of q "p div block e + 1" "block e"] by (simp add: block_end_def)
qed (use assms(1) in \<open>simp add: div_le_mono\<close>)

lemma block_dvd: "e0 \<le> e1 \<Longrightarrow> block e1 dvd block e0"
  by (simp add: block_def le_imp_power_dvd)

lemma block_end_mono:
  assumes "e0 \<le> e1"
  shows "block_end e1 p \<le> block_end e0 p"
proof -
  obtain m where m: "block e0 = block e1 * m" using block_dvd [OF assms] by blast
  have "p < block_end e0 p" by (rule block_end_greater)
  then have "p < ((p div block e0 + 1) * m) * block e1" by (simp add: block_end_def m algebra_simps)
  then have "p div block e1 < (p div block e0 + 1) * m" by (simp add: less_mult_imp_div_less)
  then have "(p div block e1 + 1) * block e1 \<le> ((p div block e0 + 1) * m) * block e1" by (intro mult_le_mono1) simp
  then show ?thesis by (simp add: block_end_def m algebra_simps)
qed

lemma block_end_next:
  assumes "e0 \<le> e1" "block_end e1 p < block_end e0 p"
  shows "block_end e0 (block_end e1 p) = block_end e0 p" "\<not> block e0 dvd block_end e1 p"
proof -
  have eq: "block_end e1 p div block e0 = p div block e0"
    using same_block [of p "block_end e1 p" e0] block_end_greater [of p e1] assms(2) by simp
  then show "block_end e0 (block_end e1 p) = block_end e0 p" by (simp add: block_end_def)
  show "\<not> block e0 dvd block_end e1 p"
  proof
    assume "block e0 dvd block_end e1 p"
    then have "block_end e1 p = (p div block e0) * block e0" using eq by (metis dvd_div_mult_self)
    then have "block_end e1 p \<le> p" by simp
    then show False using block_end_greater [of p e1] by simp
  qed
qed

lemma dvd_cursor_pos: "2 ^ k dvd cursor_pos v \<longleftrightarrow> (\<forall>i<k. \<not> bit (rev_bits v) i)"
proof -
  have "2 ^ k dvd cursor_pos v \<longleftrightarrow> take_bit k (cursor_pos v) = 0"
    by (simp add: take_bit_eq_mod dvd_eq_mod_eq_0)
  also have "\<dots> \<longleftrightarrow> (\<forall>i<k. \<not> bit (cursor_pos v) i)"
    by (auto simp: bit_eq_iff bit_take_bit_iff)
  also have "\<dots> \<longleftrightarrow> (\<forall>i<k. \<not> bit (rev_bits v) i)"
    by (simp add: cursor_pos_def bit_unsigned_iff)
  finally show ?thesis .
qed

lemma stop_condition:
  assumes "2 \<le> e0" "e0 \<le> e1" "e1 \<le> 29" "block e1 dvd cursor_pos v"
  shows "v AND (scan_mask e0 XOR scan_mask e1) = 0 \<longleftrightarrow> block e0 dvd cursor_pos v"
proof -
  have low: "\<not> bit v (31 - i)" if "i < 32 - nat e1" for i
    using assms(4) that by (auto simp: block_def dvd_cursor_pos bit_rev_bits)
  have "v AND (scan_mask e0 XOR scan_mask e1) = 0 \<longleftrightarrow> (\<forall>n<32. bit v n \<longrightarrow> (n < nat e0) = (n < nat e1))"
    using assms by (auto simp: scan_mask_eq bit_eq_iff bit_simps)
  also have "\<dots> \<longleftrightarrow> (\<forall>j. nat e0 \<le> j \<and> j < nat e1 \<longrightarrow> \<not> bit v j)"
  proof -
    have "nat e0 \<le> nat e1" "nat e1 < 32" using assms by auto
    then show ?thesis by (meson less_le_trans not_le order_less_trans)
  qed
  also have "\<dots> \<longleftrightarrow> (\<forall>i<32 - nat e0. \<not> bit v (31 - i))"
  proof
    assume all: "\<forall>j. nat e0 \<le> j \<and> j < nat e1 \<longrightarrow> \<not> bit v j"
    show "\<forall>i<32 - nat e0. \<not> bit v (31 - i)"
    proof (intro allI impI)
      fix i assume i: "i < 32 - nat e0"
      show "\<not> bit v (31 - i)"
      proof (cases "i < 32 - nat e1")
        case False
        then have "nat e0 \<le> 31 - i" "31 - i < nat e1" using i assms by auto
        then show ?thesis using all by simp
      qed (rule low)
    qed
  next
    assume all: "\<forall>i<32 - nat e0. \<not> bit v (31 - i)"
    show "\<forall>j. nat e0 \<le> j \<and> j < nat e1 \<longrightarrow> \<not> bit v j"
    proof (intro allI impI)
      fix j assume j: "nat e0 \<le> j \<and> j < nat e1"
      then have "31 - j < 32 - nat e0" "31 - (31 - j) = j" using assms by auto
      then show "\<not> bit v j" using all by metis
    qed
  qed
  also have "\<dots> \<longleftrightarrow> block e0 dvd cursor_pos v"
    using assms by (auto simp: block_def dvd_cursor_pos bit_rev_bits)
  finally show ?thesis .
qed

lemma scan_larger_ok:
  assumes t: "table_ok T cont H form t" and e: "2 \<le> e0" "e0 \<le> ht_size_exp t"
  shows "\<exists>v' es. scan_larger t (scan_mask e0) v acc = Some (v', acc @ es) \<and> set es \<subseteq> set (concat (ht_table t)) \<and>
           cursor_pos v' = block_end e0 (cursor_pos v) mod 2 ^ 32 \<and>
           (\<forall>x\<in>set (concat (ht_table t)). cursor_pos v \<le> entry_pos H cont x \<and> entry_pos H cont x < block_end e0 (cursor_pos v) \<longrightarrow>
              x \<in> set es)"
proof (induction "block_end e0 (cursor_pos v) - cursor_pos v" arbitrary: v acc rule: less_induct)
  case less
  let ?e1 = "ht_size_exp t" and ?p = "cursor_pos v"
  let ?v1 = "next_cursor (scan_mask ?e1) v"
  have e1: "?e1 \<noteq> -1" "2 \<le> ?e1" "?e1 \<le> 29" using t e by (auto simp: table_ok_def)
  obtain es where es: "scan_bucket t v = Some es"
      "\<forall>x\<in>set (concat (ht_table t)). entry_pos H cont x div block ?e1 = ?p div block ?e1 \<longrightarrow> x \<in> set es"
      "set es \<subseteq> set (concat (ht_table t))"
    using scan_bucket_ok [OF t e1(1), of v] by blast
  have hit: "x \<in> set es" if "x \<in> set (concat (ht_table t))" "?p \<le> entry_pos H cont x" "entry_pos H cont x < block_end ?e1 ?p" for x
    using es(2) that same_block by blast
  have p1: "cursor_pos ?v1 = block_end ?e1 ?p mod 2 ^ 32"
    using next_cursor_block [OF e1(2,3)] by (simp add: block_end_def)
  have le: "block_end ?e1 ?p \<le> block_end e0 ?p" "block_end e0 ?p \<le> 2 ^ 32"
    using block_end_mono [OF e(2)] block_end_le [OF cursor_pos_less] by auto
  have d1: "block ?e1 dvd cursor_pos ?v1"
  proof -
    have "block ?e1 dvd 2 ^ 32" unfolding block_def by (rule le_imp_power_dvd) simp
    then show ?thesis unfolding p1 by (simp add: dvd_mod block_end_def)
  qed
  note stop = stop_condition [OF e e1(3) d1]
  show ?case
  proof (cases "block_end ?e1 ?p = block_end e0 ?p")
    case True
    have "block e0 dvd cursor_pos ?v1"
    proof -
      have "block e0 dvd 2 ^ 32" unfolding block_def by (rule le_imp_power_dvd) simp
      then show ?thesis unfolding p1 True by (simp add: dvd_mod block_end_def)
    qed
    then have "scan_larger t (scan_mask e0) v acc = Some (?v1, acc @ es)"
      using es(1) stop by (subst scan_larger.simps) (simp add: Let_def)
    moreover have "\<forall>x\<in>set (concat (ht_table t)). ?p \<le> entry_pos H cont x \<and> entry_pos H cont x < block_end e0 ?p \<longrightarrow> x \<in> set es"
      using hit unfolding True by blast
    moreover have "cursor_pos ?v1 = block_end e0 ?p mod 2 ^ 32" using p1 unfolding True .
    ultimately show ?thesis using es(3) by blast
  next
    case False
    then have lt: "block_end ?e1 ?p < block_end e0 ?p" using le by simp
    then have p1': "cursor_pos ?v1 = block_end ?e1 ?p" using p1 le by simp
    have nxt: "block_end e0 (cursor_pos ?v1) = block_end e0 ?p" "\<not> block e0 dvd cursor_pos ?v1"
      using block_end_next [OF e(2) lt] unfolding p1' by auto
    have "block_end e0 (cursor_pos ?v1) - cursor_pos ?v1 < block_end e0 ?p - ?p"
      using nxt(1) p1' lt block_end_greater [of ?p ?e1] by simp
    then obtain v' fs where v': "scan_larger t (scan_mask e0) ?v1 (acc @ es) = Some (v', (acc @ es) @ fs)"
        "cursor_pos v' = block_end e0 ?p mod 2 ^ 32"
        "\<forall>x\<in>set (concat (ht_table t)). cursor_pos ?v1 \<le> entry_pos H cont x \<and> entry_pos H cont x < block_end e0 ?p \<longrightarrow> x \<in> set fs"
        "set fs \<subseteq> set (concat (ht_table t))"
      using less.hyps [of ?v1 "acc @ es"] unfolding nxt(1) by blast
    have "scan_larger t (scan_mask e0) v acc = Some (v', acc @ es @ fs)"
      using es(1) stop nxt(2) v'(1) by (subst scan_larger.simps) (simp add: Let_def)
    moreover have "x \<in> set (es @ fs)"
      if "x \<in> set (concat (ht_table t))" "?p \<le> entry_pos H cont x" "entry_pos H cont x < block_end e0 ?p" for x
      using hit [of x] v'(3) that p1' by (cases "entry_pos H cont x < block_end ?e1 ?p") (auto simp: not_less)
    moreover have "set (es @ fs) \<subseteq> set (concat (ht_table t))" using es(3) v'(4) by (simp only: set_append Un_subset_iff)
    ultimately show ?thesis using v'(2) by blast
  qed
qed

lemma scan_bucket_block:
  assumes t: "table_ok T cont H form t" and e: "ht_size_exp t \<noteq> -1"
  shows "\<exists>es. scan_bucket t v = Some es \<and> set es \<subseteq> set (concat (ht_table t)) \<and>
           (\<forall>x\<in>set (concat (ht_table t)). cursor_pos v \<le> entry_pos H cont x \<and> entry_pos H cont x < block_end (ht_size_exp t) (cursor_pos v) \<longrightarrow>
              x \<in> set es)"
  using scan_bucket_ok [OF t e, of v] same_block by blast

text \<open>The cursor moves to the end of the block of the smaller table, and everything in between is handed out.\<close>

lemma dictScan_block:
  assumes d: "dict_ok T cont H form d" and n: "dictSize d \<noteq> 0"
  shows "\<exists>e v' es. dictScan d v = Some (v', es) \<and> 2 \<le> e \<and> e \<le> 29 \<and> cursor_pos v' = block_end e (cursor_pos v) mod 2 ^ 32 \<and>
           set es \<subseteq> dict_entries d \<and> (\<forall>x\<in>dict_entries d. cursor_pos v \<le> entry_pos H cont x \<and> entry_pos H cont x < block_end e (cursor_pos v) \<longrightarrow> x \<in> set es)"
proof -
  have t: "table_ok T cont H form (ht0 d)" "table_ok T cont H form (ht1 d)" using dict_okD [OF d] .
  have e0: "ht_size_exp (ht0 d) \<noteq> -1" using nonempty_exp [OF d n] .
  then have r0: "2 \<le> ht_size_exp (ht0 d)" "ht_size_exp (ht0 d) \<le> 29" using t(1) by (auto simp: table_ok_def)
  show ?thesis
  proof (cases "dictIsRehashing d")
    case False
    then have reset: "ht1 d = dictReset" using d by (auto simp: dict_ok_def dictIsRehashing_def)
    obtain es where es: "scan_bucket (ht0 d) v = Some es" "set es \<subseteq> set (concat (ht_table (ht0 d)))"
        "\<forall>x\<in>set (concat (ht_table (ht0 d))). cursor_pos v \<le> entry_pos H cont x \<and>
           entry_pos H cont x < block_end (ht_size_exp (ht0 d)) (cursor_pos v) \<longrightarrow> x \<in> set es"
      using scan_bucket_block [OF t(1) e0] by blast
    have "cursor_pos (next_cursor (scan_mask (ht_size_exp (ht0 d))) v) = block_end (ht_size_exp (ht0 d)) (cursor_pos v) mod 2 ^ 32"
      using next_cursor_block [OF r0] by (simp add: block_end_def)
    then show ?thesis
      using n False es r0 reset by (auto simp: dictScan_def dict_entries_def)
  next
    case True
    then have e1: "ht_size_exp (ht1 d) \<noteq> -1" using d by (auto simp: dict_ok_def dictIsRehashing_def)
    then have r1: "2 \<le> ht_size_exp (ht1 d)" "ht_size_exp (ht1 d) \<le> 29" using t(2) by (auto simp: table_ok_def)
    define swapped where "swapped \<longleftrightarrow> DICTHT_SIZE (ht_size_exp (ht0 d)) > DICTHT_SIZE (ht_size_exp (ht1 d))"
    define small where "small = (if swapped then ht1 d else ht0 d)"
    define larger where "larger = (if swapped then ht0 d else ht1 d)"
    have sm: "table_ok T cont H form small" "ht_size_exp small \<noteq> -1" "2 \<le> ht_size_exp small" "ht_size_exp small \<le> 29"
        "table_ok T cont H form larger"
      using t e0 e1 r0 r1 by (simp_all add: small_def larger_def)
    have ord: "ht_size_exp small \<le> ht_size_exp larger"
      using r0 r1 by (auto simp: small_def larger_def swapped_def)
    have all: "dict_entries d = set (concat (ht_table small)) \<union> set (concat (ht_table larger))"
      by (auto simp: dict_entries_def small_def larger_def)
    obtain es where es: "scan_bucket small v = Some es" "set es \<subseteq> set (concat (ht_table small))"
        "\<forall>x\<in>set (concat (ht_table small)). cursor_pos v \<le> entry_pos H cont x \<and>
           entry_pos H cont x < block_end (ht_size_exp small) (cursor_pos v) \<longrightarrow> x \<in> set es"
      using scan_bucket_block [OF sm(1,2)] by blast
    obtain v' fs where v': "scan_larger larger (scan_mask (ht_size_exp small)) v es = Some (v', es @ fs)"
        "set fs \<subseteq> set (concat (ht_table larger))"
        "cursor_pos v' = block_end (ht_size_exp small) (cursor_pos v) mod 2 ^ 32"
        "\<forall>x\<in>set (concat (ht_table larger)). cursor_pos v \<le> entry_pos H cont x \<and>
           entry_pos H cont x < block_end (ht_size_exp small) (cursor_pos v) \<longrightarrow> x \<in> set fs"
      using scan_larger_ok [OF sm(5,3) ord] by blast
    have "dictScan d v = Some (v', es @ fs)"
      using n True es(1) v'(1) by (simp add: dictScan_def Let_def swapped_def [symmetric] small_def [symmetric] larger_def [symmetric])
    moreover have "x \<in> set (es @ fs)" if "x \<in> dict_entries d" "cursor_pos v \<le> entry_pos H cont x"
        "entry_pos H cont x < block_end (ht_size_exp small) (cursor_pos v)" for x
      using that es(3) v'(4) unfolding all by auto
    moreover have "set (es @ fs) \<subseteq> dict_entries d" using es(2) v'(2) unfolding all by auto
    ultimately show ?thesis using v'(3) sm(3,4) by blast
  qed
qed

lemma entry_pos_less: "entry_pos H cont x < 2 ^ 32"
  unfolding entry_pos_def hash_pos_def by (rule cursor_pos_less)

lemma dictScan_ok:
  assumes d: "dict_ok T cont H form d"
  shows "\<exists>v' es. dictScan d v = Some (v', es) \<and> (v' = 0 \<or> cursor_pos v < cursor_pos v' \<and> 8 dvd cursor_pos v') \<and>
           set es \<subseteq> dict_entries d \<and> (\<forall>x\<in>dict_entries d. cursor_pos v \<le> entry_pos H cont x \<and> (v' = 0 \<or> entry_pos H cont x < cursor_pos v') \<longrightarrow> x \<in> set es)"
proof (cases "dictSize d = 0")
  case True
  have "dict_entries d = {}" using empty_abs(1) [OF d True] set_dict_items [of d] by simp
  then show ?thesis using True by (simp add: dictScan_def)
next
  case False
  obtain e v' es where s: "dictScan d v = Some (v', es)" "2 \<le> e" "e \<le> 29" "cursor_pos v' = block_end e (cursor_pos v) mod 2 ^ 32"
      "\<forall>x\<in>dict_entries d. cursor_pos v \<le> entry_pos H cont x \<and> entry_pos H cont x < block_end e (cursor_pos v) \<longrightarrow> x \<in> set es"
      "set es \<subseteq> dict_entries d"
    using dictScan_block [OF d False] by blast
  have le: "block_end e (cursor_pos v) \<le> 2 ^ 32" "cursor_pos v < block_end e (cursor_pos v)"
    using block_end_le [OF cursor_pos_less] block_end_greater by auto
  show ?thesis
  proof (cases "block_end e (cursor_pos v) = 2 ^ 32")
    case True
    then have "v' = 0" using s(4) cursor_pos_0 [of v'] by simp
    then show ?thesis using s(1,5,6) True entry_pos_less by fastforce
  next
    case no_wrap: False
    then have p: "cursor_pos v' = block_end e (cursor_pos v)" using s(4) le by simp
    then have "v' \<noteq> 0" using le cursor_pos_0 [of v'] by auto
    moreover have "8 dvd cursor_pos v'"
    proof -
      have "(2::nat) ^ 3 dvd block e" unfolding block_def using s(2,3) by (intro le_imp_power_dvd) simp
      then show ?thesis by (simp add: p block_end_def)
    qed
    ultimately show ?thesis using s(1,5,6) p le(2) by auto
  qed
qed

section \<open>A whole iteration\<close>

text \<open>
  Calls with the cursor of the call before, on the states \<open>ds\<close> that the dictionary has at these calls; whether the cursor
  came back to 0, and what was handed out.
\<close>

fun scan_until :: "('k, 'v) dict list \<Rightarrow> 32 word \<Rightarrow> (bool \<times> ('k, 'v) dict_entry list) option" where
  "scan_until [] v = Some (False, [])"
| "scan_until (d # ds) v =
     (case dictScan d v of
        None \<Rightarrow> None
      | Some (v, es) \<Rightarrow> if v = 0 then Some (True, es) else map_option (\<lambda>(f, fs). (f, es @ fs)) (scan_until ds v))"

definition has_content :: "('k \<Rightarrow> 'c) \<Rightarrow> 'c \<Rightarrow> ('k, 'v) dict_entry set \<Rightarrow> bool" where
  "has_content cont c es \<longleftrightarrow> (\<exists>e\<in>es. cont (dictGetKey e) = c)"

lemma dict_abs_has_content:
  assumes "dict_ok T cont H form d"
  shows "dict_abs cont d c \<noteq> None \<longleftrightarrow> has_content cont c (dict_entries d)"
  unfolding dict_abs_None [OF assms] contents_def has_content_def set_image_mset set_dict_items
  by (auto simp: entry_item_def image_image)

lemma scan_until_ok:
  assumes "\<forall>d\<in>set ds. dict_ok T cont H form d" "8 dvd cursor_pos v"
  shows "\<exists>f es. scan_until ds v = Some (f, es) \<and> (2 ^ 32 \<le> cursor_pos v + 8 * length ds \<longrightarrow> f) \<and>
           set es \<subseteq> (\<Union>d\<in>set ds. dict_entries d) \<and>
           (f \<longrightarrow> (\<forall>c. cursor_pos v \<le> hash_pos (H c) \<longrightarrow> (\<forall>d\<in>set ds. has_content cont c (dict_entries d)) \<longrightarrow>
                    has_content cont c (set es)))"
  using assms
proof (induction ds arbitrary: v)
  case Nil
  then show ?case using cursor_pos_less [of v] by auto
next
  case (Cons d ds)
  have d: "dict_ok T cont H form d" and ds: "\<forall>d\<in>set ds. dict_ok T cont H form d" using Cons.prems by auto
  obtain v' es where s: "dictScan d v = Some (v', es)" "v' = 0 \<or> cursor_pos v < cursor_pos v' \<and> 8 dvd cursor_pos v'"
      "set es \<subseteq> dict_entries d"
      "\<forall>x\<in>dict_entries d. cursor_pos v \<le> entry_pos H cont x \<and> (v' = 0 \<or> entry_pos H cont x < cursor_pos v') \<longrightarrow> x \<in> set es"
    using dictScan_ok [OF d, of v] by blast
  have found: "has_content cont c (set es)"
    if "has_content cont c (dict_entries d)" "cursor_pos v \<le> hash_pos (H c)" "v' = 0 \<or> hash_pos (H c) < cursor_pos v'" for c
    using s(4) that by (auto simp: has_content_def entry_pos_def)
  show ?case
  proof (cases "v' = 0")
    case True
    then show ?thesis using s found by auto
  next
    case False
    then have v': "cursor_pos v < cursor_pos v'" "8 dvd cursor_pos v'" using s(2) by auto
    then have step: "cursor_pos v + 8 \<le> cursor_pos v'" using Cons.prems(2) by (auto elim!: dvdE)
    obtain f fs where f: "scan_until ds v' = Some (f, fs)" "2 ^ 32 \<le> cursor_pos v' + 8 * length ds \<longrightarrow> f"
        "set fs \<subseteq> (\<Union>d\<in>set ds. dict_entries d)"
        "f \<longrightarrow> (\<forall>c. cursor_pos v' \<le> hash_pos (H c) \<longrightarrow> (\<forall>d\<in>set ds. has_content cont c (dict_entries d)) \<longrightarrow> has_content cont c (set fs))"
      using Cons.IH [OF ds v'(2)] by blast
    have "has_content cont c (set (es @ fs))"
      if "f" "cursor_pos v \<le> hash_pos (H c)" "\<forall>d'\<in>set (d # ds). has_content cont c (dict_entries d')" for c
    proof (cases "hash_pos (H c) < cursor_pos v'")
      case True
      then have "has_content cont c (set es)" using found that by simp
      then show ?thesis by (auto simp: has_content_def)
    next
      case ge: False
      then have "has_content cont c (set fs)" using f(4) that by simp
      then show ?thesis by (auto simp: has_content_def)
    qed
    moreover have "set (es @ fs) \<subseteq> (\<Union>d\<in>set (d # ds). dict_entries d)" using s(3) f(3) by auto
    moreover have "scan_until (d # ds) v = Some (f, es @ fs)" using s(1) False f(1) by simp
    moreover have "2 ^ 32 \<le> cursor_pos v + 8 * length (d # ds) \<longrightarrow> f" using f(2) step by auto
    ultimately show ?thesis by blast
  qed
qed

text \<open>
  C33. The guarantee of \<open>dictScan\<close>. Let \<open>ds\<close> be the states of a dictionary at the calls of one iteration; between the
  calls, keys may be added and removed and the tables may be resized and rehashed in any way. Every call returns; the
  iteration ends after at most \<open>2^29\<close> calls; every entry that is handed out is one of the dictionary at some call; and when the
  iteration ends, every key that was in the dictionary at all calls has been handed out.
\<close>

theorem dict_scan_complete:
  assumes "\<forall>d\<in>set ds. dict_ok T cont H form d"
  shows "\<exists>f es. scan_until ds 0 = Some (f, es) \<and> (2 ^ 29 \<le> length ds \<longrightarrow> f) \<and> set es \<subseteq> (\<Union>d\<in>set ds. dict_entries d) \<and>
           (f \<longrightarrow> (\<forall>c. (\<forall>d\<in>set ds. dict_abs cont d c \<noteq> None) \<longrightarrow> (\<exists>e\<in>set es. cont (dictGetKey e) = c)))"
proof -
  have z: "cursor_pos 0 = 0" by (simp add: cursor_pos_def)
  obtain f es where f: "scan_until ds 0 = Some (f, es)" "2 ^ 32 \<le> 8 * length ds \<longrightarrow> f"
      "set es \<subseteq> (\<Union>d\<in>set ds. dict_entries d)"
      "f \<longrightarrow> (\<forall>c. (\<forall>d\<in>set ds. has_content cont c (dict_entries d)) \<longrightarrow> has_content cont c (set es))"
    using scan_until_ok [OF assms, of 0] by (auto simp: z)
  moreover have "dict_abs cont d c \<noteq> None \<longleftrightarrow> has_content cont c (dict_entries d)" if "d \<in> set ds" for d c
    using dict_abs_has_content [of T cont H form d c] assms that by simp
  ultimately show ?thesis by (simp add: has_content_def)
qed

section \<open>An example\<close>

text \<open>A key in a table of four buckets that grows to eight during the iteration.\<close>

definition scan_type :: "(nat, unit) dictType" where
  "scan_type =
     \<lparr>hashFunction = (\<lambda>k. of_nat k), keyDup = None, valDup = None, keyCompare = None, keyDestructor = False,
      valDestructor = False, resizeAllowed = None, no_value = False, keys_are_odd = False, storedHashFunction = None,
      storedKeyCompare = None, key_lsb = (\<lambda>_. False)\<rparr>"

definition scan_table :: "nat \<Rightarrow> (nat, unit) ht" where
  "scan_table n = \<lparr>ht_table = (replicate (2 ^ n) [])[6 mod 2 ^ n := [Entry 6 None]], ht_used = 1, ht_size_exp = int n\<rparr>"

definition scan_dict :: "nat \<Rightarrow> (nat, unit) dict" where
  "scan_dict n =
     \<lparr>ht0 = scan_table n, ht1 = dictReset, rehashidx = -1, pauserehash = 0, useStoredKeyApi = False, pauseAutoResize = 0,
      dict_calls = [Bucket_changed (2 ^ n)]\<rparr>"

definition scan_dict_rehashing :: "(nat, unit) dict" where
  "scan_dict_rehashing =
     \<lparr>ht0 = \<lparr>ht_table = replicate 4 [], ht_used = 0, ht_size_exp = 2\<rparr>, ht1 = scan_table 3, rehashidx = 3, pauserehash = 0,
      useStoredKeyApi = False, pauseAutoResize = 0, dict_calls = [Bucket_changed 12]\<rparr>"

lemma scan_cursors:
  "next_cursor 3 0 = 2" "next_cursor 7 2 = 6" "next_cursor 7 6 = 1" "next_cursor 7 1 = 5" "next_cursor 7 5 = 3"
  "next_cursor 7 3 = 7" "next_cursor 7 7 = 0"
  by code_simp+

lemma scan_tables:
  "ht_table (scan_table 2) = [[], [], [Entry 6 None], []]" "scan_mask (ht_size_exp (scan_table 2)) = 3"
  "ht_table (scan_table 3) = [[], [], [], [], [], [], [Entry 6 None], []]" "scan_mask (ht_size_exp (scan_table 3)) = 7"
  "ht_used (scan_table n) = 1"
  by code_simp+

lemma scan_larger_run: "scan_larger (scan_table 3) 3 2 [] = Some (1, [Entry 6 None])"
  by (simp add: scan_larger.simps [of _ _ 2] scan_larger.simps [of _ _ 6] scan_bucket_def scan_tables scan_cursors Let_def)

lemma scan_run:
  "scan_until [scan_dict 2, scan_dict_rehashing, scan_dict 3, scan_dict 3, scan_dict 3, scan_dict 3] 0 = Some (True, [Entry 6 None])"
proof -
  have "dictScan (scan_dict 2) 0 = Some (2, [])"
    by (simp add: dictScan_def scan_dict_def dictSize_def dictIsRehashing_def scan_bucket_def scan_tables scan_cursors)
  moreover have "dictScan scan_dict_rehashing 2 = Some (1, [Entry 6 None])"
  proof -
    have m: "scan_mask 2 = 3" "ht_used (scan_table 3) = 1" "ht_size_exp (scan_table 3) = 3"
      by (simp_all add: scan_mask_def DICTHT_SIZE_MASK_def scan_table_def)
    then show ?thesis
      using scan_larger_run
      by (simp add: dictScan_def scan_dict_rehashing_def dictSize_def dictIsRehashing_def scan_bucket_def Let_def)
  qed
  moreover have "dictScan (scan_dict 3) 1 = Some (5, [])" "dictScan (scan_dict 3) 5 = Some (3, [])"
      "dictScan (scan_dict 3) 3 = Some (7, [])" "dictScan (scan_dict 3) 7 = Some (0, [])"
    by (simp_all add: dictScan_def scan_dict_def dictSize_def dictIsRehashing_def scan_bucket_def scan_tables scan_cursors)
  ultimately show ?thesis by simp
qed

lemma scan_table_ok:
  assumes "2 \<le> n" "n \<le> 29"
  shows "table_ok scan_type (\<lambda>k. k) (\<lambda>k. of_nat k) (\<lambda>_ _. True) (scan_table n)"
    "ht_items (scan_table n) = {#(6, None)#}"
proof -
  have "ht_index (word_of_nat 6) (int n) = 6 mod 2 ^ n" using assms by (simp add: ht_index_mod)
  then show "table_ok scan_type (\<lambda>k. k) (\<lambda>k. of_nat k) (\<lambda>_ _. True) (scan_table n)"
    using table_ok_update [OF table_ok_new [of "int n"], where i = "6 mod 2 ^ n" and es = "[Entry (6::nat) None]" and n = 1
        and T = scan_type and form = "\<lambda>_ _. True" and cont = "\<lambda>k. k" and H = "\<lambda>k. of_nat k"] assms
    by (simp add: scan_table_def chain_ok_def in_bucket_def scan_type_def)
  have i: "6 mod 2 ^ n < length (replicate (2 ^ n) ([] :: (nat, unit) dict_entry list))" by simp
  show "ht_items (scan_table n) = {#(6, None)#}"
    using mset_concat_update [OF i, of "[Entry 6 None]"]
    by (simp add: scan_table_def ht_items_def items_of_def entry_item_def mset_map)
qed

theorem dict_scan_complete_witness:
  "\<exists>es. scan_until [scan_dict 2, scan_dict_rehashing, scan_dict 3, scan_dict 3, scan_dict 3, scan_dict 3] 0 = Some (True, es) \<and>
     (\<exists>e\<in>set es. dictGetKey e = 6)"
proof -
  let ?ds = "[scan_dict 2, scan_dict_rehashing, scan_dict 3, scan_dict 3, scan_dict 3, scan_dict 3]"
  have d: "dict_ok scan_type (\<lambda>k. k) (\<lambda>k. of_nat k) (\<lambda>_ _. True) (scan_dict n) \<and> dict_items (scan_dict n) = {#(6, None)#}"
    if "2 \<le> n" "n \<le> 29" for n
    using scan_table_ok [OF that]
    by (simp add: dict_ok_def scan_dict_def dict_items_def dictBuckets_def) (simp add: scan_table_def)
  have r: "dict_ok scan_type (\<lambda>k. k) (\<lambda>k. of_nat k) (\<lambda>_ _. True) scan_dict_rehashing \<and> dict_items scan_dict_rehashing = {#(6, None)#}"
    using scan_table_ok [of 3] table_ok_new [of 2 scan_type "\<lambda>k. k" "\<lambda>k. of_nat k" "\<lambda>_ _. True"]
    by (simp add: dict_ok_def scan_dict_rehashing_def dict_items_def dictBuckets_def ht_items_def) (simp add: scan_table_def)
  have ok: "\<forall>d\<in>set ?ds. dict_ok scan_type (\<lambda>k. k) (\<lambda>k. of_nat k) (\<lambda>_ _. True) d" using d [of 2] d [of 3] r by simp
  have "\<forall>d\<in>set ?ds. dict_items d = {#(6, None)#}" using d [of 2] d [of 3] r by simp
  then have "\<forall>d\<in>set ?ds. dict_abs (\<lambda>k. k) d 6 \<noteq> None"
    using dict_abs_iff [OF ok [rule_format], of _ 6 None] by force
  then show ?thesis using dict_scan_complete [OF ok] scan_run by auto
qed

end
