(* ===== verification/Iteration.thy ===== *)
theory Iteration
  imports Main "HOL-Library.Monad_Syntax"
begin

text \<open>
  Loops over iterators. The loop \<open>while ((x = next(i))) body\<close> is \<open>iter_while\<close>; the locale \<open>finite_iterator\<close> is the contract of
  an iterator that has a list of items before it, and its lemma says that the loop is a fold over this list. Bodies may
  fail (\<open>None\<close>).
\<close>

fun fold_opt :: "('x \<Rightarrow> 'a \<Rightarrow> 'a option) \<Rightarrow> 'x list \<Rightarrow> 'a \<Rightarrow> 'a option" where
  "fold_opt body [] a = Some a"
| "fold_opt body (x # xs) a = do { a \<leftarrow> body x a; fold_opt body xs a }"

partial_function (option) iter_while ::
  "('i \<Rightarrow> ('x option \<times> 'i) option) \<Rightarrow> ('x \<Rightarrow> 'a \<Rightarrow> 'a option) \<Rightarrow> 'i \<Rightarrow> 'a \<Rightarrow> ('a \<times> 'i) option" where
  "iter_while nxt body i a =
     do {
       xi \<leftarrow> nxt i;
       (case fst xi of
          None \<Rightarrow> Some (a, snd xi)
        | Some x \<Rightarrow> do { a \<leftarrow> body x a; iter_while nxt body (snd xi) a })
     }"

text \<open>The same with bodies that may leave the loop (\<open>break\<close>), which they say by \<open>True\<close>.\<close>

fun fold_until :: "('x \<Rightarrow> 'a \<Rightarrow> (bool \<times> 'a) option) \<Rightarrow> 'x list \<Rightarrow> 'a \<Rightarrow> 'a option" where
  "fold_until body [] a = Some a"
| "fold_until body (x # xs) a = do { (stop, a) \<leftarrow> body x a; if stop then Some a else fold_until body xs a }"

partial_function (option) iter_until ::
  "('i \<Rightarrow> ('x option \<times> 'i) option) \<Rightarrow> ('x \<Rightarrow> 'a \<Rightarrow> (bool \<times> 'a) option) \<Rightarrow> 'i \<Rightarrow> 'a \<Rightarrow> ('a \<times> 'i) option" where
  "iter_until nxt body i a =
     do {
       xi \<leftarrow> nxt i;
       (case fst xi of
          None \<Rightarrow> Some (a, snd xi)
        | Some x \<Rightarrow> do { sa \<leftarrow> body x a; if fst sa then Some (snd sa, snd xi) else iter_until nxt body (snd xi) (snd sa) })
     }"

lemma fold_opt_append: "fold_opt body (xs @ ys) a = do { a \<leftarrow> fold_opt body xs a; fold_opt body ys a }"
proof (induction xs arbitrary: a)
  case (Cons x xs)
  then show ?case by (cases "body x a") simp_all
qed simp

text \<open>An invariant of the body over the items that are done.\<close>

lemma fold_opt_invariant:
  assumes "I [] a" "\<And>ys y zs a. xs = ys @ y # zs \<Longrightarrow> I ys a \<Longrightarrow> \<exists>a'. body y a = Some a' \<and> I (ys @ [y]) a'"
  shows "\<exists>a'. fold_opt body xs a = Some a' \<and> I xs a'"
  using assms
proof (induction xs rule: rev_induct)
  case (snoc x xs)
  have "\<exists>a'. fold_opt body xs a = Some a' \<and> I xs a'"
  proof (rule snoc.IH [OF snoc.prems(1)])
    fix ys y zs b assume "xs = ys @ y # zs" "I ys b"
    then show "\<exists>a'. body y b = Some a' \<and> I (ys @ [y]) a'" using snoc.prems(2) [of ys y "zs @ [x]" b] by simp
  qed
  then obtain a1 where a1: "fold_opt body xs a = Some a1" "I xs a1" by blast
  with snoc.prems(2) [of xs x "[]" a1] show ?case by (auto simp: fold_opt_append)
qed simp

text \<open>With bodies that may leave the loop: \<open>Q\<close> holds when one did.\<close>

lemma fold_until_invariant:
  assumes "I [] a"
    "\<And>ys y zs a. xs = ys @ y # zs \<Longrightarrow> I ys a \<Longrightarrow> \<exists>stop a'. body y a = Some (stop, a') \<and> (if stop then Q a' else I (ys @ [y]) a')"
  shows "\<exists>a'. fold_until body xs a = Some a' \<and> (I xs a' \<or> Q a')"
proof -
  have "\<exists>a'. fold_until body vs a = Some a' \<and> (I xs a' \<or> Q a')" if "xs = us @ vs" "I us a" for us vs a
    using that
  proof (induction vs arbitrary: us a)
    case (Cons v vs)
    obtain stop a1 where "body v a = Some (stop, a1)" "if stop then Q a1 else I (us @ [v]) a1" using assms(2) [OF Cons.prems] by blast
    with Cons.IH [of "us @ [v]" a1] Cons.prems(1) show ?case by (cases stop) auto
  qed simp
  from this [of "[]" xs a] assms(1) show ?thesis by simp
qed

text \<open>\<open>before i xs\<close>: the iterator \<open>i\<close> has the items \<open>xs\<close> before it.\<close>

locale finite_iterator =
  fixes nxt :: "'i \<Rightarrow> ('x option \<times> 'i) option"
    and before :: "'i \<Rightarrow> 'x list \<Rightarrow> bool"
  assumes nxt_end: "before i [] \<Longrightarrow> \<exists>i'. nxt i = Some (None, i') \<and> before i' []"
    and nxt_more: "before i (x # xs) \<Longrightarrow> \<exists>i'. nxt i = Some (Some x, i') \<and> before i' xs"
begin

lemma iter_while_fold:
  assumes "before i xs" "fold_opt body xs a = Some a'"
  shows "\<exists>i'. iter_while nxt body i a = Some (a', i') \<and> before i' []"
  using assms
proof (induction xs arbitrary: i a)
  case Nil
  then obtain i' where "nxt i = Some (None, i')" "before i' []" using nxt_end [of i] by auto
  with Nil show ?case by (subst iter_while.simps) simp
next
  case (Cons x xs)
  obtain i' where i': "nxt i = Some (Some x, i')" "before i' xs" using nxt_more [OF Cons.prems(1)] by blast
  obtain a1 where a1: "body x a = Some a1" "fold_opt body xs a1 = Some a'"
    using Cons.prems(2) by (auto simp: bind_eq_Some_conv)
  with Cons.IH [OF i'(2) a1(2)] i'(1) show ?case by (subst iter_while.simps) simp
qed

lemma iter_until_fold:
  assumes "before i xs" "fold_until body xs a = Some a'"
  shows "\<exists>i' ys. iter_until nxt body i a = Some (a', i') \<and> before i' ys"
  using assms
proof (induction xs arbitrary: i a)
  case Nil
  then obtain i' where "nxt i = Some (None, i')" "before i' []" using nxt_end [of i] by auto
  with Nil show ?case by (subst iter_until.simps) auto
next
  case (Cons x xs)
  obtain i' where i': "nxt i = Some (Some x, i')" "before i' xs" using nxt_more [OF Cons.prems(1)] by blast
  obtain stop a1 where a1: "body x a = Some (stop, a1)" "(if stop then Some a1 else fold_until body xs a1) = Some a'"
    using Cons.prems(2) by (auto simp: bind_eq_Some_conv)
  with Cons.IH [OF i'(2), of a1] i' show ?case by (subst iter_until.simps) (cases stop, auto)
qed

text \<open>The same iterator with a function applied to each item.\<close>

lemma mapped_iterator:
  "finite_iterator (\<lambda>i. map_option (\<lambda>(x, i). (map_option f x, i)) (nxt i)) (\<lambda>i ys. \<exists>xs. before i xs \<and> ys = map f xs)"
proof
  fix i y ys
  show "\<exists>i'. map_option (\<lambda>(x, i). (map_option f x, i)) (nxt i) = Some (None, i') \<and> (\<exists>xs. before i' xs \<and> [] = map f xs)"
    if "\<exists>xs. before i xs \<and> [] = map f xs"
    using that nxt_end [of i] by auto
  show "\<exists>i'. map_option (\<lambda>(x, i). (map_option f x, i)) (nxt i) = Some (Some y, i') \<and> (\<exists>xs. before i' xs \<and> ys = map f xs)"
    if asm: "\<exists>xs. before i xs \<and> y # ys = map f xs"
  proof -
    obtain x xs where "before i (x # xs)" "y = f x" "ys = map f xs" using asm by (auto simp: Cons_eq_map_conv)
    then show ?thesis using nxt_more [of i x xs] by auto
  qed
qed

end

end
