(* ===== verification/Redis_Dict_Iter.thy ===== *)
theory Redis_Dict_Iter
  imports Redis_Dict_Ops Iteration
begin

text \<open>
  The iterators of the hash tables of \<open>src/dict.c\<close>. A pointer to an entry is the rest of its chain from the entry on, and
  \<open>NULL\<close> is the empty list; this is right as long as the chain is not changed, as the rules for iterators that are not safe demand.
  \<open>table_addr\<close> gives the addresses of the two tables, which enter the fingerprint.
\<close>

unbundle bit_operations_syntax

record ('k, 'v) dictIterator =
  it_index :: int
  it_table :: bool
  it_safe :: bool
  it_entry :: "('k, 'v) dict_entry list"
  it_nextEntry :: "('k, 'v) dict_entry list"
  it_fingerprint :: "64 word"

section \<open>Fingerprints\<close>

text \<open>The integers are sign-extended from \<open>long\<close> and \<open>signed char\<close>.\<close>

definition fingerprint_mix :: "64 word \<Rightarrow> 64 word \<Rightarrow> 64 word" where
  "fingerprint_mix n hash =
     (let hash = hash + n;
          hash = NOT hash + push_bit 21 hash;
          hash = hash XOR drop_bit 24 hash;
          hash = (hash + push_bit 3 hash) + push_bit 8 hash;
          hash = hash XOR drop_bit 14 hash;
          hash = (hash + push_bit 2 hash) + push_bit 4 hash;
          hash = hash XOR drop_bit 28 hash
      in hash + push_bit 31 hash)"

definition dictFingerprint :: "(bool \<Rightarrow> 32 word) \<Rightarrow> ('k, 'v) dict \<Rightarrow> 64 word" where
  "dictFingerprint table_addr d =
     fold fingerprint_mix
       [scast (table_addr False), word_of_int (ht_size_exp (ht0 d)), of_nat (ht_used (ht0 d)),
        scast (table_addr True), word_of_int (ht_size_exp (ht1 d)), of_nat (ht_used (ht1 d))] 0"

section \<open>Iterators\<close>

definition dictInitIterator :: "('k, 'v) dictIterator" where
  "dictInitIterator =
     \<lparr>it_index = -1, it_table = False, it_safe = False, it_entry = [], it_nextEntry = [], it_fingerprint = 0\<rparr>"

definition dictInitSafeIterator :: "('k, 'v) dictIterator" where
  "dictInitSafeIterator = dictInitIterator\<lparr>it_safe := True\<rparr>"

definition dictGetIterator :: "('k, 'v) dictIterator" where
  "dictGetIterator = dictInitIterator"

definition dictGetSafeIterator :: "('k, 'v) dictIterator" where
  "dictGetSafeIterator = dictGetIterator\<lparr>it_safe := True\<rparr>"

definition dictResetIterator :: "(bool \<Rightarrow> 32 word) \<Rightarrow> ('k, 'v) dict \<Rightarrow> ('k, 'v) dictIterator \<Rightarrow> ('k, 'v) dict option" where
  "dictResetIterator table_addr d iter =
     (if \<not> (it_index iter = -1 \<and> \<not> it_table iter) then
        (if it_safe iter then Some (d\<lparr>pauserehash := pauserehash d - 1\<rparr>)
         else if it_fingerprint iter = dictFingerprint table_addr d then Some d else None)
      else Some d)"

definition dictReleaseIterator :: "(bool \<Rightarrow> 32 word) \<Rightarrow> ('k, 'v) dict \<Rightarrow> ('k, 'v) dictIterator \<Rightarrow> ('k, 'v) dict option" where
  "dictReleaseIterator table_addr d iter = dictResetIterator table_addr d iter"

text \<open>The start of the iteration, with the first call of \<open>dictNext\<close>.\<close>

definition iter_start ::
  "(bool \<Rightarrow> 32 word) \<Rightarrow> ('k, 'v) dict \<Rightarrow> ('k, 'v) dictIterator \<Rightarrow> ('k, 'v) dictIterator \<times> ('k, 'v) dict" where
  "iter_start table_addr d iter =
     (if it_index iter = -1 \<and> \<not> it_table iter then
        (let iter' = (if it_safe iter then iter else iter\<lparr>it_fingerprint := dictFingerprint table_addr d\<rparr>);
             d' = (if it_safe iter then d\<lparr>pauserehash := pauserehash d + 1\<rparr> else d)
         in (if dictIsRehashing d' then iter'\<lparr>it_index := rehashidx d' - 1\<rparr> else iter', d'))
      else (iter, d))"

text \<open>The next bucket, at the end of the first table the first one of the second table; \<open>Some None\<close> is the end.\<close>

definition iter_bucket :: "('k, 'v) dict \<Rightarrow> ('k, 'v) dictIterator \<Rightarrow> ('k, 'v) dictIterator option option" where
  "iter_bucket d iter =
     (let iter = iter\<lparr>it_index := it_index iter + 1\<rparr>;
          past = (it_index iter \<ge> int (DICTHT_SIZE (ht_size_exp (ht_of (it_table iter) d))))
      in
      if past \<and> \<not> (dictIsRehashing d \<and> \<not> it_table iter) then Some None
      else
        (let iter = (if past then iter\<lparr>it_table := True, it_index := 0\<rparr> else iter);
             table = ht_table (ht_of (it_table iter) d)
         in
         if it_index iter < 0 \<or> int (length table) \<le> it_index iter then None
         else Some (Some (iter\<lparr>it_entry := table ! nat (it_index iter)\<rparr>))))"

text \<open>At the end, \<open>index\<close> stays behind the last bucket.\<close>

partial_function (option) dictNext ::
  "(bool \<Rightarrow> 32 word) \<Rightarrow> ('k, 'v) dict \<Rightarrow> ('k, 'v) dictIterator \<Rightarrow>
     (('k, 'v) dict_entry option \<times> ('k, 'v) dictIterator \<times> ('k, 'v) dict) option" where
  "dictNext table_addr d iter =
     (let (iter', d') = (if it_entry iter = [] then iter_start table_addr d iter else (iter, d)) in
      do {
        r \<leftarrow> (if it_entry iter = [] then iter_bucket d' iter' else Some (Some (iter'\<lparr>it_entry := it_nextEntry iter'\<rparr>)));
        (case r of
           None \<Rightarrow> Some (None, iter'\<lparr>it_index := it_index iter' + 1\<rparr>, d')
         | Some iter' \<Rightarrow>
             (case it_entry iter' of
                e # nextEntry \<Rightarrow> Some (Some e, iter'\<lparr>it_nextEntry := nextEntry\<rparr>, d')
              | [] \<Rightarrow> dictNext table_addr d' iter'))
      })"


section \<open>What an iterator has before it\<close>

text \<open>The index of the next bucket, and the entries from there on.\<close>

definition iter_pos :: "('k, 'v) dict \<Rightarrow> ('k, 'v) dictIterator \<Rightarrow> nat" where
  "iter_pos d iter =
     (if it_index iter = -1 \<and> \<not> it_table iter then (if dictIsRehashing d then nat (rehashidx d) else 0)
      else nat (it_index iter + 1))"

definition iter_rest :: "('k, 'v) dict \<Rightarrow> ('k, 'v) dictIterator \<Rightarrow> ('k, 'v) dict_entry list list" where
  "iter_rest d iter =
     drop (iter_pos d iter) (ht_table (ht_of (it_table iter) d))
     @ (if dictIsRehashing d \<and> \<not> it_table iter then ht_table (ht1 d) else [])"

definition iter_remaining :: "('k, 'v) dict \<Rightarrow> ('k, 'v) dictIterator \<Rightarrow> ('k, 'v) dict_entry list" where
  "iter_remaining d iter = tl (it_entry iter) @ concat (iter_rest d iter)"

text \<open>
  An iterator that is not safe, over a dictionary whose tables have the sizes they announce. It has a fingerprint when it
  has started.
\<close>

definition iter_ok :: "(bool \<Rightarrow> 32 word) \<Rightarrow> ('k, 'v) dict \<Rightarrow> ('k, 'v) dictIterator \<Rightarrow> bool" where
  "iter_ok table_addr d iter \<longleftrightarrow>
     \<not> it_safe iter \<and> -1 \<le> it_index iter \<and> (it_table iter \<longrightarrow> 0 \<le> it_index iter \<and> dictIsRehashing d)
     \<and> (it_entry iter \<noteq> [] \<longrightarrow> it_nextEntry iter = tl (it_entry iter))
     \<and> (it_index iter = -1 \<longrightarrow> it_entry iter = [])
     \<and> (it_index iter \<noteq> -1 \<longrightarrow> it_fingerprint iter = dictFingerprint table_addr d)
     \<and> (\<forall>second. DICTHT_SIZE (ht_size_exp (ht_of second d)) = length (ht_table (ht_of second d)))
     \<and> (dictIsRehashing d \<longrightarrow> 0 \<le> rehashidx d \<and> ht_table (ht1 d) \<noteq> [])"

lemma iter_start_simps:
  assumes "iter_ok table_addr d iter" "it_entry iter = []" "i = fst (iter_start table_addr d iter)"
  shows "iter_start table_addr d iter = (i, d)" "it_table i = it_table iter" "it_index i + 1 = int (iter_pos d iter)"
    "\<not> it_safe i" "it_entry i = []" "it_fingerprint i = dictFingerprint table_addr d"
  using assms by (auto simp: iter_ok_def iter_start_def iter_pos_def Let_def)

text \<open>The next bucket is the first of the rest.\<close>

lemma iter_bucket_next:
  assumes ok: "iter_ok table_addr d iter" and entry: "it_entry iter = []"
    and start: "iter' = fst (iter_start table_addr d iter)"
  shows "iter_rest d iter = [] \<Longrightarrow> iter_bucket d iter' = Some None"
    and "iter_rest d iter = b # bs \<Longrightarrow> \<exists>iter''. iter_bucket d iter' = Some (Some iter'') \<and> it_entry iter'' = b \<and>
      iter_rest d iter'' = bs \<and> iter_ok table_addr d (iter''\<lparr>it_nextEntry := tl b\<rparr>)"
proof -
  note i = iter_start_simps [OF ok entry start]
  have size: "DICTHT_SIZE (ht_size_exp (ht_of second d)) = length (ht_table (ht_of second d))" for second
    using ok by (simp add: iter_ok_def)
  let ?t = "ht_table (ht_of (it_table iter) d)"
  show "iter_bucket d iter' = Some None" if "iter_rest d iter = []"
  proof -
    have "length ?t \<le> iter_pos d iter" "\<not> (dictIsRehashing d \<and> \<not> it_table iter)"
      using that ok by (auto simp: iter_rest_def iter_ok_def split: if_splits)
    then show ?thesis using i(2,3) size by (simp add: iter_bucket_def Let_def)
  qed
  show "\<exists>iter''. iter_bucket d iter' = Some (Some iter'') \<and> it_entry iter'' = b \<and> iter_rest d iter'' = bs
      \<and> iter_ok table_addr d (iter''\<lparr>it_nextEntry := tl b\<rparr>)" if rest: "iter_rest d iter = b # bs"
  proof (cases "iter_pos d iter < length ?t")
    case True
    then have "drop (iter_pos d iter) ?t = ?t ! iter_pos d iter # drop (Suc (iter_pos d iter)) ?t" by (simp add: Cons_nth_drop_Suc)
    then have b: "b = ?t ! iter_pos d iter"
      "bs = drop (Suc (iter_pos d iter)) ?t @ (if dictIsRehashing d \<and> \<not> it_table iter then ht_table (ht1 d) else [])"
      using rest by (auto simp: iter_rest_def)
    show ?thesis
      using True i size b ok
      by (auto simp: iter_bucket_def Let_def iter_rest_def iter_pos_def iter_ok_def nat_add_distrib)
  next
    case False
    then have tab: "dictIsRehashing d" "\<not> it_table iter" "ht_table (ht1 d) = b # bs"
      using rest by (auto simp: iter_rest_def split: if_splits)
    show ?thesis
      using False i size tab ok by (auto simp: iter_bucket_def Let_def iter_rest_def iter_pos_def iter_ok_def ht_of_def)
  qed
qed


definition head_option :: "'a list \<Rightarrow> 'a option" where
  "head_option xs = (case xs of [] \<Rightarrow> None | x # _ \<Rightarrow> Some x)"

lemma head_option_simps [simp]: "head_option [] = None" "head_option (x # xs) = Some x"
  by (simp_all add: head_option_def)

lemma iter_next_entry [simp]:
  "iter_rest d (iter\<lparr>it_nextEntry := es\<rparr>) = iter_rest d iter" "iter_rest d (iter\<lparr>it_entry := es\<rparr>) = iter_rest d iter"
  by (simp_all add: iter_rest_def iter_pos_def)

lemma iter_ok_empty: "iter_ok table_addr d (iter\<lparr>it_nextEntry := es\<rparr>) \<Longrightarrow> it_entry iter = [] \<Longrightarrow> iter_ok table_addr d iter"
  by (simp add: iter_ok_def)

lemma dictNext_bucket:
  assumes "iter_ok table_addr d iter" "it_entry iter = []"
  shows "\<exists>iter'. dictNext table_addr d iter = Some (head_option (iter_remaining d iter), iter', d)
    \<and> iter_ok table_addr d iter' \<and> iter_remaining d iter' = tl (iter_remaining d iter)"
  using assms
proof (induction "iter_rest d iter" arbitrary: iter)
  case Nil
  define i where "i = fst (iter_start table_addr d iter)"
  note i = iter_start_simps [OF Nil.prems i_def]
  have "iter_bucket d i = Some None" using iter_bucket_next(1) [OF Nil.prems i_def] Nil.hyps by simp
  then have "dictNext table_addr d iter = Some (None, i\<lparr>it_index := it_index i + 1\<rparr>, d)"
    using Nil.prems(2) i(1) by (subst dictNext.simps) simp
  moreover have "iter_ok table_addr d (i\<lparr>it_index := it_index i + 1\<rparr>)"
    using Nil.prems i by (auto simp: iter_ok_def)
  moreover have "iter_rest d (i\<lparr>it_index := it_index i + 1\<rparr>) = []"
    using Nil.hyps i by (auto simp: iter_rest_def iter_pos_def nat_add_distrib)
  ultimately show ?case using Nil i by (simp add: iter_remaining_def)
next
  case (Cons b bs)
  define i where "i = fst (iter_start table_addr d iter)"
  note i = iter_start_simps [OF Cons.prems i_def]
  obtain iter' where iter': "iter_bucket d i = Some (Some iter')" "it_entry iter' = b" "iter_rest d iter' = bs"
      "iter_ok table_addr d (iter'\<lparr>it_nextEntry := tl b\<rparr>)"
    using iter_bucket_next(2) [OF Cons.prems i_def] Cons.hyps(2) by metis
  have rem: "iter_remaining d iter = b @ concat bs" using Cons.prems(2) by (simp add: iter_remaining_def flip: Cons.hyps(2))
  show ?case
  proof (cases b)
    case Nil
    then have "dictNext table_addr d iter = dictNext table_addr d iter'"
      using Cons.prems(2) i(1) iter' by (subst dictNext.simps) simp
    moreover have "iter_ok table_addr d iter'" using iter_ok_empty [OF iter'(4)] iter'(2) Nil by simp
    moreover have "iter_remaining d iter' = iter_remaining d iter" using rem Nil iter'(2,3) by (simp add: iter_remaining_def)
    ultimately show ?thesis using Cons.hyps(1) [of iter'] iter'(2,3) Nil by simp
  next
    case (Cons e es)
    then have "dictNext table_addr d iter = Some (Some e, iter'\<lparr>it_nextEntry := es\<rparr>, d)"
      using \<open>it_entry iter = []\<close> i(1) iter' by (subst dictNext.simps) simp
    with iter' rem Cons show ?thesis by (simp add: iter_remaining_def)
  qed
qed

lemma dictNext_ok:
  assumes "iter_ok table_addr d iter"
  shows "\<exists>iter'. dictNext table_addr d iter = Some (head_option (iter_remaining d iter), iter', d)
    \<and> iter_ok table_addr d iter' \<and> iter_remaining d iter' = tl (iter_remaining d iter)"
proof (cases "it_entry iter")
  case Nil
  then show ?thesis using dictNext_bucket [OF assms] by simp
next
  case entry: (Cons e es)
  have ok: "iter_ok table_addr d (iter\<lparr>it_entry := es, it_nextEntry := tl es\<rparr>)" "it_nextEntry iter = es"
    using assms entry by (auto simp: iter_ok_def)
  show ?thesis
  proof (cases es)
    case Nil
    then have "dictNext table_addr d iter = dictNext table_addr d (iter\<lparr>it_entry := []\<rparr>)"
      using entry ok(2) by (subst dictNext.simps) simp
    moreover have "iter_ok table_addr d (iter\<lparr>it_entry := []\<rparr>)" using ok(1) Nil by (simp add: iter_ok_def)
    ultimately show ?thesis using dictNext_bucket [of table_addr d "iter\<lparr>it_entry := []\<rparr>"] entry Nil by (simp add: iter_remaining_def)
  next
    case (Cons f fs)
    then have "dictNext table_addr d iter = Some (Some f, iter\<lparr>it_entry := es, it_nextEntry := fs\<rparr>, d)"
      using entry ok(2) by (subst dictNext.simps) simp
    then show ?thesis using entry ok(1) Cons by (simp add: iter_remaining_def)
  qed
qed

text \<open>The iteration as a sequence of entries.\<close>

definition dict_iter_next ::
  "(bool \<Rightarrow> 32 word) \<Rightarrow> ('k, 'v) dict \<Rightarrow> ('k, 'v) dictIterator \<Rightarrow> (('k, 'v) dict_entry option \<times> ('k, 'v) dictIterator) option" where
  "dict_iter_next table_addr d iter = map_option (\<lambda>(e, iter, d). (e, iter)) (dictNext table_addr d iter)"

definition dict_iter_before :: "(bool \<Rightarrow> 32 word) \<Rightarrow> ('k, 'v) dict \<Rightarrow> ('k, 'v) dictIterator \<Rightarrow> ('k, 'v) dict_entry list \<Rightarrow> bool" where
  "dict_iter_before table_addr d iter es \<longleftrightarrow> iter_ok table_addr d iter \<and> iter_remaining d iter = es"

interpretation dict_iter: finite_iterator "dict_iter_next table_addr d" "dict_iter_before table_addr d" for table_addr d
proof
  fix i :: "('a, 'b) dictIterator" and x xs
  show "\<exists>i'. dict_iter_next table_addr d i = Some (None, i') \<and> dict_iter_before table_addr d i' []"
    if "dict_iter_before table_addr d i []"
    using that dictNext_ok [of table_addr d i] by (auto simp: dict_iter_next_def dict_iter_before_def)
  show "\<exists>i'. dict_iter_next table_addr d i = Some (Some x, i') \<and> dict_iter_before table_addr d i' xs"
    if "dict_iter_before table_addr d i (x # xs)"
    using that dictNext_ok [of table_addr d i] by (auto simp: dict_iter_next_def dict_iter_before_def)
qed

lemma dictReleaseIterator_ok: "iter_ok table_addr d iter \<Longrightarrow> dictReleaseIterator table_addr d iter = Some d"
  by (auto simp: dictReleaseIterator_def dictResetIterator_def iter_ok_def)

text \<open>A new iterator has all entries before it.\<close>

lemma concat_drop_empty: "\<forall>i<n. xs ! i = [] \<Longrightarrow> n \<le> length xs \<Longrightarrow> concat (drop n xs) = concat xs"
proof -
  assume "\<forall>i<n. xs ! i = []" "n \<le> length xs"
  then have "concat (take n xs) = []" by (auto simp: in_set_conv_nth)
  moreover have "concat xs = concat (take n xs) @ concat (drop n xs)" by (simp flip: concat_append)
  ultimately show ?thesis by simp
qed

lemma dictGetIterator_ok:
  assumes "dict_ok T cont H form d"
  shows "iter_ok table_addr d dictGetIterator" "mset (map entry_item (iter_remaining d dictGetIterator)) = dict_items d"
    "length (iter_remaining d dictGetIterator) = dictSize d"
proof -
  have size: "DICTHT_SIZE (ht_size_exp (ht_of second d)) = length (ht_table (ht_of second d))" for second
    using assms by (cases second) (auto simp: dict_ok_def table_ok_def ht_of_def DICTHT_SIZE_def)
  show "iter_ok table_addr d dictGetIterator"
    using assms size by (auto simp: iter_ok_def dictGetIterator_def dictInitIterator_def dictIsRehashing_def dict_ok_def table_ok_def
        split: if_splits)
  have rest: "concat (iter_rest d dictGetIterator) = concat (ht_table (ht0 d)) @ concat (ht_table (ht1 d))"
  proof (cases "dictIsRehashing d")
    case True
    then have "concat (drop (nat (rehashidx d)) (ht_table (ht0 d))) = concat (ht_table (ht0 d))"
      using assms by (intro concat_drop_empty) (auto simp: dict_ok_def dictIsRehashing_def)
    then show ?thesis using True
      by (simp add: iter_rest_def iter_pos_def dictGetIterator_def dictInitIterator_def ht_of_def)
  next
    case False
    then have "ht_table (ht1 d) = []" using assms by (auto simp: dict_ok_def dictIsRehashing_def dictReset_def)
    then show ?thesis using False
      by (simp add: iter_rest_def iter_pos_def dictGetIterator_def dictInitIterator_def ht_of_def)
  qed
  then show "mset (map entry_item (iter_remaining d dictGetIterator)) = dict_items d"
    by (simp add: iter_remaining_def dictGetIterator_def dictInitIterator_def dict_items_def ht_items_def items_of_def)
  show "length (iter_remaining d dictGetIterator) = dictSize d"
    using rest assms by (simp add: iter_remaining_def dictGetIterator_def dictInitIterator_def dictSize_def dict_ok_def table_ok_def)
qed

end
