(* ===== verification/Redis_Set.thy ===== *)
theory Redis_Set
  imports Redis_Intset Redis_Listpack Redis_Dict_Types Redis_Dict_Iter
begin

text \<open>
  The set objects of \<open>src/t_set.c\<close>: sets of strings that are kept as an intset, a listpack or a hash table, and are converted
  when they outgrow an encoding.

  An object of type \<open>OBJ_SET\<close> is its encoding with what \<open>ptr\<close> points to. The settings of the server and what the
  surroundings give are in a record: \<open>junk\<close> are the bytes of fresh memory, \<open>table_addr\<close> the addresses of the tables of a
  dictionary. A failing assertion, an access outside a block and a \<open>NULL\<close> that the code would use are \<open>None\<close>. Releasing memory is left out.
\<close>

record set_env =
  set_max_intset_entries :: nat
  set_max_listpack_entries :: nat
  set_max_listpack_value :: nat
  hash_seed :: "byte list"
  can_resize :: dict_resize
  junk :: "nat \<Rightarrow> byte"
  table_addr :: "bool \<Rightarrow> 32 word"

type_synonym set_dict = "(byte list, unit) dict"

datatype set_encoding = OBJ_ENCODING_HT | OBJ_ENCODING_INTSET | OBJ_ENCODING_LISTPACK

datatype setobj = Set_ht set_dict | Set_intset intset | Set_listpack listpack

fun set_encoding_of :: "setobj \<Rightarrow> set_encoding" where
  "set_encoding_of (Set_ht d) = OBJ_ENCODING_HT"
| "set_encoding_of (Set_intset is) = OBJ_ENCODING_INTSET"
| "set_encoding_of (Set_listpack lp) = OBJ_ENCODING_LISTPACK"

text \<open>An element is given and returned as a string, or as an integer when \<open>str\<close> is \<open>NULL\<close>.\<close>

datatype set_elem = El_str "byte list" | El_int int

definition set_type :: "set_env \<Rightarrow> (byte list, unit) dictType" where
  "set_type env = setDictType (hash_seed env)"

definition sdsfromlonglong :: "set_env \<Rightarrow> int \<Rightarrow> byte list" where
  "sdsfromlonglong env v = (case ll2string (map (junk env) [0..<LONG_STR_SIZE]) v of (len, buf) \<Rightarrow> take len buf)"

section \<open>Creation\<close>

definition isSdsRepresentableAsLongLong :: "byte list \<Rightarrow> bool" where
  "isSdsRepresentableAsLongLong s \<longleftrightarrow> string2ll s \<noteq> None"

definition createSetObject :: setobj where
  "createSetObject = Set_ht dictCreate"

definition createIntsetObject :: setobj where
  "createIntsetObject = Set_intset intsetNew"

definition createSetListpackObject :: "set_env \<Rightarrow> setobj" where
  "createSetListpackObject env = Set_listpack (lpNew (junk env) 0)"

definition setTypeCreate :: "set_env \<Rightarrow> byte list \<Rightarrow> nat \<Rightarrow> setobj option" where
  "setTypeCreate env val size_hint =
     (if isSdsRepresentableAsLongLong val \<and> size_hint \<le> set_max_intset_entries env then Some createIntsetObject
      else if size_hint \<le> set_max_listpack_entries env then Some (createSetListpackObject env)
      else map_option (\<lambda>(r, d). Set_ht d) (dictExpand dictCreate size_hint))"

section \<open>Iteration\<close>

datatype setTypeIterator = Si_ht "(byte list, unit) dictIterator" | Si_intset nat | Si_listpack ptr

fun setTypeInitIterator :: "setobj \<Rightarrow> setTypeIterator" where
  "setTypeInitIterator (Set_ht d) = Si_ht dictGetIterator"
| "setTypeInitIterator (Set_intset is) = Si_intset 0"
| "setTypeInitIterator (Set_listpack lp) = Si_listpack None"

fun setTypeReleaseIterator :: "set_env \<Rightarrow> setobj \<Rightarrow> setTypeIterator \<Rightarrow> unit option" where
  "setTypeReleaseIterator env (Set_ht d) (Si_ht di) = map_option (\<lambda>d. ()) (dictReleaseIterator (table_addr env) d di)"
| "setTypeReleaseIterator env s si = Some ()"

text \<open>\<open>lpGetValue\<close>, with the bytes of the string it points to.\<close>

definition lpGetValue :: "listpack \<Rightarrow> nat \<Rightarrow> set_elem option" where
  "lpGetValue lp p =
     do {
       v \<leftarrow> lpGet lp p;
       (case v of Lp_str q n \<Rightarrow> map_option El_str (lp_read lp q n) | Lp_int n \<Rightarrow> Some (El_int n))
     }"

text \<open>The result \<open>None\<close> of \<open>setTypeNext\<close> is the return value -1; the iterator is not one that is safe and changes no dictionary.\<close>

fun setTypeNext :: "set_env \<Rightarrow> setobj \<Rightarrow> setTypeIterator \<Rightarrow> (set_elem option \<times> setTypeIterator) option" where
  "setTypeNext env (Set_ht d) (Si_ht di) =
     map_option (\<lambda>(de, di). (map_option (El_str \<circ> dictGetKey) de, Si_ht di)) (dict_iter_next (table_addr env) d di)"
| "setTypeNext env (Set_intset is) (Si_intset ii) = Some (map_option El_int (intsetGet is ii), Si_intset (ii + 1))"
| "setTypeNext env (Set_listpack lp) (Si_listpack lpi) =
     do {
       p \<leftarrow> (case lpi of None \<Rightarrow> lpFirst lp | Some lpi \<Rightarrow> lpNext lp lpi);
       (case p of
          None \<Rightarrow> Some (None, Si_listpack lpi)
        | Some q \<Rightarrow> map_option (\<lambda>e. (Some e, Si_listpack p)) (lpGetValue lp q))
     }"
| "setTypeNext env _ _ = None"

fun elem_string :: "set_env \<Rightarrow> set_elem \<Rightarrow> byte list" where
  "elem_string env (El_str s) = s"
| "elem_string env (El_int v) = sdsfromlonglong env v"

definition setTypeNextObject :: "set_env \<Rightarrow> setobj \<Rightarrow> setTypeIterator \<Rightarrow> (byte list option \<times> setTypeIterator) option" where
  "setTypeNextObject env s si = map_option (\<lambda>(e, si). (map_option (elem_string env) e, si)) (setTypeNext env s si)"

text \<open>A loop over the elements with a new iterator, which is released behind the loop.\<close>

definition set_foreach ::
  "set_env \<Rightarrow> (setTypeIterator \<Rightarrow> ('x option \<times> setTypeIterator) option) \<Rightarrow> setobj \<Rightarrow> ('x \<Rightarrow> 'a \<Rightarrow> 'a option) \<Rightarrow> 'a \<Rightarrow> 'a option" where
  "set_foreach env nxt s body a =
     do {
       (a, si) \<leftarrow> iter_while nxt body (setTypeInitIterator s) a;
       setTypeReleaseIterator env s si;
       Some a
     }"

section \<open>Size and conversion\<close>

text \<open>\<open>lpLength\<close> may correct the header of a listpack.\<close>

fun setTypeSize :: "setobj \<Rightarrow> (nat \<times> setobj) option" where
  "setTypeSize (Set_ht d) = Some (dictSize d, Set_ht d)"
| "setTypeSize (Set_intset is) = Some (intsetLen is, Set_intset is)"
| "setTypeSize (Set_listpack lp) = map_option (\<lambda>(n, lp). (n, Set_listpack lp)) (lpLength lp)"

text \<open>The listpack that an append returns; \<open>NULL\<close> is not handled by the callers.\<close>

definition lp_not_null :: "listpack option option \<Rightarrow> listpack option" where
  "lp_not_null r = Option.bind r (\<lambda>lp. lp)"

definition add_new :: "set_env \<Rightarrow> byte list \<Rightarrow> set_dict \<Rightarrow> set_dict option" where
  "add_new env element d =
     do {
       (r, d) \<leftarrow> dictAdd (can_resize env) (set_type env) d element ();
       assert_that (r = DICT_OK);
       Some d
     }"

definition append_elem :: "set_env \<Rightarrow> set_elem \<Rightarrow> listpack \<Rightarrow> listpack option" where
  "append_elem env e lp =
     lp_not_null (case e of El_str s \<Rightarrow> lpAppend (junk env) lp s | El_int n \<Rightarrow> lpAppendInteger (junk env) lp n)"

text \<open>
  \<open>setTypeConvertAndExpand\<close>; \<open>alloc\<close> tells whether \<open>dictTryExpand\<close> gets its memory. The result is whether it returns
  \<open>C_OK\<close>, and the object.
\<close>

definition setTypeConvertAndExpand ::
  "set_env \<Rightarrow> bool \<Rightarrow> setobj \<Rightarrow> set_encoding \<Rightarrow> nat \<Rightarrow> bool \<Rightarrow> (bool \<times> setobj) option" where
  "setTypeConvertAndExpand env alloc s enc cap panic =
     do {
       assert_that (set_encoding_of s \<noteq> enc);
       (case enc of
          OBJ_ENCODING_HT \<Rightarrow>
            do {
              (r, d) \<leftarrow> (if panic then map_option (\<lambda>(r, d). (DICT_OK, d)) (dictExpand dictCreate cap)
                         else dictTryExpand alloc dictCreate cap);
              if r \<noteq> DICT_OK then Some (False, s)
              else
                do {
                  d \<leftarrow> set_foreach env (setTypeNextObject env s) s (add_new env) d;
                  Some (True, Set_ht d)
                }
            }
        | OBJ_ENCODING_LISTPACK \<Rightarrow>
            do {
              let estcap =
                (case s of
                   Set_intset is \<Rightarrow>
                     if intsetLen is > 0
                     then max (lpEstimateBytesRepeatedInteger (intsetMin is) cap) (lpEstimateBytesRepeatedInteger (intsetMax is) cap)
                     else uint32 (cap * 2)
                 | _ \<Rightarrow> uint32 (cap * 2));
              lp \<leftarrow> set_foreach env (setTypeNext env s) s (append_elem env) (lpNew (junk env) estcap);
              Some (True, Set_listpack lp)
            }
        | OBJ_ENCODING_INTSET \<Rightarrow> None)
     }"

definition setTypeConvert :: "set_env \<Rightarrow> setobj \<Rightarrow> set_encoding \<Rightarrow> setobj option" where
  "setTypeConvert env s enc =
     do { (n, s) \<leftarrow> setTypeSize s; map_option snd (setTypeConvertAndExpand env True s enc n True) }"

definition setTypeMaybeConvert :: "set_env \<Rightarrow> setobj \<Rightarrow> nat \<Rightarrow> setobj option" where
  "setTypeMaybeConvert env s size_hint =
     (if set_encoding_of s = OBJ_ENCODING_LISTPACK \<and> size_hint > set_max_listpack_entries env \<or>
         set_encoding_of s = OBJ_ENCODING_INTSET \<and> size_hint > set_max_intset_entries env
      then map_option snd (setTypeConvertAndExpand env True s OBJ_ENCODING_HT size_hint True)
      else Some s)"

definition intsetMaxEntries :: "set_env \<Rightarrow> nat" where
  "intsetMaxEntries env =
     (let max_entries = set_max_intset_entries env in if max_entries \<ge> 2 ^ 30 then 2 ^ 30 else max_entries)"

definition maybeConvertIntset :: "set_env \<Rightarrow> intset \<Rightarrow> setobj option" where
  "maybeConvertIntset env is =
     (if intsetLen is > intsetMaxEntries env then setTypeConvert env (Set_intset is) OBJ_ENCODING_HT else Some (Set_intset is))"

definition add_int_new :: "set_env \<Rightarrow> set_elem \<Rightarrow> intset \<Rightarrow> intset option" where
  "add_int_new env e is =
     do {
       v \<leftarrow> (case e of El_str s \<Rightarrow> string2ll s | El_int v \<Rightarrow> Some v);
       (is, success) \<leftarrow> intsetAdd (junk env) is v;
       assert_that success;
       Some is
     }"

definition maybeConvertToIntset :: "set_env \<Rightarrow> setobj \<Rightarrow> setobj option" where
  "maybeConvertToIntset env s =
     (if set_encoding_of s = OBJ_ENCODING_INTSET then Some s
      else
        do {
          (n, s) \<leftarrow> setTypeSize s;
          if n > intsetMaxEntries env then Some s
          else map_option Set_intset (set_foreach env (setTypeNext env s) s (add_int_new env) intsetNew)
        })"

section \<open>Adding an element\<close>

definition ht_add :: "set_env \<Rightarrow> set_dict \<Rightarrow> byte list \<Rightarrow> (bool \<times> setobj) option" where
  "ht_add env d str =
     do {
       (position, d) \<leftarrow> dictFindPositionForInsert (can_resize env) (set_type env) d str;
       (case position of
          Inl position \<Rightarrow> map_option (\<lambda>(_, d). (True, Set_ht d)) (dictInsertAtPosition (set_type env) d str position)
        | Inr _ \<Rightarrow> Some (False, Set_ht d))
     }"

text \<open>A set converted to a hash table, with an element that is new.\<close>

definition convert_and_add :: "set_env \<Rightarrow> setobj \<Rightarrow> nat \<Rightarrow> byte list \<Rightarrow> (bool \<times> setobj) option" where
  "convert_and_add env s cap str =
     do {
       (_, s) \<leftarrow> setTypeConvertAndExpand env True s OBJ_ENCODING_HT cap True;
       (case s of Set_ht d \<Rightarrow> map_option (\<lambda>d. (True, Set_ht d)) (add_new env str d) | _ \<Rightarrow> None)
     }"

text \<open>The search that add, remove and membership share.\<close>

definition lp_search :: "listpack \<Rightarrow> byte list \<Rightarrow> ptr option" where
  "lp_search lp str = do { p \<leftarrow> lpFirst lp; if p \<noteq> None then lpFind lp p str 0 else Some None }"

text \<open>\<open>e\<close> is the element as it came in, \<open>str\<close> its string.\<close>

definition listpack_add :: "set_env \<Rightarrow> listpack \<Rightarrow> set_elem \<Rightarrow> byte list \<Rightarrow> (bool \<times> setobj) option" where
  "listpack_add env lp e str =
     do {
       p \<leftarrow> lp_search lp str;
       if p \<noteq> None then Some (False, Set_listpack lp)
       else
         do {
           (n, lp) \<leftarrow> lpLength lp;
           if n < set_max_listpack_entries env \<and> length str \<le> set_max_listpack_value env \<and> lpSafeToAdd (Some lp) (length str)
           then map_option (\<lambda>lp. (True, Set_listpack lp)) (append_elem env e lp)
           else convert_and_add env (Set_listpack lp) (n + 1) str
         }
     }"

definition intset_add :: "set_env \<Rightarrow> intset \<Rightarrow> int \<Rightarrow> (bool \<times> setobj) option" where
  "intset_add env is v =
     do {
       (is, success) \<leftarrow> intsetAdd (junk env) is v;
       if success then map_option (\<lambda>s. (True, s)) (maybeConvertIntset env is) else Some (False, Set_intset is)
     }"

text \<open>A string that is no integer is added to an intset.\<close>

definition intset_add_string :: "set_env \<Rightarrow> intset \<Rightarrow> byte list \<Rightarrow> (bool \<times> setobj) option" where
  "intset_add_string env is str =
     (let n = intsetLen is;
          maxelelen = (if n \<noteq> 0 then max (sdigits10 (intsetMax is)) (sdigits10 (intsetMin is)) else 0);
          totsize = (if n \<noteq> 0
            then max (lpEstimateBytesRepeatedInteger (intsetMax is) n) (lpEstimateBytesRepeatedInteger (intsetMin is) n) else 0)
      in
      if n < set_max_listpack_entries env \<and> length str \<le> set_max_listpack_value env \<and> maxelelen \<le> set_max_listpack_value env \<and>
         lpSafeToAdd None (uint32 (totsize + length str))
      then
        do {
          (_, s) \<leftarrow> setTypeConvertAndExpand env True (Set_intset is) OBJ_ENCODING_LISTPACK (n + 1) True;
          (case s of
             Set_listpack lp \<Rightarrow>
               map_option (\<lambda>lp. (True, Set_listpack (lpShrinkToFit (junk env) lp))) (append_elem env (El_str str) lp)
           | _ \<Rightarrow> None)
        }
      else convert_and_add env (Set_intset is) (n + 1) str)"

fun setTypeAddAux :: "set_env \<Rightarrow> setobj \<Rightarrow> set_elem \<Rightarrow> (bool \<times> setobj) option" where
  "setTypeAddAux env (Set_ht d) e = ht_add env d (elem_string env e)"
| "setTypeAddAux env (Set_listpack lp) e = listpack_add env lp e (elem_string env e)"
| "setTypeAddAux env (Set_intset is) (El_int v) = intset_add env is v"
| "setTypeAddAux env (Set_intset is) (El_str s) =
     (case string2ll s of Some v \<Rightarrow> intset_add env is v | None \<Rightarrow> intset_add_string env is s)"

definition setTypeAdd :: "set_env \<Rightarrow> setobj \<Rightarrow> byte list \<Rightarrow> (bool \<times> setobj) option" where
  "setTypeAdd env s val = setTypeAddAux env s (El_str val)"

section \<open>Removing an element and membership\<close>

definition intset_remove :: "set_env \<Rightarrow> intset \<Rightarrow> int \<Rightarrow> (bool \<times> setobj) option" where
  "intset_remove env is v = map_option (\<lambda>(is, success). (success, Set_intset is)) (intsetRemove (junk env) is v)"

definition listpack_remove :: "set_env \<Rightarrow> listpack \<Rightarrow> byte list \<Rightarrow> (bool \<times> setobj) option" where
  "listpack_remove env lp str =
     do {
       p \<leftarrow> lp_search lp str;
       (case p of
          None \<Rightarrow> Some (False, Set_listpack lp)
        | Some p \<Rightarrow> map_option (\<lambda>lp. (True, Set_listpack lp)) (lp_not_null (without_newp (lpDelete (junk env) lp p))))
     }"

fun setTypeRemoveAux :: "set_env \<Rightarrow> setobj \<Rightarrow> set_elem \<Rightarrow> (bool \<times> setobj) option" where
  "setTypeRemoveAux env (Set_ht d) e =
     map_option (\<lambda>(r, d). (r = DICT_OK, Set_ht d)) (dictDelete (can_resize env) (set_type env) d (elem_string env e))"
| "setTypeRemoveAux env (Set_listpack lp) e = listpack_remove env lp (elem_string env e)"
| "setTypeRemoveAux env (Set_intset is) (El_int v) = intset_remove env is v"
| "setTypeRemoveAux env (Set_intset is) (El_str s) =
     (case string2ll s of Some v \<Rightarrow> intset_remove env is v | None \<Rightarrow> Some (False, Set_intset is))"

definition setTypeRemove :: "set_env \<Rightarrow> setobj \<Rightarrow> byte list \<Rightarrow> (bool \<times> setobj) option" where
  "setTypeRemove env s val = setTypeRemoveAux env s (El_str val)"

text \<open>A lookup in a hash table may move entries.\<close>

fun setTypeIsMemberAux :: "set_env \<Rightarrow> setobj \<Rightarrow> set_elem \<Rightarrow> (bool \<times> setobj) option" where
  "setTypeIsMemberAux env (Set_ht d) e =
     map_option (\<lambda>(r, d). (r \<noteq> None, Set_ht d)) (dictFind (can_resize env) (set_type env) d (elem_string env e))"
| "setTypeIsMemberAux env (Set_listpack lp) e =
     map_option (\<lambda>p. (p \<noteq> None, Set_listpack lp)) (lp_search lp (elem_string env e))"
| "setTypeIsMemberAux env (Set_intset is) (El_int v) = Some (intsetFind is v, Set_intset is)"
| "setTypeIsMemberAux env (Set_intset is) (El_str s) =
     Some ((case string2ll s of Some v \<Rightarrow> intsetFind is v | None \<Rightarrow> False), Set_intset is)"

definition setTypeIsMember :: "set_env \<Rightarrow> setobj \<Rightarrow> byte list \<Rightarrow> (bool \<times> setobj) option" where
  "setTypeIsMember env s val = setTypeIsMemberAux env s (El_str val)"

section \<open>Copies\<close>

definition dup_add :: "set_env \<Rightarrow> set_elem \<Rightarrow> setobj \<Rightarrow> setobj option" where
  "dup_add env e s = map_option snd (setTypeAdd env s (elem_string env e))"

text \<open>The copy of an intset is its header and the bytes of its values.\<close>

fun setTypeDup :: "set_env \<Rightarrow> setobj \<Rightarrow> setobj option" where
  "setTypeDup env (Set_intset is) =
     (let sz = intsetBlobLen is in
      if sz < 8 \<or> length (is_contents is) < sz - 8 then None
      else Some (Set_intset (is\<lparr>is_contents := take (sz - 8) (is_contents is)\<rparr>)))"
| "setTypeDup env (Set_listpack lp) = map_option Set_listpack (lpDup lp)"
| "setTypeDup env (Set_ht d) =
     do {
       (r, d') \<leftarrow> dictExpand dictCreate (dictSize d);
       set_foreach env (setTypeNext env (Set_ht d)) (Set_ht d) (dup_add env) (Set_ht d')
     }"

end
