(* ===== verification/Redis_Set_Enc.thy ===== *)
theory Redis_Set_Enc
  imports Redis_Set Redis_Listpack_Proofs Redis_Dict_Proofs Redis_Intset_Proofs
begin

text \<open>
  The three encodings of a set: the invariant of a set object and the set of strings it stands for, the iterator over its
  elements, and that each conversion of an encoding keeps the elements.
\<close>

section \<open>Elements\<close>

fun elem_text :: "set_elem \<Rightarrow> byte list" where
  "elem_text (El_str s) = s"
| "elem_text (El_int v) = lltext v"

fun elem_ok :: "set_elem \<Rightarrow> bool" where
  "elem_ok (El_str s) \<longleftrightarrow> True"
| "elem_ok (El_int v) \<longleftrightarrow> fits 8 v"

lemma sdsfromlonglong_eq: "fits 8 v \<Longrightarrow> sdsfromlonglong env v = lltext v"
  using lltext_length [of v] ll2string_eq(1) [of v "map (junk env) [0..<LONG_STR_SIZE]"]
  by (simp add: sdsfromlonglong_def fits_8)

lemma elem_string_eq: "elem_ok e \<Longrightarrow> elem_string env e = elem_text e"
  by (cases e) (simp_all add: sdsfromlonglong_eq)

lemma lltext_inject: "fits 8 v \<Longrightarrow> fits 8 w \<Longrightarrow> lltext v = lltext w \<longleftrightarrow> v = w"
  using string2ll_iff [of "lltext v" v] string2ll_iff [of "lltext v" w] by (auto simp: fits_8)

lemma entry_of_lltext: "fits 8 v \<Longrightarrow> lp_entry_of (lltext v) = Ent_int v"
  using lpStringToInt64_iff [of "lltext v" v] by (simp add: lp_entry_of_def)

fun entry_elem :: "listpackEntry \<Rightarrow> set_elem" where
  "entry_elem (Ent_str s) = El_str s"
| "entry_elem (Ent_int v) = El_int v"

lemma elem_text_entry [simp]: "elem_text (entry_elem e) = lp_text e"
  by (cases e) (simp_all add: lp_text_def)

lemma entry_ok_elem: "entry_ok e \<Longrightarrow> elem_ok (entry_elem e)"
  by (cases e) (simp_all add: entry_ok_def)

section \<open>The members of a set object and its invariant\<close>

definition set_dict_ok :: "set_env \<Rightarrow> set_dict \<Rightarrow> bool" where
  "set_dict_ok env d \<longleftrightarrow> dict_inv (set_type env) (\<lambda>k. k) (dictSdsHash (hash_seed env)) (\<lambda>_ _. True) False d"

definition set_lp_ok :: "listpack \<Rightarrow> byte list list \<Rightarrow> bool" where
  "set_lp_ok lp xs \<longleftrightarrow> lp_stands lp xs \<and> distinct xs \<and> length (lp_body (map lp_entry_of xs)) \<le> 2 ^ 30 + 20"

fun set_wf :: "set_env \<Rightarrow> setobj \<Rightarrow> bool" where
  "set_wf env (Set_ht d) \<longleftrightarrow> set_dict_ok env d"
| "set_wf env (Set_intset is) \<longleftrightarrow> intset_ok is"
| "set_wf env (Set_listpack lp) \<longleftrightarrow> (\<exists>xs. set_lp_ok lp xs)"

text \<open>Between operations an intset does not have more entries than it may have.\<close>

fun set_inv :: "set_env \<Rightarrow> setobj \<Rightarrow> bool" where
  "set_inv env (Set_intset is) \<longleftrightarrow> intset_ok is \<and> intsetLen is \<le> intsetMaxEntries env"
| "set_inv env s \<longleftrightarrow> set_wf env s"

lemma set_inv_wf: "set_inv env s \<Longrightarrow> set_wf env s"
  by (cases s) simp_all

fun set_members :: "setobj \<Rightarrow> byte list set" where
  "set_members (Set_ht d) = dom (dict_abs (\<lambda>k. k) d)"
| "set_members (Set_intset is) = lltext ` intset_set is"
| "set_members (Set_listpack lp) = set (lp_contents (\<lambda>_. 0) lp)"

text \<open>The settings: the listpacks and intsets that they allow fit the address space, however their elements are.\<close>

definition set_env_ok :: "set_env \<Rightarrow> bool" where
  "set_env_ok env \<longleftrightarrow>
     set_max_intset_entries env < 536870909 \<and> set_max_listpack_entries env \<le> 2 ^ 26 \<and> set_max_listpack_value env < 2 ^ 31"

lemma set_lp_members: "set_lp_ok lp xs \<Longrightarrow> set_members (Set_listpack lp) = set xs"
  using lp_stands_contents [of lp xs] by (simp add: set_lp_ok_def)

section \<open>Iteration\<close>

text \<open>What the iterator of a set has before it; that of a listpack is in front of the entry \<open>n\<close>.\<close>

definition lp_iter_at :: "byte list list \<Rightarrow> ptr \<Rightarrow> nat \<Rightarrow> bool" where
  "lp_iter_at xs lpi n \<longleftrightarrow>
     lpi = None \<and> n = 0 \<or> (\<exists>i<length xs. lpi = Some (lp_pos (take i (map lp_entry_of xs))) \<and> n = Suc i)"

fun set_before :: "set_env \<Rightarrow> setobj \<Rightarrow> setTypeIterator \<Rightarrow> set_elem list \<Rightarrow> bool" where
  "set_before env (Set_ht d) (Si_ht di) ys \<longleftrightarrow> (\<exists>es. dict_iter_before (table_addr env) d di es \<and> ys = map (El_str \<circ> dictGetKey) es)"
| "set_before env (Set_intset is) (Si_intset ii) ys \<longleftrightarrow> ys = map El_int (drop ii (intset_vals is))"
| "set_before env (Set_listpack lp) (Si_listpack lpi) ys \<longleftrightarrow>
     (\<exists>xs n. lp_stands lp xs \<and> lp_iter_at xs lpi n \<and> ys = map (entry_elem \<circ> lp_entry_of) (drop n xs))"
| "set_before env s si ys \<longleftrightarrow> False"

lemma lpGetValue_ok:
  assumes "lp_stands lp xs" "i < length xs"
  shows "lpGetValue lp (lp_pos (take i (map lp_entry_of xs))) = Some (entry_elem (lp_entry_of (xs ! i)))"
proof -
  let ?es = "map lp_entry_of xs"
  have rep: "lp_rep lp ?es" "i < length ?es" using assms by (simp_all add: lp_stands_def)
  have "lpGet lp (lp_pos (take i ?es)) = Some (lp_decoded (lp_pos (take i ?es)) (?es ! i))"
    using lpGetWithSize_ok [OF rep, of 0] by (simp add: lpGet_def)
  then show ?thesis
    using lp_read_decoded [OF rep] assms(2) by (cases "lp_entry_of (xs ! i)") (auto simp: lpGetValue_def lp_decoded_def)
qed

lemma lp_iter_next:
  assumes "lp_stands lp xs" "lp_iter_at xs lpi n"
  shows "setTypeNext env (Set_listpack lp) (Si_listpack lpi) =
    Some (if n < length xs then (Some (entry_elem (lp_entry_of (xs ! n))), Si_listpack (Some (lp_pos (take n (map lp_entry_of xs)))))
          else (None, Si_listpack lpi))"
proof -
  have rep: "lp_rep lp (map lp_entry_of xs)" using assms(1) by (simp add: lp_stands_def)
  have "(case lpi of None \<Rightarrow> lpFirst lp | Some lpi \<Rightarrow> lpNext lp lpi) = Some (lp_ptr (map lp_entry_of xs) n)"
    using assms(2) lpFirst_ok [OF rep] lpNext_ok [OF rep] by (auto simp: lp_iter_at_def)
  then show ?thesis using lpGetValue_ok [OF assms(1)] by (simp add: lp_ptr_def)
qed

lemma set_next_listpack:
  assumes "lp_stands lp xs" "lp_iter_at xs lpi n"
  shows "n < length xs \<Longrightarrow> \<exists>si'. setTypeNext env (Set_listpack lp) (Si_listpack lpi) = Some (Some (entry_elem (lp_entry_of (xs ! n))), si')
      \<and> set_before env (Set_listpack lp) si' (map (entry_elem \<circ> lp_entry_of) (drop (Suc n) xs))"
    and "n \<ge> length xs \<Longrightarrow> setTypeNext env (Set_listpack lp) (Si_listpack lpi) = Some (None, Si_listpack lpi)"
  using lp_iter_next [OF assms, of env] assms(1) by (auto simp: lp_iter_at_def)

interpretation set_iter: finite_iterator "setTypeNext env s" "set_before env s" for env s
proof
  fix si y ys
  show "\<exists>si'. setTypeNext env s si = Some (None, si') \<and> set_before env s si' []" if b: "set_before env s si []"
  proof (cases s)
    case (Set_ht d)
    with b obtain di where "si = Si_ht di" "dict_iter_before (table_addr env) d di []" by (cases si) auto
    then show ?thesis using dict_iter.nxt_end [of "table_addr env" d di] Set_ht by auto
  next
    case (Set_intset "is")
    with b show ?thesis by (cases si) (auto simp: intset_vals_def intsetGet_def)
  next
    case (Set_listpack lp)
    with b obtain lpi xs n where "si = Si_listpack lpi" "lp_stands lp xs" "lp_iter_at xs lpi n" "n \<ge> length xs" by (cases si) auto
    then show ?thesis using set_next_listpack(2) [of lp xs lpi n env] b Set_listpack by auto
  qed
  show "\<exists>si'. setTypeNext env s si = Some (Some y, si') \<and> set_before env s si' ys" if b: "set_before env s si (y # ys)"
  proof (cases s)
    case (Set_ht d)
    with b obtain di e es where "si = Si_ht di" "dict_iter_before (table_addr env) d di (e # es)" "y = El_str (dictGetKey e)"
      "ys = map (El_str \<circ> dictGetKey) es" by (cases si) (auto simp: Cons_eq_map_conv)
    then show ?thesis using dict_iter.nxt_more [of "table_addr env" d di e es] Set_ht by auto
  next
    case (Set_intset "is")
    with b obtain ii where ii: "si = Si_intset ii" "y # ys = map El_int (drop ii (intset_vals is))" by (cases si) auto
    then have "ii < length (intset_vals is)" by (cases "ii < length (intset_vals is)") auto
    with ii Set_intset show ?thesis by (auto simp: intset_vals_def intsetGet_def Cons_nth_drop_Suc [symmetric])
  next
    case (Set_listpack lp)
    with b obtain lpi xs n where n: "si = Si_listpack lpi" "lp_stands lp xs" "lp_iter_at xs lpi n"
      "y # ys = map (entry_elem \<circ> lp_entry_of) (drop n xs)" by (cases si) auto
    then have len: "n < length xs" by (cases "n < length xs") auto
    with n(4) have "y = entry_elem (lp_entry_of (xs ! n))" "ys = map (entry_elem \<circ> lp_entry_of) (drop (Suc n) xs)"
      by (simp_all add: Cons_nth_drop_Suc [symmetric])
    then show ?thesis using set_next_listpack(1) [OF n(2,3) len, of env] Set_listpack n(1) by simp
  qed
qed

lemma set_iter_release: "set_before env s si [] \<Longrightarrow> set_wf env s \<Longrightarrow> setTypeReleaseIterator env s si = Some ()"
  by (cases s; cases si) (auto simp: dict_iter_before_def dictReleaseIterator_ok)

lemma set_foreach_fold:
  assumes "set_before env s (setTypeInitIterator s) ys" "set_wf env s"
  shows "fold_opt body ys a = Some a' \<Longrightarrow> set_foreach env (setTypeNext env s) s body a = Some a'"
    and "fold_opt body' (map (elem_string env) ys) a = Some a' \<Longrightarrow> set_foreach env (setTypeNextObject env s) s body' a = Some a'"
proof -
  show "set_foreach env (setTypeNext env s) s body a = Some a'" if "fold_opt body ys a = Some a'"
    using set_iter.iter_while_fold [OF assms(1) that] set_iter_release [OF _ assms(2)] by (auto simp: set_foreach_def)
  have obj: "setTypeNextObject env s = (\<lambda>si. map_option (\<lambda>(x, i). (map_option (elem_string env) x, i)) (setTypeNext env s si))"
    by (rule ext) (simp add: setTypeNextObject_def)
  show "set_foreach env (setTypeNextObject env s) s body' a = Some a'" if "fold_opt body' (map (elem_string env) ys) a = Some a'"
    using finite_iterator.iter_while_fold [OF set_iter.mapped_iterator, of _ s "setTypeInitIterator s" "map (elem_string env) ys" "elem_string env"]
      that assms(1) set_iter_release [OF _ assms(2)] unfolding set_foreach_def obj by fastforce
qed

section \<open>The elements of a set\<close>

definition set_elems_are :: "set_env \<Rightarrow> setobj \<Rightarrow> set_elem list \<Rightarrow> bool" where
  "set_elems_are env s ys \<longleftrightarrow>
     set_before env s (setTypeInitIterator s) ys \<and> list_all elem_ok ys \<and> distinct (map elem_text ys)
     \<and> set_members s = elem_text ` set ys"

lemma dict_keys_of:
  assumes d: "dict_ok T (\<lambda>k. k) H form d"
  shows "distinct (map dictGetKey (iter_remaining d dictGetIterator))"
    "dom (dict_abs (\<lambda>k. k) d) = dictGetKey ` set (iter_remaining d dictGetIterator)"
proof -
  let ?es = "iter_remaining d dictGetIterator"
  have items: "mset (map entry_item ?es) = dict_items d" by (rule dictGetIterator_ok(2) [OF d])
  have "mset (map dictGetKey ?es) = contents (\<lambda>k. k) (dict_items d)"
    unfolding contents_def items [symmetric] by (simp add: entry_item_def image_mset.compositionality comp_def)
  then show "distinct (map dictGetKey ?es)" using dict_ok_dup_free [OF d] by (intro dup_free_distinct) simp
  have "set_mset (dict_items d) = entry_item ` set ?es" unfolding items [symmetric] by simp
  then show "dom (dict_abs (\<lambda>k. k) d) = dictGetKey ` set ?es"
    using dict_abs_iff [OF d] by (force simp: dom_def entry_item_def)
qed

lemma intset_vals_ok:
  assumes "intset_ok is"
  shows "list_all (fits 8) (intset_vals is)" "distinct (intset_vals is)" "length (intset_vals is) = intsetLen is"
proof -
  obtain vs where vs: "intset_rep is (intset_vals is) []" "sorted_wrt (<) (intset_vals is)" using intset_okE [OF assms] by metis
  then show "distinct (intset_vals is)" by (simp add: strict_sorted_iff)
  have "is_encoding is \<le> 8" using vs(1) by (auto simp: intset_rep_def enc_ok_def)
  then show "list_all (fits 8) (intset_vals is)" using vs(1) fits_mono by (auto simp: intset_rep_def list_all_iff)
  show "length (intset_vals is) = intsetLen is" by (simp add: intset_vals_def intsetLen_def)
qed

lemma set_elems_exist:
  assumes "set_wf env s"
  shows "\<exists>ys. set_elems_are env s ys"
proof (cases s)
  case (Set_ht d)
  then have d: "dict_ok (set_type env) (\<lambda>k. k) (dictSdsHash (hash_seed env)) (\<lambda>_ _. True) d"
    using assms by (simp add: set_dict_ok_def dict_inv_def)
  let ?ys = "map (El_str \<circ> dictGetKey) (iter_remaining d dictGetIterator)"
  have "dict_iter_before (table_addr env) d dictGetIterator (iter_remaining d dictGetIterator)"
    using dictGetIterator_ok(1) [OF d] by (simp add: dict_iter_before_def)
  then have "set_before env s (setTypeInitIterator s) ?ys" using Set_ht by auto
  moreover have "map elem_text ?ys = map dictGetKey (iter_remaining d dictGetIterator)" by simp
  ultimately show ?thesis using dict_keys_of [OF d] Set_ht
    by (intro exI [of _ ?ys]) (auto simp: set_elems_are_def list_all_iff image_image comp_def)
next
  case (Set_intset "is")
  then have "is": "list_all (fits 8) (intset_vals is)" "distinct (intset_vals is)" using assms intset_vals_ok by auto
  then have "distinct (map lltext (intset_vals is))"
    by (auto simp: distinct_map list_all_iff lltext_inject intro!: inj_onI)
  with "is" Set_intset show ?thesis
    by (intro exI [of _ "map El_int (intset_vals is)"])
      (auto simp: set_elems_are_def list_all_iff intset_set_def comp_def image_image)
next
  case (Set_listpack lp)
  then obtain xs where xs: "lp_stands lp xs" "distinct xs" "set_members s = set xs"
    using assms set_lp_members by (auto simp: set_lp_ok_def)
  have "list_all entry_ok (map lp_entry_of xs)" using xs(1) by (auto simp: lp_stands_def lp_rep_def)
  then have "list_all elem_ok (map (entry_elem \<circ> lp_entry_of) xs)"
    by (auto simp: list_all_iff entry_ok_elem)
  moreover have "map elem_text (map (entry_elem \<circ> lp_entry_of) xs) = xs" by (simp add: comp_def)
  moreover have "set_before env s (setTypeInitIterator s) (map (entry_elem \<circ> lp_entry_of) xs)"
    using xs(1) Set_listpack by (auto simp: lp_iter_at_def intro!: exI [of _ xs])
  ultimately show ?thesis using xs(2,3)
    by (intro exI [of _ "map (entry_elem \<circ> lp_entry_of) xs"]) (simp add: set_elems_are_def image_image flip: set_map)
qed

section \<open>Sizes\<close>

lemma set_elems_card: "set_elems_are env s ys \<Longrightarrow> card (set_members s) = length ys"
  by (metis set_elems_are_def distinct_card length_map set_map)

lemma setTypeSize_ok:
  assumes "set_wf env s"
  shows "\<exists>s'. setTypeSize s = Some (card (set_members s), s') \<and> set_wf env s' \<and> set_members s' = set_members s
    \<and> set_encoding_of s' = set_encoding_of s"
proof (cases s)
  case (Set_ht d)
  then have d: "dict_ok (set_type env) (\<lambda>k. k) (dictSdsHash (hash_seed env)) (\<lambda>_ _. True) d"
    using assms by (simp add: set_dict_ok_def dict_inv_def)
  have "card (dom (dict_abs (\<lambda>k. k) d)) = dictSize d"
    using dict_keys_of [OF d] dictGetIterator_ok(3) [OF d] by (metis distinct_card length_map set_map)
  with Set_ht assms show ?thesis by simp
next
  case (Set_intset "is")
  then have ok: "intset_ok is" using assms by simp
  have "inj_on lltext (intset_set is)"
    using intset_vals_ok [OF ok] by (auto simp: inj_on_def lltext_inject intset_set_def list_all_iff)
  then have "card (set_members s) = intsetLen is" using intset_card [OF ok] Set_intset by (simp add: card_image)
  with Set_intset assms show ?thesis by simp
next
  case (Set_listpack lp)
  then obtain xs where xs: "set_lp_ok lp xs" using assms by auto
  then obtain lp' where lp': "lpLength lp = Some (length xs, lp')" "lp_rep lp' (map lp_entry_of xs)"
    using lpLength_ok [of lp "map lp_entry_of xs"] by (auto simp: set_lp_ok_def lp_stands_def)
  then have ok': "set_lp_ok lp' xs" using xs by (simp add: set_lp_ok_def lp_stands_def)
  have "length xs = card (set xs)" using xs by (simp add: set_lp_ok_def distinct_card)
  with lp'(1) ok' xs Set_listpack set_lp_members show ?thesis by auto
qed

section \<open>Hash tables\<close>

lemma set_dict_create: "set_dict_ok env dictCreate" "dom (dict_abs (\<lambda>k. k) (dictCreate :: set_dict)) = {}"
  by (simp_all add: set_dict_ok_def dict_inv_create dict_abs_create)

lemma set_dict_kept:
  assumes "set_dict_ok env d" "dict_kept (set_type env) (\<lambda>k. k) (dictSdsHash (hash_seed env)) (\<lambda>_ _. True) d d'"
  shows "set_dict_ok env d' \<and> dict_abs (\<lambda>k. k) d' = dict_abs (\<lambda>k. k) d"
  using assms dict_kept_inv unfolding set_dict_ok_def by blast

lemma set_dict_ok_dict: "set_dict_ok env d \<Longrightarrow> dict_ok (set_type env) (\<lambda>k. k) (dictSdsHash (hash_seed env)) (\<lambda>_ _. True) d"
  by (simp add: set_dict_ok_def dict_inv_def)

lemma dictExpand_create:
  obtains r d where "dictExpand dictCreate n = Some (r, d)" "set_dict_ok env d" "dom (dict_abs (\<lambda>k. k) (d :: set_dict)) = {}"
proof -
  have ok: "set_dict_ok env dictCreate" by (rule set_dict_create)
  obtain r d where d: "dictExpand dictCreate n = Some (r, d)"
      "dict_kept (set_type env) (\<lambda>k. k) (dictSdsHash (hash_seed env)) (\<lambda>_ _. True) dictCreate d"
    using dictExpand_ok [OF set_dict_ok_dict [OF ok], of n] by blast
  with set_dict_kept [OF ok d(2)] set_dict_create(2) that show thesis by simp
qed

lemma set_type_add:
  assumes "set_dict_ok env d"
  obtains (added) x d' where "dictAddRaw R (set_type env) d k = Some (Inl x, d')" "set_dict_ok env d'"
      "k \<notin> dom (dict_abs (\<lambda>k. k) d)" "dom (dict_abs (\<lambda>k. k) d') = insert k (dom (dict_abs (\<lambda>k. k) d))"
  | (existing) x d' where "dictAddRaw R (set_type env) d k = Some (Inr x, d')" "set_dict_ok env d'"
      "k \<in> dom (dict_abs (\<lambda>k. k) d)" "dom (dict_abs (\<lambda>k. k) d') = dom (dict_abs (\<lambda>k. k) d)"
proof -
  have d: "dict_ok (setDictType (hash_seed env)) (\<lambda>k. k) (dictSdsHash (hash_seed env)) (\<lambda>_ _. True) d" "useStoredKeyApi d = False"
    "pauseAutoResize d \<le> 0" using assms by (auto simp: set_dict_ok_def dict_inv_def set_type_def)
  obtain x d' where d': "dictAddRaw R (setDictType (hash_seed env)) d k = Some (x, d')"
    "dict_ok (setDictType (hash_seed env)) (\<lambda>k. k) (dictSdsHash (hash_seed env)) (\<lambda>_ _. True) d'" "useStoredKeyApi d' = useStoredKeyApi d"
    "pauseAutoResize d' = pauseAutoResize d"
    "case x of
        Inr r \<Rightarrow> dict_abs (\<lambda>k. k) d' = dict_abs (\<lambda>k. k) d \<and> valid_ref d' r \<and> dictGetKey (entry_at d' r) = k
      | Inl r \<Rightarrow> dict_abs (\<lambda>k. k) d k = None \<and> dict_abs (\<lambda>k. k) d' = (dict_abs (\<lambda>k. k) d)(k \<mapsto> None) \<and>
                 valid_ref d' r \<and> dictGetKey (entry_at d' r) = k"
    using set_type.dictAddRaw_ok [OF d(1), where k = k and R = R] d(3) by blast
  have ok: "set_dict_ok env d'" using d d' by (simp add: set_dict_ok_def dict_inv_def set_type_def)
  show thesis
  proof (cases x)
    case (Inl r)
    with d' ok show thesis by (intro added [of r d']) (auto simp: set_type_def)
  next
    case (Inr r)
    then have "k \<in> dom (dict_abs (\<lambda>k. k) d)" using dict_abs_entry [OF d'(2), of r] d'(5) by auto
    with d' ok Inr show thesis by (intro existing [of r d']) (auto simp: set_type_def)
  qed
qed

lemma set_no_value: "no_value (set_type env)" "keyDup (set_type env) = None"
  by (simp_all add: set_type_def setDictType_def)

lemma add_new_ok:
  assumes "set_dict_ok env d" "k \<notin> dom (dict_abs (\<lambda>k. k) d)"
  shows "\<exists>d'. add_new env k d = Some d' \<and> set_dict_ok env d' \<and> dom (dict_abs (\<lambda>k. k) d') = insert k (dom (dict_abs (\<lambda>k. k) d))"
proof -
  obtain x d' where d': "dictAddRaw (can_resize env) (set_type env) d k = Some (Inl x, d')" "set_dict_ok env d'"
      "dom (dict_abs (\<lambda>k. k) d') = insert k (dom (dict_abs (\<lambda>k. k) d))"
    using set_type_add [OF assms(1)] assms(2) by metis
  then have "dictAdd (can_resize env) (set_type env) d k () = Some (DICT_OK, d')"
    by (simp add: dictAdd_def set_no_value)
  with d' show ?thesis by (simp add: add_new_def assert_that_def)
qed

lemma add_all_new:
  assumes "set_dict_ok env d" "distinct ks" "set ks \<inter> dom (dict_abs (\<lambda>k. k) d) = {}"
  shows "\<exists>d'. fold_opt (add_new env) ks d = Some d' \<and> set_dict_ok env d' \<and> dom (dict_abs (\<lambda>k. k) d') = set ks \<union> dom (dict_abs (\<lambda>k. k) d)"
proof (rule fold_opt_invariant [where I = "\<lambda>xs d'. set_dict_ok env d' \<and> dom (dict_abs (\<lambda>k. k) d') = set xs \<union> dom (dict_abs (\<lambda>k. k) d)"])
  fix ys y zs d'
  assume "ks = ys @ y # zs" "set_dict_ok env d' \<and> dom (dict_abs (\<lambda>k. k) d') = set ys \<union> dom (dict_abs (\<lambda>k. k) d)"
  then show "\<exists>d''. add_new env y d' = Some d'' \<and> set_dict_ok env d'' \<and> dom (dict_abs (\<lambda>k. k) d'') = set (ys @ [y]) \<union> dom (dict_abs (\<lambda>k. k) d)"
    using add_new_ok [of env d' y] assms(2,3) by auto
qed (use assms(1) in simp)

section \<open>Conversion\<close>

lemma elem_strings: "list_all elem_ok ys \<Longrightarrow> map (elem_string env) ys = map elem_text ys"
  by (auto simp: list_all_iff elem_string_eq)

lemma convert_to_ht:
  assumes "set_wf env s" "set_encoding_of s \<noteq> OBJ_ENCODING_HT"
  shows "\<exists>d. setTypeConvertAndExpand env alloc s OBJ_ENCODING_HT cap True = Some (True, Set_ht d) \<and> set_dict_ok env d
    \<and> dom (dict_abs (\<lambda>k. k) d) = set_members s"
proof -
  obtain ys where ys: "set_before env s (setTypeInitIterator s) ys" "list_all elem_ok ys" "distinct (map elem_text ys)"
      "set_members s = elem_text ` set ys" using set_elems_exist [OF assms(1)] by (auto simp: set_elems_are_def)
  obtain r d0 where d0: "dictExpand dictCreate cap = Some (r, d0)" "set_dict_ok env d0" "dom (dict_abs (\<lambda>k. k) d0) = {}"
    using dictExpand_create .
  obtain d where d: "fold_opt (add_new env) (map (elem_string env) ys) d0 = Some d" "set_dict_ok env d"
      "dom (dict_abs (\<lambda>k. k) d) = elem_text ` set ys"
    using add_all_new [OF d0(2) ys(3)] d0(3) elem_strings [OF ys(2)] by auto
  from set_foreach_fold(2) [OF ys(1) assms(1) d(1)] d(2,3) d0(1) ys(4) assms(2) show ?thesis
    by (simp add: setTypeConvertAndExpand_def assert_that_def)
qed

lemma convert_and_add_ok:
  assumes "set_wf env s" "set_encoding_of s \<noteq> OBJ_ENCODING_HT" "str \<notin> set_members s"
  shows "\<exists>s'. convert_and_add env s cap str = Some (True, s') \<and> set_inv env s' \<and> set_members s' = insert str (set_members s)"
proof -
  obtain d where d: "setTypeConvertAndExpand env True s OBJ_ENCODING_HT cap True = Some (True, Set_ht d)" "set_dict_ok env d"
      "dom (dict_abs (\<lambda>k. k) d) = set_members s" using convert_to_ht [OF assms(1,2)] by blast
  from add_new_ok [OF d(2), of str] d(1,3) assms(3) show ?thesis by (auto simp: convert_and_add_def)
qed

section \<open>Listpacks\<close>

lemma append_elem_ok:
  assumes "lp_stands lp xs" "elem_ok e" "lp_fits (map lp_entry_of (xs @ [elem_text e]))"
  shows "\<exists>lp'. append_elem env e lp = Some lp' \<and> lp_stands lp' (xs @ [elem_text e])"
proof (cases e)
  case (El_str s)
  with lpAppend_ok [of lp "map lp_entry_of xs" "junk env" s] assms show ?thesis
    by (auto simp: append_elem_def lp_not_null_def lp_put_ok_def lp_stands_def)
next
  case (El_int v)
  with lpAppendInteger_ok [of lp "map lp_entry_of xs" v "junk env"] assms show ?thesis
    by (auto simp: append_elem_def lp_not_null_def lp_put_ok_def lp_stands_def entry_of_lltext)
qed

lemma find_spec_first: "case find_spec s 0 0 xs of None \<Rightarrow> s \<notin> set xs | Some i \<Rightarrow> i < length xs \<and> xs ! i = s"
  by (induction xs) (auto split: option.splits)

lemma lp_search_ok:
  assumes "lp_stands lp xs"
  obtains (absent) "lp_search lp s = Some None" "s \<notin> set xs"
  | (present) i where "lp_search lp s = Some (Some (lp_pos (take i (map lp_entry_of xs))))" "i < length xs" "xs ! i = s"
proof -
  let ?es = "map lp_entry_of xs"
  have rep: "lp_rep lp ?es" using assms by (simp add: lp_stands_def)
  have "lp_search lp s = lpFind lp None s 0"
    using lpFirst_ok [OF rep] by (auto simp: lp_search_def lpFind_def lpFindCb_def lp_ptr_def)
  then have eq: "lp_search lp s = Some (map_option (\<lambda>j. lp_pos (take j ?es)) (find_spec s 0 0 xs))"
    using lpFind_ok [OF rep, of s 0] by (simp add: comp_def)
  show thesis using eq find_spec_first [of s xs] absent present by (cases "find_spec s 0 0 xs") auto
qed

lemma lp_body_append_length: "length (lp_body (map lp_entry_of (xs @ [s]))) \<le> length (lp_body (map lp_entry_of xs)) + length s + 14"
  using lp_entry_of_length [of s] by simp

lemma listpack_append_ok:
  assumes "set_lp_ok lp xs" "elem_ok e" "elem_text e \<notin> set xs" "length (elem_text e) < 2 ^ 31" "lpSafeToAdd (Some lp) (length (elem_text e))"
  shows "\<exists>lp'. append_elem env e lp = Some lp' \<and> set_lp_ok lp' (xs @ [elem_text e])"
proof -
  let ?n = "length (lp_body (map lp_entry_of xs))" and ?m = "length (elem_text e)"
  have stands: "lp_stands lp xs" "?n \<le> 2 ^ 30 + 20" "distinct xs" using assms(1) by (auto simp: set_lp_ok_def)
  have total: "lpGetTotalBytes lp = 7 + ?n" using lp_rep_total [of lp] stands(1) by (simp add: lp_pos_def lp_stands_def)
  have "uint32 (7 + ?n + ?m) = 7 + ?n + ?m" using stands(2) assms(4) by (intro uint32_small) simp
  then have "7 + ?n + ?m \<le> 2 ^ 30" using assms(5) by (simp add: lpSafeToAdd_def Let_def total split: if_splits)
  then have size: "length (lp_body (map lp_entry_of (xs @ [elem_text e]))) \<le> 2 ^ 30 + 20"
    using lp_body_append_length [of xs "elem_text e"] by simp
  then have "lp_fits (map lp_entry_of (xs @ [elem_text e]))" by (simp add: lp_fits_def)
  from append_elem_ok [OF stands(1) assms(2) this] size assms(3) stands(3) show ?thesis by (auto simp: set_lp_ok_def)
qed

lemma listpack_add_ok:
  assumes "set_lp_ok lp xs" "elem_ok e" "set_env_ok env"
  shows "\<exists>s'. listpack_add env lp e (elem_text e) = Some (elem_text e \<notin> set xs, s') \<and> set_inv env s'
    \<and> set_members s' = insert (elem_text e) (set xs)"
proof -
  let ?t = "elem_text e" and ?es = "map lp_entry_of xs"
  have stands: "lp_stands lp xs" using assms(1) by (simp add: set_lp_ok_def)
  then show ?thesis
  proof (cases rule: lp_search_ok [of lp xs ?t])
    case absent
    obtain lp' where lp': "lpLength lp = Some (length xs, lp')" "lp_rep lp' ?es"
      using lpLength_ok [of lp ?es] stands by (auto simp: lp_stands_def)
    then have ok': "set_lp_ok lp' xs" using assms(1) by (simp add: set_lp_ok_def lp_stands_def)
    show ?thesis
    proof (cases "length xs < set_max_listpack_entries env \<and> length ?t \<le> set_max_listpack_value env \<and> lpSafeToAdd (Some lp') (length ?t)")
      case True
      then obtain lp'' where "append_elem env e lp' = Some lp''" "set_lp_ok lp'' (xs @ [?t])"
        using listpack_append_ok [OF ok' assms(2) absent(2)] assms(3) by (auto simp: set_env_ok_def)
      then show ?thesis using True lp'(1) absent set_lp_members by (auto simp: listpack_add_def)
    next
      case False
      have "set_wf env (Set_listpack lp')" using ok' by auto
      from convert_and_add_ok [OF this _, of ?t "length xs + 1"] False lp'(1) absent set_lp_members [OF ok'] show ?thesis
        by (auto simp: listpack_add_def)
    qed
  next
    case (present i)
    then have "?t \<in> set xs" by (metis nth_mem)
    then show ?thesis using present assms(1) set_lp_members by (auto simp: listpack_add_def)
  qed
qed

lemma listpack_remove_ok:
  assumes "set_lp_ok lp xs"
  shows "\<exists>s'. listpack_remove env lp t = Some (t \<in> set xs, s') \<and> set_inv env s' \<and> set_members s' = set xs - {t}"
proof -
  let ?es = "map lp_entry_of xs"
  have stands: "lp_stands lp xs" using assms by (simp add: set_lp_ok_def)
  then show ?thesis
  proof (cases rule: lp_search_ok [of lp xs t])
    case absent
    then show ?thesis using assms set_lp_members by (auto simp: listpack_remove_def)
  next
    case (present i)
    let ?ys = "take i xs @ drop (Suc i) xs"
    have xs: "xs = take i xs @ xs ! i # drop (Suc i) xs" using present(2) by (simp add: id_take_nth_drop)
    have "lp_rep lp (take i ?es @ lp_entry_of (xs ! i) # drop (Suc i) ?es)"
      using lp_rep_nth [of lp ?es i] stands present(2) by (simp add: lp_stands_def)
    from lpDelete_ok [OF this, of "junk env"] obtain lp' q where
      lp': "lpDelete (junk env) lp (lp_pos (take i ?es)) = Some (Some (lp', q))" "lp_rep lp' (take i ?es @ drop (Suc i) ?es)" by blast
    have dist: "distinct (take i xs @ xs ! i # drop (Suc i) xs)" using assms xs by (simp add: set_lp_ok_def)
    have "length (lp_body (map lp_entry_of ?ys)) \<le> length (lp_body ?es)"
      using arg_cong [OF xs, of "\<lambda>zs. length (lp_body (map lp_entry_of zs))"] by simp
    then have "set_lp_ok lp' ?ys" using lp'(2) dist assms by (simp add: set_lp_ok_def lp_stands_def take_map drop_map)
    moreover have "set ?ys = set xs - {t}" using dist present(3) arg_cong [OF xs, of set] by auto
    moreover have "t \<in> set xs" using present by (metis nth_mem)
    ultimately show ?thesis using lp'(1) present set_lp_members
      by (auto simp: listpack_remove_def lp_not_null_def without_newp_def)
  qed
qed

section \<open>Intsets\<close>

lemma int_enc_length:
  "length (lpEncodeIntegerGetType v) =
    (if 0 \<le> v \<and> v \<le> 127 then 1 else if -4096 \<le> v \<and> v \<le> 4095 then 2 else if -32768 \<le> v \<and> v \<le> 32767 then 3
     else if -8388608 \<le> v \<and> v \<le> 8388607 then 4 else if -2147483648 \<le> v \<and> v \<le> 2147483647 then 5 else 9)"
  by (simp add: lpEncodeIntegerGetType_def Let_def)

lemma int_entry_size:
  "lpEntrySizeInteger v = length (lpEncodeIntegerGetType v) + 1" "length (lp_entry (Ent_int v)) = lpEntrySizeInteger v"
  "lpEntrySizeInteger v \<le> 10"
proof -
  have "length (lpEncodeIntegerGetType v) \<le> 9" by (simp add: int_enc_length)
  moreover from this have "lpBacklenSize (length (lpEncodeIntegerGetType v)) = 1" by (simp add: lpBacklenSize_def)
  ultimately show "lpEntrySizeInteger v = length (lpEncodeIntegerGetType v) + 1" "length (lp_entry (Ent_int v)) = lpEntrySizeInteger v"
    "lpEntrySizeInteger v \<le> 10"
    by (simp_all add: lpEntrySizeInteger_def Let_def lp_entry_def lp_enc_def lpBacklenSize_length [symmetric])
qed

text \<open>An integer between two others does not need more room than one of them.\<close>

lemma int_entry_between:
  assumes "mn \<le> v" "v \<le> mx"
  shows "lpEntrySizeInteger v \<le> max (lpEntrySizeInteger mx) (lpEntrySizeInteger mn)"
proof -
  have "length (lpEncodeIntegerGetType v) \<le> length (lpEncodeIntegerGetType mx)" if "0 \<le> v"
    using that assms(2) unfolding int_enc_length by (simp split: if_split)
  moreover have "length (lpEncodeIntegerGetType v) \<le> length (lpEncodeIntegerGetType mn)" if "v < 0"
    using that assms(1) unfolding int_enc_length by (simp split: if_split)
  ultimately show ?thesis unfolding int_entry_size(1) by (cases "0 \<le> v") (auto simp: le_max_iff_disj)
qed

lemma intset_between:
  assumes "intset_ok is" "v \<in> set (intset_vals is)"
  shows "intsetMin is \<le> v" "v \<le> intsetMax is"
proof -
  have sorted: "sorted_wrt (<) (intset_vals is)" using intset_okE [OF assms(1)] by metis
  obtain i where i: "i < length (intset_vals is)" "intset_vals is ! i = v" using assms(2) by (auto simp: in_set_conv_nth)
  have len: "length (intset_vals is) = is_length is" by (simp add: intset_vals_def)
  have "intsetMin is = intset_vals is ! 0" "intsetMax is = intset_vals is ! (is_length is - 1)"
    using i len by (auto simp: intsetMin_def intsetMax_def intset_vals_def)
  then show "intsetMin is \<le> v" "v \<le> intsetMax is"
    using i len sorted_nth_mono [of "intset_vals is" 0 i] sorted_nth_mono [of "intset_vals is" i "is_length is - 1"] sorted
    by (auto simp: strict_sorted_iff)
qed

definition intset_entry_max :: "intset \<Rightarrow> nat" where
  "intset_entry_max is = max (lpEntrySizeInteger (intsetMax is)) (lpEntrySizeInteger (intsetMin is))"

lemma intset_entry_max_bound: "intset_entry_max is \<le> 10"
  using int_entry_size(3) by (simp add: intset_entry_max_def)

lemma intset_body_length:
  assumes "intset_ok is" "set vs \<subseteq> set (intset_vals is)"
  shows "length (lp_body (map Ent_int vs)) \<le> length vs * intset_entry_max is"
  using assms(2)
proof (induction vs)
  case (Cons v vs)
  have "length (lp_entry (Ent_int v)) \<le> intset_entry_max is"
    using intset_between [OF assms(1), of v] Cons.prems int_entry_between [of "intsetMin is" v "intsetMax is"]
    by (simp add: int_entry_size(2) intset_entry_max_def)
  with Cons show ?case by simp
qed simp

lemma entries_of_ints: "list_all (fits 8) vs \<Longrightarrow> map lp_entry_of (map lltext vs) = map Ent_int vs"
  by (auto simp: list_all_iff entry_of_lltext)

lemma intset_fits:
  assumes ok: "intset_ok is" and room: "intsetLen is * intset_entry_max is \<le> 2 ^ 30" and vs: "intset_vals is = us @ ws"
  shows "length (lp_body (map lp_entry_of (map lltext us))) \<le> 2 ^ 30" "lp_fits (map lp_entry_of (map lltext us))"
proof -
  note vals = intset_vals_ok [OF ok]
  have us: "list_all (fits 8) us" using vals(1) vs by simp
  have "length us \<le> intsetLen is" using arg_cong [OF vs, of length] vals(3) by simp
  then have "length us * intset_entry_max is \<le> 2 ^ 30" using room by (meson le_trans mult_le_mono1)
  moreover have "set us \<subseteq> set (intset_vals is)" unfolding vs by auto
  ultimately show *: "length (lp_body (map lp_entry_of (map lltext us))) \<le> 2 ^ 30"
    using intset_body_length [OF ok, of us] unfolding entries_of_ints [OF us] by (meson le_trans)
  show "lp_fits (map lp_entry_of (map lltext us))" unfolding lp_fits_def using * by simp
qed

lemma append_ints_ok:
  assumes ok: "intset_ok is" and room: "intsetLen is * intset_entry_max is \<le> 2 ^ 30"
  shows "\<exists>lp. fold_opt (append_elem env) (map El_int (intset_vals is)) (lpNew (junk env) c) = Some lp
    \<and> lp_stands lp (map elem_text (map El_int (intset_vals is)))"
proof (rule fold_opt_invariant)
  show "lp_stands (lpNew (junk env) c) (map elem_text [])" using lpNew_ok by (simp add: lp_stands_def)
  fix ys y zs lp
  assume ys: "map El_int (intset_vals is) = ys @ y # zs" "lp_stands lp (map elem_text ys)"
  then obtain us v ws where us: "intset_vals is = (us @ [v]) @ ws" "ys = map El_int us" "y = El_int v"
    by (auto simp: map_eq_append_conv Cons_eq_map_conv)
  then have "elem_ok y" using intset_vals_ok(1) [OF ok] by simp
  with append_elem_ok [OF ys(2), of y env] intset_fits(2) [OF ok room us(1)] us(2,3)
  show "\<exists>lp'. append_elem env y lp = Some lp' \<and> lp_stands lp' (map elem_text (ys @ [y]))"
    by (simp add: comp_def)
qed

lemma convert_to_listpack:
  assumes ok: "intset_ok is" and room: "intsetLen is * intset_entry_max is \<le> 2 ^ 30"
  shows "\<exists>lp. setTypeConvertAndExpand env alloc (Set_intset is) OBJ_ENCODING_LISTPACK cap True = Some (True, Set_listpack lp)
    \<and> set_lp_ok lp (map lltext (intset_vals is))"
proof -
  let ?vs = "intset_vals is"
  define c where "c = (if intsetLen is > 0
      then max (lpEstimateBytesRepeatedInteger (intsetMin is) cap) (lpEstimateBytesRepeatedInteger (intsetMax is) cap)
      else uint32 (cap * 2))"
  have wf: "set_wf env (Set_intset is)" "set_before env (Set_intset is) (setTypeInitIterator (Set_intset is)) (map El_int ?vs)"
    using ok by simp_all
  obtain lp where lp: "fold_opt (append_elem env) (map El_int ?vs) (lpNew (junk env) c) = Some lp" "lp_stands lp (map lltext ?vs)"
    using append_ints_ok [OF assms, of env c] by (auto simp: comp_def)
  have "setTypeConvertAndExpand env alloc (Set_intset is) OBJ_ENCODING_LISTPACK cap True = Some (True, Set_listpack lp)"
    using set_foreach_fold(1) [OF wf(2,1) lp(1)] by (simp add: setTypeConvertAndExpand_def assert_that_def c_def)
  moreover have "distinct (map lltext ?vs)"
    using intset_vals_ok [OF ok] by (auto simp: distinct_map list_all_iff lltext_inject intro!: inj_onI)
  ultimately show ?thesis using lp(2) intset_fits(1) [OF assms, of ?vs "[]"] by (simp add: set_lp_ok_def)
qed

lemma estimate_eq: "n \<le> 2 ^ 26 \<Longrightarrow> lpEstimateBytesRepeatedInteger v n = 7 + lpEntrySizeInteger v * n"
  using int_entry_size(3) [of v] mult_le_mono [of "lpEntrySizeInteger v" 10 n "2 ^ 26"]
  by (simp add: lpEstimateBytesRepeatedInteger_def)

lemma lpSafeToAdd_new: "n < 2 ^ 32 \<Longrightarrow> lpSafeToAdd None (uint32 n) \<longleftrightarrow> n \<le> 2 ^ 30"
  by (auto simp: lpSafeToAdd_def)

lemma intset_string_room:
  assumes "n \<le> 2 ^ 26" "m < 2 ^ 31" "n \<noteq> 0"
    and "lpSafeToAdd None (uint32 (max (lpEstimateBytesRepeatedInteger (intsetMax is) n) (lpEstimateBytesRepeatedInteger (intsetMin is) n) + m))"
  shows "n * intset_entry_max is + 7 + m \<le> 2 ^ 30"
proof -
  have eq: "max (lpEstimateBytesRepeatedInteger (intsetMax is) n) (lpEstimateBytesRepeatedInteger (intsetMin is) n) = 7 + n * intset_entry_max is"
    using assms(1) by (simp add: estimate_eq intset_entry_max_def nat_mult_max_right mult.commute max_def)
  have "n * intset_entry_max is \<le> 2 ^ 26 * 10" using assms(1) intset_entry_max_bound by (intro mult_le_mono)
  then have "7 + n * intset_entry_max is + m < 2 ^ 32" using assms(2) by simp
  from assms(4) lpSafeToAdd_new [OF this] show ?thesis unfolding eq by simp
qed

lemma intset_members_string: "intset_ok is \<Longrightarrow> string2ll s = None \<Longrightarrow> s \<notin> set_members (Set_intset is)"
  using intset_vals_ok(1) [of "is"] string2ll_iff [of s] by (auto simp: intset_set_def list_all_iff fits_8)

lemma intset_members_int:
  "intset_ok is \<Longrightarrow> fits 8 v \<Longrightarrow> lltext v \<in> set_members (Set_intset is) \<longleftrightarrow> v \<in> intset_set is"
  using intset_vals_ok(1) [of "is"] by (auto simp: intset_set_def list_all_iff lltext_inject)

lemma intset_string_append:
  assumes "intset_ok is" "string2ll str = None" "intsetLen is * intset_entry_max is + length str \<le> 2 ^ 30"
  defines "xs \<equiv> map lltext (intset_vals is)"
  obtains lp lp' where "setTypeConvertAndExpand env True (Set_intset is) OBJ_ENCODING_LISTPACK cap True = Some (True, Set_listpack lp)"
    "append_elem env (El_str str) lp = Some lp'" "set_lp_ok (lpShrinkToFit (junk env) lp') (xs @ [str])"
proof -
  obtain lp where lp: "setTypeConvertAndExpand env True (Set_intset is) OBJ_ENCODING_LISTPACK cap True = Some (True, Set_listpack lp)"
      "set_lp_ok lp xs"
    using convert_to_listpack [OF assms(1), of env True cap] assms(3) by (auto simp: xs_def)
  have new: "str \<notin> set xs" using intset_members_string [OF assms(1,2)] by (simp add: xs_def intset_set_def)
  have "map lp_entry_of xs = map Ent_int (intset_vals is)" unfolding xs_def by (rule entries_of_ints [OF intset_vals_ok(1) [OF assms(1)]])
  then have "length (lp_body (map lp_entry_of xs)) \<le> intsetLen is * intset_entry_max is"
    using intset_body_length [OF assms(1) order_refl] intset_vals_ok(3) [OF assms(1)] by simp
  then have size: "length (lp_body (map lp_entry_of (xs @ [str]))) \<le> 2 ^ 30 + 20"
    using lp_body_append_length [of xs str] assms(3) by linarith
  then have "lp_fits (map lp_entry_of (xs @ [elem_text (El_str str)]))" by (simp add: lp_fits_def)
  then obtain lp' where lp': "append_elem env (El_str str) lp = Some lp'" "lp_stands lp' (xs @ [str])"
    using append_elem_ok [of lp xs "El_str str" env] lp(2) by (auto simp: set_lp_ok_def)
  then have "set_lp_ok (lpShrinkToFit (junk env) lp') (xs @ [str])"
    using lpShrinkToFit_ok [of lp'] size new lp(2) by (auto simp: set_lp_ok_def lp_stands_def)
  with lp(1) lp'(1) that show thesis by blast
qed

lemma intset_add_string_ok:
  assumes "intset_ok is" "string2ll str = None" "set_env_ok env"
  shows "\<exists>s'. intset_add_string env is str = Some (True, s') \<and> set_inv env s' \<and> set_members s' = insert str (set_members (Set_intset is))"
proof -
  define n where "n = intsetLen is"
  define maxelelen where "maxelelen = (if n \<noteq> 0 then max (sdigits10 (intsetMax is)) (sdigits10 (intsetMin is)) else 0)"
  define totsize where "totsize = (if n \<noteq> 0
      then max (lpEstimateBytesRepeatedInteger (intsetMax is) n) (lpEstimateBytesRepeatedInteger (intsetMin is) n) else 0)"
  note unfold = intset_add_string_def n_def [symmetric] maxelelen_def [symmetric] totsize_def [symmetric] Let_def
  show ?thesis
  proof (cases "n < set_max_listpack_entries env \<and> length str \<le> set_max_listpack_value env \<and> maxelelen \<le> set_max_listpack_value env \<and>
         lpSafeToAdd None (uint32 (totsize + length str))")
    case True
    then have "n \<le> 2 ^ 26" "length str < 2 ^ 31" using assms(3) by (auto simp: set_env_ok_def)
    then have "intsetLen is * intset_entry_max is + length str \<le> 2 ^ 30"
      using intset_string_room [of n "length str" "is"] lpSafeToAdd_new [of "length str"] True
      by (cases "n = 0") (auto simp: totsize_def n_def)
    from intset_string_append [OF assms(1,2) this] obtain lp lp' where
      "setTypeConvertAndExpand env True (Set_intset is) OBJ_ENCODING_LISTPACK (n + 1) True = Some (True, Set_listpack lp)"
      "append_elem env (El_str str) lp = Some lp'" "set_lp_ok (lpShrinkToFit (junk env) lp') (map lltext (intset_vals is) @ [str])" .
    then show ?thesis using True set_lp_members unfolding unfold by (auto simp: intset_set_def)
  next
    case False
    then have "intset_add_string env is str = convert_and_add env (Set_intset is) (n + 1) str" unfolding unfold by auto
    then show ?thesis
      using convert_and_add_ok [of env "Set_intset is" str "n + 1"] assms(1) intset_members_string [OF assms(1,2)] by simp
  qed
qed

end
