(* ===== verification/Redis_Set_Proofs.thy ===== *)
theory Redis_Set_Proofs
  imports Redis_Set_Enc Simulation
begin

text \<open>
  What the operations on set objects do on each encoding, and the refinement of sets of strings by sequences of them: the invariants
  and the simulations of the intset, the listpack and the hash table put together.
\<close>

section \<open>Operations\<close>

text \<open>An operation returns \<open>r\<close> and leaves a set object that stands for \<open>A\<close>.\<close>

definition set_result :: "set_env \<Rightarrow> ('r \<times> setobj) option \<Rightarrow> 'r \<Rightarrow> byte list set \<Rightarrow> bool" where
  "set_result env q r A \<longleftrightarrow> (\<exists>s'. q = Some (r, s') \<and> set_inv env s' \<and> set_members s' = A)"

lemma ht_add_eq: "ht_add env d str = map_option (\<lambda>(x, d). (isl x, Set_ht d)) (dictAddRaw (can_resize env) (set_type env) d str)"
  by (auto simp: ht_add_def dictAddRaw_def set_no_value option.map_comp comp_def split_def split: option.split sum.split)

lemma ht_add_ok:
  assumes "set_dict_ok env d"
  shows "set_result env (ht_add env d str) (str \<notin> set_members (Set_ht d)) (insert str (set_members (Set_ht d)))"
proof (cases rule: set_type_add [OF assms, of "can_resize env" str])
  case (1 x d')
  then show ?thesis by (simp add: set_result_def ht_add_eq)
next
  case (2 x d')
  then show ?thesis by (auto simp: set_result_def ht_add_eq)
qed

lemma intset_max_small: "set_env_ok env \<Longrightarrow> intsetMaxEntries env < 536870909"
  by (simp add: set_env_ok_def intsetMaxEntries_def Let_def)

lemma maybeConvertIntset_ok:
  assumes "intset_ok is"
  shows "\<exists>s'. maybeConvertIntset env is = Some s' \<and> set_inv env s' \<and> set_members s' = set_members (Set_intset is)"
proof (cases "intsetLen is > intsetMaxEntries env")
  case True
  have wf: "set_wf env (Set_intset is)" using assms by simp
  from convert_to_ht [OF wf, of True "intsetLen is"] True show ?thesis
    by (auto simp: maybeConvertIntset_def setTypeConvert_def)
qed (use assms in \<open>auto simp: maybeConvertIntset_def\<close>)

lemma intset_add_ok':
  assumes "set_inv env (Set_intset is)" "fits 8 v" "set_env_ok env"
  shows "set_result env (intset_add env is v) (lltext v \<notin> set_members (Set_intset is)) (insert (lltext v) (set_members (Set_intset is)))"
proof -
  have ok: "intset_ok is" "card (intset_set is) < 536870910"
    using assms(1) intset_max_small [OF assms(3)] intset_card by auto
  then obtain is' b where is': "intsetAdd (junk env) is v = Some (is', b)" using intset_add_room [OF ok(1) assms(2) ok(2), of "junk env"] by auto
  then have "intset_ok is'" "intset_set is' = insert v (intset_set is)" "b = (v \<notin> intset_set is)"
    using intset_add_ok [OF ok(1) assms(2), of "junk env"] by auto
  moreover have "is' = is" if "\<not> b" using is' intset_add_old that calculation(3) ok(1) by (auto elim!: intset_okE simp: intset_set_def)
  ultimately show ?thesis
    using is' maybeConvertIntset_ok [of is' env] assms(1) intset_members_int [OF ok(1) assms(2)]
    by (auto simp: set_result_def intset_add_def)
qed

lemma setTypeAddAux_ok:
  assumes "set_inv env s" "elem_ok e" "set_env_ok env"
  shows "set_result env (setTypeAddAux env s e) (elem_text e \<notin> set_members s) (insert (elem_text e) (set_members s))"
proof (cases s)
  case (Set_ht d)
  then show ?thesis using ht_add_ok assms(1,2) by (simp add: elem_string_eq)
next
  case (Set_listpack lp)
  with assms(1) obtain xs where "set_lp_ok lp xs" by auto
  with Set_listpack listpack_add_ok [OF this assms(2,3)] set_lp_members [OF this] assms(2) show ?thesis
    by (simp add: set_result_def elem_string_eq)
next
  case (Set_intset "is")
  have int: "set_result env (intset_add env is v) (lltext v \<notin> set_members s) (insert (lltext v) (set_members s))" if "fits 8 v" for v
    using intset_add_ok' [OF _ that assms(3)] assms(1) Set_intset by simp
  show ?thesis
  proof (cases e)
    case (El_int v)
    then show ?thesis using int assms(2) Set_intset by simp
  next
    case (El_str str)
    show ?thesis
    proof (cases "string2ll str")
      case None
      then show ?thesis using intset_add_string_ok [of "is" str env] intset_members_string [of "is" str] assms El_str Set_intset
        by (auto simp: set_result_def)
    next
      case (Some v)
      then have "fits 8 v" "str = lltext v" using string2ll_iff [of str v] by (auto simp: fits_8)
      then show ?thesis using int Some El_str Set_intset by simp
    qed
  qed
qed

lemma intset_remove_set_ok:
  assumes "set_inv env (Set_intset is)" "fits 8 v"
  shows "set_result env (intset_remove env is v) (lltext v \<in> set_members (Set_intset is)) (set_members (Set_intset is) - {lltext v})"
proof -
  have ok: "intset_ok is" using assms(1) by simp
  obtain is' b where is': "intsetRemove (junk env) is v = Some (is', b)" "intset_ok is'" "intset_set is' = intset_set is - {v}"
      "b = (v \<in> intset_set is)" using intset_remove_ok [OF ok assms(2), of "junk env"] by blast
  have "lltext ` (intset_set is - {v}) = lltext ` intset_set is - {lltext v}"
    using intset_vals_ok(1) [OF ok] assms(2) by (auto simp: intset_set_def list_all_iff lltext_inject)
  moreover have "finite (intset_set is)" by (simp add: intset_set_def)
  then have "intsetLen is' \<le> intsetLen is"
    using intset_card [OF ok] intset_card [OF is'(2)] is'(3) by (metis Diff_subset card_mono)
  ultimately show ?thesis using is' assms(1) intset_members_int [OF ok assms(2)] by (simp add: set_result_def intset_remove_def)
qed

lemma setTypeRemoveAux_ok:
  assumes "set_inv env s" "elem_ok e"
  shows "set_result env (setTypeRemoveAux env s e) (elem_text e \<in> set_members s) (set_members s - {elem_text e})"
proof (cases s)
  case (Set_ht d)
  have d: "dict_ok (setDictType (hash_seed env)) (\<lambda>k. k) (dictSdsHash (hash_seed env)) (\<lambda>_ _. True) d" "\<not> useStoredKeyApi d"
    "pauseAutoResize d \<le> 0" using assms(1) Set_ht by (auto simp: set_dict_ok_def dict_inv_def set_type_def)
  obtain x d' where d': "dictGenericDelete (can_resize env) (set_type env) False d (elem_text e) = Some (x, d')"
    "dict_ok (set_type env) (\<lambda>k. k) (dictSdsHash (hash_seed env)) (\<lambda>_ _. True) d'"
    "dict_abs (\<lambda>k. k) d' = (dict_abs (\<lambda>k. k) d)(elem_text e := None)" "dict_abs (\<lambda>k. k) d (elem_text e) = map_option entry_val x"
    "useStoredKeyApi d' = useStoredKeyApi d" "pauseAutoResize d' = pauseAutoResize d"
    using set_type.dictGenericDelete_ok [OF d(1), where k = "elem_text e" and R = "can_resize env" and nofree = False]
    unfolding set_type_def by blast
  then have "set_dict_ok env d'" "dom (dict_abs (\<lambda>k. k) d') = dom (dict_abs (\<lambda>k. k) d) - {elem_text e}"
    using d by (simp_all add: set_dict_ok_def dict_inv_def)
  moreover have "elem_text e \<in> dom (dict_abs (\<lambda>k. k) d) \<longleftrightarrow> x \<noteq> None" using d'(4) by (cases x) auto
  ultimately show ?thesis using d'(1) Set_ht assms(2) by (cases x) (simp_all add: set_result_def dictDelete_def elem_string_eq)
next
  case (Set_listpack lp)
  with assms(1) obtain xs where "set_lp_ok lp xs" by auto
  with Set_listpack listpack_remove_ok [OF this, of env "elem_text e"] set_lp_members [OF this] assms(2) show ?thesis
    by (simp add: set_result_def elem_string_eq)
next
  case (Set_intset "is")
  have int: "set_result env (intset_remove env is v) (lltext v \<in> set_members s) (set_members s - {lltext v})" if "fits 8 v" for v
    using intset_remove_set_ok [OF _ that] assms(1) Set_intset by simp
  show ?thesis
  proof (cases e)
    case (El_int v)
    then show ?thesis using int assms(2) Set_intset by simp
  next
    case (El_str str)
    show ?thesis
    proof (cases "string2ll str")
      case None
      then show ?thesis using intset_members_string [of "is" str] assms El_str Set_intset by (auto simp: set_result_def)
    next
      case (Some v)
      then have "fits 8 v" "str = lltext v" using string2ll_iff [of str v] by (auto simp: fits_8)
      then show ?thesis using int Some El_str Set_intset by simp
    qed
  qed
qed

lemma ht_member_ok:
  assumes "set_dict_ok env d"
  shows "set_result env (map_option (\<lambda>(r, d). (r \<noteq> None, Set_ht d)) (dictFind (can_resize env) (set_type env) d str))
    (str \<in> set_members (Set_ht d)) (set_members (Set_ht d))"
proof -
  have d: "dict_ok (setDictType (hash_seed env)) (\<lambda>k. k) (dictSdsHash (hash_seed env)) (\<lambda>_ _. True) d"
    using assms by (auto simp: set_dict_ok_def dict_inv_def set_type_def)
  obtain r d' where d': "dictFind (can_resize env) (set_type env) d str = Some (r, d')"
      "dict_kept (set_type env) (\<lambda>k. k) (dictSdsHash (hash_seed env)) (\<lambda>_ _. True) d d'"
      "search_result (\<lambda>k. k) d' (dict_entries d') str r"
    using set_type.dictFind_ok [OF d, where k = str and R = "can_resize env"] unfolding set_type_def by blast
  note kept = set_dict_kept [OF assms d'(2)]
  have "dict_abs (\<lambda>k. k) d' str = map_option (\<lambda>r. entry_val (entry_at d' r)) r"
    using search_result_abs [OF _ d'(3)] set_dict_ok_dict kept by blast
  then show ?thesis using d'(1) kept by (auto simp: set_result_def domIff)
qed

lemma intset_member_ok: "intset_ok is \<Longrightarrow> fits 8 v \<Longrightarrow> intsetFind is v \<longleftrightarrow> lltext v \<in> set_members (Set_intset is)"
  using intset_find intset_members_int by (auto elim!: intset_okE simp: intset_set_def)

lemma setTypeIsMemberAux_ok:
  assumes "set_inv env s" "elem_ok e"
  shows "set_result env (setTypeIsMemberAux env s e) (elem_text e \<in> set_members s) (set_members s)"
proof (cases s)
  case (Set_ht d)
  then show ?thesis using ht_member_ok assms by (simp add: elem_string_eq)
next
  case (Set_listpack lp)
  with assms(1) obtain xs where xs: "set_lp_ok lp xs" by auto
  then have "lp_stands lp xs" by (simp add: set_lp_ok_def)
  then have "map_option (\<lambda>p. p \<noteq> None) (lp_search lp (elem_text e)) = Some (elem_text e \<in> set xs)"
    by (cases rule: lp_search_ok [of lp xs "elem_text e"]) (auto simp: in_set_conv_nth)
  then show ?thesis using Set_listpack xs set_lp_members [OF xs] assms(2)
    by (auto simp: set_result_def elem_string_eq)
next
  case (Set_intset "is")
  have "fits 8 v \<and> str = lltext v" if "string2ll str = Some v" for str v
    using string2ll_iff [of str v] that by (auto simp: fits_8)
  moreover have "str \<notin> set_members s" if "string2ll str = None" for str
    using intset_members_string [of "is" str] that Set_intset assms(1) by simp
  ultimately show ?thesis using Set_intset assms intset_member_ok [of "is"]
    by (cases e; cases "string2ll (elem_text e)") (auto simp: set_result_def simp del: set_members.simps)
qed

lemma setTypeMaybeConvert_ok:
  assumes "set_inv env s"
  shows "\<exists>s'. setTypeMaybeConvert env s hint = Some s' \<and> set_inv env s' \<and> set_members s' = set_members s"
proof (cases "set_encoding_of s = OBJ_ENCODING_LISTPACK \<and> hint > set_max_listpack_entries env \<or>
         set_encoding_of s = OBJ_ENCODING_INTSET \<and> hint > set_max_intset_entries env")
  case True
  then have "set_encoding_of s \<noteq> OBJ_ENCODING_HT" by auto
  from convert_to_ht [OF set_inv_wf [OF assms] this, of True hint] True show ?thesis by (auto simp: setTypeMaybeConvert_def)
qed (use assms in \<open>auto simp: setTypeMaybeConvert_def\<close>)

lemma setTypeSize_result: "set_inv env s \<Longrightarrow> set_result env (setTypeSize s) (card (set_members s)) (set_members s)"
  using setTypeSize_ok [OF set_inv_wf, of env s] by (cases s) (auto simp: set_result_def)

text \<open>The elements that a loop over the set sees, each of them once.\<close>

definition set_elements :: "set_env \<Rightarrow> setobj \<Rightarrow> byte list multiset option" where
  "set_elements env s = set_foreach env (setTypeNextObject env s) s (\<lambda>x a. Some (add_mset x a)) {#}"

lemma fold_add_mset: "fold_opt (\<lambda>x a. Some (add_mset x a)) xs a = Some (a + mset xs)"
  by (induction xs arbitrary: a) simp_all

lemma set_elements_ok:
  assumes "set_wf env s"
  shows "set_elements env s = Some (mset_set (set_members s))"
proof -
  obtain ys where ys: "set_before env s (setTypeInitIterator s) ys" "list_all elem_ok ys" "distinct (map elem_text ys)"
      "set_members s = elem_text ` set ys" using set_elems_exist [OF assms] by (auto simp: set_elems_are_def)
  have "set_elements env s = Some ({#} + mset (map (elem_string env) ys))"
    unfolding set_elements_def by (rule set_foreach_fold(2) [OF ys(1) assms fold_add_mset])
  then show ?thesis using ys(2,4) mset_set_set [OF ys(3)] by (simp add: elem_strings)
qed

lemma setTypeCreate_ok: "\<exists>s. setTypeCreate env val hint = Some s \<and> set_inv env s \<and> set_members s = {}"
proof -
  have "\<exists>s. map_option (\<lambda>(r, d). Set_ht d) (dictExpand dictCreate hint) = Some s \<and> set_inv env s \<and> set_members s = {}"
    by (rule dictExpand_create [of hint env]) auto
  moreover have "set_lp_ok (lpNew (junk env) 0) []" using lpNew_ok by (simp add: set_lp_ok_def lp_stands_def)
  moreover have "intset_ok intsetNew" "intset_set intsetNew = {}" "intsetLen intsetNew = 0"
    using intset_new_ok by (auto simp: intsetLen_def intsetNew_def)
  ultimately show ?thesis
    using set_lp_members [of "lpNew (junk env) 0" "[]"]
    by (auto simp: setTypeCreate_def createIntsetObject_def createSetListpackObject_def)
qed

section \<open>Copies and conversion to an intset\<close>

lemma lpDup_ok: "lp_rep lp es \<Longrightarrow> \<exists>lp'. lpDup lp = Some lp' \<and> lp_rep lp' es"
proof -
  assume rep: "lp_rep lp es"
  then obtain num S where s: "lp = lp_header (7 + length (lp_body es)) num @ lp_body es @ LP_EOF # S"
      "7 + length (lp_body es) < 2 ^ 32" "num \<le> 65535" "num = length es \<or> num = LP_HDR_NUMELE_UNKNOWN" "list_all entry_ok es"
    unfolding lp_rep_def by (elim exE conjE) (rule that, simp_all)
  have "lpDup lp = Some (take (7 + length (lp_body es)) lp)"
    using lp_rep_total [OF rep] s(1) by (simp add: lpDup_def lpBytes_def lp_read_def byte_range_def lp_pos_def)
  also have "take (7 + length (lp_body es)) lp = lp_header (7 + length (lp_body es)) num @ lp_body es @ [LP_EOF]"
    using s(1) by simp
  finally show ?thesis using s(2-5) by (auto simp: lp_rep_def)
qed

lemma intset_dup_ok: "intset_ok is \<Longrightarrow> setTypeDup env (Set_intset is) = Some (Set_intset is)"
proof -
  assume "intset_ok is"
  then obtain vs where vs: "intset_rep is vs []" "length vs * is_encoding is \<le> SIZE_MAX - sizeof_intset" by (auto elim: intset_okE)
  then have "length (is_contents is) = is_length is * is_encoding is" by (simp add: intset_rep_def)
  moreover have "intsetBlobLen is = 8 + is_length is * is_encoding is"
    using vs by (simp add: intset_rep_def intsetBlobLen_def)
  ultimately show ?thesis by simp
qed

lemma dup_add_all:
  assumes "set_inv env s" "set_members s = {}" "set_env_ok env" "list_all elem_ok ys"
  shows "\<exists>s'. fold_opt (dup_add env) ys s = Some s' \<and> set_inv env s' \<and> set_members s' = elem_text ` set ys"
proof (rule fold_opt_invariant [where I = "\<lambda>ys s. set_inv env s \<and> set_members s = elem_text ` set ys"])
  fix us u ws s
  assume u: "ys = us @ u # ws" "set_inv env s \<and> set_members s = elem_text ` set us"
  then have "elem_string env u = elem_text u" using assms(4) by (simp add: elem_string_eq)
  with setTypeAddAux_ok [of env s "El_str (elem_text u)"] u(2) assms(3)
  show "\<exists>s'. dup_add env u s = Some s' \<and> set_inv env s' \<and> set_members s' = elem_text ` set (us @ [u])"
    by (auto simp: dup_add_def setTypeAdd_def set_result_def)
qed (use assms in simp)

lemma setTypeDup_ok:
  assumes "set_inv env s" "set_env_ok env"
  shows "\<exists>s'. setTypeDup env s = Some s' \<and> set_inv env s' \<and> set_members s' = set_members s"
proof (cases s)
  case (Set_ht d)
  obtain ys where ys: "set_before env s (setTypeInitIterator s) ys" "list_all elem_ok ys" "set_members s = elem_text ` set ys"
    using set_elems_exist [OF set_inv_wf [OF assms(1)]] by (auto simp: set_elems_are_def)
  obtain r d' where d': "dictExpand dictCreate (dictSize d) = Some (r, d')" "set_dict_ok env d'" "dom (dict_abs (\<lambda>k. k) d') = {}"
    using dictExpand_create .
  then obtain s' where s': "fold_opt (dup_add env) ys (Set_ht d') = Some s'" "set_inv env s'" "set_members s' = elem_text ` set ys"
    using dup_add_all [of env "Set_ht d'" ys] assms(2) ys(2) by auto
  from set_foreach_fold(1) [OF ys(1) set_inv_wf [OF assms(1)] s'(1)] d'(1) s' ys(3) Set_ht show ?thesis by simp
next
  case (Set_intset "is")
  then show ?thesis using intset_dup_ok [of "is" env] assms(1) by (simp del: setTypeDup.simps)
next
  case (Set_listpack lp)
  with assms(1) obtain xs where xs: "set_lp_ok lp xs" by auto
  then obtain lp' where "lpDup lp = Some lp'" "set_lp_ok lp' xs"
    using lpDup_ok [of lp "map lp_entry_of xs"] by (auto simp: set_lp_ok_def lp_stands_def)
  then show ?thesis using Set_listpack xs set_lp_members by auto
qed

text \<open>A set of integers that are few enough becomes an intset with the same elements.\<close>

lemma add_ints_new:
  assumes "list_all elem_ok ys" "distinct (map elem_text ys)" "\<And>y. y \<in> set ys \<Longrightarrow> string2ll (elem_text y) \<noteq> None"
    "length ys < 536870910"
  shows "\<exists>is. fold_opt (add_int_new env) ys intsetNew = Some is \<and> intset_ok is \<and> lltext ` intset_set is = elem_text ` set ys"
proof (rule fold_opt_invariant [where I = "\<lambda>ys is. intset_ok is \<and> lltext ` intset_set is = elem_text ` set ys"])
  fix us u ws "is"
  assume u: "ys = us @ u # ws" "intset_ok is \<and> lltext ` intset_set is = elem_text ` set us"
  obtain v where v: "(case u of El_str s \<Rightarrow> string2ll s | El_int v \<Rightarrow> Some v) = Some v" "elem_text u = lltext v" "fits 8 v"
    using assms(1) assms(3) [of u] u(1) string2ll_iff by (cases u) (auto simp: fits_8)
  have "lltext v \<notin> elem_text ` set us" using assms(2) unfolding u(1) v(2) [symmetric] by auto
  then have new: "v \<notin> intset_set is" using u(2) by (metis imageI)
  have "finite (intset_set is)" "inj_on lltext (intset_set is)"
    using intset_vals_ok(1) u(2) by (auto simp: intset_set_def inj_on_def lltext_inject list_all_iff)
  then have "card (intset_set is) < 536870910"
    using card_image [of lltext "intset_set is"] u assms(4) card_image_le [of "set us" elem_text] card_length [of us] by simp
  then obtain is' b where is': "intsetAdd (junk env) is v = Some (is', b)" using intset_add_room [of "is" v "junk env"] u(2) v(3) by auto
  then have "intset_ok is'" "intset_set is' = insert v (intset_set is)" "b"
    using intset_add_ok [of "is" v "junk env"] u(2) v(3) new by simp_all
  with is' v(1,2) u(2)
  show "\<exists>is'. add_int_new env u is = Some is' \<and> intset_ok is' \<and> lltext ` intset_set is' = elem_text ` set (us @ [u])"
    by (simp add: add_int_new_def assert_that_def)
qed (use intset_new_ok in simp)

lemma maybeConvertToIntset_ok:
  assumes "set_inv env s" "set_env_ok env" "\<And>x. x \<in> set_members s \<Longrightarrow> string2ll x \<noteq> None"
  shows "\<exists>s'. maybeConvertToIntset env s = Some s' \<and> set_inv env s' \<and> set_members s' = set_members s"
proof -
  obtain s1 where s1: "setTypeSize s = Some (card (set_members s), s1)" "set_inv env s1" "set_members s1 = set_members s"
    using setTypeSize_result [OF assms(1)] by (auto simp: set_result_def)
  show ?thesis
  proof (cases "set_encoding_of s = OBJ_ENCODING_INTSET \<or> card (set_members s) > intsetMaxEntries env")
    case True
    then show ?thesis using s1 assms(1) by (auto simp: maybeConvertToIntset_def)
  next
    case False
    obtain ys where ys: "set_before env s1 (setTypeInitIterator s1) ys" "list_all elem_ok ys" "distinct (map elem_text ys)"
        "set_members s1 = elem_text ` set ys" "length ys = card (set_members s1)"
      using set_elems_exist [OF set_inv_wf [OF s1(2)]] set_elems_card by (metis set_elems_are_def)
    then have "\<And>y. y \<in> set ys \<Longrightarrow> string2ll (elem_text y) \<noteq> None" "length ys < 536870910"
      using assms(3) s1(3) False intset_max_small [OF assms(2)] by auto
    from add_ints_new [OF ys(2,3) this, of env] obtain "is" where
      "is": "fold_opt (add_int_new env) ys intsetNew = Some is" "intset_ok is" "set_members (Set_intset is) = set_members s"
      using ys(4) s1(3) by auto
    have "intsetLen is = card (set_members s)" using setTypeSize_ok [of env "Set_intset is"] "is"(2,3) by auto
    then have "set_inv env (Set_intset is)" using "is"(2) False by simp
    then show ?thesis using set_foreach_fold(1) [OF ys(1) set_inv_wf [OF s1(2)] "is"(1)] s1(1) "is"(3) False
      by (simp add: maybeConvertToIntset_def)
  qed
qed

section \<open>Refinement of sets of strings\<close>

datatype set_op =
    Set_add set_elem
  | Set_remove set_elem
  | Set_is_member set_elem
  | Set_size
  | Set_elements
  | Set_maybe_convert nat
  | Set_dup

datatype set_res = Res_bool bool | Res_size nat | Res_elements "byte list multiset" | Res_unit

text \<open>
  A step with the setting \<open>R\<close> of \<open>dict_can_resize\<close>, which may be another one at every step. \<open>Set_dup\<close> goes on with the copy.
\<close>

definition set_step :: "set_env \<Rightarrow> dict_resize \<times> set_op \<Rightarrow> setobj \<Rightarrow> (set_res \<times> setobj) option" where
  "set_step env x s =
     (let env = env\<lparr>can_resize := fst x\<rparr> in
      case snd x of
        Set_add e \<Rightarrow> map_option (apfst Res_bool) (setTypeAddAux env s e)
      | Set_remove e \<Rightarrow> map_option (apfst Res_bool) (setTypeRemoveAux env s e)
      | Set_is_member e \<Rightarrow> map_option (apfst Res_bool) (setTypeIsMemberAux env s e)
      | Set_size \<Rightarrow> map_option (apfst Res_size) (setTypeSize s)
      | Set_elements \<Rightarrow> map_option (\<lambda>a. (Res_elements a, s)) (set_elements env s)
      | Set_maybe_convert n \<Rightarrow> map_option (Pair Res_unit) (setTypeMaybeConvert env s n)
      | Set_dup \<Rightarrow> map_option (Pair Res_unit) (setTypeDup env s))"

definition string_set_step :: "dict_resize \<times> set_op \<Rightarrow> byte list set \<Rightarrow> set_res \<times> byte list set" where
  "string_set_step x A =
     (case snd x of
        Set_add e \<Rightarrow> (Res_bool (elem_text e \<notin> A), insert (elem_text e) A)
      | Set_remove e \<Rightarrow> (Res_bool (elem_text e \<in> A), A - {elem_text e})
      | Set_is_member e \<Rightarrow> (Res_bool (elem_text e \<in> A), A)
      | Set_size \<Rightarrow> (Res_size (card A), A)
      | Set_elements \<Rightarrow> (Res_elements (mset_set A), A)
      | Set_maybe_convert n \<Rightarrow> (Res_unit, A)
      | Set_dup \<Rightarrow> (Res_unit, A))"

fun set_op_ok :: "set_op \<Rightarrow> bool" where
  "set_op_ok (Set_add e) \<longleftrightarrow> elem_ok e"
| "set_op_ok (Set_remove e) \<longleftrightarrow> elem_ok e"
| "set_op_ok (Set_is_member e) \<longleftrightarrow> elem_ok e"
| "set_op_ok _ \<longleftrightarrow> True"

lemma set_env_resize [simp]:
  "set_inv (env\<lparr>can_resize := R\<rparr>) s = set_inv env s" "set_env_ok (env\<lparr>can_resize := R\<rparr>) = set_env_ok env"
  by (cases s; simp add: set_dict_ok_def set_type_def intsetMaxEntries_def) (simp add: set_env_ok_def)

lemma set_result_step:
  assumes "set_result (env\<lparr>can_resize := R\<rparr>) q r A"
  shows "\<exists>s'. map_option (apfst f) q = Some (f r, s') \<and> set_inv env s' \<and> set_members s' = A"
  using assms by (auto simp: set_result_def)

interpretation setsim: simulation "\<lambda>x. set_op_ok (snd x)" "\<lambda>s. set_inv env s \<and> set_env_ok env" set_members "set_step env" string_set_step
  for env
proof
  fix s :: setobj and x :: "dict_resize \<times> set_op"
  assume s: "set_inv env s \<and> set_env_ok env" and x: "set_op_ok (snd x)"
  obtain R y where y: "x = (R, y)" by (cases x)
  let ?env = "env\<lparr>can_resize := R\<rparr>"
  have inv: "set_inv ?env s" "set_env_ok ?env" using s by simp_all
  note results = set_result_step [where env = env and R = R]
  show "\<exists>r s'. set_step env x s = Some (r, s') \<and> (set_inv env s' \<and> set_env_ok env) \<and> string_set_step x (set_members s) = (r, set_members s')"
  proof (cases y)
    case (Set_add e)
    with results [OF setTypeAddAux_ok [OF inv(1) _ inv(2)], of e Res_bool] x s y show ?thesis by (auto simp: set_step_def string_set_step_def)
  next
    case (Set_remove e)
    with results [OF setTypeRemoveAux_ok [OF inv(1)], of e Res_bool] x s y show ?thesis by (auto simp: set_step_def string_set_step_def)
  next
    case (Set_is_member e)
    with results [OF setTypeIsMemberAux_ok [OF inv(1)], of e Res_bool] x s y show ?thesis by (auto simp: set_step_def string_set_step_def)
  next
    case Set_size
    with results [OF setTypeSize_result [OF inv(1)], of Res_size] s y show ?thesis by (auto simp: set_step_def string_set_step_def)
  next
    case Set_elements
    with set_elements_ok [OF set_inv_wf [OF inv(1)]] s y show ?thesis by (simp add: set_step_def string_set_step_def)
  next
    case (Set_maybe_convert n)
    with setTypeMaybeConvert_ok [OF inv(1), of n] s y show ?thesis by (auto simp: set_step_def string_set_step_def)
  next
    case Set_dup
    with setTypeDup_ok [OF inv] s y show ?thesis by (auto simp: set_step_def string_set_step_def)
  qed
qed

text \<open>
  C39: from \<open>setTypeCreate\<close> on, whatever first value and size hint it is given, every sequence of additions, removals,
  membership tests, size queries, loops over the elements, conversions by a size hint and copies of a set object runs without a failing
  assertion or an access outside a block, and has the results of a finite set of strings: the object stands for the
  same set however it passes between intset, listpack and hash table, an integer and its decimal string are one element, and a loop
  sees each element once.
\<close>

theorem set_run_refines:
  assumes "set_env_ok env" "list_all (\<lambda>x. set_op_ok (snd x)) xs"
  shows "\<exists>s0 rs s. setTypeCreate env val size_hint = Some s0 \<and> run_ops (set_step env) xs s0 = Some (rs, s) \<and>
           run_spec string_set_step xs {} = (rs, set_members s)"
proof -
  obtain s0 where s0: "setTypeCreate env val size_hint = Some s0" "set_inv env s0" "set_members s0 = {}"
    using setTypeCreate_ok by blast
  with setsim.run_simulates [of env s0 xs] assms show ?thesis by auto
qed

definition small_set_env :: set_env where
  "small_set_env =
     \<lparr>set_max_intset_entries = 2, set_max_listpack_entries = 3, set_max_listpack_value = 64,
      hash_seed = replicate 16 0, can_resize = DICT_RESIZE_ENABLE, junk = (\<lambda>_. 0), table_addr = (\<lambda>_. 0)\<rparr>"

text \<open>A set that goes from an intset over a listpack to a hash table.\<close>

theorem set_run_refines_witness:
  "\<exists>s0 s. setTypeCreate small_set_env [53] 0 = Some s0 \<and>
     run_ops (set_step small_set_env)
       (map (Pair DICT_RESIZE_ENABLE)
         [Set_add (El_str [53]), Set_add (El_str [97]), Set_add (El_str [98]), Set_add (El_str [99]), Set_add (El_str [53]),
          Set_size, Set_remove (El_str [97]), Set_is_member (El_str [97]), Set_size]) s0 =
       Some ([Res_bool True, Res_bool True, Res_bool True, Res_bool True, Res_bool False, Res_size 4, Res_bool True, Res_bool False, Res_size 3], s)
     \<and> set_members s = {[53], [98], [99]}"
proof -
  let ?ops = "map (Pair DICT_RESIZE_ENABLE)
         [Set_add (El_str [53]), Set_add (El_str [97]), Set_add (El_str [98]), Set_add (El_str [99]), Set_add (El_str [53]),
          Set_size, Set_remove (El_str [97]), Set_is_member (El_str [97]), Set_size]"
  have "set_env_ok small_set_env" "list_all (\<lambda>x. set_op_ok (snd x)) ?ops" by (simp_all add: set_env_ok_def small_set_env_def)
  from set_run_refines [OF this, of "[53]" 0] obtain s0 rs s where
    run: "setTypeCreate small_set_env [53] 0 = Some s0" "run_ops (set_step small_set_env) ?ops s0 = Some (rs, s)"
      "run_spec string_set_step ?ops {} = (rs, set_members s)" by blast
  have "run_spec string_set_step ?ops {} = ([Res_bool True, Res_bool True, Res_bool True, Res_bool True, Res_bool False, Res_size 4,
      Res_bool True, Res_bool False, Res_size 3], {[53], [98], [99]})"
    by (auto simp: string_set_step_def card_insert_if)
  with run show ?thesis by auto
qed

end
