(* ===== verification/Redis_Sds_Mem.thy ===== *)
theory Redis_Sds_Mem
  imports Little_Endian Redis_Util "HOL-Library.Monad_Syntax"
begin

text \<open>
  The strings of \<open>src/sds.c\<close> and \<open>src/sds.h\<close> of Redis at the level of bytes, with the allocation functions of
  \<open>src/zmalloc.c\<close> they use.

  An \<open>sds\<close> is a pointer into a block of memory, behind the header of one of five types: the block, and the offset of the pointer in it.
  A header is read and written without a check; the accesses to the string are checked, and one outside the block is \<open>None\<close>, as is the
  end of the process by a failing assertion or by an allocation that \<open>zmalloc\<close> refuses. The allocator is the one of the C library,
  for which \<open>HAVE_MALLOC_SIZE\<close> is not defined: \<open>usable\<close> is the size that was asked for, and memory that is there is not refused.
  \<open>junk\<close> gives the bytes of fresh memory. \<open>size_t\<close> has 32 bits. Releasing memory is left out.
\<close>

unbundle bit_operations_syntax

abbreviation (input) SIZE_MAX :: nat where "SIZE_MAX \<equiv> 2 ^ 32 - 1"

section \<open>Allocation\<close>

definition MALLOC_MIN_SIZE :: "nat \<Rightarrow> nat" where
  "MALLOC_MIN_SIZE x = (if x > 0 then x else 4)"

text \<open>\<open>mem\<close> tells whether \<open>malloc\<close> gets the memory. The size of the result is \<open>usable\<close>.\<close>

definition ztrymalloc_usable :: "bool \<Rightarrow> (nat \<Rightarrow> byte) \<Rightarrow> nat \<Rightarrow> byte list option" where
  "ztrymalloc_usable mem junk sz =
     (if sz \<ge> SIZE_MAX div 2 then None else if mem then Some (map junk [0..<MALLOC_MIN_SIZE sz]) else None)"

definition zmalloc_usable :: "(nat \<Rightarrow> byte) \<Rightarrow> nat \<Rightarrow> byte list option" where
  "zmalloc_usable junk sz = ztrymalloc_usable True junk sz"

text \<open>No caller asks for 0 bytes, for which the block would be released.\<close>

definition zrealloc_usable :: "(nat \<Rightarrow> byte) \<Rightarrow> byte list \<Rightarrow> nat \<Rightarrow> byte list option" where
  "zrealloc_usable junk blk sz =
     (if sz = 0 \<or> sz \<ge> SIZE_MAX div 2 then None else Some (take sz blk @ map junk [length blk..<sz]))"

section \<open>Headers\<close>

record sds =
  sds_block :: "byte list"
  sds_off :: nat

abbreviation (input) SDS_TYPE_5 :: nat where "SDS_TYPE_5 \<equiv> 0"
abbreviation (input) SDS_TYPE_8 :: nat where "SDS_TYPE_8 \<equiv> 1"
abbreviation (input) SDS_TYPE_16 :: nat where "SDS_TYPE_16 \<equiv> 2"
abbreviation (input) SDS_TYPE_32 :: nat where "SDS_TYPE_32 \<equiv> 3"
abbreviation (input) SDS_TYPE_64 :: nat where "SDS_TYPE_64 \<equiv> 4"
abbreviation (input) SDS_MAX_PREALLOC :: nat where "SDS_MAX_PREALLOC \<equiv> 1024 * 1024"

text \<open>The bytes of the fields \<open>len\<close> and \<open>alloc\<close> of the headers with such fields.\<close>

definition sds_width :: "nat \<Rightarrow> nat" where
  "sds_width ty =
     (if ty = SDS_TYPE_8 then 1 else if ty = SDS_TYPE_16 then 2 else if ty = SDS_TYPE_32 then 4
      else if ty = SDS_TYPE_64 then 8 else 0)"

definition sdsHdrSize :: "nat \<Rightarrow> nat" where
  "sdsHdrSize ty = (if ty = SDS_TYPE_5 then 1 else if ty \<le> SDS_TYPE_64 then 2 * sds_width ty + 1 else 0)"

definition sdsReqType :: "nat \<Rightarrow> nat" where
  "sdsReqType string_size =
     (if string_size < 2 ^ 5 then SDS_TYPE_5 else if string_size < 2 ^ 8 then SDS_TYPE_8
      else if string_size < 2 ^ 16 then SDS_TYPE_16 else SDS_TYPE_32)"

definition sdsTypeMaxSize :: "nat \<Rightarrow> nat" where
  "sdsTypeMaxSize ty =
     (if ty = SDS_TYPE_5 then 2 ^ 5 - 1 else if ty = SDS_TYPE_8 then 2 ^ 8 - 1 else if ty = SDS_TYPE_16 then 2 ^ 16 - 1 else SIZE_MAX)"

text \<open>\<open>s[-1]\<close>, and its part that is the type.\<close>

definition sds_flags :: "sds \<Rightarrow> nat" where
  "sds_flags s = unat (sds_block s ! (sds_off s - 1))"

definition sds_type :: "sds \<Rightarrow> nat" where
  "sds_type s = sds_flags s mod 8"

definition sds_set_flags :: "nat \<Rightarrow> sds \<Rightarrow> sds" where
  "sds_set_flags v s = s\<lparr>sds_block := mem_write (sds_off s - 1) [of_nat v] (sds_block s)\<rparr>"

text \<open>A field of the header; \<open>len\<close> is the first one, \<open>alloc\<close> the second one. Values are cut to the size of the field.\<close>

definition sds_field :: "nat \<Rightarrow> sds \<Rightarrow> nat" where
  "sds_field k s =
     (let w = sds_width (sds_type s); i = sds_off s - (2 * w + 1) + k * w in nat (le_nat (byte_range i (i + w) (sds_block s))))"

definition sds_set_field :: "nat \<Rightarrow> nat \<Rightarrow> sds \<Rightarrow> sds" where
  "sds_set_field k v s =
     (let w = sds_width (sds_type s); i = sds_off s - (2 * w + 1) + k * w in
      s\<lparr>sds_block := mem_write i (le_encode w (int v)) (sds_block s)\<rparr>)"

definition SDS_TYPE_5_LEN :: "sds \<Rightarrow> nat" where
  "SDS_TYPE_5_LEN s = sds_flags s div 8"

definition sdslen :: "sds \<Rightarrow> nat" where
  "sdslen s =
     (if sds_type s = SDS_TYPE_5 then SDS_TYPE_5_LEN s else if sds_type s \<le> SDS_TYPE_64 then uint32 (sds_field 0 s) else 0)"

definition sdsalloc :: "sds \<Rightarrow> nat" where
  "sdsalloc s =
     (if sds_type s = SDS_TYPE_5 then SDS_TYPE_5_LEN s else if sds_type s \<le> SDS_TYPE_64 then uint32 (sds_field 1 s) else 0)"

text \<open>The difference is one of type \<open>int\<close> or of an unsigned type, and then one of \<open>size_t\<close>.\<close>

definition sdsavail :: "sds \<Rightarrow> nat" where
  "sdsavail s =
     (if sds_type s = SDS_TYPE_5 \<or> sds_type s > SDS_TYPE_64 then 0
      else nat ((int (sds_field 1 s) - int (sds_field 0 s)) mod 2 ^ 32))"

definition sdssetlen :: "sds \<Rightarrow> nat \<Rightarrow> sds" where
  "sdssetlen s newlen =
     (if sds_type s = SDS_TYPE_5 then sds_set_flags (newlen * 8) s
      else if sds_type s \<le> SDS_TYPE_64 then sds_set_field 0 newlen s else s)"

definition sdsinclen :: "sds \<Rightarrow> nat \<Rightarrow> sds" where
  "sdsinclen s inc =
     (if sds_type s = SDS_TYPE_5 then sds_set_flags ((SDS_TYPE_5_LEN s + inc) mod 256 * 8) s
      else if sds_type s \<le> SDS_TYPE_64 then sds_set_field 0 (sds_field 0 s + inc) s else s)"

definition sdssetalloc :: "sds \<Rightarrow> nat \<Rightarrow> sds" where
  "sdssetalloc s newlen =
     (if sds_type s = SDS_TYPE_5 then s else if sds_type s \<le> SDS_TYPE_64 then sds_set_field 1 newlen s else s)"

definition sdsAllocSize :: "sds \<Rightarrow> nat" where
  "sdsAllocSize s = uint32 (sdsHdrSize (sds_type s) + sdsalloc s + 1)"

section \<open>The bytes of a string\<close>

definition sds_get :: "sds \<Rightarrow> nat \<Rightarrow> nat \<Rightarrow> byte list option" where
  "sds_get s i n =
     (if sds_off s + i + n \<le> length (sds_block s) then Some (byte_range (sds_off s + i) (sds_off s + i + n) (sds_block s)) else None)"

definition sds_put :: "sds \<Rightarrow> nat \<Rightarrow> byte list \<Rightarrow> sds option" where
  "sds_put s i bs =
     (if sds_off s + i + length bs \<le> length (sds_block s)
      then Some (s\<lparr>sds_block := mem_write (sds_off s + i) bs (sds_block s)\<rparr>) else None)"

text \<open>The bytes of a C string in front of its end.\<close>

definition c_string :: "byte list \<Rightarrow> byte list" where
  "c_string bs = takeWhile (\<lambda>c. c \<noteq> 0) bs"

section \<open>Creation\<close>

text \<open>What a string is initialized with: bytes, zeros (\<open>NULL\<close>), or nothing (\<open>SDS_NOINIT\<close>).\<close>

datatype sds_init = Init "byte list" | Init_null nat | Init_noinit nat

fun init_len :: "sds_init \<Rightarrow> nat" where
  "init_len (Init bs) = length bs"
| "init_len (Init_null n) = n"
| "init_len (Init_noinit n) = n"

text \<open>The header of a new string, as the cases of the switch write it.\<close>

definition sds_init_header :: "nat \<Rightarrow> nat \<Rightarrow> nat \<Rightarrow> sds \<Rightarrow> sds" where
  "sds_init_header ty initlen usable s =
     (if ty = SDS_TYPE_5 then sds_set_flags (ty + initlen * 8) s
      else sds_set_field 1 usable (sds_set_field 0 initlen (sds_set_flags ty s)))"

text \<open>The result \<open>Some None\<close> is \<open>NULL\<close>, which is returned with \<open>trymalloc\<close> only.\<close>

definition sdsnewlen_gen :: "bool \<Rightarrow> (nat \<Rightarrow> byte) \<Rightarrow> sds_init \<Rightarrow> bool \<Rightarrow> sds option option" where
  "sdsnewlen_gen mem junk init trymalloc =
     (let initlen = init_len init;
          ty = (if sdsReqType initlen = SDS_TYPE_5 \<and> initlen = 0 then SDS_TYPE_8 else sdsReqType initlen);
          hdrlen = sdsHdrSize ty
      in
      if uint32 (initlen + hdrlen + 1) \<le> initlen then (if trymalloc then Some None else None)
      else
        (case ztrymalloc_usable mem junk (uint32 (hdrlen + initlen + 1)) of
           None \<Rightarrow> if trymalloc then Some None else None
         | Some sh \<Rightarrow>
             do {
               let sh = (case init of Init_null _ \<Rightarrow> mem_write 0 (replicate (hdrlen + initlen + 1) 0) sh | _ \<Rightarrow> sh);
               let usable = min (length sh - hdrlen - 1) (sdsTypeMaxSize ty);
               let s = sds_init_header ty initlen usable \<lparr>sds_block = sh, sds_off = hdrlen\<rparr>;
               s \<leftarrow> (case init of Init bs \<Rightarrow> sds_put s 0 bs | _ \<Rightarrow> Some s);
               s \<leftarrow> sds_put s initlen [0];
               Some (Some s)
             }))"

definition sdsnewlen :: "(nat \<Rightarrow> byte) \<Rightarrow> sds_init \<Rightarrow> sds option" where
  "sdsnewlen junk init = Option.bind (sdsnewlen_gen True junk init False) (\<lambda>s. s)"

definition sdstrynewlen :: "bool \<Rightarrow> (nat \<Rightarrow> byte) \<Rightarrow> sds_init \<Rightarrow> sds option option" where
  "sdstrynewlen mem junk init = sdsnewlen_gen mem junk init True"

definition sdsempty :: "(nat \<Rightarrow> byte) \<Rightarrow> sds option" where
  "sdsempty junk = sdsnewlen junk (Init [])"

definition sdsnew :: "(nat \<Rightarrow> byte) \<Rightarrow> byte list option \<Rightarrow> sds option" where
  "sdsnew junk init = sdsnewlen junk (case init of None \<Rightarrow> Init_null 0 | Some bs \<Rightarrow> Init (c_string bs))"

definition sdsdup :: "(nat \<Rightarrow> byte) \<Rightarrow> sds \<Rightarrow> sds option" where
  "sdsdup junk s = do { bs \<leftarrow> sds_get s 0 (sdslen s); sdsnewlen junk (Init bs) }"

definition sdsupdatelen :: "sds \<Rightarrow> sds" where
  "sdsupdatelen s = sdssetlen s (length (c_string (drop (sds_off s) (sds_block s))))"

definition sdsclear :: "sds \<Rightarrow> sds option" where
  "sdsclear s = sds_put (sdssetlen s 0) 0 [0]"

section \<open>Room\<close>

definition make_room_block :: "(nat \<Rightarrow> byte) \<Rightarrow> sds \<Rightarrow> nat \<Rightarrow> nat \<Rightarrow> sds option" where
  "make_room_block junk s ty newlen =
     (let hdrlen = sdsHdrSize ty; len = sdslen s in
      if sds_type s = ty
      then map_option (\<lambda>newsh. \<lparr>sds_block = newsh, sds_off = hdrlen\<rparr>) (zrealloc_usable junk (sds_block s) (uint32 (hdrlen + newlen + 1)))
      else
        do {
          newsh \<leftarrow> zmalloc_usable junk (uint32 (hdrlen + newlen + 1));
          bs \<leftarrow> sds_get s 0 (len + 1);
          s \<leftarrow> sds_put \<lparr>sds_block = newsh, sds_off = hdrlen\<rparr> 0 bs;
          Some (sdssetlen (sds_set_flags ty s) len)
        })"

definition sdsMakeRoomFor_gen :: "(nat \<Rightarrow> byte) \<Rightarrow> sds \<Rightarrow> nat \<Rightarrow> bool \<Rightarrow> sds option" where
  "sdsMakeRoomFor_gen junk s addlen greedy =
     (if sdsavail s \<ge> addlen then Some s
      else
        (let len = sdslen s;
             reqlen = uint32 (len + addlen);
             newlen = (if greedy then (if reqlen < SDS_MAX_PREALLOC then reqlen * 2 else uint32 (reqlen + SDS_MAX_PREALLOC)) else reqlen);
             ty = (if sdsReqType newlen = SDS_TYPE_5 then SDS_TYPE_8 else sdsReqType newlen);
             hdrlen = sdsHdrSize ty
         in
         do {
           assert_that (reqlen > len);
           assert_that (uint32 (hdrlen + newlen + 1) > reqlen);
           s \<leftarrow> make_room_block junk s ty newlen;
           Some (sdssetalloc s (min (length (sds_block s) - hdrlen - 1) (sdsTypeMaxSize ty)))
         }))"

definition sdsMakeRoomFor :: "(nat \<Rightarrow> byte) \<Rightarrow> sds \<Rightarrow> nat \<Rightarrow> sds option" where
  "sdsMakeRoomFor junk s addlen = sdsMakeRoomFor_gen junk s addlen True"

definition sdsMakeRoomForNonGreedy :: "(nat \<Rightarrow> byte) \<Rightarrow> sds \<Rightarrow> nat \<Rightarrow> sds option" where
  "sdsMakeRoomForNonGreedy junk s addlen = sdsMakeRoomFor_gen junk s addlen False"

definition resize_block :: "(nat \<Rightarrow> byte) \<Rightarrow> sds \<Rightarrow> nat \<Rightarrow> nat \<Rightarrow> nat \<Rightarrow> sds option" where
  "resize_block junk s ty len sz =
     (let oldtype = sds_type s; oldhdrlen = sdsHdrSize oldtype; hdrlen = sdsHdrSize ty in
      if oldtype = ty \<or> ty < oldtype \<and> ty > SDS_TYPE_8
      then map_option (\<lambda>newsh. \<lparr>sds_block = newsh, sds_off = oldhdrlen\<rparr>) (zrealloc_usable junk (sds_block s) (uint32 (oldhdrlen + sz + 1)))
      else
        do {
          newsh \<leftarrow> zmalloc_usable junk (uint32 (hdrlen + sz + 1));
          bs \<leftarrow> sds_get s 0 len;
          s \<leftarrow> sds_put \<lparr>sds_block = newsh, sds_off = hdrlen\<rparr> 0 bs;
          Some (sds_set_flags ty s)
        })"

definition sdsResize :: "(nat \<Rightarrow> byte) \<Rightarrow> sds \<Rightarrow> nat \<Rightarrow> bool \<Rightarrow> sds option" where
  "sdsResize junk s sz would_regrow =
     (if sdsalloc s = sz then Some s
      else
        (let len = (if sz < sdslen s then sz else sdslen s);
             ty = (if would_regrow \<and> sdsReqType sz = SDS_TYPE_5 then SDS_TYPE_8 else sdsReqType sz)
         in
         do {
           s \<leftarrow> resize_block junk s ty len sz;
           s \<leftarrow> sds_put s len [0];
           Some (sdssetalloc (sdssetlen s len) sz)
         }))"

definition sdsRemoveFreeSpace :: "(nat \<Rightarrow> byte) \<Rightarrow> sds \<Rightarrow> bool \<Rightarrow> sds option" where
  "sdsRemoveFreeSpace junk s would_regrow = sdsResize junk s (sdslen s) would_regrow"

text \<open>
  The assertion of \<open>sdsIncrLen\<close>. The fields of the types 8 and 16 are promoted to \<open>int\<close>, those of the others are unsigned.
\<close>

definition incr_allowed :: "sds \<Rightarrow> int \<Rightarrow> bool" where
  "incr_allowed s incr \<longleftrightarrow>
     (let ty = sds_type s; len = sds_field 0 s; alloc = sds_field 1 s in
      if ty = SDS_TYPE_5
      then incr > 0 \<and> int (SDS_TYPE_5_LEN s) + incr < 32 \<or> incr < 0 \<and> SDS_TYPE_5_LEN s \<ge> nat (- incr)
      else
        incr \<ge> 0 \<and> (if ty \<le> SDS_TYPE_16 then int alloc - int len \<ge> incr else (int alloc - int len) mod 256 ^ sds_width ty \<ge> incr)
        \<or> incr < 0 \<and> len \<ge> nat (- incr))"

definition sdsIncrLen :: "sds \<Rightarrow> int \<Rightarrow> sds option" where
  "sdsIncrLen s incr =
     (if sds_type s \<le> SDS_TYPE_64 then
        do {
          assert_that (incr_allowed s incr);
          let s = (if sds_type s = SDS_TYPE_5 then sds_set_flags (nat (int (SDS_TYPE_5_LEN s) + incr) * 8) s
                   else sds_set_field 0 (nat (int (sds_field 0 s) + incr)) s);
          sds_put s (sdslen s) [0]
        }
      else sds_put s 0 [0])"

section \<open>Contents\<close>

definition sdsgrowzero :: "(nat \<Rightarrow> byte) \<Rightarrow> sds \<Rightarrow> nat \<Rightarrow> sds option" where
  "sdsgrowzero junk s len =
     (let curlen = sdslen s in
      if len \<le> curlen then Some s
      else
        do {
          s \<leftarrow> sdsMakeRoomFor junk s (len - curlen);
          s \<leftarrow> sds_put s curlen (replicate (len - curlen + 1) 0);
          Some (sdssetlen s len)
        })"

definition sdscatlen :: "(nat \<Rightarrow> byte) \<Rightarrow> sds \<Rightarrow> byte list \<Rightarrow> sds option" where
  "sdscatlen junk s t =
     (let curlen = sdslen s; len = length t in
      do {
        s \<leftarrow> sdsMakeRoomFor junk s len;
        s \<leftarrow> sds_put s curlen t;
        sds_put (sdssetlen s (uint32 (curlen + len))) (curlen + len) [0]
      })"

definition sdscat :: "(nat \<Rightarrow> byte) \<Rightarrow> sds \<Rightarrow> byte list \<Rightarrow> sds option" where
  "sdscat junk s t = sdscatlen junk s (c_string t)"

definition sdscatsds :: "(nat \<Rightarrow> byte) \<Rightarrow> sds \<Rightarrow> sds \<Rightarrow> sds option" where
  "sdscatsds junk s t = do { bs \<leftarrow> sds_get t 0 (sdslen t); sdscatlen junk s bs }"

definition sdscpylen :: "(nat \<Rightarrow> byte) \<Rightarrow> sds \<Rightarrow> byte list \<Rightarrow> sds option" where
  "sdscpylen junk s t =
     do {
       s \<leftarrow> (if sdsalloc s < length t then sdsMakeRoomFor junk s (nat ((int (length t) - int (sdslen s)) mod 2 ^ 32)) else Some s);
       s \<leftarrow> sds_put s 0 t;
       s \<leftarrow> sds_put s (length t) [0];
       Some (sdssetlen s (length t))
     }"

definition sdscpy :: "(nat \<Rightarrow> byte) \<Rightarrow> sds \<Rightarrow> byte list \<Rightarrow> sds option" where
  "sdscpy junk s t = sdscpylen junk s (c_string t)"

text \<open>The arguments of \<open>sdscatfmt\<close>: a C string, an sds, a signed and an unsigned integer.\<close>

datatype fmt_arg = Fmt_str "byte list" | Fmt_sds sds | Fmt_int int | Fmt_uint nat

definition fmt_is :: "byte \<Rightarrow> char \<Rightarrow> char \<Rightarrow> bool" where
  "fmt_is c small big \<longleftrightarrow> c = c8 small \<or> c = c8 big"

text \<open>The text of an argument; one that does not fit its format is not defined.\<close>

definition fmt_text :: "(nat \<Rightarrow> byte) \<Rightarrow> byte \<Rightarrow> fmt_arg \<Rightarrow> byte list option" where
  "fmt_text junk c a =
     (case a of
        Fmt_str t \<Rightarrow> if c = c8 CHR ''s'' then Some (c_string t) else None
      | Fmt_sds t \<Rightarrow> if c = c8 CHR ''S'' then sds_get t 0 (sdslen t) else None
      | Fmt_int v \<Rightarrow>
          if fmt_is c CHR ''i'' CHR ''I'' then (case ll2string (map junk [0..<LONG_STR_SIZE]) v of (l, buf) \<Rightarrow> Some (take l buf)) else None
      | Fmt_uint v \<Rightarrow>
          if fmt_is c CHR ''u'' CHR ''U'' then (case ull2string (map junk [0..<LONG_STR_SIZE]) v of (l, buf) \<Rightarrow> Some (take l buf)) else None)"

definition fmt_append :: "(nat \<Rightarrow> byte) \<Rightarrow> sds \<Rightarrow> nat \<Rightarrow> byte list \<Rightarrow> sds option" where
  "fmt_append junk s i bs =
     do {
       s \<leftarrow> (if sdsavail s < length bs then sdsMakeRoomFor junk s (length bs) else Some s);
       s \<leftarrow> sds_put s i bs;
       Some (sdsinclen s (length bs))
     }"

definition fmt_char :: "sds \<Rightarrow> nat \<Rightarrow> byte \<Rightarrow> sds option" where
  "fmt_char s i c = map_option (\<lambda>s. sdsinclen s 1) (sds_put s i [c])"

definition fmt_spec :: "byte \<Rightarrow> bool" where
  "fmt_spec c \<longleftrightarrow> fmt_is c CHR ''s'' CHR ''S'' \<or> fmt_is c CHR ''i'' CHR ''I'' \<or> fmt_is c CHR ''u'' CHR ''U''"

definition fmt_room :: "(nat \<Rightarrow> byte) \<Rightarrow> sds \<Rightarrow> sds option" where
  "fmt_room junk s = (if sdsavail s = 0 then sdsMakeRoomFor junk s 1 else Some s)"

fun fmt_loop :: "(nat \<Rightarrow> byte) \<Rightarrow> sds \<Rightarrow> nat \<Rightarrow> byte list \<Rightarrow> fmt_arg list \<Rightarrow> (sds \<times> nat) option" where
  "fmt_loop junk s i [] args = Some (s, i)"
| "fmt_loop junk s i [c] args =
     do {
       s \<leftarrow> fmt_room junk s;
       if c = c8 CHR ''%'' then Some (s, i) else map_option (\<lambda>s. (s, i + 1)) (fmt_char s i c)
     }"
| "fmt_loop junk s i (c # nxt # f) args =
     do {
       s \<leftarrow> fmt_room junk s;
       if c \<noteq> c8 CHR ''%'' then do { s \<leftarrow> fmt_char s i c; fmt_loop junk s (i + 1) (nxt # f) args }
       else if fmt_spec nxt then
         (case args of
            [] \<Rightarrow> None
          | a # args \<Rightarrow>
              do {
                bs \<leftarrow> fmt_text junk nxt a;
                s \<leftarrow> fmt_append junk s i bs;
                fmt_loop junk s (i + length bs) f args
              })
       else do { s \<leftarrow> fmt_char s i nxt; fmt_loop junk s (i + 1) f args }
     }"

definition sdscatfmt :: "(nat \<Rightarrow> byte) \<Rightarrow> sds \<Rightarrow> byte list \<Rightarrow> fmt_arg list \<Rightarrow> sds option" where
  "sdscatfmt junk s fmt args =
     (let initlen = sdslen s; f = c_string fmt in
      do {
        s \<leftarrow> sdsMakeRoomFor junk s (uint32 (length f * 2));
        (s, i) \<leftarrow> fmt_loop junk s initlen f args;
        sds_put s i [0]
      })"

text \<open>\<open>strchr\<close> finds the null character at the end of a C string, too.\<close>

definition strchr_in :: "byte list \<Rightarrow> byte \<Rightarrow> bool" where
  "strchr_in cset c \<longleftrightarrow> c \<in> set (c_string cset) \<or> c = 0"

text \<open>The loop for the end: the bytes in front of \<open>e\<close> are kept, \<open>ep\<close> being \<open>e - 1\<close>.\<close>

fun trim_end :: "byte list \<Rightarrow> byte list \<Rightarrow> nat \<Rightarrow> nat \<Rightarrow> nat" where
  "trim_end cset d sp 0 = 0"
| "trim_end cset d sp (Suc ep) = (if ep > sp \<and> strchr_in cset (d ! ep) then trim_end cset d sp ep else Suc ep)"

definition sdstrim :: "sds \<Rightarrow> byte list \<Rightarrow> sds option" where
  "sdstrim s cset =
     do {
       d \<leftarrow> sds_get s 0 (sdslen s);
       let sp = length (takeWhile (strchr_in cset) d);
       let e = trim_end cset d sp (length d);
       let len = e - sp;
       bs \<leftarrow> sds_get s sp len;
       s \<leftarrow> (if sp \<noteq> 0 then sds_put s 0 bs else Some s);
       s \<leftarrow> sds_put s len [0];
       Some (sdssetlen s len)
     }"

definition sdssubstr :: "sds \<Rightarrow> nat \<Rightarrow> nat \<Rightarrow> sds option" where
  "sdssubstr s start len =
     (let oldlen = sdslen s;
          (start, len) = (if start \<ge> oldlen then (0, 0) else (start, len));
          len = (if len > oldlen - start then oldlen - start else len)
      in
      do {
        s \<leftarrow> (if len \<noteq> 0 then do { bs \<leftarrow> sds_get s start len; sds_put s 0 bs } else Some s);
        s \<leftarrow> sds_put s len [0];
        Some (sdssetlen s len)
      })"

text \<open>\<open>ssize_t\<close> has 32 bits; \<open>len + start\<close> is computed in \<open>size_t\<close> and converted back.\<close>

definition sdsrange :: "sds \<Rightarrow> int \<Rightarrow> int \<Rightarrow> sds option" where
  "sdsrange s start stop =
     (let len = sdslen s in
      if len = 0 then Some s
      else
        (let signed = (\<lambda>v. to_signed 4 (v mod 2 ^ 32));
             start = (if start < 0 then signed (int len + start) else start);
             stop = (if stop < 0 then signed (int len + stop) else stop);
             newlen = (if start > stop then 0 else nat ((stop - start + 1) mod 2 ^ 32))
         in sdssubstr s (nat (start mod 2 ^ 32)) newlen))"

text \<open>\<open>tolower\<close> and \<open>toupper\<close> in the C locale.\<close>

definition byte_tolower :: "byte \<Rightarrow> byte" where
  "byte_tolower c = (if 65 \<le> c \<and> c \<le> 90 then c + 32 else c)"

definition byte_toupper :: "byte \<Rightarrow> byte" where
  "byte_toupper c = (if 97 \<le> c \<and> c \<le> 122 then c - 32 else c)"

definition sdstolower :: "sds \<Rightarrow> sds option" where
  "sdstolower s = do { bs \<leftarrow> sds_get s 0 (sdslen s); sds_put s 0 (map byte_tolower bs) }"

definition sdstoupper :: "sds \<Rightarrow> sds option" where
  "sdstoupper s = do { bs \<leftarrow> sds_get s 0 (sdslen s); sds_put s 0 (map byte_toupper bs) }"

text \<open>\<open>from\<close> and \<open>to\<close> as the list of their pairs.\<close>

definition sdsmapchars :: "sds \<Rightarrow> (byte \<times> byte) list \<Rightarrow> sds option" where
  "sdsmapchars s pairs =
     do { bs \<leftarrow> sds_get s 0 (sdslen s); sds_put s 0 (map (\<lambda>c. case map_of pairs c of None \<Rightarrow> c | Some d \<Rightarrow> d) bs) }"

text \<open>The sign of the result of \<open>memcmp\<close>.\<close>

fun memcmp_sign :: "byte list \<Rightarrow> byte list \<Rightarrow> int" where
  "memcmp_sign (x # xs) (y # ys) = (if x < y then -1 else if y < x then 1 else memcmp_sign xs ys)"
| "memcmp_sign _ _ = 0"

definition sdscmp :: "sds \<Rightarrow> sds \<Rightarrow> int option" where
  "sdscmp s1 s2 =
     (let l1 = sdslen s1; l2 = sdslen s2; minlen = (if l1 < l2 then l1 else l2) in
      do {
        a \<leftarrow> sds_get s1 0 minlen;
        b \<leftarrow> sds_get s2 0 minlen;
        let cmp = memcmp_sign a b;
        Some (if cmp = 0 then (if l1 > l2 then 1 else if l1 < l2 then -1 else 0) else cmp)
      })"

section \<open>Splitting and joining\<close>

function split_loop :: "(nat \<Rightarrow> byte) \<Rightarrow> byte list \<Rightarrow> byte list \<Rightarrow> nat \<Rightarrow> nat \<Rightarrow> sds list \<Rightarrow> (nat \<times> sds list) option" where
  "split_loop junk s sep j start tokens =
     (if sep \<noteq> [] \<and> j + length sep \<le> length s then
        (if byte_range j (j + length sep) s = sep
         then
           do {
             tok \<leftarrow> sdsnewlen junk (Init (byte_range start j s));
             split_loop junk s sep (j + length sep) (j + length sep) (tokens @ [tok])
           }
         else split_loop junk s sep (j + 1) start tokens)
      else Some (start, tokens))"
  by pat_completeness auto
termination by (relation "measure (\<lambda>(junk, s, sep, j, start, tokens). length s - j)") (auto simp: Suc_le_eq neq_Nil_conv)

declare split_loop.simps [simp del]

text \<open>\<open>NULL\<close> is the empty list of tokens.\<close>

definition sdssplitlen :: "(nat \<Rightarrow> byte) \<Rightarrow> byte list \<Rightarrow> byte list \<Rightarrow> sds list option" where
  "sdssplitlen junk s sep =
     (if sep = [] \<or> s = [] then Some []
      else
        do {
          (start, tokens) \<leftarrow> split_loop junk s sep 0 0 [];
          tok \<leftarrow> sdsnewlen junk (Init (byte_range start (length s) s));
          Some (tokens @ [tok])
        })"

fun join_loop :: "(sds \<Rightarrow> 'a \<Rightarrow> sds option) \<Rightarrow> (sds \<Rightarrow> sds option) \<Rightarrow> sds \<Rightarrow> 'a list \<Rightarrow> sds option" where
  "join_loop cat catsep join [] = Some join"
| "join_loop cat catsep join (a # argv) =
     do {
       join \<leftarrow> cat join a;
       join \<leftarrow> (if argv \<noteq> [] then catsep join else Some join);
       join_loop cat catsep join argv
     }"

definition sdsjoin :: "(nat \<Rightarrow> byte) \<Rightarrow> byte list list \<Rightarrow> byte list \<Rightarrow> sds option" where
  "sdsjoin junk argv sep = do { join \<leftarrow> sdsempty junk; join_loop (sdscat junk) (\<lambda>join. sdscat junk join sep) join argv }"

definition sdsjoinsds :: "(nat \<Rightarrow> byte) \<Rightarrow> sds list \<Rightarrow> byte list \<Rightarrow> sds option" where
  "sdsjoinsds junk argv sep = do { join \<leftarrow> sdsempty junk; join_loop (sdscatsds junk) (\<lambda>join. sdscatlen junk join sep) join argv }"

section \<open>Templates\<close>

lemma length_tl_dropWhile: "length (tl (dropWhile P xs)) \<le> length xs"
  using length_dropWhile_le [of P xs] by simp

lemma tl_dropWhile_less: "Suc (length q) < length p" if "tl (dropWhile P p) = c # q"
  using arg_cong [OF that, of length] length_dropWhile_le [of P p] by simp

text \<open>\<open>cb\<close> is the callback; a C string that stands for a variable. The result \<open>Some None\<close> is \<open>NULL\<close>.\<close>

function template_loop :: "(nat \<Rightarrow> byte) \<Rightarrow> (byte list \<Rightarrow> byte list option) \<Rightarrow> sds \<Rightarrow> byte list \<Rightarrow> sds option option" where
  "template_loop junk cb res p =
     (let copied = takeWhile (\<lambda>c. c \<noteq> c8 CHR ''{'') p; sv = dropWhile (\<lambda>c. c \<noteq> c8 CHR ''{'') p in
      if p = [] then Some (Some res)
      else if sv = [] then map_option Some (sdscat junk res p)
      else
        do {
          res \<leftarrow> (if copied \<noteq> [] then sdscatlen junk res copied else Some res);
          (case tl sv of
             [] \<Rightarrow> Some None
           | c # q \<Rightarrow>
               if c = c8 CHR ''{'' then do { res \<leftarrow> sdscat junk res [c8 CHR ''{'']; template_loop junk cb res q }
               else
                 (let varname = takeWhile (\<lambda>c. c \<noteq> c8 CHR ''}'') (c # q); ev = dropWhile (\<lambda>c. c \<noteq> c8 CHR ''}'') (c # q) in
                  if ev = [] then Some None
                  else
                    do {
                      sdsnewlen junk (Init varname);
                      (case cb varname of
                         None \<Rightarrow> Some None
                       | Some v \<Rightarrow> do { res \<leftarrow> sdscat junk res v; template_loop junk cb res (tl ev) })
                    }))
        })"
  by pat_completeness auto
termination
  by (relation "measure (\<lambda>(junk, cb, res, p). length p)")
    (auto dest!: tl_dropWhile_less simp del: c8_def dropWhile.simps length_tl intro: le_less_trans [OF length_tl_dropWhile])

declare template_loop.simps [simp del]

definition sdstemplate :: "(nat \<Rightarrow> byte) \<Rightarrow> (byte list \<Rightarrow> byte list option) \<Rightarrow> byte list \<Rightarrow> sds option option" where
  "sdstemplate junk cb template = do { res \<leftarrow> sdsempty junk; template_loop junk cb res (c_string template) }"

end
