(* ===== verification/Redis_Sds_Inv.thy ===== *)
theory Redis_Sds_Inv
  imports Redis_Sds_Mem
begin

text \<open>
  Well-typed strings of \<open>sds.c\<close>: what the header and the block of a string have to do with each other, and that creating a string, making room and
  resizing give well-typed strings with the right contents.
\<close>

section \<open>Headers\<close>

definition sds_header :: "nat \<Rightarrow> nat \<Rightarrow> nat \<Rightarrow> byte list" where
  "sds_header ty n a =
     (if ty = SDS_TYPE_5 then [of_nat (n * 8)]
      else le_encode (sds_width ty) (int n) @ le_encode (sds_width ty) (int a) @ [of_nat ty])"

text \<open>The string with a header of type \<open>ty\<close>, the length \<open>n\<close>, the room \<open>a\<close>, and the bytes \<open>D\<close> from the pointer to the end of the block.\<close>

definition sds_mk :: "nat \<Rightarrow> nat \<Rightarrow> nat \<Rightarrow> byte list \<Rightarrow> sds" where
  "sds_mk ty n a D = \<lparr>sds_block = sds_header ty n a @ D, sds_off = sdsHdrSize ty\<rparr>"

text \<open>The values that fit the header; type 5 does not hold the room.\<close>

definition hdr_ok :: "nat \<Rightarrow> nat \<Rightarrow> nat \<Rightarrow> bool" where
  "hdr_ok ty n a \<longleftrightarrow> ty \<le> SDS_TYPE_32 \<and> n \<le> sdsTypeMaxSize ty \<and> a \<le> sdsTypeMaxSize ty \<and> (ty = SDS_TYPE_5 \<longrightarrow> a = n)"

lemma sds_header_length [simp]: "ty \<le> SDS_TYPE_32 \<Longrightarrow> length (sds_header ty n a) = sdsHdrSize ty"
  by (simp add: sds_header_def sdsHdrSize_def)

lemma sds_type_max: "ty \<noteq> SDS_TYPE_5 \<Longrightarrow> ty \<le> SDS_TYPE_32 \<Longrightarrow> int (sdsTypeMaxSize ty) < 256 ^ sds_width ty"
  by (simp add: sdsTypeMaxSize_def sds_width_def)

lemma sds_mk_sel:
  "sds_block (sds_mk ty n a D) = sds_header ty n a @ D" "sds_off (sds_mk ty n a D) = sdsHdrSize ty"
  "(sds_mk ty n a D)\<lparr>sds_block := B\<rparr> = \<lparr>sds_block = B, sds_off = sdsHdrSize ty\<rparr>"
  by (simp_all add: sds_mk_def)

lemma sds_mk_flags:
  "ty \<le> SDS_TYPE_32 \<Longrightarrow> sds_flags (sds_mk ty n a D) = (if ty = SDS_TYPE_5 then n * 8 mod 256 else ty)"
  using unat_of_nat [of "n * 8", where 'a = 8] unat_of_nat [of ty, where 'a = 8]
  by (simp add: sds_flags_def sds_mk_sel sds_header_def sdsHdrSize_def nth_append)

lemma sds_mk_type [simp]: "ty \<le> SDS_TYPE_32 \<Longrightarrow> sds_type (sds_mk ty n a D) = ty"
  using mod_mod_cancel [of 8 256 "n * 8"] by (simp add: sds_type_def sds_mk_flags)

lemma sds_mk_field:
  assumes "hdr_ok ty n a" "ty \<noteq> SDS_TYPE_5"
  shows "sds_field 0 (sds_mk ty n a D) = n" "sds_field 1 (sds_mk ty n a D) = a"
proof -
  have ty: "ty \<le> SDS_TYPE_32" "int n < 256 ^ sds_width ty" "int a < 256 ^ sds_width ty"
    using assms sds_type_max [of ty] by (auto simp: hdr_ok_def)
  then show "sds_field 0 (sds_mk ty n a D) = n" "sds_field 1 (sds_mk ty n a D) = a"
    using assms(2)
    by (simp_all add: sds_field_def sds_mk_sel sds_header_def sdsHdrSize_def byte_range_def le_nat_encode Let_def)
qed

lemma sds_mk_set_flags: "sds_set_flags (m * 8) (sds_mk 0 n a D) = sds_mk 0 m b D"
  by (simp add: sds_set_flags_def sds_mk_def sds_header_def sdsHdrSize_def mem_write_def)

lemma sds_mk_set_field:
  assumes "ty \<le> SDS_TYPE_32" "ty \<noteq> SDS_TYPE_5"
  shows "sds_set_field 0 m (sds_mk ty n a D) = sds_mk ty m a D" "sds_set_field 1 m (sds_mk ty n a D) = sds_mk ty n m D"
  using assms
  by (simp_all add: sds_set_field_def Let_def sds_mk_sel)
    (simp_all add: sds_mk_def sds_header_def sdsHdrSize_def mem_write_def)

lemma sds_mk_len [simp]:
  assumes "hdr_ok ty n a"
  shows "sdslen (sds_mk ty n a D) = n" "sdsalloc (sds_mk ty n a D) = a" "n \<le> a \<Longrightarrow> sdsavail (sds_mk ty n a D) = a - n"
proof -
  have ty: "ty \<le> SDS_TYPE_32" "n \<le> SIZE_MAX" "a \<le> SIZE_MAX" "ty = SDS_TYPE_5 \<Longrightarrow> n < 32 \<and> a = n"
    using assms by (auto simp: hdr_ok_def sdsTypeMaxSize_def split: if_splits)
  show "sdslen (sds_mk ty n a D) = n" "sdsalloc (sds_mk ty n a D) = a"
    using ty sds_mk_field [OF assms] by (auto simp: sdslen_def sdsalloc_def SDS_TYPE_5_LEN_def sds_mk_flags)
  have "(int a - int n) mod 2 ^ 32 = int a - int n" if "n \<le> a" using that ty(3) by (intro mod_pos_pos_trivial) auto
  then show "n \<le> a \<Longrightarrow> sdsavail (sds_mk ty n a D) = a - n"
    using ty sds_mk_field [OF assms] by (auto simp: sdsavail_def)
qed

lemma sds_mk_setlen: "ty \<le> SDS_TYPE_32 \<Longrightarrow> sdssetlen (sds_mk ty n a D) m = sds_mk ty m (if ty = SDS_TYPE_5 then m else a) D"
  by (simp add: sdssetlen_def sds_mk_set_flags sds_mk_set_field)

lemma sds_mk_inclen:
  "hdr_ok ty n a \<Longrightarrow> ty \<noteq> SDS_TYPE_5 \<Longrightarrow> sdsinclen (sds_mk ty n a D) m = sds_mk ty (n + m) a D"
  using sds_mk_field [of ty n a D] by (simp add: sdsinclen_def sds_mk_set_field hdr_ok_def)

lemma sds_mk_setalloc: "ty \<le> SDS_TYPE_32 \<Longrightarrow> ty \<noteq> SDS_TYPE_5 \<Longrightarrow> sdssetalloc (sds_mk ty n a D) m = sds_mk ty n m D"
  by (simp add: sdssetalloc_def sds_mk_set_field [unfolded One_nat_def])

lemma sds_mk_setalloc5: "sdssetalloc (sds_mk 0 n a D) m = sds_mk 0 n a D"
  by (simp add: sdssetalloc_def)

lemma sds_mk_get [simp]:
  "ty \<le> SDS_TYPE_32 \<Longrightarrow> i + k \<le> length D \<Longrightarrow> sds_get (sds_mk ty n a D) i k = Some (byte_range i (i + k) D)"
  by (simp add: sds_get_def sds_mk_sel byte_range_def)

lemma sds_mk_put [simp]:
  "ty \<le> SDS_TYPE_32 \<Longrightarrow> i + length bs \<le> length D \<Longrightarrow> sds_put (sds_mk ty n a D) i bs = Some (sds_mk ty n a (mem_write i bs D))"
  by (simp add: sds_put_def sds_mk_sel) (simp add: sds_mk_def mem_write_def)

section \<open>Well-typed strings\<close>

text \<open>
  A string of the contents \<open>x\<close>: the header has a type of the target, the length and the room fit it, the room is inside the block with a byte
  more for the null character, which is there.
\<close>

definition sds_room :: "nat \<Rightarrow> nat \<Rightarrow> nat \<Rightarrow> byte list \<Rightarrow> bool" where
  "sds_room ty n a D \<longleftrightarrow> hdr_ok ty n a \<and> n \<le> a \<and> a < length D"

definition sds_holds :: "sds \<Rightarrow> byte list \<Rightarrow> bool" where
  "sds_holds s x \<longleftrightarrow>
     (\<exists>ty a D. s = sds_mk ty (length x) a D \<and> sds_room ty (length x) a D \<and> take (length x) D = x \<and> D ! length x = 0)"

definition sds_typed :: "sds \<Rightarrow> bool" where
  "sds_typed s \<longleftrightarrow> (\<exists>x. sds_holds s x)"

definition sds_val :: "sds \<Rightarrow> byte list" where
  "sds_val s = byte_range (sds_off s) (sds_off s + sdslen s) (sds_block s)"

lemma sds_holds_val: "sds_holds s x \<Longrightarrow> sds_val s = x"
  by (auto simp: sds_holds_def sds_val_def sds_room_def hdr_ok_def sds_mk_sel byte_range_def)

lemma sds_holdsE:
  assumes "sds_holds s x"
  obtains ty a D where "s = sds_mk ty (length x) a D" "hdr_ok ty (length x) a" "ty \<le> SDS_TYPE_32" "length x \<le> a" "a < length D"
    "take (length x) D = x" "D ! length x = 0"
  using assms by (auto simp: sds_holds_def sds_room_def hdr_ok_def)

lemma sds_holds_len:
  assumes "sds_holds s x"
  shows "sdslen s = length x" "sds_get s 0 (length x) = Some x" "length x \<le> sdsalloc s" "sdsavail s = sdsalloc s - length x"
  by (rule sds_holdsE [OF assms]; simp add: byte_range_def)+

lemma sds_holdsI: "sds_room ty n a D \<Longrightarrow> take n D = x \<Longrightarrow> D ! n = 0 \<Longrightarrow> sds_holds (sds_mk ty n a D) x"
  unfolding sds_holds_def by (rule exI [of _ ty], rule exI [of _ a], rule exI [of _ D]) (auto simp: sds_room_def)

text \<open>Setting a length within the room.\<close>

lemma sds_room_setlen: "sds_room ty n a D \<Longrightarrow> m \<le> a \<Longrightarrow> length D' = length D \<Longrightarrow> sds_room ty m (if ty = SDS_TYPE_5 then m else a) D'"
  by (auto simp: sds_room_def hdr_ok_def)

lemma sds_room_type [simp]: "sds_room ty n a D \<Longrightarrow> ty \<le> SDS_TYPE_32"
  by (simp add: sds_room_def hdr_ok_def)

lemma sds_room_hdr [simp]: "sds_room ty n a D \<Longrightarrow> hdr_ok ty n a"
  by (simp add: sds_room_def)

lemma write_end:
  assumes "m < length D"
  shows "take m (mem_write m [0] D) = take m D" "mem_write m [0] D ! m = (0 :: byte)"
  using assms by (simp_all add: mem_write_def nth_append)

text \<open>Bytes written with a null character behind them.\<close>

lemma write_ended:
  assumes "i + length bs < length D"
  shows "take (i + length bs) (mem_write (i + length bs) [0] (mem_write i bs D)) = take i D @ bs"
    "mem_write (i + length bs) [0] (mem_write i bs D) ! (i + length bs) = (0 :: byte)"
  using assms by (simp_all add: mem_write_def nth_append min_absorb2)

text \<open>A header in fresh memory.\<close>

lemma sds_fresh_header:
  assumes "ty \<le> SDS_TYPE_32" "sdsHdrSize ty \<le> length B"
  shows "\<exists>n a. sds_set_flags ty \<lparr>sds_block = B, sds_off = sdsHdrSize ty\<rparr> = sds_mk ty n a (drop (sdsHdrSize ty) B)"
proof (cases "ty = SDS_TYPE_5")
  case True
  then show ?thesis using assms by (intro exI [of _ 0]) (cases B; simp add: sds_set_flags_def sds_mk_def sds_header_def sdsHdrSize_def mem_write_def)
next
  case False
  let ?w = "sds_width ty"
  let ?n = "byte_range 0 ?w B" and ?a = "byte_range ?w (?w + ?w) B"
  have hdr: "sdsHdrSize ty = Suc (?w + ?w)" using False assms(1) by (simp add: sdsHdrSize_def)
  have len: "length ?n = ?w" "length ?a = ?w" using assms(2) hdr by simp_all
  have B: "take (?w + ?w) B = ?n @ ?a" by (simp add: byte_range_def take_add)
  have bounds: "0 \<le> le_nat ?n" "0 \<le> le_nat ?a" using le_nat_bounds by simp_all
  have enc': "le_encode ?w (le_nat ?n) = ?n" "le_encode ?w (le_nat ?a) = ?a"
    using le_encode_nat [of ?n] le_encode_nat [of ?a] len by simp_all
  show ?thesis unfolding sds_set_flags_def sds_mk_def sds_header_def hdr
    by (rule exI [of _ "nat (le_nat ?n)"], rule exI [of _ "nat (le_nat ?a)"]) (simp add: False mem_write_def B enc' bounds)
qed

section \<open>Creation\<close>

lemma sdsReqType_ok: "sdsReqType n \<le> SDS_TYPE_32" "n \<le> SIZE_MAX \<Longrightarrow> n \<le> sdsTypeMaxSize (sdsReqType n)"
  by (simp_all add: sdsReqType_def sdsTypeMaxSize_def)

lemma sdsHdrSize_bounds: "ty \<le> SDS_TYPE_32 \<Longrightarrow> 0 < sdsHdrSize ty \<and> sdsHdrSize ty \<le> 9"
  by (auto simp: sdsHdrSize_def sds_width_def)

lemma zmalloc_usable_ok: "0 < n \<Longrightarrow> n < 2147483647 \<Longrightarrow> zmalloc_usable junk n = Some (map junk [0..<n])"
  by (simp add: zmalloc_usable_def ztrymalloc_usable_def MALLOC_MIN_SIZE_def)

lemma sds_init_header_ok:
  assumes "hdr_ok ty n a" "sdsHdrSize ty \<le> length B"
  shows "sds_init_header ty n a \<lparr>sds_block = B, sds_off = sdsHdrSize ty\<rparr> = sds_mk ty n a (drop (sdsHdrSize ty) B)"
proof (cases "ty = SDS_TYPE_5")
  case True
  then show ?thesis
    using assms by (cases B) (simp_all add: sds_init_header_def sds_set_flags_def sds_mk_def sds_header_def sdsHdrSize_def mem_write_def)
next
  case False
  have ty: "ty \<le> SDS_TYPE_32" using assms(1) by (simp add: hdr_ok_def)
  obtain n0 a0 where "sds_set_flags ty \<lparr>sds_block = B, sds_off = sdsHdrSize ty\<rparr> = sds_mk ty n0 a0 (drop (sdsHdrSize ty) B)"
    using sds_fresh_header [OF ty assms(2)] by blast
  with False ty show ?thesis by (simp add: sds_init_header_def sds_mk_set_field [unfolded One_nat_def])
qed

text \<open>The bytes that a new string has.\<close>

fun init_val :: "(nat \<Rightarrow> byte) \<Rightarrow> sds_init \<Rightarrow> byte list \<Rightarrow> bool" where
  "init_val junk (Init bs) x \<longleftrightarrow> x = bs"
| "init_val junk (Init_null n) x \<longleftrightarrow> x = replicate n 0"
| "init_val junk (Init_noinit n) x \<longleftrightarrow> length x = n"

lemma sds_new_block:
  assumes "hdr_ok ty n n" "length B = sdsHdrSize ty + n + 1"
  obtains D where "sds_init_header ty n (min (length B - sdsHdrSize ty - 1) (sdsTypeMaxSize ty)) \<lparr>sds_block = B, sds_off = sdsHdrSize ty\<rparr> = sds_mk ty n n D"
    "D = drop (sdsHdrSize ty) B" "sds_room ty n n D" "length D = n + 1"
proof -
  have "min (length B - sdsHdrSize ty - 1) (sdsTypeMaxSize ty) = n" using assms by (auto simp: hdr_ok_def)
  with sds_init_header_ok [OF assms(1)] assms that show thesis by (auto simp: sds_room_def)
qed

lemma sdsnewlen_ok:
  assumes "init_len init \<le> 2 ^ 30"
  shows "\<exists>s x. sdsnewlen junk init = Some s \<and> sds_holds s x \<and> init_val junk init x"
proof -
  define n where "n = init_len init"
  define ty where "ty = (if sdsReqType n = SDS_TYPE_5 \<and> n = 0 then SDS_TYPE_8 else sdsReqType n)"
  define hdr where "hdr = sdsHdrSize ty"
  define B where "B = (case init of Init_null _ \<Rightarrow> mem_write 0 (replicate (hdr + n + 1) 0) (map junk [0..<hdr + n + 1]) | _ \<Rightarrow> map junk [0..<hdr + n + 1])"
  have ok: "hdr_ok ty n n" using assms sdsReqType_ok [of n] by (auto simp: hdr_ok_def ty_def n_def sdsTypeMaxSize_def)
  then have hdr: "0 < hdr" "hdr \<le> 9" using sdsHdrSize_bounds [of ty] by (auto simp: hdr_def hdr_ok_def)
  have B: "length B = hdr + n + 1" by (auto simp: B_def split: sds_init.split)
  obtain D where D: "sds_init_header ty n (min (length B - hdr - 1) (sdsTypeMaxSize ty)) \<lparr>sds_block = B, sds_off = hdr\<rparr> = sds_mk ty n n D"
      "D = drop hdr B" "sds_room ty n n D" "length D = n + 1" using sds_new_block [OF ok] B unfolding hdr_def by metis
  have small: "n + hdr + 1 < 2 ^ 32" "0 < hdr + n + 1" "hdr + n + 1 < 2147483647" using assms hdr by (auto simp: n_def)
  define D1 where "D1 = (case init of Init bs \<Rightarrow> mem_write 0 bs D | _ \<Rightarrow> D)"
  have run: "sdsnewlen junk init = sds_put (sds_mk ty n n D1) n [0]"
    using small zmalloc_usable_ok [OF small(2,3), of junk] hdr D(1,3,4)
    unfolding sdsnewlen_def sdsnewlen_gen_def n_def [symmetric] ty_def [symmetric] Let_def hdr_def [symmetric] zmalloc_usable_def
    by (cases init) (auto simp: n_def B_def D1_def split: option.split)
  have len: "length D1 = n + 1" using D(4) by (cases init) (auto simp: D1_def n_def)
  then have "init_val junk init (take n D1)"
    using D(2,4) by (cases init) (auto simp: D1_def n_def B_def mem_write_def simp flip: replicate_Suc)
  moreover have "sds_holds (sds_mk ty n n (mem_write n [0] D1)) (take n D1)"
    using D(3,4) len by (intro sds_holdsI) (auto simp: sds_room_def mem_write_def nth_append)
  ultimately show ?thesis using run D(3) len by auto
qed

section \<open>Room\<close>

lemma zrealloc_usable_ok:
  "0 < n \<Longrightarrow> n < 2147483647 \<Longrightarrow> zrealloc_usable junk B n = Some (take n B @ map junk [length B..<n])"
  by (simp add: zrealloc_usable_def)

text \<open>The string and the byte behind it in a larger block.\<close>

lemma make_room_block_ok:
  assumes s: "sds_room ty0 n a D" and ty: "hdr_ok ty n newlen" "ty \<noteq> SDS_TYPE_5" and new: "n \<le> newlen" "newlen < 2 ^ 31 - 100"
  shows "\<exists>b D'. make_room_block junk (sds_mk ty0 n a D) ty newlen = Some (sds_mk ty n b D') \<and> length D' = newlen + 1
    \<and> take (n + 1) D' = take (n + 1) D"
proof -
  have s': "hdr_ok ty0 n a" "ty0 \<le> SDS_TYPE_32" "n < length D" using s by (auto simp: sds_room_def hdr_ok_def)
  define hdr where "hdr = sdsHdrSize ty"
  have ty': "ty \<le> SDS_TYPE_32" using ty by (simp add: hdr_ok_def)
  then have hdr: "0 < hdr" "hdr \<le> 9" using sdsHdrSize_bounds [of ty] by (auto simp: hdr_def)
  have sz: "uint32 (hdr + newlen + 1) = hdr + newlen + 1" "0 < hdr + newlen + 1" "hdr + newlen + 1 < 2147483647" using hdr new by simp_all
  show ?thesis
  proof (cases "ty0 = ty")
    case True
    define D' where "D' = take (newlen + 1) D @ map junk [hdr + length D..<hdr + newlen + 1]"
    have "make_room_block junk (sds_mk ty0 n a D) ty newlen = Some (sds_mk ty n a D')"
      using True s' sz zrealloc_usable_ok [OF sz(2,3), of junk "sds_block (sds_mk ty0 n a D)"]
      by (simp add: make_room_block_def hdr_def [symmetric] sds_mk_sel D'_def)
    moreover have "length D' = newlen + 1" by (auto simp: D'_def min_def)
    moreover have "take (n + 1) D' = take (n + 1) D" using s'(3) new by (simp add: D'_def)
    ultimately show ?thesis by blast
  next
    case False
    define M where "M = map junk [0..<hdr + newlen + 1]"
    define B where "B = mem_write hdr (take (Suc n) D) M"
    have M: "length M = hdr + newlen + 1" by (simp add: M_def)
    have get: "sds_get (sds_mk ty0 n a D) 0 (n + 1) = Some (take (n + 1) D)" using s' by (simp add: byte_range_def)
    have lenB: "length B = hdr + newlen + 1" using new M by (simp add: B_def)
    obtain n0 a0 where "sds_set_flags ty \<lparr>sds_block = B, sds_off = hdr\<rparr> = sds_mk ty n0 a0 (drop hdr B)"
      using sds_fresh_header [OF ty', of B] lenB by (auto simp: hdr_def)
    then have "make_room_block junk (sds_mk ty0 n a D) ty newlen = Some (sds_mk ty n a0 (drop hdr B))"
      using False s' get zmalloc_usable_ok [OF sz(2,3), of junk] M new ty(2) ty'
      unfolding make_room_block_def hdr_def [symmetric] sz(1) M_def [symmetric] Let_def
      by (simp add: sds_put_def B_def [symmetric] sds_mk_setlen)
    moreover have "take (n + 1) (drop hdr B) = take (n + 1) D" using new M s'(3) by (simp add: B_def mem_write_def)
    ultimately show ?thesis using lenB by (intro exI [of _ a0] exI [of _ "drop hdr B"]) simp
  qed
qed

lemma make_room_ok:
  assumes s: "sds_room ty0 n a D" and k: "n + k \<le> 2 ^ 30"
  shows "\<exists>ty b D'. sdsMakeRoomFor_gen junk (sds_mk ty0 n a D) k greedy = Some (sds_mk ty n b D') \<and> sds_room ty n b D'
    \<and> take (n + 1) D' = take (n + 1) D \<and> n + k \<le> b \<and> (0 < k \<longrightarrow> ty \<noteq> SDS_TYPE_5)"
proof -
  have s': "hdr_ok ty0 n a" "n \<le> a" "ty0 = SDS_TYPE_5 \<Longrightarrow> a = n" using s by (auto simp: sds_room_def hdr_ok_def)
  show ?thesis
  proof (cases "a - n \<ge> k")
    case True
    moreover have "ty0 \<noteq> SDS_TYPE_5" if "0 < k" using True that by (intro notI) (drule s'(3), simp)
    ultimately show ?thesis using s s'(1,2)
      by - (rule exI [of _ ty0], rule exI [of _ a], rule exI [of _ D], auto simp: sdsMakeRoomFor_gen_def)
  next
    case False
    define req where "req = n + k"
    define newlen where "newlen = (if greedy then (if req < SDS_MAX_PREALLOC then req * 2 else uint32 (req + SDS_MAX_PREALLOC)) else req)"
    define ty where "ty = (if sdsReqType newlen = SDS_TYPE_5 then SDS_TYPE_8 else sdsReqType newlen)"
    have new: "req \<le> newlen" "newlen < 2 ^ 31 - 100" using k by (auto simp: newlen_def req_def)
    then have ty: "hdr_ok ty n newlen" "ty \<noteq> SDS_TYPE_5" "ty \<le> SDS_TYPE_32" "newlen \<le> sdsTypeMaxSize ty"
      using sdsReqType_ok [of newlen] by (auto simp: ty_def hdr_ok_def sdsTypeMaxSize_def req_def sdsReqType_def)
    obtain b D' where D: "make_room_block junk (sds_mk ty0 n a D) ty newlen = Some (sds_mk ty n b D')" "length D' = newlen + 1"
        "take (n + 1) D' = take (n + 1) D"
      using make_room_block_ok [OF s ty(1,2) _ new(2), of junk] new by (auto simp: req_def)
    have hdr: "0 < sdsHdrSize ty" "sdsHdrSize ty \<le> 9" using sdsHdrSize_bounds [OF ty(3)] by auto
    have room: "sds_room ty n newlen D'" using ty new D(2) by (simp add: sds_room_def req_def)
    have req32: "uint32 (n + k) = req" using k by (simp add: req_def)
    have "sdsMakeRoomFor_gen junk (sds_mk ty0 n a D) k greedy = Some (sds_mk ty n newlen D')"
      using False k D(1,2) hdr new ty s'(2)
      unfolding sdsMakeRoomFor_gen_def sds_mk_len(1) [OF s'(1)] sds_mk_len(3) [OF s'(1,2)] Let_def req32 newlen_def [symmetric] ty_def [symmetric]
      by (auto simp: assert_that_def sds_mk_setalloc sds_mk_sel req_def)
    then show ?thesis using room D(3) new ty by (auto simp: req_def)
  qed
qed

lemma sdsMakeRoomFor_ok:
  assumes s: "sds_holds s x" and k: "length x + k \<le> 2 ^ 30"
  shows "\<exists>s'. sdsMakeRoomFor_gen junk s k greedy = Some s' \<and> sds_holds s' x \<and> length x + k \<le> sdsalloc s' \<and> (0 < k \<longrightarrow> sds_type s' \<noteq> SDS_TYPE_5)"
proof -
  obtain ty0 a D where D: "s = sds_mk ty0 (length x) a D" "sds_room ty0 (length x) a D" "take (length x) D = x" "D ! length x = 0"
    using s by (auto simp: sds_holds_def)
  obtain ty b D' where D': "sdsMakeRoomFor_gen junk s k greedy = Some (sds_mk ty (length x) b D')" "sds_room ty (length x) b D'"
      "take (length x + 1) D' = take (length x + 1) D" "length x + k \<le> b" "0 < k \<longrightarrow> ty \<noteq> SDS_TYPE_5"
    using make_room_ok [OF D(2) k, of junk greedy] D(1) by blast
  have "take (length x) D' = x" "D' ! length x = 0" using D(3,4) take_eq_mono [OF D'(3)] nth_take_eq [OF D'(3)] by auto
  with D' show ?thesis by (auto simp: sds_holdsI)
qed

lemma sdsTypeMaxSize_mono: "ty \<le> ty' \<Longrightarrow> sdsTypeMaxSize ty \<le> sdsTypeMaxSize ty'"
  by (auto simp: sdsTypeMaxSize_def)

lemma resize_block_ok:
  assumes s: "sds_holds s x" and ty: "ty \<le> SDS_TYPE_32" "sz \<le> sdsTypeMaxSize ty" and len: "len \<le> length x" "len \<le> sz" "sz < 2 ^ 31 - 100"
  shows "\<exists>ty' n b D. resize_block junk s ty len sz = Some (sds_mk ty' n b D) \<and> ty' \<le> SDS_TYPE_32 \<and> sz \<le> sdsTypeMaxSize ty'
    \<and> length D = sz + 1 \<and> take len D = take len x"
proof -
  obtain ty0 a D where s': "s = sds_mk ty0 (length x) a D" "ty0 \<le> SDS_TYPE_32" "length x \<le> a" "a < length D"
    "take (length x) D = x" using sds_holdsE [OF s] by metis
  have take_len: "take len D = take len x" using len(1) s'(5) by (metis min.absorb1 take_take)
  show ?thesis
  proof (cases "ty0 = ty \<or> ty < ty0 \<and> ty > SDS_TYPE_8")
    case True
    define hdr where "hdr = sdsHdrSize ty0"
    define D' where "D' = take (sz + 1) D @ map junk [hdr + length D..<hdr + sz + 1]"
    have "0 < hdr" "hdr \<le> 9" using sdsHdrSize_bounds [OF s'(2)] by (auto simp: hdr_def)
    then have sz: "uint32 (hdr + sz + 1) = hdr + sz + 1" "0 < hdr + sz + 1" "hdr + sz + 1 < 2147483647" using len by simp_all
    have "resize_block junk s ty len sz = Some (sds_mk ty0 (length x) a D')"
      using True s' sz(1) zrealloc_usable_ok [OF sz(2,3), of junk "sds_block s"]
      by (simp add: resize_block_def hdr_def [symmetric] sds_mk_sel D'_def)
    moreover have "length D' = sz + 1" by (auto simp: D'_def min_def)
    moreover have "take len D' = take len x" using len s'(3,4) take_len by (simp add: D'_def min_def)
    moreover have "sz \<le> sdsTypeMaxSize ty0" using True ty(2) sdsTypeMaxSize_mono [of ty ty0] by auto
    ultimately show ?thesis using s'(2) by blast
  next
    case False
    define hdr where "hdr = sdsHdrSize ty"
    define M where "M = map junk [0..<hdr + sz + 1]"
    define B where "B = mem_write hdr (take len x) M"
    have "0 < hdr" "hdr \<le> 9" using sdsHdrSize_bounds [OF ty(1)] by (auto simp: hdr_def)
    then have sz: "uint32 (hdr + sz + 1) = hdr + sz + 1" "0 < hdr + sz + 1" "hdr + sz + 1 < 2147483647" using len by simp_all
    have M: "length M = hdr + sz + 1" by (simp add: M_def)
    have get: "sds_get s 0 len = Some (take len x)" using s' len take_len by (simp add: byte_range_def)
    have lenB: "length B = hdr + sz + 1" using len M by (simp add: B_def)
    obtain n0 a0 where "sds_set_flags ty \<lparr>sds_block = B, sds_off = hdr\<rparr> = sds_mk ty n0 a0 (drop hdr B)"
      using sds_fresh_header [OF ty(1), of B] lenB by (auto simp: hdr_def)
    then have "resize_block junk s ty len sz = Some (sds_mk ty n0 a0 (drop hdr B))"
      using False s'(1,2) get zmalloc_usable_ok [OF sz(2,3), of junk] M len
      unfolding resize_block_def hdr_def [symmetric] sz(1) M_def [symmetric] Let_def
      by (auto simp: sds_put_def B_def [symmetric] min_def)
    moreover have "take len (drop hdr B) = take len x" using len M by (simp add: B_def mem_write_def min_def)
    ultimately show ?thesis using ty lenB by (intro exI [of _ ty] exI [of _ n0] exI [of _ a0] exI [of _ "drop hdr B"]) simp
  qed
qed

lemma sdsResize_ok:
  assumes s: "sds_holds s x" and sz: "sz \<le> 2 ^ 30"
  shows "\<exists>s'. sdsResize junk s sz regrow = Some s' \<and> sds_holds s' (take sz x)"
proof (cases "sdsalloc s = sz")
  case True
  with s sds_holds_len(3) [OF s] show ?thesis by (auto simp: sdsResize_def)
next
  case False
  define len where "len = (if sz < length x then sz else length x)"
  define ty where "ty = (if regrow \<and> sdsReqType sz = SDS_TYPE_5 then SDS_TYPE_8 else sdsReqType sz)"
  have len: "len \<le> length x" "len \<le> sz" "take len x = take sz x" by (auto simp: len_def)
  have ty: "ty \<le> SDS_TYPE_32" "sz \<le> sdsTypeMaxSize ty" using sdsReqType_ok [of sz] sz by (auto simp: ty_def sdsTypeMaxSize_def sdsReqType_def)
  have "sz < 2 ^ 31 - 100" using sz by simp
  then obtain ty' n b D where D: "resize_block junk s ty len sz = Some (sds_mk ty' n b D)" "ty' \<le> SDS_TYPE_32" "sz \<le> sdsTypeMaxSize ty'"
      "length D = sz + 1" "take len D = take len x" using resize_block_ok [OF s ty len(1,2)] by blast
  define D' where "D' = mem_write len [0] D"
  have D': "length D' = sz + 1" "take len D' = take sz x" "D' ! len = 0"
    using write_end [of len D] D(4,5) len by (simp_all add: D'_def)
  have "sdsResize junk s sz regrow = Some (sdssetalloc (sdssetlen (sds_mk ty' n b D') len) sz)"
    using False D len unfolding sdsResize_def sds_holds_len(1) [OF s] Let_def len_def [symmetric] ty_def [symmetric]
    by (simp add: D'_def)
  also have "sdssetalloc (sdssetlen (sds_mk ty' n b D') len) sz = sds_mk ty' len (if ty' = SDS_TYPE_5 then len else sz) D'"
    using D(2) by (cases "ty' = SDS_TYPE_5") (simp_all add: sds_mk_setlen sds_mk_setalloc sds_mk_setalloc5)
  finally show ?thesis using D D' len by (auto intro!: sds_holdsI simp: sds_room_def hdr_ok_def)
qed

end
