(* ===== verification/Redis_Sds_Ops.thy ===== *)
theory Redis_Sds_Ops
  imports Redis_Sds_Inv Redis_Util_Proofs
begin

text \<open>
  What the operations of \<open>sds.c\<close> do to the contents of a well-typed string: appending, overwriting, parts, characters, increments and formats.
\<close>

section \<open>Changing the contents\<close>

text \<open>An operation returns a well-typed string that holds \<open>x\<close>.\<close>

definition sds_returns :: "sds option \<Rightarrow> byte list \<Rightarrow> bool" where
  "sds_returns r x \<longleftrightarrow> (\<exists>s. r = Some s \<and> sds_holds s x)"

lemma sds_returns_bind: "sds_returns r x \<Longrightarrow> (\<And>s. sds_holds s x \<Longrightarrow> sds_returns (f s) y) \<Longrightarrow> sds_returns (Option.bind r f) y"
  by (auto simp: sds_returns_def)

lemma sds_returns_some: "sds_holds s x \<Longrightarrow> sds_returns (Some s) x"
  by (simp add: sds_returns_def)

text \<open>The end of an operation: the null character and the length, in either order.\<close>

lemma sds_end:
  assumes "sds_room ty n a D" "m \<le> a" "take m D = x"
  shows "sds_returns (sds_put (sdssetlen (sds_mk ty n a D) m) m [0]) x"
    "sds_returns (Option.bind (sds_put (sds_mk ty n a D) m [0]) (\<lambda>s. Some (sdssetlen s m))) x"
proof -
  let ?D = "mem_write m [0] D" and ?a = "if ty = SDS_TYPE_5 then m else a"
  have len: "m < length D" "ty \<le> SDS_TYPE_32" using assms(1,2) by (auto simp: sds_room_def hdr_ok_def)
  have "sds_holds (sds_mk ty m ?a ?D) x"
    using sds_room_setlen [OF assms(1,2), of ?D] write_end [OF len(1)] assms(3) len by (intro sds_holdsI) simp_all
  then show "sds_returns (sds_put (sdssetlen (sds_mk ty n a D) m) m [0]) x"
    "sds_returns (Option.bind (sds_put (sds_mk ty n a D) m [0]) (\<lambda>s. Some (sdssetlen s m))) x"
    using len by (simp_all add: sds_mk_setlen sds_returns_def)
qed

lemma sds_holds_room:
  assumes "sds_holds s x"
  obtains ty a D where "s = sds_mk ty (length x) a D" "sds_room ty (length x) a D" "take (length x) D = x" "D ! length x = 0" "sdsalloc s = a"
    "ty \<le> SDS_TYPE_32" "length x \<le> a" "a < length D"
  using assms by (auto simp: sds_holds_def sds_room_def hdr_ok_def)

lemma sds_room_write: "sds_room ty n a D \<Longrightarrow> i + length bs \<le> length D \<Longrightarrow> sds_room ty n a (mem_write i bs D)"
  by (simp add: sds_room_def)

lemma sdsclear_ok: "sds_holds s x \<Longrightarrow> sds_returns (sdsclear s) []"
  by (erule sds_holds_room) (auto simp: sdsclear_def intro!: sds_end(1))

lemma c_string_ended:
  "c_string (x @ 0 # z) = c_string x" "take (length (c_string x)) (x @ 0 # z) = c_string x" "(x @ 0 # z) ! length (c_string x) = 0"
  by (induction x) (simp_all add: c_string_def)

lemma sdsupdatelen_ok:
  assumes "sds_holds s x"
  shows "sds_holds (sdsupdatelen s) (c_string x)"
proof -
  obtain ty a D where s: "s = sds_mk ty (length x) a D" "sds_room ty (length x) a D" "take (length x) D = x" "D ! length x = 0"
    "ty \<le> SDS_TYPE_32" "length x \<le> a" "a < length D" using sds_holds_room [OF assms] by metis
  have D: "D = x @ 0 # drop (Suc (length x)) D" using s(3,4,6,7) by (metis Cons_nth_drop_Suc append_take_drop_id le_less_trans)
  define m where "m = length (c_string x)"
  have "c_string D = c_string x" by (subst D) (rule c_string_ended)
  then have "sdsupdatelen s = sds_mk ty m (if ty = SDS_TYPE_5 then m else a) D"
    using s(5) by (simp add: sdsupdatelen_def s(1) sds_mk_sel sds_mk_setlen m_def)
  moreover have "m \<le> length x" by (simp add: m_def c_string_def length_takeWhile_le)
  moreover have "take m D = c_string x" "D ! m = 0"
    using c_string_ended [of x "drop (Suc (length x)) D"] D by (simp_all add: m_def)
  ultimately show ?thesis using sds_room_setlen [OF s(2), of m D] s(6) by (simp add: sds_holdsI)
qed

lemma sdsgrowzero_ok:
  assumes s: "sds_holds s x" and len: "len \<le> 2 ^ 30" "length x \<le> 2 ^ 30"
  shows "sds_returns (sdsgrowzero junk s len) (x @ replicate (len - length x) 0)"
proof (cases "len \<le> length x")
  case True
  then show ?thesis using s by (simp add: sdsgrowzero_def Let_def sds_holds_len(1) [OF s] sds_returns_def)
next
  case False
  then obtain s' where s': "sdsMakeRoomFor junk s (len - length x) = Some s'" "sds_holds s' x" "len \<le> sdsalloc s'"
    using sdsMakeRoomFor_ok [OF s, of "len - length x" junk True] len by (auto simp: sdsMakeRoomFor_def)
  obtain ty a D where D: "s' = sds_mk ty (length x) a D" "sds_room ty (length x) a D" "take (length x) D = x" "sdsalloc s' = a" "ty \<le> SDS_TYPE_32"
    "a < length D" using sds_holds_room [OF s'(2)] by metis
  let ?D = "mem_write (length x) (replicate (len - length x + 1) 0) D"
  have "take len ?D = x @ replicate (len - length x) 0" "?D ! len = 0"
    using False D(3,4,6) s'(3) by (simp_all add: mem_write_def nth_append del: replicate_Suc)
  then have "sds_holds (sdssetlen (sds_mk ty (length x) a ?D) len) (x @ replicate (len - length x) 0)"
    using sds_room_setlen [OF D(2), of len ?D] s'(3) D False by (simp add: sds_mk_setlen sds_holdsI)
  then show ?thesis using False s' D by (simp add: sdsgrowzero_def Let_def sds_holds_len(1) [OF s] sds_returns_def)
qed

lemma sdscatlen_ok:
  assumes s: "sds_holds s x" and len: "length x + length t \<le> 2 ^ 30"
  shows "sds_returns (sdscatlen junk s t) (x @ t)"
proof -
  obtain s' where s': "sdsMakeRoomFor junk s (length t) = Some s'" "sds_holds s' x" "length x + length t \<le> sdsalloc s'"
    using sdsMakeRoomFor_ok [OF s len, of junk True] by (auto simp: sdsMakeRoomFor_def)
  obtain ty a D where D: "s' = sds_mk ty (length x) a D" "sds_room ty (length x) a D" "take (length x) D = x" "sdsalloc s' = a" "ty \<le> SDS_TYPE_32"
    "a < length D" using sds_holds_room [OF s'(2)] by metis
  have "sds_returns (sds_put (sdssetlen (sds_mk ty (length x) a (mem_write (length x) t D)) (length x + length t)) (length x + length t) [0]) (x @ t)"
    using D s'(3) by (intro sds_end(1) sds_room_write) (simp_all add: mem_write_def)
  then show ?thesis using s' D len by (simp add: sdscatlen_def Let_def sds_holds_len(1) [OF s])
qed

lemma sdscpylen_ok:
  assumes s: "sds_holds s x" and len: "length t \<le> 2 ^ 30"
  shows "sds_returns (sdscpylen junk s t) t"
proof -
  let ?k = "nat ((int (length t) - int (length x)) mod 2 ^ 32)"
  have "\<exists>s' y. (if sdsalloc s < length t then sdsMakeRoomFor junk s ?k else Some s) = Some s' \<and> sds_holds s' y \<and> length t \<le> sdsalloc s'"
  proof (cases "sdsalloc s < length t")
    case True
    then have "length x < length t" using sds_holds_len(3) [OF s] by simp
    then have "?k = length t - length x" using len by (subst mod_pos_pos_trivial) auto
    with True \<open>length x < length t\<close> sdsMakeRoomFor_ok [OF s, of "length t - length x" junk True] len show ?thesis
      by (auto simp: sdsMakeRoomFor_def)
  qed (use s in auto)
  then obtain s' y where s': "(if sdsalloc s < length t then sdsMakeRoomFor junk s ?k else Some s) = Some s'" "sds_holds s' y" "length t \<le> sdsalloc s'"
    by blast
  obtain ty a D where D: "s' = sds_mk ty (length y) a D" "sds_room ty (length y) a D" "sdsalloc s' = a" "ty \<le> SDS_TYPE_32" "a < length D"
    using sds_holds_room [OF s'(2)] by metis
  have "sds_returns (Option.bind (sds_put (sds_mk ty (length y) a (mem_write 0 t D)) (length t) [0]) (\<lambda>s. Some (sdssetlen s (length t)))) t"
    using D s'(3) by (intro sds_end(2) sds_room_write) (simp_all add: mem_write_def)
  then show ?thesis using s' D unfolding sdscpylen_def sds_holds_len(1) [OF s] by simp
qed

lemma sdsdup_ok: "sds_holds s x \<Longrightarrow> length x \<le> 2 ^ 30 \<Longrightarrow> sds_returns (sdsdup junk s) x"
  using sdsnewlen_ok [of "Init x" junk] by (auto simp: sdsdup_def sds_holds_len sds_returns_def)

lemma sdscatsds_ok: "sds_holds s x \<Longrightarrow> sds_holds t y \<Longrightarrow> length x + length y \<le> 2 ^ 30 \<Longrightarrow> sds_returns (sdscatsds junk s t) (x @ y)"
  by (simp add: sdscatsds_def sds_holds_len sdscatlen_ok)

section \<open>Parts of a string\<close>

text \<open>A part of the string is moved to the front and ended.\<close>

lemma sds_part_ok:
  assumes s: "sds_holds s x" and part: "i + m \<le> length x" and still: "move \<or> i = 0 \<or> m = 0"
  shows "sds_returns
    (do {
       s \<leftarrow> (if move then do { bs \<leftarrow> sds_get s i m; sds_put s 0 bs } else Some s);
       s \<leftarrow> sds_put s m [0];
       Some (sdssetlen s m)
     }) (take m (drop i x))"
proof -
  obtain ty a D where D: "s = sds_mk ty (length x) a D" "sds_room ty (length x) a D" "take (length x) D = x" "ty \<le> SDS_TYPE_32"
    "length x \<le> a" "a < length D" using sds_holds_room [OF s] by metis
  have bs: "byte_range i (i + m) D = take m (drop i x)"
    using part by (subst D(3) [symmetric]) (simp add: byte_range_def drop_take min_def)
  define D1 where "D1 = (if move then mem_write 0 (take m (drop i x)) D else D)"
  have "take m D1 = take m (drop i x)"
    using part still D(3) bs by (auto simp: D1_def mem_write_def byte_range_def)
  then have "sds_returns (Option.bind (sds_put (sds_mk ty (length x) a D1) m [0]) (\<lambda>s. Some (sdssetlen s m))) (take m (drop i x))"
    using D(2,5,6) part by (intro sds_end(2)) (auto simp: D1_def sds_room_write)
  moreover have "(if move then do { bs \<leftarrow> sds_get s i m; sds_put s 0 bs } else Some s) = Some (sds_mk ty (length x) a D1)"
    using D part bs by (simp add: D1_def)
  ultimately show ?thesis by simp
qed

lemma sdssubstr_ok:
  assumes s: "sds_holds s x"
  shows "sds_returns (sdssubstr s start len) (take len (drop start x))"
proof (cases "start \<ge> length x")
  case True
  with sds_part_ok [OF s, of 0 0 False] show ?thesis by (simp add: sdssubstr_def sds_holds_len(1) [OF s])
next
  case False
  define m where "m = (if len > length x - start then length x - start else len)"
  have "sds_returns (do { s \<leftarrow> (if m \<noteq> 0 then do { bs \<leftarrow> sds_get s start m; sds_put s 0 bs } else Some s);
       s \<leftarrow> sds_put s m [0]; Some (sdssetlen s m) }) (take m (drop start x))"
    using False by (intro sds_part_ok [OF s]) (auto simp: m_def)
  moreover have "take m (drop start x) = take len (drop start x)" by (simp add: m_def)
  ultimately show ?thesis using False by (simp add: sdssubstr_def sds_holds_len(1) [OF s] m_def [symmetric])
qed

text \<open>An index of \<open>sdsrange\<close>: a negative one counts from the end.\<close>

definition range_index :: "nat \<Rightarrow> int \<Rightarrow> int" where
  "range_index n i = (if i < 0 then int n + i else i)"

definition range_spec :: "byte list \<Rightarrow> int \<Rightarrow> int \<Rightarrow> byte list" where
  "range_spec x start stop =
     (let i = range_index (length x) start; j = range_index (length x) stop in
      if i < 0 \<or> i > j then [] else take (nat (j - i + 1)) (drop (nat i) x))"

lemma to_signed_32:
  assumes "- (2 ^ 31) \<le> u" "u < 2 ^ 31"
  shows "to_signed 4 (u mod 2 ^ 32) = u"
proof (cases "0 \<le> u")
  case True
  then show ?thesis using assms by (simp add: to_signed_def)
next
  case False
  then have "u mod 2 ^ 32 = u + 2 ^ 32" using assms mod_pos_pos_trivial [of "u + 2 ^ 32" "2 ^ 32"] by simp
  then show ?thesis using False assms by (simp add: to_signed_def)
qed

lemma sdsrange_ok:
  assumes s: "sds_holds s x" and len: "length x \<le> 2 ^ 30"
    and ij: "- (2 ^ 30) \<le> start" "start < 2 ^ 30" "- (2 ^ 30) \<le> stop" "stop < 2 ^ 30"
  shows "sds_returns (sdsrange s start stop) (range_spec x start stop)"
proof (cases "x = []")
  case True
  then show ?thesis using s by (simp add: sdsrange_def sds_holds_len(1) [OF s] sds_returns_def range_spec_def Let_def)
next
  case False
  define i where "i = range_index (length x) start"
  define j where "j = range_index (length x) stop"
  have bounds: "- (2 ^ 30) \<le> i" "i < 2 ^ 30" "- (2 ^ 30) \<le> j" "j < 2 ^ 30" using len ij by (auto simp: i_def j_def range_index_def)
  then have "(if start < 0 then to_signed 4 ((int (length x) + start) mod 2 ^ 32) else start) = i"
    "(if stop < 0 then to_signed 4 ((int (length x) + stop) mod 2 ^ 32) else stop) = j"
    using to_signed_32 [of i] to_signed_32 [of j] by (auto simp: i_def j_def range_index_def)
  then have run: "sdsrange s start stop = sdssubstr s (nat (i mod 2 ^ 32)) (if i > j then 0 else nat ((j - i + 1) mod 2 ^ 32))"
    using False unfolding sdsrange_def sds_holds_len(1) [OF s] Let_def by simp
  have count: "nat ((j - i + 1) mod 2 ^ 32) = nat (j - i + 1)" if "i \<le> j" using bounds that by (subst mod_pos_pos_trivial) auto
  have "take (if i > j then 0 else nat ((j - i + 1) mod 2 ^ 32)) (drop (nat (i mod 2 ^ 32)) x) = range_spec x start stop"
  proof (cases "i < 0")
    case True
    then have "i mod 2 ^ 32 = i + 2 ^ 32" using bounds mod_pos_pos_trivial [of "i + 2 ^ 32" "2 ^ 32"] by simp
    then show ?thesis using True bounds len by (simp add: range_spec_def i_def [symmetric] j_def [symmetric])
  next
    case False
    then show ?thesis using bounds count by (simp add: range_spec_def i_def [symmetric] j_def [symmetric])
  qed
  then show ?thesis using sdssubstr_ok [OF s] unfolding run by metis
qed

text \<open>\<open>sdstrim\<close> takes the characters of the set, and null characters, from both ends.\<close>

definition trim_spec :: "byte list \<Rightarrow> byte list \<Rightarrow> byte list" where
  "trim_spec cset x = rev (dropWhile (strchr_in cset) (rev (dropWhile (strchr_in cset) x)))"

lemma trim_end_ok:
  assumes "sp \<le> ep" "\<not> strchr_in cset (d ! sp)"
  shows "sp < trim_end cset d sp (Suc ep) \<and> trim_end cset d sp (Suc ep) \<le> Suc ep \<and> \<not> strchr_in cset (d ! (trim_end cset d sp (Suc ep) - 1))
    \<and> (\<forall>k. trim_end cset d sp (Suc ep) \<le> k \<and> k \<le> ep \<longrightarrow> strchr_in cset (d ! k))"
  using assms
proof (induction ep)
  case (Suc ep)
  show ?case
  proof (cases "Suc ep > sp \<and> strchr_in cset (d ! Suc ep)")
    case True
    then have "trim_end cset d sp (Suc (Suc ep)) = trim_end cset d sp (Suc ep)" by (simp only: trim_end.simps(2) simp_thms if_True)
    then show ?thesis using Suc.IH True Suc.prems(2) by (auto simp: le_Suc_eq simp del: trim_end.simps)
  next
    case False
    then have "trim_end cset d sp (Suc (Suc ep)) = Suc (Suc ep)" by (simp only: trim_end.simps(2) simp_thms if_False)
    moreover have "\<not> strchr_in cset (d ! Suc ep)" using False Suc.prems by (cases "sp = Suc ep") auto
    ultimately show ?thesis using Suc.prems(1) by (auto simp del: trim_end.simps)
  qed
qed simp

lemma rev_dropWhile_end: "\<not> P c \<Longrightarrow> \<forall>v\<in>set vs. P v \<Longrightarrow> rev (dropWhile P (rev (us @ c # vs))) = us @ [c]"
  by (simp add: dropWhile_append)

lemma trim_parts:
  fixes cset d :: "byte list"
  defines "P \<equiv> strchr_in cset" and "sp \<equiv> length (takeWhile (strchr_in cset) d)"
  shows "take (trim_end cset d sp (length d) - sp) (drop sp d) = trim_spec cset d \<and> sp + (trim_end cset d sp (length d) - sp) \<le> length d"
proof (cases "sp = length d")
  case True
  then have "\<forall>c\<in>set d. P c" unfolding sp_def P_def by (metis takeWhile_eq_all_conv takeWhile_eq_take take_all order_refl)
  then have "dropWhile P d = []" by simp
  then have "trim_spec cset d = []" unfolding trim_spec_def P_def [symmetric] by (simp only: rev.simps dropWhile.simps)
  moreover have "trim_end cset d (length d) (length d) = length d" by (cases "length d") auto
  ultimately show ?thesis using True by simp
next
  case False
  have sp: "sp < length d" using False length_takeWhile_le [of "strchr_in cset" d] by (simp add: sp_def)
  then have first: "\<not> P (d ! sp)" using nth_length_takeWhile [of "strchr_in cset" d] by (simp add: sp_def P_def)
  define e where "e = trim_end cset d sp (length d)"
  obtain n where n: "length d = Suc n" using sp by (cases "length d") auto
  have e: "sp < e" "e \<le> length d" "\<not> P (d ! (e - 1))" "\<And>k. e \<le> k \<Longrightarrow> k < length d \<Longrightarrow> P (d ! k)"
    using trim_end_ok [of sp n cset d] sp first unfolding e_def P_def n by (auto simp del: trim_end.simps)
  have tail: "\<forall>v\<in>set (drop e d). P v" using e(4) by (auto simp: in_set_conv_nth)
  have "drop sp d = take (e - 1 - sp) (drop sp d) @ d ! (e - 1) # drop e d"
    using e(1,2) sp id_take_nth_drop [of "e - 1 - sp" "drop sp d"] by simp
  then have "rev (dropWhile P (rev (drop sp d))) = take (e - 1 - sp) (drop sp d) @ [d ! (e - 1)]"
    using rev_dropWhile_end [OF e(3) tail, of "take (e - 1 - sp) (drop sp d)"] by simp
  moreover have "take (e - 1 - sp) (drop sp d) @ [d ! (e - 1)] = take (e - sp) (drop sp d)"
    using e(1,2) sp take_Suc_conv_app_nth [of "e - 1 - sp" "drop sp d"] by (simp add: Suc_diff_Suc)
  moreover have "dropWhile P d = drop sp d" unfolding sp_def P_def by (simp add: dropWhile_eq_drop)
  ultimately show ?thesis using e(1,2) by (simp add: trim_spec_def P_def [symmetric] e_def [symmetric])
qed

lemma sdstrim_ok:
  assumes s: "sds_holds s x"
  shows "sds_returns (sdstrim s cset) (trim_spec cset x)"
proof -
  define sp where "sp = length (takeWhile (strchr_in cset) x)"
  define m where "m = trim_end cset x sp (length x) - sp"
  have part: "take m (drop sp x) = trim_spec cset x" "sp + m \<le> length x" using trim_parts [of cset x] by (simp_all add: sp_def m_def)
  obtain bs where bs: "sds_get s sp m = Some bs" using sds_holds_room [OF s] part(2)
    by (metis (no_types, lifting) dual_order.trans less_imp_le sds_mk_get)
  have run: "sdstrim s cset = (do { s \<leftarrow> (if sp \<noteq> 0 then do { bs \<leftarrow> sds_get s sp m; sds_put s 0 bs } else Some s);
       s \<leftarrow> sds_put s m [0]; Some (sdssetlen s m) })"
    unfolding sdstrim_def sds_holds_len(1) [OF s] sds_holds_len(2) [OF s] Let_def Option.bind.bind_lunit sp_def [symmetric] m_def [symmetric]
    by (simp add: bs)
  show ?thesis unfolding run part(1) [symmetric] by (rule sds_part_ok [OF s part(2)]) arith
qed

section \<open>Characters\<close>

lemma sds_overwrite:
  assumes s: "sds_holds s x" and bs: "length bs = length x"
  shows "sds_returns (sds_put s 0 bs) bs"
proof -
  obtain ty a D where D: "s = sds_mk ty (length x) a D" "sds_room ty (length x) a D" "ty \<le> SDS_TYPE_32" "D ! length x = 0"
    "length x \<le> a" "a < length D" using sds_holds_room [OF s] by metis
  have "sds_holds (sds_mk ty (length x) a (mem_write 0 bs D)) bs"
    using D bs by (intro sds_holdsI sds_room_write) (simp_all add: mem_write_def nth_append)
  then show ?thesis using D bs by (simp add: sds_returns_def)
qed

lemma sds_map_ok: "sds_holds s x \<Longrightarrow> sds_returns (do { bs \<leftarrow> sds_get s 0 (sdslen s); sds_put s 0 (map f bs) }) (map f x)"
  by (simp add: sds_holds_len sds_overwrite)

section \<open>Increments\<close>

lemma sdsIncrLen_ok:
  assumes s: "sds_room ty n a D" and m: "int m = int n + incr" "m \<le> a" and grow: "incr < 0 \<or> ty \<noteq> SDS_TYPE_5"
  shows "sdsIncrLen (sds_mk ty n a D) incr = sds_put (sdssetlen (sds_mk ty n a D) m) m [0]"
proof -
  have hdr: "hdr_ok ty n a" "ty \<le> SDS_TYPE_32" "n \<le> a" "n \<le> 31" if "ty = SDS_TYPE_5" using s that by (auto simp: sds_room_def hdr_ok_def sdsTypeMaxSize_def)
  have hdr': "hdr_ok ty n a" "ty \<le> SDS_TYPE_32" "n \<le> a" using s by (auto simp: sds_room_def hdr_ok_def)
  have m': "nat (int n + incr) = m" using m(1) by simp
  show ?thesis
  proof (cases "ty = SDS_TYPE_5")
    case True
    have len: "SDS_TYPE_5_LEN (sds_mk 0 n a D) = n" using hdr [OF True] by (simp add: SDS_TYPE_5_LEN_def sds_mk_flags)
    have "incr < 0" using grow True by auto
    then have "incr_allowed (sds_mk 0 n a D) incr" using m(1) by (simp add: incr_allowed_def len)
    moreover have "sdslen (sds_mk 0 m m D) = m" using m hdr [OF True] s True by (intro sds_mk_len(1)) (auto simp: hdr_ok_def sds_room_def sdsTypeMaxSize_def)
    ultimately show ?thesis using True m'
      by (simp add: sdsIncrLen_def assert_that_def len sds_mk_set_flags [where b = m] sds_mk_setlen)
  next
    case False
    note field = sds_mk_field [OF hdr'(1) False]
    have "int a < 256 ^ sds_width ty"
      using hdr'(1) sds_type_max [OF False hdr'(2)] by (auto simp: hdr_ok_def simp del: of_nat_power intro: le_less_trans [of "int a" "int (sdsTypeMaxSize ty)"])
    then have "(int a - int n) mod 256 ^ sds_width ty = int a - int n" using hdr'(3) by (intro mod_pos_pos_trivial) (simp, linarith)
    then have "incr_allowed (sds_mk ty n a D) incr" using m hdr'(2) False field [of D] by (auto simp: incr_allowed_def Let_def)
    moreover have "sdslen (sds_mk ty m a D) = m" using m hdr' False by (intro sds_mk_len(1)) (auto simp: hdr_ok_def)
    ultimately show ?thesis using False m' field [of D] hdr'(2)
      by (simp add: sdsIncrLen_def assert_that_def sds_mk_set_field sds_mk_setlen)
  qed
qed

text \<open>The schema of its comment: room is made, bytes are written behind the string, and the length is fixed.\<close>

definition sds_read :: "(nat \<Rightarrow> byte) \<Rightarrow> sds \<Rightarrow> nat \<Rightarrow> byte list \<Rightarrow> sds option" where
  "sds_read junk s room bs =
     do {
       let oldlen = sdslen s;
       s \<leftarrow> sdsMakeRoomFor junk s room;
       s \<leftarrow> sds_put s oldlen bs;
       sdsIncrLen s (int (length bs))
     }"

lemma sds_read_ok:
  assumes s: "sds_holds s x" and k: "length x + k \<le> 2 ^ 30" "0 < k" "length bs \<le> k"
  shows "sds_returns (sds_read junk s k bs) (x @ bs)"
proof -
  obtain s' where s': "sdsMakeRoomFor junk s k = Some s'" "sds_holds s' x" "length x + k \<le> sdsalloc s'" "sds_type s' \<noteq> SDS_TYPE_5"
    using sdsMakeRoomFor_ok [OF s k(1), of junk True] k(2) by (auto simp: sdsMakeRoomFor_def)
  obtain ty a D where D: "s' = sds_mk ty (length x) a D" "sds_room ty (length x) a D" "take (length x) D = x" "sdsalloc s' = a" "ty \<le> SDS_TYPE_32"
    "a < length D" using sds_holds_room [OF s'(2)] by metis
  let ?D = "mem_write (length x) bs D"
  have room: "sds_room ty (length x) a ?D" using D s'(3) k(3) by (intro sds_room_write) auto
  have "sdsIncrLen (sds_mk ty (length x) a ?D) (int (length bs)) = sds_put (sdssetlen (sds_mk ty (length x) a ?D) (length x + length bs)) (length x + length bs) [0]"
    using D s'(3,4) k(3) by (intro sdsIncrLen_ok [OF room]) auto
  moreover have "sds_returns (sds_put (sdssetlen (sds_mk ty (length x) a ?D) (length x + length bs)) (length x + length bs) [0]) (x @ bs)"
    using D s'(3) k(3) by (intro sds_end(1) room) (simp_all add: mem_write_def)
  ultimately show ?thesis using s' D k by (simp add: sds_read_def sds_holds_len(1) [OF s])
qed

lemma sdsIncrLen_trim:
  assumes s: "sds_holds s x" and k: "0 < k" "k \<le> length x"
  shows "sds_returns (sdsIncrLen s (- int k)) (take (length x - k) x)"
proof -
  obtain ty a D where D: "s = sds_mk ty (length x) a D" "sds_room ty (length x) a D" "take (length x) D = x" "length x \<le> a"
    using sds_holds_room [OF s] by metis
  have "sdsIncrLen s (- int k) = sds_put (sdssetlen s (length x - k)) (length x - k) [0]"
    unfolding D(1) using D(4) k by (intro sdsIncrLen_ok [OF D(2)]) auto
  moreover have "take (length x - k) D = take (length x - k) x" using D(3) by (metis diff_le_self min.absorb1 take_take)
  ultimately show ?thesis using sds_end(1) [OF D(2), of "length x - k"] D by simp
qed

section \<open>Formats\<close>

text \<open>A string while \<open>sdscatfmt\<close> appends to it, without its null character.\<close>

definition sds_open :: "sds \<Rightarrow> byte list \<Rightarrow> bool" where
  "sds_open s x \<longleftrightarrow> (\<exists>ty a D. s = sds_mk ty (length x) a D \<and> sds_room ty (length x) a D \<and> take (length x) D = x \<and> ty \<noteq> SDS_TYPE_5)"

lemma sds_openE:
  assumes "sds_open s x"
  obtains ty a D where "s = sds_mk ty (length x) a D" "sds_room ty (length x) a D" "take (length x) D = x" "ty \<noteq> SDS_TYPE_5"
    "hdr_ok ty (length x) a" "ty \<le> SDS_TYPE_32" "length x \<le> a" "a < length D" "sdsalloc s = a" "sdsavail s = a - length x"
proof -
  obtain ty a D where D: "s = sds_mk ty (length x) a D" "sds_room ty (length x) a D" "take (length x) D = x" "ty \<noteq> SDS_TYPE_5"
    using assms by (auto simp: sds_open_def)
  moreover from D(2) have "hdr_ok ty (length x) a" "ty \<le> SDS_TYPE_32" "length x \<le> a" "a < length D" by (auto simp: sds_room_def hdr_ok_def)
  ultimately show thesis by (intro that) auto
qed

lemma open_room:
  assumes s: "sds_open s x" and k: "length x + k \<le> 2 ^ 30"
  shows "\<exists>s'. (if sdsavail s < k then sdsMakeRoomFor junk s k else Some s) = Some s' \<and> sds_open s' x \<and> length x + k \<le> sdsalloc s'"
proof -
  obtain ty a D where D: "s = sds_mk ty (length x) a D" "sds_room ty (length x) a D" "take (length x) D = x" "sdsalloc s = a"
    "sdsavail s = a - length x" "length x \<le> a" using sds_openE [OF s] by metis
  show ?thesis
  proof (cases "sdsavail s < k")
    case True
    obtain ty' b D' where D': "sdsMakeRoomFor_gen junk s k True = Some (sds_mk ty' (length x) b D')" "sds_room ty' (length x) b D'"
        "take (length x + 1) D' = take (length x + 1) D" "length x + k \<le> b" "0 < k \<longrightarrow> ty' \<noteq> SDS_TYPE_5"
      using make_room_ok [OF D(2) k, of junk True] D(1) by blast
    have "take (length x) D' = x" using D(3) take_eq_mono [OF D'(3), of "length x"] by simp
    then have "sds_open (sds_mk ty' (length x) b D') x" using D' True unfolding sds_open_def by auto
    then show ?thesis using D' True by (auto simp: sdsMakeRoomFor_def)
  qed (use s D in auto)
qed

lemma open_put:
  assumes s: "sds_open s x" and len: "length x + length bs \<le> sdsalloc s"
  shows "\<exists>s1. sds_put s (length x) bs = Some s1 \<and> sds_open (sdsinclen s1 (length bs)) (x @ bs)"
proof -
  obtain ty a D where D: "s = sds_mk ty (length x) a D" "sds_room ty (length x) a D" "take (length x) D = x" "ty \<noteq> SDS_TYPE_5"
    "hdr_ok ty (length x) a" "ty \<le> SDS_TYPE_32" "a < length D" "sdsalloc s = a" using sds_openE [OF s] by metis
  let ?D = "mem_write (length x) bs D"
  have "sds_put s (length x) bs = Some (sds_mk ty (length x) a ?D)" using D len by simp
  moreover have "take (length (x @ bs)) ?D = x @ bs" using D len by (simp add: mem_write_def)
  moreover have "sds_room ty (length (x @ bs)) a ?D" using sds_room_setlen [OF D(2), of "length (x @ bs)" ?D] D len by simp
  ultimately show ?thesis using D by (auto simp: sds_mk_inclen sds_open_def)
qed

lemma fmt_append_ok:
  assumes s: "sds_open s x" and len: "length x + length bs \<le> 2 ^ 30"
  shows "\<exists>s'. fmt_append junk s (length x) bs = Some s' \<and> sds_open s' (x @ bs)"
proof -
  obtain s1 where s1: "(if sdsavail s < length bs then sdsMakeRoomFor junk s (length bs) else Some s) = Some s1" "sds_open s1 x"
      "length x + length bs \<le> sdsalloc s1" using open_room [OF s len, of junk] by blast
  from open_put [OF s1(2,3)] s1(1) show ?thesis unfolding fmt_append_def by auto
qed

lemma fmt_char_ok:
  assumes s: "sds_open s x" and len: "length x + 1 \<le> sdsalloc s"
  shows "\<exists>s'. fmt_char s (length x) c = Some s' \<and> sds_open s' (x @ [c])"
  using open_put [OF s, of "[c]"] len by (auto simp: fmt_char_def)

lemma fmt_room_ok:
  assumes s: "sds_open s x" and len: "length x < 2 ^ 30"
  shows "\<exists>s'. fmt_room junk s = Some s' \<and> sds_open s' x \<and> length x + 1 \<le> sdsalloc s'"
  using open_room [OF s, of 1 junk] len by (auto simp: fmt_room_def less_Suc_eq_0_disj split: if_splits)

text \<open>What \<open>sdscatfmt\<close> appends.\<close>

fun arg_ok :: "fmt_arg \<Rightarrow> bool" where
  "arg_ok (Fmt_sds t) \<longleftrightarrow> sds_typed t"
| "arg_ok (Fmt_int v) \<longleftrightarrow> LLONG_MIN \<le> v \<and> v \<le> LLONG_MAX"
| "arg_ok (Fmt_uint v) \<longleftrightarrow> v < 2 ^ 64"
| "arg_ok (Fmt_str t) \<longleftrightarrow> True"

fun arg_text :: "byte \<Rightarrow> fmt_arg \<Rightarrow> byte list option" where
  "arg_text c (Fmt_str t) = (if c = c8 CHR ''s'' then Some (c_string t) else None)"
| "arg_text c (Fmt_sds t) = (if c = c8 CHR ''S'' then Some (sds_val t) else None)"
| "arg_text c (Fmt_int v) = (if fmt_is c CHR ''i'' CHR ''I'' then Some (lltext v) else None)"
| "arg_text c (Fmt_uint v) = (if fmt_is c CHR ''u'' CHR ''U'' then Some (decimal v) else None)"

fun fmt_result :: "byte list \<Rightarrow> fmt_arg list \<Rightarrow> byte list option" where
  "fmt_result [] args = Some []"
| "fmt_result [c] args = Some (if c = c8 CHR ''%'' then [] else [c])"
| "fmt_result (c # nxt # f) args =
     (if c \<noteq> c8 CHR ''%'' then map_option ((#) c) (fmt_result (nxt # f) args)
      else if fmt_spec nxt then
        (case args of
           [] \<Rightarrow> None
         | a # args \<Rightarrow> do { bs \<leftarrow> arg_text nxt a; map_option ((@) bs) (fmt_result f args) })
      else map_option ((#) nxt) (fmt_result f args))"

lemma decimal_length_20: "v < 2 ^ 64 \<Longrightarrow> length (decimal v) \<le> 20"
proof (cases "10 ^ 19 \<le> v")
  case True
  assume "v < 2 ^ 64"
  with True length_decimal [of 19 v] show ?thesis by simp
next
  case False
  then show ?thesis using decimal_length_le [of v] by simp
qed

lemma fmt_text_ok: "arg_ok a \<Longrightarrow> arg_text c a = Some bs \<Longrightarrow> fmt_text junk c a = Some bs"
proof (cases a)
  case (Fmt_sds t)
  assume "arg_ok a" "arg_text c a = Some bs"
  then show ?thesis using Fmt_sds sds_holds_len sds_holds_val by (auto simp: fmt_text_def sds_typed_def split: if_splits)
next
  case (Fmt_int v)
  assume "arg_ok a" "arg_text c a = Some bs"
  then show ?thesis using Fmt_int lltext_length [of v] ll2string_eq(1) [of v "map junk [0..<LONG_STR_SIZE]"]
    by (auto simp: fmt_text_def split: if_splits)
next
  case (Fmt_uint v)
  assume "arg_ok a" "arg_text c a = Some bs"
  then show ?thesis using Fmt_uint decimal_length_20 [of v] ull2string_eq [of "map junk [0..<LONG_STR_SIZE]" v]
    by (auto simp: fmt_text_def split: if_splits)
qed (auto simp: fmt_text_def split: if_splits)

lemma fmt_loop_ok:
  assumes "sds_open s x" "list_all arg_ok args" "fmt_result f args = Some r" "length x + length r < 2 ^ 30"
  shows "\<exists>s'. fmt_loop junk s (length x) f args = Some (s', length (x @ r)) \<and> sds_open s' (x @ r)"
  using assms
proof (induction f args arbitrary: s x r rule: fmt_result.induct)
  case (2 c args)
  obtain s1 where s1: "fmt_room junk s = Some s1" "sds_open s1 x" "length x + 1 \<le> sdsalloc s1"
    using fmt_room_ok [of s x junk] 2 by auto
  with fmt_char_ok [OF s1(2,3), of c] 2 show ?case by (auto split: if_splits)
next
  case (3 c nxt f args)
  obtain s1 where s1: "fmt_room junk s = Some s1" "sds_open s1 x" "length x + 1 \<le> sdsalloc s1"
    using fmt_room_ok [of s x junk] 3 by auto
  have one: "\<exists>s'. (do { s \<leftarrow> fmt_char s1 (length x) d; fmt_loop junk s (length x + 1) f' args' }) = Some (s', length (x @ d # r')) \<and> sds_open s' (x @ d # r')"
    if IH: "\<And>s. sds_open s (x @ [d]) \<Longrightarrow>
        \<exists>s'. fmt_loop junk s (length (x @ [d])) f' args' = Some (s', length ((x @ [d]) @ r')) \<and> sds_open s' ((x @ [d]) @ r')" for d f' args' r'
  proof -
    obtain s2 where s2: "fmt_char s1 (length x) d = Some s2" "sds_open s2 (x @ [d])" using fmt_char_ok [OF s1(2,3)] by blast
    with IH [OF s2(2)] show ?thesis by auto
  qed
  consider (plain) "c \<noteq> c8 CHR ''%''" | (spec) "c = c8 CHR ''%''" "fmt_spec nxt" | (other) "c = c8 CHR ''%''" "\<not> fmt_spec nxt" by blast
  then show ?case
  proof cases
    case plain
    then obtain r' where r': "fmt_result (nxt # f) args = Some r'" "r = c # r'" using "3.prems"(3) by auto
    have "\<exists>s'. fmt_loop junk s (length (x @ [c])) (nxt # f) args = Some (s', length ((x @ [c]) @ r')) \<and> sds_open s' ((x @ [c]) @ r')"
      if "sds_open s (x @ [c])" for s
      using "3.IH"(1) [OF plain that "3.prems"(2) r'(1)] "3.prems"(4) r'(2) by simp
    from one [OF this] plain s1(1) r'(2) show ?thesis by simp
  next
    case spec
    then obtain a as bs r' where a: "args = a # as" "arg_text nxt a = Some bs" "fmt_result f as = Some r'" "r = bs @ r'"
      using "3.prems"(3) by (cases args) (auto simp: bind_eq_Some_conv)
    obtain s2 where s2: "fmt_append junk s1 (length x) bs = Some s2" "sds_open s2 (x @ bs)"
      using fmt_append_ok [OF s1(2), of bs junk] "3.prems"(4) a(4) by auto
    have "fmt_text junk nxt a = Some bs" using fmt_text_ok a "3.prems"(2) by simp
    moreover have "\<exists>s'. fmt_loop junk s2 (length (x @ bs)) f as = Some (s', length ((x @ bs) @ r')) \<and> sds_open s' ((x @ bs) @ r')"
      using "3.IH"(2) [of a as bs s2 "x @ bs" r'] spec a s2(2) "3.prems"(2,4) by simp
    ultimately show ?thesis using spec s1(1) s2(1) a(1,4) by auto
  next
    case other
    then obtain r' where r': "fmt_result f args = Some r'" "r = nxt # r'" using "3.prems"(3) by auto
    have "\<exists>s'. fmt_loop junk s (length (x @ [nxt])) f args = Some (s', length ((x @ [nxt]) @ r')) \<and> sds_open s' ((x @ [nxt]) @ r')"
      if "sds_open s (x @ [nxt])" for s
      using "3.IH"(3) [of s "x @ [nxt]" r'] other that "3.prems"(2,4) r' by simp
    from one [OF this] other s1(1) r'(2) show ?thesis by simp
  qed
qed simp

lemma sdscatfmt_ok:
  assumes s: "sds_holds s x" and args: "list_all arg_ok args" and r: "fmt_result (c_string fmt) args = Some r"
    and len: "length x + length r < 2 ^ 30" "length x + 2 * length (c_string fmt) \<le> 2 ^ 30"
  shows "sds_returns (sdscatfmt junk s fmt args) (x @ r)"
proof -
  let ?f = "c_string fmt"
  obtain s1 where s1: "sdsMakeRoomFor junk s (length ?f * 2) = Some s1" "sds_holds s1 x" "0 < length ?f * 2 \<Longrightarrow> sds_type s1 \<noteq> SDS_TYPE_5"
    using sdsMakeRoomFor_ok [OF s, of "length ?f * 2" junk True] len(2) by (auto simp: sdsMakeRoomFor_def mult.commute)
  obtain ty a D where D: "s1 = sds_mk ty (length x) a D" "sds_room ty (length x) a D" "take (length x) D = x" "D ! length x = 0" "ty \<le> SDS_TYPE_32"
    "length x \<le> a" "a < length D" using sds_holds_room [OF s1(2)] by metis
  have "\<exists>s2 ty a D. fmt_loop junk s1 (length x) ?f args = Some (s2, length (x @ r)) \<and> s2 = sds_mk ty (length (x @ r)) a D
      \<and> sds_room ty (length (x @ r)) a D \<and> take (length (x @ r)) D = x @ r"
  proof (cases "?f = []")
    case True
    with r D show ?thesis by auto
  next
    case False
    then have "sds_open s1 x" using s1(3) D by (auto simp: sds_open_def)
    from fmt_loop_ok [OF this args r len(1), of junk] show ?thesis unfolding sds_open_def by blast
  qed
  then obtain s2 ty a D where s2: "fmt_loop junk s1 (length x) ?f args = Some (s2, length (x @ r))" "s2 = sds_mk ty (length (x @ r)) a D"
      "sds_room ty (length (x @ r)) a D" "take (length (x @ r)) D = x @ r" by blast
  then have len2: "length (x @ r) < length D" "ty \<le> SDS_TYPE_32" by (auto simp: sds_room_def hdr_ok_def)
  have "sds_holds (sds_mk ty (length (x @ r)) a (mem_write (length (x @ r)) [0] D)) (x @ r)"
    using s2(3,4) write_end [OF len2(1)] len2 by (intro sds_holdsI sds_room_write) simp_all
  moreover have "uint32 (length ?f * 2) = length ?f * 2" using len(2) by (intro uint32_small) simp
  ultimately show ?thesis using s1(1) s2(1,2) len2 by (auto simp: sdscatfmt_def Let_def sds_holds_len(1) [OF s] sds_returns_def)
qed

end
