(* ===== verification/Redis_Sds_Run.thy ===== *)
theory Redis_Sds_Run
  imports Redis_Sds_Ops Simulation
begin

text \<open>
  Splitting and joining strings, and sequences of operations on a string: they refine the same operations on lists of bytes (locale
  \<open>guarded_simulation\<close>), and the string stays well-typed.
\<close>

section \<open>Splitting and joining\<close>

fun join_bytes :: "byte list \<Rightarrow> byte list list \<Rightarrow> byte list" where
  "join_bytes sep [] = []"
| "join_bytes sep [t] = t"
| "join_bytes sep (t # ts) = t @ sep @ join_bytes sep ts"

lemma join_bytes_snoc: "join_bytes sep (ts @ [u]) = concat (map (\<lambda>t. t @ sep) ts) @ u"
proof (induction ts)
  case (Cons t ts)
  then show ?case by (cases ts) simp_all
qed simp

lemma sds_new_part:
  assumes "length s \<le> 2 ^ 30"
  obtains tok where "sdsnewlen junk (Init (byte_range i j s)) = Some tok" "sds_holds tok (byte_range i j s)"
proof -
  have "length (byte_range i j s) \<le> 2 ^ 30" using assms by (auto simp: byte_range_def min_le_iff_disj)
  from sdsnewlen_ok [of "Init (byte_range i j s)" junk] this that show thesis by auto
qed

lemma split_loop_ok:
  assumes "length s \<le> 2 ^ 30" "start \<le> j" "j \<le> length s" "list_all2 sds_holds tokens ts" "take start s = concat (map (\<lambda>t. t @ sep) ts)"
  shows "\<exists>start' tokens' ts'. split_loop junk s sep j start tokens = Some (start', tokens') \<and> list_all2 sds_holds tokens' ts'
    \<and> take start' s = concat (map (\<lambda>t. t @ sep) ts')"
  using assms
proof (induction junk s sep j start tokens arbitrary: ts rule: split_loop.induct)
  case (1 junk s sep j start tokens)
  show ?case
  proof (cases "sep \<noteq> [] \<and> j + length sep \<le> length s")
    case True
    show ?thesis
    proof (cases "byte_range j (j + length sep) s = sep")
      case match: True
      let ?t = "byte_range start j s"
      obtain tok where tok: "sdsnewlen junk (Init ?t) = Some tok" "sds_holds tok ?t"
        using sds_new_part [OF "1.prems"(1)] .
      have "take (j + length sep) s = take start s @ ?t @ sep"
        using "1.prems"(2) byte_range_append [of 0 start "j + length sep" s] byte_range_append [of start j "j + length sep" s] match
        by (simp add: byte_range_def)
      then have "take (j + length sep) s = concat (map (\<lambda>t. t @ sep) (ts @ [?t]))" using "1.prems"(5) by simp
      moreover have "list_all2 sds_holds (tokens @ [tok]) (ts @ [?t])" using "1.prems"(4) tok(2) by (simp add: list_all2_appendI)
      ultimately obtain start' tokens' ts' where "split_loop junk s sep (j + length sep) (j + length sep) (tokens @ [tok]) = Some (start', tokens')"
          "list_all2 sds_holds tokens' ts'" "take start' s = concat (map (\<lambda>t. t @ sep) ts')"
        using "1.IH"(1) [OF True match tok(1) "1.prems"(1) order_refl, of "ts @ [?t]"] True by blast
      then show ?thesis using True match tok(1) by (subst split_loop.simps) auto
    next
      case False
      have "\<exists>start' tokens' ts'. split_loop junk s sep (j + 1) start tokens = Some (start', tokens') \<and> list_all2 sds_holds tokens' ts'
          \<and> take start' s = concat (map (\<lambda>t. t @ sep) ts')"
        using "1.prems" True by (intro "1.IH"(2) [OF True False]) (auto simp: Suc_le_eq neq_Nil_conv)
      then show ?thesis using True False by (subst split_loop.simps) simp
    qed
  next
    case False
    then show ?thesis using "1.prems" by (subst split_loop.simps) auto
  qed
qed

lemma sdssplitlen_ok:
  assumes "length s \<le> 2 ^ 30" "s \<noteq> []" "sep \<noteq> []"
  shows "\<exists>tokens ts. sdssplitlen junk s sep = Some tokens \<and> list_all2 sds_holds tokens ts \<and> join_bytes sep ts = s"
proof -
  obtain start tokens ts where loop: "split_loop junk s sep 0 0 [] = Some (start, tokens)" "list_all2 sds_holds tokens ts"
      "take start s = concat (map (\<lambda>t. t @ sep) ts)" using split_loop_ok [OF assms(1), of 0 0 "[]" "[]" sep junk] by auto
  let ?u = "byte_range start (length s) s"
  obtain tok where tok: "sdsnewlen junk (Init ?u) = Some tok" "sds_holds tok ?u"
    using sds_new_part [OF assms(1)] .
  have "join_bytes sep (ts @ [?u]) = s" using loop(3) by (simp add: join_bytes_snoc byte_range_def flip: loop(3))
  moreover have "list_all2 sds_holds (tokens @ [tok]) (ts @ [?u])" using loop(2) tok(2) by (simp add: list_all2_appendI)
  ultimately show ?thesis using assms loop(1) tok(1) by (auto simp: sdssplitlen_def)
qed

lemma join_loop_ok:
  assumes "sds_holds join x" "list_all2 sds_holds tokens ts" "length (x @ join_bytes sep ts) \<le> 2 ^ 30"
  shows "sds_returns (join_loop (sdscatsds junk) (\<lambda>join. sdscatlen junk join sep) join tokens) (x @ join_bytes sep ts)"
  using assms
proof (induction tokens arbitrary: join x ts)
  case Nil
  then show ?case by (simp add: sds_returns_def)
next
  case (Cons tok tokens)
  then obtain t us where ts: "ts = t # us" "sds_holds tok t" "list_all2 sds_holds tokens us" by (cases ts) auto
  have first: "sds_returns (sdscatsds junk join tok) (x @ t)"
    using Cons.prems ts by (intro sdscatsds_ok) (cases us; auto)+
  show ?case
  proof (cases "tokens = []")
    case True
    then show ?thesis using first ts by (auto simp: sds_returns_def)
  next
    case False
    then obtain v vs where us: "us = v # vs" using ts(3) by (cases us) auto
    have "sds_returns (sdscatlen junk s sep) ((x @ t) @ sep)" if "sds_holds s (x @ t)" for s
      using Cons.prems(3) ts(1) us that by (intro sdscatlen_ok) auto
    moreover have "sds_returns (join_loop (sdscatsds junk) (\<lambda>join. sdscatlen junk join sep) s tokens) ((x @ t @ sep) @ join_bytes sep us)"
      if "sds_holds s ((x @ t) @ sep)" for s
      using Cons.prems(3) ts us that by (intro Cons.IH) auto
    ultimately show ?thesis using False first ts(1) us by (auto intro!: sds_returns_bind)
  qed
qed

text \<open>Joining the parts of a string with its separator gives the string again.\<close>

lemma split_join:
  assumes "length s \<le> 2 ^ 30" "s \<noteq> []" "sep \<noteq> []"
  shows "\<exists>tokens. sdssplitlen junk s sep = Some tokens \<and> sds_returns (sdsjoinsds junk tokens sep) s"
proof -
  obtain tokens ts where tokens: "sdssplitlen junk s sep = Some tokens" "list_all2 sds_holds tokens ts" "join_bytes sep ts = s"
    using sdssplitlen_ok [OF assms] by blast
  obtain e where e: "sdsempty junk = Some e" "sds_holds e []" using sdsnewlen_ok [of "Init []" junk] by (auto simp: sdsempty_def)
  from join_loop_ok [OF e(2) tokens(2), of sep junk] assms(1) e(1) tokens(1,3) show ?thesis by (simp add: sdsjoinsds_def)
qed

section \<open>Comparison\<close>

lemma memcmp_sign_zero: "length a = length b \<Longrightarrow> memcmp_sign a b = 0 \<longleftrightarrow> a = b"
  by (induction a b rule: list_induct2) auto

lemma sds_get_prefix: "sds_holds s x \<Longrightarrow> m \<le> length x \<Longrightarrow> sds_get s 0 m = Some (take m x)"
  by (erule sds_holdsE) (simp add: byte_range_def, metis min.absorb1 take_take)

lemma sdscmp_ok:
  assumes "sds_holds s x" "sds_holds t y"
  shows "\<exists>c. sdscmp s t = Some c \<and> (c = 0 \<longleftrightarrow> x = y)"
proof -
  define m where "m = (if length x < length y then length x else length y)"
  have "sds_get s 0 m = Some (take m x)" "sds_get t 0 m = Some (take m y)"
    using sds_get_prefix [OF assms(1)] sds_get_prefix [OF assms(2)] by (simp_all add: m_def)
  moreover have "memcmp_sign (take m x) (take m y) = 0 \<longleftrightarrow> take m x = take m y" by (intro memcmp_sign_zero) (simp add: m_def)
  moreover have "take m x = take m y \<and> length x = length y \<longleftrightarrow> x = y" by (auto simp: m_def)
  ultimately show ?thesis unfolding sdscmp_def sds_holds_len(1) [OF assms(1)] sds_holds_len(1) [OF assms(2)] Let_def m_def [symmetric] by auto
qed

section \<open>Sequences of operations\<close>

datatype sds_op =
    Sds_cat "byte list"
  | Sds_cpy "byte list"
  | Sds_growzero nat
  | Sds_make_room nat bool
  | Sds_read nat "byte list"
  | Sds_cut nat
  | Sds_resize nat bool
  | Sds_remove_free_space bool
  | Sds_trim "byte list"
  | Sds_substr nat nat
  | Sds_range int int
  | Sds_tolower
  | Sds_toupper
  | Sds_mapchars "(byte \<times> byte) list"
  | Sds_clear
  | Sds_updatelen
  | Sds_catfmt "byte list" "fmt_arg list"
  | Sds_dup

fun sds_do :: "(nat \<Rightarrow> byte) \<Rightarrow> sds_op \<Rightarrow> sds \<Rightarrow> sds option" where
  "sds_do junk (Sds_cat t) s = sdscatlen junk s t"
| "sds_do junk (Sds_cpy t) s = sdscpylen junk s t"
| "sds_do junk (Sds_growzero n) s = sdsgrowzero junk s n"
| "sds_do junk (Sds_make_room n greedy) s = sdsMakeRoomFor_gen junk s n greedy"
| "sds_do junk (Sds_read n bs) s = sds_read junk s n bs"
| "sds_do junk (Sds_cut n) s = sdsIncrLen s (- int n)"
| "sds_do junk (Sds_resize n would_regrow) s = sdsResize junk s n would_regrow"
| "sds_do junk (Sds_remove_free_space would_regrow) s = sdsRemoveFreeSpace junk s would_regrow"
| "sds_do junk (Sds_trim cset) s = sdstrim s cset"
| "sds_do junk (Sds_substr start len) s = sdssubstr s start len"
| "sds_do junk (Sds_range start stop) s = sdsrange s start stop"
| "sds_do junk Sds_tolower s = sdstolower s"
| "sds_do junk Sds_toupper s = sdstoupper s"
| "sds_do junk (Sds_mapchars pairs) s = sdsmapchars s pairs"
| "sds_do junk Sds_clear s = sdsclear s"
| "sds_do junk Sds_updatelen s = Some (sdsupdatelen s)"
| "sds_do junk (Sds_catfmt fmt args) s = sdscatfmt junk s fmt args"
| "sds_do junk Sds_dup s = sdsdup junk s"

text \<open>The same operations on lists of bytes.\<close>

fun bytes_do :: "sds_op \<Rightarrow> byte list \<Rightarrow> byte list" where
  "bytes_do (Sds_cat t) x = x @ t"
| "bytes_do (Sds_cpy t) x = t"
| "bytes_do (Sds_growzero n) x = x @ replicate (n - length x) 0"
| "bytes_do (Sds_make_room n greedy) x = x"
| "bytes_do (Sds_read n bs) x = x @ bs"
| "bytes_do (Sds_cut n) x = take (length x - n) x"
| "bytes_do (Sds_resize n would_regrow) x = take n x"
| "bytes_do (Sds_remove_free_space would_regrow) x = x"
| "bytes_do (Sds_trim cset) x = trim_spec cset x"
| "bytes_do (Sds_substr start len) x = take len (drop start x)"
| "bytes_do (Sds_range start stop) x = range_spec x start stop"
| "bytes_do Sds_tolower x = map byte_tolower x"
| "bytes_do Sds_toupper x = map byte_toupper x"
| "bytes_do (Sds_mapchars pairs) x = map (\<lambda>c. case map_of pairs c of None \<Rightarrow> c | Some d \<Rightarrow> d) x"
| "bytes_do Sds_clear x = []"
| "bytes_do Sds_updatelen x = c_string x"
| "bytes_do (Sds_catfmt fmt args) x = x @ the (fmt_result (c_string fmt) args)"
| "bytes_do Sds_dup x = x"

text \<open>The lengths stay below \<open>2 ^ 30\<close>, indices are of type \<open>ssize_t\<close>, and the arguments fit the format.\<close>

fun sds_op_ok :: "sds_op \<Rightarrow> byte list \<Rightarrow> bool" where
  "sds_op_ok (Sds_cat t) x \<longleftrightarrow> length x + length t \<le> 2 ^ 30"
| "sds_op_ok (Sds_cpy t) x \<longleftrightarrow> length t \<le> 2 ^ 30"
| "sds_op_ok (Sds_growzero n) x \<longleftrightarrow> n \<le> 2 ^ 30"
| "sds_op_ok (Sds_make_room n greedy) x \<longleftrightarrow> length x + n \<le> 2 ^ 30"
| "sds_op_ok (Sds_read n bs) x \<longleftrightarrow> length x + n \<le> 2 ^ 30 \<and> 0 < n \<and> length bs \<le> n"
| "sds_op_ok (Sds_cut n) x \<longleftrightarrow> 0 < n \<and> n \<le> length x"
| "sds_op_ok (Sds_resize n would_regrow) x \<longleftrightarrow> n \<le> 2 ^ 30"
| "sds_op_ok (Sds_range start stop) x \<longleftrightarrow> - (2 ^ 30) \<le> start \<and> start < 2 ^ 30 \<and> - (2 ^ 30) \<le> stop \<and> stop < 2 ^ 30"
| "sds_op_ok (Sds_catfmt fmt args) x \<longleftrightarrow>
     list_all arg_ok args \<and> length x + 2 * length (c_string fmt) \<le> 2 ^ 30 \<and>
     (case fmt_result (c_string fmt) args of None \<Rightarrow> False | Some r \<Rightarrow> length x + length r < 2 ^ 30)"
| "sds_op_ok _ x \<longleftrightarrow> True"

lemma sds_do_ok:
  assumes "sds_holds s x" "length x \<le> 2 ^ 30" "sds_op_ok c x"
  shows "sds_returns (sds_do junk c s) (bytes_do c x)"
proof (cases c)
  case (Sds_make_room n greedy)
  then show ?thesis using sdsMakeRoomFor_ok [OF assms(1), of n junk greedy] assms(3) by (auto simp: sds_returns_def)
next
  case (Sds_resize n r)
  then show ?thesis using sdsResize_ok [OF assms(1), of n junk r] assms(3) by (auto simp: sds_returns_def)
next
  case (Sds_remove_free_space r)
  then show ?thesis using sdsResize_ok [OF assms(1,2), of junk r] by (auto simp: sds_returns_def sdsRemoveFreeSpace_def sds_holds_len(1) [OF assms(1)])
next
  case (Sds_catfmt fmt args)
  then show ?thesis using sdscatfmt_ok [OF assms(1), of args fmt _ junk] assms(3) by (auto split: option.splits)
next
  case (Sds_updatelen)
  then show ?thesis using sdsupdatelen_ok [OF assms(1)] by (simp add: sds_returns_def)
qed (use assms sds_map_ok [OF assms(1)] in \<open>simp_all add: sdscatlen_ok sdscpylen_ok sdsgrowzero_ok sds_read_ok sdsIncrLen_trim sdstrim_ok sdssubstr_ok sdsrange_ok
       sdstolower_def sdstoupper_def sdsmapchars_def sdsclear_ok sdsdup_ok\<close>)

lemma bytes_do_length: "length x \<le> 2 ^ 30 \<Longrightarrow> sds_op_ok c x \<Longrightarrow> length (bytes_do c x) \<le> 2 ^ 30"
proof (cases c)
  case (Sds_trim cset)
  assume "length x \<le> 2 ^ 30"
  moreover have "length (trim_spec cset x) \<le> length x"
    using length_dropWhile_le [of "strchr_in cset"] by (metis (no_types, lifting) le_trans length_rev trim_spec_def)
  ultimately show ?thesis using Sds_trim by simp
next
  case (Sds_range i j)
  assume "length x \<le> 2 ^ 30"
  then show ?thesis using Sds_range by (auto simp: range_spec_def Let_def min_le_iff_disj)
next
  case Sds_updatelen
  assume "length x \<le> 2 ^ 30"
  then show ?thesis using Sds_updatelen length_takeWhile_le [of "\<lambda>c. c \<noteq> 0" x] by (simp add: c_string_def)
qed (auto split: option.splits)

definition sds_step :: "(nat \<Rightarrow> byte) \<Rightarrow> sds_op \<Rightarrow> sds \<Rightarrow> (nat \<times> sds) option" where
  "sds_step junk c s = map_option (\<lambda>s. (sdslen s, s)) (sds_do junk c s)"

definition bytes_step :: "sds_op \<Rightarrow> byte list \<Rightarrow> nat \<times> byte list" where
  "bytes_step c x = (length (bytes_do c x), bytes_do c x)"

interpretation sdssim: guarded_simulation sds_op_ok "\<lambda>s. sds_typed s \<and> length (sds_val s) \<le> 2 ^ 30" sds_val "sds_step junk" bytes_step for junk
proof
  fix s :: sds and c :: sds_op
  assume s: "sds_typed s \<and> length (sds_val s) \<le> 2 ^ 30" and ok: "sds_op_ok c (sds_val s)"
  then have holds: "sds_holds s (sds_val s)" using sds_holds_val by (auto simp: sds_typed_def)
  then obtain s' where s': "sds_do junk c s = Some s'" "sds_holds s' (bytes_do c (sds_val s))"
    using sds_do_ok [of s "sds_val s" c junk] s ok by (auto simp: sds_returns_def)
  then show "\<exists>r s'. sds_step junk c s = Some (r, s') \<and> (sds_typed s' \<and> length (sds_val s') \<le> 2 ^ 30) \<and> bytes_step c (sds_val s) = (r, sds_val s')"
    using sds_holds_val [OF s'(2)] sds_holds_len(1) [OF s'(2)] bytes_do_length [of "sds_val s" c] s ok
    by (auto simp: sds_step_def bytes_step_def sds_typed_def)
qed

text \<open>
  C40: a string made by \<open>sdsnewlen\<close> stays well-typed under every sequence of operations on it whose lengths stay below \<open>2 ^ 30\<close>: its header has
  one of the types of the target, its length and its room fit the fields of this type and the block, and a null character stands behind the string. No operation
  accesses memory outside the block or fails an assertion, and contents and reported lengths are those of the same operations on lists of bytes,
  however the string passes between the types of headers.
\<close>

theorem sds_run_typed:
  assumes "length bs \<le> 2 ^ 30" "run_guard sds_op_ok bytes_step cs bs"
  shows "\<exists>s0 rs s. sdsnewlen junk (Init bs) = Some s0 \<and> run_ops (sds_step junk) cs s0 = Some (rs, s) \<and> sds_typed s \<and>
           run_spec bytes_step cs bs = (rs, sds_val s)"
proof -
  obtain s0 where s0: "sdsnewlen junk (Init bs) = Some s0" "sds_holds s0 bs" using sdsnewlen_ok [of "Init bs" junk] assms(1) by auto
  then have "sds_val s0 = bs" by (simp add: sds_holds_val)
  with sdssim.guarded_run [of s0 cs junk] s0 assms show ?thesis by (auto simp: sds_typed_def)
qed

text \<open>A string that grows from a header of type 5 to one of type 16.\<close>

theorem sds_run_typed_witness:
  "\<exists>s0 s. sdsnewlen (\<lambda>_. 0xAA) (Init (str8 ''Hello'')) = Some s0 \<and>
     run_ops (sds_step (\<lambda>_. 0xAA))
       [Sds_cat (str8 '' World''), Sds_range (-5) (-1), Sds_growzero 300, Sds_trim (str8 ''d''), Sds_catfmt (str8 '' %i%%'') [Fmt_int (-7)], Sds_cut 1] s0 =
       Some ([11, 5, 300, 4, 8, 7], s)
     \<and> sds_typed s \<and> sds_val s = str8 ''Worl -7''"
proof -
  let ?cs = "[Sds_cat (str8 '' World''), Sds_range (-5) (-1), Sds_growzero 300, Sds_trim (str8 ''d''), Sds_catfmt (str8 '' %i%%'') [Fmt_int (-7)], Sds_cut 1]"
  have trim: "trim_spec [100] (87 # 111 # 114 # 108 # 100 # replicate 295 0) = [87, 111, 114, 108]"
    by (simp add: trim_spec_def strchr_in_def c_string_def dropWhile_append)
  have fmt: "fmt_result (c_string [32, 37, 105, 37, 37]) [Fmt_int (-7)] = Some [32, 45, 55, 37]"
    by (simp add: c_string_def fmt_spec_def fmt_is_def lltext_def decimal_small)
  have cs: "c_string [32, 37, 105, 37, 37] = [32, 37, 105, 37, 37]" by (simp add: c_string_def)
  have "run_guard sds_op_ok bytes_step ?cs (str8 ''Hello'')"
    by (simp add: bytes_step_def range_spec_def range_index_def trim fmt) (simp add: cs)
  moreover have "run_spec bytes_step ?cs (str8 ''Hello'') = ([11, 5, 300, 4, 8, 7], str8 ''Worl -7'')"
    by (simp add: bytes_step_def range_spec_def range_index_def trim fmt)
  ultimately show ?thesis using sds_run_typed [of "str8 ''Hello''" ?cs "\<lambda>_. 0xAA"] by auto
qed

end
