(* ===== verification/Redis_Db.thy ===== *)
theory Redis_Db
  imports Redis_Sds_Mem Iteration
begin

text \<open>
  The keyspace of a database (\<open>src/db.c\<close>), the keys' expire times and the commands on them (\<open>src/expire.c\<close>).

  The two key-value stores of \<open>redisDb\<close> are maps from keys to values and to times in milliseconds. The state has what the
  functions here read and write of the server beside them: the time of the command, the counters, and the calls that tell others of a
  change, in their order (notifications, signals to clients that watch a key or wait for one, deletions sent to replicas). The settings and
  the role of the server are a record. \<open>None\<close> is a failing assertion or a signed overflow. Left out are the access times of objects
  (\<open>lru\<close>), reference counts and who frees an object, the expire times of the fields of hashes, latency samples, and the
  rewriting of a command for replicas.
\<close>

type_synonym dbkey = "byte list"

record server_ctx =
  loading :: bool
  lazy_expire_disabled :: bool
  masterhost :: bool
  repl_slave_ro :: bool
  client_master :: bool
  expire_paused :: bool
  lazyfree_lazy_expire :: bool

datatype notify_type = NOTIFY_GENERIC | NOTIFY_SET | NOTIFY_EXPIRED | NOTIFY_KEY_MISS | NOTIFY_NEW

datatype unlink_flag = DB_FLAG_KEY_DELETED | DB_FLAG_KEY_EXPIRED | DB_FLAG_KEY_OVERWRITE

datatype db_event =
    Ev_notify notify_type string dbkey
  | Ev_modified dbkey
  | Ev_ready dbkey
  | Ev_unlink dbkey unlink_flag
  | Ev_propagate string dbkey
  | Ev_slave_expire dbkey

record 'v redisDb =
  db_keys :: "dbkey \<rightharpoonup> 'v"
  db_expires :: "dbkey \<rightharpoonup> int"
  clock :: int
  dirty :: int
  keyspace_hits :: nat
  keyspace_misses :: nat
  expiredkeys :: nat
  events :: "db_event list"

section \<open>Signals\<close>

definition db_event :: "db_event \<Rightarrow> 'v redisDb \<Rightarrow> 'v redisDb" where
  "db_event e db = db\<lparr>events := events db @ [e]\<rparr>"

definition notifyKeyspaceEvent :: "notify_type \<Rightarrow> string \<Rightarrow> dbkey \<Rightarrow> 'v redisDb \<Rightarrow> 'v redisDb" where
  "notifyKeyspaceEvent type event key db = db_event (Ev_notify type event key) db"

definition signalModifiedKey :: "dbkey \<Rightarrow> 'v redisDb \<Rightarrow> 'v redisDb" where
  "signalModifiedKey key db = db_event (Ev_modified key) db"

definition add_dirty :: "int \<Rightarrow> 'v redisDb \<Rightarrow> 'v redisDb" where
  "add_dirty n db = db\<lparr>dirty := dirty db + n\<rparr>"

section \<open>Deletion and expiration\<close>

definition dbGenericDelete :: "unlink_flag \<Rightarrow> dbkey \<Rightarrow> 'v redisDb \<Rightarrow> bool \<times> 'v redisDb" where
  "dbGenericDelete flags key db =
     (case db_keys db key of
        Some val \<Rightarrow>
          (True, (db_event (Ev_unlink key flags) db)
            \<lparr>db_expires := (db_expires db)(key := None), db_keys := (db_keys db)(key := None)\<rparr>)
      | None \<Rightarrow> (False, db))"

text \<open>\<open>dbSyncDelete\<close>, \<open>dbAsyncDelete\<close> and \<open>dbDelete\<close> differ in who frees the value.\<close>

definition dbDelete :: "dbkey \<Rightarrow> 'v redisDb \<Rightarrow> bool \<times> 'v redisDb" where
  "dbDelete key db = dbGenericDelete DB_FLAG_KEY_DELETED key db"

definition removeExpire :: "dbkey \<Rightarrow> 'v redisDb \<Rightarrow> bool \<times> 'v redisDb" where
  "removeExpire key db =
     (case db_expires db key of
        Some when \<Rightarrow> (True, db\<lparr>db_expires := (db_expires db)(key := None)\<rparr>)
      | None \<Rightarrow> (False, db))"

definition setExpire :: "server_ctx \<Rightarrow> dbkey \<Rightarrow> int \<Rightarrow> 'v redisDb \<Rightarrow> 'v redisDb option" where
  "setExpire ctx key when db =
     (case db_keys db key of
        None \<Rightarrow> None
      | Some val \<Rightarrow>
          let db = db\<lparr>db_expires := (db_expires db)(key \<mapsto> when)\<rparr>;
              writable_slave = (masterhost ctx \<and> \<not> repl_slave_ro ctx)
          in Some (if writable_slave \<and> \<not> client_master ctx then db_event (Ev_slave_expire key) db else db))"

definition getExpire :: "dbkey \<Rightarrow> 'v redisDb \<Rightarrow> int" where
  "getExpire key db = (case db_expires db key of None \<Rightarrow> -1 | Some when \<Rightarrow> when)"

definition propagateDeletion :: "bool \<Rightarrow> dbkey \<Rightarrow> 'v redisDb \<Rightarrow> 'v redisDb" where
  "propagateDeletion lazy key db = db_event (Ev_propagate (if lazy then ''unlink'' else ''del'') key) db"

definition deleteExpiredKeyAndPropagate :: "server_ctx \<Rightarrow> dbkey \<Rightarrow> 'v redisDb \<Rightarrow> 'v redisDb" where
  "deleteExpiredKeyAndPropagate ctx key db =
     (let db = snd (dbGenericDelete DB_FLAG_KEY_EXPIRED key db);
          db = notifyKeyspaceEvent NOTIFY_EXPIRED ''expired'' key db;
          db = signalModifiedKey key db;
          db = propagateDeletion (lazyfree_lazy_expire ctx) key db
      in db\<lparr>expiredkeys := expiredkeys db + 1\<rparr>)"

definition keyIsExpired :: "server_ctx \<Rightarrow> dbkey \<Rightarrow> 'v redisDb \<Rightarrow> bool" where
  "keyIsExpired ctx key db \<longleftrightarrow>
     (if loading ctx then False
      else let when = getExpire key db in if when < 0 then False else clock db > when)"

datatype keyStatus = KEY_VALID | KEY_EXPIRED | KEY_DELETED

datatype expire_flag = EXPIRE_FORCE_DELETE_EXPIRED | EXPIRE_AVOID_DELETE_EXPIRED

definition expireIfNeeded :: "server_ctx \<Rightarrow> expire_flag set \<Rightarrow> dbkey \<Rightarrow> 'v redisDb \<Rightarrow> keyStatus \<times> 'v redisDb" where
  "expireIfNeeded ctx flags key db =
     (if lazy_expire_disabled ctx then (KEY_VALID, db)
      else if \<not> keyIsExpired ctx key db then (KEY_VALID, db)
      else if masterhost ctx \<and> client_master ctx then (KEY_VALID, db)
      else if masterhost ctx \<and> EXPIRE_FORCE_DELETE_EXPIRED \<notin> flags then (KEY_EXPIRED, db)
      else if EXPIRE_AVOID_DELETE_EXPIRED \<in> flags then (KEY_EXPIRED, db)
      else if expire_paused ctx then (KEY_EXPIRED, db)
      else (KEY_DELETED, deleteExpiredKeyAndPropagate ctx key db))"

section \<open>Lookup\<close>

datatype lookup_flag = LOOKUP_NOTOUCH | LOOKUP_NONOTIFY | LOOKUP_NOSTATS | LOOKUP_WRITE | LOOKUP_NOEXPIRE

text \<open>The value, unless it is expired, and the counting of hits and misses.\<close>

definition lookup_valid :: "server_ctx \<Rightarrow> lookup_flag set \<Rightarrow> dbkey \<Rightarrow> 'v redisDb \<Rightarrow> 'v option \<times> 'v redisDb" where
  "lookup_valid ctx flags key db =
     (case db_keys db key of
        None \<Rightarrow> (None, db)
      | Some val \<Rightarrow>
          let is_ro_replica = (masterhost ctx \<and> repl_slave_ro ctx);
              expire_flags =
                (if LOOKUP_WRITE \<in> flags \<and> \<not> is_ro_replica then {EXPIRE_FORCE_DELETE_EXPIRED} else {}) \<union>
                (if LOOKUP_NOEXPIRE \<in> flags then {EXPIRE_AVOID_DELETE_EXPIRED} else {});
              (status, db) = expireIfNeeded ctx expire_flags key db
          in (if status \<noteq> KEY_VALID then None else Some val, db))"

definition lookup_count :: "lookup_flag set \<Rightarrow> dbkey \<Rightarrow> bool \<Rightarrow> 'v redisDb \<Rightarrow> 'v redisDb" where
  "lookup_count flags key found db =
     (if found
      then (if LOOKUP_NOSTATS \<in> flags \<or> LOOKUP_WRITE \<in> flags then db else db\<lparr>keyspace_hits := keyspace_hits db + 1\<rparr>)
      else
        let db = (if LOOKUP_NONOTIFY \<in> flags \<or> LOOKUP_WRITE \<in> flags then db
                  else notifyKeyspaceEvent NOTIFY_KEY_MISS ''keymiss'' key db)
        in if LOOKUP_NOSTATS \<in> flags \<or> LOOKUP_WRITE \<in> flags then db else db\<lparr>keyspace_misses := keyspace_misses db + 1\<rparr>)"

definition lookupKey :: "server_ctx \<Rightarrow> lookup_flag set \<Rightarrow> dbkey \<Rightarrow> 'v redisDb \<Rightarrow> 'v option \<times> 'v redisDb" where
  "lookupKey ctx flags key db =
     (case lookup_valid ctx flags key db of (val, db) \<Rightarrow> (val, lookup_count flags key (val \<noteq> None) db))"

definition lookupKeyRead :: "server_ctx \<Rightarrow> dbkey \<Rightarrow> 'v redisDb \<Rightarrow> 'v option \<times> 'v redisDb" where
  "lookupKeyRead ctx key db = lookupKey ctx {} key db"

definition lookupKeyWrite :: "server_ctx \<Rightarrow> dbkey \<Rightarrow> 'v redisDb \<Rightarrow> 'v option \<times> 'v redisDb" where
  "lookupKeyWrite ctx key db = lookupKey ctx {LOOKUP_WRITE} key db"

section \<open>Adding and replacing a key\<close>

definition dbSetValue :: "dbkey \<Rightarrow> 'v \<Rightarrow> bool \<Rightarrow> 'v redisDb \<Rightarrow> 'v redisDb option" where
  "dbSetValue key val overwrite db =
     (case db_keys db key of
        None \<Rightarrow> None
      | Some old \<Rightarrow>
          let db = (if overwrite then db_event (Ev_unlink key DB_FLAG_KEY_OVERWRITE) db else db)
          in Some (db\<lparr>db_keys := (db_keys db)(key \<mapsto> val)\<rparr>))"

definition dbAddInternal :: "dbkey \<Rightarrow> 'v \<Rightarrow> bool \<Rightarrow> 'v redisDb \<Rightarrow> 'v redisDb option" where
  "dbAddInternal key val update_if_existing db =
     (case db_keys db key of
        Some existing \<Rightarrow> if update_if_existing then dbSetValue key val True db else None
      | None \<Rightarrow>
          let db = db\<lparr>db_keys := (db_keys db)(key \<mapsto> val)\<rparr>;
              db = db_event (Ev_ready key) db
          in Some (notifyKeyspaceEvent NOTIFY_NEW ''new'' key db))"

definition dbAdd :: "dbkey \<Rightarrow> 'v \<Rightarrow> 'v redisDb \<Rightarrow> 'v redisDb option" where
  "dbAdd key val db = dbAddInternal key val False db"

definition dbReplaceValue :: "dbkey \<Rightarrow> 'v \<Rightarrow> 'v redisDb \<Rightarrow> 'v redisDb option" where
  "dbReplaceValue key val db = dbSetValue key val False db"

datatype setkey_flag = SETKEY_KEEPTTL | SETKEY_NO_SIGNAL | SETKEY_ALREADY_EXIST | SETKEY_DOESNT_EXIST | SETKEY_ADD_OR_UPDATE

definition setKey :: "server_ctx \<Rightarrow> setkey_flag set \<Rightarrow> dbkey \<Rightarrow> 'v \<Rightarrow> 'v redisDb \<Rightarrow> 'v redisDb option" where
  "setKey ctx flags key val db =
     (let (keyfound, db) =
        (if SETKEY_ALREADY_EXIST \<in> flags then (1 :: int, db)
         else if SETKEY_ADD_OR_UPDATE \<in> flags then (-1, db)
         else if SETKEY_DOESNT_EXIST \<notin> flags
         then (case lookupKeyWrite ctx key db of (None, db) \<Rightarrow> (0, db) | (Some _, db) \<Rightarrow> (1, db))
         else (0, db))
      in
      do {
        db \<leftarrow> (if keyfound = 0 then dbAdd key val db
               else if keyfound < 0 then dbAddInternal key val True db
               else dbSetValue key val True db);
        let db = (if SETKEY_KEEPTTL \<notin> flags then snd (removeExpire key db) else db);
        Some (if SETKEY_NO_SIGNAL \<notin> flags then signalModifiedKey key db else db)
      })"

section \<open>Replies and arguments\<close>

datatype reply_error = wrongtypeerr | nokeyerr | syntaxerr | Err_expire_time | Err_text string | Err_option "byte list"

datatype reply =
    Rep_int int
  | Rep_ok
  | Rep_array nat "int list"
  | Rep_set nat "byte list list"
  | Rep_err reply_error

abbreviation (input) LONG_MAX :: int where "LONG_MAX \<equiv> 2 ^ 31 - 1"
abbreviation (input) LONG_MIN :: int where "LONG_MIN \<equiv> - (2 ^ 31)"

text \<open>The arguments of a command are strings; \<open>Inl\<close> is an error that was replied.\<close>

definition getLongLongFromObjectOrReply :: "byte list \<Rightarrow> string option \<Rightarrow> reply_error + int" where
  "getLongLongFromObjectOrReply o' msg =
     (case string2ll o' of
        None \<Rightarrow> Inl (Err_text (case msg of Some m \<Rightarrow> m | None \<Rightarrow> ''value is not an integer or out of range''))
      | Some value \<Rightarrow> Inr value)"

definition getLongFromObjectOrReply :: "byte list \<Rightarrow> string option \<Rightarrow> reply_error + int" where
  "getLongFromObjectOrReply o' msg =
     (case getLongLongFromObjectOrReply o' msg of
        Inl e \<Rightarrow> Inl e
      | Inr value \<Rightarrow>
          if value < LONG_MIN \<or> value > LONG_MAX
          then Inl (Err_text (case msg of Some m \<Rightarrow> m | None \<Rightarrow> ''value is out of range'')) else Inr value)"

definition getRangeLongFromObjectOrReply :: "byte list \<Rightarrow> int \<Rightarrow> int \<Rightarrow> string \<Rightarrow> reply_error + int" where
  "getRangeLongFromObjectOrReply o' mn mx msg =
     (case getLongFromObjectOrReply o' (Some msg) of
        Inl e \<Rightarrow> Inl e
      | Inr target \<Rightarrow> if target < mn \<or> target > mx then Inl (Err_text msg) else Inr target)"

definition getPositiveLongFromObjectOrReply :: "byte list \<Rightarrow> string \<Rightarrow> reply_error + int" where
  "getPositiveLongFromObjectOrReply o' msg = getRangeLongFromObjectOrReply o' 0 LONG_MAX msg"

text \<open>\<open>!strcasecmp(a, b)\<close> for a literal \<open>b\<close> in lower case; the argument \<open>a\<close> ends at its first null byte.\<close>

definition strcaseeq :: "byte list \<Rightarrow> string \<Rightarrow> bool" where
  "strcaseeq a b \<longleftrightarrow> map byte_tolower (takeWhile (\<lambda>c. c \<noteq> 0) a) = str8 b"

section \<open>Commands on keys\<close>

fun del_loop :: "server_ctx \<Rightarrow> dbkey list \<Rightarrow> int \<Rightarrow> 'v redisDb \<Rightarrow> int \<times> 'v redisDb" where
  "del_loop ctx [] numdel db = (numdel, db)"
| "del_loop ctx (key # keys) numdel db =
     (case expireIfNeeded ctx {} key db of (status, db) \<Rightarrow>
        if status = KEY_DELETED then del_loop ctx keys numdel db
        else
          (case dbDelete key db of (deleted, db) \<Rightarrow>
             if deleted
             then del_loop ctx keys (numdel + 1)
               (add_dirty 1 (notifyKeyspaceEvent NOTIFY_GENERIC ''del'' key (signalModifiedKey key db)))
             else del_loop ctx keys numdel db))"

definition delGenericCommand :: "server_ctx \<Rightarrow> dbkey list \<Rightarrow> 'v redisDb \<Rightarrow> reply \<times> 'v redisDb" where
  "delGenericCommand ctx keys db = apfst Rep_int (del_loop ctx keys 0 db)"

fun count_lookups :: "server_ctx \<Rightarrow> lookup_flag set \<Rightarrow> dbkey list \<Rightarrow> int \<Rightarrow> 'v redisDb \<Rightarrow> int \<times> 'v redisDb" where
  "count_lookups ctx flags [] count db = (count, db)"
| "count_lookups ctx flags (key # keys) count db =
     (case lookupKey ctx flags key db of
        (None, db) \<Rightarrow> count_lookups ctx flags keys count db
      | (Some _, db) \<Rightarrow> count_lookups ctx flags keys (count + 1) db)"

definition existsCommand :: "server_ctx \<Rightarrow> dbkey list \<Rightarrow> 'v redisDb \<Rightarrow> reply \<times> 'v redisDb" where
  "existsCommand ctx keys db = apfst Rep_int (count_lookups ctx {LOOKUP_NOTOUCH} keys 0 db)"

definition touchCommand :: "server_ctx \<Rightarrow> dbkey list \<Rightarrow> 'v redisDb \<Rightarrow> reply \<times> 'v redisDb" where
  "touchCommand ctx keys db = apfst Rep_int (count_lookups ctx {} keys 0 db)"

definition renameGenericCommand :: "server_ctx \<Rightarrow> bool \<Rightarrow> dbkey \<Rightarrow> dbkey \<Rightarrow> 'v redisDb \<Rightarrow> (reply \<times> 'v redisDb) option" where
  "renameGenericCommand ctx nx src dst db =
     (case lookupKeyWrite ctx src db of
        (None, db) \<Rightarrow> Some (Rep_err nokeyerr, db)
      | (Some o', db) \<Rightarrow>
          if src = dst then Some (if nx then Rep_int 0 else Rep_ok, db)
          else
            (let expire = getExpire src db;
                 (target, db) = lookupKeyWrite ctx dst db
             in
             if target \<noteq> None \<and> nx then Some (Rep_int 0, db)
             else
               do {
                 let db = (if target \<noteq> None then snd (dbDelete dst db) else db);
                 db \<leftarrow> dbAdd dst o' db;
                 db \<leftarrow> (if expire \<noteq> -1 then setExpire ctx dst expire db else Some db);
                 let db = snd (dbDelete src db);
                 let db = signalModifiedKey dst (signalModifiedKey src db);
                 let db = notifyKeyspaceEvent NOTIFY_GENERIC ''rename_to'' dst (notifyKeyspaceEvent NOTIFY_GENERIC ''rename_from'' src db);
                 Some (if nx then Rep_int 1 else Rep_ok, add_dirty 1 db)
               }))"

section \<open>Commands on expire times\<close>

definition checkAlreadyExpired :: "server_ctx \<Rightarrow> int \<Rightarrow> 'v redisDb \<Rightarrow> bool" where
  "checkAlreadyExpired ctx when db \<longleftrightarrow> when \<le> clock db \<and> \<not> loading ctx \<and> \<not> masterhost ctx"

datatype expire_opt = EXPIRE_NX | EXPIRE_XX | EXPIRE_GT | EXPIRE_LT

fun expire_options :: "byte list list \<Rightarrow> expire_opt set \<Rightarrow> reply_error + expire_opt set" where
  "expire_options [] flags = Inr flags"
| "expire_options (opt # args) flags =
     (if strcaseeq opt ''nx'' then expire_options args (insert EXPIRE_NX flags)
      else if strcaseeq opt ''xx'' then expire_options args (insert EXPIRE_XX flags)
      else if strcaseeq opt ''gt'' then expire_options args (insert EXPIRE_GT flags)
      else if strcaseeq opt ''lt'' then expire_options args (insert EXPIRE_LT flags)
      else Inl (Err_option opt))"

definition parseExtendedExpireArgumentsOrReply :: "byte list list \<Rightarrow> reply_error + expire_opt set" where
  "parseExtendedExpireArgumentsOrReply args =
     (case expire_options args {} of
        Inl e \<Rightarrow> Inl e
      | Inr flags \<Rightarrow>
          if EXPIRE_NX \<in> flags \<and> EXPIRE_XX \<in> flags \<or> EXPIRE_NX \<in> flags \<and> EXPIRE_GT \<in> flags \<or> EXPIRE_NX \<in> flags \<and> EXPIRE_LT \<in> flags
          then Inl (Err_text ''NX and XX, GT or LT options at the same time are not compatible'')
          else if EXPIRE_GT \<in> flags \<and> EXPIRE_LT \<in> flags
          then Inl (Err_text ''GT and LT options at the same time are not compatible'')
          else Inr flags)"

text \<open>\<open>LLONG_MAX / 1000\<close> and \<open>LLONG_MIN / 1000\<close> are divisions towards zero.\<close>

definition expire_when :: "int \<Rightarrow> bool \<Rightarrow> int \<Rightarrow> int option" where
  "expire_when basetime unit_seconds when =
     (if unit_seconds \<and> (when > LLONG_MAX div 1000 \<or> when < - (- LLONG_MIN div 1000)) then None
      else
        let when = (if unit_seconds then when * 1000 else when) in
        if when > LLONG_MAX - basetime then None else Some (when + basetime))"

text \<open>The options let the new time pass.\<close>

definition expire_allowed :: "expire_opt set \<Rightarrow> int \<Rightarrow> int \<Rightarrow> bool" where
  "expire_allowed flag when current_expire \<longleftrightarrow>
     \<not> (EXPIRE_NX \<in> flag \<and> current_expire \<noteq> -1) \<and>
     \<not> (EXPIRE_XX \<in> flag \<and> current_expire = -1) \<and>
     \<not> (EXPIRE_GT \<in> flag \<and> (when \<le> current_expire \<or> current_expire = -1)) \<and>
     \<not> (EXPIRE_LT \<in> flag \<and> current_expire \<noteq> -1 \<and> when \<ge> current_expire)"

text \<open>The key is deleted, or gets its expire time.\<close>

definition expire_apply :: "server_ctx \<Rightarrow> dbkey \<Rightarrow> int \<Rightarrow> 'v redisDb \<Rightarrow> (reply \<times> 'v redisDb) option" where
  "expire_apply ctx key when db =
     (if checkAlreadyExpired ctx when db
      then
        (case dbGenericDelete DB_FLAG_KEY_EXPIRED key db of (deleted, db) \<Rightarrow>
           if \<not> deleted then None
           else Some (Rep_int 1, notifyKeyspaceEvent NOTIFY_GENERIC ''del'' key (signalModifiedKey key (add_dirty 1 db))))
      else
        do {
          db \<leftarrow> setExpire ctx key when db;
          Some (Rep_int 1, add_dirty 1 (notifyKeyspaceEvent NOTIFY_GENERIC ''expire'' key (signalModifiedKey key db)))
        })"

definition expire_key :: "server_ctx \<Rightarrow> expire_opt set \<Rightarrow> dbkey \<Rightarrow> int \<Rightarrow> 'v redisDb \<Rightarrow> (reply \<times> 'v redisDb) option" where
  "expire_key ctx flag key when db =
     (case lookupKeyWrite ctx key db of
        (None, db) \<Rightarrow> Some (Rep_int 0, db)
      | (Some _, db) \<Rightarrow>
          if flag \<noteq> {} \<and> \<not> expire_allowed flag when (getExpire key db) then Some (Rep_int 0, db)
          else expire_apply ctx key when db)"

definition expireGenericCommand ::
  "server_ctx \<Rightarrow> int \<Rightarrow> bool \<Rightarrow> dbkey \<Rightarrow> byte list \<Rightarrow> byte list list \<Rightarrow> 'v redisDb \<Rightarrow> (reply \<times> 'v redisDb) option" where
  "expireGenericCommand ctx basetime unit_seconds key param args db =
     (case parseExtendedExpireArgumentsOrReply args of
        Inl e \<Rightarrow> Some (Rep_err e, db)
      | Inr flag \<Rightarrow>
          (case getLongLongFromObjectOrReply param None of
             Inl e \<Rightarrow> Some (Rep_err e, db)
           | Inr when \<Rightarrow>
               (case expire_when basetime unit_seconds when of
                  None \<Rightarrow> Some (Rep_err Err_expire_time, db)
                | Some when \<Rightarrow> expire_key ctx flag key when db)))"

definition expireCommand :: "server_ctx \<Rightarrow> dbkey \<Rightarrow> byte list \<Rightarrow> byte list list \<Rightarrow> 'v redisDb \<Rightarrow> (reply \<times> 'v redisDb) option" where
  "expireCommand ctx key param args db = expireGenericCommand ctx (clock db) True key param args db"

definition expireatCommand :: "server_ctx \<Rightarrow> dbkey \<Rightarrow> byte list \<Rightarrow> byte list list \<Rightarrow> 'v redisDb \<Rightarrow> (reply \<times> 'v redisDb) option" where
  "expireatCommand ctx key param args db = expireGenericCommand ctx 0 True key param args db"

definition pexpireCommand :: "server_ctx \<Rightarrow> dbkey \<Rightarrow> byte list \<Rightarrow> byte list list \<Rightarrow> 'v redisDb \<Rightarrow> (reply \<times> 'v redisDb) option" where
  "pexpireCommand ctx key param args db = expireGenericCommand ctx (clock db) False key param args db"

definition pexpireatCommand :: "server_ctx \<Rightarrow> dbkey \<Rightarrow> byte list \<Rightarrow> byte list list \<Rightarrow> 'v redisDb \<Rightarrow> (reply \<times> 'v redisDb) option" where
  "pexpireatCommand ctx key param args db = expireGenericCommand ctx 0 False key param args db"

text \<open>\<open>ttl+500\<close> is a signed sum.\<close>

definition ttlGenericCommand :: "server_ctx \<Rightarrow> bool \<Rightarrow> bool \<Rightarrow> dbkey \<Rightarrow> 'v redisDb \<Rightarrow> (reply \<times> 'v redisDb) option" where
  "ttlGenericCommand ctx output_ms output_abs key db =
     (case lookupKey ctx {LOOKUP_NOTOUCH} key db of
        (None, db) \<Rightarrow> Some (Rep_int (-2), db)
      | (Some _, db) \<Rightarrow>
          let expire = getExpire key db;
              ttl = (if expire \<noteq> -1 then let ttl = (if output_abs then expire else expire - clock db) in if ttl < 0 then 0 else ttl
                     else -1)
          in
          if ttl = -1 then Some (Rep_int (-1), db)
          else if output_ms then Some (Rep_int ttl, db)
          else if ttl + 500 > LLONG_MAX then None
          else Some (Rep_int ((ttl + 500) div 1000), db))"

definition persistCommand :: "server_ctx \<Rightarrow> dbkey \<Rightarrow> 'v redisDb \<Rightarrow> reply \<times> 'v redisDb" where
  "persistCommand ctx key db =
     (case lookupKeyWrite ctx key db of
        (None, db) \<Rightarrow> (Rep_int 0, db)
      | (Some _, db) \<Rightarrow>
          (case removeExpire key db of (removed, db) \<Rightarrow>
             if removed
             then (Rep_int 1, add_dirty 1 (notifyKeyspaceEvent NOTIFY_GENERIC ''persist'' key (signalModifiedKey key db)))
             else (Rep_int 0, db)))"

end
