(* ===== verification/Redis_Set_Cmds.thy ===== *)
theory Redis_Set_Cmds
  imports Redis_Set Redis_Db
begin

text \<open>
  The commands on sets of \<open>src/t_set.c\<close>: they look their keys up, work on the set objects behind them and reply.

  A key has an object of its own, so that two pointers to objects of the keyspace are equal when their keys are; a pointer to an
  object is its key, and \<open>NULL\<close> is \<open>None\<close>. What a command does to an object is done to the object in the keyspace.
  \<open>qsort\<close> of the C library is an argument; it sorts the pointers with the sizes of their sets, which the comparison functions read.
\<close>

datatype obj_type = OBJ_STRING | OBJ_LIST | OBJ_ZSET | OBJ_HASH | OBJ_MODULE | OBJ_STREAM

datatype robj = Obj_set setobj | Obj_other obj_type

type_synonym setdb = "robj redisDb"

text \<open>\<open>checkType(c,o,OBJ_SET)\<close>.\<close>

fun wrong_type :: "robj option \<Rightarrow> bool" where
  "wrong_type (Some (Obj_other ty)) \<longleftrightarrow> True"
| "wrong_type _ \<longleftrightarrow> False"

text \<open>A function on the object that a pointer points to.\<close>

definition on_set :: "setdb \<Rightarrow> dbkey \<Rightarrow> (setobj \<Rightarrow> ('r \<times> setobj) option) \<Rightarrow> ('r \<times> setdb) option" where
  "on_set db key f =
     (case db_keys db key of
        Some (Obj_set s) \<Rightarrow>
          do { (r, s) \<leftarrow> f s; Some (r, db\<lparr>db_keys := (db_keys db)(key \<mapsto> Obj_set s)\<rparr>) }
      | _ \<Rightarrow> None)"

section \<open>Elements\<close>

definition sadd_one :: "set_env \<Rightarrow> dbkey \<Rightarrow> byte list \<Rightarrow> int \<times> setdb \<Rightarrow> (int \<times> setdb) option" where
  "sadd_one env key val a =
     (case a of (added, db) \<Rightarrow>
        do {
          (success, db) \<leftarrow> on_set db key (\<lambda>s. setTypeAdd env s val);
          Some (if success then added + 1 else added, db)
        })"

definition saddCommand :: "set_env \<Rightarrow> server_ctx \<Rightarrow> dbkey \<Rightarrow> byte list list \<Rightarrow> setdb \<Rightarrow> (reply \<times> setdb) option" where
  "saddCommand env ctx key vals db =
     (case lookupKeyWrite ctx key db of (so, db) \<Rightarrow>
        if wrong_type so then Some (Rep_err wrongtypeerr, db)
        else
          do {
            db \<leftarrow> (case so of
                     None \<Rightarrow>
                       (case vals of
                          [] \<Rightarrow> None
                        | val # _ \<Rightarrow> do { s \<leftarrow> setTypeCreate env val (length vals); dbAdd key (Obj_set s) db })
                   | Some _ \<Rightarrow>
                       map_option snd (on_set db key (\<lambda>s. map_option (Pair ()) (setTypeMaybeConvert env s (length vals)))));
            (added, db) \<leftarrow> fold_opt (sadd_one env key) vals (0, db);
            let db = (if added \<noteq> 0 then notifyKeyspaceEvent NOTIFY_SET ''sadd'' key (signalModifiedKey key db) else db);
            Some (Rep_int added, add_dirty added db)
          })"

text \<open>The loop of \<open>sremCommand\<close>, with \<open>deleted\<close> and \<open>keyremoved\<close>.\<close>

fun srem_loop :: "set_env \<Rightarrow> dbkey \<Rightarrow> byte list list \<Rightarrow> int \<Rightarrow> setdb \<Rightarrow> (int \<times> bool \<times> setdb) option" where
  "srem_loop env key [] deleted db = Some (deleted, False, db)"
| "srem_loop env key (val # vals) deleted db =
     do {
       (removed, db) \<leftarrow> on_set db key (\<lambda>s. setTypeRemove env s val);
       if \<not> removed then srem_loop env key vals deleted db
       else
         do {
           (n, db) \<leftarrow> on_set db key setTypeSize;
           if n = 0 then Some (deleted + 1, True, snd (dbDelete key db)) else srem_loop env key vals (deleted + 1) db
         }
     }"

definition sremCommand :: "set_env \<Rightarrow> server_ctx \<Rightarrow> dbkey \<Rightarrow> byte list list \<Rightarrow> setdb \<Rightarrow> (reply \<times> setdb) option" where
  "sremCommand env ctx key vals db =
     (case lookupKeyWrite ctx key db of (so, db) \<Rightarrow>
        if so = None then Some (Rep_int 0, db)
        else if wrong_type so then Some (Rep_err wrongtypeerr, db)
        else
          do {
            (deleted, keyremoved, db) \<leftarrow> srem_loop env key vals 0 db;
            let db =
              (if deleted \<noteq> 0
               then
                 let db = notifyKeyspaceEvent NOTIFY_SET ''srem'' key (signalModifiedKey key db);
                     db = (if keyremoved then notifyKeyspaceEvent NOTIFY_GENERIC ''del'' key db else db)
                 in add_dirty deleted db
               else db);
            Some (Rep_int deleted, db)
          })"

text \<open>The parts of \<open>smoveCommand\<close> behind the removal from \<open>src\<close>; \<open>newset\<close> says that \<open>dstset\<close> is \<open>NULL\<close>.\<close>

definition smove_from :: "dbkey \<Rightarrow> setdb \<Rightarrow> setdb option" where
  "smove_from src db =
     do {
       (n, db) \<leftarrow> on_set (notifyKeyspaceEvent NOTIFY_SET ''srem'' src db) src setTypeSize;
       Some (if n = 0 then notifyKeyspaceEvent NOTIFY_GENERIC ''del'' src (snd (dbDelete src db)) else db)
     }"

definition smove_to :: "set_env \<Rightarrow> dbkey \<Rightarrow> dbkey \<Rightarrow> bool \<Rightarrow> byte list \<Rightarrow> setdb \<Rightarrow> (reply \<times> setdb) option" where
  "smove_to env src dst newset ele db =
     do {
       db \<leftarrow> (if newset then do { s \<leftarrow> setTypeCreate env ele 1; dbAdd dst (Obj_set s) db } else Some db);
       let db = add_dirty 1 (signalModifiedKey src db);
       (added, db) \<leftarrow> on_set db dst (\<lambda>s. setTypeAdd env s ele);
       let db = (if added then notifyKeyspaceEvent NOTIFY_SET ''sadd'' dst (signalModifiedKey dst (add_dirty 1 db)) else db);
       Some (Rep_int 1, db)
     }"

definition smoveCommand :: "set_env \<Rightarrow> server_ctx \<Rightarrow> dbkey \<Rightarrow> dbkey \<Rightarrow> byte list \<Rightarrow> setdb \<Rightarrow> (reply \<times> setdb) option" where
  "smoveCommand env ctx src dst ele db =
     (case lookupKeyWrite ctx src db of (srcset, db) \<Rightarrow>
      case lookupKeyWrite ctx dst db of (dstset, db) \<Rightarrow>
        if srcset = None then Some (Rep_int 0, db)
        else if wrong_type srcset \<or> wrong_type dstset then Some (Rep_err wrongtypeerr, db)
        else if src = dst
        then do { (r, db) \<leftarrow> on_set db src (\<lambda>s. setTypeIsMember env s ele); Some (Rep_int (if r then 1 else 0), db) }
        else
          do {
            (removed, db) \<leftarrow> on_set db src (\<lambda>s. setTypeRemove env s ele);
            if \<not> removed then Some (Rep_int 0, db)
            else do { db \<leftarrow> smove_from src db; smove_to env src dst (dstset = None) ele db }
          })"

definition sismemberCommand :: "set_env \<Rightarrow> server_ctx \<Rightarrow> dbkey \<Rightarrow> byte list \<Rightarrow> setdb \<Rightarrow> (reply \<times> setdb) option" where
  "sismemberCommand env ctx key ele db =
     (case lookupKeyRead ctx key db of (so, db) \<Rightarrow>
        if so = None then Some (Rep_int 0, db)
        else if wrong_type so then Some (Rep_err wrongtypeerr, db)
        else do { (r, db) \<leftarrow> on_set db key (\<lambda>s. setTypeIsMember env s ele); Some (Rep_int (if r then 1 else 0), db) })"

definition smismember_one :: "set_env \<Rightarrow> dbkey \<Rightarrow> bool \<Rightarrow> byte list \<Rightarrow> int list \<times> setdb \<Rightarrow> (int list \<times> setdb) option" where
  "smismember_one env key found ele a =
     (case a of (replies, db) \<Rightarrow>
        if found
        then do { (r, db) \<leftarrow> on_set db key (\<lambda>s. setTypeIsMember env s ele); Some (replies @ [if r then 1 else 0], db) }
        else Some (replies @ [0], db))"

definition smismemberCommand :: "set_env \<Rightarrow> server_ctx \<Rightarrow> dbkey \<Rightarrow> byte list list \<Rightarrow> setdb \<Rightarrow> (reply \<times> setdb) option" where
  "smismemberCommand env ctx key eles db =
     (case lookupKeyRead ctx key db of (so, db) \<Rightarrow>
        if so \<noteq> None \<and> wrong_type so then Some (Rep_err wrongtypeerr, db)
        else
          do {
            (replies, db) \<leftarrow> fold_opt (smismember_one env key (so \<noteq> None)) eles ([], db);
            Some (Rep_array (length eles) replies, db)
          })"

definition scardCommand :: "server_ctx \<Rightarrow> dbkey \<Rightarrow> setdb \<Rightarrow> (reply \<times> setdb) option" where
  "scardCommand ctx key db =
     (case lookupKeyRead ctx key db of (o', db) \<Rightarrow>
        if o' = None then Some (Rep_int 0, db)
        else if wrong_type o' then Some (Rep_err wrongtypeerr, db)
        else do { (n, db) \<leftarrow> on_set db key setTypeSize; Some (Rep_int (int n), db) })"

section \<open>Several sets\<close>

text \<open>The array \<open>sets\<close>; \<open>None\<close> when a key holds another type, and the error was replied.\<close>

fun lookup_sets :: "server_ctx \<Rightarrow> dbkey list \<Rightarrow> setdb \<Rightarrow> dbkey option list option \<times> setdb" where
  "lookup_sets ctx [] db = (Some [], db)"
| "lookup_sets ctx (key # setkeys) db =
     (case lookupKeyRead ctx key db of (setobj, db) \<Rightarrow>
        if setobj = None then apfst (map_option (Cons None)) (lookup_sets ctx setkeys db)
        else if wrong_type setobj then (None, db)
        else apfst (map_option (Cons (Some key))) (lookup_sets ctx setkeys db))"

type_synonym sized_set = "dbkey option \<times> nat"
type_synonym qsort_fun = "(sized_set \<Rightarrow> sized_set \<Rightarrow> int) \<Rightarrow> sized_set list \<Rightarrow> sized_set list"

fun qsortCompareSetsByCardinality :: "sized_set \<Rightarrow> sized_set \<Rightarrow> int" where
  "qsortCompareSetsByCardinality (s1, n1) (s2, n2) = (if n1 > n2 then 1 else if n1 < n2 then -1 else 0)"

fun qsortCompareSetsByRevCardinality :: "sized_set \<Rightarrow> sized_set \<Rightarrow> int" where
  "qsortCompareSetsByRevCardinality (s1, first) (s2, second) = (if first < second then 1 else if first > second then -1 else 0)"

fun set_sizes :: "dbkey option list \<Rightarrow> setdb \<Rightarrow> (sized_set list \<times> setdb) option" where
  "set_sizes [] db = Some ([], db)"
| "set_sizes (None # sets) db = map_option (apfst (Cons (None, 0))) (set_sizes sets db)"
| "set_sizes (Some key # sets) db =
     do { (n, db) \<leftarrow> on_set db key setTypeSize; map_option (apfst (Cons (Some key, n))) (set_sizes sets db) }"

text \<open>\<open>qsort\<close> compares nothing when there is one set.\<close>

definition sort_sets :: "qsort_fun \<Rightarrow> (sized_set \<Rightarrow> sized_set \<Rightarrow> int) \<Rightarrow> dbkey option list \<Rightarrow> setdb \<Rightarrow> (dbkey option list \<times> setdb) option" where
  "sort_sets qsort cmp sets db =
     (if length sets > 1 then map_option (apfst (map fst \<circ> qsort cmp)) (set_sizes sets db) else Some (sets, db))"

text \<open>The result is stored, or the target is deleted when the result is empty.\<close>

definition store_set :: "server_ctx \<Rightarrow> dbkey \<Rightarrow> string \<Rightarrow> setobj \<Rightarrow> setdb \<Rightarrow> (reply \<times> setdb) option" where
  "store_set ctx dstkey event dstset db =
     do {
       db \<leftarrow> setKey ctx {} dstkey (Obj_set dstset) db;
       (n, db) \<leftarrow> on_set db dstkey setTypeSize;
       Some (Rep_int (int n), add_dirty 1 (notifyKeyspaceEvent NOTIFY_SET event dstkey db))
     }"

definition store_empty :: "dbkey \<Rightarrow> setdb \<Rightarrow> reply \<times> setdb" where
  "store_empty dstkey db =
     (case dbDelete dstkey db of (deleted, db) \<Rightarrow>
        (Rep_int 0, if deleted then add_dirty 1 (notifyKeyspaceEvent NOTIFY_GENERIC ''del'' dstkey (signalModifiedKey dstkey db)) else db))"

section \<open>Intersection\<close>

text \<open>The loop over \<open>sets[1]\<close> to the last of the sets: \<open>j == setnum\<close> behind it.\<close>

fun in_all_sets :: "set_env \<Rightarrow> dbkey \<Rightarrow> set_elem \<Rightarrow> dbkey list \<Rightarrow> setdb \<Rightarrow> (bool \<times> setdb) option" where
  "in_all_sets env set0 e [] db = Some (True, db)"
| "in_all_sets env set0 e (key # sets) db =
     (if key = set0 then in_all_sets env set0 e sets db
      else
        do {
          (r, db) \<leftarrow> on_set db key (\<lambda>s. setTypeIsMemberAux env s e);
          if r then in_all_sets env set0 e sets db else Some (False, db)
        })"

text \<open>The element as it is added to \<open>dstset\<close>, and \<open>only_integers\<close>.\<close>

definition sinter_elem :: "set_encoding \<Rightarrow> setobj \<Rightarrow> bool \<Rightarrow> set_elem \<Rightarrow> set_elem \<times> bool" where
  "sinter_elem encoding dstset only_integers e =
     (case e of
        El_int v \<Rightarrow> (e, only_integers)
      | El_str str \<Rightarrow>
          if \<not> only_integers then (e, only_integers)
          else if encoding = OBJ_ENCODING_HT \<and> string2ll str \<noteq> None
          then (if set_encoding_of dstset = OBJ_ENCODING_LISTPACK \<or> set_encoding_of dstset = OBJ_ENCODING_INTSET
                then El_int (the (string2ll str)) else e, only_integers)
          else (e, False))"

record sinter_acc =
  si_db :: setdb
  si_cardinality :: nat
  si_replies :: "byte list list"
  si_only_integers :: bool
  si_dstset :: "setobj option"

definition sinter_body ::
  "set_env \<Rightarrow> dbkey \<Rightarrow> dbkey list \<Rightarrow> set_encoding \<Rightarrow> bool \<Rightarrow> nat \<Rightarrow> set_elem \<Rightarrow> sinter_acc \<Rightarrow> (bool \<times> sinter_acc) option" where
  "sinter_body env set0 sets encoding cardinality_only limit e a =
     do {
       (in_all, db) \<leftarrow> in_all_sets env set0 e sets (si_db a);
       let a = a\<lparr>si_db := db\<rparr>;
       if \<not> in_all then Some (False, a)
       else if cardinality_only
       then
         let a = a\<lparr>si_cardinality := si_cardinality a + 1\<rparr> in
         Some (limit \<noteq> 0 \<and> si_cardinality a \<ge> limit, a)
       else
         (case si_dstset a of
            None \<Rightarrow>
              Some (False, a\<lparr>si_replies := si_replies a @ [elem_string env e], si_cardinality := si_cardinality a + 1\<rparr>)
          | Some dstset \<Rightarrow>
              (case sinter_elem encoding dstset (si_only_integers a) e of (e, only_integers) \<Rightarrow>
                 do {
                   (_, dstset) \<leftarrow> setTypeAddAux env dstset e;
                   Some (False, a\<lparr>si_only_integers := only_integers, si_dstset := Some dstset\<rparr>)
                 }))
     }"

fun sinter_dstset :: "set_env \<Rightarrow> setobj \<Rightarrow> setobj" where
  "sinter_dstset env (Set_intset is) = createIntsetObject"
| "sinter_dstset env (Set_listpack lp) = Set_listpack (lpNew (junk env) (lpBytes lp))"
| "sinter_dstset env (Set_ht d) = createSetListpackObject env"

definition sinter_store :: "set_env \<Rightarrow> server_ctx \<Rightarrow> dbkey \<Rightarrow> bool \<Rightarrow> setobj \<Rightarrow> setdb \<Rightarrow> (reply \<times> setdb) option" where
  "sinter_store env ctx dstkey only_integers dstset db =
     do {
       (n, dstset) \<leftarrow> setTypeSize dstset;
       if n > 0
       then
         do {
           dstset \<leftarrow> (if only_integers then maybeConvertToIntset env dstset else Some dstset);
           let dstset = (case dstset of Set_listpack lp \<Rightarrow> Set_listpack (lpShrinkToFit (junk env) lp) | _ \<Rightarrow> dstset);
           store_set ctx dstkey ''sinterstore'' dstset db
         }
       else Some (store_empty dstkey db)
     }"

definition set_at :: "setdb \<Rightarrow> dbkey \<Rightarrow> setobj option" where
  "set_at db key = (case db_keys db key of Some (Obj_set s) \<Rightarrow> Some s | _ \<Rightarrow> None)"

text \<open>Behind the lookups, with the sets in the order of their sizes. The object of \<open>sets[0]\<close> is not changed in the loop over it.\<close>

definition sinter_sets ::
  "set_env \<Rightarrow> server_ctx \<Rightarrow> dbkey \<Rightarrow> dbkey list \<Rightarrow> dbkey option \<Rightarrow> bool \<Rightarrow> nat \<Rightarrow> setdb \<Rightarrow> (reply \<times> setdb) option" where
  "sinter_sets env ctx set0 sets dstkey cardinality_only limit db =
     do {
       s \<leftarrow> set_at db set0;
       (a, si) \<leftarrow> iter_until (setTypeNext env s)
         (sinter_body env set0 sets (set_encoding_of s) cardinality_only limit) (setTypeInitIterator s)
         \<lparr>si_db = db, si_cardinality = 0, si_replies = [], si_only_integers = True,
          si_dstset = (if dstkey = None then None else Some (sinter_dstset env s))\<rparr>;
       setTypeReleaseIterator env s si;
       if cardinality_only then Some (Rep_int (int (si_cardinality a)), si_db a)
       else
         (case (dstkey, si_dstset a) of
            (Some dstkey, Some dstset) \<Rightarrow> sinter_store env ctx dstkey (si_only_integers a) dstset (si_db a)
          | _ \<Rightarrow> Some (Rep_set (si_cardinality a) (si_replies a), si_db a))
     }"

definition sinterGenericCommand ::
  "set_env \<Rightarrow> server_ctx \<Rightarrow> qsort_fun \<Rightarrow> dbkey list \<Rightarrow> dbkey option \<Rightarrow> bool \<Rightarrow> nat \<Rightarrow> setdb \<Rightarrow> (reply \<times> setdb) option" where
  "sinterGenericCommand env ctx qsort setkeys dstkey cardinality_only limit db =
     (case lookup_sets ctx setkeys db of
        (None, db) \<Rightarrow> Some (Rep_err wrongtypeerr, db)
      | (Some sets, db) \<Rightarrow>
          if None \<in> set sets
          then
            Some (case dstkey of
                    Some dstkey \<Rightarrow> store_empty dstkey db
                  | None \<Rightarrow> (if cardinality_only then Rep_int 0 else Rep_set 0 [], db))
          else
            do {
              (sets, db) \<leftarrow> sort_sets qsort qsortCompareSetsByCardinality sets db;
              (case map the sets of
                 [] \<Rightarrow> None
               | set0 # sets \<Rightarrow> sinter_sets env ctx set0 sets dstkey cardinality_only limit db)
            })"

definition sinterCommand :: "set_env \<Rightarrow> server_ctx \<Rightarrow> qsort_fun \<Rightarrow> dbkey list \<Rightarrow> setdb \<Rightarrow> (reply \<times> setdb) option" where
  "sinterCommand env ctx qsort setkeys db = sinterGenericCommand env ctx qsort setkeys None False 0 db"

definition sinterstoreCommand :: "set_env \<Rightarrow> server_ctx \<Rightarrow> qsort_fun \<Rightarrow> dbkey \<Rightarrow> dbkey list \<Rightarrow> setdb \<Rightarrow> (reply \<times> setdb) option" where
  "sinterstoreCommand env ctx qsort dstkey setkeys db = sinterGenericCommand env ctx qsort setkeys (Some dstkey) False 0 db"

fun sintercard_limit :: "byte list list \<Rightarrow> int \<Rightarrow> reply_error + int" where
  "sintercard_limit [] limit = Inr limit"
| "sintercard_limit [opt] limit = Inl syntaxerr"
| "sintercard_limit (opt # arg # args) limit =
     (if strcaseeq opt ''limit''
      then (case getPositiveLongFromObjectOrReply arg ''LIMIT can't be negative'' of
              Inl e \<Rightarrow> Inl e
            | Inr limit \<Rightarrow> sintercard_limit args limit)
      else Inl syntaxerr)"

text \<open>\<open>numkeys\<close> is \<open>argv[1]\<close>, and \<open>args\<close> are the arguments behind it.\<close>

definition sinterCardCommand :: "set_env \<Rightarrow> server_ctx \<Rightarrow> qsort_fun \<Rightarrow> byte list \<Rightarrow> byte list list \<Rightarrow> setdb \<Rightarrow> (reply \<times> setdb) option" where
  "sinterCardCommand env ctx qsort numkeys args db =
     (case getRangeLongFromObjectOrReply numkeys 1 LONG_MAX ''numkeys should be greater than 0'' of
        Inl e \<Rightarrow> Some (Rep_err e, db)
      | Inr numkeys \<Rightarrow>
          if numkeys > int (length args)
          then Some (Rep_err (Err_text ''Number of keys can't be greater than number of args''), db)
          else
            (case sintercard_limit (drop (nat numkeys) args) 0 of
               Inl e \<Rightarrow> Some (Rep_err e, db)
             | Inr limit \<Rightarrow> sinterGenericCommand env ctx qsort (take (nat numkeys) args) None True (nat limit) db))"

section \<open>Union and difference\<close>

datatype set_op_kind = SET_OP_UNION | SET_OP_DIFF

definition add_elem :: "set_env \<Rightarrow> set_elem \<Rightarrow> int \<times> setobj \<Rightarrow> (int \<times> setobj) option" where
  "add_elem env e a =
     (case a of (cardinality, dstset) \<Rightarrow>
        do { (r, dstset) \<leftarrow> setTypeAddAux env dstset e; Some (if r then cardinality + 1 else cardinality, dstset) })"

definition remove_elem :: "set_env \<Rightarrow> set_elem \<Rightarrow> int \<times> setobj \<Rightarrow> (int \<times> setobj) option" where
  "remove_elem env e a =
     (case a of (cardinality, dstset) \<Rightarrow>
        do { (r, dstset) \<leftarrow> setTypeRemoveAux env dstset e; Some (if r then cardinality - 1 else cardinality, dstset) })"

fun union_loop :: "set_env \<Rightarrow> setdb \<Rightarrow> dbkey option list \<Rightarrow> int \<times> setobj \<Rightarrow> (int \<times> setobj) option" where
  "union_loop env db [] a = Some a"
| "union_loop env db (None # sets) a = union_loop env db sets a"
| "union_loop env db (Some key # sets) a =
     do {
       s \<leftarrow> set_at db key;
       a \<leftarrow> set_foreach env (setTypeNext env s) s (add_elem env) a;
       union_loop env db sets a
     }"

text \<open>The work of both algorithms for the difference.\<close>

fun diff_work :: "dbkey \<Rightarrow> dbkey option list \<Rightarrow> nat \<Rightarrow> nat \<Rightarrow> setdb \<Rightarrow> (nat \<times> nat \<times> setdb) option" where
  "diff_work set0 [] algo_one_work algo_two_work db = Some (algo_one_work, algo_two_work, db)"
| "diff_work set0 (None # sets) algo_one_work algo_two_work db = diff_work set0 sets algo_one_work algo_two_work db"
| "diff_work set0 (Some key # sets) algo_one_work algo_two_work db =
     do {
       (n0, db) \<leftarrow> on_set db set0 setTypeSize;
       (n, db) \<leftarrow> on_set db key setTypeSize;
       diff_work set0 sets (algo_one_work + n0) (algo_two_work + n) db
     }"

definition diff_select :: "qsort_fun \<Rightarrow> dbkey \<Rightarrow> dbkey option list \<Rightarrow> setdb \<Rightarrow> (bool \<times> dbkey option list \<times> setdb) option" where
  "diff_select qsort set0 sets db =
     do {
       (algo_one_work, algo_two_work, db) \<leftarrow> diff_work set0 (Some set0 # sets) 0 0 db;
       if algo_one_work div 2 \<le> algo_two_work
       then map_option (\<lambda>(sets, db). (True, sets, db)) (sort_sets qsort qsortCompareSetsByRevCardinality sets db)
       else Some (False, sets, db)
     }"

fun in_any_set :: "set_env \<Rightarrow> dbkey \<Rightarrow> set_elem \<Rightarrow> dbkey option list \<Rightarrow> setdb \<Rightarrow> (bool \<times> setdb) option" where
  "in_any_set env set0 e [] db = Some (False, db)"
| "in_any_set env set0 e (None # sets) db = in_any_set env set0 e sets db"
| "in_any_set env set0 e (Some key # sets) db =
     (if key = set0 then Some (True, db)
      else
        do {
          (r, db) \<leftarrow> on_set db key (\<lambda>s. setTypeIsMemberAux env s e);
          if r then Some (True, db) else in_any_set env set0 e sets db
        })"

definition diff_one_body ::
  "set_env \<Rightarrow> dbkey \<Rightarrow> dbkey option list \<Rightarrow> set_elem \<Rightarrow> setdb \<times> int \<times> setobj \<Rightarrow> (setdb \<times> int \<times> setobj) option" where
  "diff_one_body env set0 sets e a =
     (case a of (db, cardinality, dstset) \<Rightarrow>
        do {
          (found, db) \<leftarrow> in_any_set env set0 e sets db;
          if found then Some (db, cardinality, dstset) else map_option (Pair db) (add_elem env e (cardinality, dstset))
        })"

definition diff_one :: "set_env \<Rightarrow> dbkey \<Rightarrow> dbkey option list \<Rightarrow> setdb \<Rightarrow> int \<times> setobj \<Rightarrow> (setdb \<times> int \<times> setobj) option" where
  "diff_one env set0 sets db a =
     do { s \<leftarrow> set_at db set0; set_foreach env (setTypeNext env s) s (diff_one_body env set0 sets) (db, a) }"

text \<open>The loop of the second algorithm from \<open>j = 1\<close> on.\<close>

fun diff_two_loop :: "set_env \<Rightarrow> setdb \<Rightarrow> dbkey option list \<Rightarrow> int \<times> setobj \<Rightarrow> (int \<times> setobj) option" where
  "diff_two_loop env db [] a = Some a"
| "diff_two_loop env db (None # sets) a = diff_two_loop env db sets a"
| "diff_two_loop env db (Some key # sets) a =
     do {
       s \<leftarrow> set_at db key;
       a \<leftarrow> set_foreach env (setTypeNext env s) s (remove_elem env) a;
       if fst a = 0 then Some a else diff_two_loop env db sets a
     }"

definition diff_two :: "set_env \<Rightarrow> dbkey \<Rightarrow> dbkey option list \<Rightarrow> setdb \<Rightarrow> int \<times> setobj \<Rightarrow> (int \<times> setobj) option" where
  "diff_two env set0 sets db a =
     do {
       s \<leftarrow> set_at db set0;
       a \<leftarrow> set_foreach env (setTypeNext env s) s (add_elem env) a;
       if fst a = 0 then Some a else diff_two_loop env db sets a
     }"

definition diff_sets :: "set_env \<Rightarrow> qsort_fun \<Rightarrow> dbkey option list \<Rightarrow> setdb \<Rightarrow> int \<times> setobj \<Rightarrow> (setdb \<times> int \<times> setobj) option" where
  "diff_sets env qsort sets db a =
     (case sets of
        [] \<Rightarrow> None
      | None # _ \<Rightarrow> Some (db, a)
      | Some set0 # sets \<Rightarrow>
          if Some set0 \<in> set sets then Some (db, a)
          else
            do {
              (algo_one, sets, db) \<leftarrow> diff_select qsort set0 sets db;
              if algo_one then diff_one env set0 sets db a else map_option (Pair db) (diff_two env set0 sets db a)
            })"

definition reply_elems :: "set_env \<Rightarrow> setobj \<Rightarrow> byte list list option" where
  "reply_elems env s = set_foreach env (setTypeNext env s) s (\<lambda>e replies. Some (replies @ [elem_string env e])) []"

definition sunionDiffGenericCommand ::
  "set_env \<Rightarrow> server_ctx \<Rightarrow> qsort_fun \<Rightarrow> dbkey list \<Rightarrow> dbkey option \<Rightarrow> set_op_kind \<Rightarrow> setdb \<Rightarrow> (reply \<times> setdb) option" where
  "sunionDiffGenericCommand env ctx qsort setkeys dstkey op' db =
     (case lookup_sets ctx setkeys db of
        (None, db) \<Rightarrow> Some (Rep_err wrongtypeerr, db)
      | (Some sets, db) \<Rightarrow>
          do {
            (db, cardinality, dstset) \<leftarrow>
              (case op' of
                 SET_OP_UNION \<Rightarrow> map_option (Pair db) (union_loop env db sets (0, createIntsetObject))
               | SET_OP_DIFF \<Rightarrow> diff_sets env qsort sets db (0, createIntsetObject));
            (case dstkey of
               None \<Rightarrow> do { replies \<leftarrow> reply_elems env dstset; Some (Rep_set (nat cardinality) replies, db) }
             | Some dstkey \<Rightarrow>
                 do {
                   (n, dstset) \<leftarrow> setTypeSize dstset;
                   if n > 0
                   then store_set ctx dstkey (case op' of SET_OP_UNION \<Rightarrow> ''sunionstore'' | SET_OP_DIFF \<Rightarrow> ''sdiffstore'') dstset db
                   else Some (store_empty dstkey db)
                 })
          })"

definition sunionCommand :: "set_env \<Rightarrow> server_ctx \<Rightarrow> qsort_fun \<Rightarrow> dbkey list \<Rightarrow> setdb \<Rightarrow> (reply \<times> setdb) option" where
  "sunionCommand env ctx qsort setkeys db = sunionDiffGenericCommand env ctx qsort setkeys None SET_OP_UNION db"

definition sunionstoreCommand :: "set_env \<Rightarrow> server_ctx \<Rightarrow> qsort_fun \<Rightarrow> dbkey \<Rightarrow> dbkey list \<Rightarrow> setdb \<Rightarrow> (reply \<times> setdb) option" where
  "sunionstoreCommand env ctx qsort dstkey setkeys db = sunionDiffGenericCommand env ctx qsort setkeys (Some dstkey) SET_OP_UNION db"

definition sdiffCommand :: "set_env \<Rightarrow> server_ctx \<Rightarrow> qsort_fun \<Rightarrow> dbkey list \<Rightarrow> setdb \<Rightarrow> (reply \<times> setdb) option" where
  "sdiffCommand env ctx qsort setkeys db = sunionDiffGenericCommand env ctx qsort setkeys None SET_OP_DIFF db"

definition sdiffstoreCommand :: "set_env \<Rightarrow> server_ctx \<Rightarrow> qsort_fun \<Rightarrow> dbkey \<Rightarrow> dbkey list \<Rightarrow> setdb \<Rightarrow> (reply \<times> setdb) option" where
  "sdiffstoreCommand env ctx qsort dstkey setkeys db = sunionDiffGenericCommand env ctx qsort setkeys (Some dstkey) SET_OP_DIFF db"

end
