(* ===== verification/Redis_Db_Proofs.thy ===== *)
theory Redis_Db_Proofs
  imports Redis_Db
begin

text \<open>
  The keyspace that clients see: a key that is expired is not there, whether it was deleted or not. The lemmas give what the functions of
  \<open>db.c\<close> do to this view.
\<close>

section \<open>The view of the keys\<close>

definition db_hidden :: "server_ctx \<Rightarrow> 'v redisDb \<Rightarrow> dbkey \<Rightarrow> bool" where
  "db_hidden ctx db k \<longleftrightarrow> \<not> lazy_expire_disabled ctx \<and> keyIsExpired ctx k db \<and> \<not> (masterhost ctx \<and> client_master ctx)"

definition db_view :: "server_ctx \<Rightarrow> 'v redisDb \<Rightarrow> dbkey \<rightharpoonup> 'v \<times> int option" where
  "db_view ctx db k = (if db_hidden ctx db k then None else map_option (\<lambda>v. (v, db_expires db k)) (db_keys db k))"

definition expired_at :: "server_ctx \<Rightarrow> int \<Rightarrow> int option \<Rightarrow> bool" where
  "expired_at ctx now t \<longleftrightarrow> \<not> lazy_expire_disabled ctx \<and> \<not> loading ctx \<and> \<not> (masterhost ctx \<and> client_master ctx) \<and>
     (case t of None \<Rightarrow> False | Some when \<Rightarrow> 0 \<le> when \<and> when < now)"

lemma expired_at_None [simp]: "\<not> expired_at ctx now None"
  by (simp add: expired_at_def)

lemma db_hidden_eq: "db_hidden ctx db k \<longleftrightarrow> expired_at ctx (clock db) (db_expires db k)"
  by (auto simp: db_hidden_def keyIsExpired_def getExpire_def expired_at_def Let_def split: option.splits)

lemmas db_view_eq = db_view_def db_hidden_eq

text \<open>Only keys that are there have an expire time.\<close>

definition db_ok :: "'v redisDb \<Rightarrow> bool" where
  "db_ok db \<longleftrightarrow> dom (db_expires db) \<subseteq> dom (db_keys db) \<and> (\<forall>k t. db_expires db k = Some t \<longrightarrow> 0 \<le> t)"

text \<open>Commands that write are executed by a master, by a replica that is writable, and by a replica for its master.\<close>

definition db_writable :: "server_ctx \<Rightarrow> bool" where
  "db_writable ctx \<longleftrightarrow> \<not> expire_paused ctx \<and> (masterhost ctx \<longrightarrow> client_master ctx \<or> \<not> repl_slave_ro ctx)"

definition db_grows :: "'v redisDb \<Rightarrow> 'v redisDb \<Rightarrow> bool" where
  "db_grows db db' \<longleftrightarrow> clock db' = clock db \<and> dirty db \<le> dirty db' \<and> (\<exists>es. events db' = events db @ es)"

definition db_signals :: "'v redisDb \<Rightarrow> 'v redisDb \<Rightarrow> dbkey \<Rightarrow> bool" where
  "db_signals db db' k \<longleftrightarrow> (\<exists>es. events db' = events db @ es \<and> Ev_modified k \<in> set es)"

lemma db_grows_refl [simp]: "db_grows db db"
  by (simp add: db_grows_def)

lemma db_grows_trans [trans]: "db_grows a b \<Longrightarrow> db_grows b c \<Longrightarrow> db_grows a c"
  by (auto simp: db_grows_def)

lemma db_signals_grows: "db_grows a b \<Longrightarrow> db_signals b c k \<Longrightarrow> db_signals a c k" "db_signals a b k \<Longrightarrow> db_grows b c \<Longrightarrow> db_signals a c k"
  by (auto simp: db_grows_def db_signals_def)

text \<open>Signals and counters are not seen in the view.\<close>

lemma db_view_cong: "db_keys db' = db_keys db \<Longrightarrow> db_expires db' = db_expires db \<Longrightarrow> clock db' = clock db \<Longrightarrow> db_view ctx db' = db_view ctx db"
  by (rule ext) (simp add: db_view_eq)

lemma db_fields [simp]:
  "db_keys (db_event e db) = db_keys db" "db_expires (db_event e db) = db_expires db"
  "clock (db_event e db) = clock db" "dirty (db_event e db) = dirty db" "events (db_event e db) = events db @ [e]"
  "db_keys (add_dirty i db) = db_keys db" "db_expires (add_dirty i db) = db_expires db" "clock (add_dirty i db) = clock db"
  "dirty (add_dirty i db) = dirty db + i" "events (add_dirty i db) = events db"
  by (simp_all add: db_event_def add_dirty_def)

lemmas db_signal_events [simp] = notifyKeyspaceEvent_def signalModifiedKey_def propagateDeletion_def

lemma db_view_signals [simp]: "db_view ctx (db_event e db) = db_view ctx db" "db_view ctx (add_dirty i db) = db_view ctx db"
  by (rule db_view_cong; simp)+

lemma db_ok_signals [simp]: "db_ok (db_event e db) = db_ok db" "db_ok (add_dirty i db) = db_ok db"
  by (simp_all add: db_ok_def)

lemma db_grows_signals [simp]: "db_grows db d \<Longrightarrow> db_grows db (db_event e d)" "0 \<le> i \<Longrightarrow> db_grows db d \<Longrightarrow> db_grows db (add_dirty i d)"
  by (auto simp: db_grows_def)

lemma db_signals_signal [simp]:
  "db_grows db d \<Longrightarrow> db_signals db (db_event (Ev_modified k) d) k" "db_signals db d k \<Longrightarrow> db_signals db (db_event e d) k"
  "db_signals db (add_dirty i d) k = db_signals db d k"
  by (auto simp: db_signals_def db_grows_def)

section \<open>Deletion\<close>

lemma db_hidden_expires: "db_hidden ctx db k \<Longrightarrow> \<exists>t. db_expires db k = Some t"
  by (auto simp: db_hidden_def keyIsExpired_def getExpire_def split: if_splits option.splits)

lemma dbGenericDelete_ok:
  assumes "db_ok db" "dbGenericDelete flags k db = (b, db')"
  shows "db_view ctx db' = (db_view ctx db)(k := None)" "db_ok db'" "db_grows db db'" "db_keys db' = (db_keys db)(k := None)"
    "b \<longleftrightarrow> db_keys db k \<noteq> None" "db_expires db' = (db_expires db)(k := None)"
proof -
  have *: "db_expires db k = None" if "db_keys db k = None" using assms(1) that by (auto simp: db_ok_def)
  show keys: "db_keys db' = (db_keys db)(k := None)" "b \<longleftrightarrow> db_keys db k \<noteq> None"
    and exps: "db_expires db' = (db_expires db)(k := None)"
    using assms(2) * by (auto simp: dbGenericDelete_def split: option.splits)
  show "db_grows db db'" using assms(2) by (auto simp: dbGenericDelete_def db_grows_def split: option.splits)
  then have "clock db' = clock db" by (simp add: db_grows_def)
  then show "db_view ctx db' = (db_view ctx db)(k := None)"
    using keys exps by (auto simp: db_view_eq fun_eq_iff)
  show "db_ok db'" using assms(1) keys exps by (auto simp: db_ok_def)
qed

lemma deleteExpired_ok:
  assumes "db_ok db" "db_hidden ctx db k"
  defines "db' \<equiv> deleteExpiredKeyAndPropagate ctx k db"
  shows "db_view ctx db' = db_view ctx db" "db_ok db'" "db_grows db db'" "db_keys db' = (db_keys db)(k := None)"
    "db_expires db' = (db_expires db)(k := None)"
proof -
  obtain b d where d: "dbGenericDelete DB_FLAG_KEY_EXPIRED k db = (b, d)" by (cases "dbGenericDelete DB_FLAG_KEY_EXPIRED k db") auto
  note ok = dbGenericDelete_ok [OF assms(1) d]
  have db': "db_keys db' = db_keys d" "db_expires db' = db_expires d" "clock db' = clock d" "db_grows d db'"
    by (simp_all add: db'_def deleteExpiredKeyAndPropagate_def d Let_def db_grows_def)
  show "db_view ctx db' = db_view ctx db"
    using db_view_cong [OF db'(1-3), of ctx] ok(1) assms(2) by (auto simp: db_view_def)
  show "db_ok db'" using ok(2) db' by (simp add: db_ok_def)
  show "db_grows db db'" using ok(3) db'(4) by (rule db_grows_trans)
  show "db_keys db' = (db_keys db)(k := None)" "db_expires db' = (db_expires db)(k := None)" using ok(4,6) db' by simp_all
qed

section \<open>Lookup\<close>

text \<open>What a check of the expire time may do: nothing, or the deletion of a key that is hidden.\<close>

definition db_expired :: "server_ctx \<Rightarrow> dbkey \<Rightarrow> 'v redisDb \<Rightarrow> 'v redisDb \<Rightarrow> bool" where
  "db_expired ctx k db db' \<longleftrightarrow> db_view ctx db' = db_view ctx db \<and> db_ok db' \<and> db_grows db db'
     \<and> (\<forall>j. j \<noteq> k \<longrightarrow> db_keys db' j = db_keys db j) \<and> (\<not> db_hidden ctx db k \<longrightarrow> db_keys db' k = db_keys db k)
     \<and> (db_keys db' k = None \<or> db_keys db' k = db_keys db k)"

lemma expireIfNeeded_ok:
  assumes "db_ok db" "expireIfNeeded ctx flags k db = (status, db')"
  shows "db_expired ctx k db db'" "status = KEY_VALID \<longleftrightarrow> \<not> db_hidden ctx db k" "status = KEY_DELETED \<Longrightarrow> db_keys db' k = None"
    "db_hidden ctx db k \<Longrightarrow> \<not> expire_paused ctx \<Longrightarrow> EXPIRE_AVOID_DELETE_EXPIRED \<notin> flags \<Longrightarrow>
      masterhost ctx \<longrightarrow> EXPIRE_FORCE_DELETE_EXPIRED \<in> flags \<Longrightarrow> status = KEY_DELETED"
    "status \<noteq> KEY_DELETED \<Longrightarrow> db' = db"
proof -
  show "status = KEY_VALID \<longleftrightarrow> \<not> db_hidden ctx db k"
    "db_hidden ctx db k \<Longrightarrow> \<not> expire_paused ctx \<Longrightarrow> EXPIRE_AVOID_DELETE_EXPIRED \<notin> flags \<Longrightarrow>
      masterhost ctx \<longrightarrow> EXPIRE_FORCE_DELETE_EXPIRED \<in> flags \<Longrightarrow> status = KEY_DELETED"
    "status \<noteq> KEY_DELETED \<Longrightarrow> db' = db"
    using assms(2) by (auto simp: expireIfNeeded_def db_hidden_def split: if_splits)
  have "status \<noteq> KEY_DELETED \<and> db' = db \<or> status = KEY_DELETED \<and> db_hidden ctx db k \<and> db' = deleteExpiredKeyAndPropagate ctx k db"
    using assms(2) by (auto simp: expireIfNeeded_def db_hidden_def split: if_splits)
  then show "db_expired ctx k db db'" "status = KEY_DELETED \<Longrightarrow> db_keys db' k = None"
    using deleteExpired_ok [OF assms(1), of ctx k] assms(1) by (auto simp: db_expired_def)
qed

lemma db_expired_fields:
  assumes "db_expired ctx k db d" "db_keys d' = db_keys d" "db_expires d' = db_expires d" "db_grows d d'"
  shows "db_expired ctx k db d'"
proof -
  have "clock d' = clock d" using assms(4) by (simp add: db_grows_def)
  then have "db_view ctx d' = db_view ctx d" using assms(2,3) by (rule db_view_cong [rotated 2])
  moreover have "db_grows db d'" using assms(1,4) db_grows_trans by (auto simp: db_expired_def)
  ultimately show ?thesis using assms(1-3) by (simp add: db_expired_def db_ok_def)
qed

lemma lookup_count_ok:
  "db_keys (lookup_count flags k b db) = db_keys db" "db_expires (lookup_count flags k b db) = db_expires db" "db_grows db (lookup_count flags k b db)"
  by (simp_all add: lookup_count_def Let_def db_grows_def)

lemma lookup_valid_ok:
  assumes "db_ok db" "lookup_valid ctx flags k db = (o', db')"
  shows "o' = map_option fst (db_view ctx db k)" "db_expired ctx k db db'"
    "o' = None \<Longrightarrow> db_writable ctx \<Longrightarrow> LOOKUP_WRITE \<in> flags \<Longrightarrow> LOOKUP_NOEXPIRE \<notin> flags \<Longrightarrow> db_keys db' k = None"
proof -
  let ?fl = "(if LOOKUP_WRITE \<in> flags \<and> \<not> (masterhost ctx \<and> repl_slave_ro ctx) then {EXPIRE_FORCE_DELETE_EXPIRED} else {}) \<union>
                   (if LOOKUP_NOEXPIRE \<in> flags then {EXPIRE_AVOID_DELETE_EXPIRED} else {})"
  obtain st d where d: "expireIfNeeded ctx ?fl k db = (st, d)" by (cases "expireIfNeeded ctx ?fl k db")
  note e = expireIfNeeded_ok [OF assms(1) d]
  have eq: "lookup_valid ctx flags k db = (case db_keys db k of None \<Rightarrow> (None, db) | Some v \<Rightarrow> (if st \<noteq> KEY_VALID then None else Some v, d))"
    by (simp only: lookup_valid_def Let_def d prod.case split: option.split)
  show "o' = map_option fst (db_view ctx db k)" "db_expired ctx k db db'"
    using assms e(1,2) by (auto simp: eq db_view_def db_expired_def split: option.splits if_splits)
  assume none: "o' = None" and flags: "db_writable ctx" "LOOKUP_WRITE \<in> flags" "LOOKUP_NOEXPIRE \<notin> flags"
  show "db_keys db' k = None"
  proof (cases "db_keys db k = None")
    case False
    then have st: "st \<noteq> KEY_VALID" "db' = d" using assms(2) none by (auto simp: eq split: if_splits)
    then have "db_hidden ctx db k" using e(2) by simp
    then have "st = KEY_DELETED" using e(4) flags by (auto simp: db_writable_def db_hidden_def)
    then show ?thesis using e(3) st by simp
  qed (use assms(2) in \<open>auto simp: eq\<close>)
qed

lemma lookupKey_ok:
  assumes "db_ok db" "lookupKey ctx flags k db = (o', db')"
  shows "o' = map_option fst (db_view ctx db k)" "db_expired ctx k db db'"
    "o' = None \<Longrightarrow> db_writable ctx \<Longrightarrow> LOOKUP_WRITE \<in> flags \<Longrightarrow> LOOKUP_NOEXPIRE \<notin> flags \<Longrightarrow> db_keys db' k = None"
proof -
  obtain d where d: "lookup_valid ctx flags k db = (o', d)" "db' = lookup_count flags k (o' \<noteq> None) d"
    using assms(2) by (auto simp: lookupKey_def split: prod.splits)
  note v = lookup_valid_ok [OF assms(1) d(1)]
  show "o' = map_option fst (db_view ctx db k)" by (rule v(1))
  show "db_expired ctx k db db'" unfolding d(2) by (rule db_expired_fields [OF v(2) lookup_count_ok])
  show "o' = None \<Longrightarrow> db_writable ctx \<Longrightarrow> LOOKUP_WRITE \<in> flags \<Longrightarrow> LOOKUP_NOEXPIRE \<notin> flags \<Longrightarrow> db_keys db' k = None"
    using v(3) d(2) lookup_count_ok(1) by metis
qed

lemma lookupKeyRead_ok:
  assumes "db_ok db" "lookupKeyRead ctx k db = (o', db')"
  shows "o' = map_option fst (db_view ctx db k)" "db_expired ctx k db db'"
  using lookupKey_ok [OF assms(1)] assms(2) by (auto simp: lookupKeyRead_def)

lemma lookupKeyWrite_ok:
  assumes "db_ok db" "lookupKeyWrite ctx k db = (o', db')" "db_writable ctx"
  shows "o' = map_option fst (db_view ctx db k)" "db_expired ctx k db db'" "o' = db_keys db' k"
proof -
  note l = lookupKey_ok [OF assms(1), of ctx "{LOOKUP_WRITE}" k o' db']
  show o': "o' = map_option fst (db_view ctx db k)" "db_expired ctx k db db'" using l assms(2) by (simp_all add: lookupKeyWrite_def)
  show "o' = db_keys db' k"
  proof (cases o')
    case None
    then show ?thesis using l(3) assms(2,3) by (simp add: lookupKeyWrite_def)
  next
    case (Some v)
    then show ?thesis using o' by (auto simp: db_view_def db_expired_def split: if_splits)
  qed
qed

section \<open>Changes\<close>

text \<open>The value of a key that is there is changed, or a key is added or replaced.\<close>

lemma db_update_ok:
  assumes "db_ok db" "db_keys db k = Some u"
  shows "db_ok (db\<lparr>db_keys := (db_keys db)(k \<mapsto> v)\<rparr>)"
    "db_view ctx (db\<lparr>db_keys := (db_keys db)(k \<mapsto> v)\<rparr>) = (db_view ctx db)(k := map_option (\<lambda>(_, t). (v, t)) (db_view ctx db k))"
    "db_grows db (db\<lparr>db_keys := (db_keys db)(k \<mapsto> v)\<rparr>)"
  using assms by (auto simp: db_ok_def db_view_eq db_grows_def fun_eq_iff)

lemma db_absent_expires: "db_ok db \<Longrightarrow> db_keys db k = None \<Longrightarrow> db_expires db k = None"
  by (auto simp: db_ok_def)

lemma dbAdd_ok:
  assumes "db_ok db" "db_keys db k = None"
  shows "\<exists>db'. dbAdd k v db = Some db' \<and> db_ok db' \<and> db_view ctx db' = (db_view ctx db)(k \<mapsto> (v, None)) \<and> db_grows db db'
    \<and> db_keys db' = (db_keys db)(k \<mapsto> v) \<and> db_expires db' = db_expires db"
proof -
  let ?db = "db\<lparr>db_keys := (db_keys db)(k \<mapsto> v)\<rparr>"
  have none: "db_expires db k = None" using assms by (rule db_absent_expires)
  then have "db_view ctx ?db = (db_view ctx db)(k \<mapsto> (v, None))"
    by (auto simp: db_view_eq fun_eq_iff)
  moreover have "db_ok ?db" "db_grows db ?db" using assms(1) by (auto simp: db_ok_def db_grows_def)
  ultimately show ?thesis using assms(2) by (simp add: dbAdd_def dbAddInternal_def)
qed

lemma removeExpire_ok:
  assumes "db_ok db" "removeExpire k db = (b, db')"
  shows "db_ok db'" "\<not> db_hidden ctx db k \<Longrightarrow> db_view ctx db' = (db_view ctx db)(k := map_option (\<lambda>(v, _). (v, None)) (db_view ctx db k))"
    "db_grows db db'" "b \<longleftrightarrow> db_expires db k \<noteq> None" "db_keys db' = db_keys db" "db_expires db' = (db_expires db)(k := None)" "clock db' = clock db"
proof -
  show f: "b \<longleftrightarrow> db_expires db k \<noteq> None" "db_keys db' = db_keys db" "db_expires db' = (db_expires db)(k := None)" "clock db' = clock db"
      "db_grows db db'"
    using assms(2) by (auto simp: removeExpire_def db_grows_def split: option.splits)
  show "db_ok db'" using assms(1) f by (auto simp: db_ok_def)
  show "\<not> db_hidden ctx db k \<Longrightarrow> db_view ctx db' = (db_view ctx db)(k := map_option (\<lambda>(v, _). (v, None)) (db_view ctx db k))"
    using f by (auto simp: db_view_eq fun_eq_iff option.map_comp comp_def)
qed

lemma setExpire_ok:
  assumes "db_ok db" "db_keys db k = Some v" "0 \<le> t"
  shows "\<exists>db'. setExpire ctx k t db = Some db' \<and> db_ok db' \<and> db_grows db db' \<and> db_keys db' = db_keys db \<and> db_expires db' = (db_expires db)(k \<mapsto> t)"
proof -
  let ?db = "db\<lparr>db_expires := (db_expires db)(k \<mapsto> t)\<rparr>"
  have "db_ok ?db" "db_grows db ?db" using assms by (auto simp: db_ok_def db_grows_def)
  then show ?thesis using assms(2) by (simp add: setExpire_def Let_def)
qed

lemma dbSetValue_ok:
  assumes "db_ok db" "db_keys db k = Some u"
  shows "\<exists>db'. dbSetValue k v ow db = Some db' \<and> db_ok db' \<and> db_grows db db' \<and> db_keys db' = (db_keys db)(k \<mapsto> v) \<and> db_expires db' = db_expires db"
  using assms by (auto simp: dbSetValue_def Let_def db_ok_def db_grows_def)

lemma setKey_ok:
  assumes "db_ok db" "db_writable ctx"
  shows "\<exists>db'. setKey ctx {} k v db = Some db' \<and> db_ok db' \<and> db_view ctx db' = (db_view ctx db)(k \<mapsto> (v, None)) \<and> db_grows db db' \<and> db_signals db db' k
    \<and> db_keys db' = (db_keys db)(k \<mapsto> v)"
proof -
  obtain o' d where d: "lookupKeyWrite ctx k db = (o', d)" by (cases "lookupKeyWrite ctx k db")
  note l = lookupKeyWrite_ok [OF assms(1) d assms(2)]
  then have ok: "db_ok d" "db_view ctx d = db_view ctx db" "db_grows db d" by (simp_all add: db_expired_def)
  obtain d1 where d1: "(if o' = None then dbAdd k v d else dbSetValue k v True d) = Some d1" "db_ok d1" "db_grows d d1"
      "db_keys d1 = (db_keys d)(k \<mapsto> v)" "db_expires d1 = db_expires d"
  proof (cases o')
    case None
    with dbAdd_ok [OF ok(1), of k v ctx] l(3) that show thesis by auto
  next
    case (Some u)
    then have "db_keys d k = Some u" using l(3) by simp
    from dbSetValue_ok [OF ok(1) this, of v True] Some that show thesis by auto
  qed
  obtain b d2 where d2: "removeExpire k d1 = (b, d2)" by (cases "removeExpire k d1")
  note r = removeExpire_ok [OF d1(2) d2]
  have "clock d2 = clock d" using r(7) d1(3) by (simp add: db_grows_def)
  then have "db_view ctx d2 = (db_view ctx d)(k \<mapsto> (v, None))"
    using r(5,6) d1(4,5) by (auto simp: db_view_eq fun_eq_iff)
  moreover have "setKey ctx {} k v db = Some (signalModifiedKey k d2)" using d d1(1) d2 by (cases o') (auto simp: setKey_def Let_def)
  moreover have "db_grows db d2" using db_grows_trans [OF ok(3) db_grows_trans [OF d1(3) r(3)]] .
  moreover have "db_keys d2 = (db_keys db)(k \<mapsto> v)" using r(5) d1(4) l(2) by (auto simp: db_expired_def fun_eq_iff)
  ultimately show ?thesis using r(1) ok(2) by simp
qed

end
