(* ===== verification/Redis_Db_Spec.thy ===== *)
theory Redis_Db_Spec
  imports Redis_Db_Proofs Redis_Util_Proofs
begin

text \<open>
  The keyspace as clients see it, as an abstract machine: a time and a map from the keys that are not expired to a value and an optional
  expire time. The commands of \<open>db.c\<close> and \<open>expire.c\<close> refine it, tell of each key they change, and count their changes.
\<close>

type_synonym 'a keyspace = "dbkey \<rightharpoonup> 'a \<times> int option"

section \<open>The abstract commands\<close>

definition spec_del :: "dbkey list \<Rightarrow> 'a keyspace \<Rightarrow> reply \<times> 'a keyspace" where
  "spec_del ks K = (Rep_int (int (card (set ks \<inter> dom K))), K |` (- set ks))"

definition spec_exists :: "dbkey list \<Rightarrow> 'a keyspace \<Rightarrow> reply" where
  "spec_exists ks K = Rep_int (int (length (filter (\<lambda>k. K k \<noteq> None) ks)))"

definition spec_rename :: "bool \<Rightarrow> dbkey \<Rightarrow> dbkey \<Rightarrow> 'a keyspace \<Rightarrow> reply \<times> 'a keyspace" where
  "spec_rename nx src dst K =
     (if K src = None then (Rep_err nokeyerr, K)
      else if nx \<and> K dst \<noteq> None then (Rep_int 0, K)
      else (if nx then Rep_int 1 else Rep_ok, (K(src := None))(dst := K src)))"

text \<open>What the options of an expire command ask of the present expire time of the key.\<close>

definition spec_expire_allowed :: "expire_opt set \<Rightarrow> int \<Rightarrow> int option \<Rightarrow> bool" where
  "spec_expire_allowed flags when t \<longleftrightarrow>
     (EXPIRE_NX \<in> flags \<longrightarrow> t = None) \<and> (EXPIRE_XX \<in> flags \<longrightarrow> t \<noteq> None) \<and>
     (EXPIRE_GT \<in> flags \<longrightarrow> (case t of None \<Rightarrow> False | Some cur \<Rightarrow> cur < when)) \<and>
     (EXPIRE_LT \<in> flags \<longrightarrow> (case t of None \<Rightarrow> True | Some cur \<Rightarrow> when < cur))"

text \<open>A time that is over deletes the key at once.\<close>

definition spec_expire_at :: "int \<Rightarrow> expire_opt set \<Rightarrow> dbkey \<Rightarrow> int \<Rightarrow> 'a keyspace \<Rightarrow> reply \<times> 'a keyspace" where
  "spec_expire_at now flags k when K =
     (case K k of
        None \<Rightarrow> (Rep_int 0, K)
      | Some (v, t) \<Rightarrow>
          if \<not> spec_expire_allowed flags when t then (Rep_int 0, K)
          else (Rep_int 1, if when \<le> now then K(k := None) else K(k \<mapsto> (v, Some when))))"

definition spec_expire ::
  "int \<Rightarrow> int \<Rightarrow> bool \<Rightarrow> dbkey \<Rightarrow> byte list \<Rightarrow> byte list list \<Rightarrow> 'a keyspace \<Rightarrow> reply \<times> 'a keyspace" where
  "spec_expire now basetime unit_seconds k param args K =
     (case parseExtendedExpireArgumentsOrReply args of
        Inl e \<Rightarrow> (Rep_err e, K)
      | Inr flags \<Rightarrow>
          (case string2ll param of
             None \<Rightarrow> (Rep_err (Err_text ''value is not an integer or out of range''), K)
           | Some n \<Rightarrow>
               let n = (if unit_seconds then n * 1000 else n) in
               if n < LLONG_MIN \<or> LLONG_MAX < n + basetime then (Rep_err Err_expire_time, K)
               else spec_expire_at now flags k (n + basetime) K))"

definition spec_ttl :: "int \<Rightarrow> bool \<Rightarrow> bool \<Rightarrow> dbkey \<Rightarrow> 'a keyspace \<Rightarrow> reply" where
  "spec_ttl now output_ms output_abs k K =
     Rep_int (case K k of
        None \<Rightarrow> -2
      | Some (_, None) \<Rightarrow> -1
      | Some (_, Some t) \<Rightarrow> let ttl = (if output_abs then t else t - now) in if output_ms then ttl else (ttl + 500) div 1000)"

definition spec_persist :: "dbkey \<Rightarrow> 'a keyspace \<Rightarrow> reply \<times> 'a keyspace" where
  "spec_persist k K =
     (case K k of
        Some (v, Some t) \<Rightarrow> (Rep_int 1, K(k \<mapsto> (v, None)))
      | _ \<Rightarrow> (Rep_int 0, K))"

section \<open>What a command promises\<close>

definition db_abs :: "('v \<Rightarrow> 'a) \<Rightarrow> server_ctx \<Rightarrow> 'v redisDb \<Rightarrow> 'a keyspace" where
  "db_abs f ctx db k = map_option (apfst f) (db_view ctx db k)"

definition db_inv :: "('v \<Rightarrow> bool) \<Rightarrow> 'v redisDb \<Rightarrow> bool" where
  "db_inv P db \<longleftrightarrow> db_ok db \<and> (\<forall>v \<in> ran (db_keys db). P v)"

text \<open>
  The database is in order, each key that the command changed was signalled, and \<open>dirty\<close> was raised if there is one.
\<close>

definition db_done :: "('v \<Rightarrow> bool) \<Rightarrow> ('v \<Rightarrow> 'a) \<Rightarrow> server_ctx \<Rightarrow> 'v redisDb \<Rightarrow> 'v redisDb \<Rightarrow> bool" where
  "db_done P f ctx db db' \<longleftrightarrow> db_inv P db' \<and> db_grows db db' \<and>
     (\<forall>k. db_abs f ctx db' k \<noteq> db_abs f ctx db k \<longrightarrow> db_signals db db' k \<and> dirty db < dirty db')"

lemma db_abs_upd:
  "db_view ctx db' = (db_view ctx db)(k := x) \<Longrightarrow> db_abs f ctx db' = (db_abs f ctx db)(k := map_option (apfst f) x)"
  "db_view ctx db' = db_view ctx db \<Longrightarrow> db_abs f ctx db' = db_abs f ctx db"
  by (auto simp: db_abs_def fun_eq_iff)

lemma db_abs_cong: "db_keys db' = db_keys db \<Longrightarrow> db_expires db' = db_expires db \<Longrightarrow> clock db' = clock db \<Longrightarrow> db_abs f ctx db' = db_abs f ctx db"
  by (intro db_abs_upd db_view_cong)

lemma db_abs_signals [simp]: "db_abs f ctx (db_event e db) = db_abs f ctx db" "db_abs f ctx (add_dirty i db) = db_abs f ctx db"
  by (rule db_abs_upd; simp)+

lemma db_inv_signals [simp]: "db_inv P (db_event e db) = db_inv P db" "db_inv P (add_dirty i db) = db_inv P db"
  by (simp_all add: db_inv_def)

lemma db_done_same: "db_inv P db' \<Longrightarrow> db_grows db db' \<Longrightarrow> db_abs f ctx db' = db_abs f ctx db \<Longrightarrow> db_done P f ctx db db'"
  by (simp add: db_done_def)

text \<open>A check of the expire time, and with it a lookup, keeps the keyspace.\<close>

lemma db_expired_same:
  assumes "db_inv P db" "db_expired ctx k db d"
  shows "db_inv P d" "db_grows db d" "db_abs f ctx d = db_abs f ctx db" "db_done P f ctx db d" "ran (db_keys d) \<subseteq> ran (db_keys db)"
proof -
  have "db_keys d j = db_keys db j \<or> db_keys d j = None" for j using assms(2) by (cases "j = k") (auto simp: db_expired_def)
  then show "ran (db_keys d) \<subseteq> ran (db_keys db)" by (auto simp: ran_def) (metis option.simps(3))
  with assms show "db_inv P d" by (auto simp: db_inv_def db_expired_def)
  moreover show "db_grows db d" "db_abs f ctx d = db_abs f ctx db" using assms(2) db_abs_upd(2) by (auto simp: db_expired_def)
  ultimately show "db_done P f ctx db d" by (rule db_done_same)
qed

lemma db_view_keys: "db_view ctx db k = Some (v, t) \<Longrightarrow> db_keys db k = Some v \<and> db_expires db k = t \<and> \<not> db_hidden ctx db k"
  by (auto simp: db_view_def split: if_splits)

lemma db_done_trans [trans]:
  assumes "db_done P f ctx a b" "db_done P f ctx b c"
  shows "db_done P f ctx a c"
proof -
  have grows: "db_grows a b" "db_grows b c" and dirty: "dirty a \<le> dirty b" "dirty b \<le> dirty c"
    using assms by (auto simp: db_done_def db_grows_def)
  have "db_signals a c k \<and> dirty a < dirty c" if "db_abs f ctx c k \<noteq> db_abs f ctx a k" for k
  proof (cases "db_abs f ctx b k = db_abs f ctx a k")
    case True
    then have "db_signals b c k \<and> dirty b < dirty c" using that assms(2) unfolding db_done_def by metis
    then show ?thesis using dirty db_signals_grows(1) [OF grows(1)] by simp
  next
    case False
    then have "db_signals a b k \<and> dirty a < dirty b" using assms(1) by (simp add: db_done_def)
    then show ?thesis using dirty db_signals_grows(2) [OF _ grows(2)] by simp
  qed
  then show ?thesis using assms db_grows_trans [OF grows] by (auto simp: db_done_def)
qed

text \<open>A command that changed the key \<open>k\<close> only, with a signal and a raise of \<open>dirty\<close>.\<close>

lemma db_done_key:
  assumes "db_inv P db'" "db_grows db db'" "db_signals db db' k" "dirty db < dirty db'" "db_abs f ctx db' = (db_abs f ctx db)(k := x)"
  shows "db_done P f ctx db db'"
  using assms by (auto simp: db_done_def fun_upd_def split: if_splits)

section \<open>Commands on keys\<close>

definition is_master :: "server_ctx \<Rightarrow> bool" where
  "is_master ctx \<longleftrightarrow> \<not> masterhost ctx \<and> \<not> loading ctx \<and> \<not> lazy_expire_disabled ctx \<and> \<not> expire_paused ctx"

lemma is_master_writable: "is_master ctx \<Longrightarrow> db_writable ctx"
  by (simp add: is_master_def db_writable_def)

lemma db_delete_inv:
  assumes "db_inv P db" "dbGenericDelete flags k db = (b, db')"
  shows "db_inv P db'" "db_abs f ctx db' = (db_abs f ctx db)(k := None)" "db_grows db db'" "b \<longleftrightarrow> db_keys db k \<noteq> None"
    "db_keys db' = (db_keys db)(k := None)" "db_expires db' = (db_expires db)(k := None)"
proof -
  have ok: "db_ok db" using assms(1) by (simp add: db_inv_def)
  note d = dbGenericDelete_ok [OF ok assms(2)]
  show "db_inv P db'" using assms(1) d(2,4) by (auto simp: db_inv_def ran_def)
  show "db_abs f ctx db' = (db_abs f ctx db)(k := None)" using db_abs_upd(1) [OF d(1)] by simp
  show "db_grows db db'" "b \<longleftrightarrow> db_keys db k \<noteq> None" "db_keys db' = (db_keys db)(k := None)"
    "db_expires db' = (db_expires db)(k := None)" by (fact d)+
qed

lemma db_abs_None: "db_abs f ctx db k = None \<longleftrightarrow> db_view ctx db k = None"
  by (simp add: db_abs_def)

lemma del_key_ok:
  assumes "db_inv P db" "is_master ctx"
  obtains db' where "\<forall>ks n. del_loop ctx (k # ks) n db = del_loop ctx ks (n + of_bool (db_abs f ctx db k \<noteq> None)) db'"
    "db_abs f ctx db' = (db_abs f ctx db)(k := None)" "db_done P f ctx db db'"
proof -
  have ok: "db_ok db" using assms(1) by (simp add: db_inv_def)
  obtain st d where d: "expireIfNeeded ctx {} k db = (st, d)" by (cases "expireIfNeeded ctx {} k db")
  note e = expireIfNeeded_ok [OF ok d]
  note same = db_expired_same [OF assms(1) e(1)]
  show thesis
  proof (cases "db_hidden ctx db k")
    case True
    then have "st = KEY_DELETED" using e(4) assms(2) by (simp add: is_master_def)
    moreover have "db_abs f ctx db k = None" using True by (simp add: db_abs_def db_view_def)
    ultimately show thesis using that [of d] d same(3,4) [of f] by (simp add: fun_upd_idem)
  next
    case False
    then have st: "st = KEY_VALID" "d = db" using e(2,5) by auto
    obtain b d1 where d1: "dbDelete k db = (b, d1)" by (cases "dbDelete k db")
    note del = db_delete_inv [OF assms(1) d1 [unfolded dbDelete_def]]
    have b: "b \<longleftrightarrow> db_abs f ctx db k \<noteq> None" using False del(4) by (simp add: db_abs_def db_view_def)
    let ?d2 = "add_dirty 1 (notifyKeyspaceEvent NOTIFY_GENERIC ''del'' k (signalModifiedKey k d1))"
    show thesis
    proof (cases b)
      case True
      have "dirty db \<le> dirty d1" using del(3) by (simp add: db_grows_def)
      then have "db_done P f ctx db ?d2" using del by (intro db_done_key [where x = None]) auto
      then show thesis using that [of ?d2] d st d1 del(2) [of f ctx] True b by simp
    next
      case False
      then have "db_abs f ctx db k = None" using b by blast
      then have "db_abs f ctx d1 = db_abs f ctx db" using del(2) [of f ctx] by (simp add: fun_upd_idem)
      then show thesis using that [of d1] d st d1 del(1,3) del(2) [of f ctx] False b by (simp add: db_done_same)
    qed
  qed
qed

lemma del_loop_ok:
  assumes "db_inv P db" "is_master ctx"
  shows "\<exists>db'. del_loop ctx ks n db = (n + int (card (set ks \<inter> dom (db_abs f ctx db))), db') \<and>
    db_abs f ctx db' = db_abs f ctx db |` (- set ks) \<and> db_done P f ctx db db'"
  using assms(1)
proof (induction ks arbitrary: n db)
  case Nil
  then show ?case by (simp add: db_done_same restrict_map_def)
next
  case (Cons k ks)
  obtain d where d: "\<forall>ks n. del_loop ctx (k # ks) n db = del_loop ctx ks (n + of_bool (db_abs f ctx db k \<noteq> None)) d"
    "db_abs f ctx d = (db_abs f ctx db)(k := None)" "db_done P f ctx db d" using del_key_ok [OF Cons.prems assms(2), of k f] by metis
  from d(3) have "db_inv P d" by (simp add: db_done_def)
  from Cons.IH [OF this, of "n + of_bool (db_abs f ctx db k \<noteq> None)"] obtain d2 where
    d2: "del_loop ctx (k # ks) n db = (n + of_bool (db_abs f ctx db k \<noteq> None) + int (card (set ks \<inter> dom (db_abs f ctx d))), d2)"
      "db_abs f ctx d2 = db_abs f ctx d |` (- set ks)" "db_done P f ctx d d2" using d(1) by auto
  have "set (k # ks) \<inter> dom (db_abs f ctx db) = (if db_abs f ctx db k \<noteq> None then insert k else id) (set ks \<inter> dom (db_abs f ctx d))"
    using d(2) by (auto split: if_splits)
  moreover have "k \<notin> set ks \<inter> dom (db_abs f ctx d)" using d(2) by simp
  ultimately have "int (card (set (k # ks) \<inter> dom (db_abs f ctx db))) = of_bool (db_abs f ctx db k \<noteq> None) + int (card (set ks \<inter> dom (db_abs f ctx d)))"
    by simp
  moreover have "db_abs f ctx d2 = db_abs f ctx db |` (- set (k # ks))" using d2(2) d(2) by (auto simp: restrict_map_def fun_eq_iff)
  ultimately show ?case using d2(1) db_done_trans [OF d(3) d2(3)] by simp
qed

lemma count_lookups_ok:
  assumes "db_inv P db"
  shows "\<exists>db'. count_lookups ctx flags ks n db = (n + int (length (filter (\<lambda>k. db_abs f ctx db k \<noteq> None) ks)), db') \<and>
    db_abs f ctx db' = db_abs f ctx db \<and> db_done P f ctx db db'"
  using assms
proof (induction ks arbitrary: n db)
  case (Cons k ks)
  obtain o' d where d: "lookupKey ctx flags k db = (o', d)" by (cases "lookupKey ctx flags k db")
  have ok: "db_ok db" using Cons.prems by (simp add: db_inv_def)
  note l = lookupKey_ok(1,2) [OF ok d]
  note same = db_expired_same [OF Cons.prems l(2)]
  have o': "o' = None \<longleftrightarrow> db_abs f ctx db k = None" using l(1) by (simp add: db_abs_None)
  obtain d2 where d2: "count_lookups ctx flags ks (n + of_bool (o' \<noteq> None)) d =
      (n + of_bool (o' \<noteq> None) + int (length (filter (\<lambda>k. db_abs f ctx db k \<noteq> None) ks)), d2)"
      "db_abs f ctx d2 = db_abs f ctx db" "db_done P f ctx d d2"
    using Cons.IH [OF same(1), of "n + of_bool (o' \<noteq> None)"] same(3) [of f] by auto
  have "count_lookups ctx flags (k # ks) n db = count_lookups ctx flags ks (n + of_bool (o' \<noteq> None)) d"
    using d by (cases o') simp_all
  then show ?case using d2 o' db_done_trans [OF same(4) d2(3)] by simp
qed (simp add: db_done_same)

lemma db_abs_SomeD:
  assumes "db_abs f ctx db k = Some (a, t)"
  obtains v where "db_keys db k = Some v" "a = f v" "db_expires db k = t" "db_view ctx db k = Some (v, t)"
  using assms by (auto simp: db_abs_def dest: db_view_keys)

text \<open>A lookup for writing, with what it tells of the keyspace.\<close>

lemma lookup_write_ok:
  assumes "db_inv P db" "db_writable ctx"
  obtains o' d where "lookupKeyWrite ctx k db = (o', d)" "db_inv P d" "db_done P f ctx db d" "db_abs f ctx d = db_abs f ctx db"
    "db_keys d k = o'" "map_option f o' = map_option fst (db_abs f ctx db k)" "db_grows db d"
    "\<forall>a t. db_abs f ctx db k = Some (a, t) \<longrightarrow> db_expires d k = t"
proof -
  obtain o' d where d: "lookupKeyWrite ctx k db = (o', d)" by (cases "lookupKeyWrite ctx k db")
  have ok: "db_ok db" using assms(1) by (simp add: db_inv_def)
  note l = lookupKeyWrite_ok [OF ok d assms(2)]
  note same = db_expired_same [OF assms(1) l(2)]
  have "map_option f o' = map_option fst (db_abs f ctx db k)"
    using l(1) by (auto simp: db_abs_def option.map_comp comp_def apfst_def split_def)
  moreover have "db_expires d k = t" if "db_abs f ctx db k = Some (a, t)" for a t
  proof -
    have "db_abs f ctx d k = Some (a, t)" using that same(3) [of f] by simp
    then show ?thesis by (rule db_abs_SomeD) simp
  qed
  ultimately show thesis using that d same l(3) by metis
qed

lemma db_inv_expires: "db_inv P db \<Longrightarrow> db_expires db k = Some t \<Longrightarrow> 0 \<le> t"
  by (auto simp: db_inv_def db_ok_def)

lemma getExpire_eq: "db_inv P db \<Longrightarrow> getExpire k db = -1 \<longleftrightarrow> db_expires db k = None" "db_expires db k = Some t \<Longrightarrow> getExpire k db = t"
  using db_inv_expires [of P db k] by (force simp: getExpire_def split: option.splits)+

text \<open>An expire time that is set or moved is one that is not over.\<close>

lemma set_expire_inv:
  assumes "db_inv P db" "db_keys db k = Some v" "0 \<le> t" "\<not> expired_at ctx (clock db) (Some t)"
  obtains db' where "setExpire ctx k t db = Some db'" "db_inv P db'" "db_grows db db'" "db_abs f ctx db' = (db_abs f ctx db)(k \<mapsto> (f v, Some t))"
    "db_keys db' = db_keys db" "db_expires db' = (db_expires db)(k \<mapsto> t)"
proof -
  have "db_ok db" using assms(1) by (simp add: db_inv_def)
  from setExpire_ok [OF this assms(2,3), of ctx] obtain db' where
    db': "setExpire ctx k t db = Some db'" "db_ok db'" "db_grows db db'" "db_keys db' = db_keys db" "db_expires db' = (db_expires db)(k \<mapsto> t)" by blast
  have "clock db' = clock db" using db'(3) by (simp add: db_grows_def)
  then have "db_abs f ctx db' = (db_abs f ctx db)(k \<mapsto> (f v, Some t))"
    using db'(4,5) assms(2,4) by (auto simp: db_abs_def db_view_eq fun_eq_iff)
  then show thesis using that db' assms(1) by (simp add: db_inv_def)
qed

lemma db_add_inv:
  assumes "db_inv P db" "db_keys db k = None" "P v"
  obtains db' where "dbAdd k v db = Some db'" "db_inv P db'" "db_grows db db'" "db_abs f ctx db' = (db_abs f ctx db)(k \<mapsto> (f v, None))"
    "db_keys db' = (db_keys db)(k \<mapsto> v)" "db_expires db' = db_expires db"
proof -
  have "db_ok db" using assms(1) by (simp add: db_inv_def)
  from dbAdd_ok [OF this assms(2), of v ctx] obtain db' where
    db': "dbAdd k v db = Some db'" "db_ok db'" "db_view ctx db' = (db_view ctx db)(k \<mapsto> (v, None))" "db_grows db db'" "db_keys db' = (db_keys db)(k \<mapsto> v)" "db_expires db' = db_expires db" by blast
  moreover have "db_abs f ctx db' = (db_abs f ctx db)(k \<mapsto> (f v, None))" using db_abs_upd(1) [OF db'(3), of f] by simp
  moreover have "db_inv P db'" using assms(1,3) db'(2,5) by (auto simp: db_inv_def ran_def)
  ultimately show thesis using that by blast
qed

lemma rename_move_ok:
  assumes "db_inv P d" "db_writable ctx" "db_keys d src = Some v" "db_keys d dst = None" "src \<noteq> dst" "db_abs f ctx d src = Some (f v, t)"
  obtains d1 d2 d3 where "dbAdd dst v d = Some d1" "(if getExpire src d \<noteq> -1 then setExpire ctx dst (getExpire src d) d1 else Some d1) = Some d2"
    "snd (dbDelete src d2) = d3" "db_inv P d3" "db_grows d d3" "db_abs f ctx d3 = (db_abs f ctx d)(src := None, dst \<mapsto> (f v, t))"
proof -
  have P: "P v" using assms(1,3) by (auto simp: db_inv_def ran_def)
  have t: "db_expires d src = t" using assms(6) by (rule db_abs_SomeD) simp
  obtain d1 where d1: "dbAdd dst v d = Some d1" "db_inv P d1" "db_grows d d1" "db_abs f ctx d1 = (db_abs f ctx d)(dst \<mapsto> (f v, None))"
      "db_keys d1 = (db_keys d)(dst \<mapsto> v)" using db_add_inv [OF assms(1,4) P] by metis
  obtain d2 where d2: "(if getExpire src d \<noteq> -1 then setExpire ctx dst (getExpire src d) d1 else Some d1) = Some d2" "db_inv P d2" "db_grows d1 d2"
      "db_abs f ctx d2 = (db_abs f ctx d)(dst \<mapsto> (f v, t))"
  proof (cases t)
    case None
    then show thesis using that [of d1] d1 getExpire_eq(1) [OF assms(1), of src] t by simp
  next
    case (Some w)
    then have w: "getExpire src d = w" "0 \<le> w" "db_keys d1 dst = Some v"
      using getExpire_eq(2) db_inv_expires [OF assms(1)] t d1(5) by auto
    have "clock d1 = clock d" using d1(3) by (simp add: db_grows_def)
    then have "\<not> expired_at ctx (clock d1) (Some w)" using assms(6) t Some by (auto simp: db_abs_def db_view_eq split: if_splits)
    from set_expire_inv [OF d1(2) w(3,2) this, of f] obtain d2 where "setExpire ctx dst w d1 = Some d2" "db_inv P d2" "db_grows d1 d2"
      "db_abs f ctx d2 = (db_abs f ctx d1)(dst \<mapsto> (f v, Some w))" by metis
    then show thesis using that [of d2] w Some d1(4) by simp
  qed
  obtain b d3 where d3: "dbDelete src d2 = (b, d3)" by (cases "dbDelete src d2")
  note del = db_delete_inv [OF d2(2) d3 [unfolded dbDelete_def]]
  have "db_abs f ctx d3 = (db_abs f ctx d)(src := None, dst \<mapsto> (f v, t))"
    using del(2) [of f ctx] d2(4) assms(5) by (simp add: fun_upd_twist)
  then show thesis using that [OF d1(1) d2(1), of d3] d3 del(1,3) db_grows_trans [OF d1(3) db_grows_trans [OF d2(3) del(3)]] by simp
qed

text \<open>The same with a target that may be there.\<close>

lemma rename_replace_ok:
  assumes "db_inv P e" "db_writable ctx" "db_keys e src = Some x" "src \<noteq> dst" "db_abs f ctx e src = Some (f x, t)"
  defines "e1 \<equiv> (if db_keys e dst \<noteq> None then snd (dbDelete dst e) else e)"
  obtains d1 d2 d3 where "dbAdd dst x e1 = Some d1" "(if getExpire src e \<noteq> -1 then setExpire ctx dst (getExpire src e) d1 else Some d1) = Some d2"
    "snd (dbDelete src d2) = d3" "db_inv P d3" "db_grows e d3" "db_abs f ctx d3 = (db_abs f ctx e)(src := None, dst \<mapsto> (f x, t))"
proof -
  obtain b g where g: "dbDelete dst e = (b, g)" by (cases "dbDelete dst e")
  note del = db_delete_inv [OF assms(1) g [unfolded dbDelete_def]]
  have "db_abs f ctx e dst = None" if "db_keys e dst = None" using that by (simp add: db_abs_def db_view_def)
  then have e1: "db_inv P e1" "db_keys e1 = (db_keys e)(dst := None)" "db_expires e1 src = db_expires e src" "db_grows e e1"
      "db_abs f ctx e1 = (db_abs f ctx e)(dst := None)"
    using del(1,3,5,6) del(2) [of f ctx] assms(1,4) g by (auto simp: e1_def fun_upd_idem)
  then have "db_keys e1 src = Some x" "db_keys e1 dst = None" "db_abs f ctx e1 src = Some (f x, t)" using assms(3-5) by simp_all
  from rename_move_ok [OF e1(1) assms(2) this(1,2) assms(4) this(3)] obtain d1 d2 d3 where
    d3: "dbAdd dst x e1 = Some d1" "(if getExpire src e1 \<noteq> -1 then setExpire ctx dst (getExpire src e1) d1 else Some d1) = Some d2"
      "snd (dbDelete src d2) = d3" "db_inv P d3" "db_grows e1 d3" "db_abs f ctx d3 = (db_abs f ctx e1)(src := None, dst \<mapsto> (f x, t))" by metis
  have exp: "getExpire src e1 = getExpire src e" using e1(3) by (simp add: getExpire_def)
  have "db_abs f ctx d3 = (db_abs f ctx e)(src := None, dst \<mapsto> (f x, t))" using d3(6) e1(5) assms(4) by (simp add: fun_upd_twist)
  from that [OF d3(1) d3(2) [unfolded exp] d3(3,4) db_grows_trans [OF e1(4) d3(5)] this] show thesis .
qed

lemma rename_ok:
  assumes "db_inv P db" "db_writable ctx"
  shows "\<exists>r db'. renameGenericCommand ctx nx src dst db = Some (r, db') \<and> spec_rename nx src dst (db_abs f ctx db) = (r, db_abs f ctx db')
    \<and> db_done P f ctx db db'"
proof -
  let ?K = "db_abs f ctx db"
  obtain v d where d: "lookupKeyWrite ctx src db = (v, d)" "db_inv P d" "db_done P f ctx db d" "db_abs f ctx d = ?K"
    "db_keys d src = v" "map_option f v = map_option fst (?K src)" using lookup_write_ok [OF assms, of src f] by metis
  obtain w e where e: "lookupKeyWrite ctx dst d = (w, e)" "db_inv P e" "db_done P f ctx d e" "db_abs f ctx e = ?K" "db_grows d e"
    "db_keys e dst = w" "map_option f w = map_option fst (?K dst)"
    using lookup_write_ok [OF d(2) assms(2), of dst f] d(4) by metis
  note done_e = db_done_trans [OF d(3) e(3)]
  consider "v = None \<or> src = dst" | x where "v = Some x" "src \<noteq> dst" by (cases v) auto
  then show ?thesis
  proof cases
    case 1
    then show ?thesis using d by (auto simp: renameGenericCommand_def spec_rename_def fun_upd_idem)
  next
    case (2 x)
    then obtain t where t: "?K src = Some (f x, t)" using d(6) by (cases "?K src") auto
    have t': "db_abs f ctx e src = Some (f x, t)" "db_abs f ctx d src = Some (f x, t)" using e(4) d(4) t by simp_all
    then have src: "db_keys e src = Some x" "getExpire src e = getExpire src d"
      using d(2,5) 2 lookupKeyWrite_ok(2) [OF _ e(1) assms(2)] by (auto simp: db_inv_def db_expired_def getExpire_def elim!: db_abs_SomeD)
    from rename_replace_ok [OF e(2) assms(2) src(1) 2(2) t'(1), unfolded e(4,6) src(2)] obtain d1 d2 d3 where
      d3: "dbAdd dst x (if w \<noteq> None then snd (dbDelete dst e) else e) = Some d1"
        "(if getExpire src d \<noteq> -1 then setExpire ctx dst (getExpire src d) d1 else Some d1) = Some d2"
        "snd (dbDelete src d2) = d3" "db_inv P d3" "db_grows e d3" "db_abs f ctx d3 = ?K(src := None, dst \<mapsto> (f x, t))" .
    define d4 where "d4 = add_dirty 1 (notifyKeyspaceEvent NOTIFY_GENERIC ''rename_to'' dst (notifyKeyspaceEvent NOTIFY_GENERIC ''rename_from'' src
        (signalModifiedKey dst (signalModifiedKey src d3))))"
    have "db_grows db d3" using done_e d3(5) db_grows_trans unfolding db_done_def by metis
    then have "dirty db < dirty d4" "db_signals db d4 src" "db_signals db d4 dst" "db_grows db d4" "db_inv P d4"
      using d3(4) by (auto simp: d4_def db_grows_def db_signals_def)
    then have done4: "db_done P f ctx db d4" using d3(6) by (auto simp: db_done_def d4_def)
    show ?thesis
    proof (cases "w \<noteq> None \<and> nx")
      case True
      then have "?K dst \<noteq> None" using e(7) by (cases "?K dst") auto
      then show ?thesis using d(1) e(1,4) 2 t True done_e by (auto simp: renameGenericCommand_def spec_rename_def)
    next
      case False
      have "renameGenericCommand ctx nx src dst db = Some (if nx then Rep_int 1 else Rep_ok, d4)"
        using d(1) e(1) 2 False d3(1-3) by (auto simp: renameGenericCommand_def d4_def Let_def)
      moreover have "spec_rename nx src dst ?K = (if nx then Rep_int 1 else Rep_ok, db_abs f ctx d4)"
        using t d3(6) False e(7) by (auto simp: spec_rename_def d4_def)
      ultimately show ?thesis using done4 by auto
    qed
  qed
qed

section \<open>Commands on expire times\<close>

lemma expire_allowed_eq:
  assumes "db_inv P db"
  shows "expire_allowed flags when (getExpire k db) \<longleftrightarrow> spec_expire_allowed flags when (db_expires db k)"
  using db_inv_expires [OF assms, of k]
  by (cases "db_expires db k") (auto simp: expire_allowed_def spec_expire_allowed_def getExpire_def)

lemma expire_when_eq:
  assumes "0 \<le> basetime"
  shows "expire_when basetime secs n =
    (let n = (if secs then n * 1000 else n) in
     if n < LLONG_MIN \<and> secs \<or> LLONG_MAX < n + basetime then None else Some (n + basetime))"
  using assms by (auto simp: expire_when_def Let_def)

lemma expire_apply_ok:
  assumes "db_inv P d" "is_master ctx" "db_keys d k = Some v" "db_abs f ctx d k = Some (f v, t)" "0 \<le> clock d"
  shows "\<exists>db'. expire_apply ctx k w d = Some (Rep_int 1, db') \<and>
    db_abs f ctx db' = (if w \<le> clock d then (db_abs f ctx d)(k := None) else (db_abs f ctx d)(k \<mapsto> (f v, Some w))) \<and> db_done P f ctx d db'"
proof (cases "w \<le> clock d")
  case True
  obtain b d1 where d1: "dbGenericDelete DB_FLAG_KEY_EXPIRED k d = (b, d1)" by (cases "dbGenericDelete DB_FLAG_KEY_EXPIRED k d")
  note del = db_delete_inv [OF assms(1) d1]
  let ?d = "notifyKeyspaceEvent NOTIFY_GENERIC ''del'' k (signalModifiedKey k (add_dirty 1 d1))"
  have "db_done P f ctx d ?d"
    by (rule db_done_key [where x = None]) (use del(1,3) del(2) [of f ctx] in \<open>auto simp: db_grows_def db_signals_def\<close>)
  then show ?thesis using True assms(2,3) d1 del(4) del(2) [of f ctx] by (simp add: expire_apply_def checkAlreadyExpired_def is_master_def)
next
  case False
  then have "0 \<le> w" "\<not> expired_at ctx (clock d) (Some w)" using assms(5) by (auto simp: expired_at_def)
  from set_expire_inv [OF assms(1,3) this, of f] obtain d1 where d1: "setExpire ctx k w d = Some d1" "db_inv P d1" "db_grows d d1"
    "db_abs f ctx d1 = (db_abs f ctx d)(k \<mapsto> (f v, Some w))" by metis
  let ?d = "add_dirty 1 (notifyKeyspaceEvent NOTIFY_GENERIC ''expire'' k (signalModifiedKey k d1))"
  have "db_done P f ctx d ?d"
    by (rule db_done_key [where x = "Some (f v, Some w)"]) (use d1 in \<open>auto simp: db_grows_def db_signals_def\<close>)
  then show ?thesis using False d1 by (simp add: expire_apply_def checkAlreadyExpired_def)
qed

lemma expire_key_ok:
  assumes "db_inv P db" "is_master ctx" "0 \<le> clock db"
  shows "\<exists>r db'. expire_key ctx flags k w db = Some (r, db') \<and>
    spec_expire_at (clock db) flags k w (db_abs f ctx db) = (r, db_abs f ctx db') \<and> db_done P f ctx db db'"
proof -
  let ?K = "db_abs f ctx db"
  obtain v d where d: "lookupKeyWrite ctx k db = (v, d)" "db_inv P d" "db_done P f ctx db d" "db_abs f ctx d = ?K"
    "db_keys d k = v" "map_option f v = map_option fst (?K k)" "db_grows db d" "\<forall>a t. ?K k = Some (a, t) \<longrightarrow> db_expires d k = t"
    using lookup_write_ok [OF assms(1) is_master_writable [OF assms(2)], of k f] .
  have clk: "clock d = clock db" using d(7) by (simp add: db_grows_def)
  show ?thesis
  proof (cases "?K k")
    case None
    then show ?thesis using d by (simp add: expire_key_def spec_expire_at_def)
  next
    case (Some at)
    then obtain x t where x: "v = Some x" "?K k = Some (f x, t)" using d(6) by (cases at) auto
    then have t: "db_expires d k = t" using d(8) by simp
    have allowed: "flags \<noteq> {} \<and> \<not> expire_allowed flags w (getExpire k d) \<longleftrightarrow> \<not> spec_expire_allowed flags w t"
      using expire_allowed_eq [OF d(2)] t by (auto simp: spec_expire_allowed_def)
    have "db_keys d k = Some x" "db_abs f ctx d k = Some (f x, t)" "0 \<le> clock d" using d(4,5) x clk assms(3) by simp_all
    from expire_apply_ok [OF d(2) assms(2) this, of w] obtain d1 where
      "expire_apply ctx k w d = Some (Rep_int 1, d1)" "db_done P f ctx d d1"
      "db_abs f ctx d1 = (if w \<le> clock db then ?K(k := None) else ?K(k \<mapsto> (f x, Some w)))" using clk d(4) by auto
    then show ?thesis using d(1,3,4) x db_done_trans [OF d(3)] unfolding expire_key_def spec_expire_at_def by (simp add: allowed)
  qed
qed

lemma expire_ok:
  assumes "db_inv P db" "is_master ctx" "0 \<le> clock db" "basetime \<in> {0, clock db}"
  shows "\<exists>r db'. expireGenericCommand ctx basetime secs k param args db = Some (r, db') \<and>
    spec_expire (clock db) basetime secs k param args (db_abs f ctx db) = (r, db_abs f ctx db') \<and> db_done P f ctx db db'"
proof -
  have refl: "db_done P f ctx db db" using assms(1) by (simp add: db_done_same)
  have base: "0 \<le> basetime" using assms(3,4) by auto
  show ?thesis
  proof (cases "parseExtendedExpireArgumentsOrReply args")
    case (Inr flags)
    show ?thesis
    proof (cases "string2ll param")
      case (Some n)
      have "LLONG_MIN \<le> n" using Some string2ll_iff [of param n] by simp
      then have "expireGenericCommand ctx basetime secs k param args db =
          (let n = (if secs then n * 1000 else n) in
           if n < LLONG_MIN \<or> LLONG_MAX < n + basetime then Some (Rep_err Err_expire_time, db) else expire_key ctx flags k (n + basetime) db)"
        using Inr Some by (simp add: expireGenericCommand_def getLongLongFromObjectOrReply_def expire_when_eq [OF base] Let_def)
      then show ?thesis using Some Inr refl expire_key_ok [OF assms(1-3), of flags k _ f] by (simp add: spec_expire_def Let_def)
    qed (use refl Inr in \<open>simp add: expireGenericCommand_def spec_expire_def getLongLongFromObjectOrReply_def\<close>)
  qed (use refl in \<open>simp add: expireGenericCommand_def spec_expire_def\<close>)
qed

lemma ttl_ok:
  assumes "db_inv P db" "is_master ctx" "0 \<le> clock db"
    "ms \<or> (case db_abs f ctx db k of Some (_, Some t) \<Rightarrow> (if at then t else t - clock db) + 500 \<le> LLONG_MAX | _ \<Rightarrow> True)"
  shows "\<exists>db'. ttlGenericCommand ctx ms at k db = Some (spec_ttl (clock db) ms at k (db_abs f ctx db), db') \<and>
    db_abs f ctx db' = db_abs f ctx db \<and> db_done P f ctx db db'"
proof -
  obtain v d where d: "lookupKey ctx {LOOKUP_NOTOUCH} k db = (v, d)" by (cases "lookupKey ctx {LOOKUP_NOTOUCH} k db")
  have ok: "db_ok db" using assms(1) by (simp add: db_inv_def)
  note l = lookupKey_ok(1,2) [OF ok d]
  note same = db_expired_same [OF assms(1) l(2)]
  have clk: "clock d = clock db" using same(2) by (simp add: db_grows_def)
  show ?thesis
  proof (cases "db_view ctx db k")
    case None
    then show ?thesis using d l(1) same(3,4) [of f] by (simp add: ttlGenericCommand_def spec_ttl_def db_abs_def)
  next
    case (Some vt)
    then obtain x t where x: "db_view ctx db k = Some (x, t)" by (cases vt) auto
    then have "db_view ctx d k = Some (x, t)" using l(2) by (simp add: db_expired_def)
    then have t: "db_expires d k = t" "\<not> expired_at ctx (clock db) t" using db_view_keys clk by (fastforce simp: db_hidden_eq)+
    have "0 \<le> w \<and> clock db \<le> w" if "t = Some w" for w
      using t that assms(2) db_inv_expires [OF same(1), of k w] by (auto simp: expired_at_def is_master_def)
    then show ?thesis using d l(1) same(3,4) [of f] x t(1) clk assms(3,4)
      by (cases t) (auto simp: ttlGenericCommand_def spec_ttl_def db_abs_def getExpire_def Let_def split: if_splits)
  qed
qed

lemma persist_ok:
  assumes "db_inv P db" "db_writable ctx"
  shows "\<exists>r db'. persistCommand ctx k db = (r, db') \<and> spec_persist k (db_abs f ctx db) = (r, db_abs f ctx db') \<and> db_done P f ctx db db'"
proof -
  let ?K = "db_abs f ctx db"
  obtain v d where d: "lookupKeyWrite ctx k db = (v, d)" "db_inv P d" "db_done P f ctx db d" "db_abs f ctx d = ?K"
    "db_keys d k = v" "map_option f v = map_option fst (?K k)" "db_grows db d" "\<forall>a t. ?K k = Some (a, t) \<longrightarrow> db_expires d k = t"
    using lookup_write_ok [OF assms, of k f] .
  obtain b d1 where d1: "removeExpire k d = (b, d1)" by (cases "removeExpire k d")
  have ok: "db_ok d" using d(2) by (simp add: db_inv_def)
  note r = removeExpire_ok [OF ok d1]
  show ?thesis
  proof (cases "?K k")
    case None
    then show ?thesis using d by (simp add: persistCommand_def spec_persist_def)
  next
    case (Some at)
    then obtain x t where x: "v = Some x" "?K k = Some (f x, t)" "db_expires d k = t" using d(6,8) by (cases at) auto
    then have view: "db_view ctx d k = Some (x, t)" "\<not> db_hidden ctx d k"
      using d(4,5) db_abs_SomeD [of f ctx d k "f x" t] db_view_keys [of ctx d k x t] by auto
    let ?d = "add_dirty 1 (notifyKeyspaceEvent NOTIFY_GENERIC ''persist'' k (signalModifiedKey k d1))"
    have abs: "db_abs f ctx d1 = ?K(k \<mapsto> (f x, None))" using db_abs_upd(1) [OF r(2) [OF view(2)], of f] view(1) d(4) by simp
    have "db_inv P d1" using d(2) r(1,5) by (simp add: db_inv_def)
    then have "db_done P f ctx d ?d"
      by (intro db_done_key [where x = "Some (f x, None)"]) (use r(3) abs d(4) in \<open>auto simp: db_grows_def db_signals_def\<close>)
    then show ?thesis using d(1,3,4) x d1 r(4) abs db_done_trans [OF d(3)] \<open>db_inv P d1\<close>
      by (cases t) (auto simp: persistCommand_def spec_persist_def removeExpire_def)
  qed
qed

end
