(* ===== verification/Redis_Set_Keys.thy ===== *)
theory Redis_Set_Keys
  imports Redis_Set_Cmds Redis_Set_Proofs Redis_Db_Spec
begin

text \<open>
  Set objects in the keyspace: what a function on an object does to the keyspace, and the commands that work on the elements of one
  or two sets (\<open>SADD\<close>, \<open>SREM\<close>, \<open>SMOVE\<close>, \<open>SISMEMBER\<close>, \<open>SMISMEMBER\<close>, \<open>SCARD\<close>).
\<close>

section \<open>The values of keys\<close>

datatype aobj = A_set "byte list set" | A_other obj_type

fun obj_abs :: "robj \<Rightarrow> aobj" where
  "obj_abs (Obj_set s) = A_set (set_members s)"
| "obj_abs (Obj_other ty) = A_other ty"

text \<open>No key has a set that is empty.\<close>

fun obj_ok :: "set_env \<Rightarrow> robj \<Rightarrow> bool" where
  "obj_ok env (Obj_set s) \<longleftrightarrow> set_inv env s \<and> set_members s \<noteq> {}"
| "obj_ok env (Obj_other ty) \<longleftrightarrow> True"

abbreviation (input) set_db_ok :: "set_env \<Rightarrow> setdb \<Rightarrow> bool" where
  "set_db_ok env \<equiv> db_inv (obj_ok env)"

abbreviation (input) keyspace :: "server_ctx \<Rightarrow> setdb \<Rightarrow> aobj keyspace" where
  "keyspace \<equiv> db_abs obj_abs"

abbreviation (input) set_db_done :: "set_env \<Rightarrow> server_ctx \<Rightarrow> setdb \<Rightarrow> setdb \<Rightarrow> bool" where
  "set_db_done env \<equiv> db_done (obj_ok env) obj_abs"

text \<open>A missing key is an empty set.\<close>

definition key_set :: "aobj keyspace \<Rightarrow> dbkey \<Rightarrow> byte list set" where
  "key_set K k = (case K k of Some (A_set A, _) \<Rightarrow> A | _ \<Rightarrow> {})"

definition bad_key :: "aobj keyspace \<Rightarrow> dbkey \<Rightarrow> bool" where
  "bad_key K k \<longleftrightarrow> (case K k of Some (A_other _, _) \<Rightarrow> True | _ \<Rightarrow> False)"

text \<open>A change of the set of a key, which keeps the expire time; a set that becomes empty is deleted.\<close>

definition key_put :: "aobj keyspace \<Rightarrow> dbkey \<Rightarrow> byte list set \<Rightarrow> aobj keyspace" where
  "key_put K k A = (if A = {} then K(k := None) else K(k \<mapsto> (A_set A, Option.bind (K k) snd)))"

lemma set_members_finite: "set_wf env s \<Longrightarrow> finite (set_members s)"
  using set_elems_exist [of env s] by (auto simp: set_elems_are_def)

section \<open>Objects behind keys\<close>

definition put_set :: "dbkey \<Rightarrow> setobj \<Rightarrow> setdb \<Rightarrow> setdb" where
  "put_set k s db = db\<lparr>db_keys := (db_keys db)(k \<mapsto> Obj_set s)\<rparr>"

lemma put_set_simps [simp]:
  "db_keys (put_set k s db) = (db_keys db)(k \<mapsto> Obj_set s)" "db_expires (put_set k s db) = db_expires db" "clock (put_set k s db) = clock db"
  "dirty (put_set k s db) = dirty db" "events (put_set k s db) = events db" "put_set k s (put_set k s' db) = put_set k s db"
  by (simp_all add: put_set_def)

lemma put_set_same: "db_keys db k = Some (Obj_set s) \<Longrightarrow> put_set k s db = db"
  by (simp add: put_set_def fun_upd_idem)

lemma put_set_grows [simp]: "db_grows db (put_set k s d) = db_grows db d"
  by (simp add: db_grows_def)

lemma put_set_signals [simp]: "db_signals db (put_set k s d) j = db_signals db d j"
  by (simp add: db_signals_def)

lemma put_set_inv:
  assumes "db_inv (obj_ok env) d" "db_ok d1" "\<forall>j. j \<noteq> k \<longrightarrow> db_keys d1 j = db_keys d j" "obj_ok env (Obj_set s)"
  shows "db_inv (obj_ok env) (put_set k s d1)"
  using assms by (auto simp: db_inv_def db_ok_def ran_def)

lemma put_set_abs:
  assumes "db_keys d k = Some u" "keyspace ctx d k = Some (a, t)"
  shows "keyspace ctx (put_set k s d) = (keyspace ctx d)(k \<mapsto> (A_set (set_members s), t))"
  using assms by (auto simp: db_abs_def db_view_eq fun_eq_iff split: if_splits)

lemma on_set_ok:
  assumes "db_keys db k = Some (Obj_set s)" "set_result env (f s) r A"
  obtains s' where "on_set db k f = Some (r, put_set k s' db)" "set_inv env s'" "set_members s' = A"
  using assms by (auto simp: on_set_def set_result_def put_set_def)

text \<open>A lookup for writing of a key that has no value of another type.\<close>

lemma write_set_cases:
  assumes "set_db_ok env db" "db_writable ctx"
  obtains (wrong) ty d where "lookupKeyWrite ctx k db = (Some (Obj_other ty), d)" "bad_key (keyspace ctx db) k"
      "set_db_done env ctx db d" "keyspace ctx d = keyspace ctx db"
  | (missing) d where "lookupKeyWrite ctx k db = (None, d)" "db_keys d k = None" "keyspace ctx db k = None"
      "set_db_ok env d" "set_db_done env ctx db d" "keyspace ctx d = keyspace ctx db"
  | (found) s t d where "lookupKeyWrite ctx k db = (Some (Obj_set s), d)" "db_keys d k = Some (Obj_set s)" "keyspace ctx db k = Some (A_set (set_members s), t)"
      "set_inv env s" "set_members s \<noteq> {}" "set_db_ok env d" "set_db_done env ctx db d" "keyspace ctx d = keyspace ctx db"
proof -
  obtain o' d where d: "lookupKeyWrite ctx k db = (o', d)" "set_db_ok env d" "set_db_done env ctx db d" "keyspace ctx d = keyspace ctx db"
    "db_keys d k = o'" "map_option obj_abs o' = map_option fst (keyspace ctx db k)" using lookup_write_ok [OF assms, of k obj_abs] by metis
  show thesis
  proof (cases o')
    case None
    then have "keyspace ctx db k = None" using d(6) by simp
    then show thesis using missing [of d] d None by simp
  next
    case (Some x)
    then obtain t where t: "keyspace ctx db k = Some (obj_abs x, t)" using d(6) by (cases "keyspace ctx db k") auto
    have "obj_ok env x" using d(2,5) Some by (auto simp: db_inv_def ran_def)
    then show thesis using found [where d = d] wrong [where d = d] d Some t by (cases x) (auto simp: bad_key_def)
  qed
qed

section \<open>Adding elements\<close>

lemma sadd_fold_ok:
  assumes "db_keys d k = Some (Obj_set s)" "set_inv env s" "set_env_ok env"
  shows "\<exists>s'. fold_opt (sadd_one env k) vals (n, d) = Some (n + int (card (set vals - set_members s)), put_set k s' d) \<and>
    set_inv env s' \<and> set_members s' = set_members s \<union> set vals"
  using assms(1,2)
proof (induction vals arbitrary: n d s)
  case Nil
  then show ?case by (intro exI [of _ s]) (simp add: put_set_same)
next
  case (Cons v vals)
  from setTypeAddAux_ok [OF Cons.prems(2) _ assms(3), of "El_str v"]
  have "set_result env (setTypeAdd env s v) (v \<notin> set_members s) (insert v (set_members s))" by (simp add: setTypeAdd_def)
  then obtain s1 where s1: "on_set d k (\<lambda>s. setTypeAdd env s v) = Some (v \<notin> set_members s, put_set k s1 d)" "set_inv env s1"
      "set_members s1 = insert v (set_members s)" by (rule on_set_ok [OF Cons.prems(1)])
  have key: "db_keys (put_set k s1 d) k = Some (Obj_set s1)" by simp
  let ?m = "if v \<notin> set_members s then n + 1 else n"
  obtain s' where s': "fold_opt (sadd_one env k) vals (?m, put_set k s1 d) = Some (?m + int (card (set vals - set_members s1)), put_set k s' d)"
    "set_inv env s'" "set_members s' = set_members s1 \<union> set vals" using Cons.IH [OF key s1(2), of ?m] by auto
  have "set (v # vals) - set_members s = (if v \<notin> set_members s then insert v else id) (set vals - set_members s1)" using s1(3) by auto
  then have "n + int (card (set (v # vals) - set_members s)) = ?m + int (card (set vals - set_members s1))" using s1(3) by simp
  moreover have "fold_opt (sadd_one env k) (v # vals) (n, d) = fold_opt (sadd_one env k) vals (?m, put_set k s1 d)"
    using s1(1) by (simp add: sadd_one_def)
  ultimately show ?case using s' s1(3) by auto
qed

definition spec_sadd :: "dbkey \<Rightarrow> byte list list \<Rightarrow> aobj keyspace \<Rightarrow> reply \<times> aobj keyspace" where
  "spec_sadd k vals K =
     (if bad_key K k then (Rep_err wrongtypeerr, K)
      else (Rep_int (int (card (set vals - key_set K k))), key_put K k (key_set K k \<union> set vals)))"

text \<open>The set that the elements are added to, new or converted.\<close>

lemma sadd_target_ok:
  assumes "set_db_ok env db" "db_writable ctx" "\<not> bad_key (keyspace ctx db) k" "vals \<noteq> []"
  obtains d0 o' s d t where "lookupKeyWrite ctx k db = (o', d0)" "\<not> wrong_type o'"
    "(case o' of
        None \<Rightarrow>
          (case vals of [] \<Rightarrow> None | val # _ \<Rightarrow> do { s \<leftarrow> setTypeCreate env val (length vals); dbAdd k (Obj_set s) d0 })
      | Some _ \<Rightarrow> map_option snd (on_set d0 k (\<lambda>s. map_option (Pair ()) (setTypeMaybeConvert env s (length vals))))) = Some d"
    "db_keys d k = Some (Obj_set s)" "set_inv env s" "set_members s = key_set (keyspace ctx db) k"
    "keyspace ctx d = (keyspace ctx db)(k \<mapsto> (A_set (set_members s), Option.bind (keyspace ctx db k) snd))"
    "set_db_ok env d0" "db_ok d" "\<forall>j. j \<noteq> k \<longrightarrow> db_keys d j = db_keys d0 j" "db_grows db d"
proof (cases rule: write_set_cases [OF assms(1,2), of k, case_names wrong missing found])
  case (missing d0)
  obtain v vs where vals: "vals = v # vs" using assms(4) by (cases vals) auto
  obtain s where s: "setTypeCreate env v (length vals) = Some s" "set_inv env s" "set_members s = {}" using setTypeCreate_ok by blast
  have "db_ok d0" using missing(4) by (simp add: db_inv_def)
  from dbAdd_ok [OF this missing(2), of "Obj_set s" ctx] obtain d where
    d: "dbAdd k (Obj_set s) d0 = Some d" "db_ok d" "db_view ctx d = (db_view ctx d0)(k \<mapsto> (Obj_set s, None))" "db_grows d0 d"
      "db_keys d = (db_keys d0)(k \<mapsto> Obj_set s)" by blast
  have "keyspace ctx d = (keyspace ctx db)(k \<mapsto> (A_set {}, None))" using db_abs_upd(1) [OF d(3), of obj_abs] s(3) missing(6) by simp
  moreover have "db_grows db d" using missing(5) d(4) db_grows_trans by (auto simp: db_done_def)
  ultimately show thesis using that [of None d0 d s] missing d s vals by (simp add: key_set_def)
next
  case (found s t d0)
  obtain s' where s': "setTypeMaybeConvert env s (length vals) = Some s'" "set_inv env s'" "set_members s' = set_members s"
    using setTypeMaybeConvert_ok [OF found(4)] by blast
  then have "on_set d0 k (\<lambda>s. map_option (Pair ()) (setTypeMaybeConvert env s (length vals))) = Some ((), put_set k s' d0)"
    using found(2) by (simp add: on_set_def put_set_def)
  moreover have "keyspace ctx (put_set k s' d0) = (keyspace ctx db)(k \<mapsto> (A_set (set_members s'), t))"
    using put_set_abs [OF found(2), of ctx _ t s'] found(3,8) by simp
  moreover have "db_ok (put_set k s' d0)" using found(2,6) by (auto simp: db_inv_def db_ok_def)
  moreover have "db_grows db d0" using found(7) by (simp add: db_done_def)
  ultimately show thesis using that [of "Some (Obj_set s)" d0 "put_set k s' d0" s'] found s' by (simp add: key_set_def)
qed (use assms(3) in auto)

lemma sadd_ok:
  assumes "set_db_ok env db" "db_writable ctx" "set_env_ok env" "vals \<noteq> []"
  shows "\<exists>r db'. saddCommand env ctx k vals db = Some (r, db') \<and> spec_sadd k vals (keyspace ctx db) = (r, keyspace ctx db') \<and> set_db_done env ctx db db'"
proof (cases "bad_key (keyspace ctx db) k")
  case True
  then show ?thesis
    by (cases rule: write_set_cases [OF assms(1,2), of k]) (auto simp: saddCommand_def spec_sadd_def bad_key_def)
next
  case False
  let ?K = "keyspace ctx db"
  obtain o' d0 d s where d: "lookupKeyWrite ctx k db = (o', d0)" "\<not> wrong_type o'"
    "(case o' of
        None \<Rightarrow>
          (case vals of [] \<Rightarrow> None | val # _ \<Rightarrow> do { s \<leftarrow> setTypeCreate env val (length vals); dbAdd k (Obj_set s) d0 })
      | Some _ \<Rightarrow> map_option snd (on_set d0 k (\<lambda>s. map_option (Pair ()) (setTypeMaybeConvert env s (length vals))))) = Some d"
    "db_keys d k = Some (Obj_set s)" "set_inv env s" "set_members s = key_set ?K k"
    "keyspace ctx d = ?K(k \<mapsto> (A_set (set_members s), Option.bind (?K k) snd))"
    "set_db_ok env d0" "db_ok d" "\<forall>j. j \<noteq> k \<longrightarrow> db_keys d j = db_keys d0 j" "db_grows db d"
    using sadd_target_ok [OF assms(1,2) False assms(4)] by metis
  define n where "n = int (card (set vals - set_members s))"
  obtain s' where s': "fold_opt (sadd_one env k) vals (0, d) = Some (n, put_set k s' d)" "set_inv env s'" "set_members s' = set_members s \<union> set vals"
    using sadd_fold_ok [OF d(4,5) assms(3), of vals 0] by (auto simp: n_def)
  let ?d1 = "put_set k s' d"
  let ?d2 = "if n \<noteq> 0 then notifyKeyspaceEvent NOTIFY_SET ''sadd'' k (signalModifiedKey k ?d1) else ?d1"
  have run: "saddCommand env ctx k vals db = Some (Rep_int n, add_dirty n ?d2)"
    using d(1-3) s'(1) by (simp add: saddCommand_def Let_def)
  have abs: "keyspace ctx ?d1 = key_put ?K k (key_set ?K k \<union> set vals)"
    using put_set_abs [OF d(4), of ctx "A_set (set_members s)" "Option.bind (?K k) snd" s'] d(6,7) s'(3) assms(4) by (simp add: key_put_def)
  have inv: "set_db_ok env ?d1" using put_set_inv [OF d(8-10)] s' assms(4) by simp
  have "set_db_done env ctx db (add_dirty n ?d2)"
  proof (cases "n = 0")
    case True
    then have "key_set ?K k \<union> set vals = key_set ?K k" using d(6) by (auto simp: n_def)
    then have "keyspace ctx ?d1 = ?K"
      using abs False assms(4) by (cases "?K k") (auto simp: key_put_def key_set_def bad_key_def fun_upd_idem split: aobj.splits if_splits)
    then show ?thesis using True inv d(11) by (intro db_done_same) auto
  next
    case n: False
    then have "0 < n" by (simp only: n_def of_nat_0_less_iff of_nat_eq_0_iff neq0_conv)
    then show ?thesis using n inv d(11) abs
      by (intro db_done_key [where k = k and x = "key_put ?K k (key_set ?K k \<union> set vals) k"])
        (auto simp: db_grows_def db_signals_def key_put_def fun_upd_idem)
  qed
  then show ?thesis using run abs d(6) False by (auto simp: spec_sadd_def n_def)
qed

section \<open>Removing elements\<close>

lemma dbDelete_put: "db_keys d k = Some u \<Longrightarrow> dbDelete k (put_set k s d) = dbDelete k d"
  by (simp add: dbDelete_def dbGenericDelete_def put_set_def db_event_def)

lemma setTypeRemove_ok: "set_inv env s \<Longrightarrow> set_result env (setTypeRemove env s v) (v \<in> set_members s) (set_members s - {v})"
  using setTypeRemoveAux_ok [of env s "El_str v"] by (simp add: setTypeRemove_def)

lemma srem_loop_ok:
  assumes "db_keys d k = Some (Obj_set s)" "set_inv env s" "set_members s \<noteq> {}"
  shows "\<exists>s'. srem_loop env k vals n d = Some (n + int (card (set_members s \<inter> set vals)), set_members s \<subseteq> set vals,
      if set_members s \<subseteq> set vals then snd (dbDelete k d) else put_set k s' d) \<and>
    set_inv env s' \<and> set_members s' = set_members s - set vals"
  using assms
proof (induction vals arbitrary: n d s)
  case Nil
  then show ?case by (intro exI [of _ s]) (simp add: put_set_same)
next
  case (Cons v vals)
  obtain s1 where s1: "on_set d k (\<lambda>s. setTypeRemove env s v) = Some (v \<in> set_members s, put_set k s1 d)" "set_inv env s1"
      "set_members s1 = set_members s - {v}" 
    by (rule on_set_ok [where f = "\<lambda>s. setTypeRemove env s v", OF Cons.prems(1) setTypeRemove_ok [OF Cons.prems(2)]])
  have key: "db_keys (put_set k s1 d) k = Some (Obj_set s1)" by simp
  obtain s2 where s2: "on_set (put_set k s1 d) k setTypeSize = Some (card (set_members s1), put_set k s2 d)" "set_inv env s2" "set_members s2 = set_members s1"
    using on_set_ok [where f = setTypeSize, OF key setTypeSize_result [OF s1(2)]] by auto
  have key2: "db_keys (put_set k s2 d) k = Some (Obj_set s2)" by simp
  have fin: "finite (set_members s1)" using set_members_finite set_inv_wf s1(2) by blast
  consider "v \<notin> set_members s" | "v \<in> set_members s" "set_members s1 = {}" | "v \<in> set_members s" "set_members s1 \<noteq> {}" by blast
  then show ?case
  proof cases
    case 1
    then have mem: "set_members s1 = set_members s" "set_members s \<inter> set (v # vals) = set_members s \<inter> set vals"
        "set_members s \<subseteq> set (v # vals) \<longleftrightarrow> set_members s \<subseteq> set vals" "set_members s - set (v # vals) = set_members s - set vals" using s1(3) by auto
    from Cons.IH [OF key s1(2), of n] Cons.prems(3) mem(1) s1(1) 1 dbDelete_put [OF Cons.prems(1)] show ?thesis
      unfolding mem(2-4) by (auto split: if_splits)
  next
    case 2
    then have mem: "set_members s = {v}" using s1(3) by blast
    then show ?thesis using 2 s1 s2 dbDelete_put [OF Cons.prems(1)] by (intro exI [of _ s1]) auto
  next
    case 3
    then have mem: "set_members s \<subseteq> set (v # vals) \<longleftrightarrow> set_members s2 \<subseteq> set vals" "set_members s - set (v # vals) = set_members s2 - set vals"
        "set_members s \<inter> set (v # vals) = insert v (set_members s2 \<inter> set vals)" "v \<notin> set_members s2" using s1(3) s2(3) by auto
    have "n + int (card (set_members s \<inter> set (v # vals))) = n + 1 + int (card (set_members s2 \<inter> set vals))" unfolding mem(3) using mem(4) by simp
    moreover have "srem_loop env k (v # vals) n d = srem_loop env k vals (n + 1) (put_set k s2 d)"
      using s1(1) s2(1) 3 fin by simp
    ultimately show ?thesis using Cons.IH [OF key2 s2(2), of "n + 1"] 3 s2(3) dbDelete_put [OF Cons.prems(1)]
      unfolding mem(1,2) by (auto split: if_splits)
  qed
qed

definition spec_srem :: "dbkey \<Rightarrow> byte list list \<Rightarrow> aobj keyspace \<Rightarrow> reply \<times> aobj keyspace" where
  "spec_srem k vals K =
     (if bad_key K k then (Rep_err wrongtypeerr, K)
      else (Rep_int (int (card (key_set K k \<inter> set vals))), key_put K k (key_set K k - set vals)))"

lemma srem_ok:
  assumes "set_db_ok env db" "db_writable ctx"
  shows "\<exists>r db'. sremCommand env ctx k vals db = Some (r, db') \<and> spec_srem k vals (keyspace ctx db) = (r, keyspace ctx db') \<and> set_db_done env ctx db db'"
proof (cases rule: write_set_cases [OF assms, of k, case_names wrong missing found])
  case (wrong ty d)
  then show ?thesis by (auto simp: sremCommand_def spec_srem_def)
next
  case (missing d)
  then show ?thesis by (auto simp: sremCommand_def spec_srem_def bad_key_def key_set_def key_put_def fun_upd_idem)
next
  case (found s t d)
  let ?K = "keyspace ctx db" and ?A = "set_members s"
  define n where "n = int (card (?A \<inter> set vals))"
  obtain s' where s': "srem_loop env k vals 0 d = Some (n, ?A \<subseteq> set vals, if ?A \<subseteq> set vals then snd (dbDelete k d) else put_set k s' d)"
    "set_inv env s'" "set_members s' = ?A - set vals" using srem_loop_ok [OF found(2,4,5), of vals 0] by (auto simp: n_def)
  define d1 where "d1 = (if ?A \<subseteq> set vals then snd (dbDelete k d) else put_set k s' d)"
  have K: "key_set ?K k = ?A" "\<not> bad_key ?K k" "?K k = Some (A_set ?A, t)" using found(3) by (simp_all add: key_set_def bad_key_def)
  obtain b d2 where d2: "dbDelete k d = (b, d2)" by (cases "dbDelete k d")
  note del = db_delete_inv [OF found(6) d2 [unfolded dbDelete_def]]
  have "set_db_ok env (put_set k s' d)" if "\<not> ?A \<subseteq> set vals"
    using put_set_inv [OF found(6), of d k s'] found(6) s' that by (auto simp: db_inv_def)
  moreover have "db_grows db d" using found(7) by (simp add: db_done_def)
  ultimately have d1: "set_db_ok env d1" "db_grows db d1" "keyspace ctx d1 = key_put ?K k (?A - set vals)"
    using del(1) del(2) [of obj_abs ctx] db_grows_trans [OF _ del(3)] put_set_abs [OF found(2), of ctx _ t s'] K found(8) s'(3) d2
    by (auto simp: d1_def key_put_def)
  define d3 where "d3 = (if n \<noteq> 0 then add_dirty n (let db = notifyKeyspaceEvent NOTIFY_SET ''srem'' k (signalModifiedKey k d1)
    in if ?A \<subseteq> set vals then notifyKeyspaceEvent NOTIFY_GENERIC ''del'' k db else db) else d1)"
  have run: "sremCommand env ctx k vals db = Some (Rep_int n, d3)"
    using found(1) s'(1) by (simp add: sremCommand_def d1_def d3_def Let_def)
  have "set_db_done env ctx db d3"
  proof (cases "n = 0")
    case True
    then have "?A - set vals = ?A" by (auto simp: n_def)
    then have "keyspace ctx d1 = ?K" using d1(3) K found(5) by (simp add: key_put_def fun_upd_idem)
    then show ?thesis using True d1 by (simp add: d3_def db_done_same)
  next
    case False
    then have "0 < n" by (simp only: n_def of_nat_0_less_iff of_nat_eq_0_iff neq0_conv)
    then show ?thesis using d1
      by (intro db_done_key [where k = k and x = "key_put ?K k (?A - set vals) k"])
        (auto simp: d3_def Let_def db_grows_def db_signals_def key_put_def fun_upd_idem)
  qed
  moreover have "keyspace ctx d3 = key_put ?K k (?A - set vals)" using d1(3) by (simp add: d3_def Let_def)
  ultimately show ?thesis using run K by (auto simp: spec_srem_def n_def)
qed

section \<open>Reading\<close>

text \<open>Reading a set may change how the set is represented, but nothing else.\<close>

definition db_reps :: "set_env \<Rightarrow> setdb \<Rightarrow> setdb \<Rightarrow> bool" where
  "db_reps env db db' \<longleftrightarrow> set_db_ok env db' \<and> db_expires db' = db_expires db \<and> clock db' = clock db \<and> dirty db' = dirty db \<and> events db' = events db \<and>
     (\<forall>k. map_option obj_abs (db_keys db' k) = map_option obj_abs (db_keys db k))"

lemma db_reps_refl: "set_db_ok env db \<Longrightarrow> db_reps env db db"
  by (simp add: db_reps_def)

lemma db_reps_trans [trans]: "db_reps env a b \<Longrightarrow> db_reps env b c \<Longrightarrow> db_reps env a c"
  by (simp add: db_reps_def)

lemma db_reps_done:
  assumes "db_reps env db db'"
  shows "keyspace ctx db' = keyspace ctx db" "set_db_done env ctx db db'" "set_db_ok env db'"
proof -
  have "map_option (\<lambda>v. (obj_abs v, t)) (db_keys db' k) = map_option (\<lambda>v. (obj_abs v, t)) (db_keys db k)" for k t
  proof -
    have "map_option obj_abs (db_keys db' k) = map_option obj_abs (db_keys db k)" using assms by (simp add: db_reps_def)
    then show ?thesis by (cases "db_keys db' k"; cases "db_keys db k") auto
  qed
  then show abs: "keyspace ctx db' = keyspace ctx db"
    using assms by (auto simp: db_abs_def db_view_eq db_reps_def fun_eq_iff option.map_comp comp_def)
  show "set_db_ok env db'" using assms by (simp add: db_reps_def)
  then show "set_db_done env ctx db db'" using abs assms by (intro db_done_same) (auto simp: db_reps_def db_grows_def)
qed

definition is_set :: "setdb \<Rightarrow> dbkey \<Rightarrow> bool" where
  "is_set db k \<longleftrightarrow> (\<exists>s. db_keys db k = Some (Obj_set s))"

definition elems_of :: "setdb \<Rightarrow> dbkey \<Rightarrow> byte list set" where
  "elems_of db k = (case db_keys db k of Some (Obj_set s) \<Rightarrow> set_members s | _ \<Rightarrow> {})"

lemma obj_abs_eq [simp]: "obj_abs v = A_set A \<longleftrightarrow> (\<exists>s. v = Obj_set s \<and> set_members s = A)" "A_set A = obj_abs v \<longleftrightarrow> (\<exists>s. v = Obj_set s \<and> set_members s = A)"
  "obj_abs v = A_other ty \<longleftrightarrow> v = Obj_other ty" "A_other ty = obj_abs v \<longleftrightarrow> v = Obj_other ty"
  by (cases v; auto)+

lemma db_reps_sets:
  assumes "db_reps env db db'"
  shows "is_set db' = is_set db" "elems_of db' = elems_of db"
proof -
  have "is_set db' k = is_set db k \<and> elems_of db' k = elems_of db k" for k
  proof -
    have "map_option obj_abs (db_keys db' k) = map_option obj_abs (db_keys db k)" using assms by (simp add: db_reps_def)
    then show ?thesis
      by (cases "db_keys db' k"; cases "db_keys db k") (auto simp: is_set_def elems_of_def split: robj.splits)
  qed
  then show "is_set db' = is_set db" "elems_of db' = elems_of db" by auto
qed

lemma on_set_read:
  assumes "set_db_ok env db" "is_set db k" "\<And>s. set_inv env s \<Longrightarrow> set_members s = elems_of db k \<Longrightarrow> set_result env (f s) r (set_members s)"
  obtains db' where "on_set db k f = Some (r, db')" "db_reps env db db'" "\<forall>j. j \<noteq> k \<longrightarrow> db_keys db' j = db_keys db j"
proof -
  obtain s where s: "db_keys db k = Some (Obj_set s)" using assms(2) by (auto simp: is_set_def)
  then have ok: "set_inv env s" "set_members s \<noteq> {}" "elems_of db k = set_members s"
    using assms(1) by (auto simp: db_inv_def ran_def elems_of_def dest: spec [where x = "Obj_set s"])
  obtain s' where s': "on_set db k f = Some (r, put_set k s' db)" "set_inv env s'" "set_members s' = set_members s"
    by (rule on_set_ok [where f = f and r = r and A = "set_members s", OF s assms(3)]) (use ok in auto)
  have "db_ok db" using assms(1) by (simp add: db_inv_def)
  then have "set_db_ok env (put_set k s' db)" using put_set_inv [OF assms(1), of db k s'] s' ok(2) by simp
  then have "db_reps env db (put_set k s' db)" using s s'(3) by (auto simp: db_reps_def)
  then show thesis using that s'(1) by simp
qed

text \<open>Lookups for reading.\<close>

lemma read_set_cases:
  assumes "set_db_ok env db"
  obtains (wrong) ty d where "lookupKeyRead ctx k db = (Some (Obj_other ty), d)" "bad_key (keyspace ctx db) k"
      "set_db_ok env d" "set_db_done env ctx db d" "keyspace ctx d = keyspace ctx db"
  | (missing) d where "lookupKeyRead ctx k db = (None, d)" "keyspace ctx db k = None"
      "set_db_ok env d" "set_db_done env ctx db d" "keyspace ctx d = keyspace ctx db"
  | (found) s d where "lookupKeyRead ctx k db = (Some (Obj_set s), d)" "is_set d k" "keyspace ctx db k \<noteq> None" "\<not> bad_key (keyspace ctx db) k"
      "key_set (keyspace ctx db) k = elems_of d k" "set_db_ok env d" "set_db_done env ctx db d" "keyspace ctx d = keyspace ctx db"
proof -
  obtain o' d where d: "lookupKeyRead ctx k db = (o', d)" by (cases "lookupKeyRead ctx k db")
  have ok: "db_ok db" using assms by (simp add: db_inv_def)
  note l = lookupKeyRead_ok [OF ok d]
  note same = db_expired_same(1) [OF assms l(2)] db_expired_same(3,4) [OF assms l(2), where f = obj_abs]
  show thesis
  proof (cases "db_view ctx db k")
    case None
    then show thesis using missing [of d] d l(1) same by (simp add: db_abs_None)
  next
    case (Some vt)
    then obtain v t where v: "db_view ctx db k = Some (v, t)" by (cases vt) auto
    then have "db_view ctx d k = Some (v, t)" using l(2) by (simp add: db_expired_def)
    then have "db_keys d k = Some v" using db_view_keys [of ctx d k v t] by simp
    moreover have "keyspace ctx db k = Some (obj_abs v, t)" using v by (simp add: db_abs_def)
    moreover have "o' = Some v" using v l(1) by simp
    ultimately show thesis using wrong [where d = d] found [where d = d] d same
      by (cases v) (auto simp: bad_key_def key_set_def is_set_def elems_of_def)
  qed
qed

lemma setTypeIsMember_ok: "set_inv env s \<Longrightarrow> set_result env (setTypeIsMember env s v) (v \<in> set_members s) (set_members s)"
  using setTypeIsMemberAux_ok [of env s "El_str v"] by (simp add: setTypeIsMember_def)

definition spec_sismember :: "dbkey \<Rightarrow> byte list \<Rightarrow> aobj keyspace \<Rightarrow> reply" where
  "spec_sismember k v K = (if bad_key K k then Rep_err wrongtypeerr else Rep_int (if v \<in> key_set K k then 1 else 0))"

definition spec_smismember :: "dbkey \<Rightarrow> byte list list \<Rightarrow> aobj keyspace \<Rightarrow> reply" where
  "spec_smismember k vs K =
     (if bad_key K k then Rep_err wrongtypeerr else Rep_array (length vs) (map (\<lambda>v. if v \<in> key_set K k then 1 else 0) vs))"

definition spec_scard :: "dbkey \<Rightarrow> aobj keyspace \<Rightarrow> reply" where
  "spec_scard k K = (if bad_key K k then Rep_err wrongtypeerr else Rep_int (int (card (key_set K k))))"

lemma member_read:
  assumes "set_db_ok env d" "is_set d k"
  obtains d' where "on_set d k (\<lambda>s. setTypeIsMember env s v) = Some (v \<in> elems_of d k, d')" "db_reps env d d'"
  by (rule on_set_read [where f = "\<lambda>s. setTypeIsMember env s v" and r = "v \<in> elems_of d k", OF assms])
    (use setTypeIsMember_ok in \<open>force+\<close>)

lemma sismember_ok:
  assumes "set_db_ok env db"
  shows "\<exists>db'. sismemberCommand env ctx k v db = Some (spec_sismember k v (keyspace ctx db), db') \<and> keyspace ctx db' = keyspace ctx db \<and> set_db_done env ctx db db'"
proof (cases rule: read_set_cases [OF assms, of ctx k, case_names wrong missing found])
  case (missing d)
  then show ?thesis by (simp add: sismemberCommand_def spec_sismember_def bad_key_def key_set_def)
next
  case (found s d)
  obtain d' where d': "on_set d k (\<lambda>s. setTypeIsMember env s v) = Some (v \<in> elems_of d k, d')" "db_reps env d d'" using member_read [OF found(6,2)] .
  show ?thesis using found d'(1) db_reps_done(1,2) [OF d'(2), of ctx] db_done_trans [OF found(7)]
    by (simp add: sismemberCommand_def spec_sismember_def)
qed (simp add: sismemberCommand_def spec_sismember_def)

lemma scard_ok:
  assumes "set_db_ok env db"
  shows "\<exists>db'. scardCommand ctx k db = Some (spec_scard k (keyspace ctx db), db') \<and> keyspace ctx db' = keyspace ctx db \<and> set_db_done env ctx db db'"
proof (cases rule: read_set_cases [OF assms, of ctx k, case_names wrong missing found])
  case (missing d)
  then show ?thesis by (simp add: scardCommand_def spec_scard_def bad_key_def key_set_def)
next
  case (found s d)
  obtain d' where d': "on_set d k setTypeSize = Some (card (elems_of d k), d')" "db_reps env d d'"
    by (rule on_set_read [where f = setTypeSize and r = "card (elems_of d k)", OF found(6,2)]) (use setTypeSize_result in \<open>force+\<close>)
  show ?thesis using found d'(1) db_reps_done(1,2) [OF d'(2), of ctx] db_done_trans [OF found(7)]
    by (simp add: scardCommand_def spec_scard_def)
qed (simp add: scardCommand_def spec_scard_def)

lemma smismember_fold_ok:
  assumes "set_db_ok env d" "found \<Longrightarrow> is_set d k"
  shows "\<exists>d'. fold_opt (smismember_one env k found) vs (rs, d) =
      Some (rs @ map (\<lambda>v. if found \<and> v \<in> elems_of d k then 1 else 0) vs, d') \<and> db_reps env d d'"
  using assms
proof (induction vs arbitrary: rs d)
  case Nil
  then show ?case by (simp add: db_reps_refl)
next
  case (Cons v vs)
  obtain d1 where d1: "smismember_one env k found v (rs, d) = Some (rs @ [if found \<and> v \<in> elems_of d k then 1 else 0], d1)" "db_reps env d d1"
  proof (cases found)
    case True
    then obtain d1 where "on_set d k (\<lambda>s. setTypeIsMember env s v) = Some (v \<in> elems_of d k, d1)" "db_reps env d d1"
      using member_read [OF Cons.prems(1)] Cons.prems(2) by metis
    then show thesis using that [of d1] True by (simp add: smismember_one_def)
  qed (use that [of d] Cons.prems db_reps_refl in \<open>simp add: smismember_one_def\<close>)
  have "set_db_ok env d1" "found \<Longrightarrow> is_set d1 k" using db_reps_done(3) [OF d1(2)] db_reps_sets [OF d1(2)] Cons.prems(2) by simp_all
  from Cons.IH [OF this] obtain d2 where "fold_opt (smismember_one env k found) vs (rs @ [if found \<and> v \<in> elems_of d k then 1 else 0], d1) =
      Some ((rs @ [if found \<and> v \<in> elems_of d k then 1 else 0]) @ map (\<lambda>v. if found \<and> v \<in> elems_of d k then 1 else 0) vs, d2)" "db_reps env d1 d2"
    unfolding db_reps_sets [OF d1(2)] by blast
  then show ?case using d1 db_reps_trans by auto
qed

lemma smismember_ok:
  assumes "set_db_ok env db"
  shows "\<exists>db'. smismemberCommand env ctx k vs db = Some (spec_smismember k vs (keyspace ctx db), db') \<and> keyspace ctx db' = keyspace ctx db \<and> set_db_done env ctx db db'"
proof (cases rule: read_set_cases [OF assms, of ctx k, case_names wrong missing found])
  case (missing d)
  obtain d' where d': "fold_opt (smismember_one env k False) vs ([], d) = Some (map (\<lambda>v. 0) vs, d')" "db_reps env d d'"
    using smismember_fold_ok [OF missing(3), of False k vs "[]"] by auto
  then show ?thesis using missing db_reps_done(1,2) [OF d'(2), of ctx] db_done_trans [OF missing(4)]
    by (simp add: smismemberCommand_def spec_smismember_def bad_key_def key_set_def)
next
  case (found s d)
  obtain d' where d': "fold_opt (smismember_one env k True) vs ([], d) = Some (map (\<lambda>v. if v \<in> elems_of d k then 1 else 0) vs, d')" "db_reps env d d'"
    using smismember_fold_ok [OF found(6), of True k vs "[]"] found(2) by auto
  then show ?thesis using found db_reps_done(1,2) [OF d'(2), of ctx] db_done_trans [OF found(7)]
    by (simp add: smismemberCommand_def spec_smismember_def)
qed (simp add: smismemberCommand_def spec_smismember_def)

section \<open>Moving an element\<close>

definition spec_smove :: "dbkey \<Rightarrow> dbkey \<Rightarrow> byte list \<Rightarrow> aobj keyspace \<Rightarrow> reply \<times> aobj keyspace" where
  "spec_smove src dst v K =
     (if K src = None then (Rep_int 0, K)
      else if bad_key K src \<or> bad_key K dst then (Rep_err wrongtypeerr, K)
      else if v \<notin> key_set K src then (Rep_int 0, K)
      else if src = dst then (Rep_int 1, K)
      else (Rep_int 1, key_put (key_put K src (key_set K src - {v})) dst (insert v (key_set K dst))))"

lemma put_set_event: "db_event ev (put_set k s d) = put_set k s (db_event ev d)"
  by (simp add: put_set_def db_event_def)

lemma smove_from_ok:
  assumes "set_db_ok env d" "db_keys d src = Some (Obj_set s0)" "keyspace ctx d src = Some (A_set A, t)" "set_inv env s"
  shows "\<exists>d'. smove_from src (put_set src s d) = Some d' \<and> set_db_ok env d' \<and> keyspace ctx d' = key_put (keyspace ctx d) src (set_members s) \<and>
    db_grows d d' \<and> (\<forall>j. j \<noteq> src \<longrightarrow> db_keys d' j = db_keys d j)"
proof -
  let ?d = "db_event (Ev_notify NOTIFY_SET ''srem'' src) d"
  have ok: "db_ok ?d" using assms(1) by (simp add: db_inv_def)
  have "db_keys (put_set src s ?d) src = Some (Obj_set s)" by simp
  then obtain s' where s': "on_set (put_set src s ?d) src setTypeSize = Some (card (set_members s), put_set src s' ?d)" "set_inv env s'" "set_members s' = set_members s"
    using on_set_ok [where f = setTypeSize, OF _ setTypeSize_result [OF assms(4)]] by (metis put_set_simps(6))
  have fin: "card (set_members s) = 0 \<longleftrightarrow> set_members s = {}" using set_members_finite [OF set_inv_wf [OF assms(4)]] by simp
  show ?thesis
  proof (cases "set_members s = {}")
    case True
    obtain b d' where d': "dbDelete src ?d = (b, d')" by (cases "dbDelete src ?d")
    have inv: "set_db_ok env ?d" using assms(1) by simp
    note del = db_delete_inv [OF inv d' [unfolded dbDelete_def]]
    have "dbDelete src (put_set src s' ?d) = (b, d')" using d' dbDelete_put [of ?d src] assms(2) by simp
    then have "smove_from src (put_set src s d) = Some (notifyKeyspaceEvent NOTIFY_GENERIC ''del'' src d')"
      using s'(1) fin True by (simp add: smove_from_def put_set_event)
    moreover have "db_grows d d'" using del(3) by (auto simp: db_grows_def)
    ultimately show ?thesis using del(1,5) del(2) [of obj_abs ctx] True by (simp add: key_put_def)
  next
    case False
    then have "smove_from src (put_set src s d) = Some (put_set src s' ?d)" using s'(1) fin by (simp add: smove_from_def put_set_event)
    moreover have "set_db_ok env (put_set src s' ?d)" using put_set_inv [OF assms(1) ok, of src s'] s' False by simp
    moreover have "keyspace ctx (put_set src s' ?d) = key_put (keyspace ctx d) src (set_members s)"
      using put_set_abs [of ?d src "Obj_set s0" ctx "A_set A" t s'] assms(2,3) s'(3) False by (simp add: key_put_def)
    ultimately show ?thesis by simp
  qed
qed

lemma smove_to_ok:
  assumes "set_db_ok env d" "set_env_ok env" "db_keys d dst = None \<or> is_set d dst"
    "key_set (keyspace ctx d) dst = elems_of d dst" "keyspace ctx d dst = None \<longleftrightarrow> db_keys d dst = None" "\<not> bad_key (keyspace ctx d) dst"
  shows "\<exists>d'. smove_to env src dst (db_keys d dst = None) v d = Some (Rep_int 1, d') \<and> set_db_ok env d' \<and>
    keyspace ctx d' = key_put (keyspace ctx d) dst (insert v (elems_of d dst)) \<and> db_grows d d' \<and> dirty d < dirty d' \<and> db_signals d d' src \<and>
    (v \<notin> elems_of d dst \<longrightarrow> db_signals d d' dst)"
proof -
  let ?K = "keyspace ctx d"
  have ok: "db_ok d" using assms(1) by (simp add: db_inv_def)
  obtain s d1 t where d1: "(if db_keys d dst = None then do { s \<leftarrow> setTypeCreate env v 1; dbAdd dst (Obj_set s) d } else Some d) = Some d1"
    "db_keys d1 dst = Some (Obj_set s)" "set_inv env s" "set_members s = elems_of d dst" "db_ok d1" "db_grows d d1"
    "\<forall>j. j \<noteq> dst \<longrightarrow> db_keys d1 j = db_keys d j" "keyspace ctx d1 = ?K(dst \<mapsto> (A_set (elems_of d dst), Option.bind (?K dst) snd))"
  proof (cases "db_keys d dst")
    case None
    obtain s where s: "setTypeCreate env v 1 = Some s" "set_inv env s" "set_members s = {}" using setTypeCreate_ok by blast
    from dbAdd_ok [OF ok None, of "Obj_set s" ctx] obtain d1 where d1: "dbAdd dst (Obj_set s) d = Some d1" "db_ok d1"
      "db_view ctx d1 = (db_view ctx d)(dst \<mapsto> (Obj_set s, None))" "db_grows d d1" "db_keys d1 = (db_keys d)(dst \<mapsto> Obj_set s)" by blast
    have "keyspace ctx d1 = ?K(dst \<mapsto> (A_set {}, None))" using db_abs_upd(1) [OF d1(3), of obj_abs] s(3) by simp
    then show thesis using that [of d1 s] None s d1 assms(5) by (simp add: elems_of_def)
  next
    case (Some x)
    then obtain s where s: "x = Obj_set s" using assms(3) by (auto simp: is_set_def)
    then have "set_inv env s" using assms(1) Some by (auto simp: db_inv_def ran_def dest: spec [where x = x])
    moreover have "?K = ?K(dst \<mapsto> (A_set (elems_of d dst), Option.bind (?K dst) snd))"
      using assms(4-6) Some by (cases "?K dst") (auto simp: key_set_def bad_key_def fun_upd_idem split: aobj.splits)
    ultimately show thesis using that [of d s] Some s ok by (simp add: elems_of_def)
  qed
  let ?d = "add_dirty 1 (signalModifiedKey src d1)"
  from setTypeAddAux_ok [OF d1(3) _ assms(2), of "El_str v"]
  have "set_result env (setTypeAdd env s v) (v \<notin> elems_of d dst) (insert v (elems_of d dst))" using d1(4) by (simp add: setTypeAdd_def)
  then obtain s' where s': "on_set ?d dst (\<lambda>s. setTypeAdd env s v) = Some (v \<notin> elems_of d dst, put_set dst s' ?d)" "set_inv env s'"
      "set_members s' = insert v (elems_of d dst)" using on_set_ok [of ?d dst s env "\<lambda>s. setTypeAdd env s v"] d1(2) by auto
  define d2 where "d2 = (if v \<notin> elems_of d dst then notifyKeyspaceEvent NOTIFY_SET ''sadd'' dst (signalModifiedKey dst (add_dirty 1 (put_set dst s' ?d)))
    else put_set dst s' ?d)"
  have run: "smove_to env src dst (db_keys d dst = None) v d = Some (Rep_int 1, d2)"
    using d1(1) s'(1) unfolding smove_to_def d2_def by (simp add: Let_def)
  have "set_db_ok env (put_set dst s' ?d)" using put_set_inv [OF assms(1), of ?d dst s'] d1(5,7) s' by simp
  moreover have "keyspace ctx (put_set dst s' ?d) = key_put ?K dst (insert v (elems_of d dst))"
    using put_set_abs [of ?d dst "Obj_set s" ctx "A_set (elems_of d dst)" "Option.bind (?K dst) snd" s'] d1(2,8) s'(3) by (simp add: key_put_def)
  moreover have "db_grows d ?d" "dirty d < dirty ?d" "db_signals d ?d src" using d1(6) by (auto simp: db_grows_def db_signals_def)
  ultimately show ?thesis using run by (auto simp: d2_def)
qed

text \<open>A second lookup leaves the object of a key that was found in its place.\<close>

lemma lookup_write_keeps:
  assumes "db_inv P d" "db_writable ctx" "lookupKeyWrite ctx j d = (o', e)" "db_abs f ctx d k \<noteq> None"
  shows "db_keys e k = db_keys d k"
proof -
  have "db_ok d" using assms(1) by (simp add: db_inv_def)
  note l = lookupKeyWrite_ok(2) [OF this assms(3,2)]
  have "\<not> db_hidden ctx d k" using assms(4) by (auto simp: db_abs_def db_view_def split: if_splits)
  then show ?thesis using l by (cases "k = j") (auto simp: db_expired_def)
qed

lemma smove_found_ok:
  assumes "set_db_ok env e" "db_writable ctx" "set_env_ok env" "db_keys e src = Some (Obj_set s)" "keyspace ctx e src = Some (A_set (set_members s), t)"
    "src \<noteq> dst" "db_keys e dst = None \<or> is_set e dst"
    "key_set (keyspace ctx e) dst = elems_of e dst" "keyspace ctx e dst = None \<longleftrightarrow> db_keys e dst = None" "\<not> bad_key (keyspace ctx e) dst"
  shows "\<exists>r d'. do {
      (removed, db) \<leftarrow> on_set e src (\<lambda>s. setTypeRemove env s v);
      if \<not> removed then Some (Rep_int 0, db)
      else do { db \<leftarrow> smove_from src db; smove_to env src dst (db_keys e dst = None) v db }
    } = Some (r, d') \<and> spec_smove src dst v (keyspace ctx e) = (r, keyspace ctx d') \<and> set_db_done env ctx e d'"
proof -
  let ?K = "keyspace ctx e" and ?A = "set_members s"
  have ok: "db_ok e" and inv: "set_inv env s" "?A \<noteq> {}"
    using assms(1,4) by (auto simp: db_inv_def ran_def dest: spec [where x = "Obj_set s"])
  obtain s1 where s1: "on_set e src (\<lambda>s. setTypeRemove env s v) = Some (v \<in> ?A, put_set src s1 e)" "set_inv env s1" "set_members s1 = ?A - {v}"
    by (rule on_set_ok [where f = "\<lambda>s. setTypeRemove env s v", OF assms(4) setTypeRemove_ok [OF inv(1)]])
  have K: "key_set ?K src = ?A" "\<not> bad_key ?K src" using assms(5) by (simp_all add: key_set_def bad_key_def)
  show ?thesis
  proof (cases "v \<in> ?A")
    case False
    then have "set_members s1 = ?A" using s1(3) by auto
    then have "set_db_ok env (put_set src s1 e)" "keyspace ctx (put_set src s1 e) = ?K"
      using put_set_inv [OF assms(1) ok, of src s1] put_set_abs [OF assms(4,5), of s1] s1(2) inv(2) assms(5) by (simp_all add: fun_upd_idem)
    then show ?thesis using s1(1) False K assms(5,10) by (simp add: spec_smove_def db_done_same)
  next
    case True
    obtain d1 where d1: "smove_from src (put_set src s1 e) = Some d1" "set_db_ok env d1" "keyspace ctx d1 = key_put ?K src (?A - {v})" "db_grows e d1"
      "\<forall>j. j \<noteq> src \<longrightarrow> db_keys d1 j = db_keys e j" using smove_from_ok [OF assms(1,4,5) s1(2)] s1(3) by auto
    have dst: "keyspace ctx d1 dst = ?K dst" "db_keys d1 dst = db_keys e dst" "elems_of d1 dst = elems_of e dst" "is_set d1 dst = is_set e dst"
      using d1(3,5) assms(6) by (auto simp: key_put_def elems_of_def is_set_def)
    then have dst': "key_set (keyspace ctx d1) dst = elems_of d1 dst" "keyspace ctx d1 dst = None \<longleftrightarrow> db_keys d1 dst = None" "\<not> bad_key (keyspace ctx d1) dst"
        "db_keys d1 dst = None \<or> is_set d1 dst"
      using assms(7-10) by (simp_all add: key_set_def bad_key_def)
    from smove_to_ok [OF d1(2) assms(3) dst'(4) dst'(1-3), of src v] obtain d2 where
      d2: "smove_to env src dst (db_keys e dst = None) v d1 = Some (Rep_int 1, d2)" "set_db_ok env d2"
        "keyspace ctx d2 = key_put (key_put ?K src (?A - {v})) dst (insert v (elems_of e dst))" "db_grows d1 d2" "dirty d1 < dirty d2" "db_signals d1 d2 src"
        "v \<notin> elems_of e dst \<longrightarrow> db_signals d1 d2 dst" unfolding dst d1(3) by auto
    have "keyspace ctx d2 j = ?K j" if "j \<noteq> src" "j \<noteq> dst \<or> v \<in> elems_of e dst" for j
      using that d2(3) assms(6,8,9,10)
      by (cases "?K dst") (auto simp: key_put_def key_set_def bad_key_def insert_absorb split: aobj.splits)
    then have "set_db_done env ctx e d2" using d2(2,5-7) d1(4) d2(4) db_grows_trans [OF d1(4) d2(4)] db_signals_grows(1) [OF d1(4)]
      unfolding db_done_def by (metis db_grows_def order_le_less_trans)
    then show ?thesis using s1(1) True d1(1) d2(1,3) K assms(5,6,8,10) by (simp add: spec_smove_def)
  qed
qed

lemma looked_up:
  assumes "map_option obj_abs o' = map_option fst (K k)"
  shows "wrong_type o' \<longleftrightarrow> bad_key K k" "o' = None \<longleftrightarrow> K k = None"
  using assms by (cases o' rule: wrong_type.cases; cases "K k"; auto simp: bad_key_def)+

lemma smove_ok:
  assumes "set_db_ok env db" "db_writable ctx" "set_env_ok env"
  shows "\<exists>r db'. smoveCommand env ctx src dst v db = Some (r, db') \<and> spec_smove src dst v (keyspace ctx db) = (r, keyspace ctx db') \<and> set_db_done env ctx db db'"
proof -
  let ?K = "keyspace ctx db"
  obtain v1 d where d: "lookupKeyWrite ctx src db = (v1, d)" "set_db_ok env d" "set_db_done env ctx db d" "keyspace ctx d = ?K"
    "db_keys d src = v1" "map_option obj_abs v1 = map_option fst (?K src)" using lookup_write_ok [OF assms(1,2), of src obj_abs] by metis
  obtain v2 e where e: "lookupKeyWrite ctx dst d = (v2, e)" "set_db_ok env e" "set_db_done env ctx d e" "keyspace ctx e = ?K"
    "db_keys e dst = v2" "map_option obj_abs v2 = map_option fst (?K dst)" using lookup_write_ok [OF d(2) assms(2), of dst obj_abs] d(4) by metis
  note done_e = db_done_trans [OF d(3) e(3)]
  have bad: "wrong_type v1 \<longleftrightarrow> bad_key ?K src" "wrong_type v2 \<longleftrightarrow> bad_key ?K dst" "v1 = None \<longleftrightarrow> ?K src = None" "v2 = None \<longleftrightarrow> ?K dst = None"
    using looked_up [of v1 ?K src] looked_up [of v2 ?K dst] d(6) e(6) by simp_all
  consider "v1 = None \<or> wrong_type v1 \<or> wrong_type v2" | s t where "v1 = Some (Obj_set s)" "?K src = Some (A_set (set_members s), t)" "\<not> wrong_type v2"
    using d(6) by (cases "wrong_type v2"; cases v1 rule: wrong_type.cases; cases "?K src") auto
  then show ?thesis
  proof cases
    case 1
    then show ?thesis using d(1) e(1,4) bad done_e by (cases "v1 = None") (auto simp: smoveCommand_def spec_smove_def)
  next
    case (2 s t)
    then have src: "db_keys e src = Some (Obj_set s)" using lookup_write_keeps [OF d(2) assms(2) e(1), of obj_abs src] d(4,5) by simp
    have K: "\<not> bad_key ?K src" "key_set ?K src = set_members s" "\<not> bad_key ?K dst" using 2 bad by (simp_all add: key_set_def bad_key_def)
    show ?thesis
    proof (cases "src = dst")
      case True
      have "is_set e src" "elems_of e src = set_members s" using src by (simp_all add: is_set_def elems_of_def)
      then obtain d' where d': "on_set e src (\<lambda>s. setTypeIsMember env s v) = Some (v \<in> set_members s, d')" "db_reps env e d'"
        using member_read [OF e(2)] by metis
      show ?thesis using True d(1) e(1,4) 2 d' K db_reps_done(1,2) [OF d'(2), of ctx] db_done_trans [OF done_e]
        by (auto simp: smoveCommand_def spec_smove_def)
    next
      case False
      have dst: "db_keys e dst = None \<or> is_set e dst" "key_set ?K dst = elems_of e dst" "?K dst = None \<longleftrightarrow> db_keys e dst = None"
        using 2(3) e(5,6) bad(4) by (cases v2 rule: wrong_type.cases; cases "?K dst"; force simp: is_set_def key_set_def elems_of_def)+
      obtain r d' where d': "do {
          (removed, db) \<leftarrow> on_set e src (\<lambda>s. setTypeRemove env s v);
          if \<not> removed then Some (Rep_int 0, db)
          else do { db \<leftarrow> smove_from src db; smove_to env src dst (db_keys e dst = None) v db }
        } = Some (r, d')" "spec_smove src dst v ?K = (r, keyspace ctx d')" "set_db_done env ctx e d'"
        using smove_found_ok [OF e(2) assms(2,3) src _ False dst(1), of t v] 2(2) dst(2,3) K(3) e(4) by auto
      then show ?thesis using d(1) e(1,5) 2 False db_done_trans [OF done_e] by (auto simp: smoveCommand_def)
    qed
  qed
qed

end
