(* ===== verification/Redis_Set_Algebra.thy ===== *)
theory Redis_Set_Algebra
  imports Redis_Set_Keys
begin

text \<open>
  The commands on several sets: intersection, union and difference, replied, counted or stored. The pointers of a command stay valid while
  it runs, and the results are those of the operations on sets of strings, whatever algorithm and order the code chooses.
\<close>

section \<open>The sets of a command\<close>

lemma keyspace_set:
  assumes "keyspace ctx d k \<noteq> None" "\<not> bad_key (keyspace ctx d) k"
  shows "is_set d k" "elems_of d k = key_set (keyspace ctx d) k"
proof -
  obtain v t where v: "db_view ctx d k = Some (v, t)" using assms(1) by (auto simp: db_abs_def)
  then have "db_keys d k = Some v" "keyspace ctx d k = Some (obj_abs v, t)" using db_view_keys [of ctx d k v t] by (simp_all add: db_abs_def)
  then show "is_set d k" "elems_of d k = key_set (keyspace ctx d) k"
    using assms(2) by (cases v; simp add: is_set_def elems_of_def key_set_def bad_key_def)+
qed

lemma lookup_sets_ok:
  assumes "set_db_ok env db"
  shows "\<exists>db'. lookup_sets ctx ks db =
      (if \<exists>k\<in>set ks. bad_key (keyspace ctx db) k then None else Some (map (\<lambda>k. if keyspace ctx db k = None then None else Some k) ks), db') \<and>
    keyspace ctx db' = keyspace ctx db \<and> set_db_done env ctx db db'"
  using assms
proof (induction ks arbitrary: db)
  case Nil
  then show ?case by (simp add: db_done_same)
next
  case (Cons k ks)
  show ?case
  proof (cases rule: read_set_cases [OF Cons.prems, of ctx k, case_names wrong missing found])
    case (wrong ty d)
    then show ?thesis by simp
  next
    case (missing d)
    then have "\<not> bad_key (keyspace ctx db) k" by (simp add: bad_key_def)
    with missing Cons.IH [OF missing(3)] db_done_trans [OF missing(4)] show ?thesis by fastforce
  next
    case (found s d)
    with Cons.IH [OF found(6)] db_done_trans [OF found(7)] show ?thesis by fastforce
  qed
qed

definition valid_sets :: "setdb \<Rightarrow> dbkey option list \<Rightarrow> bool" where
  "valid_sets db sets \<longleftrightarrow> (\<forall>k. Some k \<in> set sets \<longrightarrow> is_set db k)"

lemma valid_sets_reps: "db_reps env db db' \<Longrightarrow> valid_sets db' sets = valid_sets db sets"
  by (simp add: valid_sets_def db_reps_sets)

lemma valid_sets_Cons [simp]: "valid_sets db (None # sets) = valid_sets db sets" "valid_sets db (Some k # sets) \<longleftrightarrow> is_set db k \<and> valid_sets db sets"
  by (auto simp: valid_sets_def)

lemma valid_sets_mset: "mset sets' = mset sets \<Longrightarrow> valid_sets db sets' = valid_sets db sets"
  using mset_eq_setD [of sets' sets] by (simp add: valid_sets_def)

lemma size_read:
  assumes "set_db_ok env db" "is_set db k"
  obtains db' where "on_set db k setTypeSize = Some (card (elems_of db k), db')" "db_reps env db db'"
  by (rule on_set_read [where f = setTypeSize and r = "card (elems_of db k)", OF assms]) (use setTypeSize_result in \<open>force+\<close>)

lemma set_sizes_ok:
  assumes "set_db_ok env db" "valid_sets db sets"
  shows "\<exists>xs db'. set_sizes sets db = Some (xs, db') \<and> map fst xs = sets \<and> db_reps env db db'"
  using assms
proof (induction sets db rule: set_sizes.induct)
  case (1 db)
  then show ?case by (simp add: db_reps_refl)
next
  case (2 sets db)
  then obtain xs db' where "set_sizes sets db = Some (xs, db')" "map fst xs = sets" "db_reps env db db'" by auto
  then show ?case by simp
next
  case (3 k sets db)
  then have "is_set db k" by simp
  then obtain d where d: "on_set db k setTypeSize = Some (card (elems_of db k), d)" "db_reps env db d" by (rule size_read [OF 3(2)])
  then obtain xs db' where "set_sizes sets d = Some (xs, db')" "map fst xs = sets" "db_reps env d db'"
    using 3(1) [OF d(1) refl] 3(3) db_reps_done(3) [OF d(2)] valid_sets_reps [OF d(2)] by auto
  then show ?case using d db_reps_trans by auto
qed

text \<open>What the commands need of \<open>qsort\<close>: it permutes the array.\<close>

definition qsort_ok :: "qsort_fun \<Rightarrow> bool" where
  "qsort_ok qsort \<longleftrightarrow> (\<forall>cmp xs. mset (qsort cmp xs) = mset xs)"

lemma sort_sets_ok:
  assumes "set_db_ok env db" "valid_sets db sets" "qsort_ok qsort"
  obtains sets' db' where "sort_sets qsort cmp sets db = Some (sets', db')" "mset sets' = mset sets" "db_reps env db db'"
proof (cases "length sets > 1")
  case True
  obtain xs db' where xs: "set_sizes sets db = Some (xs, db')" "map fst xs = sets" "db_reps env db db'" using set_sizes_ok [OF assms(1,2)] by auto
  have "mset (map fst (qsort cmp xs)) = mset sets" using assms(3) xs(2) by (metis mset_map qsort_ok_def)
  then show thesis using that xs True by (simp add: sort_sets_def)
next
  case False
  then show thesis using that [of sets db] assms(1) by (simp add: sort_sets_def db_reps_refl)
qed

section \<open>Storing a result\<close>

definition spec_store :: "dbkey \<Rightarrow> byte list set \<Rightarrow> aobj keyspace \<Rightarrow> reply \<times> aobj keyspace" where
  "spec_store dst A K = (Rep_int (int (card A)), if A = {} then K(dst := None) else K(dst \<mapsto> (A_set A, None)))"

lemma store_set_ok:
  assumes "set_db_ok env db" "db_writable ctx" "set_inv env s" "set_members s \<noteq> {}"
  shows "\<exists>r db'. store_set ctx dst ev s db = Some (r, db') \<and> spec_store dst (set_members s) (keyspace ctx db) = (r, keyspace ctx db') \<and> set_db_done env ctx db db'"
proof -
  have "db_ok db" using assms(1) by (simp add: db_inv_def)
  from setKey_ok [OF this assms(2), of dst "Obj_set s"] obtain d where
    d: "setKey ctx {} dst (Obj_set s) db = Some d" "db_ok d" "db_view ctx d = (db_view ctx db)(dst \<mapsto> (Obj_set s, None))" "db_grows db d" "db_signals db d dst"
      "db_keys d = (db_keys db)(dst \<mapsto> Obj_set s)" by blast
  have inv: "set_db_ok env d" using assms(1,3,4) d(2,6) by (auto simp: db_inv_def ran_def)
  have abs: "keyspace ctx d = (keyspace ctx db)(dst \<mapsto> (A_set (set_members s), None))" using db_abs_upd(1) [OF d(3), of obj_abs] by simp
  have "is_set d dst" "elems_of d dst = set_members s" using d(6) by (simp_all add: is_set_def elems_of_def)
  then obtain e where e: "on_set d dst setTypeSize = Some (card (set_members s), e)" "db_reps env d e" using size_read [OF inv] by metis
  let ?e = "add_dirty 1 (notifyKeyspaceEvent NOTIFY_SET ev dst e)"
  have same: "dirty e = dirty d" "events e = events d" "clock e = clock d" using e(2) by (simp_all add: db_reps_def)
  have "set_db_done env ctx db ?e"
    by (rule db_done_key [where k = dst and x = "Some (A_set (set_members s), None)"])
      (use db_reps_done [OF e(2)] same d(4,5) abs in \<open>auto simp: db_grows_def db_signals_def\<close>)
  then show ?thesis using d(1) e(1) abs db_reps_done(1) [OF e(2), of ctx] assms(4) by (simp add: store_set_def spec_store_def)
qed

lemma store_empty_ok:
  assumes "set_db_ok env db"
  shows "\<exists>r db'. store_empty dst db = (r, db') \<and> spec_store dst {} (keyspace ctx db) = (r, keyspace ctx db') \<and> set_db_done env ctx db db'"
proof -
  obtain b d where d: "dbDelete dst db = (b, d)" by (cases "dbDelete dst db")
  note del = db_delete_inv [OF assms d [unfolded dbDelete_def]]
  let ?d = "add_dirty 1 (notifyKeyspaceEvent NOTIFY_GENERIC ''del'' dst (signalModifiedKey dst d))"
  have "set_db_done env ctx db ?d"
    by (rule db_done_key [where k = dst and x = None]) (use del(1,3) del(2) [of obj_abs ctx] in \<open>auto simp: db_grows_def db_signals_def\<close>)
  moreover have "keyspace ctx db dst = None" if "\<not> b" using that del(4) by (simp add: db_abs_def db_view_def)
  then have "set_db_done env ctx db d" if "\<not> b" using that del(1,3) del(2) [of obj_abs ctx] by (intro db_done_same) (auto simp: fun_upd_idem)
  ultimately show ?thesis using d del(2) [of obj_abs ctx] by (auto simp: store_empty_def spec_store_def)
qed

section \<open>Membership in several sets\<close>

lemma member_aux_read:
  assumes "set_db_ok env db" "is_set db k" "elem_ok e"
  obtains db' where "on_set db k (\<lambda>s. setTypeIsMemberAux env s e) = Some (elem_text e \<in> elems_of db k, db')" "db_reps env db db'"
  by (rule on_set_read [where f = "\<lambda>s. setTypeIsMemberAux env s e" and r = "elem_text e \<in> elems_of db k", OF assms(1,2)])
    (use setTypeIsMemberAux_ok [OF _ assms(3)] in \<open>force+\<close>)

lemma in_all_sets_ok:
  assumes "set_db_ok env db" "\<forall>k\<in>set ks. is_set db k" "elem_ok e"
  shows "\<exists>db'. in_all_sets env k0 e ks db = Some (\<forall>k\<in>set ks. k \<noteq> k0 \<longrightarrow> elem_text e \<in> elems_of db k, db') \<and> db_reps env db db'"
  using assms(1,2)
proof (induction ks arbitrary: db)
  case Nil
  then show ?case by (simp add: db_reps_refl)
next
  case (Cons k ks)
  obtain d where d: "on_set db k (\<lambda>s. setTypeIsMemberAux env s e) = Some (elem_text e \<in> elems_of db k, d)" "db_reps env db d"
    using member_aux_read [OF Cons.prems(1) _ assms(3)] Cons.prems(2) by auto
  note same = db_reps_sets [OF d(2)] db_reps_done(3) [OF d(2)]
  from Cons.IH [of d] Cons.IH [of db] Cons.prems d same db_reps_trans [OF d(2)] show ?case by (cases "k = k0") auto
qed

lemma in_any_set_ok:
  assumes "set_db_ok env db" "valid_sets db sets" "elem_ok e" "Some k0 \<notin> set sets"
  shows "\<exists>db'. in_any_set env k0 e sets db = Some (\<exists>k. Some k \<in> set sets \<and> elem_text e \<in> elems_of db k, db') \<and> db_reps env db db'"
  using assms(1,2,4)
proof (induction sets arbitrary: db)
  case Nil
  then show ?case by (simp add: db_reps_refl)
next
  case (Cons x sets)
  show ?case
  proof (cases x)
    case None
    then show ?thesis using Cons.IH [of db] Cons.prems by simp
  next
    case (Some k)
    obtain d where d: "on_set db k (\<lambda>s. setTypeIsMemberAux env s e) = Some (elem_text e \<in> elems_of db k, d)" "db_reps env db d"
      using member_aux_read [OF Cons.prems(1) _ assms(3)] Cons.prems(2) Some by auto
    note same = db_reps_sets [OF d(2)] db_reps_done(3) [OF d(2)]
    from Cons.IH [of d] Cons.prems d same db_reps_trans [OF d(2)] Some show ?thesis by (auto simp: valid_sets_def)
  qed
qed

section \<open>Loops over the elements of a set\<close>

lemma set_at_loop:
  assumes "set_db_ok env db" "is_set db k"
  obtains s ys where "set_at db k = Some s" "set_inv env s" "elems_of db k = elem_text ` set ys" "list_all elem_ok ys" "distinct (map elem_text ys)"
    "set_before env s (setTypeInitIterator s) ys" "set_members s = elem_text ` set ys"
proof -
  obtain s where s: "db_keys db k = Some (Obj_set s)" using assms(2) by (auto simp: is_set_def)
  then have "set_inv env s" using assms(1) by (auto simp: db_inv_def ran_def dest: spec [where x = "Obj_set s"])
  then show thesis using that set_elems_exist [OF set_inv_wf, of env s] s
    by (auto simp: set_at_def elems_of_def set_elems_are_def)
qed

text \<open>The set that is built, with the count of its elements.\<close>

fun acc_ok :: "set_env \<Rightarrow> byte list set \<Rightarrow> int \<times> setobj \<Rightarrow> bool" where
  "acc_ok env A (n, s) \<longleftrightarrow> set_inv env s \<and> set_members s = A \<and> n = int (card A)"

lemma acc_ok_new: "acc_ok env {} (0, createIntsetObject)"
  using intset_new_ok by (auto simp: createIntsetObject_def intsetLen_def intsetNew_def)

lemma acc_ok_finite: "acc_ok env A a \<Longrightarrow> finite A"
  using set_members_finite [OF set_inv_wf] by (cases a) auto

lemma add_elem_ok:
  assumes "acc_ok env A a" "elem_ok e" "set_env_ok env"
  shows "\<exists>a'. add_elem env e a = Some a' \<and> acc_ok env (insert (elem_text e) A) a'"
proof -
  obtain n s where a: "a = (n, s)" "set_inv env s" "set_members s = A" "n = int (card A)" using assms(1) by (cases a) auto
  with setTypeAddAux_ok [OF a(2) assms(2,3)] acc_ok_finite [OF assms(1)] show ?thesis
    by (auto simp: add_elem_def set_result_def insert_absorb)
qed

lemma remove_elem_ok:
  assumes "acc_ok env A a" "elem_ok e"
  shows "\<exists>a'. remove_elem env e a = Some a' \<and> acc_ok env (A - {elem_text e}) a'"
proof -
  obtain n s where a: "a = (n, s)" "set_inv env s" "set_members s = A" "n = int (card A)" using assms(1) by (cases a) auto
  have "int (card (A - {elem_text e})) = int (card A) - 1" if "elem_text e \<in> A"
    using that acc_ok_finite [OF assms(1)] card_Suc_Diff1 [of A "elem_text e"] by simp
  with a setTypeRemoveAux_ok [OF a(2) assms(2)] show ?thesis by (auto simp: remove_elem_def set_result_def)
qed

lemma add_all_ok:
  assumes "set_db_ok env db" "is_set db k" "acc_ok env A a" "set_env_ok env"
  obtains s a' where "set_at db k = Some s" "set_foreach env (setTypeNext env s) s (add_elem env) a = Some a'" "acc_ok env (A \<union> elems_of db k) a'"
proof -
  obtain s ys where s: "set_at db k = Some s" "set_inv env s" "elems_of db k = elem_text ` set ys" "list_all elem_ok ys"
    "set_before env s (setTypeInitIterator s) ys" using set_at_loop [OF assms(1,2)] by metis
  have "\<exists>a'. fold_opt (add_elem env) ys a = Some a' \<and> acc_ok env (A \<union> elem_text ` set ys) a'"
  proof (rule fold_opt_invariant [where I = "\<lambda>us. acc_ok env (A \<union> elem_text ` set us)"])
    fix us u ws b assume "ys = us @ u # ws" "acc_ok env (A \<union> elem_text ` set us) b"
    then show "\<exists>a'. add_elem env u b = Some a' \<and> acc_ok env (A \<union> elem_text ` set (us @ [u])) a'"
      using add_elem_ok [of env _ b u] s(4) assms(4) by fastforce
  qed (use assms(3) in simp)
  then show thesis using that s(1,3) set_foreach_fold(1) [OF s(5) set_inv_wf [OF s(2)]] by metis
qed

lemma remove_all_ok:
  assumes "set_db_ok env db" "is_set db k" "acc_ok env A a"
  obtains s a' where "set_at db k = Some s" "set_foreach env (setTypeNext env s) s (remove_elem env) a = Some a'" "acc_ok env (A - elems_of db k) a'"
proof -
  obtain s ys where s: "set_at db k = Some s" "set_inv env s" "elems_of db k = elem_text ` set ys" "list_all elem_ok ys"
    "set_before env s (setTypeInitIterator s) ys" using set_at_loop [OF assms(1,2)] by metis
  have "\<exists>a'. fold_opt (remove_elem env) ys a = Some a' \<and> acc_ok env (A - elem_text ` set ys) a'"
  proof (rule fold_opt_invariant [where I = "\<lambda>us. acc_ok env (A - elem_text ` set us)"])
    fix us u ws b assume u: "ys = us @ u # ws" "acc_ok env (A - elem_text ` set us) b"
    have "A - elem_text ` set us - {elem_text u} = A - elem_text ` set (us @ [u])" by auto
    then show "\<exists>a'. remove_elem env u b = Some a' \<and> acc_ok env (A - elem_text ` set (us @ [u])) a'"
      using remove_elem_ok [OF u(2), of u] s(4) u(1) by simp
  qed (use assms(3) in simp)
  then show thesis using that s(1,3) set_foreach_fold(1) [OF s(5) set_inv_wf [OF s(2)]] by metis
qed

section \<open>Union and difference\<close>

definition elems_of_all :: "setdb \<Rightarrow> dbkey option list \<Rightarrow> byte list set" where
  "elems_of_all db sets = (\<Union>x\<in>set sets. case x of None \<Rightarrow> {} | Some k \<Rightarrow> elems_of db k)"

lemma elems_of_all_simps [simp]:
  "elems_of_all db [] = {}" "elems_of_all db (None # sets) = elems_of_all db sets" "elems_of_all db (Some k # sets) = elems_of db k \<union> elems_of_all db sets"
  by (simp_all add: elems_of_all_def)

lemma elems_of_all_iff: "x \<in> elems_of_all db sets \<longleftrightarrow> (\<exists>k. Some k \<in> set sets \<and> x \<in> elems_of db k)"
  by (auto simp: elems_of_all_def split: option.splits)

lemma elems_of_all_mset: "mset sets' = mset sets \<Longrightarrow> elems_of_all db sets' = elems_of_all db sets"
  using mset_eq_setD [of sets' sets] by (simp add: elems_of_all_def)

lemma elems_of_all_reps: "db_reps env db db' \<Longrightarrow> elems_of_all db' sets = elems_of_all db sets"
  by (drule db_reps_sets(2)) (auto simp: elems_of_all_iff)

lemma union_loop_ok:
  assumes "set_db_ok env db" "valid_sets db sets" "acc_ok env A a" "set_env_ok env"
  shows "\<exists>a'. union_loop env db sets a = Some a' \<and> acc_ok env (A \<union> elems_of_all db sets) a'"
  using assms(2,3)
proof (induction sets arbitrary: A a)
  case (Cons x sets)
  show ?case
  proof (cases x)
    case (Some k)
    then obtain s a1 where "set_at db k = Some s" "set_foreach env (setTypeNext env s) s (add_elem env) a = Some a1" "acc_ok env (A \<union> elems_of db k) a1"
      using add_all_ok [OF assms(1) _ Cons.prems(2) assms(4)] Cons.prems(1) by (metis valid_sets_Cons(2))
    then show ?thesis using Cons.IH [of "A \<union> elems_of db k" a1] Cons.prems(1) Some by (simp add: Un_assoc)
  qed (use Cons in simp)
qed simp

lemma diff_two_loop_ok:
  assumes "set_db_ok env db" "valid_sets db sets" "acc_ok env A a"
  shows "\<exists>a'. diff_two_loop env db sets a = Some a' \<and> acc_ok env (A - elems_of_all db sets) a'"
  using assms(2,3)
proof (induction sets arbitrary: A a)
  case (Cons x sets)
  show ?case
  proof (cases x)
    case (Some k)
    then obtain s a1 where a1: "set_at db k = Some s" "set_foreach env (setTypeNext env s) s (remove_elem env) a = Some a1" "acc_ok env (A - elems_of db k) a1"
      using remove_all_ok [OF assms(1) _ Cons.prems(2)] Cons.prems(1) by (metis valid_sets_Cons(2))
    have diff: "A - elems_of_all db (Some k # sets) = A - elems_of db k - elems_of_all db sets" by auto
    show ?thesis
    proof (cases "fst a1 = 0")
      case True
      then have "A - elems_of db k = {}" using a1(3) acc_ok_finite [OF a1(3)] by (cases a1) simp
      then have "A - elems_of_all db (Some k # sets) = A - elems_of db k" unfolding diff by blast
      then show ?thesis using a1 True Some by simp
    next
      case False
      then show ?thesis using Cons.IH [OF _ a1(3)] Cons.prems(1) a1(1,2) Some unfolding Some diff by simp
    qed
  qed (use Cons in simp)
qed simp

lemma diff_two_ok:
  assumes "set_db_ok env db" "valid_sets db (Some k0 # sets)" "set_env_ok env"
  shows "\<exists>a'. diff_two env k0 sets db (0, createIntsetObject) = Some a' \<and> acc_ok env (elems_of db k0 - elems_of_all db sets) a'"
proof -
  obtain s a1 where a1: "set_at db k0 = Some s" "set_foreach env (setTypeNext env s) s (add_elem env) (0, createIntsetObject) = Some a1"
      "acc_ok env (elems_of db k0) a1"
    using add_all_ok [OF assms(1) _ acc_ok_new assms(3)] assms(2) by (metis Un_empty_left valid_sets_Cons(2))
  have "elems_of db k0 = {}" if "fst a1 = 0" using a1(3) acc_ok_finite [OF a1(3)] that by (cases a1) simp
  then show ?thesis using a1 diff_two_loop_ok [OF assms(1) _ a1(3), of sets] assms(2) by (cases "fst a1 = 0") (auto simp: diff_two_def)
qed

lemma diff_one_ok:
  assumes "set_db_ok env db" "valid_sets db (Some k0 # sets)" "Some k0 \<notin> set sets" "set_env_ok env"
  shows "\<exists>db' a'. diff_one env k0 sets db (0, createIntsetObject) = Some (db', a') \<and> acc_ok env (elems_of db k0 - elems_of_all db sets) a' \<and> db_reps env db db'"
proof -
  obtain s ys where s: "set_at db k0 = Some s" "set_inv env s" "elems_of db k0 = elem_text ` set ys" "list_all elem_ok ys"
    "set_before env s (setTypeInitIterator s) ys" using set_at_loop [OF assms(1), of k0] assms(2) by (metis valid_sets_Cons(2))
  let ?I = "\<lambda>us (d, a). acc_ok env (elem_text ` set us - elems_of_all db sets) a \<and> db_reps env db d"
  have "\<exists>b. fold_opt (diff_one_body env k0 sets) ys (db, 0, createIntsetObject) = Some b \<and> ?I ys b"
  proof (rule fold_opt_invariant [where I = ?I])
    fix us u ws b assume u: "ys = us @ u # ws" "?I us b"
    obtain d a where b: "b = (d, a)" by (cases b)
    then have d: "db_reps env db d" "acc_ok env (elem_text ` set us - elems_of_all db sets) a" using u(2) by auto
    have "elem_ok u" using s(4) u(1) by simp
    from in_any_set_ok [OF db_reps_done(3) [OF d(1)] _ this assms(3)] obtain d' where
      d': "in_any_set env k0 u sets d = Some (elem_text u \<in> elems_of_all db sets, d')" "db_reps env d d'"
      using valid_sets_reps [OF d(1)] db_reps_sets(2) [OF d(1)] assms(2) by (auto simp: elems_of_all_iff)
    have "elem_text ` set (us @ [u]) - elems_of_all db sets = (if elem_text u \<in> elems_of_all db sets then id else insert (elem_text u)) (elem_text ` set us - elems_of_all db sets)"
      by auto
    then show "\<exists>b'. diff_one_body env k0 sets u b = Some b' \<and> ?I (us @ [u]) b'"
      using add_elem_ok [OF d(2) \<open>elem_ok u\<close> assms(4)] d(2) d' db_reps_trans [OF d(1) d'(2)]
      by (cases "elem_text u \<in> elems_of_all db sets") (auto simp: diff_one_body_def b simp del: acc_ok.simps set_append)
  qed (use acc_ok_new db_reps_refl assms(1) in auto)
  then obtain d a where "fold_opt (diff_one_body env k0 sets) ys (db, 0, createIntsetObject) = Some (d, a)" "?I ys (d, a)" by (metis surj_pair)
  with set_foreach_fold(1) [OF s(5) set_inv_wf [OF s(2)] this(1)] s(1,3) show ?thesis by (simp add: diff_one_def)
qed

lemma diff_work_ok:
  assumes "set_db_ok env db" "valid_sets db sets" "is_set db k0"
  shows "\<exists>x y db'. diff_work k0 sets m n db = Some (x, y, db') \<and> db_reps env db db'"
  using assms
proof (induction sets arbitrary: m n db)
  case Nil
  then show ?case by (simp add: db_reps_refl)
next
  case (Cons x sets)
  show ?case
  proof (cases x)
    case (Some k)
    obtain d where d: "on_set db k0 setTypeSize = Some (card (elems_of db k0), d)" "db_reps env db d" using size_read [OF Cons.prems(1,3)] .
    note d_ok = db_reps_done(3) [OF d(2)]
    have "is_set d k" using Cons.prems(2) Some db_reps_sets(1) [OF d(2)] by simp
    then obtain e where e: "on_set d k setTypeSize = Some (card (elems_of d k), e)" "db_reps env d e" using size_read [OF d_ok] by metis
    have "valid_sets e sets" "is_set e k0"
      using Cons.prems(2,3) Some db_reps_sets(1) [OF d(2)] db_reps_sets(1) [OF e(2)] by (simp_all add: valid_sets_def)
    from Cons.IH [OF db_reps_done(3) [OF e(2)] this, of "m + card (elems_of db k0)" "n + card (elems_of d k)"] d e Some
      db_reps_trans [OF db_reps_trans [OF d(2) e(2)]] show ?thesis by auto
  qed (use Cons in simp)
qed

lemma diff_select_ok:
  assumes "set_db_ok env db" "valid_sets db (Some k0 # sets)" "qsort_ok qsort"
  obtains b sets' db' where "diff_select qsort k0 sets db = Some (b, sets', db')" "mset sets' = mset sets" "db_reps env db db'"
proof -
  obtain x y d where d: "diff_work k0 (Some k0 # sets) 0 0 db = Some (x, y, d)" "db_reps env db d"
    using diff_work_ok [OF assms(1,2), of k0] assms(2) by (metis valid_sets_Cons(2))
  have "valid_sets d sets" using assms(2) valid_sets_reps [OF d(2)] by simp
  then obtain sets' e where e: "sort_sets qsort qsortCompareSetsByRevCardinality sets d = Some (sets', e)" "mset sets' = mset sets" "db_reps env d e"
    using sort_sets_ok [OF db_reps_done(3) [OF d(2)] _ assms(3)] by metis
  have "diff_select qsort k0 sets db = (if x div 2 \<le> y then Some (True, sets', e) else Some (False, sets, d))"
    unfolding diff_select_def d(1) using e(1) by simp
  then show thesis using that e(2) d(2) db_reps_trans [OF d(2) e(3)] by (cases "x div 2 \<le> y") auto
qed

text \<open>The difference, by both algorithms and in the cases that need none.\<close>

lemma diff_sets_ok:
  assumes "set_db_ok env db" "valid_sets db (x # sets)" "qsort_ok qsort" "set_env_ok env"
  shows "\<exists>db' a'. diff_sets env qsort (x # sets) db (0, createIntsetObject) = Some (db', a') \<and>
    acc_ok env (elems_of_all db [x] - elems_of_all db sets) a' \<and> db_reps env db db'"
proof (cases x)
  case None
  then show ?thesis using acc_ok_new db_reps_refl [OF assms(1)] by (simp add: diff_sets_def del: acc_ok.simps)
next
  case (Some k0)
  show ?thesis
  proof (cases "Some k0 \<in> set sets")
    case True
    then have empty: "elems_of_all db [x] - elems_of_all db sets = {}" using Some by (auto simp: elems_of_all_iff)
    show ?thesis unfolding empty using True Some acc_ok_new db_reps_refl [OF assms(1)] by (simp add: diff_sets_def del: acc_ok.simps)
  next
    case False
    obtain b sets' d where d: "diff_select qsort k0 sets db = Some (b, sets', d)" "mset sets' = mset sets" "db_reps env db d"
      using diff_select_ok [OF assms(1) _ assms(3)] assms(2) Some by metis
    have d': "set_db_ok env d" "valid_sets d (Some k0 # sets')" "Some k0 \<notin> set sets'"
      using db_reps_done(3) [OF d(3)] valid_sets_reps [OF d(3)] valid_sets_mset [OF d(2)] db_reps_sets(1) [OF d(3)] assms(2) Some False mset_eq_setD [OF d(2)]
      by simp_all
    have sets: "elems_of d k0 - elems_of_all d sets' = elems_of_all db [x] - elems_of_all db sets"
      using elems_of_all_mset [OF d(2), of d] elems_of_all_reps [OF d(3)] db_reps_sets(2) [OF d(3)] Some by simp
    obtain e a where "diff_one env k0 sets' d (0, createIntsetObject) = Some (e, a)" "acc_ok env (elems_of d k0 - elems_of_all d sets') a" "db_reps env d e"
      using diff_one_ok [OF d' assms(4)] by blast
    moreover obtain a2 where "diff_two env k0 sets' d (0, createIntsetObject) = Some a2" "acc_ok env (elems_of d k0 - elems_of_all d sets') a2"
      using diff_two_ok [OF d'(1,2) assms(4)] by blast
    ultimately show ?thesis using d(1,3) db_reps_trans [OF d(3)] Some False unfolding sets by (cases b) (simp_all add: diff_sets_def)
  qed
qed

section \<open>The commands for union and difference\<close>

text \<open>The order of the elements in a reply is not determined.\<close>

datatype cmd_res = R_reply reply | R_set nat "byte list multiset"

fun reply_res :: "reply \<Rightarrow> cmd_res" where
  "reply_res (Rep_set n xs) = R_set n (mset xs)"
| "reply_res r = R_reply r"

definition spec_result :: "dbkey option \<Rightarrow> byte list set \<Rightarrow> aobj keyspace \<Rightarrow> cmd_res \<times> aobj keyspace" where
  "spec_result dstkey A K = (case dstkey of None \<Rightarrow> (R_set (card A) (mset_set A), K) | Some dst \<Rightarrow> apfst reply_res (spec_store dst A K))"

definition spec_sets :: "(dbkey list \<Rightarrow> aobj keyspace \<Rightarrow> byte list set) \<Rightarrow> dbkey list \<Rightarrow> dbkey option \<Rightarrow> aobj keyspace \<Rightarrow> cmd_res \<times> aobj keyspace" where
  "spec_sets f ks dstkey K = (if \<exists>k\<in>set ks. bad_key K k then (R_reply (Rep_err wrongtypeerr), K) else spec_result dstkey (f ks K) K)"

definition union_of :: "dbkey list \<Rightarrow> aobj keyspace \<Rightarrow> byte list set" where
  "union_of ks K = (\<Union>k\<in>set ks. key_set K k)"

definition diff_of :: "dbkey list \<Rightarrow> aobj keyspace \<Rightarrow> byte list set" where
  "diff_of ks K = key_set K (hd ks) - union_of (tl ks) K"

definition inter_of :: "dbkey list \<Rightarrow> aobj keyspace \<Rightarrow> byte list set" where
  "inter_of ks K = (\<Inter>k\<in>set ks. key_set K k)"

definition set_ptrs :: "aobj keyspace \<Rightarrow> dbkey list \<Rightarrow> dbkey option list" where
  "set_ptrs K ks = map (\<lambda>k. if K k = None then None else Some k) ks"

lemma set_ptrs_ok:
  assumes "\<forall>k\<in>set ks. \<not> bad_key (keyspace ctx d) k"
  shows "valid_sets d (set_ptrs (keyspace ctx d) ks)" "elems_of_all d (set_ptrs (keyspace ctx d) ks) = union_of ks (keyspace ctx d)"
proof -
  have ptr: "is_set d k \<and> elems_of d k = key_set (keyspace ctx d) k" if "k \<in> set ks" "keyspace ctx d k \<noteq> None" for k
    using keyspace_set [OF that(2)] assms that(1) by simp
  then show "valid_sets d (set_ptrs (keyspace ctx d) ks)" by (auto simp: valid_sets_def set_ptrs_def split: if_splits)
  have ptrs: "Some k \<in> set (set_ptrs (keyspace ctx d) ks) \<longleftrightarrow> k \<in> set ks \<and> keyspace ctx d k \<noteq> None" for k
    by (auto simp: set_ptrs_def split: if_splits)
  have ne: "keyspace ctx d k \<noteq> None" if "x \<in> key_set (keyspace ctx d) k" for x k using that by (cases "keyspace ctx d k") (auto simp: key_set_def)
  have "x \<in> elems_of_all d (set_ptrs (keyspace ctx d) ks) \<longleftrightarrow> x \<in> union_of ks (keyspace ctx d)" for x
    unfolding elems_of_all_iff union_of_def ptrs UN_iff using ptr ne by metis
  then show "elems_of_all d (set_ptrs (keyspace ctx d) ks) = union_of ks (keyspace ctx d)" by blast
qed

lemma reply_elems_ok:
  assumes "set_inv env s"
  obtains xs where "reply_elems env s = Some xs" "mset xs = mset_set (set_members s)"
proof -
  obtain ys where ys: "set_before env s (setTypeInitIterator s) ys" "list_all elem_ok ys" "distinct (map elem_text ys)"
      "set_members s = elem_text ` set ys" using set_elems_exist [OF set_inv_wf [OF assms]] by (auto simp: set_elems_are_def)
  have "fold_opt (\<lambda>e r. Some (r @ [elem_string env e])) us r = Some (r @ map (elem_string env) us)" for us r
    by (induction us arbitrary: r) simp_all
  then have "reply_elems env s = Some ([] @ map (elem_string env) ys)"
    unfolding reply_elems_def by (rule set_foreach_fold(1) [OF ys(1) set_inv_wf [OF assms]])
  then show thesis using that [of "map elem_text ys"] ys(2,4) mset_set_set [OF ys(3)] by (simp add: elem_strings)
qed

text \<open>The result is replied or stored.\<close>

lemma set_result_ok:
  assumes "set_db_ok env e" "db_writable ctx" "acc_ok env A (n, s)"
  shows "\<exists>r db'. (case dstkey of
         None \<Rightarrow> do { replies \<leftarrow> reply_elems env s; Some (Rep_set (nat n) replies, e) }
       | Some dstkey \<Rightarrow>
           do { (m, s) \<leftarrow> setTypeSize s; if m > 0 then store_set ctx dstkey ev s e else Some (store_empty dstkey e) }) = Some (r, db') \<and>
    spec_result dstkey A (keyspace ctx e) = (reply_res r, keyspace ctx db') \<and> set_db_done env ctx e db'"
proof -
  have s: "set_inv env s" "set_members s = A" "n = int (card A)" using assms(3) by simp_all
  show ?thesis
  proof (cases dstkey)
    case None
    obtain xs where "reply_elems env s = Some xs" "mset xs = mset_set A" using reply_elems_ok [OF s(1)] s(2) by metis
    then show ?thesis using None s(3) assms(1) by (simp add: spec_result_def db_done_same)
  next
    case (Some dst)
    obtain s' where s': "setTypeSize s = Some (card A, s')" "set_inv env s'" "set_members s' = A"
      using setTypeSize_result [OF s(1)] s(2) by (auto simp: set_result_def)
    have res: "reply_res r = R_reply r" if "spec_store dst B K = (r, K')" for r B K K' using that by (auto simp: spec_store_def)
    have "card A > 0 \<longleftrightarrow> A \<noteq> {}" using acc_ok_finite [OF assms(3)] by (simp add: card_gt_0_iff)
    then show ?thesis using Some s' store_set_ok [OF assms(1,2) s'(2), of dst ev] store_empty_ok [OF assms(1), of dst ctx]
      by (cases "A = {}") (auto simp: spec_result_def)
  qed
qed

lemma union_diff_ok:
  assumes "set_db_ok env db" "db_writable ctx" "set_env_ok env" "qsort_ok qsort" "ks \<noteq> []"
  shows "\<exists>r db'. sunionDiffGenericCommand env ctx qsort ks dstkey op' db = Some (r, db') \<and>
    spec_sets (case op' of SET_OP_UNION \<Rightarrow> union_of | SET_OP_DIFF \<Rightarrow> diff_of) ks dstkey (keyspace ctx db) = (reply_res r, keyspace ctx db') \<and>
    set_db_done env ctx db db'"
proof -
  let ?K = "keyspace ctx db"
  let ?A = "(case op' of SET_OP_UNION \<Rightarrow> union_of | SET_OP_DIFF \<Rightarrow> diff_of) ks ?K"
  obtain d where d: "lookup_sets ctx ks db = (if \<exists>k\<in>set ks. bad_key ?K k then None else Some (set_ptrs ?K ks), d)"
    "keyspace ctx d = ?K" "set_db_done env ctx db d" using lookup_sets_ok [OF assms(1), of ctx ks] by (auto simp: set_ptrs_def)
  have d_ok: "set_db_ok env d" using d(3) by (simp add: db_done_def)
  show ?thesis
  proof (cases "\<exists>k\<in>set ks. bad_key ?K k")
    case True
    then show ?thesis using d by (auto simp: sunionDiffGenericCommand_def spec_sets_def)
  next
    case False
    then have ptrs: "valid_sets d (set_ptrs ?K ks)" "elems_of_all d (set_ptrs ?K ks) = union_of ks ?K" using set_ptrs_ok [of ks ctx d] d(2) by auto
    obtain k1 ks1 where ks: "ks = k1 # ks1" using assms(5) by (cases ks) auto
    have ptr1: "elems_of_all d [if ?K k1 = None then None else Some k1] = key_set ?K k1" "elems_of_all d (set_ptrs ?K ks1) = union_of ks1 ?K"
      using set_ptrs_ok(2) [of "[k1]" ctx d] set_ptrs_ok(2) [of ks1 ctx d] False d(2) ks by (auto simp: set_ptrs_def union_of_def)
    obtain e n s where e: "(case op' of
          SET_OP_UNION \<Rightarrow> map_option (Pair d) (union_loop env d (set_ptrs ?K ks) (0, createIntsetObject))
        | SET_OP_DIFF \<Rightarrow> diff_sets env qsort (set_ptrs ?K ks) d (0, createIntsetObject)) = Some (e, n, s)" "acc_ok env ?A (n, s)" "db_reps env d e"
    proof (cases op')
      case SET_OP_UNION
      with union_loop_ok [OF d_ok ptrs(1) acc_ok_new assms(3)] ptrs(2) db_reps_refl [OF d_ok] that show thesis by auto
    next
      case SET_OP_DIFF
      let ?x = "if ?K k1 = None then None else Some k1"
      have eq: "set_ptrs ?K ks = ?x # set_ptrs ?K ks1" by (simp add: set_ptrs_def ks)
      from diff_sets_ok [OF d_ok ptrs(1) [unfolded eq] assms(4,3)] obtain e a where
        "diff_sets env qsort (set_ptrs ?K ks) d (0, createIntsetObject) = Some (e, a)" "acc_ok env (diff_of ks ?K) a" "db_reps env d e"
        unfolding eq ptr1 by (auto simp: diff_of_def ks simp del: acc_ok.simps)
      with SET_OP_DIFF that [of e "fst a" "snd a"] show thesis by simp
    qed
    have e_ok: "set_db_ok env e" "keyspace ctx e = ?K" "set_db_done env ctx db e"
      using db_reps_done [OF e(3)] d(2) db_done_trans [OF d(3)] by auto
    show ?thesis using set_result_ok [OF e_ok(1) assms(2) e(2), where dstkey = dstkey and ev = "case op' of SET_OP_UNION \<Rightarrow> ''sunionstore'' | SET_OP_DIFF \<Rightarrow> ''sdiffstore''"]
        d(1) e(1) e_ok(2) db_done_trans [OF e_ok(3)] False
      by (auto simp: sunionDiffGenericCommand_def spec_sets_def)
  qed
qed

end
