(* ===== verification/Redis_Set_Inter.thy ===== *)
theory Redis_Set_Inter
  imports Redis_Set_Algebra
begin

text \<open>
  The intersection of sets: the loop over the smallest set, which counts, replies or stores the elements that all sets have.
\<close>

section \<open>The target of an intersection\<close>

lemma sinter_elem_ok:
  assumes "elem_ok e" "sinter_elem enc dst ints e = (e', ints')"
  shows "elem_text e' = elem_text e" "elem_ok e'" "ints' \<Longrightarrow> ints \<and> string2ll (elem_text e) \<noteq> None"
proof -
  have str: "lltext v = s \<and> fits 8 v" if "string2ll s = Some v" for s v using string2ll_iff [of s v] that by (simp add: fits_8)
  have int: "string2ll (lltext v) = Some v" if "fits 8 v" for v using string2ll_iff [of "lltext v" v] that by (simp add: fits_8)
  show "elem_text e' = elem_text e" "elem_ok e'" "ints' \<Longrightarrow> ints \<and> string2ll (elem_text e) \<noteq> None"
    using assms str int by (cases e; force simp: sinter_elem_def split: if_splits)+
qed

lemma sinter_dstset_ok: "set_inv env (sinter_dstset env s)" "set_members (sinter_dstset env s) = {}"
proof -
  have "set_lp_ok (lpNew (junk env) n) []" for n using lpNew_ok by (simp add: set_lp_ok_def lp_stands_def)
  moreover have "intset_ok intsetNew" "intset_set intsetNew = {}" "intsetLen intsetNew = 0"
    using intset_new_ok by (auto simp: intsetLen_def intsetNew_def)
  ultimately show "set_inv env (sinter_dstset env s)" "set_members (sinter_dstset env s) = {}"
    using set_lp_members [of _ "[]"] by (cases s; auto simp: createIntsetObject_def createSetListpackObject_def)+
qed

lemma shrink_set_ok:
  assumes "set_inv env (Set_listpack lp)"
  shows "set_inv env (Set_listpack (lpShrinkToFit jk lp))" "set_members (Set_listpack (lpShrinkToFit jk lp)) = set_members (Set_listpack lp)"
proof -
  obtain xs where xs: "set_lp_ok lp xs" using assms by auto
  then have "set_lp_ok (lpShrinkToFit jk lp) xs" using lpShrinkToFit_ok [of lp] by (auto simp: set_lp_ok_def lp_stands_def)
  then show "set_inv env (Set_listpack (lpShrinkToFit jk lp))" "set_members (Set_listpack (lpShrinkToFit jk lp)) = set_members (Set_listpack lp)"
    using set_lp_members [OF xs] set_lp_members by auto
qed

lemma sinter_store_ok:
  assumes "set_db_ok env e" "db_writable ctx" "set_env_ok env" "set_inv env s" "ints \<Longrightarrow> \<forall>x\<in>set_members s. string2ll x \<noteq> None"
  shows "\<exists>r db'. sinter_store env ctx dst ints s e = Some (r, db') \<and> spec_store dst (set_members s) (keyspace ctx e) = (r, keyspace ctx db') \<and> set_db_done env ctx e db'"
proof -
  let ?A = "set_members s"
  obtain s1 where s1: "setTypeSize s = Some (card ?A, s1)" "set_inv env s1" "set_members s1 = ?A"
    using setTypeSize_result [OF assms(4)] by (auto simp: set_result_def)
  obtain s2 where s2: "(if ints then maybeConvertToIntset env s1 else Some s1) = Some s2" "set_inv env s2" "set_members s2 = ?A"
    using maybeConvertToIntset_ok [OF s1(2) assms(3)] assms(5) s1 by (cases ints) auto
  let ?s3 = "case s2 of Set_listpack lp \<Rightarrow> Set_listpack (lpShrinkToFit (junk env) lp) | _ \<Rightarrow> s2"
  have s3: "set_inv env ?s3" "set_members ?s3 = ?A" using s2(2,3) shrink_set_ok [of env _ "junk env"] by (cases s2; fastforce)+
  have "card ?A > 0 \<longleftrightarrow> ?A \<noteq> {}" using set_members_finite [OF set_inv_wf [OF assms(4)]] by (simp add: card_gt_0_iff)
  then show ?thesis using s1(1) s2(1) store_set_ok [OF assms(1,2) s3(1), of dst "''sinterstore''"] s3(2) store_empty_ok [OF assms(1), of dst ctx]
    by (cases "?A = {}") (auto simp: sinter_store_def Let_def)
qed

section \<open>The loop\<close>

lemma set_until_ok:
  assumes "set_before env s (setTypeInitIterator s) ys" "set_wf env s" "fold_until body ys a = Some a'"
  obtains si where "iter_until (setTypeNext env s) body (setTypeInitIterator s) a = Some (a', si)" "setTypeReleaseIterator env s si = Some ()"
proof -
  obtain si zs where si: "iter_until (setTypeNext env s) body (setTypeInitIterator s) a = Some (a', si)" "set_before env s si zs"
    using set_iter.iter_until_fold [OF assms(1,3)] by blast
  then have "setTypeReleaseIterator env s si = Some ()"
    using assms(2) by (cases s; cases si) (auto simp: dict_iter_before_def dictReleaseIterator_ok)
  then show thesis using that si(1) by blast
qed

text \<open>The strings that all the other sets have.\<close>

definition in_others :: "setdb \<Rightarrow> dbkey \<Rightarrow> dbkey list \<Rightarrow> byte list \<Rightarrow> bool" where
  "in_others db k0 ks x \<longleftrightarrow> (\<forall>k\<in>set ks. k \<noteq> k0 \<longrightarrow> x \<in> elems_of db k)"

lemma in_all_step:
  assumes "db_reps env db d" "\<forall>k\<in>set ks. is_set db k" "elem_ok e"
  obtains d' where "in_all_sets env k0 e ks d = Some (in_others db k0 ks (elem_text e), d')" "db_reps env db d'"
proof -
  have "\<forall>k\<in>set ks. is_set d k" using assms(2) db_reps_sets(1) [OF assms(1)] by simp
  from in_all_sets_ok [OF db_reps_done(3) [OF assms(1)] this assms(3), of k0] show thesis
    using that db_reps_trans [OF assms(1)] db_reps_sets(2) [OF assms(1)] by (auto simp: in_others_def)
qed

lemma sinter_count_ok:
  assumes "set_db_ok env db" "\<forall>k\<in>set ks. is_set db k" "list_all elem_ok ys" "si_db a = db" "si_cardinality a = 0"
  shows "\<exists>a'. fold_until (sinter_body env k0 ks enc True limit) ys a = Some a' \<and> db_reps env db (si_db a') \<and>
    si_cardinality a' = (let n = length (filter (in_others db k0 ks \<circ> elem_text) ys) in if limit = 0 then n else min limit n)"
proof -
  let ?n = "\<lambda>us. length (filter (in_others db k0 ks \<circ> elem_text) us)"
  let ?I = "\<lambda>us (a :: sinter_acc). db_reps env db (si_db a) \<and> si_cardinality a = ?n us \<and> (limit = 0 \<or> ?n us < limit)"
  let ?Q = "\<lambda>a :: sinter_acc. db_reps env db (si_db a) \<and> si_cardinality a = limit \<and> limit \<noteq> 0 \<and> limit \<le> ?n ys"
  have "\<exists>a'. fold_until (sinter_body env k0 ks enc True limit) ys a = Some a' \<and> (?I ys a' \<or> ?Q a')"
  proof (rule fold_until_invariant)
    show "?I [] a" using assms db_reps_refl by auto
    fix us u ws and b :: sinter_acc assume u: "ys = us @ u # ws" "?I us b"
    have ok: "elem_ok u" using assms(3) u(1) by simp
    obtain d where d: "in_all_sets env k0 u ks (si_db b) = Some (in_others db k0 ks (elem_text u), d)" "db_reps env db d"
      using in_all_step [of env db "si_db b" ks u k0] u(2) assms(2) ok by metis
    have "?n (us @ [u]) \<le> ?n ys" using u(1) by simp
    then show "\<exists>stop b'. sinter_body env k0 ks enc True limit u b = Some (stop, b') \<and> (if stop then ?Q b' else ?I (us @ [u]) b')"
      using d u(2) by (auto simp: sinter_body_def Let_def)
  qed
  then show ?thesis by (auto simp: Let_def)
qed

lemma sinter_reply_ok:
  assumes "set_db_ok env db" "\<forall>k\<in>set ks. is_set db k" "list_all elem_ok ys" "si_db a = db" "si_cardinality a = 0" "si_replies a = []" "si_dstset a = None"
  shows "\<exists>a'. fold_until (sinter_body env k0 ks enc False limit) ys a = Some a' \<and> db_reps env db (si_db a') \<and> si_dstset a' = None \<and>
    si_replies a' = filter (in_others db k0 ks) (map elem_text ys) \<and> si_cardinality a' = length (si_replies a')"
proof -
  let ?I = "\<lambda>us (a :: sinter_acc). db_reps env db (si_db a) \<and> si_dstset a = None \<and> si_replies a = filter (in_others db k0 ks) (map elem_text us) \<and>
    si_cardinality a = length (si_replies a)"
  have "\<exists>a'. fold_until (sinter_body env k0 ks enc False limit) ys a = Some a' \<and> (?I ys a' \<or> False)"
  proof (rule fold_until_invariant)
    show "?I [] a" using assms db_reps_refl by auto
    fix us u ws and b :: sinter_acc assume u: "ys = us @ u # ws" "?I us b"
    have ok: "elem_ok u" using assms(3) u(1) by simp
    obtain d where d: "in_all_sets env k0 u ks (si_db b) = Some (in_others db k0 ks (elem_text u), d)" "db_reps env db d"
      using in_all_step [of env db "si_db b" ks u k0] u(2) assms(2) ok by metis
    have "elem_string env u = elem_text u" using assms(3) u(1) elem_string_eq by simp
    then show "\<exists>stop b'. sinter_body env k0 ks enc False limit u b = Some (stop, b') \<and> (if stop then False else ?I (us @ [u]) b')"
      using d u(2) by (auto simp: sinter_body_def Let_def)
  qed
  then show ?thesis by auto
qed

lemma sinter_collect_ok:
  assumes "set_db_ok env db" "\<forall>k\<in>set ks. is_set db k" "list_all elem_ok ys" "set_env_ok env" "si_db a = db"
    "si_dstset a = Some s0" "set_inv env s0" "set_members s0 = {}"
  shows "\<exists>a' s. fold_until (sinter_body env k0 ks enc False limit) ys a = Some a' \<and> db_reps env db (si_db a') \<and> si_dstset a' = Some s \<and> set_inv env s \<and>
    set_members s = set (filter (in_others db k0 ks) (map elem_text ys)) \<and> (si_only_integers a' \<longrightarrow> (\<forall>x\<in>set_members s. string2ll x \<noteq> None))"
proof -
  let ?I = "\<lambda>us (a :: sinter_acc). db_reps env db (si_db a) \<and> (\<exists>s. si_dstset a = Some s \<and> set_inv env s \<and>
    set_members s = set (filter (in_others db k0 ks) (map elem_text us)) \<and> (si_only_integers a \<longrightarrow> (\<forall>x\<in>set_members s. string2ll x \<noteq> None)))"
  have "\<exists>a'. fold_until (sinter_body env k0 ks enc False limit) ys a = Some a' \<and> (?I ys a' \<or> False)"
  proof (rule fold_until_invariant)
    show "?I [] a" using assms db_reps_refl by auto
    fix us u ws and b :: sinter_acc assume u: "ys = us @ u # ws" "?I us b"
    have ok: "elem_ok u" using assms(3) u(1) by simp
    obtain d where d: "in_all_sets env k0 u ks (si_db b) = Some (in_others db k0 ks (elem_text u), d)" "db_reps env db d"
      using in_all_step [of env db "si_db b" ks u k0] u(2) assms(2) ok by metis
    obtain s where s: "si_dstset b = Some s" "set_inv env s" "set_members s = set (filter (in_others db k0 ks) (map elem_text us))"
      "si_only_integers b \<longrightarrow> (\<forall>x\<in>set_members s. string2ll x \<noteq> None)" using u(2) by blast
    obtain e' ints where e': "sinter_elem enc s (si_only_integers b) u = (e', ints)" by (cases "sinter_elem enc s (si_only_integers b) u")
    note el = sinter_elem_ok [OF ok e']
    obtain s' where "setTypeAddAux env s e' = Some (elem_text u \<notin> set_members s, s')" "set_inv env s'" "set_members s' = insert (elem_text u) (set_members s)"
      using setTypeAddAux_ok [OF s(2) el(2) assms(4)] el(1) by (auto simp: set_result_def)
    then show "\<exists>stop b'. sinter_body env k0 ks enc False limit u b = Some (stop, b') \<and> (if stop then False else ?I (us @ [u]) b')"
      using d s e' el(3) by (cases "in_others db k0 ks (elem_text u)") (auto simp: sinter_body_def Let_def)
  qed
  then show ?thesis by auto
qed

section \<open>The commands\<close>

text \<open>The result of a loop, counted up to a limit, replied or stored.\<close>

definition spec_inter_result :: "dbkey option \<Rightarrow> bool \<Rightarrow> nat \<Rightarrow> byte list set \<Rightarrow> aobj keyspace \<Rightarrow> cmd_res \<times> aobj keyspace" where
  "spec_inter_result dstkey cardinality_only limit A K =
     (if cardinality_only then (R_reply (Rep_int (int (if limit = 0 then card A else min limit (card A)))), K) else spec_result dstkey A K)"

lemma sinter_sets_ok:
  assumes "set_db_ok env db" "db_writable ctx" "set_env_ok env" "is_set db k0" "\<forall>k\<in>set ks. is_set db k" "co \<Longrightarrow> dstkey = None"
  defines "A \<equiv> {x \<in> elems_of db k0. in_others db k0 ks x}"
  shows "\<exists>r db'. sinter_sets env ctx k0 ks dstkey co limit db = Some (r, db') \<and>
    spec_inter_result dstkey co limit A (keyspace ctx db) = (reply_res r, keyspace ctx db') \<and> set_db_done env ctx db db'"
proof -
  obtain s ys where s: "set_at db k0 = Some s" "set_inv env s" "elems_of db k0 = elem_text ` set ys" "list_all elem_ok ys" "distinct (map elem_text ys)"
    "set_before env s (setTypeInitIterator s) ys" by (rule set_at_loop [OF assms(1,4)])
  have wf: "set_wf env s" using s(2) by (rule set_inv_wf)
  let ?ys = "filter (in_others db k0 ks) (map elem_text ys)"
  have A: "set ?ys = A" "distinct ?ys" "length ?ys = card A" "mset ?ys = mset_set A"
  proof -
    show A: "set ?ys = A" "distinct ?ys" using s(3,5) by (auto simp: A_def)
    show "length ?ys = card A" "mset ?ys = mset_set A" using A distinct_card [OF A(2)] mset_set_set [OF A(2)] by simp_all
  qed
  let ?a = "\<lparr>si_db = db, si_cardinality = 0, si_replies = [], si_only_integers = True, si_dstset = (if dstkey = None then None else Some (sinter_dstset env s))\<rparr>"
  have run: "sinter_sets env ctx k0 ks dstkey co limit db =
      (if co then Some (Rep_int (int (si_cardinality a')), si_db a')
       else (case (dstkey, si_dstset a') of
            (Some dstkey, Some dstset) \<Rightarrow> sinter_store env ctx dstkey (si_only_integers a') dstset (si_db a')
          | _ \<Rightarrow> Some (Rep_set (si_cardinality a') (si_replies a'), si_db a')))"
    if fold: "fold_until (sinter_body env k0 ks (set_encoding_of s) co limit) ys ?a = Some a'" for a'
  proof -
    obtain si where "iter_until (setTypeNext env s) (sinter_body env k0 ks (set_encoding_of s) co limit) (setTypeInitIterator s) ?a = Some (a', si)"
      "setTypeReleaseIterator env s si = Some ()" by (rule set_until_ok [OF s(6) wf fold])
    then show ?thesis using s(1) unfolding sinter_sets_def by simp
  qed
  show ?thesis
  proof (cases co)
    case True
    obtain a' where a': "fold_until (sinter_body env k0 ks (set_encoding_of s) True limit) ys ?a = Some a'" "db_reps env db (si_db a')"
      "si_cardinality a' = (if limit = 0 then card A else min limit (card A))"
      using sinter_count_ok [OF assms(1,5) s(4), of ?a k0 "set_encoding_of s" limit] A(3) by (auto simp: Let_def filter_map)
    show ?thesis using run [of a'] a'(1,3) True db_reps_done(1,2) [OF a'(2), of ctx] by (simp add: spec_inter_result_def)
  next
    case False
    show ?thesis
    proof (cases dstkey)
      case None
      obtain a' where a': "fold_until (sinter_body env k0 ks (set_encoding_of s) False limit) ys ?a = Some a'" "db_reps env db (si_db a')"
        "si_replies a' = ?ys" "si_cardinality a' = card A"
        using sinter_reply_ok [OF assms(1,5) s(4), of ?a k0 "set_encoding_of s" limit] None A(3) by auto
      show ?thesis using run [of a'] a'(1,3,4) False None A(4) db_reps_done(1,2) [OF a'(2), of ctx]
        by (simp add: spec_inter_result_def spec_result_def)
    next
      case (Some dst)
      obtain a' t where a': "fold_until (sinter_body env k0 ks (set_encoding_of s) False limit) ys ?a = Some a'" "db_reps env db (si_db a')"
        "si_dstset a' = Some t" "set_inv env t" "set_members t = A" "si_only_integers a' \<longrightarrow> (\<forall>x\<in>A. string2ll x \<noteq> None)"
        using sinter_collect_ok [OF assms(1,5) s(4) assms(3), of ?a "sinter_dstset env s" k0 "set_encoding_of s" limit] Some sinter_dstset_ok [of env s] A(1) by auto
      note reps = db_reps_done [OF a'(2)]
      obtain r db' where r: "sinter_store env ctx dst (si_only_integers a') t (si_db a') = Some (r, db')"
        "spec_store dst A (keyspace ctx db) = (r, keyspace ctx db')" "set_db_done env ctx (si_db a') db'"
        using sinter_store_ok [OF reps(3) assms(2,3) a'(4), of "si_only_integers a'" dst] a'(5,6) reps(1) [of ctx] by auto
      have "reply_res r = R_reply r" using r(2) by (auto simp: spec_store_def)
      then show ?thesis using run [of a'] a'(1,3) False Some r db_done_trans [OF reps(2) r(3)]
        by (simp add: spec_inter_result_def spec_result_def)
    qed
  qed
qed

definition spec_sinter :: "dbkey list \<Rightarrow> dbkey option \<Rightarrow> bool \<Rightarrow> nat \<Rightarrow> aobj keyspace \<Rightarrow> cmd_res \<times> aobj keyspace" where
  "spec_sinter ks dstkey cardinality_only limit K =
     (if \<exists>k\<in>set ks. bad_key K k then (R_reply (Rep_err wrongtypeerr), K)
      else spec_inter_result dstkey cardinality_only limit (inter_of ks K) K)"

text \<open>The intersection in the order of the sizes.\<close>

lemma inter_sorted:
  assumes "set (k0 # ks') = set ks" "\<forall>k\<in>set ks. elems_of d k = key_set K k"
  shows "{x \<in> elems_of d k0. in_others d k0 ks' x} = inter_of ks K"
proof (rule set_eqI)
  fix x
  have "x \<in> {x \<in> elems_of d k0. in_others d k0 ks' x} \<longleftrightarrow> (\<forall>k\<in>set ks. x \<in> elems_of d k)"
    unfolding in_others_def assms(1) [symmetric] by auto
  then show "x \<in> {x \<in> elems_of d k0. in_others d k0 ks' x} \<longleftrightarrow> x \<in> inter_of ks K" using assms(2) by (simp add: inter_of_def)
qed

lemma sinter_ok:
  assumes "set_db_ok env db" "db_writable ctx" "set_env_ok env" "qsort_ok qsort" "ks \<noteq> []" "co \<Longrightarrow> dstkey = None"
  shows "\<exists>r db'. sinterGenericCommand env ctx qsort ks dstkey co limit db = Some (r, db') \<and>
    spec_sinter ks dstkey co limit (keyspace ctx db) = (reply_res r, keyspace ctx db') \<and> set_db_done env ctx db db'"
proof -
  let ?K = "keyspace ctx db"
  obtain d where d: "lookup_sets ctx ks db = (if \<exists>k\<in>set ks. bad_key ?K k then None else Some (set_ptrs ?K ks), d)"
    "keyspace ctx d = ?K" "set_db_done env ctx db d" using lookup_sets_ok [OF assms(1), of ctx ks] by (auto simp: set_ptrs_def)
  have d_ok: "set_db_ok env d" using d(3) by (simp add: db_done_def)
  consider (bad) "\<exists>k\<in>set ks. bad_key ?K k" | (empty) k where "\<forall>k\<in>set ks. \<not> bad_key ?K k" "k \<in> set ks" "?K k = None"
    | (all) "\<forall>k\<in>set ks. \<not> bad_key ?K k" "\<forall>k\<in>set ks. ?K k \<noteq> None" by blast
  then show ?thesis
  proof cases
    case bad
    then show ?thesis using d by (auto simp: sinterGenericCommand_def spec_sinter_def)
  next
    case (empty k)
    then have inter: "inter_of ks ?K = {}" by (auto simp: inter_of_def key_set_def intro!: bexI [of _ k])
    have none: "None \<in> set (set_ptrs ?K ks)" using empty(2,3) by (force simp: set_ptrs_def)
    have res: "reply_res r = R_reply r" if "spec_store dst B K = (r, K')" for dst B r K K' using that by (auto simp: spec_store_def)
    show ?thesis using empty(1) d inter none assms(6) store_empty_ok [OF d_ok, of "the dstkey" ctx] db_done_trans [OF d(3)] res
      by (cases dstkey) (auto simp: sinterGenericCommand_def spec_sinter_def spec_inter_result_def spec_result_def)
  next
    case all
    then have ptrs: "set_ptrs ?K ks = map Some ks" by (simp add: set_ptrs_def)
    have sets: "\<forall>k\<in>set ks. is_set d k" "\<forall>k\<in>set ks. elems_of d k = key_set ?K k" using keyspace_set [of ctx d] all d(2) by auto
    then have "valid_sets d (map Some ks)" by (auto simp: valid_sets_def)
    then obtain sets' e where e: "sort_sets qsort qsortCompareSetsByCardinality (map Some ks) d = Some (sets', e)" "mset sets' = mset (map Some ks)" "db_reps env d e"
      using sort_sets_ok [OF d_ok _ assms(4)] by metis
    have "set (map the sets') = set ks" using mset_eq_setD [OF e(2)] by force
    then obtain k0 ks' where k0: "map the sets' = k0 # ks'" "set (k0 # ks') = set ks" using assms(5) by (cases "map the sets'") auto
    note reps = db_reps_done [OF e(3)] db_reps_sets [OF e(3)]
    have e_sets: "is_set e k0" "\<forall>k\<in>set ks'. is_set e k" "\<forall>k\<in>set ks. elems_of e k = key_set ?K k" using k0(2) sets reps(4,5) by auto
    from sinter_sets_ok [OF reps(3) assms(2,3) e_sets(1,2) assms(6), where limit = limit] obtain r db' where
      "sinter_sets env ctx k0 ks' dstkey co limit e = Some (r, db')" "set_db_done env ctx e db'"
      "spec_inter_result dstkey co limit (inter_of ks ?K) ?K = (reply_res r, keyspace ctx db')"
      unfolding inter_sorted [OF k0(2) e_sets(3)] reps(1) d(2) by blast
    moreover have "None \<notin> set (map Some ks)" by auto
    ultimately show ?thesis using d(1) ptrs all(1) e(1) k0(1) db_done_trans [OF db_done_trans [OF d(3) reps(2)]]
      by (simp add: sinterGenericCommand_def spec_sinter_def)
  qed
qed

end
