(* ===== verification/Redis_Set_Run.thy ===== *)
theory Redis_Set_Run
  imports Redis_Set_Inter
begin

text \<open>
  Sequences of commands on keys, expire times and sets, with time passing between them, refine the abstract keyspace; and each command
  signals the keys that it changes.
\<close>

section \<open>Commands\<close>

text \<open>
  \<open>Expire\<close> stands for \<open>EXPIRE\<close>, \<open>PEXPIRE\<close>, \<open>EXPIREAT\<close> and \<open>PEXPIREAT\<close> (a time from now on, in seconds),
  \<open>Ttl\<close> for \<open>TTL\<close>, \<open>PTTL\<close>, \<open>EXPIRETIME\<close> and \<open>PEXPIRETIME\<close>. \<open>Pass\<close> is time that passes.
\<close>

datatype db_cmd =
    Sadd dbkey "byte list list" | Srem dbkey "byte list list" | Smove dbkey dbkey "byte list"
  | Sismember dbkey "byte list" | Smismember dbkey "byte list list" | Scard dbkey
  | Sinter "dbkey list" | Sinterstore dbkey "dbkey list" | Sintercard "byte list" "byte list list"
  | Sunion "dbkey list" | Sunionstore dbkey "dbkey list" | Sdiff "dbkey list" | Sdiffstore dbkey "dbkey list"
  | Del "dbkey list" | Exists "dbkey list" | Touch "dbkey list" | Rename bool dbkey dbkey
  | Expire bool bool dbkey "byte list" "byte list list" | Ttl bool bool dbkey | Persist dbkey | Pass nat

fun run_expire :: "bool \<Rightarrow> bool \<Rightarrow> server_ctx \<Rightarrow> dbkey \<Rightarrow> byte list \<Rightarrow> byte list list \<Rightarrow> setdb \<Rightarrow> (reply \<times> setdb) option" where
  "run_expire True True = expireCommand"
| "run_expire True False = pexpireCommand"
| "run_expire False True = expireatCommand"
| "run_expire False False = pexpireatCommand"

fun exec_cmd :: "set_env \<Rightarrow> server_ctx \<Rightarrow> qsort_fun \<Rightarrow> db_cmd \<Rightarrow> setdb \<Rightarrow> (reply \<times> setdb) option" where
  "exec_cmd env ctx qsort (Sadd k vs) db = saddCommand env ctx k vs db"
| "exec_cmd env ctx qsort (Srem k vs) db = sremCommand env ctx k vs db"
| "exec_cmd env ctx qsort (Smove src dst v) db = smoveCommand env ctx src dst v db"
| "exec_cmd env ctx qsort (Sismember k v) db = sismemberCommand env ctx k v db"
| "exec_cmd env ctx qsort (Smismember k vs) db = smismemberCommand env ctx k vs db"
| "exec_cmd env ctx qsort (Scard k) db = scardCommand ctx k db"
| "exec_cmd env ctx qsort (Sinter ks) db = sinterCommand env ctx qsort ks db"
| "exec_cmd env ctx qsort (Sinterstore dst ks) db = sinterstoreCommand env ctx qsort dst ks db"
| "exec_cmd env ctx qsort (Sintercard n args) db = sinterCardCommand env ctx qsort n args db"
| "exec_cmd env ctx qsort (Sunion ks) db = sunionCommand env ctx qsort ks db"
| "exec_cmd env ctx qsort (Sunionstore dst ks) db = sunionstoreCommand env ctx qsort dst ks db"
| "exec_cmd env ctx qsort (Sdiff ks) db = sdiffCommand env ctx qsort ks db"
| "exec_cmd env ctx qsort (Sdiffstore dst ks) db = sdiffstoreCommand env ctx qsort dst ks db"
| "exec_cmd env ctx qsort (Del ks) db = Some (delGenericCommand ctx ks db)"
| "exec_cmd env ctx qsort (Exists ks) db = Some (existsCommand ctx ks db)"
| "exec_cmd env ctx qsort (Touch ks) db = Some (touchCommand ctx ks db)"
| "exec_cmd env ctx qsort (Rename nx src dst) db = renameGenericCommand ctx nx src dst db"
| "exec_cmd env ctx qsort (Expire rel secs k param args) db = run_expire rel secs ctx k param args db"
| "exec_cmd env ctx qsort (Ttl ms at k) db = ttlGenericCommand ctx ms at k db"
| "exec_cmd env ctx qsort (Persist k) db = Some (persistCommand ctx k db)"
| "exec_cmd env ctx qsort (Pass n) db = Some (Rep_ok, db\<lparr>clock := clock db + int n\<rparr>)"

text \<open>Before each command it is given whether dictionaries may be resized, which depends on child processes.\<close>

definition cmd_step :: "set_env \<Rightarrow> server_ctx \<Rightarrow> qsort_fun \<Rightarrow> dict_resize \<times> db_cmd \<Rightarrow> setdb \<Rightarrow> (cmd_res \<times> setdb) option" where
  "cmd_step env ctx qsort x db = map_option (apfst reply_res) (exec_cmd (env\<lparr>can_resize := fst x\<rparr>) ctx qsort (snd x) db)"

section \<open>The abstract keyspace\<close>

definition keys_at :: "int \<Rightarrow> 'a keyspace \<Rightarrow> 'a keyspace" where
  "keys_at now K k = (case K k of Some (v, Some t) \<Rightarrow> if t < now then None else Some (v, Some t) | x \<Rightarrow> x)"

definition spec_sintercard :: "byte list \<Rightarrow> byte list list \<Rightarrow> aobj keyspace \<Rightarrow> cmd_res \<times> aobj keyspace" where
  "spec_sintercard numkeys args K =
     (case getRangeLongFromObjectOrReply numkeys 1 LONG_MAX ''numkeys should be greater than 0'' of
        Inl e \<Rightarrow> (R_reply (Rep_err e), K)
      | Inr n \<Rightarrow>
          if n > int (length args) then (R_reply (Rep_err (Err_text ''Number of keys can't be greater than number of args'')), K)
          else (case sintercard_limit (drop (nat n) args) 0 of
                  Inl e \<Rightarrow> (R_reply (Rep_err e), K)
                | Inr limit \<Rightarrow> spec_sinter (take (nat n) args) None True (nat limit) K))"

fun spec_cmd :: "int \<Rightarrow> db_cmd \<Rightarrow> aobj keyspace \<Rightarrow> cmd_res \<times> aobj keyspace" where
  "spec_cmd now (Sadd k vs) K = apfst R_reply (spec_sadd k vs K)"
| "spec_cmd now (Srem k vs) K = apfst R_reply (spec_srem k vs K)"
| "spec_cmd now (Smove src dst v) K = apfst R_reply (spec_smove src dst v K)"
| "spec_cmd now (Sismember k v) K = (R_reply (spec_sismember k v K), K)"
| "spec_cmd now (Smismember k vs) K = (R_reply (spec_smismember k vs K), K)"
| "spec_cmd now (Scard k) K = (R_reply (spec_scard k K), K)"
| "spec_cmd now (Sinter ks) K = spec_sets inter_of ks None K"
| "spec_cmd now (Sinterstore dst ks) K = spec_sets inter_of ks (Some dst) K"
| "spec_cmd now (Sintercard n args) K = spec_sintercard n args K"
| "spec_cmd now (Sunion ks) K = spec_sets union_of ks None K"
| "spec_cmd now (Sunionstore dst ks) K = spec_sets union_of ks (Some dst) K"
| "spec_cmd now (Sdiff ks) K = spec_sets diff_of ks None K"
| "spec_cmd now (Sdiffstore dst ks) K = spec_sets diff_of ks (Some dst) K"
| "spec_cmd now (Del ks) K = apfst R_reply (spec_del ks K)"
| "spec_cmd now (Exists ks) K = (R_reply (spec_exists ks K), K)"
| "spec_cmd now (Touch ks) K = (R_reply (spec_exists ks K), K)"
| "spec_cmd now (Rename nx src dst) K = apfst R_reply (spec_rename nx src dst K)"
| "spec_cmd now (Expire rel secs k param args) K = apfst R_reply (spec_expire now (if rel then now else 0) secs k param args K)"
| "spec_cmd now (Ttl ms at k) K = (R_reply (spec_ttl now ms at k K), K)"
| "spec_cmd now (Persist k) K = apfst R_reply (spec_persist k K)"
| "spec_cmd now (Pass n) K = (R_reply Rep_ok, keys_at (now + int n) K)"

fun time_after :: "int \<Rightarrow> db_cmd \<Rightarrow> int" where
  "time_after now (Pass n) = now + int n"
| "time_after now c = now"

definition spec_step :: "dict_resize \<times> db_cmd \<Rightarrow> int \<times> aobj keyspace \<Rightarrow> cmd_res \<times> int \<times> aobj keyspace" where
  "spec_step x a = (case spec_cmd (fst a) (snd x) (snd a) of (r, K) \<Rightarrow> (r, time_after (fst a) (snd x), K))"

text \<open>
  What the table of commands and the code rely on: a command has the keys and elements that its arity asks for, and the sum of a
  time to live, in milliseconds, that is replied in seconds does not overflow.
\<close>

fun cmd_guard :: "db_cmd \<Rightarrow> int \<times> aobj keyspace \<Rightarrow> bool" where
  "cmd_guard (Sadd k vs) a \<longleftrightarrow> vs \<noteq> []"
| "cmd_guard (Sinter ks) a \<longleftrightarrow> ks \<noteq> []"
| "cmd_guard (Sinterstore dst ks) a \<longleftrightarrow> ks \<noteq> []"
| "cmd_guard (Sunion ks) a \<longleftrightarrow> ks \<noteq> []"
| "cmd_guard (Sunionstore dst ks) a \<longleftrightarrow> ks \<noteq> []"
| "cmd_guard (Sdiff ks) a \<longleftrightarrow> ks \<noteq> []"
| "cmd_guard (Sdiffstore dst ks) a \<longleftrightarrow> ks \<noteq> []"
| "cmd_guard (Ttl ms at k) (now, K) \<longleftrightarrow>
     ms \<or> (case K k of Some (_, Some t) \<Rightarrow> (if at then t else t - now) + 500 \<le> LLONG_MAX | _ \<Rightarrow> True)"
| "cmd_guard c a \<longleftrightarrow> True"

section \<open>Refinement\<close>

lemma obj_ok_resize [simp]: "obj_ok (env\<lparr>can_resize := R\<rparr>) = obj_ok env"
proof
  show "obj_ok (env\<lparr>can_resize := R\<rparr>) v = obj_ok env v" for v by (cases v) simp_all
qed

lemma spec_sinter_sets: "spec_sinter ks dstkey False 0 = spec_sets inter_of ks dstkey"
  by (rule ext) (simp add: spec_sinter_def spec_sets_def spec_inter_result_def)

lemma expire_cmd_ok:
  assumes "set_db_ok env db" "is_master ctx" "0 \<le> clock db"
  shows "\<exists>r db'. run_expire rel secs ctx k param args db = Some (r, db') \<and>
    spec_expire (clock db) (if rel then clock db else 0) secs k param args (keyspace ctx db) = (r, keyspace ctx db') \<and> set_db_done env ctx db db'"
  using expire_ok [OF assms, of "if rel then clock db else 0" secs k param args obj_abs]
  by (cases rel; cases secs) (auto simp: expireCommand_def pexpireCommand_def expireatCommand_def pexpireatCommand_def)

lemma sintercard_ok:
  assumes "set_db_ok env db" "db_writable ctx" "set_env_ok env" "qsort_ok qsort"
  shows "\<exists>r db'. sinterCardCommand env ctx qsort n args db = Some (r, db') \<and>
    spec_sintercard n args (keyspace ctx db) = (reply_res r, keyspace ctx db') \<and> set_db_done env ctx db db'"
proof -
  have refl: "set_db_done env ctx db db" using assms(1) by (simp add: db_done_same)
  show ?thesis
  proof (cases "getRangeLongFromObjectOrReply n 1 LONG_MAX ''numkeys should be greater than 0''")
    case (Inl e)
    then show ?thesis using refl by (simp add: sinterCardCommand_def spec_sintercard_def)
  next
    case (Inr m)
    then have "1 \<le> m" by (auto simp: getRangeLongFromObjectOrReply_def split: sum.splits if_splits)
    then have "take (nat m) args \<noteq> []" if "\<not> m > int (length args)" using that by auto
    then show ?thesis using Inr refl sinter_ok [OF assms, of "take (nat m) args" True None]
      by (auto simp: sinterCardCommand_def spec_sintercard_def split: sum.split)
  qed
qed

lemma spec_replies [simp]:
  "reply_res (fst (spec_sadd k vs K)) = R_reply (fst (spec_sadd k vs K))" "reply_res (fst (spec_srem k vs K)) = R_reply (fst (spec_srem k vs K))"
  "reply_res (fst (spec_smove k j v K)) = R_reply (fst (spec_smove k j v K))" "reply_res (spec_sismember k v K) = R_reply (spec_sismember k v K)"
  "reply_res (spec_smismember k vs K) = R_reply (spec_smismember k vs K)" "reply_res (spec_scard k K) = R_reply (spec_scard k K)"
  by (simp_all add: spec_sadd_def spec_srem_def spec_smove_def spec_sismember_def spec_smismember_def spec_scard_def)

lemma spec_key_replies [simp]:
  "reply_res (fst (spec_del ks L)) = R_reply (fst (spec_del ks L))" "reply_res (spec_exists ks L) = R_reply (spec_exists ks L)"
  "reply_res (fst (spec_rename nx k j L)) = R_reply (fst (spec_rename nx k j L))"
  "reply_res (fst (spec_expire now b u k p as L)) = R_reply (fst (spec_expire now b u k p as L))"
  "reply_res (spec_ttl now ms at k L) = R_reply (spec_ttl now ms at k L)" "reply_res (fst (spec_persist k L)) = R_reply (fst (spec_persist k L))"
  by (simp_all add: spec_del_def spec_exists_def spec_rename_def spec_ttl_def spec_persist_def spec_expire_def spec_expire_at_def Let_def
      split: option.split sum.split prod.split)

text \<open>A specification that gives a reply and a keyspace.\<close>

lemma spec_with_reply:
  assumes "\<exists>r db'. q = Some (r, db') \<and> sp = (r, keyspace ctx db') \<and> D db'" "reply_res (fst sp) = R_reply (fst sp)"
  shows "\<exists>r db'. q = Some (r, db') \<and> apfst R_reply sp = (reply_res r, keyspace ctx db') \<and> D db'"
  using assms by auto

lemma spec_with_read:
  assumes "\<exists>db'. q = Some (sp, db') \<and> keyspace ctx db' = K \<and> D db'" "reply_res sp = R_reply sp"
  shows "\<exists>r db'. q = Some (r, db') \<and> (R_reply sp, K) = (reply_res r, keyspace ctx db') \<and> D db'"
  using assms by auto

lemma exec_cmd_ok:
  assumes "set_db_ok env db" "is_master ctx" "0 \<le> clock db" "set_env_ok env" "qsort_ok qsort" "cmd_guard c (clock db, keyspace ctx db)" "\<forall>n. c \<noteq> Pass n"
  shows "\<exists>r db'. exec_cmd env ctx qsort c db = Some (r, db') \<and> spec_cmd (clock db) c (keyspace ctx db) = (reply_res r, keyspace ctx db') \<and> set_db_done env ctx db db'"
proof -
  note w = is_master_writable [OF assms(2)]
  note union = union_diff_ok [OF assms(1) w assms(4,5), where op' = SET_OP_UNION, simplified]
    and diff = union_diff_ok [OF assms(1) w assms(4,5), where op' = SET_OP_DIFF, simplified]
    and inter = sinter_ok [OF assms(1) w assms(4,5), where co = False and limit = 0, simplified, unfolded spec_sinter_sets]
  show ?thesis
  proof (cases c)
    case (Sadd k vs)
    with sadd_ok [OF assms(1) w assms(4)] assms(6) show ?thesis by (simp only: exec_cmd.simps spec_cmd.simps) (rule spec_with_reply, simp_all)
  next
    case (Srem k vs)
    with srem_ok [OF assms(1) w] show ?thesis by (simp only: exec_cmd.simps spec_cmd.simps) (rule spec_with_reply, simp_all)
  next
    case (Smove src dst v)
    with smove_ok [OF assms(1) w assms(4)] show ?thesis by (simp only: exec_cmd.simps spec_cmd.simps) (rule spec_with_reply, simp_all)
  next
    case (Sismember k v)
    with sismember_ok [OF assms(1)] show ?thesis by (simp only: exec_cmd.simps spec_cmd.simps) (rule spec_with_read, simp_all)
  next
    case (Smismember k vs)
    with smismember_ok [OF assms(1)] show ?thesis by (simp only: exec_cmd.simps spec_cmd.simps) (rule spec_with_read, simp_all)
  next
    case (Scard k)
    with scard_ok [OF assms(1)] show ?thesis by (simp only: exec_cmd.simps spec_cmd.simps) (rule spec_with_read, simp_all)
  next
    case (Del ks)
    from del_loop_ok [OF assms(1,2), of ks 0 obj_abs] Del show ?thesis
      by (simp only: exec_cmd.simps spec_cmd.simps) (rule spec_with_reply, auto simp: delGenericCommand_def spec_del_def)
  next
    case (Exists ks)
    from count_lookups_ok [OF assms(1), of ctx "{LOOKUP_NOTOUCH}" ks 0 obj_abs] Exists show ?thesis
      by (simp only: exec_cmd.simps spec_cmd.simps) (rule spec_with_read, auto simp: existsCommand_def spec_exists_def)
  next
    case (Touch ks)
    from count_lookups_ok [OF assms(1), of ctx "{}" ks 0 obj_abs] Touch show ?thesis
      by (simp only: exec_cmd.simps spec_cmd.simps) (rule spec_with_read, auto simp: touchCommand_def spec_exists_def)
  next
    case (Rename nx src dst)
    with rename_ok [OF assms(1) w, of nx src dst obj_abs] show ?thesis by (simp only: exec_cmd.simps spec_cmd.simps) (rule spec_with_reply, simp_all)
  next
    case (Expire rel secs k param args)
    with expire_cmd_ok [OF assms(1-3)] show ?thesis by (simp only: exec_cmd.simps spec_cmd.simps) (rule spec_with_reply, simp_all)
  next
    case (Ttl ms at k)
    with ttl_ok [OF assms(1-3), where ms = ms and f = obj_abs and k = k and at = at] assms(6) show ?thesis by (simp only: exec_cmd.simps spec_cmd.simps) (rule spec_with_read, simp_all)
  next
    case (Persist k)
    with persist_ok [OF assms(1) w, of k obj_abs] show ?thesis by (simp only: exec_cmd.simps spec_cmd.simps) (rule spec_with_reply, auto)
  next
    case (Sintercard n args)
    with sintercard_ok [OF assms(1) w assms(4,5)] show ?thesis by simp
  next
    case (Sinter ks)
    with inter [of ks None] assms(6) show ?thesis by (simp add: sinterCommand_def)
  next
    case (Sinterstore dst ks)
    with inter [of ks "Some dst"] assms(6) show ?thesis by (simp add: sinterstoreCommand_def)
  next
    case (Sunion ks)
    with union [of ks None] assms(6) show ?thesis by (simp add: sunionCommand_def)
  next
    case (Sunionstore dst ks)
    with union [of ks "Some dst"] assms(6) show ?thesis by (simp add: sunionstoreCommand_def)
  next
    case (Sdiff ks)
    with diff [of ks None] assms(6) show ?thesis by (simp add: sdiffCommand_def)
  next
    case (Sdiffstore dst ks)
    with diff [of ks "Some dst"] assms(6) show ?thesis by (simp add: sdiffstoreCommand_def)
  qed (use assms(7) in simp)
qed

text \<open>Time that passes hides the keys whose time is over.\<close>

lemma pass_ok:
  assumes "set_db_ok env db" "is_master ctx"
  shows "keyspace ctx (db\<lparr>clock := clock db + int n\<rparr>) = keys_at (clock db + int n) (keyspace ctx db)" "set_db_ok env (db\<lparr>clock := clock db + int n\<rparr>)"
proof -
  have pos: "0 \<le> t" if "db_expires db k = Some t" for k t using db_inv_expires [OF assms(1) that] .
  show "keyspace ctx (db\<lparr>clock := clock db + int n\<rparr>) = keys_at (clock db + int n) (keyspace ctx db)"
  proof
    fix k
    show "keyspace ctx (db\<lparr>clock := clock db + int n\<rparr>) k = keys_at (clock db + int n) (keyspace ctx db) k"
      using pos [of k] assms(2) by (cases "db_expires db k"; cases "db_keys db k") (auto simp: keys_at_def db_abs_def db_view_eq expired_at_def is_master_def)
  qed
  show "set_db_ok env (db\<lparr>clock := clock db + int n\<rparr>)" using assms(1) by (simp add: db_inv_def db_ok_def)
qed

interpretation cmdsim: guarded_simulation "\<lambda>x. cmd_guard (snd x)"
  "\<lambda>db. set_db_ok env db \<and> 0 \<le> clock db \<and> is_master ctx \<and> set_env_ok env \<and> qsort_ok qsort"
  "\<lambda>db. (clock db, keyspace ctx db)" "cmd_step env ctx qsort" spec_step
  for env ctx qsort
proof
  fix db :: setdb and x :: "dict_resize \<times> db_cmd"
  assume inv: "set_db_ok env db \<and> 0 \<le> clock db \<and> is_master ctx \<and> set_env_ok env \<and> qsort_ok qsort"
    and guard: "cmd_guard (snd x) (clock db, keyspace ctx db)"
  obtain R c where x: "x = (R, c)" by (cases x)
  let ?env = "env\<lparr>can_resize := R\<rparr>"
  show "\<exists>r db'. cmd_step env ctx qsort x db = Some (r, db') \<and> (set_db_ok env db' \<and> 0 \<le> clock db' \<and> is_master ctx \<and> set_env_ok env \<and> qsort_ok qsort) \<and>
    spec_step x (clock db, keyspace ctx db) = (r, clock db', keyspace ctx db')"
  proof (cases "\<exists>n. c = Pass n")
    case True
    then show ?thesis using inv x pass_ok [of env db ctx] by (auto simp: cmd_step_def spec_step_def)
  next
    case False
    from exec_cmd_ok [of ?env db ctx qsort c] inv guard x False obtain r db' where
      "exec_cmd ?env ctx qsort c db = Some (r, db')" "spec_cmd (clock db) c (keyspace ctx db) = (reply_res r, keyspace ctx db')" "set_db_done env ctx db db'" by auto
    moreover have "time_after (clock db) c = clock db" using False by (cases c) auto
    ultimately show ?thesis using inv x by (auto simp: cmd_step_def spec_step_def db_done_def db_grows_def)
  qed
qed

section \<open>Sequences of commands\<close>

text \<open>
  C30: on a master, every sequence of commands on keys, expire times and sets (\<open>SADD\<close>, \<open>SREM\<close>, \<open>SMOVE\<close>, \<open>SISMEMBER\<close>,
  \<open>SMISMEMBER\<close>, \<open>SCARD\<close>, \<open>SINTER\<close>, \<open>SINTERSTORE\<close>, \<open>SINTERCARD\<close>, \<open>SUNION\<close>, \<open>SUNIONSTORE\<close>,
  \<open>SDIFF\<close>, \<open>SDIFFSTORE\<close>, \<open>DEL\<close>, \<open>EXISTS\<close>, \<open>TOUCH\<close>, \<open>RENAME\<close>, \<open>EXPIRE\<close> and its relatives,
  \<open>TTL\<close> and its relatives, \<open>PERSIST\<close>), with time passing between them, runs without a failing assertion or a use of a
  deleted object and gives the replies of an abstract keyspace, in which a key is gone when its time is over and has a set of strings or a
  value of another type: the replies are those of union, intersection and difference of these sets, whatever encodings the sets have,
  whichever algorithm is chosen and whenever expired keys are really deleted. No key is left with an empty set, and only keys that are
  there have an expire time.
\<close>

theorem commands_refine:
  assumes "db_inv (obj_ok env) db" "0 \<le> clock db" "is_master ctx" "set_env_ok env" "qsort_ok qsort"
    "run_guard (\<lambda>x. cmd_guard (snd x)) spec_step cmds (clock db, db_abs obj_abs ctx db)"
  shows "\<exists>rs db'. run_ops (cmd_step env ctx qsort) cmds db = Some (rs, db') \<and> db_inv (obj_ok env) db' \<and>
    run_spec spec_step cmds (clock db, db_abs obj_abs ctx db) = (rs, clock db', db_abs obj_abs ctx db')"
  using cmdsim.guarded_run [of env db ctx qsort cmds] assms by blast

text \<open>A server with one key that has a string.\<close>

definition insertion_qsort :: qsort_fun where
  "insertion_qsort cmp xs = foldr (\<lambda>x ys. takeWhile (\<lambda>y. cmp y x < 0) ys @ x # dropWhile (\<lambda>y. cmp y x < 0) ys) xs []"

lemma insertion_qsort_ok: "qsort_ok insertion_qsort"
proof -
  have "mset (takeWhile P ys @ x # dropWhile P ys) = add_mset x (mset ys)" for P x and ys :: "sized_set list"
    by (metis mset.simps(2) mset_append takeWhile_dropWhile_id union_mset_add_mset_right)
  then have "mset (insertion_qsort cmp xs) = mset xs" for cmp xs by (induction xs) (simp_all add: insertion_qsort_def)
  then show ?thesis by (simp add: qsort_ok_def)
qed

definition master_ctx :: server_ctx where
  "master_ctx = \<lparr>loading = False, lazy_expire_disabled = False, masterhost = False, repl_slave_ro = False, client_master = False,
     expire_paused = False, lazyfree_lazy_expire = False\<rparr>"

definition sample_db :: setdb where
  "sample_db = \<lparr>db_keys = [[115] \<mapsto> Obj_other OBJ_STRING], db_expires = Map.empty, clock = 1000, dirty = 0, keyspace_hits = 0, keyspace_misses = 0,
     expiredkeys = 0, events = []\<rparr>"

lemma sample_db_ok: "db_inv (obj_ok env) sample_db" "0 \<le> clock sample_db" "is_master master_ctx"
  "db_abs obj_abs master_ctx sample_db = [[115] \<mapsto> (A_other OBJ_STRING, None)]" "clock sample_db = 1000"
  by (auto simp: db_inv_def db_ok_def sample_db_def is_master_def master_ctx_def db_abs_def db_view_eq)

definition sample_cmds :: "(dict_resize \<times> db_cmd) list" where
  "sample_cmds = map (Pair DICT_RESIZE_ENABLE)
     [Sadd [97] [[49], [50], [120]], Sadd [98] [[50], [121]], Sinter [[97], [98]], Sdiffstore [99] [[97], [98]], Expire True False [98] [53] [],
      Ttl True False [98], Pass 6, Exists [[98], [97]], Sunion [[98], [99]], Smove [97] [99] [50], Scard [99], Sadd [115] [[49]]]"

lemmas spec_defs = spec_sadd_def bad_key_def key_set_def key_put_def spec_sets_def spec_result_def spec_store_def inter_of_def diff_of_def union_of_def
  spec_expire_def spec_expire_at_def spec_expire_allowed_def spec_ttl_def keys_at_def spec_exists_def spec_smove_def spec_scard_def

lemma parse_five: "string2ll [53] = Some 5" "parseExtendedExpireArgumentsOrReply [] = Inr {}"
  by (code_simp, simp add: parseExtendedExpireArgumentsOrReply_def)

lemma sample_spec:
  "run_spec spec_step sample_cmds (1000, [[115] \<mapsto> (A_other OBJ_STRING, None)]) =
    ([R_reply (Rep_int 3), R_reply (Rep_int 2), R_set 1 {#[50]#}, R_reply (Rep_int 2), R_reply (Rep_int 1), R_reply (Rep_int 5), R_reply Rep_ok,
      R_reply (Rep_int 1), R_set 2 {#[49], [120]#}, R_reply (Rep_int 1), R_reply (Rep_int 3), R_reply (Rep_err wrongtypeerr)],
     1006, [[115] \<mapsto> (A_other OBJ_STRING, None), [97] \<mapsto> (A_set {[49], [120]}, None), [99] \<mapsto> (A_set {[49], [120], [50]}, None)])"
  by (auto simp: sample_cmds_def spec_step_def spec_defs parse_five Let_def fun_eq_iff insert_Diff_if)

lemma cmd_guard_pttl: "cmd_guard (Ttl True at k) a"
  by (cases a) simp

lemma sample_guard: "run_guard (\<lambda>x. cmd_guard (snd x)) spec_step sample_cmds (1000, [[115] \<mapsto> (A_other OBJ_STRING, None)])"
  by (simp add: sample_cmds_def cmd_guard_pttl)

theorem commands_refine_witness:
  "\<exists>db'. run_ops (cmd_step small_set_env master_ctx insertion_qsort) sample_cmds sample_db =
     Some ([R_reply (Rep_int 3), R_reply (Rep_int 2), R_set 1 {#[50]#}, R_reply (Rep_int 2), R_reply (Rep_int 1), R_reply (Rep_int 5), R_reply Rep_ok,
       R_reply (Rep_int 1), R_set 2 {#[49], [120]#}, R_reply (Rep_int 1), R_reply (Rep_int 3), R_reply (Rep_err wrongtypeerr)], db') \<and>
     db_abs obj_abs master_ctx db' =
       [[115] \<mapsto> (A_other OBJ_STRING, None), [97] \<mapsto> (A_set {[49], [120]}, None), [99] \<mapsto> (A_set {[49], [120], [50]}, None)]"
proof -
  have "set_env_ok small_set_env" by (simp add: set_env_ok_def small_set_env_def)
  from commands_refine [OF sample_db_ok(1-3) this insertion_qsort_ok, of sample_cmds] sample_guard sample_spec
  show ?thesis unfolding sample_db_ok(4,5) by auto
qed

text \<open>
  C25: a command that changes what a client sees of a key, its value or its expire time, signals this key as modified, so that
  transactions that watch it are aborted and tracking clients are told, and raises \<open>dirty\<close>, so that the command is sent to replicas and
  written to the append-only file. The deletion of an expired key is no such change.
\<close>

theorem commands_signal:
  assumes "db_inv (obj_ok env) db" "0 \<le> clock db" "is_master ctx" "set_env_ok env" "qsort_ok qsort"
    "cmd_guard c (clock db, db_abs obj_abs ctx db)" "\<forall>n. c \<noteq> Pass n"
  shows "\<exists>r db' es. exec_cmd env ctx qsort c db = Some (r, db') \<and> events db' = events db @ es \<and> dirty db \<le> dirty db' \<and>
    (\<forall>k. db_abs obj_abs ctx db' k \<noteq> db_abs obj_abs ctx db k \<longrightarrow> Ev_modified k \<in> set es \<and> dirty db < dirty db')"
proof -
  obtain r db' where "exec_cmd env ctx qsort c db = Some (r, db')" "set_db_done env ctx db db'"
    using exec_cmd_ok [OF assms(1,3,2,4-7)] by blast
  moreover then obtain es where "events db' = events db @ es" by (auto simp: db_done_def db_grows_def)
  ultimately show ?thesis by (auto simp: db_done_def db_grows_def db_signals_def)
qed

theorem commands_signal_witness:
  "\<exists>r db'. exec_cmd small_set_env master_ctx insertion_qsort (Sadd [97] [[49]]) sample_db = Some (r, db') \<and>
     Ev_modified [97] \<in> set (events db') \<and> 0 < dirty db'"
proof -
  let ?c = "Sadd [97] [[49]]"
  have env: "set_env_ok small_set_env" by (simp add: set_env_ok_def small_set_env_def)
  have guard: "cmd_guard ?c (clock sample_db, db_abs obj_abs master_ctx sample_db)" "\<forall>n. ?c \<noteq> Pass n" by simp_all
  obtain r db' where run: "exec_cmd small_set_env master_ctx insertion_qsort ?c sample_db = Some (r, db')"
    and spec: "spec_cmd (clock sample_db) ?c (keyspace master_ctx sample_db) = (reply_res r, keyspace master_ctx db')"
    using exec_cmd_ok [OF sample_db_ok(1,3,2) env insertion_qsort_ok guard] by blast
  have "keyspace master_ctx db' [97] = snd (spec_cmd (clock sample_db) ?c (keyspace master_ctx sample_db)) [97]" using spec by simp
  then have "db_abs obj_abs master_ctx db' [97] \<noteq> db_abs obj_abs master_ctx sample_db [97]"
    unfolding sample_db_ok(4,5) by (simp add: spec_defs Let_def)
  moreover have "events sample_db = []" "dirty sample_db = 0" by (simp_all add: sample_db_def)
  ultimately show ?thesis using run commands_signal [OF sample_db_ok(1-3) env insertion_qsort_ok guard] by auto
qed

end
