(* ===== verification/Spec2Isabelle.thy ===== *)
theory Spec2Isabelle
  imports
    Ngx_Http_Request_Line_Proofs
    Ngx_Http_Header_Line_Proofs
    Ngx_Http_Uri_Proofs
    Ngx_Http_Chunked_Proofs
    Ngx_Writev_Proofs
    Ngx_Files_Proofs
    Redis_Intset_Proofs
    Redis_Util_Proofs
    Redis_Glob_Proofs
    Redis_Sds_Proofs
    Redis_Proto_Proofs
    Redis_Dict_Proofs
    Redis_Listpack_Proofs
    Redis_Listpack_Valid
    Redis_Dict_Scan
    Redis_Set_Proofs
    Redis_Sds_Run
    Redis_Set_Run
begin

text \<open>
  Verification of the WASI ports of Nginx, Redis and SQLite.

  \<^bold>\<open>The program.\<close> The repository builds three servers for \<open>wasm32\<close> with WASI preview 2: Nginx 1.31.4
  (\<open>src/wasip2-nginx\<close>), Redis 7.4.11 (\<open>src/wasip2-redis\<close>) and SQLite (\<open>src/wasip2-sqlite\<close>, whose amalgamation
  is fetched at build time and is not part of the repository). The ports keep the programs' logic and
  replace the parts of the operating system that WASI lacks. On this target \<open>size_t\<close>, \<open>long\<close> and
  \<open>ngx_uint_t\<close> have 32 bits, \<open>off_t\<close> and \<open>time_t\<close> have 64, and memory is little-endian; the models
  keep these widths where they matter.

  \<^bold>\<open>Conventions.\<close> A pointer into a buffer is an offset, \<open>NULL\<close> is \<open>None\<close> (theory \<open>Prelude\<close>). A state machine
  of the source is a step function over its state, one definition per case of the switch, run by the
  scanner of \<open>Byte_Scanner\<close>; the locale \<open>byte_scanner\<close> states what its instances share (running over two
  pieces is running over their concatenation, an invariant of the step is one of the run) and is
  interpreted on every parser. System calls are parameters of the model; what is assumed of them is
  a named predicate (\<open>sink_ok\<close>). Assertions that end the process and undefined accesses are \<open>None\<close>.

  \<^bold>\<open>Nginx, requests.\<close> \<open>Ngx_Http_Types\<close> has the request record (\<open>ngx_http_request_t\<close>) and return codes,
  \<open>Ngx_String\<close> the case folding and hash functions of \<open>ngx_string.c\<close> and \<open>ngx_hash.c\<close>.
  \<^item> \<open>Ngx_Http_Request_Line\<close>: \<open>ngx_http_parse_request_line\<close> of \<open>ngx_http_parse.c\<close>, all states. Shown:
    parsing in pieces equals parsing at once, the URI range is clean, versions do not wrap, the method is
    the one of the token.
  \<^item> \<open>Ngx_Http_Header_Line\<close>: \<open>ngx_http_parse_header_line\<close>. Shown: resumption, the grammar of accepted lines,
    the lower-case key and hash.
  \<^item> \<open>Ngx_Http_Uri\<close>: \<open>ngx_http_parse_uri\<close>, \<open>ngx_http_parse_complex_uri\<close> and
    \<open>ngx_http_process_request_uri\<close>. Shown: refinement of a declarative normalisation of URIs, hence no
    path traversal, and no write behind the allocated buffer.
  \<^item> \<open>Ngx_Http_Chunked\<close>: \<open>ngx_http_parse_chunked\<close> and \<open>ngx_http_discard_request_body_filter\<close>. Shown: resumption,
    round trip with the chunked encoding, exactness of the announced rest, no overflow of \<open>off_t\<close>.

  \<^bold>\<open>Nginx, output.\<close> \<open>Ngx_Buf\<close> has buffers, chains and \<open>ngx_chain_update_sent\<close> of \<open>ngx_buf.c\<close>; \<open>Ngx_Writev\<close>
  is \<open>ngx_writev_chain.c\<close> with the WASI replacement of \<open>writev\<close>. Shown: what is reported is what was taken,
  the buffer of 4096 bytes is not overrun, sending a chain ends and loses, repeats and
  reorders nothing. Its loops are \<open>partial_function\<close>s; that they return is part of the theorems.

  \<^bold>\<open>Nginx, files.\<close> \<open>Ngx_Files\<close> is the reading and writing of \<open>ngx_files.c\<close> with its WASI branches, \<open>pread\<close> and
  \<open>pwrite\<close> being parameters (\<open>preader_ok\<close>, \<open>pwriter_ok\<close>). Shown: a chain is written whole at its offset, or a first
  part of it before an error, and is read back as it was written.

  \<^bold>\<open>Redis.\<close> \<open>Little_Endian\<close> has integers in memory.
  \<^item> \<open>Redis_Intset\<close>: \<open>intset.c\<close>, at the level of bytes. The locale \<open>bounded_int_set\<close> is the contract of a set of
    integers, interpreted on the operations of \<open>intset.c\<close>. Shown: refinement of finite sets, exactness of
    the integrity check where \<open>size_t\<close> does not wrap around, and that it does wrap.
  \<^item> \<open>Redis_Util\<close>: the integer conversions of \<open>util.c\<close>. Shown: \<open>string2ll\<close> accepts exactly the canonical
    representations of 64-bit integers, and the round trip with \<open>ll2string\<close>.
  \<^item> \<open>Redis_Glob\<close>: \<open>stringmatchlen\<close> of \<open>util.c\<close>. Shown: equivalence with the plain meaning of patterns; the
    bound of 1000 stars is the nesting limit of the code.

  \<^item> \<open>Redis_Sds\<close>: quoting and splitting of \<open>sds.c\<close>. Shown: the round trip of \<open>sdscatrepr\<close> and \<open>sdssplitargs\<close>,
    what \<open>sdsneedsrepr\<close> ensures, and the single quote it misses.
  \<^item> \<open>Redis_Proto\<close>: the request parser of \<open>networking.c\<close>. \<open>processCommand\<close> is a parameter. Shown: pipelined requests are
    executed once, in order and with their arguments however the stream is cut into reads, and the limits for
    clients that are not authenticated.
  \<^item> \<open>Redis_Dict\<close>: the hash tables of \<open>dict.c\<close>. \<open>Redis_Dict_Inv\<close> has the invariant and the contract of a \<open>dictType\<close> (locale
    \<open>dict_type\<close>), with resizing and rehashing; \<open>Redis_Dict_Ops\<close> the refinement of the operations; \<open>Redis_Dict_Types\<close>
    interprets the contract on types of \<open>server.c\<close> with the hash functions of \<open>siphash.c\<close> (\<open>Redis_Siphash\<close>);
    \<open>Redis_Dict_Proofs\<close> has sequences of operations (by the locale \<open>simulation\<close> of \<open>Simulation\<close>) and the end of
    rehashing; \<open>Redis_Dict_Scan\<close> the guarantee of \<open>dictScan\<close>. A call of \<open>dictScan\<close> covers at least 8 of
    \<open>2^32\<close> positions, hence the bound of \<open>2^29\<close> calls.
  \<^item> \<open>Redis_Listpack\<close>: the listpacks of \<open>listpack.c\<close>, blocks of bytes with checked accesses. \<open>Redis_Listpack_Enc\<close> has the round
    trips of the encodings, \<open>Redis_Listpack_Nav\<close> moving and searching, \<open>Redis_Listpack_Ops\<close> the changes, batches and merging,
    \<open>Redis_Listpack_Proofs\<close> the refinement of lists of strings by sequences of operations (locale \<open>simulation\<close> again), and
    \<open>Redis_Listpack_Valid\<close> the integrity check on arbitrary bytes: it always returns, what the deep check accepts is safe
    to read, and the shallow one with 32-bit sizes is not enough.
  \<^item> \<open>Iteration\<close> has loops over iterators (locale \<open>finite_iterator\<close>: a loop is a fold over what the iterator has before it), and
    \<open>Redis_Dict_Iter\<close> the iterators of \<open>dict.c\<close> with their fingerprints, which interpret it.
  \<^item> \<open>Redis_Set\<close>: the set objects of \<open>t_set.c\<close>, an intset, a listpack or a hash table. \<open>Redis_Set_Enc\<close> shows for each encoding that
    iteration and conversion keep the elements, on top of the lemmas of the three components; \<open>Redis_Set_Proofs\<close> that every sequence of operations
    refines sets of strings across all conversions. The limits that \<open>set_env_ok\<close> puts on the settings keep intsets and listpacks inside
    32-bit sizes.
  \<^item> \<open>Redis_Sds_Mem\<close>: the strings of \<open>sds.c\<close> and \<open>sds.h\<close> as headers and bytes in blocks of memory, with the allocation functions of \<open>zmalloc.c\<close>.
    \<open>Redis_Sds_Inv\<close> has what a well-typed string is, with creation, room and resizing, \<open>Redis_Sds_Ops\<close> the other operations, and \<open>Redis_Sds_Run\<close> splitting,
    joining and sequences of operations (locale \<open>guarded_simulation\<close>). Shown: strings stay well-typed and hold what the operations on
    lists of bytes give. The bound \<open>2 ^ 30\<close> for lengths keeps blocks below the size from which \<open>zmalloc\<close> refuses them.

  \<^bold>\<open>Not modelled.\<close> SQLite (no source in the repository), the benchmarks, demos and run-time binaries,
  the vendored libraries (jemalloc, lua, hiredis, linenoise, hdr_histogram, fpconv), and the modules of
  Nginx and Redis that are not named above; among these the plan has next the other parsers of
  \<open>ngx_http_parse.c\<close>, the request body filters and the stubs for WASI. Logging, memory pools and statistics are left
  out of the definitions that are modelled.
\<close>

end
